(* ===== verification/Eigrp_Prelude.thy ===== *)
theory Eigrp_Prelude
  imports Main "HOL-Library.Word" "HOL-Library.Monad_Syntax" "HOL-Library.Multiset"
begin

text \<open>
  Shared vocabulary of the development: the machine integers of the C code, the result codes of
  \<^verbatim>\<open>eigrp.h\<close>, network byte order, and the list lemmas that the component theories use.

  Conventions.  A \<^verbatim>\<open>uintN_t\<close> is an \<open>N word\<close>, so arithmetic wraps as it does in C.  A \<^verbatim>\<open>size_t\<close>
  is a \<open>nat\<close>; where the C code adds two of them, the sum is written \<open>size_add\<close> with its wrap at
  \<open>2 ^ 64\<close>.  Undefined behaviour of C (a NULL dereference, a division by zero, a failed
  \<^verbatim>\<open>assert\<close>) is \<open>None\<close> of an \<open>option\<close> result.  Memory allocation is a parameter of the
  definitions that allocate (\<open>allocator\<close>, or a \<open>bool\<close> that says whether the call succeeds).
\<close>

unbundle bit_operations_syntax

type_synonym u8 = "8 word"
type_synonym u16 = "16 word"
type_synonym u32 = "32 word"
type_synonym u64 = "64 word"

named_theorems byte_simps \<open>network byte order\<close>
named_theorems stream_simps \<open>what the stream operations do to the written and unread bytes\<close>
named_theorems stream_wf \<open>well-formedness of streams is kept\<close>
named_theorems codec_simps \<open>what the field codecs do to the written and unread bytes\<close>

subsection \<open>Result codes, operations and address families (\<^verbatim>\<open>eigrp.h\<close>)\<close>

datatype eigrp_result =
    EIGRP_RESULT_SUCCESS
  | EIGRP_RESULT_NOT_IMPLEMENTED
  | EIGRP_RESULT_INVALID_ARGUMENT
  | EIGRP_RESULT_NOT_FOUND
  | EIGRP_RESULT_CONFLICT
  | EIGRP_RESULT_UNSUPPORTED
  | EIGRP_RESULT_INTERNAL_FAILURE

datatype eigrp_operation = EIGRP_SET | EIGRP_RESET

text \<open>\<open>EIGRP_AFI_NONE\<close> is the value of a zeroed field, which no case label of the code names.\<close>

datatype eigrp_afi = EIGRP_AFI_NONE | EIGRP_AFI_IPV4 | EIGRP_AFI_IPV6

subsection \<open>Sizes\<close>

definition SIZE_MAX :: nat where
  "SIZE_MAX = 2 ^ 64 - 1"

definition size_add :: "nat \<Rightarrow> nat \<Rightarrow> nat" where
  "size_add a b = (a + b) mod 2 ^ 64"

lemma size_add_exact [simp]: "a + b \<le> SIZE_MAX \<Longrightarrow> size_add a b = a + b"
  by (simp add: size_add_def SIZE_MAX_def)

lemma size_add_le_SIZE_MAX: "size_add a b \<le> SIZE_MAX"
  by (simp add: size_add_def SIZE_MAX_def)

subsection \<open>Memory\<close>

text \<open>
  \<open>A n = None\<close>: a request for \<open>n\<close> bytes fails.  \<open>A n = Some junk\<close>: it succeeds, and the byte
  at offset \<open>i\<close> that the caller has not written yet holds \<open>junk i\<close>.
\<close>

type_synonym allocator = "nat \<Rightarrow> (nat \<Rightarrow> u8) option"

definition zero_alloc :: allocator where
  "zero_alloc n = Some (\<lambda>_. 0)"

lemma zero_alloc_not_None [simp]: "zero_alloc n \<noteq> None"
  by (simp add: zero_alloc_def)

subsection \<open>Network byte order\<close>

text \<open>
  \<open>htons\<close> and \<open>htonl\<close> give the bytes of a value as they lie in memory after the conversion, which
  is what the stream copies; \<open>ntohs\<close> and \<open>ntohl\<close> read them back.
\<close>

definition htons :: "u16 \<Rightarrow> u8 list" where
  "htons w = [ucast (drop_bit 8 w), ucast w]"

definition ntohs :: "u8 list \<Rightarrow> u16" where
  "ntohs bs = push_bit 8 (ucast (bs ! 0)) OR ucast (bs ! 1)"

definition htonl :: "u32 \<Rightarrow> u8 list" where
  "htonl w = [ucast (drop_bit 24 w), ucast (drop_bit 16 w), ucast (drop_bit 8 w), ucast w]"

definition ntohl :: "u8 list \<Rightarrow> u32" where
  "ntohl bs = push_bit 24 (ucast (bs ! 0)) OR push_bit 16 (ucast (bs ! 1))
     OR push_bit 8 (ucast (bs ! 2)) OR ucast (bs ! 3)"

lemma length_htons [simp]: "length (htons w) = 2"
  by (simp add: htons_def)

lemma length_htonl [simp]: "length (htonl w) = 4"
  by (simp add: htonl_def)

lemma htons_not_Nil [simp]: "htons w \<noteq> []" "htonl v \<noteq> []"
  by (simp_all add: htons_def htonl_def)

lemma bit_u8_beyond [simp]: "8 \<le> k \<Longrightarrow> \<not> bit (b :: u8) (k + n)"
  by (auto dest: bit_imp_le_length)

lemma ntohs_htons [simp, byte_simps]: "ntohs (htons w) = w"
  unfolding ntohs_def htons_def by (rule bit_word_eqI) (auto simp: bit_simps)

lemma htons_ntohs [byte_simps]: "htons (ntohs [a, b]) = [a, b]"
  unfolding ntohs_def htons_def
  by (auto intro!: bit_word_eqI simp: bit_simps dest: bit_imp_le_length)

lemma bit_index_4_cases: "(n::nat) < 32 \<Longrightarrow> n < 8 \<or> 8 \<le> n \<and> n < 16 \<or> 16 \<le> n \<and> n < 24 \<or> 24 \<le> n"
  by arith

lemma ntohl_htonl [simp, byte_simps]: "ntohl (htonl w) = w"
proof (rule bit_word_eqI)
  fix n assume "n < LENGTH(32)"
  then have "n < 32" by simp
  then show "bit (ntohl (htonl w)) n = bit w n"
    using bit_index_4_cases [of n] unfolding ntohl_def htonl_def by (auto simp: bit_simps)
qed

lemma htonl_ntohl [byte_simps]: "htonl (ntohl [a, b, c, d]) = [a, b, c, d]"
  unfolding ntohl_def htonl_def
  by (auto intro!: bit_word_eqI simp: bit_simps dest: bit_imp_le_length)

subsection \<open>Lists\<close>

text \<open>The first element that satisfies \<open>P\<close> has the least key among those that do.\<close>

lemma find_sorted_least:
  fixes key :: "'a \<Rightarrow> 'k::linorder"
  assumes "find P xs = Some x" and "sorted (map key xs)" and "y \<in> set xs" and "P y"
  shows "key x \<le> key y"
  using assms by (induction xs) (auto split: if_splits)

lemma distinct_map_eq: "distinct (map f xs) \<Longrightarrow> x \<in> set xs \<Longrightarrow> y \<in> set xs \<Longrightarrow> f x = f y \<Longrightarrow> x = y"
  by (auto simp: distinct_map inj_on_def)

lemma distinct_map_Cons: "distinct (map f (x # xs)) \<Longrightarrow> y \<in> set xs \<Longrightarrow> f y \<noteq> f x"
  by (simp add: image_iff) metis

lemma find_Some_set: "find P xs = Some x \<Longrightarrow> x \<in> set xs \<and> P x"
  by (induction xs) (auto split: if_splits)

lemma find_None_set: "find P xs = None \<longleftrightarrow> (\<forall>x\<in>set xs. \<not> P x)"
  by (induction xs) auto

lemma find_append: "find P (xs @ ys) = (case find P xs of None \<Rightarrow> find P ys | Some x \<Rightarrow> Some x)"
  by (induction xs) auto

end
