(* ===== verification/Eigrp_Index.thy ===== *)
theory Eigrp_Index
  imports Eigrp_Prelude
begin

text \<open>
  Chained hashing as \<^verbatim>\<open>eigrp_list.c\<close> and \<^verbatim>\<open>eigrp_table.c\<close> both do it: an array of chains, a new
  entry in front of its chain, a rehash that walks the owner's list in order, a removal that unlinks
  one node from its chain.  \<open>index_ok\<close> relates the chains to the list of entries they index.
\<close>

definition index_put :: "('a \<Rightarrow> nat) \<Rightarrow> 'a list list \<Rightarrow> 'a \<Rightarrow> 'a list list" where
  "index_put h bs x = (let i = h x mod length bs in bs[i := x # bs ! i])"

definition index_build :: "('a \<Rightarrow> nat) \<Rightarrow> nat \<Rightarrow> 'a list \<Rightarrow> 'a list list" where
  "index_build h n xs = foldl (index_put h) (replicate n []) xs"

definition index_del :: "('a \<Rightarrow> nat) \<Rightarrow> 'a \<Rightarrow> 'a list list \<Rightarrow> 'a list list" where
  "index_del h x bs = (let i = h x mod length bs in bs[i := remove1 x (bs ! i)])"

definition index_find :: "nat \<Rightarrow> ('a \<Rightarrow> bool) \<Rightarrow> 'a list list \<Rightarrow> 'a option" where
  "index_find key P bs = find P (bs ! (key mod length bs))"

definition index_ok :: "('a \<Rightarrow> nat) \<Rightarrow> 'a list \<Rightarrow> 'a list list \<Rightarrow> bool" where
  "index_ok h xs bs \<longleftrightarrow> bs \<noteq> [] \<and>
     (\<forall>i<length bs. mset (bs ! i) = filter_mset (\<lambda>x. h x mod length bs = i) (mset xs))"

lemma length_index [simp]:
  "length (index_put h bs x) = length bs" "length (index_del h x bs) = length bs"
  by (simp_all add: index_put_def index_del_def Let_def)

lemma index_put_ok:
  assumes "index_ok h xs bs"
  shows "index_ok h (xs @ [x]) (index_put h bs x)"
  using assms by (auto simp: index_ok_def index_put_def Let_def nth_list_update)

lemma index_ok_mset: "mset xs = mset ys \<Longrightarrow> index_ok h xs bs = index_ok h ys bs"
  by (simp add: index_ok_def)

lemma index_empty_ok: "0 < n \<Longrightarrow> index_ok h [] (replicate n [])"
  by (simp add: index_ok_def)

lemma index_foldl_ok:
  "index_ok h ys bs \<Longrightarrow> index_ok h (ys @ xs) (foldl (index_put h) bs xs)"
proof (induction xs arbitrary: ys bs)
  case (Cons x xs)
  show ?case using Cons.IH [OF index_put_ok [OF Cons.prems], of x] by simp
qed simp

lemma index_build_ok: "0 < n \<Longrightarrow> index_ok h xs (index_build h n xs)"
  using index_foldl_ok [OF index_empty_ok, of n h xs] by (simp add: index_build_def)

lemma length_index_build [simp]: "length (index_build h n xs) = n"
proof -
  have "length (foldl (index_put h) bs xs) = length bs" for bs by (induction xs arbitrary: bs) auto
  then show ?thesis by (simp add: index_build_def)
qed

lemma index_del_ok:
  assumes "index_ok h xs bs" and "x \<in> set xs"
  shows "index_ok h (remove1 x xs) (index_del h x bs)"
  using assms by (auto simp: index_ok_def index_del_def Let_def nth_list_update)

lemma index_bucket_set:
  assumes "index_ok h xs bs" and "i < length bs"
  shows "set (bs ! i) = {x \<in> set xs. h x mod length bs = i}"
proof -
  have "set_mset (mset (bs ! i)) = set_mset (filter_mset (\<lambda>x. h x mod length bs = i) (mset xs))"
    using assms by (simp add: index_ok_def)
  then show ?thesis by auto
qed

text \<open>
  A lookup in one chain finds what a scan of the whole list would, as long as at most one entry fits
  and entries that fit hash to the key.
\<close>

lemma find_unique:
  assumes "\<And>x y. x \<in> set xs \<Longrightarrow> y \<in> set xs \<Longrightarrow> P x \<Longrightarrow> P y \<Longrightarrow> x = y" and "set ys \<subseteq> set xs"
    and "\<And>x. x \<in> set xs \<Longrightarrow> P x \<Longrightarrow> x \<in> set ys"
  shows "find P ys = find P xs"
proof (cases "find P xs")
  case None
  then have "find P ys = None" using assms(2) by (auto simp: find_None_set)
  then show ?thesis using None by simp
next
  case (Some x)
  then have x: "x \<in> set xs" "P x" using find_Some_set by fastforce+
  then have "find P ys \<noteq> None" using assms(3) by (auto simp: find_None_set)
  then obtain y where y: "find P ys = Some y" by auto
  then have "y \<in> set xs" "P y" using find_Some_set [OF y] assms(2) by auto
  with x assms(1) have "x = y" by blast
  then show ?thesis using Some y by simp
qed

lemma index_find_eq:
  assumes "index_ok h xs bs"
    and "\<And>x. x \<in> set xs \<Longrightarrow> P x \<Longrightarrow> h x = key"
    and "\<And>x y. x \<in> set xs \<Longrightarrow> y \<in> set xs \<Longrightarrow> P x \<Longrightarrow> P y \<Longrightarrow> x = y"
  shows "index_find key P bs = find P xs"
proof -
  have "key mod length bs < length bs" using assms(1) by (simp add: index_ok_def)
  from index_bucket_set [OF assms(1) this] show ?thesis
    unfolding index_find_def using assms(2,3) by (intro find_unique) auto
qed

lemma in_set_remove1_D: "x \<in> set (remove1 n xs) \<Longrightarrow> x \<in> set xs"
  using set_remove1_subset by fastforce

lemma distinct_map_remove1: "distinct (map f xs) \<Longrightarrow> distinct (map f (remove1 n xs))"
  by (induction xs) (auto dest!: in_set_remove1_D)

lemma find_map_unique:
  assumes "distinct (map f xs)"
  shows "find (\<lambda>x. f x = k) xs = Some y \<longleftrightarrow> y \<in> set xs \<and> f y = k"
proof
  assume "find (\<lambda>x. f x = k) xs = Some y"
  then show "y \<in> set xs \<and> f y = k" using find_Some_set by fastforce
next
  assume y: "y \<in> set xs \<and> f y = k"
  then have "find (\<lambda>x. f x = k) xs \<noteq> None" by (auto simp: find_None_set)
  then obtain z where z: "find (\<lambda>x. f x = k) xs = Some z" by auto
  then have "z \<in> set xs" "f z = k" using find_Some_set by fastforce+
  with y z show "find (\<lambda>x. f x = k) xs = Some y" using distinct_map_eq [OF assms] by metis
qed

end
