(* ===== verification/Eigrp_Prefix.thy ===== *)
theory Eigrp_Prefix
  imports Eigrp_Prelude
begin

text \<open>
  Address prefixes (\<^verbatim>\<open>eigrp_prefix.c\<close>) and the Internet checksum (\<^verbatim>\<open>eigrp_checksum.c\<close>).  The
  specification reads a prefix as a string of bits, most significant bit of the first byte first:
  \<open>addr_bit\<close>.  Normalising clears exactly the bits after the prefix length, and an address matches a
  prefix exactly when it agrees with it on the bits before.
\<close>

record eigrp_address =
  addr_afi :: eigrp_afi
  addr_bytes :: "u8 list"

record eigrp_prefix =
  pfx_address :: eigrp_address
  pfx_length :: u8

abbreviation pfx_afi :: "eigrp_prefix \<Rightarrow> eigrp_afi" where
  "pfx_afi p \<equiv> addr_afi (pfx_address p)"

abbreviation pfx_bytes :: "eigrp_prefix \<Rightarrow> u8 list" where
  "pfx_bytes p \<equiv> addr_bytes (pfx_address p)"

text \<open>The C array \<^verbatim>\<open>uint8_t bytes[16]\<close> has sixteen elements, whatever the address family.\<close>

definition address_ok :: "eigrp_address \<Rightarrow> bool" where
  "address_ok a \<longleftrightarrow> length (addr_bytes a) = 16"

definition zero_address :: eigrp_address where
  "zero_address = \<lparr>addr_afi = EIGRP_AFI_NONE, addr_bytes = replicate 16 0\<rparr>"

definition zero_prefix :: eigrp_prefix where
  "zero_prefix = \<lparr>pfx_address = zero_address, pfx_length = 0\<rparr>"

subsection \<open>The operations\<close>

fun eigrp_prefix_address_bytes :: "eigrp_afi \<Rightarrow> nat" where
  "eigrp_prefix_address_bytes EIGRP_AFI_IPV4 = 4"
| "eigrp_prefix_address_bytes EIGRP_AFI_IPV6 = 16"
| "eigrp_prefix_address_bytes EIGRP_AFI_NONE = 0"

definition eigrp_prefix_valid :: "eigrp_prefix \<Rightarrow> bool" where
  "eigrp_prefix_valid p =
     (case pfx_afi p of
        EIGRP_AFI_IPV4 \<Rightarrow> pfx_length p \<le> 32
      | EIGRP_AFI_IPV6 \<Rightarrow> pfx_length p \<le> 128
      | EIGRP_AFI_NONE \<Rightarrow> False)"

definition byte_mask :: "nat \<Rightarrow> u8" where
  "byte_mask remaining_bits = push_bit (8 - remaining_bits) 255"

definition eigrp_prefix_normalize :: "eigrp_prefix \<Rightarrow> eigrp_prefix" where
  "eigrp_prefix_normalize p =
     (if \<not> eigrp_prefix_valid p then p
      else
        let address_bytes = eigrp_prefix_address_bytes (pfx_afi p);
            full_bytes = unat (pfx_length p) div 8;
            remaining_bits = unat (pfx_length p) mod 8;
            bs = pfx_bytes p;
            (bs, full_bytes) =
              (if remaining_bits \<noteq> 0 \<and> full_bytes < address_bytes
               then (bs[full_bytes := bs ! full_bytes AND byte_mask remaining_bits], full_bytes + 1)
               else (bs, full_bytes));
            bs = (if full_bytes < address_bytes
                  then take full_bytes bs @ replicate (address_bytes - full_bytes) 0
                         @ drop address_bytes bs
                  else bs);
            bs = (if address_bytes < 16
                  then take address_bytes bs @ replicate (16 - address_bytes) 0
                  else bs)
        in p\<lparr>pfx_address := (pfx_address p)\<lparr>addr_bytes := bs\<rparr>\<rparr>)"

definition eigrp_prefix_address_match :: "eigrp_prefix \<Rightarrow> eigrp_address \<Rightarrow> bool" where
  "eigrp_prefix_address_match p a =
     (if \<not> eigrp_prefix_valid p \<or> pfx_afi p \<noteq> addr_afi a then False
      else
        let address_bytes = eigrp_prefix_address_bytes (pfx_afi p);
            full_bytes = unat (pfx_length p) div 8;
            remaining_bits = unat (pfx_length p) mod 8
        in if full_bytes \<noteq> 0 \<and> take full_bytes (pfx_bytes p) \<noteq> take full_bytes (addr_bytes a) then False
           else if remaining_bits = 0 then True
           else if address_bytes \<le> full_bytes then False
           else (pfx_bytes p ! full_bytes AND byte_mask remaining_bits)
                  = (addr_bytes a ! full_bytes AND byte_mask remaining_bits))"

text \<open>The checksum: 16-bit big-endian words summed in 32 bits, the carries folded back, complemented.\<close>

fun checksum_sum :: "u32 \<Rightarrow> u8 list \<Rightarrow> u32" where
  "checksum_sum acc (a # b # p) = checksum_sum (acc + (push_bit 8 (ucast a) OR ucast b)) p"
| "checksum_sum acc [a] = acc + push_bit 8 (ucast a)"
| "checksum_sum acc [] = acc"

function checksum_fold :: "u32 \<Rightarrow> u32" where
  "checksum_fold acc =
     (if drop_bit 16 acc \<noteq> 0 then checksum_fold ((acc AND 0xffff) + drop_bit 16 acc) else acc)"
  by pat_completeness auto

lemma fold_less:
  fixes n k :: nat
  assumes "n div k \<noteq> 0" and "1 < k"
  shows "n mod k + n div k < n"
proof -
  have "n div k < n div k * k" using assms by simp
  then show ?thesis using div_mult_mod_eq [of n k] by linarith
qed

lemma checksum_fold_decreases:
  fixes acc :: u32
  assumes "drop_bit 16 acc \<noteq> 0"
  shows "unat ((acc AND 0xffff) + drop_bit 16 acc) < unat acc"
proof -
  let ?h = "unat acc div 2 ^ 16" and ?l = "unat acc mod 2 ^ 16"
  have m: "(0xffff :: u32) = mask 16" by (simp add: mask_eq_exp_minus_1)
  have h: "unat (drop_bit 16 acc) = ?h" by (simp add: drop_bit_eq_div unat_div)
  have "unat (acc AND 0xffff) = unat (take_bit 16 acc)" by (simp only: m take_bit_eq_mask)
  also have "\<dots> = take_bit 16 (unat acc)" by (rule unsigned_take_bit_eq)
  also have "\<dots> = ?l" by (rule take_bit_eq_mod)
  finally have l: "unat (acc AND 0xffff) = ?l" .
  have "?h \<noteq> 0" using assms h by (metis unat_eq_zero)
  moreover have "unat acc < 2 ^ 32" using unsigned_less [of acc] by simp
  then have "?h < 2 ^ 16" by (simp add: less_mult_imp_div_less)
  moreover have "?l + ?h < 2 ^ 32" using \<open>?h < 2 ^ 16\<close> mod_less_divisor [of "2 ^ 16" "unat acc"] by simp
  ultimately have "unat ((acc AND 0xffff) + drop_bit 16 acc) = ?l + ?h"
    by (simp add: unat_word_ariths h l)
  also have "\<dots> < unat acc"
    by (rule fold_less [OF \<open>?h \<noteq> 0\<close>]) simp
  finally show ?thesis .
qed

termination checksum_fold
  by (relation "measure unat") (use checksum_fold_decreases in auto)

declare checksum_fold.simps [simp del]

definition eigrp_checksum :: "u8 list \<Rightarrow> u16" where
  "eigrp_checksum bs = ucast (NOT (checksum_fold (checksum_sum 0 bs)))"

subsection \<open>Prefixes as bit strings\<close>

definition addr_bit :: "u8 list \<Rightarrow> nat \<Rightarrow> bool" where
  "addr_bit bs i \<longleftrightarrow> bit (bs ! (i div 8)) (7 - i mod 8)"

lemma bit_255: "bit (255 :: u8) k \<longleftrightarrow> k < 8"
proof -
  have "(255 :: u8) = mask 8" by (simp add: mask_eq_exp_minus_1)
  then have "bit (255 :: u8) k = bit (mask 8 :: u8) k" by (simp only:)
  then show ?thesis by (simp only: bit_mask_iff) simp
qed

lemma bit_byte_mask: "n < 8 \<Longrightarrow> bit (byte_mask r) n \<longleftrightarrow> 8 - r \<le> n"
  unfolding byte_mask_def bit_push_bit_iff bit_255 by auto

lemma byte_mask_0 [simp]: "byte_mask 0 = 0"
  by (rule bit_word_eqI) (simp add: bit_byte_mask)

lemma eigrp_prefix_valid_bits:
  assumes "eigrp_prefix_valid p"
  shows "unat (pfx_length p) \<le> 8 * eigrp_prefix_address_bytes (pfx_afi p)"
    and "eigrp_prefix_address_bytes (pfx_afi p) \<in> {4, 16}"
  using assms by (auto simp: eigrp_prefix_valid_def word_le_nat_alt split: eigrp_afi.splits)

lemma normalize_frame [simp]:
  "pfx_length (eigrp_prefix_normalize p) = pfx_length p"
  "pfx_afi (eigrp_prefix_normalize p) = pfx_afi p"
  by (auto simp: eigrp_prefix_normalize_def Let_def)

lemma valid_normalize [simp]:
  "eigrp_prefix_valid (eigrp_prefix_normalize p) = eigrp_prefix_valid p"
  by (simp add: eigrp_prefix_valid_def split: eigrp_afi.split)

lemma length_normalize [simp]:
  "address_ok (pfx_address p) \<Longrightarrow> address_ok (pfx_address (eigrp_prefix_normalize p))"
  using eigrp_prefix_valid_bits [of p]
  by (auto simp: eigrp_prefix_normalize_def address_ok_def Let_def)

lemma nth_normalize:
  assumes v: "eigrp_prefix_valid p" and l: "address_ok (pfx_address p)" and j: "j < 16"
  shows "pfx_bytes (eigrp_prefix_normalize p) ! j =
     (if j < unat (pfx_length p) div 8 then pfx_bytes p ! j
      else if j = unat (pfx_length p) div 8
           then pfx_bytes p ! j AND byte_mask (unat (pfx_length p) mod 8) else 0)"
proof -
  let ?f = "unat (pfx_length p) div 8" and ?r = "unat (pfx_length p) mod 8"
    and ?ab = "eigrp_prefix_address_bytes (pfx_afi p)"
  have f: "?f < ?ab" if "?r \<noteq> 0"
    using that eigrp_prefix_valid_bits(1) [OF v] by presburger
  have f': "?f \<le> ?ab" using eigrp_prefix_valid_bits(1) [OF v] by simp
  from v l j f f' eigrp_prefix_valid_bits(2) [OF v] show ?thesis
    by (cases "?r = 0")
      (auto simp: eigrp_prefix_normalize_def Let_def address_ok_def nth_append nth_list_update)
qed

lemma less_by_byte:
  fixes i n :: nat
  shows "i < n \<longleftrightarrow> i div 8 < n div 8 \<or> i div 8 = n div 8 \<and> i mod 8 < n mod 8"
proof -
  have "i mod 8 < 8" "n mod 8 < 8" by simp_all
  moreover have "i = 8 * (i div 8) + i mod 8" "n = 8 * (n div 8) + n mod 8" by simp_all
  ultimately show ?thesis by linarith
qed

lemma addr_bit_normalize:
  assumes v: "eigrp_prefix_valid p" and l: "address_ok (pfx_address p)" and i: "i < 128"
  shows "addr_bit (pfx_bytes (eigrp_prefix_normalize p)) i
     \<longleftrightarrow> i < unat (pfx_length p) \<and> addr_bit (pfx_bytes p) i"
proof -
  let ?n = "unat (pfx_length p)"
  have j: "i div 8 < 16" using i by simp
  have m: "7 - i mod 8 < 8" by simp
  have "i mod 8 < 8" "?n mod 8 < 8" by simp_all
  then have k: "8 - ?n mod 8 \<le> 7 - i mod 8 \<longleftrightarrow> i mod 8 < ?n mod 8" by linarith
  show ?thesis
    unfolding addr_bit_def nth_normalize [OF v l j] less_by_byte [of i ?n] using k
    by (auto simp: bit_simps bit_byte_mask [OF m])
qed

lemma masked_byte_eq_iff:
  fixes a b :: u8
  assumes "r < 8"
  shows "a AND byte_mask r = b AND byte_mask r \<longleftrightarrow> (\<forall>k<r. bit a (7 - k) = bit b (7 - k))"
proof -
  have "a AND byte_mask r = b AND byte_mask r
      \<longleftrightarrow> (\<forall>n<8. 8 - r \<le> n \<longrightarrow> bit a n = bit b n)"
    by (auto simp: bit_eq_iff bit_simps bit_byte_mask)
  also have "\<dots> \<longleftrightarrow> (\<forall>k<r. bit a (7 - k) = bit b (7 - k))"
  proof (rule iffI; intro allI impI)
    fix n assume h: "\<forall>k<r. bit a (7 - k) = bit b (7 - k)" and n: "n < 8" "8 - r \<le> n"
    then have "7 - n < r" by linarith
    with h have "bit a (7 - (7 - n)) = bit b (7 - (7 - n))" by blast
    with n show "bit a n = bit b n" by simp
  next
    fix k assume h: "\<forall>n<8. 8 - r \<le> n \<longrightarrow> bit a n = bit b n" and k: "k < r"
    moreover have "7 - k < 8" "8 - r \<le> 7 - k" using k assms by linarith+
    ultimately show "bit a (7 - k) = bit b (7 - k)" by blast
  qed
  finally show ?thesis .
qed

lemma byte_eq_iff:
  fixes a b :: u8
  shows "a = b \<longleftrightarrow> (\<forall>k<8. bit a (7 - k) = bit b (7 - k))"
proof
  assume h: "\<forall>k<8. bit a (7 - k) = bit b (7 - k)"
  show "a = b"
  proof (rule bit_word_eqI)
    fix n assume "n < LENGTH(8)"
    then have "7 - n < 8" "7 - (7 - n) = n" by simp_all
    with h show "bit a n = bit b n" by metis
  qed
qed simp

lemma addr_bits_eq_iff:
  assumes "length xs = 16" and "length ys = 16" and "n \<le> 128"
  shows "(\<forall>i<n. addr_bit xs i = addr_bit ys i)
     \<longleftrightarrow> take (n div 8) xs = take (n div 8) ys
         \<and> (\<forall>k<n mod 8. bit (xs ! (n div 8)) (7 - k) = bit (ys ! (n div 8)) (7 - k))"
    (is "?bits \<longleftrightarrow> ?bytes \<and> ?rest")
proof -
  have nth: "?bytes \<longleftrightarrow> (\<forall>j<n div 8. xs ! j = ys ! j)"
    using assms by (auto simp: list_eq_iff_nth_eq min_def)
  have at: "addr_bit zs (8 * j + k) = bit (zs ! j) (7 - k)" if "k < 8" for zs j k
    using that by (simp add: addr_bit_def)
  show ?thesis
  proof (intro iffI)
    assume h: ?bits
    have "bit (xs ! j) (7 - k) = bit (ys ! j) (7 - k)" if "8 * j + k < n" "k < 8" for j k
      using h that at by metis
    moreover have "8 * j + k < n" if "j < n div 8" "k < 8" for j k
      using that by (simp add: less_by_byte [of _ n])
    moreover have "8 * (n div 8) + k < n" "k < 8" if "k < n mod 8" for k
      using that mod_less_divisor [of 8 n] by (auto simp: less_by_byte [of _ n])
    ultimately show "?bytes \<and> ?rest" unfolding nth byte_eq_iff by blast
  next
    assume h: "?bytes \<and> ?rest"
    show ?bits
    proof (intro allI impI)
      fix i assume "i < n"
      then show "addr_bit xs i = addr_bit ys i"
        using h unfolding nth less_by_byte [of i n] addr_bit_def by auto
    qed
  qed
qed

lemma address_match_bits:
  assumes v: "eigrp_prefix_valid p" and p: "address_ok (pfx_address p)" and a: "address_ok a"
  shows "eigrp_prefix_address_match p a
     \<longleftrightarrow> pfx_afi p = addr_afi a
         \<and> (\<forall>i<unat (pfx_length p). addr_bit (pfx_bytes p) i = addr_bit (addr_bytes a) i)"
proof -
  let ?n = "unat (pfx_length p)" and ?ab = "eigrp_prefix_address_bytes (pfx_afi p)"
  note b = eigrp_prefix_valid_bits [OF v]
  have n: "?n \<le> 128" using b by auto
  have f: "?n div 8 < ?ab" if "?n mod 8 \<noteq> 0"
    using that b(1) div_mult_mod_eq [of ?n 8] by linarith
  have r: "?n mod 8 < 8" by simp
  show ?thesis
    unfolding addr_bits_eq_iff [OF p [unfolded address_ok_def] a [unfolded address_ok_def] n]
      masked_byte_eq_iff [OF r, symmetric]
    using v f by (auto simp: eigrp_prefix_address_match_def Let_def not_le)
qed

lemma list_eq_addr_bits:
  assumes "length xs = 16" and "length ys = 16" and "\<And>i. i < 128 \<Longrightarrow> addr_bit xs i = addr_bit ys i"
  shows "xs = ys"
  using addr_bits_eq_iff [of xs ys 128] assms by simp

lemma normalize_idempotent:
  assumes "address_ok (pfx_address p)"
  shows "eigrp_prefix_normalize (eigrp_prefix_normalize p) = eigrp_prefix_normalize p"
proof (cases "eigrp_prefix_valid p")
  case True
  have ok: "address_ok (pfx_address (eigrp_prefix_normalize p))"
    "address_ok (pfx_address (eigrp_prefix_normalize (eigrp_prefix_normalize p)))"
    using assms by simp_all
  have "pfx_bytes (eigrp_prefix_normalize (eigrp_prefix_normalize p)) = pfx_bytes (eigrp_prefix_normalize p)"
    using ok True assms by (intro list_eq_addr_bits) (auto simp: address_ok_def addr_bit_normalize)
  then show ?thesis by (auto intro!: eigrp_prefix.equality eigrp_address.equality)
qed (simp add: eigrp_prefix_normalize_def)

text \<open>A normalised prefix has nothing but zeros after its significant bytes.\<close>

lemma normalize_pad:
  assumes v: "eigrp_prefix_valid p" and l: "address_ok (pfx_address p)"
    and k: "unat (pfx_length p) \<le> 8 * k" "k \<le> 16"
  shows "take k (pfx_bytes (eigrp_prefix_normalize p)) @ replicate (16 - k) 0
     = pfx_bytes (eigrp_prefix_normalize p)"
proof (rule nth_equalityI)
  have len: "length (pfx_bytes (eigrp_prefix_normalize p)) = 16"
    using length_normalize [OF l] by (simp add: address_ok_def)
  then show "length (take k (pfx_bytes (eigrp_prefix_normalize p)) @ replicate (16 - k) 0)
      = length (pfx_bytes (eigrp_prefix_normalize p))" using k by simp
  fix j assume "j < length (take k (pfx_bytes (eigrp_prefix_normalize p)) @ replicate (16 - k) (0::u8))"
  then have j: "j < 16" using len k by simp
  show "(take k (pfx_bytes (eigrp_prefix_normalize p)) @ replicate (16 - k) 0) ! j
      = pfx_bytes (eigrp_prefix_normalize p) ! j"
  proof (cases "j < k")
    case False
    then have "\<not> j < unat (pfx_length p) div 8" using k by simp
    moreover have "unat (pfx_length p) mod 8 = 0" if "j = unat (pfx_length p) div 8"
      using that False k(1) div_mult_mod_eq [of "unat (pfx_length p)" 8] by linarith
    ultimately have "pfx_bytes (eigrp_prefix_normalize p) ! j = 0"
      by (simp add: nth_normalize [OF v l j])
    then show ?thesis using False len j k by (simp add: nth_append)
  qed (use len k in \<open>simp add: nth_append\<close>)
qed

subsection \<open>The checksum as one's complement arithmetic\<close>

text \<open>The sum over the integers; the 32-bit accumulator of the code equals it for any packet length.\<close>

fun be_sum :: "u8 list \<Rightarrow> nat" where
  "be_sum (a # b # p) = 256 * unat a + unat b + be_sum p"
| "be_sum [a] = 256 * unat a"
| "be_sum [] = 0"

lemma u8_bounds: "unat (a :: u8) \<le> 255"
  using unsigned_less [where ?'b = 8 and ?'a = nat, of a] by simp

lemma be_sum_le: "be_sum bs \<le> 65535 * ((length bs + 1) div 2)"
proof (induction bs rule: be_sum.induct)
  case (1 a b p)
  then show ?case using u8_bounds [of a] u8_bounds [of b] by simp
next
  case (2 a)
  then show ?case using u8_bounds [of a] by simp
qed simp

lemma be_sum_append: "even (length xs) \<Longrightarrow> be_sum (xs @ ys) = be_sum xs + be_sum ys"
  by (induction xs rule: be_sum.induct) auto

lemma unat_be16: "unat (push_bit 8 (ucast (a :: u8)) OR ucast (b :: u8) :: u32) = 256 * unat a + unat b"
proof -
  have e: "(push_bit 8 (ucast a) OR ucast b :: u32) = push_bit 8 (ucast a) + ucast b"
    by (rule disjunctive_add [symmetric]) (auto simp: bit_simps dest: bit_imp_le_length)
  have "unat (push_bit 8 (ucast a) :: u32) = 256 * unat a"
    using u8_bounds [of a]
    by (simp add: push_bit_eq_mult unat_word_ariths unsigned_ucast_eq take_bit_eq_mod)
  then show ?thesis
    unfolding e using u8_bounds [of a] u8_bounds [of b]
    by (simp add: unat_word_ariths unsigned_ucast_eq take_bit_eq_mod)
qed

lemma unat_be8: "unat (push_bit 8 (ucast (a :: u8)) :: u32) = 256 * unat a"
  using unat_be16 [of a 0] by simp

lemma checksum_sum_exact:
  "unat acc + be_sum bs < 2 ^ 32 \<Longrightarrow> unat (checksum_sum acc bs) = unat acc + be_sum bs"
proof (induction acc bs rule: checksum_sum.induct)
  case (1 acc a b p)
  have "unat (acc + (push_bit 8 (ucast a) OR ucast b)) = unat acc + (256 * unat a + unat b)"
    using "1.prems" by (simp add: unat_word_ariths unat_be16)
  with 1 show ?case by simp
qed (simp_all add: unat_word_ariths unat_be8)

definition ones_complement :: "nat \<Rightarrow> nat" where
  "ones_complement n = (if n = 0 then 0 else (n - 1) mod 65535 + 1)"

lemma ones_complement_fold:
  assumes "n div 65536 \<noteq> 0"
  shows "ones_complement (n mod 65536 + n div 65536) = ones_complement n"
proof -
  define l h where "l = n mod 65536" and "h = n div 65536"
  have n: "n = l + 65536 * h" by (simp add: l_def h_def)
  have h: "h \<noteq> 0" using assms by (simp add: h_def)
  then have "n - 1 = (l + h - 1) + 65535 * h" using n by simp
  then have "(n - 1) mod 65535 = (l + h - 1) mod 65535" by (simp only: mod_mult_self2)
  then show ?thesis unfolding ones_complement_def l_def [symmetric] h_def [symmetric] using h n by simp
qed

lemma unat_fold_step:
  fixes acc :: u32
  shows "unat ((acc AND 0xffff) + drop_bit 16 acc) = unat acc mod 65536 + unat acc div 65536"
proof -
  have h: "unat (drop_bit 16 acc) = unat acc div 65536" by (simp add: drop_bit_eq_div unat_div)
  have "(0xffff :: u32) = mask 16" by (simp add: mask_eq_exp_minus_1)
  then have "unat (acc AND 0xffff) = unat (take_bit 16 acc)" by (simp only: take_bit_eq_mask)
  also have "\<dots> = take_bit 16 (unat acc)" by (rule unsigned_take_bit_eq)
  also have "\<dots> = unat acc mod 65536" by (simp add: take_bit_eq_mod)
  finally have l: "unat (acc AND 0xffff) = unat acc mod 65536" .
  have "unat acc < 2 ^ 32" using unsigned_less [of acc] by simp
  then have "unat acc div 65536 < 65536" by (simp add: less_mult_imp_div_less)
  moreover have "unat acc mod 65536 < 65536" by simp
  ultimately have "unat acc mod 65536 + unat acc div 65536 < 2 ^ 32" by simp
  then show ?thesis by (simp add: unat_word_ariths h l)
qed

lemma drop_bit_16_eq_0: "drop_bit 16 (acc :: u32) = 0 \<longleftrightarrow> unat acc div 65536 = 0"
proof -
  have "unat (drop_bit 16 acc) = unat acc div 65536" by (simp add: drop_bit_eq_div unat_div)
  then show ?thesis by (metis unat_eq_zero)
qed

lemma unat_checksum_fold: "unat (checksum_fold acc) = ones_complement (unat acc)"
proof (induction acc rule: checksum_fold.induct)
  case (1 acc)
  show ?case
  proof (cases "drop_bit 16 acc = 0")
    case True
    then have "unat acc < 65536" by (simp add: drop_bit_16_eq_0 div_eq_0_iff)
    with True show ?thesis by (auto simp: checksum_fold.simps [of acc] ones_complement_def)
  next
    case False
    with 1 show ?thesis
      by (simp add: checksum_fold.simps [of acc] unat_fold_step ones_complement_fold drop_bit_16_eq_0)
  qed
qed

lemma ones_complement_le: "ones_complement n \<le> 65535"
  by (auto simp: ones_complement_def Suc_leI)

lemma unat_eigrp_checksum:
  assumes "length bs \<le> 65535"
  shows "unat (eigrp_checksum bs) = 65535 - ones_complement (be_sum bs)"
proof -
  have "be_sum bs < 2 ^ 32" using be_sum_le [of bs] assms by simp
  then have f: "unat (checksum_fold (checksum_sum 0 bs)) = ones_complement (be_sum bs)"
    by (simp add: unat_checksum_fold checksum_sum_exact)
  define w where "w = checksum_fold (checksum_sum 0 bs)"
  have w: "unat w \<le> 65535" using f ones_complement_le by (simp add: w_def)
  have "unat (NOT w) = unat (- 1 - w)" by (simp add: not_eq_complement diff_right_commute minus_diff_commute)
  also have "\<dots> = unat (- 1 :: u32) - unat w" by (rule unat_sub) simp
  finally have "unat (NOT w) = 4294967295 - unat w" by (simp add: unsigned_minus_1_eq_mask mask_eq_exp_minus_1)
  then have "unat (ucast (NOT w) :: u16) = (4294967295 - unat w) mod 65536"
    by (simp add: unsigned_ucast_eq take_bit_eq_mod)
  also have "4294967295 - unat w = (65535 - unat w) + 65535 * 65536" using w by simp
  also have "\<dots> mod 65536 = (65535 - unat w) mod 65536" by (rule mod_mult_self1)
  also have "\<dots> = 65535 - unat w" by (rule mod_less) simp
  finally have "unat (ucast (NOT w) :: u16) = 65535 - unat w" .
  then show ?thesis unfolding eigrp_checksum_def w_def f .
qed

lemma be_sum_htons: "be_sum (htons w) = unat w"
proof -
  have "unat (drop_bit 8 w) = unat w div 256" by (simp add: drop_bit_eq_div unat_div)
  moreover have "unat w < 65536" using unsigned_less [where ?'b = 16 and ?'a = nat, of w] by simp
  ultimately show ?thesis
    by (simp add: htons_def unsigned_ucast_eq take_bit_eq_mod less_mult_imp_div_less)
qed

lemma ones_complement_complement: "ones_complement (n + (65535 - ones_complement n)) = 65535"
proof (cases "n = 0")
  case False
  define q r where "q = (n - 1) div 65535" and "r = (n - 1) mod 65535"
  have "n = 65535 * q + r + 1" using False by (simp add: q_def r_def)
  moreover have "r < 65535" by (simp add: r_def)
  ultimately have "n + (65535 - (r + 1)) = 65534 + 65535 * q + 1" by simp
  then have "(n + (65535 - (r + 1)) - 1) mod 65535 = 65534"
    by (simp only: add_diff_cancel_right' mod_mult_self2) simp
  moreover have e: "ones_complement n = r + 1" using False by (simp only: ones_complement_def r_def if_False)
  moreover have "n + (65535 - (r + 1)) \<noteq> 0" using False by simp
  ultimately show ?thesis unfolding e by (simp add: ones_complement_def)
qed (simp add: ones_complement_def)

subsection \<open>Correctness\<close>

text \<open>
  Normalising a valid prefix clears every bit after the prefix length and keeps every bit before
  it; the length and the family stay; a second normalisation changes nothing.
\<close>

theorem prefix_normalize_correct:
  assumes "eigrp_prefix_valid p" and "address_ok (pfx_address p)"
  shows "(\<forall>i<128. addr_bit (pfx_bytes (eigrp_prefix_normalize p)) i
           = (i < unat (pfx_length p) \<and> addr_bit (pfx_bytes p) i))
    \<and> pfx_length (eigrp_prefix_normalize p) = pfx_length p
    \<and> pfx_afi (eigrp_prefix_normalize p) = pfx_afi p
    \<and> eigrp_prefix_normalize (eigrp_prefix_normalize p) = eigrp_prefix_normalize p"
  using assms by (simp add: addr_bit_normalize normalize_idempotent)

definition sample_prefix :: eigrp_prefix where
  "sample_prefix = \<lparr>pfx_address = \<lparr>addr_afi = EIGRP_AFI_IPV4,
      addr_bytes = [10, 1, 0x7f, 9] @ replicate 12 0\<rparr>, pfx_length = 20\<rparr>"

lemma sample_prefix_ok: "eigrp_prefix_valid sample_prefix" "address_ok (pfx_address sample_prefix)"
  by (simp_all add: sample_prefix_def eigrp_prefix_valid_def address_ok_def word_le_nat_alt)

theorem prefix_normalize_correct_witness:
  "eigrp_prefix_normalize (eigrp_prefix_normalize sample_prefix) = eigrp_prefix_normalize sample_prefix"
  using prefix_normalize_correct [OF sample_prefix_ok] by simp

text \<open>
  An address matches a valid prefix exactly when it is of the same family and agrees with the
  prefix on each of its leading bits; so a match does not depend on the host bits of the prefix.
\<close>

theorem prefix_match_correct:
  assumes "eigrp_prefix_valid p" and "address_ok (pfx_address p)" and "address_ok a"
  shows "(eigrp_prefix_address_match p a
     \<longleftrightarrow> pfx_afi p = addr_afi a
         \<and> (\<forall>i<unat (pfx_length p). addr_bit (pfx_bytes p) i = addr_bit (addr_bytes a) i))
    \<and> eigrp_prefix_address_match (eigrp_prefix_normalize p) a = eigrp_prefix_address_match p a"
proof -
  have n: "unat (pfx_length p) \<le> 128" using eigrp_prefix_valid_bits [OF assms(1)] by auto
  have "eigrp_prefix_address_match (eigrp_prefix_normalize p) a = eigrp_prefix_address_match p a"
    using assms n by (auto simp: address_match_bits addr_bit_normalize)
  with address_match_bits [OF assms] show ?thesis by blast
qed

theorem prefix_match_correct_witness:
  "eigrp_prefix_address_match (eigrp_prefix_normalize sample_prefix) (pfx_address sample_prefix)
     = eigrp_prefix_address_match sample_prefix (pfx_address sample_prefix)"
  using prefix_match_correct [OF sample_prefix_ok sample_prefix_ok(2)] by simp

lemma checksum_self:
  assumes "even (length pre)" and "length (pre @ [0, 0] @ post) \<le> 65535"
  shows "eigrp_checksum (pre @ htons (eigrp_checksum (pre @ [0, 0] @ post)) @ post) = 0"
proof -
  let ?S = "be_sum pre + be_sum post" and ?c = "eigrp_checksum (pre @ [0, 0] @ post)"
  obtain hi lo where h: "htons ?c = [hi, lo]" by (simp add: htons_def)
  have c: "unat ?c = 65535 - ones_complement ?S"
    using assms by (simp only: unat_eigrp_checksum) (simp add: be_sum_append)
  have "be_sum [hi, lo] = unat ?c" by (simp add: be_sum_htons flip: h)
  then have "be_sum (pre @ htons ?c @ post) = ?S + unat ?c"
    using assms(1) h by (simp add: be_sum_append)
  then have "unat (eigrp_checksum (pre @ htons ?c @ post)) = 65535 - ones_complement (?S + unat ?c)"
    using assms(2) by (simp add: unat_eigrp_checksum)
  also have "\<dots> = 0" unfolding c by (simp add: ones_complement_complement)
  finally show ?thesis by (metis unat_eq_zero)
qed

text \<open>
  A packet validates against its own checksum.  The sender computes the checksum over the packet
  with the two checksum bytes zero and stores it there in network order; the receiver, which sums
  the packet as it is, then gets 0.
\<close>

theorem checksum_validates:
  assumes "even (length pre)" and "length (pre @ [0, 0] @ post) \<le> 65535"
  shows "eigrp_checksum (pre @ htons (eigrp_checksum (pre @ [0, 0] @ post)) @ post) = 0"
  using assms by (rule checksum_self)

theorem checksum_validates_witness:
  "eigrp_checksum ([2, 5] @ htons (eigrp_checksum ([2, 5] @ [0, 0] @ [1, 2, 3])) @ [1, 2, 3]) = 0"
  by (rule checksum_validates) simp_all

end
