(* ===== verification/Eigrp_Table.thy ===== *)
theory Eigrp_Table
  imports Eigrp_Index Eigrp_Prefix
begin

text \<open>
  The prefix table (\<^verbatim>\<open>eigrp_table.c\<close>): nodes in insertion order, hashed by their normalised prefix.
  A node is its identity and its prefix, which never change after creation; the \<^verbatim>\<open>info\<close> pointer that
  clients store in it is kept per identity in \<open>tbl_info\<close>, 0 for NULL.  The locale \<open>prefix_map\<close> states
  what clients rely on; the table implements it, and longest-prefix match is proved from it alone.
\<close>

record eigrp_table_node =
  node_id :: nat
  node_prefix :: eigrp_prefix

record eigrp_table =
  tbl_nodes :: "eigrp_table_node list"
  tbl_buckets :: "eigrp_table_node list list"
  tbl_size :: nat
  tbl_info :: "nat \<Rightarrow> u64"

definition EIGRP_TABLE_INITIAL_BUCKETS :: nat where "EIGRP_TABLE_INITIAL_BUCKETS = 1024"

fun afi_number :: "eigrp_afi \<Rightarrow> u64" where
  "afi_number EIGRP_AFI_NONE = 0"
| "afi_number EIGRP_AFI_IPV4 = 4"
| "afi_number EIGRP_AFI_IPV6 = 6"

definition hash_step :: "u64 \<Rightarrow> u64 \<Rightarrow> u64" where
  "hash_step hash v = (hash XOR v) * 16777619"

definition eigrp_table_prefix_hash :: "eigrp_prefix \<Rightarrow> nat" where
  "eigrp_table_prefix_hash p =
     (let len = (if pfx_afi p = EIGRP_AFI_IPV4 then 4 else 16);
          hash = hash_step 2166136261 (afi_number (pfx_afi p));
          hash = hash_step hash (ucast (pfx_length p))
      in unat (foldl (\<lambda>hash b. hash_step hash (ucast b)) hash (take len (pfx_bytes p))))"

definition eigrp_table_prefix_match :: "eigrp_prefix \<Rightarrow> eigrp_prefix \<Rightarrow> bool" where
  "eigrp_table_prefix_match a b \<longleftrightarrow> pfx_afi a = pfx_afi b \<and> pfx_length a = pfx_length b
     \<and> (let n = (if pfx_afi a = EIGRP_AFI_IPV4 then 4 else 16) in take n (pfx_bytes a) = take n (pfx_bytes b))"

abbreviation node_hash :: "eigrp_table_node \<Rightarrow> nat" where
  "node_hash n \<equiv> eigrp_table_prefix_hash (node_prefix n)"

text \<open>The first argument says whether \<^verbatim>\<open>calloc\<close> succeeds.\<close>

definition eigrp_table_resize :: "bool \<Rightarrow> eigrp_table \<Rightarrow> nat \<Rightarrow> bool \<times> eigrp_table" where
  "eigrp_table_resize calloc_ok t buckets =
     (if \<not> calloc_ok then (False, t)
      else (True, t\<lparr>tbl_buckets := index_build node_hash buckets (tbl_nodes t)\<rparr>))"

definition eigrp_table_create :: "bool \<Rightarrow> bool \<Rightarrow> eigrp_table option" where
  "eigrp_table_create calloc_ok buckets_ok =
     (if \<not> calloc_ok then None
      else let t = \<lparr>tbl_nodes = [], tbl_buckets = [], tbl_size = 0, tbl_info = (\<lambda>_. 0)\<rparr>;
               (ok, t) = eigrp_table_resize buckets_ok t EIGRP_TABLE_INITIAL_BUCKETS
           in if ok then Some t else None)"

definition eigrp_table_node_lookup :: "eigrp_table \<Rightarrow> eigrp_prefix \<Rightarrow> eigrp_table_node option" where
  "eigrp_table_node_lookup t p =
     (if \<not> eigrp_prefix_valid p \<or> tbl_buckets t = [] then None
      else let key = eigrp_prefix_normalize p
           in index_find (eigrp_table_prefix_hash key) (\<lambda>n. eigrp_table_prefix_match (node_prefix n) key) (tbl_buckets t))"

definition eigrp_table_node_lookup_or_create ::
    "bool \<Rightarrow> bool \<Rightarrow> nat \<Rightarrow> eigrp_table \<Rightarrow> eigrp_prefix \<Rightarrow> eigrp_table_node option \<times> eigrp_table" where
  "eigrp_table_node_lookup_or_create resize_ok calloc_ok nid t p =
     (if \<not> eigrp_prefix_valid p then (None, t)
      else case eigrp_table_node_lookup t p of
             Some n \<Rightarrow> (Some n, t)
           | None \<Rightarrow>
               let t = (if length (tbl_buckets t) * 2 \<le> tbl_size t \<and> length (tbl_buckets t) \<le> SIZE_MAX div 2
                        then snd (eigrp_table_resize resize_ok t (length (tbl_buckets t) * 2)) else t)
               in if \<not> calloc_ok then (None, t)
                  else let n = \<lparr>node_id = nid, node_prefix = eigrp_prefix_normalize p\<rparr>
                       in (Some n, t\<lparr>tbl_buckets := index_put node_hash (tbl_buckets t) n,
                                     tbl_nodes := tbl_nodes t @ [n],
                                     tbl_size := tbl_size t + 1,
                                     tbl_info := (tbl_info t)(nid := 0)\<rparr>))"

text \<open>The chain is searched for the node itself; a node that is not in it is left alone.\<close>

definition eigrp_table_node_remove :: "eigrp_table \<Rightarrow> eigrp_table_node \<Rightarrow> eigrp_table" where
  "eigrp_table_node_remove t n =
     (if tbl_buckets t = [] then t
      else if n \<notin> set (tbl_buckets t ! (node_hash n mod length (tbl_buckets t))) then t
      else t\<lparr>tbl_buckets := index_del node_hash n (tbl_buckets t),
             tbl_nodes := remove1 n (tbl_nodes t),
             tbl_size := tbl_size t - 1\<rparr>)"

text \<open>The loop of \<^verbatim>\<open>eigrp_table_node_match\<close> over descending lengths, with the probe as its argument.\<close>

primrec match_loop :: "(eigrp_prefix \<Rightarrow> 'n option) \<Rightarrow> ('n \<Rightarrow> bool) \<Rightarrow> eigrp_prefix \<Rightarrow> nat \<Rightarrow> 'n option" where
  "match_loop lookup used p 0 =
     (case lookup (p\<lparr>pfx_length := 0\<rparr>) of
        Some n \<Rightarrow> if used n then Some n else None
      | None \<Rightarrow> None)"
| "match_loop lookup used p (Suc b) =
     (case lookup (p\<lparr>pfx_length := of_nat (Suc b)\<rparr>) of
        Some n \<Rightarrow> if used n then Some n else match_loop lookup used p b
      | None \<Rightarrow> match_loop lookup used p b)"

definition eigrp_table_node_match :: "eigrp_table \<Rightarrow> eigrp_prefix \<Rightarrow> eigrp_table_node option" where
  "eigrp_table_node_match t p =
     (if \<not> eigrp_prefix_valid p then None
      else match_loop (eigrp_table_node_lookup t) (\<lambda>n. tbl_info t (node_id n) \<noteq> 0) p (unat (pfx_length p)))"

subsection \<open>The interface\<close>

text \<open>
  A map from prefixes to nodes: \<open>lookup\<close> depends on the prefix only through its normal form, an
  insertion changes one entry, a deletion clears one, and both keep the invariant.
\<close>

locale prefix_map =
  fixes inv :: "'t \<Rightarrow> bool" and lookup :: "'t \<Rightarrow> eigrp_prefix \<Rightarrow> 'n option"
    and key :: "'n \<Rightarrow> eigrp_prefix"
    and insert :: "nat \<Rightarrow> 't \<Rightarrow> eigrp_prefix \<Rightarrow> 'n option \<times> 't" and fresh :: "'t \<Rightarrow> nat \<Rightarrow> bool"
    and remove :: "'t \<Rightarrow> 'n \<Rightarrow> 't"
  assumes lookup_key: "inv t \<Longrightarrow> lookup t p = Some n \<Longrightarrow> address_ok (pfx_address p) \<Longrightarrow> key n = eigrp_prefix_normalize p"
    and lookup_valid: "lookup t p = Some n \<Longrightarrow> eigrp_prefix_valid p"
    and lookup_normalize: "address_ok (pfx_address p) \<Longrightarrow> lookup t (eigrp_prefix_normalize p) = lookup t p"
    and insert_inv: "inv t \<Longrightarrow> fresh t i \<Longrightarrow> address_ok (pfx_address p) \<Longrightarrow> inv (snd (insert i t p))"
    and insert_lookup:
      "inv t \<Longrightarrow> fresh t i \<Longrightarrow> address_ok (pfx_address p) \<Longrightarrow> address_ok (pfx_address q) \<Longrightarrow> insert i t p = (Some n, t')
       \<Longrightarrow> lookup t' q = (if eigrp_prefix_valid q \<and> eigrp_prefix_normalize q = eigrp_prefix_normalize p
                        then Some n else lookup t q)"
    and remove_inv: "inv t \<Longrightarrow> lookup t p = Some n \<Longrightarrow> inv (remove t n)"
    and remove_lookup:
      "inv t \<Longrightarrow> lookup t p = Some n \<Longrightarrow> address_ok (pfx_address p) \<Longrightarrow> address_ok (pfx_address q)
       \<Longrightarrow> lookup (remove t n) q = (if eigrp_prefix_normalize q = eigrp_prefix_normalize p then None else lookup t q)"

text \<open>\<open>covers q p\<close>: the prefix \<open>q\<close> is no longer than \<open>p\<close> and agrees with it on its leading bits.\<close>

definition covers :: "eigrp_prefix \<Rightarrow> eigrp_prefix \<Rightarrow> bool" where
  "covers q p \<longleftrightarrow> pfx_length q \<le> pfx_length p \<and> eigrp_prefix_address_match q (pfx_address p)"

lemma prefix_ext: "pfx_afi p = pfx_afi q \<Longrightarrow> pfx_bytes p = pfx_bytes q \<Longrightarrow> pfx_length p = pfx_length q \<Longrightarrow> p = q"
  by (auto intro!: eigrp_prefix.equality eigrp_address.equality)

lemma address_of_length [simp]: "pfx_address (p\<lparr>pfx_length := l\<rparr>) = pfx_address p"
  by simp

lemma valid_shorter: "eigrp_prefix_valid p \<Longrightarrow> l \<le> pfx_length p \<Longrightarrow> eigrp_prefix_valid (p\<lparr>pfx_length := l\<rparr>)"
  by (auto simp: eigrp_prefix_valid_def split: eigrp_afi.splits)

text \<open>A normalised prefix covers \<open>p\<close> exactly when it is \<open>p\<close> cut to its length.\<close>

lemma covers_iff_cut:
  assumes q: "eigrp_prefix_normalize q = q" "eigrp_prefix_valid q" "address_ok (pfx_address q)"
    and p: "eigrp_prefix_valid p" "address_ok (pfx_address p)" and l: "pfx_length q \<le> pfx_length p"
  shows "covers q p \<longleftrightarrow> q = eigrp_prefix_normalize (p\<lparr>pfx_length := pfx_length q\<rparr>)"
proof
  let ?c = "p\<lparr>pfx_length := pfx_length q\<rparr>"
  have c: "eigrp_prefix_valid ?c" "address_ok (pfx_address ?c)" using p l by (simp_all add: valid_shorter)
  have n: "unat (pfx_length q) \<le> 128" using eigrp_prefix_valid_bits [OF q(2)] by auto
  {
    assume "covers q p"
    then have m: "pfx_afi q = pfx_afi p" "\<And>i. i < unat (pfx_length q) \<Longrightarrow> addr_bit (pfx_bytes q) i = addr_bit (pfx_bytes p) i"
      using address_match_bits [OF q(2,3) p(2)] by (auto simp: covers_def)
    have "pfx_bytes q = pfx_bytes (eigrp_prefix_normalize ?c)"
    proof (rule list_eq_addr_bits)
      show "length (pfx_bytes q) = 16" "length (pfx_bytes (eigrp_prefix_normalize ?c)) = 16"
        using q(3) length_normalize [OF c(2)] by (simp_all add: address_ok_def)
      fix i :: nat assume i: "i < 128"
      have "addr_bit (pfx_bytes q) i \<longleftrightarrow> i < unat (pfx_length q) \<and> addr_bit (pfx_bytes q) i"
        using addr_bit_normalize [OF q(2,3) i] q(1) by simp
      then show "addr_bit (pfx_bytes q) i = addr_bit (pfx_bytes (eigrp_prefix_normalize ?c)) i"
        using addr_bit_normalize [OF c i] m(2) by auto
    qed
    then show "q = eigrp_prefix_normalize ?c" using m(1) by (intro prefix_ext) simp_all
  }
  assume e: "q = eigrp_prefix_normalize ?c"
  have "pfx_afi q = pfx_afi ?c" by (metis e normalize_frame(2))
  moreover have "addr_bit (pfx_bytes q) i = addr_bit (pfx_bytes p) i" if "i < unat (pfx_length q)" for i
    using addr_bit_normalize [OF c, of i] e that n by simp
  ultimately show "covers q p"
    using address_match_bits [OF q(2,3) p(2)] l by (simp add: covers_def)
qed

context prefix_map
begin

text \<open>The probing loop finds the longest used entry among those no longer than \<open>b\<close> bits.\<close>

lemma match_loop_Some:
  "match_loop (lookup t) used p b = Some n
   \<Longrightarrow> \<exists>l\<le>b. lookup t (p\<lparr>pfx_length := of_nat l\<rparr>) = Some n \<and> used n
        \<and> (\<forall>k. l < k \<and> k \<le> b \<longrightarrow> (\<forall>m. lookup t (p\<lparr>pfx_length := of_nat k\<rparr>) = Some m \<longrightarrow> \<not> used m))"
proof (induction b)
  case 0
  then show ?case by (auto split: option.splits if_splits)
next
  case (Suc b)
  show ?case
  proof (cases "\<exists>m. lookup t (p\<lparr>pfx_length := of_nat (Suc b)\<rparr>) = Some m \<and> used m")
    case True
    with Suc.prems show ?thesis by (auto simp del: of_nat_Suc)
  next
    case False
    with Suc.prems have "match_loop (lookup t) used p b = Some n" by (auto split: option.splits if_splits)
    from Suc.IH [OF this] False show ?thesis by (metis le_Suc_eq)
  qed
qed

lemma match_loop_None:
  "match_loop (lookup t) used p b = None
   \<Longrightarrow> \<forall>k\<le>b. \<forall>m. lookup t (p\<lparr>pfx_length := of_nat k\<rparr>) = Some m \<longrightarrow> \<not> used m"
  by (induction b) (auto simp: le_Suc_eq simp del: of_nat_Suc split: option.splits if_splits)

lemma lookup_cut:
  assumes "inv t" and "lookup t q = Some m" and "address_ok (pfx_address q)"
    and p: "eigrp_prefix_valid p" "address_ok (pfx_address p)" and c: "covers (key m) p"
  shows "lookup t (p\<lparr>pfx_length := pfx_length (key m)\<rparr>) = Some m"
proof -
  have k: "key m = eigrp_prefix_normalize q" and v: "eigrp_prefix_valid q"
    using assms lookup_key lookup_valid by blast+
  have "key m = eigrp_prefix_normalize (p\<lparr>pfx_length := pfx_length (key m)\<rparr>)"
    using c v k p assms(3) covers_iff_cut [of "key m" p] by (simp add: normalize_idempotent covers_def)
  then show ?thesis
    using lookup_normalize [of q t] lookup_normalize [of "p\<lparr>pfx_length := pfx_length (key m)\<rparr>" t] k assms(2,3) p(2) by simp
qed

lemma cut_covers:
  assumes "inv t" and "lookup t (p\<lparr>pfx_length := l\<rparr>) = Some n" and "l \<le> pfx_length p"
    and p: "eigrp_prefix_valid p" "address_ok (pfx_address p)"
  shows "covers (key n) p \<and> pfx_length (key n) = l"
proof -
  let ?c = "p\<lparr>pfx_length := l\<rparr>"
  have k: "key n = eigrp_prefix_normalize ?c" using assms lookup_key [of t ?c n] by simp
  have v: "eigrp_prefix_valid ?c" "address_ok (pfx_address ?c)" using p assms(3) by (simp_all add: valid_shorter)
  have l: "pfx_length (key n) = l" using k by (metis eigrp_prefix.select_convs(2) eigrp_prefix.surjective eigrp_prefix.update_convs(2) normalize_frame(1))
  show ?thesis using covers_iff_cut [of "key n" p] k l v p assms(3) by (simp add: normalize_idempotent)
qed

lemma unat_lt_256: "unat (x :: u8) < 256"
  using unsigned_less [of x] by simp

lemma of_nat_unat_u8: "l \<le> unat (x :: u8) \<Longrightarrow> unat (of_nat l :: u8) = l"
  using unat_lt_256 [of x] by (simp add: unat_of_nat)

theorem match_longest:
  assumes t: "inv t" and p: "eigrp_prefix_valid p" "address_ok (pfx_address p)"
    and m: "match_loop (lookup t) used p (unat (pfx_length p)) = Some n"
  shows "(\<exists>q. address_ok (pfx_address q) \<and> lookup t q = Some n) \<and> used n \<and> covers (key n) p
     \<and> (\<forall>q m. address_ok (pfx_address q) \<and> lookup t q = Some m \<and> used m \<and> covers (key m) p
            \<longrightarrow> pfx_length (key m) \<le> pfx_length (key n))"
proof -
  obtain l where l: "l \<le> unat (pfx_length p)" "lookup t (p\<lparr>pfx_length := of_nat l\<rparr>) = Some n" "used n"
    and mx: "\<And>k m. l < k \<Longrightarrow> k \<le> unat (pfx_length p) \<Longrightarrow> lookup t (p\<lparr>pfx_length := of_nat k\<rparr>) = Some m \<Longrightarrow> \<not> used m"
    using match_loop_Some [OF m] by metis
  have ul: "unat (of_nat l :: u8) = l" by (rule of_nat_unat_u8 [OF l(1)])
  have c: "covers (key n) p \<and> pfx_length (key n) = of_nat l"
    using cut_covers [OF t l(2) _ p] l(1) ul by (simp add: word_le_nat_alt)
  have "pfx_length (key m) \<le> pfx_length (key n)"
    if q: "address_ok (pfx_address q)" "lookup t q = Some m" and um: "used m" "covers (key m) p" for q m
  proof (rule ccontr)
    assume "\<not> ?thesis"
    then have "l < unat (pfx_length (key m))" using c ul by (simp add: word_le_nat_alt)
    then show False using mx [of "unat (pfx_length (key m))" m] um lookup_cut [OF t q(2,1) p um(2)]
      by (simp add: covers_def word_le_nat_alt)
  qed
  then show ?thesis using c l(2,3) p(2) by (metis address_of_length)
qed

theorem match_none:
  assumes t: "inv t" and p: "eigrp_prefix_valid p" "address_ok (pfx_address p)"
    and m: "match_loop (lookup t) used p (unat (pfx_length p)) = None"
    and q: "address_ok (pfx_address q)" "lookup t q = Some n" and c: "covers (key n) p"
  shows "\<not> used n"
  using match_loop_None [OF m, rule_format, of "unat (pfx_length (key n))" n] lookup_cut [OF t q(2,1) p c] c
  by (simp add: covers_def word_le_nat_alt)

end

subsection \<open>The table implements the interface\<close>

definition key_ok :: "eigrp_prefix \<Rightarrow> bool" where
  "key_ok q \<longleftrightarrow> eigrp_prefix_valid q \<and> address_ok (pfx_address q) \<and> eigrp_prefix_normalize q = q"

definition table_ok :: "eigrp_table \<Rightarrow> bool" where
  "table_ok t \<longleftrightarrow> index_ok node_hash (tbl_nodes t) (tbl_buckets t)
     \<and> distinct (map node_id (tbl_nodes t)) \<and> distinct (map node_prefix (tbl_nodes t))
     \<and> (\<forall>n\<in>set (tbl_nodes t). key_ok (node_prefix n)) \<and> tbl_size t = length (tbl_nodes t)"

definition fresh_id :: "eigrp_table \<Rightarrow> nat \<Rightarrow> bool" where
  "fresh_id t i \<longleftrightarrow> i \<notin> node_id ` set (tbl_nodes t)"

lemma key_ok_normalize: "eigrp_prefix_valid p \<Longrightarrow> address_ok (pfx_address p) \<Longrightarrow> key_ok (eigrp_prefix_normalize p)"
  by (simp add: key_ok_def normalize_idempotent)

lemma ipv4_key_bytes:
  assumes "key_ok q" and "pfx_afi q = EIGRP_AFI_IPV4"
  shows "pfx_bytes q = take 4 (pfx_bytes q) @ replicate 12 0"
proof -
  have nn: "eigrp_prefix_normalize q = q" using assms(1) by (simp add: key_ok_def)
  have "unat (pfx_length q) \<le> 8 * 4"
    using assms eigrp_prefix_valid_bits(1) [of q] by (simp add: key_ok_def)
  then have "take 4 (pfx_bytes (eigrp_prefix_normalize q)) @ replicate (16 - 4) 0 = pfx_bytes (eigrp_prefix_normalize q)"
    using assms(1) by (intro normalize_pad) (simp_all add: key_ok_def)
  then show ?thesis by (simp add: nn)
qed

lemma table_prefix_match_key:
  assumes "key_ok a" and "key_ok b"
  shows "eigrp_table_prefix_match a b \<longleftrightarrow> a = b"
proof
  assume m: "eigrp_table_prefix_match a b"
  have l: "length (pfx_bytes a) = 16" "length (pfx_bytes b) = 16"
    using assms by (simp_all add: key_ok_def address_ok_def)
  have "pfx_bytes a = pfx_bytes b"
  proof (cases "pfx_afi a = EIGRP_AFI_IPV4")
    case True
    with m have "pfx_afi b = EIGRP_AFI_IPV4" "take 4 (pfx_bytes a) = take 4 (pfx_bytes b)"
      by (auto simp: eigrp_table_prefix_match_def)
    with ipv4_key_bytes [OF assms(1) True] ipv4_key_bytes [OF assms(2)] show ?thesis by metis
  next
    case False
    with m l show ?thesis by (auto simp: eigrp_table_prefix_match_def)
  qed
  with m show "a = b" by (intro prefix_ext) (auto simp: eigrp_table_prefix_match_def)
qed (simp add: eigrp_table_prefix_match_def)

lemma table_lookup_eq:
  assumes t: "table_ok t" and p: "address_ok (pfx_address p)"
  shows "eigrp_table_node_lookup t p =
     (if eigrp_prefix_valid p then find (\<lambda>n. node_prefix n = eigrp_prefix_normalize p) (tbl_nodes t) else None)"
proof (cases "eigrp_prefix_valid p")
  case True
  let ?k = "eigrp_prefix_normalize p"
  have k: "key_ok ?k" using True p by (rule key_ok_normalize)
  have m: "eigrp_table_prefix_match (node_prefix n) ?k \<longleftrightarrow> node_prefix n = ?k" if "n \<in> set (tbl_nodes t)" for n
    using that t k by (auto simp: table_ok_def table_prefix_match_key)
  have "index_find (eigrp_table_prefix_hash ?k) (\<lambda>n. eigrp_table_prefix_match (node_prefix n) ?k) (tbl_buckets t)
      = find (\<lambda>n. eigrp_table_prefix_match (node_prefix n) ?k) (tbl_nodes t)"
    using t m distinct_map_eq [of node_prefix "tbl_nodes t"] 
    by (intro index_find_eq [where h = node_hash]) (auto simp: table_ok_def)
  also have "\<dots> = find (\<lambda>n. node_prefix n = ?k) (tbl_nodes t)"
    using m by (intro find_cong) auto
  finally show ?thesis using True t by (simp add: eigrp_table_node_lookup_def table_ok_def index_ok_def)
qed (simp add: eigrp_table_node_lookup_def)

lemma resize_ok: "table_ok t \<Longrightarrow> 0 < n \<Longrightarrow> table_ok (snd (eigrp_table_resize ok t n))"
  by (simp add: eigrp_table_resize_def table_ok_def index_build_ok)

lemma resize_nodes [simp]:
  "tbl_nodes (snd (eigrp_table_resize ok t n)) = tbl_nodes t" "tbl_info (snd (eigrp_table_resize ok t n)) = tbl_info t"
  "tbl_size (snd (eigrp_table_resize ok t n)) = tbl_size t"
  by (simp_all add: eigrp_table_resize_def)

text \<open>What \<^verbatim>\<open>lookup_or_create\<close> does, in terms of the node list.\<close>

lemma create_cases:
  assumes t: "table_ok t" and f: "fresh_id t i" and p: "address_ok (pfx_address p)"
    and e: "eigrp_table_node_lookup_or_create r c i t p = (x, t')"
  shows "table_ok t' \<and> (x = eigrp_table_node_lookup t p \<and> tbl_nodes t' = tbl_nodes t
     \<or> eigrp_prefix_valid p \<and> eigrp_table_node_lookup t p = None
       \<and> x = Some \<lparr>node_id = i, node_prefix = eigrp_prefix_normalize p\<rparr>
       \<and> tbl_nodes t' = tbl_nodes t @ [\<lparr>node_id = i, node_prefix = eigrp_prefix_normalize p\<rparr>])"
proof (cases "eigrp_prefix_valid p \<and> eigrp_table_node_lookup t p = None")
  case False
  then show ?thesis using e t
    by (auto simp: eigrp_table_node_lookup_or_create_def eigrp_table_node_lookup_def split: if_splits option.splits)
next
  case True
  let ?n = "\<lparr>node_id = i, node_prefix = eigrp_prefix_normalize p\<rparr>"
  define t1 where "t1 = (if length (tbl_buckets t) * 2 \<le> tbl_size t \<and> length (tbl_buckets t) \<le> SIZE_MAX div 2
      then snd (eigrp_table_resize r t (length (tbl_buckets t) * 2)) else t)"
  have nb: "0 < length (tbl_buckets t)" using t by (simp add: table_ok_def index_ok_def)
  have t1: "table_ok t1" "tbl_nodes t1 = tbl_nodes t" using resize_ok [OF t] nb t by (simp_all add: t1_def)
  have new: "eigrp_prefix_normalize p \<notin> node_prefix ` set (tbl_nodes t)"
    using True table_lookup_eq [OF t p] by (auto simp: find_None_set)
  have e1: "(x, t') = (if \<not> c then (None, t1) else (Some ?n,
      t1\<lparr>tbl_buckets := index_put node_hash (tbl_buckets t1) ?n, tbl_nodes := tbl_nodes t1 @ [?n],
         tbl_size := tbl_size t1 + 1, tbl_info := (tbl_info t1)(i := 0)\<rparr>))"
    using e True unfolding eigrp_table_node_lookup_or_create_def Let_def t1_def [symmetric] by simp
  show ?thesis
  proof (cases c)
    case c: True
    have "table_ok t'"
      using e1 c t1 f new True p
      by (auto simp: table_ok_def fresh_id_def index_put_ok key_ok_normalize)
    then show ?thesis using e1 c True t1 by simp
  qed (use e1 t1 True in simp)
qed

lemma remove_eq:
  assumes t: "table_ok t" and n: "n \<in> set (tbl_nodes t)"
  shows "table_ok (eigrp_table_node_remove t n)"
    and "tbl_nodes (eigrp_table_node_remove t n) = remove1 n (tbl_nodes t)"
proof -
  have nb: "tbl_buckets t \<noteq> []" "index_ok node_hash (tbl_nodes t) (tbl_buckets t)"
    using t by (simp_all add: table_ok_def index_ok_def)
  then have "n \<in> set (tbl_buckets t ! (node_hash n mod length (tbl_buckets t)))"
    using index_bucket_set [OF nb(2), of "node_hash n mod length (tbl_buckets t)"] n by simp
  then have e: "eigrp_table_node_remove t n = t\<lparr>tbl_buckets := index_del node_hash n (tbl_buckets t),
      tbl_nodes := remove1 n (tbl_nodes t), tbl_size := tbl_size t - 1\<rparr>"
    using nb by (simp add: eigrp_table_node_remove_def)
  show "tbl_nodes (eigrp_table_node_remove t n) = remove1 n (tbl_nodes t)" by (simp add: e)
  show "table_ok (eigrp_table_node_remove t n)"
    using t n index_del_ok [OF nb(2) n] unfolding e
    by (auto simp: table_ok_def length_remove1 distinct_map_remove1 dest: in_set_remove1_D)
qed

lemma table_lookup_iff:
  assumes "table_ok t" and "address_ok (pfx_address p)"
  shows "eigrp_table_node_lookup t p = Some n
     \<longleftrightarrow> eigrp_prefix_valid p \<and> n \<in> set (tbl_nodes t) \<and> node_prefix n = eigrp_prefix_normalize p"
proof -
  have "distinct (map node_prefix (tbl_nodes t))" using assms(1) by (simp add: table_ok_def)
  from find_map_unique [OF this] show ?thesis by (simp add: table_lookup_eq [OF assms])
qed

lemma option_eq_iff: "(\<And>x. a = Some x \<longleftrightarrow> b = Some x) \<Longrightarrow> a = b"
  by (cases a; cases b) auto

lemma table_insert_lookup:
  assumes t: "table_ok t" "fresh_id t i" and p: "address_ok (pfx_address p)" and q: "address_ok (pfx_address q)"
    and e: "eigrp_table_node_lookup_or_create r c i t p = (Some n, t')"
  shows "eigrp_table_node_lookup t' q =
     (if eigrp_prefix_valid q \<and> eigrp_prefix_normalize q = eigrp_prefix_normalize p then Some n
      else eigrp_table_node_lookup t q)"
proof -
  note cc = create_cases [OF t p e]
  then have t': "table_ok t'" by simp
  have new: "False" if "eigrp_table_node_lookup t p = None" "eigrp_prefix_valid p" "x \<in> set (tbl_nodes t)"
      "node_prefix x = eigrp_prefix_normalize p" for x
    using that table_lookup_iff [OF t(1) p, of x] by simp
  from cc show ?thesis
  proof (elim conjE disjE)
    assume "Some n = eigrp_table_node_lookup t p" and "tbl_nodes t' = tbl_nodes t"
    with table_lookup_iff [OF t(1) p, of n] have "n \<in> set (tbl_nodes t)" "node_prefix n = eigrp_prefix_normalize p"
      and "tbl_nodes t' = tbl_nodes t" by simp_all
    then show ?thesis using table_lookup_iff [OF t(1) q] table_lookup_iff [OF t' q] by (metis option_eq_iff)
  next
    assume "eigrp_prefix_valid p" "eigrp_table_node_lookup t p = None"
      "Some n = Some \<lparr>node_id = i, node_prefix = eigrp_prefix_normalize p\<rparr>"
      "tbl_nodes t' = tbl_nodes t @ [\<lparr>node_id = i, node_prefix = eigrp_prefix_normalize p\<rparr>]"
    then have "set (tbl_nodes t') = Set.insert n (set (tbl_nodes t))" "node_prefix n = eigrp_prefix_normalize p"
      "\<And>x. x \<in> set (tbl_nodes t) \<Longrightarrow> node_prefix x \<noteq> eigrp_prefix_normalize p" using new by auto
    then show ?thesis using table_lookup_iff [OF t(1) q] table_lookup_iff [OF t' q] by (metis option_eq_iff insert_iff)
  qed
qed

lemma table_remove_lookup:
  assumes t: "table_ok t" and n: "eigrp_table_node_lookup t p = Some n"
    and p: "address_ok (pfx_address p)" and q: "address_ok (pfx_address q)"
  shows "eigrp_table_node_lookup (eigrp_table_node_remove t n) q
     = (if eigrp_prefix_normalize q = eigrp_prefix_normalize p then None else eigrp_table_node_lookup t q)"
proof -
  have nn: "n \<in> set (tbl_nodes t)" "node_prefix n = eigrp_prefix_normalize p" using n table_lookup_iff [OF t p] by auto
  have d: "distinct (tbl_nodes t)" using t by (auto simp: table_ok_def distinct_map)
  have u: "x = n" if "x \<in> set (tbl_nodes t)" "node_prefix x = node_prefix n" for x
    using t that nn(1) distinct_map_eq [of node_prefix "tbl_nodes t"] by (auto simp: table_ok_def)
  show ?thesis
    using u nn(2) set_remove1_eq [OF d, of n] remove_eq(2) [OF t nn(1)]
      table_lookup_iff [OF remove_eq(1) [OF t nn(1)] q] table_lookup_iff [OF t q]
    by (metis option.exhaust option_eq_iff DiffD2 DiffI DiffE insertI1 singletonD)
qed

lemma table_lookup_node: "eigrp_table_node_lookup t p = Some n \<Longrightarrow> table_ok t \<Longrightarrow> n \<in> set (tbl_nodes t)"
proof -
  assume a: "eigrp_table_node_lookup t p = Some n" "table_ok t"
  let ?i = "eigrp_table_prefix_hash (eigrp_prefix_normalize p) mod length (tbl_buckets t)"
  have "n \<in> set (tbl_buckets t ! ?i)" and "?i < length (tbl_buckets t)"
    using a by (auto simp: eigrp_table_node_lookup_def Let_def index_find_def split: if_splits dest!: find_Some_set)
  then show ?thesis using a(2) index_bucket_set [of node_hash "tbl_nodes t" "tbl_buckets t" ?i] by (simp add: table_ok_def)
qed

interpretation tbl: prefix_map table_ok eigrp_table_node_lookup node_prefix
  "eigrp_table_node_lookup_or_create r c" fresh_id eigrp_table_node_remove for r c
proof (unfold_locales, goal_cases)
  case 1 then show ?case by (simp add: table_lookup_iff)
next
  case 2 then show ?case by (auto simp: eigrp_table_node_lookup_def split: if_splits)
next
  case (3 p t) then show ?case
    by (cases "eigrp_prefix_valid p") (simp_all add: eigrp_table_node_lookup_def normalize_idempotent)
next
  case (4 t i p) then show ?case
    using create_cases [of t i p r c] by (metis prod.collapse)
next
  case 5 then show ?case by (rule table_insert_lookup)
next
  case 6 then show ?case by (intro remove_eq(1) table_lookup_node)
next
  case 7 then show ?case by (rule table_remove_lookup)
qed

subsection \<open>Properties\<close>

lemma table_create_ok: "eigrp_table_create True True = Some t \<Longrightarrow> table_ok t \<and> tbl_nodes t = []"
  by (auto simp: eigrp_table_create_def eigrp_table_resize_def table_ok_def Let_def
        EIGRP_TABLE_INITIAL_BUCKETS_def index_build_ok [of 1024])

lemma table_create_some: "\<exists>t. eigrp_table_create True True = Some t"
  by (simp add: eigrp_table_create_def eigrp_table_resize_def Let_def)

text \<open>With memory available an insertion of a valid prefix succeeds.\<close>

lemma table_insert_succeeds:
  assumes "eigrp_prefix_valid p"
  shows "\<exists>n. fst (eigrp_table_node_lookup_or_create r True i t p) = Some n"
  using assms by (auto simp: eigrp_table_node_lookup_or_create_def Let_def split: option.split)

text \<open>
  C31: The prefix table implements a finite map keyed by normalised prefixes.  Inserting a valid prefix with
  memory available returns a node, keeps the table's invariant (whether or not the rehash could allocate),
  makes every lookup of that network return this node and changes no other lookup; removing the node
  undoes exactly this.
\<close>

theorem table_refines_map:
  assumes "table_ok t" and "fresh_id t i" and "eigrp_prefix_valid p"
    and "address_ok (pfx_address p)" and "address_ok (pfx_address q)"
  shows "\<exists>n t'. eigrp_table_node_lookup_or_create r True i t p = (Some n, t') \<and> table_ok t'
     \<and> node_prefix n = eigrp_prefix_normalize p
     \<and> eigrp_table_node_lookup t' q =
         (if eigrp_prefix_valid q \<and> eigrp_prefix_normalize q = eigrp_prefix_normalize p then Some n
          else eigrp_table_node_lookup t q)
     \<and> table_ok (eigrp_table_node_remove t' n)
     \<and> eigrp_table_node_lookup (eigrp_table_node_remove t' n) q =
         (if eigrp_prefix_normalize q = eigrp_prefix_normalize p then None else eigrp_table_node_lookup t q)"
proof -
  obtain n t' where e: "eigrp_table_node_lookup_or_create r True i t p = (Some n, t')"
    using table_insert_succeeds [OF assms(3), of r i t] by (metis prod.collapse)
  have t': "table_ok t'" using tbl.insert_inv [of t i p r True] assms e by simp
  have lp: "eigrp_table_node_lookup t' p = Some n"
    using tbl.insert_lookup [OF assms(1,2,4,4) e] assms(3) by simp
  show ?thesis
    using e t' lp tbl.insert_lookup [OF assms(1,2,4,5) e] tbl.remove_inv [OF t' lp]
      tbl.remove_lookup [OF t' lp assms(4,5)] tbl.lookup_key [OF t' lp assms(4)] by auto
qed

text \<open>
  C32: \<^verbatim>\<open>eigrp_table_node_match\<close> is longest-prefix match over the nodes in use: the node it returns is in use,
  covers the prefix, and no node in use that covers the prefix is longer; it returns NULL exactly when no
  node in use covers the prefix.
\<close>

theorem table_longest_match:
  assumes "table_ok t" and "eigrp_prefix_valid p" and "address_ok (pfx_address p)"
  shows "case eigrp_table_node_match t p of
      Some n \<Rightarrow> n \<in> set (tbl_nodes t) \<and> tbl_info t (node_id n) \<noteq> 0 \<and> covers (node_prefix n) p
        \<and> (\<forall>m\<in>set (tbl_nodes t). tbl_info t (node_id m) \<noteq> 0 \<and> covers (node_prefix m) p
              \<longrightarrow> pfx_length (node_prefix m) \<le> pfx_length (node_prefix n))
    | None \<Rightarrow> (\<forall>m\<in>set (tbl_nodes t). \<not> (tbl_info t (node_id m) \<noteq> 0 \<and> covers (node_prefix m) p))"
proof -
  let ?used = "\<lambda>n. tbl_info t (node_id n) \<noteq> 0"
  have e: "eigrp_table_node_match t p = match_loop (eigrp_table_node_lookup t) ?used p (unat (pfx_length p))"
    using assms(2) by (simp add: eigrp_table_node_match_def)
  have l: "eigrp_table_node_lookup t (node_prefix m) = Some m \<and> address_ok (pfx_address (node_prefix m))"
    if "m \<in> set (tbl_nodes t)" for m
    using that assms(1) table_lookup_iff [OF assms(1), of "node_prefix m" m] by (auto simp: table_ok_def key_ok_def)
  show ?thesis
  proof (cases "eigrp_table_node_match t p")
    case None
    then show ?thesis using tbl.match_none [OF assms(1-3), of ?used] e l by auto
  next
    case (Some n)
    then have m: "match_loop (eigrp_table_node_lookup t) ?used p (unat (pfx_length p)) = Some n" using e by simp
    from tbl.match_longest [OF assms(1-3) m] show ?thesis
      using Some l table_lookup_node [OF _ assms(1)] by fastforce
  qed
qed

text \<open>A table with a default route and 10.0.0.0/8, both in use, looked up at 10.1.0.0/16.\<close>

definition sample_net :: "u8 \<Rightarrow> u8 \<Rightarrow> u8 \<Rightarrow> eigrp_prefix" where
  "sample_net a b l = \<lparr>pfx_address = \<lparr>addr_afi = EIGRP_AFI_IPV4, addr_bytes = [a, b] @ replicate 14 0\<rparr>, pfx_length = l\<rparr>"

definition sample_table :: eigrp_table where
  "sample_table =
     (let a = \<lparr>node_id = 1, node_prefix = sample_net 0 0 0\<rparr>; b = \<lparr>node_id = 2, node_prefix = sample_net 10 0 8\<rparr>
      in \<lparr>tbl_nodes = [a, b], tbl_buckets = [[b, a]], tbl_size = 2, tbl_info = (\<lambda>i. if i = 1 then 100 else 200)\<rparr>)"

lemma sample_net_ok [simp]: "address_ok (pfx_address (sample_net a b l))"
  by (simp add: sample_net_def address_ok_def)

lemma sample_net_valid [simp]: "l \<le> 32 \<Longrightarrow> eigrp_prefix_valid (sample_net a b l)"
  by (simp add: sample_net_def eigrp_prefix_valid_def)

lemma sample_table_ok: "table_ok sample_table"
proof -
  have "eigrp_prefix_normalize (sample_net 0 0 0) = sample_net 0 0 0"
    "eigrp_prefix_normalize (sample_net 10 0 8) = sample_net 10 0 8" by code_simp+
  then have "key_ok (sample_net 0 0 0)" "key_ok (sample_net 10 0 8)" by (simp_all add: key_ok_def)
  then show ?thesis
    by (simp add: sample_table_def Let_def table_ok_def index_ok_def) (simp add: sample_net_def)
qed

theorem table_refines_map_witness:
  "\<exists>n t'. eigrp_table_node_lookup_or_create False True 3 sample_table (sample_net 10 1 16) = (Some n, t')
     \<and> eigrp_table_node_lookup t' (sample_net 10 1 16) = Some n"
proof -
  have "fresh_id sample_table 3" by (simp add: fresh_id_def sample_table_def Let_def)
  from table_refines_map [OF sample_table_ok this, of "sample_net 10 1 16" "sample_net 10 1 16" False]
  show ?thesis by auto
qed

theorem table_longest_match_witness:
  "\<exists>n. eigrp_table_node_match sample_table (sample_net 10 1 16) = Some n \<and> pfx_length (node_prefix n) \<ge> 8
     \<and> covers (node_prefix n) (sample_net 10 1 16)"
proof -
  have c: "covers (sample_net 10 0 8) (sample_net 10 1 16)" by code_simp
  have m: "\<lparr>node_id = 2, node_prefix = sample_net 10 0 8\<rparr> \<in> set (tbl_nodes sample_table)"
    "tbl_info sample_table 2 = 200" "pfx_length (sample_net 10 0 8) = 8"
    by (simp_all add: sample_table_def sample_net_def Let_def)
  have "eigrp_prefix_valid (sample_net 10 1 16)" "address_ok (pfx_address (sample_net 10 1 16))" by simp_all
  from table_longest_match [OF sample_table_ok this] show ?thesis
    using m c by (auto split: option.splits dest!: bspec [OF _ m(1)])
qed

end
