(* ===== verification/Eigrp_Stream.thy ===== *)
theory Eigrp_Stream
  imports Eigrp_Prelude
begin

text \<open>
  The byte stream of \<^verbatim>\<open>eigrp_stream.c\<close>: a growable buffer with a read position and a write
  position.  \<open>st_size\<close> is the allocated size, \<open>st_data\<close> the allocated bytes.  What a stream
  means to its users is \<open>written\<close>, the bytes up to the write position, and \<open>unread\<close>, the
  part of them from the read position on; the lemmas of this theory say what every operation
  does to the two and that the positions stay ordered.
\<close>

record eigrp_stream =
  st_data :: "u8 list"
  st_size :: nat
  st_getp :: nat
  st_endp :: nat

subsection \<open>The operations\<close>

text \<open>
  The doubling loop of \<^verbatim>\<open>eigrp_stream_ensure\<close>.  The caller never starts it with 0 (it substitutes
  64), so the loop of the C code always makes progress; the guard \<open>0 < sz\<close> only serves the
  termination proof.
\<close>

function ensure_size :: "nat \<Rightarrow> nat \<Rightarrow> nat option" where
  "ensure_size needed sz =
     (if sz < needed \<and> 0 < sz
      then (if SIZE_MAX div 2 < sz then None else ensure_size needed (sz * 2))
      else Some sz)"
  by pat_completeness auto
termination
  by (relation "measure (\<lambda>(needed, sz). needed - sz)") auto

declare ensure_size.simps [simp del]

definition eigrp_stream_ensure :: "allocator \<Rightarrow> eigrp_stream \<Rightarrow> nat \<Rightarrow> eigrp_stream option" where
  "eigrp_stream_ensure A s needed =
     (if needed \<le> st_size s then Some s
      else case ensure_size needed (if st_size s \<noteq> 0 then st_size s else 64) of
             None \<Rightarrow> None
           | Some sz \<Rightarrow>
               (case A sz of
                  None \<Rightarrow> None
                | Some junk \<Rightarrow>
                    Some (s\<lparr>st_data := st_data s @ map junk [length (st_data s)..<sz],
                            st_size := sz\<rparr>)))"

definition eigrp_stream_create :: "allocator \<Rightarrow> nat \<Rightarrow> eigrp_stream option" where
  "eigrp_stream_create A sz =
     (let s = \<lparr>st_data = [], st_size = 0, st_getp = 0, st_endp = 0\<rparr>
      in if sz \<noteq> 0 then eigrp_stream_ensure A s sz else Some s)"

definition eigrp_stream_clear :: "eigrp_stream \<Rightarrow> eigrp_stream" where
  "eigrp_stream_clear s = s\<lparr>st_getp := 0, st_endp := 0\<rparr>"

definition eigrp_stream_copy :: "allocator \<Rightarrow> eigrp_stream \<Rightarrow> eigrp_stream \<Rightarrow> eigrp_stream" where
  "eigrp_stream_copy A dst src =
     (case eigrp_stream_ensure A dst (st_endp src) of
        None \<Rightarrow> dst
      | Some d \<Rightarrow>
          d\<lparr>st_data := take (st_endp src) (st_data src) @ drop (st_endp src) (st_data d),
            st_getp := st_getp src, st_endp := st_endp src\<rparr>)"

definition eigrp_stream_get :: "eigrp_stream \<Rightarrow> nat \<Rightarrow> u8 list \<times> eigrp_stream" where
  "eigrp_stream_get s sz =
     (let available = (if st_getp s < st_endp s then st_endp s - st_getp s else 0);
          n = (if available < sz then available else sz)
      in if n \<noteq> 0 then (take n (drop (st_getp s) (st_data s)), s\<lparr>st_getp := st_getp s + n\<rparr>)
         else ([], s))"

text \<open>The scalar readers start from a zeroed value that \<^verbatim>\<open>eigrp_stream_get\<close> may fill in part.\<close>

definition eigrp_stream_getc :: "eigrp_stream \<Rightarrow> u8 \<times> eigrp_stream" where
  "eigrp_stream_getc s = (let (bs, s') = eigrp_stream_get s 1 in ((bs @ [0]) ! 0, s'))"

definition eigrp_stream_getw :: "eigrp_stream \<Rightarrow> u16 \<times> eigrp_stream" where
  "eigrp_stream_getw s = (let (bs, s') = eigrp_stream_get s 2 in (ntohs (bs @ [0, 0]), s'))"

definition eigrp_stream_getl :: "eigrp_stream \<Rightarrow> u32 \<times> eigrp_stream" where
  "eigrp_stream_getl s = (let (bs, s') = eigrp_stream_get s 4 in (ntohl (bs @ [0, 0, 0, 0]), s'))"

definition eigrp_stream_put :: "allocator \<Rightarrow> eigrp_stream \<Rightarrow> u8 list \<Rightarrow> nat \<times> eigrp_stream" where
  "eigrp_stream_put A s src =
     (case eigrp_stream_ensure A s (size_add (st_endp s) (length src)) of
        None \<Rightarrow> (0, s)
      | Some s' \<Rightarrow>
          if length src \<noteq> 0
          then (length src,
                s'\<lparr>st_data := take (st_endp s') (st_data s') @ src
                                @ drop (st_endp s' + length src) (st_data s'),
                   st_endp := st_endp s' + length src\<rparr>)
          else (0, s'))"

definition eigrp_stream_putc :: "allocator \<Rightarrow> eigrp_stream \<Rightarrow> u8 \<Rightarrow> nat \<times> eigrp_stream" where
  "eigrp_stream_putc A s v = eigrp_stream_put A s [v]"

definition eigrp_stream_putw :: "allocator \<Rightarrow> eigrp_stream \<Rightarrow> u16 \<Rightarrow> nat \<times> eigrp_stream" where
  "eigrp_stream_putw A s v = eigrp_stream_put A s (htons v)"

definition eigrp_stream_putl :: "allocator \<Rightarrow> eigrp_stream \<Rightarrow> u32 \<Rightarrow> nat \<times> eigrp_stream" where
  "eigrp_stream_putl A s v = eigrp_stream_put A s (htonl v)"

text \<open>The argument of \<^verbatim>\<open>eigrp_stream_put_ipv4\<close> is already in network order: its four bytes in memory.\<close>

definition eigrp_stream_put_ipv4 :: "allocator \<Rightarrow> eigrp_stream \<Rightarrow> u8 list \<Rightarrow> nat \<times> eigrp_stream" where
  "eigrp_stream_put_ipv4 A s address = eigrp_stream_put A s address"

definition eigrp_stream_forward_getp :: "eigrp_stream \<Rightarrow> nat \<Rightarrow> eigrp_stream" where
  "eigrp_stream_forward_getp s sz =
     (if st_endp s < size_add (st_getp s) sz then s\<lparr>st_getp := st_endp s\<rparr>
      else s\<lparr>st_getp := size_add (st_getp s) sz\<rparr>)"

definition eigrp_stream_forward_endp :: "allocator \<Rightarrow> eigrp_stream \<Rightarrow> nat \<Rightarrow> eigrp_stream" where
  "eigrp_stream_forward_endp A s sz =
     (case eigrp_stream_ensure A s (size_add (st_endp s) sz) of
        None \<Rightarrow> s
      | Some s' \<Rightarrow> s'\<lparr>st_endp := size_add (st_endp s') sz\<rparr>)"

definition eigrp_stream_set_getp :: "eigrp_stream \<Rightarrow> nat \<Rightarrow> eigrp_stream" where
  "eigrp_stream_set_getp s position =
     s\<lparr>st_getp := (if position \<le> st_endp s then position else st_endp s)\<rparr>"

definition eigrp_stream_set_endp :: "allocator \<Rightarrow> eigrp_stream \<Rightarrow> nat \<Rightarrow> eigrp_stream" where
  "eigrp_stream_set_endp A s position =
     (case eigrp_stream_ensure A s position of
        None \<Rightarrow> s
      | Some s' \<Rightarrow>
          (let s'' = s'\<lparr>st_endp := position\<rparr>
           in if st_endp s'' < st_getp s'' then s''\<lparr>st_getp := st_endp s''\<rparr> else s''))"

text \<open>
  \<^verbatim>\<open>eigrp_stream_recvmsg\<close>: the socket call is the parameter \<open>recv\<close>, which gets the number of bytes
  it may write and gives the datagram, or nothing on an error.  The bytes land at offset 0.
\<close>

definition eigrp_stream_recvmsg ::
    "allocator \<Rightarrow> (nat \<Rightarrow> u8 list option) \<Rightarrow> eigrp_stream \<Rightarrow> nat \<Rightarrow> int \<times> eigrp_stream" where
  "eigrp_stream_recvmsg A recv s sz =
     (case eigrp_stream_ensure A s sz of
        None \<Rightarrow> (-1, s)
      | Some s' \<Rightarrow>
          (case recv sz of
             None \<Rightarrow> (-1, s')
           | Some bs \<Rightarrow>
               (int (length bs),
                s'\<lparr>st_data := bs @ drop (length bs) (st_data s'),
                   st_getp := 0, st_endp := length bs\<rparr>)))"

subsection \<open>Meaning and well-formedness\<close>

definition written :: "eigrp_stream \<Rightarrow> u8 list" where
  "written s = take (st_endp s) (st_data s)"

definition unread :: "eigrp_stream \<Rightarrow> u8 list" where
  "unread s = drop (st_getp s) (written s)"

definition stream_ok :: "eigrp_stream \<Rightarrow> bool" where
  "stream_ok s \<longleftrightarrow> length (st_data s) = st_size s \<and> st_getp s \<le> st_endp s
     \<and> st_endp s \<le> st_size s \<and> st_size s \<le> SIZE_MAX"

lemma stream_okD:
  assumes "stream_ok s"
  shows "length (st_data s) = st_size s" "st_getp s \<le> st_endp s" "st_endp s \<le> st_size s"
    "st_size s \<le> SIZE_MAX"
  using assms by (auto simp: stream_ok_def)

lemma length_written: "stream_ok s \<Longrightarrow> length (written s) = st_endp s"
  by (auto simp: written_def stream_ok_def)

lemma length_unread: "stream_ok s \<Longrightarrow> length (unread s) = st_endp s - st_getp s"
  by (simp add: unread_def length_written)

subsection \<open>Growing\<close>

lemma ensure_size_bounds:
  "ensure_size needed sz = Some n \<Longrightarrow> 0 < sz \<Longrightarrow> sz \<le> SIZE_MAX
   \<Longrightarrow> needed \<le> n \<and> sz \<le> n \<and> n \<le> SIZE_MAX"
proof (induction needed sz rule: ensure_size.induct)
  case (1 needed sz)
  show ?case
  proof (cases "sz < needed")
    case True
    with "1.prems" have "\<not> SIZE_MAX div 2 < sz"
      and "ensure_size needed (sz * 2) = Some n"
      by (auto simp: ensure_size.simps [of needed sz] split: if_splits)
    moreover from this(1) have "sz * 2 \<le> SIZE_MAX" by arith
    ultimately have "needed \<le> n \<and> sz * 2 \<le> n \<and> n \<le> SIZE_MAX"
      using "1.IH" True "1.prems"(2) by simp
    then show ?thesis by simp
  next
    case False
    with "1.prems" show ?thesis by (auto simp: ensure_size.simps [of needed sz])
  qed
qed

text \<open>The loop finds a size whenever one power-of-two step above the need still fits.\<close>

lemma ensure_size_succeeds:
  "0 < sz \<Longrightarrow> needed \<le> SIZE_MAX div 2 \<Longrightarrow> \<exists>n. ensure_size needed sz = Some n"
proof (induction needed sz rule: ensure_size.induct)
  case (1 needed sz)
  show ?case
  proof (cases "sz < needed")
    case True
    with "1.prems" have "\<not> SIZE_MAX div 2 < sz" by simp
    with "1.IH" True "1.prems" have "\<exists>n. ensure_size needed (sz * 2) = Some n" by auto
    with True \<open>\<not> SIZE_MAX div 2 < sz\<close> "1.prems" show ?thesis
      by (simp add: ensure_size.simps [of needed sz])
  next
    case False
    then show ?thesis by (simp add: ensure_size.simps [of needed sz])
  qed
qed

lemma ensure_frame:
  assumes "eigrp_stream_ensure A s n = Some s'"
  shows "st_getp s' = st_getp s" "st_endp s' = st_endp s"
  using assms by (auto simp: eigrp_stream_ensure_def split: if_splits option.splits)

lemma ensure_ok:
  assumes "eigrp_stream_ensure A s n = Some s'" and "stream_ok s"
  shows "stream_ok s'" and "n \<le> st_size s'" and "st_size s \<le> st_size s'"
    and "take (st_size s) (st_data s') = st_data s"
proof -
  have base: "0 < (if st_size s \<noteq> 0 then st_size s else 64)"
    "(if st_size s \<noteq> 0 then st_size s else 64) \<le> SIZE_MAX"
    using assms(2) by (auto simp: stream_ok_def SIZE_MAX_def)
  have b: "n \<le> m \<and> (if st_size s \<noteq> 0 then st_size s else 64) \<le> m \<and> m \<le> SIZE_MAX"
    if "ensure_size n (if st_size s \<noteq> 0 then st_size s else 64) = Some m" for m
    using ensure_size_bounds [OF that base] by simp
  show "stream_ok s'" "n \<le> st_size s'" "st_size s \<le> st_size s'"
    "take (st_size s) (st_data s') = st_data s"
    using assms b
    by (auto simp: eigrp_stream_ensure_def stream_ok_def split: if_splits option.splits)
qed

lemma ensure_written:
  assumes "eigrp_stream_ensure A s n = Some s'" and "stream_ok s"
  shows "written s' = written s" and "unread s' = unread s"
proof -
  have "take (st_endp s) (st_data s') = take (st_endp s) (take (st_size s) (st_data s'))"
    using stream_okD(3) [OF assms(2)] by (simp add: min_absorb1)
  also have "\<dots> = take (st_endp s) (st_data s)"
    using ensure_ok(4) [OF assms] by simp
  finally show "written s' = written s"
    by (simp add: written_def ensure_frame [OF assms(1)])
  then show "unread s' = unread s"
    by (simp add: unread_def ensure_frame [OF assms(1)])
qed

lemma ensure_enough [simp]: "n \<le> st_size s \<Longrightarrow> eigrp_stream_ensure A s n = Some s"
  by (simp add: eigrp_stream_ensure_def)

lemma ensure_succeeds:
  assumes "\<And>m. A m \<noteq> None" and "n \<le> SIZE_MAX div 2"
  shows "\<exists>s'. eigrp_stream_ensure A s n = Some s'"
proof -
  have "0 < (if st_size s \<noteq> 0 then st_size s else 64)" by simp
  then obtain m where "ensure_size n (if st_size s \<noteq> 0 then st_size s else 64) = Some m"
    using ensure_size_succeeds [OF _ assms(2)] by blast
  moreover obtain junk where "A m = Some junk" using assms(1) [of m] by auto
  ultimately show ?thesis by (simp add: eigrp_stream_ensure_def)
qed

subsection \<open>Writing\<close>

text \<open>
  \<open>can_grow A s n\<close>: the next \<open>n\<close> bytes can be appended, because the buffer already has room for
  them or because the allocator does not fail and no size exceeds half the address space.
\<close>

definition can_grow :: "allocator \<Rightarrow> eigrp_stream \<Rightarrow> nat \<Rightarrow> bool" where
  "can_grow A s n \<longleftrightarrow> st_endp s + n \<le> st_size s
     \<or> (\<forall>m. A m \<noteq> None) \<and> st_endp s + n \<le> SIZE_MAX div 2"

lemma can_grow_mono: "can_grow A s n \<Longrightarrow> m \<le> n \<Longrightarrow> can_grow A s m"
  by (auto simp: can_grow_def)

lemma can_grow_no_wrap: "stream_ok s \<Longrightarrow> can_grow A s n \<Longrightarrow> size_add (st_endp s) n = st_endp s + n"
  by (rule size_add_exact) (auto simp: can_grow_def stream_ok_def)

lemma can_grow_ensure:
  assumes "stream_ok s" and "can_grow A s n"
  obtains s' where "eigrp_stream_ensure A s (size_add (st_endp s) n) = Some s'"
  using assms ensure_succeeds [of A "st_endp s + n" s]
  by (auto simp: can_grow_def can_grow_no_wrap)

text \<open>Whatever the allocator does, a put appends everything or nothing.\<close>

lemma put_cases:
  assumes "stream_ok s" and "st_endp s + length bs \<le> SIZE_MAX"
  shows "eigrp_stream_put A s bs = (0, s)
     \<or> (\<exists>s'. eigrp_stream_put A s bs = (length bs, s') \<and> stream_ok s' \<and> written s' = written s @ bs
          \<and> st_getp s' = st_getp s)"
proof (cases "eigrp_stream_ensure A s (size_add (st_endp s) (length bs))")
  case None
  then show ?thesis by (simp add: eigrp_stream_put_def)
next
  case (Some s')
  note ok = ensure_ok [OF Some assms(1)] and fr = ensure_frame [OF Some]
  have w: "take (st_endp s) (st_data s') = written s"
    using ensure_written(1) [OF Some assms(1)] fr by (simp add: written_def)
  have "st_endp s + length bs \<le> length (st_data s')"
    using ok(1,2) assms(2) by (simp add: stream_ok_def)
  with ok w fr stream_okD [OF assms(1)] length_written [OF assms(1)]
  have "stream_ok (s'\<lparr>st_data := written s @ bs @ drop (st_endp s + length bs) (st_data s'),
                       st_endp := st_endp s + length bs\<rparr>)"
    by (auto simp: stream_ok_def)
  moreover have "eigrp_stream_put A s bs
      = (if length bs \<noteq> 0
         then (length bs, s'\<lparr>st_data := written s @ bs @ drop (st_endp s + length bs) (st_data s'),
                       st_endp := st_endp s + length bs\<rparr>)
         else (0, s'))"
    using w fr by (simp only: eigrp_stream_put_def Some option.case)
  ultimately show ?thesis
    using w fr length_written [OF assms(1)] ok(1) by (cases "bs = []") (auto simp: written_def)
qed

lemma put_grow:
  assumes ok: "stream_ok s" and g: "can_grow A s (n + length bs)"
  shows "fst (eigrp_stream_put A s bs) = length bs"
    and "stream_ok (snd (eigrp_stream_put A s bs))"
    and "written (snd (eigrp_stream_put A s bs)) = written s @ bs"
    and "st_getp (snd (eigrp_stream_put A s bs)) = st_getp s"
    and "st_endp (snd (eigrp_stream_put A s bs)) = st_endp s + length bs"
    and "can_grow A (snd (eigrp_stream_put A s bs)) n"
proof -
  have g': "can_grow A s (length bs)" using g by (rule can_grow_mono) simp
  have nw: "st_endp s + length bs \<le> SIZE_MAX"
    using g' ok by (auto simp: can_grow_def stream_ok_def)
  obtain s' where e: "eigrp_stream_ensure A s (size_add (st_endp s) (length bs)) = Some s'"
    using can_grow_ensure [OF ok g'] .
  then have f: "fst (eigrp_stream_put A s bs) = length bs"
    by (simp add: eigrp_stream_put_def)
  have "stream_ok (snd (eigrp_stream_put A s bs))
     \<and> written (snd (eigrp_stream_put A s bs)) = written s @ bs
     \<and> st_getp (snd (eigrp_stream_put A s bs)) = st_getp s"
    using put_cases [OF ok nw, of A] f ok by auto
  moreover have en: "st_endp (snd (eigrp_stream_put A s bs)) = st_endp s + length bs"
    using e ensure_frame [OF e] by (simp add: eigrp_stream_put_def)
  moreover have "st_size s \<le> st_size (snd (eigrp_stream_put A s bs))"
    using e ensure_ok(3) [OF e ok] by (simp add: eigrp_stream_put_def)
  ultimately show "fst (eigrp_stream_put A s bs) = length bs"
    "stream_ok (snd (eigrp_stream_put A s bs))"
    "written (snd (eigrp_stream_put A s bs)) = written s @ bs"
    "st_getp (snd (eigrp_stream_put A s bs)) = st_getp s"
    "st_endp (snd (eigrp_stream_put A s bs)) = st_endp s + length bs"
    "can_grow A (snd (eigrp_stream_put A s bs)) n"
    using f g by (auto simp: can_grow_def)
qed

text \<open>The same facts for the four ways to write, as rewrite rules.\<close>

lemmas put_grow_0 = put_grow [where n = 0, simplified]

lemma put_simps [stream_simps]:
  assumes "stream_ok s" and "can_grow A s (length bs)"
  shows "written (snd (eigrp_stream_put A s bs)) = written s @ bs"
    and "st_getp (snd (eigrp_stream_put A s bs)) = st_getp s"
    and "st_endp (snd (eigrp_stream_put A s bs)) = st_endp s + length bs"
    and "stream_ok (snd (eigrp_stream_put A s bs))"
    and "fst (eigrp_stream_put A s bs) = length bs"
  using put_grow_0 [OF assms] by auto

text \<open>
  \<open>appended A s bs s'\<close>: \<open>s'\<close> is \<open>s\<close> after a run of writes that appended \<open>bs\<close>.  The encoders are
  sequences of puts; \<open>appended_put\<close> adds one of them to the run.
\<close>

definition appended :: "allocator \<Rightarrow> eigrp_stream \<Rightarrow> u8 list \<Rightarrow> eigrp_stream \<Rightarrow> bool" where
  "appended A s bs s' \<longleftrightarrow> stream_ok s' \<and> written s' = written s @ bs \<and> st_getp s' = st_getp s
     \<and> st_endp s' = st_endp s + length bs
     \<and> (\<forall>n. can_grow A s (length bs + n) \<longrightarrow> can_grow A s' n)"

lemma appendedD:
  assumes "appended A s bs s'"
  shows "stream_ok s'" "written s' = written s @ bs" "st_getp s' = st_getp s"
    "st_endp s' = st_endp s + length bs" "can_grow A s (length bs + n) \<Longrightarrow> can_grow A s' n"
  using assms by (auto simp: appended_def)

lemma appended_refl: "stream_ok s \<Longrightarrow> appended A s [] s"
  by (simp add: appended_def)

lemma appended_put:
  assumes "appended A s xs s'" and "can_grow A s (length xs + length ys)"
  shows "appended A s (xs @ ys) (snd (eigrp_stream_put A s' ys))"
proof -
  have g: "can_grow A s' (n + length ys)" if "can_grow A s (length xs + (length ys + n))" for n
    using that appendedD(5) [OF assms(1), of "n + length ys"] by (simp add: add.commute)
  note p = put_grow [OF appendedD(1) [OF assms(1)] g]
  show ?thesis
    using p(2-5) [of 0] p(6) assms(2) appendedD(2-4) [OF assms(1)]
    by (simp add: appended_def add.assoc)
qed

lemma appended_first:
  "stream_ok s \<Longrightarrow> can_grow A s (length ys) \<Longrightarrow> appended A s ys (snd (eigrp_stream_put A s ys))"
  using appended_put [OF appended_refl] by fastforce

lemma appended_trans:
  assumes "appended A s xs s'" and "appended A s' ys s''"
  shows "appended A s (xs @ ys) s''"
  using assms by (auto simp: appended_def add.assoc)

lemma appended_fst:
  assumes "appended A s xs s'" and "can_grow A s (length xs + length ys)"
  shows "fst (eigrp_stream_put A s' ys) = length ys"
  using put_grow(1) [of s' A 0 ys] appendedD [OF assms(1)] assms(2) by simp

text \<open>A run that starts with nothing unread leaves exactly the new bytes to read.\<close>

lemma appended_unread:
  assumes "appended A s bs s'" and "stream_ok s" and "unread s = []"
  shows "unread s' = bs"
proof -
  have "length (written s) = st_getp s"
    using assms(2,3) by (auto simp: length_written unread_def stream_ok_def)
  then show ?thesis using appendedD(2,3) [OF assms(1)] by (simp add: unread_def)
qed

lemmas put_defs [stream_simps] =
  eigrp_stream_putc_def eigrp_stream_putw_def eigrp_stream_putl_def eigrp_stream_put_ipv4_def

text \<open>
  Overwriting bytes that are already written: the encoders move the write position back, put a
  field, and move it forward again.
\<close>

definition patch :: "nat \<Rightarrow> u8 list \<Rightarrow> u8 list \<Rightarrow> u8 list" where
  "patch p bs xs = take p xs @ bs @ drop (p + length bs) xs"

lemma set_endp_back:
  assumes "stream_ok s" and "p \<le> st_endp s" and "st_getp s \<le> p"
  shows "eigrp_stream_set_endp A s p = s\<lparr>st_endp := p\<rparr>"
  using assms by (auto simp: eigrp_stream_set_endp_def stream_ok_def)

lemma stream_patch:
  fixes A :: allocator
  assumes ok: "stream_ok s" and p: "p + length bs \<le> st_endp s" and g: "st_getp s \<le> p"
    and ne: "bs \<noteq> []"
  defines "s' \<equiv> eigrp_stream_set_endp A (snd (eigrp_stream_put A (eigrp_stream_set_endp A s p) bs)) (st_endp s)"
  shows "written s' = patch p bs (written s)" and "stream_ok s'" and "st_getp s' = st_getp s"
    and "st_endp s' = st_endp s" and "st_size s' = st_size s"
proof -
  note o = stream_okD [OF ok]
  have bk: "eigrp_stream_set_endp A s p = s\<lparr>st_endp := p\<rparr>"
    using ok p g by (intro set_endp_back) auto
  have ps: "size_add p (length bs) = p + length bs" using o p by simp
  have put: "snd (eigrp_stream_put A (s\<lparr>st_endp := p\<rparr>) bs)
      = s\<lparr>st_data := take p (st_data s) @ bs @ drop (p + length bs) (st_data s),
          st_endp := p + length bs\<rparr>"
    using o p ne by (simp add: eigrp_stream_put_def ps)
  have s': "s' = s\<lparr>st_data := take p (st_data s) @ bs @ drop (p + length bs) (st_data s)\<rparr>"
    unfolding s'_def bk put using o p g by (auto simp: eigrp_stream_set_endp_def)
  show "stream_ok s'" "st_getp s' = st_getp s" "st_endp s' = st_endp s" "st_size s' = st_size s"
    unfolding s' using o p by (auto simp: stream_ok_def)
  show "written s' = patch p bs (written s)"
    unfolding s' written_def patch_def using o p by (auto simp: take_drop min_absorb1 min_absorb2)
qed

subsection \<open>Reading\<close>

definition advance :: "eigrp_stream \<Rightarrow> nat \<Rightarrow> eigrp_stream" where
  "advance s n = s\<lparr>st_getp := st_getp s + n\<rparr>"

lemma advance_frame [simp, stream_simps]:
  "st_endp (advance s n) = st_endp s" "st_data (advance s n) = st_data s"
  "st_size (advance s n) = st_size s" "st_getp (advance s n) = st_getp s + n"
  "written (advance s n) = written s" "advance s 0 = s"
  "advance (advance s m) n = advance s (m + n)"
  by (auto simp: advance_def written_def)

lemma unread_advance [simp, stream_simps]: "unread (advance s n) = drop n (unread s)"
  by (simp add: unread_def add.commute)

lemma advance_ok [stream_simps]:
  "stream_ok s \<Longrightarrow> n \<le> length (unread s) \<Longrightarrow> stream_ok (advance s n)"
  by (auto simp: stream_ok_def length_unread)

text \<open>A read gives the next bytes that are there, at most as many as asked for.\<close>

lemma get_eq:
  assumes "stream_ok s"
  shows "eigrp_stream_get s n = (take n (unread s), advance s (min n (length (unread s))))"
proof -
  note o = stream_okD [OF assms]
  have l: "length (unread s) = st_endp s - st_getp s" by (rule length_unread [OF assms])
  have tk: "take n (unread s) = take (min n (length (unread s))) (drop (st_getp s) (st_data s))"
    using o l by (simp add: unread_def written_def drop_take min.commute)
  show ?thesis
    using o by (auto simp: eigrp_stream_get_def tk l Let_def advance_def min_def)
qed

lemma get_ok: "stream_ok s \<Longrightarrow> stream_ok (snd (eigrp_stream_get s n))"
  by (simp add: get_eq advance_ok)

lemma getc_eq [stream_simps]:
  "stream_ok s \<Longrightarrow> 1 \<le> length (unread s)
   \<Longrightarrow> eigrp_stream_getc s = (hd (unread s), advance s 1)"
  by (cases "unread s") (auto simp: eigrp_stream_getc_def get_eq)

lemma getw_eq [stream_simps]:
  "stream_ok s \<Longrightarrow> 2 \<le> length (unread s)
   \<Longrightarrow> eigrp_stream_getw s = (ntohs (take 2 (unread s)), advance s 2)"
  by (cases "unread s") (auto simp: eigrp_stream_getw_def get_eq ntohs_def nth_append)

lemma getl_eq [stream_simps]:
  "stream_ok s \<Longrightarrow> 4 \<le> length (unread s)
   \<Longrightarrow> eigrp_stream_getl s = (ntohl (take 4 (unread s)), advance s 4)"
  by (cases "unread s") (auto simp: eigrp_stream_getl_def get_eq ntohl_def nth_append)

subsection \<open>Correctness\<close>

lemma put_ok: "stream_ok s \<Longrightarrow> st_endp s + length bs \<le> SIZE_MAX \<Longrightarrow> stream_ok (snd (eigrp_stream_put A s bs))"
  using put_cases [of s bs A] by auto

lemma forward_endp_ok:
  assumes "stream_ok s" and "st_endp s + n \<le> SIZE_MAX"
  shows "stream_ok (eigrp_stream_forward_endp A s n)"
proof (cases "eigrp_stream_ensure A s (st_endp s + n)")
  case (Some s')
  then show ?thesis
    using ensure_ok [OF Some assms(1)] ensure_frame [OF Some] assms
    by (auto simp: eigrp_stream_forward_endp_def stream_ok_def)
qed (use assms in \<open>simp add: eigrp_stream_forward_endp_def\<close>)

lemma set_endp_ok: "stream_ok s \<Longrightarrow> stream_ok (eigrp_stream_set_endp A s n)"
proof (cases "eigrp_stream_ensure A s n")
  case (Some s')
  assume "stream_ok s"
  then show ?thesis
    using ensure_ok [OF Some] ensure_frame [OF Some] Some
    by (auto simp: eigrp_stream_set_endp_def stream_ok_def Let_def)
qed (simp add: eigrp_stream_set_endp_def)

lemma copy_ok:
  assumes "stream_ok d" and "stream_ok s"
  shows "stream_ok (eigrp_stream_copy A d s)"
proof (cases "eigrp_stream_ensure A d (st_endp s)")
  case (Some d')
  then show ?thesis
    using ensure_ok [OF Some assms(1)] assms(2) by (auto simp: eigrp_stream_copy_def stream_ok_def)
qed (use assms in \<open>simp add: eigrp_stream_copy_def\<close>)

lemma create_ok: "eigrp_stream_create A n = Some s \<Longrightarrow> stream_ok s"
  by (auto simp: eigrp_stream_create_def Let_def stream_ok_def
      dest!: ensure_ok(1) split: if_splits)

lemma recvmsg_ok:
  assumes "stream_ok s" and "\<And>m bs. recv m = Some bs \<Longrightarrow> length bs \<le> m"
  shows "stream_ok (snd (eigrp_stream_recvmsg A recv s n))"
proof (cases "eigrp_stream_ensure A s n")
  case (Some s')
  then show ?thesis
    using ensure_ok [OF Some assms(1)] assms(2) [of n]
    by (auto simp: eigrp_stream_recvmsg_def stream_ok_def split: option.splits)
qed (use assms in \<open>simp add: eigrp_stream_recvmsg_def\<close>)

text \<open>
  C40: Every operation keeps the buffer well-formed: as many bytes as the recorded size, and read
  position, write position and size in this order.  No read, write or move of a position reaches
  outside the allocation, whatever the allocator answers, as long as a requested end position is
  below the \<^verbatim>\<open>size_t\<close> limit and the socket call returns at most what it was asked for.
\<close>

theorem stream_operations_safe:
  assumes "stream_ok s" and "stream_ok d" and "st_endp s + n \<le> SIZE_MAX"
    and "st_endp s + length bs \<le> SIZE_MAX" and "\<And>m xs. recv m = Some xs \<Longrightarrow> length xs \<le> m"
  shows "(\<forall>c. eigrp_stream_create A k = Some c \<longrightarrow> stream_ok c)
    \<and> stream_ok (eigrp_stream_clear s)
    \<and> stream_ok (eigrp_stream_copy A d s)
    \<and> stream_ok (snd (eigrp_stream_get s k))
    \<and> stream_ok (snd (eigrp_stream_put A s bs))
    \<and> stream_ok (eigrp_stream_forward_getp s k)
    \<and> stream_ok (eigrp_stream_forward_endp A s n)
    \<and> stream_ok (eigrp_stream_set_getp s k)
    \<and> stream_ok (eigrp_stream_set_endp A s k)
    \<and> stream_ok (snd (eigrp_stream_recvmsg A recv s k))"
  using assms
  by (simp add: create_ok copy_ok get_ok put_ok forward_endp_ok set_endp_ok recvmsg_ok)
    (auto simp: stream_ok_def eigrp_stream_clear_def eigrp_stream_forward_getp_def
      eigrp_stream_set_getp_def)

definition sample_stream :: eigrp_stream where
  "sample_stream = \<lparr>st_data = [1, 2, 3, 4], st_size = 4, st_getp = 1, st_endp = 3\<rparr>"

lemma sample_stream_ok: "stream_ok sample_stream"
  by (simp add: sample_stream_def stream_ok_def SIZE_MAX_def)

theorem stream_operations_safe_witness:
  "stream_ok (snd (eigrp_stream_put zero_alloc sample_stream [7, 8]))"
  using stream_operations_safe [of sample_stream sample_stream 0 "[7, 8]" "\<lambda>_. None"] sample_stream_ok
  by (simp add: sample_stream_def SIZE_MAX_def)

text \<open>A sequence of fields as the packet encoders write it and the decoders read it.\<close>

definition put_fields :: "allocator \<Rightarrow> eigrp_stream \<Rightarrow> u8 \<Rightarrow> u16 \<Rightarrow> u32 \<Rightarrow> u8 list \<Rightarrow> eigrp_stream" where
  "put_fields A s b w l bs =
     (let s = snd (eigrp_stream_putc A s b);
          s = snd (eigrp_stream_putw A s w);
          s = snd (eigrp_stream_putl A s l)
      in snd (eigrp_stream_put A s bs))"

definition get_fields :: "eigrp_stream \<Rightarrow> nat \<Rightarrow> (u8 \<times> u16 \<times> u32 \<times> u8 list) \<times> eigrp_stream" where
  "get_fields s n =
     (let (b, s) = eigrp_stream_getc s;
          (w, s) = eigrp_stream_getw s;
          (l, s) = eigrp_stream_getl s;
          (bs, s) = eigrp_stream_get s n
      in ((b, w, l, bs), s))"

text \<open>
  What is written is read back: a byte, a 16-bit and a 32-bit value and a run of bytes put one
  after the other come back in this order and leave nothing unread, for every stream from which
  everything was read and which can take the bytes.
\<close>

theorem stream_put_get_roundtrip:
  assumes "stream_ok s" and "unread s = []" and "can_grow A s (7 + length bs)"
  shows "fst (get_fields (put_fields A s b w l bs) (length bs)) = (b, w, l, bs)
    \<and> unread (snd (get_fields (put_fields A s b w l bs) (length bs))) = []
    \<and> written (put_fields A s b w l bs) = written s @ [b] @ htons w @ htonl l @ bs"
proof -
  let ?t = "put_fields A s b w l bs"
  have ap: "appended A s (([b] @ htons w) @ htonl l @ bs) ?t"
    unfolding put_fields_def Let_def put_defs append_assoc [symmetric]
    by (intro appended_put appended_first assms(1) can_grow_mono [OF assms(3)]) simp_all
  note ok = appendedD(1) [OF ap]
  have un: "unread ?t = [b] @ htons w @ htonl l @ bs"
    using appended_unread [OF ap assms(1,2)] by simp
  have "eigrp_stream_getc ?t = (b, advance ?t 1)" using ok un by (simp add: getc_eq)
  moreover have "eigrp_stream_getw (advance ?t 1) = (w, advance ?t 3)"
    using ok un by (subst getw_eq) (simp_all add: advance_ok)
  moreover have "eigrp_stream_getl (advance ?t 3) = (l, advance ?t 7)"
    using ok un by (subst getl_eq) (simp_all add: advance_ok)
  moreover have "eigrp_stream_get (advance ?t 7) (length bs) = (bs, advance ?t (7 + length bs))"
    using ok un by (subst get_eq) (simp_all add: advance_ok)
  ultimately have e: "get_fields ?t (length bs) = ((b, w, l, bs), advance ?t (7 + length bs))"
    by (simp add: get_fields_def)
  show ?thesis using un appendedD(2) [OF ap] by (simp add: e)
qed

theorem stream_put_get_roundtrip_witness:
  "fst (get_fields (put_fields zero_alloc (sample_stream\<lparr>st_getp := 3\<rparr>) 1 2 3 [4, 5]) (length [4, 5 :: u8]))
     = (1, 2, 3, [4, 5])"
  by (rule stream_put_get_roundtrip [THEN conjunct1])
    (simp_all add: sample_stream_def stream_ok_def unread_def written_def can_grow_def SIZE_MAX_def)

end
