(* ===== verification/Eigrp_AF.thy ===== *)
theory Eigrp_AF
  imports Eigrp_Stream Eigrp_Prefix
begin

text \<open>
  The address-family vectors: \<^verbatim>\<open>eigrp_ipv4.c\<close> and \<^verbatim>\<open>eigrp_ipv6.c\<close> behind the function table
  \<^verbatim>\<open>eigrp_af_vectors_t\<close>.  The route codecs rely on the table only through the laws of the locale
  \<open>af_codec\<close>; both families are interpretations of it.  Text formatting (\<^verbatim>\<open>addr_snprintf\<close>) is left
  out, and the platform's packet calls are parameters.
\<close>

subsection \<open>Runtime addresses and interfaces\<close>

text \<open>\<^verbatim>\<open>eigrp_addr_t\<close>: a family (0 when the structure is zeroed) and a 16-byte union, whose first four
bytes are the IPv4 address.\<close>

datatype addr_family = AF_UNSPEC | AF_INET | AF_INET6

record eigrp_addr =
  ip_afi :: addr_family
  ip_bytes :: "u8 list"

definition addr_ok :: "eigrp_addr \<Rightarrow> bool" where
  "addr_ok a \<longleftrightarrow> length (ip_bytes a) = 16"

definition zero_addr :: eigrp_addr where
  "zero_addr = \<lparr>ip_afi = AF_UNSPEC, ip_bytes = replicate 16 0\<rparr>"

abbreviation ip_v4 :: "eigrp_addr \<Rightarrow> u8 list" where
  "ip_v4 a \<equiv> take 4 (ip_bytes a)"

datatype eigrp_iftype =
    EIGRP_IFTYPE_NONE
  | EIGRP_IFTYPE_POINTOPOINT
  | EIGRP_IFTYPE_BROADCAST
  | EIGRP_IFTYPE_NBMA
  | EIGRP_IFTYPE_POINTOMULTIPOINT
  | EIGRP_IFTYPE_LOOPBACK

record eigrp_intf =
  intf_ifindex :: u32
  intf_type :: eigrp_iftype
  intf_address :: eigrp_prefix
  intf_bandwidth :: u32
  intf_delay :: u32
  intf_reliability :: u8
  intf_load :: u8

definition eigrp_intf_lookup_by_local_addr :: "eigrp_intf list \<Rightarrow> eigrp_addr \<Rightarrow> eigrp_intf option" where
  "eigrp_intf_lookup_by_local_addr eiflist address =
     find (\<lambda>ei.
       (ip_afi address = AF_INET \<and> pfx_afi (intf_address ei) = EIGRP_AFI_IPV4
          \<and> take 4 (pfx_bytes (intf_address ei)) = ip_v4 address)
       \<or> (ip_afi address = AF_INET6 \<and> pfx_afi (intf_address ei) = EIGRP_AFI_IPV6
          \<and> take 16 (pfx_bytes (intf_address ei)) = take 16 (ip_bytes address))) eiflist"

definition eigrp_intf_lookup_by_ifindex :: "eigrp_intf list \<Rightarrow> u32 \<Rightarrow> eigrp_intf option" where
  "eigrp_intf_lookup_by_ifindex eiflist ifindex =
     (if ifindex = 0 then None else find (\<lambda>ei. intf_ifindex ei = ifindex) eiflist)"

subsection \<open>What the platform hands over\<close>

record eigrp_packet_rx_meta =
  ingress_vrf_id :: u32
  network_header_length :: u16
  eigrp_length :: u16
  destination_multicast :: bool

text \<open>
  \<^verbatim>\<open>eigrp_sys_packet_receive\<close> gets the capacity of the buffer; on success it has filled a part of the
  buffer and reports a length, the interface, both addresses and the metadata.
\<close>

record sys_rx =
  rx_data :: "u8 list"
  rx_length :: nat
  rx_ifindex :: u32
  rx_source :: eigrp_address
  rx_destination :: eigrp_address
  rx_meta :: eigrp_packet_rx_meta

type_synonym rx_result =
  "(eigrp_intf \<times> eigrp_addr \<times> eigrp_addr \<times> eigrp_packet_rx_meta) option \<times> eigrp_stream"

record eigrp_af_vectors =
  af_afi :: eigrp_afi
  packet_send :: "(eigrp_intf \<Rightarrow> eigrp_address \<Rightarrow> u8 list \<Rightarrow> int) \<Rightarrow> eigrp_intf \<Rightarrow> eigrp_addr \<Rightarrow> eigrp_stream
                    \<Rightarrow> nat \<Rightarrow> int"
  packet_receive :: "allocator \<Rightarrow> (nat \<Rightarrow> sys_rx option) \<Rightarrow> u32 \<Rightarrow> eigrp_intf list \<Rightarrow> eigrp_stream \<Rightarrow> rx_result"
  packet_source_on_link :: "eigrp_intf \<Rightarrow> eigrp_addr \<Rightarrow> bool"
  packet_address_bytes :: nat
  packet_address_decode :: "eigrp_stream \<Rightarrow> eigrp_addr \<Rightarrow> nat \<times> eigrp_addr \<times> eigrp_stream"
  packet_address_encode :: "allocator \<Rightarrow> eigrp_stream \<Rightarrow> eigrp_addr \<Rightarrow> nat \<times> eigrp_stream"
  packet_prefix_decode :: "eigrp_stream \<Rightarrow> eigrp_prefix \<Rightarrow> nat \<times> eigrp_prefix \<times> eigrp_stream"
  packet_prefix_encode :: "allocator \<Rightarrow> eigrp_stream \<Rightarrow> eigrp_prefix \<Rightarrow> nat \<times> eigrp_stream"
  classic_internal_tlv_type :: u16
  classic_external_tlv_type :: u16
  multiprotocol_afi :: u16
  summary_auto_prefix :: "eigrp_prefix \<Rightarrow> eigrp_prefix \<Rightarrow> eigrp_result \<times> eigrp_prefix"

text \<open>TLV type numbers (\<^verbatim>\<open>eigrp_const.h\<close>).\<close>

definition EIGRP_TLV_IPv4_INT :: u16 where "EIGRP_TLV_IPv4_INT = 0x0102"
definition EIGRP_TLV_IPv4_EXT :: u16 where "EIGRP_TLV_IPv4_EXT = 0x0103"
definition EIGRP_TLV_IPv6_INT :: u16 where "EIGRP_TLV_IPv6_INT = 0x0402"
definition EIGRP_TLV_IPv6_EXT :: u16 where "EIGRP_TLV_IPv6_EXT = 0x0403"
definition EIGRP_AF_IPv4 :: u16 where "EIGRP_AF_IPv4 = 1"
definition EIGRP_AF_IPv6 :: u16 where "EIGRP_AF_IPv6 = 2"

subsection \<open>IPv4\<close>

definition eigrp_ipv4_stream_has :: "eigrp_stream \<Rightarrow> nat \<Rightarrow> bool" where
  "eigrp_ipv4_stream_has s needed =
     (if st_endp s \<le> st_getp s then needed = 0 else needed \<le> st_endp s - st_getp s)"

definition eigrp_ipv4_prefix_bytes :: "u8 \<Rightarrow> nat" where
  "eigrp_ipv4_prefix_bytes prefix_length =
     (if prefix_length = 0 then 0 else (unat prefix_length - 1) div 8 + 1)"

definition ipv4_mask :: "u8 \<Rightarrow> u32" where
  "ipv4_mask prefix_length =
     (if prefix_length = 0 then 0 else push_bit (32 - unat prefix_length) 0xffffffff)"

definition eigrp_ipv4_packet_source_on_link :: "eigrp_intf \<Rightarrow> eigrp_addr \<Rightarrow> bool" where
  "eigrp_ipv4_packet_source_on_link ei source =
     (if ip_afi source \<noteq> AF_INET then False
      else if intf_type ei = EIGRP_IFTYPE_POINTOPOINT then True
      else if pfx_afi (intf_address ei) \<noteq> EIGRP_AFI_IPV4 \<or> 32 < pfx_length (intf_address ei) then False
      else let l = ntohl (pfx_bytes (intf_address ei));
               r = ntohl (ip_bytes source);
               m = ipv4_mask (pfx_length (intf_address ei))
           in (l AND m) = (r AND m))"

definition eigrp_ipv4_packet_send ::
    "(eigrp_intf \<Rightarrow> eigrp_address \<Rightarrow> u8 list \<Rightarrow> int) \<Rightarrow> eigrp_intf \<Rightarrow> eigrp_addr \<Rightarrow> eigrp_stream \<Rightarrow> nat \<Rightarrow> int" where
  "eigrp_ipv4_packet_send sys_send ei dst s len =
     (if ip_afi dst \<noteq> AF_INET then -1
      else sys_send ei \<lparr>addr_afi = EIGRP_AFI_IPV4, addr_bytes = ip_v4 dst @ replicate 12 0\<rparr>
             (take len (st_data s)))"

definition eigrp_ipv4_packet_receive ::
    "allocator \<Rightarrow> (nat \<Rightarrow> sys_rx option) \<Rightarrow> u32 \<Rightarrow> eigrp_intf list \<Rightarrow> eigrp_stream \<Rightarrow> rx_result" where
  "eigrp_ipv4_packet_receive A sys_receive vrf_id eiflist s =
     (let s = eigrp_stream_clear s
      in case sys_receive (st_size s) of
           None \<Rightarrow> (None, s)
         | Some rx \<Rightarrow>
             let s = s\<lparr>st_data := rx_data rx @ drop (length (rx_data rx)) (st_data s)\<rparr>
             in if ingress_vrf_id (rx_meta rx) \<noteq> vrf_id then (None, s)
                else if addr_afi (rx_source rx) \<noteq> EIGRP_AFI_IPV4
                        \<or> addr_afi (rx_destination rx) \<noteq> EIGRP_AFI_IPV4 \<or> st_size s < rx_length rx
                then (None, s)
                else
                  let s = eigrp_stream_set_endp A s (rx_length rx);
                      source = \<lparr>ip_afi = AF_INET,
                                ip_bytes = take 4 (addr_bytes (rx_source rx)) @ replicate 12 0\<rparr>;
                      destination = \<lparr>ip_afi = AF_INET,
                                ip_bytes = take 4 (addr_bytes (rx_destination rx)) @ replicate 12 0\<rparr>;
                      ei = (case eigrp_intf_lookup_by_ifindex eiflist (rx_ifindex rx) of
                              Some ei \<Rightarrow> Some ei
                            | None \<Rightarrow> find (\<lambda>candidate. eigrp_ipv4_packet_source_on_link candidate source) eiflist)
                  in case ei of
                       None \<Rightarrow> (None, s)
                     | Some ei \<Rightarrow>
                         if \<not> eigrp_ipv4_packet_source_on_link ei source then (None, s)
                         else if eigrp_intf_lookup_by_local_addr eiflist source \<noteq> None then (None, s)
                         else (Some (ei, source, destination, rx_meta rx), s))"

definition eigrp_ipv4_packet_address_decode ::
    "eigrp_stream \<Rightarrow> eigrp_addr \<Rightarrow> nat \<times> eigrp_addr \<times> eigrp_stream" where
  "eigrp_ipv4_packet_address_decode s address =
     (if \<not> eigrp_ipv4_stream_has s 4 then (0, address, s)
      else let (bs, s) = eigrp_stream_get s 4
           in (4, \<lparr>ip_afi = AF_INET, ip_bytes = bs @ replicate (16 - length bs) 0\<rparr>, s))"

definition eigrp_ipv4_packet_address_encode :: "allocator \<Rightarrow> eigrp_stream \<Rightarrow> eigrp_addr \<Rightarrow> nat \<times> eigrp_stream" where
  "eigrp_ipv4_packet_address_encode A s address =
     (if ip_afi address \<noteq> AF_UNSPEC \<and> ip_afi address \<noteq> AF_INET then (0, s)
      else (4, snd (eigrp_stream_put A s (ip_v4 address))))"

definition eigrp_ipv4_packet_prefix_decode ::
    "eigrp_stream \<Rightarrow> eigrp_prefix \<Rightarrow> nat \<times> eigrp_prefix \<times> eigrp_stream" where
  "eigrp_ipv4_packet_prefix_decode s prefix =
     (if \<not> eigrp_ipv4_stream_has s 1 then (0, prefix, s)
      else
        let start = st_getp s;
            (prefix_length, s) = eigrp_stream_getc s
        in if 32 < prefix_length then (0, prefix, eigrp_stream_set_getp s start)
           else
             let address_length = eigrp_ipv4_prefix_bytes prefix_length
             in if \<not> eigrp_ipv4_stream_has s address_length
                then (0, prefix, eigrp_stream_set_getp s start)
                else
                  let (bs, s) = (if address_length \<noteq> 0 then eigrp_stream_get s address_length else ([], s));
                      prefix = \<lparr>pfx_address = \<lparr>addr_afi = EIGRP_AFI_IPV4,
                                  addr_bytes = bs @ replicate (16 - length bs) 0\<rparr>,
                                pfx_length = prefix_length\<rparr>
                  in (1 + address_length, eigrp_prefix_normalize prefix, s))"

definition eigrp_ipv4_packet_prefix_encode :: "allocator \<Rightarrow> eigrp_stream \<Rightarrow> eigrp_prefix \<Rightarrow> nat \<times> eigrp_stream" where
  "eigrp_ipv4_packet_prefix_encode A s prefix =
     (if pfx_afi prefix \<noteq> EIGRP_AFI_IPV4 \<or> 32 < pfx_length prefix then (0, s)
      else
        let normalized = eigrp_prefix_normalize prefix;
            address_length = eigrp_ipv4_prefix_bytes (pfx_length normalized);
            s = snd (eigrp_stream_putc A s (pfx_length normalized));
            s = (if address_length \<noteq> 0
                 then snd (eigrp_stream_put A s (take address_length (pfx_bytes normalized))) else s)
        in (1 + address_length, s))"

definition eigrp_ipv4_summary_auto_prefix :: "eigrp_prefix \<Rightarrow> eigrp_prefix \<Rightarrow> eigrp_result \<times> eigrp_prefix" where
  "eigrp_ipv4_summary_auto_prefix component summary =
     (if pfx_afi component \<noteq> EIGRP_AFI_IPV4 \<or> \<not> eigrp_prefix_valid component
      then (EIGRP_RESULT_INVALID_ARGUMENT, summary)
      else
        let first_octet = pfx_bytes component ! 0;
            classful = (if first_octet < 128 then Some 8
                        else if first_octet < 192 then Some 16
                        else if first_octet < 224 then Some 24 else None)
        in case classful of
             None \<Rightarrow> (EIGRP_RESULT_UNSUPPORTED, summary)
           | Some classful_length \<Rightarrow>
               if pfx_length component < classful_length then (EIGRP_RESULT_NOT_FOUND, summary)
               else (EIGRP_RESULT_SUCCESS,
                     \<lparr>pfx_address = \<lparr>addr_afi = EIGRP_AFI_IPV4,
                        addr_bytes = take (unat classful_length div 8) (pfx_bytes component)
                                       @ replicate (16 - unat classful_length div 8) 0\<rparr>,
                      pfx_length = classful_length\<rparr>))"

definition eigrp_ipv4_init :: eigrp_af_vectors where
  "eigrp_ipv4_init =
     \<lparr>af_afi = EIGRP_AFI_IPV4,
      packet_send = eigrp_ipv4_packet_send,
      packet_receive = eigrp_ipv4_packet_receive,
      packet_source_on_link = eigrp_ipv4_packet_source_on_link,
      packet_address_bytes = 4,
      packet_address_decode = eigrp_ipv4_packet_address_decode,
      packet_address_encode = eigrp_ipv4_packet_address_encode,
      packet_prefix_decode = eigrp_ipv4_packet_prefix_decode,
      packet_prefix_encode = eigrp_ipv4_packet_prefix_encode,
      classic_internal_tlv_type = EIGRP_TLV_IPv4_INT,
      classic_external_tlv_type = EIGRP_TLV_IPv4_EXT,
      multiprotocol_afi = EIGRP_AF_IPv4,
      summary_auto_prefix = eigrp_ipv4_summary_auto_prefix\<rparr>"

subsection \<open>IPv6\<close>

definition eigrp_ipv6_stream_has :: "eigrp_stream \<Rightarrow> nat \<Rightarrow> bool" where
  "eigrp_ipv6_stream_has s needed =
     (if st_endp s \<le> st_getp s then needed = 0 else needed \<le> st_endp s - st_getp s)"

definition eigrp_ipv6_prefix_bytes :: "u8 \<Rightarrow> nat" where
  "eigrp_ipv6_prefix_bytes prefix_length =
     (if prefix_length = 0 then 0
      else if prefix_length = 128 then 16
      else unat prefix_length div 8 + 1)"

text \<open>\<^verbatim>\<open>IN6_IS_ADDR_LINKLOCAL\<close>: the address is in \<open>fe80::/10\<close>.\<close>

definition IN6_IS_ADDR_LINKLOCAL :: "u8 list \<Rightarrow> bool" where
  "IN6_IS_ADDR_LINKLOCAL bs \<longleftrightarrow> bs ! 0 = 0xfe \<and> (bs ! 1 AND 0xc0) = 0x80"

definition eigrp_ipv6_packet_source_on_link :: "eigrp_intf \<Rightarrow> eigrp_addr \<Rightarrow> bool" where
  "eigrp_ipv6_packet_source_on_link ei source =
     (if ip_afi source \<noteq> AF_INET6 then False else IN6_IS_ADDR_LINKLOCAL (ip_bytes source))"

definition eigrp_ipv6_packet_address_decode ::
    "eigrp_stream \<Rightarrow> eigrp_addr \<Rightarrow> nat \<times> eigrp_addr \<times> eigrp_stream" where
  "eigrp_ipv6_packet_address_decode s address =
     (if \<not> eigrp_ipv6_stream_has s 16 then (0, address, s)
      else let (bs, s) = eigrp_stream_get s 16
           in (16, \<lparr>ip_afi = AF_INET6, ip_bytes = bs @ replicate (16 - length bs) 0\<rparr>, s))"

definition eigrp_ipv6_packet_address_encode :: "allocator \<Rightarrow> eigrp_stream \<Rightarrow> eigrp_addr \<Rightarrow> nat \<times> eigrp_stream" where
  "eigrp_ipv6_packet_address_encode A s address =
     (if ip_afi address \<noteq> AF_UNSPEC \<and> ip_afi address \<noteq> AF_INET6 then (0, s)
      else (16, snd (eigrp_stream_put A s (take 16 (ip_bytes address)))))"

definition eigrp_ipv6_packet_prefix_decode ::
    "eigrp_stream \<Rightarrow> eigrp_prefix \<Rightarrow> nat \<times> eigrp_prefix \<times> eigrp_stream" where
  "eigrp_ipv6_packet_prefix_decode s prefix =
     (if \<not> eigrp_ipv6_stream_has s 1 then (0, prefix, s)
      else
        let start = st_getp s;
            (prefix_length, s) = eigrp_stream_getc s
        in if 128 < prefix_length then (0, prefix, eigrp_stream_set_getp s start)
           else
             let address_length = eigrp_ipv6_prefix_bytes prefix_length
             in if \<not> eigrp_ipv6_stream_has s address_length
                then (0, prefix, eigrp_stream_set_getp s start)
                else
                  let (bs, s) = (if address_length \<noteq> 0 then eigrp_stream_get s address_length else ([], s));
                      prefix = \<lparr>pfx_address = \<lparr>addr_afi = EIGRP_AFI_IPV6,
                                  addr_bytes = bs @ replicate (16 - length bs) 0\<rparr>,
                                pfx_length = prefix_length\<rparr>
                  in (1 + address_length, eigrp_prefix_normalize prefix, s))"

definition eigrp_ipv6_packet_prefix_encode :: "allocator \<Rightarrow> eigrp_stream \<Rightarrow> eigrp_prefix \<Rightarrow> nat \<times> eigrp_stream" where
  "eigrp_ipv6_packet_prefix_encode A s prefix =
     (if pfx_afi prefix \<noteq> EIGRP_AFI_IPV6 \<or> \<not> eigrp_prefix_valid prefix then (0, s)
      else
        let normalized = eigrp_prefix_normalize prefix;
            address_length = eigrp_ipv6_prefix_bytes (pfx_length normalized);
            s = snd (eigrp_stream_putc A s (pfx_length normalized));
            s = (if address_length \<noteq> 0
                 then snd (eigrp_stream_put A s (take address_length (pfx_bytes normalized))) else s)
        in (1 + address_length, s))"

definition eigrp_ipv6_packet_send ::
    "(eigrp_intf \<Rightarrow> eigrp_address \<Rightarrow> u8 list \<Rightarrow> int) \<Rightarrow> eigrp_intf \<Rightarrow> eigrp_addr \<Rightarrow> eigrp_stream \<Rightarrow> nat \<Rightarrow> int" where
  "eigrp_ipv6_packet_send sys_send ei dst s len =
     (if ip_afi dst \<noteq> AF_INET6 then -1
      else sys_send ei \<lparr>addr_afi = EIGRP_AFI_IPV6, addr_bytes = take 16 (ip_bytes dst)\<rparr>
             (take len (st_data s)))"

definition eigrp_ipv6_packet_receive ::
    "allocator \<Rightarrow> (nat \<Rightarrow> sys_rx option) \<Rightarrow> u32 \<Rightarrow> eigrp_intf list \<Rightarrow> eigrp_stream \<Rightarrow> rx_result" where
  "eigrp_ipv6_packet_receive A sys_receive vrf_id eiflist s =
     (let s = eigrp_stream_clear s
      in case sys_receive (st_size s) of
           None \<Rightarrow> (None, s)
         | Some rx \<Rightarrow>
             let s = s\<lparr>st_data := rx_data rx @ drop (length (rx_data rx)) (st_data s)\<rparr>
             in if ingress_vrf_id (rx_meta rx) \<noteq> vrf_id then (None, s)
                else if addr_afi (rx_source rx) \<noteq> EIGRP_AFI_IPV6
                        \<or> addr_afi (rx_destination rx) \<noteq> EIGRP_AFI_IPV6 \<or> st_size s < rx_length rx
                then (None, s)
                else
                  let s = eigrp_stream_set_endp A s (rx_length rx);
                      source = \<lparr>ip_afi = AF_INET6, ip_bytes = addr_bytes (rx_source rx)\<rparr>;
                      destination = \<lparr>ip_afi = AF_INET6, ip_bytes = addr_bytes (rx_destination rx)\<rparr>
                  in case eigrp_intf_lookup_by_ifindex eiflist (rx_ifindex rx) of
                       None \<Rightarrow> (None, s)
                     | Some ei \<Rightarrow>
                         if \<not> eigrp_ipv6_packet_source_on_link ei source then (None, s)
                         else (Some (ei, source, destination, rx_meta rx), s))"

definition eigrp_ipv6_summary_auto_prefix :: "eigrp_prefix \<Rightarrow> eigrp_prefix \<Rightarrow> eigrp_result \<times> eigrp_prefix" where
  "eigrp_ipv6_summary_auto_prefix component summary = (EIGRP_RESULT_UNSUPPORTED, summary)"

definition eigrp_ipv6_init :: eigrp_af_vectors where
  "eigrp_ipv6_init =
     \<lparr>af_afi = EIGRP_AFI_IPV6,
      packet_send = eigrp_ipv6_packet_send,
      packet_receive = eigrp_ipv6_packet_receive,
      packet_source_on_link = eigrp_ipv6_packet_source_on_link,
      packet_address_bytes = 16,
      packet_address_decode = eigrp_ipv6_packet_address_decode,
      packet_address_encode = eigrp_ipv6_packet_address_encode,
      packet_prefix_decode = eigrp_ipv6_packet_prefix_decode,
      packet_prefix_encode = eigrp_ipv6_packet_prefix_encode,
      classic_internal_tlv_type = EIGRP_TLV_IPv6_INT,
      classic_external_tlv_type = EIGRP_TLV_IPv6_EXT,
      multiprotocol_afi = EIGRP_AF_IPv6,
      summary_auto_prefix = eigrp_ipv6_summary_auto_prefix\<rparr>"

subsection \<open>The interface of an address family\<close>

text \<open>
  \<open>prefix_wire p\<close> is the wire form of a prefix: its length and its significant bytes.  The laws say that
  the encoders append the wire form, that the decoders read it back, and that a decoder either
  refuses and leaves the stream alone or moves the read position over the bytes it reports.
\<close>

definition prefix_wire :: "(u8 \<Rightarrow> nat) \<Rightarrow> eigrp_prefix \<Rightarrow> u8 list" where
  "prefix_wire nbytes p =
     pfx_length p # take (nbytes (pfx_length p)) (pfx_bytes (eigrp_prefix_normalize p))"

definition prefix_in :: "eigrp_af_vectors \<Rightarrow> eigrp_prefix \<Rightarrow> bool" where
  "prefix_in V p \<longleftrightarrow> pfx_afi p = af_afi V \<and> eigrp_prefix_valid p \<and> address_ok (pfx_address p)"

locale af_codec =
  fixes V :: eigrp_af_vectors and family :: addr_family and nbytes :: "u8 \<Rightarrow> nat"
  assumes address_bytes: "0 < packet_address_bytes V" "packet_address_bytes V \<le> 16"
    and address_bytes_even: "even (packet_address_bytes V)"
    and family: "family \<noteq> AF_UNSPEC"
    and address_encode:
      "packet_address_encode V A s a =
         (if ip_afi a \<noteq> AF_UNSPEC \<and> ip_afi a \<noteq> family then (0, s)
          else (packet_address_bytes V,
                snd (eigrp_stream_put A s (take (packet_address_bytes V) (ip_bytes a)))))"
    and address_decode:
      "stream_ok s \<Longrightarrow> packet_address_decode V s a =
         (if length (unread s) < packet_address_bytes V then (0, a, s)
          else (packet_address_bytes V,
                \<lparr>ip_afi = family,
                 ip_bytes = take (packet_address_bytes V) (unread s)
                              @ replicate (16 - packet_address_bytes V) 0\<rparr>,
                advance s (packet_address_bytes V)))"
    and prefix_encode_refuse: "\<not> prefix_in V p \<Longrightarrow> address_ok (pfx_address p)
          \<Longrightarrow> packet_prefix_encode V A s p = (0, s)"
    and prefix_encode:
      "prefix_in V p \<Longrightarrow> stream_ok s \<Longrightarrow> can_grow A s (length (prefix_wire nbytes p))
       \<Longrightarrow> fst (packet_prefix_encode V A s p) = length (prefix_wire nbytes p)
           \<and> appended A s (prefix_wire nbytes p) (snd (packet_prefix_encode V A s p))"
    and prefix_decode_wire:
      "prefix_in V p \<Longrightarrow> stream_ok s \<Longrightarrow> unread s = prefix_wire nbytes p @ r
       \<Longrightarrow> packet_prefix_decode V s q
           = (length (prefix_wire nbytes p), eigrp_prefix_normalize p,
              advance s (length (prefix_wire nbytes p)))"
    and prefix_decode_total:
      "stream_ok s \<Longrightarrow>
         packet_prefix_decode V s q = (0, q, s)
         \<or> (\<exists>n p. packet_prefix_decode V s q = (n, p, advance s n) \<and> 0 < n \<and> n \<le> length (unread s)
              \<and> n \<le> 17 \<and> prefix_in V p \<and> eigrp_prefix_normalize p = p)"
    and classic_types:
      "classic_internal_tlv_type V \<noteq> classic_external_tlv_type V"
      "2 < classic_internal_tlv_type V" "2 < classic_external_tlv_type V"

context af_codec
begin

lemma length_prefix_wire: "address_ok (pfx_address p) \<Longrightarrow> length (prefix_wire nbytes p) \<le> 17"
  using length_normalize [of p] by (simp add: prefix_wire_def address_ok_def)

lemma prefix_roundtrip:
  assumes p: "prefix_in V p" and s: "stream_ok s" "unread s = []" and g: "can_grow A s 17"
  shows "\<exists>s'. packet_prefix_decode V (snd (packet_prefix_encode V A s p)) q
           = (fst (packet_prefix_encode V A s p), eigrp_prefix_normalize p, s')
         \<and> stream_ok s' \<and> unread s' = []"
proof -
  let ?w = "prefix_wire nbytes p" and ?t = "snd (packet_prefix_encode V A s p)"
  have "can_grow A s (length ?w)"
    using p g length_prefix_wire [of p] by (auto simp: prefix_in_def intro: can_grow_mono)
  then have n: "fst (packet_prefix_encode V A s p) = length ?w" and ap: "appended A s ?w ?t"
    using prefix_encode [OF p s(1)] by auto
  have u: "unread ?t = ?w @ []" using appended_unread [OF ap s] by simp
  show ?thesis
    using prefix_decode_wire [OF p appendedD(1) [OF ap] u] n u appendedD(1) [OF ap]
    by (simp add: advance_ok)
qed

end

lemma ipv4_stream_has [simp]:
  "stream_ok s \<Longrightarrow> eigrp_ipv4_stream_has s n \<longleftrightarrow> n \<le> length (unread s)"
  by (auto simp: eigrp_ipv4_stream_has_def length_unread)

lemma ipv6_stream_has [simp]:
  "stream_ok s \<Longrightarrow> eigrp_ipv6_stream_has s n \<longleftrightarrow> n \<le> length (unread s)"
  by (auto simp: eigrp_ipv6_stream_has_def length_unread)

lemma set_getp_back:
  "stream_ok s \<Longrightarrow> eigrp_stream_set_getp (advance s n) (st_getp s) = s"
  by (simp add: eigrp_stream_set_getp_def advance_def stream_ok_def)

text \<open>The bytes a decoder reads are the bytes of a prefix of its family.\<close>

definition wire_prefix :: "eigrp_afi \<Rightarrow> u8 \<Rightarrow> u8 list \<Rightarrow> eigrp_prefix" where
  "wire_prefix afi len bs =
     \<lparr>pfx_address = \<lparr>addr_afi = afi, addr_bytes = bs @ replicate (16 - length bs) 0\<rparr>, pfx_length = len\<rparr>"

lemma wire_prefix_ok:
  "length bs \<le> 16 \<Longrightarrow> address_ok (pfx_address (wire_prefix afi len bs))"
  "pfx_afi (wire_prefix afi len bs) = afi" "pfx_length (wire_prefix afi len bs) = len"
  by (simp_all add: wire_prefix_def address_ok_def)

lemma wire_prefix_normalized:
  assumes "eigrp_prefix_valid p" and "address_ok (pfx_address p)"
    and "unat (pfx_length p) \<le> 8 * k" "k \<le> 16"
  shows "eigrp_prefix_normalize
      (wire_prefix (pfx_afi p) (pfx_length p) (take k (pfx_bytes (eigrp_prefix_normalize p))))
    = eigrp_prefix_normalize p"
proof -
  have "length (pfx_bytes (eigrp_prefix_normalize p)) = 16"
    using length_normalize [OF assms(2)] by (simp add: address_ok_def)
  then have "wire_prefix (pfx_afi p) (pfx_length p) (take k (pfx_bytes (eigrp_prefix_normalize p)))
      = eigrp_prefix_normalize p"
    using normalize_pad [OF assms] assms(4)
    by (auto simp: wire_prefix_def min_absorb2 intro!: eigrp_prefix.equality eigrp_address.equality)
  then show ?thesis using normalize_idempotent [OF assms(2)] by simp
qed

subsection \<open>IPv4 implements the interface\<close>

lemma ipv4_prefix_bytes_enough:
  "n \<le> 32 \<Longrightarrow> unat n \<le> 8 * eigrp_ipv4_prefix_bytes n \<and> eigrp_ipv4_prefix_bytes n \<le> 4"
proof -
  assume "n \<le> 32"
  then have "unat n \<le> 32" by (simp add: word_le_nat_alt)
  moreover have "unat n \<noteq> 0" if "n \<noteq> 0" using that by (simp add: unat_eq_zero)
  moreover have "unat n \<noteq> 32" if "n \<noteq> 32" using that by (auto simp: word_unat_eq_iff)
  ultimately show ?thesis unfolding eigrp_ipv4_prefix_bytes_def by auto
qed

lemma ipv4_fields [simp]:
  "af_afi eigrp_ipv4_init = EIGRP_AFI_IPV4"
  "packet_address_bytes eigrp_ipv4_init = 4"
  "packet_address_decode eigrp_ipv4_init = eigrp_ipv4_packet_address_decode"
  "packet_address_encode eigrp_ipv4_init = eigrp_ipv4_packet_address_encode"
  "packet_prefix_decode eigrp_ipv4_init = eigrp_ipv4_packet_prefix_decode"
  "packet_prefix_encode eigrp_ipv4_init = eigrp_ipv4_packet_prefix_encode"
  "classic_internal_tlv_type eigrp_ipv4_init = EIGRP_TLV_IPv4_INT"
  "classic_external_tlv_type eigrp_ipv4_init = EIGRP_TLV_IPv4_EXT"
  "multiprotocol_afi eigrp_ipv4_init = EIGRP_AF_IPv4"
  by (simp_all add: eigrp_ipv4_init_def)

lemma prefix_in_ipv4:
  "prefix_in eigrp_ipv4_init p
   \<longleftrightarrow> pfx_afi p = EIGRP_AFI_IPV4 \<and> pfx_length p \<le> 32 \<and> address_ok (pfx_address p)"
  by (auto simp: prefix_in_def eigrp_prefix_valid_def)

lemma ipv4_prefix_encode:
  assumes p: "prefix_in eigrp_ipv4_init p" and s: "stream_ok s"
    and g: "can_grow A s (length (prefix_wire eigrp_ipv4_prefix_bytes p))"
  shows "fst (eigrp_ipv4_packet_prefix_encode A s p) = length (prefix_wire eigrp_ipv4_prefix_bytes p)"
    and "appended A s (prefix_wire eigrp_ipv4_prefix_bytes p) (snd (eigrp_ipv4_packet_prefix_encode A s p))"
proof -
  let ?k = "eigrp_ipv4_prefix_bytes (pfx_length p)" and ?b = "pfx_bytes (eigrp_prefix_normalize p)"
  note b = ipv4_prefix_bytes_enough [of "pfx_length p"]
  have ok: "pfx_afi p = EIGRP_AFI_IPV4" "pfx_length p \<le> 32" "eigrp_prefix_valid p"
    and len: "length ?b = 16"
    using p length_normalize [of p] by (auto simp: prefix_in_ipv4 eigrp_prefix_valid_def address_ok_def)
  have k: "length (take ?k ?b) = ?k" using b ok(2) len by simp
  have w: "prefix_wire eigrp_ipv4_prefix_bytes p = [pfx_length p] @ take ?k ?b"
    by (simp add: prefix_wire_def)
  show "fst (eigrp_ipv4_packet_prefix_encode A s p) = length (prefix_wire eigrp_ipv4_prefix_bytes p)"
    using ok k by (simp add: eigrp_ipv4_packet_prefix_encode_def Let_def w not_less)
  have one: "appended A s [pfx_length p] (snd (eigrp_stream_putc A s (pfx_length p)))"
    unfolding put_defs using s g by (intro appended_first) (auto simp: w intro: can_grow_mono)
  have "appended A s ([pfx_length p] @ take ?k ?b)
      (snd (eigrp_stream_put A (snd (eigrp_stream_putc A s (pfx_length p))) (take ?k ?b)))"
    using g k by (intro appended_put [OF one]) (simp add: w)
  with one show "appended A s (prefix_wire eigrp_ipv4_prefix_bytes p)
      (snd (eigrp_ipv4_packet_prefix_encode A s p))"
    unfolding w using ok by (auto simp: eigrp_ipv4_packet_prefix_encode_def Let_def not_less)
qed

lemma ipv4_prefix_decode_eq:
  assumes "stream_ok s"
  shows "eigrp_ipv4_packet_prefix_decode s q =
     (case unread s of
        [] \<Rightarrow> (0, q, s)
      | n # bs \<Rightarrow>
          if 32 < n \<or> length bs < eigrp_ipv4_prefix_bytes n then (0, q, s)
          else (1 + eigrp_ipv4_prefix_bytes n,
                eigrp_prefix_normalize (wire_prefix EIGRP_AFI_IPV4 n (take (eigrp_ipv4_prefix_bytes n) bs)),
                advance s (1 + eigrp_ipv4_prefix_bytes n)))"
proof (cases "unread s")
  case (Cons n bs)
  then have "eigrp_stream_getc s = (n, advance s 1)" "stream_ok (advance s 1)"
    "unread (advance s 1) = bs"
    using assms by (simp_all add: getc_eq advance_ok)
  with Cons assms show ?thesis
    by (auto simp: eigrp_ipv4_packet_prefix_decode_def get_eq set_getp_back wire_prefix_def Let_def not_le)
qed (use assms in \<open>simp add: eigrp_ipv4_packet_prefix_decode_def\<close>)

lemma ipv4_prefix_decode_wire:
  assumes p: "prefix_in eigrp_ipv4_init p" and s: "stream_ok s"
    and u: "unread s = prefix_wire eigrp_ipv4_prefix_bytes p @ r"
  shows "eigrp_ipv4_packet_prefix_decode s q
     = (length (prefix_wire eigrp_ipv4_prefix_bytes p), eigrp_prefix_normalize p,
        advance s (length (prefix_wire eigrp_ipv4_prefix_bytes p)))"
proof -
  let ?k = "eigrp_ipv4_prefix_bytes (pfx_length p)"
  note b = ipv4_prefix_bytes_enough [of "pfx_length p"]
  have ok: "pfx_afi p = EIGRP_AFI_IPV4" "pfx_length p \<le> 32" "eigrp_prefix_valid p" "address_ok (pfx_address p)"
    and len: "length (pfx_bytes (eigrp_prefix_normalize p)) = 16"
    using p length_normalize [of p] by (auto simp: prefix_in_ipv4 eigrp_prefix_valid_def address_ok_def)
  then show ?thesis
    using wire_prefix_normalized [OF ok(3,4), of ?k] b u s
    by (simp add: ipv4_prefix_decode_eq prefix_wire_def not_less)
qed

lemma ipv4_prefix_decode_total:
  assumes "stream_ok s"
  shows "eigrp_ipv4_packet_prefix_decode s q = (0, q, s)
     \<or> (\<exists>n p. eigrp_ipv4_packet_prefix_decode s q = (n, p, advance s n) \<and> 0 < n \<and> n \<le> length (unread s)
          \<and> n \<le> 17 \<and> prefix_in eigrp_ipv4_init p \<and> eigrp_prefix_normalize p = p)"
proof (cases "unread s")
  case (Cons n bs)
  show ?thesis
  proof (cases "32 < n \<or> length bs < eigrp_ipv4_prefix_bytes n")
    case False
    then have n: "n \<le> 32" and l: "eigrp_ipv4_prefix_bytes n \<le> length bs" by auto
    let ?w = "wire_prefix EIGRP_AFI_IPV4 n (take (eigrp_ipv4_prefix_bytes n) bs)"
    have ok: "address_ok (pfx_address ?w)"
      using ipv4_prefix_bytes_enough [OF n] l by (intro wire_prefix_ok) simp
    then have "prefix_in eigrp_ipv4_init (eigrp_prefix_normalize ?w)"
      using n by (simp add: prefix_in_ipv4 wire_prefix_ok(2,3))
    then show ?thesis
      using Cons False assms n l ipv4_prefix_bytes_enough [OF n] normalize_idempotent [OF ok]
      by (intro disjI2 exI [of _ "1 + eigrp_ipv4_prefix_bytes n"] exI [of _ "eigrp_prefix_normalize ?w"])
        (simp add: ipv4_prefix_decode_eq)
  qed (use assms Cons in \<open>simp add: ipv4_prefix_decode_eq\<close>)
qed (use assms in \<open>simp add: ipv4_prefix_decode_eq\<close>)

interpretation ipv4: af_codec eigrp_ipv4_init AF_INET eigrp_ipv4_prefix_bytes
proof
  show "packet_prefix_encode eigrp_ipv4_init A s p = (0, s)"
    if "\<not> prefix_in eigrp_ipv4_init p" "address_ok (pfx_address p)" for A s p
    using that unfolding prefix_in_ipv4
    by (auto simp: eigrp_ipv4_packet_prefix_encode_def eigrp_prefix_valid_def not_less)
qed (simp_all add: ipv4_prefix_encode ipv4_prefix_decode_wire ipv4_prefix_decode_total
  eigrp_ipv4_packet_address_encode_def eigrp_ipv4_packet_address_decode_def get_eq not_less min_absorb1
  EIGRP_TLV_IPv4_INT_def EIGRP_TLV_IPv4_EXT_def word_less_nat_alt)

subsection \<open>IPv6 implements the interface\<close>

lemma ipv6_prefix_bytes_enough:
  "n \<le> 128 \<Longrightarrow> unat n \<le> 8 * eigrp_ipv6_prefix_bytes n \<and> eigrp_ipv6_prefix_bytes n \<le> 16"
proof -
  assume "n \<le> 128"
  then have "unat n \<le> 128" by (simp add: word_le_nat_alt)
  moreover have "unat n \<noteq> 0" if "n \<noteq> 0" using that by (simp add: unat_eq_zero)
  moreover have "unat n \<noteq> 128" if "n \<noteq> 128" using that by (auto simp: word_unat_eq_iff)
  ultimately show ?thesis unfolding eigrp_ipv6_prefix_bytes_def by auto
qed

lemma ipv6_fields [simp]:
  "af_afi eigrp_ipv6_init = EIGRP_AFI_IPV6"
  "packet_address_bytes eigrp_ipv6_init = 16"
  "packet_address_decode eigrp_ipv6_init = eigrp_ipv6_packet_address_decode"
  "packet_address_encode eigrp_ipv6_init = eigrp_ipv6_packet_address_encode"
  "packet_prefix_decode eigrp_ipv6_init = eigrp_ipv6_packet_prefix_decode"
  "packet_prefix_encode eigrp_ipv6_init = eigrp_ipv6_packet_prefix_encode"
  "classic_internal_tlv_type eigrp_ipv6_init = EIGRP_TLV_IPv6_INT"
  "classic_external_tlv_type eigrp_ipv6_init = EIGRP_TLV_IPv6_EXT"
  "multiprotocol_afi eigrp_ipv6_init = EIGRP_AF_IPv6"
  by (simp_all add: eigrp_ipv6_init_def)

lemma prefix_in_ipv6:
  "prefix_in eigrp_ipv6_init p
   \<longleftrightarrow> pfx_afi p = EIGRP_AFI_IPV6 \<and> pfx_length p \<le> 128 \<and> address_ok (pfx_address p)"
  by (auto simp: prefix_in_def eigrp_prefix_valid_def)

lemma ipv6_prefix_encode:
  assumes p: "prefix_in eigrp_ipv6_init p" and s: "stream_ok s"
    and g: "can_grow A s (length (prefix_wire eigrp_ipv6_prefix_bytes p))"
  shows "fst (eigrp_ipv6_packet_prefix_encode A s p) = length (prefix_wire eigrp_ipv6_prefix_bytes p)"
    and "appended A s (prefix_wire eigrp_ipv6_prefix_bytes p) (snd (eigrp_ipv6_packet_prefix_encode A s p))"
proof -
  let ?k = "eigrp_ipv6_prefix_bytes (pfx_length p)" and ?b = "pfx_bytes (eigrp_prefix_normalize p)"
  note b = ipv6_prefix_bytes_enough [of "pfx_length p"]
  have ok: "pfx_afi p = EIGRP_AFI_IPV6" "pfx_length p \<le> 128" "eigrp_prefix_valid p"
    and len: "length ?b = 16"
    using p length_normalize [of p] by (auto simp: prefix_in_ipv6 eigrp_prefix_valid_def address_ok_def)
  have k: "length (take ?k ?b) = ?k" using b ok(2) len by simp
  have w: "prefix_wire eigrp_ipv6_prefix_bytes p = [pfx_length p] @ take ?k ?b"
    by (simp add: prefix_wire_def)
  show "fst (eigrp_ipv6_packet_prefix_encode A s p) = length (prefix_wire eigrp_ipv6_prefix_bytes p)"
    using ok k by (simp add: eigrp_ipv6_packet_prefix_encode_def Let_def w not_less)
  have one: "appended A s [pfx_length p] (snd (eigrp_stream_putc A s (pfx_length p)))"
    unfolding put_defs using s g by (intro appended_first) (auto simp: w intro: can_grow_mono)
  have "appended A s ([pfx_length p] @ take ?k ?b)
      (snd (eigrp_stream_put A (snd (eigrp_stream_putc A s (pfx_length p))) (take ?k ?b)))"
    using g k by (intro appended_put [OF one]) (simp add: w)
  with one show "appended A s (prefix_wire eigrp_ipv6_prefix_bytes p)
      (snd (eigrp_ipv6_packet_prefix_encode A s p))"
    unfolding w using ok by (auto simp: eigrp_ipv6_packet_prefix_encode_def Let_def not_less)
qed

lemma ipv6_prefix_decode_eq:
  assumes "stream_ok s"
  shows "eigrp_ipv6_packet_prefix_decode s q =
     (case unread s of
        [] \<Rightarrow> (0, q, s)
      | n # bs \<Rightarrow>
          if 128 < n \<or> length bs < eigrp_ipv6_prefix_bytes n then (0, q, s)
          else (1 + eigrp_ipv6_prefix_bytes n,
                eigrp_prefix_normalize (wire_prefix EIGRP_AFI_IPV6 n (take (eigrp_ipv6_prefix_bytes n) bs)),
                advance s (1 + eigrp_ipv6_prefix_bytes n)))"
proof (cases "unread s")
  case (Cons n bs)
  then have "eigrp_stream_getc s = (n, advance s 1)" "stream_ok (advance s 1)"
    "unread (advance s 1) = bs"
    using assms by (simp_all add: getc_eq advance_ok)
  with Cons assms show ?thesis
    by (auto simp: eigrp_ipv6_packet_prefix_decode_def get_eq set_getp_back wire_prefix_def Let_def not_le)
qed (use assms in \<open>simp add: eigrp_ipv6_packet_prefix_decode_def\<close>)

lemma ipv6_prefix_decode_wire:
  assumes p: "prefix_in eigrp_ipv6_init p" and s: "stream_ok s"
    and u: "unread s = prefix_wire eigrp_ipv6_prefix_bytes p @ r"
  shows "eigrp_ipv6_packet_prefix_decode s q
     = (length (prefix_wire eigrp_ipv6_prefix_bytes p), eigrp_prefix_normalize p,
        advance s (length (prefix_wire eigrp_ipv6_prefix_bytes p)))"
proof -
  let ?k = "eigrp_ipv6_prefix_bytes (pfx_length p)"
  note b = ipv6_prefix_bytes_enough [of "pfx_length p"]
  have ok: "pfx_afi p = EIGRP_AFI_IPV6" "pfx_length p \<le> 128" "eigrp_prefix_valid p" "address_ok (pfx_address p)"
    and len: "length (pfx_bytes (eigrp_prefix_normalize p)) = 16"
    using p length_normalize [of p] by (auto simp: prefix_in_ipv6 eigrp_prefix_valid_def address_ok_def)
  then show ?thesis
    using wire_prefix_normalized [OF ok(3,4), of ?k] b u s
    by (simp add: ipv6_prefix_decode_eq prefix_wire_def not_less)
qed

lemma ipv6_prefix_decode_total:
  assumes "stream_ok s"
  shows "eigrp_ipv6_packet_prefix_decode s q = (0, q, s)
     \<or> (\<exists>n p. eigrp_ipv6_packet_prefix_decode s q = (n, p, advance s n) \<and> 0 < n \<and> n \<le> length (unread s)
          \<and> n \<le> 17 \<and> prefix_in eigrp_ipv6_init p \<and> eigrp_prefix_normalize p = p)"
proof (cases "unread s")
  case (Cons n bs)
  show ?thesis
  proof (cases "128 < n \<or> length bs < eigrp_ipv6_prefix_bytes n")
    case False
    then have n: "n \<le> 128" and l: "eigrp_ipv6_prefix_bytes n \<le> length bs" by auto
    let ?w = "wire_prefix EIGRP_AFI_IPV6 n (take (eigrp_ipv6_prefix_bytes n) bs)"
    have ok: "address_ok (pfx_address ?w)"
      using ipv6_prefix_bytes_enough [OF n] l by (intro wire_prefix_ok) simp
    then have "prefix_in eigrp_ipv6_init (eigrp_prefix_normalize ?w)"
      using n by (simp add: prefix_in_ipv6 wire_prefix_ok(2,3))
    then show ?thesis
      using Cons False assms n l ipv6_prefix_bytes_enough [OF n] normalize_idempotent [OF ok]
      by (intro disjI2 exI [of _ "1 + eigrp_ipv6_prefix_bytes n"] exI [of _ "eigrp_prefix_normalize ?w"])
        (simp add: ipv6_prefix_decode_eq)
  qed (use assms Cons in \<open>simp add: ipv6_prefix_decode_eq\<close>)
qed (use assms in \<open>simp add: ipv6_prefix_decode_eq\<close>)

interpretation ipv6: af_codec eigrp_ipv6_init AF_INET6 eigrp_ipv6_prefix_bytes
proof
  show "packet_prefix_encode eigrp_ipv6_init A s p = (0, s)"
    if "\<not> prefix_in eigrp_ipv6_init p" "address_ok (pfx_address p)" for A s p
    using that unfolding prefix_in_ipv6
    by (auto simp: eigrp_ipv6_packet_prefix_encode_def eigrp_prefix_valid_def not_less)
qed (simp_all add: ipv6_prefix_encode ipv6_prefix_decode_wire ipv6_prefix_decode_total
  eigrp_ipv6_packet_address_encode_def eigrp_ipv6_packet_address_decode_def get_eq not_less min_absorb1
  EIGRP_TLV_IPv6_INT_def EIGRP_TLV_IPv6_EXT_def word_less_nat_alt)

subsection \<open>Correctness\<close>

text \<open>
  Encoding a prefix and decoding it again gives the prefix with its host bits cleared, consumes
  exactly the bytes the encoder reported, and leaves nothing behind; for IPv4 and for IPv6.
\<close>

theorem prefix_codec_roundtrip:
  assumes "V \<in> {eigrp_ipv4_init, eigrp_ipv6_init}"
    and "prefix_in V p" and "stream_ok s" and "unread s = []" and "can_grow A s 17"
  shows "\<exists>s'. packet_prefix_decode V (snd (packet_prefix_encode V A s p)) q
           = (fst (packet_prefix_encode V A s p), eigrp_prefix_normalize p, s')
         \<and> stream_ok s' \<and> unread s' = []"
  using assms ipv4.prefix_roundtrip ipv6.prefix_roundtrip by blast

theorem prefix_codec_roundtrip_witness:
  "\<exists>s'. packet_prefix_decode eigrp_ipv4_init (snd (packet_prefix_encode eigrp_ipv4_init zero_alloc
            (sample_stream\<lparr>st_getp := 3\<rparr>) sample_prefix)) zero_prefix
         = (fst (packet_prefix_encode eigrp_ipv4_init zero_alloc (sample_stream\<lparr>st_getp := 3\<rparr>) sample_prefix),
            eigrp_prefix_normalize sample_prefix, s')
       \<and> stream_ok s' \<and> unread s' = []"
  by (rule prefix_codec_roundtrip)
    (simp_all add: prefix_in_ipv4 sample_prefix_ok,
     simp_all add: sample_prefix_def sample_stream_def stream_ok_def unread_def written_def can_grow_def
       SIZE_MAX_def word_le_nat_alt)

text \<open>
  The IPv4 receive path hands a datagram on only when it came in on this VRF, the chosen interface
  is one of the instance's, the source address is on that interface's link, and the source is not
  one of the router's own addresses; the stream is then well-formed and its unread bytes are the
  first \<open>rx_length\<close> bytes of the buffer the platform filled.
\<close>

theorem ipv4_receive_guards:
  assumes "eigrp_ipv4_packet_receive A recv vrf_id eiflist s = (Some (ei, src, dst, meta), s')"
    and "stream_ok s" and "\<And>n rx. recv n = Some rx \<Longrightarrow> length (rx_data rx) \<le> n"
  shows "ei \<in> set eiflist \<and> eigrp_ipv4_packet_source_on_link ei src
     \<and> eigrp_intf_lookup_by_local_addr eiflist src = None \<and> ingress_vrf_id meta = vrf_id
     \<and> stream_ok s'
     \<and> (\<exists>rx. recv (st_size s) = Some rx \<and> rx_length rx \<le> st_size s
           \<and> unread s' = take (rx_length rx) (rx_data rx @ drop (length (rx_data rx)) (st_data s)))"
  using assms(1,2) assms(3) [of "st_size s"]
  by (auto simp: eigrp_ipv4_packet_receive_def eigrp_stream_clear_def eigrp_stream_set_endp_def
      eigrp_intf_lookup_by_ifindex_def stream_ok_def unread_def written_def Let_def
      dest: find_Some_set split: option.splits if_splits)

definition sample_intf :: eigrp_intf where
  "sample_intf = \<lparr>intf_ifindex = 3, intf_type = EIGRP_IFTYPE_BROADCAST, intf_address = sample_prefix,
      intf_bandwidth = 100000, intf_delay = 10,
      intf_reliability = 255, intf_load = 1\<rparr>"

definition sample_rx :: sys_rx where
  "sample_rx = \<lparr>rx_data = [1], rx_length = 1, rx_ifindex = 3,
     rx_source = \<lparr>addr_afi = EIGRP_AFI_IPV4, addr_bytes = [10, 1, 0x70, 2] @ replicate 12 0\<rparr>,
     rx_destination = \<lparr>addr_afi = EIGRP_AFI_IPV4, addr_bytes = [224, 0, 0, 10] @ replicate 12 0\<rparr>,
     rx_meta = \<lparr>ingress_vrf_id = 0, network_header_length = 20, eigrp_length = 1,
                destination_multicast = True\<rparr>\<rparr>"

lemma sample_receive:
  "eigrp_ipv4_packet_receive zero_alloc (\<lambda>n. if 1 \<le> n then Some sample_rx else None) 0 [sample_intf] sample_stream
     = (Some (sample_intf, \<lparr>ip_afi = AF_INET, ip_bytes = addr_bytes (rx_source sample_rx)\<rparr>,
              \<lparr>ip_afi = AF_INET, ip_bytes = addr_bytes (rx_destination sample_rx)\<rparr>, rx_meta sample_rx),
        \<lparr>st_data = [1, 2, 3, 4], st_size = 4, st_getp = 0, st_endp = 1\<rparr>)"
  by code_simp

theorem ipv4_receive_guards_witness:
  "eigrp_ipv4_packet_source_on_link sample_intf
     \<lparr>ip_afi = AF_INET, ip_bytes = addr_bytes (rx_source sample_rx)\<rparr>"
  by (rule ipv4_receive_guards [OF sample_receive sample_stream_ok, THEN conjunct2, THEN conjunct1])
    (auto simp: sample_rx_def split: if_splits)

end
