(* ===== verification/Eigrp_Metric.thy ===== *)
theory Eigrp_Metric
  imports Eigrp_AF
begin

text \<open>
  The composite metric and its configuration (\<^verbatim>\<open>eigrp_metric.c\<close>).  The vector metric is the record
  \<open>eigrp_metrics\<close>; \<open>eigrp_metric_calculate\<close> is the 64-bit composite with its wrap-around, and
  \<open>metric_formula\<close> the formula over the natural numbers that it implements while nothing overflows.
  The configuration operations work on a context of a configuration object and a running instance,
  either of which may be missing; the topology and codec refreshes they trigger are recorded as
  effects.  The hand-over to the instance thread is the same function called there, so it is left
  out.
\<close>

record eigrp_metrics =
  delay :: u64
  bandwidth :: u64
  mtu :: "u8 list"
  hop_count :: u8
  reliability :: u8
  load :: u8
  metric_tag :: u8
  metric_flags :: u8

record eigrp_metric_values =
  mv_bandwidth :: u32
  mv_delay :: u32
  mv_reliability :: u8
  mv_load :: u8
  mv_mtu :: u16

record eigrp_metric_weights =
  mw_tos :: u8
  mw_k1 :: u8
  mw_k2 :: u8
  mw_k3 :: u8
  mw_k4 :: u8
  mw_k5 :: u8
  mw_k6 :: u8

text \<open>The part of \<^verbatim>\<open>eigrp_instance_t\<close> that metric and path selection read.\<close>

record eigrp_instance =
  k_values :: "u8 list"
  variance :: u8
  traffic_share_balanced :: bool
  max_paths :: u8
  max_hops :: u8
  metric_version :: u8

definition EIGRP_METRIC_MAX :: u64 where "EIGRP_METRIC_MAX = 0xffffffffffffffff"
definition EIGRP_BANDWIDTH_MAX :: u64 where "EIGRP_BANDWIDTH_MAX = 0xffffffffffffffff"
definition EIGRP_MAX_METRIC :: u32 where "EIGRP_MAX_METRIC = 0xffffffff"
definition EIGRP_CLASSIC_MAX :: u32 where "EIGRP_CLASSIC_MAX = 0xffffffff"
definition EIGRP_BANDWIDTH_SCALER :: u64 where "EIGRP_BANDWIDTH_SCALER = 10000000"
definition EIGRP_CLASSIC_SCALER :: u64 where "EIGRP_CLASSIC_SCALER = 256"
definition EIGRP_METRIC_SCALER :: u64 where "EIGRP_METRIC_SCALER = 65536"
definition EIGRP_TLV_32B_VERSION :: u8 where "EIGRP_TLV_32B_VERSION = 1"
definition EIGRP_TLV_64B_VERSION :: u8 where "EIGRP_TLV_64B_VERSION = 2"
definition EIGRP_MAJOR_VERSION :: u8 where "EIGRP_MAJOR_VERSION = 2"
definition EIGRP_MAX_HOPS :: u8 where "EIGRP_MAX_HOPS = 100"
definition EIGRP_VARIANCE_DEFAULT :: u8 where "EIGRP_VARIANCE_DEFAULT = 1"

lemmas metric_consts =
  EIGRP_METRIC_MAX_def EIGRP_BANDWIDTH_MAX_def EIGRP_MAX_METRIC_def EIGRP_CLASSIC_MAX_def
  EIGRP_BANDWIDTH_SCALER_def EIGRP_CLASSIC_SCALER_def EIGRP_METRIC_SCALER_def
  EIGRP_TLV_32B_VERSION_def EIGRP_TLV_64B_VERSION_def EIGRP_MAJOR_VERSION_def EIGRP_MAX_HOPS_def

subsection \<open>Scaling\<close>

text \<open>\<open>None\<close> is the division by zero.\<close>

definition eigrp_bandwidth_to_scaled :: "u64 \<Rightarrow> u32 option" where
  "eigrp_bandwidth_to_scaled bw =
     (if bw \<noteq> EIGRP_BANDWIDTH_MAX
      then if bw = 0 then None
           else let scaled = (EIGRP_CLASSIC_SCALER * EIGRP_BANDWIDTH_SCALER) div bw;
                    scaled = (if scaled \<noteq> 0 then scaled else 1);
                    scaled = (if scaled < EIGRP_METRIC_MAX then scaled else EIGRP_METRIC_MAX)
                in Some (ucast scaled)
      else Some (ucast EIGRP_BANDWIDTH_MAX))"

definition eigrp_scaled_to_bandwidth :: "u32 \<Rightarrow> u64" where
  "eigrp_scaled_to_bandwidth scaled =
     (if scaled \<noteq> EIGRP_CLASSIC_MAX
      then let bw = ucast scaled * (EIGRP_CLASSIC_SCALER * EIGRP_BANDWIDTH_SCALER)
           in if bw < EIGRP_METRIC_MAX then bw else EIGRP_BANDWIDTH_MAX
      else EIGRP_BANDWIDTH_MAX)"

definition eigrp_delay_to_scaled :: "u64 \<Rightarrow> u32" where
  "eigrp_delay_to_scaled d = (let d = (if d \<noteq> 0 then d else 1) in ucast (d * EIGRP_CLASSIC_SCALER))"

definition eigrp_scaled_to_delay :: "u32 \<Rightarrow> u64" where
  "eigrp_scaled_to_delay scaled =
     (let scaled = scaled div ucast EIGRP_CLASSIC_SCALER;
          scaled = (if scaled \<noteq> 0 then scaled else 1)
      in ucast scaled)"

definition eigrp_metric_values_convert :: "eigrp_metric_values \<Rightarrow> eigrp_metrics option" where
  "eigrp_metric_values_convert v =
     (case eigrp_bandwidth_to_scaled (ucast (mv_bandwidth v)) of
        None \<Rightarrow> None
      | Some bw \<Rightarrow>
          Some \<lparr>delay = ucast (mv_delay v), bandwidth = ucast bw,
                mtu = [ucast (mv_mtu v AND 0xff), ucast (drop_bit 8 (mv_mtu v) AND 0xff), 0],
                hop_count = 0, reliability = mv_reliability v, load = mv_load v,
                metric_tag = 0, metric_flags = 0\<rparr>)"

subsection \<open>The composite metric\<close>

definition metric_scale :: "eigrp_instance \<Rightarrow> u64" where
  "metric_scale e = (if EIGRP_TLV_64B_VERSION \<le> metric_version e
                     then EIGRP_METRIC_SCALER div EIGRP_CLASSIC_SCALER else 1)"

definition eigrp_metric_calculate :: "eigrp_instance \<Rightarrow> eigrp_metrics \<Rightarrow> u64" where
  "eigrp_metric_calculate e m =
     (if delay m = EIGRP_METRIC_MAX then EIGRP_METRIC_MAX
      else if delay m = ucast EIGRP_MAX_METRIC then ucast EIGRP_MAX_METRIC
      else
        let K = (\<lambda>i. ucast (k_values e ! i) :: u64);
            scale = metric_scale e;
            throughput = (if K 0 \<noteq> 0 then K 0 * bandwidth m * scale else 0);
            throughput = (if K 1 \<noteq> 0
                          then throughput + (K 1 * bandwidth m * scale) div (256 - ucast (load m))
                          else throughput);
            latency = (if K 2 \<noteq> 0 then K 2 * delay m * scale else 0);
            composite = throughput + latency;
            denominator = ucast (reliability m) + K 3
        in if K 4 \<noteq> 0 \<and> denominator = 0 then EIGRP_METRIC_MAX
           else
             let composite = (if K 4 \<noteq> 0 then (composite * K 4) div denominator else composite)
             in if metric_version e < EIGRP_TLV_64B_VERSION \<and> ucast EIGRP_CLASSIC_MAX < composite
                then ucast EIGRP_CLASSIC_MAX
                else if EIGRP_METRIC_MAX < composite then EIGRP_METRIC_MAX else composite)"

text \<open>
  \<^verbatim>\<open>eigrp_metric_total_calculate\<close> sets the total vector metric of a route from the reported one and
  the link, and gives its composite.
\<close>

definition eigrp_metric_total_calculate ::
    "eigrp_instance \<Rightarrow> eigrp_intf \<Rightarrow> eigrp_metrics \<Rightarrow> (eigrp_metrics \<times> u64) option" where
  "eigrp_metric_total_calculate e ei reported =
     (if delay reported = ucast EIGRP_MAX_METRIC
      then Some (reported\<lparr>delay := ucast EIGRP_MAX_METRIC\<rparr>, ucast EIGRP_MAX_METRIC)
      else if delay reported = EIGRP_METRIC_MAX
      then Some (reported\<lparr>delay := EIGRP_METRIC_MAX\<rparr>, EIGRP_METRIC_MAX)
      else
        let link_delay = ucast (eigrp_delay_to_scaled (ucast (intf_delay ei)));
            t = (if EIGRP_METRIC_MAX - link_delay \<le> delay reported
                 then reported\<lparr>delay := EIGRP_METRIC_MAX\<rparr>
                 else reported\<lparr>delay := delay reported + link_delay\<rparr>);
            t = (if hop_count t = 255 then t\<lparr>delay := EIGRP_METRIC_MAX\<rparr>
                 else t\<lparr>hop_count := hop_count t + 1\<rparr>);
            t = (if max_hops e < hop_count t then t\<lparr>delay := EIGRP_METRIC_MAX\<rparr> else t)
        in case eigrp_bandwidth_to_scaled (ucast (intf_bandwidth ei)) of
             None \<Rightarrow> None
           | Some bw \<Rightarrow>
               let t = t\<lparr>bandwidth := (if bandwidth t < ucast bw then ucast bw else bandwidth t)\<rparr>
               in Some (t, eigrp_metric_calculate e t))"

definition eigrp_metrics_match :: "eigrp_metrics \<Rightarrow> eigrp_metrics \<Rightarrow> bool" where
  "eigrp_metrics_match a b \<longleftrightarrow> bandwidth a = bandwidth b \<and> delay a = delay b
     \<and> hop_count a = hop_count b \<and> load a = load b \<and> reliability a = reliability b
     \<and> mtu a ! 0 = mtu b ! 0 \<and> mtu a ! 1 = mtu b ! 1 \<and> mtu a ! 2 = mtu b ! 2"

definition eigrp_metric_version_select :: "eigrp_instance option \<Rightarrow> u8 \<Rightarrow> u8" where
  "eigrp_metric_version_select e peer_version =
     (let local_version = (case e of Some e \<Rightarrow> metric_version e | None \<Rightarrow> EIGRP_MAJOR_VERSION)
      in if EIGRP_TLV_64B_VERSION \<le> local_version \<and> EIGRP_TLV_64B_VERSION \<le> peer_version
         then EIGRP_TLV_64B_VERSION else EIGRP_TLV_32B_VERSION)"

subsection \<open>Configuration\<close>

record eigrp_metric_config =
  mc_default_metric_configured :: bool
  mc_default_metric :: eigrp_metric_values
  mc_weights_configured :: bool
  mc_weights :: eigrp_metric_weights
  mc_variance_configured :: bool
  mc_variance :: u8
  mc_traffic_share_balanced :: bool
  mc_maximum_hops_configured :: bool
  mc_maximum_hops :: u8
  mc_version_32bit :: bool

record eigrp_af_config =
  metric_config :: "eigrp_metric_config option"

record eigrp_instance_context =
  ctx_config :: "eigrp_af_config option"
  ctx_runtime :: "eigrp_instance option"

datatype metric_effect =
    Topology_metric_update
  | Topology_multipath_update
  | Topology_traffic_share_update
  | Nbr_codec_update

type_synonym metric_outcome = "eigrp_result \<times> eigrp_instance_context \<times> metric_effect list"

definition zero_metric_values :: eigrp_metric_values where
  "zero_metric_values = \<lparr>mv_bandwidth = 0, mv_delay = 0, mv_reliability = 0, mv_load = 0, mv_mtu = 0\<rparr>"

definition zero_metric_weights :: eigrp_metric_weights where
  "zero_metric_weights =
     \<lparr>mw_tos = 0, mw_k1 = 0, mw_k2 = 0, mw_k3 = 0, mw_k4 = 0, mw_k5 = 0, mw_k6 = 0\<rparr>"

definition eigrp_metric_context_valid :: "eigrp_instance_context \<Rightarrow> bool" where
  "eigrp_metric_context_valid c \<longleftrightarrow> ctx_config c \<noteq> None \<or> ctx_runtime c \<noteq> None"

definition eigrp_metric_values_valid :: "eigrp_metric_values option \<Rightarrow> bool" where
  "eigrp_metric_values_valid m \<longleftrightarrow>
     (case m of None \<Rightarrow> False
      | Some v \<Rightarrow> mv_bandwidth v \<noteq> 0 \<and> mv_load v \<noteq> 0 \<and> mv_mtu v \<noteq> 0)"

text \<open>\<open>None\<close>: the allocation of the configuration object failed (\<open>calloc_ok\<close> is false).\<close>

definition eigrp_metric_config_create :: "bool \<Rightarrow> eigrp_af_config \<Rightarrow> eigrp_metric_config option" where
  "eigrp_metric_config_create calloc_ok af =
     (case metric_config af of
        Some c \<Rightarrow> Some c
      | None \<Rightarrow>
          if \<not> calloc_ok then None
          else Some \<lparr>mc_default_metric_configured = False, mc_default_metric = zero_metric_values,
                     mc_weights_configured = False, mc_weights = zero_metric_weights,
                     mc_variance_configured = False, mc_variance = 0,
                     mc_traffic_share_balanced = True, mc_maximum_hops_configured = False,
                     mc_maximum_hops = 0, mc_version_32bit = False\<rparr>)"

text \<open>
  The two shapes every update shares: \<open>config_reset\<close> changes an existing configuration object,
  \<open>config_set\<close> creates it when it is missing and fails when that is impossible.
\<close>

definition config_reset :: "(eigrp_metric_config \<Rightarrow> eigrp_metric_config) \<Rightarrow> eigrp_instance_context \<Rightarrow> eigrp_instance_context" where
  "config_reset f c =
     (case ctx_config c of
        Some af \<Rightarrow> c\<lparr>ctx_config := Some (af\<lparr>metric_config := map_option f (metric_config af)\<rparr>)\<rparr>
      | None \<Rightarrow> c)"

definition config_set ::
    "bool \<Rightarrow> (eigrp_metric_config \<Rightarrow> eigrp_metric_config) \<Rightarrow> eigrp_instance_context \<Rightarrow> eigrp_instance_context option" where
  "config_set calloc_ok f c =
     (case ctx_config c of
        Some af \<Rightarrow>
          (case eigrp_metric_config_create calloc_ok af of
             Some m \<Rightarrow> Some (c\<lparr>ctx_config := Some (af\<lparr>metric_config := Some (f m)\<rparr>)\<rparr>)
           | None \<Rightarrow> None)
      | None \<Rightarrow> Some c)"

definition runtime_update ::
    "(eigrp_instance \<Rightarrow> eigrp_instance) \<Rightarrow> metric_effect list \<Rightarrow> eigrp_instance_context \<Rightarrow> eigrp_instance_context \<times> metric_effect list" where
  "runtime_update f es c =
     (case ctx_runtime c of
        Some e \<Rightarrow> (c\<lparr>ctx_runtime := Some (f e)\<rparr>, es)
      | None \<Rightarrow> (c, []))"

definition eigrp_metric_default_update ::
    "bool \<Rightarrow> eigrp_operation \<Rightarrow> eigrp_instance_context \<Rightarrow> eigrp_metric_values option \<Rightarrow> metric_outcome" where
  "eigrp_metric_default_update calloc_ok oper c m =
     (case oper of
        EIGRP_RESET \<Rightarrow>
          if \<not> eigrp_metric_context_valid c then (EIGRP_RESULT_NOT_FOUND, c, [])
          else (EIGRP_RESULT_SUCCESS,
                config_reset (\<lambda>k. k\<lparr>mc_default_metric_configured := False,
                                    mc_default_metric := zero_metric_values\<rparr>) c, [])
      | EIGRP_SET \<Rightarrow>
          if \<not> eigrp_metric_values_valid m then (EIGRP_RESULT_INVALID_ARGUMENT, c, [])
          else if \<not> eigrp_metric_context_valid c then (EIGRP_RESULT_NOT_FOUND, c, [])
          else (case config_set calloc_ok (\<lambda>k. k\<lparr>mc_default_metric := the m,
                                            mc_default_metric_configured := True\<rparr>) c of
                  None \<Rightarrow> (EIGRP_RESULT_INTERNAL_FAILURE, c, [])
                | Some c \<Rightarrow> (EIGRP_RESULT_SUCCESS, c, [])))"

definition eigrp_metric_default :: "eigrp_af_config option \<Rightarrow> eigrp_metric_values option" where
  "eigrp_metric_default af =
     (case af of None \<Rightarrow> None
      | Some a \<Rightarrow>
          (case metric_config a of None \<Rightarrow> None
           | Some k \<Rightarrow> if mc_default_metric_configured k then Some (mc_default_metric k) else None))"

definition eigrp_metric_weights_update ::
    "bool \<Rightarrow> eigrp_operation \<Rightarrow> eigrp_instance_context \<Rightarrow> eigrp_metric_weights option \<Rightarrow> metric_outcome" where
  "eigrp_metric_weights_update calloc_ok oper c w =
     (case oper of
        EIGRP_RESET \<Rightarrow>
          if \<not> eigrp_metric_context_valid c then (EIGRP_RESULT_NOT_FOUND, c, [])
          else (EIGRP_RESULT_SUCCESS,
                runtime_update (\<lambda>e. e\<lparr>k_values := [1, 0, 1, 0, 0, 0]\<rparr>) [Topology_metric_update]
                  (config_reset (\<lambda>k. k\<lparr>mc_weights_configured := False,
                                       mc_weights := zero_metric_weights\<rparr>) c))
      | EIGRP_SET \<Rightarrow>
          (case w of
             None \<Rightarrow> (EIGRP_RESULT_INVALID_ARGUMENT, c, [])
           | Some w \<Rightarrow>
               if mw_tos w \<noteq> 0 then (EIGRP_RESULT_INVALID_ARGUMENT, c, [])
               else if \<not> eigrp_metric_context_valid c then (EIGRP_RESULT_NOT_FOUND, c, [])
               else (case config_set calloc_ok (\<lambda>k. k\<lparr>mc_weights := w, mc_weights_configured := True\<rparr>) c of
                       None \<Rightarrow> (EIGRP_RESULT_INTERNAL_FAILURE, c, [])
                     | Some c \<Rightarrow>
                         (EIGRP_RESULT_SUCCESS,
                          runtime_update
                            (\<lambda>e. e\<lparr>k_values := [mw_k1 w, mw_k2 w, mw_k3 w, mw_k4 w, mw_k5 w, mw_k6 w]\<rparr>)
                            [Topology_metric_update] c))))"

definition eigrp_metric_variance_update ::
    "bool \<Rightarrow> eigrp_operation \<Rightarrow> eigrp_instance_context \<Rightarrow> u8 \<Rightarrow> metric_outcome" where
  "eigrp_metric_variance_update calloc_ok oper c v =
     (case oper of
        EIGRP_RESET \<Rightarrow>
          if \<not> eigrp_metric_context_valid c then (EIGRP_RESULT_NOT_FOUND, c, [])
          else (EIGRP_RESULT_SUCCESS,
                runtime_update (\<lambda>e. e\<lparr>variance := EIGRP_VARIANCE_DEFAULT\<rparr>) [Topology_multipath_update]
                  (config_reset (\<lambda>k. k\<lparr>mc_variance_configured := False, mc_variance := 0\<rparr>) c))
      | EIGRP_SET \<Rightarrow>
          if v < 1 \<or> 128 < v then (EIGRP_RESULT_INVALID_ARGUMENT, c, [])
          else if \<not> eigrp_metric_context_valid c then (EIGRP_RESULT_NOT_FOUND, c, [])
          else (case config_set calloc_ok (\<lambda>k. k\<lparr>mc_variance := v, mc_variance_configured := True\<rparr>) c of
                  None \<Rightarrow> (EIGRP_RESULT_INTERNAL_FAILURE, c, [])
                | Some c \<Rightarrow>
                    (EIGRP_RESULT_SUCCESS,
                     runtime_update (\<lambda>e. e\<lparr>variance := v\<rparr>) [Topology_multipath_update] c)))"

definition eigrp_traffic_share_balanced_update ::
    "bool \<Rightarrow> eigrp_operation \<Rightarrow> eigrp_instance_context \<Rightarrow> metric_outcome" where
  "eigrp_traffic_share_balanced_update calloc_ok oper c =
     (if \<not> eigrp_metric_context_valid c then (EIGRP_RESULT_NOT_FOUND, c, [])
      else let enabled = (oper = EIGRP_SET)
           in case config_set calloc_ok (\<lambda>k. k\<lparr>mc_traffic_share_balanced := enabled\<rparr>) c of
                None \<Rightarrow> (EIGRP_RESULT_INTERNAL_FAILURE, c, [])
              | Some c \<Rightarrow>
                  (EIGRP_RESULT_SUCCESS,
                   runtime_update (\<lambda>e. e\<lparr>traffic_share_balanced := enabled\<rparr>)
                     [Topology_traffic_share_update] c))"

definition eigrp_metric_maximum_hops_update ::
    "bool \<Rightarrow> eigrp_operation \<Rightarrow> eigrp_instance_context \<Rightarrow> u8 \<Rightarrow> metric_outcome" where
  "eigrp_metric_maximum_hops_update calloc_ok oper c hops =
     (case oper of
        EIGRP_RESET \<Rightarrow>
          if \<not> eigrp_metric_context_valid c then (EIGRP_RESULT_NOT_FOUND, c, [])
          else (EIGRP_RESULT_SUCCESS,
                runtime_update (\<lambda>e. e\<lparr>max_hops := EIGRP_MAX_HOPS\<rparr>) []
                  (config_reset (\<lambda>k. k\<lparr>mc_maximum_hops_configured := False, mc_maximum_hops := 0\<rparr>) c))
      | EIGRP_SET \<Rightarrow>
          if hops = 0 then (EIGRP_RESULT_INVALID_ARGUMENT, c, [])
          else if \<not> eigrp_metric_context_valid c then (EIGRP_RESULT_NOT_FOUND, c, [])
          else (case config_set calloc_ok (\<lambda>k. k\<lparr>mc_maximum_hops := hops,
                                            mc_maximum_hops_configured := True\<rparr>) c of
                  None \<Rightarrow> (EIGRP_RESULT_INTERNAL_FAILURE, c, [])
                | Some c \<Rightarrow>
                    (EIGRP_RESULT_SUCCESS, runtime_update (\<lambda>e. e\<lparr>max_hops := hops\<rparr>) [] c)))"

definition eigrp_metric_version_update ::
    "bool \<Rightarrow> eigrp_operation \<Rightarrow> eigrp_instance_context \<Rightarrow> metric_outcome" where
  "eigrp_metric_version_update calloc_ok oper c =
     (case oper of
        EIGRP_RESET \<Rightarrow>
          if \<not> eigrp_metric_context_valid c then (EIGRP_RESULT_NOT_FOUND, c, [])
          else (EIGRP_RESULT_SUCCESS,
                runtime_update (\<lambda>e. e\<lparr>metric_version := EIGRP_MAJOR_VERSION\<rparr>)
                  [Nbr_codec_update, Topology_metric_update]
                  (config_reset (\<lambda>k. k\<lparr>mc_version_32bit := False\<rparr>) c))
      | EIGRP_SET \<Rightarrow>
          if \<not> eigrp_metric_context_valid c then (EIGRP_RESULT_NOT_FOUND, c, [])
          else (case config_set calloc_ok (\<lambda>k. k\<lparr>mc_version_32bit := True\<rparr>) c of
                  None \<Rightarrow> (EIGRP_RESULT_INTERNAL_FAILURE, c, [])
                | Some c \<Rightarrow>
                    (EIGRP_RESULT_SUCCESS,
                     runtime_update (\<lambda>e. e\<lparr>metric_version := EIGRP_TLV_32B_VERSION\<rparr>)
                       [Nbr_codec_update, Topology_metric_update] c)))"

datatype eigrp_metric_message =
    EIGRP_METRIC_MESSAGE_DEFAULT "eigrp_metric_values option"
  | EIGRP_METRIC_MESSAGE_WEIGHTS "eigrp_metric_weights option"
  | EIGRP_METRIC_MESSAGE_VARIANCE u8
  | EIGRP_METRIC_MESSAGE_TRAFFIC_SHARE
  | EIGRP_METRIC_MESSAGE_MAXIMUM_HOPS u8
  | EIGRP_METRIC_MESSAGE_VERSION

fun eigrp_metric_message_process ::
    "bool \<Rightarrow> eigrp_operation \<Rightarrow> eigrp_instance_context \<Rightarrow> eigrp_metric_message \<Rightarrow> metric_outcome" where
  "eigrp_metric_message_process ok oper c (EIGRP_METRIC_MESSAGE_DEFAULT m) = eigrp_metric_default_update ok oper c m"
| "eigrp_metric_message_process ok oper c (EIGRP_METRIC_MESSAGE_WEIGHTS w) = eigrp_metric_weights_update ok oper c w"
| "eigrp_metric_message_process ok oper c (EIGRP_METRIC_MESSAGE_VARIANCE v) = eigrp_metric_variance_update ok oper c v"
| "eigrp_metric_message_process ok oper c EIGRP_METRIC_MESSAGE_TRAFFIC_SHARE = eigrp_traffic_share_balanced_update ok oper c"
| "eigrp_metric_message_process ok oper c (EIGRP_METRIC_MESSAGE_MAXIMUM_HOPS h) = eigrp_metric_maximum_hops_update ok oper c h"
| "eigrp_metric_message_process ok oper c EIGRP_METRIC_MESSAGE_VERSION = eigrp_metric_version_update ok oper c"

subsection \<open>The metric as a formula\<close>

lemma unat_mult3:
  fixes a b c :: u64
  assumes "unat a * unat b * unat c < 2 ^ 64" and "c \<noteq> 0"
  shows "unat (a * b * c) = unat a * unat b * unat c"
proof -
  have "1 \<le> unat c" using assms(2) by (simp add: Suc_leI unat_gt_0)
  then have "unat a * unat b * 1 \<le> unat a * unat b * unat c" by (rule mult_le_mono2)
  then have "unat a * unat b < 2 ^ 64" using assms(1) by (simp only: mult_1_right le_less_trans)
  then have "unat (a * b) = unat a * unat b" by (simp add: unat_mult_lem [symmetric])
  with assms(1) show ?thesis by (simp add: unat_word_ariths)
qed

lemma unat_load: "unat (256 - ucast (l :: u8) :: u64) = 256 - unat l"
proof -
  have "(ucast l :: u64) \<le> 256"
    using u8_bounds [of l] by (simp add: word_le_nat_alt unsigned_ucast_eq take_bit_eq_mod)
  then show ?thesis using u8_bounds [of l] by (simp add: unat_sub unsigned_ucast_eq take_bit_eq_mod)
qed

lemma not_above_METRIC_MAX [simp]: "\<not> EIGRP_METRIC_MAX < x"
proof -
  have "unat x < 2 ^ 64" using unsigned_less [where ?'b = 64 and ?'a = nat, of x] by simp
  then show ?thesis by (simp add: EIGRP_METRIC_MAX_def word_less_nat_alt)
qed

lemma metric_scale_nz: "metric_scale e \<noteq> 0" "unat (metric_scale e) \<in> {1, 256}"
  by (auto simp: metric_scale_def metric_consts)

lemma unat_ucast_8_64 [simp]: "unat (ucast (x :: u8) :: u64) = unat x"
  using u8_bounds [of x] by (simp add: unsigned_ucast_eq take_bit_eq_mod)

lemma ucast_8_64_eq_0 [simp]: "(ucast (x :: u8) :: u64) = 0 \<longleftrightarrow> x = 0"
  by (metis unat_eq_zero unat_ucast_8_64)

abbreviation kval :: "eigrp_instance \<Rightarrow> nat \<Rightarrow> nat" where
  "kval e i \<equiv> unat (k_values e ! i)"

definition vector_sum :: "eigrp_instance \<Rightarrow> eigrp_metrics \<Rightarrow> nat" where
  "vector_sum e m =
     (let b = unat (bandwidth m); d = unat (delay m); s = unat (metric_scale e)
      in kval e 0 * b * s + kval e 1 * b * s div (256 - unat (load m)) + kval e 2 * d * s)"

definition metric_formula :: "eigrp_instance \<Rightarrow> eigrp_metrics \<Rightarrow> nat" where
  "metric_formula e m =
     (if kval e 4 \<noteq> 0 then vector_sum e m * kval e 4 div (unat (reliability m) + kval e 3) else vector_sum e m)"

definition no_overflow :: "eigrp_instance \<Rightarrow> eigrp_metrics \<Rightarrow> bool" where
  "no_overflow e m \<longleftrightarrow> vector_sum e m * max 1 (kval e 4) < 2 ^ 64
     \<and> kval e 1 * unat (bandwidth m) * unat (metric_scale e) < 2 ^ 64"

definition sentinel :: "eigrp_metrics \<Rightarrow> bool" where
  "sentinel m \<longleftrightarrow> delay m = EIGRP_METRIC_MAX \<or> delay m = ucast EIGRP_MAX_METRIC"

lemma metric_calculate_exact:
  assumes ns: "\<not> sentinel m" and no: "no_overflow e m"
    and dn: "k_values e ! 4 \<noteq> 0 \<Longrightarrow> unat (reliability m) + kval e 3 \<noteq> 0"
  shows "unat (eigrp_metric_calculate e m)
     = (if metric_version e < EIGRP_TLV_64B_VERSION then min (metric_formula e m) (2 ^ 32 - 1)
        else metric_formula e m)"
proof -
  let ?s = "metric_scale e" and ?b = "bandwidth m" and ?d = "delay m"
  let ?k = "\<lambda>i. ucast (k_values e ! i) :: u64"
  define t where "t = (if ?k 0 \<noteq> 0 then ?k 0 * ?b * ?s else 0)"
  define t' where "t' = (if ?k 1 \<noteq> 0 then t + (?k 1 * ?b * ?s) div (256 - ucast (load m)) else t)"
  define l where "l = (if ?k 2 \<noteq> 0 then ?k 2 * ?d * ?s else 0)"
  define c where "c = t' + l"
  define den where "den = ucast (reliability m) + ?k 3"
  define r where "r = (if ?k 4 \<noteq> 0 then (c * ?k 4) div den else c)"
  have vs: "vector_sum e m < 2 ^ 64"
    using no le_less_trans [of "vector_sum e m * 1" "vector_sum e m * max 1 (kval e 4)"]
    by (simp add: no_overflow_def)
  have parts: "kval e 0 * unat ?b * unat ?s < 2 ^ 64" "kval e 2 * unat ?d * unat ?s < 2 ^ 64"
    "kval e 0 * unat ?b * unat ?s + kval e 1 * unat ?b * unat ?s div (256 - unat (load m)) < 2 ^ 64"
    using vs by (auto simp: vector_sum_def Let_def)
  have "unat t = kval e 0 * unat ?b * unat ?s"
    unfolding t_def using unat_mult3 [of "?k 0" ?b ?s] parts metric_scale_nz by auto
  moreover have "unat ((?k 1 * ?b * ?s) div (256 - ucast (load m)))
      = kval e 1 * unat ?b * unat ?s div (256 - unat (load m))"
    using unat_mult3 [of "?k 1" ?b ?s] no metric_scale_nz by (simp add: unat_div unat_load no_overflow_def)
  ultimately have "unat t' = kval e 0 * unat ?b * unat ?s + kval e 1 * unat ?b * unat ?s div (256 - unat (load m))"
    unfolding t'_def using parts(3) by (auto simp: unat_word_ariths)
  moreover have "unat l = kval e 2 * unat ?d * unat ?s"
    unfolding l_def using unat_mult3 [of "?k 2" ?d ?s] parts metric_scale_nz by auto
  ultimately have c: "unat c = vector_sum e m"
    unfolding c_def using vs by (simp add: vector_sum_def Let_def unat_word_ariths)
  have den: "unat den = unat (reliability m) + kval e 3"
    unfolding den_def using u8_bounds [of "reliability m"] u8_bounds [of "k_values e ! 3"]
    by (simp add: unat_word_ariths)
  have "max 1 (kval e 4) = kval e 4" if "k_values e ! 4 \<noteq> 0"
    using that by (simp add: max_absorb2 Suc_leI unat_gt_0)
  then have r: "unat r = metric_formula e m"
    unfolding r_def using no c den
    by (auto simp: metric_formula_def unat_div unat_word_ariths no_overflow_def unat_eq_zero)
  have "eigrp_metric_calculate e m =
     (if metric_version e < EIGRP_TLV_64B_VERSION \<and> ucast EIGRP_CLASSIC_MAX < r
      then ucast EIGRP_CLASSIC_MAX else r)"
    using ns dn den
    unfolding eigrp_metric_calculate_def Let_def t_def [symmetric] t'_def [symmetric] l_def [symmetric]
      c_def [symmetric] den_def [symmetric] r_def [symmetric]
    by (auto simp: sentinel_def unat_eq_zero [symmetric])
  then show ?thesis
    using r by (auto simp: EIGRP_CLASSIC_MAX_def word_less_nat_alt min_def)
qed

lemma mult_bound3:
  fixes a b c :: nat
  assumes "a < 2 ^ 8" and "b < 2 ^ n" and "c \<le> 2 ^ 8"
  shows "a * b * c < 2 ^ (16 + n)"
proof -
  have "a * b < 2 ^ 8 * 2 ^ n" using assms by (intro mult_strict_mono') auto
  then have "a * b * c < 2 ^ 8 * 2 ^ n * 2 ^ 8"
    using assms(3) by (cases "c = 0") (simp_all only: mult_less_le_imp_less [of "a * b" "2 ^ 8 * 2 ^ n" c "2 ^ 8"], simp_all)
  also have "\<dots> = (2::nat) ^ (16 + n)" by (simp add: power_add)
  finally show ?thesis .
qed

definition in_range :: "eigrp_metrics \<Rightarrow> bool" where
  "in_range m \<longleftrightarrow> unat (bandwidth m) < 2 ^ 46 \<and> unat (delay m) < 2 ^ 46"

lemma in_range_no_overflow:
  assumes "in_range m" and "k_values e ! 4 = 0"
  shows "no_overflow e m"
proof -
  have k: "kval e i < 2 ^ 8" for i using u8_bounds [of "k_values e ! i"] by simp
  have sc: "unat (metric_scale e) \<le> 2 ^ 8" using metric_scale_nz(2) [of e] by auto
  note r = assms(1) [unfolded in_range_def]
  have t: "kval e 0 * unat (bandwidth m) * unat (metric_scale e) < 2 ^ 62"
    "kval e 1 * unat (bandwidth m) * unat (metric_scale e) < 2 ^ 62"
    "kval e 2 * unat (delay m) * unat (metric_scale e) < 2 ^ 62"
    using mult_bound3 [OF k _ sc, where n = 46] r by auto
  have "kval e 1 * unat (bandwidth m) * unat (metric_scale e) div (256 - unat (load m)) < 2 ^ 62"
    using t(2) div_le_dividend le_less_trans by blast
  with t have "vector_sum e m < 2 ^ 64" by (simp add: vector_sum_def Let_def)
  with t(2) assms(2) show ?thesis by (simp add: no_overflow_def)
qed

lemma link_delay_bounds:
  assumes "unat d < 2 ^ 24"
  shows "unat (ucast (eigrp_delay_to_scaled (ucast (d :: u32))) :: u64) = 256 * max 1 (unat d)"
proof -
  have "unat (eigrp_delay_to_scaled (ucast d)) = 256 * max 1 (unat d)"
  proof (cases "d = 0")
    case False
    moreover have "unat (ucast d :: u64) = unat d"
      using assms by (simp add: unsigned_ucast_eq take_bit_eq_mod)
    ultimately have "(ucast d :: u64) \<noteq> 0" by (metis unat_eq_zero)
    moreover have "1 \<le> unat d" using False by (simp add: Suc_leI unat_gt_0)
    ultimately show ?thesis using assms
      by (simp add: eigrp_delay_to_scaled_def EIGRP_CLASSIC_SCALER_def unsigned_ucast_eq take_bit_eq_mod
          unat_word_ariths max_absorb2)
  qed (simp add: eigrp_delay_to_scaled_def EIGRP_CLASSIC_SCALER_def)
  then show ?thesis using assms by (simp add: unsigned_ucast_eq take_bit_eq_mod max_def)
qed

lemma bandwidth_to_scaled_total:
  "bw \<noteq> 0 \<Longrightarrow> \<exists>x. eigrp_bandwidth_to_scaled bw = Some x"
  by (simp add: eigrp_bandwidth_to_scaled_def Let_def)

lemma total_calculate_cases:
  assumes "eigrp_metric_total_calculate e ei m = Some (t, D)" and "\<not> sentinel m" and "\<not> sentinel t"
  shows "D = eigrp_metric_calculate e t" and "bandwidth m \<le> bandwidth t" and "load t = load m"
    and "unat (bandwidth t) \<le> max (unat (bandwidth m)) (2 ^ 32)"
    and "unat (delay t) = unat (delay m) + unat (ucast (eigrp_delay_to_scaled (ucast (intf_delay ei))) :: u64)"
    and "hop_count t \<le> max_hops e" and "unat (hop_count t) = unat (hop_count m) + 1"
proof -
  let ?l = "ucast (eigrp_delay_to_scaled (ucast (intf_delay ei))) :: u64"
  obtain bw where bw: "eigrp_bandwidth_to_scaled (ucast (intf_bandwidth ei)) = Some bw"
    using assms(1,2) by (auto simp: eigrp_metric_total_calculate_def sentinel_def Let_def split: option.splits)
  have 1: "\<not> EIGRP_METRIC_MAX - ?l \<le> delay m" "hop_count m \<noteq> 255" "\<not> max_hops e < hop_count m + 1"
    and t: "t = m\<lparr>delay := delay m + ?l, hop_count := hop_count m + 1,
                    bandwidth := (if bandwidth m < ucast bw then ucast bw else bandwidth m)\<rparr>"
    and D: "D = eigrp_metric_calculate e t"
    using assms bw
    by (auto simp: eigrp_metric_total_calculate_def sentinel_def Let_def split: if_splits)
  show "D = eigrp_metric_calculate e t" by (rule D)
  show "bandwidth m \<le> bandwidth t" "load t = load m" using t by auto
  have "unat (ucast bw :: u64) \<le> 2 ^ 32"
    using unsigned_less [where ?'b = 32 and ?'a = nat, of bw] by (simp add: unsigned_ucast_eq take_bit_eq_mod)
  then show "unat (bandwidth t) \<le> max (unat (bandwidth m)) (2 ^ 32)" using t by (auto simp: max_def)
  have "unat (EIGRP_METRIC_MAX - ?l) = 2 ^ 64 - 1 - unat ?l"
    by (subst unat_sub) (simp_all add: not_less [symmetric] EIGRP_METRIC_MAX_def [symmetric], simp add: EIGRP_METRIC_MAX_def)
  then have "unat (delay m) + unat ?l < 2 ^ 64" using 1(1) by (simp add: word_le_nat_alt)
  then show "unat (delay t) = unat (delay m) + unat ?l" using t by (simp add: unat_word_ariths)
  show "hop_count t \<le> max_hops e" using t 1(3) by (simp add: not_less)
  have "unat (hop_count m) \<noteq> 255" using 1(2) by (simp add: word_unat_eq_iff)
  then have "unat (hop_count m) < 255" using u8_bounds [of "hop_count m"] by simp
  then show "unat (hop_count t) = unat (hop_count m) + 1" using t by (simp add: unat_word_ariths)
qed

lemma vector_sum_less:
  assumes "unat (bandwidth m) \<le> unat (bandwidth t)" and "load t = load m"
    and "unat (delay m) < unat (delay t)" and "k_values e ! 2 \<noteq> 0"
  shows "vector_sum e m < vector_sum e t"
proof -
  have "0 < kval e 2 * unat (metric_scale e)"
    using assms(4) metric_scale_nz(2) [of e] by (auto simp: unat_gt_0)
  then have "kval e 2 * unat (delay m) * unat (metric_scale e) < kval e 2 * unat (delay t) * unat (metric_scale e)"
    using assms(3) by (simp add: unat_gt_0)
  moreover have "kval e i * unat (bandwidth m) * unat (metric_scale e)
      \<le> kval e i * unat (bandwidth t) * unat (metric_scale e)" for i
    using assms(1) by simp
  ultimately show ?thesis
    unfolding vector_sum_def Let_def using assms(2) by (simp add: add_le_less_mono add_mono div_le_mono)
qed

lemma total_distance_increases:
  assumes tot: "eigrp_metric_total_calculate e ei m = Some (t, D)"
    and ns: "\<not> sentinel m" "\<not> sentinel t"
    and k: "k_values e ! 2 \<noteq> 0" "k_values e ! 4 = 0"
    and r: "unat (bandwidth m) < 2 ^ 46" "unat (delay m) < 2 ^ 45"
    and d: "unat (intf_delay ei) < 2 ^ 24"
  shows "eigrp_metric_calculate e m < D
     \<or> metric_version e < EIGRP_TLV_64B_VERSION \<and> D = ucast EIGRP_CLASSIC_MAX"
proof -
  note c = total_calculate_cases [OF tot ns]
  note l = link_delay_bounds [OF d]
  have dt: "unat (delay m) < unat (delay t)" "unat (delay t) < 2 ^ 46"
    using c(5) l r(2) d by auto
  have "in_range m" "in_range t" using r dt c(4) by (auto simp: in_range_def max_def split: if_splits)
  then have no: "no_overflow e m" "no_overflow e t" using in_range_no_overflow k(2) by auto
  have "metric_formula e m < metric_formula e t"
    using vector_sum_less [OF _ c(3) dt(1) k(1)] c(2) k(2)
    by (simp add: metric_formula_def word_le_nat_alt)
  with metric_calculate_exact [OF ns(1) no(1)] metric_calculate_exact [OF ns(2) no(2)] k(2) c(1)
  show ?thesis
    by (auto simp: word_less_nat_alt min_def EIGRP_CLASSIC_MAX_def word_unat_eq_iff split: if_splits)
qed

lemma total_unreachable:
  assumes "eigrp_metric_total_calculate e ei m = Some (t, D)" and "sentinel m \<or> max_hops e \<le> hop_count m"
  shows "D = ucast EIGRP_MAX_METRIC \<or> D = EIGRP_METRIC_MAX"
proof (cases "sentinel m")
  case False
  have "max_hops e < hop_count m + 1" if "hop_count m \<noteq> 255"
  proof -
    have "unat (hop_count m) \<noteq> 255" using that by (simp add: word_unat_eq_iff)
    then have "unat (hop_count m + 1) = unat (hop_count m) + 1"
      using u8_bounds [of "hop_count m"] by (simp add: unat_word_ariths)
    then show ?thesis using assms(2) False by (simp add: word_less_nat_alt word_le_nat_alt)
  qed
  then show ?thesis
    using assms False
    by (auto simp: eigrp_metric_total_calculate_def sentinel_def Let_def eigrp_metric_calculate_def
        split: option.splits if_splits)
qed (use assms in \<open>auto simp: eigrp_metric_total_calculate_def sentinel_def split: if_splits\<close>)

lemma delay_scaling:
  assumes "0 < unat d" and "unat d < 2 ^ 24"
  shows "eigrp_scaled_to_delay (eigrp_delay_to_scaled d) = d"
proof -
  have u: "unat (eigrp_delay_to_scaled d) = 256 * unat d"
    using assms by (auto simp: eigrp_delay_to_scaled_def EIGRP_CLASSIC_SCALER_def unsigned_ucast_eq
        take_bit_eq_mod unat_word_ariths)
  have "unat (eigrp_scaled_to_delay (eigrp_delay_to_scaled d)) = unat d"
    using assms u
    by (auto simp: eigrp_scaled_to_delay_def EIGRP_CLASSIC_SCALER_def Let_def unsigned_ucast_eq
        take_bit_eq_mod unat_div word_unat_eq_iff)
  then show ?thesis by (simp add: word_unat_eq_iff)
qed

lemma cap_METRIC_MAX: "(if y < EIGRP_METRIC_MAX then y else EIGRP_METRIC_MAX) = y"
  by (metis not_above_METRIC_MAX linorder_less_linear)

lemma unat_bandwidth_to_scaled:
  assumes "eigrp_bandwidth_to_scaled bw = Some x" and "bw \<noteq> EIGRP_BANDWIDTH_MAX"
  shows "bw \<noteq> 0" and "unat x = max 1 (2560000000 div unat bw)"
proof -
  show nz: "bw \<noteq> 0" using assms by (auto simp: eigrp_bandwidth_to_scaled_def)
  have p: "unat (EIGRP_CLASSIC_SCALER * EIGRP_BANDWIDTH_SCALER) = 2560000000" by (simp add: metric_consts)
  have le: "2560000000 div unat bw \<le> 2560000000" by (rule div_le_dividend)
  have u: "unat ((EIGRP_CLASSIC_SCALER * EIGRP_BANDWIDTH_SCALER) div bw) = 2560000000 div unat bw"
    by (simp add: unat_div p)
  have c: "unat (ucast y :: u32) = unat y" if "unat y \<le> 2560000000" for y :: u64
    using that by (simp add: unsigned_ucast_eq take_bit_eq_mod)
  have x: "x = ucast (if (EIGRP_CLASSIC_SCALER * EIGRP_BANDWIDTH_SCALER) div bw \<noteq> 0
                 then (EIGRP_CLASSIC_SCALER * EIGRP_BANDWIDTH_SCALER) div bw else 1)"
    using assms nz by (auto simp: eigrp_bandwidth_to_scaled_def Let_def cap_METRIC_MAX)
  show "unat x = max 1 (2560000000 div unat bw)"
  proof (cases "(EIGRP_CLASSIC_SCALER * EIGRP_BANDWIDTH_SCALER) div bw = 0")
    case True
    then have "2560000000 div unat bw = 0" using u by (metis unat_eq_zero)
    then show ?thesis using x True by simp
  next
    case False
    then have "1 \<le> 2560000000 div unat bw" using u by (metis Suc_leI One_nat_def unat_gt_0)
    then show ?thesis using x False c [of "(EIGRP_CLASSIC_SCALER * EIGRP_BANDWIDTH_SCALER) div bw"] u le
      by (simp add: max_absorb2)
  qed
qed

lemma metric_message_atomic:
  "fst (eigrp_metric_message_process ok oper c msg) \<noteq> EIGRP_RESULT_SUCCESS
   \<Longrightarrow> snd (eigrp_metric_message_process ok oper c msg) = (c, [])"
  by (cases msg; cases oper)
    (auto simp: eigrp_metric_default_update_def eigrp_metric_weights_update_def
      eigrp_metric_variance_update_def eigrp_traffic_share_balanced_update_def
      eigrp_metric_maximum_hops_update_def eigrp_metric_version_update_def Let_def
      split: if_splits option.splits)

subsection \<open>Correctness\<close>

text \<open>
  C33: Unless the vector carries an infinity marker, a K5 term divides by zero or an intermediate
  product leaves 64 bits, the computed composite is the EIGRP formula over the natural numbers, cut
  off at the 32-bit maximum when the instance is restricted to classic metrics.
\<close>

theorem metric_calculate_formula:
  assumes "\<not> sentinel m" and "no_overflow e m"
    and "k_values e ! 4 \<noteq> 0 \<Longrightarrow> unat (reliability m) + kval e 3 \<noteq> 0"
  shows "unat (eigrp_metric_calculate e m)
     = (if metric_version e < EIGRP_TLV_64B_VERSION then min (metric_formula e m) (2 ^ 32 - 1)
        else metric_formula e m)"
  by (rule metric_calculate_exact [OF assms])

definition sample_instance :: eigrp_instance where
  "sample_instance = \<lparr>k_values = [1, 0, 1, 0, 0, 0], variance = 1, traffic_share_balanced = True,
     max_paths = 4, max_hops = 100, metric_version = 2\<rparr>"

definition sample_metrics :: eigrp_metrics where
  "sample_metrics = \<lparr>delay = 2560, bandwidth = 25600, mtu = [220, 5, 0], hop_count = 1,
     reliability = 255, load = 1, metric_tag = 0, metric_flags = 0\<rparr>"

lemmas sample_metric_defs = sample_instance_def sample_metrics_def sample_intf_def

theorem metric_calculate_formula_witness:
  "unat (eigrp_metric_calculate sample_instance sample_metrics)
     = metric_formula sample_instance sample_metrics"
  using metric_calculate_formula [of sample_metrics sample_instance]
  by (simp add: sample_metric_defs sentinel_def metric_consts no_overflow_def vector_sum_def metric_scale_def)

text \<open>
  C34: Crossing a link makes a path strictly worse when the delay counts and reliability does not (K3 positive,
  K5 zero): for a finite metric whose total is finite too, with bandwidth below 2^46, delay below 2^45 and a link
  delay below 2^24, the 64-bit composite of the total metric is greater than the composite of the metric the
  neighbour reported, or the instance computes classic metrics and it is their maximum.  The statement is
  about the 64-bit composites, before they are cut to the 32 bits of a distance.
\<close>

theorem total_metric_increases:
  assumes "eigrp_metric_total_calculate e ei m = Some (t, D)"
    and "\<not> sentinel m" and "\<not> sentinel t"
    and "k_values e ! 2 \<noteq> 0" and "k_values e ! 4 = 0"
    and "unat (bandwidth m) < 2 ^ 46" and "unat (delay m) < 2 ^ 45" and "unat (intf_delay ei) < 2 ^ 24"
  shows "eigrp_metric_calculate e m < D
     \<or> metric_version e < EIGRP_TLV_64B_VERSION \<and> D = ucast EIGRP_CLASSIC_MAX"
  by (rule total_distance_increases [OF assms])

lemma sample_total:
  "eigrp_metric_total_calculate sample_instance sample_intf sample_metrics
     = Some (sample_metrics\<lparr>delay := 5120, hop_count := 2\<rparr>, 7864320)"
  by code_simp

theorem total_metric_increases_witness:
  "eigrp_metric_calculate sample_instance sample_metrics < 7864320
     \<or> metric_version sample_instance < EIGRP_TLV_64B_VERSION \<and> (7864320 :: u64) = ucast EIGRP_CLASSIC_MAX"
  by (rule total_metric_increases [OF sample_total])
    (simp_all add: sample_metric_defs sentinel_def metric_consts)

text \<open>
  A route reported unreachable, or one that has used up the configured number of hops, keeps an
  infinite total distance whatever the link is.
\<close>

theorem unreachable_stays_unreachable:
  assumes "eigrp_metric_total_calculate e ei m = Some (t, D)"
    and "sentinel m \<or> max_hops e \<le> hop_count m"
  shows "D = ucast EIGRP_MAX_METRIC \<or> D = EIGRP_METRIC_MAX"
  by (rule total_unreachable [OF assms])

lemma sample_total_hops:
  "eigrp_metric_total_calculate sample_instance sample_intf (sample_metrics\<lparr>hop_count := 100\<rparr>)
     = Some (sample_metrics\<lparr>delay := EIGRP_METRIC_MAX, hop_count := 101\<rparr>, EIGRP_METRIC_MAX)"
  by code_simp

theorem unreachable_stays_unreachable_witness:
  "EIGRP_METRIC_MAX = ucast EIGRP_MAX_METRIC \<or> EIGRP_METRIC_MAX = EIGRP_METRIC_MAX"
  by (rule unreachable_stays_unreachable [OF sample_total_hops]) (simp add: sample_metric_defs)

text \<open>
  A configuration change is all or nothing: when a request is refused (bad value, no target,
  no memory) neither the configuration nor the running instance changed and nothing was refreshed;
  when weights are accepted, the stored and the running coefficients are the requested ones.
\<close>

theorem metric_configuration_atomic:
  "(fst (eigrp_metric_message_process ok oper c msg) \<noteq> EIGRP_RESULT_SUCCESS
      \<longrightarrow> snd (eigrp_metric_message_process ok oper c msg) = (c, []))
   \<and> (fst (eigrp_metric_weights_update ok EIGRP_SET c (Some w)) = EIGRP_RESULT_SUCCESS
      \<longrightarrow> mw_tos w = 0
        \<and> (\<forall>e. ctx_runtime (fst (snd (eigrp_metric_weights_update ok EIGRP_SET c (Some w)))) = Some e
             \<longrightarrow> k_values e = [mw_k1 w, mw_k2 w, mw_k3 w, mw_k4 w, mw_k5 w, mw_k6 w])
        \<and> (\<forall>af. ctx_config (fst (snd (eigrp_metric_weights_update ok EIGRP_SET c (Some w)))) = Some af
             \<longrightarrow> map_option mc_weights (metric_config af) = Some w))"
  using metric_message_atomic [of ok oper c msg]
  by (auto simp: eigrp_metric_weights_update_def config_set_def runtime_update_def
      split: if_splits option.splits)

theorem metric_configuration_atomic_witness:
  "snd (eigrp_metric_message_process True EIGRP_SET \<lparr>ctx_config = None, ctx_runtime = Some sample_instance\<rparr>
          (EIGRP_METRIC_MESSAGE_VARIANCE 0))
     = (\<lparr>ctx_config = None, ctx_runtime = Some sample_instance\<rparr>, [])"
  by (rule metric_configuration_atomic [THEN conjunct1, THEN mp])
    (simp add: eigrp_metric_variance_update_def)


end
