(* ===== verification/Eigrp_Route.thy ===== *)
theory Eigrp_Route
  imports Eigrp_Metric
begin

text \<open>
  Route descriptors (\<^verbatim>\<open>eigrp_route_descriptor_t\<close>), the objects the codecs produce and the topology
  table stores.  A descriptor is a value; the pointer that identifies it in C is the field \<open>rid\<close>,
  the pointers to a neighbour and an interface are their numbers (\<open>None\<close> is NULL), and the pointer to
  the prefix descriptor is kept as that descriptor's destination.
\<close>

type_synonym nbr_id = nat
type_synonym intf_id = nat

record eigrp_extdata =
  ext_orig :: u32
  ext_as :: u32
  ext_tag :: u32
  ext_metric :: u32
  ext_reserved :: u16
  ext_protocol :: u8
  ext_flags :: u8

record eigrp_route_descriptor =
  rid :: nat
  rt_type :: u16
  topology_id :: u16
  dest :: eigrp_prefix
  nexthop :: eigrp_addr
  rt_prefix :: "eigrp_prefix option"
  adv_router :: "nbr_id option"
  reported_metric :: eigrp_metrics
  reported_distance :: u32
  total_metric :: eigrp_metrics
  distance :: u32
  rt_metric :: eigrp_metrics
  extdata :: eigrp_extdata
  rt_flags :: u8
  rt_ei :: "intf_id option"

definition zero_metrics :: eigrp_metrics where
  "zero_metrics = \<lparr>delay = 0, bandwidth = 0, mtu = [0, 0, 0], hop_count = 0, reliability = 0, load = 0,
     metric_tag = 0, metric_flags = 0\<rparr>"

definition zero_extdata :: eigrp_extdata where
  "zero_extdata = \<lparr>ext_orig = 0, ext_as = 0, ext_tag = 0, ext_metric = 0, ext_reserved = 0,
     ext_protocol = 0, ext_flags = 0\<rparr>"

text \<open>
  \<^verbatim>\<open>eigrp_topology_route_create\<close> writes to the block \<^verbatim>\<open>calloc\<close> returned without testing it: \<open>None\<close> is
  the NULL dereference.  \<open>nid\<close> is the identity of the new object.
\<close>

definition eigrp_topology_route_create ::
    "bool \<Rightarrow> nat \<Rightarrow> intf_id option \<Rightarrow> eigrp_route_descriptor option" where
  "eigrp_topology_route_create calloc_ok nid intf =
     (if \<not> calloc_ok then None
      else Some \<lparr>rid = nid, rt_type = 0, topology_id = 0, dest = zero_prefix, nexthop = zero_addr,
                 rt_prefix = None, adv_router = None, reported_metric = zero_metrics,
                 reported_distance = EIGRP_MAX_METRIC, total_metric = zero_metrics,
                 distance = EIGRP_MAX_METRIC, rt_metric = zero_metrics, extdata = zero_extdata,
                 rt_flags = 0, rt_ei = intf\<rparr>)"

text \<open>The destination a codec advertises: that of the linked prefix, or the descriptor's own.\<close>

definition route_destination :: "eigrp_route_descriptor \<Rightarrow> eigrp_prefix" where
  "route_destination r = (case rt_prefix r of Some p \<Rightarrow> p | None \<Rightarrow> dest r)"

text \<open>Route kinds of \<^verbatim>\<open>eigrp_fsm.h\<close>, which share the type field with the TLV numbers.\<close>

definition EIGRP_CONNECTED :: u16 where "EIGRP_CONNECTED = 0"
definition EIGRP_INT :: u16 where "EIGRP_INT = 1"
definition EIGRP_EXT :: u16 where "EIGRP_EXT = 2"
definition EIGRP_TLV_MP_INT :: u16 where "EIGRP_TLV_MP_INT = 0x0602"
definition EIGRP_TLV_MP_EXT :: u16 where "EIGRP_TLV_MP_EXT = 0x0603"

lemmas route_type_consts =
  EIGRP_CONNECTED_def EIGRP_INT_def EIGRP_EXT_def EIGRP_TLV_MP_INT_def EIGRP_TLV_MP_EXT_def
  EIGRP_TLV_IPv4_INT_def EIGRP_TLV_IPv4_EXT_def EIGRP_TLV_IPv6_INT_def EIGRP_TLV_IPv6_EXT_def

subsection \<open>Reading inside a TLV\<close>

text \<open>
  A decoder moves the end position to the end of the TLV, reads, and moves it back: \<open>narrow\<close>.
\<close>

definition narrow :: "eigrp_stream \<Rightarrow> nat \<Rightarrow> eigrp_stream" where
  "narrow s e = s\<lparr>st_endp := e\<rparr>"

lemma narrow_set_endp:
  "stream_ok s \<Longrightarrow> st_getp s \<le> e \<Longrightarrow> e \<le> st_endp s \<Longrightarrow> eigrp_stream_set_endp A s e = narrow s e"
  by (simp add: set_endp_back narrow_def)

lemma narrow_ok: "stream_ok s \<Longrightarrow> st_getp s \<le> e \<Longrightarrow> e \<le> st_endp s \<Longrightarrow> stream_ok (narrow s e)"
  by (auto simp: narrow_def stream_ok_def)

lemma unread_narrow:
  "stream_ok s \<Longrightarrow> e \<le> st_endp s \<Longrightarrow> unread (narrow s e) = take (e - st_getp s) (unread s)"
  by (simp add: unread_def written_def narrow_def stream_ok_def drop_take min_absorb1)

lemma widen:
  assumes "stream_ok s" and "st_getp s + n \<le> st_endp s"
  shows "eigrp_stream_set_endp A (advance (narrow s e) n) (st_endp s) = advance s n"
  using assms by (auto simp: eigrp_stream_set_endp_def narrow_def advance_def stream_ok_def)

text \<open>The end of the packet is the end of the unread bytes.\<close>

lemma set_getp_end:
  "stream_ok s \<Longrightarrow> n \<le> length (unread s) \<Longrightarrow>
   eigrp_stream_set_getp (advance s n) (st_endp s) = advance s (length (unread s))"
  by (auto simp: eigrp_stream_set_getp_def advance_def length_unread stream_ok_def)

lemma set_getp_advance:
  "stream_ok s \<Longrightarrow> m \<le> length (unread s) \<Longrightarrow>
   eigrp_stream_set_getp (advance s n) (st_getp s + m) = advance s m"
  by (auto simp: eigrp_stream_set_getp_def advance_def length_unread stream_ok_def)

text \<open>Patching a field that is already written, seen as a run of writes.\<close>

lemma appended_patch:
  assumes ap: "appended A s (h @ x @ b) s'" and s: "stream_ok s" and l: "length x = length y" "y \<noteq> []"
  shows "appended A s (h @ y @ b)
     (eigrp_stream_set_endp A
        (snd (eigrp_stream_put A (eigrp_stream_set_endp A s' (st_endp s + length h)) y)) (st_endp s'))"
proof -
  note d = appendedD [OF ap]
  have lw: "length (written s) = st_endp s" by (rule length_written [OF s])
  have p: "st_endp s + length h + length y \<le> st_endp s'" "st_getp s' \<le> st_endp s + length h"
    using d(3,4) l s by (auto simp: stream_ok_def)
  note sp = stream_patch [OF d(1) p l(2), where A = A]
  have "patch (st_endp s + length h) y (written s') = written s @ h @ y @ b"
    using lw l(1) by (simp add: patch_def d(2))
  with sp d l show ?thesis by (simp add: appended_def can_grow_def)
qed

text \<open>
  \<open>reads_within s out P\<close>: a decoder that started on \<open>s\<close> moved the read position forward, not past the
  end of what was there, and a route it gives satisfies \<open>P\<close>.
\<close>

definition reads_within ::
    "eigrp_stream \<Rightarrow> eigrp_route_descriptor option \<times> eigrp_stream \<Rightarrow> (eigrp_route_descriptor \<Rightarrow> bool) \<Rightarrow> bool" where
  "reads_within s out P \<longleftrightarrow>
     (\<exists>n\<le>length (unread s). snd out = advance s n) \<and> (\<forall>q. fst out = Some q \<longrightarrow> P q)"

lemma reads_withinI:
  "n \<le> length (unread s) \<Longrightarrow> (\<And>q. r = Some q \<Longrightarrow> P q) \<Longrightarrow> reads_within s (r, advance s n) P"
  by (auto simp: reads_within_def)

lemma reads_withinE:
  assumes "reads_within s out P"
  obtains r n where "out = (r, advance s n)" "n \<le> length (unread s)" "\<And>q. r = Some q \<Longrightarrow> P q"
  using assms unfolding reads_within_def by (metis prod.collapse)

lemma reads_within_stay: "reads_within s (None, s) P"
  using reads_withinI [of 0 s None] by simp

text \<open>
  \<open>decodes s out P\<close>: the decoder ended without a fault, stayed within the packet, moved on whenever
  there was anything to read (so a loop of decoders ends), and gave a route only if it satisfies \<open>P\<close>.
\<close>

definition decodes ::
    "eigrp_stream \<Rightarrow> (eigrp_route_descriptor option \<times> eigrp_stream) option \<Rightarrow> (eigrp_route_descriptor \<Rightarrow> bool) \<Rightarrow> bool" where
  "decodes s out P \<longleftrightarrow>
     (\<exists>r n. out = Some (r, advance s n) \<and> n \<le> length (unread s) \<and> (unread s \<noteq> [] \<longrightarrow> 0 < n)
        \<and> (\<forall>q. r = Some q \<longrightarrow> P q))"

lemma decodesI:
  "n \<le> length (unread s) \<Longrightarrow> (unread s \<noteq> [] \<Longrightarrow> 0 < n) \<Longrightarrow> (\<And>q. r = Some q \<Longrightarrow> P q)
   \<Longrightarrow> decodes s (Some (r, advance s n)) P"
  by (auto simp: decodes_def)

lemma decodes_end: "(\<And>q. r = Some q \<Longrightarrow> P q) \<Longrightarrow> decodes s (Some (r, advance s (length (unread s)))) P"
  by (rule decodesI) auto

text \<open>What both decoders guarantee of a route: a normalised destination of the family and a next hop.\<close>

definition route_wire_ok :: "eigrp_af_vectors \<Rightarrow> addr_family \<Rightarrow> eigrp_route_descriptor \<Rightarrow> bool" where
  "route_wire_ok V family q \<longleftrightarrow> prefix_in V (dest q) \<and> eigrp_prefix_normalize (dest q) = dest q
     \<and> ip_afi (nexthop q) = family \<and> addr_ok (nexthop q)"

definition nexthop_image :: "eigrp_af_vectors \<Rightarrow> addr_family \<Rightarrow> eigrp_addr \<Rightarrow> eigrp_addr" where
  "nexthop_image V family a = \<lparr>ip_afi = family,
     ip_bytes = take (packet_address_bytes V) (ip_bytes a) @ replicate (16 - packet_address_bytes V) 0\<rparr>"

end
