(* ===== verification/Eigrp_List.thy ===== *)
theory Eigrp_List
  imports Eigrp_Index
begin

text \<open>
  The doubly linked list (\<^verbatim>\<open>eigrp_list.c\<close>) with its optional pointer index.  An item is its identity
  and the data pointer it holds; the list is the sequence of its items from head to tail.  The index
  is the array of chains, empty for NULL.  \<open>list_cmp\<close> is the comparison callback (\<open>None\<close> for NULL),
  \<open>list_del\<close> says whether a destructor is set, and an operation that calls it returns the pointers it
  was called with.
\<close>

record eigrp_list_item =
  item_id :: nat
  item_data :: u64

record eigrp_list =
  list_items :: "eigrp_list_item list"
  list_count :: u32
  list_buckets :: "eigrp_list_item list list"
  list_cmp :: "(u64 \<Rightarrow> u64 \<Rightarrow> int) option"
  list_del :: bool

definition EIGRP_LIST_INDEX_INITIAL_BUCKETS :: nat where "EIGRP_LIST_INDEX_INITIAL_BUCKETS = 1024"

definition eigrp_list_pointer_hash :: "u64 \<Rightarrow> nat" where
  "eigrp_list_pointer_hash data =
     (let key = drop_bit 3 data;
          key = key XOR drop_bit 17 key;
          key = key XOR drop_bit 9 key
      in unat key)"

abbreviation item_hash :: "eigrp_list_item \<Rightarrow> nat" where
  "item_hash n \<equiv> eigrp_list_pointer_hash (item_data n)"

definition eigrp_list_index_resize :: "bool \<Rightarrow> eigrp_list \<Rightarrow> nat \<Rightarrow> bool \<times> eigrp_list" where
  "eigrp_list_index_resize calloc_ok l n =
     (if \<not> calloc_ok then (False, l)
      else (True, l\<lparr>list_buckets := index_build item_hash n (list_items l)\<rparr>))"

definition eigrp_list_index_enable :: "bool \<Rightarrow> eigrp_list \<Rightarrow> bool \<times> eigrp_list" where
  "eigrp_list_index_enable calloc_ok l =
     (if list_buckets l \<noteq> [] then (True, l)
      else eigrp_list_index_resize calloc_ok l EIGRP_LIST_INDEX_INITIAL_BUCKETS)"

definition eigrp_list_create :: eigrp_list where
  "eigrp_list_create = \<lparr>list_items = [], list_count = 0, list_buckets = [], list_cmp = None, list_del = False\<rparr>"

definition eigrp_list_index_add :: "bool \<Rightarrow> eigrp_list \<Rightarrow> eigrp_list_item \<Rightarrow> eigrp_list" where
  "eigrp_list_index_add resize_ok l n =
     (if list_buckets l = [] then l
      else if length (list_buckets l) * 2 \<le> unat (list_count l) \<and> length (list_buckets l) \<le> SIZE_MAX div 2
              \<and> fst (eigrp_list_index_resize resize_ok l (length (list_buckets l) * 2))
      then snd (eigrp_list_index_resize resize_ok l (length (list_buckets l) * 2))
      else l\<lparr>list_buckets := index_put item_hash (list_buckets l) n\<rparr>)"

definition eigrp_list_index_remove :: "eigrp_list \<Rightarrow> eigrp_list_item \<Rightarrow> eigrp_list" where
  "eigrp_list_index_remove l n =
     (if list_buckets l = [] then l else l\<lparr>list_buckets := index_del item_hash n (list_buckets l)\<rparr>)"

definition eigrp_list_remove :: "eigrp_list \<Rightarrow> eigrp_list_item \<Rightarrow> eigrp_list \<times> u64 list" where
  "eigrp_list_remove l n =
     (let l = eigrp_list_index_remove l n;
          l = l\<lparr>list_items := remove1 n (list_items l)\<rparr>;
          l = (if list_count l \<noteq> 0 then l\<lparr>list_count := list_count l - 1\<rparr> else l)
      in (l, if list_del l \<and> item_data n \<noteq> 0 then [item_data n] else []))"

definition eigrp_list_delete :: "eigrp_list \<Rightarrow> u64 list" where
  "eigrp_list_delete l = (if list_del l then filter (\<lambda>d. d \<noteq> 0) (map item_data (list_items l)) else [])"

text \<open>\<open>nid\<close> is the identity of the new item, \<open>calloc_ok\<close> whether it can be allocated.\<close>

definition eigrp_list_add :: "bool \<Rightarrow> bool \<Rightarrow> nat \<Rightarrow> eigrp_list \<Rightarrow> u64 \<Rightarrow> eigrp_list_item option \<times> eigrp_list" where
  "eigrp_list_add calloc_ok resize_ok nid l data =
     (if \<not> calloc_ok then (None, l)
      else let n = \<lparr>item_id = nid, item_data = data\<rparr>;
               l = l\<lparr>list_items := list_items l @ [n], list_count := list_count l + 1\<rparr>
           in (Some n, eigrp_list_index_add resize_ok l n))"

text \<open>
  Insertion goes before the first item the new one is less than.  \<open>insert_before\<close> is that on any list.
\<close>

primrec insert_before :: "('a \<Rightarrow> 'a \<Rightarrow> int) \<Rightarrow> 'a \<Rightarrow> 'a list \<Rightarrow> 'a list" where
  "insert_before cmp x [] = [x]"
| "insert_before cmp x (y # ys) = (if cmp x y < 0 then x # y # ys else y # insert_before cmp x ys)"

definition eigrp_list_insert :: "bool \<Rightarrow> bool \<Rightarrow> nat \<Rightarrow> eigrp_list \<Rightarrow> u64 \<Rightarrow> eigrp_list_item option \<times> eigrp_list" where
  "eigrp_list_insert calloc_ok resize_ok nid l data =
     (case list_cmp l of
        None \<Rightarrow> eigrp_list_add calloc_ok resize_ok nid l data
      | Some cmp \<Rightarrow>
          if find (\<lambda>m. cmp data (item_data m) < 0) (list_items l) = None
          then eigrp_list_add calloc_ok resize_ok nid l data
          else if \<not> calloc_ok then (None, l)
          else let n = \<lparr>item_id = nid, item_data = data\<rparr>;
                   l = l\<lparr>list_items := insert_before (\<lambda>a b. cmp (item_data a) (item_data b)) n (list_items l),
                         list_count := list_count l + 1\<rparr>
               in (Some n, eigrp_list_index_add resize_ok l n))"

definition eigrp_list_lookup :: "eigrp_list \<Rightarrow> u64 \<Rightarrow> eigrp_list_item option" where
  "eigrp_list_lookup l data =
     (if list_buckets l \<noteq> [] then index_find (eigrp_list_pointer_hash data) (\<lambda>n. item_data n = data) (list_buckets l)
      else find (\<lambda>n. item_data n = data) (list_items l))"

definition eigrp_list_delete_data :: "eigrp_list \<Rightarrow> u64 \<Rightarrow> eigrp_list \<times> u64 list" where
  "eigrp_list_delete_data l data =
     (case eigrp_list_lookup l data of Some n \<Rightarrow> eigrp_list_remove l n | None \<Rightarrow> (l, []))"

subsection \<open>Ordered insertion\<close>

text \<open>What the owner of an ordered list promises of its callback: it compares some linearly ordered key.\<close>

locale list_order =
  fixes cmp :: "'a \<Rightarrow> 'a \<Rightarrow> int" and key :: "'a \<Rightarrow> 'k::linorder"
  assumes cmp_less: "cmp a b < 0 \<longleftrightarrow> key a < key b"
begin

lemma insert_before_sorted: "sorted (map key xs) \<Longrightarrow> sorted (map key (insert_before cmp x xs))"
proof (induction xs)
  case (Cons y ys)
  have "set (insert_before cmp x ys) = Set.insert x (set ys)" for ys by (induction ys) auto
  then show ?case using Cons by (auto simp: cmp_less)
qed simp

text \<open>Among equal keys the new element goes last.\<close>

lemma insert_before_stable:
  "sorted (map key xs) \<Longrightarrow> filter (\<lambda>y. key y = key x) (insert_before cmp x xs) = filter (\<lambda>y. key y = key x) xs @ [x]"
proof (induction xs)
  case (Cons y ys)
  have "filter (\<lambda>y. key y = key x) (y # ys) = []" if "key x < key y" using that Cons.prems by (auto simp: filter_empty_conv)
  then show ?case using Cons by (auto simp: cmp_less)
qed simp

end

lemma set_insert_before [simp]: "set (insert_before cmp x xs) = Set.insert x (set xs)"
  by (induction xs) auto

lemma mset_insert_before [simp]: "mset (insert_before cmp x xs) = add_mset x (mset xs)"
  by (induction xs) auto

lemma length_insert_before [simp]: "length (insert_before cmp x xs) = Suc (length xs)"
  by (induction xs) auto

lemma insert_before_last: "(\<And>y. y \<in> set xs \<Longrightarrow> \<not> cmp x y < 0) \<Longrightarrow> insert_before cmp x xs = xs @ [x]"
  by (induction xs) auto

lemma map_insert_before:
  "map f (insert_before (\<lambda>a b. cmp (f a) (f b)) x xs) = insert_before cmp (f x) (map f xs)"
  by (induction xs) auto

subsection \<open>The invariant\<close>

text \<open>
  The count is the number of items modulo \<open>2 ^ 32\<close>, item identities are distinct, and the index, when
  enabled, indexes exactly the items.
\<close>

definition list_ok :: "eigrp_list \<Rightarrow> bool" where
  "list_ok l \<longleftrightarrow> list_count l = of_nat (length (list_items l)) \<and> distinct (map item_id (list_items l))
     \<and> (list_buckets l \<noteq> [] \<longrightarrow> index_ok item_hash (list_items l) (list_buckets l))"

lemma list_create_ok: "list_ok eigrp_list_create"
  by (simp add: list_ok_def eigrp_list_create_def)

lemma list_enable_ok: "list_ok l \<Longrightarrow> list_ok (snd (eigrp_list_index_enable c l))"
  using index_build_ok [of 1024 item_hash "list_items l"]
  by (simp add: list_ok_def eigrp_list_index_enable_def eigrp_list_index_resize_def EIGRP_LIST_INDEX_INITIAL_BUCKETS_def)

lemma index_add_frame [simp]:
  "list_items (eigrp_list_index_add r l n) = list_items l" "list_count (eigrp_list_index_add r l n) = list_count l"
  "list_cmp (eigrp_list_index_add r l n) = list_cmp l" "list_del (eigrp_list_index_add r l n) = list_del l"
  by (simp_all add: eigrp_list_index_add_def eigrp_list_index_resize_def)

text \<open>Linking one item anywhere and indexing it keeps the index exact, whether or not the rehash allocates.\<close>

lemma index_add_ok:
  assumes "list_buckets l \<noteq> [] \<longrightarrow> index_ok item_hash xs (list_buckets l)"
    and m: "mset (list_items l) = add_mset n (mset xs)"
  shows "list_buckets (eigrp_list_index_add r l n) \<noteq> []
     \<longrightarrow> index_ok item_hash (list_items l) (list_buckets (eigrp_list_index_add r l n))"
proof (cases "list_buckets l = []")
  case True
  then show ?thesis by (simp add: eigrp_list_index_add_def)
next
  case False
  then have "index_ok item_hash (xs @ [n]) (index_put item_hash (list_buckets l) n)" using assms by (simp add: index_put_ok)
  then have p: "index_ok item_hash (list_items l) (index_put item_hash (list_buckets l) n)"
    using index_ok_mset [of "xs @ [n]" "list_items l"] m by simp
  have "0 < length (list_buckets l) * 2" using False by simp
  from index_build_ok [OF this, of item_hash "list_items l"] p show ?thesis
    by (simp add: eigrp_list_index_add_def eigrp_list_index_resize_def False)
qed

definition fresh_item :: "eigrp_list \<Rightarrow> nat \<Rightarrow> bool" where
  "fresh_item l i \<longleftrightarrow> i \<notin> item_id ` set (list_items l)"

lemma list_add_ok:
  assumes "list_ok l" and "fresh_item l i"
  shows "list_ok (snd (eigrp_list_add c r i l d))"
proof (cases c)
  case True
  let ?n = "\<lparr>item_id = i, item_data = d\<rparr>"
  let ?l = "l\<lparr>list_items := list_items l @ [?n], list_count := list_count l + 1\<rparr>"
  have "list_buckets (eigrp_list_index_add r ?l ?n) \<noteq> []
      \<longrightarrow> index_ok item_hash (list_items ?l) (list_buckets (eigrp_list_index_add r ?l ?n))"
    using assms(1) by (intro index_add_ok [of _ "list_items l"]) (simp_all add: list_ok_def)
  then show ?thesis
    using assms True by (simp add: eigrp_list_add_def Let_def list_ok_def fresh_item_def)
qed (use assms in \<open>simp add: eigrp_list_add_def\<close>)

text \<open>Insertion puts the data where \<open>insert_before\<close> puts it, with or without a comparison callback.\<close>

definition insert_data :: "eigrp_list \<Rightarrow> u64 \<Rightarrow> u64 list" where
  "insert_data l d = (case list_cmp l of
      None \<Rightarrow> map item_data (list_items l) @ [d]
    | Some cmp \<Rightarrow> insert_before cmp d (map item_data (list_items l)))"

lemma list_insert_cases:
  "eigrp_list_insert True r i l d =
     (Some \<lparr>item_id = i, item_data = d\<rparr>,
      eigrp_list_index_add r
        (l\<lparr>list_items := (case list_cmp l of
              None \<Rightarrow> list_items l @ [\<lparr>item_id = i, item_data = d\<rparr>]
            | Some cmp \<Rightarrow> insert_before (\<lambda>a b. cmp (item_data a) (item_data b)) \<lparr>item_id = i, item_data = d\<rparr> (list_items l)),
           list_count := list_count l + 1\<rparr>) \<lparr>item_id = i, item_data = d\<rparr>)"
proof -
  let ?n = "\<lparr>item_id = i, item_data = d\<rparr>"
  have "insert_before (\<lambda>a b. cmp (item_data a) (item_data b)) ?n (list_items l) = list_items l @ [?n]"
    if "find (\<lambda>m. cmp d (item_data m) < 0) (list_items l) = None" for cmp
    using that by (intro insert_before_last) (auto simp: find_None_set)
  then show ?thesis by (auto simp: eigrp_list_insert_def eigrp_list_add_def Let_def split: option.split)
qed

lemma list_insert_ok:
  assumes "list_ok l" and "fresh_item l i"
  shows "list_ok (snd (eigrp_list_insert True r i l d))"
    and "map item_data (list_items (snd (eigrp_list_insert True r i l d))) = insert_data l d"
proof -
  let ?n = "\<lparr>item_id = i, item_data = d\<rparr>"
  define xs where "xs = (case list_cmp l of
      None \<Rightarrow> list_items l @ [?n]
    | Some cmp \<Rightarrow> insert_before (\<lambda>a b. cmp (item_data a) (item_data b)) ?n (list_items l))"
  let ?l = "l\<lparr>list_items := xs, list_count := list_count l + 1\<rparr>"
  have m: "mset xs = add_mset ?n (mset (list_items l))" by (auto simp: xs_def split: option.split)
  have e: "snd (eigrp_list_insert True r i l d) = eigrp_list_index_add r ?l ?n"
    by (simp add: list_insert_cases xs_def)
  have ix: "list_buckets (eigrp_list_index_add r ?l ?n) \<noteq> []
      \<longrightarrow> index_ok item_hash (list_items ?l) (list_buckets (eigrp_list_index_add r ?l ?n))"
    using assms(1) m by (intro index_add_ok [of _ "list_items l"]) (simp_all add: list_ok_def)
  have "mset (map item_id xs) = mset (i # map item_id (list_items l))" using m by simp
  then have "distinct (map item_id xs)"
    using assms mset_eq_imp_distinct_iff [of "map item_id xs" "i # map item_id (list_items l)"]
    by (simp add: list_ok_def fresh_item_def)
  moreover have "length xs = Suc (length (list_items l))" using mset_eq_length [of xs "?n # list_items l"] m by simp
  ultimately show "list_ok (snd (eigrp_list_insert True r i l d))"
    using assms ix unfolding e by (simp add: list_ok_def)
  show "map item_data (list_items (snd (eigrp_list_insert True r i l d))) = insert_data l d"
    unfolding e by (simp add: xs_def insert_data_def map_insert_before [where f = item_data] split: option.split)
qed

lemma of_nat_pred_word: "0 < n \<Longrightarrow> (of_nat n :: u32) - 1 = of_nat (n - 1)"
  by (cases n) simp_all

lemma list_remove_ok:
  assumes l: "list_ok l" and n: "n \<in> set (list_items l)" and b: "length (list_items l) < 2 ^ 32"
  shows "list_ok (fst (eigrp_list_remove l n))" and "list_items (fst (eigrp_list_remove l n)) = remove1 n (list_items l)"
proof -
  have p: "0 < length (list_items l)" using n by (cases "list_items l") auto
  have "unat (of_nat (length (list_items l)) :: u32) = length (list_items l)" using b by (simp add: unat_of_nat)
  then have c: "list_count l \<noteq> 0" using l p by (metis list_ok_def unat_0 less_numeral_extra(3))
  show "list_items (fst (eigrp_list_remove l n)) = remove1 n (list_items l)"
    by (simp add: eigrp_list_remove_def eigrp_list_index_remove_def Let_def)
  have "distinct (map item_id (remove1 n (list_items l)))"
    using l by (auto simp: list_ok_def intro: distinct_map_remove1)
  then show "list_ok (fst (eigrp_list_remove l n))"
    using l n c p index_del_ok [of item_hash "list_items l" "list_buckets l" n]
    by (auto simp: eigrp_list_remove_def eigrp_list_index_remove_def list_ok_def Let_def length_remove1 of_nat_pred_word)
qed

text \<open>When no pointer is stored twice, the index answers every lookup as the scan does.\<close>

lemma list_lookup_scan:
  assumes "list_ok l" and "distinct (map item_data (list_items l))"
  shows "eigrp_list_lookup l d = find (\<lambda>n. item_data n = d) (list_items l)"
proof (cases "list_buckets l = []")
  case False
  have "index_find (eigrp_list_pointer_hash d) (\<lambda>n. item_data n = d) (list_buckets l) = find (\<lambda>n. item_data n = d) (list_items l)"
    using assms False distinct_map_eq [OF assms(2)]
    by (intro index_find_eq [where h = item_hash]) (auto simp: list_ok_def)
  then show ?thesis using False by (simp add: eigrp_list_lookup_def)
qed (simp add: eigrp_list_lookup_def)

subsection \<open>Properties\<close>

text \<open>
  An insertion into an ordered list keeps it ordered and stable.  When the comparison callback compares a key,
  \<^verbatim>\<open>eigrp_list_insert\<close> returns a new item, adds exactly its data to the list, keeps the list sorted by that
  key, puts the new data after the data with the same key, and keeps the count and the index exact, whether or not a
  due rehash can allocate.
\<close>

theorem list_insert_sorted:
  assumes "list_ok l" and "fresh_item l i" and "list_cmp l = Some cmp" and "list_order cmp key"
    and "sorted (map key (map item_data (list_items l)))"
    and "l' = snd (eigrp_list_insert True resize_ok i l d)"
  shows "fst (eigrp_list_insert True resize_ok i l d) = Some \<lparr>item_id = i, item_data = d\<rparr> \<and> list_ok l'
     \<and> mset (map item_data (list_items l')) = add_mset d (mset (map item_data (list_items l)))
     \<and> sorted (map key (map item_data (list_items l')))
     \<and> filter (\<lambda>y. key y = key d) (map item_data (list_items l'))
        = filter (\<lambda>y. key y = key d) (map item_data (list_items l)) @ [d]"
proof -
  have e: "map item_data (list_items l') = insert_before cmp d (map item_data (list_items l))"
    using list_insert_ok(2) [OF assms(1,2), of resize_ok d] assms(3,6) by (simp add: insert_data_def)
  show ?thesis
    unfolding e using list_insert_ok(1) [OF assms(1,2)] assms(6) list_order.insert_before_sorted [OF assms(4,5)]
      list_order.insert_before_stable [OF assms(4,5)] by (simp add: list_insert_cases)
qed

definition sample_list :: eigrp_list where
  "sample_list = \<lparr>list_items = [\<lparr>item_id = 1, item_data = 8\<rparr>, \<lparr>item_id = 2, item_data = 64\<rparr>], list_count = 2,
     list_buckets = [[\<lparr>item_id = 2, item_data = 64\<rparr>, \<lparr>item_id = 1, item_data = 8\<rparr>]],
     list_cmp = Some (\<lambda>a b. uint a - uint b), list_del = True\<rparr>"

lemma sample_list_ok: "list_ok sample_list"
  by (simp add: sample_list_def list_ok_def index_ok_def)

theorem list_insert_sorted_witness:
  "sorted (map uint (map item_data (list_items (snd (eigrp_list_insert True True 3 sample_list 32)))))"
proof -
  have "list_order (\<lambda>a b. uint (a :: u64) - uint b) uint" by unfold_locales simp
  moreover have "fresh_item sample_list 3" "list_cmp sample_list = Some (\<lambda>a b. uint a - uint b)"
      "sorted (map uint (map item_data (list_items sample_list)))"
    by (simp_all add: sample_list_def fresh_item_def)
  ultimately show ?thesis
    using list_insert_sorted [OF sample_list_ok, of 3 "\<lambda>a b. uint a - uint b" uint _ True 32] by blast
qed

text \<open>
  The pointer index is invisible.  For a list without duplicate pointers, \<^verbatim>\<open>eigrp_list_lookup\<close> through the
  index returns the item a scan from the head would, \<^verbatim>\<open>eigrp_list_delete_data\<close> removes exactly that item and runs
  the destructor on its data once, a later lookup of the pointer fails, and the invariant is kept.
\<close>

theorem list_index_transparent:
  assumes "list_ok l" and "distinct (map item_data (list_items l))" and "length (list_items l) < 2 ^ 32"
    and "eigrp_list_delete_data l d = (l', freed)"
  shows "eigrp_list_lookup l d = find (\<lambda>n. item_data n = d) (list_items l) \<and> list_ok l'
     \<and> map item_data (list_items l') = remove1 d (map item_data (list_items l))
     \<and> eigrp_list_lookup l' d = None
     \<and> freed = (if list_del l \<and> d \<noteq> 0 \<and> d \<in> item_data ` set (list_items l) then [d] else [])"
proof -
  note sc = list_lookup_scan [OF assms(1,2), of d]
  have rm: "map item_data (remove1 n xs) = remove1 (item_data n) (map item_data xs)"
    if "distinct (map item_data xs)" "n \<in> set xs" for xs n
    using that by (induction xs) (auto, metis imageI)
  show ?thesis
  proof (cases "eigrp_list_lookup l d")
    case None
    then have "l' = l" "freed = []" using assms(4) by (simp_all add: eigrp_list_delete_data_def)
    moreover have "d \<notin> item_data ` set (list_items l)" using None sc by (auto simp: find_None_set)
    ultimately show ?thesis using assms(1) sc None by (simp add: remove1_idem)
  next
    case (Some n)
    then have n: "n \<in> set (list_items l)" "item_data n = d" using sc find_map_unique [OF assms(2), of d n] by auto
    have l': "l' = fst (eigrp_list_remove l n)" "freed = snd (eigrp_list_remove l n)"
      using assms(4) Some by (simp_all add: eigrp_list_delete_data_def)
    have it: "map item_data (list_items l') = remove1 d (map item_data (list_items l))"
      using l' list_remove_ok(2) [OF assms(1) n(1) assms(3)] rm [OF assms(2) n(1)] n(2) by simp
    have ok: "list_ok l'" using list_remove_ok(1) [OF assms(1) n(1) assms(3)] l' by simp
    have d': "distinct (map item_data (list_items l'))" unfolding it using assms(2) by simp
    have "d \<notin> set (map item_data (list_items l'))" unfolding it using assms(2) by simp
    then have "eigrp_list_lookup l' d = None" using list_lookup_scan [OF ok d', of d] by (auto simp: find_None_set)
    moreover have "freed = (if list_del l \<and> d \<noteq> 0 then [d] else [])"
      using l'(2) n(2) by (simp add: eigrp_list_remove_def eigrp_list_index_remove_def Let_def)
    ultimately show ?thesis using sc ok it n by auto
  qed
qed

theorem list_index_transparent_witness:
  "\<exists>l'. eigrp_list_delete_data sample_list 8 = (l', [8]) \<and> list_ok l' \<and> eigrp_list_lookup l' 8 = None"
proof -
  obtain l' freed where e: "eigrp_list_delete_data sample_list 8 = (l', freed)" by fastforce
  have "distinct (map item_data (list_items sample_list))" "length (list_items sample_list) < 2 ^ 32"
    "list_del sample_list" "8 \<in> item_data ` set (list_items sample_list)" by (simp_all add: sample_list_def)
  then show ?thesis using list_index_transparent [OF sample_list_ok _ _ e] e by simp
qed

end
