(* ===== verification/Eigrp_Topology.thy ===== *)
theory Eigrp_Topology
  imports Eigrp_Route Eigrp_List
begin

text \<open>
  Destinations, their route queues and path selection (\<^verbatim>\<open>eigrp_topology.c\<close>), with the work items and RIB
  calls the component emits.

  A prefix descriptor holds its two route queues as the sequences of route descriptors that its lists hold; a
  descriptor is found by its identity \<open>rid\<close> where the C code compares pointers, and a write through a pointer
  replaces the stored descriptor of that identity (\<open>pd_write\<close>).  \<^verbatim>\<open>topology_changes\<close> holds destinations in
  place of prefix pointers.  Neighbours and interfaces are read through \<open>nbrs\<close> and \<open>intfs\<close>.  Work for the
  packetizer is appended to \<open>work_queue\<close>, calls to the host RIB to \<open>rib_calls\<close>.  \<open>alloc_ok\<close> says which
  allocations succeed.  Event-log records and debug output are not modelled.
\<close>

datatype alloc_site =
    Alloc_queue_item
  | Alloc_change_item
  | Alloc_work
  | Alloc_list
  | Alloc_successor nat
  | Alloc_route
  | Alloc_reply_status
  | Alloc_timer

record eigrp_reply_status =
  rs_neighbor :: nbr_id
  sia_queries :: u8
  sia_response_received :: bool

datatype eigrp_fsm_states =
    EIGRP_FSM_STATE_PASSIVE
  | EIGRP_FSM_STATE_ACTIVE_0
  | EIGRP_FSM_STATE_ACTIVE_1
  | EIGRP_FSM_STATE_ACTIVE_2
  | EIGRP_FSM_STATE_ACTIVE_3

record eigrp_prefix_descriptor =
  table_attached :: bool
  internal_routes :: "eigrp_route_descriptor list"
  external_routes :: "eigrp_route_descriptor list"
  rij :: "eigrp_reply_status list"
  destination :: eigrp_prefix
  pd_reported_metric :: eigrp_metrics
  fdistance :: u32
  rdistance :: u32
  pd_distance :: u32
  nt :: u8
  state :: eigrp_fsm_states
  req_action :: u8
  t_active :: "u32 option"
  active_eigrp :: bool
  query_origin :: "nbr_id option"

datatype eigrp_nbr_state = EIGRP_NEIGHBOR_DOWN | EIGRP_NEIGHBOR_PENDING | EIGRP_NEIGHBOR_UP

record eigrp_nbr =
  nbr_ei :: "intf_id option"
  nbr_src :: eigrp_addr
  nbr_state :: eigrp_nbr_state
  limit_prefix_count :: u32
  limit_prefix_count_valid :: bool

record eigrp_rib_nexthop =
  nh_ifindex :: u32
  gateway_present :: bool
  gateway :: eigrp_address
  weight :: u64

datatype eigrp_rib_route_type = EIGRP_RIB_ROUTE_INTERNAL | EIGRP_RIB_ROUTE_EXTERNAL

record eigrp_rib_route =
  rib_prefix :: eigrp_prefix
  rib_nexthops :: "eigrp_rib_nexthop list"
  rib_metric :: u64
  rib_tag :: u32
  rib_admin_dist :: u32
  rib_type :: eigrp_rib_route_type

datatype rib_call = Rib_route_add eigrp_rib_route | Rib_route_del eigrp_prefix

record eigrp_packetizer_work =
  wk_opcode :: u8
  wk_prefix :: "eigrp_prefix option"
  wk_route :: "eigrp_route_descriptor option"
  wk_exception :: "intf_id option"
  wk_nbr :: "nbr_id option"
  wk_flags :: u32

text \<open>
  The instance as this component sees it.  \<open>eiflist\<close> is the list of interfaces, each with its neighbours;
  \<open>work_open\<close> says that the instance thread runs and is not shutting down; \<open>rib_accepts\<close> is the host's answer
  to a route.
\<close>

record eigrp_topo =
  inst :: eigrp_instance
  neighbor_self :: "nbr_id option"
  nbrs :: "nbr_id \<Rightarrow> eigrp_nbr"
  intfs :: "intf_id \<Rightarrow> eigrp_intf"
  eiflist :: "(intf_id \<times> nbr_id list) list"
  topology_changes :: "eigrp_prefix list"
  redist_prefix_count :: u32
  distance_internal :: u8
  distance_external :: u8
  active_time :: u16
  work_open :: bool
  work_queue :: "eigrp_packetizer_work list"
  rib_calls :: "rib_call list"
  rib_accepts :: bool
  alloc_ok :: "alloc_site \<Rightarrow> bool"

datatype metric_change = METRIC_DECREASE | METRIC_SAME | METRIC_INCREASE

record eigrp_fsm_action_message =
  packet_type :: u8
  msg_adv_router :: "nbr_id option"
  msg_route :: "eigrp_route_descriptor option"
  data_type :: u16
  metrics :: eigrp_metrics
  change :: metric_change
  transient_route :: bool

definition SUCCESSOR_FLAG :: u8 where "SUCCESSOR_FLAG = 1"
definition FSUCCESSOR_FLAG :: u8 where "FSUCCESSOR_FLAG = 2"
definition INTABLE_FLAG :: u8 where "INTABLE_FLAG = 4"
definition EIGRP_FSM_NEED_UPDATE :: u8 where "EIGRP_FSM_NEED_UPDATE = 1"
definition EIGRP_FSM_NEED_QUERY :: u8 where "EIGRP_FSM_NEED_QUERY = 2"
definition EIGRP_TOPOLOGY_TYPE_CONNECTED :: u8 where "EIGRP_TOPOLOGY_TYPE_CONNECTED = 0"
definition EIGRP_TOPOLOGY_TYPE_REMOTE_EXTERNAL :: u8 where "EIGRP_TOPOLOGY_TYPE_REMOTE_EXTERNAL = 2"
definition EIGRP_OPC_UPDATE :: u8 where "EIGRP_OPC_UPDATE = 1"
definition EIGRP_OPC_QUERY :: u8 where "EIGRP_OPC_QUERY = 3"
definition EIGRP_OPC_REPLY :: u8 where "EIGRP_OPC_REPLY = 4"
definition EIGRP_OPC_SIAQUERY :: u8 where "EIGRP_OPC_SIAQUERY = 10"
definition EIGRP_OPC_SIAREPLY :: u8 where "EIGRP_OPC_SIAREPLY = 11"
definition EIGRP_MAX_PATHS_DEFAULT :: nat where "EIGRP_MAX_PATHS_DEFAULT = 4"
definition EIGRP_MAX_PATHS_MAX :: nat where "EIGRP_MAX_PATHS_MAX = 32"
definition WORK_F_OWN_PREFIX :: u32 where "WORK_F_OWN_PREFIX = 1"
definition WORK_F_OWN_ROUTE :: u32 where "WORK_F_OWN_ROUTE = 2"
definition WORK_F_DEFER_FREE :: u32 where "WORK_F_DEFER_FREE = 4"
definition WORK_F_POISON :: u32 where "WORK_F_POISON = 16"

lemmas flag_consts = SUCCESSOR_FLAG_def FSUCCESSOR_FLAG_def INTABLE_FLAG_def
lemmas action_consts = EIGRP_FSM_NEED_UPDATE_def EIGRP_FSM_NEED_QUERY_def
lemmas opcode_consts = EIGRP_OPC_UPDATE_def EIGRP_OPC_QUERY_def EIGRP_OPC_REPLY_def EIGRP_OPC_SIAQUERY_def EIGRP_OPC_SIAREPLY_def

definition has_flag :: "u8 \<Rightarrow> eigrp_route_descriptor \<Rightarrow> bool" where
  "has_flag f r \<longleftrightarrow> rt_flags r AND f \<noteq> 0"

subsection \<open>Packetizer work items\<close>

definition eigrp_packetizer_opcode_valid :: "u8 \<Rightarrow> bool" where
  "eigrp_packetizer_opcode_valid opcode \<longleftrightarrow> opcode = EIGRP_OPC_UPDATE \<or> opcode = EIGRP_OPC_QUERY
     \<or> opcode = EIGRP_OPC_REPLY \<or> opcode = EIGRP_OPC_SIAQUERY \<or> opcode = EIGRP_OPC_SIAREPLY"

text \<open>\<open>None\<close>: the block \<^verbatim>\<open>calloc\<close> returned is written without a test.\<close>

definition eigrp_packetizer_work_create :: "eigrp_topo \<Rightarrow> u8 \<Rightarrow> eigrp_packetizer_work option" where
  "eigrp_packetizer_work_create t opcode =
     (if \<not> alloc_ok t Alloc_work then None
      else Some \<lparr>wk_opcode = opcode, wk_prefix = None, wk_route = None, wk_exception = None, wk_nbr = None, wk_flags = 0\<rparr>)"

definition eigrp_packetizer_enqueue :: "eigrp_topo \<Rightarrow> eigrp_packetizer_work \<Rightarrow> eigrp_topo" where
  "eigrp_packetizer_enqueue t w =
     (if \<not> eigrp_packetizer_opcode_valid (wk_opcode w) then t
      else if \<not> work_open t then t
      else t\<lparr>work_queue := work_queue t @ [w]\<rparr>)"

definition eigrp_packetizer_prefix_defer_free :: "eigrp_topo \<Rightarrow> eigrp_prefix_descriptor \<Rightarrow> eigrp_topo option" where
  "eigrp_packetizer_prefix_defer_free t pd =
     (case eigrp_packetizer_work_create t EIGRP_OPC_UPDATE of
        None \<Rightarrow> None
      | Some w \<Rightarrow> Some (eigrp_packetizer_enqueue t
          (w\<lparr>wk_prefix := Some (destination pd), wk_flags := WORK_F_OWN_PREFIX OR WORK_F_DEFER_FREE\<rparr>)))"

definition eigrp_update_send_all :: "eigrp_topo \<Rightarrow> intf_id option \<Rightarrow> eigrp_topo option" where
  "eigrp_update_send_all t exc =
     (case eigrp_packetizer_work_create t EIGRP_OPC_UPDATE of
        None \<Rightarrow> None
      | Some w \<Rightarrow> Some (eigrp_packetizer_enqueue t (w\<lparr>wk_exception := exc\<rparr>)))"

definition eigrp_reply_send_route ::
    "eigrp_topo \<Rightarrow> nbr_id option \<Rightarrow> eigrp_prefix_descriptor \<Rightarrow> eigrp_route_descriptor option \<Rightarrow> u32 \<Rightarrow> eigrp_topo option" where
  "eigrp_reply_send_route t nbr pd route flags =
     (if nbr = None then Some t
      else case eigrp_packetizer_work_create t EIGRP_OPC_REPLY of
             None \<Rightarrow> None
           | Some w \<Rightarrow> Some (eigrp_packetizer_enqueue t
               (w\<lparr>wk_nbr := nbr, wk_prefix := Some (destination pd), wk_route := route, wk_flags := flags\<rparr>)))"

definition eigrp_reply_send :: "eigrp_topo \<Rightarrow> nbr_id option \<Rightarrow> eigrp_prefix_descriptor \<Rightarrow> eigrp_topo option" where
  "eigrp_reply_send t nbr pd = eigrp_reply_send_route t nbr pd None 0"

definition eigrp_siaquery_send :: "eigrp_topo \<Rightarrow> nbr_id \<Rightarrow> eigrp_prefix_descriptor \<Rightarrow> eigrp_topo option" where
  "eigrp_siaquery_send t nbr pd =
     (case eigrp_packetizer_work_create t EIGRP_OPC_SIAQUERY of
        None \<Rightarrow> None
      | Some w \<Rightarrow> Some (eigrp_packetizer_enqueue t (w\<lparr>wk_nbr := Some nbr, wk_prefix := Some (destination pd)\<rparr>)))"

definition eigrp_nbr_count :: "eigrp_topo \<Rightarrow> nat" where
  "eigrp_nbr_count t = sum_list (map (\<lambda>(ei, ns). length (filter (\<lambda>n. nbr_state (nbrs t n) = EIGRP_NEIGHBOR_UP) ns)) (eiflist t))"

text \<open>Append to the change list; the result of \<^verbatim>\<open>eigrp_list_add\<close> is not looked at.\<close>

definition changes_add :: "eigrp_topo \<Rightarrow> eigrp_prefix_descriptor \<Rightarrow> eigrp_topo" where
  "changes_add t pd = (if alloc_ok t Alloc_change_item then t\<lparr>topology_changes := topology_changes t @ [destination pd]\<rparr> else t)"

definition eigrp_rib_route_del :: "eigrp_topo \<Rightarrow> eigrp_prefix \<Rightarrow> eigrp_topo" where
  "eigrp_rib_route_del t p = t\<lparr>rib_calls := rib_calls t @ [Rib_route_del p]\<rparr>"

definition eigrp_rib_route_add :: "eigrp_topo \<Rightarrow> eigrp_rib_route \<Rightarrow> bool \<times> eigrp_topo" where
  "eigrp_rib_route_add t r = (rib_accepts t, t\<lparr>rib_calls := rib_calls t @ [Rib_route_add r]\<rparr>)"

subsection \<open>Route queues and selection\<close>

definition eigrp_topology_route_external :: "eigrp_route_descriptor \<Rightarrow> bool" where
  "eigrp_topology_route_external r \<longleftrightarrow> rt_type r = EIGRP_EXT \<or> rt_type r = EIGRP_TLV_IPv4_EXT
     \<or> rt_type r = EIGRP_TLV_IPv6_EXT \<or> rt_type r = EIGRP_TLV_MP_EXT"

definition eigrp_topology_route_class_queue :: "eigrp_prefix_descriptor \<Rightarrow> eigrp_route_descriptor \<Rightarrow> eigrp_route_descriptor list" where
  "eigrp_topology_route_class_queue pd r =
     (if eigrp_topology_route_external r then external_routes pd else internal_routes pd)"

text \<open>The order in which the iterator, and every pair of nested loops over the two queues, visits the routes.\<close>

definition eigrp_topology_routes :: "eigrp_prefix_descriptor \<Rightarrow> eigrp_route_descriptor list" where
  "eigrp_topology_routes pd = internal_routes pd @ external_routes pd"

definition eigrp_topology_route_read :: "eigrp_prefix_descriptor \<Rightarrow> eigrp_route_descriptor option" where
  "eigrp_topology_route_read pd =
     (case find (\<lambda>r. distance r \<noteq> EIGRP_MAX_METRIC) (eigrp_topology_routes pd) of
        Some r \<Rightarrow> Some r
      | None \<Rightarrow> (case eigrp_topology_routes pd of [] \<Rightarrow> None | fallback # _ \<Rightarrow> Some fallback))"

definition eigrp_topology_route_select :: "eigrp_prefix_descriptor \<Rightarrow> eigrp_route_descriptor option" where
  "eigrp_topology_route_select pd =
     find (\<lambda>r. distance r \<noteq> EIGRP_MAX_METRIC \<and> \<not> fdistance pd \<le> reported_distance r) (eigrp_topology_routes pd)"

definition eigrp_topology_redist_present :: "eigrp_topo \<Rightarrow> eigrp_prefix_descriptor \<Rightarrow> bool" where
  "eigrp_topology_redist_present t pd \<longleftrightarrow> neighbor_self t \<noteq> None
     \<and> list_ex (\<lambda>r. adv_router r = neighbor_self t \<and> rt_ei r = None) (external_routes pd)"

definition eigrp_prefix_descriptor_lookup :: "eigrp_prefix_descriptor \<Rightarrow> nbr_id option \<Rightarrow> eigrp_route_descriptor option" where
  "eigrp_prefix_descriptor_lookup pd nbr = find (\<lambda>r. adv_router r = nbr) (eigrp_topology_routes pd)"

definition eigrp_route_descriptor_cmp :: "eigrp_route_descriptor \<Rightarrow> eigrp_route_descriptor \<Rightarrow> int" where
  "eigrp_route_descriptor_cmp a b =
     (if distance a < distance b then -1 else if distance b < distance a then 1 else 0)"

text \<open>\<^verbatim>\<open>eigrp_list_lookup\<close> and \<^verbatim>\<open>eigrp_list_delete_data\<close> on a queue of descriptors.\<close>

definition in_queue :: "eigrp_route_descriptor list \<Rightarrow> eigrp_route_descriptor \<Rightarrow> bool" where
  "in_queue rs r \<longleftrightarrow> rid r \<in> set (map rid rs)"

primrec queue_del :: "eigrp_route_descriptor \<Rightarrow> eigrp_route_descriptor list \<Rightarrow> eigrp_route_descriptor list" where
  "queue_del r [] = []"
| "queue_del r (x # xs) = (if rid x = rid r then xs else x # queue_del r xs)"

definition queue_write :: "eigrp_route_descriptor \<Rightarrow> eigrp_route_descriptor list \<Rightarrow> eigrp_route_descriptor list" where
  "queue_write r = map (\<lambda>x. if rid x = rid r then r else x)"

definition pd_write :: "eigrp_prefix_descriptor \<Rightarrow> eigrp_route_descriptor \<Rightarrow> eigrp_prefix_descriptor" where
  "pd_write pd r = pd\<lparr>internal_routes := queue_write r (internal_routes pd), external_routes := queue_write r (external_routes pd)\<rparr>"

definition pd_map :: "(eigrp_route_descriptor \<Rightarrow> eigrp_route_descriptor) \<Rightarrow> eigrp_prefix_descriptor \<Rightarrow> eigrp_prefix_descriptor" where
  "pd_map f pd = pd\<lparr>internal_routes := map f (internal_routes pd), external_routes := map f (external_routes pd)\<rparr>"

definition queue_insert :: "eigrp_prefix_descriptor \<Rightarrow> eigrp_route_descriptor \<Rightarrow> eigrp_prefix_descriptor" where
  "queue_insert pd r =
     (if eigrp_topology_route_external r
      then pd\<lparr>external_routes := insert_before eigrp_route_descriptor_cmp r (external_routes pd)\<rparr>
      else pd\<lparr>internal_routes := insert_before eigrp_route_descriptor_cmp r (internal_routes pd)\<rparr>)"

definition eigrp_topology_route_insert ::
    "eigrp_topo \<Rightarrow> eigrp_prefix_descriptor \<Rightarrow> eigrp_route_descriptor \<Rightarrow> bool \<Rightarrow> bool \<times> eigrp_topo \<times> eigrp_prefix_descriptor" where
  "eigrp_topology_route_insert t pd r first_peer_path =
     (if \<not> alloc_ok t Alloc_queue_item then (False, t, pd)
      else let pd = queue_insert pd r
           in case adv_router r of
                None \<Rightarrow> (True, t, pd)
              | Some n \<Rightarrow>
                  if first_peer_path \<and> Some n \<noteq> neighbor_self t \<and> limit_prefix_count_valid (nbrs t n)
                  then (True, t\<lparr>nbrs := (nbrs t)(n := (nbrs t n)\<lparr>limit_prefix_count := limit_prefix_count (nbrs t n) + 1\<rparr>)\<rparr>, pd)
                  else (True, t, pd))"

definition eigrp_topology_prefix_create :: "eigrp_prefix_descriptor" where
  "eigrp_topology_prefix_create =
     \<lparr>table_attached = False, internal_routes = [], external_routes = [], rij = [], destination = zero_prefix,
      pd_reported_metric = zero_metrics, fdistance = EIGRP_MAX_METRIC, rdistance = EIGRP_MAX_METRIC,
      pd_distance = EIGRP_MAX_METRIC, nt = 0, state = EIGRP_FSM_STATE_PASSIVE, req_action = 0, t_active = None,
      active_eigrp = False, query_origin = None\<rparr>"

subsection \<open>The host RIB\<close>

definition ip_zero :: "u8 list \<Rightarrow> bool" where "ip_zero bs \<longleftrightarrow> list_all (\<lambda>b. b = 0) bs"

definition eigrp_topology_southbound_nexthop :: "eigrp_topo \<Rightarrow> eigrp_route_descriptor \<Rightarrow> eigrp_rib_nexthop option" where
  "eigrp_topology_southbound_nexthop t r =
     (case rt_ei r of
        None \<Rightarrow> None
      | Some i \<Rightarrow>
          let nh = \<lparr>nh_ifindex = intf_ifindex (intfs t i), gateway_present = False,
                    gateway = \<lparr>addr_afi = EIGRP_AFI_NONE, addr_bytes = replicate 16 0\<rparr>, weight = 0\<rparr>
          in case adv_router r of
               None \<Rightarrow> Some nh
             | Some n \<Rightarrow>
                 let src = nbr_src (nbrs t n)
                 in if ip_afi src = AF_INET \<and> \<not> ip_zero (take 4 (ip_bytes src))
                    then Some (nh\<lparr>gateway_present := True,
                           gateway := \<lparr>addr_afi = EIGRP_AFI_IPV4, addr_bytes = take 4 (ip_bytes src) @ replicate 12 0\<rparr>\<rparr>)
                    else if ip_afi src = AF_INET6 \<and> \<not> ip_zero (take 16 (ip_bytes src))
                    then Some (nh\<lparr>gateway_present := True,
                           gateway := \<lparr>addr_afi = EIGRP_AFI_IPV6, addr_bytes = take 16 (ip_bytes src)\<rparr>\<rparr>)
                    else Some nh)"

definition largest_metric :: "eigrp_route_descriptor list \<Rightarrow> u64" where
  "largest_metric rs =
     foldl (\<lambda>m r. if distance r \<noteq> EIGRP_MAX_METRIC \<and> m < ucast (distance r) then ucast (distance r) else m) 0 rs"

definition nexthop_weight :: "eigrp_topo \<Rightarrow> u64 \<Rightarrow> eigrp_route_descriptor \<Rightarrow> eigrp_rib_nexthop \<Rightarrow> eigrp_rib_nexthop" where
  "nexthop_weight t largest r nh =
     (if traffic_share_balanced (inst t) \<and> largest \<noteq> 0 \<and> distance r \<noteq> 0 \<and> distance r \<noteq> EIGRP_MAX_METRIC
      then let w = largest div ucast (distance r) in nh\<lparr>weight := (if w = 0 then 1 else w)\<rparr>
      else nh)"

primrec southbound_loop ::
    "eigrp_topo \<Rightarrow> u64 \<Rightarrow> nat \<Rightarrow> eigrp_route_descriptor list \<Rightarrow> eigrp_rib_nexthop list" where
  "southbound_loop t largest capacity [] = []"
| "southbound_loop t largest capacity (r # rs) =
     (if capacity = 0 then []
      else case eigrp_topology_southbound_nexthop t r of
             None \<Rightarrow> southbound_loop t largest capacity rs
           | Some nh \<Rightarrow> nexthop_weight t largest r nh # southbound_loop t largest (capacity - 1) rs)"

definition eigrp_topology_southbound_nexthops ::
    "eigrp_topo \<Rightarrow> eigrp_route_descriptor list \<Rightarrow> nat \<Rightarrow> eigrp_rib_nexthop list" where
  "eigrp_topology_southbound_nexthops t rs capacity =
     southbound_loop t (if traffic_share_balanced (inst t) then largest_metric rs else 0) capacity rs"

text \<open>
  Adding a descriptor to a destination: accounting, and a provisional RIB entry when it is the first route.
\<close>

definition eigrp_route_descriptor_add ::
    "eigrp_topo \<Rightarrow> eigrp_prefix_descriptor \<Rightarrow> eigrp_route_descriptor \<Rightarrow> eigrp_topo \<times> eigrp_prefix_descriptor \<times> eigrp_route_descriptor" where
  "eigrp_route_descriptor_add t pd r =
     (if in_queue (eigrp_topology_route_class_queue pd r) r then (t, pd, r)
      else
        let first_peer_path = (adv_router r \<noteq> None \<and> eigrp_prefix_descriptor_lookup pd (adv_router r) = None);
            first_redist = (adv_router r = neighbor_self t \<and> rt_ei r = None \<and> eigrp_topology_route_external r
                            \<and> \<not> eigrp_topology_redist_present t pd);
            (ok, t, pd) = eigrp_topology_route_insert t pd r first_peer_path
        in if \<not> ok then (t, pd, r)
           else
             let r = r\<lparr>rt_prefix := Some (destination pd)\<rparr>;
                 pd = pd_write pd r;
                 t = (if first_redist \<and> redist_prefix_count t < 0xffffffff
                      then t\<lparr>redist_prefix_count := redist_prefix_count t + 1\<rparr> else t)
             in if map_option rid (eigrp_topology_route_read pd) = Some (rid r)
                then case eigrp_topology_southbound_nexthop t r of
                       None \<Rightarrow> (t, pd, r)
                     | Some nh \<Rightarrow>
                         let ext = eigrp_topology_route_external r;
                             (accepted, t) = eigrp_rib_route_add t
                               \<lparr>rib_prefix = destination pd, rib_nexthops = [nh], rib_metric = ucast (pd_distance pd),
                                rib_tag = ext_tag (extdata r),
                                rib_admin_dist = ucast (if ext then distance_external t else distance_internal t),
                                rib_type = (if ext then EIGRP_RIB_ROUTE_EXTERNAL else EIGRP_RIB_ROUTE_INTERNAL)\<rparr>;
                             r = (if accepted then r\<lparr>rt_flags := rt_flags r OR INTABLE_FLAG\<rparr> else r)
                         in (t, pd_write pd r, r)
                else (t, pd, r))"

definition eigrp_route_descriptor_delete ::
    "eigrp_topo \<Rightarrow> eigrp_prefix_descriptor \<Rightarrow> eigrp_route_descriptor \<Rightarrow> eigrp_topo \<times> eigrp_prefix_descriptor" where
  "eigrp_route_descriptor_delete t pd r =
     (if \<not> in_queue (eigrp_topology_route_class_queue pd r) r then (t, pd)
      else
        let installed = has_flag INTABLE_FLAG r;
            was_redist = (adv_router r = neighbor_self t \<and> rt_ei r = None \<and> eigrp_topology_route_external r);
            pd = (if eigrp_topology_route_external r then pd\<lparr>external_routes := queue_del r (external_routes pd)\<rparr>
                  else pd\<lparr>internal_routes := queue_del r (internal_routes pd)\<rparr>);
            t = (if was_redist \<and> \<not> eigrp_topology_redist_present t pd \<and> redist_prefix_count t \<noteq> 0
                 then t\<lparr>redist_prefix_count := redist_prefix_count t - 1\<rparr> else t);
            t = (case adv_router r of
                   None \<Rightarrow> t
                 | Some n \<Rightarrow>
                     if limit_prefix_count_valid (nbrs t n) \<and> limit_prefix_count (nbrs t n) \<noteq> 0
                        \<and> eigrp_prefix_descriptor_lookup pd (Some n) = None
                     then t\<lparr>nbrs := (nbrs t)(n := (nbrs t n)\<lparr>limit_prefix_count := limit_prefix_count (nbrs t n) - 1\<rparr>)\<rparr>
                     else t);
            t = (if installed then eigrp_rib_route_del t (destination pd) else t)
        in (t, pd))"

subsection \<open>Distance updates\<close>

definition eigrp_topology_redistributed_distance :: "eigrp_topo \<Rightarrow> eigrp_metrics \<Rightarrow> u64" where
  "eigrp_topology_redistributed_distance t m =
     (if delay m = ucast EIGRP_MAX_METRIC then ucast EIGRP_MAX_METRIC
      else let d = eigrp_metric_calculate (inst t) (m\<lparr>delay := ucast (eigrp_delay_to_scaled (delay m))\<rparr>)
           in if ucast EIGRP_MAX_METRIC < d then ucast EIGRP_MAX_METRIC else d)"

text \<open>
  \<^verbatim>\<open>route->distance = eigrp_metric_total_calculate(eigrp, route)\<close>: the total vector is stored in the route and
  the composite truncated to 32 bits.  \<open>None\<close>: the interface is NULL and read, or has bandwidth zero.
\<close>

definition route_total :: "eigrp_topo \<Rightarrow> eigrp_route_descriptor \<Rightarrow> eigrp_route_descriptor option" where
  "route_total t r =
     (if rt_ei r = None \<and> delay (reported_metric r) \<noteq> ucast EIGRP_MAX_METRIC \<and> delay (reported_metric r) \<noteq> EIGRP_METRIC_MAX
      then None
      else case eigrp_metric_total_calculate (inst t) (intfs t (case rt_ei r of Some i \<Rightarrow> i | None \<Rightarrow> 0)) (reported_metric r) of
             None \<Rightarrow> None
           | Some (tm, d) \<Rightarrow> Some (r\<lparr>total_metric := tm, distance := ucast d\<rparr>))"

text \<open>The fields the event fills in when they are NULL.\<close>

definition route_adopt :: "eigrp_topo \<Rightarrow> eigrp_prefix_descriptor \<Rightarrow> eigrp_fsm_action_message \<Rightarrow> eigrp_route_descriptor \<Rightarrow> eigrp_route_descriptor" where
  "route_adopt t pd msg r =
     (let r = (if adv_router r = None then r\<lparr>adv_router := msg_adv_router msg\<rparr> else r);
          r = (if rt_prefix r = None then r\<lparr>rt_prefix := Some (destination pd)\<rparr> else r)
      in case msg_adv_router msg of
           Some n \<Rightarrow> if rt_ei r = None then r\<lparr>rt_ei := nbr_ei (nbrs t n)\<rparr> else r
         | None \<Rightarrow> r)"

definition route_reported :: "eigrp_route_descriptor \<Rightarrow> eigrp_metrics \<Rightarrow> u32 \<Rightarrow> eigrp_route_descriptor" where
  "route_reported r m rd = r\<lparr>rt_metric := m, reported_metric := m, reported_distance := rd\<rparr>"

text \<open>
  The switch on the message's data type.  \<open>None\<close> is a fault; \<open>Some None\<close> an early return; otherwise the change
  and the route.
\<close>

definition distance_switch ::
    "eigrp_topo \<Rightarrow> eigrp_prefix_descriptor \<Rightarrow> eigrp_fsm_action_message \<Rightarrow> eigrp_route_descriptor \<Rightarrow> bool
     \<Rightarrow> (metric_change \<times> eigrp_route_descriptor) option option" where
  "distance_switch t pd msg r unchanged =
     (let m = metrics msg; rd = (ucast (eigrp_metric_calculate (inst t) m) :: u32)
      in if data_type msg = EIGRP_CONNECTED then
           (if nt pd = EIGRP_TOPOLOGY_TYPE_CONNECTED then Some None else Some (Some (METRIC_DECREASE, r)))
         else if data_type msg = EIGRP_INT then
           (if unchanged then Some None
            else case route_total t (route_reported r m rd) of
                   None \<Rightarrow> None
                 | Some r' \<Rightarrow> Some (Some (if reported_distance r < rd then METRIC_INCREASE else METRIC_DECREASE, r')))
         else if data_type msg = EIGRP_EXT then
           (if unchanged then Some None
            else if adv_router r = neighbor_self t \<and> rt_ei r = None then
              let old_distance = (ucast (distance r) :: u64); new_distance = eigrp_topology_redistributed_distance t m
              in Some (Some (if old_distance < new_distance then METRIC_INCREASE
                             else if new_distance < old_distance then METRIC_DECREASE else METRIC_SAME,
                             (route_reported r m 0)\<lparr>total_metric := m, distance := ucast new_distance\<rparr>))
            else case route_total t (route_reported r m rd) of
                   None \<Rightarrow> None
                 | Some r' \<Rightarrow> Some (Some (if reported_distance r < rd then METRIC_INCREASE
                                           else if rd < reported_distance r then METRIC_DECREASE else METRIC_SAME, r')))
         else Some (Some (METRIC_SAME, r)))"

definition queues_del :: "eigrp_route_descriptor \<Rightarrow> eigrp_prefix_descriptor \<Rightarrow> eigrp_prefix_descriptor" where
  "queues_del r pd = pd\<lparr>internal_routes := queue_del r (internal_routes pd), external_routes := queue_del r (external_routes pd)\<rparr>"

definition eigrp_topology_update_distance ::
    "eigrp_topo \<Rightarrow> eigrp_prefix_descriptor \<Rightarrow> eigrp_fsm_action_message
     \<Rightarrow> (metric_change \<times> eigrp_topo \<times> eigrp_prefix_descriptor \<times> eigrp_fsm_action_message) option" where
  "eigrp_topology_update_distance t pd msg =
     (case msg_route msg of
        None \<Rightarrow> None
      | Some r \<Rightarrow>
          if transient_route msg then Some (METRIC_SAME, t, pd, msg)
          else
            let r = route_adopt t pd msg r;
                stored = (in_queue (internal_routes pd) r \<or> in_queue (external_routes pd) r);
                first_peer_path = (\<not> stored \<and> adv_router r \<noteq> None \<and> adv_router r \<noteq> neighbor_self t
                                   \<and> eigrp_prefix_descriptor_lookup pd (adv_router r) = None);
                class_changed = (in_queue (external_routes pd) r \<noteq> eigrp_topology_route_external r)
            in case distance_switch t pd msg r
                      (stored \<and> \<not> class_changed \<and> eigrp_metrics_match (metrics msg) (reported_metric r)) of
                 None \<Rightarrow> None
               | Some None \<Rightarrow> Some (METRIC_SAME, t, pd_write pd r, msg\<lparr>msg_route := Some r\<rparr>)
               | Some (Some (ch, r)) \<Rightarrow>
                   (case eigrp_topology_route_insert t (queues_del r pd) r first_peer_path of
                      (True, t, pd) \<Rightarrow> Some (ch, t, pd, msg\<lparr>msg_route := Some r\<rparr>)
                    | (False, t, pd) \<Rightarrow>
                        Some (METRIC_SAME, t, pd, msg\<lparr>msg_route := Some r, transient_route := \<not> stored\<rparr>)))"

subsection \<open>Successors\<close>

definition clear_flags :: "u8 \<Rightarrow> eigrp_route_descriptor \<Rightarrow> eigrp_route_descriptor" where
  "clear_flags f r = r\<lparr>rt_flags := rt_flags r AND NOT f\<rparr>"

definition set_flags :: "u8 \<Rightarrow> eigrp_route_descriptor \<Rightarrow> eigrp_route_descriptor" where
  "set_flags f r = r\<lparr>rt_flags := rt_flags r OR f\<rparr>"

definition within_variance :: "eigrp_topo \<Rightarrow> eigrp_prefix_descriptor \<Rightarrow> eigrp_route_descriptor \<Rightarrow> bool" where
  "within_variance t pd r \<longleftrightarrow> distance r \<noteq> EIGRP_MAX_METRIC
     \<and> (ucast (distance r) :: u64) \<le> ucast (pd_distance pd) * ucast (variance (inst t))"

text \<open>The marking loop; \<open>n\<close> counts the successors marked so far.\<close>

primrec mark_loop ::
    "eigrp_topo \<Rightarrow> eigrp_prefix_descriptor \<Rightarrow> nat \<Rightarrow> nat \<Rightarrow> eigrp_route_descriptor list \<Rightarrow> eigrp_route_descriptor list" where
  "mark_loop t pd limit n [] = []"
| "mark_loop t pd limit n (r # rs) =
     (if reported_distance r < fdistance pd then
        if within_variance t pd r \<and> n < limit
        then set_flags SUCCESSOR_FLAG r # mark_loop t pd limit (Suc n) rs
        else set_flags FSUCCESSOR_FLAG r # mark_loop t pd limit n rs
      else r # mark_loop t pd limit n rs)"

definition paths_limit :: "eigrp_topo \<Rightarrow> nat" where
  "paths_limit t = (if max_paths (inst t) \<noteq> 0 then unat (max_paths (inst t)) else EIGRP_MAX_PATHS_DEFAULT)"

definition eigrp_topology_update_node_flags :: "eigrp_topo \<Rightarrow> eigrp_prefix_descriptor \<Rightarrow> eigrp_prefix_descriptor" where
  "eigrp_topology_update_node_flags t pd =
     (let pd' = pd_map (clear_flags (SUCCESSOR_FLAG OR FSUCCESSOR_FLAG)) pd
      in case eigrp_topology_route_select pd of
           None \<Rightarrow> pd'
         | Some best \<Rightarrow>
             if eigrp_topology_route_external best
             then pd'\<lparr>external_routes := mark_loop t pd (paths_limit t) 0 (external_routes pd')\<rparr>
             else pd'\<lparr>internal_routes := mark_loop t pd (paths_limit t) 0 (internal_routes pd')\<rparr>)"

text \<open>
  The successor list: \<open>None\<close> when the list object cannot be allocated, \<open>Some None\<close> for the NULL of no
  successor.
\<close>

definition eigrp_topology_successors_read ::
    "eigrp_topo \<Rightarrow> eigrp_prefix_descriptor \<Rightarrow> eigrp_route_descriptor list option option" where
  "eigrp_topology_successors_read t pd =
     (if \<not> alloc_ok t Alloc_list then None
      else let s = filter (\<lambda>r. has_flag SUCCESSOR_FLAG r \<and> alloc_ok t (Alloc_successor (rid r))) (eigrp_topology_routes pd)
           in Some (if s = [] then None else Some s))"

fun trim_successors :: "nat \<Rightarrow> 'a list \<Rightarrow> 'a list" where
  "trim_successors maxpaths s = (if maxpaths < length s then trim_successors maxpaths (butlast s) else s)"

declare trim_successors.simps [simp del]

definition eigrp_topology_successors_max_read ::
    "eigrp_topo \<Rightarrow> eigrp_prefix_descriptor \<Rightarrow> nat \<Rightarrow> eigrp_route_descriptor list option option" where
  "eigrp_topology_successors_max_read t pd maxpaths =
     map_option (map_option (trim_successors maxpaths)) (eigrp_topology_successors_read t pd)"

text \<open>The route for the RIB; the first successor decides on its type.\<close>

definition rib_route_build ::
    "eigrp_topo \<Rightarrow> eigrp_prefix_descriptor \<Rightarrow> eigrp_route_descriptor list \<Rightarrow> eigrp_rib_nexthop list \<Rightarrow> eigrp_rib_route" where
  "rib_route_build t pd s nexthops =
     (let route = \<lparr>rib_prefix = destination pd, rib_nexthops = nexthops, rib_metric = ucast (pd_distance pd),
                   rib_tag = 0, rib_admin_dist = ucast (distance_internal t), rib_type = EIGRP_RIB_ROUTE_INTERNAL\<rparr>
      in case s of
           [] \<Rightarrow> route
         | r # _ \<Rightarrow>
             if eigrp_topology_route_external r
             then route\<lparr>rib_type := EIGRP_RIB_ROUTE_EXTERNAL,
                        rib_admin_dist := ucast (distance_external t), rib_tag := ext_tag (extdata r)\<rparr>
             else route)"

definition eigrp_update_routing_table ::
    "eigrp_topo \<Rightarrow> eigrp_prefix_descriptor \<Rightarrow> (eigrp_topo \<times> eigrp_prefix_descriptor) option" where
  "eigrp_update_routing_table t pd =
     (let pd = pd_map (clear_flags INTABLE_FLAG) pd
      in case eigrp_topology_successors_max_read t pd (unat (max_paths (inst t))) of
           None \<Rightarrow> None
         | Some None \<Rightarrow> Some (eigrp_rib_route_del t (destination pd), pd_map (clear_flags INTABLE_FLAG) pd)
         | Some (Some s) \<Rightarrow>
             let nexthops = eigrp_topology_southbound_nexthops t s EIGRP_MAX_PATHS_MAX;
                 t = (if nexthops \<noteq> [] then snd (eigrp_rib_route_add t (rib_route_build t pd s nexthops)) else t)
             in Some (t, pd_map (\<lambda>r. if rid r \<in> set (map rid s) then set_flags INTABLE_FLAG r else r) pd))"

subsection \<open>Retirement of destinations\<close>

definition eigrp_topology_table_key :: "eigrp_prefix \<Rightarrow> eigrp_prefix option" where
  "eigrp_topology_table_key p = (if eigrp_prefix_valid p then Some (eigrp_prefix_normalize p) else None)"

definition eigrp_topology_prefix_detach ::
    "eigrp_topo \<Rightarrow> eigrp_prefix_descriptor \<Rightarrow> bool \<times> eigrp_topo \<times> eigrp_prefix_descriptor" where
  "eigrp_topology_prefix_detach t pd =
     (if eigrp_topology_table_key (destination pd) = None \<or> \<not> table_attached pd then (False, t, pd)
      else let t = t\<lparr>topology_changes := removeAll (destination pd) (topology_changes t)\<rparr>
           in (True, eigrp_rib_route_del t (destination pd), pd\<lparr>table_attached := False\<rparr>))"

text \<open>The loops over the two queues delete the unreachable routes they meet; the next node is saved before a deletion.\<close>

definition delete_unreachable ::
    "eigrp_route_descriptor list \<Rightarrow> eigrp_topo \<times> eigrp_prefix_descriptor \<Rightarrow> eigrp_topo \<times> eigrp_prefix_descriptor" where
  "delete_unreachable rs tp =
     foldl (\<lambda>(t, pd) r. if distance r = EIGRP_MAX_METRIC then eigrp_route_descriptor_delete t pd r else (t, pd)) tp rs"

definition eigrp_update_topology_table_prefix ::
    "eigrp_topo \<Rightarrow> eigrp_prefix_descriptor \<Rightarrow> (eigrp_topo \<times> eigrp_prefix_descriptor) option" where
  "eigrp_update_topology_table_prefix t pd =
     (if req_action pd AND EIGRP_FSM_NEED_UPDATE \<noteq> 0 then Some (t, pd)
      else
        let (t, pd) = delete_unreachable (internal_routes pd) (t, pd);
            (t, pd) = delete_unreachable (external_routes pd) (t, pd)
        in if state pd = EIGRP_FSM_STATE_PASSIVE \<and> req_action pd = 0 \<and> rij pd = [] \<and> query_origin pd = None
              \<and> internal_routes pd = [] \<and> external_routes pd = []
           then (case eigrp_topology_prefix_detach t pd of
                   (True, t, pd) \<Rightarrow> map_option (\<lambda>t. (t, pd)) (eigrp_packetizer_prefix_defer_free t pd)
                 | (False, t, pd) \<Rightarrow> Some (t, pd))
           else Some (t, pd))"

subsection \<open>Recalculation\<close>

text \<open>One pass of the exchange sort over a queue, and the loop around it.\<close>

fun resort_pass :: "eigrp_route_descriptor list \<Rightarrow> bool \<times> eigrp_route_descriptor list" where
  "resort_pass (a # b # rs) =
     (if distance a \<le> distance b
      then (let (changed, rs') = resort_pass (b # rs) in (changed, a # rs'))
      else (let (changed, rs') = resort_pass (a # rs) in (True, b # rs')))"
| "resort_pass rs = (False, rs)"

primrec inversions :: "eigrp_route_descriptor list \<Rightarrow> nat" where
  "inversions [] = 0"
| "inversions (r # rs) = length (filter (\<lambda>x. distance x < distance r) rs) + inversions rs"

lemma resort_pass_mset: "mset (snd (resort_pass rs)) = mset rs"
  by (induction rs rule: resort_pass.induct) (auto split: prod.splits)

lemma filter_length_mset: "mset xs = mset ys \<Longrightarrow> length (filter P xs) = length (filter P ys)"
  by (metis mset_filter size_mset)

lemma resort_pass_inversions:
  "inversions (snd (resort_pass rs)) + (if fst (resort_pass rs) then 1 else 0) \<le> inversions rs"
proof (induction rs rule: resort_pass.induct)
  case (1 a b rs)
  obtain c1 p1 where p1: "resort_pass (b # rs) = (c1, p1)" by fastforce
  obtain c2 p2 where p2: "resort_pass (a # rs) = (c2, p2)" by fastforce
  have f: "length (filter P p1) = length (filter P (b # rs))" "length (filter P p2) = length (filter P (a # rs))" for P
    using filter_length_mset [of p1 "b # rs" P] filter_length_mset [of p2 "a # rs" P]
      resort_pass_mset [of "b # rs"] resort_pass_mset [of "a # rs"] p1 p2 by simp_all
  show ?case
  proof (cases "distance a \<le> distance b")
    case True
    then show ?thesis using 1(1) p1 f(1) by auto
  next
    case False
    then have "\<not> distance a < distance b" "distance b < distance a" by auto
    then show ?thesis using 1(2) p2 f(2) False by auto
  qed
qed auto

function eigrp_topology_route_queue_resort :: "eigrp_route_descriptor list \<Rightarrow> eigrp_route_descriptor list" where
  "eigrp_topology_route_queue_resort rs =
     (let p = resort_pass rs in if fst p then eigrp_topology_route_queue_resort (snd p) else snd p)"
  by pat_completeness auto
termination
proof (relation "measure inversions")
  fix rs p assume "p = resort_pass rs" "fst p"
  then show "(snd p, rs) \<in> measure inversions" using resort_pass_inversions [of rs] by simp
qed simp

declare eigrp_topology_route_queue_resort.simps [simp del]

text \<open>New distances for one route of a Passive destination after a metric configuration change.\<close>

definition route_recalculate :: "eigrp_topo \<Rightarrow> eigrp_route_descriptor \<Rightarrow> eigrp_route_descriptor option" where
  "route_recalculate t r =
     (if adv_router r = neighbor_self t then
        let r = r\<lparr>reported_distance := 0\<rparr>;
            r = (if rt_ei r = None then r\<lparr>reported_metric := rt_metric r, total_metric := rt_metric r\<rparr> else r)
        in if delay (rt_metric r) = ucast EIGRP_MAX_METRIC then
             let r = (if rt_ei r \<noteq> None then r\<lparr>reported_metric := rt_metric r, total_metric := rt_metric r\<rparr> else r)
             in Some (r\<lparr>distance := EIGRP_MAX_METRIC\<rparr>)
           else case rt_ei r of
             Some i \<Rightarrow>
               (case eigrp_bandwidth_to_scaled (ucast (intf_bandwidth (intfs t i))) of
                  None \<Rightarrow> None
                | Some bw \<Rightarrow>
                    let m = (rt_metric r)\<lparr>bandwidth := ucast bw,
                              delay := ucast (eigrp_delay_to_scaled (ucast (intf_delay (intfs t i)))),
                              load := intf_load (intfs t i), reliability := intf_reliability (intfs t i), hop_count := 0\<rparr>
                    in Some (r\<lparr>rt_metric := m, reported_metric := m, total_metric := m,
                               distance := ucast (eigrp_metric_calculate (inst t) m)\<rparr>))
           | None \<Rightarrow> Some (r\<lparr>distance := ucast (eigrp_topology_redistributed_distance t (rt_metric r))\<rparr>)
      else
        let r = r\<lparr>reported_distance := ucast (eigrp_metric_calculate (inst t) (reported_metric r))\<rparr>
        in if rt_ei r \<noteq> None then route_total t r
           else Some (r\<lparr>distance := ucast (eigrp_metric_calculate (inst t) (total_metric r))\<rparr>))"

definition prefix_unelected :: "eigrp_topo \<Rightarrow> eigrp_prefix_descriptor \<Rightarrow> bool" where
  "prefix_unelected t pd \<longleftrightarrow> pd_distance pd = EIGRP_MAX_METRIC \<and> fdistance pd = EIGRP_MAX_METRIC
     \<and> delay (pd_reported_metric pd) = ucast EIGRP_MAX_METRIC
     \<and> list_all (\<lambda>r. adv_router r \<noteq> neighbor_self t) (eigrp_topology_routes pd)"

definition metric_update_prefix ::
    "eigrp_topo \<Rightarrow> eigrp_prefix_descriptor \<Rightarrow> (eigrp_topo \<times> eigrp_prefix_descriptor) option" where
  "metric_update_prefix t pd =
     (if state pd \<noteq> EIGRP_FSM_STATE_PASSIVE then Some (t, pd)
      else case (those (map (route_recalculate t) (internal_routes pd)), those (map (route_recalculate t) (external_routes pd))) of
        (Some is, Some es) \<Rightarrow>
          let unelected = prefix_unelected t pd;
              pd = pd\<lparr>internal_routes := eigrp_topology_route_queue_resort is,
                      external_routes := eigrp_topology_route_queue_resort es\<rparr>
          in if unelected then Some (t, pd)
             else
               let pd = (case eigrp_topology_route_read pd of
                           None \<Rightarrow> pd
                         | Some best \<Rightarrow> pd\<lparr>pd_distance := distance best, fdistance := distance best, rdistance := distance best,
                                           pd_reported_metric := total_metric best\<rparr>);
                   pd = eigrp_topology_update_node_flags t pd
               in (case eigrp_update_routing_table t pd of
                     None \<Rightarrow> None
                   | Some (t, pd) \<Rightarrow>
                       let pd = pd\<lparr>req_action := req_action pd OR EIGRP_FSM_NEED_UPDATE\<rparr>
                       in Some (if destination pd \<in> set (topology_changes t) then t else changes_add t pd, pd))
      | _ \<Rightarrow> None)"

text \<open>A walk over the topology table, in table order.\<close>

primrec walk_prefixes ::
    "(eigrp_topo \<Rightarrow> eigrp_prefix_descriptor \<Rightarrow> (eigrp_topo \<times> eigrp_prefix_descriptor) option)
     \<Rightarrow> eigrp_topo \<Rightarrow> eigrp_prefix_descriptor list \<Rightarrow> (eigrp_topo \<times> eigrp_prefix_descriptor list) option" where
  "walk_prefixes f t [] = Some (t, [])"
| "walk_prefixes f t (pd # pds) =
     (case f t pd of
        None \<Rightarrow> None
      | Some (t, pd) \<Rightarrow> map_option (\<lambda>(t, pds). (t, pd # pds)) (walk_prefixes f t pds))"

definition eigrp_topology_metric_update ::
    "eigrp_topo \<Rightarrow> eigrp_prefix_descriptor list \<Rightarrow> (eigrp_topo \<times> eigrp_prefix_descriptor list) option" where
  "eigrp_topology_metric_update t pds =
     (case walk_prefixes metric_update_prefix t pds of
        None \<Rightarrow> None
      | Some (t, pds) \<Rightarrow> map_option (\<lambda>t. (t, pds)) (eigrp_update_send_all t None))"

definition eigrp_topology_update_all_node_flags ::
    "eigrp_topo \<Rightarrow> eigrp_prefix_descriptor list \<Rightarrow> eigrp_prefix_descriptor list" where
  "eigrp_topology_update_all_node_flags t = map (eigrp_topology_update_node_flags t)"

definition eigrp_topology_multipath_update ::
    "eigrp_topo \<Rightarrow> eigrp_prefix_descriptor list \<Rightarrow> (eigrp_topo \<times> eigrp_prefix_descriptor list) option" where
  "eigrp_topology_multipath_update =
     walk_prefixes (\<lambda>t pd. if state pd \<noteq> EIGRP_FSM_STATE_PASSIVE then Some (t, pd)
                           else eigrp_update_routing_table t (eigrp_topology_update_node_flags t pd))"

definition eigrp_topology_traffic_share_update ::
    "eigrp_topo \<Rightarrow> eigrp_prefix_descriptor list \<Rightarrow> (eigrp_topo \<times> eigrp_prefix_descriptor list) option" where
  "eigrp_topology_traffic_share_update =
     walk_prefixes (\<lambda>t pd. if state pd \<noteq> EIGRP_FSM_STATE_PASSIVE then Some (t, pd) else eigrp_update_routing_table t pd)"

subsection \<open>The invariant of a destination\<close>

text \<open>Both queues are sorted by distance, hold routes of their class only, and no descriptor is stored twice.\<close>

definition queues_ok :: "eigrp_prefix_descriptor \<Rightarrow> bool" where
  "queues_ok pd \<longleftrightarrow> sorted (map distance (internal_routes pd)) \<and> sorted (map distance (external_routes pd))
     \<and> distinct (map rid (eigrp_topology_routes pd))
     \<and> list_all (\<lambda>r. \<not> eigrp_topology_route_external r) (internal_routes pd)
     \<and> list_all eigrp_topology_route_external (external_routes pd)"

interpretation rt: list_order eigrp_route_descriptor_cmp distance
  by unfold_locales (simp add: eigrp_route_descriptor_cmp_def)

lemma queue_del_set: "set (queue_del r rs) \<subseteq> set rs"
  by (induction rs) auto

lemma queue_del_rids: "distinct (map rid rs) \<Longrightarrow> rid ` set (queue_del r rs) = rid ` set rs - {rid r}"
proof (induction rs)
  case (Cons x xs)
  then show ?case by (cases "rid x = rid r") auto
qed simp

lemma queue_del_distinct: "distinct (map rid rs) \<Longrightarrow> distinct (map rid (queue_del r rs))"
  by (induction rs) (auto simp: queue_del_rids)

lemma queue_del_sorted: "sorted (map distance rs) \<Longrightarrow> sorted (map distance (queue_del r rs))"
proof (induction rs)
  case (Cons x xs)
  then show ?case using queue_del_set [of r xs] by auto
qed simp

text \<open>
  A received TLV overwrites the type of the stored route before the distance update moves the route to the queue of its
  class: until then the class of that one descriptor is open.
\<close>

definition queues_ok_but :: "nat \<Rightarrow> eigrp_prefix_descriptor \<Rightarrow> bool" where
  "queues_ok_but i pd \<longleftrightarrow> sorted (map distance (internal_routes pd)) \<and> sorted (map distance (external_routes pd))
     \<and> distinct (map rid (eigrp_topology_routes pd))
     \<and> list_all (\<lambda>r. rid r \<noteq> i \<longrightarrow> \<not> eigrp_topology_route_external r) (internal_routes pd)
     \<and> list_all (\<lambda>r. rid r \<noteq> i \<longrightarrow> eigrp_topology_route_external r) (external_routes pd)"

lemma queues_ok_but: "queues_ok pd \<Longrightarrow> queues_ok_but i pd"
  by (auto simp: queues_ok_def queues_ok_but_def list_all_iff)

lemma queues_del_ok:
  assumes "queues_ok_but (rid r) pd"
  shows "queues_ok (queues_del r pd) \<and> rid r \<notin> set (map rid (eigrp_topology_routes (queues_del r pd)))"
proof -
  have d: "distinct (map rid (internal_routes pd))" "distinct (map rid (external_routes pd))"
    using assms by (simp_all add: queues_ok_but_def eigrp_topology_routes_def)
  note rs = queue_del_rids [OF d(1), of r] queue_del_rids [OF d(2), of r]
  have "distinct (map rid (eigrp_topology_routes (queues_del r pd)))"
    using assms rs queue_del_distinct [OF d(1), of r] queue_del_distinct [OF d(2), of r]
    by (auto simp: queues_ok_but_def eigrp_topology_routes_def queues_del_def)
  moreover have "list_all P (queue_del r xs)" if "list_all (\<lambda>x. rid x \<noteq> rid r \<longrightarrow> P x) xs" "distinct (map rid xs)" for P xs
  proof -
    have "x \<in> set xs \<and> rid x \<noteq> rid r" if "x \<in> set (queue_del r xs)" for x
      using that queue_del_set [of r xs] queue_del_rids [OF \<open>distinct (map rid xs)\<close>, of r] by blast
    then show ?thesis using that(1) by (auto simp: list_all_iff)
  qed
  ultimately show ?thesis
    using assms rs d by (auto simp: queues_ok_def queues_ok_but_def queues_del_def queue_del_sorted eigrp_topology_routes_def)
qed

lemma queue_insert_ok:
  assumes "queues_ok pd" and "rid r \<notin> set (map rid (eigrp_topology_routes pd))"
  shows "queues_ok (queue_insert pd r)"
proof -
  have d: "distinct (map rid (insert_before eigrp_route_descriptor_cmp r xs))"
    if "distinct (map rid xs)" "rid r \<notin> rid ` set xs" for xs
    using that mset_eq_imp_distinct_iff [of "map rid (insert_before eigrp_route_descriptor_cmp r xs)" "map rid (r # xs)"]
    by simp
  show ?thesis
    using assms d rt.insert_before_sorted
    by (auto simp: queues_ok_def queue_insert_def eigrp_topology_routes_def list_all_iff)
qed

lemma queue_write_maps:
  assumes "\<And>x. x \<in> set rs \<Longrightarrow> rid x = rid r \<Longrightarrow> distance x = distance r"
  shows "map distance (queue_write r rs) = map distance rs" "map rid (queue_write r rs) = map rid rs"
  using assms by (auto simp: queue_write_def)

lemma in_queue_iff: "in_queue rs r \<longleftrightarrow> (\<exists>x\<in>set rs. rid x = rid r)"
  by (auto simp: in_queue_def image_iff) metis

lemma queue_write_set: "x \<in> set (queue_write r rs) \<Longrightarrow> x \<in> set rs \<and> rid x \<noteq> rid r \<or> x = r \<and> in_queue rs r"
  by (auto simp: queue_write_def in_queue_iff split: if_splits)

lemma pd_write_ok:
  assumes "queues_ok_but (rid r) pd"
    and d: "\<And>x. x \<in> set (eigrp_topology_routes pd) \<Longrightarrow> rid x = rid r \<Longrightarrow> distance x = distance r"
    and "in_queue (internal_routes pd) r \<Longrightarrow> \<not> eigrp_topology_route_external r"
    and "in_queue (external_routes pd) r \<Longrightarrow> eigrp_topology_route_external r"
  shows "queues_ok (pd_write pd r)"
proof -
  have "map distance (queue_write r (internal_routes pd)) = map distance (internal_routes pd)"
    "map distance (queue_write r (external_routes pd)) = map distance (external_routes pd)"
    "map rid (queue_write r (internal_routes pd)) = map rid (internal_routes pd)"
    "map rid (queue_write r (external_routes pd)) = map rid (external_routes pd)"
    using d by (auto intro!: queue_write_maps simp: eigrp_topology_routes_def)
  then show ?thesis
    using assms(1,3,4) by (auto simp: queues_ok_def queues_ok_but_def pd_write_def eigrp_topology_routes_def list_all_iff dest!: queue_write_set)
qed

lemma pd_write_but:
  assumes "queues_ok pd" and d: "\<And>x. x \<in> set (eigrp_topology_routes pd) \<Longrightarrow> rid x = rid r \<Longrightarrow> distance x = distance r"
  shows "queues_ok_but (rid r) (pd_write pd r)"
proof -
  have "map distance (queue_write r (internal_routes pd)) = map distance (internal_routes pd)"
    "map distance (queue_write r (external_routes pd)) = map distance (external_routes pd)"
    "map rid (queue_write r (internal_routes pd)) = map rid (internal_routes pd)"
    "map rid (queue_write r (external_routes pd)) = map rid (external_routes pd)"
    using d by (auto intro!: queue_write_maps simp: eigrp_topology_routes_def)
  then show ?thesis
    using assms(1) by (auto simp: queues_ok_def queues_ok_but_def pd_write_def eigrp_topology_routes_def list_all_iff dest!: queue_write_set)
qed

text \<open>What an operation on the queues leaves alone.\<close>

definition same_but_queues :: "eigrp_prefix_descriptor \<Rightarrow> eigrp_prefix_descriptor \<Rightarrow> bool" where
  "same_but_queues pd pd' \<longleftrightarrow>
     pd' = pd\<lparr>internal_routes := internal_routes pd', external_routes := external_routes pd'\<rparr>"

lemma same_but_queuesD:
  assumes "same_but_queues pd pd'"
  shows "rij pd' = rij pd" "destination pd' = destination pd" "pd_reported_metric pd' = pd_reported_metric pd"
    "fdistance pd' = fdistance pd" "rdistance pd' = rdistance pd" "pd_distance pd' = pd_distance pd" "nt pd' = nt pd"
    "state pd' = state pd" "req_action pd' = req_action pd" "t_active pd' = t_active pd"
    "active_eigrp pd' = active_eigrp pd" "query_origin pd' = query_origin pd" "table_attached pd' = table_attached pd"
  using assms by (auto simp: same_but_queues_def) (metis eigrp_prefix_descriptor.select_convs eigrp_prefix_descriptor.surjective
      eigrp_prefix_descriptor.update_convs)+

lemma same_but_queues_refl [simp]: "same_but_queues pd pd"
  by (simp add: same_but_queues_def)

lemma same_but_queues_trans: "same_but_queues pd pd' \<Longrightarrow> same_but_queues pd' pd'' \<Longrightarrow> same_but_queues pd pd''"
  by (cases pd; cases pd'; cases pd'') (simp add: same_but_queues_def)

lemma same_but_queues_ops [simp]:
  "same_but_queues pd (pd_write pd r)" "same_but_queues pd (pd_map f pd)" "same_but_queues pd (queues_del r pd)"
  "same_but_queues pd (queue_insert pd r)" "same_but_queues pd (pd\<lparr>internal_routes := is\<rparr>)"
  "same_but_queues pd (pd\<lparr>external_routes := es\<rparr>)"
  by (cases pd; simp add: same_but_queues_def pd_write_def pd_map_def queues_del_def queue_insert_def)+

text \<open>Only the prefix counters of neighbours change.\<close>

definition same_but_counts :: "eigrp_topo \<Rightarrow> eigrp_topo \<Rightarrow> bool" where
  "same_but_counts t t' \<longleftrightarrow> t' = t\<lparr>nbrs := nbrs t'\<rparr>
     \<and> (\<forall>n. nbrs t' n = (nbrs t n)\<lparr>limit_prefix_count := limit_prefix_count (nbrs t' n)\<rparr>)"

lemma route_insert_frame:
  assumes "eigrp_topology_route_insert t pd r f = (ok, t', pd')"
  shows "same_but_queues pd pd'" "same_but_counts t t'" "ok = alloc_ok t Alloc_queue_item"
    "pd' = (if ok then queue_insert pd r else pd)"
  using assms by (auto simp: eigrp_topology_route_insert_def same_but_counts_def Let_def split: if_splits option.splits)

lemma route_adopt_frame [simp]:
  "rid (route_adopt t pd msg r) = rid r" "distance (route_adopt t pd msg r) = distance r"
  "eigrp_topology_route_external (route_adopt t pd msg r) = eigrp_topology_route_external r"
  "reported_distance (route_adopt t pd msg r) = reported_distance r" "rt_flags (route_adopt t pd msg r) = rt_flags r"
  "reported_metric (route_adopt t pd msg r) = reported_metric r"
  by (auto simp: route_adopt_def eigrp_topology_route_external_def Let_def split: option.split)

lemma in_queue_adopt [simp]: "in_queue rs (route_adopt t pd msg r) = in_queue rs r"
  by (simp add: in_queue_def)

lemma route_total_frame:
  "route_total t r = Some r' \<Longrightarrow> rid r' = rid r \<and> rt_type r' = rt_type r \<and> rt_flags r' = rt_flags r
     \<and> adv_router r' = adv_router r \<and> rt_ei r' = rt_ei r \<and> reported_distance r' = reported_distance r
     \<and> reported_metric r' = reported_metric r"
  by (auto simp: route_total_def split: if_splits option.splits prod.splits)

lemma distance_switch_frame:
  assumes "distance_switch t pd msg r u = Some (Some (ch, r'))"
  shows "rid r' = rid r \<and> rt_type r' = rt_type r \<and> rt_flags r' = rt_flags r \<and> adv_router r' = adv_router r \<and> rt_ei r' = rt_ei r"
  using assms route_total_frame
  by (fastforce simp: distance_switch_def Let_def route_reported_def split: if_splits option.splits)

lemma distance_switch_early:
  "distance_switch t pd msg r u = Some None \<Longrightarrow> u \<or> data_type msg = EIGRP_CONNECTED"
  by (auto simp: distance_switch_def Let_def split: if_splits option.splits)

lemma external_cong: "rt_type r = rt_type r' \<Longrightarrow> eigrp_topology_route_external r = eigrp_topology_route_external r'"
  by (simp add: eigrp_topology_route_external_def)

text \<open>A message about a stored route carries the stored content.\<close>

definition msg_consistent :: "eigrp_prefix_descriptor \<Rightarrow> eigrp_fsm_action_message \<Rightarrow> bool" where
  "msg_consistent pd msg \<longleftrightarrow> (case msg_route msg of
      None \<Rightarrow> True
    | Some r \<Rightarrow> \<forall>x\<in>set (eigrp_topology_routes pd). rid x = rid r \<longrightarrow> distance x = distance r)"

lemma update_distance_cases:
  assumes "eigrp_topology_update_distance t pd msg = Some (ch, t', pd', msg')"
  obtains (transient) r where "msg_route msg = Some r" "transient_route msg" "ch = METRIC_SAME" "t' = t" "pd' = pd" "msg' = msg"
  | (unchanged) r where "msg_route msg = Some r" "\<not> transient_route msg" "ch = METRIC_SAME" "t' = t"
      "pd' = pd_write pd (route_adopt t pd msg r)" "msg' = msg\<lparr>msg_route := Some (route_adopt t pd msg r)\<rparr>"
      "data_type msg = EIGRP_CONNECTED
       \<or> (in_queue (internal_routes pd) r \<or> in_queue (external_routes pd) r)
         \<and> in_queue (external_routes pd) r = eigrp_topology_route_external r"
  | (moved) r r' f u where "msg_route msg = Some r" "\<not> transient_route msg"
      "distance_switch t pd msg (route_adopt t pd msg r) u = Some (Some (ch, r'))"
      "eigrp_topology_route_insert t (queues_del r' pd) r' f = (True, t', pd')" "msg' = msg\<lparr>msg_route := Some r'\<rparr>"
  | (lost) r r' c f u where "msg_route msg = Some r" "\<not> transient_route msg" "ch = METRIC_SAME"
      "distance_switch t pd msg (route_adopt t pd msg r) u = Some (Some (c, r'))"
      "eigrp_topology_route_insert t (queues_del r' pd) r' f = (False, t', pd')"
      "msg' = msg\<lparr>msg_route := Some r', transient_route := \<not> (in_queue (internal_routes pd) r \<or> in_queue (external_routes pd) r)\<rparr>"
proof -
  obtain r where r: "msg_route msg = Some r"
    using assms by (auto simp: eigrp_topology_update_distance_def split: option.splits)
  show thesis
  proof (cases "transient_route msg")
    case True
    then show thesis using transient assms r by (auto simp: eigrp_topology_update_distance_def)
  next
    case False
    let ?r = "route_adopt t pd msg r"
    let ?u = "(in_queue (internal_routes pd) r \<or> in_queue (external_routes pd) r)
      \<and> in_queue (external_routes pd) r = eigrp_topology_route_external r \<and> eigrp_metrics_match (metrics msg) (reported_metric r)"
    note e = assms [unfolded eigrp_topology_update_distance_def r Let_def, simplified False, simplified]
    show thesis
    proof (cases "distance_switch t pd msg ?r ?u")
      case None
      then show thesis using e by simp
    next
      case (Some oo)
      show thesis
      proof (cases oo)
        case None
        with Some have "data_type msg = EIGRP_CONNECTED \<or> ?u" using distance_switch_early by blast
        then show thesis using unchanged r False e Some None by auto
      next
        case s: (Some p)
        obtain c r' where p: "p = (c, r')" by fastforce
        show thesis using moved [OF r False] lost [OF r False] e Some s p by (auto split: prod.splits bool.splits)
      qed
    qed
  qed
qed

lemma distance_change_routes:
  "eigrp_topology_routes (queue_insert pd r) \<noteq> []"
  by (auto simp: queue_insert_def eigrp_topology_routes_def simp flip: set_empty)

lemma update_distance_frame:
  assumes "eigrp_topology_update_distance t pd msg = Some (ch, t', pd', msg')"
  shows "same_but_queues pd pd'" "same_but_counts t t'" "packet_type msg' = packet_type msg"
    "msg_adv_router msg' = msg_adv_router msg" "data_type msg' = data_type msg" "metrics msg' = metrics msg"
    "\<exists>r r'. msg_route msg = Some r \<and> msg_route msg' = Some r' \<and> rid r' = rid r \<and> rt_flags r' = rt_flags r
      \<and> (adv_router r \<noteq> None \<longrightarrow> adv_router r' = adv_router r)"
proof -
  have c: "same_but_counts t t" for t by (simp add: same_but_counts_def)
  have a: "adv_router r \<noteq> None \<Longrightarrow> adv_router (route_adopt t pd msg r) = adv_router r" for t pd msg r
    by (auto simp: route_adopt_def Let_def split: option.split)
  show "same_but_queues pd pd'"
    using assms by (cases rule: update_distance_cases) (auto dest!: route_insert_frame(1) intro: same_but_queues_trans [OF same_but_queues_ops(3)])
  show "same_but_counts t t'"
    using assms by (cases rule: update_distance_cases) (auto dest!: route_insert_frame(2) simp: c)
  show "packet_type msg' = packet_type msg" "msg_adv_router msg' = msg_adv_router msg" "data_type msg' = data_type msg"
    "metrics msg' = metrics msg"
    using assms by (cases rule: update_distance_cases; simp)+
  show "\<exists>r r'. msg_route msg = Some r \<and> msg_route msg' = Some r' \<and> rid r' = rid r \<and> rt_flags r' = rt_flags r
      \<and> (adv_router r \<noteq> None \<longrightarrow> adv_router r' = adv_router r)"
    using assms
  proof (cases rule: update_distance_cases)
    case (moved r r' f u)
    then show ?thesis using a distance_switch_frame [OF moved(3)] by auto
  next
    case (lost r r' c f u)
    then show ?thesis using a distance_switch_frame [OF lost(4)] by auto
  qed (use a in auto)
qed

definition queues_ok_for :: "eigrp_prefix_descriptor \<Rightarrow> eigrp_fsm_action_message \<Rightarrow> bool" where
  "queues_ok_for pd msg \<longleftrightarrow> (case msg_route msg of
      Some r \<Rightarrow> if transient_route msg then queues_ok pd else queues_ok_but (rid r) pd
    | None \<Rightarrow> queues_ok pd)"

lemma queues_ok_forI [intro]: "queues_ok pd \<Longrightarrow> queues_ok_for pd msg"
  by (simp add: queues_ok_for_def queues_ok_but split: option.split)

lemma queues_ok_forD:
  "queues_ok_for pd msg \<Longrightarrow> msg_route msg = Some r \<Longrightarrow> rid r' = rid r \<Longrightarrow> queues_ok_but (rid r') pd"
  by (auto simp: queues_ok_for_def queues_ok_but split: if_splits)

lemma update_distance_queues_ok:
  assumes q: "queues_ok_for pd msg" and c: "msg_consistent pd msg" and dt: "data_type msg \<noteq> EIGRP_CONNECTED"
    and u: "eigrp_topology_update_distance t pd msg = Some (ch, t', pd', msg')"
  shows "queues_ok pd'"
  using u
proof (cases rule: update_distance_cases)
  case (unchanged r)
  show ?thesis unfolding unchanged(5)
  proof (rule pd_write_ok)
    show qb: "queues_ok_but (rid (route_adopt t pd msg r)) pd" 
      using queues_ok_forD [OF q unchanged(1), of "route_adopt t pd msg r"] by simp
    fix x assume "x \<in> set (eigrp_topology_routes pd)" "rid x = rid (route_adopt t pd msg r)"
    then show "distance x = distance (route_adopt t pd msg r)" using c unchanged(1) by (auto simp: msg_consistent_def)
  next
    assume i: "in_queue (internal_routes pd) (route_adopt t pd msg r)"
    then have "\<not> in_queue (external_routes pd) r"
      using queues_ok_forD [OF q unchanged(1) refl] by (fastforce simp: queues_ok_but_def eigrp_topology_routes_def in_queue_def)
    then show "\<not> eigrp_topology_route_external (route_adopt t pd msg r)" using unchanged(7) dt by auto
  next
    assume "in_queue (external_routes pd) (route_adopt t pd msg r)"
    then show "eigrp_topology_route_external (route_adopt t pd msg r)" using unchanged(7) dt by auto
  qed
next
  case (moved r r' f u)
  then have "pd' = queue_insert (queues_del r' pd) r'" using route_insert_frame(4) [OF moved(4)] by simp
  then show ?thesis using queues_del_ok [OF queues_ok_forD [OF q moved(1)], of r'] distance_switch_frame [OF moved(3)]
    by (simp add: queue_insert_ok)
next
  case (lost r r' c f u)
  then have "pd' = queues_del r' pd" using route_insert_frame(4) [OF lost(5)] by simp
  then show ?thesis using queues_del_ok [OF queues_ok_forD [OF q lost(1)], of r'] distance_switch_frame [OF lost(4)] by simp
qed (use q in \<open>simp add: queues_ok_for_def\<close>)

text \<open>With memory, a route that is not transient is stored when the update returns.\<close>

lemma update_distance_stored:
  assumes u: "eigrp_topology_update_distance t pd msg = Some (ch, t', pd', msg')" and "alloc_ok t Alloc_queue_item"
    and "\<not> transient_route msg" and "data_type msg \<noteq> EIGRP_CONNECTED" and "msg_route msg' = Some r'"
  shows "\<exists>x\<in>set (eigrp_topology_routes pd'). x = r'" "transient_route msg' = False"
proof -
  have "(\<exists>x\<in>set (eigrp_topology_routes pd'). x = r') \<and> transient_route msg' = False"
    using u
  proof (cases rule: update_distance_cases)
    case (unchanged r)
    then have "in_queue (internal_routes pd) r \<or> in_queue (external_routes pd) r" using assms(4) by auto
    then have "\<exists>x\<in>set (eigrp_topology_routes (pd_write pd (route_adopt t pd msg r))). x = route_adopt t pd msg r"
      by (auto simp: pd_write_def queue_write_def eigrp_topology_routes_def in_queue_iff image_iff)
    then show ?thesis using unchanged assms(5) by auto
  next
    case (moved r r2 f u)
    then have "pd' = queue_insert (queues_del r' pd) r'" using route_insert_frame(4) [OF moved(4)] assms(5) by simp
    then show ?thesis using moved assms(3) by (auto simp: queue_insert_def eigrp_topology_routes_def)
  next
    case (lost r r2 c f u)
    then show ?thesis using route_insert_frame(3) [OF lost(5)] assms(2) by simp
  qed (use assms in simp)
  then show "\<exists>x\<in>set (eigrp_topology_routes pd'). x = r'" "transient_route msg' = False" by auto
qed

lemma msg_consistent_after:
  assumes q: "queues_ok_for pd msg" and c: "msg_consistent pd msg" and dt: "data_type msg \<noteq> EIGRP_CONNECTED"
    and u: "eigrp_topology_update_distance t pd msg = Some (ch, t', pd', msg')"
  shows "msg_consistent pd' msg'"
  using u
proof (cases rule: update_distance_cases)
  case (unchanged r)
  then show ?thesis
    by (auto simp: msg_consistent_def pd_write_def eigrp_topology_routes_def dest!: queue_write_set)
next
  case (moved r r' f u)
  then have e: "pd' = queue_insert (queues_del r' pd) r'" using route_insert_frame(4) [OF moved(4)] by simp
  have "x = r'" if "x \<in> set (eigrp_topology_routes pd')" "rid x = rid r'" for x
    using that queues_del_ok [OF queues_ok_forD [OF q moved(1)], of r'] distance_switch_frame [OF moved(3)] unfolding e
    by (auto simp: queue_insert_def eigrp_topology_routes_def queues_del_def image_iff split: if_splits)
  then show ?thesis using moved by (auto simp: msg_consistent_def)
next
  case (lost r r' c f u)
  then have e: "pd' = queues_del r' pd" using route_insert_frame(4) [OF lost(5)] by simp
  have "rid x \<noteq> rid r'" if "x \<in> set (eigrp_topology_routes pd')" for x
    using that queues_del_ok [OF queues_ok_forD [OF q lost(1)], of r'] distance_switch_frame [OF lost(4)] unfolding e by (auto simp: image_iff)
  then show ?thesis using lost by (auto simp: msg_consistent_def)
qed (use c in simp)

subsection \<open>Flags do not matter for the queues\<close>

text \<open>Two destinations are alike when they differ in the flags of their routes only.\<close>

definition erase :: "eigrp_route_descriptor \<Rightarrow> eigrp_route_descriptor" where
  "erase r = r\<lparr>rt_flags := 0\<rparr>"

definition alike :: "eigrp_prefix_descriptor \<Rightarrow> eigrp_prefix_descriptor \<Rightarrow> bool" where
  "alike pd pd' \<longleftrightarrow> same_but_queues pd pd' \<and> map erase (internal_routes pd') = map erase (internal_routes pd)
     \<and> map erase (external_routes pd') = map erase (external_routes pd)"

lemma erase_fields [simp]:
  "rid (erase r) = rid r" "distance (erase r) = distance r" "reported_distance (erase r) = reported_distance r"
  "adv_router (erase r) = adv_router r" "rt_ei (erase r) = rt_ei r" "total_metric (erase r) = total_metric r"
  "eigrp_topology_route_external (erase r) = eigrp_topology_route_external r"
  by (simp_all add: erase_def eigrp_topology_route_external_def)

lemma erase_flags [simp]: "erase (set_flags f r) = erase r" "erase (clear_flags f r) = erase r"
  by (simp_all add: erase_def set_flags_def clear_flags_def)

lemma alike_refl [simp]: "alike pd pd"
  by (simp add: alike_def)

lemma alike_trans: "alike pd pd' \<Longrightarrow> alike pd' pd'' \<Longrightarrow> alike pd pd''"
  by (auto simp: alike_def intro: same_but_queues_trans)

lemma alike_maps:
  assumes "alike pd pd'" and "\<And>r. f (erase r) = f r"
  shows "map f (internal_routes pd') = map f (internal_routes pd)" "map f (external_routes pd') = map f (external_routes pd)"
    "map f (eigrp_topology_routes pd') = map f (eigrp_topology_routes pd)"
proof -
  have "map f xs = map f (map erase xs)" for xs using assms(2) by simp
  then show i: "map f (internal_routes pd') = map f (internal_routes pd)" "map f (external_routes pd') = map f (external_routes pd)"
    using assms(1) unfolding alike_def by metis+
  then show "map f (eigrp_topology_routes pd') = map f (eigrp_topology_routes pd)" by (simp add: eigrp_topology_routes_def)
qed

lemma list_all_map_eq: "map f xs = map f ys \<Longrightarrow> (\<And>x. P x = Q (f x)) \<Longrightarrow> list_all P xs = list_all P ys"
proof -
  assume a: "map f xs = map f ys" "\<And>x. P x = Q (f x)"
  have "list_all P xs = list_all Q (map f xs)" for xs by (induction xs) (simp_all add: a(2))
  then show ?thesis using a(1) by metis
qed

lemma alike_queues_ok:
  assumes "alike pd pd'"
  shows "queues_ok pd' = queues_ok pd"
proof -
  note m = alike_maps [OF assms]
  have "list_all (\<lambda>r. \<not> eigrp_topology_route_external r) (internal_routes pd') = list_all (\<lambda>r. \<not> eigrp_topology_route_external r) (internal_routes pd)"
    "list_all eigrp_topology_route_external (external_routes pd') = list_all eigrp_topology_route_external (external_routes pd)"
    using m(1,2) [of eigrp_topology_route_external]
      list_all_map_eq [of eigrp_topology_route_external "internal_routes pd'" "internal_routes pd" "\<lambda>r. \<not> eigrp_topology_route_external r" Not]
      list_all_map_eq [of eigrp_topology_route_external "external_routes pd'" "external_routes pd" eigrp_topology_route_external "\<lambda>b. b"]
    by simp_all
  then show ?thesis using m [of distance] m [of rid] by (simp add: queues_ok_def)
qed

lemma find_erase:
  assumes "map erase xs = map erase ys" and "\<And>r. P (erase r) = P r"
  shows "map_option erase (find P xs) = map_option erase (find P ys)"
proof -
  have "map_option erase (find P xs) = find P (map erase xs)" for xs by (induction xs) (auto simp: assms(2))
  then show ?thesis using assms(1) by metis
qed

lemma alike_routes: "alike pd pd' \<Longrightarrow> map erase (eigrp_topology_routes pd') = map erase (eigrp_topology_routes pd)"
  by (simp add: alike_def eigrp_topology_routes_def)

lemma alike_select:
  assumes "alike pd pd'"
  shows "map_option erase (eigrp_topology_route_select pd') = map_option erase (eigrp_topology_route_select pd)"
proof -
  have "fdistance pd' = fdistance pd" using assms by (simp add: alike_def same_but_queuesD)
  then show ?thesis
    using find_erase [OF alike_routes [OF assms]] by (simp add: eigrp_topology_route_select_def)
qed

lemma mark_loop_erase: "map erase (mark_loop t pd k n rs) = map erase rs"
  by (induction rs arbitrary: n) auto

lemma map_erase_clear [simp]: "map (erase \<circ> clear_flags f) rs = map erase rs"
  by simp

lemma alike_pd_map: "(\<And>r. erase (f r) = erase r) \<Longrightarrow> alike pd (pd_map f pd)"
  by (auto simp: alike_def) (auto simp: pd_map_def)

lemma node_flags_alike: "alike pd (eigrp_topology_update_node_flags t pd)"
proof -
  have c: "alike pd (pd_map (clear_flags f) pd)" for f by (rule alike_pd_map) simp
  have m: "alike pd' (pd'\<lparr>external_routes := mark_loop t pd k n (external_routes pd')\<rparr>)"
    "alike pd' (pd'\<lparr>internal_routes := mark_loop t pd k n (internal_routes pd')\<rparr>)" for pd' k n
    by (simp_all add: alike_def mark_loop_erase)
  show ?thesis
    unfolding eigrp_topology_update_node_flags_def Let_def
    using c alike_trans [OF c m(1)] alike_trans [OF c m(2)] by (auto split: option.split)
qed

lemma routing_table_alike:
  assumes "eigrp_update_routing_table t pd = Some (t', pd')"
  shows "alike pd pd'" "t' = t\<lparr>rib_calls := rib_calls t'\<rparr>"
proof -
  have c: "alike pd (pd_map (clear_flags f) pd)" for f pd by (rule alike_pd_map) simp
  have m: "alike pd (pd_map (\<lambda>r. if P r then set_flags f r else r) pd)" for P f pd by (rule alike_pd_map) simp
  show "alike pd pd'"
    using assms alike_trans [OF c c] alike_trans [OF c m]
    by (auto simp: eigrp_update_routing_table_def Let_def split: option.splits)
  show "t' = t\<lparr>rib_calls := rib_calls t'\<rparr>"
    using assms
    by (auto simp: eigrp_update_routing_table_def Let_def eigrp_rib_route_del_def eigrp_rib_route_add_def
        split: option.splits if_splits)
qed

end
