(* ===== verification/Eigrp_Paths.thy ===== *)
theory Eigrp_Paths
  imports Eigrp_Topology
begin

text \<open>
  Correctness of path selection: what \<^verbatim>\<open>eigrp_topology_route_select\<close> returns, how updates keep the queues in
  order, which routes become successors, and what reaches the host RIB.
\<close>

subsection \<open>Selection\<close>

definition feasible :: "eigrp_prefix_descriptor \<Rightarrow> eigrp_route_descriptor \<Rightarrow> bool" where
  "feasible pd r \<longleftrightarrow> distance r \<noteq> EIGRP_MAX_METRIC \<and> reported_distance r < fdistance pd"

lemma route_select_find: "eigrp_topology_route_select pd = find (feasible pd) (internal_routes pd @ external_routes pd)"
  unfolding eigrp_topology_route_select_def feasible_def eigrp_topology_routes_def by (simp add: not_le)

text \<open>Reading the first reachable route: \<open>None\<close> only for a destination without routes.\<close>

lemma route_read_none: "eigrp_topology_route_read pd = None \<longleftrightarrow> eigrp_topology_routes pd = []"
  by (auto simp: eigrp_topology_route_read_def split: option.splits list.splits)

lemma route_read_mem: "eigrp_topology_route_read pd = Some r \<Longrightarrow> r \<in> set (eigrp_topology_routes pd)"
  by (auto simp: eigrp_topology_route_read_def split: option.splits list.splits dest: find_Some_set)

lemma route_select_mem: "eigrp_topology_route_select pd = Some r \<Longrightarrow> r \<in> set (eigrp_topology_routes pd) \<and> feasible pd r"
  unfolding route_select_find eigrp_topology_routes_def using find_Some_set by fastforce

text \<open>
  C4: Path selection is DUAL's: with the queues in order, \<^verbatim>\<open>eigrp_topology_route_select\<close> returns a stored route
  that is reachable and satisfies the feasibility condition (its reported distance is below the feasible distance),
  an external one only if no internal route does, and no feasible route of its class is closer; it returns NULL
  exactly when no route is feasible.
\<close>

theorem route_select_best:
  assumes "queues_ok pd"
  shows "case eigrp_topology_route_select pd of
      Some r \<Rightarrow> r \<in> set (eigrp_topology_routes pd) \<and> feasible pd r
        \<and> (eigrp_topology_route_external r \<longrightarrow> (\<forall>q\<in>set (internal_routes pd). \<not> feasible pd q))
        \<and> (\<forall>q\<in>set (eigrp_topology_route_class_queue pd r). feasible pd q \<longrightarrow> distance r \<le> distance q)
    | None \<Rightarrow> (\<forall>q\<in>set (eigrp_topology_routes pd). \<not> feasible pd q)"
proof (cases "find (feasible pd) (internal_routes pd)")
  case None
  then have i: "\<forall>q\<in>set (internal_routes pd). \<not> feasible pd q" by (auto simp: find_None_set)
  show ?thesis
  proof (cases "find (feasible pd) (external_routes pd)")
    case none: None
    then have "\<forall>q\<in>set (external_routes pd). \<not> feasible pd q" by (auto simp: find_None_set)
    then show ?thesis using None none i by (auto simp: route_select_find find_append eigrp_topology_routes_def)
  next
    case (Some r)
    then have "r \<in> set (external_routes pd)" "feasible pd r" using find_Some_set by fastforce+
    then show ?thesis using assms None Some i find_sorted_least [OF Some, of distance]
      by (auto simp: route_select_find find_append queues_ok_def list_all_iff eigrp_topology_routes_def
          eigrp_topology_route_class_queue_def)
  qed
next
  case (Some r)
  then have "r \<in> set (internal_routes pd)" "feasible pd r" using find_Some_set by fastforce+
  then show ?thesis using assms Some find_sorted_least [OF Some, of distance]
    by (auto simp: route_select_find find_append queues_ok_def list_all_iff eigrp_topology_routes_def
        eigrp_topology_route_class_queue_def)
qed

definition sample_route :: "nat \<Rightarrow> u16 \<Rightarrow> u32 \<Rightarrow> u32 \<Rightarrow> eigrp_route_descriptor" where
  "sample_route i ty rd d = \<lparr>rid = i, rt_type = ty, topology_id = 0, dest = zero_prefix, nexthop = zero_addr,
     rt_prefix = None, adv_router = Some i, reported_metric = zero_metrics, reported_distance = rd,
     total_metric = zero_metrics, distance = d, rt_metric = zero_metrics, extdata = zero_extdata,
     rt_flags = 0, rt_ei = Some 1\<rparr>"

definition sample_pd :: eigrp_prefix_descriptor where
  "sample_pd = eigrp_topology_prefix_create\<lparr>internal_routes := [sample_route 1 EIGRP_INT 900 1000, sample_route 2 EIGRP_INT 300 1200],
     external_routes := [sample_route 3 EIGRP_EXT 100 500], fdistance := 800, pd_distance := 1200, rdistance := 1200\<rparr>"

lemmas sample_pd_defs = sample_pd_def sample_route_def eigrp_topology_prefix_create_def

lemma sample_pd_ok: "queues_ok sample_pd"
  by (simp add: sample_pd_defs queues_ok_def eigrp_topology_routes_def eigrp_topology_route_external_def route_type_consts)

theorem route_select_best_witness:
  "eigrp_topology_route_select sample_pd = Some (sample_route 2 EIGRP_INT 300 1200) \<and> feasible sample_pd (sample_route 2 EIGRP_INT 300 1200)"
proof -
  have "eigrp_topology_route_select sample_pd = Some (sample_route 2 EIGRP_INT 300 1200)"
    by (simp add: sample_pd_defs eigrp_topology_route_select_def eigrp_topology_routes_def EIGRP_MAX_METRIC_def)
  then show ?thesis using route_select_best [OF sample_pd_ok] by simp
qed

subsection \<open>Sorting a queue again\<close>

lemma resort_pass_unchanged: "\<not> fst (resort_pass rs) \<Longrightarrow> snd (resort_pass rs) = rs \<and> sorted (map distance rs)"
proof (induction rs rule: resort_pass.induct)
  case (1 a b rs)
  then show ?case by (cases "distance a \<le> distance b") (auto split: prod.splits)
qed auto

lemma resort_correct:
  "sorted (map distance (eigrp_topology_route_queue_resort rs)) \<and> mset (eigrp_topology_route_queue_resort rs) = mset rs"
proof (induction rs rule: eigrp_topology_route_queue_resort.induct)
  case (1 rs)
  show ?case
  proof (cases "fst (resort_pass rs)")
    case True
    then show ?thesis using 1 [OF refl True] resort_pass_mset [of rs]
      by (subst (1 2) eigrp_topology_route_queue_resort.simps) (simp add: Let_def)
  next
    case False
    then show ?thesis using resort_pass_unchanged [of rs]
      by (subst (1 2) eigrp_topology_route_queue_resort.simps) (simp add: Let_def)
  qed
qed

text \<open>
  C35: The exchange sort of a route queue terminates for every queue and returns the same routes in order of distance.
\<close>

theorem queue_resort_sorts:
  "sorted (map distance (eigrp_topology_route_queue_resort rs)) \<and> mset (eigrp_topology_route_queue_resort rs) = mset rs"
  by (rule resort_correct)

text \<open>
  Processing a received metric keeps a destination in order.  After \<^verbatim>\<open>eigrp_topology_update_distance\<close> both
  queues are sorted by distance, each route is stored once and in the queue of its class, also when the route changed
  class or could not be stored again; nothing else of the destination and nothing but prefix counters of the instance
  changes; and with memory available the message's route is stored when the call returns.
\<close>

theorem update_distance_keeps_order:
  assumes "queues_ok pd" and "msg_consistent pd msg" and "data_type msg \<noteq> EIGRP_CONNECTED"
    and "eigrp_topology_update_distance t pd msg = Some (ch, t', pd', msg')"
  shows "queues_ok pd' \<and> same_but_queues pd pd' \<and> same_but_counts t t'
     \<and> (alloc_ok t Alloc_queue_item \<and> \<not> transient_route msg
        \<longrightarrow> (\<exists>r\<in>set (eigrp_topology_routes pd'). msg_route msg' = Some r))"
proof -
  obtain r' where r': "msg_route msg' = Some r'" using update_distance_frame(7) [OF assms(4)] by auto
  show ?thesis
    using update_distance_queues_ok [OF queues_ok_forI assms(2-4)] assms(1) update_distance_frame(1,2) [OF assms(4)]
      update_distance_stored(1) [OF assms(4) _ _ assms(3) r'] r' by auto
qed

definition sample_metric :: eigrp_metrics where
  "sample_metric = \<lparr>delay = 256, bandwidth = 256, mtu = [0, 5, 220], hop_count = 1, reliability = 255, load = 1,
     metric_tag = 0, metric_flags = 0\<rparr>"

definition sample_topo :: eigrp_topo where
  "sample_topo = \<lparr>inst = sample_instance, neighbor_self = Some 0,
     nbrs = (\<lambda>_. \<lparr>nbr_ei = Some 1, nbr_src = zero_addr, nbr_state = EIGRP_NEIGHBOR_UP, limit_prefix_count = 0,
                  limit_prefix_count_valid = False\<rparr>),
     intfs = (\<lambda>_. sample_intf), eiflist = [(1, [1, 2, 3])], topology_changes = [], redist_prefix_count = 0,
     distance_internal = 90, distance_external = 170, active_time = 180, work_open = True, work_queue = [], rib_calls = [],
     rib_accepts = True, alloc_ok = (\<lambda>_. True)\<rparr>"

definition sample_msg :: "u8 \<Rightarrow> nat \<Rightarrow> eigrp_fsm_action_message" where
  "sample_msg opc i = \<lparr>packet_type = opc, msg_adv_router = Some i, msg_route = find (\<lambda>r. rid r = i) (eigrp_topology_routes sample_pd),
     data_type = EIGRP_INT, metrics = sample_metric, change = METRIC_SAME, transient_route = False\<rparr>"

theorem update_distance_keeps_order_witness:
  "\<exists>ch t' pd' msg'. eigrp_topology_update_distance sample_topo sample_pd (sample_msg EIGRP_OPC_UPDATE 2) = Some (ch, t', pd', msg')
     \<and> queues_ok pd'"
proof -
  have "eigrp_topology_update_distance sample_topo sample_pd (sample_msg EIGRP_OPC_UPDATE 2) \<noteq> None" by code_simp
  then obtain ch t' pd' msg' where u: "eigrp_topology_update_distance sample_topo sample_pd (sample_msg EIGRP_OPC_UPDATE 2) = Some (ch, t', pd', msg')"
    by (metis option.exhaust prod.exhaust)
  have "data_type (sample_msg EIGRP_OPC_UPDATE 2) \<noteq> EIGRP_CONNECTED" by (simp add: sample_msg_def route_type_consts)
  moreover have "msg_consistent sample_pd (sample_msg EIGRP_OPC_UPDATE 2)"
    by (simp add: msg_consistent_def sample_msg_def sample_pd_defs eigrp_topology_routes_def)
  ultimately show ?thesis using update_distance_keeps_order [OF sample_pd_ok _ _ u] u by auto
qed

subsection \<open>Successors\<close>

lemma flag_bits:
  "has_flag SUCCESSOR_FLAG r = bit (rt_flags r) 0" "has_flag FSUCCESSOR_FLAG r = bit (rt_flags r) 1"
  "has_flag INTABLE_FLAG r = bit (rt_flags r) 2"
  using and_exp_eq_0_iff_not_bit [of "rt_flags r" 0] and_exp_eq_0_iff_not_bit [of "rt_flags r" 1]
    and_exp_eq_0_iff_not_bit [of "rt_flags r" 2] by (simp_all add: has_flag_def flag_consts)

lemma flag_algebra:
  "has_flag SUCCESSOR_FLAG (set_flags SUCCESSOR_FLAG r)" "has_flag FSUCCESSOR_FLAG (set_flags FSUCCESSOR_FLAG r)"
  "has_flag INTABLE_FLAG (set_flags INTABLE_FLAG r)"
  "has_flag FSUCCESSOR_FLAG (set_flags SUCCESSOR_FLAG r) = has_flag FSUCCESSOR_FLAG r"
  "has_flag SUCCESSOR_FLAG (set_flags FSUCCESSOR_FLAG r) = has_flag SUCCESSOR_FLAG r"
  "has_flag SUCCESSOR_FLAG (set_flags INTABLE_FLAG r) = has_flag SUCCESSOR_FLAG r"
  "\<not> has_flag SUCCESSOR_FLAG (clear_flags (SUCCESSOR_FLAG OR FSUCCESSOR_FLAG) r)"
  "\<not> has_flag FSUCCESSOR_FLAG (clear_flags (SUCCESSOR_FLAG OR FSUCCESSOR_FLAG) r)"
  "\<not> has_flag INTABLE_FLAG (clear_flags INTABLE_FLAG r)"
  "has_flag SUCCESSOR_FLAG (clear_flags INTABLE_FLAG r) = has_flag SUCCESSOR_FLAG r"
  unfolding flag_bits by (simp_all add: set_flags_def clear_flags_def flag_consts bit_or_iff bit_and_iff bit_not_iff)
lemma set_flags_fields [simp]:
  "reported_distance (set_flags f r) = reported_distance r" "distance (set_flags f r) = distance r" "rid (set_flags f r) = rid r"
  "reported_distance (clear_flags f r) = reported_distance r" "distance (clear_flags f r) = distance r" "rid (clear_flags f r) = rid r"
  "eigrp_topology_route_external (set_flags f r) = eigrp_topology_route_external r"
  "eigrp_topology_route_external (clear_flags f r) = eigrp_topology_route_external r"
  by (simp_all add: set_flags_def clear_flags_def eigrp_topology_route_external_def)

lemma within_variance_flags [simp]:
  "within_variance t pd (set_flags f r) = within_variance t pd r" "within_variance t pd (clear_flags f r) = within_variance t pd r"
  by (simp_all add: within_variance_def)

text \<open>The marking loop on routes without marks.\<close>

definition unmarked :: "eigrp_route_descriptor \<Rightarrow> bool" where
  "unmarked r \<longleftrightarrow> \<not> has_flag SUCCESSOR_FLAG r \<and> \<not> has_flag FSUCCESSOR_FLAG r"

lemma mark_loop_marks:
  assumes "\<forall>r\<in>set rs. unmarked r" and "x \<in> set (mark_loop t pd k n rs)"
  shows "has_flag SUCCESSOR_FLAG x \<longrightarrow> reported_distance x < fdistance pd \<and> within_variance t pd x"
    and "has_flag FSUCCESSOR_FLAG x \<longrightarrow> reported_distance x < fdistance pd \<and> \<not> has_flag SUCCESSOR_FLAG x"
    and "reported_distance x < fdistance pd \<longrightarrow> has_flag SUCCESSOR_FLAG x \<or> has_flag FSUCCESSOR_FLAG x"
  using assms by (induction rs arbitrary: n) (auto simp: unmarked_def flag_algebra split: if_splits)

text \<open>The selected class is marked by the loop, the other one is cleared.\<close>

lemma node_flags_cases:
  fixes t pd
  defines "m \<equiv> map (clear_flags (SUCCESSOR_FLAG OR FSUCCESSOR_FLAG))"
  shows "eigrp_topology_routes (eigrp_topology_update_node_flags t pd) =
     (case eigrp_topology_route_select pd of
        None \<Rightarrow> m (internal_routes pd) @ m (external_routes pd)
      | Some b \<Rightarrow>
          if eigrp_topology_route_external b
          then m (internal_routes pd) @ mark_loop t pd (paths_limit t) 0 (m (external_routes pd))
          else mark_loop t pd (paths_limit t) 0 (m (internal_routes pd)) @ m (external_routes pd))"
  by (simp add: eigrp_topology_update_node_flags_def eigrp_topology_routes_def pd_map_def m_def Let_def split: option.split)

lemma unmarked_clear: "\<forall>r\<in>set (map (clear_flags (SUCCESSOR_FLAG OR FSUCCESSOR_FLAG)) rs). unmarked r"
  by (simp add: unmarked_def flag_algebra)

lemma mark_loop_class:
  assumes "x \<in> set (mark_loop t pd k n rs)"
  shows "\<exists>r\<in>set rs. rid x = rid r \<and> eigrp_topology_route_external x = eigrp_topology_route_external r"
  using assms by (induction rs arbitrary: n) (auto split: if_splits)

lemma mark_loop_successors:
  assumes "\<forall>r\<in>set rs. unmarked r"
  shows "map rid (filter (has_flag SUCCESSOR_FLAG) (mark_loop t pd k n rs))
    = map rid (take (k - n) (filter (\<lambda>r. reported_distance r < fdistance pd \<and> within_variance t pd r) rs))"
  using assms
proof (induction rs arbitrary: n)
  case (Cons r rs)
  have "k - n = Suc (k - Suc n)" if "n < k" using that by simp
  then show ?case using Cons by (auto simp: unmarked_def flag_algebra)
qed simp

lemma mark_loop_rids: "map rid (mark_loop t pd k n rs) = map rid rs"
  by (induction rs arbitrary: n) auto

definition marked_class :: "eigrp_prefix_descriptor \<Rightarrow> eigrp_route_descriptor list" where
  "marked_class pd = (case eigrp_topology_route_select pd of None \<Rightarrow> []
     | Some b \<Rightarrow> filter (\<lambda>r. eigrp_topology_route_external r = eigrp_topology_route_external b) (eigrp_topology_routes pd))"

lemma marked_class_queue:
  assumes "queues_ok pd" and "eigrp_topology_route_select pd = Some b"
  shows "marked_class pd = (if eigrp_topology_route_external b then external_routes pd else internal_routes pd)"
proof -
  have "filter (\<lambda>r. eigrp_topology_route_external r = True) (internal_routes pd) = []" "filter (\<lambda>r. eigrp_topology_route_external r = True) (external_routes pd) = external_routes pd"
    "filter (\<lambda>r. eigrp_topology_route_external r = False) (internal_routes pd) = internal_routes pd" "filter (\<lambda>r. eigrp_topology_route_external r = False) (external_routes pd) = []"
    using assms(1) by (auto simp: queues_ok_def list_all_iff filter_empty_conv filter_id_conv)
  then show ?thesis using assms(2) by (cases "eigrp_topology_route_external b") (simp_all add: marked_class_def eigrp_topology_routes_def)
qed

lemma node_flags_rids: "map rid (eigrp_topology_routes (eigrp_topology_update_node_flags t pd)) = map rid (eigrp_topology_routes pd)"
  unfolding node_flags_cases by (simp add: mark_loop_rids comp_def eigrp_topology_routes_def split: option.split)

lemma filter_clear: "map rid (filter P (map (clear_flags f) rs)) = map rid (filter P rs)" if "\<And>r. P (clear_flags f r) = P r" for P f rs
  using that by (induction rs) auto

lemma node_flags_successors:
  assumes "queues_ok pd"
  shows "map rid (filter (has_flag SUCCESSOR_FLAG) (eigrp_topology_routes (eigrp_topology_update_node_flags t pd)))
    = map rid (take (paths_limit t) (filter (\<lambda>r. reported_distance r < fdistance pd \<and> within_variance t pd r) (marked_class pd)))"
proof -
  let ?m = "map (clear_flags (SUCCESSOR_FLAG OR FSUCCESSOR_FLAG))" and ?P = "\<lambda>r. reported_distance r < fdistance pd \<and> within_variance t pd r"
  have n: "filter (has_flag SUCCESSOR_FLAG) (?m xs) = []" for xs by (simp add: filter_empty_conv flag_algebra)
  have c: "map rid (filter ?P (?m xs)) = map rid (filter ?P xs)" for xs by (rule filter_clear) simp
  show ?thesis
  proof (cases "eigrp_topology_route_select pd")
    case None
    then show ?thesis using n by (simp add: node_flags_cases marked_class_def)
  next
    case (Some b)
    then show ?thesis
      using mark_loop_successors [OF unmarked_clear, of t pd "paths_limit t" 0] n c
      by (simp add: node_flags_cases marked_class_queue [OF assms Some] take_map [symmetric])
  qed
qed

lemma node_flags_feasible:
  assumes q: "queues_ok pd" and x: "x \<in> set (eigrp_topology_routes (eigrp_topology_update_node_flags t pd))"
  shows "has_flag FSUCCESSOR_FLAG x \<longleftrightarrow> (\<exists>b. eigrp_topology_route_select pd = Some b \<and> eigrp_topology_route_external x = eigrp_topology_route_external b)
    \<and> reported_distance x < fdistance pd \<and> \<not> has_flag SUCCESSOR_FLAG x"
proof -
  let ?m = "map (clear_flags (SUCCESSOR_FLAG OR FSUCCESSOR_FLAG))"
  have c: "\<not> has_flag SUCCESSOR_FLAG y \<and> \<not> has_flag FSUCCESSOR_FLAG y" if "y \<in> set (?m xs)" for y xs
    using that by (auto simp: flag_algebra)
  have l: "has_flag FSUCCESSOR_FLAG y \<longleftrightarrow> reported_distance y < fdistance pd \<and> \<not> has_flag SUCCESSOR_FLAG y"
    if "y \<in> set (mark_loop t pd k n (?m xs))" for y k n xs
    using mark_loop_marks(2,3) [OF unmarked_clear that] by blast
  have e: "eigrp_topology_route_external y = eigrp_topology_route_external r"
    if "y \<in> set (mark_loop t pd k n (?m (if eigrp_topology_route_external r then external_routes pd else internal_routes pd)))" for y k n r
    using mark_loop_class [OF that] q by (auto simp: queues_ok_def list_all_iff split: if_splits)
  have i: "\<not> eigrp_topology_route_external y" if "y \<in> set (?m (internal_routes pd))" for y using that q by (auto simp: queues_ok_def list_all_iff)
  have o: "eigrp_topology_route_external y" if "y \<in> set (?m (external_routes pd))" for y using that q by (auto simp: queues_ok_def list_all_iff)
  show ?thesis
  proof (cases "eigrp_topology_route_select pd")
    case None
    then show ?thesis using x c by (auto simp: node_flags_cases)
  next
    case (Some b)
    show ?thesis
    proof (cases "eigrp_topology_route_external b")
      case True
      then have "x \<in> set (?m (internal_routes pd)) \<or> x \<in> set (mark_loop t pd (paths_limit t) 0 (?m (external_routes pd)))"
        using x Some by (simp add: node_flags_cases)
      then show ?thesis using l [of x] c [of x "internal_routes pd"] i [of x] e [of x "paths_limit t" 0 b] Some True by (auto simp only: if_True)
    next
      case False
      then have "x \<in> set (?m (external_routes pd)) \<or> x \<in> set (mark_loop t pd (paths_limit t) 0 (?m (internal_routes pd)))"
        using x Some by (auto simp: node_flags_cases)
      then show ?thesis using l [of x] c [of x "external_routes pd"] o [of x] e [of x "paths_limit t" 0 b] Some False by (auto simp only: if_False)
    qed
  qed
qed

text \<open>
  C24: The flags are those DUAL defines.  \<^verbatim>\<open>eigrp_topology_update_node_flags\<close> keeps the routes and their order.  The
  successors are, in the order of the queue, the first \<^verbatim>\<open>max_paths\<close> (4 when unset) of the routes that are of the class of the selected
  route, satisfy the feasibility condition and have a distance within the variance: those and no others.  The feasible
  successors are exactly the other routes of that class that satisfy the feasibility condition.  With no selected route nothing is flagged.
\<close>

theorem node_flags_correct:
  assumes "queues_ok pd" and "rs = eigrp_topology_routes (eigrp_topology_update_node_flags t pd)"
  shows "map rid rs = map rid (eigrp_topology_routes pd)
     \<and> map rid (filter (has_flag SUCCESSOR_FLAG) rs)
         = map rid (take (paths_limit t) (filter (\<lambda>r. reported_distance r < fdistance pd \<and> within_variance t pd r)
             (case eigrp_topology_route_select pd of
                None \<Rightarrow> []
              | Some b \<Rightarrow> filter (\<lambda>r. eigrp_topology_route_external r = eigrp_topology_route_external b) (eigrp_topology_routes pd))))
     \<and> (\<forall>r\<in>set rs. has_flag FSUCCESSOR_FLAG r \<longleftrightarrow>
          (\<exists>b. eigrp_topology_route_select pd = Some b \<and> eigrp_topology_route_external r = eigrp_topology_route_external b)
          \<and> reported_distance r < fdistance pd \<and> \<not> has_flag SUCCESSOR_FLAG r)"
  using node_flags_rids node_flags_successors [OF assms(1), unfolded marked_class_def] node_flags_feasible [OF assms(1)] unfolding assms(2) by blast

theorem node_flags_correct_witness:
  "map rid (filter (has_flag SUCCESSOR_FLAG) (eigrp_topology_routes (eigrp_topology_update_node_flags sample_topo sample_pd))) = [2]"
proof -
  have "map rid (take (paths_limit sample_topo) (filter (\<lambda>r. reported_distance r < fdistance sample_pd \<and> within_variance sample_topo sample_pd r)
             (case eigrp_topology_route_select sample_pd of
                None \<Rightarrow> []
              | Some b \<Rightarrow> filter (\<lambda>r. eigrp_topology_route_external r = eigrp_topology_route_external b) (eigrp_topology_routes sample_pd)))) = [2]"
    by code_simp
  then show ?thesis using node_flags_correct [OF sample_pd_ok refl, of sample_topo] by simp
qed

subsection \<open>What reaches the host RIB\<close>

definition memory_ok :: "eigrp_topo \<Rightarrow> bool" where
  "memory_ok t \<longleftrightarrow> (\<forall>s. alloc_ok t s)"

lemma trim_take: "trim_successors k s = take k s"
proof (induction k s rule: trim_successors.induct)
  case (1 k s)
  show ?case
  proof (cases "k < length s")
    case True
    have "take k (butlast s) = take k s" using True by (simp add: take_butlast)
    then show ?thesis using 1 [OF True] True trim_successors.simps [of k s] by simp
  qed (simp add: trim_successors.simps)
qed

definition successors :: "eigrp_prefix_descriptor \<Rightarrow> eigrp_route_descriptor list" where
  "successors pd = filter (has_flag SUCCESSOR_FLAG) (eigrp_topology_routes pd)"

lemma successors_max_read:
  assumes "memory_ok t"
  shows "eigrp_topology_successors_max_read t pd k = Some (if successors pd = [] then None else Some (take k (successors pd)))"
  using assms by (simp add: eigrp_topology_successors_max_read_def eigrp_topology_successors_read_def memory_ok_def
      trim_take successors_def Let_def)

lemma rib_route_build_fields [simp]:
  "rib_prefix (rib_route_build t pd s nhs) = destination pd" "rib_metric (rib_route_build t pd s nhs) = ucast (pd_distance pd)"
  "rib_nexthops (rib_route_build t pd s nhs) = nhs"
  by (simp_all add: rib_route_build_def Let_def split: list.split)

lemma pd_map_fields [simp]: "destination (pd_map f pd) = destination pd" "pd_distance (pd_map f pd) = pd_distance pd"
  by (simp_all add: pd_map_def)

lemma successors_clear_empty: "successors (pd_map (clear_flags INTABLE_FLAG) pd) = [] \<longleftrightarrow> successors pd = []"
  by (auto simp: successors_def eigrp_topology_routes_def pd_map_def filter_empty_conv flag_algebra)

text \<open>
  What a next hop of the host's route has to be for a route: the interface, the address of the neighbour the route was learned from (none
  for a local route or a zero address), and the share of the traffic: with balancing, the worst finite distance divided by the
  own one, at least 1.
\<close>

definition hop_gateway :: "eigrp_topo \<Rightarrow> eigrp_route_descriptor \<Rightarrow> eigrp_address option" where
  "hop_gateway t r = (case adv_router r of
     None \<Rightarrow> None
   | Some n \<Rightarrow> (let src = nbr_src (nbrs t n); v4 = take 4 (ip_bytes src); v6 = take 16 (ip_bytes src)
       in if ip_afi src = AF_INET \<and> (\<exists>b\<in>set v4. b \<noteq> 0) then Some \<lparr>addr_afi = EIGRP_AFI_IPV4, addr_bytes = v4 @ replicate 12 0\<rparr>
          else if ip_afi src = AF_INET6 \<and> (\<exists>b\<in>set v6. b \<noteq> 0) then Some \<lparr>addr_afi = EIGRP_AFI_IPV6, addr_bytes = v6\<rparr>
          else None))"

definition worst_distance :: "eigrp_route_descriptor list \<Rightarrow> nat" where
  "worst_distance rs = Max (insert 0 ((\<lambda>r. unat (distance r)) ` {r \<in> set rs. distance r \<noteq> EIGRP_MAX_METRIC}))"

definition hop_weight :: "eigrp_topo \<Rightarrow> nat \<Rightarrow> eigrp_route_descriptor \<Rightarrow> nat" where
  "hop_weight t worst r = (if traffic_share_balanced (inst t) \<and> worst \<noteq> 0 \<and> distance r \<noteq> 0 \<and> distance r \<noteq> EIGRP_MAX_METRIC
     then max 1 (worst div unat (distance r)) else 0)"

definition hop_of :: "eigrp_topo \<Rightarrow> nat \<Rightarrow> eigrp_route_descriptor \<Rightarrow> eigrp_rib_nexthop \<Rightarrow> bool" where
  "hop_of t worst r nh \<longleftrightarrow> (\<exists>i. rt_ei r = Some i \<and> nh_ifindex nh = intf_ifindex (intfs t i))
     \<and> (case hop_gateway t r of None \<Rightarrow> \<not> gateway_present nh | Some a \<Rightarrow> gateway_present nh \<and> gateway nh = a)
     \<and> unat (weight nh) = hop_weight t worst r"

lemma unat_ucast_32_64: "unat (ucast (x :: u32) :: u64) = unat x"
  using unsigned_less [of x, where ?'a = nat] by (simp add: unsigned_ucast_eq take_bit_eq_mod)

lemma Max_insert_pair: "finite A \<Longrightarrow> Max (insert a (insert b A)) = Max (insert (max a b) A)" for a b :: nat
  by (cases "A = {}") (simp_all add: max.assoc)

lemma largest_metric_worst:
  "unat (largest_metric rs) = worst_distance rs"
proof -
  let ?g = "\<lambda>m r. if distance r \<noteq> EIGRP_MAX_METRIC \<and> m < ucast (distance r) then ucast (distance r) else (m :: u64)"
  have u: "unat (ucast (distance r) :: u64) = unat (distance r)" for r by (rule unat_ucast_32_64)
  have f: "unat (foldl ?g m rs) = Max (insert (unat m) ((\<lambda>r. unat (distance r)) ` {r \<in> set rs. distance r \<noteq> EIGRP_MAX_METRIC}))" for m
  proof (induction rs arbitrary: m)
    case (Cons r rs)
    let ?F = "\<lambda>xs. (\<lambda>r. unat (distance r)) ` {r \<in> set xs. distance r \<noteq> EIGRP_MAX_METRIC}"
    have fin: "finite (?F rs)" by simp
    show ?case
    proof (cases "distance r = EIGRP_MAX_METRIC")
      case True
      then have "?F (r # rs) = ?F rs" by auto
      then show ?thesis using Cons True by simp
    next
      case False
      then have s: "?F (r # rs) = insert (unat (distance r)) (?F rs)" by auto
      have "Max (insert a (insert b (?F rs))) = Max (insert (max a b) (?F rs))" for a b :: nat
        using fin by (rule Max_insert_pair)
      moreover have "unat (?g m r) = max (unat m) (unat (distance r))" using False by (auto simp: word_less_nat_alt u max_def)
      ultimately show ?thesis using Cons [of "?g m r"] unfolding s by simp
    qed
  qed simp
  show ?thesis using f [of 0] by (simp add: largest_metric_def worst_distance_def)
qed

lemma southbound_exact:
  assumes "\<not> traffic_share_balanced (inst t) \<or> unat l = worst"
  shows "list_all2 (hop_of t worst) (take c (filter (\<lambda>r. rt_ei r \<noteq> None) rs)) (southbound_loop t l c rs)"
proof (induction rs arbitrary: c)
  case (Cons r rs)
  show ?case
  proof (cases "rt_ei r")
    case None
    then show ?thesis using Cons by (cases c) (auto simp: eigrp_topology_southbound_nexthop_def)
  next
    case (Some i)
    have h: "\<exists>x. eigrp_topology_southbound_nexthop t r = Some x \<and> weight x = 0 \<and> nh_ifindex x = intf_ifindex (intfs t i)
        \<and> (case hop_gateway t r of None \<Rightarrow> \<not> gateway_present x | Some a \<Rightarrow> gateway_present x \<and> gateway x = a)"
      using Some by (auto simp: eigrp_topology_southbound_nexthop_def hop_gateway_def ip_zero_def list_all_iff Let_def split: option.split)
    then obtain x where x: "eigrp_topology_southbound_nexthop t r = Some x" "weight x = 0" "nh_ifindex x = intf_ifindex (intfs t i)"
      "case hop_gateway t r of None \<Rightarrow> \<not> gateway_present x | Some a \<Rightarrow> gateway_present x \<and> gateway x = a" by blast
    have u: "unat (ucast (distance r) :: u64) = unat (distance r)" by (rule unat_ucast_32_64)
    have w: "unat (weight (nexthop_weight t l r x)) = hop_weight t worst r"
    proof (cases "traffic_share_balanced (inst t)")
      case True
      then have l: "unat l = worst" using assms by simp
      then have z: "l = 0 \<longleftrightarrow> worst = 0" by (metis unat_eq_zero)
      have "unat (l div ucast (distance r)) = worst div unat (distance r)" using l u by (simp add: unat_div)
      moreover from this have "l div ucast (distance r) = 0 \<longleftrightarrow> worst div unat (distance r) = 0" by (metis unat_eq_zero)
      ultimately show ?thesis using x(2) z True by (auto simp: nexthop_weight_def hop_weight_def Let_def max_def)
    qed (simp add: nexthop_weight_def hop_weight_def x(2))
    have "hop_of t worst r (nexthop_weight t l r x)"
      using x w Some by (auto simp: hop_of_def nexthop_weight_def Let_def split: option.splits)
    then show ?thesis using Cons [of "c - 1"] x(1) Some by (cases c) auto
  qed
qed simp

lemma hop_of_clear [simp]: "hop_of t w (clear_flags f r) = hop_of t w r"
  by (rule ext) (simp add: hop_of_def hop_gateway_def hop_weight_def clear_flags_def)

lemma successors_clear: "successors (pd_map (clear_flags INTABLE_FLAG) pd) = map (clear_flags INTABLE_FLAG) (successors pd)"
  by (simp add: successors_def eigrp_topology_routes_def pd_map_def filter_map comp_def flag_algebra)

lemma worst_clear: "worst_distance (map (clear_flags f) rs) = worst_distance rs"
proof -
  have "{r \<in> set (map (clear_flags f) rs). distance r \<noteq> EIGRP_MAX_METRIC} = clear_flags f ` {r \<in> set rs. distance r \<noteq> EIGRP_MAX_METRIC}" by auto
  then show ?thesis unfolding worst_distance_def by (simp only: image_image set_flags_fields)
qed

text \<open>
  C25: The host RIB is told exactly the successor set.  With memory available \<^verbatim>\<open>eigrp_update_routing_table\<close> returns.
  A destination without successors is withdrawn by one RIB call.  Otherwise the first \<^verbatim>\<open>max_paths\<close> successors are installed: when any of
  them has an interface, the RIB gets one route, for this destination and with its distance, whose type, administrative
  distance and tag are those of the first successor, and whose next hops are, one for one and in order, those of the successors with an
  interface (at most 32): interface, gateway and traffic share of each.  The in-table flag is set on exactly those first successors.
\<close>

theorem routing_table_is_successor_set:
  assumes "memory_ok t" and "S = take (unat (max_paths (inst t))) (successors pd)" and "H = filter (\<lambda>r. rt_ei r \<noteq> None) S"
  shows "\<exists>t' pd'. eigrp_update_routing_table t pd = Some (t', pd')
     \<and> (\<forall>r\<in>set (eigrp_topology_routes pd'). has_flag INTABLE_FLAG r \<longleftrightarrow> rid r \<in> rid ` set S)
     \<and> (if successors pd = [] then rib_calls t' = rib_calls t @ [Rib_route_del (destination pd)]
        else if H = [] then rib_calls t' = rib_calls t
        else \<exists>route. rib_calls t' = rib_calls t @ [Rib_route_add route] \<and> rib_prefix route = destination pd
             \<and> rib_metric route = ucast (pd_distance pd)
             \<and> (if eigrp_topology_route_external (hd S)
                then rib_type route = EIGRP_RIB_ROUTE_EXTERNAL \<and> rib_admin_dist route = ucast (distance_external t)
                     \<and> rib_tag route = ext_tag (extdata (hd S))
                else rib_type route = EIGRP_RIB_ROUTE_INTERNAL \<and> rib_admin_dist route = ucast (distance_internal t) \<and> rib_tag route = 0)
             \<and> list_all2 (hop_of t (worst_distance S)) (take 32 H) (rib_nexthops route))"
proof (cases "successors pd = []")
  case True
  let ?pd = "pd_map (clear_flags INTABLE_FLAG) pd"
  have "eigrp_topology_successors_max_read t ?pd (unat (max_paths (inst t))) = Some None"
    using successors_max_read [OF assms(1)] True successors_clear_empty by simp
  then have "eigrp_update_routing_table t pd = Some (eigrp_rib_route_del t (destination ?pd), pd_map (clear_flags INTABLE_FLAG) ?pd)"
    by (simp add: eigrp_update_routing_table_def Let_def)
  then show ?thesis using True assms(2)
    by (auto simp: eigrp_rib_route_del_def eigrp_topology_routes_def pd_map_def flag_algebra)
next
  case False
  let ?pd = "pd_map (clear_flags INTABLE_FLAG) pd" and ?k = "unat (max_paths (inst t))"
  let ?s = "map (clear_flags INTABLE_FLAG) S"
  let ?pd' = "pd_map (\<lambda>r. if rid r \<in> set (map rid ?s) then set_flags INTABLE_FLAG r else r) ?pd"
  have s: "eigrp_topology_successors_max_read t ?pd ?k = Some (Some ?s)"
    using successors_max_read [OF assms(1)] False by (simp add: successors_clear take_map assms(2))
  let ?nh = "eigrp_topology_southbound_nexthops t ?s EIGRP_MAX_PATHS_MAX"
  define t' where "t' = (if ?nh \<noteq> [] then snd (eigrp_rib_route_add t (rib_route_build t ?pd ?s ?nh)) else t)"
  have e: "eigrp_update_routing_table t pd = Some (t', ?pd')"
    by (simp add: eigrp_update_routing_table_def s Let_def t'_def)
  have "list_all2 (hop_of t (worst_distance S)) (take 32 (filter (\<lambda>r. rt_ei r \<noteq> None) ?s)) ?nh"
    using southbound_exact [of t "if traffic_share_balanced (inst t) then largest_metric ?s else 0" "worst_distance S" 32 ?s]
    by (simp add: eigrp_topology_southbound_nexthops_def largest_metric_worst worst_clear EIGRP_MAX_PATHS_MAX_def)
  moreover have "filter (\<lambda>r. rt_ei r \<noteq> None) ?s = map (clear_flags INTABLE_FLAG) H"
    by (simp add: assms(3) filter_map comp_def clear_flags_def)
  ultimately have nh: "list_all2 (hop_of t (worst_distance S)) (take 32 H) ?nh" by (simp add: take_map list_all2_map1)
  then have "?nh = [] \<longleftrightarrow> H = []" using list_all2_lengthD [OF nh] by auto
  then have t': "rib_calls t' = rib_calls t @ (if H = [] then [] else [Rib_route_add (rib_route_build t ?pd ?s ?nh)])"
    by (simp add: t'_def eigrp_rib_route_add_def)
  have b: "if eigrp_topology_route_external (hd S)
      then rib_type (rib_route_build t ?pd ?s ?nh) = EIGRP_RIB_ROUTE_EXTERNAL \<and> rib_admin_dist (rib_route_build t ?pd ?s ?nh) = ucast (distance_external t)
           \<and> rib_tag (rib_route_build t ?pd ?s ?nh) = ext_tag (extdata (hd S))
      else rib_type (rib_route_build t ?pd ?s ?nh) = EIGRP_RIB_ROUTE_INTERNAL \<and> rib_admin_dist (rib_route_build t ?pd ?s ?nh) = ucast (distance_internal t)
           \<and> rib_tag (rib_route_build t ?pd ?s ?nh) = 0" if "S \<noteq> []"
    using that by (cases S) (auto simp: rib_route_build_def Let_def, simp add: clear_flags_def)
  have "rid ` set ?s = rid ` set S" by (simp add: image_image)
  then have "\<forall>r\<in>set (eigrp_topology_routes ?pd'). has_flag INTABLE_FLAG r \<longleftrightarrow> rid r \<in> rid ` set S"
    by (auto simp: eigrp_topology_routes_def pd_map_def flag_algebra)
  moreover have "S \<noteq> []" if "H \<noteq> []" using that assms(3) by auto
  ultimately show ?thesis using e t' nh False b by auto
qed

theorem routing_table_is_successor_set_witness:
  "\<exists>t' pd' route nh. eigrp_update_routing_table sample_topo (eigrp_topology_update_node_flags sample_topo sample_pd) = Some (t', pd')
     \<and> rib_calls t' = rib_calls sample_topo @ [Rib_route_add route] \<and> rib_nexthops route = [nh] \<and> nh_ifindex nh = intf_ifindex sample_intf"
proof -
  let ?pd = "eigrp_topology_update_node_flags sample_topo sample_pd"
  have m: "memory_ok sample_topo" by (simp add: memory_ok_def sample_topo_def)
  let ?S = "take (unat (max_paths (inst sample_topo))) (successors ?pd)"
  have "map (\<lambda>r. (rid r, rt_ei r)) ?S = [(2, Some 1)]" by code_simp
  then obtain r where r: "?S = [r]" "rt_ei r = Some 1" by (cases ?S) auto
  then have ne: "successors ?pd \<noteq> []" by auto
  obtain t' pd' route where e: "eigrp_update_routing_table sample_topo ?pd = Some (t', pd')" "rib_calls t' = rib_calls sample_topo @ [Rib_route_add route]"
      "list_all2 (hop_of sample_topo (worst_distance ?S)) (take 32 [r]) (rib_nexthops route)"
    using routing_table_is_successor_set [OF m refl refl, of ?pd] r ne by auto
  then obtain nh where "rib_nexthops route = [nh]" "hop_of sample_topo (worst_distance ?S) r nh" by (auto simp: list_all2_Cons1)
  moreover from this(2) have "nh_ifindex nh = intf_ifindex sample_intf" using r(2) by (simp add: hop_of_def sample_topo_def)
  ultimately show ?thesis using e by blast
qed

subsection \<open>Recalculation after a configuration change\<close>

lemma those_map_fields:
  assumes "\<And>x y. f x = Some y \<Longrightarrow> g y = g x" and "those (map f xs) = Some ys"
  shows "map g ys = map g xs"
  using assms(2)
proof (induction xs arbitrary: ys)
  case (Cons x xs)
  then show ?case using assms(1) by (auto split: option.splits)
qed simp

lemma recalculate_neighbor:
  "adv_router r \<noteq> neighbor_self t \<Longrightarrow> route_recalculate t r =
     (let r = r\<lparr>reported_distance := ucast (eigrp_metric_calculate (inst t) (reported_metric r))\<rparr>
      in if rt_ei r \<noteq> None then route_total t r
         else Some (r\<lparr>distance := ucast (eigrp_metric_calculate (inst t) (total_metric r))\<rparr>))"
  by (simp only: route_recalculate_def if_False)

lemma route_recalculate_frame:
  assumes "route_recalculate t r = Some r'"
  shows "rid r' = rid r" "eigrp_topology_route_external r' = eigrp_topology_route_external r"
proof -
  have "rid r' = rid r \<and> rt_type r' = rt_type r"
  proof (cases "adv_router r = neighbor_self t")
    case True
    then show ?thesis
      using assms by (cases "rt_ei r"; cases "delay (rt_metric r) = ucast EIGRP_MAX_METRIC")
        (auto simp: route_recalculate_def Let_def split: option.splits)
  next
    case False
    show ?thesis
    proof (cases "rt_ei r \<noteq> None")
      case True
      then have "route_total t (r\<lparr>reported_distance := ucast (eigrp_metric_calculate (inst t) (reported_metric r))\<rparr>) = Some r'"
        using assms unfolding recalculate_neighbor [OF False] Let_def by simp
      from route_total_frame [OF this] show ?thesis by simp
    qed (use assms in \<open>auto simp: recalculate_neighbor [OF False] Let_def\<close>)
  qed
  then show "rid r' = rid r" "eigrp_topology_route_external r' = eigrp_topology_route_external r"
    by (auto intro!: external_cong)
qed

lemma recalculated_queues_ok:
  assumes q: "queues_ok pd" and i: "those (map (route_recalculate t) (internal_routes pd)) = Some is"
    and e: "those (map (route_recalculate t) (external_routes pd)) = Some es"
  shows "queues_ok (pd\<lparr>internal_routes := eigrp_topology_route_queue_resort is,
                       external_routes := eigrp_topology_route_queue_resort es\<rparr>)"
proof -
  let ?r = eigrp_topology_route_queue_resort and ?e = eigrp_topology_route_external
  note f = those_map_fields [of "route_recalculate t" rid] those_map_fields [of "route_recalculate t" ?e]
  have rids: "map rid is = map rid (internal_routes pd)" "map rid es = map rid (external_routes pd)"
    and exts: "map ?e is = map ?e (internal_routes pd)" "map ?e es = map ?e (external_routes pd)"
    using f i e route_recalculate_frame by blast+
  have s: "sorted (map distance (?r is))" "sorted (map distance (?r es))" "mset (?r is) = mset is" "mset (?r es) = mset es"
    using resort_correct by blast+
  have "mset (map rid (?r is @ ?r es)) = mset (map rid (internal_routes pd @ external_routes pd))"
    using s(3,4) rids by (metis map_append mset_append mset_map)
  then have "distinct (map rid (?r is @ ?r es))"
    using q mset_eq_imp_distinct_iff by (metis eigrp_topology_routes_def queues_ok_def)
  moreover have "list_all (\<lambda>r. \<not> ?e r) (?r is)" "list_all ?e (?r es)"
    using q s(3,4) exts list_all_map_eq [of ?e "is" "internal_routes pd" "\<lambda>r. \<not> ?e r" Not]
      list_all_map_eq [of ?e es "external_routes pd" ?e "\<lambda>b. b"] mset_eq_setD [OF s(3)] mset_eq_setD [OF s(4)]
    by (simp_all add: queues_ok_def list_all_iff)
  ultimately show ?thesis using s(1,2) by (simp add: queues_ok_def eigrp_topology_routes_def)
qed

lemma alike_distances:
  assumes "alike pd pd'"
  shows "fdistance pd' = fdistance pd" "pd_distance pd' = pd_distance pd" "rdistance pd' = rdistance pd" "state pd' = state pd"
  using assms by (simp_all add: alike_def same_but_queuesD)

lemma read_cong: "eigrp_topology_routes pd = eigrp_topology_routes pd' \<Longrightarrow> eigrp_topology_route_read pd = eigrp_topology_route_read pd'"
  by (simp only: eigrp_topology_route_read_def)

lemma alike_read:
  assumes "alike pd pd'"
  shows "map_option erase (eigrp_topology_route_read pd') = map_option erase (eigrp_topology_route_read pd)"
    and "map_option distance (eigrp_topology_route_read pd') = map_option distance (eigrp_topology_route_read pd)"
proof -
  let ?P = "\<lambda>r. distance r \<noteq> EIGRP_MAX_METRIC"
  have f: "map_option erase (find ?P (eigrp_topology_routes pd')) = map_option erase (find ?P (eigrp_topology_routes pd))"
    by (rule find_erase [OF alike_routes [OF assms]]) simp
  have e: "map erase (eigrp_topology_routes pd') = map erase (eigrp_topology_routes pd)" by (rule alike_routes [OF assms])
  show r: "map_option erase (eigrp_topology_route_read pd') = map_option erase (eigrp_topology_route_read pd)"
    using f e by (auto simp: eigrp_topology_route_read_def split: option.splits list.splits)
  have "map_option distance y = map_option distance (map_option erase y)" for y :: "eigrp_route_descriptor option"
    by (cases y) simp_all
  then show "map_option distance (eigrp_topology_route_read pd') = map_option distance (eigrp_topology_route_read pd)"
    using r by metis
qed

lemma recalculated_nonempty:
  assumes "those (map (route_recalculate t) (internal_routes pd)) = Some is" "those (map (route_recalculate t) (external_routes pd)) = Some es"
    and "eigrp_topology_routes pd \<noteq> []"
  shows "eigrp_topology_route_read (pd\<lparr>internal_routes := eigrp_topology_route_queue_resort is,
      external_routes := eigrp_topology_route_queue_resort es\<rparr>) \<noteq> None"
proof -
  have "length (eigrp_topology_route_queue_resort is @ eigrp_topology_route_queue_resort es) = length (eigrp_topology_routes pd)"
    using those_map_fields [OF _ assms(1), of "\<lambda>_. ()"] those_map_fields [OF _ assms(2), of "\<lambda>_. ()"]
      resort_correct [of "is"] resort_correct [of es]
    by (simp add: eigrp_topology_routes_def map_eq_conv) (metis length_map mset_eq_length)
  then have "eigrp_topology_route_queue_resort is @ eigrp_topology_route_queue_resort es \<noteq> []" using assms(3) by (metis length_0_conv)
  then show ?thesis unfolding route_read_none by (simp add: eigrp_topology_routes_def)
qed

text \<open>
  A metric reconfiguration leaves every destination in order.  For a Passive destination with an elected route
  \<^verbatim>\<open>eigrp_topology_metric_update\<close> sorts both queues again, sets current, feasible and reported distance to the
  distance of the best route and schedules an update; an Active destination is not touched at all.
\<close>

theorem metric_update_keeps_order:
  assumes "queues_ok pd" and "metric_update_prefix t pd = Some (t', pd')"
  shows "queues_ok pd' \<and> state pd' = state pd
     \<and> (state pd \<noteq> EIGRP_FSM_STATE_PASSIVE \<longrightarrow> pd' = pd \<and> t' = t)
     \<and> (state pd = EIGRP_FSM_STATE_PASSIVE \<and> \<not> prefix_unelected t pd
        \<longrightarrow> req_action pd' AND EIGRP_FSM_NEED_UPDATE \<noteq> 0
          \<and> (eigrp_topology_routes pd \<noteq> [] \<longrightarrow> fdistance pd' = pd_distance pd' \<and> rdistance pd' = pd_distance pd'
               \<and> map_option distance (eigrp_topology_route_read pd') = Some (pd_distance pd')))"
proof (cases "state pd = EIGRP_FSM_STATE_PASSIVE")
  case False
  then show ?thesis using assms by (simp add: metric_update_prefix_def)
next
  case True
  obtain "is" es where ie: "those (map (route_recalculate t) (internal_routes pd)) = Some is"
      "those (map (route_recalculate t) (external_routes pd)) = Some es"
    using assms(2) True by (auto simp: metric_update_prefix_def split: option.splits)
  define pd1 where "pd1 = pd\<lparr>internal_routes := eigrp_topology_route_queue_resort is,
      external_routes := eigrp_topology_route_queue_resort es\<rparr>"
  have q1: "queues_ok pd1" unfolding pd1_def by (rule recalculated_queues_ok [OF assms(1) ie])
  show ?thesis
  proof (cases "prefix_unelected t pd")
    case u: True
    then have "pd' = pd1" using assms(2) True ie by (simp add: metric_update_prefix_def pd1_def)
    then show ?thesis using q1 u True by (simp add: pd1_def)
  next
    case u: False
    define pd2 where "pd2 = (case eigrp_topology_route_read pd1 of None \<Rightarrow> pd1
      | Some best \<Rightarrow> pd1\<lparr>pd_distance := distance best, fdistance := distance best, rdistance := distance best,
                         pd_reported_metric := total_metric best\<rparr>)"
    obtain t3 pd3 where rt: "eigrp_update_routing_table t (eigrp_topology_update_node_flags t pd2) = Some (t3, pd3)"
      and pd': "pd' = pd3\<lparr>req_action := req_action pd3 OR EIGRP_FSM_NEED_UPDATE\<rparr>"
      using assms(2) True ie u
      by (auto simp: metric_update_prefix_def Let_def pd1_def [symmetric] pd2_def [symmetric] split: option.splits)
    have al: "alike pd2 pd3" using alike_trans [OF node_flags_alike routing_table_alike(1) [OF rt]] .
    have q2: "queues_ok pd2" "eigrp_topology_routes pd2 = eigrp_topology_routes pd1" "state pd2 = state pd"
      using q1 by (auto simp: pd2_def pd1_def queues_ok_def eigrp_topology_routes_def split: option.split)
    have q3: "queues_ok pd'" using q2(1) alike_queues_ok [OF al] unfolding pd' by (simp add: queues_ok_def eigrp_topology_routes_def)
    have st: "state pd' = state pd" using alike_distances(4) [OF al] q2(3) unfolding pd' by simp
    have a: "req_action pd' AND EIGRP_FSM_NEED_UPDATE \<noteq> 0"
      unfolding pd' by (simp add: action_consts and_exp_eq_0_iff_not_bit [of _ 0, simplified] bit_or_iff)
    have dd: "fdistance pd' = pd_distance pd' \<and> rdistance pd' = pd_distance pd'
        \<and> map_option distance (eigrp_topology_route_read pd') = Some (pd_distance pd')" if ne: "eigrp_topology_routes pd \<noteq> []"
    proof -
      obtain best where best: "eigrp_topology_route_read pd1 = Some best" using recalculated_nonempty [OF ie ne] by (auto simp: pd1_def)
      have rd: "eigrp_topology_route_read pd2 = Some best" using best unfolding eigrp_topology_route_read_def q2(2) .
      have "map_option distance (eigrp_topology_route_read pd') = map_option distance (eigrp_topology_route_read pd2)"
        using alike_read [OF al] read_cong [of pd' pd3] unfolding pd' by (simp add: eigrp_topology_routes_def)
      then show ?thesis using alike_distances(1-3) [OF al] best rd unfolding pd' by (simp add: pd2_def)
    qed
    show ?thesis using q3 st a dd True u by blast
  qed
qed

theorem metric_update_keeps_order_witness:
  "\<exists>t' pd'. metric_update_prefix sample_topo sample_pd = Some (t', pd') \<and> queues_ok pd' \<and> fdistance pd' = pd_distance pd'"
proof -
  have "metric_update_prefix sample_topo sample_pd \<noteq> None" "\<not> prefix_unelected sample_topo sample_pd" by code_simp+
  moreover have "state sample_pd = EIGRP_FSM_STATE_PASSIVE" "eigrp_topology_routes sample_pd \<noteq> []"
    by (simp_all add: sample_pd_defs eigrp_topology_routes_def)
  ultimately show ?thesis using metric_update_keeps_order [OF sample_pd_ok, of sample_topo] by fastforce
qed

end
