(* ===== verification/Eigrp_FSM.thy ===== *)
theory Eigrp_FSM
  imports Eigrp_Paths
begin

text \<open>
  The DUAL finite state machine (\<^verbatim>\<open>eigrp_fsm.c\<close>): the classification of an input event against the state of a
  destination, the transition table, and one definition per event function.

  Every function takes and returns the instance and the destination; \<open>None\<close> is undefined behaviour of the C code (a
  NULL dereference).  A message's \<^verbatim>\<open>route\<close> pointer is the descriptor itself; the model keeps it equal to the stored
  one.  The reply status table \<^verbatim>\<open>rij\<close> is the list of neighbours whose REPLY is outstanding.
\<close>

datatype eigrp_fsm_events =
    EIGRP_FSM_EVENT_NQ_FCN
  | EIGRP_FSM_EVENT_LR
  | EIGRP_FSM_EVENT_Q_FCN
  | EIGRP_FSM_EVENT_LR_FCS
  | EIGRP_FSM_EVENT_DINC
  | EIGRP_FSM_EVENT_QACT
  | EIGRP_FSM_EVENT_LR_FCN
  | EIGRP_FSM_KEEP_STATE

type_synonym dual_result = "(eigrp_topo \<times> eigrp_prefix_descriptor) option"

subsection \<open>Reply status\<close>

definition eigrp_fsm_reply_status_lookup :: "eigrp_prefix_descriptor \<Rightarrow> nbr_id option \<Rightarrow> eigrp_reply_status option" where
  "eigrp_fsm_reply_status_lookup pd nbr =
     (case nbr of None \<Rightarrow> None | Some n \<Rightarrow> find (\<lambda>s. rs_neighbor s = n) (rij pd))"

definition eigrp_fsm_reply_status_add :: "eigrp_topo \<Rightarrow> eigrp_prefix_descriptor \<Rightarrow> nbr_id \<Rightarrow> eigrp_prefix_descriptor" where
  "eigrp_fsm_reply_status_add t pd n =
     (if eigrp_fsm_reply_status_lookup pd (Some n) \<noteq> None then pd
      else if \<not> alloc_ok t Alloc_reply_status then pd
      else pd\<lparr>rij := rij pd @ [\<lparr>rs_neighbor = n, sia_queries = 0, sia_response_received = True\<rparr>]\<rparr>)"

definition eigrp_fsm_reply_status_remove :: "eigrp_prefix_descriptor \<Rightarrow> nbr_id option \<Rightarrow> bool \<times> eigrp_prefix_descriptor" where
  "eigrp_fsm_reply_status_remove pd nbr =
     (let pd = (case eigrp_fsm_reply_status_lookup pd nbr of
                  None \<Rightarrow> pd
                | Some s \<Rightarrow> pd\<lparr>rij := remove1 s (rij pd)\<rparr>)
      in (rij pd \<noteq> [], pd))"

definition eigrp_fsm_reply_status_pending :: "eigrp_prefix_descriptor \<Rightarrow> nbr_id option \<Rightarrow> bool" where
  "eigrp_fsm_reply_status_pending pd nbr \<longleftrightarrow> eigrp_fsm_reply_status_lookup pd nbr \<noteq> None"

primrec sia_mark :: "nbr_id \<Rightarrow> eigrp_reply_status list \<Rightarrow> eigrp_reply_status list" where
  "sia_mark n [] = []"
| "sia_mark n (s # ss) = (if rs_neighbor s = n then s\<lparr>sia_response_received := True\<rparr> # ss else s # sia_mark n ss)"

definition eigrp_fsm_sia_reply_received :: "eigrp_prefix_descriptor \<Rightarrow> nbr_id option \<Rightarrow> eigrp_prefix_descriptor" where
  "eigrp_fsm_sia_reply_received pd nbr = (case nbr of None \<Rightarrow> pd | Some n \<Rightarrow> pd\<lparr>rij := sia_mark n (rij pd)\<rparr>)"

definition eigrp_fsm_reply_status_clear :: "eigrp_prefix_descriptor \<Rightarrow> eigrp_prefix_descriptor" where
  "eigrp_fsm_reply_status_clear pd = pd\<lparr>rij := []\<rparr>"

definition eigrp_fsm_active_timer_stop :: "eigrp_prefix_descriptor \<Rightarrow> eigrp_prefix_descriptor" where
  "eigrp_fsm_active_timer_stop pd = pd\<lparr>t_active := None, active_eigrp := False\<rparr>"

text \<open>Half the active time, in milliseconds; \<^verbatim>\<open>eigrp_timer_add\<close> leaves the slot empty when it cannot allocate.\<close>

definition active_timer_arm :: "eigrp_topo \<Rightarrow> eigrp_prefix_descriptor \<Rightarrow> eigrp_prefix_descriptor" where
  "active_timer_arm t pd = pd\<lparr>t_active := (if alloc_ok t Alloc_timer then Some (ucast (active_time t) * 500) else None)\<rparr>"

definition eigrp_fsm_active_timer_start :: "eigrp_topo \<Rightarrow> eigrp_prefix_descriptor \<Rightarrow> eigrp_prefix_descriptor" where
  "eigrp_fsm_active_timer_start t pd =
     (if state pd = EIGRP_FSM_STATE_PASSIVE \<or> rij pd = [] then pd
      else if active_time t = 0 then pd
      else active_timer_arm t (pd\<lparr>active_eigrp := True\<rparr>))"

text \<open>
  The active timer: \<open>Inl n\<close> declares the neighbour \<open>n\<close> stuck in active, which the caller tears down; otherwise every
  outstanding neighbour is sent an SIA-QUERY and the timer runs again.
\<close>

definition sia_stuck :: "eigrp_reply_status \<Rightarrow> bool" where
  "sia_stuck s \<longleftrightarrow> \<not> sia_response_received s \<or> 3 \<le> sia_queries s"

primrec sia_queries_send :: "eigrp_topo \<Rightarrow> eigrp_prefix_descriptor \<Rightarrow> eigrp_reply_status list \<Rightarrow> eigrp_topo option" where
  "sia_queries_send t pd [] = Some t"
| "sia_queries_send t pd (s # ss) =
     (case eigrp_siaquery_send t (rs_neighbor s) pd of None \<Rightarrow> None | Some t \<Rightarrow> sia_queries_send t pd ss)"

definition eigrp_fsm_active_timer_expired ::
    "eigrp_topo \<Rightarrow> eigrp_prefix_descriptor \<Rightarrow> (nbr_id + eigrp_topo \<times> eigrp_prefix_descriptor) option" where
  "eigrp_fsm_active_timer_expired t pd =
     (if state pd = EIGRP_FSM_STATE_PASSIVE \<or> rij pd = [] then Some (Inr (t, pd))
      else if \<not> active_eigrp pd then Some (Inr (t, pd))
      else case find sia_stuck (rij pd) of
             Some s \<Rightarrow> Some (Inl (rs_neighbor s))
           | None \<Rightarrow>
               let pd = pd\<lparr>rij := map (\<lambda>s. s\<lparr>sia_response_received := False, sia_queries := sia_queries s + 1\<rparr>) (rij pd)\<rparr>
               in (case sia_queries_send t pd (rij pd) of
                     None \<Rightarrow> None
                   | Some t \<Rightarrow> Some (Inr (t, if active_time t \<noteq> 0 then active_timer_arm t pd else pd))))"

subsection \<open>Event functions\<close>

definition need_update :: "eigrp_prefix_descriptor \<Rightarrow> eigrp_prefix_descriptor" where
  "need_update pd = pd\<lparr>req_action := req_action pd OR EIGRP_FSM_NEED_UPDATE\<rparr>"

definition need_query :: "eigrp_prefix_descriptor \<Rightarrow> eigrp_prefix_descriptor" where
  "need_query pd = pd\<lparr>req_action := req_action pd OR EIGRP_FSM_NEED_QUERY\<rparr>"

text \<open>The end of every transition to Passive: mark, install, retire, advertise.\<close>

definition passive_commit :: "eigrp_topo \<Rightarrow> eigrp_prefix_descriptor \<Rightarrow> dual_result" where
  "passive_commit t pd =
     (let pd = need_update pd;
          t = changes_add t pd;
          pd = eigrp_topology_update_node_flags t pd
      in case eigrp_update_routing_table t pd of
           None \<Rightarrow> None
         | Some (t, pd) \<Rightarrow>
             (case eigrp_update_topology_table_prefix t pd of
                None \<Rightarrow> None
              | Some (t, pd) \<Rightarrow> map_option (\<lambda>t. (t, pd)) (eigrp_update_send_all t None)))"

text \<open>Destination distances from the best route, or unreachable; and the REPLY owed to the origin of a QUERY.\<close>

definition lr_metric :: "eigrp_prefix_descriptor \<Rightarrow> eigrp_prefix_descriptor" where
  "lr_metric pd =
     (case eigrp_topology_route_read pd of
        Some r \<Rightarrow> pd\<lparr>fdistance := distance r, pd_distance := distance r, rdistance := distance r,
                     pd_reported_metric := total_metric r\<rparr>
      | None \<Rightarrow> pd\<lparr>fdistance := EIGRP_MAX_METRIC, pd_distance := EIGRP_MAX_METRIC, rdistance := EIGRP_MAX_METRIC,
                   pd_reported_metric := zero_metrics\<lparr>delay := ucast EIGRP_MAX_METRIC\<rparr>\<rparr>)"

definition deferred_reply :: "bool \<Rightarrow> eigrp_topo \<Rightarrow> eigrp_prefix_descriptor \<Rightarrow> eigrp_topo option" where
  "deferred_reply owed t pd = (if owed \<and> query_origin pd \<noteq> None then eigrp_reply_send t (query_origin pd) pd else Some t)"

definition eigrp_fsm_event_lr :: "eigrp_topo \<Rightarrow> eigrp_prefix_descriptor \<Rightarrow> dual_result" where
  "eigrp_fsm_event_lr t pd =
     (let pd = lr_metric pd
      in case deferred_reply (state pd = EIGRP_FSM_STATE_ACTIVE_3 \<or> state pd = EIGRP_FSM_STATE_ACTIVE_2) t pd of
           None \<Rightarrow> None
         | Some t \<Rightarrow>
             let pd = pd\<lparr>query_origin := None\<rparr>;
                 pd = eigrp_fsm_reply_status_clear (eigrp_fsm_active_timer_stop pd)
             in passive_commit t (pd\<lparr>state := EIGRP_FSM_STATE_PASSIVE\<rparr>))"

definition start_queries :: "eigrp_topo \<Rightarrow> eigrp_prefix_descriptor \<Rightarrow> dual_result" where
  "start_queries t pd =
     (let pd = eigrp_fsm_reply_status_clear (eigrp_fsm_active_timer_stop pd)
      in if eigrp_nbr_count t \<noteq> 0
         then let pd = need_query pd in Some (changes_add t pd, pd)
         else eigrp_fsm_event_lr t pd)"

definition eigrp_fsm_event_nq_fcn :: "eigrp_topo \<Rightarrow> eigrp_prefix_descriptor \<Rightarrow> dual_result" where
  "eigrp_fsm_event_nq_fcn t pd = start_queries t (pd\<lparr>state := EIGRP_FSM_STATE_ACTIVE_1\<rparr>)"

definition eigrp_fsm_event_q_fcn :: "eigrp_topo \<Rightarrow> eigrp_prefix_descriptor \<Rightarrow> eigrp_fsm_action_message \<Rightarrow> dual_result" where
  "eigrp_fsm_event_q_fcn t pd msg =
     start_queries t (pd\<lparr>state := EIGRP_FSM_STATE_ACTIVE_3, query_origin := msg_adv_router msg\<rparr>)"

definition eigrp_fsm_active_non_successor_reply_send ::
    "eigrp_topo \<Rightarrow> nbr_id option \<Rightarrow> eigrp_prefix_descriptor \<Rightarrow> eigrp_topo option" where
  "eigrp_fsm_active_non_successor_reply_send t nbr pd =
     (if nbr = None then Some t
      else case find (\<lambda>r. has_flag INTABLE_FLAG r \<and> distance r \<noteq> EIGRP_MAX_METRIC) (eigrp_topology_routes pd) of
             None \<Rightarrow> eigrp_reply_send_route t nbr pd None WORK_F_POISON
           | Some r \<Rightarrow>
               if \<not> alloc_ok t Alloc_route then None
               else eigrp_reply_send_route t nbr pd (Some (r\<lparr>rt_metric := pd_reported_metric pd\<rparr>)) WORK_F_OWN_ROUTE)"

text \<open>The reply to a QUERY that does not change the state.\<close>

definition keep_state_reply :: "eigrp_topo \<Rightarrow> eigrp_prefix_descriptor \<Rightarrow> eigrp_fsm_action_message \<Rightarrow> dual_result" where
  "keep_state_reply t pd msg =
     (if packet_type msg \<noteq> EIGRP_OPC_QUERY then Some (t, pd)
      else if state pd = EIGRP_FSM_STATE_PASSIVE
      then map_option (\<lambda>t. (t, pd)) (eigrp_reply_send t (msg_adv_router msg) pd)
      else case msg_route msg of
             None \<Rightarrow> None
           | Some r \<Rightarrow>
               if has_flag SUCCESSOR_FLAG r then Some (t, pd)
               else map_option (\<lambda>t. (t, pd)) (eigrp_fsm_active_non_successor_reply_send t (msg_adv_router msg) pd))"

definition eigrp_fsm_event_keep_state ::
    "eigrp_topo \<Rightarrow> eigrp_prefix_descriptor \<Rightarrow> eigrp_fsm_action_message \<Rightarrow> dual_result" where
  "eigrp_fsm_event_keep_state t pd msg =
     (if state pd = EIGRP_FSM_STATE_PASSIVE then
        (case (case eigrp_topology_route_select pd of Some r \<Rightarrow> Some r | None \<Rightarrow> eigrp_topology_route_read pd) of
           None \<Rightarrow> None
         | Some r \<Rightarrow>
             let (t, pd) =
               (if eigrp_metrics_match (pd_reported_metric pd) (total_metric r) then (t, pd)
                else
                  let pd = pd\<lparr>pd_distance := distance r, rdistance := distance r,
                              fdistance := (if distance r < fdistance pd then distance r else fdistance pd),
                              pd_reported_metric := total_metric r\<rparr>;
                      pd = need_update pd
                  in (changes_add t pd, pd))
             in (case eigrp_update_routing_table t (eigrp_topology_update_node_flags t pd) of
                   None \<Rightarrow> None
                 | Some (t, pd) \<Rightarrow> keep_state_reply t pd msg))
      else keep_state_reply t pd msg)"

definition eigrp_fsm_event_lr_fcs :: "eigrp_topo \<Rightarrow> eigrp_prefix_descriptor \<Rightarrow> dual_result" where
  "eigrp_fsm_event_lr_fcs t pd =
     (case eigrp_topology_route_select pd of
        None \<Rightarrow> None
      | Some r \<Rightarrow>
          let old_state = state pd;
              pd = eigrp_fsm_reply_status_clear (eigrp_fsm_active_timer_stop pd);
              pd = pd\<lparr>state := EIGRP_FSM_STATE_PASSIVE\<rparr>;
              pd = pd\<lparr>pd_distance := distance r, rdistance := distance r, pd_reported_metric := total_metric r,
                      fdistance := (if distance r < fdistance pd then distance r else fdistance pd)\<rparr>
          in (case deferred_reply (old_state = EIGRP_FSM_STATE_ACTIVE_2) t pd of
                None \<Rightarrow> None
              | Some t \<Rightarrow> passive_commit t (pd\<lparr>query_origin := None\<rparr>)))"

definition eigrp_fsm_event_lr_fcn :: "eigrp_topo \<Rightarrow> eigrp_prefix_descriptor \<Rightarrow> dual_result" where
  "eigrp_fsm_event_lr_fcn t pd =
     start_queries t (pd\<lparr>state := (if state pd = EIGRP_FSM_STATE_ACTIVE_0 then EIGRP_FSM_STATE_ACTIVE_1
                                   else EIGRP_FSM_STATE_ACTIVE_3)\<rparr>)"

definition eigrp_fsm_event_qact :: "eigrp_topo \<Rightarrow> eigrp_prefix_descriptor \<Rightarrow> eigrp_fsm_action_message \<Rightarrow> dual_result" where
  "eigrp_fsm_event_qact t pd msg =
     Some (t, pd\<lparr>state := EIGRP_FSM_STATE_ACTIVE_2, query_origin := msg_adv_router msg\<rparr>)"

subsection \<open>Classification of events\<close>

definition reply_received :: "eigrp_prefix_descriptor \<Rightarrow> eigrp_route_descriptor \<Rightarrow> bool \<times> eigrp_prefix_descriptor" where
  "reply_received pd r = eigrp_fsm_reply_status_remove pd (adv_router r)"

text \<open>The switch on the state, after the route has been updated; \<open>ch\<close> is the metric change.\<close>

fun event_switch ::
    "eigrp_fsm_states \<Rightarrow> eigrp_prefix_descriptor \<Rightarrow> u8 \<Rightarrow> metric_change \<Rightarrow> eigrp_route_descriptor
     \<Rightarrow> eigrp_fsm_events \<times> eigrp_prefix_descriptor" where
  "event_switch EIGRP_FSM_STATE_PASSIVE pd opc ch r =
     (let selected = eigrp_topology_route_select pd
      in (if ch = METRIC_SAME \<or> selected = None \<and> fdistance pd = EIGRP_MAX_METRIC then EIGRP_FSM_KEEP_STATE
          else if selected \<noteq> None then EIGRP_FSM_KEEP_STATE
          else if opc = EIGRP_OPC_QUERY then EIGRP_FSM_EVENT_Q_FCN
          else EIGRP_FSM_EVENT_NQ_FCN, pd))"
| "event_switch EIGRP_FSM_STATE_ACTIVE_0 pd opc ch r =
     (if opc = EIGRP_OPC_REPLY then
        let selected = eigrp_topology_route_select pd;
            (pending, pd) = reply_received pd r
        in (if pending then EIGRP_FSM_KEEP_STATE
            else if selected \<noteq> None then EIGRP_FSM_EVENT_LR_FCS else EIGRP_FSM_EVENT_LR_FCN, pd)
      else if opc = EIGRP_OPC_QUERY \<and> has_flag SUCCESSOR_FLAG r then (EIGRP_FSM_EVENT_QACT, pd)
      else (EIGRP_FSM_KEEP_STATE, pd))"
| "event_switch EIGRP_FSM_STATE_ACTIVE_1 pd opc ch r =
     (if opc = EIGRP_OPC_QUERY \<and> has_flag SUCCESSOR_FLAG r then (EIGRP_FSM_EVENT_QACT, pd)
      else if opc = EIGRP_OPC_REPLY then
        let (pending, pd) = reply_received pd r
        in (if pending then EIGRP_FSM_KEEP_STATE else EIGRP_FSM_EVENT_LR, pd)
      else if opc = EIGRP_OPC_UPDATE \<and> ch = METRIC_INCREASE \<and> has_flag SUCCESSOR_FLAG r then (EIGRP_FSM_EVENT_DINC, pd)
      else (EIGRP_FSM_KEEP_STATE, pd))"
| "event_switch EIGRP_FSM_STATE_ACTIVE_2 pd opc ch r =
     (if opc = EIGRP_OPC_QUERY \<and> has_flag SUCCESSOR_FLAG r then (EIGRP_FSM_EVENT_QACT, pd)
      else if opc = EIGRP_OPC_REPLY then
        let selected = eigrp_topology_route_select pd;
            (pending, pd) = reply_received pd r
        in (if pending then EIGRP_FSM_KEEP_STATE
            else if selected \<noteq> None then EIGRP_FSM_EVENT_LR_FCS else EIGRP_FSM_EVENT_LR_FCN, pd)
      else (EIGRP_FSM_KEEP_STATE, pd))"
| "event_switch EIGRP_FSM_STATE_ACTIVE_3 pd opc ch r =
     (if opc = EIGRP_OPC_QUERY \<and> has_flag SUCCESSOR_FLAG r then (EIGRP_FSM_EVENT_QACT, pd)
      else if opc = EIGRP_OPC_REPLY then
        let (pending, pd) = reply_received pd r
        in (if pending then EIGRP_FSM_KEEP_STATE else EIGRP_FSM_EVENT_LR, pd)
      else if opc = EIGRP_OPC_UPDATE \<and> ch = METRIC_INCREASE \<and> has_flag SUCCESSOR_FLAG r then (EIGRP_FSM_EVENT_DINC, pd)
      else (EIGRP_FSM_KEEP_STATE, pd))"

text \<open>A message without a route gets a new descriptor of identity \<open>nid\<close> on the advertising neighbour's interface.\<close>

definition msg_with_route ::
    "nat \<Rightarrow> eigrp_topo \<Rightarrow> eigrp_prefix_descriptor \<Rightarrow> eigrp_fsm_action_message \<Rightarrow> eigrp_fsm_action_message option" where
  "msg_with_route nid t pd msg =
     (if msg_route msg \<noteq> None then Some msg
      else case msg_adv_router msg of
             None \<Rightarrow> None
           | Some n \<Rightarrow>
               (case eigrp_topology_route_create (alloc_ok t Alloc_route) nid (nbr_ei (nbrs t n)) of
                  None \<Rightarrow> None
                | Some r \<Rightarrow> Some (msg\<lparr>msg_route := Some (r\<lparr>adv_router := Some n, rt_prefix := Some (destination pd)\<rparr>)\<rparr>)))"

definition eigrp_fsm_event_select ::
    "nat \<Rightarrow> eigrp_topo \<Rightarrow> eigrp_prefix_descriptor \<Rightarrow> eigrp_fsm_action_message
     \<Rightarrow> (eigrp_fsm_events \<times> eigrp_topo \<times> eigrp_prefix_descriptor \<times> eigrp_fsm_action_message) option" where
  "eigrp_fsm_event_select nid t pd msg =
     (case msg_with_route nid t pd msg of
        None \<Rightarrow> None
      | Some msg \<Rightarrow>
          (case eigrp_topology_update_distance t pd msg of
             None \<Rightarrow> None
           | Some (ch, t, pd', msg) \<Rightarrow>
               (case msg_route msg of
                  None \<Rightarrow> None
                | Some r \<Rightarrow>
                    let (event, pd') = event_switch (state pd) pd' (packet_type msg) ch r
                    in Some (event, t, pd', msg\<lparr>change := ch\<rparr>))))"

subsection \<open>The transition table\<close>

datatype fsm_func = Fn_nq_fcn | Fn_lr | Fn_q_fcn | Fn_lr_fcs | Fn_dinc | Fn_qact | Fn_lr_fcn | Fn_keep_state

fun NSM :: "eigrp_fsm_states \<Rightarrow> eigrp_fsm_events \<Rightarrow> fsm_func" where
  "NSM EIGRP_FSM_STATE_PASSIVE EIGRP_FSM_EVENT_NQ_FCN = Fn_nq_fcn"
| "NSM EIGRP_FSM_STATE_PASSIVE EIGRP_FSM_EVENT_Q_FCN = Fn_q_fcn"
| "NSM EIGRP_FSM_STATE_ACTIVE_0 EIGRP_FSM_EVENT_LR_FCS = Fn_lr_fcs"
| "NSM EIGRP_FSM_STATE_ACTIVE_0 EIGRP_FSM_EVENT_QACT = Fn_qact"
| "NSM EIGRP_FSM_STATE_ACTIVE_0 EIGRP_FSM_EVENT_LR_FCN = Fn_lr_fcn"
| "NSM EIGRP_FSM_STATE_ACTIVE_1 EIGRP_FSM_EVENT_LR = Fn_lr"
| "NSM EIGRP_FSM_STATE_ACTIVE_1 EIGRP_FSM_EVENT_DINC = Fn_dinc"
| "NSM EIGRP_FSM_STATE_ACTIVE_1 EIGRP_FSM_EVENT_QACT = Fn_qact"
| "NSM EIGRP_FSM_STATE_ACTIVE_2 EIGRP_FSM_EVENT_LR_FCS = Fn_lr_fcs"
| "NSM EIGRP_FSM_STATE_ACTIVE_2 EIGRP_FSM_EVENT_QACT = Fn_qact"
| "NSM EIGRP_FSM_STATE_ACTIVE_2 EIGRP_FSM_EVENT_LR_FCN = Fn_lr_fcn"
| "NSM EIGRP_FSM_STATE_ACTIVE_3 EIGRP_FSM_EVENT_LR = Fn_lr"
| "NSM EIGRP_FSM_STATE_ACTIVE_3 EIGRP_FSM_EVENT_DINC = Fn_dinc"
| "NSM EIGRP_FSM_STATE_ACTIVE_3 EIGRP_FSM_EVENT_QACT = Fn_qact"
| "NSM _ _ = Fn_keep_state"

text \<open>
  A distance increase dispatches once more when no reply is outstanding.  The rows it dispatches on, Active 0 and
  Active 2, have no entry for \<^verbatim>\<open>eigrp_fsm_event_dinc\<close> (\<open>NSM_no_dinc\<close>), so the inner dispatch never gets there.
\<close>

fun fsm_call :: "fsm_func \<Rightarrow> eigrp_topo \<Rightarrow> eigrp_prefix_descriptor \<Rightarrow> eigrp_fsm_action_message \<Rightarrow> dual_result" where
  "fsm_call Fn_nq_fcn t pd msg = eigrp_fsm_event_nq_fcn t pd"
| "fsm_call Fn_lr t pd msg = eigrp_fsm_event_lr t pd"
| "fsm_call Fn_q_fcn t pd msg = eigrp_fsm_event_q_fcn t pd msg"
| "fsm_call Fn_lr_fcs t pd msg = eigrp_fsm_event_lr_fcs t pd"
| "fsm_call Fn_qact t pd msg = eigrp_fsm_event_qact t pd msg"
| "fsm_call Fn_lr_fcn t pd msg = eigrp_fsm_event_lr_fcn t pd"
| "fsm_call Fn_keep_state t pd msg = eigrp_fsm_event_keep_state t pd msg"
| "fsm_call Fn_dinc t pd msg = None"

definition eigrp_fsm_event_dinc ::
    "nat \<Rightarrow> eigrp_topo \<Rightarrow> eigrp_prefix_descriptor \<Rightarrow> eigrp_fsm_action_message \<Rightarrow> dual_result" where
  "eigrp_fsm_event_dinc nid t pd msg =
     (let pd = pd\<lparr>state := (if state pd = EIGRP_FSM_STATE_ACTIVE_1 then EIGRP_FSM_STATE_ACTIVE_0 else EIGRP_FSM_STATE_ACTIVE_2)\<rparr>
      in if rij pd = [] then
           (case eigrp_fsm_event_select nid t pd msg of
              None \<Rightarrow> None
            | Some (event, t, pd, msg) \<Rightarrow> fsm_call (NSM (state pd) event) t pd msg)
         else Some (t, pd))"

definition eigrp_fsm_event :: "nat \<Rightarrow> eigrp_topo \<Rightarrow> eigrp_prefix_descriptor \<Rightarrow> eigrp_fsm_action_message \<Rightarrow> dual_result" where
  "eigrp_fsm_event nid t pd msg =
     (case eigrp_fsm_event_select nid t pd msg of
        None \<Rightarrow> None
      | Some (event, t, pd, msg) \<Rightarrow>
          if NSM (state pd) event = Fn_dinc then eigrp_fsm_event_dinc nid t pd msg
          else fsm_call (NSM (state pd) event) t pd msg)"

text \<open>The QUERY has been sent: wait for the replies, or finish at once when nobody was asked.\<close>

definition eigrp_fsm_query_sent :: "eigrp_topo \<Rightarrow> eigrp_prefix_descriptor \<Rightarrow> dual_result" where
  "eigrp_fsm_query_sent t pd =
     (if state pd = EIGRP_FSM_STATE_PASSIVE then Some (t, pd)
      else if rij pd \<noteq> [] then Some (t, eigrp_fsm_active_timer_start t pd)
      else eigrp_fsm_event_lr t pd)"

definition eigrp_fsm_neighbor_down :: "eigrp_topo \<Rightarrow> eigrp_prefix_descriptor \<Rightarrow> nbr_id \<Rightarrow> dual_result" where
  "eigrp_fsm_neighbor_down t pd n =
     (if state pd = EIGRP_FSM_STATE_PASSIVE \<or> \<not> eigrp_fsm_reply_status_pending pd (Some n) then Some (t, pd)
      else
        let (pending, pd) = eigrp_fsm_reply_status_remove pd (Some n)
        in if pending then Some (t, pd)
           else if state pd = EIGRP_FSM_STATE_ACTIVE_0 \<or> state pd = EIGRP_FSM_STATE_ACTIVE_2 then
             (if eigrp_topology_route_select pd \<noteq> None then eigrp_fsm_event_lr_fcs t pd else eigrp_fsm_event_lr_fcn t pd)
           else eigrp_fsm_event_lr t pd)"

end
