(* ===== verification/Eigrp_Dual.thy ===== *)
theory Eigrp_Dual
  imports Eigrp_FSM
begin

text \<open>
  DUAL, one destination at a time: what each event function leaves behind, that with memory none of them faults, the
  moves one event can make (\<open>dual_move\<close>) and the theorems on top of them.
\<close>

subsection \<open>Facts about the event functions\<close>

lemma need_update_bit: "req_action (need_update pd) AND EIGRP_FSM_NEED_UPDATE \<noteq> 0"
  by (simp add: need_update_def action_consts and_exp_eq_0_iff_not_bit [of _ 0, simplified] bit_or_iff)

lemma changes_add_frame [simp]:
  "alloc_ok (changes_add t pd) = alloc_ok t" "eiflist (changes_add t pd) = eiflist t" "nbrs (changes_add t pd) = nbrs t"
  "inst (changes_add t pd) = inst t" "intfs (changes_add t pd) = intfs t"
  by (simp_all add: changes_add_def)

lemma enqueue_frame [simp]: "alloc_ok (eigrp_packetizer_enqueue t w) = alloc_ok t"
  by (simp add: eigrp_packetizer_enqueue_def)

text \<open>Sending work never touches the destination, and with memory it never faults.\<close>

lemma sends_succeed:
  assumes "memory_ok t"
  shows "\<exists>t'. eigrp_update_send_all t e = Some t' \<and> memory_ok t'"
    and "\<exists>t'. eigrp_reply_send_route t n pd r f = Some t' \<and> memory_ok t'"
    and "\<exists>t'. eigrp_siaquery_send t m pd = Some t' \<and> memory_ok t'"
  using assms
  by (auto simp: eigrp_update_send_all_def eigrp_reply_send_route_def eigrp_siaquery_send_def eigrp_packetizer_work_create_def memory_ok_def)

lemma routing_table_succeeds:
  assumes "memory_ok t"
  shows "\<exists>t' pd'. eigrp_update_routing_table t pd = Some (t', pd') \<and> memory_ok t'"
proof -
  have "eigrp_update_routing_table t pd \<noteq> None"
    using successors_max_read [OF assms] by (simp add: eigrp_update_routing_table_def Let_def)
  then obtain t' pd' where e: "eigrp_update_routing_table t pd = Some (t', pd')" by auto
  have "alloc_ok t' = alloc_ok t" using routing_table_alike(2) [OF e] by (metis eigrp_topo.ext_inject eigrp_topo.surjective eigrp_topo.update_convs(13))
  then show ?thesis using e assms by (simp add: memory_ok_def)
qed

text \<open>A commit changes flags and the required action only: the retirement test fails while an update is due.\<close>

lemma passive_commit_steps:
  "passive_commit t pd =
     (case eigrp_update_routing_table (changes_add t (need_update pd))
             (eigrp_topology_update_node_flags (changes_add t (need_update pd)) (need_update pd)) of
        None \<Rightarrow> None
      | Some (t1, pd1) \<Rightarrow> map_option (\<lambda>t. (t, pd1)) (eigrp_update_send_all t1 None))"
proof -
  let ?t = "changes_add t (need_update pd)"
  have "eigrp_update_topology_table_prefix t1 pd1 = Some (t1, pd1)"
    if r: "eigrp_update_routing_table ?t (eigrp_topology_update_node_flags ?t (need_update pd)) = Some (t1, pd1)" for t1 pd1
  proof -
    have "alike (need_update pd) pd1" by (rule alike_trans [OF node_flags_alike routing_table_alike(1) [OF r]])
    then have "req_action pd1 = req_action (need_update pd)" by (simp add: alike_def same_but_queuesD)
    then show ?thesis using need_update_bit [of pd] by (simp add: eigrp_update_topology_table_prefix_def)
  qed
  then show ?thesis by (simp add: passive_commit_def Let_def split: option.split prod.split)
qed

lemma passive_commit_result:
  assumes "passive_commit t pd = Some (t', pd')"
  shows "alike (need_update pd) pd'"
  using assms alike_trans [OF node_flags_alike routing_table_alike(1)]
  by (auto simp: passive_commit_steps split: option.splits)

lemma passive_commit_succeeds:
  assumes "memory_ok t"
  shows "\<exists>t' pd'. passive_commit t pd = Some (t', pd')"
proof -
  have "memory_ok (changes_add t (need_update pd))" using assms by (simp add: memory_ok_def)
  then obtain t1 pd1 where "eigrp_update_routing_table (changes_add t (need_update pd))
      (eigrp_topology_update_node_flags (changes_add t (need_update pd)) (need_update pd)) = Some (t1, pd1)" and m: "memory_ok t1"
    using routing_table_succeeds by blast
  moreover obtain t2 where "eigrp_update_send_all t1 None = Some t2" using sends_succeed(1) [OF m] by blast
  ultimately show ?thesis by (simp add: passive_commit_steps)
qed

text \<open>What a destination looks like when a computation has ended.\<close>

definition settled :: "eigrp_prefix_descriptor \<Rightarrow> bool" where
  "settled pd \<longleftrightarrow> state pd = EIGRP_FSM_STATE_PASSIVE \<and> rij pd = [] \<and> query_origin pd = None \<and> t_active pd = None
     \<and> fdistance pd \<le> pd_distance pd \<and> rdistance pd = pd_distance pd"

lemma alike_fields:
  assumes "alike pd pd'"
  shows "state pd' = state pd" "rij pd' = rij pd" "query_origin pd' = query_origin pd" "t_active pd' = t_active pd"
    "fdistance pd' = fdistance pd" "pd_distance pd' = pd_distance pd" "rdistance pd' = rdistance pd"
    "req_action pd' = req_action pd" "pd_reported_metric pd' = pd_reported_metric pd" "destination pd' = destination pd"
  using assms by (simp_all add: alike_def same_but_queuesD)

lemma alike_settled: "alike pd pd' \<Longrightarrow> settled pd' = settled pd"
  by (simp add: settled_def alike_fields)

lemma need_update_fields [simp]:
  "state (need_update pd) = state pd" "rij (need_update pd) = rij pd" "query_origin (need_update pd) = query_origin pd"
  "t_active (need_update pd) = t_active pd" "fdistance (need_update pd) = fdistance pd"
  "pd_distance (need_update pd) = pd_distance pd" "rdistance (need_update pd) = rdistance pd"
  "internal_routes (need_update pd) = internal_routes pd" "external_routes (need_update pd) = external_routes pd"
  "pd_reported_metric (need_update pd) = pd_reported_metric pd" "destination (need_update pd) = destination pd"
  by (simp_all add: need_update_def)

lemma queues_ok_cong:
  "internal_routes pd = internal_routes pd' \<Longrightarrow> external_routes pd = external_routes pd' \<Longrightarrow> queues_ok pd = queues_ok pd'"
  by (simp add: queues_ok_def eigrp_topology_routes_def)

lemma queues_ok_for_cong:
  "internal_routes pd = internal_routes pd' \<Longrightarrow> external_routes pd = external_routes pd' \<Longrightarrow> queues_ok_for pd msg = queues_ok_for pd' msg"
  by (simp add: queues_ok_for_def queues_ok_but_def queues_ok_def eigrp_topology_routes_def split: option.split)

text \<open>The last reply with the feasible distance reset.\<close>

lemma lr_metric_fields:
  "fdistance (lr_metric pd) = pd_distance (lr_metric pd)" "rdistance (lr_metric pd) = pd_distance (lr_metric pd)"
  "pd_distance (lr_metric pd) = (case eigrp_topology_route_read pd of Some r \<Rightarrow> distance r | None \<Rightarrow> EIGRP_MAX_METRIC)"
  "internal_routes (lr_metric pd) = internal_routes pd" "external_routes (lr_metric pd) = external_routes pd"
  "state (lr_metric pd) = state pd" "query_origin (lr_metric pd) = query_origin pd"
  by (simp_all add: lr_metric_def split: option.split)

lemmas stop_clear_defs = eigrp_fsm_reply_status_clear_def eigrp_fsm_active_timer_stop_def

lemma lr_result:
  assumes "eigrp_fsm_event_lr t pd = Some (t', pd')"
  shows "settled pd'" "queues_ok pd' = queues_ok pd" "fdistance pd' = pd_distance pd'"
    "pd_distance pd' = (case eigrp_topology_route_read pd of Some r \<Rightarrow> distance r | None \<Rightarrow> EIGRP_MAX_METRIC)"
    "map erase (eigrp_topology_routes pd') = map erase (eigrp_topology_routes pd)"
proof -
  define pd2 where "pd2 = (eigrp_fsm_reply_status_clear (eigrp_fsm_active_timer_stop ((lr_metric pd)\<lparr>query_origin := None\<rparr>)))
      \<lparr>state := EIGRP_FSM_STATE_PASSIVE\<rparr>"
  obtain t1 where "passive_commit t1 pd2 = Some (t', pd')"
    using assms unfolding eigrp_fsm_event_lr_def Let_def pd2_def [symmetric] by (auto split: option.splits)
  note a = passive_commit_result [OF this]
  have d: "fdistance pd2 = pd_distance pd2" "rdistance pd2 = pd_distance pd2"
    "pd_distance pd2 = (case eigrp_topology_route_read pd of Some r \<Rightarrow> distance r | None \<Rightarrow> EIGRP_MAX_METRIC)"
    "internal_routes pd2 = internal_routes pd" "external_routes pd2 = external_routes pd"
    by (simp_all add: pd2_def lr_metric_fields stop_clear_defs)
  have "settled (need_update pd2)" by (simp add: settled_def d(1,2)) (simp add: pd2_def stop_clear_defs)
  then show "settled pd'" using alike_settled [OF a] by simp
  show "queues_ok pd' = queues_ok pd" using alike_queues_ok [OF a] queues_ok_cong [of "need_update pd2" pd] d by simp
  show "fdistance pd' = pd_distance pd'"
    "pd_distance pd' = (case eigrp_topology_route_read pd of Some r \<Rightarrow> distance r | None \<Rightarrow> EIGRP_MAX_METRIC)"
    using alike_fields [OF a] d by simp_all
  show "map erase (eigrp_topology_routes pd') = map erase (eigrp_topology_routes pd)"
    using alike_routes [OF a] d by (simp add: eigrp_topology_routes_def)
qed

lemma deferred_reply_succeeds: "memory_ok t \<Longrightarrow> \<exists>t'. deferred_reply b t pd = Some t' \<and> memory_ok t'"
  using sends_succeed(2) by (simp add: deferred_reply_def eigrp_reply_send_def)

lemma lr_succeeds:
  assumes "memory_ok t"
  shows "\<exists>t' pd'. eigrp_fsm_event_lr t pd = Some (t', pd')"
proof -
  obtain t1 where "deferred_reply (state (lr_metric pd) = EIGRP_FSM_STATE_ACTIVE_3 \<or> state (lr_metric pd) = EIGRP_FSM_STATE_ACTIVE_2) t (lr_metric pd) = Some t1"
    and "memory_ok t1" using deferred_reply_succeeds [OF assms] by blast
  then show ?thesis using passive_commit_succeeds [of t1] by (simp add: eigrp_fsm_event_lr_def Let_def)
qed

text \<open>The last reply with the feasibility condition satisfied.\<close>

lemma lr_fcs_result:
  assumes "eigrp_fsm_event_lr_fcs t pd = Some (t', pd')"
  obtains r where "eigrp_topology_route_select pd = Some r" "settled pd'" "queues_ok pd' = queues_ok pd" "pd_distance pd' = distance r"
    "fdistance pd' = min (distance r) (fdistance pd)" "map erase (eigrp_topology_routes pd') = map erase (eigrp_topology_routes pd)"
proof -
  obtain r where r: "eigrp_topology_route_select pd = Some r"
    using assms by (auto simp: eigrp_fsm_event_lr_fcs_def split: option.splits)
  let ?pd = "(eigrp_fsm_reply_status_clear (eigrp_fsm_active_timer_stop pd))\<lparr>state := EIGRP_FSM_STATE_PASSIVE\<rparr>"
  define pd2 where "pd2 = ?pd\<lparr>pd_distance := distance r, rdistance := distance r, pd_reported_metric := total_metric r,
      fdistance := (if distance r < fdistance ?pd then distance r else fdistance ?pd)\<rparr>"
  obtain t1 where "passive_commit t1 (pd2\<lparr>query_origin := None\<rparr>) = Some (t', pd')"
    using assms r unfolding eigrp_fsm_event_lr_fcs_def Let_def by (auto simp: pd2_def split: option.splits)
  note a = passive_commit_result [OF this]
  have d: "pd_distance pd2 = distance r" "rdistance pd2 = distance r" "fdistance pd2 = min (distance r) (fdistance pd)"
    "internal_routes pd2 = internal_routes pd" "external_routes pd2 = external_routes pd" "rij pd2 = []" "t_active pd2 = None"
    "state pd2 = EIGRP_FSM_STATE_PASSIVE"
    by (auto simp: pd2_def stop_clear_defs min_def)
  show thesis
  proof (rule that [OF r])
    show "settled pd'" using alike_settled [OF a] d by (simp add: settled_def)
    show "queues_ok pd' = queues_ok pd"
      using alike_queues_ok [OF a] queues_ok_cong [of "need_update (pd2\<lparr>query_origin := None\<rparr>)" pd] d by simp
    show "pd_distance pd' = distance r" "fdistance pd' = min (distance r) (fdistance pd)" using alike_fields [OF a] d by simp_all
    show "map erase (eigrp_topology_routes pd') = map erase (eigrp_topology_routes pd)"
      using alike_routes [OF a] d by (simp add: eigrp_topology_routes_def)
  qed
qed

lemma lr_fcs_succeeds:
  assumes "memory_ok t" and "eigrp_topology_route_select pd \<noteq> None"
  shows "\<exists>t' pd'. eigrp_fsm_event_lr_fcs t pd = Some (t', pd')"
proof -
  obtain r where r: "eigrp_topology_route_select pd = Some r" using assms(2) by auto
  let ?pd = "(eigrp_fsm_reply_status_clear (eigrp_fsm_active_timer_stop pd))\<lparr>state := EIGRP_FSM_STATE_PASSIVE\<rparr>"
  let ?pd2 = "?pd\<lparr>pd_distance := distance r, rdistance := distance r, pd_reported_metric := total_metric r,
      fdistance := (if distance r < fdistance ?pd then distance r else fdistance ?pd)\<rparr>"
  obtain t1 where "deferred_reply (state pd = EIGRP_FSM_STATE_ACTIVE_2) t ?pd2 = Some t1" "memory_ok t1"
    using deferred_reply_succeeds [OF assms(1)] by blast
  then show ?thesis using passive_commit_succeeds [of t1] r by (simp add: eigrp_fsm_event_lr_fcs_def Let_def)
qed

text \<open>A new diffusing computation: the destination stays as it is, or settles at once when there is nobody to ask.\<close>

definition frozen :: "eigrp_prefix_descriptor \<Rightarrow> eigrp_prefix_descriptor \<Rightarrow> bool" where
  "frozen pd pd' \<longleftrightarrow> fdistance pd' = fdistance pd \<and> pd_distance pd' = pd_distance pd \<and> rdistance pd' = rdistance pd
     \<and> pd_reported_metric pd' = pd_reported_metric pd"

lemma start_queries_result:
  assumes "start_queries t pd = Some (t', pd')"
  shows "if eigrp_nbr_count t \<noteq> 0
    then state pd' = state pd \<and> rij pd' = [] \<and> query_origin pd' = query_origin pd \<and> frozen pd pd'
      \<and> internal_routes pd' = internal_routes pd \<and> external_routes pd' = external_routes pd \<and> t_active pd' = None
    else settled pd' \<and> map erase (eigrp_topology_routes pd') = map erase (eigrp_topology_routes pd)"
    and "queues_ok pd' = queues_ok pd"
proof -
  let ?pd = "eigrp_fsm_reply_status_clear (eigrp_fsm_active_timer_stop pd)"
  have r: "internal_routes ?pd = internal_routes pd" "external_routes ?pd = external_routes pd" by (simp_all add: stop_clear_defs)
  then have q: "queues_ok ?pd = queues_ok pd" "eigrp_topology_routes ?pd = eigrp_topology_routes pd"
    by (simp_all add: queues_ok_def eigrp_topology_routes_def)
  show "if eigrp_nbr_count t \<noteq> 0
    then state pd' = state pd \<and> rij pd' = [] \<and> query_origin pd' = query_origin pd \<and> frozen pd pd'
      \<and> internal_routes pd' = internal_routes pd \<and> external_routes pd' = external_routes pd \<and> t_active pd' = None
    else settled pd' \<and> map erase (eigrp_topology_routes pd') = map erase (eigrp_topology_routes pd)"
    using assms lr_result [of t ?pd t' pd'] q
    by (auto simp: start_queries_def Let_def need_query_def stop_clear_defs frozen_def split: if_splits)
  show "queues_ok pd' = queues_ok pd"
    using assms lr_result(2) [of t ?pd t' pd'] q queues_ok_cong [of pd' pd]
    by (auto simp: start_queries_def Let_def need_query_def stop_clear_defs split: if_splits)
qed

lemma start_queries_succeeds: "memory_ok t \<Longrightarrow> \<exists>t' pd'. start_queries t pd = Some (t', pd')"
  using lr_succeeds by (simp add: start_queries_def Let_def)

subsection \<open>Keeping the state\<close>

lemma keep_state_reply_result: "keep_state_reply t pd msg = Some (t', pd') \<Longrightarrow> pd' = pd"
  by (auto simp: keep_state_reply_def split: if_splits option.splits)

lemma keep_state_reply_succeeds:
  assumes "memory_ok t" and "msg_route msg \<noteq> None"
  shows "\<exists>t' pd'. keep_state_reply t pd msg = Some (t', pd')"
proof -
  have a: "alloc_ok t Alloc_route" using assms(1) by (simp add: memory_ok_def)
  have s: "\<exists>t'. eigrp_reply_send_route t n pd r f = Some t'" for n r f using sends_succeed(2) [OF assms(1)] by blast
  have r: "\<exists>t'. eigrp_fsm_active_non_successor_reply_send t n pd = Some t'" for n
    using a s by (auto simp: eigrp_fsm_active_non_successor_reply_send_def split: option.split)
  obtain m where m: "msg_route msg = Some m" using assms(2) by auto
  obtain t1 t2 where "eigrp_reply_send t (msg_adv_router msg) pd = Some t1"
    "eigrp_fsm_active_non_successor_reply_send t (msg_adv_router msg) pd = Some t2"
    using s r by (metis eigrp_reply_send_def)
  then show ?thesis using m by (simp add: keep_state_reply_def)
qed

lemma keep_state_active: "state pd \<noteq> EIGRP_FSM_STATE_PASSIVE \<Longrightarrow> eigrp_fsm_event_keep_state t pd msg = keep_state_reply t pd msg"
  by (simp add: eigrp_fsm_event_keep_state_def)

definition elected :: "eigrp_prefix_descriptor \<Rightarrow> eigrp_route_descriptor option" where
  "elected pd = (case eigrp_topology_route_select pd of Some r \<Rightarrow> Some r | None \<Rightarrow> eigrp_topology_route_read pd)"

text \<open>Adopting the metric of the elected route; the feasible distance only falls.\<close>

definition adopt_metric :: "eigrp_prefix_descriptor \<Rightarrow> eigrp_route_descriptor \<Rightarrow> eigrp_prefix_descriptor" where
  "adopt_metric pd r =
     (if eigrp_metrics_match (pd_reported_metric pd) (total_metric r) then pd
      else need_update (pd\<lparr>pd_distance := distance r, rdistance := distance r,
             fdistance := (if distance r < fdistance pd then distance r else fdistance pd), pd_reported_metric := total_metric r\<rparr>))"

lemma keep_state_steps:
  assumes "state pd = EIGRP_FSM_STATE_PASSIVE" and "eigrp_fsm_event_keep_state t pd msg = Some (t', pd')"
  obtains r t1 t2 pd2 where "elected pd = Some r" "t1 = t \<or> t1 = changes_add t (adopt_metric pd r)"
    "eigrp_update_routing_table t1 (eigrp_topology_update_node_flags t1 (adopt_metric pd r)) = Some (t2, pd2)"
    "keep_state_reply t2 pd2 msg = Some (t', pd')"
proof -
  obtain r where r: "elected pd = Some r"
    using assms by (auto simp: eigrp_fsm_event_keep_state_def elected_def split: option.splits)
  have "\<exists>t1 t2 pd2. (t1 = t \<or> t1 = changes_add t (adopt_metric pd r))
      \<and> eigrp_update_routing_table t1 (eigrp_topology_update_node_flags t1 (adopt_metric pd r)) = Some (t2, pd2)
      \<and> keep_state_reply t2 pd2 msg = Some (t', pd')"
    using assms r
    by (auto simp: eigrp_fsm_event_keep_state_def elected_def [symmetric] adopt_metric_def Let_def split: option.splits if_splits)
  then show thesis using that [OF r] by blast
qed

lemma keep_state_passive:
  assumes "state pd = EIGRP_FSM_STATE_PASSIVE" and "eigrp_fsm_event_keep_state t pd msg = Some (t', pd')"
  obtains r where "elected pd = Some r" "alike (adopt_metric pd r) pd'"
proof -
  obtain r t1 t2 pd2 where r: "elected pd = Some r"
    and rt: "eigrp_update_routing_table t1 (eigrp_topology_update_node_flags t1 (adopt_metric pd r)) = Some (t2, pd2)"
    and k: "keep_state_reply t2 pd2 msg = Some (t', pd')" by (rule keep_state_steps [OF assms])
  have "alike (adopt_metric pd r) pd2" by (rule alike_trans [OF node_flags_alike routing_table_alike(1) [OF rt]])
  then show thesis using that [OF r] keep_state_reply_result [OF k] by simp
qed

lemma adopt_metric_fields:
  "state (adopt_metric pd r) = state pd" "rij (adopt_metric pd r) = rij pd" "query_origin (adopt_metric pd r) = query_origin pd"
  "t_active (adopt_metric pd r) = t_active pd" "fdistance (adopt_metric pd r) \<le> fdistance pd"
  "fdistance pd \<le> pd_distance pd \<Longrightarrow> fdistance (adopt_metric pd r) \<le> pd_distance (adopt_metric pd r)"
  "rdistance pd = pd_distance pd \<Longrightarrow> rdistance (adopt_metric pd r) = pd_distance (adopt_metric pd r)"
  "internal_routes (adopt_metric pd r) = internal_routes pd" "external_routes (adopt_metric pd r) = external_routes pd"
  by (auto simp: adopt_metric_def)

lemma keep_state_succeeds:
  assumes m: "memory_ok t" and r: "msg_route msg \<noteq> None" and ne: "state pd = EIGRP_FSM_STATE_PASSIVE \<Longrightarrow> eigrp_topology_routes pd \<noteq> []"
  shows "\<exists>t' pd'. eigrp_fsm_event_keep_state t pd msg = Some (t', pd')"
proof (cases "state pd = EIGRP_FSM_STATE_PASSIVE")
  case False
  then show ?thesis using keep_state_reply_succeeds [OF m r] by (simp add: keep_state_active)
next
  case True
  then have "eigrp_topology_route_read pd \<noteq> None" using ne by (simp add: route_read_none)
  then obtain x where x: "elected pd = Some x"
    by (cases "eigrp_topology_route_select pd") (auto simp: elected_def)
  have k: "\<exists>t' pd'. (case eigrp_update_routing_table t1 (eigrp_topology_update_node_flags t1 pd1) of None \<Rightarrow> None
      | Some (t, pd) \<Rightarrow> keep_state_reply t pd msg) = Some (t', pd')" if mm: "memory_ok t1" for t1 pd1
  proof -
    obtain t2 pd2 where "eigrp_update_routing_table t1 (eigrp_topology_update_node_flags t1 pd1) = Some (t2, pd2)" "memory_ok t2"
      using routing_table_succeeds [OF mm] by blast
    then show ?thesis using keep_state_reply_succeeds [OF _ r] by simp
  qed
  have m': "memory_ok (changes_add t pd1)" for pd1 using m by (simp add: memory_ok_def)
  show ?thesis
    using True x k [OF m] k [OF m'] by (simp add: eigrp_fsm_event_keep_state_def elected_def [symmetric] Let_def)
qed

subsection \<open>Classification\<close>

lemma reply_status_remove_frame:
  "eigrp_fsm_reply_status_remove pd n = (b, pd') \<Longrightarrow> pd' = pd\<lparr>rij := rij pd'\<rparr> \<and> b = (rij pd' \<noteq> [])
     \<and> set (rij pd') \<subseteq> set (rij pd) \<and> (distinct (map rs_neighbor (rij pd)) \<longrightarrow> distinct (map rs_neighbor (rij pd')))"
  by (auto simp: eigrp_fsm_reply_status_remove_def Let_def split: option.splits
      intro: distinct_map_remove1 dest: in_set_remove1_D)

definition rij_shrinks :: "eigrp_prefix_descriptor \<Rightarrow> eigrp_prefix_descriptor \<Rightarrow> bool" where
  "rij_shrinks pd pd' \<longleftrightarrow> set (rij pd') \<subseteq> set (rij pd) \<and> (distinct (map rs_neighbor (rij pd)) \<longrightarrow> distinct (map rs_neighbor (rij pd')))"

lemma event_switch_frame:
  assumes "event_switch s pd opc ch r = (ev, pd')"
  shows "pd' = pd\<lparr>rij := rij pd'\<rparr> \<and> rij_shrinks pd pd'"
proof -
  have "pd = pd\<lparr>rij := rij pd\<rparr>" by simp
  then show ?thesis
    using assms by (cases s)
      (auto simp: reply_received_def rij_shrinks_def Let_def split: if_splits prod.splits dest!: reply_status_remove_frame)
qed

text \<open>Which events a state can produce.\<close>

lemma event_switch_events:
  assumes "event_switch s pd opc ch r = (ev, pd')"
  shows "s = EIGRP_FSM_STATE_PASSIVE \<Longrightarrow> ev \<in> {EIGRP_FSM_KEEP_STATE, EIGRP_FSM_EVENT_Q_FCN, EIGRP_FSM_EVENT_NQ_FCN} \<and> pd' = pd"
    and "ev = EIGRP_FSM_EVENT_LR_FCS \<Longrightarrow> eigrp_topology_route_select pd \<noteq> None"
    and "NSM s ev = Fn_dinc \<Longrightarrow> opc = EIGRP_OPC_UPDATE"
  using assms by (cases s; auto simp: Let_def split: if_splits prod.splits)+

lemma same_but_countsD:
  assumes "same_but_counts t t'"
  shows "memory_ok t' = memory_ok t" "eigrp_nbr_count t' = eigrp_nbr_count t"
proof -
  have e: "t' = t\<lparr>nbrs := nbrs t'\<rparr>" and n: "\<And>n. nbr_state (nbrs t' n) = nbr_state (nbrs t n)"
    using assms by (auto simp: same_but_counts_def) (metis eigrp_nbr.select_convs(3) eigrp_nbr.surjective eigrp_nbr.update_convs(4))
  have a: "alloc_ok t' = alloc_ok t" "eiflist t' = eiflist t" by (subst e, simp)+
  then show "memory_ok t' = memory_ok t" by (simp add: memory_ok_def)
  show "eigrp_nbr_count t' = eigrp_nbr_count t" by (simp add: eigrp_nbr_count_def a n)
qed

text \<open>A message the code may receive for a destination: not a connected route, consistent with what is stored.\<close>

definition msg_ok :: "nat \<Rightarrow> eigrp_prefix_descriptor \<Rightarrow> eigrp_fsm_action_message \<Rightarrow> bool" where
  "msg_ok nid pd msg \<longleftrightarrow> data_type msg \<noteq> EIGRP_CONNECTED \<and> msg_consistent pd msg
     \<and> (msg_route msg = None \<longrightarrow> nid \<notin> set (map rid (eigrp_topology_routes pd)))"

lemma msg_ok_cong: "eigrp_topology_routes pd = eigrp_topology_routes pd' \<Longrightarrow> msg_ok nid pd msg = msg_ok nid pd' msg"
  by (simp only: msg_ok_def msg_consistent_def)

lemma msg_with_route_ok:
  assumes "msg_with_route nid t pd msg = Some msg'" and "msg_ok nid pd msg"
  shows "msg_consistent pd msg'" "data_type msg' = data_type msg" "packet_type msg' = packet_type msg"
    "msg_adv_router msg' = msg_adv_router msg" "transient_route msg' = transient_route msg"
proof -
  show "msg_consistent pd msg'"
    using assms by (auto simp: msg_with_route_def msg_ok_def msg_consistent_def eigrp_topology_route_create_def
        split: if_splits option.splits)
  show "data_type msg' = data_type msg" "packet_type msg' = packet_type msg" "msg_adv_router msg' = msg_adv_router msg"
    "transient_route msg' = transient_route msg"
    using assms(1) by (auto simp: msg_with_route_def split: if_splits option.splits)
qed

lemma msg_with_route_for: "msg_with_route nid t pd msg = Some msg' \<Longrightarrow> queues_ok_for pd msg \<Longrightarrow> queues_ok_for pd msg'"
  by (auto simp: msg_with_route_def queues_ok_for_def queues_ok_but split: if_splits option.splits)

lemma event_select_result:
  assumes s: "eigrp_fsm_event_select nid t pd msg = Some (ev, t', pd', msg')" and q: "queues_ok_for pd msg" and m: "msg_ok nid pd msg"
  shows "queues_ok pd'" "frozen pd pd'" "state pd' = state pd" "query_origin pd' = query_origin pd" "t_active pd' = t_active pd"
    "rij_shrinks pd pd'" "same_but_counts t t'" "packet_type msg' = packet_type msg" "msg_ok nid pd' msg'" "msg_route msg' \<noteq> None"
    "state pd = EIGRP_FSM_STATE_PASSIVE \<Longrightarrow> rij pd' = rij pd"
    "\<exists>pd1 ch r. event_switch (state pd) pd1 (packet_type msg) ch r = (ev, pd')
       \<and> internal_routes pd' = internal_routes pd1 \<and> external_routes pd' = external_routes pd1 \<and> fdistance pd' = fdistance pd1"
proof -
  obtain msg1 where w: "msg_with_route nid t pd msg = Some msg1" using s by (auto simp: eigrp_fsm_event_select_def split: option.splits)
  note w' = msg_with_route_ok [OF w m]
  have q1: "queues_ok_for pd msg1" by (rule msg_with_route_for [OF w q])
  obtain ch pd1 msg2 r where u: "eigrp_topology_update_distance t pd msg1 = Some (ch, t', pd1, msg2)" and r: "msg_route msg2 = Some r"
    and e: "event_switch (state pd) pd1 (packet_type msg2) ch r = (ev, pd')" and m': "msg' = msg2\<lparr>change := ch\<rparr>"
    using s w by (auto simp: eigrp_fsm_event_select_def split: option.splits prod.splits)
  have dt: "data_type msg1 \<noteq> EIGRP_CONNECTED" using m w'(2) by (simp add: msg_ok_def)
  note f = update_distance_frame [OF u]
  note sq = same_but_queuesD [OF f(1)]
  have p: "pd' = pd1\<lparr>rij := rij pd'\<rparr>" and sh: "rij_shrinks pd1 pd'" using event_switch_frame [OF e] by auto
  have fl: "internal_routes pd' = internal_routes pd1" "external_routes pd' = external_routes pd1" "fdistance pd' = fdistance pd1"
    "pd_distance pd' = pd_distance pd1" "rdistance pd' = rdistance pd1" "pd_reported_metric pd' = pd_reported_metric pd1"
    "state pd' = state pd1" "query_origin pd' = query_origin pd1" "t_active pd' = t_active pd1"
    by (subst p, simp)+
  show "queues_ok pd'" using update_distance_queues_ok [OF q1 w'(1) dt u] fl by (simp add: queues_ok_def eigrp_topology_routes_def)
  show "frozen pd pd'" "state pd' = state pd" "query_origin pd' = query_origin pd" "t_active pd' = t_active pd"
    using fl sq by (simp_all add: frozen_def)
  show "rij_shrinks pd pd'" using sh sq(1) by (simp add: rij_shrinks_def)
  show "same_but_counts t t'" by (rule f(2))
  show "packet_type msg' = packet_type msg" using m' f(3) w'(3) by simp
  have "msg_consistent pd1 msg2" by (rule msg_consistent_after [OF q1 w'(1) dt u])
  then show "msg_ok nid pd' msg'" using m' f(5) dt r fl by (simp add: msg_ok_def msg_consistent_def eigrp_topology_routes_def)
  show "msg_route msg' \<noteq> None" using m' r by simp
  show "rij pd' = rij pd" if "state pd = EIGRP_FSM_STATE_PASSIVE" using event_switch_events(1) [OF e that] sq(1) by simp
  show "\<exists>pd1 ch r. event_switch (state pd) pd1 (packet_type msg) ch r = (ev, pd')
       \<and> internal_routes pd' = internal_routes pd1 \<and> external_routes pd' = external_routes pd1 \<and> fdistance pd' = fdistance pd1"
    using e f(3) w'(3) fl(1-3) by auto
qed

subsection \<open>One event\<close>

fun dual_arrow :: "eigrp_fsm_states \<Rightarrow> eigrp_fsm_states \<Rightarrow> bool" where
  "dual_arrow EIGRP_FSM_STATE_PASSIVE s = (s \<in> {EIGRP_FSM_STATE_PASSIVE, EIGRP_FSM_STATE_ACTIVE_1, EIGRP_FSM_STATE_ACTIVE_3})"
| "dual_arrow EIGRP_FSM_STATE_ACTIVE_0 s =
     (s \<in> {EIGRP_FSM_STATE_ACTIVE_0, EIGRP_FSM_STATE_PASSIVE, EIGRP_FSM_STATE_ACTIVE_1, EIGRP_FSM_STATE_ACTIVE_2})"
| "dual_arrow EIGRP_FSM_STATE_ACTIVE_1 s =
     (s \<in> {EIGRP_FSM_STATE_ACTIVE_1, EIGRP_FSM_STATE_PASSIVE, EIGRP_FSM_STATE_ACTIVE_0, EIGRP_FSM_STATE_ACTIVE_2})"
| "dual_arrow EIGRP_FSM_STATE_ACTIVE_2 s =
     (s \<in> {EIGRP_FSM_STATE_ACTIVE_2, EIGRP_FSM_STATE_PASSIVE, EIGRP_FSM_STATE_ACTIVE_3})"
| "dual_arrow EIGRP_FSM_STATE_ACTIVE_3 s =
     (s \<in> {EIGRP_FSM_STATE_ACTIVE_3, EIGRP_FSM_STATE_PASSIVE, EIGRP_FSM_STATE_ACTIVE_2})"

text \<open>What one step of the machine may do to a destination; \<open>k\<close> is the number of neighbours.\<close>

definition dual_move :: "nat \<Rightarrow> eigrp_prefix_descriptor \<Rightarrow> eigrp_prefix_descriptor \<Rightarrow> bool" where
  "dual_move k pd pd' \<longleftrightarrow> queues_ok pd' \<and> dual_arrow (state pd) (state pd')
     \<and> (state pd' \<noteq> EIGRP_FSM_STATE_PASSIVE \<longrightarrow> frozen pd pd')
     \<and> (state pd \<noteq> EIGRP_FSM_STATE_PASSIVE \<and> state pd' = EIGRP_FSM_STATE_PASSIVE \<longrightarrow> settled pd')
     \<and> (state pd = EIGRP_FSM_STATE_PASSIVE \<and> state pd' = EIGRP_FSM_STATE_PASSIVE
        \<longrightarrow> settled pd' \<and> k = 0 \<or> fdistance pd' \<le> fdistance pd \<and> query_origin pd' = query_origin pd \<and> t_active pd' = t_active pd
            \<and> rij pd' = rij pd \<and> (fdistance pd \<le> pd_distance pd \<longrightarrow> fdistance pd' \<le> pd_distance pd')
            \<and> (rdistance pd = pd_distance pd \<longrightarrow> rdistance pd' = pd_distance pd'))
     \<and> (state pd = EIGRP_FSM_STATE_PASSIVE \<and> state pd' \<noteq> EIGRP_FSM_STATE_PASSIVE \<longrightarrow> rij pd' = [] \<and> t_active pd' = None)
     \<and> (state pd' \<noteq> EIGRP_FSM_STATE_PASSIVE \<longrightarrow> rij pd' = [] \<or> rij_shrinks pd pd')
     \<and> (state pd' = EIGRP_FSM_STATE_ACTIVE_0 \<or> state pd' = EIGRP_FSM_STATE_ACTIVE_1 \<longrightarrow> query_origin pd' = query_origin pd)"

lemma dual_move_keep:
  assumes "queues_ok pd" and "eigrp_fsm_event_keep_state t pd msg = Some (t', pd')"
  shows "dual_move k pd pd'"
proof (cases "state pd = EIGRP_FSM_STATE_PASSIVE")
  case True
  obtain r where a: "alike (adopt_metric pd r) pd'" by (rule keep_state_passive [OF True assms(2)])
  have "queues_ok (adopt_metric pd r)" using assms(1) queues_ok_cong [of "adopt_metric pd r" pd] by (simp add: adopt_metric_fields)
  then show ?thesis
    using alike_queues_ok [OF a] alike_fields [OF a] adopt_metric_fields [of pd r] True by (simp add: dual_move_def)
next
  case False
  then have "pd' = pd" using assms(2) keep_state_reply_result by (simp add: keep_state_active)
  then show ?thesis using False assms(1) by (cases "state pd") (auto simp: dual_move_def frozen_def rij_shrinks_def)
qed

lemma dual_move_queries:
  assumes "queues_ok pd" and "start_queries t (pd\<lparr>state := s, query_origin := qo\<rparr>) = Some (t', pd')"
    and "dual_arrow (state pd) s" and "s \<noteq> EIGRP_FSM_STATE_PASSIVE" and "dual_arrow (state pd) EIGRP_FSM_STATE_PASSIVE"
    and "s = EIGRP_FSM_STATE_ACTIVE_1 \<Longrightarrow> qo = query_origin pd" and "s \<noteq> EIGRP_FSM_STATE_ACTIVE_0"
  shows "dual_move (eigrp_nbr_count t) pd pd'"
  using start_queries_result [OF assms(2)] assms(1,3-7) queues_ok_cong [of "pd\<lparr>state := s, query_origin := qo\<rparr>" pd]
  by (cases "eigrp_nbr_count t = 0") (auto simp: dual_move_def frozen_def settled_def)

lemma fsm_call_move:
  assumes q: "queues_ok pd" and c: "fsm_call (NSM (state pd) ev) t pd msg = Some (t', pd')"
    and p: "state pd = EIGRP_FSM_STATE_PASSIVE \<Longrightarrow> ev \<in> {EIGRP_FSM_KEEP_STATE, EIGRP_FSM_EVENT_Q_FCN, EIGRP_FSM_EVENT_NQ_FCN}"
  shows "dual_move (eigrp_nbr_count t) pd pd'"
proof (cases "NSM (state pd) ev")
  case Fn_nq_fcn
  then have s: "state pd = EIGRP_FSM_STATE_PASSIVE" by (cases "(state pd, ev)" rule: NSM.cases) auto
  have "pd\<lparr>state := EIGRP_FSM_STATE_ACTIVE_1\<rparr> = pd\<lparr>state := EIGRP_FSM_STATE_ACTIVE_1, query_origin := query_origin pd\<rparr>" by simp
  then show ?thesis using c Fn_nq_fcn s dual_move_queries [OF q, where s = EIGRP_FSM_STATE_ACTIVE_1 and qo = "query_origin pd"]
    by (simp add: eigrp_fsm_event_nq_fcn_def)
next
  case Fn_lr
  then have s: "state pd = EIGRP_FSM_STATE_ACTIVE_1 \<or> state pd = EIGRP_FSM_STATE_ACTIVE_3"
    by (cases "(state pd, ev)" rule: NSM.cases) auto
  then show ?thesis using c Fn_lr lr_result(1,2) [of t pd t' pd'] q by (auto simp: dual_move_def settled_def)
next
  case Fn_q_fcn
  then have s: "state pd = EIGRP_FSM_STATE_PASSIVE" by (cases "(state pd, ev)" rule: NSM.cases) auto
  then show ?thesis using c Fn_q_fcn dual_move_queries [OF q, where s = EIGRP_FSM_STATE_ACTIVE_3 and qo = "msg_adv_router msg"]
    by (simp add: eigrp_fsm_event_q_fcn_def)
next
  case Fn_lr_fcs
  then have s: "state pd = EIGRP_FSM_STATE_ACTIVE_0 \<or> state pd = EIGRP_FSM_STATE_ACTIVE_2"
    by (cases "(state pd, ev)" rule: NSM.cases) auto
  obtain r where "settled pd'" "queues_ok pd' = queues_ok pd"
    using c Fn_lr_fcs by (auto elim: lr_fcs_result)
  then show ?thesis using s q by (auto simp: dual_move_def settled_def)
next
  case Fn_dinc
  then show ?thesis using c by simp
next
  case Fn_qact
  then have s: "state pd \<noteq> EIGRP_FSM_STATE_PASSIVE" by (cases "(state pd, ev)" rule: NSM.cases) auto
  then show ?thesis using c Fn_qact q queues_ok_cong [of pd' pd]
    by (cases "state pd") (auto simp: eigrp_fsm_event_qact_def dual_move_def frozen_def rij_shrinks_def)
next
  case Fn_lr_fcn
  then have s: "state pd = EIGRP_FSM_STATE_ACTIVE_0 \<or> state pd = EIGRP_FSM_STATE_ACTIVE_2"
    by (cases "(state pd, ev)" rule: NSM.cases) auto
  let ?s = "if state pd = EIGRP_FSM_STATE_ACTIVE_0 then EIGRP_FSM_STATE_ACTIVE_1 else EIGRP_FSM_STATE_ACTIVE_3"
  have "pd\<lparr>state := ?s\<rparr> = pd\<lparr>state := ?s, query_origin := query_origin pd\<rparr>" by simp
  then show ?thesis using c Fn_lr_fcn s dual_move_queries [OF q, where s = ?s and qo = "query_origin pd"]
    by (auto simp: eigrp_fsm_event_lr_fcn_def)
next
  case Fn_keep_state
  then show ?thesis using c dual_move_keep [OF q] by simp
qed

text \<open>Receiving the message first changes nothing the machine decides on.\<close>

lemma frozen_trans: "frozen pd pd1 \<Longrightarrow> frozen pd1 pd2 \<Longrightarrow> frozen pd pd2"
  by (simp add: frozen_def)

lemma rij_shrinks_trans: "rij_shrinks pd pd1 \<Longrightarrow> rij_shrinks pd1 pd2 \<Longrightarrow> rij_shrinks pd pd2"
  by (auto simp: rij_shrinks_def)

lemma dual_move_pre:
  assumes s: "eigrp_fsm_event_select nid t pd msg = Some (ev, t', pd1, msg')" and q: "queues_ok_for pd msg" and m: "msg_ok nid pd msg"
    and d: "dual_move k pd1 pd2"
  shows "dual_move k pd pd2"
proof -
  note r = event_select_result [OF s q m]
  have "frozen pd pd2" if "frozen pd1 pd2" using frozen_trans [OF r(2) that] .
  moreover have "rij_shrinks pd pd2" if "rij_shrinks pd1 pd2" using rij_shrinks_trans [OF r(6) that] .
  moreover have "fdistance pd1 = fdistance pd" "pd_distance pd1 = pd_distance pd" "rdistance pd1 = rdistance pd"
    using r(2) by (simp_all add: frozen_def)
  ultimately show ?thesis using d r(3-5,11) by (auto simp: dual_move_def)
qed

lemma NSM_no_dinc: "NSM EIGRP_FSM_STATE_ACTIVE_0 ev \<noteq> Fn_dinc" "NSM EIGRP_FSM_STATE_ACTIVE_2 ev \<noteq> Fn_dinc"
  "NSM EIGRP_FSM_STATE_PASSIVE ev \<noteq> Fn_dinc"
  by (cases ev; simp)+

lemma NSM_dinc: "NSM s ev = Fn_dinc \<Longrightarrow> (s = EIGRP_FSM_STATE_ACTIVE_1 \<or> s = EIGRP_FSM_STATE_ACTIVE_3) \<and> ev = EIGRP_FSM_EVENT_DINC"
  by (cases "(s, ev)" rule: NSM.cases) auto

text \<open>
  The second dispatch of a distance increase classifies an UPDATE in Active 0 or Active 2, which keeps the state: the
  destination does not change any more.
\<close>

lemma dinc_result:
  assumes d: "eigrp_fsm_event_dinc nid t pd msg = Some (t', pd')" and q: "queues_ok pd" and m: "msg_ok nid pd msg"
    and u: "packet_type msg = EIGRP_OPC_UPDATE" and s: "state pd = EIGRP_FSM_STATE_ACTIVE_1 \<or> state pd = EIGRP_FSM_STATE_ACTIVE_3"
  shows "queues_ok pd'" "frozen pd pd'" "query_origin pd' = query_origin pd" "t_active pd' = t_active pd" "rij_shrinks pd pd'"
    "state pd' = (if state pd = EIGRP_FSM_STATE_ACTIVE_1 then EIGRP_FSM_STATE_ACTIVE_0 else EIGRP_FSM_STATE_ACTIVE_2)"
proof -
  let ?s = "if state pd = EIGRP_FSM_STATE_ACTIVE_1 then EIGRP_FSM_STATE_ACTIVE_0 else EIGRP_FSM_STATE_ACTIVE_2"
  let ?pd = "pd\<lparr>state := ?s\<rparr>"
  have q': "queues_ok ?pd" using q queues_ok_cong [of ?pd pd] by simp
  have m': "msg_ok nid ?pd msg" using m msg_ok_cong [of ?pd pd] by (simp add: eigrp_topology_routes_def)
  have "queues_ok pd' \<and> frozen pd pd' \<and> query_origin pd' = query_origin pd \<and> t_active pd' = t_active pd \<and> rij_shrinks pd pd'
    \<and> state pd' = ?s"
  proof (cases "rij pd = []")
    case False
    then show ?thesis using d q' by (auto simp: eigrp_fsm_event_dinc_def Let_def frozen_def rij_shrinks_def)
  next
    case True
    then obtain ev t1 pd1 msg1 where sel: "eigrp_fsm_event_select nid t ?pd msg = Some (ev, t1, pd1, msg1)"
      and call: "fsm_call (NSM (state pd1) ev) t1 pd1 msg1 = Some (t', pd')"
      using d by (auto simp: eigrp_fsm_event_dinc_def Let_def split: option.splits)
    note r = event_select_result [OF sel queues_ok_forI [OF q'] m']
    have ev: "ev = EIGRP_FSM_KEEP_STATE" using r(12) u by (auto simp: EIGRP_OPC_UPDATE_def EIGRP_OPC_QUERY_def EIGRP_OPC_REPLY_def split: if_splits)
    have st: "state pd1 = ?s" using r(3) by simp
    then have "NSM (state pd1) ev = Fn_keep_state" using ev by simp
    then have "keep_state_reply t1 pd1 msg1 = Some (t', pd')" using call st by (simp add: keep_state_active split: if_splits)
    then have "pd' = pd1" by (rule keep_state_reply_result)
    then show ?thesis using r(1,2,4-6) st by (simp add: frozen_def rij_shrinks_def)
  qed
  then show "queues_ok pd'" "frozen pd pd'" "query_origin pd' = query_origin pd" "t_active pd' = t_active pd" "rij_shrinks pd pd'"
    "state pd' = ?s" by blast+
qed

lemma event_move:
  assumes e: "eigrp_fsm_event nid t pd msg = Some (t', pd')" and q: "queues_ok_for pd msg" and m: "msg_ok nid pd msg"
  shows "dual_move (eigrp_nbr_count t) pd pd'"
proof -
  obtain ev t1 pd1 msg1 where s: "eigrp_fsm_event_select nid t pd msg = Some (ev, t1, pd1, msg1)"
    and c: "if NSM (state pd1) ev = Fn_dinc then eigrp_fsm_event_dinc nid t1 pd1 msg1 = Some (t', pd')
            else fsm_call (NSM (state pd1) ev) t1 pd1 msg1 = Some (t', pd')"
    using e by (auto simp: eigrp_fsm_event_def split: option.splits if_splits)
  note r = event_select_result [OF s q m]
  have n: "eigrp_nbr_count t1 = eigrp_nbr_count t" using same_but_countsD(2) [OF r(7)] .
  have "dual_move (eigrp_nbr_count t) pd1 pd'"
  proof (cases "NSM (state pd1) ev = Fn_dinc")
    case True
    then have st: "state pd1 = EIGRP_FSM_STATE_ACTIVE_1 \<or> state pd1 = EIGRP_FSM_STATE_ACTIVE_3" by (simp add: NSM_dinc)
    have "packet_type msg1 = EIGRP_OPC_UPDATE" using r(3,8,12) True event_switch_events(3) by auto
    note di = dinc_result [OF _ r(1,9) this st]
    show ?thesis using True c di [of t1 t' pd'] st by (auto simp: dual_move_def)
  next
    case False
    then have "fsm_call (NSM (state pd1) ev) t1 pd1 msg1 = Some (t', pd')" using c by simp
    moreover have "ev \<in> {EIGRP_FSM_KEEP_STATE, EIGRP_FSM_EVENT_Q_FCN, EIGRP_FSM_EVENT_NQ_FCN}" if "state pd1 = EIGRP_FSM_STATE_PASSIVE"
      using r(3,12) that event_switch_events(1) by metis
    ultimately show ?thesis using fsm_call_move [OF r(1)] n by metis
  qed
  then show ?thesis by (rule dual_move_pre [OF s q m])
qed

subsection \<open>No event faults\<close>

text \<open>
  What the caller guarantees: memory, links with a bandwidth, and a message that names its link directly or through the
  advertising neighbour.
\<close>

definition links_ok :: "eigrp_topo \<Rightarrow> bool" where
  "links_ok t \<longleftrightarrow> (\<forall>i. intf_bandwidth (intfs t i) \<noteq> 0)"

definition msg_linked :: "eigrp_topo \<Rightarrow> eigrp_fsm_action_message \<Rightarrow> bool" where
  "msg_linked t msg \<longleftrightarrow> (\<exists>r i. msg_route msg = Some r \<and> rt_ei r = Some i) \<or> (\<exists>n i. msg_adv_router msg = Some n \<and> nbr_ei (nbrs t n) = Some i)"

lemma bandwidth_to_scaled_defined: "bw \<noteq> 0 \<Longrightarrow> eigrp_bandwidth_to_scaled bw \<noteq> None"
  by (simp add: eigrp_bandwidth_to_scaled_def Let_def)

lemma ucast_up_zero: "(ucast (w :: u32) :: u64) = 0 \<longleftrightarrow> w = 0"
  by transfer (auto simp: take_bit_take_bit min_def)

lemma route_total_succeeds:
  assumes "links_ok t" and "rt_ei r = Some i"
  shows "route_total t r \<noteq> None"
proof -
  have n: "intf_bandwidth (intfs t i) \<noteq> 0" using assms(1) by (simp add: links_ok_def)
  then have "(ucast (intf_bandwidth (intfs t i)) :: u64) \<noteq> 0" by (metis ucast_up_zero)
  then obtain bw where "eigrp_bandwidth_to_scaled (ucast (intf_bandwidth (intfs t i))) = Some bw"
    using bandwidth_to_scaled_defined by blast
  then show ?thesis using assms(2) by (simp add: route_total_def eigrp_metric_total_calculate_def Let_def)
qed

lemma route_adopt_linked:
  assumes "msg_linked t msg" and "msg_route msg = Some r"
  shows "\<exists>i. rt_ei (route_adopt t pd msg r) = Some i"
  using assms by (auto simp: msg_linked_def route_adopt_def Let_def split: option.split)

lemma distance_switch_succeeds:
  assumes "links_ok t" and "rt_ei r = Some i"
  shows "distance_switch t pd msg r u \<noteq> None"
proof -
  let ?m = "metrics msg"
  obtain r' where "route_total t (route_reported r ?m (ucast (eigrp_metric_calculate (inst t) ?m))) = Some r'"
    using route_total_succeeds [OF assms(1), of "route_reported r ?m (ucast (eigrp_metric_calculate (inst t) ?m))" i] assms(2)
    by (auto simp: route_reported_def)
  then show ?thesis by (simp add: distance_switch_def Let_def)
qed

lemma update_distance_succeeds:
  assumes l: "links_ok t" and m: "msg_linked t msg" and r: "msg_route msg = Some r"
  shows "eigrp_topology_update_distance t pd msg \<noteq> None"
proof -
  obtain i where i: "rt_ei (route_adopt t pd msg r) = Some i" using route_adopt_linked [OF m r] by blast
  have "\<exists>y. distance_switch t pd msg (route_adopt t pd msg r) b = Some y" for b using distance_switch_succeeds [OF l i] by blast
  then obtain y where "distance_switch t pd msg (route_adopt t pd msg r)
      ((in_queue (internal_routes pd) r \<or> in_queue (external_routes pd) r) \<and>
        in_queue (external_routes pd) r = eigrp_topology_route_external r \<and> eigrp_metrics_match (metrics msg) (reported_metric r)) = Some y"
    by blast
  then show ?thesis using r
    by (simp add: eigrp_topology_update_distance_def Let_def split: option.split prod.split bool.split)
qed

lemma update_distance_linked:
  assumes u: "eigrp_topology_update_distance t pd msg = Some (ch, t', pd', msg')" and m: "msg_linked t msg"
  shows "msg_linked t' msg'"
proof -
  have e: "nbr_ei (nbrs t' n) = nbr_ei (nbrs t n)" for n
    using update_distance_frame(2) [OF u] unfolding same_but_counts_def
    by (metis eigrp_nbr.select_convs(1) eigrp_nbr.surjective eigrp_nbr.update_convs(4))
  have k: "rt_ei r' = rt_ei r" if "distance_switch t pd msg r b = Some (Some (c, r'))" for r r' b c
    using that by (auto simp: distance_switch_def Let_def route_reported_def split: if_splits option.splits dest!: route_total_frame)
  show ?thesis using u
  proof (cases rule: update_distance_cases)
    case (transient r)
    then show ?thesis using m by simp
  next
    case (unchanged r)
    then show ?thesis using route_adopt_linked [OF m] by (auto simp: msg_linked_def)
  next
    case (moved r r' f b)
    then show ?thesis using route_adopt_linked [OF m] k by (auto simp: msg_linked_def)
  next
    case (lost r r' c f b)
    then show ?thesis using route_adopt_linked [OF m] k by (auto simp: msg_linked_def)
  qed
qed

text \<open>A transient message about a Passive destination needs a stored route.\<close>

definition transient_ok :: "eigrp_prefix_descriptor \<Rightarrow> eigrp_fsm_action_message \<Rightarrow> bool" where
  "transient_ok pd msg \<longleftrightarrow> transient_route msg
     \<longrightarrow> msg_route msg \<noteq> None \<and> (state pd = EIGRP_FSM_STATE_PASSIVE \<longrightarrow> eigrp_topology_routes pd \<noteq> [])"

definition event_ok :: "nat \<Rightarrow> eigrp_topo \<Rightarrow> eigrp_prefix_descriptor \<Rightarrow> eigrp_fsm_action_message \<Rightarrow> bool" where
  "event_ok nid t pd msg \<longleftrightarrow> memory_ok t \<and> links_ok t \<and> msg_linked t msg \<and> transient_ok pd msg \<and> queues_ok_for pd msg \<and> msg_ok nid pd msg"

lemma event_select_succeeds:
  assumes "event_ok nid t pd msg"
  shows "\<exists>ev t' pd' msg'. eigrp_fsm_event_select nid t pd msg = Some (ev, t', pd', msg') \<and> event_ok nid t' pd' msg'
    \<and> (state pd' = EIGRP_FSM_STATE_PASSIVE \<longrightarrow> eigrp_topology_routes pd' \<noteq> [])"
proof -
  have a: "memory_ok t" "links_ok t" "msg_linked t msg" "transient_ok pd msg" "queues_ok_for pd msg" "msg_ok nid pd msg"
    using assms by (simp_all add: event_ok_def)
  have "msg_with_route nid t pd msg \<noteq> None"
    using a(1,3) by (auto simp: msg_with_route_def eigrp_topology_route_create_def msg_linked_def memory_ok_def split: option.split)
  then obtain msg1 where w: "msg_with_route nid t pd msg = Some msg1" by auto
  note w' = msg_with_route_ok [OF w a(6)]
  have l1: "msg_linked t msg1" using w a(3)
    by (auto simp: msg_with_route_def msg_linked_def split: if_splits option.splits)
  have "msg_route msg1 \<noteq> None" using w by (auto simp: msg_with_route_def split: if_splits option.splits)
  then obtain r1 where r1: "msg_route msg1 = Some r1" by auto
  have "eigrp_topology_update_distance t pd msg1 \<noteq> None" by (rule update_distance_succeeds [OF a(2) l1 r1])
  then obtain ch t1 pd1 msg2 where u: "eigrp_topology_update_distance t pd msg1 = Some (ch, t1, pd1, msg2)"
    by (metis option.exhaust prod.exhaust)
  obtain r where r: "msg_route msg2 = Some r" using update_distance_frame(7) [OF u] by auto
  obtain ev pd2 where e: "event_switch (state pd) pd1 (packet_type msg2) ch r = (ev, pd2)" by fastforce
  have s: "eigrp_fsm_event_select nid t pd msg = Some (ev, t1, pd2, msg2\<lparr>change := ch\<rparr>)"
    using w u r e by (simp add: eigrp_fsm_event_select_def)
  note sr = event_select_result [OF s a(5,6)]
  have st: "state pd = EIGRP_FSM_STATE_PASSIVE \<longrightarrow> eigrp_topology_routes pd1 \<noteq> []"
  proof (cases "transient_route msg")
    case True
    then show ?thesis using u a(4) w'(5) by (auto simp: eigrp_topology_update_distance_def transient_ok_def split: option.splits)
  next
    case False
    then show ?thesis using update_distance_stored(1) [OF u _ _ _ r] a w' by (auto simp: memory_ok_def msg_ok_def)
  qed
  have "pd2 = pd1\<lparr>rij := rij pd2\<rparr>" using event_switch_frame [OF e] by simp
  then have "eigrp_topology_routes pd2 = eigrp_topology_routes pd1"
    by (metis eigrp_topology_routes_def eigrp_prefix_descriptor.select_convs(2,3) eigrp_prefix_descriptor.surjective eigrp_prefix_descriptor.update_convs(4))
  moreover have "links_ok t1" using a(2) update_distance_frame(2) [OF u] unfolding same_but_counts_def links_ok_def
    by (metis eigrp_topo.select_convs(4) eigrp_topo.surjective eigrp_topo.update_convs(3))
  moreover have "msg_linked t1 (msg2\<lparr>change := ch\<rparr>)" using update_distance_linked [OF u l1] by (simp add: msg_linked_def)
  ultimately show ?thesis
    using s queues_ok_forI [OF sr(1)] sr(3,9,10) st same_but_countsD(1) [OF sr(7)] a(1) by (auto simp: event_ok_def transient_ok_def)
qed

lemma event_select_fcs:
  assumes "eigrp_fsm_event_select nid t pd msg = Some (EIGRP_FSM_EVENT_LR_FCS, t', pd', msg')" and "queues_ok_for pd msg" and "msg_ok nid pd msg"
  shows "eigrp_topology_route_select pd' \<noteq> None"
proof -
  obtain pd1 ch r where "event_switch (state pd) pd1 (packet_type msg) ch r = (EIGRP_FSM_EVENT_LR_FCS, pd')"
    and e: "internal_routes pd' = internal_routes pd1" "external_routes pd' = external_routes pd1" "fdistance pd' = fdistance pd1"
    using event_select_result(12) [OF assms] by blast
  then have "eigrp_topology_route_select pd1 \<noteq> None" using event_switch_events(2) by blast
  then show ?thesis using e by (simp add: eigrp_topology_route_select_def eigrp_topology_routes_def)
qed

lemma fsm_call_succeeds:
  assumes m: "memory_ok t" and r: "msg_route msg \<noteq> None"
    and ne: "state pd = EIGRP_FSM_STATE_PASSIVE \<longrightarrow> eigrp_topology_routes pd \<noteq> []"
    and d: "NSM (state pd) ev \<noteq> Fn_dinc" and f: "ev = EIGRP_FSM_EVENT_LR_FCS \<Longrightarrow> eigrp_topology_route_select pd \<noteq> None"
  shows "\<exists>t' pd'. fsm_call (NSM (state pd) ev) t pd msg = Some (t', pd')"
proof (cases "NSM (state pd) ev")
  case Fn_lr_fcs
  then have "ev = EIGRP_FSM_EVENT_LR_FCS" by (cases "(state pd, ev)" rule: NSM.cases) auto
  then show ?thesis using Fn_lr_fcs lr_fcs_succeeds [OF m f] by simp
next
  case Fn_keep_state
  then show ?thesis using keep_state_succeeds [OF m r] ne by simp
qed (use d lr_succeeds [OF m] start_queries_succeeds [OF m] in
  \<open>auto simp: eigrp_fsm_event_nq_fcn_def eigrp_fsm_event_q_fcn_def eigrp_fsm_event_lr_fcn_def eigrp_fsm_event_qact_def\<close>)

lemma dinc_succeeds:
  assumes e: "event_ok nid t pd msg" and s: "state pd = EIGRP_FSM_STATE_ACTIVE_1 \<or> state pd = EIGRP_FSM_STATE_ACTIVE_3"
  shows "\<exists>t' pd'. eigrp_fsm_event_dinc nid t pd msg = Some (t', pd')"
proof -
  let ?pd = "pd\<lparr>state := if state pd = EIGRP_FSM_STATE_ACTIVE_1 then EIGRP_FSM_STATE_ACTIVE_0 else EIGRP_FSM_STATE_ACTIVE_2\<rparr>"
  have e': "event_ok nid t ?pd msg"
    using e s queues_ok_for_cong [of ?pd pd] msg_ok_cong [of ?pd pd] by (auto simp: event_ok_def transient_ok_def eigrp_topology_routes_def)
  then have q: "queues_ok_for ?pd msg" "msg_ok nid ?pd msg" by (simp_all add: event_ok_def)
  obtain ev t1 pd1 msg1 where sel: "eigrp_fsm_event_select nid t ?pd msg = Some (ev, t1, pd1, msg1)" "event_ok nid t1 pd1 msg1"
    "state pd1 = EIGRP_FSM_STATE_PASSIVE \<longrightarrow> eigrp_topology_routes pd1 \<noteq> []" using event_select_succeeds [OF e'] by blast
  note r = event_select_result [OF sel(1) q]
  have "\<exists>t' pd'. fsm_call (NSM (state pd1) ev) t1 pd1 msg1 = Some (t', pd')"
    using sel r(3,10) NSM_no_dinc event_select_fcs [OF _ q]
    by (intro fsm_call_succeeds) (auto simp: event_ok_def split: if_splits)
  then show ?thesis using sel(1) by (auto simp: eigrp_fsm_event_dinc_def Let_def)
qed

lemma event_succeeds:
  assumes e: "event_ok nid t pd msg"
  shows "\<exists>t' pd'. eigrp_fsm_event nid t pd msg = Some (t', pd')"
proof -
  have q: "queues_ok_for pd msg" "msg_ok nid pd msg" using e by (simp_all add: event_ok_def)
  obtain ev t1 pd1 msg1 where sel: "eigrp_fsm_event_select nid t pd msg = Some (ev, t1, pd1, msg1)" "event_ok nid t1 pd1 msg1"
    "state pd1 = EIGRP_FSM_STATE_PASSIVE \<longrightarrow> eigrp_topology_routes pd1 \<noteq> []" using event_select_succeeds [OF e] by blast
  note r = event_select_result [OF sel(1) q]
  show ?thesis
  proof (cases "NSM (state pd1) ev = Fn_dinc")
    case True
    then show ?thesis using dinc_succeeds [OF sel(2)] NSM_dinc [OF True] sel(1) by (simp add: eigrp_fsm_event_def)
  next
    case False
    have "\<exists>t' pd'. fsm_call (NSM (state pd1) ev) t1 pd1 msg1 = Some (t', pd')"
      using sel r(10) False event_select_fcs [OF _ q] by (intro fsm_call_succeeds) (auto simp: event_ok_def)
    then show ?thesis using sel(1) False by (simp add: eigrp_fsm_event_def)
  qed
qed

end
