(* ===== verification/Eigrp_Machine.thy ===== *)
theory Eigrp_Machine
  imports Eigrp_Dual
begin

text \<open>
  The DUAL machine as a transition system: every operation that changes a destination is a rule of \<open>dual_reach\<close>, the
  invariant is proved by rule induction, and the guarantees an input event gives are stated: the diagram, completion,
  the end of a diffusing computation and the replies owed.
\<close>

subsection \<open>Reachable states\<close>

text \<open>\<^verbatim>\<open>eigrp_packetizer_query_rij_add\<close>: a QUERY goes out on an interface and every neighbour there that is up owes a REPLY.\<close>

definition eigrp_packetizer_query_rij_add :: "eigrp_topo \<Rightarrow> eigrp_prefix_descriptor \<Rightarrow> nbr_id list \<Rightarrow> eigrp_prefix_descriptor" where
  "eigrp_packetizer_query_rij_add t pd ns =
     fold (\<lambda>n pd. if nbr_state (nbrs t n) \<noteq> EIGRP_NEIGHBOR_UP then pd else eigrp_fsm_reply_status_add t pd n) ns pd"

text \<open>
  What every receiver does with a decoded route before it calls the machine: the neighbour's stored descriptor takes over
  type, next hop and external data of the received one, or the received one is used itself.
\<close>

definition route_received ::
    "eigrp_prefix_descriptor \<Rightarrow> nbr_id \<Rightarrow> eigrp_route_descriptor \<Rightarrow> eigrp_prefix_descriptor \<times> eigrp_route_descriptor" where
  "route_received pd n q =
     (case eigrp_prefix_descriptor_lookup pd (Some n) of
        Some r \<Rightarrow> let r = r\<lparr>rt_type := rt_type q, nexthop := nexthop q, extdata := extdata q\<rparr> in (pd_write pd r, r)
      | None \<Rightarrow> (pd, q\<lparr>adv_router := Some n, rt_prefix := Some (destination pd)\<rparr>))"

text \<open>Every way the machine changes a destination, from a settled one.\<close>

inductive dual_reach :: "eigrp_prefix_descriptor \<Rightarrow> bool" where
  start: "settled pd \<Longrightarrow> queues_ok pd \<Longrightarrow> dual_reach pd"
| event: "dual_reach pd \<Longrightarrow> msg_ok nid pd msg \<Longrightarrow> eigrp_fsm_event nid t pd msg = Some (t', pd') \<Longrightarrow> dual_reach pd'"
| received: "dual_reach pd \<Longrightarrow> route_received pd n q = (pd1, r) \<Longrightarrow> msg_route msg = Some r
    \<Longrightarrow> transient_route msg \<longrightarrow> eigrp_prefix_descriptor_lookup pd (Some n) = None \<Longrightarrow> msg_ok nid pd1 msg
    \<Longrightarrow> eigrp_fsm_event nid t pd1 msg = Some (t', pd') \<Longrightarrow> dual_reach pd'"
| query: "dual_reach pd \<Longrightarrow> dual_reach (eigrp_packetizer_query_rij_add t pd ns)"
| sent: "dual_reach pd \<Longrightarrow> eigrp_fsm_query_sent t pd = Some (t', pd') \<Longrightarrow> dual_reach pd'"
| down: "dual_reach pd \<Longrightarrow> eigrp_fsm_neighbor_down t pd n = Some (t', pd') \<Longrightarrow> dual_reach pd'"
| timer: "dual_reach pd \<Longrightarrow> eigrp_fsm_active_timer_expired t pd = Some (Inr (t', pd')) \<Longrightarrow> dual_reach pd'"
| sia_reply: "dual_reach pd \<Longrightarrow> dual_reach (eigrp_fsm_sia_reply_received pd nbr)"

definition rij_ok :: "eigrp_reply_status list \<Rightarrow> bool" where
  "rij_ok ss \<longleftrightarrow> distinct (map rs_neighbor ss) \<and> (\<forall>s\<in>set ss. sia_queries s \<le> 3)"

definition dual_inv :: "eigrp_prefix_descriptor \<Rightarrow> bool" where
  "dual_inv pd \<longleftrightarrow> queues_ok pd \<and> rij_ok (rij pd)
     \<and> (state pd = EIGRP_FSM_STATE_PASSIVE
        \<longrightarrow> query_origin pd = None \<and> t_active pd = None \<and> fdistance pd \<le> pd_distance pd \<and> rdistance pd = pd_distance pd)
     \<and> (state pd = EIGRP_FSM_STATE_ACTIVE_0 \<or> state pd = EIGRP_FSM_STATE_ACTIVE_1 \<longrightarrow> query_origin pd = None)"

lemma dual_inv_settled: "settled pd \<Longrightarrow> queues_ok pd \<Longrightarrow> dual_inv pd"
  by (simp add: dual_inv_def settled_def rij_ok_def)

lemma dual_arrow_local:
  "dual_arrow s s' \<Longrightarrow> s' = EIGRP_FSM_STATE_ACTIVE_0 \<or> s' = EIGRP_FSM_STATE_ACTIVE_1
   \<Longrightarrow> s = EIGRP_FSM_STATE_PASSIVE \<or> s = EIGRP_FSM_STATE_ACTIVE_0 \<or> s = EIGRP_FSM_STATE_ACTIVE_1"
  by (cases s) auto

lemma dual_inv_move:
  assumes "dual_inv pd" and "dual_move k pd pd'"
  shows "dual_inv pd'"
proof (cases "state pd' = EIGRP_FSM_STATE_PASSIVE")
  case True
  then show ?thesis using assms dual_inv_settled [of pd']
    by (cases "state pd = EIGRP_FSM_STATE_PASSIVE") (auto simp: dual_move_def dual_inv_def)
next
  case False
  have "rij_ok (rij pd')" using assms False by (auto simp: dual_move_def dual_inv_def rij_ok_def rij_shrinks_def)
  moreover have "query_origin pd' = None" if "state pd' = EIGRP_FSM_STATE_ACTIVE_0 \<or> state pd' = EIGRP_FSM_STATE_ACTIVE_1"
  proof -
    have "query_origin pd' = query_origin pd" "dual_arrow (state pd) (state pd')" using assms(2) that by (simp_all add: dual_move_def)
    then show ?thesis using assms(1) dual_arrow_local [OF _ that] by (auto simp: dual_inv_def)
  qed
  moreover have "queues_ok pd'" using assms(2) by (simp add: dual_move_def)
  ultimately show ?thesis using False by (simp add: dual_inv_def)
qed

lemma reply_status_add_ok:
  assumes "dual_inv pd"
  shows "dual_inv (eigrp_fsm_reply_status_add t pd n)"
proof -
  have "rs_neighbor s \<noteq> n" if "eigrp_fsm_reply_status_lookup pd (Some n) = None" "s \<in> set (rij pd)" for s
    using that by (auto simp: eigrp_fsm_reply_status_lookup_def find_None_iff)
  then show ?thesis using assms queues_ok_cong [of "eigrp_fsm_reply_status_add t pd n" pd]
    by (auto simp: eigrp_fsm_reply_status_add_def dual_inv_def rij_ok_def)
qed

lemma query_rij_add_ok: "dual_inv pd \<Longrightarrow> dual_inv (eigrp_packetizer_query_rij_add t pd ns)"
  by (induction ns arbitrary: pd) (auto simp: eigrp_packetizer_query_rij_add_def intro: reply_status_add_ok)

lemma query_sent_ok:
  assumes "dual_inv pd" and "eigrp_fsm_query_sent t pd = Some (t', pd')"
  shows "dual_inv pd'"
proof (cases "state pd = EIGRP_FSM_STATE_PASSIVE \<or> rij pd \<noteq> []")
  case True
  then show ?thesis using assms queues_ok_cong [of pd' pd]
    by (auto simp: eigrp_fsm_query_sent_def eigrp_fsm_active_timer_start_def active_timer_arm_def dual_inv_def split: if_splits)
next
  case False
  then have "eigrp_fsm_event_lr t pd = Some (t', pd')" using assms(2) by (simp add: eigrp_fsm_query_sent_def)
  then show ?thesis using lr_result(1,2) [of t pd t' pd'] assms(1) dual_inv_settled [of pd'] by (simp add: dual_inv_def)
qed

lemma timer_expired_ok:
  assumes i: "dual_inv pd" and e: "eigrp_fsm_active_timer_expired t pd = Some (Inr (t', pd'))"
  shows "dual_inv pd'"
proof (cases "state pd = EIGRP_FSM_STATE_PASSIVE \<or> rij pd = [] \<or> \<not> active_eigrp pd")
  case True
  then have "eigrp_fsm_active_timer_expired t pd = Some (Inr (t, pd))" by (auto simp: eigrp_fsm_active_timer_expired_def)
  then show ?thesis using e i by simp
next
  case False
  let ?ss = "map (\<lambda>s. s\<lparr>sia_response_received := False, sia_queries := sia_queries s + 1\<rparr>) (rij pd)"
  let ?pd = "pd\<lparr>rij := ?ss\<rparr>"
  have f: "find sia_stuck (rij pd) = None"
    using e False by (cases "find sia_stuck (rij pd)") (simp_all add: eigrp_fsm_active_timer_expired_def)
  obtain t1 where "sia_queries_send t ?pd ?ss = Some t1"
    using e False f by (cases "sia_queries_send t ?pd ?ss") (simp_all add: eigrp_fsm_active_timer_expired_def)
  then have "pd' = (if active_time t1 \<noteq> 0 then active_timer_arm t1 ?pd else ?pd)"
    using e False f by (auto simp: eigrp_fsm_active_timer_expired_def Let_def split: if_splits)
  then have r: "rij pd' = ?ss" and k: "internal_routes pd' = internal_routes pd" "external_routes pd' = external_routes pd"
    "state pd' = state pd" "query_origin pd' = query_origin pd"
    by (simp_all add: active_timer_arm_def)
  have "\<forall>s\<in>set (rij pd). sia_queries s < 3" using f by (auto simp: find_None_iff sia_stuck_def)
  then have "\<forall>s\<in>set ?ss. sia_queries s \<le> 3" by (auto intro: inc_le)
  moreover have "distinct (map rs_neighbor (rij pd))" using i by (simp add: dual_inv_def rij_ok_def)
  moreover have "map rs_neighbor ?ss = map rs_neighbor (rij pd)" by simp
  ultimately have "rij_ok ?ss" by (simp only: rij_ok_def)
  moreover have "queues_ok pd'" using i queues_ok_cong [OF k(1,2)] by (simp add: dual_inv_def)
  ultimately show ?thesis using i False r k(3,4) unfolding dual_inv_def by simp
qed

lemma sia_mark_ok:
  "map rs_neighbor (sia_mark n ss) = map rs_neighbor ss" "map sia_queries (sia_mark n ss) = map sia_queries ss"
  by (induction ss) auto

lemma rij_ok_alt: "rij_ok ss \<longleftrightarrow> distinct (map rs_neighbor ss) \<and> (\<forall>k\<in>set (map sia_queries ss). k \<le> 3)"
  by (simp add: rij_ok_def)

lemma sia_reply_ok: "dual_inv pd \<Longrightarrow> dual_inv (eigrp_fsm_sia_reply_received pd nbr)"
proof (cases nbr)
  case (Some n)
  assume i: "dual_inv pd"
  then have "rij_ok (rij pd)" by (simp add: dual_inv_def)
  then have "rij_ok (sia_mark n (rij pd))" by (simp add: rij_ok_alt sia_mark_ok)
  then show ?thesis using i Some queues_ok_cong [of "eigrp_fsm_sia_reply_received pd nbr" pd]
    by (auto simp: eigrp_fsm_sia_reply_received_def dual_inv_def)
qed (simp add: eigrp_fsm_sia_reply_received_def)

lemma reply_status_remove_rij:
  "\<exists>ss. eigrp_fsm_reply_status_remove pd n = (ss \<noteq> [], pd\<lparr>rij := ss\<rparr>) \<and> (rij_ok (rij pd) \<longrightarrow> rij_ok ss)"
proof (cases "eigrp_fsm_reply_status_lookup pd n")
  case None
  have "pd = pd\<lparr>rij := rij pd\<rparr>" by simp
  then show ?thesis using None unfolding eigrp_fsm_reply_status_remove_def Let_def by (metis option.case(1))
next
  case (Some s)
  then show ?thesis
    by (auto simp: eigrp_fsm_reply_status_remove_def Let_def rij_ok_def intro: distinct_map_remove1 dest: in_set_remove1_D)
qed

lemma neighbor_down_ok:
  assumes i: "dual_inv pd" and e: "eigrp_fsm_neighbor_down t pd n = Some (t', pd')"
  shows "dual_inv pd'"
proof (cases "state pd = EIGRP_FSM_STATE_PASSIVE \<or> \<not> eigrp_fsm_reply_status_pending pd (Some n)")
  case True
  then show ?thesis using e i by (auto simp: eigrp_fsm_neighbor_down_def)
next
  case False
  obtain b pd1 where r: "eigrp_fsm_reply_status_remove pd (Some n) = (b, pd1)" by fastforce
  obtain ss where "eigrp_fsm_reply_status_remove pd (Some n) = (ss \<noteq> [], pd\<lparr>rij := ss\<rparr>)" and f: "rij_ok (rij pd) \<longrightarrow> rij_ok ss"
    using reply_status_remove_rij by blast
  then have pd1: "pd1 = pd\<lparr>rij := ss\<rparr>" using r by simp
  have i1: "dual_inv pd1" using i f queues_ok_cong [of pd1 pd] by (simp add: dual_inv_def pd1)
  have st: "state pd1 \<noteq> EIGRP_FSM_STATE_PASSIVE" using False by (simp add: pd1)
  have mv: "dual_move (eigrp_nbr_count t) pd1 pd'" if "fsm_call (NSM (state pd1) ev) t pd1 msg = Some (t', pd')" for ev msg
    using fsm_call_move [OF _ that] i1 st by (simp add: dual_inv_def)
  have "pd' = pd1 \<or> dual_move (eigrp_nbr_count t) pd1 pd'"
    using e False r mv [of EIGRP_FSM_EVENT_LR_FCS] mv [of EIGRP_FSM_EVENT_LR_FCN] mv [of EIGRP_FSM_EVENT_LR] st
    by (cases "state pd1") (auto simp: eigrp_fsm_neighbor_down_def split: if_splits)
  then show ?thesis using i1 dual_inv_move by blast
qed

lemma dual_move_same: "same_but_queues pd pd1 \<Longrightarrow> dual_move k pd1 pd' \<Longrightarrow> dual_move k pd pd'"
  by (simp add: dual_move_def frozen_def rij_shrinks_def same_but_queuesD)

lemma event_ok_inv:
  assumes "dual_inv pd" and "msg_ok nid pd msg" and "eigrp_fsm_event nid t pd msg = Some (t', pd')"
  shows "dual_inv pd'"
proof -
  have "queues_ok pd" using assms(1) by (simp add: dual_inv_def)
  then show ?thesis using dual_inv_move [OF assms(1) event_move [OF assms(3) queues_ok_forI assms(2)]] by simp
qed

lemma lookup_stored: "eigrp_prefix_descriptor_lookup pd n = Some r \<Longrightarrow> r \<in> set (eigrp_topology_routes pd) \<and> adv_router r = n"
  by (auto simp: eigrp_prefix_descriptor_lookup_def dest: find_Some_set)

lemma route_received_ok:
  assumes q: "queues_ok pd" and r: "route_received pd n q0 = (pd1, r)" and m: "msg_route msg = Some r"
    and tr: "transient_route msg \<longrightarrow> eigrp_prefix_descriptor_lookup pd (Some n) = None"
  shows "queues_ok_for pd1 msg" "same_but_queues pd pd1" "adv_router r = Some n"
proof -
  have "queues_ok_for pd1 msg \<and> same_but_queues pd pd1 \<and> adv_router r = Some n"
  proof (cases "eigrp_prefix_descriptor_lookup pd (Some n)")
    case None
    then show ?thesis using r q by (auto simp: route_received_def)
  next
    case (Some x)
    have rx: "r = x\<lparr>rt_type := rt_type q0, nexthop := nexthop q0, extdata := extdata q0\<rparr>" and pd1: "pd1 = pd_write pd r"
      using r Some by (auto simp: route_received_def Let_def)
    have x: "x \<in> set (eigrp_topology_routes pd)" "adv_router x = Some n" using lookup_stored [OF Some] by auto
    have "distance y = distance r" if "y \<in> set (eigrp_topology_routes pd)" "rid y = rid r" for y
      using that x(1) q distinct_map_eq [of rid "eigrp_topology_routes pd" y x] by (simp add: rx queues_ok_def)
    then have "queues_ok_but (rid r) (pd_write pd r)" using q by (intro pd_write_but)
    then show ?thesis using Some tr m x rx by (simp add: pd1 queues_ok_for_def)
  qed
  then show "queues_ok_for pd1 msg" "same_but_queues pd pd1" "adv_router r = Some n" by auto
qed

lemma received_ok:
  assumes i: "dual_inv pd" and r: "route_received pd n q = (pd1, r)" and m: "msg_route msg = Some r"
    and tr: "transient_route msg \<longrightarrow> eigrp_prefix_descriptor_lookup pd (Some n) = None" and ok: "msg_ok nid pd1 msg"
    and e: "eigrp_fsm_event nid t pd1 msg = Some (t', pd')"
  shows "dual_inv pd'"
proof -
  have "queues_ok pd" using i by (simp add: dual_inv_def)
  note s = route_received_ok [OF this r m tr]
  show ?thesis using dual_inv_move [OF i dual_move_same [OF s(2) event_move [OF e s(1) ok]]] .
qed

lemma dual_reach_inv: "dual_reach pd \<Longrightarrow> dual_inv pd"
proof (induction rule: dual_reach.induct)
  case (received pd n q pd1 r msg nid t t' pd')
  then show ?case using received_ok by blast
qed (auto intro: dual_inv_settled event_ok_inv query_rij_add_ok query_sent_ok neighbor_down_ok timer_expired_ok sia_reply_ok)

text \<open>
  C1: DUAL's invariant holds in every reachable state of a destination, whatever events, QUERY transmissions, neighbour
  losses, timer expiries and SIA replies led to it: the route queues are in order, no neighbour owes two replies and none
  has been sent more than three SIA queries, a Passive destination has no query origin, no active timer, a feasible distance that is
  at most its distance and reports exactly its distance, and a locally originated computation (Active 0, Active 1) has no
  query origin.
\<close>

theorem dual_invariant:
  assumes "dual_reach pd"
  shows "queues_ok pd \<and> distinct (map rs_neighbor (rij pd)) \<and> (\<forall>s\<in>set (rij pd). sia_queries s \<le> 3)
    \<and> (state pd = EIGRP_FSM_STATE_PASSIVE
       \<longrightarrow> query_origin pd = None \<and> t_active pd = None \<and> fdistance pd \<le> pd_distance pd \<and> rdistance pd = pd_distance pd)
    \<and> (state pd = EIGRP_FSM_STATE_ACTIVE_0 \<or> state pd = EIGRP_FSM_STATE_ACTIVE_1 \<longrightarrow> query_origin pd = None)"
  using dual_reach_inv [OF assms] by (simp add: dual_inv_def rij_ok_def)

lemma sample_pd_reach: "dual_reach sample_pd"
  by (rule dual_reach.start [OF _ sample_pd_ok]) (simp add: settled_def sample_pd_defs)

theorem dual_invariant_witness:
  "dual_reach (eigrp_packetizer_query_rij_add sample_topo sample_pd [1, 2])
   \<and> map rs_neighbor (rij (eigrp_packetizer_query_rij_add sample_topo sample_pd [1, 2])) = [1, 2]
   \<and> queues_ok (eigrp_packetizer_query_rij_add sample_topo sample_pd [1, 2])"
  using dual_invariant [OF dual_reach.query [OF sample_pd_reach, of sample_topo "[1, 2]"]] dual_reach.query [OF sample_pd_reach]
  by (simp, code_simp)

lemma sample_ok:
  "memory_ok sample_topo" "links_ok sample_topo" "msg_linked sample_topo (sample_msg opc 2)" "\<not> transient_route (sample_msg opc 2)"
  "msg_ok nid sample_pd (sample_msg opc 2)"
proof -
  show "memory_ok sample_topo" "links_ok sample_topo" by (simp_all add: memory_ok_def links_ok_def sample_topo_def sample_intf_def)
  have r: "msg_route (sample_msg opc 2) = Some (sample_route 2 EIGRP_INT 300 1200)"
    by (simp add: sample_msg_def sample_pd_defs eigrp_topology_routes_def)
  then show "msg_linked sample_topo (sample_msg opc 2)" by (simp add: msg_linked_def sample_route_def)
  show "\<not> transient_route (sample_msg opc 2)" by (simp add: sample_msg_def)
  have "msg_consistent sample_pd (sample_msg opc 2)"
    using r by (auto simp: msg_consistent_def sample_pd_defs eigrp_topology_routes_def)
  then show "msg_ok nid sample_pd (sample_msg opc 2)" using r by (simp add: msg_ok_def sample_msg_def route_type_consts)
qed

lemma sample_pd_state: "state sample_pd = EIGRP_FSM_STATE_PASSIVE"
  by (simp add: sample_pd_defs)

text \<open>
  C2: An input event moves a destination along the arrows of the DUAL diagram only (\<open>dual_arrow\<close>), whatever the message: as
  long as it ends Active, feasible distance, distance, reported distance and reported metric are frozen; a move from
  Active to Passive leaves the destination settled, with no reply outstanding and no active timer; a
  Passive destination that stays Passive does not raise its feasible distance unless there is no neighbour
  left to ask; and the route queues stay in order.
\<close>

theorem event_follows_diagram:
  assumes "eigrp_fsm_event nid t pd msg = Some (t', pd')" and "queues_ok pd" and "msg_ok nid pd msg"
  shows "dual_arrow (state pd) (state pd') \<and> queues_ok pd'
    \<and> (state pd' \<noteq> EIGRP_FSM_STATE_PASSIVE \<longrightarrow> frozen pd pd')
    \<and> (state pd \<noteq> EIGRP_FSM_STATE_PASSIVE \<and> state pd' = EIGRP_FSM_STATE_PASSIVE \<longrightarrow> settled pd')
    \<and> (state pd = EIGRP_FSM_STATE_PASSIVE \<and> state pd' = EIGRP_FSM_STATE_PASSIVE \<and> eigrp_nbr_count t \<noteq> 0
       \<longrightarrow> fdistance pd' \<le> fdistance pd)"
  using event_move [OF assms(1) queues_ok_forI assms(3)] assms(2) by (auto simp: dual_move_def)

theorem event_follows_diagram_witness:
  "\<exists>t' pd'. eigrp_fsm_event 9 sample_topo sample_pd (sample_msg EIGRP_OPC_UPDATE 2) = Some (t', pd')
     \<and> state pd' \<in> {EIGRP_FSM_STATE_PASSIVE, EIGRP_FSM_STATE_ACTIVE_1, EIGRP_FSM_STATE_ACTIVE_3}
     \<and> eigrp_nbr_count sample_topo = 3 \<and> (state pd' = EIGRP_FSM_STATE_PASSIVE \<longrightarrow> fdistance pd' \<le> 800)"
proof -
  obtain t' pd' where e: "eigrp_fsm_event 9 sample_topo sample_pd (sample_msg EIGRP_OPC_UPDATE 2) = Some (t', pd')"
    using event_succeeds [of 9 sample_topo sample_pd "sample_msg EIGRP_OPC_UPDATE 2"] sample_ok sample_pd_ok by (auto simp: event_ok_def transient_ok_def queues_ok_forI)
  have n: "eigrp_nbr_count sample_topo = 3" by (simp add: eigrp_nbr_count_def sample_topo_def)
  have "fdistance sample_pd = 800" by (simp add: sample_pd_defs)
  then show ?thesis
    using e n event_follows_diagram [OF e sample_pd_ok sample_ok(5)] sample_pd_state by auto
qed

text \<open>
  C5: No input event faults or is lost: with memory for the allocations, a bandwidth on every interface and a link for the route,
  \<^verbatim>\<open>eigrp_fsm_event\<close> returns, whatever the state of the destination and the message; only a transient message (one whose route is
  not to be stored) about a Passive destination needs that destination to have a route.
\<close>

theorem event_completes:
  assumes "memory_ok t" and "links_ok t" and "msg_linked t msg" and "transient_ok pd msg" and "queues_ok pd" and "msg_ok nid pd msg"
  shows "\<exists>t' pd'. eigrp_fsm_event nid t pd msg = Some (t', pd')"
  using event_succeeds assms by (simp add: event_ok_def transient_ok_def queues_ok_forI)


theorem event_completes_witness: "\<exists>t' pd'. eigrp_fsm_event 9 sample_topo sample_pd (sample_msg EIGRP_OPC_UPDATE 2) = Some (t', pd')"
  using event_completes [OF sample_ok(1-3) _ sample_pd_ok sample_ok(5)] sample_ok(4) by (simp add: transient_ok_def)

subsection \<open>The end of a computation\<close>

lemma reply_received_last:
  "rij pd = [s] \<Longrightarrow> adv_router r = Some (rs_neighbor s) \<Longrightarrow> reply_received pd r = (False, pd\<lparr>rij := []\<rparr>)"
  by (simp add: reply_received_def eigrp_fsm_reply_status_remove_def eigrp_fsm_reply_status_lookup_def)

lemma event_switch_last_reply:
  assumes "s \<noteq> EIGRP_FSM_STATE_PASSIVE" and "rij pd = [x]" and "adv_router r = Some (rs_neighbor x)"
  shows "event_switch s pd EIGRP_OPC_REPLY ch r =
    (if s = EIGRP_FSM_STATE_ACTIVE_1 \<or> s = EIGRP_FSM_STATE_ACTIVE_3 then EIGRP_FSM_EVENT_LR
     else if eigrp_topology_route_select pd \<noteq> None then EIGRP_FSM_EVENT_LR_FCS else EIGRP_FSM_EVENT_LR_FCN, pd\<lparr>rij := []\<rparr>)"
  using assms reply_received_last [OF assms(2,3)]
  by (cases s) (simp_all add: EIGRP_OPC_REPLY_def EIGRP_OPC_QUERY_def)

lemma select_last_reply:
  assumes s: "eigrp_fsm_event_select nid t pd msg = Some (ev, t', pd', msg')" and q: "queues_ok pd" and m: "msg_ok nid pd msg"
    and p: "packet_type msg = EIGRP_OPC_REPLY" and r: "msg_route msg = Some r" and n: "adv_router r = Some (rs_neighbor x)"
    and x: "rij pd = [x]" and a: "state pd \<noteq> EIGRP_FSM_STATE_PASSIVE"
  shows "ev = (if state pd = EIGRP_FSM_STATE_ACTIVE_1 \<or> state pd = EIGRP_FSM_STATE_ACTIVE_3 then EIGRP_FSM_EVENT_LR
     else if eigrp_topology_route_select pd' \<noteq> None then EIGRP_FSM_EVENT_LR_FCS else EIGRP_FSM_EVENT_LR_FCN)"
proof -
  have w: "msg_with_route nid t pd msg = Some msg" using r by (simp add: msg_with_route_def)
  obtain ch pd1 msg2 r2 where u: "eigrp_topology_update_distance t pd msg = Some (ch, t', pd1, msg2)" and r2: "msg_route msg2 = Some r2"
    and e: "event_switch (state pd) pd1 (packet_type msg2) ch r2 = (ev, pd')"
    using s w by (auto simp: eigrp_fsm_event_select_def split: option.splits prod.splits)
  have n2: "adv_router r2 = Some (rs_neighbor x)" and p2: "packet_type msg2 = EIGRP_OPC_REPLY" and x1: "rij pd1 = [x]"
    using update_distance_frame(3,7) [OF u] same_but_queuesD(1) [OF update_distance_frame(1) [OF u]] r r2 n p x by auto
  have pd': "pd' = pd1\<lparr>rij := []\<rparr>" using e event_switch_last_reply [OF a x1 n2, of ch] p2 by simp
  have "eigrp_topology_route_select pd' = eigrp_topology_route_select pd1"
    by (simp add: pd' eigrp_topology_route_select_def eigrp_topology_routes_def)
  then show ?thesis using e event_switch_last_reply [OF a x1 n2, of ch] p2 by auto
qed

lemma route_read_erase:
  assumes "map erase (eigrp_topology_routes pd') = map erase (eigrp_topology_routes pd)"
  shows "map_option distance (eigrp_topology_route_read pd') = map_option distance (eigrp_topology_route_read pd)"
proof -
  have f: "map_option distance (find (\<lambda>r. distance r \<noteq> EIGRP_MAX_METRIC) rs) = find (\<lambda>d. d \<noteq> EIGRP_MAX_METRIC) (map distance rs)" for rs
    by (induction rs) auto
  have d: "map distance (eigrp_topology_routes pd') = map distance (eigrp_topology_routes pd)"
    using arg_cong [OF assms, of "map distance"] by (simp add: comp_def)
  have h: "map_option distance (eigrp_topology_route_read pd) =
      (case find (\<lambda>d. d \<noteq> EIGRP_MAX_METRIC) (map distance (eigrp_topology_routes pd)) of Some d \<Rightarrow> Some d
       | None \<Rightarrow> (case map distance (eigrp_topology_routes pd) of [] \<Rightarrow> None | d # _ \<Rightarrow> Some d))" for pd
    unfolding f [symmetric] by (auto simp: eigrp_topology_route_read_def split: option.split list.split)
  show ?thesis unfolding h d ..
qed

lemma feasible_erase:
  assumes "map erase (eigrp_topology_routes pd') = map erase (eigrp_topology_routes pd)"
  shows "(\<exists>r\<in>set (eigrp_topology_routes pd'). feasible q r) = (\<exists>r\<in>set (eigrp_topology_routes pd). feasible q r)"
proof -
  have "(\<exists>r\<in>set (eigrp_topology_routes pd). feasible q r) = (\<exists>r\<in>set (map erase (eigrp_topology_routes pd)). feasible q r)" for pd
    by (simp add: feasible_def)
  then show ?thesis using assms by metis
qed

lemma route_select_iff: "eigrp_topology_route_select pd \<noteq> None \<longleftrightarrow> (\<exists>r\<in>set (eigrp_topology_routes pd). feasible pd r)"
  unfolding route_select_find eigrp_topology_routes_def by (auto simp: find_None_iff)

lemma event_last_reply:
  assumes e: "eigrp_fsm_event nid t pd msg = Some (t', pd')" and q: "queues_ok pd" and m: "msg_ok nid pd msg"
    and p: "packet_type msg = EIGRP_OPC_REPLY" and r: "msg_route msg = Some r" and n: "adv_router r = Some (rs_neighbor x)"
    and x: "rij pd = [x]" and a: "state pd \<noteq> EIGRP_FSM_STATE_PASSIVE"
  obtains t1 pd1 where "state pd1 = state pd" "frozen pd pd1" "eigrp_nbr_count t1 = eigrp_nbr_count t"
    "if state pd = EIGRP_FSM_STATE_ACTIVE_1 \<or> state pd = EIGRP_FSM_STATE_ACTIVE_3 then eigrp_fsm_event_lr t1 pd1 = Some (t', pd')
     else if eigrp_topology_route_select pd1 \<noteq> None then eigrp_fsm_event_lr_fcs t1 pd1 = Some (t', pd')
     else eigrp_fsm_event_lr_fcn t1 pd1 = Some (t', pd')"
proof -
  obtain ev t1 pd1 msg1 where s: "eigrp_fsm_event_select nid t pd msg = Some (ev, t1, pd1, msg1)"
    and c: "if NSM (state pd1) ev = Fn_dinc then eigrp_fsm_event_dinc nid t1 pd1 msg1 = Some (t', pd')
            else fsm_call (NSM (state pd1) ev) t1 pd1 msg1 = Some (t', pd')"
    using e by (auto simp: eigrp_fsm_event_def split: option.splits if_splits)
  note sr = event_select_result [OF s queues_ok_forI [OF q] m]
  note ev = select_last_reply [OF s q m p r n x a]
  show thesis
    using that [OF sr(3,2) same_but_countsD(2) [OF sr(7)]] c ev sr(3) a by (cases "state pd") (auto split: if_splits)
qed

text \<open>
  C3: The last outstanding REPLY ends the computation.  In Active 1 and Active 3 the destination becomes Passive and its
  feasible distance, distance and reported distance are reset to the distance of the best stored route (unreachable if there
  is none).  In Active 0 and Active 2 it becomes Passive, without raising the feasible distance, when a
  stored route satisfies the feasibility condition; otherwise a new computation begins with nothing adopted, or, with no
  neighbour left to ask, the destination settles.
\<close>

theorem last_reply_ends_computation:
  assumes e: "eigrp_fsm_event nid t pd msg = Some (t', pd')" and q: "queues_ok pd" and m: "msg_ok nid pd msg"
    and p: "packet_type msg = EIGRP_OPC_REPLY" and r: "msg_route msg = Some r" and n: "adv_router r = Some (rs_neighbor x)"
    and x: "rij pd = [x]" and a: "state pd \<noteq> EIGRP_FSM_STATE_PASSIVE"
  shows "if state pd = EIGRP_FSM_STATE_ACTIVE_1 \<or> state pd = EIGRP_FSM_STATE_ACTIVE_3
    then settled pd' \<and> fdistance pd' = pd_distance pd'
      \<and> pd_distance pd' = (case eigrp_topology_route_read pd' of Some b \<Rightarrow> distance b | None \<Rightarrow> EIGRP_MAX_METRIC)
    else if \<exists>b\<in>set (eigrp_topology_routes pd'). feasible pd b
    then settled pd' \<and> fdistance pd' \<le> fdistance pd
    else if eigrp_nbr_count t = 0 then settled pd'
    else state pd' = (if state pd = EIGRP_FSM_STATE_ACTIVE_0 then EIGRP_FSM_STATE_ACTIVE_1 else EIGRP_FSM_STATE_ACTIVE_3)
      \<and> rij pd' = [] \<and> frozen pd pd'"
proof -
  obtain t1 pd1 where st: "state pd1 = state pd" and fz: "frozen pd pd1" and nc: "eigrp_nbr_count t1 = eigrp_nbr_count t"
    and c: "if state pd = EIGRP_FSM_STATE_ACTIVE_1 \<or> state pd = EIGRP_FSM_STATE_ACTIVE_3 then eigrp_fsm_event_lr t1 pd1 = Some (t', pd')
     else if eigrp_topology_route_select pd1 \<noteq> None then eigrp_fsm_event_lr_fcs t1 pd1 = Some (t', pd')
     else eigrp_fsm_event_lr_fcn t1 pd1 = Some (t', pd')"
    by (rule event_last_reply [OF assms])
  have fd: "fdistance pd1 = fdistance pd" and fe: "feasible pd1 = feasible pd" using fz by (simp_all add: frozen_def feasible_def fun_eq_iff)
  show ?thesis
  proof (cases "state pd = EIGRP_FSM_STATE_ACTIVE_1 \<or> state pd = EIGRP_FSM_STATE_ACTIVE_3")
    case True
    then have "eigrp_fsm_event_lr t1 pd1 = Some (t', pd')" using c by auto
    note l = lr_result [OF this]
    have "pd_distance pd' = (case eigrp_topology_route_read pd' of Some b \<Rightarrow> distance b | None \<Rightarrow> EIGRP_MAX_METRIC)"
      using l(4) route_read_erase [OF l(5)] by (auto split: option.splits)
    then show ?thesis using True l(1,3) by simp
  next
    case False
    show ?thesis
    proof (cases "eigrp_topology_route_select pd1 = None")
      case fcn: True
      let ?s = "if state pd1 = EIGRP_FSM_STATE_ACTIVE_0 then EIGRP_FSM_STATE_ACTIVE_1 else EIGRP_FSM_STATE_ACTIVE_3"
      have "start_queries t1 (pd1\<lparr>state := ?s\<rparr>) = Some (t', pd')"
        using c fcn False by (auto simp: eigrp_fsm_event_lr_fcn_def split: if_splits)
      note k = start_queries_result(1) [OF this]
      have er: "map erase (eigrp_topology_routes pd') = map erase (eigrp_topology_routes pd1)"
        using k by (auto simp: eigrp_topology_routes_def split: if_splits)
      have "\<not> (\<exists>b\<in>set (eigrp_topology_routes pd'). feasible pd b)"
        using fcn feasible_erase [OF er, of pd] route_select_iff [of pd1] fe by auto
      then show ?thesis using False k nc st fz by (auto simp: frozen_def split: if_splits)
    next
      case fcs: False
      then have "eigrp_fsm_event_lr_fcs t1 pd1 = Some (t', pd')" using c False by auto
      then obtain b :: eigrp_route_descriptor where "settled pd'" and f: "fdistance pd' = min (distance b) (fdistance pd1)"
        and er: "map erase (eigrp_topology_routes pd') = map erase (eigrp_topology_routes pd1)"
        by (rule lr_fcs_result)
      then show ?thesis using False fcs feasible_erase [OF er, of pd] route_select_iff [of pd1] fe fd by auto
    qed
  qed
qed

definition sample_waiting :: "eigrp_fsm_states \<Rightarrow> eigrp_prefix_descriptor" where
  "sample_waiting s = sample_pd\<lparr>state := s, rij := [\<lparr>rs_neighbor = 2, sia_queries = 0, sia_response_received = True\<rparr>]\<rparr>"

lemma sample_waiting_ok: "queues_ok (sample_waiting s)" "msg_ok nid (sample_waiting s) (sample_msg opc 2)"
  "state (sample_waiting s) = s" "rij (sample_waiting s) = [\<lparr>rs_neighbor = 2, sia_queries = 0, sia_response_received = True\<rparr>]"
  using sample_pd_ok queues_ok_cong [of "sample_waiting s" sample_pd] sample_ok(5) [of nid opc] msg_ok_cong [of "sample_waiting s" sample_pd]
  by (simp_all add: sample_waiting_def eigrp_topology_routes_def)

theorem last_reply_ends_computation_witness:
  "\<exists>t' pd'. eigrp_fsm_event 9 sample_topo (sample_waiting EIGRP_FSM_STATE_ACTIVE_1) (sample_msg EIGRP_OPC_REPLY 2) = Some (t', pd')
     \<and> settled pd' \<and> fdistance pd' = pd_distance pd'"
proof -
  let ?pd = "sample_waiting EIGRP_FSM_STATE_ACTIVE_1" and ?m = "sample_msg EIGRP_OPC_REPLY 2"
  obtain t' pd' where e: "eigrp_fsm_event 9 sample_topo ?pd ?m = Some (t', pd')"
    using event_succeeds [of 9 sample_topo ?pd ?m] sample_ok(1-4) sample_waiting_ok by (auto simp: event_ok_def transient_ok_def queues_ok_forI)
  have r: "packet_type ?m = EIGRP_OPC_REPLY" "msg_route ?m = Some (sample_route 2 EIGRP_INT 300 1200)"
    "adv_router (sample_route 2 EIGRP_INT 300 1200) = Some (rs_neighbor \<lparr>rs_neighbor = 2, sia_queries = 0, sia_response_received = True\<rparr>)"
    by (simp_all add: sample_msg_def sample_pd_defs eigrp_topology_routes_def)
  have "state ?pd \<noteq> EIGRP_FSM_STATE_PASSIVE" by (simp add: sample_waiting_ok)
  from last_reply_ends_computation [OF e sample_waiting_ok(1,2) r sample_waiting_ok(4) this] e
  show ?thesis by (simp add: sample_waiting_ok)
qed

subsection \<open>Replies owed\<close>

lemma reply_send_queued:
  assumes "eigrp_reply_send t (Some n) pd = Some t'" and "work_open t"
  shows "\<exists>w. work_queue t' = work_queue t @ [w] \<and> wk_opcode w = EIGRP_OPC_REPLY \<and> wk_nbr w = Some n \<and> wk_prefix w = Some (destination pd)"
    and "work_open t'"
  using assms
  by (auto simp: eigrp_reply_send_def eigrp_reply_send_route_def eigrp_packetizer_work_create_def eigrp_packetizer_enqueue_def
      eigrp_packetizer_opcode_valid_def split: if_splits)

lemma changes_add_queue [simp]: "work_queue (changes_add t pd) = work_queue t" "work_open (changes_add t pd) = work_open t"
  by (simp_all add: changes_add_def)

lemma passive_commit_appends:
  assumes "passive_commit t pd = Some (t', pd')"
  shows "\<exists>ws. work_queue t' = work_queue t @ ws"
proof -
  obtain t1 where r: "eigrp_update_routing_table (changes_add t (need_update pd))
      (eigrp_topology_update_node_flags (changes_add t (need_update pd)) (need_update pd)) = Some (t1, pd')"
    and u: "eigrp_update_send_all t1 None = Some t'"
    using assms by (auto simp: passive_commit_steps split: option.splits)
  have "work_queue t1 = work_queue (changes_add t (need_update pd))" using routing_table_alike(2) [OF r]
    by (metis eigrp_topo.select_convs(12) eigrp_topo.surjective eigrp_topo.update_convs(13))
  then have "work_queue t1 = work_queue t" by (simp add: changes_add_def)
  then show ?thesis using u
    by (auto simp: eigrp_update_send_all_def eigrp_packetizer_work_create_def eigrp_packetizer_enqueue_def split: if_splits)
qed

definition owes :: "eigrp_prefix_descriptor \<Rightarrow> nbr_id \<Rightarrow> bool" where
  "owes pd n \<longleftrightarrow> query_origin pd = Some n \<and> state pd \<in> {EIGRP_FSM_STATE_ACTIVE_2, EIGRP_FSM_STATE_ACTIVE_3}"

definition replies_to :: "nbr_id \<Rightarrow> eigrp_prefix \<Rightarrow> eigrp_topo \<Rightarrow> eigrp_topo \<Rightarrow> bool" where
  "replies_to n d t t' \<longleftrightarrow> (\<exists>w ws. work_queue t' = work_queue t @ w # ws
     \<and> wk_opcode w = EIGRP_OPC_REPLY \<and> wk_nbr w = Some n \<and> wk_prefix w = Some d)"

lemma reply_then_commit:
  assumes "eigrp_reply_send t (Some n) pd1 = Some t1" and "work_open t" and "destination pd1 = d" and "passive_commit t1 pd2 = Some (t', pd')"
  shows "replies_to n d t t'"
  using reply_send_queued(1) [OF assms(1,2)] passive_commit_appends [OF assms(4)] assms(3) by (fastforce simp: replies_to_def)

lemma lr_replies:
  assumes "eigrp_fsm_event_lr t pd = Some (t', pd')" and "owes pd n" and "work_open t"
  shows "replies_to n (destination pd) t t'" "query_origin pd' = None"
proof -
  have "destination (lr_metric pd) = destination pd" "query_origin (lr_metric pd) = query_origin pd" "state (lr_metric pd) = state pd"
    by (simp_all add: lr_metric_def split: option.split)
  then show "replies_to n (destination pd) t t'"
    using assms reply_then_commit [OF _ assms(3)]
    by (fastforce simp: eigrp_fsm_event_lr_def deferred_reply_def owes_def Let_def split: option.splits)
  show "query_origin pd' = None" using lr_result(1) [OF assms(1)] by (simp add: settled_def)
qed

lemma lr_fcs_replies:
  assumes "eigrp_fsm_event_lr_fcs t pd = Some (t', pd')" and "owes pd n" and "state pd = EIGRP_FSM_STATE_ACTIVE_2" and "work_open t"
  shows "replies_to n (destination pd) t t'" "query_origin pd' = None"
proof -
  show "replies_to n (destination pd) t t'"
    using assms reply_then_commit [OF _ assms(4)]
    by (fastforce simp: eigrp_fsm_event_lr_fcs_def deferred_reply_def owes_def stop_clear_defs Let_def split: option.splits)
  show "query_origin pd' = None" using assms(1) by (auto elim: lr_fcs_result simp: settled_def)
qed

lemma lr_fcn_replies:
  assumes "eigrp_fsm_event_lr_fcn t pd = Some (t', pd')" and "owes pd n" and "work_open t"
  shows "owes pd' n \<and> destination pd' = destination pd \<or> replies_to n (destination pd) t t' \<and> query_origin pd' = None"
proof (cases "eigrp_nbr_count t = 0")
  case True
  let ?pd = "eigrp_fsm_reply_status_clear (eigrp_fsm_active_timer_stop (pd\<lparr>state := (if state pd = EIGRP_FSM_STATE_ACTIVE_0 then EIGRP_FSM_STATE_ACTIVE_1
     else EIGRP_FSM_STATE_ACTIVE_3)\<rparr>))"
  have "owes ?pd n" "destination ?pd = destination pd" using assms(2) by (auto simp: owes_def stop_clear_defs)
  moreover have "eigrp_fsm_event_lr t ?pd = Some (t', pd')"
    using assms(1) True unfolding eigrp_fsm_event_lr_fcn_def start_queries_def Let_def by (simp split: if_splits)
  ultimately show ?thesis using lr_replies [of t ?pd t' pd' n] assms(3) by simp
next
  case False
  then show ?thesis using assms by (auto simp: eigrp_fsm_event_lr_fcn_def start_queries_def owes_def stop_clear_defs need_query_def Let_def)
qed

text \<open>What becomes of the reply owed to \<open>n\<close> in a step: it is still owed, or sent, or a QUERY from a successor replaced its origin.\<close>

definition origin_outcome ::
    "nbr_id \<Rightarrow> eigrp_fsm_action_message option \<Rightarrow> eigrp_topo \<Rightarrow> eigrp_prefix_descriptor \<Rightarrow> eigrp_topo \<Rightarrow> eigrp_prefix_descriptor \<Rightarrow> bool" where
  "origin_outcome n m t pd t' pd' \<longleftrightarrow>
     owes pd' n \<and> destination pd' = destination pd
     \<or> replies_to n (destination pd) t t' \<and> query_origin pd' = None
     \<or> (\<exists>msg. m = Some msg \<and> packet_type msg = EIGRP_OPC_QUERY \<and> msg_adv_router msg \<noteq> Some n \<and> query_origin pd' = msg_adv_router msg
          \<and> state pd' = EIGRP_FSM_STATE_ACTIVE_2)"

lemma NSM_active: "s \<in> {EIGRP_FSM_STATE_ACTIVE_2, EIGRP_FSM_STATE_ACTIVE_3} \<Longrightarrow> NSM s ev \<noteq> Fn_dinc \<Longrightarrow>
   NSM s ev = Fn_lr \<or> NSM s ev = Fn_lr_fcs \<and> s = EIGRP_FSM_STATE_ACTIVE_2 \<or> NSM s ev = Fn_lr_fcn \<or> NSM s ev = Fn_keep_state
   \<or> NSM s ev = Fn_qact \<and> ev = EIGRP_FSM_EVENT_QACT"
  by (cases "(s, ev)" rule: NSM.cases) auto

lemma call_outcome:
  assumes c: "fsm_call (NSM (state pd) ev) t pd msg = Some (t', pd')" and o: "owes pd n" and w: "work_open t"
    and q: "ev = EIGRP_FSM_EVENT_QACT \<Longrightarrow> packet_type msg = EIGRP_OPC_QUERY"
  shows "origin_outcome n (Some msg) t pd t' pd'"
proof -
  have s: "state pd \<in> {EIGRP_FSM_STATE_ACTIVE_2, EIGRP_FSM_STATE_ACTIVE_3}" using o by (simp add: owes_def)
  have "NSM (state pd) ev \<noteq> Fn_dinc" using c by auto
  from NSM_active [OF s this] consider "NSM (state pd) ev = Fn_lr" | "NSM (state pd) ev = Fn_lr_fcs" "state pd = EIGRP_FSM_STATE_ACTIVE_2"
    | "NSM (state pd) ev = Fn_lr_fcn" | "NSM (state pd) ev = Fn_keep_state" | "NSM (state pd) ev = Fn_qact" "ev = EIGRP_FSM_EVENT_QACT" by auto
  then show ?thesis
  proof cases
    case 1 then show ?thesis using c lr_replies [OF _ o w] by (simp add: origin_outcome_def)
  next
    case 2 then show ?thesis using c lr_fcs_replies [OF _ o _ w] by (simp add: origin_outcome_def)
  next
    case 3 then show ?thesis using c lr_fcn_replies [OF _ o w] by (auto simp: origin_outcome_def)
  next
    case 4
    have "state pd \<noteq> EIGRP_FSM_STATE_PASSIVE" using s by auto
    then show ?thesis using 4 c o by (auto simp: origin_outcome_def keep_state_active dest: keep_state_reply_result)
  next
    case 5 then show ?thesis using c q o by (auto simp: origin_outcome_def eigrp_fsm_event_qact_def owes_def)
  qed
qed

lemma select_keeps_origin:
  assumes s: "eigrp_fsm_event_select nid t pd msg = Some (ev, t', pd', msg')"
  shows "query_origin pd' = query_origin pd" "state pd' = state pd" "destination pd' = destination pd" "work_queue t' = work_queue t"
    "work_open t' = work_open t" "packet_type msg' = packet_type msg" "msg_adv_router msg' = msg_adv_router msg"
    "ev = EIGRP_FSM_EVENT_QACT \<Longrightarrow> packet_type msg = EIGRP_OPC_QUERY" "ev = EIGRP_FSM_EVENT_DINC \<Longrightarrow> packet_type msg = EIGRP_OPC_UPDATE"
proof -
  obtain msg1 where w: "msg_with_route nid t pd msg = Some msg1" using s by (auto simp: eigrp_fsm_event_select_def split: option.splits)
  obtain ch pd1 msg2 r where u: "eigrp_topology_update_distance t pd msg1 = Some (ch, t', pd1, msg2)"
    and e: "event_switch (state pd) pd1 (packet_type msg2) ch r = (ev, pd')" and m': "msg' = msg2\<lparr>change := ch\<rparr>"
    using s w by (auto simp: eigrp_fsm_event_select_def split: option.splits prod.splits)
  have w1: "packet_type msg1 = packet_type msg" "msg_adv_router msg1 = msg_adv_router msg"
    using w by (auto simp: msg_with_route_def split: if_splits option.splits)
  note f = update_distance_frame [OF u]
  have p: "pd' = pd1\<lparr>rij := rij pd'\<rparr>" using event_switch_frame [OF e] by auto
  show "query_origin pd' = query_origin pd" "state pd' = state pd" "destination pd' = destination pd"
    using same_but_queuesD [OF f(1)] by (subst p, simp)+
  have t': "t' = t\<lparr>nbrs := nbrs t'\<rparr>" using f(2) by (simp add: same_but_counts_def)
  show "work_queue t' = work_queue t" "work_open t' = work_open t" by (subst t', simp)+
  show "packet_type msg' = packet_type msg" "msg_adv_router msg' = msg_adv_router msg" using m' f(3,4) w1 by simp_all
  show "packet_type msg = EIGRP_OPC_QUERY" if "ev = EIGRP_FSM_EVENT_QACT"
    using e that f(3) w1 by (cases "state pd") (auto simp: Let_def split: if_splits prod.splits)
  show "packet_type msg = EIGRP_OPC_UPDATE" if "ev = EIGRP_FSM_EVENT_DINC"
    using e that f(3) w1 by (cases "state pd") (auto simp: Let_def split: if_splits prod.splits)
qed

lemma outcome_select:
  assumes "eigrp_fsm_event_select nid t pd msg = Some (ev, t1, pd1, msg1)" and "origin_outcome n (Some msg1) t1 pd1 t' pd'"
  shows "origin_outcome n (Some msg) t pd t' pd'"
  using assms(2) select_keeps_origin [OF assms(1)] by (auto simp: origin_outcome_def replies_to_def)

lemma event_outcome:
  assumes e: "eigrp_fsm_event nid t pd msg = Some (t', pd')" and o: "owes pd n" and w: "work_open t"
  shows "origin_outcome n (Some msg) t pd t' pd'"
proof -
  obtain ev t1 pd1 msg1 where s: "eigrp_fsm_event_select nid t pd msg = Some (ev, t1, pd1, msg1)"
    and c: "if NSM (state pd1) ev = Fn_dinc then eigrp_fsm_event_dinc nid t1 pd1 msg1 = Some (t', pd')
            else fsm_call (NSM (state pd1) ev) t1 pd1 msg1 = Some (t', pd')"
    using e by (auto simp: eigrp_fsm_event_def split: option.splits if_splits)
  note k = select_keeps_origin [OF s]
  have o1: "owes pd1 n" and w1: "work_open t1" using o w k by (simp_all add: owes_def)
  show ?thesis
  proof (rule outcome_select [OF s], cases "NSM (state pd1) ev = Fn_dinc")
    case False
    then show "origin_outcome n (Some msg1) t1 pd1 t' pd'" using c call_outcome [OF _ o1 w1] k(6,8) by auto
  next
    case True
    let ?pd = "pd1\<lparr>state := EIGRP_FSM_STATE_ACTIVE_2\<rparr>"
    have st: "state pd1 = EIGRP_FSM_STATE_ACTIVE_3" using NSM_dinc [OF True] o1 by (auto simp: owes_def)
    have o2: "owes ?pd n" using o1 by (simp add: owes_def)
    have d: "eigrp_fsm_event_dinc nid t1 pd1 msg1 = Some (t', pd')" using c True by simp
    show "origin_outcome n (Some msg1) t1 pd1 t' pd'"
    proof (cases "rij pd1 = []")
      case False
      then show ?thesis using d o2 st by (auto simp: eigrp_fsm_event_dinc_def origin_outcome_def)
    next
      case rij: True
      then obtain ev2 t2 pd2 msg2 where s2: "eigrp_fsm_event_select nid t1 ?pd msg1 = Some (ev2, t2, pd2, msg2)"
        and c2: "fsm_call (NSM (state pd2) ev2) t2 pd2 msg2 = Some (t', pd')"
        using d st by (auto simp: eigrp_fsm_event_dinc_def Let_def split: option.splits)
      note k2 = select_keeps_origin [OF s2]
      have "owes pd2 n" "work_open t2" using o2 w1 k2 by (simp_all add: owes_def)
      then have "origin_outcome n (Some msg2) t2 pd2 t' pd'" using call_outcome [OF c2] k2(6,8) by auto
      from outcome_select [OF s2 this] show ?thesis by (simp add: origin_outcome_def)
    qed
  qed
qed

text \<open>Every operation of the machine on a destination, with the topology before and after it; \<open>m\<close> is the message of an input event.\<close>

inductive dual_step ::
    "eigrp_fsm_action_message option \<Rightarrow> eigrp_topo \<Rightarrow> eigrp_prefix_descriptor \<Rightarrow> eigrp_topo \<Rightarrow> eigrp_prefix_descriptor \<Rightarrow> bool" where
  event: "eigrp_fsm_event nid t pd msg = Some (t', pd') \<Longrightarrow> dual_step (Some msg) t pd t' pd'"
| received: "route_received pd n q = (pd1, r) \<Longrightarrow> msg_route msg = Some r \<Longrightarrow> eigrp_fsm_event nid t pd1 msg = Some (t', pd')
    \<Longrightarrow> dual_step (Some msg) t pd t' pd'"
| query: "dual_step None t pd t (eigrp_packetizer_query_rij_add t pd ns)"
| sent: "eigrp_fsm_query_sent t pd = Some (t', pd') \<Longrightarrow> dual_step None t pd t' pd'"
| down: "eigrp_fsm_neighbor_down t pd n = Some (t', pd') \<Longrightarrow> dual_step None t pd t' pd'"
| timer: "eigrp_fsm_active_timer_expired t pd = Some (Inr (t', pd')) \<Longrightarrow> dual_step None t pd t' pd'"
| sia_reply: "dual_step None t pd t (eigrp_fsm_sia_reply_received pd nbr)"

lemma rij_add_keeps: "query_origin (eigrp_packetizer_query_rij_add t pd ns) = query_origin pd"
  "state (eigrp_packetizer_query_rij_add t pd ns) = state pd" "destination (eigrp_packetizer_query_rij_add t pd ns) = destination pd"
  by (induction ns arbitrary: pd) (auto simp: eigrp_packetizer_query_rij_add_def eigrp_fsm_reply_status_add_def)

lemma outcome_rij: "origin_outcome n m t (pd\<lparr>rij := ss\<rparr>) t' pd' \<Longrightarrow> origin_outcome n m t pd t' pd'"
  by (simp add: origin_outcome_def)

lemma outcome_lr: "eigrp_fsm_event_lr t pd = Some (t', pd') \<Longrightarrow> owes pd n \<Longrightarrow> work_open t \<Longrightarrow> origin_outcome n m t pd t' pd'"
  using lr_replies by (simp add: origin_outcome_def)

lemma down_outcome:
  assumes e: "eigrp_fsm_neighbor_down t pd k = Some (t', pd')" and o: "owes pd n" and w: "work_open t"
  shows "origin_outcome n None t pd t' pd'"
proof -
  obtain ss where r: "eigrp_fsm_reply_status_remove pd (Some k) = (ss \<noteq> [], pd\<lparr>rij := ss\<rparr>)" using reply_status_remove_rij by blast
  let ?pd = "pd\<lparr>rij := ss\<rparr>"
  have o1: "owes ?pd n" using o by (simp add: owes_def)
  have p: "state pd \<noteq> EIGRP_FSM_STATE_PASSIVE" using o by (auto simp: owes_def)
  consider "pd' = pd" | "pd' = ?pd" | "state pd = EIGRP_FSM_STATE_ACTIVE_2" "eigrp_fsm_event_lr_fcs t ?pd = Some (t', pd')"
    | "eigrp_fsm_event_lr_fcn t ?pd = Some (t', pd')" | "eigrp_fsm_event_lr t ?pd = Some (t', pd')"
    using e p o unfolding eigrp_fsm_neighbor_down_def r by (auto simp: owes_def split: if_splits)
  then show ?thesis
  proof cases
    case 3 then show ?thesis using lr_fcs_replies [OF _ o1 _ w] by (simp add: origin_outcome_def)
  next
    case 4 then show ?thesis using lr_fcn_replies [OF _ o1 w] by (auto simp: origin_outcome_def)
  next
    case 5 then show ?thesis using outcome_rij [OF outcome_lr [OF _ o1 w]] by simp
  qed (use o o1 in \<open>simp_all add: origin_outcome_def\<close>)
qed

lemma timer_keeps:
  assumes "eigrp_fsm_active_timer_expired t pd = Some (Inr (t', pd'))"
  shows "query_origin pd' = query_origin pd" "state pd' = state pd" "destination pd' = destination pd"
  using assms by (auto simp: eigrp_fsm_active_timer_expired_def active_timer_arm_def Let_def split: if_splits option.splits)

lemma step_outcome:
  assumes "dual_step m t pd t' pd'" and "owes pd n" and "work_open t"
  shows "origin_outcome n m t pd t' pd'"
  using assms
proof cases
  case (event nid msg)
  then show ?thesis using event_outcome assms(2,3) by simp
next
  case (received k q pd1 r msg nid)
  have "query_origin pd1 = query_origin pd" "state pd1 = state pd" "destination pd1 = destination pd"
    using received(2) by (auto simp: route_received_def pd_write_def pd_map_def Let_def split: option.splits)
  then show ?thesis using event_outcome [OF received(4), of n] assms(2,3) received(1) by (simp add: owes_def origin_outcome_def)
next
  case (query ns)
  then show ?thesis using assms(2) by (simp add: origin_outcome_def owes_def rij_add_keeps)
next
  case sent
  then consider "pd' = pd" | "pd' = eigrp_fsm_active_timer_start t pd" | "eigrp_fsm_event_lr t pd = Some (t', pd')"
    by (auto simp: eigrp_fsm_query_sent_def split: if_splits)
  then show ?thesis
    using assms(2) outcome_lr [OF _ assms(2,3)] by cases (auto simp: origin_outcome_def owes_def eigrp_fsm_active_timer_start_def active_timer_arm_def)
next
  case (down k)
  then show ?thesis using down_outcome assms(2,3) by simp
next
  case timer
  then show ?thesis using timer_keeps assms(2) by (simp add: origin_outcome_def owes_def)
next
  case (sia_reply nbr)
  then show ?thesis using assms(2) by (auto simp: origin_outcome_def owes_def eigrp_fsm_sia_reply_received_def split: option.splits)
qed

text \<open>A run of a destination: each step with its message, the topology before and after it (other destinations and the packetizer
  change the topology between the steps) and the destination after it.\<close>

inductive dual_run ::
    "eigrp_prefix_descriptor \<Rightarrow> (eigrp_fsm_action_message option \<times> eigrp_topo \<times> eigrp_topo \<times> eigrp_prefix_descriptor) list
     \<Rightarrow> eigrp_prefix_descriptor \<Rightarrow> bool" where
  none: "dual_run pd [] pd"
| step: "dual_step m t pd t' pd1 \<Longrightarrow> dual_run pd1 steps pd' \<Longrightarrow> dual_run pd ((m, t, t', pd1) # steps) pd'"

text \<open>
  C6: The origin of a QUERY gets its answer, or a later QUERY takes its place.  A destination waits in Active 2 or Active 3 with the
  neighbour \<open>n\<close> recorded as the origin of the computation; over any run of its events, QUERY transmissions, neighbour losses,
  timer expiries and SIA replies, as long as the packetizer accepts work: the destination is still Active with \<open>n\<close> recorded, or one of
  the steps queued a REPLY for this destination to \<open>n\<close>, or in one of the steps a QUERY from another neighbour overwrote the recorded
  origin (state Active 2).  No other event, loss of a neighbour or timer makes the reply get lost.
\<close>

theorem query_origin_answered:
  assumes "dual_run pd steps pd'" and "query_origin pd = Some n" and "state pd \<in> {EIGRP_FSM_STATE_ACTIVE_2, EIGRP_FSM_STATE_ACTIVE_3}"
    and "\<forall>(m, t, t', p) \<in> set steps. work_open t"
  shows "query_origin pd' = Some n \<and> state pd' \<in> {EIGRP_FSM_STATE_ACTIVE_2, EIGRP_FSM_STATE_ACTIVE_3}
    \<or> (\<exists>(m, t, t', p) \<in> set steps. \<exists>w ws. work_queue t' = work_queue t @ w # ws
         \<and> wk_opcode w = EIGRP_OPC_REPLY \<and> wk_nbr w = Some n \<and> wk_prefix w = Some (destination pd))
    \<or> (\<exists>(m, t, t', p) \<in> set steps. \<exists>msg. m = Some msg \<and> packet_type msg = EIGRP_OPC_QUERY \<and> msg_adv_router msg \<noteq> Some n
         \<and> query_origin p = msg_adv_router msg \<and> state p = EIGRP_FSM_STATE_ACTIVE_2)"
  using assms
proof (induction rule: dual_run.induct)
  case (step m t pd t' pd1 steps pd')
  have o: "owes pd n" "work_open t" using step.prems by (auto simp: owes_def)
  from step_outcome [OF step.hyps(1) o] consider "owes pd1 n" "destination pd1 = destination pd" | "replies_to n (destination pd) t t'"
    | msg where "m = Some msg" "packet_type msg = EIGRP_OPC_QUERY" "msg_adv_router msg \<noteq> Some n" "query_origin pd1 = msg_adv_router msg"
        "state pd1 = EIGRP_FSM_STATE_ACTIVE_2" by (auto simp: origin_outcome_def)
  then show ?case
  proof cases
    case 1
    then show ?thesis using step.IH step.prems(3) by (auto simp: owes_def)
  next
    case 2
    then show ?thesis by (auto simp: replies_to_def)
  next
    case 3
    then show ?thesis by auto
  qed
qed simp

theorem query_origin_answered_witness:
  "\<exists>t' pd'. dual_run (sample_pd\<lparr>state := EIGRP_FSM_STATE_ACTIVE_3, query_origin := Some 1\<rparr>) [(None, sample_topo, t', pd')] pd'
     \<and> (\<exists>w ws. work_queue t' = work_queue sample_topo @ w # ws \<and> wk_opcode w = EIGRP_OPC_REPLY \<and> wk_nbr w = Some 1
          \<and> wk_prefix w = Some (destination sample_pd))"
proof -
  let ?pd = "sample_pd\<lparr>state := EIGRP_FSM_STATE_ACTIVE_3, query_origin := Some 1\<rparr>"
  obtain t' pd' where e: "eigrp_fsm_event_lr sample_topo ?pd = Some (t', pd')" using lr_succeeds [OF sample_ok(1)] by blast
  have "rij ?pd = []" by (simp add: sample_pd_defs)
  then have "eigrp_fsm_query_sent sample_topo ?pd = Some (t', pd')" using e by (simp add: eigrp_fsm_query_sent_def)
  then have r: "dual_run ?pd [(None, sample_topo, t', pd')] pd'" by (intro dual_run.step [OF dual_step.sent] dual_run.none)
  have "query_origin pd' = None" using lr_result(1) [OF e] by (simp add: settled_def)
  moreover have "work_open sample_topo" by (simp add: sample_topo_def)
  ultimately show ?thesis using query_origin_answered [OF r, of 1] r by auto
qed

text \<open>The origin that a QUERY from a successor replaces is forgotten without an answer.\<close>

lemma qact_forgets_origin:
  assumes "state pd \<in> {EIGRP_FSM_STATE_ACTIVE_2, EIGRP_FSM_STATE_ACTIVE_3}"
  shows "fsm_call (NSM (state pd) EIGRP_FSM_EVENT_QACT) t pd msg = Some (t, pd\<lparr>state := EIGRP_FSM_STATE_ACTIVE_2, query_origin := msg_adv_router msg\<rparr>)"
  using assms by (auto simp: eigrp_fsm_event_qact_def)

subsection \<open>Stuck in Active\<close>

text \<open>Expiries of the active timer, each followed by the SIA replies of some neighbours.\<close>

fun sia_rounds ::
    "eigrp_topo \<Rightarrow> eigrp_prefix_descriptor \<Rightarrow> nbr_id list list \<Rightarrow> (nbr_id + eigrp_topo \<times> eigrp_prefix_descriptor) option" where
  "sia_rounds t pd [] = Some (Inr (t, pd))"
| "sia_rounds t pd (ns # rounds) =
     (case eigrp_fsm_active_timer_expired t pd of
        None \<Rightarrow> None
      | Some (Inl n) \<Rightarrow> Some (Inl n)
      | Some (Inr (t, pd)) \<Rightarrow> sia_rounds t (fold (\<lambda>n pd. eigrp_fsm_sia_reply_received pd (Some n)) ns pd) rounds)"

lemma sia_queries_send_memory: "memory_ok t \<Longrightarrow> \<exists>t'. sia_queries_send t pd ss = Some t' \<and> memory_ok t'"
proof (induction ss arbitrary: t)
  case (Cons s ss)
  then obtain t1 where "eigrp_siaquery_send t (rs_neighbor s) pd = Some t1" "memory_ok t1" using sends_succeed(3) by blast
  then show ?case using Cons.IH by simp
qed simp

lemma sia_replies_frame:
  "state (fold (\<lambda>n pd. eigrp_fsm_sia_reply_received pd (Some n)) ns pd) = state pd"
  "active_eigrp (fold (\<lambda>n pd. eigrp_fsm_sia_reply_received pd (Some n)) ns pd) = active_eigrp pd"
  "map rs_neighbor (rij (fold (\<lambda>n pd. eigrp_fsm_sia_reply_received pd (Some n)) ns pd)) = map rs_neighbor (rij pd)"
  "map sia_queries (rij (fold (\<lambda>n pd. eigrp_fsm_sia_reply_received pd (Some n)) ns pd)) = map sia_queries (rij pd)"
  by (induction ns arbitrary: pd) (simp_all add: eigrp_fsm_sia_reply_received_def sia_mark_ok)

lemma timer_expired_round:
  assumes "state pd \<noteq> EIGRP_FSM_STATE_PASSIVE" and "rij pd \<noteq> []" and "active_eigrp pd" and "memory_ok t"
  shows "(\<exists>s\<in>set (rij pd). sia_stuck s \<and> eigrp_fsm_active_timer_expired t pd = Some (Inl (rs_neighbor s)))
    \<or> (\<forall>s\<in>set (rij pd). \<not> sia_stuck s) \<and> (\<exists>t' pd'. eigrp_fsm_active_timer_expired t pd = Some (Inr (t', pd')) \<and> memory_ok t'
         \<and> state pd' = state pd \<and> active_eigrp pd' = active_eigrp pd \<and> map rs_neighbor (rij pd') = map rs_neighbor (rij pd)
         \<and> map sia_queries (rij pd') = map (\<lambda>s. sia_queries s + 1) (rij pd))"
proof (cases "find sia_stuck (rij pd)")
  case (Some s)
  then show ?thesis using assms find_Some_set [OF Some] by (auto simp: eigrp_fsm_active_timer_expired_def)
next
  case None
  let ?pd = "pd\<lparr>rij := map (\<lambda>s. s\<lparr>sia_response_received := False, sia_queries := sia_queries s + 1\<rparr>) (rij pd)\<rparr>"
  obtain t1 where "sia_queries_send t ?pd (rij ?pd) = Some t1" "memory_ok t1" using sia_queries_send_memory [OF assms(4)] by blast
  then have "eigrp_fsm_active_timer_expired t pd = Some (Inr (t1, if active_time t1 \<noteq> 0 then active_timer_arm t1 ?pd else ?pd))"
    using assms None by (simp add: eigrp_fsm_active_timer_expired_def Let_def)
  then show ?thesis using None \<open>memory_ok t1\<close> by (auto simp: active_timer_arm_def find_None_set comp_def)
qed

lemma sia_rounds_stuck:
  assumes "state pd \<noteq> EIGRP_FSM_STATE_PASSIVE" and "rij pd \<noteq> []" and "active_eigrp pd" and "memory_ok t"
    and "q \<in> set (map sia_queries (rij pd))" and "rounds \<noteq> []" and "4 \<le> length rounds + min 3 (unat q)"
  shows "\<exists>n\<in>rs_neighbor ` set (rij pd). sia_rounds t pd rounds = Some (Inl n)"
  using assms
proof (induction rounds arbitrary: t pd q)
  case (Cons ns rounds)
  from timer_expired_round [OF Cons.prems(1-4)] show ?case
  proof (elim disjE bexE conjE exE)
    fix s assume "s \<in> set (rij pd)" "eigrp_fsm_active_timer_expired t pd = Some (Inl (rs_neighbor s))"
    then show ?thesis by auto
  next
    fix t' pd' assume nt: "\<forall>s\<in>set (rij pd). \<not> sia_stuck s" and e: "eigrp_fsm_active_timer_expired t pd = Some (Inr (t', pd'))" "memory_ok t'"
      and f: "state pd' = state pd" "active_eigrp pd' = active_eigrp pd" "map rs_neighbor (rij pd') = map rs_neighbor (rij pd)"
        "map sia_queries (rij pd') = map (\<lambda>s. sia_queries s + 1) (rij pd)"
    let ?pd = "fold (\<lambda>n pd. eigrp_fsm_sia_reply_received pd (Some n)) ns pd'"
    have "q < 3" using nt Cons.prems(5) by (auto simp: sia_stuck_def not_le)
    then have q: "unat q < 3" "unat (q + 1) = unat q + 1" by (simp_all add: word_less_nat_alt unat_word_ariths)
    have n: "set (map rs_neighbor (rij ?pd)) = set (map rs_neighbor (rij pd))" using f(3) by (simp only: sia_replies_frame)
    have "q + 1 \<in> set (map sia_queries (rij ?pd))" using Cons.prems(5) f(4) unfolding sia_replies_frame by auto
    moreover have "rij ?pd \<noteq> []" using f(3) Cons.prems(2) sia_replies_frame(3) [of ns pd'] by auto
    moreover have "rounds \<noteq> []" "4 \<le> length rounds + min 3 (unat (q + 1))" using Cons.prems(7) q by auto
    ultimately have "\<exists>n\<in>rs_neighbor ` set (rij ?pd). sia_rounds t' ?pd rounds = Some (Inl n)"
      using Cons.prems(1,3) e(2) f(1,2) by (intro Cons.IH) (simp_all add: sia_replies_frame)
    then show ?thesis using e(1) n by (metis (no_types, lifting) list.set_map option.case(2) sia_rounds.simps(2) sum.case(2) case_prod_conv)
  qed
qed simp

text \<open>
  C7: A neighbour that keeps a destination Active for ever is found: for a destination that waits for replies, the active timer
  expires at most four times, whatever SIA replies arrive in between, before it names a stuck neighbour,
  and the neighbour it names is one whose REPLY is outstanding.
\<close>

theorem sia_stuck_detected:
  assumes "state pd \<noteq> EIGRP_FSM_STATE_PASSIVE" and "rij pd \<noteq> []" and "active_eigrp pd" and "memory_ok t"
    and "4 \<le> length rounds"
  shows "\<exists>n\<in>rs_neighbor ` set (rij pd). sia_rounds t pd rounds = Some (Inl n)"
proof -
  obtain q where "q \<in> set (map sia_queries (rij pd))" using assms(2) by (cases "rij pd") auto
  then show ?thesis using sia_rounds_stuck [OF assms(1-4), of q rounds] assms(5) by (cases rounds) auto
qed

theorem sia_stuck_detected_witness:
  "\<exists>n\<in>{2}. sia_rounds sample_topo ((sample_waiting EIGRP_FSM_STATE_ACTIVE_1)\<lparr>active_eigrp := True\<rparr>) [[2], [2], [2], [2]] = Some (Inl n)"
proof -
  let ?pd = "(sample_waiting EIGRP_FSM_STATE_ACTIVE_1)\<lparr>active_eigrp := True\<rparr>"
  have r: "rij ?pd = [\<lparr>rs_neighbor = 2, sia_queries = 0, sia_response_received = True\<rparr>]" "state ?pd = EIGRP_FSM_STATE_ACTIVE_1" "active_eigrp ?pd"
    by (simp_all add: sample_waiting_def)
  then have "\<exists>n\<in>rs_neighbor ` set (rij ?pd). sia_rounds sample_topo ?pd [[2], [2], [2], [2]] = Some (Inl n)"
    by (intro sia_stuck_detected) (simp_all add: sample_ok(1))
  then show ?thesis using r(1) by simp
qed

subsection \<open>A fault\<close>

text \<open>
  A transient message (one whose route is not to be stored) that arrives for a Passive destination without routes makes
  \<^verbatim>\<open>eigrp_fsm_event_keep_state\<close> dereference the NULL that path selection returned: \<^verbatim>\<open>route->total_metric\<close> is read
  before \<^verbatim>\<open>route\<close> is tested, whatever the opcode.
\<close>

theorem transient_event_faults:
  assumes "state pd = EIGRP_FSM_STATE_PASSIVE" and "eigrp_topology_routes pd = []" and "transient_route msg" and "msg_route msg = Some r"
  shows "eigrp_fsm_event nid t pd msg = None"
proof -
  have n: "eigrp_topology_route_select pd = None" "eigrp_topology_route_read pd = None"
    using assms(2) by (simp_all add: eigrp_topology_route_select_def eigrp_topology_route_read_def)
  have "eigrp_fsm_event_select nid t pd msg = Some (EIGRP_FSM_KEEP_STATE, t, pd, msg\<lparr>change := METRIC_SAME\<rparr>)"
    using assms by (simp add: eigrp_fsm_event_select_def msg_with_route_def eigrp_topology_update_distance_def)
  then show ?thesis using assms(1) n by (simp add: eigrp_fsm_event_def eigrp_fsm_event_keep_state_def)
qed

theorem transient_event_faults_witness:
  "eigrp_fsm_event 9 sample_topo eigrp_topology_prefix_create ((sample_msg EIGRP_OPC_QUERY 2)\<lparr>transient_route := True\<rparr>) = None"
proof -
  have "msg_route ((sample_msg EIGRP_OPC_QUERY 2)\<lparr>transient_route := True\<rparr>) = Some (sample_route 2 EIGRP_INT 300 1200)"
    by (simp add: sample_msg_def sample_pd_defs eigrp_topology_routes_def)
  then show ?thesis
    by (intro transient_event_faults) (simp_all add: eigrp_topology_prefix_create_def eigrp_topology_routes_def)
qed

end
