(* ===== verification/Eigrp_Frame.thy ===== *)
theory Eigrp_Frame
  imports Eigrp_Machine
begin

text \<open>
  What an input event leaves alone: the host side of the instance, the identity of the destination, and every route but
  the one of the message.  The receivers rest on these lemmas.
\<close>

subsection \<open>What an event leaves alone\<close>

text \<open>The host side of an instance: everything but the queues, counters and RIB calls.\<close>

definition same_host :: "eigrp_topo \<Rightarrow> eigrp_topo \<Rightarrow> bool" where
  "same_host t t' \<longleftrightarrow> alloc_ok t' = alloc_ok t \<and> intfs t' = intfs t \<and> (\<forall>n. nbr_ei (nbrs t' n) = nbr_ei (nbrs t n))"

lemma same_host_refl [simp]: "same_host t t"
  by (simp add: same_host_def)

lemma same_host_trans: "same_host t t1 \<Longrightarrow> same_host t1 t2 \<Longrightarrow> same_host t t2"
  by (simp add: same_host_def)

lemma same_host_ok: "same_host t t' \<Longrightarrow> memory_ok t' = memory_ok t \<and> links_ok t' = links_ok t"
  by (simp add: same_host_def memory_ok_def links_ok_def)

lemma same_host_ops:
  "same_host t (changes_add t pd)" "same_host t (eigrp_packetizer_enqueue t w)" "same_but_counts t t' \<Longrightarrow> same_host t t'"
proof -
  show "same_host t (changes_add t pd)" "same_host t (eigrp_packetizer_enqueue t w)"
    by (simp_all add: same_host_def changes_add_def eigrp_packetizer_enqueue_def)
  assume c: "same_but_counts t t'"
  have e: "t' = t\<lparr>nbrs := nbrs t'\<rparr>" and n: "\<And>n. nbrs t' n = (nbrs t n)\<lparr>limit_prefix_count := limit_prefix_count (nbrs t' n)\<rparr>"
    using c unfolding same_but_counts_def by blast+
  have "nbr_ei (nbrs t' n) = nbr_ei (nbrs t n)" for n by (subst n) simp
  moreover have "alloc_ok t' = alloc_ok t" "intfs t' = intfs t" by (subst e, simp)+
  ultimately show "same_host t t'" by (simp add: same_host_def)
qed

lemma sends_host:
  "eigrp_update_send_all t e = Some t' \<Longrightarrow> same_host t t'" "eigrp_reply_send_route t n pd r f = Some t' \<Longrightarrow> same_host t t'"
  "eigrp_siaquery_send t m pd = Some t' \<Longrightarrow> same_host t t'"
  by (auto simp: eigrp_update_send_all_def eigrp_reply_send_route_def eigrp_siaquery_send_def same_host_ops
      split: if_splits option.splits)

lemma routing_table_host: "eigrp_update_routing_table t pd = Some (t', pd') \<Longrightarrow> same_host t t'"
proof -
  assume "eigrp_update_routing_table t pd = Some (t', pd')"
  then have e: "t' = t\<lparr>rib_calls := rib_calls t'\<rparr>" by (rule routing_table_alike(2))
  have "alloc_ok t' = alloc_ok t" "intfs t' = intfs t" "nbrs t' = nbrs t" by (subst e, simp)+
  then show ?thesis by (simp add: same_host_def)
qed

text \<open>The identity of a destination and of its routes.\<close>

definition same_dest :: "eigrp_prefix_descriptor \<Rightarrow> eigrp_prefix_descriptor \<Rightarrow> bool" where
  "same_dest pd pd' \<longleftrightarrow> destination pd' = destination pd \<and> table_attached pd' = table_attached pd
     \<and> set (map rid (eigrp_topology_routes pd')) = set (map rid (eigrp_topology_routes pd))"

lemma same_dest_refl [simp]: "same_dest pd pd" by (simp add: same_dest_def)

lemma same_dest_alike: "alike pd pd' \<Longrightarrow> same_dest pd pd'"
proof -
  assume a: "alike pd pd'"
  have "map rid (map erase (eigrp_topology_routes pd')) = map rid (map erase (eigrp_topology_routes pd))" using alike_routes [OF a] by simp
  then have "map rid (eigrp_topology_routes pd') = map rid (eigrp_topology_routes pd)" by (simp add: comp_def)
  then have "set (map rid (eigrp_topology_routes pd')) = set (map rid (eigrp_topology_routes pd))" by simp
  then show ?thesis using a by (simp only: same_dest_def alike_def same_but_queuesD)
qed

lemma passive_commit_frame:
  assumes "passive_commit t pd = Some (t', pd')"
  shows "same_dest pd pd'" "same_host t t'"
proof -
  have "same_dest (need_update pd) pd'" by (rule same_dest_alike [OF passive_commit_result [OF assms]])
  then show "same_dest pd pd'" by (simp add: same_dest_def need_update_def eigrp_topology_routes_def)
  show "same_host t t'"
    using assms routing_table_host sends_host(1) same_host_ops(1) [of t "need_update pd"]
    by (auto simp: passive_commit_steps split: option.splits) (metis same_host_trans)
qed

lemma deferred_reply_host: "deferred_reply b t pd = Some t' \<Longrightarrow> same_host t t'"
  using sends_host(2) by (auto simp: deferred_reply_def eigrp_reply_send_def split: if_splits)

lemma lr_metric_dest [simp]: "destination (lr_metric pd) = destination pd" "table_attached (lr_metric pd) = table_attached pd"
  by (simp_all add: lr_metric_def split: option.split)

lemma lr_frame:
  assumes "eigrp_fsm_event_lr t pd = Some (t', pd')"
  shows "same_dest pd pd'" "same_host t t'"
proof -
  let ?pd = "(eigrp_fsm_reply_status_clear (eigrp_fsm_active_timer_stop ((lr_metric pd)\<lparr>query_origin := None\<rparr>)))
      \<lparr>state := EIGRP_FSM_STATE_PASSIVE\<rparr>"
  obtain t1 where d: "deferred_reply (state (lr_metric pd) = EIGRP_FSM_STATE_ACTIVE_3 \<or> state (lr_metric pd) = EIGRP_FSM_STATE_ACTIVE_2)
      t (lr_metric pd) = Some t1" and c: "passive_commit t1 ?pd = Some (t', pd')"
    using assms by (auto simp: eigrp_fsm_event_lr_def Let_def split: option.splits)
  have "same_dest ?pd pd'" by (rule passive_commit_frame(1) [OF c])
  then show "same_dest pd pd'" by (simp add: same_dest_def stop_clear_defs eigrp_topology_routes_def lr_metric_fields)
  show "same_host t t'" using same_host_trans [OF deferred_reply_host [OF d] passive_commit_frame(2) [OF c]] .
qed

lemma lr_fcs_frame:
  assumes "eigrp_fsm_event_lr_fcs t pd = Some (t', pd')"
  shows "same_dest pd pd'" "same_host t t'"
proof -
  obtain r where r: "eigrp_topology_route_select pd = Some r" using assms by (auto simp: eigrp_fsm_event_lr_fcs_def split: option.splits)
  let ?pd = "(eigrp_fsm_reply_status_clear (eigrp_fsm_active_timer_stop pd))\<lparr>state := EIGRP_FSM_STATE_PASSIVE\<rparr>"
  let ?pd2 = "?pd\<lparr>pd_distance := distance r, rdistance := distance r, pd_reported_metric := total_metric r,
      fdistance := (if distance r < fdistance ?pd then distance r else fdistance ?pd)\<rparr>"
  obtain t1 where d: "deferred_reply (state pd = EIGRP_FSM_STATE_ACTIVE_2) t ?pd2 = Some t1"
    and c: "passive_commit t1 (?pd2\<lparr>query_origin := None\<rparr>) = Some (t', pd')"
    using assms r by (auto simp: eigrp_fsm_event_lr_fcs_def Let_def split: option.splits)
  have "same_dest (?pd2\<lparr>query_origin := None\<rparr>) pd'" by (rule passive_commit_frame(1) [OF c])
  then show "same_dest pd pd'" by (simp add: same_dest_def stop_clear_defs eigrp_topology_routes_def)
  show "same_host t t'" using same_host_trans [OF deferred_reply_host [OF d] passive_commit_frame(2) [OF c]] .
qed

lemma start_queries_frame:
  assumes "start_queries t pd = Some (t', pd')"
  shows "same_dest pd pd'" "same_host t t'"
proof -
  let ?pd = "eigrp_fsm_reply_status_clear (eigrp_fsm_active_timer_stop pd)"
  have s: "same_dest pd (need_query ?pd)" "same_dest ?pd pd' \<Longrightarrow> same_dest pd pd'"
    by (simp_all add: same_dest_def need_query_def stop_clear_defs eigrp_topology_routes_def)
  show "same_dest pd pd'" "same_host t t'"
    using assms s lr_frame [of t ?pd t' pd'] by (auto simp: start_queries_def Let_def same_host_ops split: if_splits)
qed

lemma keep_state_reply_host: "keep_state_reply t pd msg = Some (t', pd') \<Longrightarrow> same_host t t'"
  using sends_host(2)
  by (auto simp: keep_state_reply_def eigrp_reply_send_def eigrp_fsm_active_non_successor_reply_send_def split: if_splits option.splits)

lemma keep_state_frame:
  assumes "eigrp_fsm_event_keep_state t pd msg = Some (t', pd')"
  shows "same_dest pd pd'" "same_host t t'"
proof -
  have "same_dest pd pd' \<and> same_host t t'"
  proof (cases "state pd = EIGRP_FSM_STATE_PASSIVE")
    case False
    then have k: "keep_state_reply t pd msg = Some (t', pd')" using assms by (simp add: keep_state_active)
    then show ?thesis using keep_state_reply_result [OF k] keep_state_reply_host [OF k] by simp
  next
    case True
    obtain r t1 t2 pd2 where t1: "t1 = t \<or> t1 = changes_add t (adopt_metric pd r)"
      and rt: "eigrp_update_routing_table t1 (eigrp_topology_update_node_flags t1 (adopt_metric pd r)) = Some (t2, pd2)"
      and k: "keep_state_reply t2 pd2 msg = Some (t', pd')" by (rule keep_state_steps [OF True assms])
    have a: "alike (adopt_metric pd r) pd'"
      using alike_trans [OF node_flags_alike routing_table_alike(1) [OF rt]] keep_state_reply_result [OF k] by simp
    have "same_dest pd pd'" using same_dest_alike [OF a]
      by (simp add: same_dest_def adopt_metric_def need_update_def eigrp_topology_routes_def split: if_splits)
    moreover have "same_host t t1" using t1 same_host_ops(1) by auto
    ultimately show ?thesis using routing_table_host [OF rt] keep_state_reply_host [OF k] same_host_trans by blast
  qed
  then show "same_dest pd pd'" "same_host t t'" by auto
qed

lemma same_dest_update:
  "same_dest (pd\<lparr>state := s\<rparr>) pd' = same_dest pd pd'" "same_dest (pd\<lparr>state := s, query_origin := qo\<rparr>) pd' = same_dest pd pd'"
  "same_dest pd (pd\<lparr>state := s, query_origin := qo\<rparr>)" "same_dest pd (pd\<lparr>state := s\<rparr>)"
  by (simp_all add: same_dest_def eigrp_topology_routes_def)

lemma fsm_call_frame:
  assumes "fsm_call f t pd msg = Some (t', pd')"
  shows "same_dest pd pd'" "same_host t t'"
proof -
  have q: "same_dest pd pd' \<and> same_host t t'" if "start_queries t (pd\<lparr>state := s, query_origin := qo\<rparr>) = Some (t', pd')" for s qo
    using start_queries_frame [OF that] by (simp add: same_dest_update)
  have q': "same_dest pd pd' \<and> same_host t t'" if "start_queries t (pd\<lparr>state := s\<rparr>) = Some (t', pd')" for s
    using start_queries_frame [OF that] by (simp add: same_dest_update)
  have "same_dest pd pd' \<and> same_host t t'"
    using assms lr_frame [of t pd t' pd'] lr_fcs_frame [of t pd t' pd'] keep_state_frame [of t pd msg t' pd'] q q'
    by (cases f) (auto simp: eigrp_fsm_event_nq_fcn_def eigrp_fsm_event_q_fcn_def eigrp_fsm_event_lr_fcn_def eigrp_fsm_event_qact_def
        same_dest_update)
  then show "same_dest pd pd'" "same_host t t'" by auto
qed

text \<open>The routes an event may store: those that were there, and the one of the message.\<close>

definition rids_within :: "nat \<Rightarrow> eigrp_prefix_descriptor \<Rightarrow> eigrp_prefix_descriptor \<Rightarrow> bool" where
  "rids_within i pd pd' \<longleftrightarrow> destination pd' = destination pd \<and> table_attached pd' = table_attached pd
     \<and> set (map rid (eigrp_topology_routes pd')) \<subseteq> Set.insert i (set (map rid (eigrp_topology_routes pd)))"

definition msg_rid :: "nat \<Rightarrow> eigrp_fsm_action_message \<Rightarrow> nat" where
  "msg_rid nid msg = (case msg_route msg of Some r \<Rightarrow> rid r | None \<Rightarrow> nid)"

lemma update_distance_rids:
  assumes "eigrp_topology_update_distance t pd msg = Some (ch, t', pd', msg')" and "msg_route msg = Some r"
  shows "rids_within (rid r) pd pd'"
proof -
  have w: "map rid (queue_write x rs) = map rid rs" for x rs by (simp add: queue_write_def)
  have d: "rid ` set (queue_del x rs) \<subseteq> rid ` set rs" for x rs using queue_del_set by blast
  have q: "same_but_queues pd pd'" by (rule update_distance_frame(1) [OF assms(1)])
  have "set (map rid (eigrp_topology_routes pd')) \<subseteq> Set.insert (rid r) (set (map rid (eigrp_topology_routes pd)))"
    using assms(1)
  proof (cases rule: update_distance_cases)
    case (unchanged r1)
    then have "map rid (eigrp_topology_routes pd') = map rid (eigrp_topology_routes pd)"
      by (simp add: pd_write_def eigrp_topology_routes_def w)
    then show ?thesis by (metis subset_insertI)
  next
    case (moved r1 r' f u)
    then have "rid r' = rid r" "pd' = queue_insert (queues_del r' pd) r'"
      using route_insert_frame(4) [OF moved(4)] distance_switch_frame [OF moved(3)] assms(2) by simp_all
    then show ?thesis using d [of r' "internal_routes pd"] d [of r' "external_routes pd"]
      by (auto simp: queue_insert_def queues_del_def eigrp_topology_routes_def)
  next
    case (lost r1 r' c f u)
    then have "pd' = queues_del r' pd" using route_insert_frame(4) [OF lost(5)] by simp
    then show ?thesis using d [of r' "internal_routes pd"] d [of r' "external_routes pd"]
      by (auto simp: queues_del_def eigrp_topology_routes_def)
  qed auto
  then show ?thesis using q by (simp add: rids_within_def same_but_queuesD)
qed

lemma event_select_frame:
  assumes "eigrp_fsm_event_select nid t pd msg = Some (ev, t', pd', msg')"
  shows "rids_within (msg_rid nid msg) pd pd'" "same_host t t'" "msg_rid nid msg' = msg_rid nid msg"
proof -
  obtain msg1 where w: "msg_with_route nid t pd msg = Some msg1" using assms by (auto simp: eigrp_fsm_event_select_def split: option.splits)
  have "msg_route msg1 \<noteq> None" using w by (auto simp: msg_with_route_def split: if_splits option.splits)
  then obtain r1 where r1: "msg_route msg1 = Some r1" by auto
  have i: "rid r1 = msg_rid nid msg" using w r1
    by (auto simp: msg_with_route_def msg_rid_def eigrp_topology_route_create_def split: if_splits option.splits)
  obtain ch pd1 msg2 r where u: "eigrp_topology_update_distance t pd msg1 = Some (ch, t', pd1, msg2)" and r: "msg_route msg2 = Some r"
    and e: "event_switch (state pd) pd1 (packet_type msg2) ch r = (ev, pd')" and m': "msg' = msg2\<lparr>change := ch\<rparr>"
    using assms w by (auto simp: eigrp_fsm_event_select_def split: option.splits prod.splits)
  have "pd' = pd1\<lparr>rij := rij pd'\<rparr>" using event_switch_frame [OF e] by simp
  then have "destination pd' = destination pd1" "table_attached pd' = table_attached pd1" "eigrp_topology_routes pd' = eigrp_topology_routes pd1"
    by (metis eigrp_prefix_descriptor.select_convs eigrp_prefix_descriptor.surjective eigrp_prefix_descriptor.update_convs(4) eigrp_topology_routes_def)+
  then show "rids_within (msg_rid nid msg) pd pd'" using update_distance_rids [OF u r1] i by (simp add: rids_within_def)
  show "same_host t t'" by (rule same_host_ops(3) [OF update_distance_frame(2) [OF u]])
  show "msg_rid nid msg' = msg_rid nid msg" using update_distance_frame(7) [OF u] r1 r i m' by (auto simp: msg_rid_def)
qed

lemma rids_within_dest: "rids_within i pd pd1 \<Longrightarrow> same_dest pd1 pd2 \<Longrightarrow> rids_within i pd pd2"
  by (simp add: rids_within_def same_dest_def)

lemma rids_within_trans: "rids_within i pd pd1 \<Longrightarrow> rids_within i pd1 pd2 \<Longrightarrow> rids_within i pd pd2"
proof -
  have "A \<subseteq> Set.insert i B \<Longrightarrow> D \<subseteq> Set.insert i A \<Longrightarrow> D \<subseteq> Set.insert i B" for A B D :: "nat set" by blast
  then show "rids_within i pd pd1 \<Longrightarrow> rids_within i pd1 pd2 \<Longrightarrow> rids_within i pd pd2" unfolding rids_within_def by metis
qed

lemma event_frame:
  assumes "eigrp_fsm_event nid t pd msg = Some (t', pd')"
  shows "rids_within (msg_rid nid msg) pd pd'" "same_host t t'"
proof -
  obtain ev t1 pd1 msg1 where s: "eigrp_fsm_event_select nid t pd msg = Some (ev, t1, pd1, msg1)"
    and c: "if NSM (state pd1) ev = Fn_dinc then eigrp_fsm_event_dinc nid t1 pd1 msg1 = Some (t', pd')
            else fsm_call (NSM (state pd1) ev) t1 pd1 msg1 = Some (t', pd')"
    using assms by (auto simp: eigrp_fsm_event_def split: option.splits if_splits)
  note f = event_select_frame [OF s]
  have "rids_within (msg_rid nid msg) pd1 pd' \<and> same_host t1 t'"
  proof (cases "NSM (state pd1) ev = Fn_dinc")
    case False
    then show ?thesis using c fsm_call_frame [of "NSM (state pd1) ev" t1 pd1 msg1 t' pd'] by (auto simp: rids_within_def same_dest_def)
  next
    case True
    let ?pd = "pd1\<lparr>state := if state pd1 = EIGRP_FSM_STATE_ACTIVE_1 then EIGRP_FSM_STATE_ACTIVE_0 else EIGRP_FSM_STATE_ACTIVE_2\<rparr>"
    have d: "rids_within i pd1 ?pd" "rids_within i ?pd x = rids_within i pd1 x" for i x by (auto simp: rids_within_def eigrp_topology_routes_def)
    show ?thesis
    proof (cases "rij pd1 = []")
      case False
      then show ?thesis using c True d(1) by (auto simp: eigrp_fsm_event_dinc_def Let_def)
    next
      case r: True
      then obtain ev2 t2 pd2 msg2 where s2: "eigrp_fsm_event_select nid t1 ?pd msg1 = Some (ev2, t2, pd2, msg2)"
        and c2: "fsm_call (NSM (state pd2) ev2) t2 pd2 msg2 = Some (t', pd')"
        using c True by (auto simp: eigrp_fsm_event_dinc_def Let_def split: option.splits)
      note f2 = event_select_frame [OF s2] and g = fsm_call_frame [OF c2]
      have "rids_within (msg_rid nid msg) ?pd pd'" using rids_within_dest [OF f2(1) g(1)] f(3) by simp
      then show ?thesis using d(2) same_host_trans [OF f2(2) g(2)] by simp
    qed
  qed
  then show "rids_within (msg_rid nid msg) pd pd'" "same_host t t'"
    using rids_within_trans [OF f(1)] same_host_trans [OF f(2)] by auto
qed

end
