(* ===== verification/Eigrp_TLV1.thy ===== *)
theory Eigrp_TLV1
  imports Eigrp_Route
begin

text \<open>
  The classic route TLV (\<^verbatim>\<open>eigrp_tlv1.c\<close>): header, next hop, exterior section, metric section,
  destination.  The definitions take the address-family vectors as their argument; the lemmas are
  proved once in the locale \<open>af_codec\<close> and hold for IPv4 and IPv6 by its interpretations.  The
  outbound filter's verdict on the advertised prefix is the argument \<open>filtered\<close>.
\<close>

definition EIGRP_TLV_HDR_SIZE :: nat where "EIGRP_TLV_HDR_SIZE = 4"
definition EIGRP_TLV1_METRIC_SIZE :: nat where "EIGRP_TLV1_METRIC_SIZE = 16"
definition EIGRP_TLV1_EXTDATA_SIZE :: nat where "EIGRP_TLV1_EXTDATA_SIZE = 20"
definition EIGRP_TLV1_DEST_PREFIX_SIZE :: nat where "EIGRP_TLV1_DEST_PREFIX_SIZE = 1"

lemmas tlv1_sizes [simp] =
  EIGRP_TLV_HDR_SIZE_def EIGRP_TLV1_METRIC_SIZE_def EIGRP_TLV1_EXTDATA_SIZE_def
  EIGRP_TLV1_DEST_PREFIX_SIZE_def

definition eigrp_tlv1_stream_remaining :: "eigrp_stream \<Rightarrow> nat" where
  "eigrp_tlv1_stream_remaining s = (if st_endp s \<le> st_getp s then 0 else st_endp s - st_getp s)"

definition eigrp_tlv1_stream_has :: "eigrp_stream \<Rightarrow> nat \<Rightarrow> bool" where
  "eigrp_tlv1_stream_has s needed \<longleftrightarrow> needed \<le> eigrp_tlv1_stream_remaining s"

definition eigrp_tlv1_min_length :: "eigrp_af_vectors \<Rightarrow> bool \<Rightarrow> nat" where
  "eigrp_tlv1_min_length V external =
     EIGRP_TLV_HDR_SIZE + packet_address_bytes V + EIGRP_TLV1_METRIC_SIZE + EIGRP_TLV1_DEST_PREFIX_SIZE
       + (if external then EIGRP_TLV1_EXTDATA_SIZE else 0)"

definition eigrp_tlv1_decode_abort :: "eigrp_stream \<Rightarrow> eigrp_stream" where
  "eigrp_tlv1_decode_abort s = eigrp_stream_set_getp s (st_endp s)"

definition eigrp_tlv1_decode_skip :: "eigrp_stream \<Rightarrow> nat \<Rightarrow> eigrp_stream" where
  "eigrp_tlv1_decode_skip s tlv_end =
     (if tlv_end \<le> st_endp s then eigrp_stream_set_getp s tlv_end else eigrp_tlv1_decode_abort s)"

definition eigrp_tlv1_external_decode ::
    "eigrp_stream \<Rightarrow> eigrp_extdata \<Rightarrow> nat \<times> eigrp_extdata \<times> eigrp_stream" where
  "eigrp_tlv1_external_decode s x =
     (if \<not> eigrp_tlv1_stream_has s EIGRP_TLV1_EXTDATA_SIZE then (0, x, s)
      else
        let (orig, s) = eigrp_stream_getl s;
            (as, s) = eigrp_stream_getl s;
            (tag, s) = eigrp_stream_getl s;
            (metric, s) = eigrp_stream_getl s;
            (reserved, s) = eigrp_stream_getw s;
            (protocol, s) = eigrp_stream_getc s;
            (flags, s) = eigrp_stream_getc s
        in (EIGRP_TLV1_EXTDATA_SIZE,
            \<lparr>ext_orig = orig, ext_as = as, ext_tag = tag, ext_metric = metric, ext_reserved = reserved,
             ext_protocol = protocol, ext_flags = flags\<rparr>, s))"

definition eigrp_tlv1_external_encode ::
    "allocator \<Rightarrow> eigrp_stream \<Rightarrow> eigrp_extdata \<Rightarrow> nat \<times> eigrp_stream" where
  "eigrp_tlv1_external_encode A s x =
     (let s = snd (eigrp_stream_putl A s (ext_orig x));
          s = snd (eigrp_stream_putl A s (ext_as x));
          s = snd (eigrp_stream_putl A s (ext_tag x));
          s = snd (eigrp_stream_putl A s (ext_metric x));
          s = snd (eigrp_stream_putw A s (ext_reserved x));
          s = snd (eigrp_stream_putc A s (ext_protocol x));
          s = snd (eigrp_stream_putc A s (ext_flags x))
      in (EIGRP_TLV1_EXTDATA_SIZE, s))"

definition eigrp_tlv1_metric_decode ::
    "eigrp_stream \<Rightarrow> eigrp_metrics \<Rightarrow> nat \<times> eigrp_metrics \<times> eigrp_stream" where
  "eigrp_tlv1_metric_decode s m =
     (if \<not> eigrp_tlv1_stream_has s EIGRP_TLV1_METRIC_SIZE then (0, m, s)
      else
        let (d, s) = eigrp_stream_getl s;
            (b, s) = eigrp_stream_getl s;
            (mtu2, s) = eigrp_stream_getc s;
            (mtu1, s) = eigrp_stream_getc s;
            (mtu0, s) = eigrp_stream_getc s;
            (hops, s) = eigrp_stream_getc s;
            (rel, s) = eigrp_stream_getc s;
            (ld, s) = eigrp_stream_getc s;
            (tag, s) = eigrp_stream_getc s;
            (flags, s) = eigrp_stream_getc s
        in (EIGRP_TLV1_METRIC_SIZE,
            \<lparr>delay = eigrp_scaled_to_delay d, bandwidth = ucast b, mtu = [mtu0, mtu1, mtu2],
             hop_count = hops, reliability = rel, load = ld, metric_tag = tag, metric_flags = flags\<rparr>, s))"

definition eigrp_tlv1_metric_encode :: "allocator \<Rightarrow> eigrp_stream \<Rightarrow> eigrp_metrics \<Rightarrow> nat \<times> eigrp_stream" where
  "eigrp_tlv1_metric_encode A s m =
     (let s = snd (eigrp_stream_putl A s (eigrp_delay_to_scaled (delay m)));
          s = snd (eigrp_stream_putl A s (ucast (bandwidth m)));
          s = snd (eigrp_stream_putc A s (mtu m ! 2));
          s = snd (eigrp_stream_putc A s (mtu m ! 1));
          s = snd (eigrp_stream_putc A s (mtu m ! 0));
          s = snd (eigrp_stream_putc A s (hop_count m));
          s = snd (eigrp_stream_putc A s (reliability m));
          s = snd (eigrp_stream_putc A s (load m));
          s = snd (eigrp_stream_putc A s (metric_tag m));
          s = snd (eigrp_stream_putc A s (metric_flags m))
      in (EIGRP_TLV1_METRIC_SIZE, s))"

definition eigrp_tlv1_route_tlv_type :: "eigrp_af_vectors \<Rightarrow> eigrp_route_descriptor \<Rightarrow> u16" where
  "eigrp_tlv1_route_tlv_type V r =
     (if rt_type r = EIGRP_INT \<or> rt_type r = classic_internal_tlv_type V then classic_internal_tlv_type V
      else if rt_type r = EIGRP_EXT \<or> rt_type r = classic_external_tlv_type V then classic_external_tlv_type V
      else 0)"

text \<open>The sections of one TLV, from the next hop to the destination; no route means malformed.\<close>

definition tlv1_decode_sections ::
    "eigrp_af_vectors \<Rightarrow> bool \<Rightarrow> nat \<Rightarrow> eigrp_route_descriptor \<Rightarrow> eigrp_stream
     \<Rightarrow> eigrp_route_descriptor option \<times> eigrp_stream" where
  "tlv1_decode_sections V external len route s =
     (let bytes = EIGRP_TLV_HDR_SIZE;
          (decoded, nh, s) = packet_address_decode V s (nexthop route)
      in if decoded \<noteq> packet_address_bytes V then (None, s)
         else
           let route = route\<lparr>nexthop := nh\<rparr>;
               bytes = bytes + decoded;
               (decoded, x, s) =
                 (if external then eigrp_tlv1_external_decode s (extdata route) else (0, extdata route, s))
           in if external \<and> decoded = 0 then (None, s)
              else
                let route = route\<lparr>extdata := x\<rparr>;
                    bytes = bytes + decoded;
                    (decoded, m, s) = eigrp_tlv1_metric_decode s (rt_metric route)
                in if decoded = 0 then (None, s)
                   else
                     let route = route\<lparr>rt_metric := m\<rparr>;
                         bytes = bytes + decoded;
                         (decoded, d, s) = packet_prefix_decode V s (dest route)
                     in if decoded = 0 then (None, s)
                        else
                          let route = route\<lparr>dest := d\<rparr>;
                              bytes = bytes + decoded
                          in if len < bytes \<or> bytes = EIGRP_TLV_HDR_SIZE then (None, s)
                             else (Some route, s))"

definition eigrp_tlv1_decoder ::
    "allocator \<Rightarrow> bool \<Rightarrow> nat \<Rightarrow> eigrp_af_vectors \<Rightarrow> intf_id option \<Rightarrow> eigrp_stream
     \<Rightarrow> (eigrp_route_descriptor option \<times> eigrp_stream) option" where
  "eigrp_tlv1_decoder A calloc_ok nid V nbr_ei pkt =
     (let tlv_start = st_getp pkt;
          remaining = eigrp_tlv1_stream_remaining pkt
      in if remaining < EIGRP_TLV_HDR_SIZE then Some (None, eigrp_tlv1_decode_abort pkt)
         else
           let (ty, pkt) = eigrp_stream_getw pkt;
               (len, pkt) = eigrp_stream_getw pkt;
               len = unat len
           in if ty \<noteq> classic_internal_tlv_type V \<and> ty \<noteq> classic_external_tlv_type V
              then Some (None,
                     if EIGRP_TLV_HDR_SIZE \<le> len \<and> len \<le> remaining
                     then eigrp_tlv1_decode_skip pkt (tlv_start + len)
                     else eigrp_tlv1_decode_abort pkt)
              else
                let external = (ty \<noteq> classic_internal_tlv_type V)
                in if len < eigrp_tlv1_min_length V external \<or> remaining < len
                   then Some (None, eigrp_tlv1_decode_abort pkt)
                   else
                     let tlv_end = tlv_start + len;
                         packet_end = st_endp pkt;
                         pkt = eigrp_stream_set_endp A pkt tlv_end
                     in case eigrp_topology_route_create calloc_ok nid nbr_ei of
                          None \<Rightarrow> None
                        | Some route \<Rightarrow>
                            (case tlv1_decode_sections V external len (route\<lparr>rt_type := ty\<rparr>) pkt of
                               (None, pkt) \<Rightarrow>
                                 Some (None, eigrp_tlv1_decode_abort (eigrp_stream_set_endp A pkt packet_end))
                             | (Some route, pkt) \<Rightarrow>
                                 Some (Some route,
                                   eigrp_tlv1_decode_skip (eigrp_stream_set_endp A pkt packet_end) tlv_end)))"

text \<open>
  The encoder also changes the descriptor: a filtered prefix is advertised with an infinite delay.
  \<open>has_intf\<close> says whether an interface is known (directly or through the neighbour), which the filter
  needs.
\<close>

definition eigrp_tlv1_encoder ::
    "allocator \<Rightarrow> eigrp_af_vectors \<Rightarrow> bool \<Rightarrow> (eigrp_prefix \<Rightarrow> bool) \<Rightarrow> eigrp_stream \<Rightarrow> eigrp_route_descriptor
     \<Rightarrow> nat \<times> eigrp_stream \<times> eigrp_route_descriptor" where
  "eigrp_tlv1_encoder A V has_intf filtered pkt route =
     (let route = (if has_intf \<and> filtered (route_destination route)
                   then route\<lparr>rt_metric := (rt_metric route)\<lparr>delay := ucast EIGRP_MAX_METRIC\<rparr>\<rparr> else route);
          ty = eigrp_tlv1_route_tlv_type V route
      in if ty = 0 then (0, pkt, route)
         else
           let tlv_start = st_endp pkt;
               pkt = snd (eigrp_stream_putw A pkt ty);
               pkt = snd (eigrp_stream_putw A pkt 0);
               (encoded, pkt) = packet_address_encode V A pkt (nexthop route)
           in if encoded \<noteq> packet_address_bytes V then (0, eigrp_stream_set_endp A pkt tlv_start, route)
              else
                let pkt = (if ty = classic_external_tlv_type V
                           then snd (eigrp_tlv1_external_encode A pkt (extdata route)) else pkt);
                    pkt = snd (eigrp_tlv1_metric_encode A pkt (rt_metric route));
                    (encoded, pkt) = packet_prefix_encode V A pkt (route_destination route)
                in if encoded = 0 then (0, eigrp_stream_set_endp A pkt tlv_start, route)
                   else
                     let tlv_end = st_endp pkt;
                         len = (tlv_end - tlv_start) mod 2 ^ 16;
                         pkt = eigrp_stream_set_endp A pkt (tlv_start + 2);
                         pkt = snd (eigrp_stream_putw A pkt (of_nat len));
                         pkt = eigrp_stream_set_endp A pkt tlv_end
                     in (len, pkt, route))"

subsection \<open>The sections on the wire\<close>

definition tlv1_external_wire :: "eigrp_extdata \<Rightarrow> u8 list" where
  "tlv1_external_wire x = htonl (ext_orig x) @ htonl (ext_as x) @ htonl (ext_tag x) @ htonl (ext_metric x)
     @ htons (ext_reserved x) @ [ext_protocol x] @ [ext_flags x]"

definition tlv1_metric_wire :: "eigrp_metrics \<Rightarrow> u8 list" where
  "tlv1_metric_wire m = htonl (eigrp_delay_to_scaled (delay m)) @ htonl (ucast (bandwidth m))
     @ [mtu m ! 2] @ [mtu m ! 1] @ [mtu m ! 0] @ [hop_count m] @ [reliability m] @ [load m]
     @ [metric_tag m] @ [metric_flags m]"

text \<open>What a vector metric becomes when it crosses the classic encoding.\<close>

definition tlv1_metric_image :: "eigrp_metrics \<Rightarrow> eigrp_metrics" where
  "tlv1_metric_image m =
     \<lparr>delay = eigrp_scaled_to_delay (eigrp_delay_to_scaled (delay m)), bandwidth = ucast (ucast (bandwidth m) :: u32),
      mtu = [mtu m ! 0, mtu m ! 1, mtu m ! 2], hop_count = hop_count m, reliability = reliability m,
      load = load m, metric_tag = metric_tag m, metric_flags = metric_flags m\<rparr>"

lemma length_tlv1_wire [simp]:
  "length (tlv1_external_wire x) = 20" "length (tlv1_metric_wire m) = 16"
  by (simp_all add: tlv1_external_wire_def tlv1_metric_wire_def)

lemma tlv1_remaining [simp]: "stream_ok s \<Longrightarrow> eigrp_tlv1_stream_remaining s = length (unread s)"
  by (auto simp: eigrp_tlv1_stream_remaining_def length_unread)

lemma external_encode_appended:
  assumes "stream_ok s" and "can_grow A s 20"
  shows "appended A s (tlv1_external_wire x) (snd (eigrp_tlv1_external_encode A s x))"
  unfolding eigrp_tlv1_external_encode_def tlv1_external_wire_def Let_def put_defs append_assoc [symmetric] snd_conv
  by (intro appended_put appended_first assms(1) can_grow_mono [OF assms(2)]) simp_all

lemma metric_encode_appended:
  assumes "stream_ok s" and "can_grow A s 16"
  shows "appended A s (tlv1_metric_wire m) (snd (eigrp_tlv1_metric_encode A s m))"
  unfolding eigrp_tlv1_metric_encode_def tlv1_metric_wire_def Let_def put_defs append_assoc [symmetric] snd_conv
  by (intro appended_put appended_first assms(1) can_grow_mono [OF assms(2)]) simp_all

lemma external_decode_wire:
  assumes s: "stream_ok s" and u: "unread s = tlv1_external_wire x @ r"
  shows "eigrp_tlv1_external_decode s y = (20, x, advance s 20)"
  using s u by (simp add: eigrp_tlv1_external_decode_def eigrp_tlv1_stream_has_def tlv1_external_wire_def
      getl_eq getw_eq getc_eq advance_ok)

lemma metric_decode_wire:
  assumes s: "stream_ok s" and u: "unread s = tlv1_metric_wire m @ r"
  shows "eigrp_tlv1_metric_decode s n = (16, tlv1_metric_image m, advance s 16)"
  using s u by (simp add: eigrp_tlv1_metric_decode_def eigrp_tlv1_stream_has_def tlv1_metric_wire_def
      tlv1_metric_image_def getl_eq getw_eq getc_eq advance_ok)

lemma external_decode_total:
  "stream_ok s \<Longrightarrow> eigrp_tlv1_external_decode s y =
     (if length (unread s) < 20 then (0, y, s)
      else (20, fst (snd (eigrp_tlv1_external_decode s y)), advance s 20))"
  by (simp add: eigrp_tlv1_external_decode_def eigrp_tlv1_stream_has_def getl_eq getw_eq getc_eq advance_ok)

lemma metric_decode_total:
  "stream_ok s \<Longrightarrow> eigrp_tlv1_metric_decode s y =
     (if length (unread s) < 16 then (0, y, s)
      else (16, fst (snd (eigrp_tlv1_metric_decode s y)), advance s 16))"
  by (simp add: eigrp_tlv1_metric_decode_def eigrp_tlv1_stream_has_def getl_eq getw_eq getc_eq advance_ok)

definition tlv1_body_wire :: "eigrp_af_vectors \<Rightarrow> (u8 \<Rightarrow> nat) \<Rightarrow> bool \<Rightarrow> eigrp_route_descriptor \<Rightarrow> u8 list" where
  "tlv1_body_wire V nbytes external route =
     take (packet_address_bytes V) (ip_bytes (nexthop route))
     @ (if external then tlv1_external_wire (extdata route) else [])
     @ tlv1_metric_wire (rt_metric route) @ prefix_wire nbytes (route_destination route)"

definition tlv1_wire :: "eigrp_af_vectors \<Rightarrow> (u8 \<Rightarrow> nat) \<Rightarrow> u16 \<Rightarrow> eigrp_route_descriptor \<Rightarrow> u8 list" where
  "tlv1_wire V nbytes ty route =
     (let body = tlv1_body_wire V nbytes (ty = classic_external_tlv_type V) route
      in htons ty @ htons (of_nat (4 + length body)) @ body)"

lemma tlv1_abort_advance:
  "stream_ok s \<Longrightarrow> n \<le> length (unread s)
   \<Longrightarrow> eigrp_tlv1_decode_abort (advance s n) = advance s (length (unread s))"
  by (simp add: eigrp_tlv1_decode_abort_def set_getp_end)

lemma tlv1_skip_advance:
  assumes "stream_ok s" and "m \<le> length (unread s)"
  shows "eigrp_tlv1_decode_skip (advance s n) (st_getp s + m) = advance s m"
proof -
  have "st_getp s + m \<le> st_endp s" using assms by (auto simp: length_unread stream_ok_def)
  then show ?thesis using set_getp_advance [OF assms] by (simp add: eigrp_tlv1_decode_skip_def)
qed

context af_codec
begin

lemma sections_wire:
  assumes s: "stream_ok s" and u: "unread s = tlv1_body_wire V nbytes external q @ r"
    and p: "prefix_in V (route_destination q)" and a: "addr_ok (nexthop q)"
    and len: "4 + length (tlv1_body_wire V nbytes external q) \<le> len"
  shows "tlv1_decode_sections V external len route s =
     (Some (route\<lparr>nexthop := nexthop_image V family (nexthop q),
                   extdata := (if external then extdata q else extdata route),
                   rt_metric := tlv1_metric_image (rt_metric q),
                   dest := eigrp_prefix_normalize (route_destination q)\<rparr>),
      advance s (length (tlv1_body_wire V nbytes external q)))"
proof -
  let ?ab = "packet_address_bytes V" and ?nh = "take (packet_address_bytes V) (ip_bytes (nexthop q))"
    and ?x = "if external then tlv1_external_wire (extdata q) else []"
    and ?m = "tlv1_metric_wire (rt_metric q)" and ?p = "prefix_wire nbytes (route_destination q)"
  have ab: "length ?nh = ?ab" using a address_bytes by (simp add: addr_ok_def)
  have u': "unread s = ?nh @ ?x @ ?m @ ?p @ r" using u by (simp add: tlv1_body_wire_def)
  have len_x: "length ?x = (if external then 20 else 0)" by simp
  define s1 where "s1 = advance s ?ab"
  define s2 where "s2 = advance s1 (length ?x)"
  define s3 where "s3 = advance s2 16"
  have ok1: "stream_ok s1" "unread s1 = ?x @ ?m @ ?p @ r"
    using s u' ab by (simp_all add: s1_def advance_ok)
  have ok2: "stream_ok s2" "unread s2 = ?m @ ?p @ r"
    using ok1 by (simp_all add: s2_def advance_ok)
  have ok3: "stream_ok s3" "unread s3 = ?p @ r"
    using ok2 by (simp_all add: s3_def advance_ok)
  have e: "advance s3 (length ?p) = advance s (length (tlv1_body_wire V nbytes external q))"
    using ab len_x by (simp add: s1_def s2_def s3_def tlv1_body_wire_def add.assoc)
  have lens: "length ?p \<noteq> 0" "4 + ?ab + length ?x + 16 + length ?p \<le> len"
    using len ab by (simp_all add: prefix_wire_def tlv1_body_wire_def)
  have "packet_address_decode V s (nexthop route) = (?ab, nexthop_image V family (nexthop q), s1)"
    using address_decode [OF s, of "nexthop route"] u' ab by (simp add: nexthop_image_def s1_def)
  moreover have "(if external then eigrp_tlv1_external_decode s1 y else (0, y, s1))
      = (if external then 20 else 0, if external then extdata q else y, s2)" for y
    using external_decode_wire [OF ok1(1)] ok1(2) by (simp add: s2_def)
  moreover have "eigrp_tlv1_metric_decode s2 y = (16, tlv1_metric_image (rt_metric q), s3)" for y
    using metric_decode_wire [OF ok2] by (simp add: s3_def)
  moreover have "packet_prefix_decode V s3 y
      = (length ?p, eigrp_prefix_normalize (route_destination q), advance s3 (length ?p))" for y
    by (rule prefix_decode_wire [OF p ok3])
  ultimately show ?thesis
    unfolding e using lens address_bytes(1)
    by (cases external) (simp_all add: tlv1_decode_sections_def Let_def)
qed

lemma length_tlv1_body:
  assumes "addr_ok (nexthop q)" and "prefix_in V (route_destination q)"
  shows "length (tlv1_body_wire V nbytes external q) \<le> 69"
    and "packet_address_bytes V + (if external then 20 else 0) + 17 \<le> length (tlv1_body_wire V nbytes external q)"
  using assms address_bytes length_prefix_wire [of "route_destination q"]
  by (auto simp: tlv1_body_wire_def addr_ok_def prefix_in_def prefix_wire_def)

lemma tlv1_encoder_appended:
  assumes s: "stream_ok s" and g: "can_grow A s 73"
    and q: "q = (if has_intf \<and> filtered (route_destination route)
                 then route\<lparr>rt_metric := (rt_metric route)\<lparr>delay := ucast EIGRP_MAX_METRIC\<rparr>\<rparr> else route)"
    and ty: "ty = eigrp_tlv1_route_tlv_type V route" "ty \<noteq> 0"
    and a: "addr_ok (nexthop route)" "ip_afi (nexthop route) \<in> {AF_UNSPEC, family}"
    and p: "prefix_in V (route_destination route)"
  shows "\<exists>s'. eigrp_tlv1_encoder A V has_intf filtered s route = (length (tlv1_wire V nbytes ty q), s', q)
     \<and> appended A s (tlv1_wire V nbytes ty q) s'"
proof -
  let ?ext = "ty = classic_external_tlv_type V"
  let ?nh = "take (packet_address_bytes V) (ip_bytes (nexthop q))"
    and ?x = "if ?ext then tlv1_external_wire (extdata q) else []"
    and ?m = "tlv1_metric_wire (rt_metric q)" and ?p = "prefix_wire nbytes (route_destination q)"
  let ?b = "tlv1_body_wire V nbytes ?ext q"
  have qr: "nexthop q = nexthop route" "route_destination q = route_destination route" "rt_type q = rt_type route"
    "extdata q = extdata route"
    by (simp_all add: q route_destination_def split: option.split)
  have tq: "eigrp_tlv1_route_tlv_type V q = ty" by (simp add: ty(1) eigrp_tlv1_route_tlv_type_def qr)
  have lens: "length ?nh = packet_address_bytes V" "length ?b \<le> 69" "length ?x \<le> 20" "length ?p \<le> 17"
    using a p address_bytes length_tlv1_body(1) [of q ?ext] length_prefix_wire [of "route_destination q"]
    by (auto simp: addr_ok_def qr prefix_in_def)
  have room: "can_grow A s n" if "n \<le> 73" for n using g that by (rule can_grow_mono)
  define s2 where "s2 = snd (eigrp_stream_putw A (snd (eigrp_stream_putw A s ty)) 0)"
  define s3 where "s3 = snd (packet_address_encode V A s2 (nexthop q))"
  define s4 where "s4 = (if ?ext then snd (eigrp_tlv1_external_encode A s3 (extdata q)) else s3)"
  define s5 where "s5 = snd (eigrp_tlv1_metric_encode A s4 (rt_metric q))"
  define s6 where "s6 = snd (packet_prefix_encode V A s5 (route_destination q))"
  have a2: "appended A s (htons ty @ htons 0) s2"
    unfolding s2_def put_defs by (intro appended_put appended_first s room) simp_all
  have enc: "packet_address_encode V A s2 (nexthop q) = (packet_address_bytes V, s3)"
    and s3: "s3 = snd (eigrp_stream_put A s2 ?nh)"
    using a(2) by (auto simp: s3_def address_encode qr)
  have a3: "appended A s ((htons ty @ htons 0) @ ?nh) s3"
    unfolding s3 using lens(1) address_bytes by (intro appended_put [OF a2] room) simp
  have a4: "appended A s (((htons ty @ htons 0) @ ?nh) @ ?x) s4"
  proof (cases ?ext)
    case True
    have "can_grow A s3 20" using lens(1) address_bytes by (intro appendedD(5) [OF a3] room) simp
    then show ?thesis using True appended_trans [OF a3 external_encode_appended [OF appendedD(1) [OF a3]]]
      by (simp add: s4_def)
  qed (use a3 in \<open>simp add: s4_def\<close>)
  have "can_grow A s4 16" using lens address_bytes by (intro appendedD(5) [OF a4] room) simp
  then have a5: "appended A s ((((htons ty @ htons 0) @ ?nh) @ ?x) @ ?m) s5"
    unfolding s5_def by (intro appended_trans [OF a4] metric_encode_appended appendedD(1) [OF a4])
  have "can_grow A s5 (length ?p)" using lens address_bytes by (intro appendedD(5) [OF a5] room) simp
  with prefix_encode [of "route_destination q" s5 A] appendedD(1) [OF a5] p qr
  have pe: "fst (packet_prefix_encode V A s5 (route_destination q)) = length ?p"
    and "appended A s5 ?p s6" by (auto simp: s6_def)
  from appended_trans [OF a5 this(2)] have a6: "appended A s (htons ty @ htons 0 @ ?b) s6"
    by (simp add: tlv1_body_wire_def)
  have end6: "st_endp s6 - st_endp s = 4 + length ?b" "st_endp s6 = st_endp s + (4 + length ?b)"
    using appendedD(4) [OF a6] by simp_all
  have small: "(4 + length ?b) mod 2 ^ 16 = 4 + length ?b" using lens(2) by simp
  have a7: "appended A s (tlv1_wire V nbytes ty q)
      (eigrp_stream_set_endp A (snd (eigrp_stream_putw A (eigrp_stream_set_endp A s6 (st_endp s + 2))
         (of_nat (4 + length ?b)))) (st_endp s6))"
    unfolding tlv1_wire_def Let_def put_defs
    using appended_patch [OF a6 s, of "htons (of_nat (4 + length ?b))"] by simp
  have pz: "length ?p \<noteq> 0" by (simp add: prefix_wire_def)
  have "eigrp_tlv1_encoder A V has_intf filtered s route = (4 + length ?b,
      eigrp_stream_set_endp A (snd (eigrp_stream_putw A (eigrp_stream_set_endp A s6 (st_endp s + 2))
         (of_nat (4 + length ?b)))) (st_endp s6), q)"
    using pz ty(2)
    unfolding eigrp_tlv1_encoder_def q [symmetric] Let_def tq s2_def [symmetric] split_beta enc fst_conv snd_conv
      s4_def [symmetric] s5_def [symmetric] s6_def [symmetric] pe end6(1) small
    by simp
  with a7 show ?thesis by (simp add: tlv1_wire_def Let_def)
qed

lemma tlv1_decoder_wire:
  assumes s: "stream_ok s" and u: "unread s = tlv1_wire V nbytes ty q @ r"
    and ty: "ty \<in> {classic_internal_tlv_type V, classic_external_tlv_type V}"
    and p: "prefix_in V (route_destination q)" and a: "addr_ok (nexthop q)"
    and c: "eigrp_topology_route_create True nid nbr_ei = Some route"
  shows "eigrp_tlv1_decoder A True nid V nbr_ei s =
     Some (Some (route\<lparr>rt_type := ty, nexthop := nexthop_image V family (nexthop q),
                   extdata := (if ty = classic_external_tlv_type V then extdata q else extdata route),
                   rt_metric := tlv1_metric_image (rt_metric q),
                   dest := eigrp_prefix_normalize (route_destination q)\<rparr>),
      advance s (length (tlv1_wire V nbytes ty q)))"
proof -
  let ?ext = "ty = classic_external_tlv_type V"
  let ?b = "tlv1_body_wire V nbytes ?ext q"
  let ?len = "4 + length ?b"
  note lb = length_tlv1_body [OF a p, of ?ext]
  have ext: "(ty \<noteq> classic_internal_tlv_type V) = ?ext" using ty classic_types(1) by auto
  have u': "unread s = htons ty @ htons (of_nat ?len) @ ?b @ r" using u by (simp add: tlv1_wire_def Let_def)
  have n: "unat (of_nat ?len :: u16) = ?len" using lb by (simp add: unat_of_nat take_bit_eq_mod del: of_nat_add)
  define s4 where "s4 = advance s 4"
  have ok4: "stream_ok s4" "unread s4 = ?b @ r" using s u' by (simp_all add: s4_def advance_ok)
  have lu: "length (unread s) = ?len + length r" using u' by simp
  have e: "st_getp s + ?len \<le> st_endp s" using s lu by (simp add: length_unread stream_ok_def)
  have nar: "eigrp_stream_set_endp A s4 (st_getp s + ?len) = narrow s4 (st_getp s + ?len)"
    using e by (intro narrow_set_endp ok4) (simp_all add: s4_def)
  have nok: "stream_ok (narrow s4 (st_getp s + ?len))"
    using e by (intro narrow_ok ok4) (simp_all add: s4_def)
  have nun: "unread (narrow s4 (st_getp s + ?len)) = ?b @ []"
    using e ok4 by (subst unread_narrow) (simp_all add: s4_def)
  have sec: "tlv1_decode_sections V ?ext ?len (route\<lparr>rt_type := ty\<rparr>) (narrow s4 (st_getp s + ?len)) =
     (Some (route\<lparr>rt_type := ty, nexthop := nexthop_image V family (nexthop q),
                   extdata := (if ?ext then extdata q else extdata route),
                   rt_metric := tlv1_metric_image (rt_metric q),
                   dest := eigrp_prefix_normalize (route_destination q)\<rparr>),
      advance (narrow s4 (st_getp s + ?len)) (length ?b))"
    using sections_wire [OF nok nun p a order.refl, where route = "route\<lparr>rt_type := ty\<rparr>"] by simp
  have wid: "eigrp_stream_set_endp A (advance (narrow s4 (st_getp s + ?len)) (length ?b)) (st_endp s) = advance s ?len"
    using widen [OF ok4(1), of "length ?b"] e by (simp add: s4_def)
  have g: "eigrp_stream_getw s = (ty, advance s 2)"
    "eigrp_stream_getw (advance s 2) = (of_nat ?len, s4)"
    using s u' by (simp_all add: getw_eq advance_ok s4_def)
  have "eigrp_tlv1_decode_skip (advance s ?len) (st_getp s + ?len) = advance s ?len"
    using e s by (simp add: eigrp_tlv1_decode_skip_def eigrp_stream_set_getp_def advance_def)
  moreover have "\<not> ?len < eigrp_tlv1_min_length V ?ext" "st_endp s4 = st_endp s"
    using lb by (auto simp: eigrp_tlv1_min_length_def s4_def)
  moreover have "length (tlv1_wire V nbytes ty q) = ?len" by (simp add: tlv1_wire_def Let_def)
  ultimately show ?thesis
    using s lu ty g n nar sec wid c ext
    by (simp add: eigrp_tlv1_decoder_def Let_def del: of_nat_add)
qed

lemma sections_total:
  assumes s: "stream_ok s"
  shows "reads_within s (tlv1_decode_sections V external len route s) (route_wire_ok V family)"
proof (cases "length (unread s) < packet_address_bytes V")
  case True
  then show ?thesis
    using address_decode [OF s] address_bytes(1)
    by (simp add: tlv1_decode_sections_def reads_within_stay)
next
  case False
  define nh where "nh = \<lparr>ip_afi = family, ip_bytes = take (packet_address_bytes V) (unread s)
      @ replicate (16 - packet_address_bytes V) (0 :: u8)\<rparr>"
  define k where "k = packet_address_bytes V"
  have nh: "packet_address_decode V s y = (k, nh, advance s k)" "ip_afi nh = family" "addr_ok nh" for y
    using False address_decode [OF s] address_bytes by (simp_all add: nh_def addr_ok_def k_def)
  have ok1: "stream_ok (advance s k)" "k \<le> length (unread s)" using False s by (simp_all add: advance_ok k_def)
  obtain j x where x:
    "external \<Longrightarrow> eigrp_tlv1_external_decode (advance s k) (extdata route) = (j, x, advance s (k + j))"
    "\<not> external \<Longrightarrow> j = 0 \<and> x = extdata route" and kj: "k + j \<le> length (unread s)"
    using external_decode_total [OF ok1(1), of "extdata route"] ok1(2)
    by (cases external; cases "length (unread (advance s k)) < 20") auto
  have ok2: "stream_ok (advance s (k + j))" using s kj by (simp add: advance_ok)
  obtain i m where m: "eigrp_tlv1_metric_decode (advance s (k + j)) (rt_metric route) = (i, m, advance s (k + j + i))"
    "k + j + i \<le> length (unread s)"
    using metric_decode_total [OF ok2, of "rt_metric route"] kj
    by (cases "length (unread (advance s (k + j))) < 16") auto
  have ok3: "stream_ok (advance s (k + j + i))" using s m(2) by (simp add: advance_ok)
  obtain h d where d: "packet_prefix_decode V (advance s (k + j + i)) (dest route) = (h, d, advance s (k + j + i + h))"
    "k + j + i + h \<le> length (unread s)" "h \<noteq> 0 \<Longrightarrow> prefix_in V d \<and> eigrp_prefix_normalize d = d"
    using prefix_decode_total [OF ok3, of "dest route"] m(2) by (auto simp: add.assoc)
  define q where "q = route\<lparr>nexthop := nh, extdata := x, rt_metric := m, dest := d\<rparr>"
  have eq: "tlv1_decode_sections V external len route s =
      (if external \<and> j = 0 then (None, advance s (k + j))
       else if i = 0 then (None, advance s (k + j + i))
       else if h = 0 \<or> len < 4 + k + j + i + h then (None, advance s (k + j + i + h))
       else (Some q, advance s (k + j + i + h)))"
    unfolding tlv1_decode_sections_def Let_def nh(1) k_def [symmetric] prod.case
    using x m(1) d(1) by (cases external) (simp_all add: q_def)
  have "h \<noteq> 0 \<Longrightarrow> route_wire_ok V family q" using d(3) nh(2,3) by (simp add: route_wire_ok_def q_def)
  then show ?thesis unfolding eq using kj m(2) d(2) by (auto intro!: reads_withinI split: if_split)
qed

lemma tlv1_decoder_total:
  assumes s: "stream_ok s"
  shows "decodes s (eigrp_tlv1_decoder A True nid V nbr_ei s) (route_wire_ok V family)"
proof (cases "length (unread s) < 4")
  case True
  then show ?thesis
    using s tlv1_abort_advance [OF s, of 0] by (auto simp: eigrp_tlv1_decoder_def intro!: decodes_end)
next
  case False
  define ty where "ty = fst (eigrp_stream_getw s)"
  define l where "l = fst (eigrp_stream_getw (advance s 2))"
  define len where "len = unat l"
  define ext where "ext = (ty \<noteq> classic_internal_tlv_type V)"
  have g: "eigrp_stream_getw s = (ty, advance s 2)" "eigrp_stream_getw (advance s 2) = (l, advance s 4)"
    using s False by (simp_all add: ty_def l_def getw_eq advance_ok)
  have ok4: "stream_ok (advance s 4)" "4 \<le> length (unread s)" using s False by (simp_all add: advance_ok)
  have ab: "eigrp_tlv1_decode_abort (advance s n) = advance s (length (unread s))" if "n \<le> length (unread s)" for n
    using tlv1_abort_advance [OF s that] .
  note unf = eigrp_tlv1_decoder_def Let_def g prod.case len_def [symmetric] ext_def [symmetric]
    tlv1_remaining [OF s] tlv1_sizes advance_frame
  consider (skip) "ext" "ty \<noteq> classic_external_tlv_type V" "4 \<le> len" "len \<le> length (unread s)"
    | (bad) "ext" "ty \<noteq> classic_external_tlv_type V" "\<not> (4 \<le> len \<and> len \<le> length (unread s))"
    | (short) "\<not> (ext \<and> ty \<noteq> classic_external_tlv_type V)"
        "len < eigrp_tlv1_min_length V ext \<or> length (unread s) < len"
    | (tlv) "\<not> (ext \<and> ty \<noteq> classic_external_tlv_type V)"
        "\<not> (len < eigrp_tlv1_min_length V ext \<or> length (unread s) < len)"
    by blast
  then show ?thesis
  proof cases
    case skip
    then show ?thesis
      unfolding unf using False tlv1_skip_advance [OF s skip(4), of 4] by (auto intro!: decodesI)
  next
    case bad
    then show ?thesis unfolding unf using False ab [OF ok4(2)] by (auto intro!: decodes_end)
  next
    case short
    then show ?thesis unfolding unf using False ab [OF ok4(2)] by (auto intro!: decodes_end)
  next
    case tlv
    define t where "t = narrow (advance s 4) (st_getp s + len)"
    obtain route where c: "eigrp_topology_route_create True nid nbr_ei = Some route"
      by (simp add: eigrp_topology_route_create_def)
    have min: "4 \<le> len" using tlv(2) by (simp add: eigrp_tlv1_min_length_def)
    have e: "st_getp s + len \<le> st_endp s" "len \<le> length (unread s)"
      using tlv(2) s by (auto simp: length_unread stream_ok_def)
    have nar: "eigrp_stream_set_endp A (advance s 4) (st_getp s + len) = t"
      unfolding t_def using e min by (intro narrow_set_endp ok4) simp_all
    have tok: "stream_ok t" unfolding t_def using e min by (intro narrow_ok ok4) simp_all
    obtain r n where sec: "tlv1_decode_sections V ext len (route\<lparr>rt_type := ty\<rparr>) t = (r, advance t n)"
      "n \<le> length (unread t)" "\<And>q. r = Some q \<Longrightarrow> route_wire_ok V family q"
      using sections_total [OF tok, of ext len "route\<lparr>rt_type := ty\<rparr>"] by (elim reads_withinE) blast
    have "n \<le> len - 4" using sec(2) ok4 e min by (simp add: t_def unread_narrow)
    then have n4: "4 + n \<le> length (unread s)" using e(2) min by simp
    have wid: "eigrp_stream_set_endp A (advance t n) (st_endp s) = advance s (4 + n)"
      unfolding t_def using widen [OF ok4(1), of n] n4 s by (simp add: length_unread stream_ok_def)
    have "eigrp_tlv1_decoder A True nid V nbr_ei s = Some (r, advance s (case r of None \<Rightarrow> length (unread s) | Some _ \<Rightarrow> len))"
      unfolding unf using tlv False nar sec(1) wid c ab [OF n4] tlv1_skip_advance [OF s e(2), of "4 + n"]
      by (cases r) auto
    then show ?thesis using sec(3) e(2) min by (auto intro!: decodesI split: option.split)
  qed
qed

lemma tlv1_roundtrip:
  assumes s: "stream_ok s" "unread s = []" and g: "can_grow A s 73"
    and q: "\<not> (has_intf \<and> filtered (route_destination route))"
    and ty: "eigrp_tlv1_route_tlv_type V route \<noteq> 0"
    and a: "addr_ok (nexthop route)" "ip_afi (nexthop route) \<in> {AF_UNSPEC, family}"
    and p: "prefix_in V (route_destination route)"
  shows "\<exists>n s' r s''. eigrp_tlv1_encoder A V has_intf filtered s route = (n, s', route)
     \<and> eigrp_tlv1_decoder A True nid V nbr_ei s' = Some (Some r, s'') \<and> unread s'' = []
     \<and> rt_type r = eigrp_tlv1_route_tlv_type V route \<and> dest r = eigrp_prefix_normalize (route_destination route)
     \<and> nexthop r = nexthop_image V family (nexthop route) \<and> rt_metric r = tlv1_metric_image (rt_metric route)
     \<and> (rt_type r = classic_external_tlv_type V \<longrightarrow> extdata r = extdata route)"
proof -
  let ?ty = "eigrp_tlv1_route_tlv_type V route"
  have nq: "route = (if has_intf \<and> filtered (route_destination route)
      then route\<lparr>rt_metric := (rt_metric route)\<lparr>delay := ucast EIGRP_MAX_METRIC\<rparr>\<rparr> else route)"
    using q by auto
  obtain s' where enc: "eigrp_tlv1_encoder A V has_intf filtered s route = (length (tlv1_wire V nbytes ?ty route), s', route)"
    and ap: "appended A s (tlv1_wire V nbytes ?ty route) s'"
    using tlv1_encoder_appended [where q = route and route = route and ty = ?ty and has_intf = has_intf
        and filtered = filtered, OF s(1) g nq refl ty a p] by auto
  have u: "unread s' = tlv1_wire V nbytes ?ty route @ []" using appended_unread [OF ap s] by simp
  have t: "?ty \<in> {classic_internal_tlv_type V, classic_external_tlv_type V}"
    using ty by (auto simp: eigrp_tlv1_route_tlv_type_def split: if_splits)
  obtain r0 where "eigrp_topology_route_create True nid nbr_ei = Some r0"
    by (simp add: eigrp_topology_route_create_def)
  from tlv1_decoder_wire [OF appendedD(1) [OF ap] u t p a(1) this, of A] u enc show ?thesis by auto
qed

end

subsection \<open>Correctness\<close>

definition families :: "(eigrp_af_vectors \<times> addr_family) set" where
  "families = {(eigrp_ipv4_init, AF_INET), (eigrp_ipv6_init, AF_INET6)}"

definition classic_metric :: "eigrp_metrics \<Rightarrow> bool" where
  "classic_metric m \<longleftrightarrow> 0 < unat (delay m) \<and> unat (delay m) < 2 ^ 24 \<and> unat (bandwidth m) < 2 ^ 32
     \<and> length (mtu m) = 3"

lemma ucast_down_up:
  fixes w :: u64
  assumes "unat w < 2 ^ 32"
  shows "ucast (ucast w :: u32) = w"
proof -
  have "unat (ucast w :: u32) = take_bit 32 (unat w)" by (simp add: unsigned_ucast_eq unsigned_take_bit_eq)
  then have "unat (ucast w :: u32) = unat w" using assms by (simp add: take_bit_eq_mod)
  moreover have "unat (ucast v :: u64) = unat v" for v :: u32
    using unsigned_less [where ?'b = 32 and ?'a = nat, of v] by (simp add: unsigned_ucast_eq take_bit_eq_mod)
  ultimately have "unat (ucast (ucast w :: u32) :: u64) = unat w" by metis
  then show ?thesis by (simp add: word_unat_eq_iff)
qed

lemma tlv1_metric_image_id:
  assumes "classic_metric m"
  shows "tlv1_metric_image m = m"
proof -
  have "ucast (ucast (bandwidth m) :: u32) = bandwidth m"
    using assms by (intro ucast_down_up) (simp add: classic_metric_def)
  moreover have "[mtu m ! 0, mtu m ! 1, mtu m ! 2] = mtu m"
    using assms by (auto simp: classic_metric_def list_eq_iff_nth_eq less_Suc_eq numeral_3_eq_3 numeral_2_eq_2)
  ultimately show ?thesis
    using assms delay_scaling [of "delay m"] by (simp add: tlv1_metric_image_def classic_metric_def)
qed

text \<open>
  C29: A route sent in a classic TLV arrives: for IPv4 and IPv6, internal and external, an unfiltered
  route whose metric fits the classic format is encoded completely and decoded to the same type,
  metric and exterior data, the same next hop, and the destination with its host bits cleared;
  nothing is left unread.
\<close>

theorem tlv1_encode_decode:
  assumes "(V, family) \<in> families" and "stream_ok s" and "unread s = []" and "can_grow A s 73"
    and "\<not> (has_intf \<and> filtered (route_destination route))"
    and "eigrp_tlv1_route_tlv_type V route \<noteq> 0"
    and "addr_ok (nexthop route)" and "ip_afi (nexthop route) \<in> {AF_UNSPEC, family}"
    and "prefix_in V (route_destination route)" and "classic_metric (rt_metric route)"
  shows "\<exists>n s' r s''. eigrp_tlv1_encoder A V has_intf filtered s route = (n, s', route)
     \<and> eigrp_tlv1_decoder A True nid V nbr_ei s' = Some (Some r, s'') \<and> unread s'' = []
     \<and> rt_type r = eigrp_tlv1_route_tlv_type V route \<and> dest r = eigrp_prefix_normalize (route_destination route)
     \<and> nexthop r = nexthop_image V family (nexthop route) \<and> rt_metric r = rt_metric route
     \<and> (rt_type r = classic_external_tlv_type V \<longrightarrow> extdata r = extdata route)"
  using assms ipv4.tlv1_roundtrip [of s A has_intf filtered route nid nbr_ei]
    ipv6.tlv1_roundtrip [of s A has_intf filtered route nid nbr_ei]
  by (auto simp: families_def tlv1_metric_image_id)

definition sample_route :: eigrp_route_descriptor where
  "sample_route = \<lparr>rid = 1, rt_type = EIGRP_EXT, topology_id = 0, dest = sample_prefix,
     nexthop = \<lparr>ip_afi = AF_INET, ip_bytes = [10, 1, 112, 2] @ replicate 12 0\<rparr>,
     rt_prefix = None, adv_router = Some 1, reported_metric = sample_metrics, reported_distance = 28160,
     total_metric = sample_metrics, distance = 30720, rt_metric = sample_metrics,
     extdata = zero_extdata\<lparr>ext_orig := 7, ext_tag := 9\<rparr>, rt_flags = 0, rt_ei = Some 3\<rparr>"

lemma sample_metrics_classic: "classic_metric sample_metrics"
  by (simp add: classic_metric_def sample_metrics_def)

lemma sample_route_ok:
  "addr_ok (nexthop sample_route)" "ip_afi (nexthop sample_route) = AF_INET"
  "prefix_in eigrp_ipv4_init (route_destination sample_route)" "classic_metric (rt_metric sample_route)"
  "eigrp_tlv1_route_tlv_type eigrp_ipv4_init sample_route = EIGRP_TLV_IPv4_EXT"
  "rt_metric sample_route = sample_metrics"
  using sample_prefix_ok
  by (simp_all add: sample_route_def addr_ok_def prefix_in_def route_destination_def
      eigrp_tlv1_route_tlv_type_def route_type_consts)
    (simp_all add: sample_prefix_def sample_metrics_classic)

theorem tlv1_encode_decode_witness:
  "\<exists>n s' r s''. eigrp_tlv1_encoder zero_alloc eigrp_ipv4_init True (\<lambda>_. False) (sample_stream\<lparr>st_getp := 3\<rparr>) sample_route
        = (n, s', sample_route)
     \<and> eigrp_tlv1_decoder zero_alloc True 5 eigrp_ipv4_init (Some 2) s' = Some (Some r, s'') \<and> unread s'' = []
     \<and> rt_type r = eigrp_tlv1_route_tlv_type eigrp_ipv4_init sample_route
     \<and> dest r = eigrp_prefix_normalize (route_destination sample_route)
     \<and> nexthop r = nexthop_image eigrp_ipv4_init AF_INET (nexthop sample_route)
     \<and> rt_metric r = rt_metric sample_route
     \<and> (rt_type r = classic_external_tlv_type eigrp_ipv4_init \<longrightarrow> extdata r = extdata sample_route)"
  by (rule tlv1_encode_decode)
    (simp_all add: families_def sample_route_ok sample_metrics_classic,
     simp_all add: EIGRP_TLV_IPv4_EXT_def sample_stream_def stream_ok_def unread_def written_def can_grow_def SIZE_MAX_def)

text \<open>
  The classic decoder is safe on any input: whatever the bytes of a packet are, it ends without
  a fault, never reads past the packet, moves on whenever there is something to read (so that the
  packet loop ends), and a route it returns has a valid, normalised destination of its family.
\<close>

theorem tlv1_decoder_safe:
  assumes "(V, family) \<in> families" and "stream_ok s"
  shows "decodes s (eigrp_tlv1_decoder A True nid V nbr_ei s) (route_wire_ok V family)"
  using assms ipv4.tlv1_decoder_total ipv6.tlv1_decoder_total by (auto simp: families_def)

theorem tlv1_decoder_safe_witness:
  "decodes sample_stream (eigrp_tlv1_decoder zero_alloc True 5 eigrp_ipv6_init None sample_stream)
     (route_wire_ok eigrp_ipv6_init AF_INET6)"
  by (rule tlv1_decoder_safe) (simp_all add: families_def sample_stream_ok)

text \<open>
  The classic TLV does not carry "unreachable": a route whose delay is the infinity marker, as
  the encoder itself sets it for a filtered prefix, arrives with the finite delay 0xffffff, and its
  composite metric at the receiver is finite.
\<close>

theorem tlv1_infinity_not_preserved:
  "delay (tlv1_metric_image (m\<lparr>delay := ucast EIGRP_MAX_METRIC\<rparr>)) = 0xffffff
   \<and> \<not> sentinel (tlv1_metric_image (m\<lparr>delay := ucast EIGRP_MAX_METRIC\<rparr>))
   \<and> unat (eigrp_metric_calculate sample_instance (tlv1_metric_image (sample_metrics\<lparr>delay := ucast EIGRP_MAX_METRIC\<rparr>)))
       = 256 * (25600 + 0xffffff)"
proof -
  have d: "eigrp_scaled_to_delay (eigrp_delay_to_scaled (ucast EIGRP_MAX_METRIC)) = 0xffffff"
    by (simp add: eigrp_scaled_to_delay_def eigrp_delay_to_scaled_def metric_consts)
  have "tlv1_metric_image (sample_metrics\<lparr>delay := ucast EIGRP_MAX_METRIC\<rparr>) = sample_metrics\<lparr>delay := 0xffffff\<rparr>"
    using d by (simp add: tlv1_metric_image_def sample_metrics_def)
  then have "unat (eigrp_metric_calculate sample_instance
      (tlv1_metric_image (sample_metrics\<lparr>delay := ucast EIGRP_MAX_METRIC\<rparr>))) = 256 * (25600 + 0xffffff)"
    by (simp add: eigrp_metric_calculate_def sample_metric_defs metric_consts metric_scale_def Let_def)
  moreover have "delay (tlv1_metric_image (m\<lparr>delay := ucast EIGRP_MAX_METRIC\<rparr>)) = 0xffffff"
    using d by (simp add: tlv1_metric_image_def)
  ultimately show ?thesis by (simp add: sentinel_def metric_consts)
qed

end
