(* ===== verification/Eigrp_TLV2.thy ===== *)
theory Eigrp_TLV2
  imports Eigrp_TLV1
begin

text \<open>
  The multiprotocol (wide metric) route TLV (\<^verbatim>\<open>eigrp_tlv2.c\<close>): a longer header, a metric section with
  48-bit delay and bandwidth, extended attributes of which ADD-PATH carries the IPv6 next hop, the
  exterior section, the destination.  \<open>None\<close> as the outcome of a definition is a fault (a write outside the
  buffer, a NULL dereference) or an attribute loop that would not end; the lemmas show that a decoder
  never has it.
\<close>

definition EIGRP_TLV2_METRIC_SIZE :: nat where "EIGRP_TLV2_METRIC_SIZE = 24"
definition EIGRP_TLV2_DEST_PREFIX_SIZE :: nat where "EIGRP_TLV2_DEST_PREFIX_SIZE = 1"
definition EIGRP_TLV2_EXTDATA_SIZE :: nat where "EIGRP_TLV2_EXTDATA_SIZE = 16"
definition EIGRP_TLV2_HEADER_EXT_SIZE :: nat where "EIGRP_TLV2_HEADER_EXT_SIZE = 8"
definition EIGRP_TLV2_EXTATTR_HEADER_SIZE :: nat where "EIGRP_TLV2_EXTATTR_HEADER_SIZE = 2"
definition EIGRP_TLV2_ADDPATH_COMMON_SIZE :: nat where "EIGRP_TLV2_ADDPATH_COMMON_SIZE = 8"
definition EIGRP_TLV2_ADDPATH_EXTERNAL_SIZE :: nat where "EIGRP_TLV2_ADDPATH_EXTERNAL_SIZE = 2"
definition EIGRP_TLV2_INACCESSIBLE :: u64 where "EIGRP_TLV2_INACCESSIBLE = 0xffffffffffff"
definition EIGRP_TLV2_EXTATTR_ADDPATH :: u8 where "EIGRP_TLV2_EXTATTR_ADDPATH = 7"
definition UINT16_MAX :: nat where "UINT16_MAX = 65535"

lemmas tlv2_sizes [simp] =
  EIGRP_TLV2_METRIC_SIZE_def EIGRP_TLV2_DEST_PREFIX_SIZE_def EIGRP_TLV2_EXTDATA_SIZE_def
  EIGRP_TLV2_HEADER_EXT_SIZE_def EIGRP_TLV2_EXTATTR_HEADER_SIZE_def EIGRP_TLV2_ADDPATH_COMMON_SIZE_def
  EIGRP_TLV2_ADDPATH_EXTERNAL_SIZE_def UINT16_MAX_def

definition eigrp_tlv2_stream_remaining :: "eigrp_stream \<Rightarrow> nat" where
  "eigrp_tlv2_stream_remaining s = (if st_endp s \<le> st_getp s then 0 else st_endp s - st_getp s)"

definition eigrp_tlv2_stream_has :: "eigrp_stream \<Rightarrow> nat \<Rightarrow> bool" where
  "eigrp_tlv2_stream_has s needed \<longleftrightarrow> needed \<le> eigrp_tlv2_stream_remaining s"

definition eigrp_tlv2_decode_abort :: "eigrp_stream \<Rightarrow> eigrp_stream" where
  "eigrp_tlv2_decode_abort s = eigrp_stream_set_getp s (st_endp s)"

definition eigrp_tlv2_decode_skip :: "eigrp_stream \<Rightarrow> nat \<Rightarrow> eigrp_stream" where
  "eigrp_tlv2_decode_skip s tlv_end =
     (if tlv_end \<le> st_endp s then eigrp_stream_set_getp s tlv_end else eigrp_tlv2_decode_abort s)"

primrec tlv2_get_bytes :: "nat \<Rightarrow> u64 \<Rightarrow> eigrp_stream \<Rightarrow> u64 \<times> eigrp_stream" where
  "tlv2_get_bytes 0 value s = (value, s)"
| "tlv2_get_bytes (Suc n) value s =
     (let (c, s) = eigrp_stream_getc s in tlv2_get_bytes n (push_bit 8 value OR ucast c) s)"

definition eigrp_tlv2_get48 :: "eigrp_stream \<Rightarrow> u64 \<times> eigrp_stream" where
  "eigrp_tlv2_get48 s = tlv2_get_bytes 6 0 s"

definition eigrp_tlv2_put48 :: "allocator \<Rightarrow> eigrp_stream \<Rightarrow> u64 \<Rightarrow> eigrp_stream" where
  "eigrp_tlv2_put48 A s value =
     fold (\<lambda>shift s. snd (eigrp_stream_putc A s (ucast (drop_bit shift value AND 0xff)))) [40, 32, 24, 16, 8, 0] s"

definition eigrp_tlv2_addr_is_zero :: "eigrp_af_vectors \<Rightarrow> eigrp_addr \<Rightarrow> bool" where
  "eigrp_tlv2_addr_is_zero V a =
     (let n = packet_address_bytes V
      in if n = 0 \<or> 16 < n then True else take n (ip_bytes a) = replicate n 0)"

text \<open>One ADD-PATH attribute of \<open>data_len\<close> bytes; the flag is false when it is malformed.\<close>

definition tlv2_addpath_decode ::
    "eigrp_af_vectors \<Rightarrow> bool \<Rightarrow> nat \<Rightarrow> eigrp_route_descriptor \<Rightarrow> eigrp_stream
     \<Rightarrow> bool \<times> eigrp_route_descriptor \<times> eigrp_stream" where
  "tlv2_addpath_decode V external data_len route s =
     (let expected = packet_address_bytes V + EIGRP_TLV2_ADDPATH_COMMON_SIZE
                       + (if external then EIGRP_TLV2_ADDPATH_EXTERNAL_SIZE else 0)
      in if data_len \<noteq> expected then (False, route, s)
         else
           let (decoded, nh, s) = packet_address_decode V s (nexthop route);
               route = route\<lparr>nexthop := nh\<rparr>
           in if decoded = 0 then (False, route, s)
              else
                let (orig, s) = eigrp_stream_getl s;
                    (tag, s) = eigrp_stream_getl s;
                    x = (extdata route)\<lparr>ext_orig := orig, ext_tag := tag\<rparr>;
                    (x, s) = (if external
                              then let (protocol, s) = eigrp_stream_getc s;
                                       (flags, s) = eigrp_stream_getc s
                                   in (x\<lparr>ext_protocol := protocol, ext_flags := flags\<rparr>, s)
                              else (x, s))
                in (True, route\<lparr>extdata := x\<rparr>, s))"

function tlv2_extended_loop ::
    "eigrp_af_vectors \<Rightarrow> bool \<Rightarrow> nat \<Rightarrow> eigrp_route_descriptor \<Rightarrow> eigrp_stream
     \<Rightarrow> (bool \<times> eigrp_route_descriptor \<times> eigrp_stream) option" where
  "tlv2_extended_loop V external attr_end route s =
     (if \<not> st_getp s < attr_end then Some (True, route, s)
      else if attr_end - st_getp s < EIGRP_TLV2_EXTATTR_HEADER_SIZE then Some (False, route, s)
      else
        let (opcode, s1) = eigrp_stream_getc s;
            (words, s2) = eigrp_stream_getc s1;
            data_len = 2 * unat words
        in if attr_end - st_getp s2 < data_len then Some (False, route, s2)
           else
             let data_end = st_getp s2 + data_len;
                 (ok, route', s3) =
                   (if opcode = EIGRP_TLV2_EXTATTR_ADDPATH then tlv2_addpath_decode V external data_len route s2
                    else (True, route, eigrp_stream_set_getp s2 data_end))
             in if \<not> ok \<or> st_getp s3 \<noteq> data_end then Some (False, route', s3)
                else if st_getp s3 \<le> st_getp s then None
                else tlv2_extended_loop V external attr_end route' s3)"
  by pat_completeness auto
termination
  by (relation "measure (\<lambda>(V, external, attr_end, route, s). attr_end - st_getp s)") auto

declare tlv2_extended_loop.simps [simp del]

definition eigrp_tlv2_extended_decode ::
    "eigrp_af_vectors \<Rightarrow> eigrp_stream \<Rightarrow> eigrp_route_descriptor \<Rightarrow> nat \<Rightarrow> bool
     \<Rightarrow> (nat \<times> eigrp_route_descriptor \<times> eigrp_stream) option" where
  "eigrp_tlv2_extended_decode V s route attr_len external =
     (if attr_len = 0 then Some (0, route, s)
      else if \<not> eigrp_tlv2_stream_has s attr_len then Some (UINT16_MAX, route, s)
      else case tlv2_extended_loop V external (st_getp s + attr_len) route s of
             None \<Rightarrow> None
           | Some (ok, route, s) \<Rightarrow> Some (if ok then attr_len else UINT16_MAX, route, s))"

definition eigrp_tlv2_metric_decode ::
    "eigrp_af_vectors \<Rightarrow> eigrp_stream \<Rightarrow> eigrp_route_descriptor \<Rightarrow> bool
     \<Rightarrow> (nat \<times> eigrp_route_descriptor \<times> eigrp_stream) option" where
  "eigrp_tlv2_metric_decode V s route external =
     (if \<not> eigrp_tlv2_stream_has s EIGRP_TLV2_METRIC_SIZE then Some (0, route, s)
      else
        let (attr_words, s) = eigrp_stream_getc s;
            (tag, s) = eigrp_stream_getc s;
            (rel, s) = eigrp_stream_getc s;
            (ld, s) = eigrp_stream_getc s;
            (mtu2, s) = eigrp_stream_getc s;
            (mtu1, s) = eigrp_stream_getc s;
            (mtu0, s) = eigrp_stream_getc s;
            (hops, s) = eigrp_stream_getc s;
            (d, s) = eigrp_tlv2_get48 s;
            (b, s) = eigrp_tlv2_get48 s;
            (reserved, s) = eigrp_stream_getw s;
            (opaque, s) = eigrp_stream_getw s;
            d = (if d = EIGRP_TLV2_INACCESSIBLE then ucast EIGRP_MAX_METRIC else d);
            b = (if b = EIGRP_TLV2_INACCESSIBLE then ucast EIGRP_MAX_METRIC else b);
            route = route\<lparr>rt_metric :=
              \<lparr>delay = d, bandwidth = b, mtu = [mtu0, mtu1, mtu2], hop_count = hops, reliability = rel,
               load = ld, metric_tag = tag, metric_flags = ucast (opaque AND 0xff)\<rparr>\<rparr>;
            attr_len = 2 * unat attr_words
        in case eigrp_tlv2_extended_decode V s route attr_len external of
             None \<Rightarrow> None
           | Some (decoded, route, s) \<Rightarrow>
               Some (if decoded = UINT16_MAX then 0 else EIGRP_TLV2_METRIC_SIZE + decoded, route, s))"

definition eigrp_tlv2_addpath_encode ::
    "allocator \<Rightarrow> eigrp_af_vectors \<Rightarrow> u32 \<Rightarrow> eigrp_stream \<Rightarrow> eigrp_route_descriptor \<Rightarrow> bool \<Rightarrow> nat \<times> eigrp_stream" where
  "eigrp_tlv2_addpath_encode A V router_id s route external =
     (if af_afi V \<noteq> EIGRP_AFI_IPV6 then (0, s)
      else
        let data_len = packet_address_bytes V + EIGRP_TLV2_ADDPATH_COMMON_SIZE
                         + (if external then EIGRP_TLV2_ADDPATH_EXTERNAL_SIZE else 0)
        in if odd data_len \<or> 255 < data_len div 2 then (0, s)
           else
             let s = snd (eigrp_stream_putc A s EIGRP_TLV2_EXTATTR_ADDPATH);
                 s = snd (eigrp_stream_putc A s (of_nat (data_len div 2)));
                 (encoded, s) = packet_address_encode V A s (nexthop route)
             in if encoded = 0 then (0, s)
                else
                  let x = extdata route;
                      s = snd (eigrp_stream_putl A s (if ext_orig x \<noteq> 0 then ext_orig x else router_id));
                      s = snd (eigrp_stream_putl A s (ext_tag x));
                      s = (if external
                           then let s = snd (eigrp_stream_putc A s (ext_protocol x))
                                in snd (eigrp_stream_putc A s (ext_flags x))
                           else s)
                  in (EIGRP_TLV2_EXTATTR_HEADER_SIZE + data_len, s))"

text \<open>
  The attribute length is patched in by a plain store into the buffer; \<open>None\<close> when that is outside
  of it, which happens when the first put of the section found no memory.
\<close>

definition eigrp_tlv2_metric_encode ::
    "allocator \<Rightarrow> eigrp_af_vectors \<Rightarrow> u32 \<Rightarrow> eigrp_stream \<Rightarrow> eigrp_route_descriptor \<Rightarrow> bool
     \<Rightarrow> (nat \<times> eigrp_stream) option" where
  "eigrp_tlv2_metric_encode A V router_id s route external =
     (let m = rt_metric route;
          metric_start = st_endp s;
          s = snd (eigrp_stream_putc A s 0);
          s = snd (eigrp_stream_putc A s (metric_tag m));
          s = snd (eigrp_stream_putc A s (reliability m));
          s = snd (eigrp_stream_putc A s (load m));
          s = snd (eigrp_stream_putc A s (mtu m ! 2));
          s = snd (eigrp_stream_putc A s (mtu m ! 1));
          s = snd (eigrp_stream_putc A s (mtu m ! 0));
          s = snd (eigrp_stream_putc A s (hop_count m));
          s = eigrp_tlv2_put48 A s (if delay m = ucast EIGRP_MAX_METRIC then EIGRP_TLV2_INACCESSIBLE else delay m);
          s = eigrp_tlv2_put48 A s
                (if bandwidth m = ucast EIGRP_MAX_METRIC then EIGRP_TLV2_INACCESSIBLE else bandwidth m);
          s = snd (eigrp_stream_putw A s 0);
          s = snd (eigrp_stream_putw A s (ucast (metric_flags m)));
          (attr_len, s) = eigrp_tlv2_addpath_encode A V router_id s route external
      in if af_afi V = EIGRP_AFI_IPV6 \<and> attr_len = 0 then Some (0, s)
         else if 255 < attr_len div 2 then Some (0, s)
         else if length (st_data s) \<le> metric_start then None
         else Some (EIGRP_TLV2_METRIC_SIZE + attr_len,
                    s\<lparr>st_data := (st_data s)[metric_start := of_nat (attr_len div 2)]\<rparr>))"

definition eigrp_tlv2_external_decode ::
    "eigrp_stream \<Rightarrow> eigrp_extdata \<Rightarrow> nat \<times> eigrp_extdata \<times> eigrp_stream" where
  "eigrp_tlv2_external_decode s x =
     (if \<not> eigrp_tlv2_stream_has s EIGRP_TLV2_EXTDATA_SIZE then (0, x, s)
      else
        let (orig, s) = eigrp_stream_getl s;
            (as, s) = eigrp_stream_getl s;
            (metric, s) = eigrp_stream_getl s;
            (reserved, s) = eigrp_stream_getw s;
            (protocol, s) = eigrp_stream_getc s;
            (flags, s) = eigrp_stream_getc s
        in (EIGRP_TLV2_EXTDATA_SIZE,
            x\<lparr>ext_orig := orig, ext_as := as, ext_metric := metric, ext_reserved := reserved,
              ext_protocol := protocol, ext_flags := flags\<rparr>, s))"

definition eigrp_tlv2_external_encode ::
    "allocator \<Rightarrow> u32 \<Rightarrow> eigrp_stream \<Rightarrow> eigrp_extdata \<Rightarrow> nat \<times> eigrp_stream" where
  "eigrp_tlv2_external_encode A router_id s x =
     (let r = (if ext_orig x \<noteq> 0 then ext_orig x else router_id);
          s = snd (eigrp_stream_putl A s r);
          s = snd (eigrp_stream_putl A s (ext_as x));
          s = snd (eigrp_stream_putl A s (ext_metric x));
          s = snd (eigrp_stream_putw A s (ext_reserved x));
          s = snd (eigrp_stream_putc A s (ext_protocol x));
          s = snd (eigrp_stream_putc A s (ext_flags x))
      in (EIGRP_TLV2_EXTDATA_SIZE, s))"

definition eigrp_tlv2_route_tlv_type :: "eigrp_af_vectors \<Rightarrow> eigrp_route_descriptor \<Rightarrow> u16" where
  "eigrp_tlv2_route_tlv_type V r =
     (if rt_type r = EIGRP_TLV_MP_EXT \<or> rt_type r = EIGRP_EXT \<or> rt_type r = classic_external_tlv_type V
      then EIGRP_TLV_MP_EXT
      else if rt_type r = EIGRP_TLV_MP_INT \<or> rt_type r = EIGRP_INT \<or> rt_type r = classic_internal_tlv_type V
      then EIGRP_TLV_MP_INT
      else 0)"

text \<open>The sections after the multiprotocol header; no route means malformed.\<close>

definition tlv2_decode_sections ::
    "eigrp_af_vectors \<Rightarrow> bool \<Rightarrow> nat \<Rightarrow> eigrp_addr \<Rightarrow> eigrp_route_descriptor \<Rightarrow> eigrp_stream
     \<Rightarrow> (eigrp_route_descriptor option \<times> eigrp_stream) option" where
  "tlv2_decode_sections V external len nbr_src route s =
     (let bytes = EIGRP_TLV_HDR_SIZE + EIGRP_TLV2_HEADER_EXT_SIZE
      in case eigrp_tlv2_metric_decode V s route external of
           None \<Rightarrow> None
         | Some (decoded, route, s) \<Rightarrow>
             if decoded = 0 then Some (None, s)
             else
               let bytes = bytes + decoded;
                   (decoded, x, s) =
                     (if external then eigrp_tlv2_external_decode s (extdata route) else (0, extdata route, s))
               in if external \<and> decoded = 0 then Some (None, s)
                  else
                    let route = route\<lparr>extdata := x\<rparr>;
                        bytes = bytes + decoded;
                        route = (if eigrp_tlv2_addr_is_zero V (nexthop route)
                                 then route\<lparr>nexthop := nbr_src\<rparr> else route);
                        (decoded, d, s) = packet_prefix_decode V s (dest route)
                    in if decoded = 0 then Some (None, s)
                       else
                         let route = route\<lparr>dest := d\<rparr>;
                             bytes = bytes + decoded
                         in if len < bytes \<or> bytes = EIGRP_TLV_HDR_SIZE then Some (None, s)
                            else Some (Some route, s))"

definition tlv2_min_length :: "bool \<Rightarrow> nat" where
  "tlv2_min_length external =
     (if external
      then EIGRP_TLV_HDR_SIZE + EIGRP_TLV2_HEADER_EXT_SIZE + EIGRP_TLV2_METRIC_SIZE
             + EIGRP_TLV2_EXTDATA_SIZE + EIGRP_TLV2_DEST_PREFIX_SIZE
      else EIGRP_TLV_HDR_SIZE + EIGRP_TLV2_HEADER_EXT_SIZE + EIGRP_TLV2_METRIC_SIZE
             + EIGRP_TLV2_DEST_PREFIX_SIZE)"

definition eigrp_tlv2_decoder ::
    "allocator \<Rightarrow> bool \<Rightarrow> nat \<Rightarrow> eigrp_af_vectors \<Rightarrow> intf_id option \<Rightarrow> eigrp_addr \<Rightarrow> eigrp_stream
     \<Rightarrow> (eigrp_route_descriptor option \<times> eigrp_stream) option" where
  "eigrp_tlv2_decoder A calloc_ok nid V nbr_ei nbr_src pkt =
     (let tlv_start = st_getp pkt;
          remaining = eigrp_tlv2_stream_remaining pkt
      in if remaining < EIGRP_TLV_HDR_SIZE then Some (None, eigrp_tlv2_decode_abort pkt)
         else
           let (ty, pkt) = eigrp_stream_getw pkt;
               (len, pkt) = eigrp_stream_getw pkt;
               len = unat len
           in if ty \<noteq> EIGRP_TLV_MP_INT \<and> ty \<noteq> EIGRP_TLV_MP_EXT
              then Some (None,
                     if EIGRP_TLV_HDR_SIZE \<le> len \<and> len \<le> remaining
                     then eigrp_tlv2_decode_skip pkt (tlv_start + len)
                     else eigrp_tlv2_decode_abort pkt)
              else
                let external = (ty \<noteq> EIGRP_TLV_MP_INT)
                in if len < tlv2_min_length external \<or> remaining < len
                   then Some (None, eigrp_tlv2_decode_abort pkt)
                   else
                     let tlv_end = tlv_start + len;
                         packet_end = st_endp pkt;
                         pkt = eigrp_stream_set_endp A pkt tlv_end
                     in if \<not> eigrp_tlv2_stream_has pkt EIGRP_TLV2_HEADER_EXT_SIZE
                        then Some (None, eigrp_tlv2_decode_abort (eigrp_stream_set_endp A pkt packet_end))
                        else
                          let (afi, pkt) = eigrp_stream_getw pkt;
                              (tid, pkt) = eigrp_stream_getw pkt;
                              (r, pkt) = eigrp_stream_getl pkt
                          in if afi \<noteq> multiprotocol_afi V
                             then Some (None, eigrp_tlv2_decode_skip (eigrp_stream_set_endp A pkt packet_end) tlv_end)
                             else case eigrp_topology_route_create calloc_ok nid nbr_ei of
                                    None \<Rightarrow> None
                                  | Some route \<Rightarrow>
                                      let route = route\<lparr>topology_id := tid,
                                            rt_type := (if external then classic_external_tlv_type V
                                                        else classic_internal_tlv_type V),
                                            extdata := (extdata route)\<lparr>ext_orig := r\<rparr>\<rparr>
                                      in case tlv2_decode_sections V external len nbr_src route pkt of
                                           None \<Rightarrow> None
                                         | Some (None, pkt) \<Rightarrow>
                                             Some (None, eigrp_tlv2_decode_abort (eigrp_stream_set_endp A pkt packet_end))
                                         | Some (Some route, pkt) \<Rightarrow>
                                             Some (Some route,
                                               eigrp_tlv2_decode_skip (eigrp_stream_set_endp A pkt packet_end) tlv_end))"

definition eigrp_tlv2_encoder ::
    "allocator \<Rightarrow> eigrp_af_vectors \<Rightarrow> u32 \<Rightarrow> bool \<Rightarrow> (eigrp_prefix \<Rightarrow> bool) \<Rightarrow> eigrp_stream \<Rightarrow> eigrp_route_descriptor
     \<Rightarrow> (nat \<times> eigrp_stream \<times> eigrp_route_descriptor) option" where
  "eigrp_tlv2_encoder A V router_id has_intf filtered pkt route =
     (if \<not> has_intf then Some (0, pkt, route)
      else
        let route = (if filtered (route_destination route)
                     then route\<lparr>rt_metric := (rt_metric route)\<lparr>delay := ucast EIGRP_MAX_METRIC\<rparr>\<rparr> else route);
            ty = eigrp_tlv2_route_tlv_type V route
        in if ty = 0 then Some (0, pkt, route)
           else
             let tlv_start = st_endp pkt;
                 pkt = snd (eigrp_stream_putw A pkt ty);
                 pkt = snd (eigrp_stream_putw A pkt 0);
                 pkt = snd (eigrp_stream_putw A pkt (multiprotocol_afi V));
                 pkt = snd (eigrp_stream_putw A pkt (topology_id route));
                 pkt = snd (eigrp_stream_putl A pkt router_id)
             in case eigrp_tlv2_metric_encode A V router_id pkt route (ty = EIGRP_TLV_MP_EXT) of
                  None \<Rightarrow> None
                | Some (encoded, pkt) \<Rightarrow>
                    if encoded = 0 then Some (0, eigrp_stream_set_endp A pkt tlv_start, route)
                    else
                      let pkt = (if ty = EIGRP_TLV_MP_EXT
                                 then snd (eigrp_tlv2_external_encode A router_id pkt (extdata route)) else pkt);
                          (encoded, pkt) = packet_prefix_encode V A pkt (route_destination route)
                      in if encoded = 0 then Some (0, eigrp_stream_set_endp A pkt tlv_start, route)
                         else
                           let tlv_end = st_endp pkt;
                               len = (tlv_end - tlv_start) mod 2 ^ 16;
                               pkt = eigrp_stream_set_endp A pkt (tlv_start + 2);
                               pkt = snd (eigrp_stream_putw A pkt (of_nat len));
                               pkt = eigrp_stream_set_endp A pkt tlv_end
                           in Some (len, pkt, route))"

subsection \<open>48-bit numbers\<close>

definition wire48 :: "u64 \<Rightarrow> u8 list" where
  "wire48 w = [ucast (drop_bit 40 w), ucast (drop_bit 32 w), ucast (drop_bit 24 w), ucast (drop_bit 16 w),
     ucast (drop_bit 8 w), ucast w]"

lemma length_wire48 [simp]: "length (wire48 w) = 6"
  by (simp add: wire48_def)

lemma ucast_and_ff: "(ucast (w AND 0xff) :: u8) = ucast (w :: u64)"
proof (rule bit_word_eqI)
  fix n assume "n < LENGTH(8)"
  moreover have "(0xff :: u64) = mask 8" by (simp add: mask_eq_exp_minus_1)
  ultimately show "bit (ucast (w AND 0xff) :: u8) n = bit (ucast w :: u8) n"
    by (simp only: bit_simps) simp
qed

lemma put48_appended:
  assumes "stream_ok s" and "can_grow A s 6"
  shows "appended A s (wire48 w) (eigrp_tlv2_put48 A s w)"
proof -
  have w: "wire48 w = ((((([ucast (drop_bit 40 w)] @ [ucast (drop_bit 32 w)]) @ [ucast (drop_bit 24 w)])
      @ [ucast (drop_bit 16 w)]) @ [ucast (drop_bit 8 w)]) @ [ucast w])"
    by (simp add: wire48_def)
  show ?thesis
    unfolding w eigrp_tlv2_put48_def put_defs fold.simps o_apply id_apply ucast_and_ff drop_bit_0
    by (intro appended_put appended_first assms(1) can_grow_mono [OF assms(2)]) simp_all
qed

definition value48 :: "u8 list \<Rightarrow> u64" where
  "value48 bs = foldl (\<lambda>v c. push_bit 8 v OR ucast c) 0 bs"

lemma get_bytes_eq:
  "stream_ok s \<Longrightarrow> n \<le> length (unread s) \<Longrightarrow>
   tlv2_get_bytes n v s = (foldl (\<lambda>v c. push_bit 8 v OR ucast c) v (take n (unread s)), advance s n)"
proof (induction n arbitrary: v s)
  case (Suc n)
  then obtain c bs where u: "unread s = c # bs" by (cases "unread s") auto
  then show ?case using Suc by (simp add: getc_eq advance_ok)
qed simp

lemma get48_eq:
  "stream_ok s \<Longrightarrow> 6 \<le> length (unread s) \<Longrightarrow> eigrp_tlv2_get48 s = (value48 (take 6 (unread s)), advance s 6)"
  by (simp add: eigrp_tlv2_get48_def get_bytes_eq value48_def)

lemma value48_wire48: "value48 (wire48 w) = take_bit 48 w"
proof (rule bit_word_eqI)
  fix n assume "n < LENGTH(64)"
  then have n: "n < 64" by simp
  then consider "n < 8" | "8 \<le> n \<and> n < 16" | "16 \<le> n \<and> n < 24" | "24 \<le> n \<and> n < 32" | "32 \<le> n \<and> n < 40"
    | "40 \<le> n \<and> n < 48" | "48 \<le> n" by arith
  then show "bit (value48 (wire48 w)) n = bit (take_bit 48 w) n"
    using n unfolding value48_def wire48_def by cases (auto simp: bit_simps)
qed

lemma wire48_id: "unat w < 2 ^ 48 \<Longrightarrow> value48 (wire48 w) = w"
  unfolding value48_wire48
  by (simp add: word_unat_eq_iff unsigned_take_bit_eq take_bit_eq_mod del: unsigned_take_bit_eq)
    (simp add: unat_mod)

subsection \<open>The sections on the wire\<close>

definition inf48 :: "u64 \<Rightarrow> u64" where
  "inf48 v = (if v = ucast EIGRP_MAX_METRIC then EIGRP_TLV2_INACCESSIBLE else v)"

definition uninf48 :: "u64 \<Rightarrow> u64" where
  "uninf48 v = (if v = EIGRP_TLV2_INACCESSIBLE then ucast EIGRP_MAX_METRIC else v)"

definition tlv2_metric_wire :: "u8 \<Rightarrow> eigrp_metrics \<Rightarrow> u8 list" where
  "tlv2_metric_wire attr_words m =
     [attr_words] @ [metric_tag m] @ [reliability m] @ [load m] @ [mtu m ! 2] @ [mtu m ! 1] @ [mtu m ! 0]
     @ [hop_count m] @ wire48 (inf48 (delay m)) @ wire48 (inf48 (bandwidth m))
     @ htons 0 @ htons (ucast (metric_flags m))"

definition tlv2_metric_image :: "eigrp_metrics \<Rightarrow> eigrp_metrics" where
  "tlv2_metric_image m =
     \<lparr>delay = uninf48 (value48 (wire48 (inf48 (delay m)))),
      bandwidth = uninf48 (value48 (wire48 (inf48 (bandwidth m)))),
      mtu = [mtu m ! 0, mtu m ! 1, mtu m ! 2], hop_count = hop_count m, reliability = reliability m,
      load = load m, metric_tag = metric_tag m, metric_flags = metric_flags m\<rparr>"

definition wide_metric :: "eigrp_metrics \<Rightarrow> bool" where
  "wide_metric m \<longleftrightarrow> unat (delay m) < 2 ^ 48 - 1 \<and> unat (bandwidth m) < 2 ^ 48 - 1 \<and> length (mtu m) = 3"

lemma inf48_roundtrip:
  assumes "unat v < 2 ^ 48 - 1"
  shows "uninf48 (value48 (wire48 (inf48 v))) = v"
proof -
  have "unat (inf48 v) < 2 ^ 48" using assms by (simp add: inf48_def EIGRP_TLV2_INACCESSIBLE_def)
  moreover have "v \<noteq> EIGRP_TLV2_INACCESSIBLE"
    using assms by (auto simp: EIGRP_TLV2_INACCESSIBLE_def)
  ultimately show ?thesis by (simp add: wire48_id) (simp add: inf48_def uninf48_def)
qed

lemma tlv2_metric_image_id: "wide_metric m \<Longrightarrow> tlv2_metric_image m = m"
  using inf48_roundtrip
  by (auto simp: tlv2_metric_image_def wide_metric_def list_eq_iff_nth_eq less_Suc_eq numeral_3_eq_3 numeral_2_eq_2
      intro!: eigrp_metrics.equality)

definition tlv2_orig :: "u32 \<Rightarrow> eigrp_extdata \<Rightarrow> u32" where
  "tlv2_orig router_id x = (if ext_orig x \<noteq> 0 then ext_orig x else router_id)"

definition tlv2_external_wire :: "u32 \<Rightarrow> eigrp_extdata \<Rightarrow> u8 list" where
  "tlv2_external_wire router_id x = htonl (tlv2_orig router_id x) @ htonl (ext_as x) @ htonl (ext_metric x)
     @ htons (ext_reserved x) @ [ext_protocol x] @ [ext_flags x]"

definition addpath_len :: "eigrp_af_vectors \<Rightarrow> bool \<Rightarrow> nat" where
  "addpath_len V external = packet_address_bytes V + 8 + (if external then 2 else 0)"

definition tlv2_addpath_wire :: "eigrp_af_vectors \<Rightarrow> u32 \<Rightarrow> bool \<Rightarrow> eigrp_route_descriptor \<Rightarrow> u8 list" where
  "tlv2_addpath_wire V router_id external route =
     (if af_afi V \<noteq> EIGRP_AFI_IPV6 then []
      else [EIGRP_TLV2_EXTATTR_ADDPATH] @ [of_nat (addpath_len V external div 2)]
           @ take (packet_address_bytes V) (ip_bytes (nexthop route))
           @ htonl (tlv2_orig router_id (extdata route)) @ htonl (ext_tag (extdata route))
           @ (if external then [ext_protocol (extdata route), ext_flags (extdata route)] else []))"

lemma length_tlv2_wire [simp]:
  "length (tlv2_external_wire r x) = 16" "length (tlv2_metric_wire w m) = 24"
  by (simp_all add: tlv2_external_wire_def tlv2_metric_wire_def)

lemma tlv2_remaining [simp]: "stream_ok s \<Longrightarrow> eigrp_tlv2_stream_remaining s = length (unread s)"
  by (auto simp: eigrp_tlv2_stream_remaining_def length_unread)

lemma tlv2_external_appended:
  assumes "stream_ok s" and "can_grow A s 16"
  shows "appended A s (tlv2_external_wire r x) (snd (eigrp_tlv2_external_encode A r s x))"
  unfolding eigrp_tlv2_external_encode_def tlv2_external_wire_def tlv2_orig_def Let_def put_defs
    append_assoc [symmetric] snd_conv
  by (intro appended_put appended_first assms(1) can_grow_mono [OF assms(2)]) simp_all

lemma appended_store:
  assumes ap: "appended A s (x # b) s'" and s: "stream_ok s"
  shows "st_endp s < length (st_data s')"
    and "appended A s (y # b) (s'\<lparr>st_data := (st_data s')[st_endp s := y]\<rparr>)"
proof -
  note d = appendedD [OF ap]
  show l: "st_endp s < length (st_data s')" using d(1,4) by (auto simp: stream_ok_def)
  have "written (s'\<lparr>st_data := (st_data s')[st_endp s := y]\<rparr>) = (written s')[st_endp s := y]"
    by (simp add: written_def take_update_swap)
  also have "\<dots> = written s @ y # b"
    using d(2) length_written [OF s] by (metis list_update_length)
  finally show "appended A s (y # b) (s'\<lparr>st_data := (st_data s')[st_endp s := y]\<rparr>)"
    using ap d by (auto simp: appended_def stream_ok_def can_grow_def)
qed


lemma tlv2_external_decode_wire:
  assumes s: "stream_ok s" and u: "unread s = tlv2_external_wire r x @ z"
  shows "eigrp_tlv2_external_decode s y = (16, x\<lparr>ext_orig := tlv2_orig r x, ext_tag := ext_tag y\<rparr>, advance s 16)"
  using s u by (simp add: eigrp_tlv2_external_decode_def eigrp_tlv2_stream_has_def tlv2_external_wire_def
      getl_eq getw_eq getc_eq advance_ok)

lemma tlv2_external_decode_total:
  "stream_ok s \<Longrightarrow> eigrp_tlv2_external_decode s y =
     (if length (unread s) < 16 then (0, y, s)
      else (16, fst (snd (eigrp_tlv2_external_decode s y)), advance s 16))"
  by (simp add: eigrp_tlv2_external_decode_def eigrp_tlv2_stream_has_def getl_eq getw_eq getc_eq advance_ok)

definition addpath_effect ::
    "eigrp_af_vectors \<Rightarrow> addr_family \<Rightarrow> u32 \<Rightarrow> bool \<Rightarrow> eigrp_route_descriptor \<Rightarrow> eigrp_route_descriptor \<Rightarrow> eigrp_route_descriptor" where
  "addpath_effect V family r external q route =
     (if af_afi V \<noteq> EIGRP_AFI_IPV6 then route
      else
        let x = (extdata route)\<lparr>ext_orig := tlv2_orig r (extdata q), ext_tag := ext_tag (extdata q)\<rparr>;
            x = (if external then x\<lparr>ext_protocol := ext_protocol (extdata q), ext_flags := ext_flags (extdata q)\<rparr> else x)
        in route\<lparr>nexthop := nexthop_image V family (nexthop q), extdata := x\<rparr>)"

definition tlv2_body_wire :: "eigrp_af_vectors \<Rightarrow> (u8 \<Rightarrow> nat) \<Rightarrow> u32 \<Rightarrow> bool \<Rightarrow> eigrp_route_descriptor \<Rightarrow> u8 list" where
  "tlv2_body_wire V nbytes r external q =
     (let w = tlv2_addpath_wire V r external q
      in tlv2_metric_wire (of_nat (length w div 2)) (rt_metric q) @ w
         @ (if external then tlv2_external_wire r (extdata q) else []) @ prefix_wire nbytes (route_destination q))"

definition tlv2_wire :: "eigrp_af_vectors \<Rightarrow> (u8 \<Rightarrow> nat) \<Rightarrow> u32 \<Rightarrow> u16 \<Rightarrow> eigrp_route_descriptor \<Rightarrow> u8 list" where
  "tlv2_wire V nbytes r ty q =
     (let body = tlv2_body_wire V nbytes r (ty = EIGRP_TLV_MP_EXT) q
      in htons ty @ htons (of_nat (12 + length body)) @ htons (multiprotocol_afi V) @ htons (topology_id q)
         @ htonl r @ body)"

text \<open>What the receiver makes of the sections: the exterior section overrides what ADD-PATH said, and a
next hop that was not carried is the neighbour itself.\<close>

definition tlv2_received ::
    "eigrp_af_vectors \<Rightarrow> addr_family \<Rightarrow> u32 \<Rightarrow> bool \<Rightarrow> eigrp_addr \<Rightarrow> eigrp_route_descriptor \<Rightarrow> eigrp_route_descriptor
     \<Rightarrow> eigrp_route_descriptor" where
  "tlv2_received V family r external nbr_src q route =
     (let route = addpath_effect V family r external q (route\<lparr>rt_metric := tlv2_metric_image (rt_metric q)\<rparr>);
          route = (if external
                   then route\<lparr>extdata := (extdata q)\<lparr>ext_orig := tlv2_orig r (extdata q),
                                                     ext_tag := ext_tag (extdata route)\<rparr>\<rparr>
                   else route);
          route = (if eigrp_tlv2_addr_is_zero V (nexthop route) then route\<lparr>nexthop := nbr_src\<rparr> else route)
      in route\<lparr>dest := eigrp_prefix_normalize (route_destination q)\<rparr>)"

definition nexthop_inv :: "addr_family \<Rightarrow> eigrp_route_descriptor \<Rightarrow> bool" where
  "nexthop_inv family route \<longleftrightarrow> nexthop route = zero_addr \<or> ip_afi (nexthop route) = family \<and> addr_ok (nexthop route)"

lemma tlv2_abort_advance:
  "stream_ok s \<Longrightarrow> n \<le> length (unread s)
   \<Longrightarrow> eigrp_tlv2_decode_abort (advance s n) = advance s (length (unread s))"
  by (simp add: eigrp_tlv2_decode_abort_def set_getp_end)

lemma tlv2_skip_advance:
  assumes "stream_ok s" and "m \<le> length (unread s)"
  shows "eigrp_tlv2_decode_skip (advance s n) (st_getp s + m) = advance s m"
proof -
  have "st_getp s + m \<le> st_endp s" using assms by (auto simp: length_unread stream_ok_def)
  then show ?thesis using set_getp_advance [OF assms] by (simp add: eigrp_tlv2_decode_skip_def)
qed

context af_codec
begin

lemma addpath_len_bounds: "even (addpath_len V external)" "addpath_len V external \<le> 26" "9 \<le> addpath_len V external"
  using address_bytes address_bytes_even by (auto simp: addpath_len_def)

lemma length_addpath_wire:
  "addr_ok (nexthop route) \<Longrightarrow> length (tlv2_addpath_wire V r external route)
     = (if af_afi V \<noteq> EIGRP_AFI_IPV6 then 0 else 2 + addpath_len V external)"
  using address_bytes by (auto simp: tlv2_addpath_wire_def addpath_len_def addr_ok_def)

lemma addpath_encode_appended:
  assumes s: "stream_ok s" and g: "can_grow A s 28"
    and a: "addr_ok (nexthop route)" "ip_afi (nexthop route) \<in> {AF_UNSPEC, family}"
  shows "fst (eigrp_tlv2_addpath_encode A V r s route external) = length (tlv2_addpath_wire V r external route)"
    and "appended A s (tlv2_addpath_wire V r external route) (snd (eigrp_tlv2_addpath_encode A V r s route external))"
proof -
  let ?n = "addpath_len V external" and ?nh = "take (packet_address_bytes V) (ip_bytes (nexthop route))"
  note b = addpath_len_bounds [of external]
  have n: "packet_address_bytes V + 8 + (if external then 2 else 0) = ?n" by (simp add: addpath_len_def)
  have nb: "\<not> (odd ?n \<or> 255 < ?n div 2)" using b by simp
  have enc: "packet_address_encode V A t (nexthop route) = (packet_address_bytes V, snd (eigrp_stream_put A t ?nh))" for t
    using a(2) by (auto simp: address_encode)
  have lnh: "length ?nh = packet_address_bytes V" using a(1) address_bytes by (simp add: addr_ok_def)
  define s3 where "s3 = snd (eigrp_stream_put A (snd (eigrp_stream_put A (snd (eigrp_stream_put A s
      [EIGRP_TLV2_EXTATTR_ADDPATH])) [of_nat (?n div 2)])) ?nh)"
  define s5 where "s5 = snd (eigrp_stream_put A (snd (eigrp_stream_put A s3
      (htonl (tlv2_orig r (extdata route))))) (htonl (ext_tag (extdata route))))"
  define s7 where "s7 = (if external then snd (eigrp_stream_put A (snd (eigrp_stream_put A s5
      [ext_protocol (extdata route)])) [ext_flags (extdata route)]) else s5)"
  have eq: "eigrp_tlv2_addpath_encode A V r s route external
      = (if af_afi V \<noteq> EIGRP_AFI_IPV6 then (0, s) else (2 + ?n, s7))"
    using nb address_bytes(1)
    unfolding eigrp_tlv2_addpath_encode_def tlv2_sizes Let_def n enc prod.case put_defs
      s3_def [symmetric] tlv2_orig_def [symmetric] s5_def [symmetric] s7_def [symmetric] by simp
  show "fst (eigrp_tlv2_addpath_encode A V r s route external) = length (tlv2_addpath_wire V r external route)"
    using length_addpath_wire [OF a(1)] by (simp add: eq)
  have room: "can_grow A s k" if "k \<le> 28" for k using g that by (rule can_grow_mono)
  have a3: "appended A s (([EIGRP_TLV2_EXTATTR_ADDPATH] @ [of_nat (?n div 2)]) @ ?nh) s3"
    unfolding s3_def using lnh address_bytes by (intro appended_put appended_first s room) simp_all
  have a5: "appended A s (((([EIGRP_TLV2_EXTATTR_ADDPATH] @ [of_nat (?n div 2)]) @ ?nh)
      @ htonl (tlv2_orig r (extdata route))) @ htonl (ext_tag (extdata route))) s5"
    unfolding s5_def using lnh address_bytes by (intro appended_put a3 room) simp_all
  have a7: "appended A s ((((([EIGRP_TLV2_EXTATTR_ADDPATH] @ [of_nat (?n div 2)]) @ ?nh)
      @ htonl (tlv2_orig r (extdata route))) @ htonl (ext_tag (extdata route)))
      @ (if external then [ext_protocol (extdata route)] @ [ext_flags (extdata route)] else [])) s7"
  proof (cases external)
    case True
    then have e: "s7 = snd (eigrp_stream_put A (snd (eigrp_stream_put A s5
      [ext_protocol (extdata route)])) [ext_flags (extdata route)])" by (simp add: s7_def)
    have "appended A s ((((((([EIGRP_TLV2_EXTATTR_ADDPATH] @ [of_nat (?n div 2)]) @ ?nh)
      @ htonl (tlv2_orig r (extdata route))) @ htonl (ext_tag (extdata route)))
      @ [ext_protocol (extdata route)]) @ [ext_flags (extdata route)])) s7"
      unfolding e using lnh address_bytes by (intro appended_put a5 room) simp_all
    with True show ?thesis by simp
  qed (use a5 in \<open>simp add: s7_def\<close>)
  show "appended A s (tlv2_addpath_wire V r external route) (snd (eigrp_tlv2_addpath_encode A V r s route external))"
    unfolding eq using a7 appended_refl [OF s, of A] by (cases external) (simp_all add: tlv2_addpath_wire_def)
qed

lemma tlv2_metric_encode_appended:
  fixes r :: u32 and external :: bool
  assumes s: "stream_ok s" and g: "can_grow A s 52"
    and a: "addr_ok (nexthop route)" "ip_afi (nexthop route) \<in> {AF_UNSPEC, family}"
  defines "w \<equiv> tlv2_addpath_wire V r external route"
  shows "\<exists>s'. eigrp_tlv2_metric_encode A V r s route external = Some (24 + length w, s')
     \<and> appended A s (tlv2_metric_wire (of_nat (length w div 2)) (rt_metric route) @ w) s'"
proof -
  let ?m = "rt_metric route"
  define s1 where "s1 = snd (eigrp_stream_put A (snd (eigrp_stream_put A (snd (eigrp_stream_put A
     (snd (eigrp_stream_put A (snd (eigrp_stream_put A (snd (eigrp_stream_put A (snd (eigrp_stream_put A
     (snd (eigrp_stream_put A s [0])) [metric_tag ?m])) [reliability ?m])) [load ?m])) [mtu ?m ! 2])) [mtu ?m ! 1]))
     [mtu ?m ! 0])) [hop_count ?m])"
  define s2 where "s2 = eigrp_tlv2_put48 A (eigrp_tlv2_put48 A s1 (inf48 (delay ?m))) (inf48 (bandwidth ?m))"
  define s3 where "s3 = snd (eigrp_stream_put A (snd (eigrp_stream_put A s2 (htons 0))) (htons (ucast (metric_flags ?m))))"
  define s4 where "s4 = snd (eigrp_tlv2_addpath_encode A V r s3 route external)"
  have room: "can_grow A s k" if "k \<le> 52" for k using g that by (rule can_grow_mono)
  define h where "h = [0, metric_tag ?m, reliability ?m, load ?m, mtu ?m ! 2, mtu ?m ! 1, mtu ?m ! 0, hop_count ?m]"
  have "appended A s ((((((([0] @ [metric_tag ?m]) @ [reliability ?m]) @ [load ?m]) @ [mtu ?m ! 2]) @ [mtu ?m ! 1])
     @ [mtu ?m ! 0]) @ [hop_count ?m]) s1"
    unfolding s1_def by (intro appended_put appended_first s room) simp_all
  then have a1: "appended A s h s1" by (simp add: h_def)
  have "can_grow A s1 6" "can_grow A s1 12" by (intro appendedD(5) [OF a1] room; simp add: h_def)+
  with put48_appended [OF appendedD(1) [OF a1]]
  have p1: "appended A s1 (wire48 (inf48 (delay ?m))) (eigrp_tlv2_put48 A s1 (inf48 (delay ?m)))" by simp
  moreover have "can_grow A (eigrp_tlv2_put48 A s1 (inf48 (delay ?m))) 6"
    using \<open>can_grow A s1 12\<close> by (intro appendedD(5) [OF p1]) simp
  ultimately have a2: "appended A s (h @ wire48 (inf48 (delay ?m)) @ wire48 (inf48 (bandwidth ?m))) s2"
    unfolding s2_def by (intro appended_trans [OF a1] appended_trans [OF p1] put48_appended appendedD(1) [OF p1])
  have "appended A s (((h @ wire48 (inf48 (delay ?m)) @ wire48 (inf48 (bandwidth ?m))) @ htons 0)
     @ htons (ucast (metric_flags ?m))) s3"
    unfolding s3_def by (intro appended_put a2 room) (simp_all add: h_def)
  then have a3: "appended A s (tlv2_metric_wire 0 ?m) s3" by (simp add: tlv2_metric_wire_def h_def)
  have "can_grow A s3 28" by (intro appendedD(5) [OF a3] room) simp
  note ad = addpath_encode_appended [OF appendedD(1) [OF a3] this a, where r = r and external = external, folded w_def s4_def]
  have a4: "appended A s (0 # tl (tlv2_metric_wire 0 ?m) @ w) s4"
    using appended_trans [OF a3 ad(2)] by (simp add: tlv2_metric_wire_def)
  note st = appended_store(1) [OF a4 s] appended_store(2) [OF a4 s, of "of_nat (length w div 2)"]
  have lw: "length w = (if af_afi V \<noteq> EIGRP_AFI_IPV6 then 0 else 2 + addpath_len V external)"
    unfolding w_def by (rule length_addpath_wire [OF a(1)])
  have ok: "\<not> (af_afi V = EIGRP_AFI_IPV6 \<and> length w = 0)" "\<not> 255 < length w div 2" "\<not> length (st_data s4) \<le> st_endp s"
    using lw addpath_len_bounds [of external] st(1) by auto
  have pr: "eigrp_tlv2_addpath_encode A V r s3 route external = (length w, s4)"
    using ad(1) by (simp add: s4_def prod_eq_iff)
  have "eigrp_tlv2_metric_encode A V r s route external = Some (24 + length w,
      s4\<lparr>st_data := (st_data s4)[st_endp s := of_nat (length w div 2)]\<rparr>)"
    unfolding eigrp_tlv2_metric_encode_def Let_def put_defs inf48_def [symmetric] s1_def [symmetric] s2_def [symmetric]
      s3_def [symmetric] pr prod.case tlv2_sizes
    using ok by simp
  with st(2) show ?thesis by (simp add: tlv2_metric_wire_def)
qed

lemma addpath_decode_wire:
  assumes s: "stream_ok s" and a: "addr_ok (nexthop q)"
    and u: "unread s = take (packet_address_bytes V) (ip_bytes (nexthop q))
           @ htonl (tlv2_orig r (extdata q)) @ htonl (ext_tag (extdata q))
           @ (if external then [ext_protocol (extdata q), ext_flags (extdata q)] else []) @ z"
    and v6: "af_afi V = EIGRP_AFI_IPV6"
  shows "tlv2_addpath_decode V external (addpath_len V external) route s
     = (True, addpath_effect V family r external q route, advance s (addpath_len V external))"
proof -
  let ?ab = "packet_address_bytes V"
  have l: "length (take ?ab (ip_bytes (nexthop q))) = ?ab" using a address_bytes by (simp add: addr_ok_def)
  have d: "packet_address_decode V s y = (?ab, nexthop_image V family (nexthop q), advance s ?ab)" for y
    using address_decode [OF s, of y] u l by (simp add: nexthop_image_def)
  define t where "t = advance s ?ab"
  have t: "stream_ok t" "unread t = htonl (tlv2_orig r (extdata q)) @ htonl (ext_tag (extdata q))
           @ (if external then [ext_protocol (extdata q), ext_flags (extdata q)] else []) @ z"
    using s u l by (simp_all add: t_def advance_ok)
  have g: "eigrp_stream_getl t = (tlv2_orig r (extdata q), advance t 4)"
    "eigrp_stream_getl (advance t 4) = (ext_tag (extdata q), advance t 8)"
    "external \<Longrightarrow> eigrp_stream_getc (advance t 8) = (ext_protocol (extdata q), advance t 9)"
    "external \<Longrightarrow> eigrp_stream_getc (advance t 9) = (ext_flags (extdata q), advance t 10)"
    using t by (simp_all add: getl_eq getc_eq advance_ok)
  show ?thesis
    using v6 address_bytes(1) g
    unfolding tlv2_addpath_decode_def addpath_effect_def Let_def d t_def [symmetric] prod.case
    by (cases external) (simp_all add: addpath_len_def t_def)
qed

lemma addpath_decode_total:
  assumes s: "stream_ok s" and n: "data_len \<le> length (unread s)" and i: "nexthop_inv family route"
  shows "\<exists>ok route' n. tlv2_addpath_decode V external data_len route s = (ok, route', advance s n)
     \<and> n \<le> length (unread s) \<and> nexthop_inv family route'"
proof (cases "data_len = addpath_len V external")
  case False
  then show ?thesis using i by (auto simp: tlv2_addpath_decode_def addpath_len_def Let_def intro!: exI [of _ 0])
next
  case True
  let ?ab = "packet_address_bytes V"
  have l: "?ab + 8 + (if external then 2 else 0) \<le> length (unread s)" using n True by (simp add: addpath_len_def)
  define nh where "nh = \<lparr>ip_afi = family, ip_bytes = take ?ab (unread s) @ replicate (16 - ?ab) (0 :: u8)\<rparr>"
  have d: "packet_address_decode V s y = (?ab, nh, advance s ?ab)" for y
    using address_decode [OF s, of y] l by (simp add: nh_def)
  have nh: "ip_afi nh = family" "addr_ok nh" using l address_bytes by (simp_all add: nh_def addr_ok_def)
  obtain o1 t1 where g: "eigrp_stream_getl (advance s ?ab) = (o1, advance s (?ab + 4))"
    "eigrp_stream_getl (advance s (?ab + 4)) = (t1, advance s (?ab + 8))"
    using s l by (simp add: getl_eq advance_ok)
  obtain p1 f1 where h: "external \<Longrightarrow> eigrp_stream_getc (advance s (?ab + 8)) = (p1, advance s (?ab + 9))"
    "external \<Longrightarrow> eigrp_stream_getc (advance s (?ab + 9)) = (f1, advance s (?ab + 10))"
    using s l by (cases external) (simp_all add: getc_eq advance_ok)
  define x where "x = (let x = (extdata route)\<lparr>ext_orig := o1, ext_tag := t1\<rparr>
      in if external then x\<lparr>ext_protocol := p1, ext_flags := f1\<rparr> else x)"
  have "tlv2_addpath_decode V external data_len route s
      = (True, route\<lparr>nexthop := nh, extdata := x\<rparr>, advance s (?ab + 8 + (if external then 2 else 0)))"
    using True address_bytes(1) g h unfolding tlv2_addpath_decode_def Let_def d prod.case
    by (cases external) (simp_all add: x_def addpath_len_def)
  then show ?thesis using l nh by (auto simp: nexthop_inv_def)
qed

lemma extended_loop_total:
  "stream_ok s \<Longrightarrow> st_getp s \<le> attr_end \<Longrightarrow> attr_end \<le> st_endp s \<Longrightarrow> nexthop_inv family route
   \<Longrightarrow> \<exists>ok route' n. tlv2_extended_loop V external attr_end route s = Some (ok, route', advance s n)
         \<and> n \<le> length (unread s) \<and> nexthop_inv family route'"
proof (induction "attr_end - st_getp s" arbitrary: s route rule: less_induct)
  case less
  note s = less.prems(1)
  have lu: "length (unread s) = st_endp s - st_getp s" by (rule length_unread [OF s])
  note unf = tlv2_extended_loop.simps [of V external attr_end route s]
  show ?case
  proof (cases "attr_end - st_getp s < 2")
    case True
    then show ?thesis using less.prems by (auto simp: unf intro!: exI [of _ 0])
  next
    case False
    then have two: "2 \<le> length (unread s)" and "st_getp s < attr_end" using lu less.prems by simp_all
    obtain opcode words where g: "eigrp_stream_getc s = (opcode, advance s 1)"
      "eigrp_stream_getc (advance s 1) = (words, advance s 2)"
      using s two by (simp add: getc_eq advance_ok)
    define data_len where "data_len = 2 * unat words"
    define t where "t = advance s 2"
    have t: "stream_ok t" "st_getp t = st_getp s + 2" "unread t = drop 2 (unread s)"
      using s two by (simp_all add: t_def advance_ok)
    show ?thesis
    proof (cases "attr_end - st_getp t < data_len")
      case True
      have "tlv2_extended_loop V external attr_end route s = Some (False, route, advance s 2)"
        unfolding unf Let_def g prod.case data_len_def [symmetric] t_def [symmetric] using True False by simp
      then show ?thesis using two less.prems(4) by auto
    next
      case fits: False
      then have dl: "data_len \<le> length (unread t)"
        using t lu less.prems False by simp
      obtain ok route' n where st: "(if opcode = EIGRP_TLV2_EXTATTR_ADDPATH then tlv2_addpath_decode V external data_len route t
          else (True, route, eigrp_stream_set_getp t (st_getp t + data_len))) = (ok, route', advance t n)"
        and n: "n \<le> length (unread t)" and inv: "nexthop_inv family route'"
        using addpath_decode_total [OF t(1) dl less.prems(4), of external] less.prems(4)
          set_getp_advance [OF t(1) dl, of 0] dl
        by (cases "opcode = EIGRP_TLV2_EXTATTR_ADDPATH") auto
      have n2: "2 + n \<le> length (unread s)" using n t two by simp
      have at: "advance t n = advance s (2 + n)" by (simp add: t_def)
      have eq: "tlv2_extended_loop V external attr_end route s =
          (if \<not> ok \<or> st_getp s + 2 + n \<noteq> st_getp s + 2 + data_len then Some (False, route', advance s (2 + n))
           else tlv2_extended_loop V external attr_end route' (advance s (2 + n)))"
        using False fits st \<open>st_getp s < attr_end\<close>
        unfolding unf Let_def g prod.case data_len_def [symmetric] t_def [symmetric]
        by (simp add: at t(2) add.assoc)
      show ?thesis
      proof (cases "\<not> ok \<or> n \<noteq> data_len")
        case True
        then show ?thesis unfolding eq using n2 inv by auto
      next
        case go: False
        have ok': "stream_ok (advance s (2 + n))" using s n2 by (simp add: advance_ok)
        have q: "attr_end - st_getp (advance s (2 + n)) < attr_end - st_getp s"
          "st_getp (advance s (2 + n)) \<le> attr_end" "attr_end \<le> st_endp (advance s (2 + n))"
          using fits go False t(2) less.prems(3) \<open>st_getp s < attr_end\<close> by simp_all
        obtain ok2 r m where "tlv2_extended_loop V external attr_end route' (advance s (2 + n))
            = Some (ok2, r, advance (advance s (2 + n)) m)"
          and m: "m \<le> length (unread (advance s (2 + n)))" and r: "nexthop_inv family r"
          using less.hyps [OF q(1) ok' q(2,3) inv] by blast
        then have "tlv2_extended_loop V external attr_end route s = Some (ok2, r, advance s (2 + n + m))"
          unfolding eq using go by simp
        moreover have "2 + n + m \<le> length (unread s)" using m n2 by simp
        ultimately show ?thesis using r by blast
      qed
    qed
  qed
qed

lemma extended_decode_total:
  assumes "stream_ok s" and "nexthop_inv family route"
  shows "\<exists>k route' n. eigrp_tlv2_extended_decode V s route attr_len external = Some (k, route', advance s n)
     \<and> n \<le> length (unread s) \<and> nexthop_inv family route'"
proof (cases "attr_len = 0 \<or> length (unread s) < attr_len")
  case True
  then show ?thesis using assms
    by (auto simp: eigrp_tlv2_extended_decode_def eigrp_tlv2_stream_has_def intro!: exI [of _ 0])
next
  case False
  then have "st_getp s + attr_len \<le> st_endp s" using length_unread [OF assms(1)] assms(1) by (auto simp: stream_ok_def)
  then obtain ok route' n where "tlv2_extended_loop V external (st_getp s + attr_len) route s = Some (ok, route', advance s n)"
    "n \<le> length (unread s)" "nexthop_inv family route'"
    using extended_loop_total [OF assms(1) _ _ assms(2), of "st_getp s + attr_len" external] by auto
  then show ?thesis using False assms
    by (auto simp: eigrp_tlv2_extended_decode_def eigrp_tlv2_stream_has_def)
qed

lemma metric_decode2_total:
  assumes s: "stream_ok s" and i: "nexthop_inv family route"
  shows "\<exists>k route' n. eigrp_tlv2_metric_decode V s route external = Some (k, route', advance s n)
     \<and> n \<le> length (unread s) \<and> nexthop_inv family route'"
proof (cases "length (unread s) < 24")
  case True
  then show ?thesis using s i
    by (auto simp: eigrp_tlv2_metric_decode_def eigrp_tlv2_stream_has_def intro!: exI [of _ 0])
next
  case False
  then have l: "24 \<le> length (unread s)" by simp
  obtain c0 c1 c2 c3 c4 c5 c6 c7 d b w1 w2 where g:
    "eigrp_stream_getc s = (c0, advance s 1)" "eigrp_stream_getc (advance s 1) = (c1, advance s 2)"
    "eigrp_stream_getc (advance s 2) = (c2, advance s 3)" "eigrp_stream_getc (advance s 3) = (c3, advance s 4)"
    "eigrp_stream_getc (advance s 4) = (c4, advance s 5)" "eigrp_stream_getc (advance s 5) = (c5, advance s 6)"
    "eigrp_stream_getc (advance s 6) = (c6, advance s 7)" "eigrp_stream_getc (advance s 7) = (c7, advance s 8)"
    "eigrp_tlv2_get48 (advance s 8) = (d, advance s 14)" "eigrp_tlv2_get48 (advance s 14) = (b, advance s 20)"
    "eigrp_stream_getw (advance s 20) = (w1, advance s 22)" "eigrp_stream_getw (advance s 22) = (w2, advance s 24)"
    using s l by (simp add: getc_eq getw_eq get48_eq advance_ok)
  define route1 where "route1 = route\<lparr>rt_metric :=
      \<lparr>delay = (if d = EIGRP_TLV2_INACCESSIBLE then ucast EIGRP_MAX_METRIC else d),
       bandwidth = (if b = EIGRP_TLV2_INACCESSIBLE then ucast EIGRP_MAX_METRIC else b),
       mtu = [c6, c5, c4], hop_count = c7, reliability = c2, load = c3, metric_tag = c1,
       metric_flags = ucast (w2 AND 0xff)\<rparr>\<rparr>"
  have ok: "stream_ok (advance s 24)" "nexthop_inv family route1"
    using s l i by (simp_all add: advance_ok route1_def nexthop_inv_def)
  obtain k route' n where e: "eigrp_tlv2_extended_decode V (advance s 24) route1 (2 * unat c0) external
      = Some (k, route', advance (advance s 24) n)" "n \<le> length (unread (advance s 24))" "nexthop_inv family route'"
    using extended_decode_total [OF ok, of "2 * unat c0" external] by auto
  have "eigrp_tlv2_metric_decode V s route external =
      Some (if k = 65535 then 0 else 24 + k, route', advance s (24 + n))"
    using s l e(1) unfolding eigrp_tlv2_metric_decode_def Let_def g prod.case route1_def [symmetric]
    by (simp add: eigrp_tlv2_stream_has_def)
  moreover have "24 + n \<le> length (unread s)" using e(2) l by simp
  ultimately show ?thesis using e(3) by blast
qed

lemma extended_decode_wire:
  assumes s: "stream_ok s" and a: "addr_ok (nexthop q)" and u: "unread s = tlv2_addpath_wire V r external q @ z"
  shows "eigrp_tlv2_extended_decode V s route (length (tlv2_addpath_wire V r external q)) external
     = Some (length (tlv2_addpath_wire V r external q), addpath_effect V family r external q route,
             advance s (length (tlv2_addpath_wire V r external q)))"
proof (cases "af_afi V = EIGRP_AFI_IPV6")
  case False
  then show ?thesis
    by (simp add: eigrp_tlv2_extended_decode_def tlv2_addpath_wire_def addpath_effect_def)
next
  case True
  let ?n = "addpath_len V external"
  note b = addpath_len_bounds [of external]
  have lw: "length (tlv2_addpath_wire V r external q) = 2 + ?n" using length_addpath_wire [OF a] True by simp
  have half: "2 * unat (of_nat (?n div 2) :: u8) = ?n" using b by (simp add: unat_of_nat take_bit_eq_mod)
  define t where "t = advance s 2"
  obtain rest where u1: "unread s = EIGRP_TLV2_EXTATTR_ADDPATH # of_nat (?n div 2) # rest"
    and rest: "rest = take (packet_address_bytes V) (ip_bytes (nexthop q))
           @ htonl (tlv2_orig r (extdata q)) @ htonl (ext_tag (extdata q))
           @ (if external then [ext_protocol (extdata q), ext_flags (extdata q)] else []) @ z"
    using u True by (simp add: tlv2_addpath_wire_def)
  then have u2: "unread t = rest" by (simp add: t_def)
  have g: "eigrp_stream_getc s = (EIGRP_TLV2_EXTATTR_ADDPATH, advance s 1)"
    "eigrp_stream_getc (advance s 1) = (of_nat (?n div 2), t)" and t: "stream_ok t"
    using s u1 by (simp_all add: getc_eq advance_ok t_def)
  have ad: "tlv2_addpath_decode V external ?n route t
      = (True, addpath_effect V family r external q route, advance s (2 + ?n))"
    using addpath_decode_wire [OF t a u2 [unfolded rest] True] by (simp add: t_def)
  have fin: "tlv2_extended_loop V external (st_getp s + (2 + ?n)) x (advance s (2 + ?n))
      = Some (True, x, advance s (2 + ?n))" for x
    by (subst tlv2_extended_loop.simps) simp
  have gp: "st_getp t = st_getp s + 2" by (simp add: t_def)
  have loop: "tlv2_extended_loop V external (st_getp s + (2 + ?n)) route s
      = Some (True, addpath_effect V family r external q route, advance s (2 + ?n))"
    unfolding tlv2_extended_loop.simps [of _ _ _ _ s] Let_def g prod.case half ad gp if_True refl
    using fin by simp
  show ?thesis
    unfolding lw eigrp_tlv2_extended_decode_def
    using s loop u lw by (simp add: eigrp_tlv2_stream_has_def)
qed

lemma metric_decode2_wire:
  fixes r :: u32 and external :: bool
  assumes s: "stream_ok s" and a: "addr_ok (nexthop q)"
  defines "w \<equiv> tlv2_addpath_wire V r external q"
  assumes u: "unread s = tlv2_metric_wire (of_nat (length w div 2)) (rt_metric q) @ w @ z"
  shows "eigrp_tlv2_metric_decode V s route external =
     Some (24 + length w, addpath_effect V family r external q (route\<lparr>rt_metric := tlv2_metric_image (rt_metric q)\<rparr>),
           advance s (24 + length w))"
proof -
  let ?m = "rt_metric q" and ?k = "of_nat (length w div 2) :: u8"
  have lw: "length w = (if af_afi V \<noteq> EIGRP_AFI_IPV6 then 0 else 2 + addpath_len V external)"
    unfolding w_def by (rule length_addpath_wire [OF a])
  have even: "2 * unat ?k = length w" "length w \<noteq> 65535"
    using addpath_len_bounds [of external] by (auto simp: lw unat_of_nat take_bit_eq_mod)
  have g:
    "eigrp_stream_getc s = (?k, advance s 1)" "eigrp_stream_getc (advance s 1) = (metric_tag ?m, advance s 2)"
    "eigrp_stream_getc (advance s 2) = (reliability ?m, advance s 3)" "eigrp_stream_getc (advance s 3) = (load ?m, advance s 4)"
    "eigrp_stream_getc (advance s 4) = (mtu ?m ! 2, advance s 5)" "eigrp_stream_getc (advance s 5) = (mtu ?m ! 1, advance s 6)"
    "eigrp_stream_getc (advance s 6) = (mtu ?m ! 0, advance s 7)" "eigrp_stream_getc (advance s 7) = (hop_count ?m, advance s 8)"
    "eigrp_tlv2_get48 (advance s 8) = (value48 (wire48 (inf48 (delay ?m))), advance s 14)"
    "eigrp_tlv2_get48 (advance s 14) = (value48 (wire48 (inf48 (bandwidth ?m))), advance s 20)"
    "eigrp_stream_getw (advance s 20) = (0, advance s 22)"
    "eigrp_stream_getw (advance s 22) = (ucast (metric_flags ?m), advance s 24)"
    using s u by (simp_all add: tlv2_metric_wire_def getc_eq getw_eq get48_eq advance_ok)
  have fl: "(ucast ((ucast (metric_flags ?m) :: u16) AND 0xff) :: u8) = metric_flags ?m"
  proof (rule bit_word_eqI)
    fix n assume "n < LENGTH(8)"
    moreover have "(0xff :: u16) = mask 8" by (simp add: mask_eq_exp_minus_1)
    ultimately show "bit (ucast ((ucast (metric_flags ?m) :: u16) AND 0xff) :: u8) n = bit (metric_flags ?m) n"
      by (simp only: bit_simps) simp
  qed
  have ok: "stream_ok (advance s 24)" "unread (advance s 24) = w @ z" "24 \<le> length (unread s)"
    using s u by (simp_all add: advance_ok)
  have e: "eigrp_tlv2_extended_decode V (advance s 24) x (length w) external
      = Some (length w, addpath_effect V family r external q x, advance s (24 + length w))" for x
    using extended_decode_wire [OF ok(1) a, where r = r and external = external, folded w_def, OF ok(2)] by simp
  show ?thesis
    using s ok(3) even(2)
    unfolding eigrp_tlv2_metric_decode_def Let_def g prod.case even(1) e option.case fl
    by (simp add: eigrp_tlv2_stream_has_def tlv2_metric_image_def uninf48_def)
qed

lemma sections2_total:
  assumes s: "stream_ok s" and i: "nexthop_inv family route"
    and src: "ip_afi nbr_src = family" "addr_ok nbr_src"
  shows "\<exists>out. tlv2_decode_sections V external len nbr_src route s = Some out
     \<and> reads_within s out (route_wire_ok V family)"
proof -
  obtain k route1 n where m: "eigrp_tlv2_metric_decode V s route external = Some (k, route1, advance s n)"
    "n \<le> length (unread s)" "nexthop_inv family route1"
    using metric_decode2_total [OF s i, of external] by auto
  have ok1: "stream_ok (advance s n)" using s m(2) by (simp add: advance_ok)
  obtain j x where x:
    "external \<Longrightarrow> eigrp_tlv2_external_decode (advance s n) (extdata route1) = (j, x, advance s (n + j))"
    "\<not> external \<Longrightarrow> j = 0 \<and> x = extdata route1" and nj: "n + j \<le> length (unread s)"
    using tlv2_external_decode_total [OF ok1, of "extdata route1"] m(2)
    by (cases external; cases "length (unread (advance s n)) < 16") auto
  have xx: "(if external then eigrp_tlv2_external_decode (advance s n) (extdata route1)
      else (0, extdata route1, advance s n)) = (j, x, advance s (n + j))"
    using x by (cases external) simp_all
  have ok2: "stream_ok (advance s (n + j))" using s nj by (simp add: advance_ok)
  define route2 where "route2 = (if eigrp_tlv2_addr_is_zero V (nexthop (route1\<lparr>extdata := x\<rparr>))
      then route1\<lparr>extdata := x\<rparr>\<lparr>nexthop := nbr_src\<rparr> else route1\<lparr>extdata := x\<rparr>)"
  have nh: "ip_afi (nexthop route2) = family \<and> addr_ok (nexthop route2)"
    using m(3) src by (auto simp: route2_def nexthop_inv_def eigrp_tlv2_addr_is_zero_def zero_addr_def Let_def min_def)
  obtain h d where d: "packet_prefix_decode V (advance s (n + j)) (dest route2) = (h, d, advance s (n + j + h))"
    "n + j + h \<le> length (unread s)" "h \<noteq> 0 \<Longrightarrow> prefix_in V d \<and> eigrp_prefix_normalize d = d"
    using prefix_decode_total [OF ok2, of "dest route2"] nj by (auto simp: add.assoc)
  have eq: "tlv2_decode_sections V external len nbr_src route s = Some
      (if k = 0 then (None, advance s n)
       else if external \<and> j = 0 then (None, advance s (n + j))
       else if h = 0 \<or> len < 12 + k + j + h then (None, advance s (n + j + h))
       else (Some (route2\<lparr>dest := d\<rparr>), advance s (n + j + h)))"
    unfolding tlv2_decode_sections_def Let_def m(1) option.case prod.case xx route2_def [symmetric] d(1) by simp
  have "h \<noteq> 0 \<Longrightarrow> route_wire_ok V family (route2\<lparr>dest := d\<rparr>)" using d(3) nh by (simp add: route_wire_ok_def)
  then show ?thesis unfolding eq using m(2) nj d(2) by (auto intro!: reads_withinI split: if_split)
qed

lemma length_tlv2_body:
  assumes "addr_ok (nexthop q)" and "prefix_in V (route_destination q)"
  shows "length (tlv2_body_wire V nbytes r external q) \<le> 85"
    and "25 + (if external then 16 else 0) \<le> length (tlv2_body_wire V nbytes r external q)"
  using assms length_addpath_wire [of q r external] addpath_len_bounds [of external]
    length_prefix_wire [of "route_destination q"]
  by (auto simp: tlv2_body_wire_def prefix_in_def prefix_wire_def Let_def)

lemma sections2_wire:
  assumes s: "stream_ok s" and u: "unread s = tlv2_body_wire V nbytes r external q @ z"
    and p: "prefix_in V (route_destination q)" and a: "addr_ok (nexthop q)"
    and len: "12 + length (tlv2_body_wire V nbytes r external q) \<le> len"
  shows "tlv2_decode_sections V external len nbr_src route s =
     Some (Some (tlv2_received V family r external nbr_src q route),
           advance s (length (tlv2_body_wire V nbytes r external q)))"
proof -
  define w where "w = tlv2_addpath_wire V r external q"
  let ?x = "if external then tlv2_external_wire r (extdata q) else []"
    and ?p = "prefix_wire nbytes (route_destination q)"
  define route1 where "route1 = addpath_effect V family r external q (route\<lparr>rt_metric := tlv2_metric_image (rt_metric q)\<rparr>)"
  define x where "x = (if external then (extdata q)\<lparr>ext_orig := tlv2_orig r (extdata q), ext_tag := ext_tag (extdata route1)\<rparr>
     else extdata route1)"
  define n where "n = 24 + length w"
  define j where "j = length ?x"
  have u': "unread s = tlv2_metric_wire (of_nat (length w div 2)) (rt_metric q) @ w @ ?x @ ?p @ z"
    using u by (simp add: tlv2_body_wire_def w_def Let_def)
  have m: "eigrp_tlv2_metric_decode V s route external = Some (n, route1, advance s n)"
    unfolding n_def route1_def w_def by (rule metric_decode2_wire [OF s a u' [unfolded w_def]])
  have ok1: "stream_ok (advance s n)" "unread (advance s n) = ?x @ ?p @ z"
    using s u' by (simp_all add: n_def advance_ok)
  have xx: "(if external then eigrp_tlv2_external_decode (advance s n) (extdata route1)
      else (0, extdata route1, advance s n)) = (j, x, advance s (n + j))"
    using tlv2_external_decode_wire [OF ok1(1)] ok1(2) by (simp add: j_def x_def)
  have ok2: "stream_ok (advance s (n + j))" "unread (advance s (n + j)) = ?p @ z"
    using s u' by (simp_all add: n_def j_def advance_ok)
  have d: "packet_prefix_decode V (advance s (n + j)) y
      = (length ?p, eigrp_prefix_normalize (route_destination q), advance s (n + j + length ?p))" for y
    using prefix_decode_wire [OF p ok2] by (simp add: add.assoc)
  have lb: "length (tlv2_body_wire V nbytes r external q) = n + j + length ?p"
    by (simp add: tlv2_body_wire_def w_def [symmetric] n_def j_def Let_def)
  have "j = (if external then 16 else 0)" by (simp add: j_def)
  then have nz: "n \<noteq> 0" "\<not> (external \<and> j = 0)" "length ?p \<noteq> 0" "12 + n + j + length ?p \<le> len"
    using len lb by (auto simp: n_def prefix_wire_def split: if_splits)
  have rec: "tlv2_received V family r external nbr_src q route =
      (if eigrp_tlv2_addr_is_zero V (nexthop (route1\<lparr>extdata := x\<rparr>))
       then route1\<lparr>extdata := x\<rparr>\<lparr>nexthop := nbr_src\<rparr> else route1\<lparr>extdata := x\<rparr>)
        \<lparr>dest := eigrp_prefix_normalize (route_destination q)\<rparr>"
    unfolding tlv2_received_def route1_def [symmetric] Let_def by (simp add: x_def)
  show ?thesis
    unfolding rec lb tlv2_decode_sections_def Let_def m option.case prod.case xx d using nz by simp
qed

lemma tlv2_decoder_total:
  assumes s: "stream_ok s" and src: "ip_afi nbr_src = family" "addr_ok nbr_src"
  shows "decodes s (eigrp_tlv2_decoder A True nid V nbr_ei nbr_src s) (route_wire_ok V family)"
proof (cases "length (unread s) < 4")
  case True
  then show ?thesis
    using s tlv2_abort_advance [OF s, of 0] by (auto simp: eigrp_tlv2_decoder_def intro!: decodes_end)
next
  case False
  define ty where "ty = fst (eigrp_stream_getw s)"
  define l where "l = fst (eigrp_stream_getw (advance s 2))"
  define len where "len = unat l"
  define ext where "ext = (ty \<noteq> EIGRP_TLV_MP_INT)"
  have g: "eigrp_stream_getw s = (ty, advance s 2)" "eigrp_stream_getw (advance s 2) = (l, advance s 4)"
    using s False by (simp_all add: ty_def l_def getw_eq advance_ok)
  have ok4: "stream_ok (advance s 4)" "4 \<le> length (unread s)" using s False by (simp_all add: advance_ok)
  note ab = tlv2_abort_advance [OF s]
  note unf = eigrp_tlv2_decoder_def Let_def g prod.case len_def [symmetric] ext_def [symmetric]
    tlv2_remaining [OF s] tlv1_sizes advance_frame
  consider (skip) "ext" "ty \<noteq> EIGRP_TLV_MP_EXT" "4 \<le> len" "len \<le> length (unread s)"
    | (bad) "ext" "ty \<noteq> EIGRP_TLV_MP_EXT" "\<not> (4 \<le> len \<and> len \<le> length (unread s))"
    | (short) "\<not> (ext \<and> ty \<noteq> EIGRP_TLV_MP_EXT)" "len < tlv2_min_length ext \<or> length (unread s) < len"
    | (tlv) "\<not> (ext \<and> ty \<noteq> EIGRP_TLV_MP_EXT)" "\<not> (len < tlv2_min_length ext \<or> length (unread s) < len)"
    by blast
  then show ?thesis
  proof cases
    case skip
    then show ?thesis
      unfolding unf using False tlv2_skip_advance [OF s skip(4), of 4] by (auto intro!: decodesI)
  next
    case bad
    then show ?thesis unfolding unf using False ab [OF ok4(2)] by (auto intro!: decodes_end)
  next
    case short
    then show ?thesis unfolding unf using False ab [OF ok4(2)] by (auto intro!: decodes_end)
  next
    case tlv
    define t where "t = narrow (advance s 4) (st_getp s + len)"
    obtain route where c: "eigrp_topology_route_create True nid nbr_ei = Some route" "nexthop route = zero_addr"
      by (simp add: eigrp_topology_route_create_def)
    have min: "12 \<le> len" using tlv(2) by (simp add: tlv2_min_length_def split: if_splits)
    have e: "st_getp s + len \<le> st_endp s" "len \<le> length (unread s)"
      using tlv(2) s by (auto simp: length_unread stream_ok_def)
    have nar: "eigrp_stream_set_endp A (advance s 4) (st_getp s + len) = t"
      unfolding t_def using e min by (intro narrow_set_endp ok4) simp_all
    have tok: "stream_ok t" unfolding t_def using e min by (intro narrow_ok ok4) simp_all
    have lt: "length (unread t) = len - 4" using e min ok4(1) by (simp add: t_def unread_narrow)
    obtain afi tid rr where h: "eigrp_stream_getw t = (afi, advance t 2)"
      "eigrp_stream_getw (advance t 2) = (tid, advance t 4)" "eigrp_stream_getl (advance t 4) = (rr, advance t 8)"
      using tok lt min by (simp add: getw_eq getl_eq advance_ok)
    have has: "eigrp_tlv2_stream_has t 8" using tok lt min by (simp add: eigrp_tlv2_stream_has_def)
    define route0 where "route0 = route\<lparr>topology_id := tid,
        rt_type := (if ext then classic_external_tlv_type V else classic_internal_tlv_type V),
        extdata := (extdata route)\<lparr>ext_orig := rr\<rparr>\<rparr>"
    have t8: "stream_ok (advance t 8)" "nexthop_inv family route0"
      using tok lt min c(2) by (simp_all add: advance_ok nexthop_inv_def route0_def)
    obtain r n where sec: "tlv2_decode_sections V ext len nbr_src route0 (advance t 8) = Some (r, advance (advance t 8) n)"
      "n \<le> length (unread (advance t 8))" "\<And>q. r = Some q \<Longrightarrow> route_wire_ok V family q"
      using sections2_total [OF t8 src, of ext len] by (elim exE conjE reads_withinE) blast
    have wid: "eigrp_stream_set_endp A (advance t i) (st_endp s) = advance s (4 + i)" if "i \<le> len - 4" for i
      unfolding t_def using widen [OF ok4(1), of i] that e s min by simp
    have n12: "8 + n \<le> len - 4" "4 + (8 + n) \<le> length (unread s)" using sec(2) lt e(2) min by simp_all
    have eq: "eigrp_tlv2_decoder A True nid V nbr_ei nbr_src s =
        (if afi \<noteq> multiprotocol_afi V then Some (None, advance s len)
         else Some (r, advance s (case r of None \<Rightarrow> length (unread s) | Some _ \<Rightarrow> len)))"
      unfolding unf nar tlv2_sizes h route0_def [symmetric] c(1) option.case
      using tlv False has sec(1) wid [of 8] wid [OF n12(1)] ab [OF n12(2)] min
        tlv2_skip_advance [OF s e(2), of 12] tlv2_skip_advance [OF s e(2), of "4 + (8 + n)"]
      by (cases r) (auto simp: route0_def [symmetric])
    show ?thesis unfolding eq using sec(3) e(2) min by (auto intro!: decodesI split: option.split)
  qed
qed

lemma tlv2_decoder_wire:
  assumes s: "stream_ok s" and u: "unread s = tlv2_wire V nbytes r ty q @ z"
    and ty: "ty \<in> {EIGRP_TLV_MP_INT, EIGRP_TLV_MP_EXT}"
    and p: "prefix_in V (route_destination q)" and a: "addr_ok (nexthop q)"
    and c: "eigrp_topology_route_create True nid nbr_ei = Some route"
  shows "eigrp_tlv2_decoder A True nid V nbr_ei nbr_src s =
     Some (Some (tlv2_received V family r (ty = EIGRP_TLV_MP_EXT) nbr_src q
        (route\<lparr>topology_id := topology_id q,
               rt_type := (if ty = EIGRP_TLV_MP_EXT then classic_external_tlv_type V else classic_internal_tlv_type V),
               extdata := (extdata route)\<lparr>ext_orig := r\<rparr>\<rparr>)),
      advance s (length (tlv2_wire V nbytes r ty q)))"
proof -
  let ?ext = "ty = EIGRP_TLV_MP_EXT"
  let ?b = "tlv2_body_wire V nbytes r ?ext q"
  let ?len = "12 + length ?b"
  note lb = length_tlv2_body [OF a p, where r = r and external = ?ext]
  have ext: "(ty \<noteq> EIGRP_TLV_MP_INT) = ?ext" using ty by (auto simp: route_type_consts)
  have u': "unread s = htons ty @ htons (of_nat ?len) @ htons (multiprotocol_afi V) @ htons (topology_id q) @ htonl r @ ?b @ z"
    using u by (simp add: tlv2_wire_def Let_def)
  have n: "unat (of_nat ?len :: u16) = ?len" using lb by (simp add: unat_of_nat take_bit_eq_mod del: of_nat_add)
  have ok4: "stream_ok (advance s 4)" using s u' by (simp add: advance_ok)
  have lu: "length (unread s) = ?len + length z" using u' by simp
  have e: "st_getp s + ?len \<le> st_endp s" using s lu by (simp add: length_unread stream_ok_def)
  define t where "t = narrow (advance s 4) (st_getp s + ?len)"
  have nar: "eigrp_stream_set_endp A (advance s 4) (st_getp s + ?len) = t"
    unfolding t_def using e by (intro narrow_set_endp ok4) simp_all
  have tok: "stream_ok t" unfolding t_def using e by (intro narrow_ok ok4) simp_all
  have tun: "unread t = htons (multiprotocol_afi V) @ htons (topology_id q) @ htonl r @ ?b @ []"
    unfolding t_def using e ok4 u' by (subst unread_narrow) simp_all
  have h: "eigrp_stream_getw t = (multiprotocol_afi V, advance t 2)"
    "eigrp_stream_getw (advance t 2) = (topology_id q, advance t 4)" "eigrp_stream_getl (advance t 4) = (r, advance t 8)"
    using tok tun by (simp_all add: getw_eq getl_eq advance_ok)
  have t8: "stream_ok (advance t 8)" "unread (advance t 8) = ?b @ []" "eigrp_tlv2_stream_has t 8"
    using tok tun by (simp_all add: advance_ok eigrp_tlv2_stream_has_def)
  note sec = sections2_wire [OF t8(1,2) p a order.refl]
  have wid: "eigrp_stream_set_endp A (advance t (8 + length ?b)) (st_endp s) = advance s ?len"
    unfolding t_def using widen [OF ok4(1), of "8 + length ?b"] e by simp
  have g: "eigrp_stream_getw s = (ty, advance s 2)" "eigrp_stream_getw (advance s 2) = (of_nat ?len, advance s 4)"
    using s u' by (simp_all add: getw_eq advance_ok)
  have sk: "eigrp_tlv2_decode_skip (advance s ?len) (st_getp s + ?len) = advance s ?len"
    using tlv2_skip_advance [OF s, of ?len ?len] lu by simp
  have lw: "length (tlv2_wire V nbytes r ty q) = ?len" by (simp add: tlv2_wire_def Let_def)
  have guards: "\<not> length (unread s) < 4" "\<not> (ty \<noteq> EIGRP_TLV_MP_INT \<and> ty \<noteq> EIGRP_TLV_MP_EXT)"
    "\<not> (?len < tlv2_min_length ?ext \<or> length (unread s) < ?len)"
    using lu ty lb by (auto simp: tlv2_min_length_def)
  show ?thesis
    unfolding lw eigrp_tlv2_decoder_def Let_def g prod.case n ext tlv2_remaining [OF s] tlv1_sizes tlv2_sizes
      advance_frame nar h c option.case sec prod.case wid sk
    using guards t8(3) by simp
qed

lemma tlv2_encoder_appended:
  assumes s: "stream_ok s" and g: "can_grow A s 97" and q: "\<not> filtered (route_destination q)"
    and ty: "ty = eigrp_tlv2_route_tlv_type V q" "ty \<noteq> 0"
    and a: "addr_ok (nexthop q)" "ip_afi (nexthop q) \<in> {AF_UNSPEC, family}"
    and p: "prefix_in V (route_destination q)"
  shows "\<exists>s'. eigrp_tlv2_encoder A V r True filtered s q = Some (length (tlv2_wire V nbytes r ty q), s', q)
     \<and> appended A s (tlv2_wire V nbytes r ty q) s'"
proof -
  let ?ext = "ty = EIGRP_TLV_MP_EXT"
  define w where "w = tlv2_addpath_wire V r ?ext q"
  let ?x = "if ?ext then tlv2_external_wire r (extdata q) else []"
    and ?m = "tlv2_metric_wire (of_nat (length w div 2)) (rt_metric q)"
    and ?p = "prefix_wire nbytes (route_destination q)"
  let ?b = "tlv2_body_wire V nbytes r ?ext q"
  let ?h = "htons (multiprotocol_afi V) @ htons (topology_id q) @ htonl r"
  have lw: "length w \<le> 28" using length_addpath_wire [OF a(1), of r ?ext] addpath_len_bounds [of ?ext] by (simp add: w_def)
  have lens: "length ?b \<le> 85" "length ?x \<le> 16" "length ?p \<le> 17" "length ?p \<noteq> 0"
    using length_tlv2_body(1) [OF a(1) p, where r = r and external = ?ext] length_prefix_wire [of "route_destination q"] p
    by (simp_all add: prefix_in_def, simp add: prefix_wire_def)
  have room: "can_grow A s n" if "n \<le> 97" for n using g that by (rule can_grow_mono)
  define s2 where "s2 = snd (eigrp_stream_put A (snd (eigrp_stream_put A (snd (eigrp_stream_put A (snd (eigrp_stream_put A
     (snd (eigrp_stream_put A s (htons ty))) (htons 0))) (htons (multiprotocol_afi V)))) (htons (topology_id q)))) (htonl r))"
  have "appended A s ((((htons ty @ htons 0) @ htons (multiprotocol_afi V)) @ htons (topology_id q)) @ htonl r) s2"
    unfolding s2_def by (intro appended_put appended_first s room) simp_all
  then have a2: "appended A s (htons ty @ htons 0 @ ?h) s2" by simp
  have "can_grow A s2 52" by (intro appendedD(5) [OF a2] room) simp
  then obtain s3 where me: "eigrp_tlv2_metric_encode A V r s2 q ?ext = Some (24 + length w, s3)"
    and "appended A s2 (?m @ w) s3"
    using tlv2_metric_encode_appended [OF appendedD(1) [OF a2] _ a, where r = r and external = ?ext, folded w_def] by auto
  with appended_trans [OF a2] have a3: "appended A s ((htons ty @ htons 0 @ ?h) @ ?m @ w) s3" by blast
  define s4 where "s4 = (if ?ext then snd (eigrp_tlv2_external_encode A r s3 (extdata q)) else s3)"
  have a4: "appended A s (((htons ty @ htons 0 @ ?h) @ ?m @ w) @ ?x) s4"
  proof (cases ?ext)
    case True
    have "can_grow A s3 16" using lw by (intro appendedD(5) [OF a3] room) simp
    then show ?thesis using True appended_trans [OF a3 tlv2_external_appended [OF appendedD(1) [OF a3]]]
      by (simp add: s4_def)
  qed (use a3 in \<open>simp add: s4_def\<close>)
  define s6 where "s6 = snd (packet_prefix_encode V A s4 (route_destination q))"
  have "can_grow A s4 (length ?p)" using lens lw by (intro appendedD(5) [OF a4] room) simp
  with prefix_encode [OF p appendedD(1) [OF a4], of A]
  have pe: "packet_prefix_encode V A s4 (route_destination q) = (length ?p, s6)"
    and "appended A s4 ?p s6" by (auto simp: s6_def prod_eq_iff)
  from appended_trans [OF a4 this(2)] have a6: "appended A s (htons ty @ htons 0 @ ?h @ ?b) s6"
    by (simp add: tlv2_body_wire_def w_def Let_def)
  have end6: "st_endp s6 - st_endp s = 12 + length ?b" using appendedD(4) [OF a6] by simp
  have small: "(12 + length ?b) mod 2 ^ 16 = 12 + length ?b" using lens(1) by simp
  have a7: "appended A s (tlv2_wire V nbytes r ty q)
      (eigrp_stream_set_endp A (snd (eigrp_stream_put A (eigrp_stream_set_endp A s6 (st_endp s + 2))
         (htons (of_nat (12 + length ?b))))) (st_endp s6))"
    unfolding tlv2_wire_def Let_def
    using appended_patch [OF a6 s, of "htons (of_nat (12 + length ?b))"] by simp
  have nq: "(if filtered (route_destination q) then x else q) = q" for x using q by simp
  have "eigrp_tlv2_encoder A V r True filtered s q = Some (12 + length ?b,
      eigrp_stream_set_endp A (snd (eigrp_stream_put A (eigrp_stream_set_endp A s6 (st_endp s + 2))
         (htons (of_nat (12 + length ?b))))) (st_endp s6), q)"
    using ty(2) lens(4)
    unfolding eigrp_tlv2_encoder_def nq Let_def ty(1) [symmetric] put_defs s2_def [symmetric] me option.case prod.case
      s4_def [symmetric] pe end6 small
    by simp
  with a7 show ?thesis by (simp add: tlv2_wire_def Let_def)
qed

lemma tlv2_roundtrip:
  assumes s: "stream_ok s" "unread s = []" and g: "can_grow A s 97" and q: "\<not> filtered (route_destination q)"
    and ty: "eigrp_tlv2_route_tlv_type V q \<noteq> 0"
    and a: "addr_ok (nexthop q)" "ip_afi (nexthop q) \<in> {AF_UNSPEC, family}"
    and p: "prefix_in V (route_destination q)"
  shows "\<exists>n s' route s''. eigrp_tlv2_encoder A V r True filtered s q = Some (n, s', q)
     \<and> eigrp_tlv2_decoder A True nid V nbr_ei nbr_src s'
         = Some (Some (tlv2_received V family r (eigrp_tlv2_route_tlv_type V q = EIGRP_TLV_MP_EXT) nbr_src q route), s'')
     \<and> unread s'' = [] \<and> topology_id route = topology_id q \<and> nexthop route = zero_addr \<and> ext_tag (extdata route) = 0
     \<and> rt_type route = (if eigrp_tlv2_route_tlv_type V q = EIGRP_TLV_MP_EXT
                        then classic_external_tlv_type V else classic_internal_tlv_type V)"
proof -
  let ?ty = "eigrp_tlv2_route_tlv_type V q"
  obtain s' where enc: "eigrp_tlv2_encoder A V r True filtered s q = Some (length (tlv2_wire V nbytes r ?ty q), s', q)"
    and ap: "appended A s (tlv2_wire V nbytes r ?ty q) s'"
    using tlv2_encoder_appended [where filtered = filtered and q = q, OF s(1) g q refl ty a p, of r] by auto
  have u: "unread s' = tlv2_wire V nbytes r ?ty q @ []" using appended_unread [OF ap s] by simp
  have t: "?ty \<in> {EIGRP_TLV_MP_INT, EIGRP_TLV_MP_EXT}"
    using ty by (auto simp: eigrp_tlv2_route_tlv_type_def split: if_splits)
  obtain r0 where c: "eigrp_topology_route_create True nid nbr_ei = Some r0" "nexthop r0 = zero_addr"
    by (simp add: eigrp_topology_route_create_def)
  define route where "route = r0\<lparr>topology_id := topology_id q,
      rt_type := (if ?ty = EIGRP_TLV_MP_EXT then classic_external_tlv_type V else classic_internal_tlv_type V),
      extdata := (extdata r0)\<lparr>ext_orig := r\<rparr>\<rparr>"
  have dec: "eigrp_tlv2_decoder A True nid V nbr_ei nbr_src s'
      = Some (Some (tlv2_received V family r (?ty = EIGRP_TLV_MP_EXT) nbr_src q route),
              advance s' (length (tlv2_wire V nbytes r ?ty q)))"
    unfolding route_def by (rule tlv2_decoder_wire [OF appendedD(1) [OF ap] u t p a(1) c(1)])
  moreover have "unread (advance s' (length (tlv2_wire V nbytes r ?ty q))) = []" using u by simp
  moreover have "topology_id route = topology_id q" "nexthop route = zero_addr" "ext_tag (extdata route) = 0"
    "rt_type route = (if ?ty = EIGRP_TLV_MP_EXT then classic_external_tlv_type V else classic_internal_tlv_type V)"
    using c by (auto simp: route_def eigrp_topology_route_create_def zero_extdata_def)
  ultimately show ?thesis using enc by blast
qed

end

subsection \<open>Correctness\<close>

lemma tlv2_received_fields:
  "topology_id (tlv2_received V family r external src q route) = topology_id route"
  "rt_type (tlv2_received V family r external src q route) = rt_type route"
  "dest (tlv2_received V family r external src q route) = eigrp_prefix_normalize (route_destination q)"
  "rt_metric (tlv2_received V family r external src q route) = tlv2_metric_image (rt_metric q)"
  "external \<Longrightarrow> extdata (tlv2_received V family r external src q route) =
     (extdata q)\<lparr>ext_orig := tlv2_orig r (extdata q),
                 ext_tag := (if af_afi V = EIGRP_AFI_IPV6 then ext_tag (extdata q) else ext_tag (extdata route))\<rparr>"
  by (auto simp: tlv2_received_def addpath_effect_def Let_def)

lemma tlv2_received_tag:
  "ext_tag (extdata (tlv2_received V family r external src q route))
     = (if af_afi V = EIGRP_AFI_IPV6 then ext_tag (extdata q) else ext_tag (extdata route))"
  by (simp add: tlv2_received_def addpath_effect_def Let_def)

lemma tlv2_received_nexthop:
  assumes "(V, family) \<in> families" and "addr_ok (nexthop q)" and "nexthop route = zero_addr"
  shows "nexthop (tlv2_received V family r external src q route)
     = (if af_afi V = EIGRP_AFI_IPV6 \<and> ip_bytes (nexthop q) \<noteq> replicate 16 0
        then \<lparr>ip_afi = family, ip_bytes = ip_bytes (nexthop q)\<rparr> else src)"
  using assms
  by (auto simp: families_def tlv2_received_def addpath_effect_def Let_def eigrp_tlv2_addr_is_zero_def
      nexthop_image_def addr_ok_def zero_addr_def)

text \<open>
  C28: A route sent in a wide-metric TLV arrives: for IPv4 and IPv6, internal and external, an
  unfiltered route is encoded completely and decoded to the same topology, kind and metric (an
  infinite delay stays infinite) and to the destination with its host bits cleared; nothing is left
  unread.  Over IPv6 a next hop that is set and the route tag arrive unchanged.  Over IPv4, and for a next hop that
  is not set, the next hop becomes the address of the neighbour, and over IPv4 the tag becomes 0, since neither is encoded.
  The other exterior data of an external route arrives unchanged, with the sender's router ID standing in for a missing
  originator.
\<close>

theorem tlv2_encode_decode:
  assumes "(V, family) \<in> families" and "stream_ok s" and "unread s = []" and "can_grow A s 97"
    and "\<not> filtered (route_destination q)" and "eigrp_tlv2_route_tlv_type V q \<noteq> 0"
    and "addr_ok (nexthop q)" and "ip_afi (nexthop q) \<in> {AF_UNSPEC, family}"
    and "prefix_in V (route_destination q)" and "wide_metric (rt_metric q)"
  shows "\<exists>n s' p s''. eigrp_tlv2_encoder A V r True filtered s q = Some (n, s', q)
     \<and> eigrp_tlv2_decoder A True nid V nbr_ei nbr_src s' = Some (Some p, s'') \<and> unread s'' = []
     \<and> topology_id p = topology_id q \<and> rt_metric p = rt_metric q
     \<and> dest p = eigrp_prefix_normalize (route_destination q)
     \<and> rt_type p = (if eigrp_tlv2_route_tlv_type V q = EIGRP_TLV_MP_EXT
                    then classic_external_tlv_type V else classic_internal_tlv_type V)
     \<and> nexthop p = (if af_afi V = EIGRP_AFI_IPV6 \<and> ip_bytes (nexthop q) \<noteq> replicate 16 0
                    then \<lparr>ip_afi = family, ip_bytes = ip_bytes (nexthop q)\<rparr> else nbr_src)
     \<and> ext_tag (extdata p) = (if af_afi V = EIGRP_AFI_IPV6 then ext_tag (extdata q) else 0)
     \<and> (eigrp_tlv2_route_tlv_type V q = EIGRP_TLV_MP_EXT
          \<longrightarrow> extdata p = (extdata q)\<lparr>ext_orig := (if ext_orig (extdata q) = 0 then r else ext_orig (extdata q)),
                                      ext_tag := (if af_afi V = EIGRP_AFI_IPV6 then ext_tag (extdata q) else 0)\<rparr>)"
proof -
  have "\<exists>n s' route s''. eigrp_tlv2_encoder A V r True filtered s q = Some (n, s', q)
     \<and> eigrp_tlv2_decoder A True nid V nbr_ei nbr_src s'
         = Some (Some (tlv2_received V family r (eigrp_tlv2_route_tlv_type V q = EIGRP_TLV_MP_EXT) nbr_src q route), s'')
     \<and> unread s'' = [] \<and> topology_id route = topology_id q \<and> nexthop route = zero_addr \<and> ext_tag (extdata route) = 0
     \<and> rt_type route = (if eigrp_tlv2_route_tlv_type V q = EIGRP_TLV_MP_EXT
                        then classic_external_tlv_type V else classic_internal_tlv_type V)"
    using assms(1) unfolding families_def
    by (elim insertE emptyE Pair_inject; simp only:; intro ipv4.tlv2_roundtrip ipv6.tlv2_roundtrip)
      (use assms in \<open>simp_all add: families_def\<close>)
  then obtain n s' route s'' where "eigrp_tlv2_encoder A V r True filtered s q = Some (n, s', q)"
    "eigrp_tlv2_decoder A True nid V nbr_ei nbr_src s'
         = Some (Some (tlv2_received V family r (eigrp_tlv2_route_tlv_type V q = EIGRP_TLV_MP_EXT) nbr_src q route), s'')"
    "unread s'' = []" "topology_id route = topology_id q" "nexthop route = zero_addr" "ext_tag (extdata route) = 0"
    "rt_type route = (if eigrp_tlv2_route_tlv_type V q = EIGRP_TLV_MP_EXT
                        then classic_external_tlv_type V else classic_internal_tlv_type V)"
    by blast
  then show ?thesis
    using tlv2_metric_image_id [OF assms(10)]
    by (intro exI [of _ n] exI [of _ s'] exI [of _ s'']
        exI [of _ "tlv2_received V family r (eigrp_tlv2_route_tlv_type V q = EIGRP_TLV_MP_EXT) nbr_src q route"])
      (simp add: tlv2_received_fields tlv2_received_tag tlv2_received_nexthop [OF assms(1,7)] tlv2_orig_def)
qed

text \<open>
  C30: The wide-metric decoder is safe on any input: whatever the bytes are, it ends without a fault
  (its attribute loop included), never reads past the packet, moves on whenever there is something
  to read, and a route it returns has a valid, normalised destination and a next hop of its family.
\<close>

theorem tlv2_decoder_safe:
  assumes "(V, family) \<in> families" and "stream_ok s" and "ip_afi nbr_src = family" and "addr_ok nbr_src"
  shows "decodes s (eigrp_tlv2_decoder A True nid V nbr_ei nbr_src s) (route_wire_ok V family)"
  using assms ipv4.tlv2_decoder_total ipv6.tlv2_decoder_total by (auto simp: families_def)


lemma sample_route_wide:
  "wide_metric (rt_metric sample_route)" "eigrp_tlv2_route_tlv_type eigrp_ipv4_init sample_route = EIGRP_TLV_MP_EXT"
  by (simp add: sample_route_ok wide_metric_def sample_metrics_def)
    (simp add: sample_route_def eigrp_tlv2_route_tlv_type_def)

definition sample_peer_addr :: eigrp_addr where
  "sample_peer_addr = \<lparr>ip_afi = AF_INET, ip_bytes = [10, 1, 112, 9] @ replicate 12 0\<rparr>"

theorem tlv2_encode_decode_witness:
  "\<exists>n s' p s''. eigrp_tlv2_encoder zero_alloc eigrp_ipv4_init 99 True (\<lambda>_. False) (sample_stream\<lparr>st_getp := 3\<rparr>) sample_route
        = Some (n, s', sample_route)
     \<and> eigrp_tlv2_decoder zero_alloc True 5 eigrp_ipv4_init (Some 2) sample_peer_addr s' = Some (Some p, s'') \<and> unread s'' = []
     \<and> topology_id p = topology_id sample_route \<and> rt_metric p = rt_metric sample_route
     \<and> dest p = eigrp_prefix_normalize (route_destination sample_route)
     \<and> rt_type p = classic_external_tlv_type eigrp_ipv4_init \<and> nexthop p = sample_peer_addr
     \<and> extdata p = zero_extdata\<lparr>ext_orig := 7\<rparr>"
proof -
  have "eigrp_tlv2_route_tlv_type eigrp_ipv4_init sample_route \<noteq> 0" by (simp add: sample_route_wide EIGRP_TLV_MP_EXT_def)
  moreover have "extdata sample_route = zero_extdata\<lparr>ext_orig := 7, ext_tag := 9\<rparr>" by (simp add: sample_route_def)
  moreover have "af_afi eigrp_ipv4_init \<noteq> EIGRP_AFI_IPV6" by simp
  ultimately show ?thesis
    using tlv2_encode_decode [of eigrp_ipv4_init AF_INET "sample_stream\<lparr>st_getp := 3\<rparr>" zero_alloc "\<lambda>_. False" sample_route 99 5 "Some 2" sample_peer_addr]
    by (simp add: families_def sample_route_ok(1-3) sample_route_wide)
      (fastforce simp: sample_stream_def stream_ok_def unread_def written_def can_grow_def SIZE_MAX_def zero_extdata_def)
qed

theorem tlv2_decoder_safe_witness:
  "decodes sample_stream (eigrp_tlv2_decoder zero_alloc True 5 eigrp_ipv4_init None (nexthop sample_route) sample_stream)
     (route_wire_ok eigrp_ipv4_init AF_INET)"
  by (rule tlv2_decoder_safe) (simp_all add: families_def sample_stream_ok sample_route_ok)


end
