(* ===== verification/Eigrp_Receive.thy ===== *)
theory Eigrp_Receive
  imports Eigrp_Frame Eigrp_TLV2
begin

text \<open>
  The receivers of route packets (\<^verbatim>\<open>eigrp_reply.c\<close>, \<^verbatim>\<open>eigrp_query.c\<close>, \<^verbatim>\<open>eigrp_siaquery.c\<close>, \<^verbatim>\<open>eigrp_siareply.c\<close>):
  packet bytes go through a route decoder, the topology table and the DUAL machine of each destination.

  The topology table is the list of its destinations in table order (that the hash table is a map is shown in
  \<open>Eigrp_Table\<close>).  \<open>next_rid\<close> is the identity of the next descriptor to be allocated, \<open>acks\<close> records the calls of
  \<^verbatim>\<open>eigrp_hello_send_ack\<close>.  The route decoder is the function pointer \<^verbatim>\<open>nbr->decoder\<close>; the locale \<open>route_decoder\<close> says
  what a receiver needs of it.
\<close>

record eigrp_router =
  topo :: eigrp_topo
  table :: "eigrp_prefix_descriptor list"
  next_rid :: nat
  acks :: "nbr_id list"
  recv_sequence_number :: "nbr_id \<Rightarrow> u32"

text \<open>
  Policy that the receivers consult: the inbound filter, the prefix limits of neighbour and topology, whether such a limit
  has marked the neighbour for tear-down, and the summary route built for a QUERY; and the address family of the instance.
\<close>

record ingress =
  vectors :: eigrp_af_vectors
  filter_in :: "eigrp_prefix \<Rightarrow> bool"
  prefix_admit :: "eigrp_topo \<Rightarrow> nbr_id \<Rightarrow> eigrp_prefix \<Rightarrow> bool"
  limit_cleanup_pending :: "eigrp_topo \<Rightarrow> nbr_id \<Rightarrow> bool"
  summary_query_route :: "eigrp_prefix \<Rightarrow> (eigrp_prefix_descriptor \<times> eigrp_route_descriptor) option"

type_synonym route_decode = "nat \<Rightarrow> eigrp_stream \<Rightarrow> (eigrp_route_descriptor option \<times> eigrp_stream) option"

definition WORK_F_ROUTE_ACTIVE :: u32 where "WORK_F_ROUTE_ACTIVE = 8"
definition EIGRP_OPAQUE_ACTIVE :: u8 where "EIGRP_OPAQUE_ACTIVE = 4"

definition eigrp_topology_table_lookup :: "eigrp_prefix_descriptor list \<Rightarrow> eigrp_prefix \<Rightarrow> eigrp_prefix_descriptor option" where
  "eigrp_topology_table_lookup pds p =
     (case eigrp_topology_table_key p of
        None \<Rightarrow> None
      | Some key \<Rightarrow> find (\<lambda>pd. eigrp_topology_table_key (destination pd) = Some key) pds)"

text \<open>A new destination goes to the end of the list; an entry of the same key is replaced.\<close>

definition eigrp_prefix_descriptor_add :: "eigrp_prefix_descriptor list \<Rightarrow> eigrp_prefix_descriptor \<Rightarrow> eigrp_prefix_descriptor list" where
  "eigrp_prefix_descriptor_add pds pd =
     (case eigrp_topology_table_key (destination pd) of
        None \<Rightarrow> pds
      | Some key \<Rightarrow>
          let pd = pd\<lparr>table_attached := True\<rparr>
          in if eigrp_topology_table_lookup pds (destination pd) = None then pds @ [pd]
             else map (\<lambda>x. if eigrp_topology_table_key (destination x) = Some key then pd else x) pds)"

definition table_put :: "eigrp_prefix_descriptor \<Rightarrow> eigrp_prefix_descriptor list \<Rightarrow> eigrp_prefix_descriptor list" where
  "table_put pd = map (\<lambda>x. if destination x = destination pd then pd else x)"

definition eigrp_nbr_route_admit :: "ingress \<Rightarrow> eigrp_topo \<Rightarrow> nbr_id \<Rightarrow> eigrp_prefix \<Rightarrow> eigrp_metrics \<Rightarrow> bool" where
  "eigrp_nbr_route_admit G t n p m \<longleftrightarrow> eigrp_metric_calculate (inst t) m \<noteq> ucast EIGRP_MAX_METRIC \<and> prefix_admit G t n p"

text \<open>\<^verbatim>\<open>eigrp_query_send_all\<close>: one work item when some destination on the change list needs a QUERY.\<close>

definition eigrp_query_send_all :: "eigrp_router \<Rightarrow> eigrp_router option" where
  "eigrp_query_send_all R =
     (if \<exists>d\<in>set (topology_changes (topo R)). \<exists>pd\<in>set (table R). destination pd = d \<and> req_action pd AND EIGRP_FSM_NEED_QUERY \<noteq> 0
      then (case eigrp_packetizer_work_create (topo R) EIGRP_OPC_QUERY of
              None \<Rightarrow> None
            | Some w \<Rightarrow> Some (R\<lparr>topo := eigrp_packetizer_enqueue (topo R) w\<rparr>))
      else Some R)"

definition update_send_all :: "eigrp_router \<Rightarrow> intf_id option \<Rightarrow> eigrp_router option" where
  "update_send_all R exc = map_option (\<lambda>t. R\<lparr>topo := t\<rparr>) (eigrp_update_send_all (topo R) exc)"

definition eigrp_siareply_send :: "eigrp_topo \<Rightarrow> nbr_id \<Rightarrow> eigrp_prefix_descriptor \<Rightarrow> bool \<Rightarrow> eigrp_topo option" where
  "eigrp_siareply_send t n pd active =
     (case eigrp_packetizer_work_create t EIGRP_OPC_SIAREPLY of
        None \<Rightarrow> None
      | Some w \<Rightarrow> Some (eigrp_packetizer_enqueue t
          (w\<lparr>wk_nbr := Some n, wk_prefix := Some (destination pd), wk_flags := (if active then WORK_F_ROUTE_ACTIVE else 0)\<rparr>)))"

subsection \<open>One received route\<close>

definition received_data_type :: "eigrp_route_descriptor \<Rightarrow> u16" where
  "received_data_type q = (if rt_type q = EIGRP_TLV_IPv4_EXT \<or> rt_type q = EIGRP_TLV_IPv6_EXT \<or> rt_type q = EIGRP_TLV_MP_EXT
     then EIGRP_EXT else EIGRP_INT)"

definition filtered_metric :: "ingress \<Rightarrow> eigrp_route_descriptor \<Rightarrow> eigrp_metrics" where
  "filtered_metric G q = (if filter_in G (dest q) then (rt_metric q)\<lparr>delay := ucast EIGRP_MAX_METRIC\<rparr> else rt_metric q)"

text \<open>The event of destination \<open>pd\<close>; the result replaces the destination in the table.\<close>

definition fsm_event_on :: "eigrp_router \<Rightarrow> eigrp_prefix_descriptor \<Rightarrow> eigrp_fsm_action_message \<Rightarrow> eigrp_router option" where
  "fsm_event_on R pd msg =
     (case eigrp_fsm_event (next_rid R) (topo R) pd msg of
        None \<Rightarrow> None
      | Some (t, pd') \<Rightarrow> Some (R\<lparr>topo := t, table := table_put pd' (table R), next_rid := next_rid R + 1\<rparr>))"

definition received_event ::
    "ingress \<Rightarrow> u8 \<Rightarrow> nbr_id \<Rightarrow> eigrp_route_descriptor \<Rightarrow> eigrp_metrics \<Rightarrow> eigrp_router \<Rightarrow> eigrp_prefix_descriptor \<Rightarrow> eigrp_router option" where
  "received_event G opc n q m R pd =
     (let (pd1, r) = route_received pd n q;
          tr = (eigrp_prefix_descriptor_lookup pd (Some n) = None \<and> \<not> eigrp_nbr_route_admit G (topo R) n (destination pd) m)
      in fsm_event_on R pd1
           \<lparr>packet_type = opc, msg_adv_router = Some n, msg_route = Some r, data_type = received_data_type q,
            metrics = m, change = METRIC_DECREASE, transient_route = tr\<rparr>)"

text \<open>A REPLY counts only for a destination that is Active.\<close>

definition reply_route :: "ingress \<Rightarrow> nbr_id \<Rightarrow> eigrp_route_descriptor \<Rightarrow> eigrp_router \<Rightarrow> eigrp_router option" where
  "reply_route G n q R =
     (case eigrp_topology_table_lookup (table R) (dest q) of
        None \<Rightarrow> Some R
      | Some pd \<Rightarrow>
          if state pd = EIGRP_FSM_STATE_PASSIVE then Some R
          else received_event G EIGRP_OPC_REPLY n q (filtered_metric G q) R pd)"

text \<open>
  An SIA-REPLY with the Active bit is a sign of life; without it, it is the outstanding REPLY.  The stored descriptor is used
  as it is.
\<close>

definition siareply_route :: "ingress \<Rightarrow> nbr_id \<Rightarrow> eigrp_route_descriptor \<Rightarrow> eigrp_router \<Rightarrow> eigrp_router option" where
  "siareply_route G n q R =
     (case eigrp_topology_table_lookup (table R) (dest q) of
        None \<Rightarrow> Some R
      | Some pd \<Rightarrow>
          if state pd \<noteq> EIGRP_FSM_STATE_PASSIVE \<and> eigrp_fsm_reply_status_pending pd (Some n) then
            if metric_flags (rt_metric q) AND EIGRP_OPAQUE_ACTIVE \<noteq> 0
            then Some (R\<lparr>table := table_put (eigrp_fsm_sia_reply_received pd (Some n)) (table R)\<rparr>)
            else
              let stored = eigrp_prefix_descriptor_lookup pd (Some n);
                  r = (case stored of Some r \<Rightarrow> r | None \<Rightarrow> q\<lparr>adv_router := Some n, rt_prefix := Some (destination pd)\<rparr>)
              in fsm_event_on R pd
                   \<lparr>packet_type = EIGRP_OPC_REPLY, msg_adv_router = Some n, msg_route = Some r, data_type = received_data_type q,
                    metrics = rt_metric q, change = METRIC_DECREASE,
                    transient_route = (stored = None \<and> \<not> eigrp_nbr_route_admit G (topo R) n (destination pd) (rt_metric q))\<rparr>
          else Some R)"

text \<open>An SIA-QUERY for a Passive destination is a QUERY; a destination that is Active afterwards is reported as such.\<close>

definition siaquery_route :: "ingress \<Rightarrow> nbr_id \<Rightarrow> eigrp_route_descriptor \<Rightarrow> eigrp_router \<Rightarrow> eigrp_router option" where
  "siaquery_route G n q R =
     (case eigrp_topology_table_lookup (table R) (dest q) of
        None \<Rightarrow> Some R
      | Some pd \<Rightarrow>
          (case received_event G (if state pd = EIGRP_FSM_STATE_PASSIVE then EIGRP_OPC_QUERY else EIGRP_OPC_SIAQUERY) n q (rt_metric q) R pd of
             None \<Rightarrow> None
           | Some R \<Rightarrow>
               (case eigrp_topology_table_lookup (table R) (dest q) of
                  None \<Rightarrow> Some R
                | Some pd \<Rightarrow>
                    if state pd \<noteq> EIGRP_FSM_STATE_PASSIVE
                    then map_option (\<lambda>t. R\<lparr>topo := t\<rparr>) (eigrp_siareply_send (topo R) n pd True)
                    else Some R)))"

subsection \<open>QUERY\<close>

definition eigrp_query_unknown_reply_send :: "nat \<Rightarrow> eigrp_topo \<Rightarrow> nbr_id \<Rightarrow> eigrp_route_descriptor \<Rightarrow> eigrp_topo option" where
  "eigrp_query_unknown_reply_send nid t n q =
     (let pd = eigrp_topology_prefix_create\<lparr>destination := eigrp_prefix_normalize (dest q)\<rparr>
      in case eigrp_topology_route_create (alloc_ok t Alloc_route) nid (nbr_ei (nbrs t n)) of
           None \<Rightarrow> None
         | Some r \<Rightarrow>
             eigrp_reply_send_route t (Some n) pd
               (Some (r\<lparr>rt_type := rt_type q, dest := dest q, rt_prefix := Some (destination pd), adv_router := Some n,
                        rt_metric := (rt_metric q)\<lparr>delay := ucast EIGRP_MAX_METRIC, metric_flags := 0\<rparr>\<rparr>))
               (WORK_F_OWN_PREFIX OR WORK_F_OWN_ROUTE))"

definition EIGRP_TOPOLOGY_TYPE_REMOTE :: u8 where "EIGRP_TOPOLOGY_TYPE_REMOTE = 1"

definition classic_external :: "ingress \<Rightarrow> eigrp_route_descriptor \<Rightarrow> bool" where
  "classic_external G q \<longleftrightarrow> rt_type q = classic_external_tlv_type (vectors G) \<or> rt_type q = EIGRP_TLV_MP_EXT"

text \<open>The destination a QUERY for an unknown prefix creates: unreachable, Passive, without a successor.\<close>

definition unknown_prefix :: "ingress \<Rightarrow> eigrp_route_descriptor \<Rightarrow> eigrp_prefix_descriptor" where
  "unknown_prefix G q =
     (let pd = eigrp_topology_prefix_create\<lparr>destination := eigrp_prefix_normalize (dest q), state := EIGRP_FSM_STATE_PASSIVE,
            nt := (if classic_external G q then EIGRP_TOPOLOGY_TYPE_REMOTE_EXTERNAL else EIGRP_TOPOLOGY_TYPE_REMOTE)\<rparr>
      in pd\<lparr>pd_reported_metric := (pd_reported_metric pd)\<lparr>delay := ucast EIGRP_MAX_METRIC\<rparr>\<rparr>)"

definition eigrp_query_unknown_route_record ::
    "ingress \<Rightarrow> nbr_id \<Rightarrow> eigrp_route_descriptor \<Rightarrow> eigrp_prefix_descriptor option \<Rightarrow> eigrp_router \<Rightarrow> eigrp_router option" where
  "eigrp_query_unknown_route_record G n q prefix R =
     (if nbr_ei (nbrs (topo R) n) = None \<or> delay (rt_metric q) = ucast EIGRP_MAX_METRIC \<or> delay (rt_metric q) = EIGRP_METRIC_MAX
         \<or> filter_in G (dest q) \<or> \<not> eigrp_nbr_route_admit G (topo R) n (dest q) (rt_metric q)
      then Some R
      else
        let pd = (case prefix of Some pd \<Rightarrow> pd | None \<Rightarrow> unknown_prefix G q)
        in case eigrp_prefix_descriptor_lookup pd (Some n) of
             Some _ \<Rightarrow>
               let (pd1, r) = route_received pd n q
               in (case eigrp_topology_update_distance (topo R) pd1
                          \<lparr>packet_type = 0, msg_adv_router = Some n, msg_route = Some r,
                           data_type = (if classic_external G q then EIGRP_EXT else EIGRP_INT), metrics = rt_metric q,
                           change = METRIC_DECREASE, transient_route = False\<rparr> of
                     None \<Rightarrow> None
                   | Some (_, t, pd', _) \<Rightarrow> Some (R\<lparr>topo := t, table := table_put pd' (table R)\<rparr>))
           | None \<Rightarrow>
               let r = q\<lparr>adv_router := Some n, rt_prefix := Some (destination pd), reported_metric := rt_metric q,
                         reported_distance := ucast (eigrp_metric_calculate (inst (topo R)) (rt_metric q))\<rparr>
               in (case route_total (topo R) r of
                     None \<Rightarrow> None
                   | Some r \<Rightarrow>
                       (case eigrp_topology_route_insert (topo R) pd r True of
                          (False, _, _) \<Rightarrow> Some R
                        | (True, t, pd') \<Rightarrow>
                            Some (R\<lparr>topo := t,
                                    table := (if prefix = None then eigrp_prefix_descriptor_add (table R) pd'
                                              else table_put pd' (table R))\<rparr>))))"

text \<open>A destination that only retains what QUERYs said is as good as unknown.\<close>

definition query_retained :: "eigrp_prefix_descriptor \<Rightarrow> bool" where
  "query_retained pd \<longleftrightarrow> state pd = EIGRP_FSM_STATE_PASSIVE \<and> pd_distance pd = EIGRP_MAX_METRIC \<and> fdistance pd = EIGRP_MAX_METRIC
     \<and> delay (pd_reported_metric pd) = ucast EIGRP_MAX_METRIC"

definition query_route :: "ingress \<Rightarrow> nbr_id \<Rightarrow> eigrp_route_descriptor \<Rightarrow> eigrp_router \<Rightarrow> eigrp_router option" where
  "query_route G n q R =
     (case summary_query_route G (dest q) of
        Some (sp, sr) \<Rightarrow>
          map_option (\<lambda>t. R\<lparr>topo := t\<rparr>)
            (eigrp_reply_send_route (topo R) (Some n) sp (Some sr) (WORK_F_OWN_PREFIX OR WORK_F_OWN_ROUTE))
      | None \<Rightarrow>
          let prefix = eigrp_topology_table_lookup (table R) (dest q)
          in case prefix of
               Some pd \<Rightarrow>
                 if query_retained pd then
                   (case eigrp_query_unknown_reply_send (next_rid R) (topo R) n q of
                      None \<Rightarrow> None
                    | Some t \<Rightarrow> eigrp_query_unknown_route_record G n q prefix (R\<lparr>topo := t, next_rid := next_rid R + 1\<rparr>))
                 else received_event G EIGRP_OPC_QUERY n q (filtered_metric G q) R pd
             | None \<Rightarrow>
                 (case eigrp_query_unknown_reply_send (next_rid R) (topo R) n q of
                    None \<Rightarrow> None
                  | Some t \<Rightarrow> eigrp_query_unknown_route_record G n q None (R\<lparr>topo := t, next_rid := next_rid R + 1\<rparr>)))"

subsection \<open>Packets\<close>

text \<open>
  The loop over the TLVs of a packet.  When the decoder gives no route, the SIA receivers leave the loop (\<open>brk\<close>), the others
  go on if bytes were consumed and otherwise return at once (the result \<open>False\<close>).  The fuel is the number of bytes left.
\<close>

fun receive_loop ::
    "(eigrp_router \<Rightarrow> bool) \<Rightarrow> bool \<Rightarrow> route_decode \<Rightarrow> (eigrp_route_descriptor \<Rightarrow> eigrp_router \<Rightarrow> eigrp_router option)
     \<Rightarrow> nat \<Rightarrow> eigrp_stream \<Rightarrow> eigrp_router \<Rightarrow> (bool \<times> eigrp_router) option" where
  "receive_loop cont brk decode step 0 pkt R =
     (if st_getp pkt < st_endp pkt \<and> cont R then None else Some (True, R))"
| "receive_loop cont brk decode step (Suc fuel) pkt R =
     (if \<not> (st_getp pkt < st_endp pkt \<and> cont R) then Some (True, R)
      else case decode (next_rid R) pkt of
             None \<Rightarrow> None
           | Some (None, pkt') \<Rightarrow>
               if brk then Some (True, R)
               else if st_getp pkt' = st_getp pkt then Some (False, R)
               else receive_loop cont brk decode step fuel pkt' (R\<lparr>next_rid := next_rid R + 1\<rparr>)
           | Some (Some q, pkt') \<Rightarrow>
               (case step q (R\<lparr>next_rid := next_rid R + 1\<rparr>) of
                  None \<Rightarrow> None
                | Some R \<Rightarrow> receive_loop cont brk decode step fuel pkt' R))"

definition packet_received :: "nbr_id \<Rightarrow> u32 \<Rightarrow> eigrp_router \<Rightarrow> eigrp_router" where
  "packet_received n seq R = R\<lparr>recv_sequence_number := (recv_sequence_number R)(n := seq)\<rparr>"

definition eigrp_hello_send_ack :: "nbr_id \<Rightarrow> eigrp_router \<Rightarrow> eigrp_router" where
  "eigrp_hello_send_ack n R = R\<lparr>acks := acks R @ [n]\<rparr>"

definition send_all :: "eigrp_router \<Rightarrow> intf_id option \<Rightarrow> eigrp_router option" where
  "send_all R exc = (case eigrp_query_send_all R of None \<Rightarrow> None | Some R \<Rightarrow> update_send_all R exc)"

definition eigrp_reply_receive ::
    "ingress \<Rightarrow> route_decode \<Rightarrow> nbr_id \<Rightarrow> u32 \<Rightarrow> intf_id option \<Rightarrow> eigrp_stream \<Rightarrow> eigrp_router \<Rightarrow> eigrp_router option" where
  "eigrp_reply_receive G decode n seq ei pkt R =
     (case receive_loop (\<lambda>_. True) False decode (reply_route G n) (length (unread pkt)) pkt
             (eigrp_hello_send_ack n (packet_received n seq R)) of
        None \<Rightarrow> None
      | Some (False, R) \<Rightarrow> Some R
      | Some (True, R) \<Rightarrow> send_all R ei)"

definition eigrp_siareply_receive ::
    "ingress \<Rightarrow> route_decode \<Rightarrow> nbr_id \<Rightarrow> u32 \<Rightarrow> eigrp_stream \<Rightarrow> eigrp_router \<Rightarrow> eigrp_router option" where
  "eigrp_siareply_receive G decode n seq pkt R =
     map_option snd (receive_loop (\<lambda>_. True) True decode (siareply_route G n) (length (unread pkt)) pkt
                       (eigrp_hello_send_ack n (packet_received n seq R)))"

definition eigrp_siaquery_receive ::
    "ingress \<Rightarrow> route_decode \<Rightarrow> nbr_id \<Rightarrow> u32 \<Rightarrow> eigrp_stream \<Rightarrow> eigrp_router \<Rightarrow> eigrp_router option" where
  "eigrp_siaquery_receive G decode n seq pkt R =
     map_option snd (receive_loop (\<lambda>_. True) True decode (siaquery_route G n) (length (unread pkt)) pkt
                       (eigrp_hello_send_ack n (packet_received n seq R)))"

definition eigrp_query_receive ::
    "ingress \<Rightarrow> route_decode \<Rightarrow> nbr_id \<Rightarrow> u32 \<Rightarrow> eigrp_stream \<Rightarrow> eigrp_router \<Rightarrow> eigrp_router option" where
  "eigrp_query_receive G decode n seq pkt R =
     (case receive_loop (\<lambda>R. \<not> limit_cleanup_pending G (topo R) n) False decode (query_route G n) (length (unread pkt)) pkt
             (packet_received n seq R) of
        None \<Rightarrow> None
      | Some (False, R) \<Rightarrow> Some R
      | Some (True, R) \<Rightarrow> send_all (eigrp_hello_send_ack n R) (nbr_ei (nbrs (topo R) n)))"

subsection \<open>The router's invariant\<close>

definition rids_below :: "nat \<Rightarrow> eigrp_prefix_descriptor list \<Rightarrow> bool" where
  "rids_below k pds \<longleftrightarrow> (\<forall>pd\<in>set pds. \<forall>i\<in>set (map rid (eigrp_topology_routes pd)). i < k)"

definition topology_ok :: "eigrp_prefix_descriptor list \<Rightarrow> bool" where
  "topology_ok pds \<longleftrightarrow> distinct (map destination pds) \<and> (\<forall>pd\<in>set pds. dual_inv pd)"

definition router_ok :: "eigrp_router \<Rightarrow> bool" where
  "router_ok R \<longleftrightarrow> topology_ok (table R) \<and> rids_below (next_rid R) (table R)"

definition host_ok :: "nbr_id \<Rightarrow> eigrp_topo \<Rightarrow> bool" where
  "host_ok n t \<longleftrightarrow> memory_ok t \<and> links_ok t \<and> nbr_ei (nbrs t n) \<noteq> None"

lemma host_ok_same: "same_host t t' \<Longrightarrow> host_ok n t' = host_ok n t"
  using same_host_ok by (auto simp: host_ok_def same_host_def)

lemma rids_below_mono: "rids_below k pds \<Longrightarrow> k \<le> l \<Longrightarrow> rids_below l pds"
  unfolding rids_below_def using less_le_trans by blast

lemma table_put_ok:
  assumes "topology_ok pds" and "rids_below k pds" and "dual_inv pd" and "\<forall>i\<in>set (map rid (eigrp_topology_routes pd)). i < k"
  shows "topology_ok (table_put pd pds)" "rids_below k (table_put pd pds)"
proof -
  have "map destination (table_put pd pds) = map destination pds" by (simp add: table_put_def)
  moreover have "\<forall>x\<in>set (table_put pd pds). dual_inv x" using assms(1,3) by (auto simp: topology_ok_def table_put_def)
  ultimately show "topology_ok (table_put pd pds)" using assms(1) by (simp only: topology_ok_def)
  show "rids_below k (table_put pd pds)" using assms(2,4) by (auto simp: rids_below_def table_put_def)
qed

lemma table_lookup_mem: "eigrp_topology_table_lookup pds p = Some pd \<Longrightarrow> pd \<in> set pds"
  by (auto simp: eigrp_topology_table_lookup_def split: option.splits dest: find_Some_set)

lemma dual_inv_queues: "dual_inv pd \<Longrightarrow> queues_ok pd"
  by (simp add: dual_inv_def)

subsection \<open>One event\<close>

text \<open>What the receivers guarantee about the message: a new descriptor has a new identity.\<close>

lemma fsm_event_on_ok:
  assumes R: "topology_ok (table R)" "rids_below (next_rid R) (table R)" and pd: "dual_inv pd1 \<or> queues_ok_for pd1 msg \<and> (\<exists>pd. dual_inv pd \<and> same_but_queues pd pd1)"
    and b: "\<forall>i\<in>set (map rid (eigrp_topology_routes pd1)). i < next_rid R" and r: "msg_rid (next_rid R) msg \<le> next_rid R"
    and ok: "event_ok (next_rid R) (topo R) pd1 msg"
  shows "\<exists>R'. fsm_event_on R pd1 msg = Some R' \<and> router_ok R' \<and> same_host (topo R) (topo R')"
proof -
  obtain t pd' where e: "eigrp_fsm_event (next_rid R) (topo R) pd1 msg = Some (t, pd')" using event_succeeds [OF ok] by blast
  note f = event_frame [OF e]
  have m: "msg_ok (next_rid R) pd1 msg" "queues_ok_for pd1 msg" using ok by (simp_all add: event_ok_def)
  have "dual_inv pd'"
    using pd event_ok_inv [OF _ m(1) e] dual_inv_move [OF _ dual_move_same [OF _ event_move [OF e m(2,1)]]] by blast
  moreover have "\<forall>i\<in>set (map rid (eigrp_topology_routes pd')). i < next_rid R + 1"
    using f(1) b r unfolding rids_within_def by fastforce
  moreover have "rids_below (next_rid R + 1) (table R)" by (rule rids_below_mono [OF R(2)]) simp
  ultimately have "topology_ok (table_put pd' (table R))" "rids_below (next_rid R + 1) (table_put pd' (table R))"
    using table_put_ok [OF R(1)] by blast+
  then show ?thesis using e f(2) by (simp add: fsm_event_on_def router_ok_def)
qed

lemma received_data_type_cases: "received_data_type q = EIGRP_EXT \<or> received_data_type q = EIGRP_INT"
  by (simp add: received_data_type_def)

text \<open>\<open>fresh_rid i R\<close>: the identity \<open>i\<close> has just been taken.\<close>

definition fresh_rid :: "nat \<Rightarrow> eigrp_router \<Rightarrow> bool" where
  "fresh_rid i R \<longleftrightarrow> topology_ok (table R) \<and> rids_below i (table R) \<and> i < next_rid R"

lemma route_received_rids:
  assumes rr: "route_received pd n q = (pd1, r)" and b: "\<forall>i\<in>set (map rid (eigrp_topology_routes pd)). i < rid q"
  shows "map rid (eigrp_topology_routes pd1) = map rid (eigrp_topology_routes pd)" "rid r \<le> rid q"
    "\<forall>x\<in>set (eigrp_topology_routes pd1). rid x = rid r \<longrightarrow> distance x = distance r"
proof -
  have "map rid (eigrp_topology_routes pd1) = map rid (eigrp_topology_routes pd) \<and> rid r \<le> rid q
    \<and> (\<forall>x\<in>set (eigrp_topology_routes pd1). rid x = rid r \<longrightarrow> distance x = distance r)"
  proof (cases "eigrp_prefix_descriptor_lookup pd (Some n)")
    case None
    then show ?thesis using rr b by (auto simp: route_received_def)
  next
    case (Some x)
    have w: "map rid (queue_write y rs) = map rid rs" for y rs by (simp add: queue_write_def)
    have r: "rid r = rid x" and pd1: "pd1 = pd_write pd r" using rr Some by (auto simp: route_received_def Let_def)
    have "rid x < rid q" using lookup_stored [OF Some] b by simp
    moreover have "y = r" if "y \<in> set (eigrp_topology_routes (pd_write pd r))" "rid y = rid r" for y
      using that by (auto simp: pd_write_def eigrp_topology_routes_def dest!: queue_write_set)
    ultimately show ?thesis using r by (auto simp: pd1 pd_write_def eigrp_topology_routes_def w)
  qed
  then show "map rid (eigrp_topology_routes pd1) = map rid (eigrp_topology_routes pd)" "rid r \<le> rid q"
    "\<forall>x\<in>set (eigrp_topology_routes pd1). rid x = rid r \<longrightarrow> distance x = distance r" by auto
qed

lemma route_event_ok:
  assumes R: "fresh_rid (rid q) R" and h: "host_ok n (topo R)" and pd: "pd \<in> set (table R)"
    and rr: "route_received pd n q = (pd1, r)"
    and msg: "msg_route msg = Some r" "msg_adv_router msg = Some n" "data_type msg \<noteq> EIGRP_CONNECTED"
    and tr: "transient_route msg \<Longrightarrow> eigrp_prefix_descriptor_lookup pd (Some n) = None
      \<and> (state pd = EIGRP_FSM_STATE_PASSIVE \<longrightarrow> eigrp_topology_routes pd \<noteq> [])"
  shows "\<exists>R'. fsm_event_on R pd1 msg = Some R' \<and> router_ok R' \<and> same_host (topo R) (topo R')"
proof -
  have i: "dual_inv pd" and b: "\<forall>i\<in>set (map rid (eigrp_topology_routes pd)). i < rid q" and l: "rid q < next_rid R"
    using R pd by (auto simp: fresh_rid_def topology_ok_def rids_below_def)
  have q: "queues_ok_for pd1 msg" "same_but_queues pd pd1"
    using route_received_ok [OF dual_inv_queues [OF i] rr msg(1)] tr by blast+
  note rc = route_received_rids [OF rr b]
  have rids: "set (map rid (eigrp_topology_routes pd1)) = set (map rid (eigrp_topology_routes pd))" using rc(1) by (simp only:)
  have mr: "rid r \<le> rid q" and cons: "msg_consistent pd1 msg" using rc(2,3) msg(1) by (simp_all add: msg_consistent_def)
  have pas: "eigrp_topology_routes pd1 = [] \<longleftrightarrow> eigrp_topology_routes pd = []" using rc(1) by (metis map_is_Nil_conv)
  have "event_ok (next_rid R) (topo R) pd1 msg"
    using h q(1) cons msg tr pas same_but_queuesD(8) [OF q(2)]
    by (auto simp: event_ok_def host_ok_def msg_linked_def transient_ok_def msg_ok_def)
  moreover have "rids_below (next_rid R) (table R)" using R rids_below_mono [of "rid q" "table R" "next_rid R"] by (simp add: fresh_rid_def)
  ultimately show ?thesis using R q i b l mr rids msg(1) by (intro fsm_event_on_ok) (auto simp: fresh_rid_def msg_rid_def)
qed

lemma received_event_ok:
  assumes R: "fresh_rid (rid q) R" and h: "host_ok n (topo R)" and pd: "pd \<in> set (table R)"
    and ne: "state pd = EIGRP_FSM_STATE_PASSIVE \<longrightarrow> eigrp_topology_routes pd \<noteq> []"
  shows "\<exists>R'. received_event G opc n q m R pd = Some R' \<and> router_ok R' \<and> same_host (topo R) (topo R')"
proof -
  obtain pd1 r where rr: "route_received pd n q = (pd1, r)" by fastforce
  have dt: "received_data_type q \<noteq> EIGRP_CONNECTED" using received_data_type_cases [of q] by (auto simp: route_type_consts)
  show ?thesis unfolding received_event_def rr Let_def prod.case by (rule route_event_ok [OF R h pd rr]) (use ne dt in auto)
qed

lemma reply_route_ok:
  assumes R: "fresh_rid (rid q) R" and h: "host_ok n (topo R)"
  shows "\<exists>R'. reply_route G n q R = Some R' \<and> router_ok R' \<and> same_host (topo R) (topo R')"
proof -
  have "router_ok R" using R rids_below_mono [of "rid q" "table R" "next_rid R"] by (simp add: fresh_rid_def router_ok_def)
  then show ?thesis using received_event_ok [OF R h] table_lookup_mem
    by (auto simp: reply_route_def split: option.split)
qed

lemma routes_sia_reply: "eigrp_topology_routes (eigrp_fsm_sia_reply_received pd (Some n)) = eigrp_topology_routes pd"
  by (simp add: eigrp_fsm_sia_reply_received_def eigrp_topology_routes_def)

lemma siareply_route_ok:
  assumes R: "fresh_rid (rid q) R" and h: "host_ok n (topo R)"
  shows "\<exists>R'. siareply_route G n q R = Some R' \<and> router_ok R' \<and> same_host (topo R) (topo R')"
proof -
  have R': "router_ok R" and rb: "rids_below (next_rid R) (table R)"
    using R rids_below_mono [of "rid q" "table R" "next_rid R"] by (simp_all add: fresh_rid_def router_ok_def)
  have "\<exists>R'. siareply_route G n q R = Some R' \<and> router_ok R' \<and> same_host (topo R) (topo R')"
    if pd: "eigrp_topology_table_lookup (table R) (dest q) = Some pd" and st: "state pd \<noteq> EIGRP_FSM_STATE_PASSIVE"
      and p: "eigrp_fsm_reply_status_pending pd (Some n)" for pd
  proof -
    have m: "pd \<in> set (table R)" by (rule table_lookup_mem [OF pd])
    have i: "dual_inv pd" and b: "\<forall>i\<in>set (map rid (eigrp_topology_routes pd)). i < rid q"
      using R m by (auto simp: fresh_rid_def topology_ok_def rids_below_def)
    show ?thesis
    proof (cases "metric_flags (rt_metric q) AND EIGRP_OPAQUE_ACTIVE = 0")
      case False
      have "\<forall>i\<in>set (map rid (eigrp_topology_routes pd)). i < next_rid R" using b R by (auto simp: fresh_rid_def)
      then have "router_ok (R\<lparr>table := table_put (eigrp_fsm_sia_reply_received pd (Some n)) (table R)\<rparr>)"
        using table_put_ok [OF _ rb sia_reply_ok [OF i, of "Some n"]] R b routes_sia_reply [of pd n]
        by (auto simp: router_ok_def fresh_rid_def)
      then show ?thesis using False pd st p by (simp add: siareply_route_def)
    next
      case True
      let ?r = "case eigrp_prefix_descriptor_lookup pd (Some n) of Some r \<Rightarrow> r
        | None \<Rightarrow> q\<lparr>adv_router := Some n, rt_prefix := Some (destination pd)\<rparr>"
      let ?msg = "\<lparr>packet_type = EIGRP_OPC_REPLY, msg_adv_router = Some n, msg_route = Some ?r, data_type = received_data_type q,
        metrics = rt_metric q, change = METRIC_DECREASE, transient_route = (eigrp_prefix_descriptor_lookup pd (Some n) = None
          \<and> \<not> eigrp_nbr_route_admit G (topo R) n (destination pd) (rt_metric q))\<rparr>"
      have dt: "received_data_type q \<noteq> EIGRP_CONNECTED" using received_data_type_cases [of q] by (auto simp: route_type_consts)
      have d: "distinct (map rid (eigrp_topology_routes pd))" using dual_inv_queues [OF i] by (simp add: queues_ok_def)
      have "rid ?r \<le> rid q" using b by (auto split: option.split dest!: lookup_stored)
      moreover have "msg_consistent pd ?msg" unfolding msg_consistent_def
        using b distinct_map_eq [OF d] by (auto split: option.split dest!: lookup_stored)
      ultimately have "\<exists>R'. fsm_event_on R pd ?msg = Some R' \<and> router_ok R' \<and> same_host (topo R) (topo R')"
        using R h i b st rb dt queues_ok_forI [OF dual_inv_queues [OF i]]
        by (intro fsm_event_on_ok)
          (auto simp: fresh_rid_def msg_rid_def event_ok_def host_ok_def msg_linked_def transient_ok_def msg_ok_def)
      then show ?thesis using True pd st p by (simp add: siareply_route_def Let_def)
    qed
  qed
  then show ?thesis using R' by (auto simp: siareply_route_def split: option.split)
qed


subsection \<open>The packet loop\<close>

text \<open>What a receiver needs of the neighbour's decoder.\<close>

locale route_decoder =
  fixes decode :: route_decode
  assumes total: "stream_ok s \<Longrightarrow> decodes s (decode i s) (\<lambda>q. rid q = i)"
begin

lemma loop_ok:
  assumes step: "\<And>q R. fresh_rid (rid q) R \<Longrightarrow> host_ok n (topo R)
      \<Longrightarrow> \<exists>R'. step q R = Some R' \<and> router_ok R' \<and> same_host (topo R) (topo R')"
    and "stream_ok s" and "router_ok R" and "host_ok n (topo R)" and "length (unread s) \<le> fuel"
  shows "\<exists>b R'. receive_loop cont brk decode step fuel s R = Some (b, R') \<and> router_ok R' \<and> same_host (topo R) (topo R')"
  using assms(2-)
proof (induction fuel arbitrary: s R)
  case 0
  then show ?case by (auto simp: length_unread)
next
  case (Suc fuel)
  show ?case
  proof (cases "st_getp s < st_endp s \<and> cont R")
    case False
    then show ?thesis using Suc.prems by auto
  next
    case True
    then have "unread s \<noteq> []" using length_unread [OF Suc.prems(1)] by auto
    then obtain r k where d: "decode (next_rid R) s = Some (r, advance s k)" and k: "k \<le> length (unread s)" "0 < k"
      and r: "\<And>q. r = Some q \<Longrightarrow> rid q = next_rid R"
      using total [OF Suc.prems(1), of "next_rid R"] by (auto simp: decodes_def)
    have s': "stream_ok (advance s k)" "length (unread (advance s k)) \<le> fuel" "st_getp (advance s k) \<noteq> st_getp s"
      using advance_ok [OF Suc.prems(1) k(1)] k Suc.prems(4) by auto
    let ?R = "R\<lparr>next_rid := next_rid R + 1\<rparr>"
    have R': "router_ok ?R" "host_ok n (topo ?R)"
      using Suc.prems(2,3) rids_below_mono [of "next_rid R" "table R" "next_rid R + 1"] by (simp_all add: router_ok_def)
    show ?thesis
    proof (cases r)
      case None
      then show ?thesis using True d s' R' Suc.IH [OF s'(1) R' s'(2)] Suc.prems(2) by auto
    next
      case (Some q)
      have "fresh_rid (rid q) ?R" using r [OF Some] Suc.prems(2) by (simp add: fresh_rid_def router_ok_def)
      then obtain R1 where R1: "step q ?R = Some R1" "router_ok R1" "same_host (topo R) (topo R1)" using step [of q ?R] R'(2) by auto
      then have "host_ok n (topo R1)" using host_ok_same Suc.prems(3) by blast
      then obtain b R2 where "receive_loop cont brk decode step fuel (advance s k) R1 = Some (b, R2)" "router_ok R2" "same_host (topo R1) (topo R2)"
        using Suc.IH [OF s'(1) R1(2) _ s'(2)] by blast
      then show ?thesis using True d Some R1 same_host_trans by auto
    qed
  qed
qed

end

lemma send_all_ok:
  assumes "router_ok R" and "memory_ok (topo R)"
  shows "\<exists>R'. send_all R exc = Some R' \<and> router_ok R'"
proof -
  have w: "\<exists>w. eigrp_packetizer_work_create t opc = Some w" if "memory_ok t" for t opc
    using that by (simp add: eigrp_packetizer_work_create_def memory_ok_def)
  have "\<exists>R1. eigrp_query_send_all R = Some R1 \<and> router_ok R1 \<and> memory_ok (topo R1)"
    using assms w [OF assms(2), of EIGRP_OPC_QUERY] by (auto simp: eigrp_query_send_all_def router_ok_def memory_ok_def)
  then obtain R1 where R1: "eigrp_query_send_all R = Some R1" "router_ok R1" "memory_ok (topo R1)" by blast
  then show ?thesis using sends_succeed(1) [OF R1(3), of exc] by (auto simp: send_all_def update_send_all_def router_ok_def)
qed

context route_decoder
begin

lemma reply_receive_ok:
  assumes "stream_ok pkt" and "router_ok R" and "host_ok n (topo R)"
  shows "\<exists>R'. eigrp_reply_receive G decode n seq ei pkt R = Some R' \<and> router_ok R'"
proof -
  let ?R = "eigrp_hello_send_ack n (packet_received n seq R)"
  have R: "router_ok ?R" "host_ok n (topo ?R)" using assms by (simp_all add: router_ok_def eigrp_hello_send_ack_def packet_received_def)
  obtain b R' where l: "receive_loop (\<lambda>_. True) False decode (reply_route G n) (length (unread pkt)) pkt ?R = Some (b, R')"
    "router_ok R'" "same_host (topo ?R) (topo R')" 
    using loop_ok [where step = "reply_route G n" and n = n and fuel = "length (unread pkt)", OF reply_route_ok assms(1) R] by blast
  then have "memory_ok (topo R')" using R(2) host_ok_same by (auto simp: host_ok_def)
  then show ?thesis using l(1,2) send_all_ok [OF l(2)] by (cases b) (simp_all add: eigrp_reply_receive_def)
qed

lemma siareply_receive_ok:
  assumes "stream_ok pkt" and "router_ok R" and "host_ok n (topo R)"
  shows "\<exists>R'. eigrp_siareply_receive G decode n seq pkt R = Some R' \<and> router_ok R'"
proof -
  let ?R = "eigrp_hello_send_ack n (packet_received n seq R)"
  have R: "router_ok ?R" "host_ok n (topo ?R)" using assms by (simp_all add: router_ok_def eigrp_hello_send_ack_def packet_received_def)
  show ?thesis 
    using loop_ok [where step = "siareply_route G n" and n = n and fuel = "length (unread pkt)" and cont = "\<lambda>_. True" and brk = True,
      OF siareply_route_ok assms(1) R]
    by (auto simp: eigrp_siareply_receive_def)
qed

end

text \<open>Both codecs, for both address families, are such decoders.\<close>

lemma tlv1_sections_ident: "tlv1_decode_sections V ex len r s = (Some q, s') \<Longrightarrow> rid q = rid r \<and> rt_ei q = rt_ei r"
  by (auto simp: tlv1_decode_sections_def Let_def split: prod.splits if_splits)

lemma tlv1_decoder_ident: "eigrp_tlv1_decoder A True i V ei s = Some (Some q, s') \<Longrightarrow> rid q = i \<and> rt_ei q = ei"
  by (auto simp: eigrp_tlv1_decoder_def Let_def eigrp_topology_route_create_def split: prod.splits if_splits option.splits
      dest!: tlv1_sections_ident)

lemma decodes_conj: "decodes s out P \<Longrightarrow> (\<And>q s'. out = Some (Some q, s') \<Longrightarrow> Q q) \<Longrightarrow> decodes s out Q"
  by (auto simp: decodes_def)

lemma tlv2_addpath_ident: "tlv2_addpath_decode V ex n r s = (ok, r', s') \<Longrightarrow> rid r' = rid r \<and> rt_ei r' = rt_ei r"
  by (auto simp: tlv2_addpath_decode_def Let_def split: prod.splits if_splits)

lemma tlv2_extended_ident: "tlv2_extended_loop V ex e r s = Some (ok, r', s') \<Longrightarrow> rid r' = rid r \<and> rt_ei r' = rt_ei r"
proof (induction "e - st_getp s" arbitrary: r s rule: less_induct)
  case less
  obtain c s1 w s2 where g: "eigrp_stream_getc s = (c, s1)" "eigrp_stream_getc s1 = (w, s2)" by fastforce
  obtain ok1 r1 s3 where d: "(if c = EIGRP_TLV2_EXTATTR_ADDPATH then tlv2_addpath_decode V ex (2 * unat w) r s2
      else (True, r, eigrp_stream_set_getp s2 (st_getp s2 + 2 * unat w))) = (ok1, r1, s3)" by (metis prod_cases3)
  have r1: "rid r1 = rid r \<and> rt_ei r1 = rt_ei r" using d tlv2_addpath_ident by (auto split: if_splits)
  have u: "tlv2_extended_loop V ex e r s = (if \<not> st_getp s < e then Some (True, r, s)
      else if e - st_getp s < EIGRP_TLV2_EXTATTR_HEADER_SIZE then Some (False, r, s)
      else if e - st_getp s2 < 2 * unat w then Some (False, r, s2)
      else if \<not> ok1 \<or> st_getp s3 \<noteq> st_getp s2 + 2 * unat w then Some (False, r1, s3)
      else if st_getp s3 \<le> st_getp s then None else tlv2_extended_loop V ex e r1 s3)"
    by (subst tlv2_extended_loop.simps) (simp only: Let_def g d prod.case)
  have "rid r' = rid r1 \<and> rt_ei r' = rt_ei r1" if "tlv2_extended_loop V ex e r1 s3 = Some (ok, r', s')" "st_getp s < e" "\<not> st_getp s3 \<le> st_getp s"
    using less.hyps [of s3 r1] that by simp
  then show ?case using less.prems r1 unfolding u by (auto split: if_splits)
qed

lemma tlv2_extattr_ident: "eigrp_tlv2_extended_decode V s r k ex = Some (n, r', s') \<Longrightarrow> rid r' = rid r \<and> rt_ei r' = rt_ei r"
  unfolding eigrp_tlv2_extended_decode_def by (auto split: if_splits option.splits dest!: tlv2_extended_ident)

lemma tlv2_metric_ident: "eigrp_tlv2_metric_decode V s r ex = Some (n, r', s') \<Longrightarrow> rid r' = rid r \<and> rt_ei r' = rt_ei r"
  unfolding eigrp_tlv2_metric_decode_def Let_def case_prod_beta
  by (simp only: split: if_splits option.splits prod.splits) (auto dest!: tlv2_extattr_ident)


lemma tlv2_sections_ident: "tlv2_decode_sections V ex len src r s = Some (Some q, s') \<Longrightarrow> rid q = rid r \<and> rt_ei q = rt_ei r"
  unfolding tlv2_decode_sections_def Let_def case_prod_beta
  by (auto split: if_splits option.splits prod.splits dest!: tlv2_metric_ident)

lemma tlv2_decoder_ident: "eigrp_tlv2_decoder A True i V ei src s = Some (Some q, s') \<Longrightarrow> rid q = i \<and> rt_ei q = ei"
  unfolding eigrp_tlv2_decoder_def Let_def case_prod_beta eigrp_topology_route_create_def
  by (auto split: if_splits option.splits prod.splits dest!: tlv2_sections_ident)

interpretation classic4: route_decoder "\<lambda>i. eigrp_tlv1_decoder A True i eigrp_ipv4_init ei" for A ei
  by unfold_locales (rule decodes_conj [OF ipv4.tlv1_decoder_total], assumption, simp add: tlv1_decoder_ident)

interpretation classic6: route_decoder "\<lambda>i. eigrp_tlv1_decoder A True i eigrp_ipv6_init ei" for A ei
  by unfold_locales (rule decodes_conj [OF ipv6.tlv1_decoder_total], assumption, simp add: tlv1_decoder_ident)

text \<open>The wide decoder takes the source address of the neighbour, which is of the family of the instance.\<close>

lemma wide4: "ip_afi src = AF_INET \<Longrightarrow> addr_ok src \<Longrightarrow> route_decoder (\<lambda>i. eigrp_tlv2_decoder A True i eigrp_ipv4_init ei src)"
  by unfold_locales (rule decodes_conj [OF ipv4.tlv2_decoder_total], assumption+, simp add: tlv2_decoder_ident)

lemma wide6: "ip_afi src = AF_INET6 \<Longrightarrow> addr_ok src \<Longrightarrow> route_decoder (\<lambda>i. eigrp_tlv2_decoder A True i eigrp_ipv6_init ei src)"
  by unfold_locales (rule decodes_conj [OF ipv6.tlv2_decoder_total], assumption+, simp add: tlv2_decoder_ident)

definition family_decoder :: "allocator \<Rightarrow> intf_id option \<Rightarrow> eigrp_addr \<Rightarrow> route_decode \<Rightarrow> bool" where
  "family_decoder A ei src decode \<longleftrightarrow> (\<exists>(V, family)\<in>families. ip_afi src = family \<and> addr_ok src
     \<and> (decode = (\<lambda>i. eigrp_tlv1_decoder A True i V ei) \<or> decode = (\<lambda>i. eigrp_tlv2_decoder A True i V ei src)))"

lemma family_decoders: "family_decoder A ei src decode \<Longrightarrow> route_decoder decode"
  using classic4.route_decoder_axioms classic6.route_decoder_axioms wide4 wide6
  by (auto simp: family_decoder_def families_def)

text \<open>
  C21: Receiving a REPLY or an SIA-REPLY is safe whatever the bytes are: for both route codecs and both address families, the
  receiver ends without a fault (its packet loop consumes bytes in every round), and the topology table is as it should be
  afterwards: every destination satisfies the invariant of the DUAL machine, no two destinations are the same and the
  identities of stored routes are below the next one to be given.
\<close>

theorem reply_receive_total:
  assumes "family_decoder A ei src decode" and "stream_ok pkt" and "router_ok R" and "host_ok n (topo R)"
  shows "(\<exists>R'. eigrp_reply_receive G decode n seq ei pkt R = Some R' \<and> router_ok R')
    \<and> (\<exists>R'. eigrp_siareply_receive G decode n seq pkt R = Some R' \<and> router_ok R')"
  using route_decoder.reply_receive_ok [OF family_decoders [OF assms(1)] assms(2-4)]
    route_decoder.siareply_receive_ok [OF family_decoders [OF assms(1)] assms(2-4)] by blast

definition sample_ingress :: ingress where
  "sample_ingress = \<lparr>vectors = eigrp_ipv4_init, filter_in = (\<lambda>_. False), prefix_admit = (\<lambda>_ _ _. True),
     limit_cleanup_pending = (\<lambda>_ _. False), summary_query_route = (\<lambda>_. None)\<rparr>"

definition sample_router :: eigrp_router where
  "sample_router = \<lparr>topo = sample_topo, table = [sample_waiting EIGRP_FSM_STATE_ACTIVE_1], next_rid = 4, acks = [],
     recv_sequence_number = (\<lambda>_. 0)\<rparr>"

lemma sample_router_ok: "router_ok sample_router" "host_ok 2 (topo sample_router)"
proof -
  have "query_origin (sample_waiting EIGRP_FSM_STATE_ACTIVE_1) = None" by (simp add: sample_waiting_def sample_pd_defs)
  then have "dual_inv (sample_waiting EIGRP_FSM_STATE_ACTIVE_1)"
    using sample_waiting_ok(1) by (simp add: dual_inv_def rij_ok_def sample_waiting_ok(3,4))
  moreover have "\<forall>r\<in>set (eigrp_topology_routes (sample_waiting s)). rid r < 4" for s
    by (simp add: sample_waiting_def sample_pd_defs eigrp_topology_routes_def)
  ultimately show "router_ok sample_router" by (simp add: router_ok_def topology_ok_def rids_below_def sample_router_def)
  show "host_ok 2 (topo sample_router)" using sample_ok(1,2) by (simp add: host_ok_def sample_router_def) (simp add: sample_topo_def)
qed

theorem reply_receive_total_witness:
  "\<exists>R'. eigrp_reply_receive sample_ingress (\<lambda>i. eigrp_tlv1_decoder zero_alloc True i eigrp_ipv4_init (Some 1)) 2 7 (Some 1)
      sample_stream sample_router = Some R' \<and> router_ok R'"
proof -
  have "family_decoder zero_alloc (Some 1) (zero_addr\<lparr>ip_afi := AF_INET\<rparr>) (\<lambda>i. eigrp_tlv1_decoder zero_alloc True i eigrp_ipv4_init (Some 1))"
    by (auto simp: family_decoder_def families_def zero_addr_def addr_ok_def)
  then show ?thesis using reply_receive_total [OF _ sample_stream_ok sample_router_ok] by blast
qed

subsection \<open>QUERYs for unknown destinations\<close>

lemma table_key_normalize:
  "address_ok (pfx_address p) \<Longrightarrow> eigrp_topology_table_key (eigrp_prefix_normalize p) = eigrp_topology_table_key p"
  by (simp add: eigrp_topology_table_key_def normalize_idempotent)

text \<open>The REPLY to a QUERY for an unknown destination.\<close>

definition unreachable_reply :: "nbr_id \<Rightarrow> eigrp_route_descriptor \<Rightarrow> eigrp_packetizer_work \<Rightarrow> bool" where
  "unreachable_reply n q w \<longleftrightarrow> wk_opcode w = EIGRP_OPC_REPLY \<and> wk_nbr w = Some n
     \<and> (\<exists>r. wk_route w = Some r \<and> dest r = dest q \<and> delay (rt_metric r) = ucast EIGRP_MAX_METRIC)"

lemma unknown_reply:
  assumes "memory_ok t"
  obtains w where "eigrp_query_unknown_reply_send nid t n q = Some (if work_open t then t\<lparr>work_queue := work_queue t @ [w]\<rparr> else t)"
    "unreachable_reply n q w"
proof -
  obtain r where r: "eigrp_topology_route_create True nid (nbr_ei (nbrs t n)) = Some r" by (simp add: eigrp_topology_route_create_def)
  let ?d = "eigrp_prefix_normalize (dest q)"
  show thesis
    by (rule that [of "\<lparr>wk_opcode = EIGRP_OPC_REPLY, wk_prefix = Some ?d, wk_route = Some (r\<lparr>rt_type := rt_type q, dest := dest q,
        rt_prefix := Some ?d, adv_router := Some n, rt_metric := (rt_metric q)\<lparr>delay := ucast EIGRP_MAX_METRIC, metric_flags := 0\<rparr>\<rparr>),
        wk_exception = None, wk_nbr = Some n, wk_flags = WORK_F_OWN_PREFIX OR WORK_F_OWN_ROUTE\<rparr>"])
      (use assms r in \<open>simp_all add: eigrp_query_unknown_reply_send_def eigrp_reply_send_route_def eigrp_packetizer_work_create_def
        eigrp_packetizer_enqueue_def eigrp_packetizer_opcode_valid_def memory_ok_def Let_def unreachable_reply_def\<close>)
qed

lemma unknown_prefix_fields:
  "destination (unknown_prefix G q) = eigrp_prefix_normalize (dest q)" "query_retained (unknown_prefix G q)"
  "eigrp_prefix_descriptor_lookup (unknown_prefix G q) n = None"
  by (simp_all add: unknown_prefix_def eigrp_topology_prefix_create_def query_retained_def eigrp_prefix_descriptor_lookup_def
      eigrp_topology_routes_def Let_def)

lemma retained_insert: "query_retained (queue_insert pd r) = query_retained pd" "destination (queue_insert pd r) = destination pd"
  by (simp_all add: query_retained_def same_but_queuesD [OF same_but_queues_ops(4)])

lemma unknown_record:
  assumes h: "host_ok n (topo R)" and q: "rt_ei q \<noteq> None" "eigrp_prefix_valid (dest q)" "address_ok (pfx_address (dest q))"
    and l: "eigrp_topology_table_lookup (table R) (dest q) = None"
  shows "\<exists>R'. eigrp_query_unknown_route_record G n q None R = Some R' \<and> same_but_counts (topo R) (topo R')
    \<and> (table R' = table R \<or> (\<exists>pd. table R' = table R @ [pd] \<and> query_retained pd \<and> destination pd = eigrp_prefix_normalize (dest q)))"
proof -
  let ?r = "q\<lparr>adv_router := Some n, rt_prefix := Some (eigrp_prefix_normalize (dest q)), reported_metric := rt_metric q,
      reported_distance := ucast (eigrp_metric_calculate (inst (topo R)) (rt_metric q))\<rparr>"
  obtain i where "rt_ei ?r = Some i" using q(1) by auto
  then have "route_total (topo R) ?r \<noteq> None" using h by (intro route_total_succeeds) (auto simp: host_ok_def)
  then obtain r where r: "route_total (topo R) ?r = Some r" by blast
  obtain ok t' pd' where i: "eigrp_topology_route_insert (topo R) (unknown_prefix G q) r True = (ok, t', pd')" by (metis prod_cases3)
  note f = route_insert_frame [OF i]
  have ok: "ok" using f(3) h by (simp add: host_ok_def memory_ok_def)
  then have pd': "query_retained pd'" "destination pd' = eigrp_prefix_normalize (dest q)"
    using f(4) by (simp_all add: retained_insert unknown_prefix_fields)
  have a: "eigrp_prefix_descriptor_add (table R) pd' = table R @ [pd'\<lparr>table_attached := True\<rparr>]"
  proof -
    have k: "eigrp_topology_table_key (destination pd') = Some (eigrp_prefix_normalize (dest q))"
      using table_key_normalize [OF q(3)] q(2) pd'(2) by (simp add: eigrp_topology_table_key_def)
    have "eigrp_topology_table_lookup (table R) (destination pd') = None"
      using l table_key_normalize [OF q(3)] pd'(2) by (simp add: eigrp_topology_table_lookup_def)
    then show ?thesis using k by (simp add: eigrp_prefix_descriptor_add_def)
  qed
  show ?thesis
    using r i ok f(2) pd' a unknown_prefix_fields [of G q]
    by (auto simp: eigrp_query_unknown_route_record_def Let_def query_retained_def same_but_counts_def)
qed

text \<open>
  A QUERY for a destination the router does not know is answered and elects nothing: exactly one REPLY is queued, to the
  neighbour that asked, with the queried prefix and an infinite delay; the host RIB is not called and no destination is marked
  as changed; at most one destination is added to the table, Passive and unreachable in all its distances, so that later
  QUERYs treat it as unknown too.
\<close>

theorem query_unknown_answered:
  assumes "summary_query_route G (dest q) = None" and "eigrp_topology_table_lookup (table R) (dest q) = None"
    and "host_ok n (topo R)" and "rt_ei q \<noteq> None" and "eigrp_prefix_valid (dest q)" and "address_ok (pfx_address (dest q))"
  shows "\<exists>R'. query_route G n q R = Some R' \<and> rib_calls (topo R') = rib_calls (topo R)
    \<and> topology_changes (topo R') = topology_changes (topo R)
    \<and> (work_open (topo R) \<longrightarrow> (\<exists>w. work_queue (topo R') = work_queue (topo R) @ [w] \<and> unreachable_reply n q w))
    \<and> (table R' = table R \<or> (\<exists>pd. table R' = table R @ [pd] \<and> query_retained pd \<and> destination pd = eigrp_prefix_normalize (dest q)))"
proof -
  obtain w where w: "eigrp_query_unknown_reply_send (next_rid R) (topo R) n q
      = Some (if work_open (topo R) then (topo R)\<lparr>work_queue := work_queue (topo R) @ [w]\<rparr> else topo R)" "unreachable_reply n q w"
    using unknown_reply assms(3) by (metis host_ok_def)
  let ?R = "R\<lparr>topo := if work_open (topo R) then (topo R)\<lparr>work_queue := work_queue (topo R) @ [w]\<rparr> else topo R, next_rid := next_rid R + 1\<rparr>"
  have h: "host_ok n (topo ?R)" using assms(3) by (simp add: host_ok_def memory_ok_def links_ok_def)
  obtain R' where R': "eigrp_query_unknown_route_record G n q None ?R = Some R'" "same_but_counts (topo ?R) (topo R')"
    "table R' = table R \<or> (\<exists>pd. table R' = table R @ [pd] \<and> query_retained pd \<and> destination pd = eigrp_prefix_normalize (dest q))"
    using unknown_record [OF h assms(4-6)] assms(2) by auto
  have e: "topo R' = (topo ?R)\<lparr>nbrs := nbrs (topo R')\<rparr>" using R'(2) by (simp only: same_but_counts_def)
  have "rib_calls (topo R') = rib_calls (topo R)" "topology_changes (topo R') = topology_changes (topo R)"
    "work_open (topo R) \<longrightarrow> work_queue (topo R') = work_queue (topo R) @ [w]" by (subst e, simp)+
  then show ?thesis using R'(1,3) w assms(1,2) by (auto simp: query_route_def)
qed

theorem query_unknown_answered_witness:
  "\<exists>R' w. query_route sample_ingress 2 Eigrp_TLV1.sample_route sample_router = Some R' \<and> rib_calls (topo R') = []
     \<and> work_queue (topo R') = [w] \<and> unreachable_reply 2 Eigrp_TLV1.sample_route w"
proof -
  have "eigrp_topology_table_lookup (table sample_router) (dest Eigrp_TLV1.sample_route) = None"
    "eigrp_prefix_valid (dest Eigrp_TLV1.sample_route)" "address_ok (pfx_address (dest Eigrp_TLV1.sample_route))" by code_simp+
  moreover have "summary_query_route sample_ingress (dest Eigrp_TLV1.sample_route) = None" by (simp add: sample_ingress_def)
  moreover have "rt_ei Eigrp_TLV1.sample_route \<noteq> None" by (simp add: Eigrp_TLV1.sample_route_def)
  moreover have "work_open (topo sample_router)" "work_queue (topo sample_router) = []" "rib_calls (topo sample_router) = []"
    by (simp_all add: sample_router_def sample_topo_def)
  ultimately show ?thesis using query_unknown_answered [OF _ _ sample_router_ok(2), of sample_ingress Eigrp_TLV1.sample_route] by fastforce
qed

end
