(* ===== verification/Eigrp_Loss.thy ===== *)
theory Eigrp_Loss
  imports Eigrp_Receive
begin

text \<open>
  The loss of a neighbour (\<^verbatim>\<open>eigrp_topology_neighbor_down\<close>): every destination forgets it, as the origin of a QUERY, as a
  neighbour that owes a REPLY, and as the source of a usable route.
\<close>

subsection \<open>Loss of a neighbour\<close>

definition neighbor_down_prefix :: "nbr_id \<Rightarrow> eigrp_topo \<Rightarrow> eigrp_prefix_descriptor \<Rightarrow> dual_result" where
  "neighbor_down_prefix n t pd =
     (let pd = (if query_origin pd = Some n then pd\<lparr>query_origin := None\<rparr> else pd)
      in case eigrp_prefix_descriptor_lookup pd (Some n) of
           Some r \<Rightarrow>
             eigrp_fsm_event 0 t pd
               \<lparr>packet_type = (if state pd = EIGRP_FSM_STATE_PASSIVE then EIGRP_OPC_UPDATE else EIGRP_OPC_REPLY),
                msg_adv_router = Some n, msg_route = Some r,
                data_type = (if eigrp_topology_route_external r then EIGRP_EXT else EIGRP_INT),
                metrics = zero_metrics\<lparr>delay := ucast EIGRP_MAX_METRIC\<rparr>, change = METRIC_DECREASE, transient_route = False\<rparr>
         | None \<Rightarrow> eigrp_fsm_neighbor_down t pd n)"

definition eigrp_topology_neighbor_down :: "nbr_id \<Rightarrow> eigrp_router \<Rightarrow> eigrp_router option" where
  "eigrp_topology_neighbor_down n R =
     (case walk_prefixes (neighbor_down_prefix n) (topo R) (table R) of
        None \<Rightarrow> None
      | Some (t, pds) \<Rightarrow> send_all (R\<lparr>topo := t, table := pds\<rparr>) (nbr_ei (nbrs t n)))"

text \<open>The neighbour plays no part in the computation of a destination any more.\<close>

definition forgotten :: "nbr_id \<Rightarrow> eigrp_prefix_descriptor \<Rightarrow> bool" where
  "forgotten n pd \<longleftrightarrow> query_origin pd \<noteq> Some n \<and> (state pd \<noteq> EIGRP_FSM_STATE_PASSIVE \<longrightarrow> n \<notin> rs_neighbor ` set (rij pd))"

lemma remove_forgets:
  assumes "distinct (map rs_neighbor (rij pd))" and "eigrp_fsm_reply_status_remove pd (Some n) = (b, pd')"
  shows "n \<notin> rs_neighbor ` set (rij pd')"
proof (cases "find (\<lambda>s. rs_neighbor s = n) (rij pd)")
  case None
  then show ?thesis using assms by (auto simp: eigrp_fsm_reply_status_remove_def eigrp_fsm_reply_status_lookup_def) (auto simp: find_None_iff)
next
  case (Some s)
  then have s: "s \<in> set (rij pd)" "rs_neighbor s = n" by (auto dest: find_Some_set)
  have "rs_neighbor x \<noteq> n" if "x \<in> set (remove1 s (rij pd))" for x
    using that s assms(1) distinct_map_eq [OF assms(1)] by (auto simp: distinct_map set_remove1_eq)
  then have "n \<notin> rs_neighbor ` set (remove1 s (rij pd))" by blast
  then show ?thesis using Some assms(2) by (auto simp: eigrp_fsm_reply_status_remove_def eigrp_fsm_reply_status_lookup_def)
qed

text \<open>Only a QUERY names an origin.\<close>

lemma start_queries_origin: "start_queries t pd = Some (t', pd') \<Longrightarrow> state pd' \<noteq> EIGRP_FSM_STATE_PASSIVE \<Longrightarrow> query_origin pd' = query_origin pd"
  using start_queries_result(1) [of t pd t' pd'] by (auto simp: settled_def split: if_splits)

lemma fsm_call_origin:
  assumes "fsm_call (NSM (state pd) ev) t pd msg = Some (t', pd')" and "ev \<noteq> EIGRP_FSM_EVENT_Q_FCN" and "ev \<noteq> EIGRP_FSM_EVENT_QACT"
    and a: "state pd' \<noteq> EIGRP_FSM_STATE_PASSIVE"
  shows "query_origin pd' = query_origin pd"
proof (cases "NSM (state pd) ev")
  case Fn_lr
  then show ?thesis using assms(1) a lr_result(1) [of t pd t' pd'] by (simp add: settled_def)
next
  case Fn_lr_fcs
  then show ?thesis using assms(1) a by (auto simp: settled_def elim: lr_fcs_result)
next
  case Fn_keep_state
  then have k: "eigrp_fsm_event_keep_state t pd msg = Some (t', pd')" using assms(1) by simp
  show ?thesis
  proof (cases "state pd = EIGRP_FSM_STATE_PASSIVE")
    case True
    then show ?thesis using keep_state_passive [OF True k] a alike_fields(1) adopt_metric_fields by metis
  next
    case False
    then show ?thesis using k by (auto simp: keep_state_active dest: keep_state_reply_result)
  qed
next
  case Fn_q_fcn
  then show ?thesis using assms(2) by (cases "(state pd, ev)" rule: NSM.cases) auto
next
  case Fn_qact
  then show ?thesis using assms(3) by (cases "(state pd, ev)" rule: NSM.cases) auto
qed (use assms start_queries_origin in \<open>auto simp: eigrp_fsm_event_nq_fcn_def eigrp_fsm_event_lr_fcn_def dest: start_queries_origin\<close>)

text \<open>How a REPLY or an UPDATE is classified.\<close>

lemma event_switch_not_query:
  assumes "event_switch s pd opc ch r = (ev, pd')" and "opc \<noteq> EIGRP_OPC_QUERY"
  shows "ev \<noteq> EIGRP_FSM_EVENT_Q_FCN \<and> ev \<noteq> EIGRP_FSM_EVENT_QACT"
  using assms by (cases s) (auto simp: Let_def split: if_splits prod.splits)

lemma event_switch_reply:
  assumes "event_switch s pd EIGRP_OPC_REPLY ch r = (ev, pd')" and "s \<noteq> EIGRP_FSM_STATE_PASSIVE"
  shows "\<exists>b. eigrp_fsm_reply_status_remove pd (adv_router r) = (b, pd')" "NSM s ev \<noteq> Fn_dinc"
  using assms by (cases s; auto simp: Let_def reply_received_def EIGRP_OPC_REPLY_def EIGRP_OPC_QUERY_def split: if_splits prod.splits)+


lemma select_not_query:
  assumes s: "eigrp_fsm_event_select nid t pd msg = Some (ev, t', pd', msg')" and q: "queues_ok_for pd msg" and m: "msg_ok nid pd msg"
    and p: "packet_type msg \<noteq> EIGRP_OPC_QUERY"
  shows "ev \<noteq> EIGRP_FSM_EVENT_Q_FCN \<and> ev \<noteq> EIGRP_FSM_EVENT_QACT"
  using event_select_result(12) [OF s q m] event_switch_not_query p by blast

lemma select_reply:
  assumes s: "eigrp_fsm_event_select nid t pd msg = Some (ev, t', pd', msg')" and r: "msg_route msg = Some r" "adv_router r = Some n"
    and p: "packet_type msg = EIGRP_OPC_REPLY" and a: "state pd \<noteq> EIGRP_FSM_STATE_PASSIVE" and d: "distinct (map rs_neighbor (rij pd))"
  shows "n \<notin> rs_neighbor ` set (rij pd') \<and> NSM (state pd) ev \<noteq> Fn_dinc"
proof -
  have w: "msg_with_route nid t pd msg = Some msg" using r by (simp add: msg_with_route_def)
  obtain ch pd1 msg2 r2 where u: "eigrp_topology_update_distance t pd msg = Some (ch, t', pd1, msg2)" and r2: "msg_route msg2 = Some r2"
    and e: "event_switch (state pd) pd1 (packet_type msg2) ch r2 = (ev, pd')"
    using s w by (auto simp: eigrp_fsm_event_select_def split: option.splits prod.splits)
  have "adv_router r2 = Some n" "packet_type msg2 = EIGRP_OPC_REPLY" "rij pd1 = rij pd"
    using update_distance_frame(3,7) [OF u] same_but_queuesD(1) [OF update_distance_frame(1) [OF u]] r r2 p by auto
  then show ?thesis using e event_switch_reply [of "state pd" pd1 ch r2 ev pd'] remove_forgets [of pd1 n] a d by auto
qed

lemma event_forgets:
  assumes e: "eigrp_fsm_event nid t pd msg = Some (t', pd')" and i: "dual_inv pd" and m: "msg_ok nid pd msg"
    and r: "msg_route msg = Some r" "adv_router r = Some n" and qo: "query_origin pd \<noteq> Some n"
    and p: "packet_type msg = (if state pd = EIGRP_FSM_STATE_PASSIVE then EIGRP_OPC_UPDATE else EIGRP_OPC_REPLY)"
  shows "forgotten n pd'"
proof (cases "state pd' = EIGRP_FSM_STATE_PASSIVE")
  case True
  then show ?thesis using event_ok_inv [OF i m e] by (simp add: dual_inv_def forgotten_def)
next
  case act: False
  have q: "queues_ok_for pd msg" using queues_ok_forI dual_inv_queues [OF i] by blast
  obtain ev t1 pd1 msg1 where s: "eigrp_fsm_event_select nid t pd msg = Some (ev, t1, pd1, msg1)"
    and c: "if NSM (state pd1) ev = Fn_dinc then eigrp_fsm_event_dinc nid t1 pd1 msg1 = Some (t', pd')
            else fsm_call (NSM (state pd1) ev) t1 pd1 msg1 = Some (t', pd')"
    using e by (auto simp: eigrp_fsm_event_def split: option.splits if_splits)
  note sr = event_select_result [OF s q m]
  have nq: "ev \<noteq> EIGRP_FSM_EVENT_Q_FCN" "ev \<noteq> EIGRP_FSM_EVENT_QACT"
    using select_not_query [OF s q m] p by (auto simp: EIGRP_OPC_UPDATE_def EIGRP_OPC_QUERY_def EIGRP_OPC_REPLY_def)
  have d: "distinct (map rs_neighbor (rij pd))" using i by (simp add: dual_inv_def rij_ok_def)
  have nd: "NSM (state pd1) ev \<noteq> Fn_dinc" and rj: "state pd \<noteq> EIGRP_FSM_STATE_PASSIVE \<Longrightarrow> n \<notin> rs_neighbor ` set (rij pd1)"
    using select_reply [OF s r _ _ d] NSM_no_dinc(3) p sr(3) by (metis)+
  then have call: "fsm_call (NSM (state pd1) ev) t1 pd1 msg1 = Some (t', pd')" using c by simp
  have "query_origin pd' = query_origin pd" using fsm_call_origin [OF call nq act] sr(4) by simp
  moreover have "rij pd' = [] \<or> set (rij pd') \<subseteq> set (rij pd1)" 
  proof -
    have "ev \<in> {EIGRP_FSM_KEEP_STATE, EIGRP_FSM_EVENT_Q_FCN, EIGRP_FSM_EVENT_NQ_FCN}" if "state pd1 = EIGRP_FSM_STATE_PASSIVE"
      using sr(3,12) that event_switch_events(1) by metis
    then show ?thesis using fsm_call_move [OF sr(1) call] act unfolding dual_move_def rij_shrinks_def by blast
  qed
  moreover have "rij pd' = []" if "state pd = EIGRP_FSM_STATE_PASSIVE" using event_move [OF e q m] that act by (simp add: dual_move_def)
  ultimately show ?thesis using rj qo by (cases "state pd = EIGRP_FSM_STATE_PASSIVE") (auto simp: forgotten_def)
qed


subsection \<open>A destination\<close>

lemma neighbor_down_event:
  assumes i: "dual_inv pd" and h: "host_ok n t" and l: "eigrp_prefix_descriptor_lookup pd (Some n) = Some r" and qo: "query_origin pd \<noteq> Some n"
    and msg: "msg_route msg = Some r" "msg_adv_router msg = Some n" "data_type msg \<noteq> EIGRP_CONNECTED" "\<not> transient_route msg"
      "packet_type msg = (if state pd = EIGRP_FSM_STATE_PASSIVE then EIGRP_OPC_UPDATE else EIGRP_OPC_REPLY)"
  shows "\<exists>t' pd'. eigrp_fsm_event 0 t pd msg = Some (t', pd') \<and> dual_inv pd' \<and> same_host t t' \<and> rids_within (rid r) pd pd' \<and> forgotten n pd'"
proof -
  note q = dual_inv_queues [OF i]
  have r: "r \<in> set (eigrp_topology_routes pd)" "adv_router r = Some n" using lookup_stored [OF l] by auto
  have "distinct (map rid (eigrp_topology_routes pd))" using q by (simp add: queues_ok_def)
  then have m: "msg_ok 0 pd msg" using msg distinct_map_eq [of rid "eigrp_topology_routes pd" _ r] r(1) by (auto simp: msg_ok_def msg_consistent_def)
  have "event_ok 0 t pd msg"
    using h m msg queues_ok_forI [OF q] by (auto simp: event_ok_def host_ok_def msg_linked_def transient_ok_def)
  then obtain t' pd' where e: "eigrp_fsm_event 0 t pd msg = Some (t', pd')" using event_succeeds by blast
  then show ?thesis using event_ok_inv [OF i m e] event_frame [OF e] event_forgets [OF e i m msg(1) r(2) qo msg(5)] msg(1)
    by (auto simp: msg_rid_def)
qed

lemma forgotten_inv: "dual_inv pd \<Longrightarrow> state pd = EIGRP_FSM_STATE_PASSIVE \<Longrightarrow> forgotten n pd"
  by (simp add: dual_inv_def forgotten_def)

lemma neighbor_down_calls:
  assumes "state pd \<noteq> EIGRP_FSM_STATE_PASSIVE" and "eigrp_fsm_reply_status_pending pd (Some n)"
    and "eigrp_fsm_reply_status_remove pd (Some n) = (False, pd1)"
  obtains ev where "\<And>msg. eigrp_fsm_neighbor_down t pd n = fsm_call (NSM (state pd1) ev) t pd1 msg" "NSM (state pd1) ev \<noteq> Fn_dinc"
    "ev \<noteq> EIGRP_FSM_EVENT_Q_FCN" "ev \<noteq> EIGRP_FSM_EVENT_QACT" "ev = EIGRP_FSM_EVENT_LR_FCS \<Longrightarrow> eigrp_topology_route_select pd1 \<noteq> None"
proof -
  have d: "eigrp_fsm_neighbor_down t pd n =
      (if state pd1 = EIGRP_FSM_STATE_ACTIVE_0 \<or> state pd1 = EIGRP_FSM_STATE_ACTIVE_2 then
         (if eigrp_topology_route_select pd1 \<noteq> None then eigrp_fsm_event_lr_fcs t pd1 else eigrp_fsm_event_lr_fcn t pd1)
       else eigrp_fsm_event_lr t pd1)"
    using assms by (simp add: eigrp_fsm_neighbor_down_def)
  have s: "state pd1 \<noteq> EIGRP_FSM_STATE_PASSIVE"
    using assms by (auto simp: eigrp_fsm_reply_status_remove_def Let_def split: option.splits)
  show thesis
    using that [of EIGRP_FSM_EVENT_LR] that [of EIGRP_FSM_EVENT_LR_FCS] that [of EIGRP_FSM_EVENT_LR_FCN] d s
    by (cases "state pd1"; cases "eigrp_topology_route_select pd1") simp_all
qed

lemma fsm_call_forgets:
  assumes q: "queues_ok pd" and call: "fsm_call (NSM (state pd) ev) t pd msg = Some (t', pd')"
    and ev: "ev \<noteq> EIGRP_FSM_EVENT_Q_FCN" "ev \<noteq> EIGRP_FSM_EVENT_QACT" and st: "state pd \<noteq> EIGRP_FSM_STATE_PASSIVE"
    and f: "query_origin pd \<noteq> Some n" "n \<notin> rs_neighbor ` set (rij pd)"
  shows "forgotten n pd'"
proof (cases "state pd' = EIGRP_FSM_STATE_PASSIVE")
  case True
  then show ?thesis using fsm_call_move [OF q call] st by (simp add: dual_move_def forgotten_def settled_def)
next
  case False
  then have "rij pd' = [] \<or> rij_shrinks pd pd'" using fsm_call_move [OF q call] st by (simp add: dual_move_def)
  then show ?thesis using fsm_call_origin [OF call ev False] f by (auto simp: forgotten_def rij_shrinks_def)
qed

lemma neighbor_down_owed:
  assumes i: "dual_inv pd" and h: "host_ok n t" and qo: "query_origin pd \<noteq> Some n"
  shows "\<exists>t' pd'. eigrp_fsm_neighbor_down t pd n = Some (t', pd') \<and> same_host t t' \<and> same_dest pd pd' \<and> forgotten n pd'"
proof (cases "state pd = EIGRP_FSM_STATE_PASSIVE \<or> \<not> eigrp_fsm_reply_status_pending pd (Some n)")
  case True
  then have "n \<notin> rs_neighbor ` set (rij pd)" if "state pd \<noteq> EIGRP_FSM_STATE_PASSIVE"
    using that by (auto simp: eigrp_fsm_reply_status_pending_def eigrp_fsm_reply_status_lookup_def find_None_iff)
  then have "forgotten n pd" using qo by (simp add: forgotten_def)
  then show ?thesis using True by (auto simp: eigrp_fsm_neighbor_down_def)
next
  case False
  obtain ss where r: "eigrp_fsm_reply_status_remove pd (Some n) = (ss \<noteq> [], pd\<lparr>rij := ss\<rparr>)"
    using reply_status_remove_rij by blast
  let ?pd = "pd\<lparr>rij := ss\<rparr>"
  have f: "n \<notin> rs_neighbor ` set (rij ?pd)" using remove_forgets [OF _ r] i by (simp add: dual_inv_def rij_ok_def)
  have d: "same_dest pd ?pd" by (simp add: same_dest_def eigrp_topology_routes_def)
  show ?thesis
  proof (cases "ss = []")
    case nb: False
    then show ?thesis using False r f d qo by (simp add: eigrp_fsm_neighbor_down_def forgotten_def)
  next
    case True
    then have "eigrp_fsm_reply_status_remove pd (Some n) = (False, ?pd)" using r by simp
    then obtain ev where ev: "\<And>msg. eigrp_fsm_neighbor_down t pd n = fsm_call (NSM (state ?pd) ev) t ?pd msg" "NSM (state ?pd) ev \<noteq> Fn_dinc"
      "ev \<noteq> EIGRP_FSM_EVENT_Q_FCN" "ev \<noteq> EIGRP_FSM_EVENT_QACT" "ev = EIGRP_FSM_EVENT_LR_FCS \<Longrightarrow> eigrp_topology_route_select ?pd \<noteq> None"
      using neighbor_down_calls [of pd n ?pd t] False by blast
    have st: "state ?pd \<noteq> EIGRP_FSM_STATE_PASSIVE" "queues_ok ?pd" using False dual_inv_queues [OF i] queues_ok_cong [of ?pd pd] by simp_all
    let ?m = "\<lparr>packet_type = 0, msg_adv_router = None, msg_route = Some undefined, data_type = 0, metrics = zero_metrics,
      change = METRIC_SAME, transient_route = False\<rparr>"
    obtain t' pd' where call: "fsm_call (NSM (state ?pd) ev) t ?pd ?m = Some (t', pd')"
      using fsm_call_succeeds [OF _ _ _ ev(2,5), of t ?m] h st by (auto simp: host_ok_def)
    have "forgotten n pd'" using fsm_call_forgets [OF st(2) call ev(3,4) st(1) _ f] qo by simp
    then show ?thesis using ev(1) [of ?m] call fsm_call_frame [OF call] d by (auto simp: same_dest_def)
  qed
qed


text \<open>What the loss of \<open>n\<close> makes of one destination.\<close>

definition lost_to :: "nbr_id \<Rightarrow> eigrp_prefix_descriptor \<Rightarrow> eigrp_prefix_descriptor \<Rightarrow> bool" where
  "lost_to n pd pd' \<longleftrightarrow> dual_inv pd' \<and> forgotten n pd' \<and> destination pd' = destination pd
     \<and> set (map rid (eigrp_topology_routes pd')) \<subseteq> set (map rid (eigrp_topology_routes pd))"

lemma neighbor_down_prefix_ok:
  assumes i: "dual_inv pd" and h: "host_ok n t"
  shows "\<exists>t' pd'. neighbor_down_prefix n t pd = Some (t', pd') \<and> same_host t t' \<and> lost_to n pd pd'"
proof -
  let ?pd = "if query_origin pd = Some n then pd\<lparr>query_origin := None\<rparr> else pd"
  have i': "dual_inv ?pd" using i queues_ok_cong [of "pd\<lparr>query_origin := None\<rparr>" pd] by (simp add: dual_inv_def)
  have qo: "query_origin ?pd \<noteq> Some n" by simp
  have e: "eigrp_topology_routes ?pd = eigrp_topology_routes pd" "destination ?pd = destination pd" by (simp_all add: eigrp_topology_routes_def)
  show ?thesis
  proof (cases "eigrp_prefix_descriptor_lookup ?pd (Some n)")
    case None
    obtain t' pd' where d: "eigrp_fsm_neighbor_down t ?pd n = Some (t', pd')" "same_host t t'" "same_dest ?pd pd'" "forgotten n pd'"
      using neighbor_down_owed [OF i' h qo] by blast
    then have "lost_to n pd pd'" using neighbor_down_ok [OF i' d(1)] e by (simp add: lost_to_def same_dest_def)
    then show ?thesis using None d(1,2) by (simp only: neighbor_down_prefix_def Let_def) simp
  next
    case (Some r)
    let ?m = "\<lparr>packet_type = (if state ?pd = EIGRP_FSM_STATE_PASSIVE then EIGRP_OPC_UPDATE else EIGRP_OPC_REPLY),
        msg_adv_router = Some n, msg_route = Some r, data_type = (if eigrp_topology_route_external r then EIGRP_EXT else EIGRP_INT),
        metrics = zero_metrics\<lparr>delay := ucast EIGRP_MAX_METRIC\<rparr>, change = METRIC_DECREASE, transient_route = False\<rparr>"
    have "data_type ?m \<noteq> EIGRP_CONNECTED" by (simp add: route_type_consts)
    then obtain t' pd' where d: "eigrp_fsm_event 0 t ?pd ?m = Some (t', pd')" "dual_inv pd'" "same_host t t'" "rids_within (rid r) ?pd pd'"
      "forgotten n pd'" using neighbor_down_event [OF i' h Some qo, of ?m] by auto
    have "rid r \<in> set (map rid (eigrp_topology_routes ?pd))" using lookup_stored [OF Some] by simp
    then have "lost_to n pd pd'" using d(2,4,5) e unfolding lost_to_def rids_within_def by (metis insert_absorb)
    then show ?thesis using Some d(1,3) by (simp only: neighbor_down_prefix_def Let_def) simp
  qed
qed

lemma neighbor_down_walk:
  assumes "\<forall>pd\<in>set pds. dual_inv pd" and "host_ok n t"
  shows "\<exists>t' pds'. walk_prefixes (neighbor_down_prefix n) t pds = Some (t', pds') \<and> same_host t t' \<and> list_all2 (lost_to n) pds pds'"
  using assms
proof (induction pds arbitrary: t)
  case (Cons pd pds)
  obtain t1 pd' where p: "neighbor_down_prefix n t pd = Some (t1, pd')" "same_host t t1" "lost_to n pd pd'"
    using neighbor_down_prefix_ok Cons.prems by (metis list.set_intros(1))
  have "host_ok n t1" using host_ok_same [OF p(2)] Cons.prems(2) by simp
  then obtain t' pds' where "walk_prefixes (neighbor_down_prefix n) t1 pds = Some (t', pds')" "same_host t1 t'" "list_all2 (lost_to n) pds pds'"
    using Cons by (metis list.set_intros(2))
  then show ?case using p same_host_trans by auto
qed simp

lemma lost_table:
  assumes "list_all2 (lost_to n) pds pds'"
  shows "map destination pds' = map destination pds" "rids_below k pds \<Longrightarrow> rids_below k pds'"
    "\<forall>pd\<in>set pds'. dual_inv pd" "\<forall>pd\<in>set pds'. forgotten n pd"
  using assms by (induction rule: list_all2_induct) (auto simp: lost_to_def rids_below_def)

lemma send_all_table: "send_all R exc = Some R' \<Longrightarrow> table R' = table R"
  by (auto simp: send_all_def eigrp_query_send_all_def update_send_all_def split: option.splits if_splits)

lemma send_all_host: "send_all R exc = Some R' \<Longrightarrow> same_host (topo R) (topo R')"
  by (auto simp: send_all_def eigrp_query_send_all_def update_send_all_def eigrp_update_send_all_def eigrp_packetizer_enqueue_def
      same_host_def split: option.splits if_splits)

lemma neighbor_down_total:
  assumes "router_ok R" and "host_ok n (topo R)"
  shows "\<exists>R'. eigrp_topology_neighbor_down n R = Some R' \<and> router_ok R' \<and> map destination (table R') = map destination (table R)
    \<and> same_host (topo R) (topo R') \<and> (\<forall>pd\<in>set (table R'). forgotten n pd)"
proof -
  obtain t pds where w: "walk_prefixes (neighbor_down_prefix n) (topo R) (table R) = Some (t, pds)" "same_host (topo R) t"
    "list_all2 (lost_to n) (table R) pds" using neighbor_down_walk assms by (metis router_ok_def topology_ok_def)
  note l = lost_table [OF w(3)]
  let ?R = "R\<lparr>topo := t, table := pds\<rparr>"
  have ok: "router_ok ?R" using assms(1) l(1-3) by (simp add: router_ok_def topology_ok_def)
  have "memory_ok (topo ?R)" using host_ok_same [OF w(2), of n] assms(2) by (simp add: host_ok_def)
  then obtain R' where s: "send_all ?R (nbr_ei (nbrs t n)) = Some R'" "router_ok R'" using send_all_ok [OF ok] by blast
  then have "table R' = pds" "same_host (topo R) (topo R')"
    using send_all_table [OF s(1)] same_host_trans [OF w(2), of "topo R'"] send_all_host [OF s(1)] by simp_all
  then show ?thesis using w(1) s l(1,4) by (auto simp: eigrp_topology_neighbor_down_def)
qed

text \<open>
  C8: Losing a neighbour is safe and complete: it ends without a fault, keeps the topology table in order (same
  destinations, each with the invariant of the DUAL machine), and afterwards no destination has the lost neighbour as the origin of
  a QUERY and no Active destination waits for its REPLY, whether or not the neighbour had sent a route for it.
\<close>

theorem neighbor_down_forgets:
  assumes "router_ok R" and "host_ok n (topo R)"
  shows "\<exists>R'. eigrp_topology_neighbor_down n R = Some R' \<and> router_ok R' \<and> map destination (table R') = map destination (table R)
    \<and> (\<forall>pd\<in>set (table R'). query_origin pd \<noteq> Some n \<and> (state pd \<noteq> EIGRP_FSM_STATE_PASSIVE \<longrightarrow> n \<notin> rs_neighbor ` set (rij pd)))"
  using neighbor_down_total [OF assms] unfolding forgotten_def by blast

theorem neighbor_down_forgets_witness:
  "\<exists>R'. eigrp_topology_neighbor_down 2 sample_router = Some R' \<and> router_ok R'
     \<and> (\<forall>pd\<in>set (table R'). query_origin pd \<noteq> Some 2 \<and> (state pd \<noteq> EIGRP_FSM_STATE_PASSIVE \<longrightarrow> 2 \<notin> rs_neighbor ` set (rij pd)))"
  using neighbor_down_forgets [OF sample_router_ok] by blast

end
