(* ===== verification/Eigrp_Sequence.thy ===== *)
theory Eigrp_Sequence
  imports Eigrp_Prelude
begin

text \<open>
  RTP sequence numbers (\<^verbatim>\<open>eigrp_packet.h\<close>, \<^verbatim>\<open>eigrp_packet.c\<close>): they count modulo \<open>2 ^ 32\<close> and are compared in half of that
  space.  Numbers that lie in a window of half the space are linearly ordered by the comparison.
\<close>

subsection \<open>Sequence numbers\<close>

definition eigrp_packet_sequence_before :: "u32 \<Rightarrow> u32 \<Rightarrow> bool" where
  "eigrp_packet_sequence_before first second \<longleftrightarrow> first \<noteq> second \<and> second - first < 0x80000000"

text \<open>The number given out, and the counter afterwards; 0 is never a sequence number.\<close>

definition eigrp_packet_sequence_reserve :: "u32 \<Rightarrow> u32 \<times> u32" where
  "eigrp_packet_sequence_reserve counter =
     (let sequence = (if counter = 0 then 1 else counter); counter = sequence + 1
      in (sequence, if counter = 0 then 1 else counter))"

subsection \<open>Sequence numbers in a window\<close>

definition seq_window :: "u32 set \<Rightarrow> bool" where
  "seq_window S \<longleftrightarrow> (\<exists>b. \<forall>s \<in> S. s - b < 0x80000000)"

lemma before_antisym: "eigrp_packet_sequence_before a b \<Longrightarrow> \<not> eigrp_packet_sequence_before b a"
proof
  assume "eigrp_packet_sequence_before a b" and "eigrp_packet_sequence_before b a"
  then have d: "b - a < 0x80000000" "a - b < 0x80000000" "b - a \<noteq> 0" by (auto simp: eigrp_packet_sequence_before_def)
  have "unat ((b - a) + (a - b)) = 0" by simp
  then have "(unat (b - a) + unat (a - b)) mod 2 ^ 32 = 0" by (simp only: unat_word_ariths) simp
  moreover have "unat (b - a) < 2 ^ 31" "unat (a - b) < 2 ^ 31" using d by (simp_all add: word_less_nat_alt)
  moreover have "unat (b - a) \<noteq> 0" using d(3) by (simp add: word_unat_eq_iff)
  ultimately show False by simp
qed

lemma before_offset:
  fixes a b s :: u32
  assumes "a - s < 0x80000000" "b - s < 0x80000000"
  shows "eigrp_packet_sequence_before a b \<longleftrightarrow> a - s < b - s"
proof -
  have d: "b - a = (b - s) - (a - s)" by simp
  have u: "unat (a - s) < 2 ^ 31" "unat (b - s) < 2 ^ 31" using assms by (simp_all add: word_less_nat_alt)
  show ?thesis
  proof (cases "a - s \<le> b - s")
    case True
    then have "unat (b - a) = unat (b - s) - unat (a - s)" unfolding d by (rule unat_sub)
    moreover have "unat (a - s) = unat (b - s) \<longleftrightarrow> a = b" by (simp add: word_unat_eq_iff [symmetric])
    ultimately show ?thesis using True u
      by (auto simp: eigrp_packet_sequence_before_def word_less_nat_alt word_le_nat_alt)
  next
    case False
    then have "b - s \<le> a - s" "a \<noteq> b" by auto
    then have "unat (a - b) = unat (a - s) - unat (b - s)" using unat_sub [of "b - s" "a - s"] by simp
    then have "eigrp_packet_sequence_before b a" using \<open>a \<noteq> b\<close> u by (auto simp: eigrp_packet_sequence_before_def word_less_nat_alt)
    then show ?thesis using before_antisym False by auto
  qed
qed

lemma window_order:
  assumes "seq_window S"
  obtains off :: "u32 \<Rightarrow> nat" where "\<And>s t. \<lbrakk>s \<in> S; t \<in> S\<rbrakk> \<Longrightarrow> eigrp_packet_sequence_before s t \<longleftrightarrow> off s < off t"
    and "\<And>s t. \<lbrakk>s \<in> S; t \<in> S; off s = off t\<rbrakk> \<Longrightarrow> s = t"
proof -
  from assms obtain b where b: "\<And>s. s \<in> S \<Longrightarrow> s - b < 0x80000000" by (auto simp: seq_window_def)
  show thesis
  proof (rule that [of "\<lambda>s. unat (s - b)"])
    fix s t assume "s \<in> S" "t \<in> S"
    then show "eigrp_packet_sequence_before s t \<longleftrightarrow> unat (s - b) < unat (t - b)"
      using before_offset [OF b b] by (simp add: word_less_nat_alt)
  qed (simp add: word_unat_eq_iff [symmetric])
qed

lemma window_total:
  "\<lbrakk>seq_window S; s \<in> S; t \<in> S; s \<noteq> t; \<not> eigrp_packet_sequence_before s t\<rbrakk> \<Longrightarrow> eigrp_packet_sequence_before t s"
  by (metis window_order linorder_neqE_nat)

lemma window_trans:
  "\<lbrakk>seq_window S; s \<in> S; t \<in> S; u \<in> S; eigrp_packet_sequence_before s t; eigrp_packet_sequence_before t u\<rbrakk>
   \<Longrightarrow> eigrp_packet_sequence_before s u"
  by (metis window_order less_trans)

lemma window_mono: "\<lbrakk>seq_window S; T \<subseteq> S\<rbrakk> \<Longrightarrow> seq_window T"
  by (auto simp: seq_window_def)


end
