(* ===== verification/Eigrp_Update.thy ===== *)
theory Eigrp_Update
  imports Eigrp_Loss Eigrp_Sequence
begin

text \<open>
  The receiver of UPDATE packets (\<^verbatim>\<open>eigrp_update.c\<close>): the INIT handshake and its retransmissions, graceful restart, and
  the routes.

  The lists of prefixes that graceful restart and the INIT replay keep between packets are heap objects: a pointer is a
  number, \<open>lists\<close> gives the contents of the lists that are allocated, and reading or freeing a list that is not is
  a fault (\<open>None\<close>).  Sending the initial table and the INIT packet, and the adjacency timers, are recorded in \<open>up_calls\<close>.
\<close>

subsection \<open>State\<close>

record update_peer =
  peer_init_sequence_number :: u32
  peer_init_retransmit_eligible :: bool
  peer_init_resync_pending :: bool
  peer_init_resync_prefixes :: "nat option"
  nbr_gr_prefixes :: "nat option"
  init_sequence_number :: u32
  peer_limited :: bool

datatype update_call = Send_init nbr_id | Send_EOT nbr_id | Ack_sequence nbr_id u32 | Holddown_update nbr_id | State_update nbr_id eigrp_nbr_state

record eigrp_updater =
  router :: eigrp_router
  peer :: "nbr_id \<Rightarrow> update_peer"
  lists :: "nat \<rightharpoonup> eigrp_prefix list"
  next_list :: nat
  up_calls :: "update_call list"

text \<open>Inputs: the inbound offset lists, the topology prefix limit, and the sequence number of the INIT packet to be sent (none when it cannot be allocated).\<close>

record update_env =
  offset_in :: "eigrp_prefix \<Rightarrow> eigrp_metrics \<Rightarrow> eigrp_metrics"
  topology_prefix_admit :: "eigrp_topo \<Rightarrow> eigrp_prefix \<Rightarrow> bool"
  init_packet :: "u32 option"

definition EIGRP_INIT_FLAG :: u32 where "EIGRP_INIT_FLAG = 1"
definition EIGRP_RS_FLAG :: u32 where "EIGRP_RS_FLAG = 4"
definition EIGRP_EOT_FLAG :: u32 where "EIGRP_EOT_FLAG = 8"

lemmas flag_defs = EIGRP_INIT_FLAG_def EIGRP_RS_FLAG_def EIGRP_EOT_FLAG_def

definition peer_update :: "nbr_id \<Rightarrow> (update_peer \<Rightarrow> update_peer) \<Rightarrow> eigrp_updater \<Rightarrow> eigrp_updater" where
  "peer_update n f U = U\<lparr>peer := (peer U)(n := f (peer U n))\<rparr>"

text \<open>Freeing a list, or taking an entry out of it, through a pointer that may be NULL.\<close>

definition list_delete :: "nat option \<Rightarrow> eigrp_updater \<Rightarrow> eigrp_updater option" where
  "list_delete l U = (case l of
      None \<Rightarrow> Some U
    | Some p \<Rightarrow> (case lists U p of None \<Rightarrow> None | Some _ \<Rightarrow> Some (U\<lparr>lists := (lists U)(p := None)\<rparr>)))"

definition list_change :: "(eigrp_prefix list \<Rightarrow> eigrp_prefix list) \<Rightarrow> nat option \<Rightarrow> eigrp_updater \<Rightarrow> eigrp_updater option" where
  "list_change f l U = (case l of
      None \<Rightarrow> Some U
    | Some p \<Rightarrow> (case lists U p of None \<Rightarrow> None | Some ds \<Rightarrow> Some (U\<lparr>lists := (lists U)(p \<mapsto> f ds)\<rparr>)))"

definition list_delete_data :: "nat option \<Rightarrow> eigrp_prefix \<Rightarrow> eigrp_updater \<Rightarrow> eigrp_updater option" where
  "list_delete_data l d = list_change (remove1 d) l"

definition remove_received_prefix_gr :: "nat option \<Rightarrow> eigrp_prefix \<Rightarrow> eigrp_updater \<Rightarrow> eigrp_updater option" where
  "remove_received_prefix_gr l d = list_change (removeAll d) l"

text \<open>A new list of the destinations for which the neighbour has a route.\<close>

definition eigrp_nbr_prefixes_lookup :: "nbr_id \<Rightarrow> eigrp_updater \<Rightarrow> nat option \<times> eigrp_updater" where
  "eigrp_nbr_prefixes_lookup n U =
     (let R = router U; t = topo R
      in if alloc_ok t Alloc_list
         then (Some (next_list U),
               U\<lparr>lists := (lists U)(next_list U \<mapsto> map destination (filter
                    (\<lambda>pd. eigrp_prefix_descriptor_lookup pd (Some n) \<noteq> None \<and> alloc_ok t Alloc_change_item) (table R))),
                 next_list := next_list U + 1\<rparr>)
         else (None, U))"

subsection \<open>Prefixes the neighbour did not mention\<close>

definition gr_ask_prefix :: "nbr_id \<Rightarrow> eigrp_prefix \<Rightarrow> eigrp_router \<Rightarrow> eigrp_router option" where
  "gr_ask_prefix n d R =
     (case find (\<lambda>pd. destination pd = d) (table R) of
        None \<Rightarrow> None
      | Some pd \<Rightarrow>
          fsm_event_on R pd
            \<lparr>packet_type = EIGRP_OPC_UPDATE, msg_adv_router = Some n, msg_route = eigrp_prefix_descriptor_lookup pd (Some n),
             data_type = EIGRP_INT, metrics = (pd_reported_metric pd)\<lparr>delay := ucast EIGRP_MAX_METRIC\<rparr>,
             change = METRIC_DECREASE, transient_route = False\<rparr>)"

primrec gr_ask_loop :: "nbr_id \<Rightarrow> eigrp_prefix list \<Rightarrow> eigrp_router \<Rightarrow> eigrp_router option" where
  "gr_ask_loop n [] R = Some R"
| "gr_ask_loop n (d # ds) R = (case gr_ask_prefix n d R of None \<Rightarrow> None | Some R \<Rightarrow> gr_ask_loop n ds R)"

definition eigrp_update_receive_GR_ask :: "nbr_id \<Rightarrow> nat option \<Rightarrow> eigrp_updater \<Rightarrow> eigrp_updater option" where
  "eigrp_update_receive_GR_ask n l U =
     (case l of
        None \<Rightarrow> Some U
      | Some p \<Rightarrow>
          (case lists U p of None \<Rightarrow> None | Some ds \<Rightarrow> map_option (\<lambda>R. U\<lparr>router := R\<rparr>) (gr_ask_loop n ds (router U))))"

subsection \<open>One route\<close>

definition ingress_metric :: "ingress \<Rightarrow> update_env \<Rightarrow> eigrp_route_descriptor \<Rightarrow> eigrp_metrics" where
  "ingress_metric G E q =
     (if filter_in G (dest q) then (rt_metric q)\<lparr>delay := ucast EIGRP_MAX_METRIC\<rparr> else offset_in E (dest q) (rt_metric q))"

definition update_data_type :: "ingress \<Rightarrow> eigrp_route_descriptor \<Rightarrow> u16" where
  "update_data_type G q = (if classic_external G q then EIGRP_EXT else EIGRP_INT)"

definition update_known :: "ingress \<Rightarrow> update_env \<Rightarrow> nbr_id \<Rightarrow> eigrp_route_descriptor \<Rightarrow> eigrp_prefix_descriptor \<Rightarrow> eigrp_router \<Rightarrow> eigrp_router option" where
  "update_known G E n q pd R =
     (let stored = eigrp_prefix_descriptor_lookup pd (Some n);
          m = ingress_metric G E q;
          unreachable = (eigrp_metric_calculate (inst (topo R)) m = ucast EIGRP_MAX_METRIC)
      in if stored = None \<and> unreachable then Some R
         else if \<not> unreachable
                 \<and> (if stored = None then \<not> eigrp_nbr_route_admit G (topo R) n (dest q) m else \<not> topology_prefix_admit E (topo R) (dest q))
         then Some R
         else
           let (pd, r) = route_received pd n q
           in fsm_event_on R pd
                \<lparr>packet_type = EIGRP_OPC_UPDATE, msg_adv_router = Some n, msg_route = Some r, data_type = update_data_type G q,
                 metrics = m, change = METRIC_DECREASE, transient_route = (stored = None \<and> unreachable)\<rparr>)"

text \<open>A reachable route to an unknown destination creates it, with the route as its successor.\<close>

definition update_new :: "ingress \<Rightarrow> update_env \<Rightarrow> nbr_id \<Rightarrow> eigrp_route_descriptor \<Rightarrow> eigrp_router \<Rightarrow> eigrp_router option" where
  "update_new G E n q R =
     (let m = ingress_metric G E q
      in if eigrp_metric_calculate (inst (topo R)) (rt_metric q) = ucast EIGRP_MAX_METRIC then Some R
         else if \<not> eigrp_nbr_route_admit G (topo R) n (dest q) m then Some R
         else
           let pd = eigrp_topology_prefix_create\<lparr>destination := eigrp_prefix_normalize (dest q), state := EIGRP_FSM_STATE_PASSIVE,
                      nt := (if classic_external G q then EIGRP_TOPOLOGY_TYPE_REMOTE_EXTERNAL else EIGRP_TOPOLOGY_TYPE_REMOTE)\<rparr>;
               r = q\<lparr>adv_router := Some n, reported_metric := m,
                     reported_distance := ucast (eigrp_metric_calculate (inst (topo R)) m)\<rparr>
           in (case route_total (topo R) r of
                 None \<Rightarrow> None
               | Some r \<Rightarrow>
                   let pd = pd\<lparr>fdistance := distance r, pd_distance := distance r, rdistance := distance r\<rparr>;
                       r = r\<lparr>rt_prefix := Some (destination pd), rt_flags := SUCCESSOR_FLAG\<rparr>;
                       (t, pd, r) = eigrp_route_descriptor_add (topo R) pd r;
                       pd = pd\<lparr>fdistance := distance r, pd_distance := distance r, rdistance := distance r, pd_reported_metric := total_metric r\<rparr>;
                       pd = need_update (eigrp_topology_update_node_flags t pd)
                   in Some (R\<lparr>topo := changes_add t pd, table := eigrp_prefix_descriptor_add (table R) pd\<rparr>)))"

definition update_route ::
    "ingress \<Rightarrow> update_env \<Rightarrow> nbr_id \<Rightarrow> nat option \<Rightarrow> eigrp_route_descriptor \<Rightarrow> eigrp_updater \<Rightarrow> eigrp_updater option" where
  "update_route G E n gr q U =
     (case eigrp_topology_table_lookup (table (router U)) (dest q) of
        Some pd \<Rightarrow>
          (case remove_received_prefix_gr gr (destination pd) U of
             None \<Rightarrow> None
           | Some U \<Rightarrow>
               (case (if peer_init_resync_pending (peer U n) then list_delete_data (peer_init_resync_prefixes (peer U n)) (destination pd) U
                      else Some U) of
                  None \<Rightarrow> None
                | Some U \<Rightarrow> map_option (\<lambda>R. U\<lparr>router := R\<rparr>) (update_known G E n q pd (router U))))
      | None \<Rightarrow> map_option (\<lambda>R. U\<lparr>router := R\<rparr>) (update_new G E n q (router U)))"

fun update_loop ::
    "(eigrp_updater \<Rightarrow> bool) \<Rightarrow> route_decode \<Rightarrow> (eigrp_route_descriptor \<Rightarrow> eigrp_updater \<Rightarrow> eigrp_updater option)
     \<Rightarrow> nat \<Rightarrow> eigrp_stream \<Rightarrow> eigrp_updater \<Rightarrow> (bool \<times> eigrp_updater) option" where
  "update_loop cont decode step 0 pkt U = (if st_getp pkt < st_endp pkt \<and> cont U then None else Some (True, U))"
| "update_loop cont decode step (Suc fuel) pkt U =
     (if \<not> (st_getp pkt < st_endp pkt \<and> cont U) then Some (True, U)
      else
        let U' = U\<lparr>router := (router U)\<lparr>next_rid := next_rid (router U) + 1\<rparr>\<rparr>
        in case decode (next_rid (router U)) pkt of
             None \<Rightarrow> None
           | Some (None, pkt') \<Rightarrow>
               if st_getp pkt' = st_getp pkt then Some (False, U) else update_loop cont decode step fuel pkt' U'
           | Some (Some q, pkt') \<Rightarrow>
               (case step q U' of None \<Rightarrow> None | Some U \<Rightarrow> update_loop cont decode step fuel pkt' U))"

subsection \<open>Adjacency\<close>

text \<open>
  What \<^verbatim>\<open>eigrp_nbr_state_update\<close> changes of the fields kept here; its other effects (transport queue, timers, encoder) are one
  recorded call.
\<close>

definition adjacency_update :: "nbr_id \<Rightarrow> eigrp_nbr_state \<Rightarrow> eigrp_updater \<Rightarrow> eigrp_updater option" where
  "adjacency_update n st U =
     (if peer_limited (peer U n) \<and> st \<noteq> EIGRP_NEIGHBOR_DOWN then Some U
      else
        let R = router U; t = topo R;
            U = U\<lparr>router := R\<lparr>topo := t\<lparr>nbrs := (nbrs t)(n := (nbrs t n)\<lparr>nbr_state := st\<rparr>)\<rparr>\<rparr>,
                  up_calls := up_calls U @ [State_update n st]\<rparr>
        in if st \<noteq> EIGRP_NEIGHBOR_DOWN then Some U
           else
             list_delete (peer_init_resync_prefixes (peer U n))
               (peer_update n (\<lambda>P. P\<lparr>peer_init_sequence_number := 0, peer_init_retransmit_eligible := False,
                  peer_init_resync_pending := False, peer_init_resync_prefixes := None, init_sequence_number := 0\<rparr>)
                  (U\<lparr>router := packet_received n 0 (router U)\<rparr>)))"

definition eigrp_update_send_init :: "update_env \<Rightarrow> nbr_id \<Rightarrow> eigrp_updater \<Rightarrow> eigrp_updater" where
  "eigrp_update_send_init E n U =
     (if nbr_ei (nbrs (topo (router U)) n) = None then U
      else case init_packet E of
             None \<Rightarrow> U
           | Some seq \<Rightarrow> peer_update n (\<lambda>P. P\<lparr>init_sequence_number := seq\<rparr>) (U\<lparr>up_calls := up_calls U @ [Send_init n]\<rparr>))"

text \<open>A new INIT: answer it while Pending; from an adjacency that is Up it means the peer restarted.\<close>

definition init_received :: "update_env \<Rightarrow> nbr_id \<Rightarrow> u32 \<Rightarrow> bool \<Rightarrow> eigrp_updater \<Rightarrow> eigrp_updater option" where
  "init_received E n seq seen U =
     (let U = (if nbr_state (nbrs (topo (router U)) n) = EIGRP_NEIGHBOR_PENDING \<and> init_sequence_number (peer U n) = 0
               then eigrp_update_send_init E n U else U)
      in if \<not> (nbr_state (nbrs (topo (router U)) n) = EIGRP_NEIGHBOR_UP \<and> seen) then Some U
         else
           case adjacency_update n EIGRP_NEIGHBOR_DOWN U of
             None \<Rightarrow> None
           | Some U \<Rightarrow>
               (case eigrp_topology_neighbor_down n (router U) of
                  None \<Rightarrow> None
                | Some R \<Rightarrow>
                    let U = peer_update n (\<lambda>P. P\<lparr>peer_init_sequence_number := seq, peer_init_retransmit_eligible := (seq \<noteq> 0)\<rparr>)
                              (U\<lparr>router := packet_received n seq R\<rparr>)
                    in (case adjacency_update n EIGRP_NEIGHBOR_PENDING U of
                          None \<Rightarrow> None
                        | Some U \<Rightarrow> Some (eigrp_update_send_init E n (U\<lparr>up_calls := up_calls U @ [Holddown_update n]\<rparr>)))))"

text \<open>The flags: which list, if any, this packet works through, and whether it is the last one.\<close>

definition update_flags ::
    "update_env \<Rightarrow> nbr_id \<Rightarrow> u32 \<Rightarrow> u32 \<Rightarrow> bool \<Rightarrow> bool \<Rightarrow> eigrp_updater \<Rightarrow> (nat option \<times> bool \<times> eigrp_updater) option" where
  "update_flags E n flags seq same seen U =
     (if same then Some (None, False, U)
      else if flags = EIGRP_INIT_FLAG + EIGRP_RS_FLAG + EIGRP_EOT_FLAG then
        let (l, U) = eigrp_nbr_prefixes_lookup n U in Some (l, True, U)
      else if flags = EIGRP_INIT_FLAG + EIGRP_RS_FLAG then
        let (l, U) = eigrp_nbr_prefixes_lookup n U
        in Some (l, False, peer_update n (\<lambda>P. P\<lparr>nbr_gr_prefixes := l\<rparr>) U)
      else if flags = EIGRP_EOT_FLAG then
        (case nbr_gr_prefixes (peer U n) of
           Some l \<Rightarrow> Some (Some l, True, peer_update n (\<lambda>P. P\<lparr>nbr_gr_prefixes := None\<rparr>) U)
         | None \<Rightarrow> Some (None, False, U))
      else if flags = 0 then Some (nbr_gr_prefixes (peer U n), False, U)
      else if flags AND EIGRP_INIT_FLAG \<noteq> 0 then map_option (\<lambda>U. (None, False, U)) (init_received E n seq seen U)
      else Some (None, False, U))"

text \<open>The end of the INIT replay: what was not advertised again is withdrawn.\<close>

definition resync_complete :: "nbr_id \<Rightarrow> eigrp_updater \<Rightarrow> eigrp_updater option" where
  "resync_complete n U =
     (let l = peer_init_resync_prefixes (peer U n)
      in case eigrp_update_receive_GR_ask n l U of
           None \<Rightarrow> None
         | Some U \<Rightarrow>
             (case list_delete l U of
                None \<Rightarrow> None
              | Some U \<Rightarrow>
                  let U = peer_update n (\<lambda>P. P\<lparr>peer_init_resync_prefixes := None, peer_init_resync_pending := False\<rparr>) U
                  in Some (U\<lparr>up_calls := up_calls U @ [Send_EOT n]\<rparr>)))"

definition update_finish :: "nbr_id \<Rightarrow> u32 \<Rightarrow> intf_id option \<Rightarrow> nat option \<Rightarrow> bool \<Rightarrow> bool \<Rightarrow> eigrp_updater \<Rightarrow> eigrp_updater option" where
  "update_finish n seq ei gr final complete U =
     (case (if final then eigrp_update_receive_GR_ask n gr U else Some U) of
        None \<Rightarrow> None
      | Some U \<Rightarrow>
          (case (if complete then resync_complete n U else Some U) of
             None \<Rightarrow> None
           | Some U \<Rightarrow>
               let U = (if seq \<noteq> 0 then U\<lparr>router := eigrp_hello_send_ack n (router U)\<rparr> else U)
               in (case send_all (router U) ei of
                     None \<Rightarrow> None
                   | Some R \<Rightarrow> list_delete gr (U\<lparr>router := R\<rparr>))))"

text \<open>A repeated INIT is acknowledged; once per adjacency it opens a window in which the peer's routes are compared.\<close>

definition init_replayed :: "nbr_id \<Rightarrow> u32 \<Rightarrow> eigrp_updater \<Rightarrow> eigrp_updater" where
  "init_replayed n seq U =
     (let U = (if nbr_state (nbrs (topo (router U)) n) = EIGRP_NEIGHBOR_UP \<and> \<not> peer_init_resync_pending (peer U n)
               then let (l, U) = eigrp_nbr_prefixes_lookup n U
                    in peer_update n (\<lambda>P. P\<lparr>peer_init_resync_prefixes := l, peer_init_resync_pending := True\<rparr>) U
               else U)
      in U\<lparr>up_calls := up_calls U @ [Ack_sequence n seq]\<rparr>)"

definition init_tracking :: "nbr_id \<Rightarrow> u32 \<Rightarrow> u32 \<Rightarrow> eigrp_updater \<Rightarrow> bool \<times> eigrp_updater" where
  "init_tracking n flags seq U =
     (let P = peer U n; seen = (peer_init_sequence_number P \<noteq> 0)
      in if flags = EIGRP_INIT_FLAG \<and> \<not> seen
         then (False, peer_update n (\<lambda>P. P\<lparr>peer_init_sequence_number := seq, peer_init_retransmit_eligible := (seq \<noteq> 0)\<rparr>) U)
         else if flags = EIGRP_EOT_FLAG \<and> seen \<and> eigrp_packet_sequence_before (peer_init_sequence_number P) seq
         then (peer_init_resync_pending P, peer_update n (\<lambda>P. P\<lparr>peer_init_retransmit_eligible := False\<rparr>) U)
         else (False, U))"

definition eigrp_update_receive ::
    "ingress \<Rightarrow> update_env \<Rightarrow> route_decode \<Rightarrow> nbr_id \<Rightarrow> u32 \<Rightarrow> u32 \<Rightarrow> intf_id option \<Rightarrow> eigrp_stream \<Rightarrow> eigrp_updater \<Rightarrow> eigrp_updater option" where
  "eigrp_update_receive G E decode n flags seq ei pkt U =
     (if flags = EIGRP_INIT_FLAG \<and> seq \<noteq> 0 \<and> peer_init_retransmit_eligible (peer U n) \<and> peer_init_sequence_number (peer U n) = seq
      then Some (init_replayed n seq U)
      else
        let seen = (peer_init_sequence_number (peer U n) \<noteq> 0);
            (complete, U) = init_tracking n flags seq U;
            same = (recv_sequence_number (router U) n = seq);
            U = U\<lparr>router := packet_received n seq (router U)\<rparr>
        in case update_flags E n flags seq same seen U of
             None \<Rightarrow> None
           | Some (gr, final, U) \<Rightarrow>
               (case update_loop (\<lambda>U. \<not> limit_cleanup_pending G (topo (router U)) n) decode (update_route G E n gr)
                       (length (unread pkt)) pkt U of
                  None \<Rightarrow> None
                | Some (False, U) \<Rightarrow> Some U
                | Some (True, U) \<Rightarrow> update_finish n seq ei gr final complete U))"


subsection \<open>Events\<close>

text \<open>What a step of the receiver keeps: the invariant, the host, and every destination of the table.\<close>

definition dests :: "eigrp_router \<Rightarrow> eigrp_prefix set" where
  "dests R = destination ` set (table R)"

definition keeps :: "eigrp_router \<Rightarrow> eigrp_router \<Rightarrow> bool" where
  "keeps R R' \<longleftrightarrow> router_ok R' \<and> same_host (topo R) (topo R') \<and> dests R \<subseteq> dests R'"

lemma keeps_refl: "router_ok R \<Longrightarrow> keeps R R" by (simp add: keeps_def)

lemma keeps_trans: "keeps R R1 \<Longrightarrow> keeps R1 R2 \<Longrightarrow> keeps R R2"
  unfolding keeps_def using same_host_trans by blast

lemma keepsD: "keeps R R' \<Longrightarrow> router_ok R'" "keeps R R' \<Longrightarrow> host_ok n (topo R') = host_ok n (topo R)"
  using host_ok_same by (auto simp: keeps_def)

lemma fsm_event_on_dests: "fsm_event_on R pd msg = Some R' \<Longrightarrow> dests R' = dests R"
proof -
  assume "fsm_event_on R pd msg = Some R'"
  then obtain pd' where "table R' = table_put pd' (table R)" by (auto simp: fsm_event_on_def split: option.splits)
  then have "map destination (table R') = map destination (table R)" by (simp add: table_put_def)
  then show ?thesis unfolding dests_def by (metis list.set_map)
qed

lemma keeps_event: "fsm_event_on R pd msg = Some R' \<Longrightarrow> router_ok R' \<Longrightarrow> same_host (topo R) (topo R') \<Longrightarrow> keeps R R'"
  using fsm_event_on_dests by (simp add: keeps_def)

lemma fresh_rid_ok: "fresh_rid i R \<Longrightarrow> router_ok R"
  using rids_below_mono [of i "table R" "next_rid R"] by (simp add: fresh_rid_def router_ok_def)

lemma update_data_type: "update_data_type G q \<noteq> EIGRP_CONNECTED"
  by (simp add: update_data_type_def route_type_consts)

lemma update_known_ok:
  assumes R: "fresh_rid (rid q) R" and h: "host_ok n (topo R)" and pd: "pd \<in> set (table R)"
  shows "\<exists>R'. update_known G E n q pd R = Some R' \<and> keeps R R'"
proof -
  let ?m = "ingress_metric G E q"
  let ?un = "eigrp_metric_calculate (inst (topo R)) ?m = ucast EIGRP_MAX_METRIC"
  obtain pd1 r where rr: "route_received pd n q = (pd1, r)" by fastforce
  have "\<exists>R'. update_known G E n q pd R = Some R' \<and> keeps R R'" if "\<not> (eigrp_prefix_descriptor_lookup pd (Some n) = None \<and> ?un)"
    using that route_event_ok [OF R h pd rr, of "\<lparr>packet_type = EIGRP_OPC_UPDATE, msg_adv_router = Some n, msg_route = Some r,
      data_type = update_data_type G q, metrics = ?m, change = METRIC_DECREASE, transient_route = False\<rparr>"] update_data_type
      keeps_event keeps_refl [OF fresh_rid_ok [OF R]]
    by (auto simp: update_known_def rr Let_def)
  then show ?thesis using keeps_refl [OF fresh_rid_ok [OF R]] by (auto simp: update_known_def Let_def)
qed

lemma gr_ask_prefix_ok:
  assumes R: "router_ok R" and h: "host_ok n (topo R)" and d: "d \<in> dests R"
  shows "\<exists>R'. gr_ask_prefix n d R = Some R' \<and> keeps R R'"
proof -
  obtain pd where f: "find (\<lambda>pd. destination pd = d) (table R) = Some pd"
    using d by (cases "find (\<lambda>pd. destination pd = d) (table R)") (auto simp: find_None_iff dests_def)
  have pd: "pd \<in> set (table R)" using f by (auto dest: find_Some_set)
  have i: "dual_inv pd" and b: "\<forall>i\<in>set (map rid (eigrp_topology_routes pd)). i < next_rid R"
    using R pd by (auto simp: router_ok_def topology_ok_def rids_below_def)
  let ?msg = "\<lparr>packet_type = EIGRP_OPC_UPDATE, msg_adv_router = Some n, msg_route = eigrp_prefix_descriptor_lookup pd (Some n),
             data_type = EIGRP_INT, metrics = (pd_reported_metric pd)\<lparr>delay := ucast EIGRP_MAX_METRIC\<rparr>,
             change = METRIC_DECREASE, transient_route = False\<rparr>"
  have "distinct (map rid (eigrp_topology_routes pd))" using dual_inv_queues [OF i] by (simp add: queues_ok_def)
  then have "msg_consistent pd ?msg"
    using distinct_map_eq [of rid "eigrp_topology_routes pd"] by (auto simp: msg_consistent_def split: option.split dest!: lookup_stored)
  then have "event_ok (next_rid R) (topo R) pd ?msg"
    using h b queues_ok_forI [OF dual_inv_queues [OF i]]
    by (auto simp: event_ok_def host_ok_def msg_linked_def transient_ok_def msg_ok_def route_type_consts)
  moreover have "msg_rid (next_rid R) ?msg \<le> next_rid R"
    using b by (auto simp: msg_rid_def split: option.split dest!: lookup_stored) 
  ultimately obtain R' where "fsm_event_on R pd ?msg = Some R'" "router_ok R'" "same_host (topo R) (topo R')"
    using fsm_event_on_ok [of R pd ?msg] R i b by (auto simp: router_ok_def)
  then show ?thesis using f keeps_event by (simp add: gr_ask_prefix_def)
qed

lemma gr_ask_loop_ok:
  assumes "router_ok R" and "host_ok n (topo R)" and "set ds \<subseteq> dests R"
  shows "\<exists>R'. gr_ask_loop n ds R = Some R' \<and> keeps R R'"
  using assms
proof (induction ds arbitrary: R)
  case Nil
  then show ?case by (simp add: keeps_refl)
next
  case (Cons d ds)
  obtain R1 where R1: "gr_ask_prefix n d R = Some R1" "keeps R R1" using gr_ask_prefix_ok Cons.prems by (metis insert_subset list.set(2))
  then have "\<exists>R'. gr_ask_loop n ds R1 = Some R' \<and> keeps R1 R'"
    using Cons.prems keepsD [OF R1(2)] by (intro Cons.IH) (auto simp: keeps_def)
  then show ?case using R1 keeps_trans by auto
qed


lemma rib_route_add_host: "eigrp_rib_route_add t x = (b, t') \<Longrightarrow> same_host t t'"
  by (auto simp: eigrp_rib_route_add_def same_host_def split: if_splits)

definition one_route :: "nat \<Rightarrow> eigrp_prefix_descriptor \<Rightarrow> bool" where
  "one_route i pd \<longleftrightarrow> (\<exists>x. rid x = i \<and> (eigrp_topology_route_external x \<and> external_routes pd = [x] \<and> internal_routes pd = []
     \<or> \<not> eigrp_topology_route_external x \<and> internal_routes pd = [x] \<and> external_routes pd = []))
     \<or> internal_routes pd = [] \<and> external_routes pd = []"

lemma one_route_ok: "one_route i pd \<Longrightarrow> queues_ok pd \<and> set (map rid (eigrp_topology_routes pd)) \<subseteq> {i}"
  by (auto simp: one_route_def queues_ok_def eigrp_topology_routes_def)

lemma external_update [simp]:
  "eigrp_topology_route_external (r\<lparr>rt_prefix := p\<rparr>) = eigrp_topology_route_external r"
  "eigrp_topology_route_external (r\<lparr>rt_flags := f\<rparr>) = eigrp_topology_route_external r"
  by (simp_all add: eigrp_topology_route_external_def)

lemma first_route:
  assumes a: "eigrp_route_descriptor_add t pd r = (t', pd', r')" and e: "internal_routes pd = []" "external_routes pd = []"
  shows "one_route (rid r) pd' \<and> same_but_queues pd pd' \<and> same_host t t'"
proof -
  let ?f = "adv_router r \<noteq> None \<and> eigrp_prefix_descriptor_lookup pd (adv_router r) = None"
  obtain ok t1 pd1 where i: "eigrp_topology_route_insert t pd r ?f = (ok, t1, pd1)" by (metis prod_cases3)
  note f = route_insert_frame [OF i]
  have h1: "same_host t t1" by (rule same_host_ops(3) [OF f(2)])
  let ?r = "r\<lparr>rt_prefix := Some (destination pd1)\<rparr>"
  have ne: "\<not> in_queue (eigrp_topology_route_class_queue pd r) r"
    using e by (simp add: eigrp_topology_route_class_queue_def in_queue_def)
  have "one_route (rid r) (pd_write pd1 x)" "one_route (rid r) (pd_write (pd_write pd1 x) y)"
    if "ok" "rid x = rid r" "rid y = rid r" "eigrp_topology_route_external x = eigrp_topology_route_external r"
      "eigrp_topology_route_external y = eigrp_topology_route_external r" for x y
    using that f(4) e by (auto simp: one_route_def queue_insert_def pd_write_def queue_write_def)
  moreover have "one_route (rid r) pd1" if "\<not> ok" using that f(4) e by (simp add: one_route_def)
  moreover have "same_but_queues pd (pd_write pd1 x)" "same_but_queues pd (pd_write (pd_write pd1 x) y)" for x y
    using f(1) same_but_queues_trans same_but_queues_ops by blast+
  moreover have "same_host t (t1\<lparr>redist_prefix_count := c\<rparr>)" "same_host t (t1\<lparr>redist_prefix_count := c, rib_calls := k\<rparr>)"
    "same_host t (t1\<lparr>rib_calls := k\<rparr>)" for c k using h1 by (simp_all add: same_host_def)
  ultimately show ?thesis
    using a i ne h1 f(1) unfolding eigrp_route_descriptor_add_def Let_def
    by (auto simp: eigrp_rib_route_add_def split: if_splits option.splits)
qed

text \<open>A new destination at the end of the table.\<close>

lemma table_add_ok:
  assumes R: "topology_ok pds" "rids_below k pds" and pd: "dual_inv pd" "\<forall>i\<in>set (map rid (eigrp_topology_routes pd)). i < k"
    and l: "eigrp_topology_table_lookup pds (destination pd) = None"
  shows "topology_ok (eigrp_prefix_descriptor_add pds pd) \<and> rids_below k (eigrp_prefix_descriptor_add pds pd)
    \<and> destination ` set pds \<subseteq> destination ` set (eigrp_prefix_descriptor_add pds pd)"
proof (cases "eigrp_topology_table_key (destination pd)")
  case None
  then show ?thesis using R by (simp add: eigrp_prefix_descriptor_add_def)
next
  case (Some key)
  let ?pd = "pd\<lparr>table_attached := True\<rparr>"
  have d: "dual_inv ?pd" using pd(1) queues_ok_cong [of ?pd pd] by (simp add: dual_inv_def)
  have r: "eigrp_topology_routes ?pd = eigrp_topology_routes pd" by (simp add: eigrp_topology_routes_def)
  have "eigrp_topology_table_key (destination x) \<noteq> Some key" if "x \<in> set pds" for x
    using l Some that by (auto simp: eigrp_topology_table_lookup_def find_None_iff)
  then have "destination pd \<notin> destination ` set pds" using Some by force
  then show ?thesis using R pd(2) d Some l r by (simp add: eigrp_prefix_descriptor_add_def topology_ok_def rids_below_def subset_insertI)
qed

lemma dual_inv_alike:
  assumes "alike pd pd'"
  shows "dual_inv pd' = dual_inv pd"
  using alike_queues_ok [OF assms] by (simp add: dual_inv_def alike_fields [OF assms])

lemma dual_inv_need_update: "dual_inv (need_update pd) = dual_inv pd"
  using queues_ok_cong [of "need_update pd" pd] by (simp add: dual_inv_def need_update_def)

lemma update_new_ok:
  assumes R: "fresh_rid (rid q) R" and h: "host_ok n (topo R)" and q: "rt_ei q \<noteq> None" "eigrp_prefix_normalize (dest q) = dest q"
    and l: "eigrp_topology_table_lookup (table R) (dest q) = None"
  shows "\<exists>R'. update_new G E n q R = Some R' \<and> keeps R R'"
proof (cases "eigrp_metric_calculate (inst (topo R)) (rt_metric q) = ucast EIGRP_MAX_METRIC
    \<or> \<not> eigrp_nbr_route_admit G (topo R) n (dest q) (ingress_metric G E q)")
  case True
  then show ?thesis using keeps_refl [OF fresh_rid_ok [OF R]] by (auto simp: update_new_def Let_def)
next
  case False
  let ?m = "ingress_metric G E q"
  let ?pd = "eigrp_topology_prefix_create\<lparr>destination := eigrp_prefix_normalize (dest q), state := EIGRP_FSM_STATE_PASSIVE,
      nt := (if classic_external G q then EIGRP_TOPOLOGY_TYPE_REMOTE_EXTERNAL else EIGRP_TOPOLOGY_TYPE_REMOTE)\<rparr>"
  let ?q = "q\<lparr>adv_router := Some n, reported_metric := ?m, reported_distance := ucast (eigrp_metric_calculate (inst (topo R)) ?m)\<rparr>"
  obtain r where r: "route_total (topo R) ?q = Some r"
    using route_total_succeeds [of "topo R" ?q] h q(1) by (auto simp: host_ok_def)
  have rid: "rid r = rid q" using r by (auto simp: route_total_def split: if_splits option.splits)
  let ?pd1 = "?pd\<lparr>fdistance := distance r, pd_distance := distance r, rdistance := distance r\<rparr>"
  let ?r1 = "r\<lparr>rt_prefix := Some (destination ?pd1), rt_flags := SUCCESSOR_FLAG\<rparr>"
  obtain t2 pd2 r2 where a: "eigrp_route_descriptor_add (topo R) ?pd1 ?r1 = (t2, pd2, r2)" by (metis prod_cases3)
  note f = first_route [OF a]
  let ?pd3 = "pd2\<lparr>fdistance := distance r2, pd_distance := distance r2, rdistance := distance r2, pd_reported_metric := total_metric r2\<rparr>"
  let ?pd4 = "need_update (eigrp_topology_update_node_flags t2 ?pd3)"
  have e: "internal_routes ?pd1 = []" "external_routes ?pd1 = []" by (simp_all add: eigrp_topology_prefix_create_def)
  have o: "one_route (rid q) ?pd3" and s2: "same_but_queues ?pd1 pd2" and h2: "same_host (topo R) t2"
    using f [OF e] rid by (simp_all add: one_route_def)
  have "dual_inv ?pd3" using one_route_ok [OF o] same_but_queuesD [OF s2] by (simp add: dual_inv_def rij_ok_def eigrp_topology_prefix_create_def)
  then have d4: "dual_inv ?pd4" using dual_inv_alike [OF node_flags_alike] dual_inv_need_update by blast
  have "set (map rid (eigrp_topology_routes ?pd4)) \<subseteq> {rid q}"
    using one_route_ok [OF o] alike_maps(3) [OF node_flags_alike [of ?pd3 t2], of rid] by (simp add: need_update_def eigrp_topology_routes_def)
  then have b4: "\<forall>i\<in>set (map rid (eigrp_topology_routes ?pd4)). i < next_rid R" using R by (auto simp: fresh_rid_def)
  have "destination ?pd4 = dest q" using alike_fields(10) [OF node_flags_alike [of ?pd3 t2]] same_but_queuesD [OF s2] q(2) by (simp add: need_update_def)
  then have "topology_ok (eigrp_prefix_descriptor_add (table R) ?pd4) \<and> rids_below (next_rid R) (eigrp_prefix_descriptor_add (table R) ?pd4)
      \<and> destination ` set (table R) \<subseteq> destination ` set (eigrp_prefix_descriptor_add (table R) ?pd4)"
    using fresh_rid_ok [OF R] l d4 b4 by (intro table_add_ok) (simp_all add: router_ok_def)
  then have "keeps R (R\<lparr>topo := changes_add t2 ?pd4, table := eigrp_prefix_descriptor_add (table R) ?pd4\<rparr>)"
    using same_host_trans [OF h2 same_host_ops(1)] by (simp add: keeps_def router_ok_def dests_def)
  then show ?thesis using False r a by (simp add: update_new_def Let_def)
qed

subsection \<open>The receiver's invariant\<close>

text \<open>A list the receiver may still use is allocated and names destinations of the table.\<close>

definition held_ok :: "nat option \<Rightarrow> eigrp_updater \<Rightarrow> bool" where
  "held_ok l U \<longleftrightarrow> (case l of None \<Rightarrow> True | Some p \<Rightarrow> (\<exists>ds. lists U p = Some ds \<and> set ds \<subseteq> dests (router U)))"

definition receiver_ok :: "nbr_id \<Rightarrow> nat option \<Rightarrow> eigrp_updater \<Rightarrow> bool" where
  "receiver_ok n gr U \<longleftrightarrow> router_ok (router U) \<and> host_ok n (topo (router U)) \<and> held_ok gr U
     \<and> held_ok (peer_init_resync_prefixes (peer U n)) U \<and> (gr \<noteq> None \<longrightarrow> gr \<noteq> peer_init_resync_prefixes (peer U n))
     \<and> (\<forall>p\<ge>next_list U. lists U p = None)"

text \<open>How one part of the receiver relates its states.\<close>

definition goes :: "nbr_id \<Rightarrow> nat option \<Rightarrow> eigrp_updater \<Rightarrow> eigrp_updater \<Rightarrow> bool" where
  "goes n gr U U' \<longleftrightarrow> receiver_ok n gr U' \<and> dests (router U) \<subseteq> dests (router U')
     \<and> nbr_gr_prefixes (peer U' n) = nbr_gr_prefixes (peer U n)"

lemma goes_trans: "goes n gr U U1 \<Longrightarrow> goes n gr' U1 U2 \<Longrightarrow> goes n gr' U U2"
  by (auto simp: goes_def)

lemma goesD: "goes n gr U U' \<Longrightarrow> receiver_ok n gr U'" by (simp add: goes_def)

lemma goes_refl: "receiver_ok n gr U \<Longrightarrow> goes n gr U U" by (simp add: goes_def)

lemma held_ok_router: "held_ok l U \<Longrightarrow> dests (router U) \<subseteq> dests R \<Longrightarrow> held_ok l (U\<lparr>router := R\<rparr>)"
  by (auto simp: held_ok_def split: option.split)

lemma goes_router: "receiver_ok n gr U \<Longrightarrow> keeps (router U) R \<Longrightarrow> goes n gr U (U\<lparr>router := R\<rparr>)"
  using held_ok_router keepsD by (auto simp: goes_def receiver_ok_def keeps_def host_ok_same)

lemma goes_records:
  assumes "receiver_ok n gr U"
  shows "goes n gr U (U\<lparr>up_calls := cs\<rparr>)"
    "(\<And>P. peer_init_resync_prefixes (f P) = peer_init_resync_prefixes P) \<Longrightarrow> (\<And>P. nbr_gr_prefixes (f P) = nbr_gr_prefixes P)
     \<Longrightarrow> goes n gr U (peer_update n f U)"
    "topology_ok (table R) \<Longrightarrow> rids_below (next_rid R) (table R) \<Longrightarrow> same_host (topo (router U)) (topo R) \<Longrightarrow> table R = table (router U)
     \<Longrightarrow> goes n gr U (U\<lparr>router := R\<rparr>)"
  using assms by (auto simp: goes_def receiver_ok_def held_ok_def peer_update_def dests_def router_ok_def host_ok_same split: option.splits)

lemma list_change_goes:
  assumes U: "receiver_ok n gr U" and l: "l = gr \<or> l = peer_init_resync_prefixes (peer U n)" and f: "\<And>ds. set (f ds) \<subseteq> set ds"
  shows "\<exists>U'. list_change f l U = Some U' \<and> goes n gr U U' \<and> router U' = router U \<and> peer U' = peer U"
proof (cases l)
  case None
  then show ?thesis using U by (simp add: list_change_def goes_refl)
next
  case (Some p)
  then have "held_ok (Some p) U" using U l by (auto simp: receiver_ok_def)
  then obtain ds where ds: "lists U p = Some ds" "set ds \<subseteq> dests (router U)" by (auto simp: held_ok_def)
  then have "set (f ds) \<subseteq> dests (router U)" using f by blast
  then have "goes n gr U (U\<lparr>lists := (lists U)(p \<mapsto> f ds)\<rparr>)"
    using U ds(1) by (auto simp: goes_def receiver_ok_def held_ok_def split: option.splits)
  then show ?thesis using Some ds(1) by (simp add: list_change_def)
qed

lemma ask_goes:
  assumes U: "receiver_ok n gr U" and l: "l = gr \<or> l = peer_init_resync_prefixes (peer U n)"
  shows "\<exists>R. eigrp_update_receive_GR_ask n l U = Some (U\<lparr>router := R\<rparr>) \<and> goes n gr U (U\<lparr>router := R\<rparr>)"
proof (cases l)
  case None
  then show ?thesis using U goes_refl [OF U] by (intro exI [of _ "router U"]) (simp add: eigrp_update_receive_GR_ask_def)
next
  case (Some p)
  then have "held_ok (Some p) U" using U l by (auto simp: receiver_ok_def)
  then obtain ds where ds: "lists U p = Some ds" "set ds \<subseteq> dests (router U)" by (auto simp: held_ok_def)
  obtain R where "gr_ask_loop n ds (router U) = Some R" "keeps (router U) R"
    using gr_ask_loop_ok [OF _ _ ds(2), of n] U unfolding receiver_ok_def by blast
  then show ?thesis using Some ds(1) goes_router [OF U] by (auto simp: eigrp_update_receive_GR_ask_def)
qed

lemma update_route_goes:
  assumes U: "receiver_ok n gr U" and R: "fresh_rid (rid q) (router U)" and q: "rt_ei q \<noteq> None" "eigrp_prefix_normalize (dest q) = dest q"
  shows "\<exists>U'. update_route G E n gr q U = Some U' \<and> goes n gr U U' \<and> peer U' = peer U"
proof (cases "eigrp_topology_table_lookup (table (router U)) (dest q)")
  case None
  have h: "host_ok n (topo (router U))" using U by (simp add: receiver_ok_def)
  obtain R' where "update_new G E n q (router U) = Some R'" "keeps (router U) R'" using update_new_ok [OF R h q None] by blast
  then show ?thesis using None goes_router [OF U] by (auto simp: update_route_def)
next
  case (Some pd)
  have pd: "pd \<in> set (table (router U))" by (rule table_lookup_mem [OF Some])
  obtain U1 where U1: "remove_received_prefix_gr gr (destination pd) U = Some U1" "goes n gr U U1" "router U1 = router U" "peer U1 = peer U"
    using list_change_goes [OF U, of gr "removeAll (destination pd)"] by (auto simp: remove_received_prefix_gr_def)
  let ?l = "peer_init_resync_prefixes (peer U1 n)"
  have ok1: "receiver_ok n gr U1" using U1(2) by (simp add: goes_def)
  have "\<exists>U2. list_delete_data ?l (destination pd) U1 = Some U2 \<and> goes n gr U1 U2 \<and> router U2 = router U1 \<and> peer U2 = peer U1"
    unfolding list_delete_data_def by (rule list_change_goes [OF ok1]) (simp_all add: set_remove1_subset)
  then obtain U2 where U2: "(if peer_init_resync_pending (peer U1 n) then list_delete_data ?l (destination pd) U1 else Some U1) = Some U2"
    "goes n gr U1 U2" "router U2 = router U1" "peer U2 = peer U1"
    using goes_refl [OF ok1] by (cases "peer_init_resync_pending (peer U1 n)") auto
  have h: "host_ok n (topo (router U2))" and ok2: "receiver_ok n gr U2" using U2(2) by (auto simp: receiver_ok_def goes_def)
  obtain R' where R': "update_known G E n q pd (router U2) = Some R'" "keeps (router U2) R'"
    using update_known_ok [OF _ h, of q pd G E] R pd U1(3) U2(3) by auto
  have "goes n gr U (U2\<lparr>router := R'\<rparr>)" using goes_trans [OF goes_trans [OF U1(2) U2(2)] goes_router [OF ok2 R'(2)]] .
  then show ?thesis using Some U1 U2 R' by (simp add: update_route_def)
qed

subsection \<open>Adjacency and flags\<close>

lemma list_delete_goes:
  assumes U: "receiver_ok n gr U" and l: "held_ok l U" "l \<noteq> None \<longrightarrow> l \<noteq> gr \<and> l \<noteq> peer_init_resync_prefixes (peer U n)"
  shows "\<exists>U'. list_delete l U = Some U' \<and> goes n gr U U' \<and> peer U' = peer U"
proof (cases l)
  case None
  then show ?thesis using U by (simp add: list_delete_def goes_refl)
next
  case (Some p)
  then obtain ds where "lists U p = Some ds" using l(1) by (auto simp: held_ok_def)
  moreover have "goes n gr U (U\<lparr>lists := (lists U)(p := None)\<rparr>)"
    using U l(2) Some by (auto simp: goes_def receiver_ok_def held_ok_def split: option.splits)
  ultimately show ?thesis using Some by (simp add: list_delete_def)
qed

lemma adjacency_update_goes:
  assumes U: "receiver_ok n None U"
  shows "\<exists>U'. adjacency_update n st U = Some U' \<and> goes n None U U'"
proof -
  let ?t = "topo (router U)"
  let ?R = "(router U)\<lparr>topo := ?t\<lparr>nbrs := (nbrs ?t)(n := (nbrs ?t n)\<lparr>nbr_state := st\<rparr>)\<rparr>\<rparr>"
  let ?U = "U\<lparr>router := ?R, up_calls := up_calls U @ [State_update n st]\<rparr>"
  have h: "same_host ?t (topo ?R)" by (simp add: same_host_def)
  have ho: "host_ok n (topo ?R)" using U host_ok_same [OF h, of n] by (simp add: receiver_ok_def)
  then have g: "goes n None U ?U"
    using U by (auto simp: goes_def receiver_ok_def held_ok_def dests_def router_ok_def split: option.splits)
  have "\<exists>U'. list_delete (peer_init_resync_prefixes (peer ?U n)) (peer_update n (\<lambda>P. P\<lparr>peer_init_sequence_number := 0,
      peer_init_retransmit_eligible := False, peer_init_resync_pending := False, peer_init_resync_prefixes := None, init_sequence_number := 0\<rparr>)
      (?U\<lparr>router := packet_received n 0 ?R\<rparr>)) = Some U' \<and> goes n None U U'"
    (is "\<exists>U'. list_delete ?l ?V = Some U' \<and> _")
  proof -
    have V: "goes n None U ?V" "held_ok ?l ?V"
      using U ho by (auto simp: goes_def receiver_ok_def held_ok_def peer_update_def packet_received_def dests_def router_ok_def split: option.splits)
    have "peer_init_resync_prefixes (peer ?V n) = None" by (simp add: peer_update_def)
    then show ?thesis using list_delete_goes [of n None ?V ?l] V goes_trans [OF V(1)] by (auto simp: goes_def)
  qed
  then show ?thesis using g goes_refl [OF U] by (cases "st = EIGRP_NEIGHBOR_DOWN") (auto simp: adjacency_update_def Let_def)
qed

lemma send_init_goes: "receiver_ok n None U \<Longrightarrow> goes n None U (eigrp_update_send_init E n U)"
proof -
  assume U: "receiver_ok n None U"
  have "goes n None U (peer_update n (\<lambda>P. P\<lparr>init_sequence_number := s\<rparr>) (U\<lparr>up_calls := cs\<rparr>))" for s cs
    by (rule goes_trans [OF goes_records(1) [OF U] goes_records(2) [OF goesD [OF goes_records(1) [OF U]]]]) simp_all
  then show ?thesis using goes_refl [OF U] by (simp add: eigrp_update_send_init_def split: option.split)
qed

lemma init_received_goes:
  assumes U: "receiver_ok n None U"
  shows "\<exists>U'. init_received E n seq seen U = Some U' \<and> goes n None U U'"
proof -
  let ?U = "if nbr_state (nbrs (topo (router U)) n) = EIGRP_NEIGHBOR_PENDING \<and> init_sequence_number (peer U n) = 0
      then eigrp_update_send_init E n U else U"
  have g: "goes n None U ?U" using send_init_goes [OF U] goes_refl [OF U] by simp
  have restart: "\<exists>U'. init_received E n seq seen U = Some U' \<and> goes n None U U'"
    if r: "nbr_state (nbrs (topo (router ?U)) n) = EIGRP_NEIGHBOR_UP \<and> seen"
  proof -
    obtain U1 where U1: "adjacency_update n EIGRP_NEIGHBOR_DOWN ?U = Some U1" "goes n None ?U U1"
      using adjacency_update_goes [OF goesD [OF g]] by blast
    then have ok1: "receiver_ok n None U1" by (simp add: goes_def)
    then obtain R where R: "eigrp_topology_neighbor_down n (router U1) = Some R" "keeps (router U1) R"
      using neighbor_down_total [of "router U1" n] unfolding receiver_ok_def keeps_def dests_def by (metis list.set_map order_refl)
    let ?V = "peer_update n (\<lambda>P. P\<lparr>peer_init_sequence_number := seq, peer_init_retransmit_eligible := (seq \<noteq> 0)\<rparr>)
        (U1\<lparr>router := packet_received n seq R\<rparr>)"
    have "keeps (router U1) (packet_received n seq R)" using R(2) by (simp add: keeps_def packet_received_def router_ok_def dests_def)
    note k = goes_router [OF ok1 this]
    have V: "goes n None U1 ?V" by (rule goes_trans [OF k goes_records(2) [OF goesD [OF k]]]) simp_all
    obtain U2 where U2: "adjacency_update n EIGRP_NEIGHBOR_PENDING ?V = Some U2" "goes n None ?V U2"
      using adjacency_update_goes [OF goesD [OF V]] by blast
    let ?W = "U2\<lparr>up_calls := up_calls U2 @ [Holddown_update n]\<rparr>"
    have W: "goes n None U2 ?W" by (rule goes_records(1) [OF goesD [OF U2(2)]])
    have "goes n None U (eigrp_update_send_init E n ?W)"
      by (rule goes_trans [OF goes_trans [OF goes_trans [OF goes_trans [OF goes_trans [OF g U1(2)] V] U2(2)] W] send_init_goes [OF goesD [OF W]]])
    then show ?thesis using r U1(1) R(1) U2(1) by (simp add: init_received_def Let_def)
  qed
  show ?thesis
  proof (cases "nbr_state (nbrs (topo (router ?U)) n) = EIGRP_NEIGHBOR_UP \<and> seen")
    case True
    then show ?thesis by (rule restart)
  next
    case False
    then have "init_received E n seq seen U = Some ?U" unfolding init_received_def Let_def by simp
    then show ?thesis using g by simp
  qed
qed

lemma prefixes_lookup_goes:
  assumes U: "receiver_ok n None U" and l: "eigrp_nbr_prefixes_lookup n U = (l, U')"
  shows "goes n l U U'" "router U' = router U" "peer U' = peer U"
    "receiver_ok n None (peer_update n (\<lambda>P. P\<lparr>peer_init_resync_prefixes := l, peer_init_resync_pending := True\<rparr>) U')"
proof -
  have "lists U (next_list U) = None" using U by (simp add: receiver_ok_def)
  moreover have "destination ` {x \<in> set (table (router U)). P x} \<subseteq> dests (router U)" for P by (auto simp: dests_def)
  ultimately show "goes n l U U'" "router U' = router U" "peer U' = peer U"
    "receiver_ok n None (peer_update n (\<lambda>P. P\<lparr>peer_init_resync_prefixes := l, peer_init_resync_pending := True\<rparr>) U')"
    using U l by (auto simp: eigrp_nbr_prefixes_lookup_def goes_def receiver_ok_def held_ok_def peer_update_def Let_def
        split: if_splits option.splits)
qed

lemma update_flags_goes:
  assumes U: "receiver_ok n None U" and gr: "nbr_gr_prefixes (peer U n) = None"
  shows "\<exists>l final U'. update_flags E n flags seq same seen U = Some (l, final, U') \<and> receiver_ok n l U'
    \<and> dests (router U) \<subseteq> dests (router U')
    \<and> (same \<or> flags \<noteq> EIGRP_INIT_FLAG + EIGRP_RS_FLAG \<longrightarrow> nbr_gr_prefixes (peer U' n) = None)"
proof -
  obtain l U1 where l: "eigrp_nbr_prefixes_lookup n U = (l, U1)" by fastforce
  note k = prefixes_lookup_goes [OF U l]
  have k': "receiver_ok n l (peer_update n (\<lambda>P. P\<lparr>nbr_gr_prefixes := l\<rparr>) U1)"
    using goesD [OF k(1)] by (simp add: receiver_ok_def held_ok_def peer_update_def split: option.splits)
  obtain U2 where "init_received E n seq seen U = Some U2" "goes n None U U2" using init_received_goes [OF U] by blast
  then show ?thesis using U gr l k k' goes_refl [OF U]
    by (auto simp: update_flags_def flag_defs goes_def peer_update_def)
qed

subsection \<open>The packet\<close>

text \<open>What the receiver needs of the decoder besides its totality: the interface and a normalised destination.\<close>

locale update_decoder = route_decoder decode for decode :: route_decode +
  assumes received: "stream_ok s \<Longrightarrow> decode i s = Some (Some q, s') \<Longrightarrow> rt_ei q \<noteq> None \<and> eigrp_prefix_normalize (dest q) = dest q"
begin

lemma update_loop_goes:
  assumes "stream_ok s" and "receiver_ok n gr U" and "length (unread s) \<le> fuel"
  shows "\<exists>U'. update_loop cont decode (update_route G E n gr) fuel s U = Some (True, U') \<and> goes n gr U U' \<and> peer U' = peer U"
  using assms
proof (induction fuel arbitrary: s U)
  case 0
  then show ?case by (auto simp: length_unread goes_refl)
next
  case (Suc fuel)
  show ?case
  proof (cases "st_getp s < st_endp s \<and> cont U")
    case False
    then show ?thesis using Suc.prems by (auto simp: goes_refl)
  next
    case True
    let ?i = "next_rid (router U)"
    let ?U = "U\<lparr>router := (router U)\<lparr>next_rid := next_rid (router U) + 1\<rparr>\<rparr>"
    have "unread s \<noteq> []" using True length_unread [OF Suc.prems(1)] by auto
    then obtain r k where d: "decode ?i s = Some (r, advance s k)" and k: "k \<le> length (unread s)" "0 < k"
      and r: "\<And>q. r = Some q \<Longrightarrow> rid q = ?i"
      using total [OF Suc.prems(1), of ?i] by (auto simp: decodes_def)
    have s': "stream_ok (advance s k)" "length (unread (advance s k)) \<le> fuel" "st_getp (advance s k) \<noteq> st_getp s"
      using advance_ok [OF Suc.prems(1) k(1)] k Suc.prems(3) by auto
    have R: "router_ok (router U)" using Suc.prems(2) by (simp add: receiver_ok_def)
    have g: "goes n gr U ?U"
      by (rule goes_records(3) [OF Suc.prems(2)]) (use R rids_below_mono in \<open>auto simp: router_ok_def\<close>)
    show ?thesis
    proof (cases r)
      case None
      obtain U' where "update_loop cont decode (update_route G E n gr) fuel (advance s k) ?U = Some (True, U')" "goes n gr ?U U'" "peer U' = peer ?U"
        using Suc.IH [OF s'(1) goesD [OF g] s'(2)] by blast
      then show ?thesis using True d s'(3) None goes_trans [OF g] by auto
    next
      case (Some q)
      have "fresh_rid (rid q) (router ?U)" using r [OF Some] R by (simp add: fresh_rid_def router_ok_def)
      then obtain U1 where U1: "update_route G E n gr q ?U = Some U1" "goes n gr ?U U1" "peer U1 = peer ?U"
        using update_route_goes [OF goesD [OF g]] received [OF Suc.prems(1)] d Some by blast
      obtain U2 where "update_loop cont decode (update_route G E n gr) fuel (advance s k) U1 = Some (True, U2)" "goes n gr U1 U2" "peer U2 = peer U1"
        using Suc.IH [OF s'(1) goesD [OF U1(2)] s'(2)] by blast
      then show ?thesis using True d Some U1 goes_trans [OF goes_trans [OF g U1(2)]] by auto
    qed
  qed
qed


end

lemma resync_complete_goes:
  assumes U: "receiver_ok n gr U"
  shows "\<exists>U'. resync_complete n U = Some U' \<and> goes n gr U U'"
proof -
  let ?l = "peer_init_resync_prefixes (peer U n)"
  let ?f = "\<lambda>P. P\<lparr>peer_init_resync_prefixes := None, peer_init_resync_pending := False\<rparr>"
  obtain R where R: "eigrp_update_receive_GR_ask n ?l U = Some (U\<lparr>router := R\<rparr>)" "goes n gr U (U\<lparr>router := R\<rparr>)" using ask_goes [OF U] by blast
  let ?U = "U\<lparr>router := R\<rparr>"
  have ok: "receiver_ok n gr ?U" by (rule goesD [OF R(2)])
  obtain U1 where U1: "list_delete ?l ?U = Some U1" "goes n gr ?U (peer_update n ?f U1)"
  proof (cases ?l)
    case None
    then show ?thesis using that [of ?U] ok by (simp add: list_delete_def goes_def receiver_ok_def held_ok_def peer_update_def split: option.splits)
  next
    case (Some p)
    then obtain ds where "lists U p = Some ds" using U by (auto simp: receiver_ok_def held_ok_def)
    then show ?thesis using that [of "?U\<lparr>lists := (lists U)(p := None)\<rparr>"] ok Some
      by (auto simp: list_delete_def goes_def receiver_ok_def held_ok_def peer_update_def split: option.splits)
  qed
  have "goes n gr U ((peer_update n ?f U1)\<lparr>up_calls := cs\<rparr>)" for cs
    using goes_trans [OF goes_trans [OF R(2) U1(2)] goes_records(1) [OF goesD [OF U1(2)]]] .
  then show ?thesis using R(1) U1(1) by (simp add: resync_complete_def Let_def)
qed

lemma update_finish_goes:
  assumes U: "receiver_ok n gr U"
  shows "\<exists>U'. update_finish n seq ei gr final complete U = Some U' \<and> goes n None U U'"
proof -
  obtain U1 where U1: "(if final then eigrp_update_receive_GR_ask n gr U else Some U) = Some U1" "goes n gr U U1"
    using ask_goes [OF U, of gr] goes_refl [OF U] by (cases final) auto
  obtain U2 where U2: "(if complete then resync_complete n U1 else Some U1) = Some U2" "goes n gr U1 U2"
    using resync_complete_goes [OF goesD [OF U1(2)]] goes_refl [OF goesD [OF U1(2)]] by (cases complete) auto
  let ?U = "if seq \<noteq> 0 then U2\<lparr>router := eigrp_hello_send_ack n (router U2)\<rparr> else U2"
  have ok2: "receiver_ok n gr U2" by (rule goesD [OF U2(2)])
  have "keeps (router U2) (eigrp_hello_send_ack n (router U2))"
    using ok2 by (simp add: receiver_ok_def keeps_def eigrp_hello_send_ack_def router_ok_def dests_def)
  then have g3: "goes n gr U2 ?U" using goes_router [OF ok2] goes_refl [OF ok2] by simp
  have R3: "router_ok (router ?U)" "memory_ok (topo (router ?U))" using goesD [OF g3] by (simp_all add: receiver_ok_def host_ok_def)
  obtain R where R: "send_all (router ?U) ei = Some R" "router_ok R" using send_all_ok [OF R3] by blast
  have "keeps (router ?U) R" using R send_all_host [OF R(1)] send_all_table [OF R(1)] by (simp add: keeps_def dests_def)
  note g4 = goes_router [OF goesD [OF g3] this]
  have g5: "goes n None (?U\<lparr>router := R\<rparr>) (?U\<lparr>router := R\<rparr>)" using goesD [OF g4] by (simp add: goes_def receiver_ok_def held_ok_def)
  obtain U3 where U3: "list_delete gr (?U\<lparr>router := R\<rparr>) = Some U3" "goes n None (?U\<lparr>router := R\<rparr>) U3"
    using list_delete_goes [OF goesD [OF g5], of gr] goesD [OF g4] by (auto simp: receiver_ok_def)
  have "goes n None U U3" by (rule goes_trans [OF goes_trans [OF goes_trans [OF goes_trans [OF U1(2) U2(2)] g3] g4] U3(2)])
  then show ?thesis using U1(1) U2(1) R(1) U3(1) by (simp add: update_finish_def Let_def)
qed

lemma init_tracking_goes:
  assumes "receiver_ok n None U" and "init_tracking n flags seq U = (b, U')"
  shows "goes n None U U'" "router U' = router U"
proof -
  have "goes n None U (peer_update n (\<lambda>P. P\<lparr>peer_init_sequence_number := s, peer_init_retransmit_eligible := c\<rparr>) U)"
    "goes n None U (peer_update n (\<lambda>P. P\<lparr>peer_init_retransmit_eligible := c\<rparr>) U)" for s c
    by (rule goes_records(2) [OF assms(1)]; simp)+
  then show "goes n None U U'" using assms(2) goes_refl [OF assms(1)] by (auto simp: init_tracking_def Let_def split: if_splits)
  show "router U' = router U" using assms(2) by (auto simp: init_tracking_def Let_def peer_update_def split: if_splits)
qed

lemma init_replayed_goes:
  assumes U: "receiver_ok n None U"
  shows "goes n None U (init_replayed n seq U)"
proof -
  obtain l U1 where l: "eigrp_nbr_prefixes_lookup n U = (l, U1)" by fastforce
  let ?V = "peer_update n (\<lambda>P. P\<lparr>peer_init_resync_prefixes := l, peer_init_resync_pending := True\<rparr>) U1"
  note k = prefixes_lookup_goes [OF U l]
  have "goes n None U ?V" using k by (simp add: goes_def peer_update_def)
  then have "goes n None U (?V\<lparr>up_calls := cs\<rparr>)" for cs using goes_trans [OF _ goes_records(1) [OF k(4)]] by blast
  then show ?thesis using goes_records(1) [OF U] l by (simp add: init_replayed_def Let_def)
qed

context update_decoder
begin

lemma update_receive_goes:
  assumes s: "stream_ok pkt" and U: "receiver_ok n None U" and gr: "nbr_gr_prefixes (peer U n) = None"
  shows "\<exists>U'. eigrp_update_receive G E decode n flags seq ei pkt U = Some U' \<and> receiver_ok n None U'
    \<and> dests (router U) \<subseteq> dests (router U')
    \<and> (flags \<noteq> EIGRP_INIT_FLAG + EIGRP_RS_FLAG \<longrightarrow> nbr_gr_prefixes (peer U' n) = None)"
proof (cases "flags = EIGRP_INIT_FLAG \<and> seq \<noteq> 0 \<and> peer_init_retransmit_eligible (peer U n) \<and> peer_init_sequence_number (peer U n) = seq")
  case True
  then show ?thesis using init_replayed_goes [OF U] gr by (simp add: eigrp_update_receive_def goes_def)
next
  case False
  obtain b U1 where t: "init_tracking n flags seq U = (b, U1)" by fastforce
  note g1 = init_tracking_goes [OF U t]
  let ?U = "U1\<lparr>router := packet_received n seq (router U1)\<rparr>"
  have "keeps (router U1) (packet_received n seq (router U1))"
    using goesD [OF g1(1)] by (simp add: receiver_ok_def keeps_def packet_received_def router_ok_def dests_def)
  note g2 = goes_trans [OF g1(1) goes_router [OF goesD [OF g1(1)] this]]
  have gr2: "nbr_gr_prefixes (peer ?U n) = None" using g2 gr by (simp add: goes_def)
  obtain l final U3 where f: "update_flags E n flags seq (recv_sequence_number (router U1) n = seq)
      (peer_init_sequence_number (peer U n) \<noteq> 0) ?U = Some (l, final, U3)" "receiver_ok n l U3"
    "dests (router ?U) \<subseteq> dests (router U3)" "flags \<noteq> EIGRP_INIT_FLAG + EIGRP_RS_FLAG \<longrightarrow> nbr_gr_prefixes (peer U3 n) = None"
    using update_flags_goes [OF goesD [OF g2] gr2] by blast
  obtain U4 where U4: "update_loop (\<lambda>U. \<not> limit_cleanup_pending G (topo (router U)) n) decode (update_route G E n l)
      (length (unread pkt)) pkt U3 = Some (True, U4)" "goes n l U3 U4"
    using update_loop_goes [OF s f(2) order_refl] by blast
  obtain U5 where U5: "update_finish n seq ei l final b U4 = Some U5" "goes n None U4 U5" using update_finish_goes [OF goesD [OF U4(2)]] by blast
  have "eigrp_update_receive G E decode n flags seq ei pkt U = Some U5"
    using t f(1) U4(1) U5(1) unfolding eigrp_update_receive_def Let_def if_not_P [OF False] by simp
  then show ?thesis using g2 f U4(2) U5(2) by (auto simp: goes_def)
qed

end

text \<open>The codecs of both families are such decoders.\<close>

lemma update_decoders:
  assumes "family_decoder A (Some i) src decode"
  shows "update_decoder decode"
proof -
  have "rt_ei q \<noteq> None \<and> eigrp_prefix_normalize (dest q) = dest q" if s: "stream_ok s" and d: "decode j s = Some (Some q, s')" for j s q s'
  proof -
    obtain V family where V: "(V, family) \<in> families" "ip_afi src = family" "addr_ok src"
      and c: "decode = (\<lambda>i'. eigrp_tlv1_decoder A True i' V (Some i)) \<or> decode = (\<lambda>i'. eigrp_tlv2_decoder A True i' V (Some i) src)"
      using assms by (auto simp: family_decoder_def)
    have "decodes s (eigrp_tlv1_decoder A True j V (Some i) s) (route_wire_ok V family)"
      "decodes s (eigrp_tlv2_decoder A True j V (Some i) src s) (route_wire_ok V family)"
      using V s ipv4.tlv1_decoder_total ipv6.tlv1_decoder_total ipv4.tlv2_decoder_total ipv6.tlv2_decoder_total by (auto simp: families_def)
    then have "route_wire_ok V family q" using c d by (auto simp: decodes_def)
    moreover have "rt_ei q = Some i" using c d tlv1_decoder_ident tlv2_decoder_ident by blast
    ultimately show ?thesis by (simp add: route_wire_ok_def)
  qed
  then show ?thesis using family_decoders [OF assms] by (intro update_decoder.intro) (auto simp: update_decoder_axioms_def)
qed

lemma classic_family:
  "family_decoder A ei (zero_addr\<lparr>ip_afi := AF_INET\<rparr>) (\<lambda>i. eigrp_tlv1_decoder A True i eigrp_ipv4_init ei)"
  "family_decoder A ei (zero_addr\<lparr>ip_afi := AF_INET6\<rparr>) (\<lambda>i. eigrp_tlv1_decoder A True i eigrp_ipv6_init ei)"
  by (auto simp: family_decoder_def families_def zero_addr_def addr_ok_def)

interpretation up4: update_decoder "\<lambda>j. eigrp_tlv1_decoder A True j eigrp_ipv4_init (Some i)" for A i
  by (rule update_decoders [OF classic_family(1)])

interpretation up6: update_decoder "\<lambda>j. eigrp_tlv1_decoder A True j eigrp_ipv6_init (Some i)" for A i
  by (rule update_decoders [OF classic_family(2)])

subsection \<open>A list that was freed\<close>

text \<open>\<open>freed p s n U\<close>: the list \<open>p\<close> is not allocated, and \<open>s\<close> was the last sequence number received.\<close>

definition freed :: "nat \<Rightarrow> u32 \<Rightarrow> nbr_id \<Rightarrow> eigrp_updater \<Rightarrow> bool" where
  "freed p s n U \<longleftrightarrow> lists U p = None \<and> recv_sequence_number (router U) n = s"

lemma recv_events:
  "fsm_event_on R pd msg = Some R' \<Longrightarrow> recv_sequence_number R' = recv_sequence_number R"
  "update_known G E n q pd R = Some R' \<Longrightarrow> recv_sequence_number R' = recv_sequence_number R"
  "update_new G E n q R = Some R' \<Longrightarrow> recv_sequence_number R' = recv_sequence_number R"
  "send_all R ei = Some R' \<Longrightarrow> recv_sequence_number R' = recv_sequence_number R"
proof -
  show e: "fsm_event_on R pd msg = Some R' \<Longrightarrow> recv_sequence_number R' = recv_sequence_number R" for R pd msg R'
    by (auto simp: fsm_event_on_def split: option.splits)
  show "update_known G E n q pd R = Some R' \<Longrightarrow> recv_sequence_number R' = recv_sequence_number R"
    using e by (auto simp: update_known_def Let_def split: if_splits prod.splits)
  show "update_new G E n q R = Some R' \<Longrightarrow> recv_sequence_number R' = recv_sequence_number R"
    by (auto simp: update_new_def Let_def split: if_splits option.splits prod.splits)
  show "send_all R ei = Some R' \<Longrightarrow> recv_sequence_number R' = recv_sequence_number R"
    by (auto simp: send_all_def eigrp_query_send_all_def update_send_all_def split: if_splits option.splits)
qed

lemma gr_ask_loop_recv: "gr_ask_loop n ds R = Some R' \<Longrightarrow> recv_sequence_number R' = recv_sequence_number R"
  by (induction ds arbitrary: R) (auto simp: gr_ask_prefix_def recv_events(1) split: option.splits)

lemma freed_lists:
  "list_change f l U = Some U' \<Longrightarrow> freed p s n U \<Longrightarrow> freed p s n U'" "list_delete l U = Some U' \<Longrightarrow> freed p s n U \<Longrightarrow> freed p s n U'"
  "eigrp_update_receive_GR_ask n l U = Some U' \<Longrightarrow> freed p s n U \<Longrightarrow> freed p s n U'"
  by (auto simp: list_change_def list_delete_def eigrp_update_receive_GR_ask_def freed_def gr_ask_loop_recv split: option.splits if_splits)

lemma freed_route: "update_route G E n gr q U = Some U' \<Longrightarrow> freed p s n U \<Longrightarrow> freed p s n U'"
proof -
  assume u: "update_route G E n gr q U = Some U'" and f: "freed p s n U"
  have r: "freed p s n V \<Longrightarrow> recv_sequence_number R = recv_sequence_number (router V) \<Longrightarrow> freed p s n (V\<lparr>router := R\<rparr>)" for V R by (simp add: freed_def)
  show "freed p s n U'" using u f r recv_events(2,3) freed_lists(1)
    unfolding update_route_def remove_received_prefix_gr_def list_delete_data_def
    by (fastforce split: option.splits if_splits)
qed

lemma freed_update: "freed p s n (U\<lparr>up_calls := cs\<rparr>) = freed p s n U" "freed p s n (peer_update m f U) = freed p s n U"
  "freed p s n (U\<lparr>router := (router U)\<lparr>next_rid := i\<rparr>\<rparr>) = freed p s n U"
  by (simp_all add: freed_def peer_update_def)

lemma freed_resync: "resync_complete n U = Some U' \<Longrightarrow> freed p s n U \<Longrightarrow> freed p s n U'"
  using freed_lists(2,3) by (auto simp: resync_complete_def Let_def freed_update split: option.splits)

lemma update_finish_steps:
  assumes "update_finish n seq ei gr final complete U = Some U'"
  obtains U1 U2 where "(if final then eigrp_update_receive_GR_ask n gr U else Some U) = Some U1"
    "(if complete then resync_complete n U1 else Some U1) = Some U2"
    "\<exists>R. recv_sequence_number R = recv_sequence_number (router U2) \<and> list_delete gr (U2\<lparr>router := R\<rparr>) = Some U'"
proof -
  obtain U1 U2 R where U: "(if final then eigrp_update_receive_GR_ask n gr U else Some U) = Some U1"
    "(if complete then resync_complete n U1 else Some U1) = Some U2"
    and R: "send_all (if seq \<noteq> 0 then eigrp_hello_send_ack n (router U2) else router U2) ei = Some R"
      "list_delete gr (U2\<lparr>router := R\<rparr>) = Some U'"
    using assms by (auto simp: update_finish_def Let_def split: option.splits if_splits)
  have "recv_sequence_number R = recv_sequence_number (router U2)"
    using recv_events(4) [OF R(1)] by (simp add: eigrp_hello_send_ack_def split: if_splits)
  then show thesis using that [OF U] R(2) by blast
qed

lemma freed_finish: "update_finish n seq ei (Some p) final complete U = Some U' \<Longrightarrow> \<not> freed p s n U"
proof
  assume "update_finish n seq ei (Some p) final complete U = Some U'" "freed p s n U"
  then obtain U2 R where U2: "freed p s n U2" "list_delete (Some p) (U2\<lparr>router := R\<rparr>) = Some U'"
    using freed_lists(3) freed_resync by (elim update_finish_steps) (metis option.sel)
  then show False by (simp add: freed_def list_delete_def)
qed

lemma received_finish:
  assumes "update_finish n seq ei (Some p) final complete U = Some U'"
  shows "freed p (recv_sequence_number (router U) n) n U'"
proof -
  have k: "recv_sequence_number (router V') n = recv_sequence_number (router V) n"
    if "eigrp_update_receive_GR_ask n l V = Some V' \<or> resync_complete n V = Some V'" for l V V'
    using that by (auto simp: eigrp_update_receive_GR_ask_def resync_complete_def list_delete_def peer_update_def Let_def gr_ask_loop_recv
        split: option.splits)
  obtain U2 R where U2: "recv_sequence_number (router U2) n = recv_sequence_number (router U) n"
    "recv_sequence_number R = recv_sequence_number (router U2)" "list_delete (Some p) (U2\<lparr>router := R\<rparr>) = Some U'"
    using assms k by (elim update_finish_steps) (metis option.sel)
  then show ?thesis by (auto simp: freed_def list_delete_def split: option.splits)
qed

context route_decoder
begin

lemma freed_loop:
  assumes "update_loop cont decode (update_route G E n gr) fuel pkt U = Some (b, U')" and "stream_ok pkt" and "freed p s n U"
  shows "b \<and> freed p s n U'"
  using assms
proof (induction fuel arbitrary: pkt U)
  case 0
  then show ?case by (auto split: if_splits)
next
  case (Suc fuel)
  show ?case
  proof (cases "st_getp pkt < st_endp pkt \<and> cont U")
    case False
    then show ?thesis using Suc.prems by auto
  next
    case True
    let ?U = "U\<lparr>router := (router U)\<lparr>next_rid := next_rid (router U) + 1\<rparr>\<rparr>"
    have "unread pkt \<noteq> []" using True length_unread [OF Suc.prems(2)] by auto
    then obtain r k where d: "decode (next_rid (router U)) pkt = Some (r, advance pkt k)" and k: "k \<le> length (unread pkt)" "0 < k"
      using total [OF Suc.prems(2), of "next_rid (router U)"] by (auto simp: decodes_def)
    have s': "stream_ok (advance pkt k)" "st_getp (advance pkt k) \<noteq> st_getp pkt" using advance_ok [OF Suc.prems(2) k(1)] k by auto
    have "freed p s n ?U" using Suc.prems(3) by (simp add: freed_update)
    then have "\<exists>U1. update_loop cont decode (update_route G E n gr) fuel (advance pkt k) U1 = Some (b, U') \<and> freed p s n U1"
      using s'(2) Suc.prems(1) True d freed_route [of G E n gr _ ?U] by (cases r) (auto split: option.splits)
    then show ?thesis using Suc.IH s'(1) by blast
  qed
qed

end

text \<open>The next packet of a restarting neighbour finds the list that the first one freed.\<close>

context route_decoder
begin

lemma continuation_faults:
  assumes s: "stream_ok pkt" and f: "freed p s1 n U" and gr: "nbr_gr_prefixes (peer U n) = Some p" and q: "seq \<noteq> s1"
    and flags: "flags = 0 \<or> flags = EIGRP_EOT_FLAG"
  shows "eigrp_update_receive G E decode n flags seq ei pkt U = None"
proof -
  have ni: "\<not> (flags = EIGRP_INIT_FLAG \<and> seq \<noteq> 0 \<and> peer_init_retransmit_eligible (peer U n) \<and> peer_init_sequence_number (peer U n) = seq)"
    using flags by (auto simp: flag_defs)
  obtain b U1 where t: "init_tracking n flags seq U = (b, U1)" by fastforce
  have U1: "nbr_gr_prefixes (peer U1 n) = Some p" "router U1 = router U" "lists U1 = lists U"
    using t gr by (auto simp: init_tracking_def Let_def peer_update_def split: if_splits)
  let ?U = "U1\<lparr>router := packet_received n seq (router U1)\<rparr>"
  have ns: "recv_sequence_number (router U1) n \<noteq> seq" using f q U1(2) by (auto simp: freed_def)
  have "\<exists>final U2. update_flags E n flags seq False (peer_init_sequence_number (peer U n) \<noteq> 0) ?U = Some (Some p, final, U2) \<and> freed p seq n U2"
    using flags U1 f by (auto simp: update_flags_def flag_defs freed_def peer_update_def packet_received_def)
  then obtain final U2 where u: "update_flags E n flags seq False (peer_init_sequence_number (peer U n) \<noteq> 0) ?U = Some (Some p, final, U2)"
    and U2: "freed p seq n U2" by blast
  let ?l = "update_loop (\<lambda>U. \<not> limit_cleanup_pending G (topo (router U)) n) decode (update_route G E n (Some p)) (length (unread pkt)) pkt U2"
  have "update_finish n seq ei (Some p) final b U3 = None" if "?l = Some (True, U3)" for U3
    using freed_loop [OF that s U2] freed_finish by (cases "update_finish n seq ei (Some p) final b U3") auto
  moreover have "\<nexists>U3. ?l = Some (False, U3)" using freed_loop [OF _ s U2] by blast
  ultimately show ?thesis
    using t u ns unfolding eigrp_update_receive_def Let_def if_not_P [OF ni] by (auto split: option.split bool.split)
qed

end

context update_decoder
begin

lemma restart_frees:
  assumes s: "stream_ok pkt" and U: "receiver_ok n None U" and q: "recv_sequence_number (router U) n \<noteq> seq"
  shows "\<exists>U' p. eigrp_update_receive G E decode n (EIGRP_INIT_FLAG + EIGRP_RS_FLAG) seq ei pkt U = Some U'
    \<and> freed p seq n U' \<and> nbr_gr_prefixes (peer U' n) = Some p"
proof -
  let ?U = "U\<lparr>router := packet_received n seq (router U)\<rparr>"
  have t: "init_tracking n (EIGRP_INIT_FLAG + EIGRP_RS_FLAG) seq U = (False, U)" by (simp add: init_tracking_def flag_defs)
  have "keeps (router U) (packet_received n seq (router U))"
    using U by (simp add: receiver_ok_def keeps_def packet_received_def router_ok_def dests_def)
  note g = goesD [OF goes_router [OF U this]]
  obtain l U1 where l: "eigrp_nbr_prefixes_lookup n ?U = (l, U1)" by fastforce
  note k = prefixes_lookup_goes [OF g l]
  obtain p where p: "l = Some p" using l g by (auto simp: eigrp_nbr_prefixes_lookup_def receiver_ok_def host_ok_def memory_ok_def Let_def)
  let ?V = "peer_update n (\<lambda>P. P\<lparr>nbr_gr_prefixes := l\<rparr>) U1"
  have f: "update_flags E n (EIGRP_INIT_FLAG + EIGRP_RS_FLAG) seq False c ?U = Some (l, False, ?V)" for c
    using l by (simp add: update_flags_def flag_defs)
  have V: "receiver_ok n l ?V" using goesD [OF k(1)] by (simp add: receiver_ok_def held_ok_def peer_update_def split: option.splits)
  obtain U2 where U2: "update_loop (\<lambda>U. \<not> limit_cleanup_pending G (topo (router U)) n) decode (update_route G E n l)
      (length (unread pkt)) pkt ?V = Some (True, U2)" "goes n l ?V U2" using update_loop_goes [OF s V order_refl] by blast
  obtain U3 where U3: "update_finish n seq ei l False False U2 = Some U3" "goes n None U2 U3" using update_finish_goes [OF goesD [OF U2(2)]] by blast
  have gr: "nbr_gr_prefixes (peer U3 n) = Some p" using U2(2) U3(2) p by (simp add: goes_def peer_update_def)
  have "freed (next_list ?V) seq n ?V" using V k(2) by (simp add: freed_def receiver_ok_def peer_update_def packet_received_def)
  then have "recv_sequence_number (router U2) n = seq" using freed_loop [OF U2(1) s] unfolding freed_def by blast
  then have "freed p seq n U3" using received_finish U3(1) p by metis
  then show ?thesis using t f q U2(1) U3(1) gr unfolding eigrp_update_receive_def Let_def by (auto simp: flag_defs)
qed

end

subsection \<open>Properties\<close>

text \<open>A series of UPDATEs of one neighbour: the environment at the time, the flags, the sequence number, the interface and the packet.\<close>

type_synonym update_arrival = "update_env \<times> u32 \<times> u32 \<times> intf_id option \<times> eigrp_stream"

fun updates_receive ::
    "ingress \<Rightarrow> route_decode \<Rightarrow> nbr_id \<Rightarrow> update_arrival list \<Rightarrow> eigrp_updater \<Rightarrow> eigrp_updater option" where
  "updates_receive G decode n [] U = Some U"
| "updates_receive G decode n ((E, flags, seq, ei, pkt) # ps) U =
     Option.bind (eigrp_update_receive G E decode n flags seq ei pkt U) (updates_receive G decode n ps)"

text \<open>No packet but the last one starts a graceful restart.\<close>

fun restart_last :: "update_arrival list \<Rightarrow> bool" where
  "restart_last [] = True"
| "restart_last [p] = True"
| "restart_last ((E, flags, p) # q # ps) = (flags \<noteq> EIGRP_INIT_FLAG + EIGRP_RS_FLAG \<and> restart_last (q # ps))"

definition packets_ok :: "update_arrival list \<Rightarrow> bool" where
  "packets_ok ps = list_all (\<lambda>(E, flags, seq, ei, pkt). stream_ok pkt) ps"

lemma updates_receive_goes:
  assumes "family_decoder A (Some i) src decode" and "packets_ok ps" and "restart_last ps"
    and "receiver_ok n None U" and "nbr_gr_prefixes (peer U n) = None"
  shows "\<exists>U'. updates_receive G decode n ps U = Some U' \<and> receiver_ok n None U' \<and> dests (router U) \<subseteq> dests (router U')"
  using assms(2-5)
proof (induction ps arbitrary: U rule: restart_last.induct)
  case (2 p)
  obtain E flags seq ei pkt where p: "p = (E, flags, seq, ei, pkt)" by (cases p)
  then have s: "stream_ok pkt" using 2(1) by (simp add: packets_ok_def)
  obtain U1 where "eigrp_update_receive G E decode n flags seq ei pkt U = Some U1" "receiver_ok n None U1"
    "dests (router U) \<subseteq> dests (router U1)"
    using update_decoder.update_receive_goes [OF update_decoders [OF assms(1)] s 2(3,4)] by blast
  then show ?case using p by simp
next
  case (3 E flags p q ps)
  obtain seq ei pkt where p: "p = (seq, ei, pkt)" by (cases p)
  have s: "stream_ok pkt" "packets_ok (q # ps)" "flags \<noteq> EIGRP_INIT_FLAG + EIGRP_RS_FLAG" "restart_last (q # ps)"
    using 3(2,3) p by (auto simp: packets_ok_def)
  obtain U1 where U1: "eigrp_update_receive G E decode n flags seq ei pkt U = Some U1" "receiver_ok n None U1"
    "dests (router U) \<subseteq> dests (router U1)" "nbr_gr_prefixes (peer U1 n) = None"
    using update_decoder.update_receive_goes [OF update_decoders [OF assms(1)] s(1) 3(4,5)] s(3) by blast
  show ?case using 3(1) [OF s(2,4) U1(2,4)] U1(1,3) p by auto
qed simp

text \<open>
  C20: Receiving the UPDATEs of a neighbour is safe whatever their bytes, flags and sequence numbers are.  The hypotheses: no list of a graceful
  restart is pending for the neighbour, no packet of the series but the last one starts such a restart (has the flags INIT and RS and no
  others; what happens after one is C37), and the list kept for the replay of an INIT, if there is one, is allocated and names
  destinations that still are in the table.  Then, for both codecs and both address families,
  the receiver returns from every packet without a fault (new destinations, known ones, withdrawals, INIT and its retransmissions, the
  restart of a peer, and the end of a replay included), every destination satisfies the invariant of the DUAL machine, no destination is
  lost, and the list kept for the next packet is again allocated and names destinations of the table.
\<close>

theorem update_receive_total:
  assumes "family_decoder A (Some i) src decode" and "packets_ok ps" and "restart_last ps"
    and "receiver_ok n None U" and "nbr_gr_prefixes (peer U n) = None"
  shows "\<exists>U'. updates_receive G decode n ps U = Some U' \<and> receiver_ok n None U'
    \<and> destination ` set (table (router U)) \<subseteq> destination ` set (table (router U'))"
  using updates_receive_goes [OF assms] by (simp add: dests_def)

definition sample_peer :: update_peer where
  "sample_peer = \<lparr>peer_init_sequence_number = 0, peer_init_retransmit_eligible = False, peer_init_resync_pending = False,
     peer_init_resync_prefixes = None, nbr_gr_prefixes = None, init_sequence_number = 0, peer_limited = False\<rparr>"

definition sample_updater :: eigrp_updater where
  "sample_updater = \<lparr>router = sample_router, peer = (\<lambda>_. sample_peer), lists = (\<lambda>_. None), next_list = 0, up_calls = []\<rparr>"

definition sample_update_env :: update_env where
  "sample_update_env = \<lparr>offset_in = (\<lambda>_ m. m), topology_prefix_admit = (\<lambda>_ _. True), init_packet = Some 9\<rparr>"

lemma sample_updater_ok: "receiver_ok 2 None sample_updater" "nbr_gr_prefixes (peer sample_updater 2) = None"
  "recv_sequence_number (router sample_updater) 2 = 0"
  using sample_router_ok by (simp_all add: receiver_ok_def held_ok_def sample_updater_def sample_peer_def) (simp add: sample_router_def)

theorem update_receive_total_witness:
  "\<exists>U'. updates_receive sample_ingress (\<lambda>i. eigrp_tlv1_decoder zero_alloc True i eigrp_ipv4_init (Some 1)) 2
      [(sample_update_env, EIGRP_INIT_FLAG, 7, Some 1, sample_stream), (sample_update_env, EIGRP_EOT_FLAG, 8, Some 1, sample_stream)]
      sample_updater = Some U' \<and> receiver_ok 2 None U'"
proof -
  let ?ps = "[(sample_update_env, EIGRP_INIT_FLAG, 7, Some 1, sample_stream), (sample_update_env, EIGRP_EOT_FLAG, 8, Some 1, sample_stream)]
    :: update_arrival list"
  have "packets_ok ?ps" "restart_last ?ps" using sample_stream_ok by (simp_all add: packets_ok_def flag_defs)
  then show ?thesis using update_receive_total [OF classic_family(1) _ _ sample_updater_ok(1,2)] by blast
qed

text \<open>
  C37: A graceful restart of a neighbour that takes more than one packet makes the receiver use memory it has freed: the first UPDATE
  (flags INIT and RS) stores its list of prefixes in the neighbour and frees it at the end, so that any following UPDATE with
  the flags 0 or EOT works on the freed list, and at the latest frees it again.
\<close>

theorem gr_continuation_faults:
  assumes "family_decoder A (Some i) src decode" and "stream_ok pkt" and "stream_ok pkt'" and "receiver_ok n None U"
    and "recv_sequence_number (router U) n \<noteq> seq" and "seq' \<noteq> seq" and "flags = 0 \<or> flags = EIGRP_EOT_FLAG"
  shows "\<exists>U'. eigrp_update_receive G E decode n (EIGRP_INIT_FLAG + EIGRP_RS_FLAG) seq ei pkt U = Some U'
    \<and> eigrp_update_receive G E decode n flags seq' ei pkt' U' = None"
proof -
  obtain U' p where "eigrp_update_receive G E decode n (EIGRP_INIT_FLAG + EIGRP_RS_FLAG) seq ei pkt U = Some U'"
    "freed p seq n U'" "nbr_gr_prefixes (peer U' n) = Some p"
    using update_decoder.restart_frees [OF update_decoders [OF assms(1)] assms(2,4,5)] by blast
  then show ?thesis using route_decoder.continuation_faults [OF family_decoders [OF assms(1)] assms(3) _ _ assms(6,7)] by blast
qed

theorem gr_continuation_faults_witness:
  "\<exists>U'. eigrp_update_receive sample_ingress sample_update_env (\<lambda>i. eigrp_tlv1_decoder zero_alloc True i eigrp_ipv4_init (Some 1)) 2
        (EIGRP_INIT_FLAG + EIGRP_RS_FLAG) 7 (Some 1) sample_stream sample_updater = Some U'
     \<and> eigrp_update_receive sample_ingress sample_update_env (\<lambda>i. eigrp_tlv1_decoder zero_alloc True i eigrp_ipv4_init (Some 1)) 2
        EIGRP_EOT_FLAG 8 (Some 1) sample_stream U' = None"
  using gr_continuation_faults [OF classic_family(1) sample_stream_ok sample_stream_ok sample_updater_ok(1), of 7 8 EIGRP_EOT_FLAG] sample_updater_ok(3)
  by simp

end
