(* ===== verification/Eigrp_Timer.thy ===== *)
theory Eigrp_Timer
  imports Eigrp_Prelude
begin

text \<open>
  Timers (\<^verbatim>\<open>eigrp_timer.c\<close>, and the dequeue of \<^verbatim>\<open>eigrp_packet.c\<close>): a list of events in order of their due time; each event
  knows the slot that owns it, and the slot points back to it.  \<open>slots\<close> gives the pointer stored in each owner slot,
  \<open>next_ptr\<close> is the identity of the next event to be allocated.  The locale \<open>timer_service\<close> is what the clients see: a
  map from slots to deadlines.
\<close>

subsection \<open>State and operations\<close>

record eigrp_timer_event =
  ev_ptr :: nat
  ev_owner :: nat
  ev_callback :: nat
  ev_arg :: nat
  due_msec :: u64

record eigrp_timers =
  timer_head :: "eigrp_timer_event list"
  slots :: "nat \<Rightarrow> nat option"
  tm_shutdown :: bool
  tm_running :: bool
  next_ptr :: nat

fun eigrp_timer_unlink_locked :: "nat \<Rightarrow> eigrp_timer_event list \<Rightarrow> eigrp_timer_event list" where
  "eigrp_timer_unlink_locked p [] = []"
| "eigrp_timer_unlink_locked p (e # es) = (if ev_ptr e = p then es else e # eigrp_timer_unlink_locked p es)"

definition eigrp_timer_cancel :: "eigrp_timers \<Rightarrow> nat \<Rightarrow> eigrp_timers" where
  "eigrp_timer_cancel s own =
     (case slots s own of
        None \<Rightarrow> s
      | Some p \<Rightarrow> s\<lparr>slots := (slots s)(own := None), timer_head := eigrp_timer_unlink_locked p (timer_head s)\<rparr>)"

text \<open>Before the first event that is due later: events of equal time keep their order.\<close>

fun timer_insert :: "eigrp_timer_event \<Rightarrow> eigrp_timer_event list \<Rightarrow> eigrp_timer_event list" where
  "timer_insert e [] = [e]"
| "timer_insert e (x # xs) = (if due_msec e < due_msec x then e # x # xs else x # timer_insert e xs)"

definition eigrp_timer_add :: "bool \<Rightarrow> u64 \<Rightarrow> eigrp_timers \<Rightarrow> nat \<Rightarrow> nat \<Rightarrow> nat \<Rightarrow> u32 \<Rightarrow> eigrp_timers" where
  "eigrp_timer_add calloc_ok now s own cb a delay_msec =
     (let s = eigrp_timer_cancel s own
      in if \<not> calloc_ok then s
         else if tm_shutdown s \<or> \<not> tm_running s then s
         else
           let e = \<lparr>ev_ptr = next_ptr s, ev_owner = own, ev_callback = cb, ev_arg = a, due_msec = now + ucast delay_msec\<rparr>
           in s\<lparr>timer_head := timer_insert e (timer_head s), slots := (slots s)(own := Some (next_ptr s)), next_ptr := next_ptr s + 1\<rparr>)"

definition eigrp_timer_remaining_seconds :: "u64 \<Rightarrow> eigrp_timer_event option \<Rightarrow> u32" where
  "eigrp_timer_remaining_seconds now event =
     (case event of
        None \<Rightarrow> 0
      | Some e \<Rightarrow> if now < due_msec e then ucast ((due_msec e - now + 999) div 1000) else 0)"

definition slot_release :: "eigrp_timer_event \<Rightarrow> (nat \<Rightarrow> nat option) \<Rightarrow> nat \<Rightarrow> nat option" where
  "slot_release e sl = (if sl (ev_owner e) = Some (ev_ptr e) then sl(ev_owner e := None) else sl)"

definition eigrp_timer_cancel_all :: "eigrp_timers \<Rightarrow> eigrp_timers" where
  "eigrp_timer_cancel_all s = s\<lparr>timer_head := [], slots := fold slot_release (timer_head s) (slots s)\<rparr>"

definition eigrp_instance_timer_due_dequeue :: "u64 \<Rightarrow> eigrp_timers \<Rightarrow> eigrp_timer_event option \<times> eigrp_timers" where
  "eigrp_instance_timer_due_dequeue now s =
     (case timer_head s of
        [] \<Rightarrow> (None, s)
      | e # es \<Rightarrow>
          if due_msec e \<le> now then (Some e, s\<lparr>timer_head := es, slots := slot_release e (slots s)\<rparr>) else (None, s))"

subsection \<open>The active time\<close>

text \<open>
  The configured active time of DUAL.  A context has a configuration, which may hold a timer block, and a runtime; a call from
  another thread is executed by the instance thread with the same arguments.
\<close>

record eigrp_timer_config =
  active_time_configured :: bool
  active_time_seconds :: u16

record timer_context =
  ctx_config :: "eigrp_timer_config option option"
  ctx_runtime :: bool

definition eigrp_timer_active_time_update ::
    "bool \<Rightarrow> eigrp_operation \<Rightarrow> timer_context option \<Rightarrow> u16 \<Rightarrow> eigrp_result \<times> timer_context option" where
  "eigrp_timer_active_time_update calloc_ok operation context seconds =
     (case context of
        None \<Rightarrow> (EIGRP_RESULT_NOT_FOUND, None)
      | Some c \<Rightarrow>
          if ctx_config c = None \<and> \<not> ctx_runtime c then (EIGRP_RESULT_NOT_FOUND, Some c)
          else (case operation of
                  EIGRP_RESET \<Rightarrow>
                    (EIGRP_RESULT_SUCCESS,
                     Some (c\<lparr>ctx_config := map_option (map_option (\<lambda>_. \<lparr>active_time_configured = False, active_time_seconds = 0\<rparr>)) (ctx_config c)\<rparr>))
                | EIGRP_SET \<Rightarrow>
                    (case ctx_config c of
                       None \<Rightarrow> (EIGRP_RESULT_SUCCESS, Some c)
                     | Some tc \<Rightarrow>
                         if tc = None \<and> \<not> calloc_ok then (EIGRP_RESULT_INTERNAL_FAILURE, Some c)
                         else (EIGRP_RESULT_SUCCESS,
                               Some (c\<lparr>ctx_config := Some (Some \<lparr>active_time_configured = True, active_time_seconds = seconds\<rparr>)\<rparr>)))))"

definition eigrp_timer_active_time_seconds :: "eigrp_timer_config option option \<Rightarrow> u16" where
  "eigrp_timer_active_time_seconds af =
     (case af of
        Some (Some tc) \<Rightarrow> if active_time_configured tc then active_time_seconds tc else 180
      | _ \<Rightarrow> 180)"

subsection \<open>The timer service\<close>

text \<open>A slot is set exactly when its event is queued.\<close>

definition timers_ok :: "eigrp_timers \<Rightarrow> bool" where
  "timers_ok s \<longleftrightarrow> sorted (map due_msec (timer_head s)) \<and> distinct (map ev_ptr (timer_head s))
     \<and> (\<forall>e\<in>set (timer_head s). ev_ptr e < next_ptr s)
     \<and> (\<forall>own p. slots s own = Some p \<longleftrightarrow> (\<exists>e\<in>set (timer_head s). ev_ptr e = p \<and> ev_owner e = own))"

definition timer_map :: "eigrp_timers \<Rightarrow> nat \<rightharpoonup> (u64 \<times> nat \<times> nat)" where
  "timer_map s own = map_option (\<lambda>e. (due_msec e, ev_callback e, ev_arg e)) (find (\<lambda>e. ev_owner e = own) (timer_head s))"

lemma owners_distinct: "timers_ok s \<Longrightarrow> distinct (map ev_owner (timer_head s))"
proof -
  assume s: "timers_ok s"
  have d: "distinct (map ev_ptr (timer_head s))" using s by (simp add: timers_ok_def)
  have "ev_ptr e = ev_ptr f" if "e \<in> set (timer_head s)" "f \<in> set (timer_head s)" "ev_owner e = ev_owner f" for e f
  proof -
    have "slots s (ev_owner e) = Some (ev_ptr e)" "slots s (ev_owner f) = Some (ev_ptr f)" using s that by (auto simp: timers_ok_def)
    then show ?thesis using that(3) by simp
  qed
  then show ?thesis using d unfolding distinct_map inj_on_def by blast
qed

lemma timer_map_iff:
  assumes "timers_ok s"
  shows "timer_map s own = Some (d, c, a) \<longleftrightarrow> (\<exists>e\<in>set (timer_head s). ev_owner e = own \<and> due_msec e = d \<and> ev_callback e = c \<and> ev_arg e = a)"
proof
  assume "timer_map s own = Some (d, c, a)"
  then show "\<exists>e\<in>set (timer_head s). ev_owner e = own \<and> due_msec e = d \<and> ev_callback e = c \<and> ev_arg e = a"
    by (auto simp: timer_map_def dest: find_Some_set)
next
  assume "\<exists>e\<in>set (timer_head s). ev_owner e = own \<and> due_msec e = d \<and> ev_callback e = c \<and> ev_arg e = a"
  then obtain e where e: "e \<in> set (timer_head s)" "ev_owner e = own" "due_msec e = d" "ev_callback e = c" "ev_arg e = a" by blast
  obtain f where f: "find (\<lambda>e. ev_owner e = own) (timer_head s) = Some f"
    using e(1,2) by (cases "find (\<lambda>e. ev_owner e = own) (timer_head s)") (auto simp: find_None_iff)
  then have "f = e" using owners_distinct [OF assms] e(1,2) distinct_map_eq [of ev_owner "timer_head s" f e] by (auto dest: find_Some_set)
  then show "timer_map s own = Some (d, c, a)" using f e by (simp add: timer_map_def)
qed

lemma timer_map_None: "timer_map s own = None \<longleftrightarrow> (\<forall>e\<in>set (timer_head s). ev_owner e \<noteq> own)"
  by (auto simp: timer_map_def find_None_iff)

lemma timer_map_slots: "timers_ok s \<Longrightarrow> timer_map s own = None \<longleftrightarrow> slots s own = None"
  by (auto simp: timer_map_None timers_ok_def) (metis not_None_eq)+

subsection \<open>Cancelling\<close>

lemma unlink_filter: "distinct (map ev_ptr es) \<Longrightarrow> eigrp_timer_unlink_locked p es = filter (\<lambda>e. ev_ptr e \<noteq> p) es"
proof (induction es)
  case (Cons e es)
  have "\<forall>x\<in>set es. ev_ptr x \<noteq> ev_ptr e" using distinct_map_Cons [OF Cons.prems] by blast
  then show ?case using Cons by (auto intro!: filter_True [symmetric])
qed simp

lemma sorted_filter_due: "sorted (map due_msec es) \<Longrightarrow> sorted (map due_msec (filter P es))"
  by (induction es) auto


lemma cancel_head:
  assumes "timers_ok s"
  shows "timer_head (eigrp_timer_cancel s own) = filter (\<lambda>e. ev_owner e \<noteq> own) (timer_head s)"
    and "slots (eigrp_timer_cancel s own) = (slots s)(own := None)"
proof -
  note o = owners_distinct [OF assms]
  have d: "distinct (map ev_ptr (timer_head s))" using assms by (simp add: timers_ok_def)
  show "timer_head (eigrp_timer_cancel s own) = filter (\<lambda>e. ev_owner e \<noteq> own) (timer_head s)"
  proof (cases "slots s own")
    case None
    then have "\<forall>e\<in>set (timer_head s). ev_owner e \<noteq> own" using timer_map_slots [OF assms] timer_map_None by blast
    then show ?thesis using None by (simp add: eigrp_timer_cancel_def)
  next
    case (Some p)
    then obtain f where f: "f \<in> set (timer_head s)" "ev_ptr f = p" "ev_owner f = own" using assms by (auto simp: timers_ok_def)
    have "ev_ptr e \<noteq> p \<longleftrightarrow> ev_owner e \<noteq> own" if "e \<in> set (timer_head s)" for e
      using that f distinct_map_eq [OF d] distinct_map_eq [OF o] by metis
    then show ?thesis using Some by (simp add: eigrp_timer_cancel_def unlink_filter [OF d] cong: filter_cong)
  qed
  show "slots (eigrp_timer_cancel s own) = (slots s)(own := None)"
    by (auto simp: eigrp_timer_cancel_def fun_eq_iff split: option.split)
qed

lemma cancel_frame [simp]:
  "tm_shutdown (eigrp_timer_cancel s own) = tm_shutdown s" "tm_running (eigrp_timer_cancel s own) = tm_running s"
  "next_ptr (eigrp_timer_cancel s own) = next_ptr s"
  by (simp_all add: eigrp_timer_cancel_def split: option.split)

lemma cancel_ok: "timers_ok s \<Longrightarrow> timers_ok (eigrp_timer_cancel s own)"
proof -
  assume s: "timers_ok s"
  then show ?thesis unfolding timers_ok_def cancel_head [OF s] cancel_frame
    by (auto intro: sorted_filter_due distinct_map_filter)
qed

lemma find_filter_owner: "find (\<lambda>e. ev_owner e = x) (filter (\<lambda>e. ev_owner e \<noteq> own) es) = (if x = own then None else find (\<lambda>e. ev_owner e = x) es)"
  by (induction es) auto

lemma cancel_map: "timers_ok s \<Longrightarrow> timer_map (eigrp_timer_cancel s own) = (timer_map s)(own := None)"
  by (auto simp: timer_map_def fun_eq_iff cancel_head find_filter_owner)

subsection \<open>Adding\<close>

lemma insert_set: "set (timer_insert e es) = Set.insert e (set es)"
  by (induction es) auto

lemma insert_sorted_due: "sorted (map due_msec es) \<Longrightarrow> sorted (map due_msec (timer_insert e es))"
  by (induction es) (auto simp: insert_set)

lemma insert_distinct: "distinct (map ev_ptr es) \<Longrightarrow> ev_ptr e \<notin> ev_ptr ` set es \<Longrightarrow> distinct (map ev_ptr (timer_insert e es))"
  by (induction es) (auto simp: insert_set)

lemma insert_find:
  "\<forall>x\<in>set es. ev_owner x \<noteq> ev_owner e \<Longrightarrow>
   find (\<lambda>x. ev_owner x = own) (timer_insert e es) = (if own = ev_owner e then Some e else find (\<lambda>x. ev_owner x = own) es)"
  by (induction es) auto

text \<open>The event just added is the one its slot points to; nothing else changes.\<close>

lemma insert_event_ok:
  fixes cb a :: nat and d :: u64
  assumes s: "timers_ok s" and free: "slots s own = None"
  defines "e \<equiv> \<lparr>ev_ptr = next_ptr s, ev_owner = own, ev_callback = cb, ev_arg = a, due_msec = d\<rparr>"
  defines "s' \<equiv> s\<lparr>timer_head := timer_insert e (timer_head s), slots := (slots s)(own := Some (next_ptr s)), next_ptr := next_ptr s + 1\<rparr>"
  shows "timers_ok s'" "timer_map s' = (timer_map s)(own \<mapsto> (d, cb, a))"
proof -
  have o: "\<forall>x\<in>set (timer_head s). ev_owner x \<noteq> ev_owner e" using free timer_map_slots [OF s, of own] by (simp add: timer_map_None e_def)
  have p: "ev_ptr e \<notin> ev_ptr ` set (timer_head s)" using s by (auto simp: timers_ok_def e_def)
  have b: "\<forall>x\<in>set (timer_head s). ev_ptr x < next_ptr s" using s by (simp add: timers_ok_def)
  have sl: "slots s x = Some q \<longleftrightarrow> (\<exists>e\<in>set (timer_head s). ev_ptr e = q \<and> ev_owner e = x)" for x q using s by (simp add: timers_ok_def)
  have "slots s' x = Some q \<longleftrightarrow> (\<exists>e\<in>set (timer_head s'). ev_ptr e = q \<and> ev_owner e = x)" for x q
    using sl [of x q] o by (auto simp: s'_def e_def insert_set)
  moreover have "\<forall>x\<in>set (timer_head s'). ev_ptr x < next_ptr s'" using b by (auto simp: s'_def e_def insert_set less_Suc_eq)
  moreover have "sorted (map due_msec (timer_head s'))" "distinct (map ev_ptr (timer_head s'))"
    using s p by (simp_all add: s'_def insert_sorted_due insert_distinct timers_ok_def)
  ultimately show "timers_ok s'" unfolding timers_ok_def by blast
  show "timer_map s' = (timer_map s)(own \<mapsto> (d, cb, a))"
  proof
    fix x
    have "timer_map s' x = map_option (\<lambda>e. (due_msec e, ev_callback e, ev_arg e)) (find (\<lambda>y. ev_owner y = x) (timer_insert e (timer_head s)))"
      by (simp add: timer_map_def s'_def)
    then show "timer_map s' x = ((timer_map s)(own \<mapsto> (d, cb, a))) x"
      unfolding insert_find [OF o] by (simp add: timer_map_def e_def)
  qed
qed

lemma add_ok:
  assumes "timers_ok s"
  shows "timers_ok (eigrp_timer_add alloc now s own cb a delay)"
    "timer_map (eigrp_timer_add alloc now s own cb a delay) =
      (timer_map s)(own := (if alloc \<and> tm_running s \<and> \<not> tm_shutdown s then Some (now + ucast delay, cb, a) else None))"
proof -
  let ?s = "eigrp_timer_cancel s own"
  have free: "slots ?s own = None" by (simp add: cancel_head [OF assms])
  note i = insert_event_ok [OF cancel_ok [OF assms] free, of cb a "now + ucast delay"]
  show "timers_ok (eigrp_timer_add alloc now s own cb a delay)"
    using i(1) cancel_ok [OF assms, of own] by (simp add: eigrp_timer_add_def Let_def)
  show "timer_map (eigrp_timer_add alloc now s own cb a delay) =
      (timer_map s)(own := (if alloc \<and> tm_running s \<and> \<not> tm_shutdown s then Some (now + ucast delay, cb, a) else None))"
    using i(2) cancel_map [OF assms, of own] by (simp add: eigrp_timer_add_def Let_def)
qed


subsection \<open>Expiry\<close>

lemma head_owner: "timers_ok s \<Longrightarrow> timer_head s = e # es \<Longrightarrow> \<forall>x\<in>set es. ev_owner x \<noteq> ev_owner e"
  using owners_distinct [of s] distinct_map_Cons [of ev_owner e es] by auto

lemma release_head:
  assumes "timers_ok s" and "timer_head s = e # es"
  shows "slot_release e (slots s) = (slots s)(ev_owner e := None)" "timers_ok (s\<lparr>timer_head := es, slots := slot_release e (slots s)\<rparr>)"
proof -
  have sl: "slots s x = Some q \<longleftrightarrow> (\<exists>f\<in>set (e # es). ev_ptr f = q \<and> ev_owner f = x)" for x q
    using assms by (simp add: timers_ok_def)
  show r: "slot_release e (slots s) = (slots s)(ev_owner e := None)" using sl [of "ev_owner e" "ev_ptr e"] by (simp add: slot_release_def)
  have o: "\<forall>x\<in>set es. ev_owner x \<noteq> ev_owner e" by (rule head_owner [OF assms])
  have "((slots s)(ev_owner e := None)) x = Some q \<longleftrightarrow> (\<exists>f\<in>set es. ev_ptr f = q \<and> ev_owner f = x)" for x q
    using sl [of x q] o by auto
  then show "timers_ok (s\<lparr>timer_head := es, slots := slot_release e (slots s)\<rparr>)" using assms unfolding r timers_ok_def by auto
qed

lemma dequeue_ok:
  assumes "timers_ok s"
  shows "case eigrp_instance_timer_due_dequeue now s of
      (None, s') \<Rightarrow> s' = s \<and> (\<forall>own d c a. timer_map s own = Some (d, c, a) \<longrightarrow> now < d)
    | (Some e, s') \<Rightarrow> timers_ok s' \<and> timer_map s (ev_owner e) = Some (due_msec e, ev_callback e, ev_arg e) \<and> due_msec e \<le> now
        \<and> (\<forall>own d c a. timer_map s own = Some (d, c, a) \<longrightarrow> due_msec e \<le> d) \<and> timer_map s' = (timer_map s)(ev_owner e := None)"
proof (cases "timer_head s")
  case Nil
  then show ?thesis by (simp add: eigrp_instance_timer_due_dequeue_def timer_map_def)
next
  case (Cons e es)
  have m: "\<forall>x\<in>set (timer_head s). due_msec e \<le> due_msec x" using assms Cons by (auto simp: timers_ok_def)
  have le: "due_msec e \<le> d" if "timer_map s own = Some (d, c, a)" for own d c a using that m unfolding timer_map_iff [OF assms] by auto
  have o: "\<forall>x\<in>set es. ev_owner x \<noteq> ev_owner e" by (rule head_owner [OF assms Cons])
  have "timer_map (s\<lparr>timer_head := es, slots := slot_release e (slots s)\<rparr>) = (timer_map s)(ev_owner e := None)"
    using o Cons by (auto simp: timer_map_def fun_eq_iff find_None_iff)
  moreover have "timer_map s (ev_owner e) = Some (due_msec e, ev_callback e, ev_arg e)" using Cons by (simp add: timer_map_def)
  moreover have "now < d" if "\<not> due_msec e \<le> now" "timer_map s own = Some (d, c, a)" for own d c a
    using le [OF that(2)] that(1) by (simp add: not_le)
  ultimately show ?thesis using Cons le release_head(2) [OF assms Cons] by (simp add: eigrp_instance_timer_due_dequeue_def)
qed

lemma release_all:
  "\<forall>own p. sl own = Some p \<longrightarrow> (\<exists>e\<in>set es. ev_ptr e = p \<and> ev_owner e = own) \<Longrightarrow> distinct (map ev_owner es) \<Longrightarrow> fold slot_release es sl = (\<lambda>_. None)"
proof (induction es arbitrary: sl)
  case Nil
  then show ?case by (metis fold_simps(1) empty_iff list.set(1) option.exhaust)
next
  case (Cons e es)
  have "slot_release e sl x = Some q \<longrightarrow> (\<exists>f\<in>set es. ev_ptr f = q \<and> ev_owner f = x)" for x q
    using Cons.prems(1) by (auto simp: slot_release_def)
  then show ?case using Cons by simp
qed

lemma cancel_all_ok:
  assumes "timers_ok s"
  shows "timers_ok (eigrp_timer_cancel_all s)" "timer_map (eigrp_timer_cancel_all s) = Map.empty"
proof -
  have "fold slot_release (timer_head s) (slots s) = (\<lambda>_. None)"
    using assms owners_distinct [OF assms] by (intro release_all) (auto simp: timers_ok_def)
  then show "timers_ok (eigrp_timer_cancel_all s)" by (simp add: timers_ok_def eigrp_timer_cancel_all_def)
  show "timer_map (eigrp_timer_cancel_all s) = Map.empty" by (simp add: timer_map_def eigrp_timer_cancel_all_def fun_eq_iff)
qed

subsection \<open>The interface\<close>

text \<open>
  What a client of the timers relies on, whatever their representation: \<open>view\<close> is the deadline of each slot, \<open>ready\<close> says that
  the instance accepts timers.
\<close>

locale timer_service =
  fixes ok :: "'s \<Rightarrow> bool" and view :: "'s \<Rightarrow> nat \<rightharpoonup> (u64 \<times> nat \<times> nat)" and ready :: "'s \<Rightarrow> bool"
    and add :: "bool \<Rightarrow> u64 \<Rightarrow> 's \<Rightarrow> nat \<Rightarrow> nat \<Rightarrow> nat \<Rightarrow> u32 \<Rightarrow> 's" and cancel :: "'s \<Rightarrow> nat \<Rightarrow> 's"
  assumes ok_add: "ok s \<Longrightarrow> ok (add alloc now s own cb a delay)"
    and view_add: "ok s \<Longrightarrow> view (add alloc now s own cb a delay) = (view s)(own := (if alloc \<and> ready s then Some (now + ucast delay, cb, a) else None))"
    and ready_add: "ready (add alloc now s own cb a delay) = ready s"
    and ok_cancel: "ok s \<Longrightarrow> ok (cancel s own)"
    and view_cancel: "ok s \<Longrightarrow> view (cancel s own) = (view s)(own := None)"
    and ready_cancel: "ready (cancel s own) = ready s"
begin

lemma add_armed: "ok s \<Longrightarrow> view (add alloc now s own cb a delay) own \<noteq> None \<longleftrightarrow> alloc \<and> ready s"
  by (simp add: view_add)

lemma add_other: "ok s \<Longrightarrow> own' \<noteq> own \<Longrightarrow> view (add alloc now s own cb a delay) own' = view s own'"
  by (simp add: view_add)

lemma add_twice: "ok s \<Longrightarrow> view (add alloc now (add alloc' now' s own cb' a' delay') own cb a delay) = view (add alloc now s own cb a delay)"
  by (simp add: view_add ok_add ready_add)

lemmas service_simps = ok_add view_add ready_add ok_cancel view_cancel ready_cancel

end

definition timers_ready :: "eigrp_timers \<Rightarrow> bool" where
  "timers_ready s \<longleftrightarrow> tm_running s \<and> \<not> tm_shutdown s"

lemma timers_ready_frame:
  "timers_ready (eigrp_timer_add alloc now s own cb a delay) = timers_ready s" "timers_ready (eigrp_timer_cancel s own) = timers_ready s"
  by (simp_all add: timers_ready_def eigrp_timer_add_def Let_def)

interpretation tm: timer_service timers_ok timer_map timers_ready eigrp_timer_add eigrp_timer_cancel
  by unfold_locales (simp_all add: add_ok cancel_ok cancel_map timers_ready_frame, auto simp: timers_ready_def)

text \<open>
  C23: The timer queue implements a map from slots to deadlines.  Starting a timer replaces the one of its slot and leaves the
  others alone, cancelling removes it, and the service loop takes the timer that is due first, and only one that is due; a
  slot is set exactly while its timer is queued, so no slot points to a timer that has fired.
\<close>

theorem timers_refine_map:
  assumes "timers_ok s"
  shows "timers_ok (eigrp_timer_add alloc now s own cb a delay)
      \<and> timer_map (eigrp_timer_add alloc now s own cb a delay) =
         (timer_map s)(own := (if alloc \<and> tm_running s \<and> \<not> tm_shutdown s then Some (now + ucast delay, cb, a) else None))
      \<and> timers_ok (eigrp_timer_cancel s own) \<and> timer_map (eigrp_timer_cancel s own) = (timer_map s)(own := None)
      \<and> timers_ok (eigrp_timer_cancel_all s) \<and> timer_map (eigrp_timer_cancel_all s) = Map.empty
      \<and> (case eigrp_instance_timer_due_dequeue now s of
          (None, s') \<Rightarrow> s' = s \<and> (\<forall>own d c a. timer_map s own = Some (d, c, a) \<longrightarrow> now < d)
        | (Some e, s') \<Rightarrow> timers_ok s' \<and> timer_map s (ev_owner e) = Some (due_msec e, ev_callback e, ev_arg e) \<and> due_msec e \<le> now
            \<and> (\<forall>own d c a. timer_map s own = Some (d, c, a) \<longrightarrow> due_msec e \<le> d) \<and> timer_map s' = (timer_map s)(ev_owner e := None))
      \<and> (\<forall>own. slots s own = None \<longleftrightarrow> timer_map s own = None)"
  using add_ok [OF assms] cancel_ok [OF assms] cancel_map [OF assms] cancel_all_ok [OF assms] dequeue_ok [OF assms]
    timer_map_slots [OF assms] by (intro conjI) simp_all

definition sample_timers :: eigrp_timers where
  "sample_timers = eigrp_timer_add True 100 (eigrp_timer_add True 100 \<lparr>timer_head = [], slots = (\<lambda>_. None), tm_shutdown = False, tm_running = True,
     next_ptr = 0\<rparr> 7 1 1 500) 8 2 1 300"

lemma sample_timers_ok: "timers_ok sample_timers"
  unfolding sample_timers_def by (intro add_ok(1)) (simp add: timers_ok_def)

theorem timers_refine_map_witness:
  "timer_map sample_timers 7 = Some (600, 1, 1)
   \<and> timer_map (snd (eigrp_instance_timer_due_dequeue 450 sample_timers)) = (timer_map sample_timers)(8 := None)"
proof -
  have "fst (eigrp_instance_timer_due_dequeue 450 sample_timers) = Some \<lparr>ev_ptr = 1, ev_owner = 8, ev_callback = 2, ev_arg = 1, due_msec = 400\<rparr>"
    "timer_map sample_timers 7 = Some (600, 1, 1)" by code_simp+
  then obtain s' where "eigrp_instance_timer_due_dequeue 450 sample_timers
      = (Some \<lparr>ev_ptr = 1, ev_owner = 8, ev_callback = 2, ev_arg = 1, due_msec = 400\<rparr>, s')" "timer_map sample_timers 7 = Some (600, 1, 1)"
    by (metis prod.collapse)
  then show ?thesis using timers_refine_map [OF sample_timers_ok, where now = 450] by simp
qed

end
