(* ===== verification/Eigrp_Pfxlimits.thy ===== *)
theory Eigrp_Pfxlimits
  imports Eigrp_Timer
begin

text \<open>
  The topology prefix limit of an address family (\<^verbatim>\<open>eigrp_pfxlimits.c\<close>): a state machine over Normal (0), Suspended (1) and
  Locked (2) with a restart timer, a reset timer and a decaying penalty.  Neighbour teardown, hellos and redistribution are
  other components; the calls to them are recorded in \<open>pf_calls\<close>.  A replay of redistributed routes can exceed the limit
  again; it is the last action of its callers, so this is a further step of the machine.

  The inputs of an operation: the clock (read once by the operation and again by each timer that is started) and the results
  of the allocations.
\<close>

subsection \<open>State\<close>

record pfx_nbr =
  published :: bool
  limit_state_none :: bool
  af_suspended :: bool
  nbr_generation :: u64

record pfx_intf =
  operative :: bool
  pf_passive :: bool
  nbr_list :: "pfx_nbr list"

datatype pfx_call =
    Hello_shutdown nat
  | Nbr_down nat nat
  | Nbr_down_deferred nat nat
  | Suspended_neighbors_down nat
  | Redist_withdraw
  | Redist_replay

record pfx_runtime =
  pf_timers :: eigrp_timers
  af_state :: u8
  cleanup_pending :: bool
  pkt_active :: bool
  restart_cnt :: u16
  penalty_q16 :: u32
  decay_msec :: u64
  restart_due_msec :: u64
  reset_due_msec :: u64
  redist_limit_state :: u8
  next_neighbor_generation :: u64
  pf_intfs :: "pfx_intf list"
  pf_calls :: "pfx_call list"

record pfx_limit =
  warning_only :: bool
  dampened :: bool
  reset_time_minutes :: u16
  restart_minutes :: u16
  restart_count :: u16

record pfx_input =
  clock :: u64
  arm_clock :: "nat \<Rightarrow> u64"
  add_clock :: "nat \<Rightarrow> u64"
  timer_calloc :: "nat \<Rightarrow> bool"
  peers_calloc :: bool

definition RESTART_SLOT :: nat where "RESTART_SLOT = 0"
definition RESET_SLOT :: nat where "RESET_SLOT = 1"
definition PFXLIMITS_MINUTE_MSEC :: u64 where "PFXLIMITS_MINUTE_MSEC = 60000"
definition PFXLIMITS_Q16 :: u32 where "PFXLIMITS_Q16 = 65536"

subsection \<open>Timers and penalty\<close>

definition eigrp_pfxlimits_timers_cancel :: "pfx_runtime \<Rightarrow> pfx_runtime" where
  "eigrp_pfxlimits_timers_cancel R =
     R\<lparr>pf_timers := eigrp_timer_cancel (eigrp_timer_cancel (pf_timers R) RESTART_SLOT) RESET_SLOT,
       restart_due_msec := 0, reset_due_msec := 0\<rparr>"

definition eigrp_pfxlimits_timer_arm :: "pfx_input \<Rightarrow> nat \<Rightarrow> u64 \<Rightarrow> pfx_runtime \<Rightarrow> pfx_runtime" where
  "eigrp_pfxlimits_timer_arm h slot due R =
     (let now = arm_clock h slot;
          delta = (if now < due then due - now else 1);
          delta = (if 0xFFFFFFFF < delta then 0xFFFFFFFF else delta)
      in R\<lparr>pf_timers := eigrp_timer_add (timer_calloc h slot) (add_clock h slot) (pf_timers R) slot slot 0 (ucast delta)\<rparr>)"

definition decay_factor :: "u32 list" where
  "decay_factor = [46341, 55109, 60097, 62758, 64132, 64830, 65182, 65359]"

definition decay_step :: "u32 \<Rightarrow> nat \<Rightarrow> u32 \<Rightarrow> u32" where
  "decay_step fraction i score =
     (if fraction AND drop_bit i 128 \<noteq> 0 then ucast (drop_bit 16 (ucast score * ucast (decay_factor ! i) :: u64)) else score)"

definition eigrp_pfxlimits_penalty_decay :: "u32 \<Rightarrow> u64 \<Rightarrow> u64 \<Rightarrow> u32" where
  "eigrp_pfxlimits_penalty_decay score elapsed half_life =
     (if score = 0 \<or> elapsed = 0 \<or> half_life = 0 then score
      else if 32 \<le> elapsed div half_life then 0
      else fold (decay_step (ucast (((elapsed mod half_life) * 256) div half_life))) [0..<8]
             (drop_bit (unat (elapsed div half_life)) score))"

subsection \<open>Neighbours\<close>

primrec nbrs_walk :: "(nat \<Rightarrow> pfx_nbr \<Rightarrow> 'a \<Rightarrow> pfx_nbr \<times> 'a) \<Rightarrow> nat \<Rightarrow> pfx_nbr list \<Rightarrow> 'a \<Rightarrow> pfx_nbr list \<times> 'a" where
  "nbrs_walk f j [] acc = ([], acc)"
| "nbrs_walk f j (n # ns) acc =
     (let (n, acc) = f j n acc; (ns, acc) = nbrs_walk f (j + 1) ns acc in (n # ns, acc))"

primrec intfs_walk :: "(nat \<Rightarrow> nat \<Rightarrow> pfx_nbr \<Rightarrow> 'a \<Rightarrow> pfx_nbr \<times> 'a) \<Rightarrow> nat \<Rightarrow> pfx_intf list \<Rightarrow> 'a \<Rightarrow> pfx_intf list \<times> 'a" where
  "intfs_walk f i [] acc = ([], acc)"
| "intfs_walk f i (e # es) acc =
     (let (ns, acc) = nbrs_walk (f i) 0 (nbr_list e) acc; (es, acc) = intfs_walk f (i + 1) es acc in (e\<lparr>nbr_list := ns\<rparr> # es, acc))"

definition next_generation :: "u64 \<Rightarrow> u64" where
  "next_generation g = (if g + 1 = 0 then 1 else g + 1)"

definition nbr_release :: "nat \<Rightarrow> nat \<Rightarrow> pfx_nbr \<Rightarrow> u64 \<times> pfx_call list \<Rightarrow> pfx_nbr \<times> u64 \<times> pfx_call list" where
  "nbr_release i j n = (\<lambda>(g, calls).
     if \<not> published n \<or> \<not> af_suspended n then (n, g, calls)
     else let g = next_generation g in (n\<lparr>af_suspended := False, nbr_generation := g\<rparr>, g, calls))"

definition nbr_suspend :: "bool \<Rightarrow> nat \<Rightarrow> nat \<Rightarrow> pfx_nbr \<Rightarrow> u64 \<times> pfx_call list \<Rightarrow> pfx_nbr \<times> u64 \<times> pfx_call list" where
  "nbr_suspend defer i j n = (\<lambda>(g, calls).
     if \<not> published n \<or> af_suspended n then (n, g, calls)
     else let g = next_generation g
          in (n\<lparr>af_suspended := True, nbr_generation := g\<rparr>, g,
              if limit_state_none n then calls @ [if defer then Nbr_down_deferred i j else Nbr_down i j] else calls))"

definition peers_capacity :: "pfx_intf list \<Rightarrow> nat" where
  "peers_capacity es = sum_list (map (\<lambda>e. length (filter (\<lambda>n. published n \<and> limit_state_none n) (nbr_list e))) es)"

definition eigrp_pfxlimits_nbr_update :: "pfx_input \<Rightarrow> bool \<Rightarrow> pfx_runtime \<Rightarrow> pfx_runtime" where
  "eigrp_pfxlimits_nbr_update h release R =
     (let capacity = (if release then 0 else peers_capacity (pf_intfs R));
          peers = (capacity \<noteq> 0 \<and> peers_calloc h);
          (es, g, calls) = intfs_walk (if release then nbr_release else nbr_suspend peers) 0 (pf_intfs R)
                             (next_neighbor_generation R, pf_calls R)
      in R\<lparr>pf_intfs := es, next_neighbor_generation := g,
           pf_calls := (if peers then calls @ [Suspended_neighbors_down capacity] else calls)\<rparr>)"

subsection \<open>The state machine\<close>

definition hello_calls :: "pfx_intf list \<Rightarrow> pfx_call list" where
  "hello_calls es = map Hello_shutdown (filter (\<lambda>i. operative (es ! i) \<and> \<not> pf_passive (es ! i)) [0..<length es])"

definition eigrp_pfxlimits_state_cleanup :: "pfx_input \<Rightarrow> pfx_runtime \<Rightarrow> pfx_runtime" where
  "eigrp_pfxlimits_state_cleanup h R =
     (if \<not> cleanup_pending R then R
      else
        let R = R\<lparr>cleanup_pending := False, pf_calls := pf_calls R @ hello_calls (pf_intfs R)\<rparr>;
            R = eigrp_pfxlimits_nbr_update h False R
        in R\<lparr>pf_calls := pf_calls R @ [Redist_withdraw]\<rparr>)"

definition redist_replay :: "pfx_runtime \<Rightarrow> pfx_runtime" where
  "redist_replay R = (if redist_limit_state R = 0 then R\<lparr>pf_calls := pf_calls R @ [Redist_replay]\<rparr> else R)"

definition eigrp_pfxlimits_state_release :: "pfx_input \<Rightarrow> bool \<Rightarrow> pfx_runtime \<Rightarrow> pfx_runtime" where
  "eigrp_pfxlimits_state_release h rst R =
     (let R = (eigrp_pfxlimits_timers_cancel R)\<lparr>af_state := 0, cleanup_pending := False\<rparr>;
          R = (if rst then R\<lparr>restart_cnt := 0, penalty_q16 := 0, decay_msec := 0\<rparr> else R)
      in redist_replay (eigrp_pfxlimits_nbr_update h True R))"

definition eigrp_pfxlimits_restart_expired :: "pfx_input \<Rightarrow> pfx_runtime \<Rightarrow> pfx_runtime" where
  "eigrp_pfxlimits_restart_expired h R =
     (if af_state R \<noteq> 1 \<or> restart_due_msec R = 0 then R
      else if clock h < restart_due_msec R then eigrp_pfxlimits_timer_arm h RESTART_SLOT (restart_due_msec R) R
      else redist_replay (eigrp_pfxlimits_nbr_update h True (R\<lparr>restart_due_msec := 0, af_state := 0\<rparr>)))"

definition eigrp_pfxlimits_reset_expired :: "pfx_input \<Rightarrow> pfx_runtime \<Rightarrow> pfx_runtime" where
  "eigrp_pfxlimits_reset_expired h R =
     (if reset_due_msec R = 0 then R
      else if clock h < reset_due_msec R then eigrp_pfxlimits_timer_arm h RESET_SLOT (reset_due_msec R) R
      else let R = R\<lparr>reset_due_msec := 0\<rparr>
           in if af_state R \<noteq> 2 then R\<lparr>restart_cnt := 0, penalty_q16 := 0, decay_msec := 0\<rparr> else R)"

definition penalty_update :: "u64 \<Rightarrow> pfx_limit \<Rightarrow> u64 \<Rightarrow> pfx_runtime \<Rightarrow> pfx_runtime" where
  "penalty_update now limit half_life R =
     (if dampened limit then
        let R = (if decay_msec R \<noteq> 0 \<and> decay_msec R < now
                 then R\<lparr>penalty_q16 := eigrp_pfxlimits_penalty_decay (penalty_q16 R) (now - decay_msec R) half_life\<rparr> else R);
            R = (if 0xFFFFFFFF - PFXLIMITS_Q16 < penalty_q16 R then R\<lparr>penalty_q16 := 0xFFFFFFFF\<rparr>
                 else R\<lparr>penalty_q16 := penalty_q16 R + PFXLIMITS_Q16\<rparr>)
        in R\<lparr>decay_msec := now\<rparr>
      else R\<lparr>penalty_q16 := 0, decay_msec := 0\<rparr>)"

definition restart_interval :: "pfx_limit \<Rightarrow> u64 \<Rightarrow> u32 \<Rightarrow> u64" where
  "restart_interval limit base penalty =
     (if dampened limit then
        let score = ucast penalty
        in if score \<noteq> 0 \<and> 0xFFFFFFFFFFFFFFFF div score < base then 0xFFFFFFFFFFFFFFFF else (base * score) div ucast PFXLIMITS_Q16
      else base)"

text \<open>The timers of a suspension; without both of them, or when a deadline cannot be represented, it is a lock.\<close>

definition suspension_timers :: "pfx_input \<Rightarrow> u64 \<Rightarrow> u64 \<Rightarrow> pfx_runtime \<Rightarrow> pfx_runtime" where
  "suspension_timers h interval rst R =
     (let now = clock h
      in if 0xFFFFFFFFFFFFFFFF - now < interval \<or> 0xFFFFFFFFFFFFFFFF - now < rst * PFXLIMITS_MINUTE_MSEC then R\<lparr>af_state := 2\<rparr>
         else
           let R = R\<lparr>restart_due_msec := now + interval, reset_due_msec := now + rst * PFXLIMITS_MINUTE_MSEC\<rparr>;
               R = eigrp_pfxlimits_timer_arm h RESTART_SLOT (restart_due_msec R) R;
               R = eigrp_pfxlimits_timer_arm h RESET_SLOT (reset_due_msec R) R
           in if slots (pf_timers R) RESTART_SLOT = None \<or> slots (pf_timers R) RESET_SLOT = None
              then (eigrp_pfxlimits_timers_cancel R)\<lparr>af_state := 2\<rparr> else R)"

definition limit_default :: "u16 \<Rightarrow> u32 \<Rightarrow> u32" where
  "limit_default v d = (if v \<noteq> 0 then ucast v else d)"

text \<open>The counters, the new state and the request for a cleanup.\<close>

definition exceeded_state :: "pfx_input \<Rightarrow> pfx_limit \<Rightarrow> u64 \<Rightarrow> pfx_runtime \<Rightarrow> pfx_runtime" where
  "exceeded_state h limit base R =
     (let R = penalty_update (clock h) limit (base + base div 2) R;
          R = (if restart_cnt R < 0xFFFF then R\<lparr>restart_cnt := restart_cnt R + 1\<rparr> else R);
          R = R\<lparr>af_state := (if limit_default (restart_count limit) 3 \<le> ucast (restart_cnt R) then 2 else 1)\<rparr>
      in (eigrp_pfxlimits_timers_cancel R)\<lparr>cleanup_pending := True\<rparr>)"

definition eigrp_pfxlimits_prefix_exceeded :: "pfx_input \<Rightarrow> pfx_limit \<Rightarrow> pfx_runtime \<Rightarrow> pfx_runtime" where
  "eigrp_pfxlimits_prefix_exceeded h limit R =
     (if warning_only limit \<or> af_state R \<noteq> 0 then R
      else
        let restart = limit_default (restart_minutes limit) 5;
            rst = limit_default (reset_time_minutes limit) 15;
            base = ucast restart * PFXLIMITS_MINUTE_MSEC;
            R = exceeded_state h limit base R;
            R = (if \<not> pkt_active R then eigrp_pfxlimits_state_cleanup h R else R)
        in if af_state R = 2 then R
           else suspension_timers h (restart_interval limit base (penalty_q16 R)) (ucast rst) R)"

definition eigrp_pfxlimits_state_clear :: "pfx_input \<Rightarrow> bool \<Rightarrow> pfx_runtime \<Rightarrow> eigrp_result \<times> pfx_runtime" where
  "eigrp_pfxlimits_state_clear h dispatch_needed R =
     (if dispatch_needed then (EIGRP_RESULT_CONFLICT, R)
      else if af_state R \<noteq> 0 then (EIGRP_RESULT_SUCCESS, eigrp_pfxlimits_state_release h True R)
      else (EIGRP_RESULT_SUCCESS, (eigrp_pfxlimits_timers_cancel R)\<lparr>restart_cnt := 0, penalty_q16 := 0, decay_msec := 0\<rparr>))"

text \<open>The packet handler brackets its TLV walk; the instance thread runs a due timer.\<close>

definition packet_begin :: "pfx_runtime \<Rightarrow> pfx_runtime" where
  "packet_begin R = R\<lparr>pkt_active := True\<rparr>"

definition packet_end :: "pfx_input \<Rightarrow> pfx_runtime \<Rightarrow> pfx_runtime" where
  "packet_end h R = (let R = R\<lparr>pkt_active := False\<rparr> in if cleanup_pending R then eigrp_pfxlimits_state_cleanup h R else R)"

definition eigrp_instance_timer_service :: "pfx_input \<Rightarrow> pfx_runtime \<Rightarrow> pfx_runtime" where
  "eigrp_instance_timer_service h R =
     (case eigrp_instance_timer_due_dequeue (clock h) (pf_timers R) of
        (None, tm) \<Rightarrow> R\<lparr>pf_timers := tm\<rparr>
      | (Some e, tm) \<Rightarrow>
          let R = R\<lparr>pf_timers := tm\<rparr>
          in if ev_callback e = RESTART_SLOT then eigrp_pfxlimits_restart_expired h R
             else if ev_callback e = RESET_SLOT then eigrp_pfxlimits_reset_expired h R
             else R)"


subsection \<open>Which neighbours are suspended\<close>

definition suspended_are :: "bool \<Rightarrow> pfx_runtime \<Rightarrow> bool" where
  "suspended_are b R \<longleftrightarrow> (\<forall>e\<in>set (pf_intfs R). \<forall>n\<in>set (nbr_list e). published n \<longrightarrow> af_suspended n = b)"

lemma nbrs_walk_all: "(\<And>j n acc. Q (fst (f j n acc))) \<Longrightarrow> \<forall>n\<in>set (fst (nbrs_walk f j ns acc)). Q n"
proof (induction ns arbitrary: j acc)
  case (Cons n ns)
  then show ?case by (simp add: case_prod_beta)
qed simp

lemma intfs_walk_all: "(\<And>i j n acc. Q (fst (f i j n acc))) \<Longrightarrow> \<forall>e\<in>set (fst (intfs_walk f i es acc)). \<forall>n\<in>set (nbr_list e). Q n"
proof (induction es arbitrary: i acc)
  case (Cons e es)
  then show ?case using nbrs_walk_all [of Q "f i" 0 "nbr_list e"] by (simp add: case_prod_beta)
qed simp

lemma nbr_update_suspended: "suspended_are (\<not> release) (eigrp_pfxlimits_nbr_update h release R)"
proof -
  let ?f = "if release then nbr_release else nbr_suspend (peers_capacity (pf_intfs R) \<noteq> 0 \<and> peers_calloc h)"
  have "published (fst (?f i j n acc)) \<longrightarrow> af_suspended (fst (?f i j n acc)) = (\<not> release)" for i j n acc
    by (simp add: nbr_release_def nbr_suspend_def Let_def split: prod.split)
  then have "\<forall>e\<in>set (fst (intfs_walk ?f 0 (pf_intfs R) (next_neighbor_generation R, pf_calls R))).
      \<forall>n\<in>set (nbr_list e). published n \<longrightarrow> af_suspended n = (\<not> release)"
    by (intro intfs_walk_all [where Q = "\<lambda>n. published n \<longrightarrow> af_suspended n = (\<not> release)"])
  then show ?thesis by (cases release) (simp_all add: suspended_are_def eigrp_pfxlimits_nbr_update_def Let_def case_prod_beta)
qed

lemma nbr_update_frame [simp]:
  "pf_timers (eigrp_pfxlimits_nbr_update h b R) = pf_timers R" "af_state (eigrp_pfxlimits_nbr_update h b R) = af_state R"
  "cleanup_pending (eigrp_pfxlimits_nbr_update h b R) = cleanup_pending R" "pkt_active (eigrp_pfxlimits_nbr_update h b R) = pkt_active R"
  "restart_due_msec (eigrp_pfxlimits_nbr_update h b R) = restart_due_msec R" "reset_due_msec (eigrp_pfxlimits_nbr_update h b R) = reset_due_msec R"
  "penalty_q16 (eigrp_pfxlimits_nbr_update h b R) = penalty_q16 R"
  by (simp_all add: eigrp_pfxlimits_nbr_update_def Let_def case_prod_beta)

lemma replay_frame [simp]:
  "pf_timers (redist_replay R) = pf_timers R" "af_state (redist_replay R) = af_state R" "cleanup_pending (redist_replay R) = cleanup_pending R"
  "pkt_active (redist_replay R) = pkt_active R" "restart_due_msec (redist_replay R) = restart_due_msec R"
  "reset_due_msec (redist_replay R) = reset_due_msec R" "suspended_are b (redist_replay R) = suspended_are b R"
  by (simp_all add: redist_replay_def suspended_are_def)

lemma cleanup_frame [simp]:
  "pf_timers (eigrp_pfxlimits_state_cleanup h R) = pf_timers R" "af_state (eigrp_pfxlimits_state_cleanup h R) = af_state R"
  "cleanup_pending (eigrp_pfxlimits_state_cleanup h R) = False" "pkt_active (eigrp_pfxlimits_state_cleanup h R) = pkt_active R"
  "restart_due_msec (eigrp_pfxlimits_state_cleanup h R) = restart_due_msec R" "reset_due_msec (eigrp_pfxlimits_state_cleanup h R) = reset_due_msec R"
  "penalty_q16 (eigrp_pfxlimits_state_cleanup h R) = penalty_q16 R"
  "cleanup_pending R \<Longrightarrow> suspended_are True (eigrp_pfxlimits_state_cleanup h R)"
  using nbr_update_suspended [of False h "R\<lparr>cleanup_pending := False, pf_calls := pf_calls R @ hello_calls (pf_intfs R)\<rparr>"]
  by (simp_all add: eigrp_pfxlimits_state_cleanup_def Let_def suspended_are_def)

subsection \<open>The invariant\<close>

text \<open>The timers of the two slots, and of nobody else, run the two callbacks.\<close>

definition callbacks_ok :: "eigrp_timers \<Rightarrow> bool" where
  "callbacks_ok tm \<longleftrightarrow> (\<forall>own d c a. timer_map tm own = Some (d, c, a)
     \<longrightarrow> (c = RESTART_SLOT \<longleftrightarrow> own = RESTART_SLOT) \<and> (c = RESET_SLOT \<longleftrightarrow> own = RESET_SLOT))"

definition pfx_ok :: "pfx_runtime \<Rightarrow> bool" where
  "pfx_ok R \<longleftrightarrow> timers_ok (pf_timers R) \<and> callbacks_ok (pf_timers R) \<and> af_state R \<in> {0, 1, 2}
     \<and> (cleanup_pending R \<longrightarrow> pkt_active R \<and> af_state R \<noteq> 0)
     \<and> (\<not> cleanup_pending R \<longrightarrow> suspended_are (af_state R \<noteq> 0) R)
     \<and> (if af_state R = 1
        then timer_map (pf_timers R) RESTART_SLOT \<noteq> None \<and> restart_due_msec R \<noteq> 0 \<and> timers_ready (pf_timers R)
        else timer_map (pf_timers R) RESTART_SLOT = None \<and> restart_due_msec R = 0)
     \<and> (af_state R = 2 \<longrightarrow> timer_map (pf_timers R) RESET_SLOT = None \<and> reset_due_msec R = 0)"

lemmas slot_simps = RESTART_SLOT_def RESET_SLOT_def

lemma cancel_slots:
  assumes "timers_ok (pf_timers R)" and "callbacks_ok (pf_timers R)"
  shows "timers_ok (pf_timers (eigrp_pfxlimits_timers_cancel R))" "callbacks_ok (pf_timers (eigrp_pfxlimits_timers_cancel R))"
    "timer_map (pf_timers (eigrp_pfxlimits_timers_cancel R)) RESTART_SLOT = None"
    "timer_map (pf_timers (eigrp_pfxlimits_timers_cancel R)) RESET_SLOT = None"
    "timers_ready (pf_timers (eigrp_pfxlimits_timers_cancel R)) = timers_ready (pf_timers R)"
  using assms by (auto simp: eigrp_pfxlimits_timers_cancel_def tm.ok_cancel tm.view_cancel tm.ready_cancel callbacks_ok_def)

lemma cancel_slots_frame [simp]:
  "af_state (eigrp_pfxlimits_timers_cancel R) = af_state R" "restart_due_msec (eigrp_pfxlimits_timers_cancel R) = 0"
  "reset_due_msec (eigrp_pfxlimits_timers_cancel R) = 0" "cleanup_pending (eigrp_pfxlimits_timers_cancel R) = cleanup_pending R"
  "pkt_active (eigrp_pfxlimits_timers_cancel R) = pkt_active R" "pf_intfs (eigrp_pfxlimits_timers_cancel R) = pf_intfs R"
  "penalty_q16 (eigrp_pfxlimits_timers_cancel R) = penalty_q16 R" "suspended_are b (eigrp_pfxlimits_timers_cancel R) = suspended_are b R"
  by (simp_all add: eigrp_pfxlimits_timers_cancel_def suspended_are_def)

lemma arm_slots:
  assumes "timers_ok (pf_timers R)" and "callbacks_ok (pf_timers R)" and "slot \<in> {RESTART_SLOT, RESET_SLOT}"
  shows "timers_ok (pf_timers (eigrp_pfxlimits_timer_arm h slot due R))" "callbacks_ok (pf_timers (eigrp_pfxlimits_timer_arm h slot due R))"
    "timer_map (pf_timers (eigrp_pfxlimits_timer_arm h slot due R)) slot = None \<longleftrightarrow> \<not> (timer_calloc h slot \<and> timers_ready (pf_timers R))"
    "own \<noteq> slot \<Longrightarrow> timer_map (pf_timers (eigrp_pfxlimits_timer_arm h slot due R)) own = timer_map (pf_timers R) own"
    "timers_ready (pf_timers (eigrp_pfxlimits_timer_arm h slot due R)) = timers_ready (pf_timers R)"
  using assms by (auto simp: eigrp_pfxlimits_timer_arm_def Let_def tm.ok_add tm.view_add tm.ready_add callbacks_ok_def)

lemma arm_frame [simp]:
  "af_state (eigrp_pfxlimits_timer_arm h slot due R) = af_state R" "restart_due_msec (eigrp_pfxlimits_timer_arm h slot due R) = restart_due_msec R"
  "reset_due_msec (eigrp_pfxlimits_timer_arm h slot due R) = reset_due_msec R" "cleanup_pending (eigrp_pfxlimits_timer_arm h slot due R) = cleanup_pending R"
  "pkt_active (eigrp_pfxlimits_timer_arm h slot due R) = pkt_active R" "penalty_q16 (eigrp_pfxlimits_timer_arm h slot due R) = penalty_q16 R"
  "suspended_are b (eigrp_pfxlimits_timer_arm h slot due R) = suspended_are b R"
  by (simp_all add: eigrp_pfxlimits_timer_arm_def Let_def suspended_are_def)


lemma dequeue_slots:
  assumes ok: "timers_ok tm" "callbacks_ok tm" and d: "eigrp_instance_timer_due_dequeue now tm = (r, tm')"
  shows "timers_ok tm'" "callbacks_ok tm'" "timers_ready tm' = timers_ready tm"
    "r = None \<Longrightarrow> tm' = tm"
    "r = Some e \<Longrightarrow> own \<in> {RESTART_SLOT, RESET_SLOT} \<Longrightarrow> timer_map tm' own = (if ev_callback e = own then None else timer_map tm own)"
    "r = Some e \<Longrightarrow> timer_map tm (ev_owner e) \<noteq> None \<and> (\<forall>own\<in>{RESTART_SLOT, RESET_SLOT}. ev_callback e = own \<longleftrightarrow> ev_owner e = own)"
proof -
  note q = dequeue_ok [OF ok(1), of now, unfolded d]
  show "timers_ready tm' = timers_ready tm" 
    using d by (auto simp: eigrp_instance_timer_due_dequeue_def timers_ready_def split: list.splits if_splits)
  show "r = None \<Longrightarrow> tm' = tm" using q by simp
  show "timers_ok tm'" "callbacks_ok tm'" using q ok by (auto simp: callbacks_ok_def split: option.splits if_splits)
  have e: "(\<forall>own\<in>{RESTART_SLOT, RESET_SLOT}. ev_callback e = own \<longleftrightarrow> ev_owner e = own) \<and> timer_map tm (ev_owner e) \<noteq> None"
    if "r = Some e"
    using q ok(2) that unfolding callbacks_ok_def by auto
  then show "r = Some e \<Longrightarrow> timer_map tm (ev_owner e) \<noteq> None \<and> (\<forall>own\<in>{RESTART_SLOT, RESET_SLOT}. ev_callback e = own \<longleftrightarrow> ev_owner e = own)" by blast
  show "r = Some e \<Longrightarrow> own \<in> {RESTART_SLOT, RESET_SLOT} \<Longrightarrow> timer_map tm' own = (if ev_callback e = own then None else timer_map tm own)"
    using q e by auto
qed

text \<open>Every way the limit state changes, from a fresh runtime.  A timer runs only between packets, and finds memory to start again.\<close>

inductive pfx_reach :: "pfx_runtime \<Rightarrow> bool" where
  start: "timers_ok (pf_timers R) \<Longrightarrow> callbacks_ok (pf_timers R) \<Longrightarrow> timer_map (pf_timers R) RESTART_SLOT = None \<Longrightarrow> af_state R = 0
    \<Longrightarrow> \<not> cleanup_pending R \<Longrightarrow> restart_due_msec R = 0 \<Longrightarrow> suspended_are False R \<Longrightarrow> pfx_reach R"
| exceeded: "pfx_reach R \<Longrightarrow> pfx_reach (eigrp_pfxlimits_prefix_exceeded h limit R)"
| packet_start: "pfx_reach R \<Longrightarrow> pfx_reach (packet_begin R)"
| packet_done: "pfx_reach R \<Longrightarrow> pfx_reach (packet_end h R)"
| timer: "pfx_reach R \<Longrightarrow> \<not> pkt_active R \<Longrightarrow> timer_calloc h RESTART_SLOT \<Longrightarrow> pfx_reach (eigrp_instance_timer_service h R)"
| clear: "pfx_reach R \<Longrightarrow> \<not> pkt_active R \<Longrightarrow> eigrp_pfxlimits_state_clear h dispatch R = (res, R') \<Longrightarrow> pfx_reach R'"

lemma packet_ok: "pfx_ok R \<Longrightarrow> pfx_ok (packet_begin R)" "pfx_ok R \<Longrightarrow> pfx_ok (packet_end h R)"
proof -
  have s: "suspended_are b (R\<lparr>pkt_active := x\<rparr>) = suspended_are b R" for b x R by (simp add: suspended_are_def)
  show "pfx_ok R \<Longrightarrow> pfx_ok (packet_begin R)" by (auto simp: pfx_ok_def packet_begin_def s)
  show "pfx_ok R \<Longrightarrow> pfx_ok (packet_end h R)" by (auto simp: pfx_ok_def packet_end_def Let_def s)
qed

lemma restart_ok:
  assumes "timers_ok (pf_timers R)" "callbacks_ok (pf_timers R)" "af_state R = 1" "\<not> cleanup_pending R" "suspended_are True R"
    "restart_due_msec R \<noteq> 0" "timers_ready (pf_timers R)" "timer_map (pf_timers R) RESTART_SLOT = None" "timer_calloc h RESTART_SLOT"
  shows "pfx_ok (eigrp_pfxlimits_restart_expired h R)"
proof (cases "clock h < restart_due_msec R")
  case True
  then show ?thesis using assms arm_slots [OF assms(1,2), where slot = RESTART_SLOT and h = h and due = "restart_due_msec R"]
    by (simp add: eigrp_pfxlimits_restart_expired_def pfx_ok_def)
next
  case False
  then show ?thesis using assms nbr_update_suspended [of True h "R\<lparr>restart_due_msec := 0, af_state := 0\<rparr>"]
    by (simp add: eigrp_pfxlimits_restart_expired_def pfx_ok_def)
qed

lemma reset_ok:
  assumes "pfx_ok R" shows "pfx_ok (eigrp_pfxlimits_reset_expired h R)"
proof -
  have t: "timers_ok (pf_timers R)" "callbacks_ok (pf_timers R)" using assms by (simp_all add: pfx_ok_def)
  have n: "RESTART_SLOT \<noteq> RESET_SLOT" by (simp add: slot_simps)
  have a: "pfx_ok (eigrp_pfxlimits_timer_arm h RESET_SLOT due R)" if "af_state R \<noteq> 2" for due
    using assms arm_slots [OF t, where slot = RESET_SLOT and h = h and due = due] n that by (simp add: pfx_ok_def)
  have "suspended_are b (R\<lparr>reset_due_msec := 0\<rparr>) = suspended_are b R"
    "suspended_are b (R\<lparr>reset_due_msec := 0, restart_cnt := 0, penalty_q16 := 0, decay_msec := 0\<rparr>) = suspended_are b R" for b
    by (simp_all add: suspended_are_def)
  then have "pfx_ok (R\<lparr>reset_due_msec := 0\<rparr>)" "pfx_ok (R\<lparr>reset_due_msec := 0, restart_cnt := 0, penalty_q16 := 0, decay_msec := 0\<rparr>)"
    using assms by (simp_all add: pfx_ok_def)
  then show ?thesis using a assms by (auto simp: eigrp_pfxlimits_reset_expired_def Let_def pfx_ok_def)
qed


lemma service_ok:
  assumes i: "pfx_ok R" and p: "\<not> pkt_active R" and c: "timer_calloc h RESTART_SLOT"
  shows "pfx_ok (eigrp_instance_timer_service h R)"
proof -
  obtain r tm where d: "eigrp_instance_timer_due_dequeue (clock h) (pf_timers R) = (r, tm)" by fastforce
  have t: "timers_ok (pf_timers R)" "callbacks_ok (pf_timers R)" using i by (simp_all add: pfx_ok_def)
  note q = dequeue_slots [OF t d]
  let ?R = "R\<lparr>pf_timers := tm\<rparr>"
  have s: "suspended_are b ?R = suspended_are b R" for b by (simp add: suspended_are_def)
  have n: "RESTART_SLOT \<noteq> RESET_SLOT" by (simp add: slot_simps)
  show ?thesis
  proof (cases r)
    case None
    then show ?thesis using d q(4) i by (simp add: eigrp_instance_timer_service_def)
  next
    case (Some e)
    note m = q(5) [OF Some] and o = q(6) [OF Some]
    have "pfx_ok (eigrp_pfxlimits_restart_expired h ?R)" if cb: "ev_callback e = RESTART_SLOT"
    proof -
      have "timer_map (pf_timers R) RESTART_SLOT \<noteq> None" using o cb by auto
      then have "af_state R = 1" "restart_due_msec R \<noteq> 0" "timers_ready (pf_timers R)" "\<not> cleanup_pending R" "suspended_are True R"
        using i p by (auto simp: pfx_ok_def split: if_splits)
      then show ?thesis using q(1-3) m [of RESTART_SLOT] cb c s by (intro restart_ok) simp_all
    qed
    moreover have "pfx_ok ?R" if cb: "ev_callback e \<noteq> RESTART_SLOT"
      using i q(1-3) m [of RESTART_SLOT] m [of RESET_SLOT] cb n s by (simp add: pfx_ok_def)
    ultimately show ?thesis using d Some reset_ok n by (simp add: eigrp_instance_timer_service_def Let_def)
  qed
qed

lemma clear_ok:
  assumes i: "pfx_ok R" and p: "\<not> pkt_active R" and c: "eigrp_pfxlimits_state_clear h b R = (res, R')"
  shows "pfx_ok R'"
proof -
  have t: "timers_ok (pf_timers R)" "callbacks_ok (pf_timers R)" using i by (simp_all add: pfx_ok_def)
  note k = cancel_slots [OF t]
  let ?R = "(eigrp_pfxlimits_timers_cancel R)\<lparr>af_state := 0, cleanup_pending := False, restart_cnt := 0, penalty_q16 := 0, decay_msec := 0\<rparr>"
  have "pfx_ok (eigrp_pfxlimits_state_release h True R)"
    using k nbr_update_suspended [of True h ?R] by (simp add: eigrp_pfxlimits_state_release_def Let_def pfx_ok_def)
  moreover have "pfx_ok ((eigrp_pfxlimits_timers_cancel R)\<lparr>restart_cnt := 0, penalty_q16 := 0, decay_msec := 0\<rparr>)" if "af_state R = 0"
    using k i that by (auto simp: pfx_ok_def suspended_are_def)
  ultimately show ?thesis using c i by (auto simp: eigrp_pfxlimits_state_clear_def split: if_splits)
qed

subsection \<open>Intervals\<close>

lemma unat_u32: "unat (w :: u32) < 2 ^ 32"
  using unsigned_less [of w, where ?'a = nat] by simp

lemma unat_up: "unat (ucast (w :: u32) :: u64) = unat w"
  using unat_u32 [of w] by (simp add: unsigned_ucast_eq take_bit_eq_mod)

lemma decay_step_le: "unat (decay_step f i score) \<le> unat score" if "i < 8"
proof -
  have "\<forall>x\<in>set decay_factor. unat x < 2 ^ 16" by (simp add: decay_factor_def)
  moreover have "decay_factor ! i \<in> set decay_factor" using that by (intro nth_mem) (simp add: decay_factor_def)
  ultimately have f: "unat (decay_factor ! i) < 2 ^ 16" by blast
  let ?p = "ucast score * ucast (decay_factor ! i) :: u64"
  have "unat score < 2 ^ 32" by (rule unat_u32)
  then have "unat score * unat (decay_factor ! i) < 2 ^ 32 * 2 ^ 16" using f by (intro mult_strict_mono) auto
  then have u: "unat ?p = unat score * unat (decay_factor ! i)" by (simp add: unat_word_ariths unat_up)
  have "unat (drop_bit 16 ?p) = unat score * unat (decay_factor ! i) div 2 ^ 16"
    by (simp add: drop_bit_eq_div unat_div u)
  also have "\<dots> \<le> unat score * 2 ^ 16 div 2 ^ 16" using f by (intro div_le_mono mult_le_mono) simp_all
  finally have le: "unat (drop_bit 16 ?p) \<le> unat score" by simp
  have "unat (ucast (drop_bit 16 ?p) :: u32) \<le> unat (drop_bit 16 ?p)" by (simp add: unsigned_ucast_eq take_bit_eq_mod)
  then show ?thesis using le by (simp add: decay_step_def)
qed


lemma decay_fold_le: "\<forall>i\<in>set is. i < 8 \<Longrightarrow> unat (fold (decay_step f) is score) \<le> unat score"
proof (induction "is" arbitrary: score)
  case (Cons i "is")
  then have "unat (fold (decay_step f) is (decay_step f i score)) \<le> unat (decay_step f i score)" by simp
  then show ?case using decay_step_le [of i f score] Cons.prems by simp
qed simp

lemma penalty_update_frame [simp]:
  "pf_timers (penalty_update now l hl R) = pf_timers R" "af_state (penalty_update now l hl R) = af_state R"
  "pf_intfs (penalty_update now l hl R) = pf_intfs R" "pkt_active (penalty_update now l hl R) = pkt_active R"
  "restart_due_msec (penalty_update now l hl R) = restart_due_msec R" "reset_due_msec (penalty_update now l hl R) = reset_due_msec R"
  "restart_cnt (penalty_update now l hl R) = restart_cnt R"
  by (simp_all add: penalty_update_def Let_def)

lemma penalty_update_ge: "dampened l \<Longrightarrow> PFXLIMITS_Q16 \<le> penalty_q16 (penalty_update now l hl R)"
proof -
  have m: "PFXLIMITS_Q16 \<le> 0xFFFFFFFF" by (simp add: PFXLIMITS_Q16_def word_le_nat_alt)
  have a: "PFXLIMITS_Q16 \<le> p + PFXLIMITS_Q16" if "\<not> 0xFFFFFFFF - PFXLIMITS_Q16 < p" for p :: u32
  proof -
    have "unat p \<le> 4294901759" using that by (simp add: PFXLIMITS_Q16_def not_less word_le_nat_alt)
    then have "unat (p + 65536) = unat p + 65536" by (simp add: unat_word_ariths)
    then show ?thesis by (simp add: PFXLIMITS_Q16_def word_le_nat_alt)
  qed
  assume "dampened l"
  then show ?thesis using a m by (auto simp: penalty_update_def Let_def)
qed

lemma restart_interval_ge:
  assumes "dampened l \<longrightarrow> PFXLIMITS_Q16 \<le> penalty"
  shows "base \<le> restart_interval l base penalty"
proof (cases "dampened l")
  case True
  let ?s = "ucast penalty :: u64"
  have s: "unat ?s = unat penalty" "65536 \<le> unat penalty"
    using assms True unat_u32 [of penalty] by (simp_all add: unsigned_ucast_eq take_bit_eq_mod PFXLIMITS_Q16_def word_le_nat_alt)
  show ?thesis
  proof (cases "0xFFFFFFFFFFFFFFFF div ?s < base")
    case True
    have "base \<le> 0xFFFFFFFFFFFFFFFF" using unsigned_less [of base, where ?'a = nat] by (simp add: word_le_nat_alt)
    then show ?thesis using True s \<open>dampened l\<close> by (auto simp: restart_interval_def Let_def)
  next
    case False
    then have "unat base \<le> 18446744073709551615 div unat penalty" by (simp add: word_le_nat_alt not_less unat_div s)
    then have "unat base * unat penalty \<le> 18446744073709551615" using s(2) by (simp add: less_eq_div_iff_mult_less_eq)
    then have u: "unat (base * ?s) = unat base * unat penalty" by (simp add: unat_word_ariths s)
    have "unat base * 65536 div 65536 \<le> unat base * unat penalty div 65536" using s(2) by (intro div_le_mono mult_le_mono) simp_all
    then have "base \<le> (base * ?s) div ucast PFXLIMITS_Q16" by (simp add: word_le_nat_alt unat_div u PFXLIMITS_Q16_def)
    then show ?thesis using False \<open>dampened l\<close> by (auto simp: restart_interval_def Let_def)
  qed
qed (simp add: restart_interval_def)


subsection \<open>Exceeding the limit\<close>

lemma no_wrap_add:
  fixes a b :: u64
  assumes "\<not> 0xFFFFFFFFFFFFFFFF - a < b"
  shows "unat (a + b) = unat a + unat b"
proof -
  have l: "unat a < 2 ^ 64" using unsigned_less [of a, where ?'a = nat] by simp
  then have "a \<le> 0xFFFFFFFFFFFFFFFF" by (simp add: word_le_nat_alt)
  then have "unat (0xFFFFFFFFFFFFFFFF - a) = 18446744073709551615 - unat a" by (simp add: unat_sub)
  then have "unat b \<le> 18446744073709551615 - unat a" using assms by (simp add: not_less word_le_nat_alt)
  then show ?thesis using l by (simp add: unat_word_ariths)
qed

lemma suspension_ok:
  assumes t: "timers_ok (pf_timers R)" "callbacks_ok (pf_timers R)" "timer_map (pf_timers R) RESTART_SLOT = None"
      "timer_map (pf_timers R) RESET_SLOT = None" and st: "af_state R = 1" "restart_due_msec R = 0" "reset_due_msec R = 0"
    and c: "cleanup_pending R \<longrightarrow> pkt_active R" "\<not> cleanup_pending R \<longrightarrow> suspended_are True R" and i: "0 < interval"
  shows "pfx_ok (suspension_timers h interval rst R)"
    "af_state (suspension_timers h interval rst R) = 1 \<Longrightarrow> restart_due_msec (suspension_timers h interval rst R) = clock h + interval
      \<and> unat (clock h + interval) = unat (clock h) + unat interval"
proof -
  let ?o = "0xFFFFFFFFFFFFFFFF - clock h < interval \<or> 0xFFFFFFFFFFFFFFFF - clock h < rst * PFXLIMITS_MINUTE_MSEC"
  let ?R0 = "R\<lparr>restart_due_msec := clock h + interval, reset_due_msec := clock h + rst * PFXLIMITS_MINUTE_MSEC\<rparr>"
  let ?R1 = "eigrp_pfxlimits_timer_arm h RESTART_SLOT (clock h + interval) ?R0"
  let ?R2 = "eigrp_pfxlimits_timer_arm h RESET_SLOT (clock h + rst * PFXLIMITS_MINUTE_MSEC) ?R1"
  have def2: "suspension_timers h interval rst R = (if ?o then R\<lparr>af_state := 2\<rparr>
      else if slots (pf_timers ?R2) RESTART_SLOT = None \<or> slots (pf_timers ?R2) RESET_SLOT = None
      then (eigrp_pfxlimits_timers_cancel ?R2)\<lparr>af_state := 2\<rparr> else ?R2)"
    by (simp add: suspension_timers_def Let_def)
  have s: "suspended_are b (R\<lparr>af_state := x\<rparr>) = suspended_are b R" "suspended_are b (R\<lparr>restart_due_msec := y, reset_due_msec := z\<rparr>) = suspended_are b R"
    for b x y z R by (simp_all add: suspended_are_def)
  have n: "RESTART_SLOT \<noteq> RESET_SLOT" by (simp add: slot_simps)
  have t0: "timers_ok (pf_timers ?R0)" "callbacks_ok (pf_timers ?R0)" using t by simp_all
  note a1 = arm_slots [OF t0, where slot = RESTART_SLOT and h = h and due = "clock h + interval"]
  have t1: "timers_ok (pf_timers ?R1)" "callbacks_ok (pf_timers ?R1)" using a1(1,2) by simp_all
  note a2 = arm_slots [OF t1, where slot = RESET_SLOT and h = h and due = "clock h + rst * PFXLIMITS_MINUTE_MSEC"]
  have t2: "timers_ok (pf_timers ?R2)" "callbacks_ok (pf_timers ?R2)" using a2(1,2) by simp_all
  have w: "unat (clock h + interval) = unat (clock h) + unat interval" if "\<not> ?o" using that no_wrap_add by blast
  have ne: "clock h + interval \<noteq> 0" if "\<not> ?o" using w [OF that] i by (auto simp: word_less_nat_alt unat_eq_0 [symmetric] simp del: unat_eq_0)
  have "pfx_ok (R\<lparr>af_state := 2\<rparr>)" using t st c s by (simp add: pfx_ok_def)
  moreover have "pfx_ok ((eigrp_pfxlimits_timers_cancel ?R2)\<lparr>af_state := 2\<rparr>)"
    using cancel_slots [OF t2] st c s by (simp add: pfx_ok_def)
  moreover have "pfx_ok ?R2" if "\<not> ?o" "slots (pf_timers ?R2) RESTART_SLOT \<noteq> None"
  proof -
    have "timer_map (pf_timers ?R2) RESTART_SLOT \<noteq> None" using timer_map_slots [OF t2(1)] that(2) by simp
    moreover have "timers_ready (pf_timers R)" using calculation a1(3) a2(4) [of RESTART_SLOT] n by simp
    ultimately show ?thesis using t2 st c s a1(5) a2(5) ne [OF that(1)] by (simp add: pfx_ok_def)
  qed
  ultimately show "pfx_ok (suspension_timers h interval rst R)" unfolding def2 by simp
  show "af_state (suspension_timers h interval rst R) = 1 \<Longrightarrow> restart_due_msec (suspension_timers h interval rst R) = clock h + interval
      \<and> unat (clock h + interval) = unat (clock h) + unat interval"
    using w unfolding def2 by (auto split: if_splits)
qed


lemma limit_default_base: "0 < d \<Longrightarrow> d < 2 ^ 16 \<Longrightarrow> 60000 \<le> unat (ucast (limit_default v d) * PFXLIMITS_MINUTE_MSEC)"
proof -
  assume d: "0 < d" "d < 2 ^ 16"
  have "unat v < 2 ^ 16" using unsigned_less [of v, where ?'a = nat] by simp
  then have v: "unat (ucast v :: u32) = unat v" by (simp add: unsigned_ucast_eq take_bit_eq_mod)
  have "unat d < 2 ^ 16" using d(2) by (simp add: word_less_nat_alt)
  moreover have "0 < unat d" using d(1) by (simp add: word_less_nat_alt)
  ultimately have "0 < unat (limit_default v d)" "unat (limit_default v d) < 2 ^ 16"
    using \<open>unat v < 2 ^ 16\<close> v by (auto simp: limit_default_def unat_gt_0 unat_eq_zero)
  then show ?thesis by (simp add: PFXLIMITS_MINUTE_MSEC_def unat_word_ariths unat_up)
qed

lemma exceeded_state_ok:
  assumes "pfx_ok R" and "af_state R = 0" and R'_def: "R' = exceeded_state h l base R"
  shows "timers_ok (pf_timers R')" "callbacks_ok (pf_timers R')" "timer_map (pf_timers R') RESTART_SLOT = None"
    "timer_map (pf_timers R') RESET_SLOT = None" "restart_due_msec R' = 0" "reset_due_msec R' = 0" "cleanup_pending R'"
    "pkt_active R' = pkt_active R" "af_state R' = 1 \<or> af_state R' = 2" "dampened l \<Longrightarrow> PFXLIMITS_Q16 \<le> penalty_q16 R'"
proof -
  let ?R1 = "penalty_update (clock h) l (base + base div 2) R"
  let ?R2 = "if restart_cnt ?R1 < 0xFFFF then ?R1\<lparr>restart_cnt := restart_cnt ?R1 + 1\<rparr> else ?R1"
  let ?R3 = "?R2\<lparr>af_state := (if limit_default (restart_count l) 3 \<le> ucast (restart_cnt ?R2) then 2 else 1)\<rparr>"
  have d: "R' = (eigrp_pfxlimits_timers_cancel ?R3)\<lparr>cleanup_pending := True\<rparr>" by (simp add: R'_def exceeded_state_def Let_def)
  have "timers_ok (pf_timers ?R3)" "callbacks_ok (pf_timers ?R3)" using assms(1) by (simp_all add: pfx_ok_def)
  note c = cancel_slots [OF this]
  show "timers_ok (pf_timers R')" "callbacks_ok (pf_timers R')" "timer_map (pf_timers R') RESTART_SLOT = None"
    "timer_map (pf_timers R') RESET_SLOT = None" using c unfolding d by simp_all
  show "restart_due_msec R' = 0" "reset_due_msec R' = 0" "cleanup_pending R'" "pkt_active R' = pkt_active R" "af_state R' = 1 \<or> af_state R' = 2"
    unfolding d by simp_all
  show "dampened l \<Longrightarrow> PFXLIMITS_Q16 \<le> penalty_q16 R'" unfolding d by (simp add: penalty_update_ge)
qed

lemma exceeded_ok:
  assumes i: "pfx_ok R"
  shows "pfx_ok (eigrp_pfxlimits_prefix_exceeded h l R)"
    "\<not> warning_only l \<Longrightarrow> af_state R = 0 \<Longrightarrow> af_state (eigrp_pfxlimits_prefix_exceeded h l R) = 1
      \<Longrightarrow> unat (clock h) + unat (ucast (limit_default (restart_minutes l) 5) * PFXLIMITS_MINUTE_MSEC)
         \<le> unat (restart_due_msec (eigrp_pfxlimits_prefix_exceeded h l R))"
proof -
  have *: "pfx_ok (eigrp_pfxlimits_prefix_exceeded h l R) \<and> (af_state (eigrp_pfxlimits_prefix_exceeded h l R) = 1
      \<longrightarrow> unat (clock h) + unat (ucast (limit_default (restart_minutes l) 5) * PFXLIMITS_MINUTE_MSEC)
         \<le> unat (restart_due_msec (eigrp_pfxlimits_prefix_exceeded h l R)))" if p: "\<not> warning_only l" "af_state R = 0"
  proof -
    define base where "base = ucast (limit_default (restart_minutes l) 5) * PFXLIMITS_MINUTE_MSEC"
    define R1 where "R1 = exceeded_state h l base R"
    define R2 where "R2 = (if \<not> pkt_active R1 then eigrp_pfxlimits_state_cleanup h R1 else R1)"
    define iv where "iv = restart_interval l base (penalty_q16 R2)"
    define rst :: u64 where "rst = ucast (limit_default (reset_time_minutes l) 15)"
    note e = exceeded_state_ok [OF i p(2) R1_def]
    have d: "eigrp_pfxlimits_prefix_exceeded h l R = (if af_state R2 = 2 then R2 else suspension_timers h iv rst R2)"
      using p unfolding eigrp_pfxlimits_prefix_exceeded_def Let_def base_def [symmetric] R1_def [symmetric] R2_def [symmetric] iv_def rst_def by simp
    have f: "timers_ok (pf_timers R2)" "callbacks_ok (pf_timers R2)" "timer_map (pf_timers R2) RESTART_SLOT = None"
      "timer_map (pf_timers R2) RESET_SLOT = None" "restart_due_msec R2 = 0" "reset_due_msec R2 = 0" "af_state R2 = 1 \<or> af_state R2 = 2"
      "cleanup_pending R2 \<longrightarrow> pkt_active R2" "\<not> cleanup_pending R2 \<longrightarrow> suspended_are True R2" "dampened l \<longrightarrow> PFXLIMITS_Q16 \<le> penalty_q16 R2"
      using e by (simp_all add: R2_def)
    have b: "base \<le> iv" unfolding iv_def by (rule restart_interval_ge [OF f(10)])
    have "60000 \<le> unat base" unfolding base_def by (rule limit_default_base) (simp_all add: word_less_nat_alt)
    then have pos: "0 < iv" using b by (simp add: word_le_nat_alt word_less_nat_alt)
    show ?thesis
    proof (cases "af_state R2 = 2")
      case True
      then show ?thesis using f d by (simp add: pfx_ok_def)
    next
      case False
      then have st: "af_state R2 = 1" using f(7) by blast
      note k = suspension_ok [OF f(1-4) st f(5,6,8,9) pos, of h rst]
      show ?thesis using d False k b by (auto simp: base_def [symmetric] word_le_nat_alt)
    qed
  qed
  have "eigrp_pfxlimits_prefix_exceeded h l R = R" if "warning_only l \<or> af_state R \<noteq> 0" using that by (simp add: eigrp_pfxlimits_prefix_exceeded_def)
  then show "pfx_ok (eigrp_pfxlimits_prefix_exceeded h l R)" using * i by metis
  show "\<not> warning_only l \<Longrightarrow> af_state R = 0 \<Longrightarrow> af_state (eigrp_pfxlimits_prefix_exceeded h l R) = 1
      \<Longrightarrow> unat (clock h) + unat (ucast (limit_default (restart_minutes l) 5) * PFXLIMITS_MINUTE_MSEC)
         \<le> unat (restart_due_msec (eigrp_pfxlimits_prefix_exceeded h l R))" using * by blast
qed


lemma pfx_reach_ok: "pfx_reach R \<Longrightarrow> pfx_ok R"
proof (induction rule: pfx_reach.induct)
  case (start R)
  then show ?case by (simp add: pfx_ok_def)
qed (auto intro: exceeded_ok(1) packet_ok service_ok clear_ok)

text \<open>
  C22: The topology prefix limit never loses a suspension.  In every reachable state: a Normal address family has no suspended
  neighbour; outside of packet processing, a Suspended or Locked one has all its neighbours suspended; a Suspended
  one has its restart timer running, so that it ends by itself; and a Locked one has no timer, so that only the operator
  ends it.
\<close>

theorem pfxlimits_invariant:
  assumes "pfx_reach R"
  shows "af_state R \<in> {0, 1, 2} \<and> (af_state R = 0 \<longrightarrow> suspended_are False R) \<and> (cleanup_pending R \<longrightarrow> pkt_active R)
    \<and> (af_state R \<noteq> 0 \<and> \<not> pkt_active R \<longrightarrow> suspended_are True R)
    \<and> (slots (pf_timers R) RESTART_SLOT \<noteq> None \<longleftrightarrow> af_state R = 1)
    \<and> (af_state R = 2 \<longrightarrow> slots (pf_timers R) RESET_SLOT = None)"
proof -
  have i: "pfx_ok R" by (rule pfx_reach_ok [OF assms])
  then have "timer_map (pf_timers R) own = None \<longleftrightarrow> slots (pf_timers R) own = None" for own by (simp add: pfx_ok_def timer_map_slots)
  then show ?thesis using i unfolding pfx_ok_def by (auto split: if_splits)
qed

text \<open>
  A suspension lasts at least the configured restart time, whatever the penalty: the penalty of a dampened limit is at least
  one after a violation, the product of time and penalty saturates instead of wrapping, and a deadline that would wrap
  locks the address family.  And the decay of a penalty never raises it.
\<close>

theorem suspension_bounds:
  assumes "pfx_reach R" and "\<not> warning_only l" and "af_state R = 0" and "af_state (eigrp_pfxlimits_prefix_exceeded h l R) = 1"
  shows "unat (clock h) + 60000 * unat (limit_default (restart_minutes l) 5)
      \<le> unat (restart_due_msec (eigrp_pfxlimits_prefix_exceeded h l R))
    \<and> eigrp_pfxlimits_penalty_decay p elapsed half_life \<le> p"
proof -
  have u: "unat (limit_default (restart_minutes l) 5) < 2 ^ 32" by (rule unat_u32)
  have "unat (ucast (limit_default (restart_minutes l) 5) * PFXLIMITS_MINUTE_MSEC) = 60000 * unat (limit_default (restart_minutes l) 5)"
    using u by (simp add: PFXLIMITS_MINUTE_MSEC_def unat_word_ariths unat_up)
  moreover have "unat (drop_bit k p) \<le> unat p" for k by (simp add: drop_bit_eq_div unat_div)
  moreover have "unat (fold (decay_step f) [0..<8] s) \<le> unat s" for f s by (rule decay_fold_le) simp
  ultimately show ?thesis using exceeded_ok(2) [OF pfx_reach_ok [OF assms(1)] assms(2-4)] order_trans
    by (fastforce simp: eigrp_pfxlimits_penalty_decay_def word_le_nat_alt)
qed

definition sample_runtime :: pfx_runtime where
  "sample_runtime = \<lparr>pf_timers = \<lparr>timer_head = [], slots = (\<lambda>_. None), tm_shutdown = False, tm_running = True, next_ptr = 0\<rparr>, af_state = 0, cleanup_pending = False, pkt_active = False, restart_cnt = 0, penalty_q16 = 0,
     decay_msec = 0, restart_due_msec = 0, reset_due_msec = 0, redist_limit_state = 0, next_neighbor_generation = 5,
     pf_intfs = [\<lparr>operative = True, pf_passive = False,
       nbr_list = [\<lparr>published = True, limit_state_none = True, af_suspended = False, nbr_generation = 3\<rparr>]\<rparr>], pf_calls = []\<rparr>"

definition sample_input :: pfx_input where
  "sample_input = \<lparr>clock = 1000, arm_clock = (\<lambda>_. 1000), add_clock = (\<lambda>_. 1000), timer_calloc = (\<lambda>_. True), peers_calloc = True\<rparr>"

definition sample_limit :: pfx_limit where
  "sample_limit = \<lparr>warning_only = False, dampened = True, reset_time_minutes = 0, restart_minutes = 2, restart_count = 0\<rparr>"

lemma sample_runtime_reach: "pfx_reach sample_runtime"
  by (rule pfx_reach.start)
    (simp_all add: sample_runtime_def suspended_are_def timers_ok_def callbacks_ok_def timer_map_def)

theorem pfxlimits_invariant_witness:
  "af_state (eigrp_pfxlimits_prefix_exceeded sample_input sample_limit sample_runtime) = 1
   \<and> suspended_are True (eigrp_pfxlimits_prefix_exceeded sample_input sample_limit sample_runtime)
   \<and> slots (pf_timers (eigrp_pfxlimits_prefix_exceeded sample_input sample_limit sample_runtime)) RESTART_SLOT \<noteq> None"
proof -
  have "af_state (eigrp_pfxlimits_prefix_exceeded sample_input sample_limit sample_runtime) = 1"
    "\<not> pkt_active (eigrp_pfxlimits_prefix_exceeded sample_input sample_limit sample_runtime)" by code_simp+
  then show ?thesis using pfxlimits_invariant [OF pfx_reach.exceeded [OF sample_runtime_reach, of sample_input sample_limit]] by simp
qed

theorem suspension_bounds_witness:
  "121000 \<le> unat (restart_due_msec (eigrp_pfxlimits_prefix_exceeded sample_input sample_limit sample_runtime))"
proof -
  have "\<not> warning_only sample_limit" "af_state sample_runtime = 0"
    "af_state (eigrp_pfxlimits_prefix_exceeded sample_input sample_limit sample_runtime) = 1" by code_simp+
  moreover have "unat (clock sample_input) + 60000 * unat (limit_default (restart_minutes sample_limit) 5) = 121000"
    by (simp add: sample_input_def sample_limit_def limit_default_def)
  ultimately show ?thesis using suspension_bounds [OF sample_runtime_reach] by metis
qed

end
