(* ===== verification/Eigrp_Pacing.thy ===== *)
theory Eigrp_Pacing
  imports Eigrp_Prelude
begin

text \<open>
  The transmit budget of an interface (\<^verbatim>\<open>eigrp_packet_pacing_*\<close> of \<^verbatim>\<open>eigrp_packet.c\<close>): a token bucket in units of
  1/800 byte that fills with \<^verbatim>\<open>bandwidth * percent\<close> per millisecond.  The word arithmetic is related to the
  token bucket over the naturals, and the bounds on what is sent follow from that.
\<close>

record eigrp_pacing =
  params_bandwidth :: u32
  curr_bandwidth :: u32
  bandwidth_percent :: u32
  pacing_initialized :: bool
  pacing_last_msec :: u64
  pacing_rate :: u64
  pacing_credit :: u64

definition EIGRP_BANDWIDTH_DEFAULT :: u32 where "EIGRP_BANDWIDTH_DEFAULT = 100000"

definition eigrp_packet_pacing_rate :: "eigrp_pacing \<Rightarrow> u64" where
  "eigrp_packet_pacing_rate e =
     (let bandwidth = (if params_bandwidth e = 0 then (if curr_bandwidth e \<noteq> 0 then curr_bandwidth e else EIGRP_BANDWIDTH_DEFAULT)
                       else params_bandwidth e);
          percent = (if bandwidth_percent e = 0 then 50 else bandwidth_percent e)
      in ucast bandwidth * ucast percent)"

definition eigrp_packet_pacing_delay_msec :: "eigrp_pacing \<Rightarrow> u16 \<Rightarrow> u64 \<Rightarrow> u32 \<times> eigrp_pacing" where
  "eigrp_packet_pacing_delay_msec e packet_length now =
     (if packet_length = 0 then (0, e)
      else
        let rate = eigrp_packet_pacing_rate e;
            charge = ucast packet_length * 800;
            capacity = (if charge < rate then rate else charge);
            e = (if \<not> pacing_initialized e \<or> pacing_rate e \<noteq> rate \<or> now < pacing_last_msec e
                 then e\<lparr>pacing_initialized := True, pacing_last_msec := now, pacing_rate := rate, pacing_credit := capacity\<rparr>
                 else
                   let elapsed = now - pacing_last_msec e;
                       credit = (if (capacity + rate - 1) div rate \<le> elapsed then capacity
                                 else let credit = pacing_credit e + elapsed * rate in if credit < capacity then credit else capacity)
                   in e\<lparr>pacing_last_msec := now, pacing_credit := (if capacity < credit then capacity else credit)\<rparr>)
        in if charge \<le> pacing_credit e then (0, e)
           else
             let needed = charge - pacing_credit e;
                 elapsed = (needed + rate - 1) div rate
             in (ucast (if 0xffffffff < elapsed then 0xffffffff else elapsed), e))"

definition eigrp_packet_pacing_charge :: "eigrp_pacing \<Rightarrow> u16 \<Rightarrow> eigrp_pacing" where
  "eigrp_packet_pacing_charge e packet_length =
     (let charge = ucast packet_length * 800
      in if \<not> pacing_initialized e then e
         else e\<lparr>pacing_credit := (if charge \<le> pacing_credit e then pacing_credit e - charge else 0)\<rparr>)"

subsection \<open>The token bucket over the naturals\<close>

text \<open>The configured percentage is at most 999999 (\<^verbatim>\<open>eigrp_intf_bandwidth_percent_update\<close>).\<close>

definition pacing_ok :: "eigrp_pacing \<Rightarrow> bool" where
  "pacing_ok e \<longleftrightarrow> bandwidth_percent e \<le> 999999"

definition charge_of :: "u16 \<Rightarrow> nat" where "charge_of len = 800 * unat len"

definition rate_of :: "eigrp_pacing \<Rightarrow> nat" where
  "rate_of e = (if params_bandwidth e = 0 then if curr_bandwidth e \<noteq> 0 then unat (curr_bandwidth e) else 100000 else unat (params_bandwidth e))
     * (if bandwidth_percent e = 0 then 50 else unat (bandwidth_percent e))"

definition capacity_of :: "eigrp_pacing \<Rightarrow> u16 \<Rightarrow> nat" where
  "capacity_of e len = max (rate_of e) (charge_of len)"

lemma charge_word: "unat (ucast (len :: u16) * 800 :: u64) = charge_of len" "charge_of len < 2 ^ 26"
proof -
  have l: "unat len < 2 ^ 16" using unsigned_less [of len, where ?'a = nat] by simp
  have "unat (ucast len :: u64) = unat len" using l by (simp add: unsigned_ucast_eq take_bit_eq_mod)
  then show "unat (ucast len * 800 :: u64) = charge_of len" using l by (simp add: unat_word_ariths charge_of_def)
  show "charge_of len < 2 ^ 26" using l by (simp add: charge_of_def)
qed

lemma rate_word:
  assumes "pacing_ok e"
  shows "unat (eigrp_packet_pacing_rate e) = rate_of e" "0 < rate_of e" "rate_of e < 2 ^ 52"
proof -
  let ?b = "if params_bandwidth e = 0 then if curr_bandwidth e \<noteq> 0 then unat (curr_bandwidth e) else 100000 else unat (params_bandwidth e)"
  let ?p = "if bandwidth_percent e = 0 then 50 else unat (bandwidth_percent e)"
  have w: "unat (w :: u32) < 2 ^ 32" for w using unsigned_less [of w, where ?'a = nat] by simp
  have c: "unat (ucast (w :: u32) :: u64) = unat w" for w using w [of w] by (simp add: unsigned_ucast_eq take_bit_eq_mod)
  have nz: "w \<noteq> 0 \<Longrightarrow> 0 < unat w" for w :: u32 by (simp add: unat_gt_0)
  have b: "?b < 2 ^ 32" "0 < ?b" using w [of "curr_bandwidth e"] w [of "params_bandwidth e"] nz by auto
  have p: "?p < 2 ^ 20" "0 < ?p" using assms nz by (auto simp: pacing_ok_def word_le_nat_alt)
  have r: "rate_of e = ?b * ?p" by (simp add: rate_of_def)
  have l: "?b * ?p < 2 ^ 32 * 2 ^ 20" using b(1) p(1) by (intro mult_strict_mono) auto
  show "0 < rate_of e" "rate_of e < 2 ^ 52" using b(2) p(2) l r by simp_all
  have "unat (eigrp_packet_pacing_rate e) = ?b * ?p mod 2 ^ 64"
    by (simp add: eigrp_packet_pacing_rate_def Let_def unat_word_ariths c EIGRP_BANDWIDTH_DEFAULT_def)
  then show "unat (eigrp_packet_pacing_rate e) = rate_of e" using l r by simp
qed


definition running :: "eigrp_pacing \<Rightarrow> u64 \<Rightarrow> bool" where
  "running e now \<longleftrightarrow> pacing_initialized e \<and> pacing_rate e = eigrp_packet_pacing_rate e \<and> pacing_last_msec e \<le> now"

text \<open>The credit a packet of length \<open>len\<close> finds at time \<open>now\<close>.\<close>

definition credit_at :: "eigrp_pacing \<Rightarrow> u16 \<Rightarrow> u64 \<Rightarrow> nat" where
  "credit_at e len now =
     (if running e now then min (capacity_of e len) (unat (pacing_credit e) + (unat now - unat (pacing_last_msec e)) * rate_of e)
      else capacity_of e len)"

lemma ceiling_le: "0 < r \<Longrightarrow> (c + r - 1) div r \<le> x \<longleftrightarrow> c \<le> x * r" for c r x :: nat
proof -
  assume r: "0 < r"
  have "(c + r - 1) div r \<le> x \<longleftrightarrow> (c + r - 1) div r < x + 1" by auto
  also have "\<dots> \<longleftrightarrow> c + r - 1 < (x + 1) * r" by (rule div_less_iff_less_mult [OF r])
  also have "\<dots> \<longleftrightarrow> c \<le> x * r" using r by auto
  finally show ?thesis .
qed

lemma word_ceiling:
  assumes r: "unat r = a" "0 < a" "a < 2 ^ 52" and c: "unat c < 2 ^ 52"
  shows "unat ((c + r - 1) div r :: u64) = (unat c + a - 1) div a"
proof -
  have "unat (c + r) = unat c + a" using r c by (simp add: unat_word_ariths)
  moreover have "1 \<le> c + r" using r(2) calculation by (simp add: word_le_nat_alt)
  ultimately have "unat (c + r - 1) = unat c + a - 1" by (simp add: unat_sub)
  then show ?thesis using r(1) by (simp add: unat_div)
qed

lemma refill_word:
  assumes e: "pacing_ok e" and c: "unat cap < 2 ^ 52" and el: "\<not> (cap + eigrp_packet_pacing_rate e - 1) div eigrp_packet_pacing_rate e \<le> el"
    and k: "unat k < 2 ^ 60"
  shows "unat (k + el * eigrp_packet_pacing_rate e) = unat k + unat el * rate_of e"
proof -
  note r = rate_word [OF e]
  have "unat el < (unat cap + rate_of e - 1) div rate_of e"
    using el word_ceiling [OF r c] by (simp add: word_le_nat_alt)
  then have l: "unat el * rate_of e < unat cap" using ceiling_le [OF r(2), of "unat cap" "unat el"] by simp
  then have "unat (el * eigrp_packet_pacing_rate e) = unat el * rate_of e" using c r(1) by (simp add: unat_word_ariths)
  then show ?thesis using l c k by (simp add: unat_word_ariths)
qed

lemma pacing_delay:
  assumes e: "pacing_ok e" and len: "len \<noteq> 0" and k: "unat (pacing_credit e) < 2 ^ 60"
    and d: "eigrp_packet_pacing_delay_msec e len now = (d, e')"
  shows "unat (pacing_credit e') = credit_at e len now"
    "e' = e\<lparr>pacing_initialized := True, pacing_last_msec := now, pacing_rate := eigrp_packet_pacing_rate e, pacing_credit := pacing_credit e'\<rparr>"
    "unat d = (charge_of len - credit_at e len now + rate_of e - 1) div rate_of e"
proof -
  note r = rate_word [OF e] and c = charge_word [of len]
  let ?r = "eigrp_packet_pacing_rate e" and ?c = "ucast len * 800 :: u64"
  let ?cap = "if ?c < ?r then ?r else ?c"
  have cap: "unat ?cap = capacity_of e len" using r(1) c(1) by (auto simp: capacity_of_def word_less_nat_alt)
  have cap_b: "unat ?cap < 2 ^ 52" using r(3) c(2) cap by (simp add: capacity_of_def)
  have cap_u: "(capacity_of e len + rate_of e - 1) div rate_of e \<le> x \<longleftrightarrow> capacity_of e len \<le> x * rate_of e" for x by (rule ceiling_le [OF r(2)])
  let ?k = "if running e now then
      let el = now - pacing_last_msec e;
          k = (if (?cap + ?r - 1) div ?r \<le> el then ?cap else let k = pacing_credit e + el * ?r in if k < ?cap then k else ?cap)
      in if ?cap < k then ?cap else k else ?cap"
  have k': "unat ?k = credit_at e len now"
  proof (cases "running e now")
    case True
    let ?el = "now - pacing_last_msec e"
    have el: "unat ?el = unat now - unat (pacing_last_msec e)" using True by (simp add: running_def unat_sub)
    have "capacity_of e len \<le> unat ?el * rate_of e" if "(?cap + ?r - 1) div ?r \<le> ?el"
      using that word_ceiling [OF r cap_b] cap_u [of "unat ?el"] cap by (simp add: word_le_nat_alt)
    moreover have "unat (pacing_credit e + ?el * ?r) = unat (pacing_credit e) + unat ?el * rate_of e" if "\<not> (?cap + ?r - 1) div ?r \<le> ?el"
      by (rule refill_word [OF e cap_b that k])
    ultimately show ?thesis using True cap el by (auto simp: credit_at_def Let_def word_less_nat_alt min_def)
  next
    case False
    then show ?thesis using cap by (simp add: credit_at_def)
  qed
  have run: "(\<not> pacing_initialized e \<or> pacing_rate e \<noteq> ?r \<or> now < pacing_last_msec e) = (\<not> running e now)"
    by (auto simp: running_def not_le)
  have e'': "e' = e\<lparr>pacing_initialized := True, pacing_last_msec := now, pacing_rate := ?r, pacing_credit := ?k\<rparr>"
    using d len run unfolding eigrp_packet_pacing_delay_msec_def Let_def
    by (cases "running e now") (auto simp: running_def split: if_splits)
  show "unat (pacing_credit e') = credit_at e len now" using k' e'' by simp
  show "e' = e\<lparr>pacing_initialized := True, pacing_last_msec := now, pacing_rate := ?r, pacing_credit := pacing_credit e'\<rparr>" using e'' by simp
  let ?x = "(?c - pacing_credit e' + ?r - 1) div ?r"
  have d': "d = (if ?c \<le> pacing_credit e' then 0 else ucast (if 0xffffffff < ?x then 0xffffffff else ?x))"
    using d len run unfolding eigrp_packet_pacing_delay_msec_def Let_def
    by (cases "running e now") (auto simp: running_def split: if_splits)
  show "unat d = (charge_of len - credit_at e len now + rate_of e - 1) div rate_of e"
  proof (cases "?c \<le> pacing_credit e'")
    case True
    then have "charge_of len \<le> credit_at e len now" using c(1) k' e'' by (simp add: word_le_nat_alt)
    then show ?thesis using True d' r(2) by simp
  next
    case False
    then have s: "unat (?c - pacing_credit e') = charge_of len - credit_at e len now" using c(1) k' e'' by (simp add: unat_sub)
    have x: "unat ?x = (charge_of len - credit_at e len now + rate_of e - 1) div rate_of e"
      using word_ceiling [OF r, of "?c - pacing_credit e'"] s c(2) by simp
    have "charge_of len - credit_at e len now \<le> charge_of len * rate_of e" using r(2) by (simp add: trans_le_add1 mult_le_mono2 le_trans [OF diff_le_self])
    then have "unat ?x < 2 ^ 32" using x c(2) ceiling_le [OF r(2), of "charge_of len - credit_at e len now" "charge_of len"] by simp
    then show ?thesis using False d' x by (simp add: word_less_nat_alt unsigned_ucast_eq take_bit_eq_mod)
  qed
qed


subsection \<open>Properties\<close>

text \<open>
  What the writer asks of the budget, in order (\<^verbatim>\<open>eigrp_packet_write\<close>, \<^verbatim>\<open>eigrp_packet_wire_send\<close>): a data packet at a time, which is sent and
  charged when the delay is 0, is left in its queue when it is not, and is dropped when it is shorter than the 20 bytes of a header; or a Hello, which is sent and
  charged without being asked for.  The bytes counted are those of the data packets sent.
\<close>

datatype pace_event = Pace_Data u64 u16 | Pace_Hello u16

definition pace_step :: "eigrp_pacing \<Rightarrow> pace_event \<Rightarrow> eigrp_pacing \<times> nat" where
  "pace_step e v =
     (case v of
        Pace_Data now len \<Rightarrow>
          (case eigrp_packet_pacing_delay_msec e len now of
             (wait, e') \<Rightarrow> if wait \<noteq> 0 then (e', 0)
                           else if len < 20 then (e', 0) else (eigrp_packet_pacing_charge e' len, unat len))
      | Pace_Hello len \<Rightarrow> (eigrp_packet_pacing_charge e len, 0))"

fun pace_run :: "eigrp_pacing \<Rightarrow> pace_event list \<Rightarrow> eigrp_pacing \<times> nat" where
  "pace_run e [] = (e, 0)"
| "pace_run e (v # vs) = (case pace_step e v of (e1, n) \<Rightarrow> (case pace_run e1 vs of (e2, m) \<Rightarrow> (e2, n + m)))"

fun data_times :: "pace_event list \<Rightarrow> nat list" where
  "data_times [] = []"
| "data_times (Pace_Data now len # vs) = unat now # data_times vs"
| "data_times (Pace_Hello len # vs) = data_times vs"

text \<open>The time from the first request to the last.\<close>

definition request_span :: "pace_event list \<Rightarrow> nat" where
  "request_span vs = (if data_times vs = [] then 0 else last (data_times vs) - hd (data_times vs))"

fun data_within :: "u16 \<Rightarrow> pace_event \<Rightarrow> bool" where
  "data_within L (Pace_Data now len) = (len \<le> L)"
| "data_within L (Pace_Hello len) = True"

definition budget_ok :: "eigrp_pacing \<Rightarrow> bool" where
  "budget_ok e \<longleftrightarrow> pacing_ok e \<and> unat (pacing_credit e) < 2 ^ 60"

definition started :: "eigrp_pacing \<Rightarrow> bool" where
  "started e \<longleftrightarrow> budget_ok e \<and> pacing_initialized e \<and> pacing_rate e = eigrp_packet_pacing_rate e"

lemma rate_cong [simp]:
  "eigrp_packet_pacing_rate (e\<lparr>pacing_initialized := i\<rparr>) = eigrp_packet_pacing_rate e"
  "eigrp_packet_pacing_rate (e\<lparr>pacing_last_msec := l\<rparr>) = eigrp_packet_pacing_rate e"
  "eigrp_packet_pacing_rate (e\<lparr>pacing_rate := r\<rparr>) = eigrp_packet_pacing_rate e"
  "eigrp_packet_pacing_rate (e\<lparr>pacing_credit := k\<rparr>) = eigrp_packet_pacing_rate e"
  "rate_of (e\<lparr>pacing_initialized := i\<rparr>) = rate_of e" "rate_of (e\<lparr>pacing_last_msec := l\<rparr>) = rate_of e"
  "rate_of (e\<lparr>pacing_rate := r\<rparr>) = rate_of e" "rate_of (e\<lparr>pacing_credit := k\<rparr>) = rate_of e"
  by (simp_all add: eigrp_packet_pacing_rate_def rate_of_def)

lemma credit_at_bound: "pacing_ok e \<Longrightarrow> credit_at e len now < 2 ^ 60"
  using rate_word(3) [of e] charge_word(2) [of len] by (auto simp: credit_at_def capacity_of_def)

text \<open>A charge takes at most what there is.\<close>

lemma charge_effect:
  fixes len :: u16
  assumes "budget_ok e"
  defines "e' \<equiv> eigrp_packet_pacing_charge e len"
  shows "budget_ok e'" "rate_of e' = rate_of e" "pacing_last_msec e' = pacing_last_msec e" "started e \<Longrightarrow> started e'"
    "unat (pacing_credit e') \<le> unat (pacing_credit e)"
    "pacing_initialized e \<Longrightarrow> charge_of len \<le> unat (pacing_credit e) \<Longrightarrow> unat (pacing_credit e') + charge_of len = unat (pacing_credit e)"
proof -
  have k: "unat (pacing_credit e') \<le> unat (pacing_credit e)"
    using charge_word(1) [of len] by (auto simp: e'_def eigrp_packet_pacing_charge_def Let_def unat_sub)
  have e': "e' = e\<lparr>pacing_credit := pacing_credit e'\<rparr>" by (simp add: e'_def eigrp_packet_pacing_charge_def Let_def)
  show "unat (pacing_credit e') \<le> unat (pacing_credit e)" by (rule k)
  show b: "budget_ok e'" using assms(1) k by (subst e', simp add: budget_ok_def pacing_ok_def)
  show "rate_of e' = rate_of e" "pacing_last_msec e' = pacing_last_msec e" by (subst e', simp)+
  show "started e'" if "started e" using that k by (subst e', simp add: started_def budget_ok_def pacing_ok_def)
  show "unat (pacing_credit e') + charge_of len = unat (pacing_credit e)" if "pacing_initialized e" "charge_of len \<le> unat (pacing_credit e)"
    using that charge_word(1) [of len] by (simp add: e'_def eigrp_packet_pacing_charge_def Let_def word_le_nat_alt unat_sub)
qed

text \<open>One data packet, sent or not: the credit it finds pays for what is sent.\<close>

lemma data_step:
  assumes e: "budget_ok e" and len: "len \<noteq> 0" and s: "pace_step e (Pace_Data now len) = (e', n)"
  shows "started e'" "pacing_last_msec e' = now" "rate_of e' = rate_of e" "unat (pacing_credit e') + 800 * n \<le> credit_at e len now"
proof -
  obtain d e1 where d: "eigrp_packet_pacing_delay_msec e len now = (d, e1)" by fastforce
  have p: "pacing_ok e" "unat (pacing_credit e) < 2 ^ 60" using e by (simp_all add: budget_ok_def)
  note D = pacing_delay [OF p(1) len p(2) d]
  have e1: "pacing_initialized e1" "pacing_last_msec e1 = now" "rate_of e1 = rate_of e" "pacing_rate e1 = eigrp_packet_pacing_rate e1" "pacing_ok e1"
    using p(1) by (subst D(2), simp add: pacing_ok_def)+
  have b1: "budget_ok e1" "started e1" using e1 D(1) credit_at_bound [OF p(1), of len now] by (simp_all add: budget_ok_def started_def)
  note C = charge_effect [OF b1(1), of len]
  consider "d = 0" "\<not> len < 20" "e' = eigrp_packet_pacing_charge e1 len" "n = unat len" | "e' = e1" "n = 0"
    using s d by (auto simp: pace_step_def split: if_splits)
  then have "started e' \<and> pacing_last_msec e' = now \<and> rate_of e' = rate_of e \<and> unat (pacing_credit e') + 800 * n \<le> credit_at e len now"
  proof cases
    case 1
    have "(charge_of len - credit_at e len now + rate_of e - 1) div rate_of e \<le> 0" using D(3) 1(1) by simp
    then have "charge_of len \<le> credit_at e len now" using ceiling_le [OF rate_word(2) [OF p(1)], of _ 0] by simp
    then show ?thesis using C(2,3) C(4) [OF b1(2)] C(6) [OF e1(1)] D(1) e1(2,3) 1(3,4) by (simp add: charge_of_def)
  qed (use b1 e1 D(1) in simp)
  then show "started e'" "pacing_last_msec e' = now" "rate_of e' = rate_of e" "unat (pacing_credit e') + 800 * n \<le> credit_at e len now"
    by simp_all
qed

lemma pace_empty: "pace_step e (Pace_Data now 0) = (e, 0)"
  by (simp add: pace_step_def eigrp_packet_pacing_delay_msec_def)

text \<open>A started budget: what is sent is paid from the credit and the time that passes.\<close>

lemma started_run:
  assumes "started e" and "sorted (unat (pacing_last_msec e) # data_times vs)" and "pace_run e vs = (e', n)"
  shows "started e' \<and> 800 * n + unat (pacing_credit e')
    \<le> unat (pacing_credit e) + (last (unat (pacing_last_msec e) # data_times vs) - unat (pacing_last_msec e)) * rate_of e"
  using assms
proof (induction vs arbitrary: e n)
  case Nil
  then show ?case by simp
next
  case (Cons v vs)
  let ?t = "unat (pacing_last_msec e)"
  have b: "budget_ok e" using Cons.prems(1) by (simp add: started_def)
  obtain e1 n1 m where s: "pace_step e v = (e1, n1)" "pace_run e1 vs = (e', m)" "n = n1 + m" using Cons.prems(3) by (auto split: prod.splits)
  consider len where "v = Pace_Hello len" | now where "v = Pace_Data now 0" | now len where "v = Pace_Data now len" "len \<noteq> 0"
    by (cases v) blast+
  then show ?case
  proof cases
    case (1 len)
    note C = charge_effect [OF b, of len]
    have "e1 = eigrp_packet_pacing_charge e len" "n1 = 0" using s(1) 1 by (simp_all add: pace_step_def)
    then show ?thesis using Cons.IH [OF _ _ s(2)] C(2,3,5) C(4) [OF Cons.prems(1)] Cons.prems(2) s(3) 1 by fastforce
  next
    case (2 now)
    have "e1 = e" "n1 = 0" using s(1) 2 pace_empty [of e now] by simp_all
    moreover have "last (?t # data_times vs) \<le> last (?t # data_times (v # vs))" using Cons.prems(2) 2 by simp
    then have "(last (?t # data_times vs) - ?t) * rate_of e \<le> (last (?t # data_times (v # vs)) - ?t) * rate_of e"
      by (intro mult_le_mono1 diff_le_mono)
    ultimately show ?thesis using Cons.IH [OF Cons.prems(1) _ s(2) [unfolded \<open>e1 = e\<close>]] Cons.prems(2) s(3) 2 by fastforce
  next
    case (3 now len)
    let ?l = "last (unat now # data_times vs)"
    note S = data_step [OF b 3(2) s(1) [unfolded 3(1)]]
    have o: "?t \<le> unat now" "sorted (unat now # data_times vs)" using Cons.prems(2) 3 by simp_all
    then have l: "unat now \<le> ?l" by simp
    have IH: "started e' \<and> 800 * m + unat (pacing_credit e') \<le> unat (pacing_credit e1) + (?l - unat now) * rate_of e"
      using Cons.IH [OF S(1) _ s(2)] S(2,3) o by simp
    have "credit_at e len now \<le> unat (pacing_credit e) + (unat now - ?t) * rate_of e"
      using Cons.prems(1) o(1) by (simp add: credit_at_def running_def started_def word_le_nat_alt)
    moreover have "(?l - unat now) * rate_of e + (unat now - ?t) * rate_of e = (?l - ?t) * rate_of e"
      using o(1) l by (simp flip: add_mult_distrib)
    moreover have "last (?t # data_times (v # vs)) = ?l" using 3 by simp
    ultimately show ?thesis using IH S(4) s(3) by (simp add: algebra_simps)
  qed
qed

text \<open>
  C38: The transmit budget of an interface is a token bucket.  Take any series of what the writer does with it, from any state of the
  budget (whatever its credit, as long as it is below 2^60): data packets that are asked for and sent, asked for and deferred, or dropped as too short, and Hellos, which are charged
  without being asked for.  While the clock does not go back and bandwidth and percentage are not changed, the data bytes sent (in units of 1/800
  byte) are at most one bucket, the larger of the rate and the charge of the largest packet, plus the milliseconds from the first
  request to the last times the rate, bandwidth times percentage; and the credit stays below 2^60.  No word operation of the computation overflows.
\<close>

theorem pacing_rate_bounded:
  assumes "budget_ok e" and "sorted (data_times vs)" and "list_all (data_within L) vs" and "pace_run e vs = (e', n)"
  shows "800 * n \<le> max (rate_of e) (800 * unat L) + request_span vs * rate_of e \<and> budget_ok e'"
  using assms
proof (induction vs arbitrary: e n)
  case Nil
  then show ?case by simp
next
  case (Cons v vs)
  have b: "budget_ok e" by (rule Cons.prems(1))
  obtain e1 n1 m where s: "pace_step e v = (e1, n1)" "pace_run e1 vs = (e', m)" "n = n1 + m" using Cons.prems(4) by (auto split: prod.splits)
  consider len where "v = Pace_Hello len" | now where "v = Pace_Data now 0" | now len where "v = Pace_Data now len" "len \<noteq> 0"
    by (cases v) blast+
  then show ?case
  proof cases
    case (1 len)
    note C = charge_effect [OF b, of len]
    have "e1 = eigrp_packet_pacing_charge e len" "n1 = 0" using s(1) 1 by (simp_all add: pace_step_def)
    moreover have "request_span (v # vs) = request_span vs" using 1 by (simp add: request_span_def)
    ultimately show ?thesis using Cons.IH [OF _ _ _ s(2)] C(1,2) Cons.prems(2,3) s(3) 1 by simp
  next
    case (2 now)
    have e1: "e1 = e" "n1 = 0" using s(1) 2 pace_empty [of e now] by simp_all
    have "unat now \<le> hd (data_times vs)" if "data_times vs \<noteq> []" using Cons.prems(2) 2 that by (cases "data_times vs") simp_all
    then have "request_span vs * rate_of e \<le> request_span (v # vs) * rate_of e"
      using 2 by (intro mult_le_mono1) (auto simp: request_span_def)
    moreover have "800 * m \<le> max (rate_of e) (800 * unat L) + request_span vs * rate_of e \<and> budget_ok e'"
      by (rule Cons.IH [OF b _ _ s(2) [unfolded e1(1)]]) (use Cons.prems(2,3) 2 in simp_all)
    ultimately show ?thesis unfolding s(3) e1(2) add_0 using order_trans [OF _ add_left_mono] by blast
  next
    case (3 now len)
    note S = data_step [OF b 3(2) s(1) [unfolded 3(1)]]
    have "started e' \<and> 800 * m + unat (pacing_credit e') \<le> unat (pacing_credit e1) + (last (unat now # data_times vs) - unat now) * rate_of e"
      using started_run [OF S(1) _ s(2)] S(2,3) Cons.prems(2) 3 by simp
    moreover have "credit_at e len now \<le> max (rate_of e) (800 * unat L)"
      using Cons.prems(3) 3(1) by (auto simp: credit_at_def capacity_of_def charge_of_def word_le_nat_alt)
    moreover have "request_span (v # vs) = last (unat now # data_times vs) - unat now" using 3 by (simp add: request_span_def)
    ultimately show ?thesis using S(4) s(3) unfolding started_def by (simp add: algebra_simps)
  qed
qed

definition sample_pacing :: eigrp_pacing where
  "sample_pacing = \<lparr>params_bandwidth = 1000, curr_bandwidth = 0, bandwidth_percent = 50, pacing_initialized = True,
     pacing_last_msec = 10, pacing_rate = 50000, pacing_credit = 1000000\<rparr>"

text \<open>The second packet is deferred at first and sent when it is asked for again; a Hello is sent in between.\<close>

theorem pacing_rate_bounded_witness:
  "snd (pace_run sample_pacing [Pace_Data 20 1200, Pace_Data 21 1500, Pace_Hello 40, Pace_Data 60 1500]) = 2700
     \<and> 800 * 2700 \<le> max 50000 (800 * 1500) + (60 - 20) * (50000 :: nat)"
proof -
  let ?vs = "[Pace_Data 20 1200, Pace_Data 21 1500, Pace_Hello 40, Pace_Data 60 1500]"
  have e': "snd (pace_run sample_pacing ?vs) = 2700"
    by (simp add: pace_step_def sample_pacing_def eigrp_packet_pacing_delay_msec_def eigrp_packet_pacing_charge_def eigrp_packet_pacing_rate_def Let_def
        word_le_nat_alt word_less_nat_alt)
  have "budget_ok sample_pacing"
    by (simp add: budget_ok_def pacing_ok_def sample_pacing_def word_le_nat_alt)
  then show ?thesis using pacing_rate_bounded [of sample_pacing ?vs 1500 "fst (pace_run sample_pacing ?vs)" 2700] e'
    by (simp add: sample_pacing_def rate_of_def request_span_def prod_eq_iff word_le_nat_alt)
qed

text \<open>
  The delay the budget announces is exact: after waiting for it the packet may be sent, and at no millisecond before.
\<close>

theorem pacing_delay_exact:
  assumes "pacing_ok e" and "len \<noteq> 0" and "unat (pacing_credit e) < 2 ^ 60" and "eigrp_packet_pacing_delay_msec e len now = (d, e')"
    and "unat now + unat d < 2 ^ 64" and "now \<le> t" and "unat t \<le> unat now + unat d"
  shows "fst (eigrp_packet_pacing_delay_msec e' len t) = 0 \<longleftrightarrow> t = now + ucast d"
proof -
  note D = pacing_delay [OF assms(1-4)]
  have r: "0 < rate_of e" by (rule rate_word(2) [OF assms(1)])
  have e': "pacing_ok e'" "rate_of e' = rate_of e" "pacing_initialized e'" "pacing_rate e' = eigrp_packet_pacing_rate e'" "pacing_last_msec e' = now"
    using assms(1) by (subst D(2), simp add: pacing_ok_def)+
  obtain d2 e2 where d2: "eigrp_packet_pacing_delay_msec e' len t = (d2, e2)" by fastforce
  have k: "unat (pacing_credit e') < 2 ^ 60" using D(1) credit_at_bound [OF assms(1)] by simp
  note D2 = pacing_delay [OF e'(1) assms(2) k d2]
  have "d2 = 0 \<longleftrightarrow> unat d2 \<le> 0" by (simp add: unat_eq_zero)
  also have "\<dots> \<longleftrightarrow> charge_of len \<le> credit_at e' len t"
    using D2(3) ceiling_le [OF r, of "charge_of len - credit_at e' len t" 0] e'(2) by simp
  also have "\<dots> \<longleftrightarrow> charge_of len \<le> unat (pacing_credit e') + (unat t - unat now) * rate_of e"
    using e' assms(6) by (auto simp: credit_at_def running_def capacity_of_def)
  also have "\<dots> \<longleftrightarrow> charge_of len - unat (pacing_credit e') \<le> (unat t - unat now) * rate_of e" by auto
  also have "\<dots> \<longleftrightarrow> unat d \<le> unat t - unat now"
    using ceiling_le [OF r, of "charge_of len - unat (pacing_credit e')" "unat t - unat now"] D(1,3) by simp
  also have "\<dots> \<longleftrightarrow> t = now + ucast d"
  proof -
    have "unat (ucast d :: u64) = unat d" using unsigned_less [of d, where ?'a = nat] by (simp add: unsigned_ucast_eq take_bit_eq_mod)
    then have "unat (now + ucast d) = unat now + unat d" using assms(5) by (simp add: unat_word_ariths)
    then show ?thesis using assms(6,7) by (auto simp: word_le_nat_alt word_unat_eq_iff)
  qed
  finally show ?thesis using d2 by simp
qed


theorem pacing_delay_exact_witness:
  "eigrp_packet_pacing_delay_msec (sample_pacing\<lparr>pacing_credit := 0\<rparr>) 1500 11
      = (23, sample_pacing\<lparr>pacing_credit := 50000, pacing_last_msec := 11\<rparr>)
   \<and> fst (eigrp_packet_pacing_delay_msec (sample_pacing\<lparr>pacing_credit := 50000, pacing_last_msec := 11\<rparr>) 1500 34) = 0
   \<and> fst (eigrp_packet_pacing_delay_msec (sample_pacing\<lparr>pacing_credit := 50000, pacing_last_msec := 11\<rparr>) 1500 33) \<noteq> 0"
proof -
  have d: "eigrp_packet_pacing_delay_msec (sample_pacing\<lparr>pacing_credit := 0\<rparr>) 1500 11
      = (23, sample_pacing\<lparr>pacing_credit := 50000, pacing_last_msec := 11\<rparr>)"
    by (simp add: sample_pacing_def eigrp_packet_pacing_delay_msec_def eigrp_packet_pacing_rate_def Let_def word_le_nat_alt)
  have "pacing_ok (sample_pacing\<lparr>pacing_credit := 0\<rparr>)" by (simp add: pacing_ok_def sample_pacing_def word_le_nat_alt)
  then show ?thesis using d pacing_delay_exact [OF _ _ _ d, of 34] pacing_delay_exact [OF _ _ _ d, of 33] by (simp add: word_le_nat_alt)
qed

end
