(* ===== verification/Eigrp_Transport.thy ===== *)
theory Eigrp_Transport
  imports Eigrp_Topology Eigrp_Sequence Eigrp_Pacing
begin

text \<open>
  Reliable transport on one interface (\<^verbatim>\<open>eigrp_packet.c\<close>, with the round-trip estimator and the adjacency state of
  \<^verbatim>\<open>eigrp_neighbor.c\<close>).

  A packet queue is the list of its packets, the next one to be sent first (the C queue's \<^verbatim>\<open>tail\<close>).  A neighbour's
  \<open>retrans_queue\<close> holds the unacknowledged packets, \<open>obuf\<close> copies waiting for the wire, \<open>multicast_pending\<close> multicasts that
  TRANSMIT has not admitted.  A retransmission timer is the interval it was armed with.  Calls to other components
  (the initial synchronisation, the writer, DUAL's loss of a neighbour) are recorded in \<open>rtp_calls\<close>; whether an allocation
  succeeds, what the host says to a send, and the clock are inputs.
\<close>

record rtp_packet =
  pk_opcode :: u8
  pk_flags :: u32
  pk_length :: u16
  pk_multicast :: bool
  pk_nbr :: "nbr_id option"
  sequence_number :: u32
  retrans_counter :: u8
  retransmission :: bool
  retry_queued :: bool
  multicast_exception :: bool
  pk_epoch :: u64
  sent_msec :: u64
  t_retrans_timer :: "u32 option"

record rtp_nbr =
  adj_state :: eigrp_nbr_state
  adj_limited :: bool
  multicast_epoch :: u64
  srtt_valid :: bool
  srtt_msec :: u32
  rttvar_msec :: u32
  rto_msec :: u32
  retrans_queue :: "rtp_packet list"
  own_init_sequence :: u32
  last_recv_sequence :: u32
  nbr_retransmissions :: u64
  up_since_msec :: u64
  cr_mode :: bool
  cr_sequence :: u32
  v_holddown :: u16
  t_holddown :: bool
  crypt_seqnum :: u32
  peer_tlv_version :: u8
  nbr_K :: "u8 list"

datatype encoder = Encoder_safe | Encoder_tlv1 | Encoder_tlv2 | Encoder_both

datatype rtp_call = Write_schedule | Update_send_EOT nbr_id | Sync_continue nbr_id | Sync_cancel nbr_id | Topology_down nbr_id

record rtp_intf =
  nbr_list :: "nbr_id list"
  nbr :: "nbr_id \<Rightarrow> rtp_nbr"
  obuf :: "rtp_packet list"
  multicast_pending :: "rtp_packet list"
  intf_epoch :: u64
  multicast_backoff :: bool
  multicast_waiting :: bool
  multicast_backoff_count :: u64
  t_multicast_retry :: bool
  on_write_q :: bool
  tlv1_peer_count :: u16
  tlv2_peer_count :: u16
  intf_encoder :: encoder
  curr_mtu :: u32
  auth_tlv_size :: nat
  intf_address_bytes :: nat
  pacing :: eigrp_pacing
  rtp_calls :: "rtp_call list"

definition EIGRP_HEADER_LEN :: u16 where "EIGRP_HEADER_LEN = 20"
definition EIGRP_OPC_HELLO :: u8 where "EIGRP_OPC_HELLO = 5"
definition EIGRP_CR_FLAG :: u32 where "EIGRP_CR_FLAG = 2"
definition EIGRP_TRANSPORT_RETRANS_MAX :: u8 where "EIGRP_TRANSPORT_RETRANS_MAX = 16"
definition EIGRP_MULTICAST_RELIABLE_MAX :: nat where "EIGRP_MULTICAST_RELIABLE_MAX = 4"
definition EIGRP_PACKET_ALLOCATION_RETRY_MSEC :: u32 where "EIGRP_PACKET_ALLOCATION_RETRY_MSEC = 250"

subsection \<open>Round trip\<close>

definition eigrp_nbr_rto_calculate :: "u32 \<Rightarrow> u32" where
  "eigrp_nbr_rto_calculate srtt =
     (let rto = (ucast srtt :: u64) * 6 in if rto < 200 then 200 else if 5000 < rto then 5000 else ucast rto)"

definition eigrp_nbr_rtt_clear :: "rtp_nbr \<Rightarrow> rtp_nbr" where
  "eigrp_nbr_rtt_clear nb = nb\<lparr>srtt_valid := False, srtt_msec := 0, rttvar_msec := 0, rto_msec := 2000\<rparr>"

text \<open>C division of signed integers truncates towards zero.\<close>

definition quot :: "int \<Rightarrow> int \<Rightarrow> int" where
  "quot a b = (if a < 0 then - ((- a) div b) else a div b)"

definition eigrp_nbr_rtt_sample :: "u32 \<Rightarrow> rtp_nbr \<Rightarrow> rtp_nbr" where
  "eigrp_nbr_rtt_sample sample nb =
     (if \<not> srtt_valid nb
      then nb\<lparr>srtt_valid := True, srtt_msec := sample, rttvar_msec := sample div 2, rto_msec := eigrp_nbr_rto_calculate sample\<rparr>
      else
        let error = uint sample - uint (srtt_msec nb);
            variance_error = \<bar>error\<bar> - uint (rttvar_msec nb);
            rttvar = uint (rttvar_msec nb) + quot variance_error 4;
            srtt = uint (srtt_msec nb) + quot error 8;
            srtt = (if srtt < 0 then 0 else srtt)
        in nb\<lparr>rttvar_msec := word_of_int (if rttvar < 0 then 0 else rttvar), srtt_msec := word_of_int srtt,
              rto_msec := eigrp_nbr_rto_calculate (word_of_int srtt)\<rparr>)"

text \<open>Karn's rule: only a packet that was never retransmitted gives a sample.\<close>

definition eigrp_nbr_srtt_update :: "u64 \<Rightarrow> rtp_packet \<Rightarrow> rtp_nbr \<Rightarrow> rtp_nbr" where
  "eigrp_nbr_srtt_update now p nb =
     (if retrans_counter p \<noteq> 0 \<or> sent_msec p = 0 \<or> now < sent_msec p then nb
      else let sample = now - sent_msec p in eigrp_nbr_rtt_sample (ucast (if 0xffffffff < sample then 0xffffffff else sample)) nb)"

definition eigrp_nbr_rto :: "rtp_nbr \<Rightarrow> u32" where
  "eigrp_nbr_rto nb = (if rto_msec nb = 0 then 2000 else rto_msec nb)"

definition eigrp_nbr_rto_backoff :: "rtp_nbr \<Rightarrow> rtp_nbr" where
  "eigrp_nbr_rto_backoff nb =
     (let rto = (ucast (eigrp_nbr_rto nb) :: u64) * 2 in nb\<lparr>rto_msec := ucast (if 5000 < rto then 5000 else rto)\<rparr>)"

subsection \<open>Queues\<close>

definition eigrp_packet_queue_next :: "rtp_packet list \<Rightarrow> rtp_packet option" where
  "eigrp_packet_queue_next q = (case q of [] \<Rightarrow> None | p # _ \<Rightarrow> Some p)"

definition eigrp_packet_enqueue :: "rtp_packet list \<Rightarrow> rtp_packet \<Rightarrow> rtp_packet list" where
  "eigrp_packet_enqueue q p = q @ [p]"

definition eigrp_packet_dequeue :: "rtp_packet list \<Rightarrow> rtp_packet option \<times> rtp_packet list" where
  "eigrp_packet_dequeue q = (eigrp_packet_queue_next q, tl q)"

text \<open>A fresh copy of the wire image.\<close>

definition eigrp_packet_dup :: "bool \<Rightarrow> rtp_packet \<Rightarrow> nbr_id \<Rightarrow> rtp_packet option" where
  "eigrp_packet_dup alloc old n =
     (if \<not> alloc then None
      else Some (old\<lparr>pk_nbr := Some n, retransmission := False, retry_queued := False, multicast_exception := False,
                      pk_epoch := 0, sent_msec := 0, t_retrans_timer := None\<rparr>))"

fun eigrp_packet_reliable_ordered_enqueue :: "rtp_packet list \<Rightarrow> rtp_packet \<Rightarrow> rtp_packet list" where
  "eigrp_packet_reliable_ordered_enqueue [] p = [p]"
| "eigrp_packet_reliable_ordered_enqueue (at # q) p =
     (if \<not> eigrp_packet_sequence_before (sequence_number at) (sequence_number p) then p # at # q
      else at # eigrp_packet_reliable_ordered_enqueue q p)"

fun prior_count :: "rtp_packet list \<Rightarrow> u32 \<Rightarrow> nat" where
  "prior_count [] s = 0"
| "prior_count (p # q) s = (if \<not> eigrp_packet_sequence_before (sequence_number p) s then 0 else Suc (prior_count q s))"

definition eigrp_packet_reliable_prior_count :: "rtp_nbr \<Rightarrow> u32 \<Rightarrow> nat" where
  "eigrp_packet_reliable_prior_count nb s = prior_count (retrans_queue nb) s"

definition eigrp_packet_multicast_peer_eligible :: "rtp_nbr \<Rightarrow> u64 \<Rightarrow> bool" where
  "eigrp_packet_multicast_peer_eligible nb epoch \<longleftrightarrow>
     adj_state nb = EIGRP_NEIGHBOR_UP \<and> multicast_epoch nb \<noteq> 0 \<and> multicast_epoch nb \<le> epoch"

fun behind_loop :: "rtp_nbr \<Rightarrow> u32 \<Rightarrow> rtp_packet list \<Rightarrow> bool" where
  "behind_loop nb s [] = False"
| "behind_loop nb s (m # ms) =
     (if \<not> eigrp_packet_sequence_before (sequence_number m) s then False
      else if eigrp_packet_multicast_peer_eligible nb (pk_epoch m) then True
      else behind_loop nb s ms)"

definition eigrp_packet_unicast_behind_multicast :: "rtp_nbr \<Rightarrow> u32 \<Rightarrow> rtp_intf \<Rightarrow> bool" where
  "eigrp_packet_unicast_behind_multicast nb s I = behind_loop nb s (multicast_pending I)"

definition nbr_change :: "nbr_id \<Rightarrow> (rtp_nbr \<Rightarrow> rtp_nbr) \<Rightarrow> rtp_intf \<Rightarrow> rtp_intf" where
  "nbr_change n f I = I\<lparr>nbr := (nbr I)(n := f (nbr I n))\<rparr>"

definition rtp_call :: "rtp_call \<Rightarrow> rtp_intf \<Rightarrow> rtp_intf" where
  "rtp_call c I = I\<lparr>rtp_calls := rtp_calls I @ [c]\<rparr>"

text \<open>HELLOs go to the front, everything else to the back.\<close>

definition eigrp_packet_output_enqueue :: "rtp_packet \<Rightarrow> rtp_intf \<Rightarrow> rtp_intf" where
  "eigrp_packet_output_enqueue p I =
     rtp_call Write_schedule
       (I\<lparr>obuf := (if EIGRP_HEADER_LEN \<le> pk_length p \<and> pk_opcode p = EIGRP_OPC_HELLO then p # obuf I else eigrp_packet_enqueue (obuf I) p),
          on_write_q := True\<rparr>)"

definition eigrp_packet_neighbor_output_drop :: "nbr_id \<Rightarrow> u32 \<Rightarrow> bool \<Rightarrow> rtp_intf \<Rightarrow> rtp_intf" where
  "eigrp_packet_neighbor_output_drop n s retries_only I =
     (let q = filter (\<lambda>p. pk_nbr p \<noteq> Some n \<or> retries_only \<and> (\<not> retransmission p \<or> sequence_number p \<noteq> s)) (obuf I)
      in I\<lparr>obuf := q, on_write_q := (on_write_q I \<and> q \<noteq> [])\<rparr>)"

definition eigrp_packet_neighbor_output_clear :: "nbr_id \<Rightarrow> rtp_intf \<Rightarrow> rtp_intf" where
  "eigrp_packet_neighbor_output_clear n = eigrp_packet_neighbor_output_drop n 0 False"

definition eigrp_packet_neighbor_retry_cancel :: "nbr_id \<Rightarrow> u32 \<Rightarrow> rtp_intf \<Rightarrow> rtp_intf" where
  "eigrp_packet_neighbor_retry_cancel n s = eigrp_packet_neighbor_output_drop n s True"

definition eigrp_packet_interface_output_clear :: "rtp_intf \<Rightarrow> rtp_intf" where
  "eigrp_packet_interface_output_clear I = I\<lparr>obuf := [], on_write_q := False\<rparr>"

subsection \<open>Wake a deferred multicast\<close>

definition multicast_receivers :: "rtp_packet \<Rightarrow> rtp_intf \<Rightarrow> nbr_id list" where
  "multicast_receivers m I = filter (\<lambda>n. eigrp_packet_multicast_peer_eligible (nbr I n) (pk_epoch m)) (nbr_list I)"

definition receiver_prior :: "rtp_packet \<Rightarrow> rtp_intf \<Rightarrow> nbr_id \<Rightarrow> nat" where
  "receiver_prior m I n = eigrp_packet_reliable_prior_count (nbr I n) (sequence_number m)"

definition write_queue_add :: "rtp_intf \<Rightarrow> rtp_intf" where
  "write_queue_add I = rtp_call Write_schedule (I\<lparr>on_write_q := True\<rparr>)"

definition eigrp_packet_multicast_resume :: "rtp_intf \<Rightarrow> rtp_intf" where
  "eigrp_packet_multicast_resume I =
     (if t_multicast_retry I then I
      else case eigrp_packet_queue_next (multicast_pending I) of
        None \<Rightarrow> I
      | Some m \<Rightarrow>
          let ns = multicast_receivers m I;
              any_outstanding = (\<exists>n \<in> set ns. receiver_prior m I n \<noteq> 0);
              any_ready = (\<exists>n \<in> set ns. receiver_prior m I n = 0)
          in if multicast_backoff I \<and> any_outstanding then I
             else
               let I = I\<lparr>multicast_backoff := False\<rparr>
               in if multicast_waiting I \<and> ns \<noteq> [] \<and> \<not> any_ready then I
                  else write_queue_add (I\<lparr>multicast_waiting := False\<rparr>))"

definition eigrp_packet_multicast_reliable_enqueue :: "rtp_packet \<Rightarrow> rtp_intf \<Rightarrow> rtp_intf" where
  "eigrp_packet_multicast_reliable_enqueue p I =
     (if sequence_number p = 0 then I
      else eigrp_packet_multicast_resume
             (I\<lparr>multicast_pending := eigrp_packet_enqueue (multicast_pending I) (p\<lparr>pk_epoch := intf_epoch I\<rparr>)\<rparr>))"

subsection \<open>The head of a neighbour's queue\<close>

definition head_update :: "nbr_id \<Rightarrow> (rtp_packet \<Rightarrow> rtp_packet) \<Rightarrow> rtp_intf \<Rightarrow> rtp_intf" where
  "head_update n f = nbr_change n (\<lambda>nb. nb\<lparr>retrans_queue := (case retrans_queue nb of [] \<Rightarrow> [] | p # q \<Rightarrow> f p # q)\<rparr>)"

definition rtp_head :: "nbr_id \<Rightarrow> rtp_intf \<Rightarrow> rtp_packet option" where
  "rtp_head n I = eigrp_packet_queue_next (retrans_queue (nbr I n))"

definition eigrp_packet_retransmit_timer_start :: "nbr_id \<Rightarrow> rtp_intf \<Rightarrow> rtp_intf" where
  "eigrp_packet_retransmit_timer_start n I = head_update n (\<lambda>p. p\<lparr>t_retrans_timer := Some (eigrp_nbr_rto (nbr I n))\<rparr>) I"

definition eigrp_packet_allocation_retry :: "nbr_id \<Rightarrow> rtp_intf \<Rightarrow> rtp_intf" where
  "eigrp_packet_allocation_retry n = head_update n (\<lambda>p. p\<lparr>t_retrans_timer := Some EIGRP_PACKET_ALLOCATION_RETRY_MSEC\<rparr>)"

text \<open>A copy addressed to one neighbour; a multicast delivered this way is counted as an exception.\<close>

definition unicast_copy :: "rtp_packet \<Rightarrow> rtp_packet \<Rightarrow> rtp_packet" where
  "unicast_copy p duplicate = duplicate\<lparr>multicast_exception := pk_multicast p, pk_multicast := False\<rparr>"

definition eigrp_packet_send_reliably :: "bool \<Rightarrow> nbr_id \<Rightarrow> rtp_intf \<Rightarrow> rtp_intf" where
  "eigrp_packet_send_reliably alloc n I =
     (case rtp_head n I of
        None \<Rightarrow> I
      | Some p \<Rightarrow>
          if eigrp_packet_unicast_behind_multicast (nbr I n) (sequence_number p) I then I
          else case eigrp_packet_dup alloc p n of
                 None \<Rightarrow> eigrp_packet_allocation_retry n I
               | Some duplicate \<Rightarrow> eigrp_packet_output_enqueue (unicast_copy p duplicate) I)"

text \<open>Queueing a packet for one neighbour: the initial UPDATEs and the packetizer's unicasts do the same.\<close>

definition eigrp_update_neighbor_packet_queue :: "bool \<Rightarrow> nbr_id \<Rightarrow> rtp_packet \<Rightarrow> rtp_intf \<Rightarrow> rtp_intf" where
  "eigrp_update_neighbor_packet_queue alloc n p I =
     (let queue_was_empty = (retrans_queue (nbr I n) = []);
          I = nbr_change n (\<lambda>nb. nb\<lparr>retrans_queue := eigrp_packet_enqueue (retrans_queue nb) p\<rparr>) I
      in if queue_was_empty then eigrp_packet_send_reliably alloc n I else I)"

definition rtp_send_init :: "bool \<Rightarrow> nbr_id \<Rightarrow> rtp_packet \<Rightarrow> rtp_intf \<Rightarrow> rtp_intf" where
  "rtp_send_init alloc n p I =
     eigrp_update_neighbor_packet_queue alloc n p (nbr_change n (\<lambda>nb. nb\<lparr>own_init_sequence := sequence_number p\<rparr>) I)"

subsection \<open>The adjacency\<close>

definition eigrp_intf_encoder_select :: "rtp_intf \<Rightarrow> rtp_intf" where
  "eigrp_intf_encoder_select I =
     I\<lparr>intf_encoder := (if tlv1_peer_count I \<noteq> 0 \<and> tlv2_peer_count I \<noteq> 0 then Encoder_both
                        else if tlv1_peer_count I \<noteq> 0 then Encoder_tlv1
                        else if tlv2_peer_count I \<noteq> 0 then Encoder_tlv2 else Encoder_safe)\<rparr>"

definition eigrp_intf_encoder_peer_add :: "u8 \<Rightarrow> rtp_intf \<Rightarrow> rtp_intf" where
  "eigrp_intf_encoder_peer_add version I =
     (if version = 1 then eigrp_intf_encoder_select (I\<lparr>tlv1_peer_count := tlv1_peer_count I + 1\<rparr>)
      else if version = 2 then eigrp_intf_encoder_select (I\<lparr>tlv2_peer_count := tlv2_peer_count I + 1\<rparr>)
      else I)"

definition eigrp_intf_encoder_peer_remove :: "u8 \<Rightarrow> rtp_intf \<Rightarrow> rtp_intf" where
  "eigrp_intf_encoder_peer_remove version I =
     (if version = 1
      then eigrp_intf_encoder_select (I\<lparr>tlv1_peer_count := (if tlv1_peer_count I \<noteq> 0 then tlv1_peer_count I - 1 else 0)\<rparr>)
      else if version = 2
      then eigrp_intf_encoder_select (I\<lparr>tlv2_peer_count := (if tlv2_peer_count I \<noteq> 0 then tlv2_peer_count I - 1 else 0)\<rparr>)
      else I)"

definition eigrp_intf_encoder_clear :: "rtp_intf \<Rightarrow> rtp_intf" where
  "eigrp_intf_encoder_clear I = I\<lparr>tlv1_peer_count := 0, tlv2_peer_count := 0, intf_encoder := Encoder_safe\<rparr>"

definition next_epoch :: "u64 \<Rightarrow> u64" where
  "next_epoch e = (if e + 1 = 0 then 1 else e + 1)"

definition nbr_reset :: "rtp_nbr \<Rightarrow> rtp_nbr" where
  "nbr_reset nb = (eigrp_nbr_rtt_clear (nb\<lparr>last_recv_sequence := 0, own_init_sequence := 0, cr_mode := False, cr_sequence := 0\<rparr>))
     \<lparr>nbr_K := [1, 0, 1, 0, 0, 0], v_holddown := 15, t_holddown := False, retrans_queue := []\<rparr>"

text \<open>The transition itself, without the resets of a DOWN.\<close>

definition state_enter :: "u64 \<Rightarrow> nbr_id \<Rightarrow> eigrp_nbr_state \<Rightarrow> rtp_intf \<Rightarrow> rtp_intf" where
  "state_enter now n st I =
     (let old = adj_state (nbr I n); leaves = (old = EIGRP_NEIGHBOR_UP \<and> st \<noteq> EIGRP_NEIGHBOR_UP);
          I = (if leaves then eigrp_intf_encoder_peer_remove (peer_tlv_version (nbr I n)) (rtp_call (Sync_cancel n) I) else I);
          I = nbr_change n (\<lambda>nb. nb\<lparr>adj_state := st\<rparr>) I
      in if st = EIGRP_NEIGHBOR_UP \<and> old \<noteq> EIGRP_NEIGHBOR_UP then
           let I = I\<lparr>intf_epoch := next_epoch (intf_epoch I)\<rparr>;
               I = nbr_change n (\<lambda>nb. nb\<lparr>multicast_epoch := intf_epoch I\<rparr>) I;
               I = eigrp_intf_encoder_peer_add (peer_tlv_version (nbr I n)) I
           in nbr_change n (\<lambda>nb. nb\<lparr>up_since_msec := now, nbr_retransmissions := 0\<rparr>) I
         else if leaves then nbr_change n (\<lambda>nb. nb\<lparr>up_since_msec := 0\<rparr>) I
         else I)"

definition eigrp_nbr_state_update :: "u64 \<Rightarrow> nbr_id \<Rightarrow> eigrp_nbr_state \<Rightarrow> rtp_intf \<Rightarrow> rtp_intf" where
  "eigrp_nbr_state_update now n st I =
     (if adj_limited (nbr I n) \<and> st \<noteq> EIGRP_NEIGHBOR_DOWN then I
      else
        let I = state_enter now n st I
        in if st = EIGRP_NEIGHBOR_DOWN
           then nbr_change n (\<lambda>nb. nb\<lparr>crypt_seqnum := 0\<rparr>) (eigrp_packet_multicast_resume (nbr_change n nbr_reset I))
           else I)"

text \<open>Teardown and deletion of a neighbour (graceful restart state apart, which is the UPDATE receiver's).\<close>

definition eigrp_nbr_down :: "u64 \<Rightarrow> nbr_id \<Rightarrow> rtp_intf \<Rightarrow> rtp_intf" where
  "eigrp_nbr_down now n I =
     rtp_call (Topology_down n) (rtp_call (Sync_cancel n)
       (eigrp_nbr_state_update now n EIGRP_NEIGHBOR_DOWN (eigrp_packet_neighbor_output_clear n I)))"

definition eigrp_nbr_delete :: "u64 \<Rightarrow> nbr_id \<Rightarrow> rtp_intf \<Rightarrow> rtp_intf" where
  "eigrp_nbr_delete now n I = eigrp_nbr_down now n (I\<lparr>nbr_list := remove1 n (nbr_list I)\<rparr>)"

definition eigrp_packet_retransmit_limit_exceeded :: "u64 \<Rightarrow> nbr_id \<Rightarrow> rtp_intf \<Rightarrow> rtp_intf" where
  "eigrp_packet_retransmit_limit_exceeded now n I = eigrp_nbr_delete now n (eigrp_nbr_state_update now n EIGRP_NEIGHBOR_DOWN I)"

text \<open>An interface that goes down drops everything queued and deletes its neighbours.\<close>

definition intf_flush :: "rtp_intf \<Rightarrow> rtp_intf" where
  "intf_flush I = (eigrp_packet_interface_output_clear (I\<lparr>t_multicast_retry := False, multicast_pending := []\<rparr>))
     \<lparr>multicast_backoff := False, multicast_waiting := False\<rparr>"

definition eigrp_intf_down :: "u64 \<Rightarrow> rtp_intf \<Rightarrow> rtp_intf" where
  "eigrp_intf_down now I =
     eigrp_intf_encoder_clear
       (fold (\<lambda>n I. eigrp_nbr_delete now n (eigrp_nbr_state_update now n EIGRP_NEIGHBOR_DOWN I)) (nbr_list I) (intf_flush I))"

subsection \<open>Acknowledgements\<close>

definition eigrp_packet_ack :: "u64 \<Rightarrow> bool \<Rightarrow> nbr_id \<Rightarrow> u32 \<Rightarrow> u32 \<Rightarrow> rtp_intf \<Rightarrow> rtp_intf" where
  "eigrp_packet_ack now alloc n ack seq I =
     (case rtp_head n I of
        None \<Rightarrow> I
      | Some p \<Rightarrow>
          if ack \<noteq> sequence_number p then I
          else
            let I = nbr_change n (eigrp_nbr_srtt_update now p) I;
                I = (if retry_queued p then eigrp_packet_neighbor_retry_cancel n ack I else I);
                I = nbr_change n (\<lambda>nb. nb\<lparr>retrans_queue := snd (eigrp_packet_dequeue (retrans_queue nb))\<rparr>) I;
                I = eigrp_packet_multicast_resume I
            in if adj_state (nbr I n) = EIGRP_NEIGHBOR_PENDING \<and> ack = own_init_sequence (nbr I n)
               then rtp_call (Update_send_EOT n)
                      (nbr_change n (\<lambda>nb. nb\<lparr>own_init_sequence := 0, last_recv_sequence := seq\<rparr>)
                         (eigrp_nbr_state_update now n EIGRP_NEIGHBOR_UP I))
               else rtp_call (Sync_continue n) (eigrp_packet_send_reliably alloc n I))"

subsection \<open>The wire\<close>

definition eigrp_packet_reliable_neighbor_send_update :: "u32 \<Rightarrow> u64 \<Rightarrow> nbr_id \<Rightarrow> rtp_intf \<Rightarrow> rtp_intf" where
  "eigrp_packet_reliable_neighbor_send_update sequence now n I =
     (case rtp_head n I of
        None \<Rightarrow> I
      | Some queued \<Rightarrow>
          if sequence = 0 \<or> sequence_number queued \<noteq> sequence \<or> sent_msec queued \<noteq> 0 then I
          else eigrp_packet_retransmit_timer_start n (head_update n (\<lambda>p. p\<lparr>sent_msec := now\<rparr>) I))"

definition eigrp_packet_reliable_first_send_update :: "u64 \<Rightarrow> rtp_packet \<Rightarrow> rtp_intf \<Rightarrow> rtp_intf" where
  "eigrp_packet_reliable_first_send_update now p I =
     (if sequence_number p = 0 \<or> retransmission p then I
      else case pk_nbr p of
             Some n \<Rightarrow> eigrp_packet_reliable_neighbor_send_update (sequence_number p) now n I
           | None \<Rightarrow> fold (eigrp_packet_reliable_neighbor_send_update (sequence_number p) now) (nbr_list I) I)"

definition owns_head :: "u32 \<Rightarrow> nbr_id \<Rightarrow> rtp_intf \<Rightarrow> bool" where
  "owns_head sequence n I \<longleftrightarrow> (case rtp_head n I of None \<Rightarrow> False | Some h \<Rightarrow> sequence_number h = sequence)"

definition eigrp_packet_reliable_send_update :: "u64 \<Rightarrow> rtp_packet \<Rightarrow> rtp_intf \<Rightarrow> rtp_intf" where
  "eigrp_packet_reliable_send_update now p I =
     (if sequence_number p = 0 then I
      else if \<not> retransmission p then eigrp_packet_reliable_first_send_update now p I
      else case pk_nbr p of
             None \<Rightarrow> I
           | Some n \<Rightarrow>
               if owns_head (sequence_number p) n I
               then eigrp_packet_retransmit_timer_start n
                      (head_update n (\<lambda>h. h\<lparr>retry_queued := False, retrans_counter := retrans_counter h + 1\<rparr>) I)
               else I)"

definition failure_retry :: "u32 \<Rightarrow> nbr_id \<Rightarrow> rtp_intf \<Rightarrow> rtp_intf" where
  "failure_retry sequence n I = (if owns_head sequence n I then eigrp_packet_retransmit_timer_start n I else I)"

definition eigrp_packet_reliable_send_failure_update :: "rtp_packet \<Rightarrow> rtp_intf \<Rightarrow> rtp_intf" where
  "eigrp_packet_reliable_send_failure_update p I =
     (if sequence_number p = 0 then I
      else if retransmission p then
        (case pk_nbr p of
           None \<Rightarrow> I
         | Some n \<Rightarrow> if owns_head (sequence_number p) n I
                     then eigrp_packet_retransmit_timer_start n (head_update n (\<lambda>h. h\<lparr>retry_queued := False\<rparr>) I) else I)
      else case pk_nbr p of
             Some n \<Rightarrow> failure_retry (sequence_number p) n I
           | None \<Rightarrow> fold (failure_retry (sequence_number p)) (nbr_list I) I)"

text \<open>\<open>sent\<close> says that the packet was authenticated and the host accepted it; the budget is charged either way.\<close>

definition eigrp_packet_wire_send :: "u64 \<Rightarrow> bool \<Rightarrow> rtp_packet \<Rightarrow> rtp_intf \<Rightarrow> rtp_intf" where
  "eigrp_packet_wire_send now sent p I =
     (let I = (if sent then
                 let I = (case pk_nbr p of
                            Some n \<Rightarrow> if retransmission p
                                      then nbr_change n (\<lambda>nb. nb\<lparr>nbr_retransmissions := nbr_retransmissions nb + 1\<rparr>) I else I
                          | None \<Rightarrow> I)
                 in eigrp_packet_reliable_send_update now p I
               else eigrp_packet_reliable_send_failure_update p I)
      in I\<lparr>pacing := eigrp_packet_pacing_charge (pacing I) (pk_length p)\<rparr>)"

definition eigrp_packet_delete :: "rtp_intf \<Rightarrow> rtp_intf" where
  "eigrp_packet_delete I = I\<lparr>obuf := snd (eigrp_packet_dequeue (obuf I))\<rparr>"

subsection \<open>Admission of a multicast\<close>

definition eigrp_packet_payload_limit :: "u32 \<Rightarrow> nat" where
  "eigrp_packet_payload_limit interface_mtu = (if unat interface_mtu \<le> 20 then 0 else unat interface_mtu - 20)"

definition eigrp_hello_sequence_fits :: "u32 \<Rightarrow> u64 \<Rightarrow> rtp_intf \<Rightarrow> bool" where
  "eigrp_hello_sequence_fits sequence epoch I \<longleftrightarrow>
     (let length = 20 + 12 + 8 + 4 + 8 + auth_tlv_size I;
          address_length = intf_address_bytes I + 1;
          busy = filter (\<lambda>n. eigrp_packet_multicast_peer_eligible (nbr I n) epoch \<and> eigrp_packet_reliable_prior_count (nbr I n) sequence \<noteq> 0)
                   (nbr_list I)
      in length + address_length * List.length busy \<le> eigrp_packet_payload_limit (curr_mtu I))"

text \<open>The SEQUENCE Hello is queued in order, behind what is already on its way; \<open>hello\<close> is the length it is encoded to, none when it cannot be.\<close>

definition hello_packet :: "u16 \<Rightarrow> rtp_packet" where
  "hello_packet len = \<lparr>pk_opcode = EIGRP_OPC_HELLO, pk_flags = 0, pk_length = len, pk_multicast = True, pk_nbr = None, sequence_number = 0,
     retrans_counter = 0, retransmission = False, retry_queued = False, multicast_exception = False, pk_epoch = 0, sent_msec = 0,
     t_retrans_timer = None\<rparr>"

definition eigrp_hello_send_sequence :: "u16 option \<Rightarrow> u32 \<Rightarrow> rtp_intf \<Rightarrow> rtp_intf option" where
  "eigrp_hello_send_sequence hello sequence I =
     (if sequence = 0 then None
      else case hello of
             None \<Rightarrow> None
           | Some len \<Rightarrow> Some (write_queue_add (I\<lparr>obuf := eigrp_packet_enqueue (obuf I) (hello_packet len)\<rparr>)))"

record admit_env =
  alloc_arrays :: bool
  alloc_copy :: "nbr_id \<Rightarrow> bool"
  hello_length :: "u16 option"

definition admit_copy :: "bool \<Rightarrow> rtp_packet \<Rightarrow> nbr_id \<Rightarrow> rtp_packet" where
  "admit_copy busy m n =
     (let flags = (if busy then pk_flags m OR EIGRP_CR_FLAG else pk_flags m)
      in m\<lparr>pk_flags := flags, pk_multicast := True, pk_nbr := Some n, retransmission := False, retry_queued := False,
           multicast_exception := False, pk_epoch := 0, sent_msec := 0, t_retrans_timer := None\<rparr>)"

definition admit_to :: "bool \<Rightarrow> rtp_packet \<Rightarrow> nbr_id \<Rightarrow> rtp_intf \<Rightarrow> rtp_intf" where
  "admit_to busy m n = nbr_change n (\<lambda>nb. nb\<lparr>retrans_queue := eigrp_packet_reliable_ordered_enqueue (retrans_queue nb) (admit_copy busy m n)\<rparr>)"

definition admit_commit :: "bool \<Rightarrow> rtp_packet \<Rightarrow> nbr_id list \<Rightarrow> rtp_intf \<Rightarrow> rtp_intf" where
  "admit_commit busy m ns I =
     (let I = fold (admit_to busy m) ns I;
          I = I\<lparr>multicast_pending := snd (eigrp_packet_dequeue (multicast_pending I))\<rparr>
      in eigrp_packet_output_enqueue
           (m\<lparr>pk_flags := (if busy then pk_flags m OR EIGRP_CR_FLAG else pk_flags m), pk_multicast := True\<rparr>) I)"

definition eigrp_packet_multicast_admit :: "admit_env \<Rightarrow> rtp_intf \<Rightarrow> bool \<times> rtp_intf" where
  "eigrp_packet_multicast_admit E I =
     (if multicast_backoff I \<or> multicast_waiting I \<or> t_multicast_retry I then (False, I)
      else case eigrp_packet_queue_next (multicast_pending I) of
        None \<Rightarrow> (False, I)
      | Some m \<Rightarrow>
          let ns = multicast_receivers m I;
              busy = (\<exists>n \<in> set ns. receiver_prior m I n \<noteq> 0);
              ready = (\<exists>n \<in> set ns. receiver_prior m I n = 0);
              back_off = I\<lparr>multicast_backoff := True, multicast_backoff_count := multicast_backoff_count I + 1\<rparr>;
              retry = I\<lparr>t_multicast_retry := True\<rparr>
          in if \<exists>n \<in> set ns. EIGRP_MULTICAST_RELIABLE_MAX \<le> receiver_prior m I n then (False, back_off)
             else if ns = [] then
               (False, eigrp_packet_multicast_resume (I\<lparr>multicast_pending := snd (eigrp_packet_dequeue (multicast_pending I))\<rparr>))
             else if \<not> ready then (False, I\<lparr>multicast_waiting := True\<rparr>)
             else if busy \<and> \<not> eigrp_hello_sequence_fits (sequence_number m) (pk_epoch m) I then (False, back_off)
             else if \<not> alloc_arrays E \<or> (\<exists>n \<in> set ns. \<not> alloc_copy E n) then (False, retry)
             else if busy then
               (case eigrp_hello_send_sequence (hello_length E) (sequence_number m) I of
                  None \<Rightarrow> (False, retry)
                | Some I \<Rightarrow> (True, admit_commit True m ns I))
             else (True, admit_commit False m ns I))"

text \<open>The retry timer fires: its owner is cleared before the callback runs.\<close>

definition eigrp_packet_multicast_retry :: "rtp_intf \<Rightarrow> rtp_intf" where
  "eigrp_packet_multicast_retry I = eigrp_packet_multicast_resume (I\<lparr>t_multicast_retry := False\<rparr>)"

subsection \<open>Retransmission\<close>

definition eigrp_packet_unack_retrans :: "u64 \<Rightarrow> bool \<Rightarrow> nbr_id \<Rightarrow> rtp_intf \<Rightarrow> rtp_intf" where
  "eigrp_packet_unack_retrans now alloc n I =
     (case rtp_head n I of
        None \<Rightarrow> I
      | Some p \<Rightarrow>
          if retry_queued p then I
          else if EIGRP_TRANSPORT_RETRANS_MAX \<le> retrans_counter p then eigrp_packet_retransmit_limit_exceeded now n I
          else case eigrp_packet_dup alloc p n of
                 None \<Rightarrow> eigrp_packet_allocation_retry n I
               | Some duplicate \<Rightarrow>
                   let I = (if sent_msec p \<noteq> 0 then nbr_change n eigrp_nbr_rto_backoff I else I);
                       duplicate = duplicate\<lparr>retransmission := (sent_msec p \<noteq> 0)\<rparr>
                   in eigrp_packet_output_enqueue (unicast_copy p duplicate) (head_update n (\<lambda>h. h\<lparr>retry_queued := True\<rparr>) I))"

text \<open>The retransmission timer of the head fires.\<close>

definition retrans_timer_expired :: "u64 \<Rightarrow> bool \<Rightarrow> nbr_id \<Rightarrow> rtp_intf \<Rightarrow> rtp_intf" where
  "retrans_timer_expired now alloc n I =
     eigrp_packet_unack_retrans now alloc n (head_update n (\<lambda>h. h\<lparr>t_retrans_timer := None\<rparr>) I)"

subsection \<open>One interface's turn in the writer\<close>

text \<open>An interface with nothing on its way first admits a multicast that is not held back.\<close>

definition admit_enabled :: "rtp_intf \<Rightarrow> bool" where
  "admit_enabled I \<longleftrightarrow> multicast_pending I \<noteq> [] \<and> \<not> multicast_backoff I \<and> \<not> multicast_waiting I \<and> \<not> t_multicast_retry I"

definition write_candidate :: "admit_env \<Rightarrow> rtp_intf \<Rightarrow> rtp_intf" where
  "write_candidate E I = (if obuf I = [] \<and> admit_enabled I then snd (eigrp_packet_multicast_admit E I) else I)"

definition write_packet :: "u64 \<Rightarrow> bool \<Rightarrow> rtp_intf \<Rightarrow> rtp_intf" where
  "write_packet now sent I =
     (case eigrp_packet_queue_next (obuf I) of
        None \<Rightarrow> I
      | Some p \<Rightarrow>
          let I = eigrp_packet_delete (if pk_length p < EIGRP_HEADER_LEN then I else eigrp_packet_wire_send now sent p I)
          in if obuf I = [] \<and> multicast_pending I = [] then I\<lparr>on_write_q := False\<rparr> else I)"

subsection \<open>The writer\<close>

record rtp_instance =
  oi_write_q :: "nat list"
  intf :: "nat \<Rightarrow> rtp_intf"
  t_pacing :: "u32 option"
  t_write :: bool

text \<open>A Hello does not wait for the budget.\<close>

definition write_wait :: "u64 \<Rightarrow> rtp_packet \<Rightarrow> eigrp_pacing \<Rightarrow> u32 \<times> eigrp_pacing" where
  "write_wait now p e =
     (if EIGRP_HEADER_LEN \<le> pk_length p \<and> pk_opcode p = EIGRP_OPC_HELLO then (0, e) else eigrp_packet_pacing_delay_msec e (pk_length p) now)"

fun write_scan :: "(nat \<Rightarrow> admit_env) \<Rightarrow> u64 \<Rightarrow> nat list \<Rightarrow> u32 \<Rightarrow> rtp_instance \<Rightarrow> nat option \<times> u32 \<times> rtp_instance" where
  "write_scan E now [] earliest W = (None, earliest, W)"
| "write_scan E now (i # q) earliest W =
     (let I = write_candidate (E i) (intf W i)
      in case eigrp_packet_queue_next (obuf I) of
           None \<Rightarrow> write_scan E now q earliest (W\<lparr>intf := (intf W)(i := I)\<rparr>)
         | Some p \<Rightarrow>
             let (wait, e) = write_wait now p (pacing I);
                 W = W\<lparr>intf := (intf W)(i := I\<lparr>pacing := e\<rparr>)\<rparr>
             in if wait = 0 then (Some i, earliest, W)
                else write_scan E now q (if wait < earliest then wait else earliest) W)"

definition eigrp_packet_write :: "(nat \<Rightarrow> admit_env) \<Rightarrow> u64 \<Rightarrow> bool \<Rightarrow> rtp_instance \<Rightarrow> rtp_instance" where
  "eigrp_packet_write E now sent W =
     (case write_scan E now (oi_write_q W) 0xffffffff W of
        (None, earliest, W) \<Rightarrow> if earliest \<noteq> 0xffffffff then W\<lparr>t_pacing := Some earliest\<rparr> else W
      | (Some i, _, W) \<Rightarrow>
          let W = W\<lparr>t_pacing := None, intf := (intf W)(i := write_packet now sent (intf W i))\<rparr>;
              q = remove1 i (oi_write_q W);
              q = (if on_write_q (intf W i) then q @ [i] else q);
              again = (\<exists>j \<in> set q. obuf (intf W j) \<noteq> [] \<or> admit_enabled (intf W j))
          in W\<lparr>oi_write_q := q, t_write := (t_write W \<or> again)\<rparr>)"

subsection \<open>Round-trip estimator\<close>

lemma rto_calculate_bounds: "200 \<le> eigrp_nbr_rto_calculate s \<and> eigrp_nbr_rto_calculate s \<le> 5000"
proof -
  let ?r = "ucast s * 6 :: u64"
  have "unat s < 2 ^ 32" using unsigned_less [of s, where ?'a = nat] by simp
  moreover have "unat (ucast s :: u64) = unat s" using calculation by (simp add: unsigned_ucast_eq take_bit_eq_mod)
  ultimately have r: "unat ?r = 6 * unat s" by (simp add: unat_word_ariths)
  have "unat (ucast ?r :: u32) = unat ?r" if "unat ?r \<le> 5000" using that by (simp add: unsigned_ucast_eq take_bit_eq_mod)
  then show ?thesis using r by (auto simp: eigrp_nbr_rto_calculate_def Let_def word_le_nat_alt word_less_nat_alt)
qed

lemma quot_between:
  assumes "0 < b"
  shows "min 0 a \<le> quot a b \<and> quot a b \<le> max 0 a"
proof -
  have "\<bar>x\<bar> div b \<le> \<bar>x\<bar> div 1" "0 \<le> \<bar>x\<bar> div b" for x :: int
    using assms zdiv_mono2 [of "\<bar>x\<bar>" 1 b] by (simp_all add: pos_imp_zdiv_nonneg_iff)
  from this [of a] show ?thesis by (auto simp: quot_def)
qed

text \<open>A moving average with rounding towards the old value: it stays between the old value and the sample.\<close>

lemma average_between:
  fixes x y :: int
  assumes "0 < b"
  shows "min x y \<le> x + quot (y - x) b \<and> x + quot (y - x) b \<le> max x y"
  using quot_between [OF assms, of "y - x"] by auto

lemma word_of_int_between: "\<lbrakk>0 \<le> i; i < 2 ^ 32\<rbrakk> \<Longrightarrow> uint (word_of_int i :: u32) = i"
  by (simp add: take_bit_int_eq_self unsigned_of_int)

lemma sample_fields:
  assumes "srtt_valid nb"
  shows "uint (srtt_msec (eigrp_nbr_rtt_sample s nb)) = uint (srtt_msec nb) + quot (uint s - uint (srtt_msec nb)) 8"
    and "uint (rttvar_msec (eigrp_nbr_rtt_sample s nb)) = uint (rttvar_msec nb) + quot (\<bar>uint s - uint (srtt_msec nb)\<bar> - uint (rttvar_msec nb)) 4"
proof -
  have u: "0 \<le> uint w" "uint w < 2 ^ 32" for w :: u32 using unsigned_less [of w, where ?'a = int] by simp_all
  let ?e = "uint s - uint (srtt_msec nb)"
  let ?s = "uint (srtt_msec nb) + quot ?e 8" and ?v = "uint (rttvar_msec nb) + quot (\<bar>?e\<bar> - uint (rttvar_msec nb)) 4"
  have e: "\<bar>?e\<bar> < 2 ^ 32" using u [of s] u [of "srtt_msec nb"] by linarith
  have "0 \<le> ?s" "?s < 2 ^ 32" using average_between [of 8 "uint (srtt_msec nb)" "uint s"] u [of s] u [of "srtt_msec nb"] by linarith+
  moreover have "0 \<le> ?v" "?v < 2 ^ 32" using average_between [of 4 "uint (rttvar_msec nb)" "\<bar>?e\<bar>"] u [of "rttvar_msec nb"] e by linarith+
  moreover from calculation have "srtt_msec (eigrp_nbr_rtt_sample s nb) = word_of_int ?s" "rttvar_msec (eigrp_nbr_rtt_sample s nb) = word_of_int ?v"
    using assms by (simp_all add: eigrp_nbr_rtt_sample_def Let_def)
  ultimately show "uint (srtt_msec (eigrp_nbr_rtt_sample s nb)) = ?s" "uint (rttvar_msec (eigrp_nbr_rtt_sample s nb)) = ?v"
    by (simp_all only: word_of_int_between)
qed

lemma sample_rto: "200 \<le> rto_msec (eigrp_nbr_rtt_sample s nb) \<and> rto_msec (eigrp_nbr_rtt_sample s nb) \<le> 5000"
  using rto_calculate_bounds by (simp add: eigrp_nbr_rtt_sample_def Let_def)

text \<open>
  a round-trip sample keeps the estimates between their old values and the sample, computed without wrap-around, and the
  retransmission timeout between 200 and 5000 milliseconds; each backoff doubles the timeout up to 5000.
\<close>

theorem rtt_estimate_bounded:
  assumes "srtt_valid nb" and "200 \<le> eigrp_nbr_rto nb" "eigrp_nbr_rto nb \<le> 5000"
  shows "uint (srtt_msec (eigrp_nbr_rtt_sample s nb)) \<in> {min (uint (srtt_msec nb)) (uint s) .. max (uint (srtt_msec nb)) (uint s)}
    \<and> uint (rttvar_msec (eigrp_nbr_rtt_sample s nb))
        \<in> {min (uint (rttvar_msec nb)) \<bar>uint s - uint (srtt_msec nb)\<bar> .. max (uint (rttvar_msec nb)) \<bar>uint s - uint (srtt_msec nb)\<bar>}
    \<and> 200 \<le> rto_msec (eigrp_nbr_rtt_sample s nb) \<and> rto_msec (eigrp_nbr_rtt_sample s nb) \<le> 5000
    \<and> unat (rto_msec (eigrp_nbr_rto_backoff nb)) = min (2 * unat (eigrp_nbr_rto nb)) 5000"
proof -
  let ?r = "ucast (eigrp_nbr_rto nb) * 2 :: u64"
  have l: "unat (eigrp_nbr_rto nb) \<le> 5000" using assms(3) by (simp add: word_le_nat_alt)
  then have r: "unat ?r = 2 * unat (eigrp_nbr_rto nb)" by (simp add: unat_word_ariths unsigned_ucast_eq take_bit_eq_mod)
  then have "unat (ucast ?r :: u32) = unat ?r" using l by (simp add: unsigned_ucast_eq take_bit_eq_mod)
  then have "unat (rto_msec (eigrp_nbr_rto_backoff nb)) = min (2 * unat (eigrp_nbr_rto nb)) 5000"
    using r by (auto simp: eigrp_nbr_rto_backoff_def Let_def word_less_nat_alt)
  then show ?thesis using sample_fields [OF assms(1), of s] sample_rto average_between [of 8 "uint (srtt_msec nb)" "uint s"]
      average_between [of 4 "uint (rttvar_msec nb)" "\<bar>uint s - uint (srtt_msec nb)\<bar>"] by simp
qed

definition sample_nbr :: rtp_nbr where
  "sample_nbr = \<lparr>adj_state = EIGRP_NEIGHBOR_UP, adj_limited = False, multicast_epoch = 1, srtt_valid = True, srtt_msec = 100, rttvar_msec = 40,
     rto_msec = 600, retrans_queue = [], own_init_sequence = 0, last_recv_sequence = 0, nbr_retransmissions = 0, up_since_msec = 0,
     cr_mode = False, cr_sequence = 0, v_holddown = 15, t_holddown = True, crypt_seqnum = 0, peer_tlv_version = 2,
     nbr_K = [1, 0, 1, 0, 0, 0]\<rparr>"

theorem rtt_estimate_bounded_witness:
  "srtt_msec (eigrp_nbr_rtt_sample 180 sample_nbr) = 110 \<and> unat (rto_msec (eigrp_nbr_rto_backoff sample_nbr)) = 1200"
  using rtt_estimate_bounded [of sample_nbr 180]
  by (simp add: sample_nbr_def eigrp_nbr_rto_def eigrp_nbr_rtt_sample_def quot_def)

end
