(* ===== verification/Eigrp_Reliable.thy ===== *)
theory Eigrp_Reliable
  imports Eigrp_Transport
begin

text \<open>
  Reliable delivery on an interface: the steps it can take when no allocation for a unicast and no send fails, the
  invariant \<open>rtp_ok\<close> that rules out a stall, and its preservation when packets are queued and sent from the head.
\<close>

section \<open>Steps of an interface\<close>

definition queue :: "nbr_id \<Rightarrow> rtp_intf \<Rightarrow> rtp_packet list" where
  "queue n I = retrans_queue (nbr I n)"

definition eligible :: "nbr_id \<Rightarrow> rtp_packet \<Rightarrow> rtp_intf \<Rightarrow> bool" where
  "eligible n m I \<longleftrightarrow> eigrp_packet_multicast_peer_eligible (nbr I n) (pk_epoch m)"

definition outstanding :: "rtp_intf \<Rightarrow> u32 set" where
  "outstanding I = sequence_number ` ((\<Union>n \<in> set (nbr_list I). set (queue n I)) \<union> set (multicast_pending I) \<union> {p \<in> set (obuf I). sequence_number p \<noteq> 0})"

text \<open>A newly built packet.  The numbers in flight, the new one included, span less than half the number space
  (\<^verbatim>\<open>eigrp_packet.h\<close>: ``a live queue never spans half the space'').\<close>

definition clean :: "rtp_packet \<Rightarrow> bool" where
  "clean p \<longleftrightarrow> sent_msec p = 0 \<and> t_retrans_timer p = None \<and> \<not> retry_queued p"

definition new_packet :: "rtp_intf \<Rightarrow> rtp_packet \<Rightarrow> bool" where
  "new_packet I p \<longleftrightarrow> clean p \<and> \<not> retransmission p \<and> EIGRP_HEADER_LEN \<le> pk_length p \<and> pk_opcode p \<noteq> EIGRP_OPC_HELLO
     \<and> sequence_number p \<noteq> 0 \<and> sequence_number p \<notin> outstanding I \<and> seq_window (insert (sequence_number p) (outstanding I))"

definition new_multicast :: "rtp_intf \<Rightarrow> rtp_packet \<Rightarrow> bool" where
  "new_multicast I p \<longleftrightarrow> new_packet I p \<and> pk_nbr p = None \<and> (\<forall>s \<in> outstanding I. eigrp_packet_sequence_before s (sequence_number p))"

definition nbr_publish :: "nbr_id \<Rightarrow> rtp_nbr \<Rightarrow> rtp_intf \<Rightarrow> rtp_intf" where
  "nbr_publish n nb I = I\<lparr>nbr_list := nbr_list I @ [n], nbr := (nbr I)(n := nbr_reset (nb\<lparr>adj_state := EIGRP_NEIGHBOR_DOWN\<rparr>))\<rparr>"

text \<open>What happens on an interface when no allocation for a unicast and no send fails.\<close>

inductive rtp_step :: "rtp_intf \<Rightarrow> rtp_intf \<Rightarrow> bool" where
  publish: "\<lbrakk>n \<notin> set (nbr_list I)\<rbrakk> \<Longrightarrow> rtp_step I (nbr_publish n nb I)"
| limit: "rtp_step I (nbr_change n (\<lambda>nb. nb\<lparr>adj_limited := b\<rparr>) I)"
| pending: "\<lbrakk>n \<in> set (nbr_list I); adj_state (nbr I n) = EIGRP_NEIGHBOR_DOWN\<rbrakk> \<Longrightarrow> rtp_step I (eigrp_nbr_state_update now n EIGRP_NEIGHBOR_PENDING I)"
| down: "n \<in> set (nbr_list I) \<Longrightarrow> rtp_step I (eigrp_nbr_state_update now n EIGRP_NEIGHBOR_DOWN I)"
| teardown: "n \<in> set (nbr_list I) \<Longrightarrow> rtp_step I (eigrp_nbr_down now n I)"
| delete: "n \<in> set (nbr_list I) \<Longrightarrow> rtp_step I (eigrp_nbr_delete now n I)"
| intf_down: "rtp_step I (eigrp_intf_down now I)"
| unicast: "\<lbrakk>n \<in> set (nbr_list I); adj_state (nbr I n) = EIGRP_NEIGHBOR_UP \<or> queue n I = []; new_packet I p; pk_nbr p = Some n\<rbrakk>
    \<Longrightarrow> rtp_step I (eigrp_update_neighbor_packet_queue True n p I)"
| init: "\<lbrakk>n \<in> set (nbr_list I); adj_state (nbr I n) \<noteq> EIGRP_NEIGHBOR_UP; new_packet I p; pk_nbr p = Some n\<rbrakk>
    \<Longrightarrow> rtp_step I (rtp_send_init True n p I)"
| multicast: "new_multicast I p \<Longrightarrow> rtp_step I (eigrp_packet_multicast_reliable_enqueue p I)"
| hello: "sequence_number p = 0 \<Longrightarrow> rtp_step I (eigrp_packet_output_enqueue p I)"
| ack: "\<lbrakk>n \<in> set (nbr_list I); intf_epoch I + 1 \<noteq> 0\<rbrakk> \<Longrightarrow> rtp_step I (eigrp_packet_ack now True n a s I)"
| expired: "\<lbrakk>n \<in> set (nbr_list I); rtp_head n I = Some h; t_retrans_timer h \<noteq> None\<rbrakk> \<Longrightarrow> rtp_step I (retrans_timer_expired now True n I)"
| multicast_retry: "t_multicast_retry I \<Longrightarrow> rtp_step I (eigrp_packet_multicast_retry I)"
| admit: "on_write_q I \<Longrightarrow> rtp_step I (write_candidate E I)"
| send: "\<lbrakk>on_write_q I; obuf I \<noteq> []; now \<noteq> 0\<rbrakk> \<Longrightarrow> rtp_step I (write_packet now True I)"


section \<open>The invariant\<close>

text \<open>Copies on their way: which neighbours a packet in the output queue is for.\<close>

definition targets :: "rtp_packet \<Rightarrow> nbr_id \<Rightarrow> bool" where
  "targets c n \<longleftrightarrow> pk_nbr c = None \<or> pk_nbr c = Some n"

definition precedes :: "rtp_packet \<Rightarrow> nbr_id \<Rightarrow> rtp_intf \<Rightarrow> bool" where
  "precedes p n I \<longleftrightarrow> (\<forall>m \<in> set (multicast_pending I). eligible n m I \<longrightarrow> eigrp_packet_sequence_before (sequence_number p) (sequence_number m))"

definition pending_ok :: "rtp_intf \<Rightarrow> bool" where
  "pending_ok I \<longleftrightarrow>
     sorted_wrt (\<lambda>a b. eigrp_packet_sequence_before (sequence_number a) (sequence_number b)) (multicast_pending I)
     \<and> (\<forall>m \<in> set (multicast_pending I). pk_nbr m = None \<and> \<not> retransmission m \<and> EIGRP_HEADER_LEN \<le> pk_length m
          \<and> pk_opcode m \<noteq> EIGRP_OPC_HELLO \<and> sequence_number m \<noteq> 0 \<and> pk_epoch m \<le> intf_epoch I
          \<and> (\<forall>n \<in> set (nbr_list I). sequence_number m \<notin> sequence_number ` set (queue n I)))"

definition head_ok :: "rtp_packet \<Rightarrow> nbr_id \<Rightarrow> rtp_intf \<Rightarrow> bool" where
  "head_ok h n I \<longleftrightarrow> (t_retrans_timer h \<noteq> None \<longrightarrow> sent_msec h \<noteq> 0 \<and> \<not> retry_queued h) \<and> (retry_queued h \<longrightarrow> sent_msec h \<noteq> 0)
     \<and> (sent_msec h \<noteq> 0 \<longrightarrow> precedes h n I)"

definition queue_ok :: "nbr_id \<Rightarrow> rtp_intf \<Rightarrow> bool" where
  "queue_ok n I \<longleftrightarrow>
     distinct (map sequence_number (queue n I))
     \<and> (\<forall>p \<in> set (queue n I). EIGRP_HEADER_LEN \<le> pk_length p \<and> pk_opcode p \<noteq> EIGRP_OPC_HELLO \<and> sequence_number p \<noteq> 0)
     \<and> (\<forall>p \<in> set (tl (queue n I)). clean p)
     \<and> (case queue n I of [] \<Rightarrow> True | h # _ \<Rightarrow> head_ok h n I)
     \<and> (adj_state (nbr I n) \<noteq> EIGRP_NEIGHBOR_UP \<longrightarrow>
          (\<forall>p \<in> set (queue n I). sequence_number p = own_init_sequence (nbr I n) \<longrightarrow> p = last (queue n I)))"

definition obuf_ok :: "rtp_intf \<Rightarrow> bool" where
  "obuf_ok I \<longleftrightarrow>
     (\<forall>c \<in> set (obuf I). sequence_number c \<noteq> 0 \<longrightarrow>
        EIGRP_HEADER_LEN \<le> pk_length c
        \<and> (\<forall>n \<in> set (nbr_list I). targets c n \<longrightarrow> precedes c n I)
        \<and> (retransmission c \<longrightarrow> pk_nbr c \<noteq> None
            \<and> (\<forall>n \<in> set (nbr_list I). pk_nbr c = Some n \<longrightarrow>
                 (\<forall>h \<in> set (queue n I). sequence_number h = sequence_number c \<longrightarrow> sent_msec h \<noteq> 0))))"

text \<open>The head of a neighbour's queue is waiting for an acknowledgement, or on its way, or held behind a multicast.\<close>

definition on_its_way :: "rtp_packet \<Rightarrow> nbr_id \<Rightarrow> rtp_intf \<Rightarrow> bool" where
  "on_its_way h n I \<longleftrightarrow>
     (\<exists>c \<in> set (obuf I). sequence_number c = sequence_number h \<and> targets c n \<and> (retransmission c \<or> sent_msec h = 0))"

definition progress :: "nbr_id \<Rightarrow> rtp_intf \<Rightarrow> bool" where
  "progress n I \<longleftrightarrow> (case queue n I of
      [] \<Rightarrow> True
    | h # _ \<Rightarrow> t_retrans_timer h \<noteq> None \<or> on_its_way h n I \<or> eigrp_packet_unicast_behind_multicast (nbr I n) (sequence_number h) I)"

definition base_ok :: "rtp_intf \<Rightarrow> bool" where
  "base_ok I \<longleftrightarrow> distinct (nbr_list I) \<and> seq_window (outstanding I) \<and> pending_ok I \<and> obuf_ok I \<and> (\<forall>n \<in> set (nbr_list I). queue_ok n I)"

definition flags_ok :: "rtp_intf \<Rightarrow> bool" where
  "flags_ok I \<longleftrightarrow>
     (multicast_backoff I \<or> multicast_waiting I \<longrightarrow>
        \<not> t_multicast_retry I \<and>
        (\<exists>m ms. multicast_pending I = m # ms \<and> (\<exists>n \<in> set (nbr_list I). eligible n m I \<and> receiver_prior m I n \<noteq> 0)))
     \<and> (obuf I \<noteq> [] \<or> admit_enabled I \<longrightarrow> on_write_q I)"

definition rtp_ok :: "rtp_intf \<Rightarrow> bool" where
  "rtp_ok I \<longleftrightarrow> base_ok I \<and> (\<forall>n \<in> set (nbr_list I). progress n I) \<and> flags_ok I"

lemma queue_next_simps [simp]: "eigrp_packet_queue_next [] = None" "eigrp_packet_queue_next (p # q) = Some p"
  by (simp_all add: eigrp_packet_queue_next_def)

lemma rtp_head_queue: "rtp_head n I = (case queue n I of [] \<Rightarrow> None | h # _ \<Rightarrow> Some h)"
  by (simp add: rtp_head_def queue_def eigrp_packet_queue_next_def)

lemma prior_head: "prior_count q s \<noteq> 0 \<Longrightarrow> \<exists>h q'. q = h # q' \<and> eigrp_packet_sequence_before (sequence_number h) s"
  by (cases q) (auto split: if_splits)

lemma not_behind_first:
  "\<lbrakk>multicast_pending I = m # ms; eigrp_packet_sequence_before s (sequence_number m)\<rbrakk> \<Longrightarrow> \<not> eigrp_packet_unicast_behind_multicast nb s I"
  using before_antisym by (auto simp: eigrp_packet_unicast_behind_multicast_def)

text \<open>A step of the writer, a timer, or an acknowledgement can always move the interface on.\<close>

definition enabled :: "rtp_intf \<Rightarrow> bool" where
  "enabled I \<longleftrightarrow> on_write_q I \<and> (obuf I \<noteq> [] \<or> admit_enabled I) \<or> t_multicast_retry I
     \<or> (\<exists>n \<in> set (nbr_list I). \<exists>h. rtp_head n I = Some h \<and> t_retrans_timer h \<noteq> None)"

lemma behind_pending: "eigrp_packet_unicast_behind_multicast nb s I \<Longrightarrow> multicast_pending I \<noteq> []"
  by (auto simp: eigrp_packet_unicast_behind_multicast_def)

lemma progress_enabled:
  assumes ok: "rtp_ok I" and n: "n \<in> set (nbr_list I)" and q: "queue n I = h # q"
    and nb: "\<not> eigrp_packet_unicast_behind_multicast (nbr I n) (sequence_number h) I"
  shows "enabled I"
proof -
  have "progress n I" "flags_ok I" using ok n by (auto simp: rtp_ok_def)
  then have "t_retrans_timer h \<noteq> None \<or> obuf I \<noteq> [] \<and> on_write_q I"
    using nb q by (auto simp: progress_def on_its_way_def flags_ok_def)
  then show ?thesis using n q by (auto simp: enabled_def rtp_head_queue)
qed

lemma pending_enabled:
  assumes ok: "rtp_ok I" and p: "multicast_pending I \<noteq> []"
  shows "enabled I"
proof (cases "admit_enabled I \<or> t_multicast_retry I")
  case True
  then show ?thesis using ok by (auto simp: rtp_ok_def flags_ok_def enabled_def)
next
  case False
  then obtain m ms n where m: "multicast_pending I = m # ms" and n: "n \<in> set (nbr_list I)" "receiver_prior m I n \<noteq> 0"
    using ok p by (auto simp: rtp_ok_def flags_ok_def admit_enabled_def)
  then obtain h q where "queue n I = h # q" "eigrp_packet_sequence_before (sequence_number h) (sequence_number m)"
    using prior_head by (fastforce simp: receiver_prior_def eigrp_packet_reliable_prior_count_def queue_def)
  then show ?thesis using progress_enabled [OF ok n(1)] not_behind_first [OF m] by blast
qed

lemma rtp_ok_enabled:
  assumes ok: "rtp_ok I" and work: "multicast_pending I \<noteq> [] \<or> (\<exists>n \<in> set (nbr_list I). queue n I \<noteq> [])"
  shows "enabled I"
proof (cases "multicast_pending I = []")
  case True
  then obtain n h q where "n \<in> set (nbr_list I)" "queue n I = h # q" using work by (auto simp: neq_Nil_conv)
  then show ?thesis using progress_enabled [OF ok] behind_pending True by blast
qed (rule pending_enabled [OF ok])


section \<open>What the invariant reads\<close>

definition same_nbr :: "nbr_id \<Rightarrow> rtp_intf \<Rightarrow> rtp_intf \<Rightarrow> bool" where
  "same_nbr n I J \<longleftrightarrow> queue n J = queue n I \<and> (\<forall>e. eigrp_packet_multicast_peer_eligible (nbr J n) e = eigrp_packet_multicast_peer_eligible (nbr I n) e)
     \<and> own_init_sequence (nbr J n) = own_init_sequence (nbr I n)
     \<and> (adj_state (nbr J n) = EIGRP_NEIGHBOR_UP \<longleftrightarrow> adj_state (nbr I n) = EIGRP_NEIGHBOR_UP)"

definition same_rtp :: "rtp_intf \<Rightarrow> rtp_intf \<Rightarrow> bool" where
  "same_rtp I J \<longleftrightarrow> nbr_list J = nbr_list I \<and> obuf J = obuf I \<and> multicast_pending J = multicast_pending I \<and> intf_epoch J = intf_epoch I
     \<and> (\<forall>n. same_nbr n I J)"

lemma behind_loop_cong:
  assumes "\<And>e. eigrp_packet_multicast_peer_eligible nb' e = eigrp_packet_multicast_peer_eligible nb e"
  shows "behind_loop nb' s ms = behind_loop nb s ms"
  by (induction ms) (auto simp: assms)

lemma same_nbrD:
  assumes "same_nbr n I J"
  shows "queue n J = queue n I" "eligible n m J = eligible n m I" "rtp_head n J = rtp_head n I"
    "behind_loop (nbr J n) s ms = behind_loop (nbr I n) s ms"
  using assms behind_loop_cong [of "nbr J n" "nbr I n" s ms] by (auto simp: same_nbr_def eligible_def rtp_head_queue)

lemma same_nbr_refl [simp]: "same_nbr n I I" by (simp add: same_nbr_def)

lemma same_rtp_refl [simp]: "same_rtp I I" by (simp add: same_rtp_def)

lemma same_rtp_trans: "same_rtp I J \<Longrightarrow> same_rtp J K \<Longrightarrow> same_rtp I K"
  by (auto simp: same_rtp_def same_nbr_def)

lemma same_queue_ok:
  assumes s: "same_nbr n I J" and p: "multicast_pending J = multicast_pending I" and ok: "queue_ok n I"
  shows "queue_ok n J"
proof -
  have "head_ok h n J = head_ok h n I" for h by (simp add: head_ok_def precedes_def p same_nbrD [OF s])
  then show ?thesis using s ok by (auto simp: queue_ok_def same_nbr_def split: list.splits)
qed

lemma same_progress:
  assumes s: "same_nbr n I J" and p: "multicast_pending J = multicast_pending I" and o: "set (obuf I) \<subseteq> set (obuf J)" and ok: "progress n I"
  shows "progress n J"
  using ok o same_nbrD [OF s] p
  by (auto simp: progress_def on_its_way_def eigrp_packet_unicast_behind_multicast_def split: list.splits)

lemma same_rtp_base:
  assumes s: "same_rtp I J" and ok: "base_ok I"
  shows "base_ok J"
proof -
  have e: "nbr_list J = nbr_list I" "obuf J = obuf I" "multicast_pending J = multicast_pending I" "intf_epoch J = intf_epoch I"
    and n: "\<And>n. same_nbr n I J" using s by (auto simp: same_rtp_def)
  have o: "outstanding J = outstanding I" by (simp add: outstanding_def e same_nbrD [OF n])
  have "pending_ok J = pending_ok I" "obuf_ok J = obuf_ok I"
    by (simp_all add: pending_ok_def obuf_ok_def precedes_def e same_nbrD [OF n])
  then show ?thesis using ok same_queue_ok [OF n e(3)] by (simp add: base_ok_def e o)
qed

lemma same_rtp_progress: "\<lbrakk>same_rtp I J; progress n I\<rbrakk> \<Longrightarrow> progress n J"
  using same_progress [of n I J] by (simp add: same_rtp_def)

definition work_ok :: "rtp_intf \<Rightarrow> bool" where
  "work_ok I \<longleftrightarrow> base_ok I \<and> (\<forall>n \<in> set (nbr_list I). progress n I)"

lemma same_rtp_work: "\<lbrakk>same_rtp I J; work_ok I\<rbrakk> \<Longrightarrow> work_ok J"
  using same_rtp_base same_rtp_progress by (auto simp: work_ok_def same_rtp_def)

lemma rtp_ok_work: "rtp_ok I \<longleftrightarrow> work_ok I \<and> flags_ok I"
  by (auto simp: rtp_ok_def work_ok_def)

subsection \<open>Waking a multicast repairs the flags\<close>

definition sane :: "rtp_intf \<Rightarrow> bool" where
  "sane I \<longleftrightarrow> (multicast_backoff I \<or> multicast_waiting I \<longrightarrow> \<not> t_multicast_retry I \<and> multicast_pending I \<noteq> [])
     \<and> (obuf I \<noteq> [] \<longrightarrow> on_write_q I)"

lemma flags_sane: "flags_ok I \<Longrightarrow> sane I" by (auto simp: flags_ok_def sane_def)

lemma rtp_call_simps [simp]:
  "nbr_list (rtp_call c I) = nbr_list I" "nbr (rtp_call c I) = nbr I" "obuf (rtp_call c I) = obuf I"
  "multicast_pending (rtp_call c I) = multicast_pending I" "intf_epoch (rtp_call c I) = intf_epoch I"
  "multicast_backoff (rtp_call c I) = multicast_backoff I" "multicast_waiting (rtp_call c I) = multicast_waiting I"
  "t_multicast_retry (rtp_call c I) = t_multicast_retry I" "on_write_q (rtp_call c I) = on_write_q I"
  by (simp_all add: rtp_call_def)

lemma nbr_change_simps [simp]:
  "nbr_list (nbr_change n f I) = nbr_list I" "nbr (nbr_change n f I) = (nbr I)(n := f (nbr I n))" "obuf (nbr_change n f I) = obuf I"
  "multicast_pending (nbr_change n f I) = multicast_pending I" "intf_epoch (nbr_change n f I) = intf_epoch I"
  "multicast_backoff (nbr_change n f I) = multicast_backoff I" "multicast_waiting (nbr_change n f I) = multicast_waiting I"
  "t_multicast_retry (nbr_change n f I) = t_multicast_retry I" "on_write_q (nbr_change n f I) = on_write_q I"
  by (simp_all add: nbr_change_def)

lemma resume_simps [simp]:
  "nbr_list (eigrp_packet_multicast_resume I) = nbr_list I" "nbr (eigrp_packet_multicast_resume I) = nbr I"
  "obuf (eigrp_packet_multicast_resume I) = obuf I" "multicast_pending (eigrp_packet_multicast_resume I) = multicast_pending I"
  "intf_epoch (eigrp_packet_multicast_resume I) = intf_epoch I"
  by (auto simp: eigrp_packet_multicast_resume_def write_queue_add_def Let_def split: option.splits)

lemma same_rtp_resume [simp]: "same_rtp I (eigrp_packet_multicast_resume I)"
  by (simp add: same_rtp_def same_nbr_def queue_def)

lemma same_rtp_call [simp]: "same_rtp I (rtp_call c I)"
  by (simp add: same_rtp_def same_nbr_def queue_def)

lemma resume_flags:
  assumes "sane I"
  shows "flags_ok (eigrp_packet_multicast_resume I)"
proof (cases "multicast_pending I")
  case Nil
  then show ?thesis using assms
    by (auto simp: flags_ok_def sane_def admit_enabled_def eigrp_packet_multicast_resume_def)
next
  case (Cons m ms)
  let ?ns = "multicast_receivers m I"
  have ns: "set ?ns = {n \<in> set (nbr_list I). eligible n m I}" by (auto simp: multicast_receivers_def eligible_def)
  have k: "receiver_prior m (I\<lparr>multicast_backoff := b\<rparr>) n = receiver_prior m I n" for n b by (simp add: receiver_prior_def)
  have "multicast_backoff I \<and> (\<exists>n \<in> set ?ns. receiver_prior m I n \<noteq> 0) \<Longrightarrow> ?thesis"
    using assms Cons ns by (auto simp: flags_ok_def sane_def admit_enabled_def eigrp_packet_multicast_resume_def)
  moreover have "\<not> (multicast_backoff I \<and> (\<exists>n \<in> set ?ns. receiver_prior m I n \<noteq> 0)) \<Longrightarrow> ?thesis"
  proof (cases "t_multicast_retry I")
    case True
    then show ?thesis using assms Cons by (auto simp: flags_ok_def sane_def admit_enabled_def eigrp_packet_multicast_resume_def)
  next
    case False
    assume "\<not> (multicast_backoff I \<and> (\<exists>n \<in> set ?ns. receiver_prior m I n \<noteq> 0))"
    then have r: "eigrp_packet_multicast_resume I =
        (if multicast_waiting I \<and> ?ns \<noteq> [] \<and> \<not> (\<exists>n \<in> set ?ns. receiver_prior m I n = 0) then I\<lparr>multicast_backoff := False\<rparr>
         else write_queue_add (I\<lparr>multicast_backoff := False, multicast_waiting := False\<rparr>))"
      using Cons False by (auto simp: eigrp_packet_multicast_resume_def Let_def)
    show ?thesis
    proof (cases "multicast_waiting I \<and> ?ns \<noteq> [] \<and> \<not> (\<exists>n \<in> set ?ns. receiver_prior m I n = 0)")
      case True
      then obtain n where "n \<in> set ?ns" "receiver_prior m I n \<noteq> 0" by (metis list.set_intros(1) neq_Nil_conv)
      then show ?thesis using True r assms Cons False ns
        by (auto simp: flags_ok_def sane_def admit_enabled_def k eligible_def)
    qed (use r in \<open>auto simp: flags_ok_def write_queue_add_def\<close>)
  qed
  ultimately show ?thesis by blast
qed

lemma resume_rtp_ok: "\<lbrakk>work_ok I; sane I\<rbrakk> \<Longrightarrow> rtp_ok (eigrp_packet_multicast_resume I)"
  using resume_flags same_rtp_work [OF same_rtp_resume] by (simp add: rtp_ok_work)


section \<open>Sending the head\<close>

definition copy_ok :: "rtp_packet \<Rightarrow> rtp_intf \<Rightarrow> bool" where
  "copy_ok c I \<longleftrightarrow> sequence_number c \<noteq> 0 \<longrightarrow>
        EIGRP_HEADER_LEN \<le> pk_length c
        \<and> (\<forall>n \<in> set (nbr_list I). targets c n \<longrightarrow> precedes c n I)
        \<and> (retransmission c \<longrightarrow> pk_nbr c \<noteq> None
            \<and> (\<forall>n \<in> set (nbr_list I). pk_nbr c = Some n \<longrightarrow>
                 (\<forall>h \<in> set (queue n I). sequence_number h = sequence_number c \<longrightarrow> sent_msec h \<noteq> 0)))"

lemma obuf_ok_copies: "obuf_ok I \<longleftrightarrow> (\<forall>c \<in> set (obuf I). copy_ok c I)"
  by (simp add: obuf_ok_def copy_ok_def)

lemma output_simps [simp]:
  "nbr_list (eigrp_packet_output_enqueue c I) = nbr_list I" "nbr (eigrp_packet_output_enqueue c I) = nbr I"
  "set (obuf (eigrp_packet_output_enqueue c I)) = insert c (set (obuf I))"
  "multicast_pending (eigrp_packet_output_enqueue c I) = multicast_pending I" "intf_epoch (eigrp_packet_output_enqueue c I) = intf_epoch I"
  "multicast_backoff (eigrp_packet_output_enqueue c I) = multicast_backoff I" "multicast_waiting (eigrp_packet_output_enqueue c I) = multicast_waiting I"
  "t_multicast_retry (eigrp_packet_output_enqueue c I) = t_multicast_retry I" "on_write_q (eigrp_packet_output_enqueue c I)"
  by (simp_all add: eigrp_packet_output_enqueue_def eigrp_packet_enqueue_def)

lemma output_same_nbr [simp]: "same_nbr n I (eigrp_packet_output_enqueue c I)"
  by (simp add: same_nbr_def queue_def)

lemma output_base:
  assumes b: "base_ok I" and c: "copy_ok c I" and s: "sequence_number c = 0 \<or> sequence_number c \<in> outstanding I"
  shows "base_ok (eigrp_packet_output_enqueue c I)"
proof -
  let ?J = "eigrp_packet_output_enqueue c I"
  note n = same_nbrD [OF output_same_nbr]
  have o: "outstanding ?J = outstanding I" using s by (auto simp: outstanding_def n)
  have "pending_ok ?J = pending_ok I" by (simp add: pending_ok_def n)
  moreover have "copy_ok d ?J = copy_ok d I" for d by (simp add: copy_ok_def precedes_def n)
  moreover have "queue_ok m ?J" if "queue_ok m I" for m using that same_queue_ok [OF output_same_nbr] by simp
  ultimately show ?thesis using b c by (simp add: base_ok_def o obuf_ok_copies)
qed

lemma output_progress: "progress n I \<Longrightarrow> progress n (eigrp_packet_output_enqueue c I)"
  by (rule same_progress [OF output_same_nbr]) auto

lemma output_flags: "flags_ok I \<Longrightarrow> flags_ok (eigrp_packet_output_enqueue c I)"
  by (auto simp: flags_ok_def eligible_def receiver_prior_def)

lemma output_sane: "sane I \<Longrightarrow> sane (eigrp_packet_output_enqueue c I)"
  by (auto simp: sane_def)

text \<open>A packet that no earlier multicast holds back precedes every pending one.\<close>

lemma not_behind_precedes:
  assumes w: "seq_window S" "s \<in> S" "sequence_number ` set ms \<subseteq> S"
    and o: "sorted_wrt (\<lambda>a b. eigrp_packet_sequence_before (sequence_number a) (sequence_number b)) ms"
    and nb: "\<not> behind_loop nb s ms" and d: "s \<notin> sequence_number ` set ms"
  shows "\<forall>m \<in> set ms. eigrp_packet_multicast_peer_eligible nb (pk_epoch m) \<longrightarrow> eigrp_packet_sequence_before s (sequence_number m)"
  using w(3) o nb d
proof (induction ms)
  case (Cons m ms)
  show ?case
  proof (cases "eigrp_packet_sequence_before (sequence_number m) s")
    case True
    then show ?thesis using Cons by (auto split: if_splits)
  next
    case False
    then have b: "eigrp_packet_sequence_before s (sequence_number m)"
      using window_total [OF w(1), of "sequence_number m" s] w(2) Cons.prems(1,4) by auto
    then show ?thesis using window_trans [OF w(1) w(2), of "sequence_number m"] Cons.prems(1,2) by auto
  qed
qed simp

lemma outstanding_Un:
  "outstanding I = (\<Union>n \<in> set (nbr_list I). sequence_number ` set (queue n I)) \<union> sequence_number ` set (multicast_pending I)
     \<union> (sequence_number ` set (obuf I) - {0})"
  by (auto simp: outstanding_def)

lemma queue_outstanding: "\<lbrakk>n \<in> set (nbr_list I); p \<in> set (queue n I)\<rbrakk> \<Longrightarrow> sequence_number p \<in> outstanding I"
  by (auto simp: outstanding_def)

lemma pending_outstanding: "m \<in> set (multicast_pending I) \<Longrightarrow> sequence_number m \<in> outstanding I"
  by (auto simp: outstanding_def)

lemma obuf_outstanding: "\<lbrakk>c \<in> set (obuf I); sequence_number c \<noteq> 0\<rbrakk> \<Longrightarrow> sequence_number c \<in> outstanding I"
  by (auto simp: outstanding_def)

lemma pending_disjoint:
  assumes "base_ok I" "n \<in> set (nbr_list I)"
  shows "sequence_number ` set (queue n I) \<inter> sequence_number ` set (multicast_pending I) = {}"
proof -
  have "sequence_number m \<notin> sequence_number ` set (queue n I)" if "m \<in> set (multicast_pending I)" for m
    using assms that by (simp add: base_ok_def pending_ok_def)
  then show ?thesis by (simp add: disjoint_iff) (metis imageE)
qed

lemma head_precedes:
  assumes b: "base_ok I" and n: "n \<in> set (nbr_list I)" and h: "queue n I = h # q"
    and nb: "\<not> eigrp_packet_unicast_behind_multicast (nbr I n) (sequence_number h) I"
  shows "precedes h n I"
proof -
  have "sequence_number h \<in> outstanding I" using queue_outstanding [OF n, of h] h by simp
  moreover have "sequence_number h \<notin> sequence_number ` set (multicast_pending I)"
    using b n h by (fastforce simp: base_ok_def pending_ok_def)
  moreover have "sequence_number ` set (multicast_pending I) \<subseteq> outstanding I" using pending_outstanding by blast
  moreover have "seq_window (outstanding I)" "sorted_wrt (\<lambda>a b. eigrp_packet_sequence_before (sequence_number a) (sequence_number b)) (multicast_pending I)"
    using b by (auto simp: base_ok_def pending_ok_def)
  ultimately show ?thesis
    using not_behind_precedes nb by (simp add: precedes_def eligible_def eigrp_packet_unicast_behind_multicast_def)
qed

lemma dup_simps:
  "eigrp_packet_dup True p n = Some d \<Longrightarrow> sequence_number d = sequence_number p \<and> pk_length d = pk_length p \<and> pk_nbr d = Some n
     \<and> \<not> retransmission d"
  by (auto simp: eigrp_packet_dup_def)

lemma unicast_copy_simps [simp]:
  "sequence_number (unicast_copy p d) = sequence_number d" "pk_length (unicast_copy p d) = pk_length d" "pk_nbr (unicast_copy p d) = pk_nbr d"
  "retransmission (unicast_copy p d) = retransmission d"
  by (simp_all add: unicast_copy_def)

lemma queue_unique:
  assumes "base_ok I" "n \<in> set (nbr_list I)" "g \<in> set (queue n I)" "h \<in> set (queue n I)" "sequence_number g = sequence_number h"
  shows "g = h"
proof -
  have "inj_on sequence_number (set (queue n I))" using assms by (auto simp: base_ok_def queue_ok_def distinct_map)
  then show ?thesis using assms by (auto dest: inj_onD)
qed

text \<open>The copy of a head that may be sent.\<close>

lemma head_copy:
  assumes b: "base_ok I" and n: "n \<in> set (nbr_list I)" and h: "queue n I = h # q" and p: "precedes h n I"
    and c: "sequence_number c = sequence_number h" "pk_length c = pk_length h" "pk_nbr c = Some n" "retransmission c \<longrightarrow> sent_msec h \<noteq> 0"
  shows "base_ok (eigrp_packet_output_enqueue c I)"
    and "retransmission c \<or> sent_msec h = 0 \<Longrightarrow> progress n (eigrp_packet_output_enqueue c I)"
proof -
  have "sequence_number c \<in> outstanding I" using queue_outstanding [OF n, of h] h c by simp
  moreover have "g = h" if "g \<in> set (queue n I)" "sequence_number g = sequence_number h" for g
    using that queue_unique [OF b n] h by auto
  then have "copy_ok c I" using b n h p c
    by (auto simp: copy_ok_def base_ok_def queue_ok_def targets_def precedes_def)
  ultimately show "base_ok (eigrp_packet_output_enqueue c I)" using output_base [OF b] by blast
  show "retransmission c \<or> sent_msec h = 0 \<Longrightarrow> progress n (eigrp_packet_output_enqueue c I)"
    using h c by (auto simp: progress_def same_nbrD [OF output_same_nbr] on_its_way_def targets_def)
qed

lemma send_reliably_ok:
  assumes b: "base_ok I" and n: "n \<in> set (nbr_list I)" and u: "\<And>h q. queue n I = h # q \<Longrightarrow> sent_msec h = 0"
    and rest: "\<And>m. \<lbrakk>m \<in> set (nbr_list I); m \<noteq> n\<rbrakk> \<Longrightarrow> progress m I"
  shows "work_ok (eigrp_packet_send_reliably True n I)"
proof (cases "queue n I")
  case Nil
  then have "progress n I" by (simp add: progress_def)
  then show ?thesis using Nil b rest by (auto simp: eigrp_packet_send_reliably_def rtp_head_queue work_ok_def)
next
  case (Cons h q)
  let ?c = "unicast_copy h (the (eigrp_packet_dup True h n))" and ?J = "eigrp_packet_send_reliably True n I"
  show ?thesis
  proof (cases "eigrp_packet_unicast_behind_multicast (nbr I n) (sequence_number h) I")
    case True
    then have "progress n I" using Cons by (simp add: progress_def)
    then show ?thesis using True b Cons rest by (auto simp: eigrp_packet_send_reliably_def rtp_head_queue work_ok_def)
  next
    case False
    have "?J = eigrp_packet_output_enqueue ?c I"
      using False Cons by (simp add: eigrp_packet_send_reliably_def rtp_head_queue eigrp_packet_dup_def)
    moreover have "sequence_number ?c = sequence_number h" "pk_length ?c = pk_length h" "pk_nbr ?c = Some n" "retransmission ?c \<longrightarrow> sent_msec h \<noteq> 0"
      by (simp_all add: eigrp_packet_dup_def)
    ultimately have j: "base_ok ?J" "progress n ?J"
      using head_copy [OF b n Cons head_precedes [OF b n Cons False], of ?c] u [OF Cons] by simp_all
    moreover have "progress m ?J" if "m \<in> set (nbr_list I)" for m
      using that j(2) output_progress [OF rest [OF that]] \<open>?J = _\<close> by (cases "m = n") auto
    ultimately show ?thesis using \<open>?J = _\<close> by (simp add: work_ok_def)
  qed
qed

lemma send_reliably_sane: "sane I \<Longrightarrow> sane (eigrp_packet_send_reliably True n I)"
  by (auto simp: eigrp_packet_send_reliably_def eigrp_packet_dup_def output_sane split: option.splits)

lemma send_reliably_flags: "flags_ok I \<Longrightarrow> flags_ok (eigrp_packet_send_reliably True n I)"
  by (auto simp: eigrp_packet_send_reliably_def eigrp_packet_dup_def output_flags split: option.splits)


section \<open>Queueing\<close>

subsection \<open>For one neighbour\<close>

text \<open>Changing only one neighbour's own queue.\<close>

lemma change_queue:
  assumes b: "base_ok I" and n: "n \<in> set (nbr_list I)"
    and same: "\<And>m. m \<noteq> n \<Longrightarrow> same_nbr m I J" and e: "\<And>e. eigrp_packet_multicast_peer_eligible (nbr J n) e = eigrp_packet_multicast_peer_eligible (nbr I n) e"
    and f: "nbr_list J = nbr_list I" "obuf J = obuf I" "multicast_pending J = multicast_pending I" "intf_epoch J = intf_epoch I"
    and w: "seq_window (outstanding J)" and q: "queue_ok n J"
    and d: "sequence_number ` set (queue n J) \<inter> sequence_number ` set (multicast_pending I) = {}"
    and c: "\<And>h c. \<lbrakk>h \<in> set (queue n J); c \<in> set (obuf I); retransmission c; pk_nbr c = Some n; sequence_number c = sequence_number h;
               sequence_number c \<noteq> 0\<rbrakk> \<Longrightarrow> sent_msec h \<noteq> 0"
  shows "base_ok J"
proof -
  have el: "eligible m x J = eligible m x I" for m x using e same same_nbrD(2) by (cases "m = n") (auto simp: eligible_def)
  have p: "pending_ok J" using b d same_nbrD(1) [OF same]
    unfolding pending_ok_def base_ok_def by (auto simp: f) (metis (no_types, lifting) disjoint_iff image_eqI)+
  moreover have "copy_ok x J" if x: "x \<in> set (obuf I)" for x
  proof -
    have x': "copy_ok x I" using b x by (auto simp: base_ok_def obuf_ok_copies)
    moreover have "sent_msec h \<noteq> 0" if "retransmission x" "pk_nbr x = Some m" "m \<in> set (nbr_list I)" "h \<in> set (queue m J)"
        "sequence_number h = sequence_number x" "sequence_number x \<noteq> 0" for m h
      using that x' c [of h x] x same_nbrD(1) [OF same, of m] by (cases "m = n") (auto simp: copy_ok_def)
    ultimately show ?thesis by (auto simp: copy_ok_def precedes_def f el)
  qed
  moreover have "queue_ok m J" if "m \<in> set (nbr_list I)" for m
    using that q b same_queue_ok [OF same f(3)] by (cases "m = n") (auto simp: base_ok_def)
  ultimately show ?thesis using b w by (simp add: base_ok_def f obuf_ok_copies)
qed

definition enqueued :: "nbr_id \<Rightarrow> rtp_packet \<Rightarrow> rtp_intf \<Rightarrow> rtp_intf" where
  "enqueued n p I = nbr_change n (\<lambda>nb. nb\<lparr>retrans_queue := eigrp_packet_enqueue (retrans_queue nb) p\<rparr>) I"

lemma enqueued_queue: "queue m (enqueued n p I) = (if m = n then queue n I @ [p] else queue m I)"
  by (simp add: enqueued_def queue_def eigrp_packet_enqueue_def)

lemma enqueued_set: "set (queue m (enqueued n p I)) = set (queue m I) \<union> (if m = n then {p} else {})"
  by (simp add: enqueued_queue)

lemma enqueued_simps [simp]:
  "nbr_list (enqueued n p I) = nbr_list I" "obuf (enqueued n p I) = obuf I" "multicast_pending (enqueued n p I) = multicast_pending I"
  "intf_epoch (enqueued n p I) = intf_epoch I" "multicast_backoff (enqueued n p I) = multicast_backoff I"
  "multicast_waiting (enqueued n p I) = multicast_waiting I" "t_multicast_retry (enqueued n p I) = t_multicast_retry I"
  "on_write_q (enqueued n p I) = on_write_q I" "own_init_sequence (nbr (enqueued n p I) m) = own_init_sequence (nbr I m)"
  "adj_state (nbr (enqueued n p I) m) = adj_state (nbr I m)" "multicast_epoch (nbr (enqueued n p I) m) = multicast_epoch (nbr I m)"
  "eigrp_packet_multicast_peer_eligible (nbr (enqueued n p I) m) e = eigrp_packet_multicast_peer_eligible (nbr I m) e"
  by (simp_all add: enqueued_def eigrp_packet_multicast_peer_eligible_def)

lemma enqueued_outstanding:
  "n \<in> set (nbr_list I) \<Longrightarrow> outstanding (enqueued n p I) = insert (sequence_number p) (outstanding I)"
  by (auto simp: outstanding_Un enqueued_set split: if_splits)

lemma prior_append: "prior_count q s \<noteq> 0 \<Longrightarrow> prior_count (q @ [p]) s \<noteq> 0"
  by (cases q) (auto split: if_splits)

lemma enqueued_flags: "flags_ok I \<Longrightarrow> flags_ok (enqueued n p I)"
proof -
  have "receiver_prior m I k \<noteq> 0 \<Longrightarrow> receiver_prior m (enqueued n p I) k \<noteq> 0" for m k
    using prior_append [of "queue k I"] enqueued_queue [of k n p I]
    by (auto simp: receiver_prior_def eigrp_packet_reliable_prior_count_def queue_def [symmetric])
  then show "flags_ok I \<Longrightarrow> flags_ok (enqueued n p I)"
    unfolding flags_ok_def admit_enabled_def eligible_def by (simp del: neq0_conv) blast
qed

lemma fresh_queue: "\<lbrakk>new_packet I p; n \<in> set (nbr_list I); g \<in> set (queue n I)\<rbrakk> \<Longrightarrow> sequence_number g \<noteq> sequence_number p"
  using queue_outstanding by (metis new_packet_def)

lemma enqueued_base:
  assumes b: "base_ok I" and n: "n \<in> set (nbr_list I)" and p: "new_packet I p"
    and i: "adj_state (nbr I n) = EIGRP_NEIGHBOR_UP \<or> queue n I = [] \<or> own_init_sequence (nbr I n) = sequence_number p"
  shows "base_ok (enqueued n p I)"
proof (rule change_queue [OF b n, of "enqueued n p I"])
  have fresh: "sequence_number p \<notin> outstanding I" using p by (simp add: new_packet_def)
  show "same_nbr m I (enqueued n p I)" if "m \<noteq> n" for m using that by (simp add: same_nbr_def enqueued_queue)
  show "seq_window (outstanding (enqueued n p I))" using p n by (simp add: enqueued_outstanding new_packet_def)
  have q: "queue_ok n I" using b n by (simp add: base_ok_def)
  have "\<forall>g \<in> set (queue n I). sequence_number g \<noteq> sequence_number p" using fresh_queue [OF p n] by blast
  moreover from this have "sequence_number p \<notin> sequence_number ` set (queue n I)" by (metis imageE)
  moreover have "head_ok h n (enqueued n p I) = head_ok h n I" for h by (simp add: head_ok_def precedes_def eligible_def)
  moreover have "head_ok p n I" using p by (simp add: head_ok_def new_packet_def clean_def)
  ultimately show "queue_ok n (enqueued n p I)" using q p i
    by (cases "queue n I") (auto simp: queue_ok_def enqueued_queue new_packet_def)
  show "sequence_number ` set (queue n (enqueued n p I)) \<inter> sequence_number ` set (multicast_pending I) = {}"
    using pending_disjoint [OF b n] fresh pending_outstanding [of _ I] by (auto simp: enqueued_set)
  show "sent_msec h \<noteq> 0" if h: "h \<in> set (queue n (enqueued n p I))" and c: "c \<in> set (obuf I)" "retransmission c" "pk_nbr c = Some n"
    "sequence_number c = sequence_number h" "sequence_number c \<noteq> 0" for h c
  proof (cases "h = p")
    case True
    then show ?thesis using c obuf_outstanding [of c I] fresh by auto
  next
    case False
    then have "h \<in> set (queue n I)" using h by (simp add: enqueued_set)
    then show ?thesis using b c n by (auto simp: base_ok_def obuf_ok_def)
  qed
qed auto


lemma enqueued_progress:
  assumes "progress m I" "m \<noteq> n \<or> queue n I \<noteq> []"
  shows "progress m (enqueued n p I)"
  using assms behind_loop_cong [of "nbr (enqueued n p I) m" "nbr I m"]
  by (cases "queue m I") (auto simp: progress_def enqueued_queue on_its_way_def eigrp_packet_unicast_behind_multicast_def)

definition own_init_set :: "nbr_id \<Rightarrow> u32 \<Rightarrow> rtp_intf \<Rightarrow> rtp_intf" where
  "own_init_set n s = nbr_change n (\<lambda>nb. nb\<lparr>own_init_sequence := s\<rparr>)"

lemma own_init_simps [simp]:
  "nbr_list (own_init_set n s I) = nbr_list I" "obuf (own_init_set n s I) = obuf I"
  "multicast_pending (own_init_set n s I) = multicast_pending I" "intf_epoch (own_init_set n s I) = intf_epoch I"
  "queue m (own_init_set n s I) = queue m I" "rtp_head m (own_init_set n s I) = rtp_head m I"
  "eigrp_packet_multicast_peer_eligible (nbr (own_init_set n s I) m) e = eigrp_packet_multicast_peer_eligible (nbr I m) e"
  by (auto simp: own_init_set_def queue_def rtp_head_def eigrp_packet_multicast_peer_eligible_def)

lemma own_init_outstanding [simp]: "outstanding (own_init_set n s I) = outstanding I"
  by (simp add: outstanding_def)

lemma own_init_base:
  assumes b: "base_ok I" and n: "n \<in> set (nbr_list I)"
    and s: "\<And>p. p \<in> set (queue n I) \<Longrightarrow> sequence_number p \<noteq> s"
  shows "base_ok (own_init_set n s I)"
proof (rule change_queue [OF b n])
  show "same_nbr m I (own_init_set n s I)" if "m \<noteq> n" for m using that by (simp add: same_nbr_def) (simp add: own_init_set_def)
  have "head_ok h n (own_init_set n s I) = head_ok h n I" for h by (simp add: head_ok_def precedes_def eligible_def)
  moreover have "own_init_sequence (nbr (own_init_set n s I) n) = s" "adj_state (nbr (own_init_set n s I) n) = adj_state (nbr I n)"
    by (simp_all add: own_init_set_def)
  ultimately show "queue_ok n (own_init_set n s I)" using b n s by (auto simp: base_ok_def queue_ok_def split: list.splits)
  show "seq_window (outstanding (own_init_set n s I))" using b by (simp add: base_ok_def)
  show "sequence_number ` set (queue n (own_init_set n s I)) \<inter> sequence_number ` set (multicast_pending I) = {}"
    using pending_disjoint [OF b n] by simp
  show "sent_msec h \<noteq> 0" if "h \<in> set (queue n (own_init_set n s I))" "c \<in> set (obuf I)" "retransmission c" "pk_nbr c = Some n"
    "sequence_number c = sequence_number h" "sequence_number c \<noteq> 0" for h c
    using that b n by (auto simp: base_ok_def obuf_ok_def)
qed auto

lemma own_init_progress: "progress m I \<Longrightarrow> progress m (own_init_set n s I)"
  using behind_loop_cong [of "nbr (own_init_set n s I) m" "nbr I m"]
  by (auto simp: progress_def on_its_way_def eigrp_packet_unicast_behind_multicast_def split: list.splits)

lemma own_init_flags: "flags_ok I \<Longrightarrow> flags_ok (own_init_set n s I)"
  by (auto simp: flags_ok_def own_init_set_def admit_enabled_def eligible_def receiver_prior_def
      eigrp_packet_multicast_peer_eligible_def eigrp_packet_reliable_prior_count_def)

lemma enqueued_ok:
  assumes b: "base_ok (enqueued n p I)" and f: "flags_ok I" and g: "\<And>m. m \<in> set (nbr_list I) \<Longrightarrow> progress m I"
    and n: "n \<in> set (nbr_list I)" and p: "new_packet I p"
  shows "rtp_ok (if queue n I = [] then eigrp_packet_send_reliably True n (enqueued n p I) else enqueued n p I)"
proof -
  have f: "flags_ok (enqueued n p I)" using f by (rule enqueued_flags)
  have r: "m \<noteq> n \<or> queue n I \<noteq> [] \<Longrightarrow> m \<in> set (nbr_list I) \<Longrightarrow> progress m (enqueued n p I)" for m
    using g enqueued_progress by blast
  show ?thesis
  proof (cases "queue n I = []")
    case True
    then have "work_ok (eigrp_packet_send_reliably True n (enqueued n p I))"
      using p n r by (intro send_reliably_ok [OF b]) (auto simp: enqueued_queue new_packet_def clean_def)
    then show ?thesis using True send_reliably_flags [OF f] by (simp add: rtp_ok_work)
  qed (use b f r in \<open>simp add: rtp_ok_def\<close>)
qed

lemma nbr_packet_queue:
  "eigrp_update_neighbor_packet_queue True n p I =
     (if queue n I = [] then eigrp_packet_send_reliably True n (enqueued n p I) else enqueued n p I)"
  unfolding eigrp_update_neighbor_packet_queue_def queue_def enqueued_def Let_def by simp

lemma unicast_ok:
  assumes ok: "rtp_ok I" and n: "n \<in> set (nbr_list I)" and u: "adj_state (nbr I n) = EIGRP_NEIGHBOR_UP \<or> queue n I = []" and p: "new_packet I p"
  shows "rtp_ok (eigrp_update_neighbor_packet_queue True n p I)"
proof -
  have b: "base_ok I" using ok by (simp add: rtp_ok_def)
  have "base_ok (enqueued n p I)" using enqueued_base [OF b n p] u by blast
  then have "rtp_ok (if queue n I = [] then eigrp_packet_send_reliably True n (enqueued n p I) else enqueued n p I)"
    using ok n p by (intro enqueued_ok) (simp_all add: rtp_ok_def)
  then show ?thesis by (simp add: nbr_packet_queue)
qed

lemma init_ok:
  assumes ok: "rtp_ok I" and n: "n \<in> set (nbr_list I)" and p: "new_packet I p"
  shows "rtp_ok (rtp_send_init True n p I)"
proof -
  let ?I = "own_init_set n (sequence_number p) I"
  have b: "base_ok ?I" using ok n fresh_queue [OF p n] by (intro own_init_base) (auto simp: rtp_ok_def)
  moreover have p': "new_packet ?I p" using p by (simp add: new_packet_def)
  moreover have "own_init_sequence (nbr ?I n) = sequence_number p" by (simp add: own_init_set_def)
  ultimately have "base_ok (enqueued n p ?I)" using enqueued_base [OF b _ p'] n by simp
  then have "rtp_ok (if queue n ?I = [] then eigrp_packet_send_reliably True n (enqueued n p ?I) else enqueued n p ?I)"
    using ok n p' own_init_progress own_init_flags by (intro enqueued_ok) (simp_all add: rtp_ok_def)
  then show ?thesis by (simp add: rtp_send_init_def nbr_packet_queue own_init_set_def [symmetric])
qed

subsection \<open>For all neighbours\<close>

definition deferred :: "rtp_packet \<Rightarrow> rtp_intf \<Rightarrow> rtp_intf" where
  "deferred p I = I\<lparr>multicast_pending := multicast_pending I @ [p\<lparr>pk_epoch := intf_epoch I\<rparr>]\<rparr>"

lemma deferred_simps [simp]:
  "nbr_list (deferred p I) = nbr_list I" "nbr (deferred p I) = nbr I" "obuf (deferred p I) = obuf I" "intf_epoch (deferred p I) = intf_epoch I"
  "queue n (deferred p I) = queue n I" "rtp_head n (deferred p I) = rtp_head n I" "eligible n m (deferred p I) = eligible n m I"
  "multicast_pending (deferred p I) = multicast_pending I @ [p\<lparr>pk_epoch := intf_epoch I\<rparr>]"
  by (simp_all add: deferred_def queue_def rtp_head_def eligible_def)

lemma deferred_outstanding: "outstanding (deferred p I) = insert (sequence_number p) (outstanding I)"
  by (auto simp: outstanding_Un)

lemma behind_append: "behind_loop nb s ms \<Longrightarrow> behind_loop nb s (ms @ [m])"
  by (induction ms) (auto split: if_splits)

lemma deferred_progress: "progress n I \<Longrightarrow> progress n (deferred p I)"
  by (auto simp: progress_def on_its_way_def eigrp_packet_unicast_behind_multicast_def behind_append split: list.splits)

lemma deferred_base:
  assumes b: "base_ok I" and p: "new_multicast I p"
  shows "base_ok (deferred p I)"
proof -
  let ?m = "p\<lparr>pk_epoch := intf_epoch I\<rparr>"
  have fresh: "sequence_number p \<notin> outstanding I" and newest: "\<And>s. s \<in> outstanding I \<Longrightarrow> eigrp_packet_sequence_before s (sequence_number p)"
    using p by (auto simp: new_multicast_def new_packet_def)
  have prec: "precedes c n (deferred p I)" if "precedes c n I" "sequence_number c \<in> outstanding I" for c n
    using that newest by (auto simp: precedes_def)
  have "sequence_number p \<notin> sequence_number ` set (queue n I)" if "n \<in> set (nbr_list I)" for n
    using fresh queue_outstanding [OF that] by auto
  then have "pending_ok (deferred p I)" using b p newest pending_outstanding [of _ I]
    by (auto simp: pending_ok_def base_ok_def sorted_wrt_append new_multicast_def new_packet_def)
  moreover have "copy_ok c (deferred p I)" if "c \<in> set (obuf I)" for c
    using that b prec obuf_outstanding [OF that] by (auto simp: copy_ok_def base_ok_def obuf_ok_copies)
  moreover have "queue_ok n (deferred p I)" if n: "n \<in> set (nbr_list I)" for n
  proof -
    have "head_ok h n (deferred p I)" if "queue n I = h # q" for h q
      using that b n prec [of h n] queue_outstanding [OF n, of h] by (auto simp: base_ok_def queue_ok_def head_ok_def)
    then show ?thesis using b n by (auto simp: base_ok_def queue_ok_def split: list.splits)
  qed
  moreover have "seq_window (outstanding (deferred p I))" using p by (simp add: deferred_outstanding new_multicast_def new_packet_def)
  ultimately show ?thesis using b by (simp add: base_ok_def obuf_ok_copies)
qed

lemma multicast_ok:
  assumes ok: "rtp_ok I" and p: "new_multicast I p"
  shows "rtp_ok (eigrp_packet_multicast_reliable_enqueue p I)"
proof -
  have "work_ok (deferred p I)" using ok deferred_base deferred_progress p by (simp add: rtp_ok_work work_ok_def)
  moreover have "sane (deferred p I)" using ok by (auto simp: rtp_ok_def flags_ok_def sane_def deferred_def)
  ultimately have "rtp_ok (eigrp_packet_multicast_resume (deferred p I))" by (rule resume_rtp_ok)
  then show ?thesis using p
    by (simp add: eigrp_packet_multicast_reliable_enqueue_def deferred_def eigrp_packet_enqueue_def new_multicast_def new_packet_def)
qed

lemma hello_ok:
  assumes ok: "rtp_ok I" and p: "sequence_number p = 0"
  shows "rtp_ok (eigrp_packet_output_enqueue p I)"
proof -
  have "copy_ok p I" using p by (simp add: copy_ok_def)
  then show ?thesis using ok p output_base output_progress output_flags by (simp add: rtp_ok_def)
qed

end
