(* ===== verification/Eigrp_Reliable_Nbr.thy ===== *)
theory Eigrp_Reliable_Nbr
  imports Eigrp_Reliable
begin

text \<open>
  The invariant of reliable delivery is kept when neighbours come and go, when an acknowledgement arrives, when a
  retransmission timer fires and when the interface goes down.
\<close>

section \<open>Neighbours come and go\<close>

text \<open>A neighbour with an empty queue, to which no pending multicast goes, puts no condition on the rest.\<close>

lemma forget_ok:
  assumes ok: "work_ok I" and l: "distinct (nbr_list J)" "set (nbr_list J) \<subseteq> insert n (set (nbr_list I))"
    and o: "set (obuf J) \<subseteq> set (obuf I)" "\<And>c. \<lbrakk>c \<in> set (obuf I); pk_nbr c \<noteq> Some n\<rbrakk> \<Longrightarrow> c \<in> set (obuf J)"
    and p: "multicast_pending J = multicast_pending I" "intf_epoch I \<le> intf_epoch J"
    and same: "\<And>m. m \<noteq> n \<Longrightarrow> same_nbr m I J"
    and q: "queue n J = []" "own_init_sequence (nbr J n) = 0" "\<And>m. m \<in> set (multicast_pending I) \<Longrightarrow> \<not> eligible n m J"
  shows "work_ok J"
proof -
  have b: "base_ok I" using ok by (simp add: work_ok_def)
  have qs: "set (queue m J) \<subseteq> set (queue m I)" "m \<in> set (nbr_list J) \<Longrightarrow> queue m J \<noteq> [] \<Longrightarrow> m \<in> set (nbr_list I)" for m
    using q(1) same_nbrD(1) [OF same, of m] l(2) by (cases "m = n"; auto)+
  have prec: "precedes c m J" if "m \<noteq> n \<Longrightarrow> precedes c m I" for c m
    using that q(3) p same_nbrD(2) [OF same, of m] by (cases "m = n") (auto simp: precedes_def)
  have "outstanding J \<subseteq> outstanding I"
  proof
    fix s assume "s \<in> outstanding J"
    then consider m x where "m \<in> set (nbr_list J)" "x \<in> set (queue m J)" "s = sequence_number x"
      | x where "x \<in> set (multicast_pending J)" "s = sequence_number x" | x where "x \<in> set (obuf J)" "s = sequence_number x" "s \<noteq> 0"
      by (auto simp: outstanding_def)
    then show "s \<in> outstanding I"
    proof cases
      case 1
      then show ?thesis using qs queue_outstanding by (metis empty_iff empty_set subsetD)
    qed (use p o pending_outstanding obuf_outstanding in auto)
  qed
  then have w: "seq_window (outstanding J)" using b window_mono by (auto simp: base_ok_def)
  have "x \<notin> sequence_number ` set (queue m J)" if "m \<in> set (nbr_list J)" "x \<in> sequence_number ` set (multicast_pending I)" for m x
    using that qs(2) [of m] image_mono [OF qs(1), of sequence_number m] pending_disjoint [OF b, of m]
    by (cases "queue m J = []") (simp, blast)
  then have "pending_ok J" using b p by (auto simp: pending_ok_def base_ok_def)
  moreover have "copy_ok c J" if "c \<in> set (obuf J)" for c
  proof -
    have c: "copy_ok c I" using that o b by (auto simp: base_ok_def obuf_ok_copies)
    have "precedes c m J" if "m \<in> set (nbr_list J)" "targets c m" "sequence_number c \<noteq> 0" for m
      using that c l(2) prec [of m c] by (auto simp: copy_ok_def)
    moreover have "h \<in> set (queue m I) \<and> m \<in> set (nbr_list I)" if "m \<in> set (nbr_list J)" "h \<in> set (queue m J)" for h m
      using that qs(1) [of m] qs(2) [of m] by (cases "queue m J") auto
    ultimately show ?thesis using c unfolding copy_ok_def by blast
  qed
  moreover have "queue_ok m J \<and> progress m J" if m: "m \<in> set (nbr_list J)" for m
  proof (cases "m = n")
    case True
    then show ?thesis using q by (simp add: queue_ok_def progress_def)
  next
    case False
    then have k: "queue_ok m I" "progress m I" using m l(2) ok by (auto simp: work_ok_def base_ok_def)
    have "on_its_way h m J" if "on_its_way h m I" for h using that o(2) False by (auto simp: on_its_way_def targets_def)
    then have "progress m J" using k(2) same_nbrD [OF same [OF False]] p
      by (auto simp: progress_def eigrp_packet_unicast_behind_multicast_def split: list.splits)
    then show ?thesis using same_queue_ok [OF same [OF False] p(1) k(1)] by simp
  qed
  ultimately show ?thesis using w l(1) by (simp add: work_ok_def base_ok_def obuf_ok_copies)
qed


lemma encoder_simps [simp]:
  "nbr_list (eigrp_intf_encoder_peer_add v I) = nbr_list I" "nbr (eigrp_intf_encoder_peer_add v I) = nbr I"
  "obuf (eigrp_intf_encoder_peer_add v I) = obuf I" "multicast_pending (eigrp_intf_encoder_peer_add v I) = multicast_pending I"
  "intf_epoch (eigrp_intf_encoder_peer_add v I) = intf_epoch I" "multicast_backoff (eigrp_intf_encoder_peer_add v I) = multicast_backoff I"
  "multicast_waiting (eigrp_intf_encoder_peer_add v I) = multicast_waiting I" "t_multicast_retry (eigrp_intf_encoder_peer_add v I) = t_multicast_retry I"
  "on_write_q (eigrp_intf_encoder_peer_add v I) = on_write_q I"
  "nbr_list (eigrp_intf_encoder_peer_remove v I) = nbr_list I" "nbr (eigrp_intf_encoder_peer_remove v I) = nbr I"
  "obuf (eigrp_intf_encoder_peer_remove v I) = obuf I" "multicast_pending (eigrp_intf_encoder_peer_remove v I) = multicast_pending I"
  "intf_epoch (eigrp_intf_encoder_peer_remove v I) = intf_epoch I" "multicast_backoff (eigrp_intf_encoder_peer_remove v I) = multicast_backoff I"
  "multicast_waiting (eigrp_intf_encoder_peer_remove v I) = multicast_waiting I" "t_multicast_retry (eigrp_intf_encoder_peer_remove v I) = t_multicast_retry I"
  "on_write_q (eigrp_intf_encoder_peer_remove v I) = on_write_q I"
  by (simp_all add: eigrp_intf_encoder_peer_add_def eigrp_intf_encoder_peer_remove_def eigrp_intf_encoder_select_def)

lemma state_enter_simps [simp]:
  "nbr_list (state_enter now n st I) = nbr_list I" "obuf (state_enter now n st I) = obuf I"
  "multicast_pending (state_enter now n st I) = multicast_pending I" "multicast_backoff (state_enter now n st I) = multicast_backoff I"
  "multicast_waiting (state_enter now n st I) = multicast_waiting I" "t_multicast_retry (state_enter now n st I) = t_multicast_retry I"
  "on_write_q (state_enter now n st I) = on_write_q I"
  "st \<noteq> EIGRP_NEIGHBOR_UP \<Longrightarrow> intf_epoch (state_enter now n st I) = intf_epoch I"
  "m \<noteq> n \<Longrightarrow> nbr (state_enter now n st I) m = nbr I m"
  "retrans_queue (nbr (state_enter now n st I) m) = retrans_queue (nbr I m)"
  "own_init_sequence (nbr (state_enter now n st I) m) = own_init_sequence (nbr I m)"
  "adj_state (nbr (state_enter now n st I) n) = st"
  by (auto simp: state_enter_def Let_def)

lemma nbr_reset_simps [simp]:
  "retrans_queue (nbr_reset nb) = []" "own_init_sequence (nbr_reset nb) = 0" "adj_state (nbr_reset nb) = adj_state nb"
  by (simp_all add: nbr_reset_def eigrp_nbr_rtt_clear_def)

lemma not_up_ineligible: "adj_state nb \<noteq> EIGRP_NEIGHBOR_UP \<Longrightarrow> \<not> eigrp_packet_multicast_peer_eligible nb e"
  by (simp add: eigrp_packet_multicast_peer_eligible_def)

definition reset :: "u64 \<Rightarrow> nbr_id \<Rightarrow> rtp_intf \<Rightarrow> rtp_intf" where
  "reset now n I = nbr_change n nbr_reset (state_enter now n EIGRP_NEIGHBOR_DOWN I)"

lemma state_down:
  "eigrp_nbr_state_update now n EIGRP_NEIGHBOR_DOWN I =
     nbr_change n (\<lambda>nb. nb\<lparr>crypt_seqnum := 0\<rparr>) (eigrp_packet_multicast_resume (reset now n I))"
  by (simp add: eigrp_nbr_state_update_def reset_def)

lemma crypt_same [simp]: "same_rtp I (nbr_change n (\<lambda>nb. nb\<lparr>crypt_seqnum := 0\<rparr>) I)"
  by (simp add: same_rtp_def same_nbr_def queue_def eigrp_packet_multicast_peer_eligible_def)

lemma crypt_flags: "flags_ok I \<Longrightarrow> flags_ok (nbr_change n (\<lambda>nb. nb\<lparr>crypt_seqnum := 0\<rparr>) I)"
  by (auto simp: flags_ok_def admit_enabled_def eligible_def receiver_prior_def
      eigrp_packet_multicast_peer_eligible_def eigrp_packet_reliable_prior_count_def)

text \<open>A neighbour is reset, with its copies in the output queue dropped or not, and perhaps taken off the list.\<close>

lemma nbr_reset_ok:
  assumes ok: "work_ok I" and s: "sane J" and l: "distinct (nbr_list J)" "set (nbr_list J) \<subseteq> set (nbr_list I)"
    and o: "set (obuf J) \<subseteq> set (obuf I)" "\<And>c. \<lbrakk>c \<in> set (obuf I); pk_nbr c \<noteq> Some n\<rbrakk> \<Longrightarrow> c \<in> set (obuf J)"
    and p: "multicast_pending J = multicast_pending I" "intf_epoch J = intf_epoch I" "\<And>m. m \<noteq> n \<Longrightarrow> nbr J m = nbr I m"
  shows "rtp_ok (eigrp_nbr_state_update now n EIGRP_NEIGHBOR_DOWN J)"
proof -
  have "\<not> eligible n m (reset now n J)" for m using not_up_ineligible by (simp add: eligible_def reset_def)
  then have "work_ok (reset now n J)"
    using l o p by (intro forget_ok [OF ok, of "reset now n J" n]) (auto simp: reset_def same_nbr_def queue_def)
  moreover have "sane (reset now n J)" using s by (simp add: sane_def reset_def)
  ultimately have "rtp_ok (eigrp_packet_multicast_resume (reset now n J))" by (rule resume_rtp_ok)
  then show ?thesis unfolding state_down rtp_ok_work using crypt_flags same_rtp_work [OF crypt_same] by blast
qed

lemma call_rtp_ok: "rtp_ok I \<Longrightarrow> rtp_ok (rtp_call c I)"
  using same_rtp_work [OF same_rtp_call] by (auto simp: rtp_ok_work flags_ok_def admit_enabled_def eligible_def receiver_prior_def)

lemma output_drop_simps [simp]:
  "nbr_list (eigrp_packet_neighbor_output_drop n s r I) = nbr_list I" "nbr (eigrp_packet_neighbor_output_drop n s r I) = nbr I"
  "multicast_pending (eigrp_packet_neighbor_output_drop n s r I) = multicast_pending I" "intf_epoch (eigrp_packet_neighbor_output_drop n s r I) = intf_epoch I"
  "set (obuf (eigrp_packet_neighbor_output_drop n s r I)) =
     {c \<in> set (obuf I). pk_nbr c \<noteq> Some n \<or> r \<and> (\<not> retransmission c \<or> sequence_number c \<noteq> s)}"
  by (auto simp: eigrp_packet_neighbor_output_drop_def Let_def)

lemma output_drop_sane: "sane I \<Longrightarrow> sane (eigrp_packet_neighbor_output_drop n s r I)"
  by (auto simp: sane_def eigrp_packet_neighbor_output_drop_def Let_def)

lemma down_ok:
  assumes "rtp_ok I"
  shows "rtp_ok (eigrp_nbr_state_update now n EIGRP_NEIGHBOR_DOWN I)"
  using assms flags_sane by (intro nbr_reset_ok [of I]) (auto simp: rtp_ok_work work_ok_def base_ok_def)

lemma teardown_ok:
  assumes "rtp_ok I"
  shows "rtp_ok (eigrp_nbr_down now n I)"
  unfolding eigrp_nbr_down_def eigrp_packet_neighbor_output_clear_def
  using assms flags_sane output_drop_sane
  by (intro call_rtp_ok nbr_reset_ok [of I]) (auto simp: rtp_ok_work work_ok_def base_ok_def)

lemma delete_ok:
  assumes "rtp_ok I"
  shows "rtp_ok (eigrp_nbr_delete now n I)"
proof -
  have "sane (I\<lparr>nbr_list := remove1 n (nbr_list I)\<rparr>)" using assms flags_sane by (auto simp: rtp_ok_def sane_def)
  then show ?thesis
    unfolding eigrp_nbr_delete_def eigrp_nbr_down_def eigrp_packet_neighbor_output_clear_def
    using assms output_drop_sane
    by (intro call_rtp_ok nbr_reset_ok [of I]) (auto simp: rtp_ok_work work_ok_def base_ok_def dest: notin_set_remove1 set_mp [OF set_remove1_subset])
qed

lemma flags_transfer:
  assumes f: "flags_ok I" and e: "multicast_backoff J = multicast_backoff I" "multicast_waiting J = multicast_waiting I"
      "t_multicast_retry J = t_multicast_retry I" "on_write_q J = on_write_q I" "multicast_pending J = multicast_pending I"
      "obuf J \<noteq> [] \<Longrightarrow> obuf I \<noteq> []"
    and k: "\<And>k m. \<lbrakk>k \<in> set (nbr_list I); eligible k m I; receiver_prior m I k \<noteq> 0\<rbrakk>
        \<Longrightarrow> k \<in> set (nbr_list J) \<and> eligible k m J \<and> receiver_prior m J k \<noteq> 0"
  shows "flags_ok J"
  unfolding flags_ok_def admit_enabled_def
proof (intro conjI impI)
  assume "multicast_backoff J \<or> multicast_waiting J"
  then obtain m ms n where "\<not> t_multicast_retry I" "multicast_pending I = m # ms" "n \<in> set (nbr_list I)" "eligible n m I" "receiver_prior m I n \<noteq> 0"
    using f e by (auto simp: flags_ok_def)
  then show "\<not> t_multicast_retry J"
    "\<exists>m ms. multicast_pending J = m # ms \<and> (\<exists>n \<in> set (nbr_list J). eligible n m J \<and> receiver_prior m J n \<noteq> 0)"
    using e k by (simp_all del: neq0_conv) blast
qed (use f e in \<open>auto simp: flags_ok_def admit_enabled_def\<close>)

lemma publish_ok:
  assumes ok: "rtp_ok I" and n: "n \<notin> set (nbr_list I)"
  shows "rtp_ok (nbr_publish n nb I)"
proof -
  have e: "\<not> eligible n m (nbr_publish n nb I)" for m using not_up_ineligible by (simp add: eligible_def nbr_publish_def)
  have s: "m \<noteq> n \<Longrightarrow> nbr (nbr_publish n nb I) m = nbr I m" for m by (simp add: nbr_publish_def)
  have "distinct (nbr_list I)" and w: "work_ok I" using ok by (simp_all add: rtp_ok_work) (simp add: work_ok_def base_ok_def)
  then have "work_ok (nbr_publish n nb I)"
  proof (intro forget_ok [OF w, of _ n])
    show "same_nbr m I (nbr_publish n nb I)" if "m \<noteq> n" for m using s [OF that] by (simp add: same_nbr_def queue_def)
  qed (use n e in \<open>simp_all add: nbr_publish_def queue_def subset_insertI\<close>)
  moreover have "flags_ok (nbr_publish n nb I)"
  proof (rule flags_transfer [of I])
    fix k m assume "k \<in> set (nbr_list I)" "eligible k m I" "receiver_prior m I k \<noteq> 0"
    then show "k \<in> set (nbr_list (nbr_publish n nb I)) \<and> eligible k m (nbr_publish n nb I) \<and> receiver_prior m (nbr_publish n nb I) k \<noteq> 0"
      using s n by (auto simp: eligible_def receiver_prior_def nbr_publish_def)
  qed (use ok in \<open>simp_all add: rtp_ok_def nbr_publish_def\<close>)
  ultimately show ?thesis by (simp add: rtp_ok_work)
qed

lemma same_flags:
  assumes s: "same_rtp I J" and f: "flags_ok I" and e: "multicast_backoff J = multicast_backoff I" "multicast_waiting J = multicast_waiting I"
    "t_multicast_retry J = t_multicast_retry I" "on_write_q J = on_write_q I"
  shows "flags_ok J"
proof -
  have "\<And>n. same_nbr n I J" using s by (simp add: same_rtp_def)
  then have "eligible n m J = eligible n m I" "receiver_prior m J n = receiver_prior m I n" for n m
    using same_nbrD [of n I J] by (auto simp: receiver_prior_def eigrp_packet_reliable_prior_count_def queue_def)
  then show ?thesis using f s e by (simp add: flags_ok_def admit_enabled_def same_rtp_def)
qed

lemma limit_ok: "rtp_ok I \<Longrightarrow> rtp_ok (nbr_change n (\<lambda>nb. nb\<lparr>adj_limited := b\<rparr>) I)"
proof -
  have "same_rtp I (nbr_change n (\<lambda>nb. nb\<lparr>adj_limited := b\<rparr>) I)"
    by (simp add: same_rtp_def same_nbr_def queue_def eigrp_packet_multicast_peer_eligible_def)
  then show "rtp_ok I \<Longrightarrow> rtp_ok (nbr_change n (\<lambda>nb. nb\<lparr>adj_limited := b\<rparr>) I)"
    unfolding rtp_ok_work using same_rtp_work same_flags by simp
qed

lemma pending_ok_step:
  assumes ok: "rtp_ok I" and d: "adj_state (nbr I n) = EIGRP_NEIGHBOR_DOWN"
  shows "rtp_ok (eigrp_nbr_state_update now n EIGRP_NEIGHBOR_PENDING I)"
proof -
  let ?J = "state_enter now n EIGRP_NEIGHBOR_PENDING I"
  have "same_nbr m I ?J" for m
    using d not_up_ineligible by (cases "m = n") (auto simp: same_nbr_def queue_def)
  then have "same_rtp I ?J" by (simp add: same_rtp_def)
  then have "rtp_ok ?J" using ok same_rtp_work same_flags by (simp add: rtp_ok_work)
  then show ?thesis using ok by (simp add: eigrp_nbr_state_update_def)
qed


section \<open>Acknowledgements\<close>

lemma srtt_simps [simp]:
  "retrans_queue (eigrp_nbr_srtt_update now p nb) = retrans_queue nb" "adj_state (eigrp_nbr_srtt_update now p nb) = adj_state nb"
  "multicast_epoch (eigrp_nbr_srtt_update now p nb) = multicast_epoch nb" "own_init_sequence (eigrp_nbr_srtt_update now p nb) = own_init_sequence nb"
  "adj_limited (eigrp_nbr_srtt_update now p nb) = adj_limited nb"
  by (simp_all add: eigrp_nbr_srtt_update_def eigrp_nbr_rtt_sample_def Let_def)

text \<open>The acknowledged head is gone, with its queued retransmission.\<close>

definition acked :: "u64 \<Rightarrow> nbr_id \<Rightarrow> u32 \<Rightarrow> rtp_packet \<Rightarrow> rtp_intf \<Rightarrow> rtp_intf" where
  "acked now n ack p I =
     (let I = nbr_change n (eigrp_nbr_srtt_update now p) I;
          I = (if retry_queued p then eigrp_packet_neighbor_retry_cancel n ack I else I)
      in nbr_change n (\<lambda>nb. nb\<lparr>retrans_queue := snd (eigrp_packet_dequeue (retrans_queue nb))\<rparr>) I)"

lemma acked_simps [simp]:
  "nbr_list (acked now n a p I) = nbr_list I" "multicast_pending (acked now n a p I) = multicast_pending I"
  "intf_epoch (acked now n a p I) = intf_epoch I" "m \<noteq> n \<Longrightarrow> nbr (acked now n a p I) m = nbr I m"
  "adj_state (nbr (acked now n a p I) n) = adj_state (nbr I n)" "own_init_sequence (nbr (acked now n a p I) n) = own_init_sequence (nbr I n)"
  "eigrp_packet_multicast_peer_eligible (nbr (acked now n a p I) n) e = eigrp_packet_multicast_peer_eligible (nbr I n) e"
  "queue n (acked now n a p I) = tl (queue n I)"
  by (auto simp: acked_def Let_def eigrp_packet_neighbor_retry_cancel_def queue_def eigrp_packet_dequeue_def eigrp_packet_multicast_peer_eligible_def)

lemma acked_obuf:
  "set (obuf (acked now n a p I)) \<subseteq> set (obuf I)" "\<lbrakk>c \<in> set (obuf I); pk_nbr c \<noteq> Some n\<rbrakk> \<Longrightarrow> c \<in> set (obuf (acked now n a p I))"
  by (auto simp: acked_def Let_def eigrp_packet_neighbor_retry_cancel_def)

lemma acked_same: "m \<noteq> n \<Longrightarrow> same_nbr m I (acked now n a p I)"
  by (simp add: same_nbr_def queue_def)

lemma acked_sane: "sane I \<Longrightarrow> sane (acked now n a p I)"
proof -
  have "sane (nbr_change n f J)" if "sane J" for f J using that by (simp add: sane_def)
  then show "sane I \<Longrightarrow> sane (acked now n a p I)"
    using output_drop_sane by (simp add: acked_def Let_def eigrp_packet_neighbor_retry_cancel_def)
qed

lemma retry_sent:
  "\<lbrakk>base_ok I; n \<in> set (nbr_list I); c \<in> set (obuf I); retransmission c; pk_nbr c = Some n; g \<in> set (queue n I);
    sequence_number c = sequence_number g; sequence_number c \<noteq> 0\<rbrakk> \<Longrightarrow> sent_msec g \<noteq> 0"
  unfolding base_ok_def obuf_ok_def by metis

text \<open>Dropping packets from the output queue keeps everything but the progress of their targets.\<close>

lemma drop_base:
  assumes b: "base_ok I" and same: "\<And>m. same_nbr m I J" and f: "nbr_list J = nbr_list I" "multicast_pending J = multicast_pending I" "intf_epoch J = intf_epoch I"
    and o: "set (obuf J) \<subseteq> set (obuf I)"
  shows "base_ok J"
proof -
  have "outstanding J \<subseteq> outstanding I" using o by (auto simp: outstanding_def f same_nbrD [OF same])
  then have "seq_window (outstanding J)" using b window_mono by (auto simp: base_ok_def)
  moreover have "pending_ok J = pending_ok I" "copy_ok c J = copy_ok c I" for c
    by (simp_all add: pending_ok_def copy_ok_def precedes_def f same_nbrD [OF same])
  moreover have "queue_ok m J" if "queue_ok m I" for m using that same_queue_ok [OF same f(2)] by simp
  ultimately show ?thesis using b o by (auto simp: base_ok_def f obuf_ok_copies)
qed

lemma acked_base:
  assumes b: "base_ok I" and n: "n \<in> set (nbr_list I)" and q: "queue n I = h # q"
  shows "base_ok (acked now n a p I)"
proof -
  let ?J = "acked now n a p I" and ?I = "I\<lparr>obuf := obuf (acked now n a p I)\<rparr>"
  have same: "\<And>m. same_nbr m I ?I" by (simp add: same_nbr_def queue_def)
  have b': "base_ok ?I" using acked_obuf(1) by (intro drop_base [OF b same]) simp_all
  have qi: "queue m ?I = queue m I" for m by (simp add: queue_def)
  have k: "queue_ok n I" using b n by (simp add: base_ok_def)
  show ?thesis
  proof (rule change_queue [OF b'])
    show "same_nbr m ?I ?J" if "m \<noteq> n" for m using acked_same [OF that] by (simp add: same_nbr_def queue_def)
    have sub: "set (queue m ?J) \<subseteq> set (queue m I)" for m
      using q acked_same [of m n] by (cases "m = n") (auto simp: same_nbr_def dest: list.set_sel)
    then have "outstanding ?J \<subseteq> outstanding I" using acked_obuf(1) [of now n a p I] unfolding outstanding_def by auto
    then show "seq_window (outstanding ?J)" using b window_mono by (auto simp: base_ok_def)
    have "head_ok g n ?J" if "clean g" for g using that by (simp add: head_ok_def clean_def)
    then show "queue_ok n ?J" using k q by (cases q) (auto simp: queue_ok_def)
    show "sequence_number ` set (queue n ?J) \<inter> sequence_number ` set (multicast_pending ?I) = {}"
      using pending_disjoint [OF b n] image_mono [OF sub, of sequence_number n] by simp blast
    show "sent_msec g \<noteq> 0" if "g \<in> set (queue n ?J)" "c \<in> set (obuf ?I)" "retransmission c" "pk_nbr c = Some n"
      "sequence_number c = sequence_number g" "sequence_number c \<noteq> 0" for g c
    proof -
      have "g \<in> set (queue n ?I)" unfolding qi using that(1) sub by (rule subsetD [rotated])
      then show ?thesis using that n by (intro retry_sent [OF b', of n c]) auto
    qed
  qed (use n in simp_all)
qed


lemma next_epoch_new:
  fixes e m :: u64
  assumes "e + 1 \<noteq> 0" "m \<le> e"
  shows "\<not> next_epoch e \<le> m" "e \<le> next_epoch e"
proof -
  have "unat e < 2 ^ 64" using unsigned_less [of e, where ?'a = nat] by simp
  moreover have "unat (e + 1) \<noteq> 0" using assms(1) by (simp add: word_unat_eq_iff)
  moreover have "unat (e + 1) = (unat e + 1) mod 2 ^ 64" by (simp add: unat_word_ariths)
  ultimately have "unat (e + 1) = unat e + 1" by (cases "unat e + 1 = 2 ^ 64") auto
  then show "\<not> next_epoch e \<le> m" "e \<le> next_epoch e" using assms by (auto simp: next_epoch_def word_le_nat_alt)
qed

text \<open>The adjacency comes up: no multicast that is already waiting is for it.\<close>

lemma up_ok:
  assumes ok: "work_ok I" and f: "flags_ok L" and e: "intf_epoch I + 1 \<noteq> 0"
    and L: "nbr_list L = nbr_list I" "multicast_pending L = multicast_pending I" "intf_epoch L = intf_epoch I"
      "set (obuf L) \<subseteq> set (obuf I)" "\<And>c. \<lbrakk>c \<in> set (obuf I); pk_nbr c \<noteq> Some n\<rbrakk> \<Longrightarrow> c \<in> set (obuf L)"
      "\<And>m. m \<noteq> n \<Longrightarrow> same_nbr m I L" "queue n L = []" "adj_state (nbr L n) \<noteq> EIGRP_NEIGHBOR_UP"
  shows "rtp_ok (nbr_change n (\<lambda>nb. nb\<lparr>own_init_sequence := 0, last_recv_sequence := s\<rparr>) (eigrp_nbr_state_update now n EIGRP_NEIGHBOR_UP L))"
    (is "rtp_ok ?J")
proof -
  have J: "nbr_list ?J = nbr_list I" "obuf ?J = obuf L" "multicast_pending ?J = multicast_pending I" "queue n ?J = []"
    "own_init_sequence (nbr ?J n) = 0" "\<And>m. m \<noteq> n \<Longrightarrow> nbr ?J m = nbr L m"
    "intf_epoch ?J = (if adj_limited (nbr L n) then intf_epoch I else next_epoch (intf_epoch I))"
    "\<not> adj_limited (nbr L n) \<Longrightarrow> multicast_epoch (nbr ?J n) = next_epoch (intf_epoch I)"
    "adj_limited (nbr L n) \<Longrightarrow> adj_state (nbr ?J n) \<noteq> EIGRP_NEIGHBOR_UP"
    "multicast_backoff ?J = multicast_backoff L" "multicast_waiting ?J = multicast_waiting L" "t_multicast_retry ?J = t_multicast_retry L"
    "on_write_q ?J = on_write_q L"
    using L by (auto simp: eigrp_nbr_state_update_def state_enter_def Let_def queue_def)
  have same: "same_nbr m L ?J" if "m \<noteq> n" for m using J(6) [OF that] by (simp add: same_nbr_def queue_def)
  have ep: "pk_epoch m \<le> intf_epoch I" if "m \<in> set (multicast_pending I)" for m
    using ok that by (simp add: work_ok_def base_ok_def pending_ok_def)
  have "work_ok ?J"
  proof (rule forget_ok [OF ok])
    show "same_nbr m I ?J" if "m \<noteq> n" for m using L(6) [OF that] same [OF that] by (auto simp: same_nbr_def)
    show "\<not> eligible n m ?J" if "m \<in> set (multicast_pending I)" for m
      using next_epoch_new [OF e ep [OF that]] J(8,9) by (cases "adj_limited (nbr L n)") (auto simp: eligible_def eigrp_packet_multicast_peer_eligible_def)
    show "intf_epoch I \<le> intf_epoch ?J" using J(7) next_epoch_new [OF e order_refl] by simp
    show "distinct (nbr_list ?J)" using ok J(1) by (simp add: work_ok_def base_ok_def)
  qed (use J L in auto)
  moreover have "flags_ok ?J"
  proof (rule flags_transfer [OF f])
    fix k m assume k: "k \<in> set (nbr_list L)" "eligible k m L" "receiver_prior m L k \<noteq> 0"
    then have "k \<noteq> n" using L(7) by (auto simp: receiver_prior_def eigrp_packet_reliable_prior_count_def queue_def)
    then show "k \<in> set (nbr_list ?J) \<and> eligible k m ?J \<and> receiver_prior m ?J k \<noteq> 0"
      using k J(1) L(1) J(6) [OF \<open>k \<noteq> n\<close>] by (simp add: eligible_def receiver_prior_def)
  qed (use J L in auto)
  ultimately show ?thesis by (simp add: rtp_ok_work)
qed

lemma ack_unfold:
  assumes "queue n I = p # q"
  shows "eigrp_packet_ack now True n a s I =
     (if a \<noteq> sequence_number p then I
      else
        let L = eigrp_packet_multicast_resume (acked now n a p I)
        in if adj_state (nbr I n) = EIGRP_NEIGHBOR_PENDING \<and> a = own_init_sequence (nbr I n)
           then rtp_call (Update_send_EOT n) (nbr_change n (\<lambda>nb. nb\<lparr>own_init_sequence := 0, last_recv_sequence := s\<rparr>)
                  (eigrp_nbr_state_update now n EIGRP_NEIGHBOR_UP L))
           else rtp_call (Sync_continue n) (eigrp_packet_send_reliably True n L))"
proof -
  have "rtp_head n I = Some p" using assms by (simp add: rtp_head_queue)
  then show ?thesis using acked_simps(5,6) [of now n a p I]
    by (simp add: eigrp_packet_ack_def acked_def Let_def del: acked_simps)
qed

lemma head_is_last: "\<lbrakk>distinct (map f (h # q)); h = last (h # q)\<rbrakk> \<Longrightarrow> q = []"
  by (metis distinct.simps(2) distinct_map last_ConsR last_in_set)

lemma ack_ok:
  assumes ok: "rtp_ok I" and n: "n \<in> set (nbr_list I)" and e: "intf_epoch I + 1 \<noteq> 0"
  shows "rtp_ok (eigrp_packet_ack now True n a s I)"
proof (cases "queue n I")
  case Nil
  then show ?thesis using ok by (simp add: eigrp_packet_ack_def rtp_head_queue)
next
  case (Cons p q)
  let ?K = "acked now n a p I" and ?L = "eigrp_packet_multicast_resume (acked now n a p I)"
  have w: "work_ok I" and b: "base_ok I" using ok by (simp_all add: rtp_ok_def work_ok_def)
  have k: "queue_ok n I" using b n by (simp add: base_ok_def)
  have f: "flags_ok ?L" using resume_flags acked_sane flags_sane ok by (simp add: rtp_ok_def)
  have qL: "queue m ?L = queue m ?K" for m by (simp add: queue_def)
  have same: "same_nbr m I ?L" if "m \<noteq> n" for m using acked_same [OF that, of I now a p] by (simp add: same_nbr_def queue_def)
  have sent: "work_ok (eigrp_packet_send_reliably True n ?L)"
  proof (rule send_reliably_ok)
    show "base_ok ?L" using acked_base [OF b n Cons] same_rtp_base [OF same_rtp_resume] by blast
    show "sent_msec h = 0" if "queue n ?L = h # q'" for h q' using that k Cons qL by (auto simp: queue_ok_def clean_def)
    show "progress m ?L" if m: "m \<in> set (nbr_list ?L)" "m \<noteq> n" for m
    proof -
      have "on_its_way h m ?L" if "on_its_way h m I" for h using that m acked_obuf(2) [where n = n] by (auto simp: on_its_way_def targets_def)
      then show ?thesis using w m same_nbrD [OF same [OF m(2)]]
        by (auto simp: work_ok_def progress_def eigrp_packet_unicast_behind_multicast_def split: list.splits)
    qed
  qed (use n in simp)
  define Y where "Y = eigrp_packet_send_reliably True n ?L"
  define X where "X = nbr_change n (\<lambda>nb. nb\<lparr>own_init_sequence := 0, last_recv_sequence := s\<rparr>) (eigrp_nbr_state_update now n EIGRP_NEIGHBOR_UP ?L)"
  have "rtp_ok Y" unfolding Y_def using sent send_reliably_flags f by (simp add: rtp_ok_work)
  moreover have "rtp_ok X"
    if c: "a = sequence_number p" "adj_state (nbr I n) = EIGRP_NEIGHBOR_PENDING" "a = own_init_sequence (nbr I n)"
    unfolding X_def
  proof (rule up_ok [OF w f e])
    have "q = []" using k Cons c by (intro head_is_last [of sequence_number p]) (auto simp: queue_ok_def)
    then show "queue n ?L = []" using qL Cons by simp
    show "same_nbr m I ?L" if "m \<noteq> n" for m by (rule same [OF that])
  qed (use acked_obuf c in auto)
  ultimately show ?thesis unfolding ack_unfold [OF Cons] Let_def X_def [symmetric] Y_def [symmetric]
    using ok call_rtp_ok by (cases "a = sequence_number p") auto
qed


section \<open>Timers\<close>

text \<open>Changing the head of a neighbour's queue, as a change of one neighbour.\<close>

definition rehead :: "nbr_id \<Rightarrow> rtp_packet \<Rightarrow> rtp_intf \<Rightarrow> rtp_intf \<Rightarrow> bool" where
  "rehead n h' I J \<longleftrightarrow> nbr_list J = nbr_list I \<and> obuf J = obuf I \<and> multicast_pending J = multicast_pending I \<and> intf_epoch J = intf_epoch I
     \<and> (\<forall>m. m \<noteq> n \<longrightarrow> same_nbr m I J)
     \<and> (\<forall>e. eigrp_packet_multicast_peer_eligible (nbr J n) e = eigrp_packet_multicast_peer_eligible (nbr I n) e)
     \<and> own_init_sequence (nbr J n) = own_init_sequence (nbr I n) \<and> adj_state (nbr J n) = adj_state (nbr I n)
     \<and> queue n J = h' # tl (queue n I)"

lemma head_okD: "\<lbrakk>base_ok I; n \<in> set (nbr_list I); queue n I = h # q\<rbrakk> \<Longrightarrow> head_ok h n I"
  unfolding base_ok_def queue_ok_def by (metis list.simps(5))

lemma rehead_base:
  assumes b: "base_ok I" and n: "n \<in> set (nbr_list I)" and q: "queue n I = h # q" and r: "rehead n h' I J"
    and h: "sequence_number h' = sequence_number h" "pk_length h' = pk_length h" "pk_opcode h' = pk_opcode h" "head_ok h' n I"
      "sent_msec h \<noteq> 0 \<Longrightarrow> sent_msec h' \<noteq> 0"
  shows "base_ok J"
proof -
  note R = r [unfolded rehead_def]
  have qJ: "queue n J = h' # q" using R q by simp
  have k: "queue_ok n I" using b n by (simp add: base_ok_def)
  have seqs: "sequence_number ` set (queue m J) = sequence_number ` set (queue m I)" for m
    using R q h qJ same_nbrD(1) [of m I J] by (cases "m = n") auto
  show ?thesis
  proof (rule change_queue [OF b n])
    have "outstanding J = outstanding I" by (simp add: outstanding_Un seqs R)
    then show "seq_window (outstanding J)" using b by (simp add: base_ok_def)
    have "head_ok h' n J" using h R by (simp add: head_ok_def precedes_def eligible_def)
    moreover have "q = []" if "adj_state (nbr I n) \<noteq> EIGRP_NEIGHBOR_UP" "sequence_number h = own_init_sequence (nbr I n)"
      using that k q by (intro head_is_last [of sequence_number h]) (auto simp: queue_ok_def)
    ultimately show "queue_ok n J" using k q qJ h R by (auto simp: queue_ok_def)
    show "sequence_number ` set (queue n J) \<inter> sequence_number ` set (multicast_pending I) = {}"
      unfolding seqs by (rule pending_disjoint [OF b n])
    show "sent_msec g \<noteq> 0" if g: "g \<in> set (queue n J)" "c \<in> set (obuf I)" "retransmission c" "pk_nbr c = Some n"
      "sequence_number c = sequence_number g" "sequence_number c \<noteq> 0" for g c
    proof (cases "g = h'")
      case True
      then show ?thesis using g h q retry_sent [OF b n g(2-4), of h] by auto
    next
      case False
      then show ?thesis using g q qJ retry_sent [OF b n g(2-4), of g] by auto
    qed
  qed (use R in auto)
qed

lemma rehead_progress: "\<lbrakk>rehead n h' I J; m \<noteq> n; progress m I\<rbrakk> \<Longrightarrow> progress m J"
  using same_progress [of m I J] by (simp add: rehead_def)

lemma head_update_rehead:
  assumes "queue n I = h # q"
  shows "rehead n (f h) I (head_update n f I)"
  using assms by (auto simp: rehead_def head_update_def same_nbr_def queue_def eigrp_packet_multicast_peer_eligible_def)

lemma rehead_flags:
  assumes f: "flags_ok I" and r: "rehead n h' I J" and q: "queue n I = h # q" and h: "sequence_number h' = sequence_number h"
    and e: "multicast_backoff J = multicast_backoff I" "multicast_waiting J = multicast_waiting I"
      "t_multicast_retry J = t_multicast_retry I" "on_write_q J = on_write_q I"
  shows "flags_ok J"
proof (rule flags_transfer [OF f])
  fix k m assume k: "k \<in> set (nbr_list I)" "eligible k m I" "receiver_prior m I k \<noteq> 0"
  have "receiver_prior m J k \<noteq> 0"
  proof (cases "k = n")
    case True
    have "queue n J = h' # q" using r q by (simp add: rehead_def)
    then show ?thesis using k True q h by (auto simp: receiver_prior_def eigrp_packet_reliable_prior_count_def queue_def split: if_splits)
  next
    case False
    then show ?thesis using k r by (simp add: rehead_def same_nbr_def receiver_prior_def eigrp_packet_reliable_prior_count_def queue_def)
  qed
  then show "k \<in> set (nbr_list J) \<and> eligible k m J \<and> receiver_prior m J k \<noteq> 0"
    using k r by (cases "k = n") (auto simp: rehead_def eligible_def same_nbr_def)
qed (use e r in \<open>simp_all add: rehead_def\<close>)


lemma backoff_simps [simp]:
  "retrans_queue (eigrp_nbr_rto_backoff nb) = retrans_queue nb" "adj_state (eigrp_nbr_rto_backoff nb) = adj_state nb"
  "multicast_epoch (eigrp_nbr_rto_backoff nb) = multicast_epoch nb" "own_init_sequence (eigrp_nbr_rto_backoff nb) = own_init_sequence nb"
  by (simp_all add: eigrp_nbr_rto_backoff_def Let_def)

lemma head_update_simps [simp]:
  "nbr_list (head_update n f I) = nbr_list I" "obuf (head_update n f I) = obuf I" "multicast_pending (head_update n f I) = multicast_pending I"
  "intf_epoch (head_update n f I) = intf_epoch I" "multicast_backoff (head_update n f I) = multicast_backoff I"
  "multicast_waiting (head_update n f I) = multicast_waiting I" "t_multicast_retry (head_update n f I) = t_multicast_retry I"
  "on_write_q (head_update n f I) = on_write_q I" "m \<noteq> n \<Longrightarrow> nbr (head_update n f I) m = nbr I m"
  by (simp_all add: head_update_def)

lemma expired_unfold:
  assumes q: "queue n I = h # q" and s: "sent_msec h \<noteq> 0" "\<not> retry_queued h" and c: "retrans_counter h < EIGRP_TRANSPORT_RETRANS_MAX"
  obtains J c where "retrans_timer_expired now True n I = eigrp_packet_output_enqueue c J"
    "rehead n (h\<lparr>t_retrans_timer := None, retry_queued := True\<rparr>) I J"
    "multicast_backoff J = multicast_backoff I" "multicast_waiting J = multicast_waiting I" "t_multicast_retry J = t_multicast_retry I"
    "on_write_q J = on_write_q I" "sequence_number c = sequence_number h" "pk_length c = pk_length h" "pk_nbr c = Some n" "retransmission c"
proof -
  let ?I = "head_update n (\<lambda>h. h\<lparr>t_retrans_timer := None\<rparr>) I" and ?p = "h\<lparr>t_retrans_timer := None\<rparr>"
  let ?J = "head_update n (\<lambda>h. h\<lparr>retry_queued := True\<rparr>) (nbr_change n eigrp_nbr_rto_backoff ?I)"
  let ?c = "unicast_copy ?p ((the (eigrp_packet_dup True ?p n))\<lparr>retransmission := True\<rparr>)"
  have "rtp_head n ?I = Some ?p" using q by (simp add: rtp_head_queue queue_def head_update_def)
  then have "retrans_timer_expired now True n I = eigrp_packet_output_enqueue ?c ?J"
    using s c by (simp add: retrans_timer_expired_def eigrp_packet_unack_retrans_def eigrp_packet_dup_def linorder_not_le [symmetric])
  moreover have "rehead n (h\<lparr>t_retrans_timer := None, retry_queued := True\<rparr>) I ?J"
    using q by (auto simp: rehead_def same_nbr_def queue_def head_update_def eigrp_packet_multicast_peer_eligible_def)
  ultimately show thesis by (rule that) (simp_all add: eigrp_packet_dup_def)
qed

lemma expired_ok:
  assumes ok: "rtp_ok I" and n: "n \<in> set (nbr_list I)" and q: "queue n I = h # q" and t: "t_retrans_timer h \<noteq> None"
  shows "rtp_ok (retrans_timer_expired now True n I)"
proof -
  have b: "base_ok I" and w: "work_ok I" and f: "flags_ok I" using ok by (simp_all add: rtp_ok_def work_ok_def)
  have "head_ok h n I" using head_okD [OF b n q] .
  then have s: "sent_msec h \<noteq> 0" "\<not> retry_queued h" "precedes h n I" using t by (auto simp: head_ok_def)
  show ?thesis
  proof (cases "retrans_counter h < EIGRP_TRANSPORT_RETRANS_MAX")
    case True
    let ?h = "h\<lparr>t_retrans_timer := None, retry_queued := True\<rparr>"
    obtain J c where J: "retrans_timer_expired now True n I = eigrp_packet_output_enqueue c J"
      and r: "rehead n ?h I J"
      and e: "multicast_backoff J = multicast_backoff I" "multicast_waiting J = multicast_waiting I" "t_multicast_retry J = t_multicast_retry I"
        "on_write_q J = on_write_q I"
      and c: "sequence_number c = sequence_number ?h" "pk_length c = pk_length ?h" "pk_nbr c = Some n" "retransmission c"
      by (rule expired_unfold [OF q s(1,2) True, of now]) (erule that; simp)
    have h': "head_ok ?h n I" using s by (simp add: head_ok_def precedes_def)
    then have bJ: "base_ok J" using s by (intro rehead_base [OF b n q r]) simp_all
    have nJ: "n \<in> set (nbr_list J)" and qJ: "queue n J = ?h # q" using r n q by (simp_all add: rehead_def)
    moreover have "precedes ?h n J" using s(3) r by (simp add: precedes_def rehead_def eligible_def)
    ultimately have "base_ok (eigrp_packet_output_enqueue c J)" "progress n (eigrp_packet_output_enqueue c J)"
      using head_copy [OF bJ nJ qJ _ c(1-3)] c(4) s(1) by simp_all
    moreover have "progress m (eigrp_packet_output_enqueue c J)" if "m \<in> set (nbr_list I)" "m \<noteq> n" for m
      using that w r by (intro output_progress rehead_progress [OF r]) (auto simp: work_ok_def)
    moreover have "flags_ok J" using rehead_flags [OF f r q _ e] by simp
    ultimately show ?thesis unfolding J rtp_ok_def using output_flags r by (auto simp: rehead_def)
  next
    case False
    let ?I = "head_update n (\<lambda>h. h\<lparr>t_retrans_timer := None\<rparr>) I"
    have "rtp_head n ?I = Some (h\<lparr>t_retrans_timer := None\<rparr>)" using q by (simp add: rtp_head_queue queue_def head_update_def)
    then have "retrans_timer_expired now True n I = eigrp_packet_retransmit_limit_exceeded now n ?I"
      using False s by (simp add: retrans_timer_expired_def eigrp_packet_unack_retrans_def)
    moreover have "rtp_ok (eigrp_nbr_state_update now n EIGRP_NEIGHBOR_DOWN ?I)"
      using b flags_sane [OF f] by (intro nbr_reset_ok [OF w]) (auto simp: sane_def base_ok_def)
    ultimately show ?thesis using delete_ok by (simp add: eigrp_packet_retransmit_limit_exceeded_def)
  qed
qed

lemma retry_ok:
  assumes ok: "rtp_ok I" and t: "t_multicast_retry I"
  shows "rtp_ok (eigrp_packet_multicast_retry I)"
proof -
  have "same_rtp I (I\<lparr>t_multicast_retry := False\<rparr>)" by (simp add: same_rtp_def same_nbr_def queue_def)
  then have "work_ok (I\<lparr>t_multicast_retry := False\<rparr>)" using ok same_rtp_work by (simp add: rtp_ok_work)
  moreover have "sane (I\<lparr>t_multicast_retry := False\<rparr>)" using ok t by (auto simp: rtp_ok_def flags_ok_def sane_def)
  ultimately show ?thesis unfolding eigrp_packet_multicast_retry_def by (rule resume_rtp_ok)
qed

section \<open>The interface goes down\<close>

definition idle :: "rtp_intf \<Rightarrow> bool" where
  "idle I \<longleftrightarrow> obuf I = [] \<and> multicast_pending I = [] \<and> \<not> multicast_backoff I \<and> \<not> multicast_waiting I"

lemma idle_ok: "\<lbrakk>idle I; nbr_list I = []\<rbrakk> \<Longrightarrow> rtp_ok I"
  by (simp add: idle_def rtp_ok_def base_ok_def pending_ok_def obuf_ok_def flags_ok_def admit_enabled_def outstanding_def seq_window_def)

lemma idle_down:
  assumes "idle I"
  shows "idle (eigrp_nbr_state_update now n EIGRP_NEIGHBOR_DOWN I)" "nbr_list (eigrp_nbr_state_update now n EIGRP_NEIGHBOR_DOWN I) = nbr_list I"
proof -
  have "multicast_pending (reset now n I) = []" using assms by (simp add: idle_def reset_def)
  then have "eigrp_packet_multicast_resume (reset now n I) = reset now n I" by (simp add: eigrp_packet_multicast_resume_def)
  then show "idle (eigrp_nbr_state_update now n EIGRP_NEIGHBOR_DOWN I)" "nbr_list (eigrp_nbr_state_update now n EIGRP_NEIGHBOR_DOWN I) = nbr_list I"
    using assms by (simp_all add: state_down idle_def reset_def)
qed

lemma idle_delete:
  assumes "idle I"
  shows "idle (eigrp_nbr_delete now n I)" "nbr_list (eigrp_nbr_delete now n I) = remove1 n (nbr_list I)"
proof -
  let ?J = "eigrp_packet_neighbor_output_clear n (I\<lparr>nbr_list := remove1 n (nbr_list I)\<rparr>)"
  have "idle ?J" "nbr_list ?J = remove1 n (nbr_list I)"
    using assms by (simp_all add: idle_def eigrp_packet_neighbor_output_clear_def eigrp_packet_neighbor_output_drop_def)
  then show "idle (eigrp_nbr_delete now n I)" "nbr_list (eigrp_nbr_delete now n I) = remove1 n (nbr_list I)"
    using idle_down [of ?J] by (simp_all add: eigrp_nbr_delete_def eigrp_nbr_down_def) (simp add: idle_def)
qed

lemma intf_down_ok: "rtp_ok (eigrp_intf_down now I)"
proof -
  let ?f = "\<lambda>n I. eigrp_nbr_delete now n (eigrp_nbr_state_update now n EIGRP_NEIGHBOR_DOWN I)"
  have loop: "idle J \<Longrightarrow> nbr_list J = ns \<Longrightarrow> idle (fold ?f ns J) \<and> nbr_list (fold ?f ns J) = []" for ns J
  proof (induction ns arbitrary: J)
    case (Cons n ns)
    have "idle (?f n J)" "nbr_list (?f n J) = ns" using idle_delete [OF idle_down(1) [OF Cons.prems(1)]] idle_down(2) [OF Cons.prems(1)] Cons.prems(2) by simp_all
    then show ?case using Cons.IH by simp
  qed simp
  have "idle (intf_flush I)" "nbr_list (intf_flush I) = nbr_list I" by (simp_all add: idle_def intf_flush_def eigrp_packet_interface_output_clear_def)
  then have "idle (eigrp_intf_down now I) \<and> nbr_list (eigrp_intf_down now I) = []"
    using loop by (simp add: eigrp_intf_down_def eigrp_intf_encoder_clear_def idle_def)
  then show ?thesis using idle_ok by blast
qed

end
