(* ===== verification/Eigrp_Reliable_Wire.thy ===== *)
theory Eigrp_Reliable_Wire
  imports Eigrp_Reliable_Nbr
begin

text \<open>
  The invariant of reliable delivery is kept when a packet reaches the wire and when a multicast is admitted, hence in
  every reachable state: the transport never stalls.  After one failed send it can.
\<close>

section \<open>Packets reach the wire\<close>

text \<open>The packet that was sent is the head of a neighbour's queue, and not yet accounted for.\<close>

definition hit :: "rtp_packet \<Rightarrow> rtp_packet \<Rightarrow> nbr_id \<Rightarrow> bool" where
  "hit c h n \<longleftrightarrow> sequence_number c \<noteq> 0 \<and> sequence_number h = sequence_number c \<and> targets c n \<and> (retransmission c \<or> sent_msec h = 0)"

definition hits :: "rtp_packet \<Rightarrow> nbr_id \<Rightarrow> rtp_intf \<Rightarrow> bool" where
  "hits c n I \<longleftrightarrow> (case queue n I of [] \<Rightarrow> False | h # _ \<Rightarrow> hit c h n)"

definition launched :: "rtp_packet \<Rightarrow> rtp_packet \<Rightarrow> bool" where
  "launched h h' \<longleftrightarrow> sequence_number h' = sequence_number h \<and> pk_length h' = pk_length h \<and> pk_opcode h' = pk_opcode h
     \<and> sent_msec h' \<noteq> 0 \<and> t_retrans_timer h' \<noteq> None \<and> \<not> retry_queued h'"

definition marked :: "rtp_packet \<Rightarrow> nbr_id \<Rightarrow> rtp_intf \<Rightarrow> rtp_intf \<Rightarrow> bool" where
  "marked c n I J \<longleftrightarrow>
     (if hits c n I
      then launched (hd (queue n I)) (hd (queue n J)) \<and> queue n J \<noteq> [] \<and> tl (queue n J) = tl (queue n I)
        \<and> (\<forall>e. eigrp_packet_multicast_peer_eligible (nbr J n) e = eigrp_packet_multicast_peer_eligible (nbr I n) e)
        \<and> own_init_sequence (nbr J n) = own_init_sequence (nbr I n) \<and> adj_state (nbr J n) = adj_state (nbr I n)
      else same_nbr n I J)"

lemma markedD:
  assumes "marked c n I J"
  shows "map sequence_number (queue n J) = map sequence_number (queue n I)" "eligible n m J = eligible n m I"
    "behind_loop (nbr J n) s ms = behind_loop (nbr I n) s ms" "tl (queue n J) = tl (queue n I)"
  using assms behind_loop_cong [of "nbr J n" "nbr I n" s ms]
  by (auto simp: marked_def hits_def launched_def eligible_def same_nbr_def split: if_splits list.splits) (cases "queue n J"; auto)+

lemma marked_queue_ok:
  assumes b: "base_ok I" and n: "n \<in> set (nbr_list I)" and c: "c \<in> set (obuf I)" and m: "marked c n I J"
    and p: "multicast_pending J = multicast_pending I"
  shows "queue_ok n J"
proof (cases "hits c n I")
  case False
  then show ?thesis using same_queue_ok [OF _ p] m b n by (simp add: marked_def base_ok_def)
next
  case True
  then obtain h q where q: "queue n I = h # q" and hit: "hit c h n" by (auto simp: hits_def split: list.splits)
  obtain h' where q': "queue n J = h' # q" and l: "launched h h'" using m True q by (cases "queue n J") (auto simp: marked_def)
  have "precedes c n I" using b c n hit by (auto simp: base_ok_def obuf_ok_def hit_def)
  then have "precedes h' n J" using hit l by (simp add: precedes_def p markedD(2) [OF m] launched_def hit_def)
  then have ho: "head_ok h' n J" using l by (simp add: head_ok_def launched_def)
  have k: "queue_ok n I" using b n by (simp add: base_ok_def)
  have "q = []" if "adj_state (nbr I n) \<noteq> EIGRP_NEIGHBOR_UP" "sequence_number h = own_init_sequence (nbr I n)"
    using that k q by (intro head_is_last [of sequence_number h]) (auto simp: queue_ok_def)
  then show ?thesis using k q q' l ho m True by (auto simp: queue_ok_def launched_def marked_def)
qed

lemma marked_sent:
  assumes m: "marked c n I J" and h: "h \<in> set (queue n J)" and s: "\<And>g. \<lbrakk>g \<in> set (queue n I); sequence_number g = x\<rbrakk> \<Longrightarrow> sent_msec g \<noteq> 0"
    and x: "sequence_number h = x"
  shows "sent_msec h \<noteq> 0"
proof (cases "hits c n I \<and> h = hd (queue n J)")
  case True
  then show ?thesis using m by (simp add: marked_def launched_def)
next
  case False
  then have "h \<in> set (queue n I)" using m h
    by (cases "queue n J"; cases "queue n I") (auto simp: marked_def same_nbr_def hits_def split: if_splits)
  then show ?thesis using s x by blast
qed

lemma marked_progress:
  assumes m: "marked c n I J" and g: "progress n I" and o: "set (obuf I) \<subseteq> insert c (set (obuf J))" and p: "multicast_pending J = multicast_pending I"
    and k: "\<forall>x \<in> set (queue n I). sequence_number x \<noteq> 0"
  shows "progress n J"
proof (cases "hits c n I")
  case True
  then show ?thesis using m by (cases "queue n J") (auto simp: marked_def progress_def launched_def)
next
  case False
  then have s: "same_nbr n I J" using m by (simp add: marked_def)
  have "on_its_way h n J" if h: "on_its_way h n I" "queue n I = h # q" for h q
  proof -
    obtain d where d: "d \<in> set (obuf I)" "sequence_number d = sequence_number h" "targets d n" "retransmission d \<or> sent_msec h = 0"
      using h by (auto simp: on_its_way_def)
    then have "d \<noteq> c" using False h k by (auto simp: hits_def hit_def)
    then show ?thesis using d o by (auto simp: on_its_way_def)
  qed
  then show ?thesis using g same_nbrD [OF s] p
    by (auto simp: progress_def eigrp_packet_unicast_behind_multicast_def split: list.splits)
qed

lemma sent_work:
  assumes w: "work_ok I" and o: "obuf I = c # cs" "obuf J = cs"
    and f: "nbr_list J = nbr_list I" "multicast_pending J = multicast_pending I" "intf_epoch J = intf_epoch I"
    and m: "\<And>n. n \<in> set (nbr_list I) \<Longrightarrow> marked c n I J"
  shows "work_ok J"
proof -
  have b: "base_ok I" using w by (simp add: work_ok_def)
  have seqs: "sequence_number ` set (queue n J) = sequence_number ` set (queue n I)" if "n \<in> set (nbr_list I)" for n
    using markedD(1) [OF m [OF that]] by (metis set_map)
  have "outstanding J \<subseteq> outstanding I" unfolding outstanding_Un using seqs o f by auto
  then have "seq_window (outstanding J)" using b window_mono by (auto simp: base_ok_def)
  moreover have "pending_ok J" using b seqs by (simp add: base_ok_def pending_ok_def f)
  moreover have "copy_ok d J" if d: "d \<in> set cs" for d
  proof -
    have k: "copy_ok d I" using b d o by (simp add: base_ok_def obuf_ok_copies)
    moreover have "precedes d n J = precedes d n I" if "n \<in> set (nbr_list I)" for n
      by (simp add: precedes_def f markedD(2) [OF m [OF that]])
    moreover have "sent_msec h \<noteq> 0" if h: "n \<in> set (nbr_list I)" "h \<in> set (queue n J)" "retransmission d" "pk_nbr d = Some n"
      "sequence_number h = sequence_number d" "sequence_number d \<noteq> 0" for n h
      by (rule marked_sent [OF m [OF h(1)] h(2) _ h(5)]) (use k h in \<open>simp add: copy_ok_def\<close>)
    ultimately show ?thesis by (auto simp: copy_ok_def f)
  qed
  moreover have "queue_ok n J \<and> progress n J" if n: "n \<in> set (nbr_list I)" for n
  proof
    show "queue_ok n J" using o by (intro marked_queue_ok [OF b n _ m [OF n] f(2)]) simp
    show "progress n J" using w n o b f by (intro marked_progress [OF m [OF n]]) (auto simp: work_ok_def base_ok_def queue_ok_def)
  qed
  ultimately show ?thesis using b by (simp add: work_ok_def base_ok_def obuf_ok_copies f o)
qed


text \<open>Changing each neighbour of a list in turn.\<close>

lemma fold_nbr_change:
  "distinct ns \<Longrightarrow> fold (\<lambda>n. nbr_change n (f n)) ns I = I\<lparr>nbr := \<lambda>k. if k \<in> set ns then f k (nbr I k) else nbr I k\<rparr>"
proof (induction ns arbitrary: I)
  case (Cons n ns)
  then show ?case by (auto simp: nbr_change_def fun_eq_iff intro!: arg_cong [where f = "\<lambda>g. nbr_update (\<lambda>_. g) I"])
qed simp

definition send_mark :: "u32 \<Rightarrow> u64 \<Rightarrow> rtp_nbr \<Rightarrow> rtp_nbr" where
  "send_mark s now nb = (case retrans_queue nb of
      [] \<Rightarrow> nb
    | h # q \<Rightarrow> if s = 0 \<or> sequence_number h \<noteq> s \<or> sent_msec h \<noteq> 0 then nb
               else nb\<lparr>retrans_queue := h\<lparr>sent_msec := now, t_retrans_timer := Some (eigrp_nbr_rto nb)\<rparr> # q\<rparr>)"

lemma nbr_change_id [simp]: "nbr_change n (\<lambda>nb. nb) I = I"
  by (simp add: nbr_change_def)

lemma rto_queue [simp]: "eigrp_nbr_rto (nb\<lparr>retrans_queue := q\<rparr>) = eigrp_nbr_rto nb"
  by (simp add: eigrp_nbr_rto_def)

lemma neighbor_send_mark: "eigrp_packet_reliable_neighbor_send_update s now n I = nbr_change n (send_mark s now) I"
  by (cases "retrans_queue (nbr I n)")
     (auto simp: eigrp_packet_reliable_neighbor_send_update_def rtp_head_def send_mark_def eigrp_packet_retransmit_timer_start_def
        head_update_def nbr_change_def fun_upd_idem)

lemma first_send_mark:
  assumes d: "distinct (nbr_list I)" and c: "sequence_number c \<noteq> 0" "\<not> retransmission c"
  shows "eigrp_packet_reliable_first_send_update now c I =
     I\<lparr>nbr := \<lambda>k. if (case pk_nbr c of None \<Rightarrow> k \<in> set (nbr_list I) | Some n \<Rightarrow> k = n) then send_mark (sequence_number c) now (nbr I k) else nbr I k\<rparr>"
proof (cases "pk_nbr c")
  case None
  have "eigrp_packet_reliable_neighbor_send_update (sequence_number c) now = (\<lambda>n. nbr_change n (send_mark (sequence_number c) now))"
    by (auto simp: neighbor_send_mark fun_eq_iff)
  then show ?thesis using None c fold_nbr_change [OF d, of "\<lambda>_. send_mark (sequence_number c) now"]
    by (simp add: eigrp_packet_reliable_first_send_update_def)
next
  case (Some n)
  then show ?thesis using c
    by (auto simp: eigrp_packet_reliable_first_send_update_def neighbor_send_mark nbr_change_def fun_upd_def cong: if_cong)
qed


lemma eligible_queue [simp]:
  "eigrp_packet_multicast_peer_eligible (nb\<lparr>retrans_queue := q\<rparr>) e = eigrp_packet_multicast_peer_eligible nb e"
  "eigrp_packet_multicast_peer_eligible (nb\<lparr>nbr_retransmissions := x\<rparr>) e = eigrp_packet_multicast_peer_eligible nb e"
  by (simp_all add: eigrp_packet_multicast_peer_eligible_def)

lemma send_mark_simps [simp]:
  "adj_state (send_mark s now nb) = adj_state nb" "own_init_sequence (send_mark s now nb) = own_init_sequence nb"
  "eigrp_packet_multicast_peer_eligible (send_mark s now nb) e = eigrp_packet_multicast_peer_eligible nb e"
  by (simp_all add: send_mark_def split: list.split)

lemma first_send_marked:
  assumes b: "base_ok I" and n: "n \<in> set (nbr_list I)" and c: "sequence_number c \<noteq> 0" "\<not> retransmission c" and now: "now \<noteq> 0"
  shows "marked c n I (eigrp_packet_reliable_first_send_update now c I)" (is "marked c n I ?J")
proof -
  have d: "distinct (nbr_list I)" using b by (simp add: base_ok_def)
  have "(case pk_nbr c of None \<Rightarrow> n \<in> set (nbr_list I) | Some k \<Rightarrow> n = k) = targets c n" using n by (auto simp: targets_def split: option.splits)
  then have J: "nbr ?J n = (if targets c n then send_mark (sequence_number c) now (nbr I n) else nbr I n)"
    unfolding first_send_mark [OF d c] by simp
  show ?thesis
  proof (cases "hits c n I")
    case True
    then obtain h q where q: "queue n I = h # q" and h: "hit c h n" by (auto simp: hits_def split: list.splits)
    have "head_ok h n I" by (rule head_okD [OF b n q])
    then have "\<not> retry_queued h" using h c by (auto simp: head_ok_def hit_def)
    then show ?thesis using True J q h c now by (simp add: marked_def hit_def send_mark_def launched_def queue_def)
  next
    case False
    have "queue n ?J = queue n I"
      using False J c by (cases "queue n I") (auto simp: queue_def hits_def hit_def send_mark_def)
    then show ?thesis using False J by (simp add: marked_def same_nbr_def)
  qed
qed

lemma retry_send_marked:
  assumes b: "base_ok I" and n: "n \<in> set (nbr_list I)" and o: "c \<in> set (obuf I)" and c: "sequence_number c \<noteq> 0" "retransmission c"
  shows "marked c n I (eigrp_packet_reliable_send_update now c I)" (is "marked c n I ?J")
proof -
  obtain k where k: "pk_nbr c = Some k" using b o c by (auto simp: base_ok_def obuf_ok_def)
  show ?thesis
  proof (cases "hits c n I")
    case True
    then obtain h q where q: "queue n I = h # q" and h: "hit c h n" by (auto simp: hits_def split: list.splits)
    then have "k = n" using k by (auto simp: hit_def targets_def)
    moreover have "sent_msec h \<noteq> 0" using retry_sent [OF b n o c(2), of h] \<open>k = n\<close> k q h c by (simp add: hit_def)
    ultimately show ?thesis using True q h k c
      by (simp add: marked_def hit_def launched_def queue_def eigrp_packet_reliable_send_update_def owns_head_def rtp_head_def
          eigrp_packet_retransmit_timer_start_def head_update_def)
  next
    case False
    have "same_nbr n I ?J" using False k c
      by (cases "queue n I") (auto simp: hits_def hit_def targets_def queue_def same_nbr_def eigrp_packet_reliable_send_update_def owns_head_def rtp_head_def
          eigrp_packet_retransmit_timer_start_def head_update_def split: list.splits)
    then show ?thesis using False by (simp add: marked_def)
  qed
qed

lemma send_update_frame [simp]:
  assumes "distinct (nbr_list I)"
  shows "nbr_list (eigrp_packet_reliable_send_update now c I) = nbr_list I" "obuf (eigrp_packet_reliable_send_update now c I) = obuf I"
    "multicast_pending (eigrp_packet_reliable_send_update now c I) = multicast_pending I"
    "intf_epoch (eigrp_packet_reliable_send_update now c I) = intf_epoch I"
    "multicast_backoff (eigrp_packet_reliable_send_update now c I) = multicast_backoff I"
    "multicast_waiting (eigrp_packet_reliable_send_update now c I) = multicast_waiting I"
    "t_multicast_retry (eigrp_packet_reliable_send_update now c I) = t_multicast_retry I"
    "on_write_q (eigrp_packet_reliable_send_update now c I) = on_write_q I"
  using assms first_send_mark [OF assms, of c now]
  by (auto simp: eigrp_packet_reliable_send_update_def eigrp_packet_retransmit_timer_start_def split: option.splits)

lemma send_update_marked:
  assumes b: "base_ok I" and n: "n \<in> set (nbr_list I)" and o: "c \<in> set (obuf I)" and now: "now \<noteq> 0"
  shows "marked c n I (eigrp_packet_reliable_send_update now c I)"
proof (cases "sequence_number c = 0")
  case True
  then show ?thesis by (simp add: eigrp_packet_reliable_send_update_def marked_def hits_def hit_def split: list.splits)
next
  case False
  then show ?thesis using first_send_marked [OF b n False _ now] retry_send_marked [OF b n o False]
    by (cases "retransmission c") (simp_all add: eigrp_packet_reliable_send_update_def)
qed


lemma prior_map: "map sequence_number q' = map sequence_number q \<Longrightarrow> prior_count q' s = prior_count q s"
proof (induction q arbitrary: q')
  case (Cons p q)
  from Cons.prems obtain p' r where q': "q' = p' # r" "sequence_number p' = sequence_number p" "map sequence_number r = map sequence_number q"
    by (cases q') auto
  show ?case using q'(2) Cons.IH [OF q'(3)] by (simp add: q'(1))
qed simp

lemma marked_cong: "nbr J n = nbr K n \<Longrightarrow> marked c n I J \<longleftrightarrow> marked c n I K"
  unfolding marked_def same_nbr_def queue_def by simp

lemma sent_ok:
  assumes ok: "rtp_ok I" and o: "obuf I = c # cs" "obuf J = cs"
    and f: "nbr_list J = nbr_list I" "multicast_pending J = multicast_pending I" "intf_epoch J = intf_epoch I"
      "multicast_backoff J = multicast_backoff I" "multicast_waiting J = multicast_waiting I" "t_multicast_retry J = t_multicast_retry I"
    and m: "\<And>n. n \<in> set (nbr_list I) \<Longrightarrow> marked c n I J" and w: "on_write_q J \<or> obuf J = [] \<and> multicast_pending J = []"
  shows "rtp_ok J"
proof -
  have "work_ok J" using ok by (intro sent_work [OF _ o f(1-3) m]) (simp_all add: rtp_ok_work)
  moreover have "flags_ok (J\<lparr>on_write_q := on_write_q I\<rparr>)"
  proof (rule flags_transfer)
    show "flags_ok I" using ok by (simp add: rtp_ok_def)
    fix k x assume k: "k \<in> set (nbr_list I)" "eligible k x I" "receiver_prior x I k \<noteq> 0"
    let ?J = "J\<lparr>on_write_q := on_write_q I\<rparr>"
    have "eligible k x J" using k markedD(2) [OF m [OF k(1)]] by simp
    moreover have "receiver_prior x J k = receiver_prior x I k"
      using prior_map [OF markedD(1) [OF m [OF k(1)]]] by (simp add: receiver_prior_def eigrp_packet_reliable_prior_count_def queue_def)
    ultimately show "k \<in> set (nbr_list ?J) \<and> eligible k x ?J \<and> receiver_prior x ?J k \<noteq> 0"
      using k f by (simp add: eligible_def receiver_prior_def)
  qed (use f o in simp_all)
  then have "flags_ok J" using w by (auto simp: flags_ok_def admit_enabled_def eligible_def receiver_prior_def)
  ultimately show ?thesis by (simp add: rtp_ok_work)
qed

lemma write_ok:
  assumes ok: "rtp_ok I" and o: "obuf I \<noteq> []" and now: "now \<noteq> 0"
  shows "rtp_ok (write_packet now True I)"
proof -
  obtain c cs where c: "obuf I = c # cs" using o by (cases "obuf I") auto
  have b: "base_ok I" and w: "on_write_q I" using ok o by (auto simp: rtp_ok_def flags_ok_def)
  then have d: "distinct (nbr_list I)" by (simp add: base_ok_def)
  have finish: "rtp_ok (let K = eigrp_packet_delete K in if obuf K = [] \<and> multicast_pending K = [] then K\<lparr>on_write_q := False\<rparr> else K)"
    if K: "obuf K = c # cs" "nbr_list K = nbr_list I" "multicast_pending K = multicast_pending I" "intf_epoch K = intf_epoch I"
      "multicast_backoff K = multicast_backoff I" "multicast_waiting K = multicast_waiting I" "t_multicast_retry K = t_multicast_retry I"
      "on_write_q K" and m: "\<And>n. n \<in> set (nbr_list I) \<Longrightarrow> marked c n I K" for K
  proof (rule sent_ok [OF ok c])
    fix n assume n: "n \<in> set (nbr_list I)"
    let ?J = "let K = eigrp_packet_delete K in if obuf K = [] \<and> multicast_pending K = [] then K\<lparr>on_write_q := False\<rparr> else K"
    have "nbr ?J = nbr K" by (simp add: Let_def eigrp_packet_delete_def)
    then show "marked c n I ?J" using m [OF n] marked_cong by metis
  qed (use K in \<open>simp_all add: Let_def eigrp_packet_delete_def eigrp_packet_dequeue_def\<close>)
  show ?thesis
  proof (cases "pk_length c < EIGRP_HEADER_LEN")
    case True
    then have "sequence_number c = 0" using b c by (force simp: base_ok_def obuf_ok_def)
    then have "marked c n I I" for n by (simp add: marked_def hits_def hit_def split: list.splits)
    then show ?thesis using finish [OF c refl refl refl refl refl refl w] True c by (simp add: write_packet_def)
  next
    case False
    define I0 where "I0 = (case pk_nbr c of Some n \<Rightarrow> if retransmission c
        then nbr_change n (\<lambda>nb. nb\<lparr>nbr_retransmissions := nbr_retransmissions nb + 1\<rparr>) I else I | None \<Rightarrow> I)"
    have s: "same_rtp I I0" by (auto simp: I0_def same_rtp_def same_nbr_def queue_def split: option.splits)
    have e: "nbr_list I0 = nbr_list I" "obuf I0 = obuf I" "multicast_pending I0 = multicast_pending I" "intf_epoch I0 = intf_epoch I"
      "multicast_backoff I0 = multicast_backoff I" "multicast_waiting I0 = multicast_waiting I" "t_multicast_retry I0 = t_multicast_retry I"
      "on_write_q I0 = on_write_q I" by (auto simp: I0_def split: option.splits)
    have b0: "base_ok I0" using same_rtp_base [OF s b] .
    have d0: "distinct (nbr_list I0)" using d e by simp
    have wire: "eigrp_packet_wire_send now True c I =
        (let J = eigrp_packet_reliable_send_update now c I0 in J\<lparr>pacing := eigrp_packet_pacing_charge (pacing J) (pk_length c)\<rparr>)"
      by (simp add: eigrp_packet_wire_send_def I0_def Let_def)
    let ?K = "eigrp_packet_wire_send now True c I"
    have m: "marked c n I ?K" if n: "n \<in> set (nbr_list I)" for n
    proof -
      have "marked c n I0 (eigrp_packet_reliable_send_update now c I0)"
        using send_update_marked [OF b0 _ _ now, of n c] n c e by simp
      moreover have "nbr ?K n = nbr (eigrp_packet_reliable_send_update now c I0) n" unfolding wire by (simp add: Let_def)
      ultimately have "marked c n I0 ?K" using marked_cong by blast
      moreover have "same_nbr n I I0" using s by (simp add: same_rtp_def)
      moreover have "adj_state (nbr I0 n) = adj_state (nbr I n)" by (auto simp: I0_def split: option.splits)
      ultimately show ?thesis by (simp add: marked_def same_nbr_def hits_def split: if_splits)
    qed
    have "write_packet now True I = (let K = eigrp_packet_delete ?K in if obuf K = [] \<and> multicast_pending K = [] then K\<lparr>on_write_q := False\<rparr> else K)"
      using False c by (simp add: write_packet_def)
    then show ?thesis using finish [of ?K] m c w e send_update_frame [OF d0, of now c] unfolding wire by (simp add: Let_def)
  qed
qed


section \<open>A multicast is admitted\<close>

lemma precedes_subset:
  "\<lbrakk>precedes c n I; set (multicast_pending J) \<subseteq> set (multicast_pending I); \<And>x. eligible n x J = eligible n x I\<rbrakk> \<Longrightarrow> precedes c n J"
  by (auto simp: precedes_def)

text \<open>A neighbour the first pending multicast is not for does not notice that it leaves the queue.\<close>

lemma skip_queue_ok:
  assumes s: "same_nbr n I J" and p: "multicast_pending I = m # multicast_pending J" and ok: "queue_ok n I"
  shows "queue_ok n J"
proof -
  have "head_ok h n J" if "head_ok h n I" for h
    using that precedes_subset [of h n I J] p same_nbrD(2) [OF s] by (auto simp: head_ok_def)
  then show ?thesis using s ok by (auto simp: queue_ok_def same_nbr_def split: list.splits)
qed

lemma skip_progress:
  assumes s: "same_nbr n I J" and p: "multicast_pending I = m # multicast_pending J" and o: "set (obuf I) \<subseteq> set (obuf J)"
    and e: "\<not> eligible n m I" and ok: "progress n I"
  shows "progress n J"
proof -
  have "behind_loop (nbr J n) x (multicast_pending J)" if "behind_loop (nbr I n) x (multicast_pending I)" for x
    using that e same_nbrD(4) [OF s] by (auto simp: p eligible_def split: if_splits)
  then show ?thesis using ok o same_nbrD(1) [OF s]
    by (auto simp: progress_def on_its_way_def eigrp_packet_unicast_behind_multicast_def split: list.splits)
qed

text \<open>The receivers get the copy in its place in the queue; the image follows on the wire.\<close>

lemma ordered_enqueue_set [simp]: "set (eigrp_packet_reliable_ordered_enqueue q p) = insert p (set q)"
  by (induction q) auto

lemma ordered_enqueue_distinct:
  "\<lbrakk>distinct (map sequence_number q); \<forall>x \<in> set q. sequence_number x \<noteq> sequence_number p\<rbrakk>
   \<Longrightarrow> distinct (map sequence_number (eigrp_packet_reliable_ordered_enqueue q p))"
  by (induction q) auto

lemma ordered_enqueue_cases:
  obtains (first) "eigrp_packet_reliable_ordered_enqueue q p = p # q"
      "q \<noteq> [] \<Longrightarrow> \<not> eigrp_packet_sequence_before (sequence_number (hd q)) (sequence_number p)"
  | (later) h r r' where "q = h # r" "eigrp_packet_reliable_ordered_enqueue q p = h # r'" "eigrp_packet_sequence_before (sequence_number h) (sequence_number p)"
      "set r' = insert p (set r)"
proof (cases q)
  case (Cons h r)
  then show thesis using that(1) that(2) [of h r "eigrp_packet_reliable_ordered_enqueue r p"]
    by (cases "eigrp_packet_sequence_before (sequence_number h) (sequence_number p)") auto
qed (use that(1) in simp)

definition receives :: "rtp_packet \<Rightarrow> nbr_id \<Rightarrow> rtp_intf \<Rightarrow> rtp_intf \<Rightarrow> bool" where
  "receives x n I J \<longleftrightarrow> queue n J = eigrp_packet_reliable_ordered_enqueue (queue n I) x
     \<and> (\<forall>e. eigrp_packet_multicast_peer_eligible (nbr J n) e = eigrp_packet_multicast_peer_eligible (nbr I n) e)"

lemma eligible_up: "eigrp_packet_multicast_peer_eligible nb e \<Longrightarrow> adj_state nb = EIGRP_NEIGHBOR_UP"
  by (simp add: eigrp_packet_multicast_peer_eligible_def)

lemma receives_queue_ok:
  assumes b: "base_ok I" and n: "n \<in> set (nbr_list I)" and p: "multicast_pending I = m # multicast_pending J" and e: "eligible n m I"
    and r: "receives x n I J" and x: "clean x" "sequence_number x = sequence_number m" "pk_length x = pk_length m" "pk_opcode x = pk_opcode m"
  shows "queue_ok n J"
proof -
  have k: "queue_ok n I" using b n by (simp add: base_ok_def)
  have pm: "EIGRP_HEADER_LEN \<le> pk_length m" "pk_opcode m \<noteq> EIGRP_OPC_HELLO" "sequence_number m \<noteq> 0"
    using b p by (simp_all add: base_ok_def pending_ok_def)
  have fresh: "\<forall>g \<in> set (queue n I). sequence_number g \<noteq> sequence_number x"
    using pending_disjoint [OF b n] p x(2) by (metis disjoint_iff image_eqI list.set_intros(1))
  have el: "eligible n y J = eligible n y I" for y using r by (simp add: receives_def eligible_def)
  have up: "adj_state (nbr J n) = EIGRP_NEIGHBOR_UP" using e r eligible_up by (auto simp: eligible_def receives_def)
  have d: "distinct (map sequence_number (queue n J))" using k fresh r ordered_enqueue_distinct by (auto simp: queue_ok_def receives_def)
  have s: "\<forall>g \<in> set (queue n J). EIGRP_HEADER_LEN \<le> pk_length g \<and> pk_opcode g \<noteq> EIGRP_OPC_HELLO \<and> sequence_number g \<noteq> 0"
    using k r x pm by (auto simp: queue_ok_def receives_def)
  show ?thesis
  proof (cases rule: ordered_enqueue_cases [of "queue n I" x])
    case first
    have "clean h" if q: "queue n I = h # q" for h q
    proof -
      have ho: "head_ok h n I" by (rule head_okD [OF b n q])
      have "\<not> precedes h n I" using first(2) q x(2) e p by (auto simp: precedes_def)
      then show ?thesis using ho by (auto simp: head_ok_def clean_def)
    qed
    then have "\<forall>g \<in> set (queue n I). clean g" using k by (cases "queue n I") (auto simp: queue_ok_def)
    moreover have "head_ok x n J" using x(1) by (simp add: head_ok_def clean_def)
    ultimately show ?thesis using first(1) r d s up by (simp add: queue_ok_def receives_def)
  next
    case (later h q q')
    have "head_ok h n J" using head_okD [OF b n later(1)] precedes_subset [of h n I J] p el by (auto simp: head_ok_def)
    moreover have "\<forall>g \<in> set q'. clean g" using later k x(1) by (auto simp: queue_ok_def)
    ultimately show ?thesis using later(2) r d s up by (simp add: queue_ok_def receives_def)
  qed
qed

lemma receives_progress:
  assumes p: "multicast_pending I = m # multicast_pending J" and ok: "progress n I" and r: "receives x n I J"
    and o: "set (obuf I) \<subseteq> set (obuf J)" and c: "c \<in> set (obuf J)" "sequence_number c = sequence_number m" "pk_nbr c = None"
    and x: "clean x" "sequence_number x = sequence_number m"
  shows "progress n J"
proof (cases rule: ordered_enqueue_cases [of "queue n I" x])
  case first
  then show ?thesis using r c x by (auto simp: progress_def receives_def on_its_way_def targets_def clean_def)
next
  case (later h q q')
  then have "\<not> eigrp_packet_unicast_behind_multicast (nbr I n) (sequence_number h) I" using not_behind_first [OF p] x(2) by simp
  then have "t_retrans_timer h \<noteq> None \<or> on_its_way h n I" using ok later(1) by (simp add: progress_def)
  then show ?thesis using later(2) r o by (auto simp: progress_def receives_def on_its_way_def)
qed


definition admits :: "rtp_packet \<Rightarrow> rtp_packet \<Rightarrow> (nbr_id \<Rightarrow> rtp_packet) \<Rightarrow> rtp_intf \<Rightarrow> rtp_intf \<Rightarrow> bool" where
  "admits m c x I J \<longleftrightarrow>
     base_ok I \<and> multicast_pending I = m # multicast_pending J \<and> nbr_list J = nbr_list I \<and> intf_epoch J = intf_epoch I
     \<and> set (obuf I) \<subseteq> set (obuf J) \<and> c \<in> set (obuf J) \<and> (\<forall>d \<in> set (obuf J). d = c \<or> d \<in> set (obuf I) \<or> sequence_number d = 0)
     \<and> sequence_number c = sequence_number m \<and> pk_nbr c = None \<and> pk_length c = pk_length m \<and> \<not> retransmission c
     \<and> (\<forall>n. clean (x n) \<and> sequence_number (x n) = sequence_number m \<and> pk_length (x n) = pk_length m \<and> pk_opcode (x n) = pk_opcode m)
     \<and> (\<forall>n \<in> set (nbr_list I). if eligible n m I then receives (x n) n I J else same_nbr n I J)"

lemma admitsD:
  assumes a: "admits m c x I J"
  shows "n \<in> set (nbr_list I) \<Longrightarrow> eligible n y J = eligible n y I"
    and "\<lbrakk>n \<in> set (nbr_list I); g \<in> set (queue n J)\<rbrakk> \<Longrightarrow> g \<in> set (queue n I) \<or> eligible n m I \<and> g = x n"
    and "y \<in> set (multicast_pending J) \<Longrightarrow> eigrp_packet_sequence_before (sequence_number m) (sequence_number y)"
    and "base_ok I" "multicast_pending I = m # multicast_pending J" "nbr_list J = nbr_list I"
proof -
  show "eligible n y J = eligible n y I" if n: "n \<in> set (nbr_list I)"
    using a n by (auto simp: admits_def receives_def eligible_def same_nbr_def split: if_splits)
  show "g \<in> set (queue n I) \<or> eligible n m I \<and> g = x n" if "n \<in> set (nbr_list I)" "g \<in> set (queue n J)"
  proof -
    have "if eligible n m I then receives (x n) n I J else same_nbr n I J" using a that(1) by (simp add: admits_def)
    then show ?thesis using that(2) by (auto simp: receives_def same_nbr_def split: if_splits)
  qed
  show "eigrp_packet_sequence_before (sequence_number m) (sequence_number y)" if "y \<in> set (multicast_pending J)"
    using a that by (auto simp: admits_def base_ok_def pending_ok_def)
qed (use a in \<open>simp_all add: admits_def\<close>)

lemma admits_seqs:
  assumes a: "admits m c x I J" and n: "n \<in> set (nbr_list I)"
  shows "sequence_number ` set (queue n J) \<subseteq> insert (sequence_number m) (sequence_number ` set (queue n I))"
proof -
  have "sequence_number (x n) = sequence_number m" using a by (simp add: admits_def)
  then have "sequence_number g \<in> insert (sequence_number m) (sequence_number ` set (queue n I))" if "g \<in> set (queue n J)" for g
    using admitsD(2) [OF a n that] by auto
  then show ?thesis by blast
qed

lemma admits_outstanding:
  assumes a: "admits m c x I J"
  shows "outstanding J \<subseteq> outstanding I"
proof -
  have m: "sequence_number m \<in> outstanding I" using admitsD(5) [OF a] pending_outstanding [of m I] by simp
  have "sequence_number ` set (queue n J) \<subseteq> outstanding I" if "n \<in> set (nbr_list I)" for n
    by (rule order_trans [OF admits_seqs [OF a that]]) (simp add: m image_subset_iff queue_outstanding [OF that])
  moreover have "sequence_number ` set (multicast_pending J) \<subseteq> outstanding I" using admitsD(5) [OF a] pending_outstanding [of _ I] by auto
  moreover have "sequence_number d \<in> outstanding I \<or> sequence_number d = 0" if "d \<in> set (obuf J)" for d
    using a that m obuf_outstanding [of d I] by (auto simp: admits_def)
  then have "sequence_number ` set (obuf J) - {0} \<subseteq> outstanding I" by blast
  ultimately show ?thesis unfolding outstanding_Un [of J] admitsD(6) [OF a] by auto
qed

lemma admits_pending:
  assumes a: "admits m c x I J"
  shows "pending_ok J"
proof -
  have "sequence_number y \<notin> sequence_number ` set (queue k J)" if y: "y \<in> set (multicast_pending J)" and k: "k \<in> set (nbr_list I)" for y k
  proof -
    have "sequence_number y \<noteq> sequence_number m" using admitsD(3) [OF a y] by (auto simp: eigrp_packet_sequence_before_def)
    moreover have "sequence_number y \<notin> sequence_number ` set (queue k I)"
      using pending_disjoint [OF admitsD(4) [OF a] k] y admitsD(5) [OF a] by auto
    ultimately show ?thesis using admits_seqs [OF a k] by blast
  qed
  then show ?thesis using a by (auto simp: admits_def base_ok_def pending_ok_def)
qed

lemma admits_copy:
  assumes a: "admits m c x I J" and d: "d \<in> set (obuf J)"
  shows "copy_ok d J"
proof (cases "d \<in> set (obuf I) \<and> sequence_number d \<noteq> 0")
  case True
  then have k: "copy_ok d I" using admitsD(4) [OF a] by (simp add: base_ok_def obuf_ok_copies)
  have "precedes d n J" if "n \<in> set (nbr_list I)" "targets d n" for n
    using precedes_subset [of d n I J] k that True admitsD(5) [OF a] admitsD(1) [OF a that(1)] by (auto simp: copy_ok_def)
  moreover have "sent_msec h \<noteq> 0" if h: "n \<in> set (nbr_list I)" "h \<in> set (queue n J)" "retransmission d" "pk_nbr d = Some n"
    "sequence_number h = sequence_number d" for n h
  proof -
    have "precedes d n I" using k True h by (simp add: copy_ok_def targets_def)
    then have "eligible n m I \<Longrightarrow> sequence_number d \<noteq> sequence_number m"
      using admitsD(5) [OF a] by (auto simp: precedes_def eigrp_packet_sequence_before_def)
    then have "h \<in> set (queue n I)" using admitsD(2) [OF a h(1,2)] a h(5) unfolding admits_def by metis
    then show ?thesis using k True h by (simp add: copy_ok_def)
  qed
  ultimately show ?thesis using k True by (auto simp: copy_ok_def admitsD(6) [OF a])
next
  case False
  then have "d = c \<or> sequence_number d = 0" using d a by (auto simp: admits_def)
  then show ?thesis using a admitsD(3) [OF a] by (auto simp: copy_ok_def precedes_def admits_def base_ok_def pending_ok_def)
qed

lemma admits_work:
  assumes w: "work_ok I" and a: "admits m c x I J"
  shows "work_ok J"
proof -
  note b = admitsD(4) [OF a] and p = admitsD(5) [OF a] and f = admitsD(6) [OF a]
  have "seq_window (outstanding J)" using b admits_outstanding [OF a] window_mono by (auto simp: base_ok_def)
  moreover have "queue_ok n J \<and> progress n J" if k: "n \<in> set (nbr_list I)" for n
  proof (cases "eligible n m I")
    case True
    then have r: "receives (x n) n I J" using a k by (auto simp: admits_def)
    have "progress n I" using w k by (simp add: work_ok_def)
    moreover have "set (obuf I) \<subseteq> set (obuf J)" "c \<in> set (obuf J)" "sequence_number c = sequence_number m" "pk_nbr c = None"
      "clean (x n)" "sequence_number (x n) = sequence_number m" "pk_length (x n) = pk_length m" "pk_opcode (x n) = pk_opcode m"
      using a by (simp_all add: admits_def)
    ultimately show ?thesis using receives_queue_ok [OF b k p True r] receives_progress [OF p _ r, of c] by simp
  next
    case False
    then have s: "same_nbr n I J" and o: "set (obuf I) \<subseteq> set (obuf J)" using a k by (auto simp: admits_def)
    have "queue_ok n I" "progress n I" using w k by (simp_all add: work_ok_def base_ok_def)
    then show ?thesis using skip_queue_ok [OF s p] skip_progress [OF s p o False] by simp
  qed
  ultimately show ?thesis using b admits_pending [OF a] admits_copy [OF a] by (simp add: work_ok_def base_ok_def obuf_ok_copies f)
qed


lemma drop_pending_work:
  assumes w: "work_ok I" and p: "multicast_pending I = m # ms" and e: "\<forall>n \<in> set (nbr_list I). \<not> eligible n m I"
  shows "work_ok (I\<lparr>multicast_pending := ms\<rparr>)" (is "work_ok ?J")
proof -
  have b: "base_ok I" using w by (simp add: work_ok_def)
  have s: "same_nbr n I ?J" for n by (simp add: same_nbr_def queue_def)
  have p': "multicast_pending I = m # multicast_pending ?J" by (simp add: p)
  have "outstanding ?J \<subseteq> outstanding I" by (auto simp: outstanding_def same_nbrD [OF s] p)
  then have "seq_window (outstanding ?J)" using b window_mono by (auto simp: base_ok_def)
  moreover have "pending_ok ?J" using b p by (simp add: base_ok_def pending_ok_def same_nbrD [OF s])
  moreover have "precedes d n ?J" if "precedes d n I" for d n by (rule precedes_subset [OF that]) (auto simp: p same_nbrD [OF s])
  then have "copy_ok d ?J" if "copy_ok d I" for d using that by (auto simp: copy_ok_def same_nbrD [OF s])
  moreover have "queue_ok n ?J \<and> progress n ?J" if n: "n \<in> set (nbr_list I)" for n
    using skip_queue_ok [OF s p'] skip_progress [OF s p'] w n e by (simp add: work_ok_def base_ok_def)
  ultimately show ?thesis using b by (simp add: work_ok_def base_ok_def obuf_ok_copies)
qed

lemma receivers_set: "set (multicast_receivers m I) = {n \<in> set (nbr_list I). eligible n m I}"
  by (auto simp: multicast_receivers_def eligible_def)

lemma admit_copy_simps [simp]:
  "clean (admit_copy busy m n)" "sequence_number (admit_copy busy m n) = sequence_number m" "pk_length (admit_copy busy m n) = pk_length m"
  "pk_opcode (admit_copy busy m n) = pk_opcode m"
  by (simp_all add: admit_copy_def clean_def Let_def)

lemma commit_fold:
  assumes "distinct (nbr_list I)"
  shows "fold (admit_to busy m) (multicast_receivers m I) K =
     K\<lparr>nbr := \<lambda>k. if k \<in> set (multicast_receivers m I)
        then (nbr K k)\<lparr>retrans_queue := eigrp_packet_reliable_ordered_enqueue (retrans_queue (nbr K k)) (admit_copy busy m k)\<rparr> else nbr K k\<rparr>"
proof -
  have "distinct (multicast_receivers m I)" using assms by (simp add: multicast_receivers_def)
  moreover have "admit_to busy m = (\<lambda>n. nbr_change n (\<lambda>nb. nb\<lparr>retrans_queue := eigrp_packet_reliable_ordered_enqueue (retrans_queue nb) (admit_copy busy m n)\<rparr>))"
    by (simp add: admit_to_def fun_eq_iff)
  ultimately show ?thesis using fold_nbr_change by simp
qed

lemma commit_ok:
  assumes ok: "rtp_ok I" and p: "multicast_pending I = m # ms" and e: "\<not> multicast_backoff I" "\<not> multicast_waiting I"
    and K: "nbr K = nbr I" "nbr_list K = nbr_list I" "multicast_pending K = multicast_pending I" "intf_epoch K = intf_epoch I"
      "multicast_backoff K = multicast_backoff I" "multicast_waiting K = multicast_waiting I" "t_multicast_retry K = t_multicast_retry I"
      "set (obuf I) \<subseteq> set (obuf K)" "\<And>d. d \<in> set (obuf K) \<Longrightarrow> d \<in> set (obuf I) \<or> sequence_number d = 0"
  shows "rtp_ok (admit_commit busy m (multicast_receivers m I) K)" (is "rtp_ok ?J")
proof -
  have b: "base_ok I" and w: "work_ok I" using ok by (simp_all add: rtp_ok_def work_ok_def)
  then have d: "distinct (nbr_list I)" by (simp add: base_ok_def)
  define c where "c = m\<lparr>pk_flags := (if busy then pk_flags m OR EIGRP_CR_FLAG else pk_flags m), pk_multicast := True\<rparr>"
  have J: "nbr_list ?J = nbr_list I" "multicast_pending ?J = ms" "intf_epoch ?J = intf_epoch I" "set (obuf ?J) = insert c (set (obuf K))" "on_write_q ?J"
    "\<not> multicast_backoff ?J" "\<not> multicast_waiting ?J"
    "\<And>n. nbr ?J n = (if n \<in> set (multicast_receivers m I)
        then (nbr I n)\<lparr>retrans_queue := eigrp_packet_reliable_ordered_enqueue (retrans_queue (nbr I n)) (admit_copy busy m n)\<rparr> else nbr I n)"
    using K p e by (simp_all add: admit_commit_def Let_def commit_fold [OF d] eigrp_packet_dequeue_def c_def)
  have "if eligible n m I then receives (admit_copy busy m n) n I ?J else same_nbr n I ?J" if n: "n \<in> set (nbr_list I)" for n
    using n J(8) [of n] by (simp add: receivers_set receives_def same_nbr_def queue_def)
  moreover have "sequence_number c = sequence_number m" "pk_nbr c = None" "pk_length c = pk_length m" "\<not> retransmission c"
    using b p by (simp_all add: base_ok_def pending_ok_def c_def)
  moreover have "set (obuf I) \<subseteq> set (obuf ?J)" "\<forall>d \<in> set (obuf ?J). d = c \<or> d \<in> set (obuf I) \<or> sequence_number d = 0"
    using J(4) K(8,9) by auto
  ultimately have "admits m c (admit_copy busy m) I ?J" using b p J(1-4) by (simp add: admits_def)
  then have "work_ok ?J" using admits_work w by blast
  moreover have "flags_ok ?J" using J by (simp add: flags_ok_def)
  ultimately show ?thesis by (simp add: rtp_ok_work)
qed


lemma admit_state:
  assumes ok: "rtp_ok I" and s: "same_rtp I J" and o: "on_write_q J = on_write_q I"
    and f: "multicast_backoff J \<or> multicast_waiting J \<Longrightarrow> \<not> t_multicast_retry J"
      "multicast_backoff J \<or> multicast_waiting J \<Longrightarrow> \<exists>m ms. multicast_pending I = m # ms \<and> (\<exists>n \<in> set (multicast_receivers m I). receiver_prior m I n \<noteq> 0)"
      "\<not> admit_enabled J"
  shows "rtp_ok J"
proof -
  have e: "eligible n m J = eligible n m I" "receiver_prior m J n = receiver_prior m I n" for n m
    using s same_nbrD [of n I J] by (auto simp: same_rtp_def receiver_prior_def eigrp_packet_reliable_prior_count_def queue_def)
  have "flags_ok J" unfolding flags_ok_def
  proof (intro conjI impI)
    assume bw: "multicast_backoff J \<or> multicast_waiting J"
    show "\<not> t_multicast_retry J" by (rule f(1) [OF bw])
    show "\<exists>m ms. multicast_pending J = m # ms \<and> (\<exists>n \<in> set (nbr_list J). eligible n m J \<and> receiver_prior m J n \<noteq> 0)"
      using f(2) [OF bw] s by (auto simp: e receivers_set same_rtp_def)
  next
    assume "obuf J \<noteq> [] \<or> admit_enabled J"
    then show "on_write_q J" using f(3) ok s o by (auto simp: rtp_ok_def flags_ok_def same_rtp_def)
  qed
  then show ?thesis using same_rtp_work [OF s] ok by (simp add: rtp_ok_work)
qed

lemma admit_ok:
  assumes ok: "rtp_ok I" and a: "admit_enabled I"
  shows "rtp_ok (snd (eigrp_packet_multicast_admit E I))"
proof -
  have fl: "\<not> multicast_backoff I" "\<not> multicast_waiting I" "\<not> t_multicast_retry I" using a by (simp_all add: admit_enabled_def)
  obtain m ms where p: "multicast_pending I = m # ms" using a by (auto simp: admit_enabled_def neq_Nil_conv)
  let ?ns = "multicast_receivers m I"
  have same: "same_rtp I (I\<lparr>multicast_backoff := x, multicast_backoff_count := y\<rparr>)" "same_rtp I (I\<lparr>t_multicast_retry := x\<rparr>)"
    "same_rtp I (I\<lparr>multicast_waiting := x\<rparr>)" for x y by (simp_all add: same_rtp_def same_nbr_def queue_def)
  have backoff: "rtp_ok (I\<lparr>multicast_backoff := True, multicast_backoff_count := y\<rparr>)" if "\<exists>n \<in> set ?ns. receiver_prior m I n \<noteq> 0" for y
    using p fl that by (intro admit_state [OF ok same(1)]) (auto simp: admit_enabled_def)
  have waiting: "rtp_ok (I\<lparr>multicast_waiting := True\<rparr>)" if ne: "?ns \<noteq> []" and nr: "\<not> (\<exists>n \<in> set ?ns. receiver_prior m I n = 0)"
  proof -
    obtain n where "n \<in> set ?ns" using ne by (meson last_in_set)
    then show ?thesis using p fl nr by (intro admit_state [OF ok same(3)]) (auto simp: admit_enabled_def)
  qed
  have retry: "rtp_ok (I\<lparr>t_multicast_retry := True\<rparr>)"
    using p fl by (intro admit_state [OF ok same(2)]) (auto simp: admit_enabled_def)
  have drop: "rtp_ok (eigrp_packet_multicast_resume (I\<lparr>multicast_pending := ms\<rparr>))" if "?ns = []"
  proof (rule resume_rtp_ok)
    show "work_ok (I\<lparr>multicast_pending := ms\<rparr>)"
      using ok that receivers_set [of m I] by (intro drop_pending_work [OF _ p]) (auto simp: rtp_ok_work)
    show "sane (I\<lparr>multicast_pending := ms\<rparr>)" using ok fl by (simp add: rtp_ok_def flags_ok_def sane_def)
  qed
  have hello: "rtp_ok (admit_commit True m ?ns K)" if "eigrp_hello_send_sequence h s I = Some K" for h s K
    using that by (intro commit_ok [OF ok p fl(1,2)])
      (auto simp: eigrp_hello_send_sequence_def write_queue_add_def eigrp_packet_enqueue_def hello_packet_def split: if_splits option.splits)
  have plain: "rtp_ok (admit_commit False m ?ns I)" by (rule commit_ok [OF ok p fl(1,2)]) auto
  have big: "\<exists>n \<in> set ?ns. receiver_prior m I n \<noteq> 0" if "\<exists>n \<in> set ?ns. EIGRP_MULTICAST_RELIABLE_MAX \<le> receiver_prior m I n"
    using that by (force simp: EIGRP_MULTICAST_RELIABLE_MAX_def)
  show ?thesis
    unfolding eigrp_packet_multicast_admit_def p Let_def
    using fl backoff waiting retry drop hello plain big p
    by (simp add: eigrp_packet_dequeue_def split: option.split)
qed


lemma candidate_ok: "rtp_ok I \<Longrightarrow> rtp_ok (write_candidate E I)"
  by (simp add: write_candidate_def admit_ok)

section \<open>Reachable interfaces\<close>

lemma rtp_step_ok: "\<lbrakk>rtp_step I J; rtp_ok I\<rbrakk> \<Longrightarrow> rtp_ok J"
proof (induction rule: rtp_step.induct)
  case (expired n I h now)
  then show ?case by (auto simp: rtp_head_queue split: list.splits intro: expired_ok)
qed (auto intro: publish_ok limit_ok pending_ok_step down_ok teardown_ok delete_ok intf_down_ok unicast_ok init_ok multicast_ok hello_ok ack_ok
      retry_ok candidate_ok write_ok)

definition rtp_initial :: "rtp_intf \<Rightarrow> bool" where
  "rtp_initial I \<longleftrightarrow> nbr_list I = [] \<and> obuf I = [] \<and> multicast_pending I = [] \<and> \<not> multicast_backoff I \<and> \<not> multicast_waiting I"

inductive rtp_reachable :: "rtp_intf \<Rightarrow> bool" where
  start: "rtp_initial I \<Longrightarrow> rtp_reachable I"
| step: "\<lbrakk>rtp_reachable I; rtp_step I J\<rbrakk> \<Longrightarrow> rtp_reachable J"

lemma reachable_ok: "rtp_reachable I \<Longrightarrow> rtp_ok I"
  by (induction rule: rtp_reachable.induct) (auto intro: rtp_step_ok idle_ok simp: rtp_initial_def idle_def)

text \<open>
  C9: in every reachable state of an interface where no unicast allocation and no send fails, unacknowledged or unadmitted
  reliable work is never stalled: the writer has a packet to send or a multicast to admit, or the multicast retry timer
  is armed, or the retransmission timer of some neighbour's head is.
\<close>

theorem transport_never_stalls:
  assumes "rtp_reachable I" and "multicast_pending I \<noteq> [] \<or> (\<exists>n \<in> set (nbr_list I). retrans_queue (nbr I n) \<noteq> [])"
  shows "on_write_q I \<and> (obuf I \<noteq> [] \<or> admit_enabled I) \<or> t_multicast_retry I
     \<or> (\<exists>n \<in> set (nbr_list I). \<exists>h. rtp_head n I = Some h \<and> t_retrans_timer h \<noteq> None)"
  using rtp_ok_enabled [OF reachable_ok [OF assms(1)]] assms(2) by (simp add: enabled_def queue_def)

definition rtp_blank :: rtp_intf where
  "rtp_blank = \<lparr>nbr_list = [], nbr = (\<lambda>_. undefined), obuf = [], multicast_pending = [], intf_epoch = 0, multicast_backoff = False,
     multicast_waiting = False, multicast_backoff_count = 0, t_multicast_retry = False, on_write_q = False, tlv1_peer_count = 0,
     tlv2_peer_count = 0, intf_encoder = Encoder_safe, curr_mtu = 1500, auth_tlv_size = 0, intf_address_bytes = 4,
     pacing = \<lparr>params_bandwidth = 0, curr_bandwidth = 0, bandwidth_percent = 0, pacing_initialized = False, pacing_last_msec = 0,
       pacing_rate = 0, pacing_credit = 0\<rparr>, rtp_calls = []\<rparr>"

definition update_packet :: rtp_packet where
  "update_packet = (hello_packet 64)\<lparr>pk_opcode := 1, sequence_number := 7\<rparr>"

theorem transport_never_stalls_witness:
  "on_write_q (eigrp_packet_multicast_reliable_enqueue update_packet rtp_blank)"
proof -
  have "new_multicast rtp_blank update_packet"
    by (simp add: new_multicast_def new_packet_def outstanding_def rtp_blank_def update_packet_def hello_packet_def clean_def EIGRP_HEADER_LEN_def
        EIGRP_OPC_HELLO_def seq_window_def exI [of _ 7])
  then have r: "rtp_reachable (eigrp_packet_multicast_reliable_enqueue update_packet rtp_blank)"
    by (intro rtp_reachable.step [OF rtp_reachable.start [of rtp_blank]] rtp_step.multicast) (simp_all add: rtp_initial_def rtp_blank_def)
  have s: "multicast_pending (eigrp_packet_multicast_reliable_enqueue update_packet rtp_blank) \<noteq> []"
    "\<not> t_multicast_retry (eigrp_packet_multicast_reliable_enqueue update_packet rtp_blank)"
    "nbr_list (eigrp_packet_multicast_reliable_enqueue update_packet rtp_blank) = []"
    by (simp_all add: eigrp_packet_multicast_reliable_enqueue_def rtp_blank_def update_packet_def hello_packet_def eigrp_packet_enqueue_def
        eigrp_packet_multicast_resume_def multicast_receivers_def write_queue_add_def rtp_call_def)
  show ?thesis using transport_never_stalls [OF r] s by simp
qed


section \<open>After a failed send\<close>

text \<open>A copy on the output queue, as the outcome of the calls that put it there.\<close>

definition first_copy :: "nbr_id \<Rightarrow> rtp_packet \<Rightarrow> rtp_packet" where
  "first_copy n p = unicast_copy p (the (eigrp_packet_dup True p n))"

lemma first_copy_simps [simp]:
  "sequence_number (first_copy n p) = sequence_number p" "pk_length (first_copy n p) = pk_length p" "pk_nbr (first_copy n p) = Some n"
  "\<not> retransmission (first_copy n p)" "pk_opcode (first_copy n p) = pk_opcode p"
  by (simp_all add: first_copy_def eigrp_packet_dup_def unicast_copy_def)

text \<open>The neighbour's queue and the output queue, and nothing else of interest.\<close>

definition stage :: "nbr_id \<Rightarrow> rtp_packet \<Rightarrow> rtp_packet list \<Rightarrow> rtp_packet list \<Rightarrow> rtp_intf \<Rightarrow> bool" where
  "stage n h q out I \<longleftrightarrow> queue n I = h # q \<and> obuf I = out"

lemma stage_reliably:
  assumes "stage n p q [] I" "\<not> eigrp_packet_unicast_behind_multicast (nbr I n) (sequence_number p) I" "pk_opcode p \<noteq> EIGRP_OPC_HELLO"
  shows "stage n p q [first_copy n p] (eigrp_packet_send_reliably True n I)"
  using assms by (simp add: stage_def eigrp_packet_send_reliably_def rtp_head_queue first_copy_def eigrp_packet_dup_def unicast_copy_def
      eigrp_packet_output_enqueue_def eigrp_packet_enqueue_def queue_def)

lemma stage_failure:
  assumes "stage n p q [first_copy n g] I" "sequence_number g = sequence_number p" "EIGRP_HEADER_LEN \<le> pk_length g" "sequence_number p \<noteq> 0"
  shows "\<exists>rto. stage n (p\<lparr>t_retrans_timer := Some rto\<rparr>) q [] (write_packet now False I)"
  using assms by (auto simp: stage_def write_packet_def Let_def eigrp_packet_wire_send_def eigrp_packet_reliable_send_failure_update_def failure_retry_def
      owns_head_def rtp_head_def queue_def eigrp_packet_retransmit_timer_start_def head_update_def eigrp_packet_delete_def eigrp_packet_dequeue_def)

lemma stage_expired:
  assumes "stage n p q [] I" "sent_msec p = 0" "\<not> retry_queued p" "retrans_counter p < EIGRP_TRANSPORT_RETRANS_MAX" "pk_opcode p \<noteq> EIGRP_OPC_HELLO"
  shows "stage n (p\<lparr>t_retrans_timer := None, retry_queued := True\<rparr>) q [first_copy n p] (retrans_timer_expired now True n I)"
  using assms by (simp add: stage_def retrans_timer_expired_def eigrp_packet_unack_retrans_def rtp_head_def queue_def head_update_def
      eigrp_packet_dup_def unicast_copy_def first_copy_def eigrp_packet_output_enqueue_def eigrp_packet_enqueue_def linorder_not_le [symmetric])

lemma stage_sent:
  assumes "stage n p q [first_copy n g] I" "sequence_number g = sequence_number p" "EIGRP_HEADER_LEN \<le> pk_length g" "sequence_number p \<noteq> 0"
    "sent_msec p = 0"
  shows "\<exists>rto. stage n (p\<lparr>sent_msec := now, t_retrans_timer := Some rto\<rparr>) q [] (write_packet now True I)"
  using assms by (auto simp: stage_def write_packet_def Let_def eigrp_packet_wire_send_def eigrp_packet_reliable_send_update_def
      eigrp_packet_reliable_first_send_update_def neighbor_send_mark send_mark_def queue_def eigrp_packet_delete_def eigrp_packet_dequeue_def)

lemma stage_stuck:
  assumes "stage n p q [] I" "retry_queued p"
  shows "stage n (p\<lparr>t_retrans_timer := None\<rparr>) q [] (retrans_timer_expired now a n I)"
  using assms by (simp add: stage_def retrans_timer_expired_def eigrp_packet_unack_retrans_def rtp_head_def queue_def head_update_def)

text \<open>
  C36: when the host refuses the first send of a packet, the retry that succeeds leaves \<open>retry_queued\<close> set, and the next expiry
  of the retransmission timer does nothing: the packet has been sent once, no copy is queued and no timer is armed, and
  the timer's callback would change nothing.
\<close>

theorem failed_send_strands_queue:
  assumes "rtp_head n I = Some p" "obuf I = []" "\<not> eigrp_packet_unicast_behind_multicast (nbr I n) (sequence_number p) I"
    and "sent_msec p = 0" "\<not> retry_queued p" "retrans_counter p < EIGRP_TRANSPORT_RETRANS_MAX" "pk_opcode p \<noteq> EIGRP_OPC_HELLO"
      "EIGRP_HEADER_LEN \<le> pk_length p" "sequence_number p \<noteq> 0" and "t3 \<noteq> 0"
    and J: "J = retrans_timer_expired t4 True n (write_packet t3 True (retrans_timer_expired t2 True n
              (write_packet t1 False (eigrp_packet_send_reliably True n I))))"
  shows "obuf J = [] \<and> (\<exists>h. rtp_head n J = Some h \<and> sequence_number h = sequence_number p \<and> sent_msec h = t3 \<and> t_retrans_timer h = None)
    \<and> eigrp_packet_unack_retrans t5 a n J = J"
proof -
  obtain q where q: "queue n I = p # q" using assms(1) by (auto simp: rtp_head_queue split: list.splits)
  then have s0: "stage n p q [] I" using assms(2) by (simp add: stage_def)
  have s1: "stage n p q [first_copy n p] (eigrp_packet_send_reliably True n I)" by (rule stage_reliably [OF s0 assms(3,7)])
  obtain r1 where s2: "stage n (p\<lparr>t_retrans_timer := Some r1\<rparr>) q [] (write_packet t1 False (eigrp_packet_send_reliably True n I))"
    using stage_failure [OF s1] assms by auto
  note s3 = stage_expired [OF s2, of t2]
  have "first_copy n (p\<lparr>t_retrans_timer := Some r1\<rparr>) = first_copy n p" by (simp add: first_copy_def eigrp_packet_dup_def unicast_copy_def)
  then obtain r2 where s4: "stage n (p\<lparr>retry_queued := True, sent_msec := t3, t_retrans_timer := Some r2\<rparr>) q []
      (write_packet t3 True (retrans_timer_expired t2 True n (write_packet t1 False (eigrp_packet_send_reliably True n I))))"
    using s3 stage_sent [of n "p\<lparr>t_retrans_timer := None, retry_queued := True\<rparr>" q p] assms by auto
  have "stage n (p\<lparr>retry_queued := True, sent_msec := t3, t_retrans_timer := None\<rparr>) q [] J"
    using stage_stuck [OF s4] unfolding J by simp
  then show ?thesis
    by (simp add: stage_def rtp_head_queue eigrp_packet_unack_retrans_def)
qed

definition strand_intf :: rtp_intf where
  "strand_intf = rtp_blank\<lparr>nbr_list := [7], nbr := (\<lambda>_. sample_nbr\<lparr>retrans_queue := [update_packet\<lparr>pk_nbr := Some 7\<rparr>]\<rparr>)\<rparr>"

theorem failed_send_strands_queue_witness:
  "obuf (retrans_timer_expired 9 True 7 (write_packet 8 True (retrans_timer_expired 6 True 7
     (write_packet 1 False (eigrp_packet_send_reliably True 7 strand_intf))))) = []"
proof -
  have "obuf J = []" if "J = retrans_timer_expired 9 True 7 (write_packet 8 True (retrans_timer_expired 6 True 7
     (write_packet 1 False (eigrp_packet_send_reliably True 7 strand_intf))))" for J
    using failed_send_strands_queue [of 7 strand_intf "update_packet\<lparr>pk_nbr := Some 7\<rparr>" 8 J 9 6 1 0 False, OF _ _ _ _ _ _ _ _ _ _ that]
    by (simp add: strand_intf_def rtp_blank_def rtp_head_def sample_nbr_def update_packet_def hello_packet_def
        eigrp_packet_unicast_behind_multicast_def EIGRP_TRANSPORT_RETRANS_MAX_def EIGRP_OPC_HELLO_def EIGRP_HEADER_LEN_def)
  then show ?thesis by blast
qed

end
