(* ===== verification/Eigrp_Hash.thy ===== *)
theory Eigrp_Hash
  imports Eigrp_Prelude
begin

text \<open>
  What the two digests of the authentication code (\<^verbatim>\<open>eigrp_sha256.c\<close>, \<^verbatim>\<open>eigrp_md5.c\<close>) share: both
  feed a message of any length through a compression function in blocks of 64 bytes and keep the
  bytes of an unfinished block in a buffer.  \<open>absorb\<close> is the reference, a message cut into blocks
  from its start; \<open>buffers\<close> relates a context to the message it has consumed.  The locale
  \<open>digest_stream\<close> is the interface a digest offers its clients, and what holds of every digest
  (any split of the message gives the same value, the keyed hash) is proved once inside it.
\<close>

subsection \<open>Blocks\<close>

function absorb :: "('h \<Rightarrow> u8 list \<Rightarrow> 'h) \<Rightarrow> 'h \<Rightarrow> u8 list \<Rightarrow> 'h" where
  "absorb f h bs = (if 64 \<le> length bs then absorb f (f h (take 64 bs)) (drop 64 bs) else h)"
  by pat_completeness auto
termination
  by (relation "measure (\<lambda>(f, h, bs). length bs)") auto

declare absorb.simps [simp del]

definition leftover :: "u8 list \<Rightarrow> u8 list" where
  "leftover bs = drop (64 * (length bs div 64)) bs"

lemma absorb_short [simp]: "length bs < 64 \<Longrightarrow> absorb f h bs = h"
  by (simp add: absorb.simps)

lemma absorb_block: "length b = 64 \<Longrightarrow> absorb f h (b @ bs) = absorb f (f h b) bs"
  by (simp add: absorb.simps [of f h "b @ bs"])

lemma absorb_blocks:
  "length bs = 64 * n \<Longrightarrow> absorb f h (bs @ cs) = absorb f (absorb f h bs) cs"
proof (induction n arbitrary: h bs)
  case (Suc n)
  then have l: "length (take 64 bs) = 64" and d: "length (drop 64 bs) = 64 * n" by simp_all
  have "absorb f h (bs @ ds) = absorb f (f h (take 64 bs)) (drop 64 bs @ ds)" for ds
    using absorb_block [OF l, of f h "drop 64 bs @ ds"] by (simp flip: append_assoc)
  from this [of cs] this [of "[]"] Suc.IH [OF d] show ?case by simp
qed simp

lemma length_leftover [simp]: "length (leftover bs) = length bs mod 64"
  by (simp add: leftover_def minus_mult_div_eq_mod)

lemma leftover_split: "bs = take (64 * (length bs div 64)) bs @ leftover bs"
  by (simp add: leftover_def)

lemma leftover_blocks: "length bs = 64 * n \<Longrightarrow> leftover (bs @ cs) = leftover cs"
  by (simp add: leftover_def)

lemma leftover_drop: "64 \<le> length bs \<Longrightarrow> leftover (drop 64 bs) = leftover bs"
  using leftover_blocks [of "take 64 bs" 1 "drop 64 bs"] by simp

lemma leftover_short: "length bs < 64 \<Longrightarrow> leftover bs = bs"
  by (simp add: leftover_def)

lemma whole_blocks:
  "\<exists>n. length (take (64 * (length bs div 64)) bs) = 64 * n"
  by (simp add: min_absorb2)

text \<open>Consuming \<open>cs\<close> after \<open>bs\<close> is consuming \<open>cs\<close> after the unfinished block of \<open>bs\<close>.\<close>

lemma absorb_append: "absorb f h (bs @ cs) = absorb f (absorb f h bs) (leftover bs @ cs)"
proof -
  obtain n where n: "length (take (64 * (length bs div 64)) bs) = 64 * n" using whole_blocks by blast
  have "absorb f h bs = absorb f h (take (64 * (length bs div 64)) bs)"
    using absorb_blocks [OF n, of f h "leftover bs"] by (simp flip: leftover_split)
  then show ?thesis
    using absorb_blocks [OF n, of f h "leftover bs @ cs"] leftover_split [of bs]
    by (metis append.assoc)
qed

lemma leftover_append: "leftover (bs @ cs) = leftover (leftover bs @ cs)"
proof -
  obtain n where n: "length (take (64 * (length bs div 64)) bs) = 64 * n" using whole_blocks by blast
  show ?thesis
    using leftover_blocks [OF n, of "leftover bs @ cs"] leftover_split [of bs]
    by (metis append.assoc)
qed

subsection \<open>A buffered context\<close>

text \<open>
  \<open>memcpy (b + r, x, length x)\<close> into an array of bytes.
\<close>

definition memcpy_at :: "u8 list \<Rightarrow> nat \<Rightarrow> u8 list \<Rightarrow> u8 list" where
  "memcpy_at b r x = take r b @ x @ drop (r + length x) b"

lemma length_memcpy_at [simp]: "r + length x \<le> length b \<Longrightarrow> length (memcpy_at b r x) = length b"
  by (simp add: memcpy_at_def)

lemma memcpy_leftover:
  "length b = 64 \<Longrightarrow> length (memcpy_at b 0 (leftover y)) = 64"
  "take (length y mod 64) (memcpy_at b 0 (leftover y)) = leftover y"
  by (simp_all add: memcpy_at_def)

text \<open>
  A chaining value \<open>h\<close> and a buffer \<open>b\<close> of 64 bytes have consumed the message \<open>m\<close>.
\<close>

definition buffers :: "('h \<Rightarrow> u8 list \<Rightarrow> 'h) \<Rightarrow> 'h \<Rightarrow> 'h \<Rightarrow> u8 list \<Rightarrow> u8 list \<Rightarrow> bool" where
  "buffers f iv h b m \<longleftrightarrow>
     h = absorb f iv m \<and> length b = 64 \<and> take (length m mod 64) b = leftover m"

lemma buffers_Nil [simp]: "buffers f iv h b [] \<longleftrightarrow> h = iv \<and> length b = 64"
  by (auto simp: buffers_def leftover_def)

lemma residue_short: "length m mod 64 + length x < 64 \<Longrightarrow> length (m @ x) mod 64 = length m mod 64 + length x"
  by (metis length_append mod_add_left_eq mod_less)

lemma buffers_short:
  assumes "buffers f iv h b m" "length m mod 64 + length x < 64"
  shows "buffers f iv h (memcpy_at b (length m mod 64) x) (m @ x)"
proof -
  note residue_short [OF assms(2), simplified]
  then show ?thesis
    using assms
    by (simp add: buffers_def absorb_append [of f iv m] leftover_append [of m] leftover_short memcpy_at_def)
qed

lemma residue_long:
  assumes "r = length m mod 64" "64 \<le> r + length x"
  shows "length (m @ x) mod 64 = length (leftover (drop (64 - r) x))"
proof -
  have "leftover m @ x = (leftover m @ take (64 - r) x) @ drop (64 - r) x" by simp
  moreover have "length (leftover m @ take (64 - r) x) = 64 * 1" using assms by simp
  ultimately have "leftover (m @ x) = leftover (drop (64 - r) x)"
    by (metis leftover_append leftover_blocks)
  then show ?thesis by (metis length_leftover)
qed

text \<open>
  The unfinished block is completed from the new bytes, whole blocks are compressed, and what is
  left lies at the start of the buffer.
\<close>

lemma buffers_long:
  assumes b: "buffers f iv h b m" and r: "r = length m mod 64" and l: "64 \<le> r + length x"
    and b': "length b' = 64" "take (length (drop (64 - r) x) mod 64) b' = leftover (drop (64 - r) x)"
  shows "buffers f iv (absorb f (f h (memcpy_at b r (take (64 - r) x))) (drop (64 - r) x)) b' (m @ x)"
proof -
  let ?y = "drop (64 - r) x"
  from r have "r < 64" by simp
  with l b r have bl: "memcpy_at b r (take (64 - r) x) = leftover m @ take (64 - r) x"
    by (simp add: memcpy_at_def buffers_def min_absorb2)
  have len: "length (leftover m @ take (64 - r) x) = 64" using r l by simp
  have split: "leftover m @ x = (leftover m @ take (64 - r) x) @ ?y" by simp
  have "absorb f iv (m @ x) = absorb f (f h (memcpy_at b r (take (64 - r) x))) ?y"
    using b unfolding absorb_append [of f iv m] split absorb_block [OF len] bl by (simp add: buffers_def)
  moreover have "leftover (m @ x) = leftover ?y"
    unfolding leftover_append [of m] split by (rule leftover_blocks [of _ 1]) (simp only: len)
  moreover have "length (m @ x) mod 64 = length ?y mod 64"
    by (metis calculation(2) length_leftover)
  ultimately show ?thesis using b' by (simp add: buffers_def)
qed

subsection \<open>The interface of a digest\<close>

text \<open>HMAC (RFC 2104, FIPS 198-1) over a hash function with blocks of 64 bytes.\<close>

definition hmac_key :: "(u8 list \<Rightarrow> u8 list) \<Rightarrow> u8 list \<Rightarrow> u8 list" where
  "hmac_key hash K = (let k = (if 64 < length K then hash K else K) in k @ replicate (64 - length k) 0)"

definition hmac :: "(u8 list \<Rightarrow> u8 list) \<Rightarrow> u8 list \<Rightarrow> u8 list \<Rightarrow> u8 list" where
  "hmac hash K m =
     hash (map (\<lambda>k. k XOR 0x5c) (hmac_key hash K) @ hash (map (\<lambda>k. k XOR 0x36) (hmac_key hash K) @ m))"

text \<open>\<open>feed\<close> runs the update operation over a sequence of chunks; \<open>None\<close> is undefined behaviour.\<close>

fun feed :: "('c \<Rightarrow> u8 list \<Rightarrow> 'c option) \<Rightarrow> 'c \<Rightarrow> u8 list list \<Rightarrow> 'c option" where
  "feed upd c [] = Some c"
| "feed upd c (x # xs) = Option.bind (upd c x) (\<lambda>c. feed upd c xs)"

text \<open>
  A digest: \<open>rep c m\<close> says that the context \<open>c\<close> has consumed the message \<open>m\<close>, \<open>fits x\<close> that a
  chunk is short enough for one call.
\<close>

locale digest_stream =
  fixes rep :: "'c \<Rightarrow> u8 list \<Rightarrow> bool" and fits :: "u8 list \<Rightarrow> bool"
    and upd :: "'c \<Rightarrow> u8 list \<Rightarrow> 'c option" and fin :: "'c \<Rightarrow> u8 list option"
    and hash :: "u8 list \<Rightarrow> u8 list"
  assumes upd_rep: "rep c m \<Longrightarrow> fits x \<Longrightarrow> \<exists>c'. upd c x = Some c' \<and> rep c' (m @ x)"
    and fin_hash: "rep c m \<Longrightarrow> fin c = Some (hash m)"
    and fits_block: "length x \<le> 64 \<Longrightarrow> fits x"
    and length_hash: "length (hash m) \<le> 64"
begin

lemma feed_rep:
  "rep c m \<Longrightarrow> \<forall>x\<in>set xs. fits x \<Longrightarrow> \<exists>c'. feed upd c xs = Some c' \<and> rep c' (m @ concat xs)"
proof (induction xs arbitrary: c m)
  case (Cons x xs)
  from upd_rep [OF Cons.prems(1), of x] Cons.prems(2)
  obtain c' where "upd c x = Some c'" "rep c' (m @ x)" by auto
  with Cons.IH [of c' "m @ x"] Cons.prems(2) show ?case by auto
qed simp

lemma feed_fin: "rep c m \<Longrightarrow> \<forall>x\<in>set xs. fits x \<Longrightarrow> Option.bind (feed upd c xs) fin = Some (hash (m @ concat xs))"
  using feed_rep [of c m xs] fin_hash by fastforce

lemma length_hmac_key: "length (hmac_key hash K) = 64"
  using length_hash [of K] by (simp add: hmac_key_def Let_def)

text \<open>
  The keyed hash: an inner context that consumed the padded key and the message, an outer one that
  consumed the padded key and the inner value.
\<close>

lemma hmac_contexts:
  assumes "rep ic (map (\<lambda>k. k XOR 0x36) (hmac_key hash K) @ m)"
    and "rep oc (map (\<lambda>k. k XOR 0x5c) (hmac_key hash K))"
  shows "\<exists>d oc'. fin ic = Some d \<and> upd oc d = Some oc' \<and> fin oc' = Some (hmac hash K m)"
  using fin_hash [OF assms(1)] upd_rep [OF assms(2) fits_block [OF length_hash]] fin_hash
  by (fastforce simp: hmac_def)

end

end
