(* ===== verification/Eigrp_Sha256.thy ===== *)
theory Eigrp_Sha256
  imports Complex_Main Eigrp_Hash
begin

text \<open>
  SHA-256, HMAC-SHA-256 and PBKDF2 (\<^verbatim>\<open>eigrp_sha256.c\<close>).  The first part is the code: the
  compression function on an array of eight words whose names rotate from round to round, the
  buffered update, the padding and the keyed hash.  The second part is the standard (FIPS 180-4,
  FIPS 198-1, RFC 8018) on whole messages, with no context and no buffer.  The third proves that
  the code computes it, however the message is split over calls.
\<close>

named_theorems sha_simps \<open>sizes of the arrays of SHA-256\<close>

subsection \<open>The code: words and bytes\<close>

definition be32dec :: "u8 list \<Rightarrow> u32" where
  "be32dec p = ucast (p ! 3) + push_bit 8 (ucast (p ! 2)) + push_bit 16 (ucast (p ! 1))
                 + push_bit 24 (ucast (p ! 0))"

definition be32enc :: "u32 \<Rightarrow> u8 list" where
  "be32enc x = [ucast (drop_bit 24 x AND 0xff), ucast (drop_bit 16 x AND 0xff),
                ucast (drop_bit 8 x AND 0xff), ucast (x AND 0xff)]"

definition be32enc_vect :: "u32 list \<Rightarrow> nat \<Rightarrow> u8 list" where
  "be32enc_vect src len = concat (map (\<lambda>i. be32enc (src ! i)) [0..<len div 4])"

definition be32dec_vect :: "u8 list \<Rightarrow> nat \<Rightarrow> u32 list" where
  "be32dec_vect src len = map (\<lambda>i. be32dec (drop (i * 4) src)) [0..<len div 4]"

subsection \<open>The code: the compression function\<close>

definition sha_Ch :: "u32 \<Rightarrow> u32 \<Rightarrow> u32 \<Rightarrow> u32" where
  "sha_Ch x y z = (x AND (y XOR z)) XOR z"

definition sha_Maj :: "u32 \<Rightarrow> u32 \<Rightarrow> u32 \<Rightarrow> u32" where
  "sha_Maj x y z = (x AND (y OR z)) OR (y AND z)"

definition sha_ROTR :: "u32 \<Rightarrow> nat \<Rightarrow> u32" where
  "sha_ROTR x n = drop_bit n x OR push_bit (32 - n) x"

definition sha_S0 :: "u32 \<Rightarrow> u32" where
  "sha_S0 x = sha_ROTR x 2 XOR sha_ROTR x 13 XOR sha_ROTR x 22"

definition sha_S1 :: "u32 \<Rightarrow> u32" where
  "sha_S1 x = sha_ROTR x 6 XOR sha_ROTR x 11 XOR sha_ROTR x 25"

definition sha_s0 :: "u32 \<Rightarrow> u32" where
  "sha_s0 x = sha_ROTR x 7 XOR sha_ROTR x 18 XOR drop_bit 3 x"

definition sha_s1 :: "u32 \<Rightarrow> u32" where
  "sha_s1 x = sha_ROTR x 17 XOR sha_ROTR x 19 XOR drop_bit 10 x"

text \<open>
  The macro \<^verbatim>\<open>RND\<close> on the array \<open>S\<close>: its eight arguments are the indices of the array elements that
  play the roles \<open>a\<close> to \<open>h\<close>.  \<^verbatim>\<open>RNDr\<close> gives the roles of round \<open>i\<close>.
\<close>

definition RND :: "u32 list \<Rightarrow> nat \<Rightarrow> nat \<Rightarrow> nat \<Rightarrow> nat \<Rightarrow> nat \<Rightarrow> nat \<Rightarrow> nat \<Rightarrow> nat \<Rightarrow> u32 \<Rightarrow> u32 list" where
  "RND S a b c d e f g h k =
     (let t0 = S ! h + sha_S1 (S ! e) + sha_Ch (S ! e) (S ! f) (S ! g) + k;
          t1 = sha_S0 (S ! a) + sha_Maj (S ! a) (S ! b) (S ! c);
          S = S[d := S ! d + t0]
      in S[h := t0 + t1])"

definition RNDr :: "u32 list \<Rightarrow> u32 list \<Rightarrow> nat \<Rightarrow> u32 \<Rightarrow> u32 list" where
  "RNDr S W i k =
     RND S ((64 - i) mod 8) ((65 - i) mod 8) ((66 - i) mod 8) ((67 - i) mod 8)
           ((68 - i) mod 8) ((69 - i) mod 8) ((70 - i) mod 8) ((71 - i) mod 8) (W ! i + k)"

text \<open>The 64 calls of \<^verbatim>\<open>RNDr\<close> in the order of the code: round number and constant.\<close>

definition SHA256_rounds :: "(nat \<times> u32) list" where
  "SHA256_rounds =
     [
      (0, 0x428a2f98), (1, 0x71374491), (2, 0xb5c0fbcf), (3, 0xe9b5dba5),
      (4, 0x3956c25b), (5, 0x59f111f1), (6, 0x923f82a4), (7, 0xab1c5ed5),
      (8, 0xd807aa98), (9, 0x12835b01), (10, 0x243185be), (11, 0x550c7dc3),
      (12, 0x72be5d74), (13, 0x80deb1fe), (14, 0x9bdc06a7), (15, 0xc19bf174),
      (16, 0xe49b69c1), (17, 0xefbe4786), (18, 0x0fc19dc6), (19, 0x240ca1cc),
      (20, 0x2de92c6f), (21, 0x4a7484aa), (22, 0x5cb0a9dc), (23, 0x76f988da),
      (24, 0x983e5152), (25, 0xa831c66d), (26, 0xb00327c8), (27, 0xbf597fc7),
      (28, 0xc6e00bf3), (29, 0xd5a79147), (30, 0x06ca6351), (31, 0x14292967),
      (32, 0x27b70a85), (33, 0x2e1b2138), (34, 0x4d2c6dfc), (35, 0x53380d13),
      (36, 0x650a7354), (37, 0x766a0abb), (38, 0x81c2c92e), (39, 0x92722c85),
      (40, 0xa2bfe8a1), (41, 0xa81a664b), (42, 0xc24b8b70), (43, 0xc76c51a3),
      (44, 0xd192e819), (45, 0xd6990624), (46, 0xf40e3585), (47, 0x106aa070),
      (48, 0x19a4c116), (49, 0x1e376c08), (50, 0x2748774c), (51, 0x34b0bcb5),
      (52, 0x391c0cb3), (53, 0x4ed8aa4a), (54, 0x5b9cca4f), (55, 0x682e6ff3),
      (56, 0x748f82ee), (57, 0x78a5636f), (58, 0x84c87814), (59, 0x8cc70208),
      (60, 0x90befffa), (61, 0xa4506ceb), (62, 0xbef9a3f7), (63, 0xc67178f2)]"

text \<open>
  The schedule array: the first 16 words are decoded from the block, and the loop writes each of the
  others before any round reads it (what the array holds there before is of no consequence, as
  \<open>schedule_reference\<close> below shows).
\<close>

definition SHA256_schedule :: "u8 list \<Rightarrow> u32 list" where
  "SHA256_schedule block =
     fold (\<lambda>i W. W[i := sha_s1 (W ! (i - 2)) + W ! (i - 7) + sha_s0 (W ! (i - 15)) + W ! (i - 16)])
       [16..<64] (be32dec_vect block 64 @ replicate 48 0)"

definition SHA256_Transform :: "u32 list \<Rightarrow> u8 list \<Rightarrow> u32 list" where
  "SHA256_Transform state block =
     (let W = SHA256_schedule block;
          S = fold (\<lambda>(i, k) S. RNDr S W i k) SHA256_rounds (take 8 state)
      in map (\<lambda>i. state ! i + S ! i) [0..<8])"

subsection \<open>The code: contexts\<close>

record eigrp_sha256_ctx =
  sha_state :: "u32 list"
  sha_count :: "u32 list"
  sha_buf :: "u8 list"

definition SHA256_PAD :: "u8 list" where
  "SHA256_PAD = 0x80 # replicate 63 0"

definition eigrp_sha256_init :: "eigrp_sha256_ctx \<Rightarrow> eigrp_sha256_ctx" where
  "eigrp_sha256_init ctx =
     ctx\<lparr>sha_count := [0, 0],
         sha_state := [0x6A09E667, 0xBB67AE85, 0x3C6EF372, 0xA54FF53A,
                       0x510E527F, 0x9B05688C, 0x1F83D9AB, 0x5BE0CD19]\<rparr>"

text \<open>The loop over complete blocks gives the state and the bytes it did not consume.\<close>

function sha256_blocks :: "u32 list \<Rightarrow> u8 list \<Rightarrow> u32 list \<times> u8 list" where
  "sha256_blocks state src =
     (if 64 \<le> length src then sha256_blocks (SHA256_Transform state (take 64 src)) (drop 64 src)
      else (state, src))"
  by pat_completeness auto
termination
  by (relation "measure (\<lambda>(state, src). length src)") auto

declare sha256_blocks.simps [simp del]

definition sha256_residue :: "eigrp_sha256_ctx \<Rightarrow> nat" where
  "sha256_residue ctx = unat (drop_bit 3 (sha_count ctx ! 1) AND 0x3f)"

definition sha256_count_add :: "u32 list \<Rightarrow> nat \<Rightarrow> u32 list" where
  "sha256_count_add cnt len =
     (let bitlen1 = push_bit 3 (of_nat len :: u32);
          bitlen0 = of_nat (len div 2 ^ 29);
          c1 = cnt ! 1 + bitlen1;
          c0 = (if c1 < bitlen1 then cnt ! 0 + 1 else cnt ! 0)
      in [c0 + bitlen0, c1])"

definition eigrp_sha256_update :: "eigrp_sha256_ctx \<Rightarrow> u8 list \<Rightarrow> eigrp_sha256_ctx" where
  "eigrp_sha256_update ctx src =
     (let r = sha256_residue ctx;
          ctx = ctx\<lparr>sha_count := sha256_count_add (sha_count ctx) (length src)\<rparr>
      in if length src < 64 - r then ctx\<lparr>sha_buf := memcpy_at (sha_buf ctx) r src\<rparr>
         else
           (let buf = memcpy_at (sha_buf ctx) r (take (64 - r) src);
                state = SHA256_Transform (sha_state ctx) buf;
                (state, rest) = sha256_blocks state (drop (64 - r) src)
            in ctx\<lparr>sha_state := state, sha_buf := memcpy_at buf 0 rest\<rparr>))"

definition SHA256_Pad :: "eigrp_sha256_ctx \<Rightarrow> eigrp_sha256_ctx" where
  "SHA256_Pad ctx =
     (let len = be32enc_vect (sha_count ctx) 8;
          r = sha256_residue ctx;
          plen = (if r < 56 then 56 - r else 120 - r);
          ctx = eigrp_sha256_update ctx (take plen SHA256_PAD)
      in eigrp_sha256_update ctx len)"

text \<open>The context after \<^verbatim>\<open>eigrp_memory_wipe\<close>.\<close>

definition sha256_wiped :: eigrp_sha256_ctx where
  "sha256_wiped = \<lparr>sha_state = replicate 8 0, sha_count = replicate 2 0, sha_buf = replicate 64 0\<rparr>"

definition eigrp_sha256_final :: "eigrp_sha256_ctx \<Rightarrow> u8 list \<times> eigrp_sha256_ctx" where
  "eigrp_sha256_final ctx = (be32enc_vect (sha_state (SHA256_Pad ctx)) 32, sha256_wiped)"

subsection \<open>The code: the keyed hash and key derivation\<close>

record eigrp_hmac_sha256_ctx =
  hmac_ictx :: eigrp_sha256_ctx
  hmac_octx :: eigrp_sha256_ctx

text \<open>\<open>pad\<close> filled with one byte, then the loop that folds the key into it.\<close>

definition hmac_pad :: "u8 \<Rightarrow> u8 list \<Rightarrow> u8 list" where
  "hmac_pad v K = fold (\<lambda>i pad. pad[i := pad ! i XOR K ! i]) [0..<length K] (replicate 64 v)"

definition eigrp_hmac_sha256_init :: "eigrp_hmac_sha256_ctx \<Rightarrow> u8 list \<Rightarrow> eigrp_hmac_sha256_ctx" where
  "eigrp_hmac_sha256_init ctx K =
     (let (K, ctx) =
            (if 64 < length K
             then (let i = eigrp_sha256_init (hmac_ictx ctx);
                       i = eigrp_sha256_update i K;
                       (khash, i) = eigrp_sha256_final i
                   in (khash, ctx\<lparr>hmac_ictx := i\<rparr>))
             else (K, ctx));
          ctx = ctx\<lparr>hmac_ictx := eigrp_sha256_update (eigrp_sha256_init (hmac_ictx ctx)) (hmac_pad 0x36 K)\<rparr>
      in ctx\<lparr>hmac_octx := eigrp_sha256_update (eigrp_sha256_init (hmac_octx ctx)) (hmac_pad 0x5c K)\<rparr>)"

definition eigrp_hmac_sha256_update :: "eigrp_hmac_sha256_ctx \<Rightarrow> u8 list \<Rightarrow> eigrp_hmac_sha256_ctx" where
  "eigrp_hmac_sha256_update ctx src = ctx\<lparr>hmac_ictx := eigrp_sha256_update (hmac_ictx ctx) src\<rparr>"

definition eigrp_hmac_sha256_final :: "eigrp_hmac_sha256_ctx \<Rightarrow> u8 list \<times> eigrp_hmac_sha256_ctx" where
  "eigrp_hmac_sha256_final ctx =
     (let (ihash, i) = eigrp_sha256_final (hmac_ictx ctx);
          (digest, oc) = eigrp_sha256_final (eigrp_sha256_update (hmac_octx ctx) ihash)
      in (digest, \<lparr>hmac_ictx = i, hmac_octx = oc\<rparr>))"

text \<open>
  \<^verbatim>\<open>eigrp_pbkdf2_sha256\<close>.  The loop variable \<open>j\<close> runs from 2 to \<open>c\<close>; with \<open>c = 2 ^ 64 - 1\<close> the
  comparison of the C code never fails, which is the \<open>None\<close> of the result.  \<open>hctx\<close> is the second
  context of the code, which starts uninitialised.
\<close>

fun pbkdf2_iterate :: "u8 list \<Rightarrow> nat \<Rightarrow> eigrp_hmac_sha256_ctx \<Rightarrow> u8 list \<Rightarrow> u8 list \<Rightarrow> u8 list \<times> eigrp_hmac_sha256_ctx" where
  "pbkdf2_iterate passwd 0 hctx U T = (T, hctx)"
| "pbkdf2_iterate passwd (Suc n) hctx U T =
     (let hctx = eigrp_hmac_sha256_update (eigrp_hmac_sha256_init hctx passwd) U;
          (U, hctx) = eigrp_hmac_sha256_final hctx;
          T = map (\<lambda>k. T ! k XOR U ! k) [0..<32]
      in pbkdf2_iterate passwd n hctx U T)"

function pbkdf2_blocks :: "eigrp_hmac_sha256_ctx \<Rightarrow> u8 list \<Rightarrow> nat \<Rightarrow> nat \<Rightarrow> nat \<Rightarrow> u8 list" where
  "pbkdf2_blocks PShctx passwd c dkLen i =
     (if i * 32 < dkLen
      then (let ivec = be32enc (of_nat (i + 1));
                hctx = eigrp_hmac_sha256_update PShctx ivec;
                (U, hctx) = eigrp_hmac_sha256_final hctx;
                (T, hctx) = pbkdf2_iterate passwd (c - 1) hctx U U;
                clen = (if 32 < dkLen - i * 32 then 32 else dkLen - i * 32)
            in take clen T @ pbkdf2_blocks PShctx passwd c dkLen (i + 1))
      else [])"
  by pat_completeness auto
termination
  by (relation "measure (\<lambda>(P, passwd, c, dkLen, i). dkLen - i * 32)") auto

declare pbkdf2_blocks.simps [simp del]

definition eigrp_pbkdf2_sha256 :: "u8 list \<Rightarrow> u8 list \<Rightarrow> u64 \<Rightarrow> nat \<Rightarrow> u8 list option" where
  "eigrp_pbkdf2_sha256 passwd salt c dkLen =
     (let PShctx = \<lparr>hmac_ictx = sha256_wiped, hmac_octx = sha256_wiped\<rparr>;
          PShctx = eigrp_hmac_sha256_update (eigrp_hmac_sha256_init PShctx passwd) salt
      in if c = - 1 \<and> 0 < dkLen then None else Some (pbkdf2_blocks PShctx passwd (unat c) dkLen 0))"

subsection \<open>The standard\<close>

definition fips_Ch :: "u32 \<Rightarrow> u32 \<Rightarrow> u32 \<Rightarrow> u32" where
  "fips_Ch x y z = (x AND y) XOR (NOT x AND z)"

definition fips_Maj :: "u32 \<Rightarrow> u32 \<Rightarrow> u32 \<Rightarrow> u32" where
  "fips_Maj x y z = (x AND y) XOR (x AND z) XOR (y AND z)"

definition fips_Sigma :: "nat \<Rightarrow> nat \<Rightarrow> nat \<Rightarrow> u32 \<Rightarrow> u32" where
  "fips_Sigma p q r x = word_rotr p x XOR word_rotr q x XOR word_rotr r x"

definition fips_sigma :: "nat \<Rightarrow> nat \<Rightarrow> nat \<Rightarrow> u32 \<Rightarrow> u32" where
  "fips_sigma p q r x = word_rotr p x XOR word_rotr q x XOR drop_bit r x"

text \<open>The message schedule of a block of sixteen words.\<close>

fun fips_W :: "u32 list \<Rightarrow> nat \<Rightarrow> u32" where
  "fips_W M t =
     (if t < 16 then M ! t
      else fips_sigma 17 19 10 (fips_W M (t - 2)) + fips_W M (t - 7)
             + fips_sigma 7 18 3 (fips_W M (t - 15)) + fips_W M (t - 16))"

declare fips_W.simps [simp del]

text \<open>One round moves the eight working variables on by one name.\<close>

fun fips_round :: "u32 \<Rightarrow> u32 \<Rightarrow> u32 list \<Rightarrow> u32 list" where
  "fips_round k w [a, b, c, d, e, f, g, h] =
     (let T1 = h + fips_Sigma 6 11 25 e + fips_Ch e f g + k + w;
          T2 = fips_Sigma 2 13 22 a + fips_Maj a b c
      in [T1 + T2, a, b, c, d + T1, e, f, g])"
| "fips_round k w V = V"

text \<open>
  The constants: the first 32 bits of the fractional parts of the cube roots of the first 64 primes, and of the square roots of the
  first eight (the integer part of the root is cut off by the width of the word).
\<close>

definition first_primes :: "nat list" where
  "first_primes =
     [2, 3, 5, 7, 11, 13, 17, 19, 23, 29, 31, 37, 41, 43, 47, 53, 59, 61, 67, 71, 73, 79, 83, 89, 97, 101,
      103, 107, 109, 113, 127, 131, 137, 139, 149, 151, 157, 163, 167, 173, 179, 181, 191, 193, 197, 199,
      211, 223, 227, 229, 233, 239, 241, 251, 257, 263, 269, 271, 277, 281, 283, 293, 307, 311]"

definition fips_root :: "nat \<Rightarrow> nat \<Rightarrow> u32" where
  "fips_root n p = word_of_int \<lfloor>2 ^ 32 * root n (real p)\<rfloor>"

definition fips_K :: "nat \<Rightarrow> u32" where
  "fips_K t = fips_root 3 (first_primes ! t)"

definition fips_compress :: "u32 list \<Rightarrow> u8 list \<Rightarrow> u32 list" where
  "fips_compress H block =
     (let M = map (\<lambda>i. ntohl (drop (4 * i) block)) [0..<16];
          V = fold (\<lambda>t. fips_round (fips_K t) (fips_W M t)) [0..<64] H
      in map2 (+) H V)"

definition fips_H0 :: "u32 list" where
  "fips_H0 = map (fips_root 2) (take 8 first_primes)"

text \<open>Padding: a one bit, zeros up to 56 modulo 64 bytes, and the length in bits as 64 bits.\<close>

definition fips_pad :: "u8 list \<Rightarrow> u8 list" where
  "fips_pad m =
     (let l = of_nat (8 * length m) :: u64
      in m @ 0x80 # replicate ((119 - length m mod 64) mod 64) 0
           @ htonl (ucast (drop_bit 32 l)) @ htonl (ucast l))"

definition sha256 :: "u8 list \<Rightarrow> u8 list" where
  "sha256 m = concat (map htonl (absorb fips_compress fips_H0 (fips_pad m)))"

subsection \<open>The constants of the code are those of the standard\<close>

text \<open>An integer test for the bits of a root; \<open>i\<close> is the integer part of the root.\<close>

definition fraction_of_root :: "nat \<Rightarrow> nat \<Rightarrow> nat \<Rightarrow> u32 \<Rightarrow> bool" where
  "fraction_of_root n p i k \<longleftrightarrow>
     (i * 2 ^ 32 + unat k) ^ n \<le> p * 2 ^ (32 * n) \<and> p * 2 ^ (32 * n) < (i * 2 ^ 32 + unat k + 1) ^ n"

lemma fips_root_eq:
  assumes n: "0 < n" and f: "fraction_of_root n p i k"
  shows "fips_root n p = k"
proof -
  let ?m = "i * 2 ^ 32 + unat k" and ?x = "2 ^ 32 * root n (real p)"
  have x: "0 \<le> ?x" using n by simp
  have "?x ^ n = real (p * 2 ^ (32 * n))" using n by (simp add: power_mult_distrib power_mult)
  moreover have "real (?m ^ n) \<le> real (p * 2 ^ (32 * n))" "real (p * 2 ^ (32 * n)) < real ((?m + 1) ^ n)"
    using f unfolding fraction_of_root_def of_nat_le_iff of_nat_less_iff by simp_all
  ultimately have "real ?m ^ n \<le> ?x ^ n" "?x ^ n < real (?m + 1) ^ n" by (simp_all only: of_nat_power)
  then have "real ?m \<le> ?x" "?x < real (?m + 1)"
    using power_mono_iff [OF of_nat_0_le_iff x n] power_less_imp_less_base [OF _ of_nat_0_le_iff] by blast+
  then have "\<lfloor>?x\<rfloor> = int ?m" by (intro floor_unique) simp_all
  moreover have "(word_of_int (int ?m) :: u32) = k"
  proof -
    have "(4294967296 :: u32) = 0" by code_simp
    then have "y * (4294967296 :: u32) = 0" for y by (simp only: mult_zero_right)
    then show ?thesis by simp
  qed
  ultimately show ?thesis by (simp only: fips_root_def)
qed

lemma fips_roots:
  assumes "0 < n" and "list_all2 (\<lambda>(p, i) k. fraction_of_root n p i k) (zip ps is) ks"
  shows "map (fips_root n) (map fst (zip ps is)) = ks"
  using assms(2)
proof (induction "zip ps is" ks arbitrary: ps "is" rule: list_all2_induct)
  case Nil
  then show ?case by (metis list.simps(8))
next
  case (Cons x xs y ys)
  then obtain p ps' i is' where "ps = p # ps'" "is = i # is'" "x = (p, i)" by (cases ps; cases "is") auto
  then show ?case using Cons fips_root_eq [OF assms(1)] by auto
qed

lemma sha256_round_constants:
  "list_all2 (\<lambda>(p, i) k. fraction_of_root 3 p i k)
     (zip first_primes [1, 1, 1, 1, 2, 2, 2, 2, 2, 3, 3, 3, 3, 3, 3, 3, 3, 3, 4, 4, 4, 4, 4, 4, 4, 4, 4, 4, 4, 4, 5, 5,
        5, 5, 5, 5, 5, 5, 5, 5, 5, 5, 5, 5, 5, 5, 5, 6, 6, 6, 6, 6, 6, 6, 6, 6, 6, 6, 6, 6, 6, 6, 6, 6])
     (map snd SHA256_rounds)"
  unfolding first_primes_def SHA256_rounds_def fraction_of_root_def by simp

lemma sha256_initial_constants:
  "list_all2 (\<lambda>(p, i) k. fraction_of_root 2 p i k) (zip first_primes [1, 1, 2, 2, 3, 3, 4, 4])
     (sha_state (eigrp_sha256_init sha256_wiped))"
  unfolding first_primes_def eigrp_sha256_init_def fraction_of_root_def by simp

lemma fips_K_code: "t < 64 \<Longrightarrow> fips_K t = snd (SHA256_rounds ! t)"
proof -
  assume t: "t < 64"
  have l: "length first_primes = 64" by (simp add: first_primes_def)
  have "map (fips_root 3) first_primes = map snd SHA256_rounds"
    using fips_roots [OF _ sha256_round_constants] l by (simp add: map_fst_zip_take)
  then have "map (fips_root 3) first_primes ! t = map snd SHA256_rounds ! t" by (simp only:)
  moreover have "length SHA256_rounds = 64" by (simp add: SHA256_rounds_def)
  ultimately show ?thesis using t l by (simp add: fips_K_def)
qed

lemma fips_H0_code: "fips_H0 = sha_state (eigrp_sha256_init sha256_wiped)"
proof -
  have "length first_primes = 64" by (simp add: first_primes_def)
  then show ?thesis using fips_roots [OF _ sha256_initial_constants] by (simp add: map_fst_zip_take fips_H0_def eval_nat_numeral)
qed

lemma be32dec_eq: "be32dec p = ntohl p"
proof -
  have "be32dec p = ((ucast (p ! 3) OR push_bit 8 (ucast (p ! 2))) OR push_bit 16 (ucast (p ! 1))) OR push_bit 24 (ucast (p ! 0))"
    unfolding be32dec_def
    by (subst disjunctive_add_eq_or, (rule bit_word_eqI, auto simp: bit_simps dest: bit_imp_le_length)[1])+ (rule refl)
  then show ?thesis by (simp add: ntohl_def ac_simps)
qed

lemma u32_255: "(0xff :: u32) = mask 8"
  by (simp add: mask_eq_exp_minus_1)

lemma be32enc_eq: "be32enc x = htonl x"
  by (auto simp: be32enc_def htonl_def u32_255 bit_simps intro!: bit_word_eqI)

lemma sha_ROTR_eq:
  assumes "0 < n" "n < 32"
  shows "sha_ROTR x n = word_rotr n x"
proof (rule bit_word_eqI)
  fix k assume "k < LENGTH(32)"
  then have k: "k < 32" by simp
  show "bit (sha_ROTR x n) k = bit (word_rotr n x) k"
  proof (cases "k + n < 32")
    case True
    with assms k show ?thesis by (auto simp: sha_ROTR_def bit_simps add.commute)
  next
    case False
    then have "\<not> bit x (n + k)" using bit_imp_le_length [of x "n + k"] by auto
    moreover from False assms k have "(k + n) mod 32 = k - (32 - n)" "32 - n \<le> k"
      by (simp_all add: le_mod_geq)
    ultimately show ?thesis using assms k by (simp add: sha_ROTR_def bit_simps)
  qed
qed

lemma sha_Ch_eq: "sha_Ch x y z = fips_Ch x y z"
  by (rule bit_word_eqI) (auto simp: sha_Ch_def fips_Ch_def bit_simps)

lemma sha_Maj_eq: "sha_Maj x y z = fips_Maj x y z"
  by (rule bit_word_eqI) (auto simp: sha_Maj_def fips_Maj_def bit_simps)

lemma sha_sigma_eq:
  "sha_S0 x = fips_Sigma 2 13 22 x" "sha_S1 x = fips_Sigma 6 11 25 x"
  "sha_s0 x = fips_sigma 7 18 3 x" "sha_s1 x = fips_sigma 17 19 10 x"
  by (simp_all add: sha_S0_def sha_S1_def sha_s0_def sha_s1_def fips_Sigma_def fips_sigma_def sha_ROTR_eq)

lemmas sha_functions_eq = sha_Ch_eq sha_Maj_eq sha_sigma_eq

subsection \<open>The compression function\<close>

lemma be32dec_vect_64: "be32dec_vect block 64 = map (\<lambda>i. ntohl (drop (4 * i) block)) [0..<16]"
  by (simp add: be32dec_vect_def be32dec_eq mult.commute)

lemma schedule_prefix:
  fixes M :: "u32 list"
  assumes M: "length M = 16" and n: "n \<le> 48"
  defines "W \<equiv> \<lambda>n. fold (\<lambda>i W. W[i := sha_s1 (W ! (i - 2)) + W ! (i - 7) + sha_s0 (W ! (i - 15)) + W ! (i - 16)])
                     [16..<16 + n] (M @ replicate 48 0)"
  shows "length (W n) = 64 \<and> (\<forall>t < 16 + n. W n ! t = fips_W M t)"
  using n
proof (induction n)
  case 0
  with M show ?case by (simp add: W_def nth_append fips_W.simps [of M])
next
  case (Suc n)
  let ?i = "16 + n"
  from Suc have len: "length (W n) = 64" and old: "\<And>t. t < ?i \<Longrightarrow> W n ! t = fips_W M t" by auto
  have upt: "[16..<16 + Suc n] = [16..<?i] @ [?i]" using upt_Suc_append [of 16 ?i] by simp
  have "W (Suc n) = (W n)[?i := sha_s1 (W n ! (?i - 2)) + W n ! (?i - 7) + sha_s0 (W n ! (?i - 15)) + W n ! (?i - 16)]"
    unfolding W_def upt by simp
  also have "\<dots> = (W n)[?i := fips_W M ?i]"
    using old by (simp add: fips_W.simps [of M ?i] sha_sigma_eq)
  finally have step: "W (Suc n) = (W n)[?i := fips_W M ?i]" .
  show ?case using len old Suc.prems unfolding step by (auto simp: nth_list_update less_Suc_eq)
qed

lemma schedule_reference:
  assumes "t < 64"
  shows "SHA256_schedule block ! t = fips_W (map (\<lambda>i. ntohl (drop (4 * i) block)) [0..<16]) t"
proof -
  let ?M = "map (\<lambda>i. ntohl (drop (4 * i) block)) [0..<16]"
  have M: "length ?M = 16" and n: "(48 :: nat) \<le> 48" and e: "(16 :: nat) + 48 = 64" by simp_all
  show ?thesis
    using schedule_prefix [OF M n, unfolded e] assms unfolding SHA256_schedule_def be32dec_vect_64 by blast
qed

text \<open>The roles \<open>a\<close> to \<open>h\<close> before round \<open>i\<close>.\<close>

definition sha_roles :: "nat \<Rightarrow> u32 list \<Rightarrow> u32 list" where
  "sha_roles i S = map (\<lambda>j. S ! ((64 - i + j) mod 8)) [0..<8]"

lemma list8: "length S = 8 \<Longrightarrow> \<exists>a b c d e f g h. S = [a, b, c, d, e, f, g, h]"
  by (auto simp: eval_nat_numeral length_Suc_conv)

lemma upt8: "[0..<8] = [0, 1, 2, 3, 4, 5, 6, 7::nat]"
  by code_simp

lemma sha_roles_ends:
  assumes "length S = 8"
  shows "sha_roles 0 S = S" "sha_roles 64 S = S"
  using list8 [OF assms] by (auto simp: sha_roles_def upt8)

lemma length_RNDr [simp]: "length (RNDr S W i k) = length S"
  by (simp add: RNDr_def RND_def Let_def)

lemma RNDr_round:
  assumes "length S = 8" "i < 64"
  shows "sha_roles (Suc i) (RNDr S W i k) = fips_round k (W ! i) (sha_roles i S)"
proof -
  define r where "r = (64 - i) mod 8"
  have here: "(64 + j - i) mod 8 = (r + j) mod 8" for j
    using assms(2) by (simp add: r_def mod_simps)
  have after: "(64 - Suc i + j) mod 8 = (r + (j + 7)) mod 8" for j
  proof -
    have "64 - Suc i + j + 8 = 64 - i + (j + 7)" using assms(2) by simp
    then have "(64 - Suc i + j) mod 8 = (64 - i + (j + 7)) mod 8" by (metis mod_add_self2)
    then show ?thesis by (simp add: r_def mod_simps)
  qed
  have roles: "(64 - i + j) mod 8 = (r + j) mod 8" for j by (simp add: r_def mod_simps)
  from list8 [OF assms(1)] obtain a b c d e f g h where S: "S = [a, b, c, d, e, f, g, h]" by blast
  have "r < 8" by (simp add: r_def)
  then consider "r = 0" | "r = 1" | "r = 2" | "r = 3" | "r = 4" | "r = 5" | "r = 6" | "r = 7" by linarith
  then show ?thesis
    unfolding sha_roles_def RNDr_def after roles here [of 0, simplified] here [of 1, simplified] here [of 2, simplified]
      here [of 3, simplified] here [of 4, simplified] here [of 5, simplified] here [of 6, simplified] here [of 7, simplified] S
    by cases (simp_all add: upt8 RND_def Let_def sha_functions_eq ac_simps)
qed

lemma SHA256_rounds_map: "SHA256_rounds = map (\<lambda>t. (t, fips_K t)) [0..<64]"
proof -
  have "map fst SHA256_rounds = [0..<64]" unfolding SHA256_rounds_def by code_simp
  then have "length SHA256_rounds = 64" "\<And>t. t < 64 \<Longrightarrow> fst (SHA256_rounds ! t) = t"
    by (metis length_map length_upt minus_nat.diff_0, metis length_map length_upt minus_nat.diff_0 nth_map nth_upt plus_nat.add_0)
  then show ?thesis by (intro nth_equalityI) (simp_all add: fips_K_code prod_eq_iff)
qed

lemma length_fold_RNDr [simp]: "length (fold (\<lambda>t S. RNDr S W t (k t)) ts S) = length S"
  by (induction ts arbitrary: S) auto

lemma fold_RNDr_round:
  assumes "length S = 8" "n \<le> 64"
  shows "sha_roles n (fold (\<lambda>t S. RNDr S W t (k t)) [0..<n] S)
           = fold (\<lambda>t. fips_round (k t) (W ! t)) [0..<n] S"
  using assms(2)
proof (induction n)
  case 0
  then show ?case by (simp add: sha_roles_ends assms(1))
next
  case (Suc n)
  then show ?case using RNDr_round [of "fold (\<lambda>t S. RNDr S W t (k t)) [0..<n] S" n] assms(1) by simp
qed

lemma SHA256_Transform_reference:
  assumes "length state = 8"
  shows "SHA256_Transform state block = fips_compress state block"
proof -
  let ?W = "SHA256_schedule block" and ?M = "map (\<lambda>i. ntohl (drop (4 * i) block)) [0..<16]"
  let ?S = "fold (\<lambda>t S. RNDr S ?W t (fips_K t)) [0..<64] state"
  have "fold (\<lambda>(i, k) S. RNDr S ?W i k) SHA256_rounds state = ?S"
    by (simp only: SHA256_rounds_map fold_map o_def prod.case)
  then have "SHA256_Transform state block = map (\<lambda>i. state ! i + ?S ! i) [0..<8]"
    using assms by (simp only: SHA256_Transform_def Let_def take_all order_refl)
  also have "\<dots> = map2 (+) state ?S"
    using assms by (intro nth_equalityI) simp_all
  also have "?S = fold (\<lambda>t. fips_round (fips_K t) (?W ! t)) [0..<64] state"
    using fold_RNDr_round [OF assms, of 64 ?W fips_K] sha_roles_ends(2) [of ?S] assms by (simp only: length_fold_RNDr order_refl)
  also have "\<dots> = fold (\<lambda>t. fips_round (fips_K t) (fips_W ?M t)) [0..<64] state"
    by (rule fold_cong) (simp_all add: schedule_reference)
  finally show ?thesis by (simp only: fips_compress_def Let_def)
qed

lemma length_SHA256_Transform [simp]: "length (SHA256_Transform state block) = 8"
  by (simp add: SHA256_Transform_def Let_def)

subsection \<open>The length counter\<close>

text \<open>What the counter holds after \<open>n\<close> bytes: the number of bits, modulo \<open>2 ^ 64\<close>, in two words.\<close>

definition sha256_bits :: "nat \<Rightarrow> u32 list" where
  "sha256_bits n = [of_nat (n div 2 ^ 29), of_nat (8 * n)]"

lemma unat_u32_mult8: "unat (of_nat (8 * n) :: u32) = 8 * (n mod 2 ^ 29)"
  by (simp add: unat_of_nat mult_mod_right del: of_nat_mult)

lemma div_add_carry:
  fixes k n l :: nat
  assumes "0 < k"
  shows "(n + l) div k = n div k + l div k + (if (n + l) mod k < l mod k then 1 else 0)"
proof -
  have lt: "n mod k < k" "l mod k < k" using assms by simp_all
  have "(n mod k + l mod k) div k = (if (n mod k + l mod k) mod k < l mod k then 1 else 0)"
  proof (cases "n mod k + l mod k < k")
    case False
    with lt have "n mod k + l mod k - k < k" "n mod k + l mod k - k < l mod k" by arith+
    with False assms show ?thesis by (simp add: le_div_geq le_mod_geq)
  qed simp
  then show ?thesis by (simp add: div_add1_eq [of n l] mod_add_eq)
qed

lemma sha256_count_add_bits: "sha256_count_add (sha256_bits n) l = sha256_bits (n + l)"
proof -
  have k: "0 < (2 ^ 29 :: nat)" by simp
  have b: "push_bit 3 (of_nat l :: u32) = of_nat (8 * l)" by (simp add: push_bit_eq_mult)
  have c: "of_nat (8 * n) + of_nat (8 * l) = (of_nat (8 * (n + l)) :: u32)" by (simp add: algebra_simps)
  have "(of_nat (8 * (n + l)) :: u32) < of_nat (8 * l) \<longleftrightarrow> (n + l) mod 2 ^ 29 < l mod 2 ^ 29"
    by (simp only: word_less_nat_alt unat_u32_mult8) simp
  then show ?thesis
    unfolding sha256_count_add_def sha256_bits_def Let_def b nth_Cons_0 nth_Cons_Suc One_nat_def c
      div_add_carry [OF k, of n l]
    by (simp add: ac_simps del: of_nat_mult)
qed

lemma sha256_residue_bits:
  assumes "sha_count ctx = sha256_bits n"
  shows "sha256_residue ctx = n mod 64"
proof -
  have m: "(0x3f :: u32) = mask 6" by (simp add: mask_eq_exp_minus_1)
  have "unat (drop_bit 3 (of_nat (8 * n) :: u32) AND mask 6) = n mod 2 ^ 29 mod 64"
    by (simp only: unsigned_take_bit_eq unat_drop_bit_eq unat_u32_mult8 flip: take_bit_eq_mask)
      (simp add: drop_bit_eq_div take_bit_eq_mod)
  also have "\<dots> = n mod 64" by (simp add: mod_mod_cancel)
  finally show ?thesis using assms by (simp add: sha256_residue_def sha256_bits_def m)
qed

lemma sha256_bits_enc:
  "be32enc_vect (sha256_bits n) 8
     = htonl (ucast (drop_bit 32 (of_nat (8 * n) :: u64))) @ htonl (ucast (of_nat (8 * n) :: u64))"
proof -
  have lo: "ucast (of_nat (8 * n) :: u64) = (of_nat (8 * n) :: u32)"
    by (rule bit_word_eqI) (auto simp: bit_simps simp del: of_nat_mult)
  have "(8 * n) mod 2 ^ 64 div 2 ^ 32 = n div 2 ^ 29 mod 2 ^ 32"
  proof -
    have "8 * n mod 2 ^ 64 div 2 ^ 32 = 8 * n div 2 ^ 32 mod 2 ^ 32"
      using mod_mult2_eq [of "8 * n" "2 ^ 32" "2 ^ 32"] by (simp flip: power_add)
    also have "8 * n div 2 ^ 32 = n div 2 ^ 29"
      using div_mult_mult1 [of 8 n "2 ^ 29"] by simp
    finally show ?thesis .
  qed
  then have hi: "ucast (drop_bit 32 (of_nat (8 * n) :: u64)) = (of_nat (n div 2 ^ 29) :: u32)"
    by (intro word_unat_eq_iff [THEN iffD2])
      (simp only: unsigned_ucast_eq unat_drop_bit_eq drop_bit_eq_div [where ?'a = nat] unat_of_nat take_bit_eq_mod, simp del: of_nat_mult)
  show ?thesis unfolding lo hi by (simp add: be32enc_vect_def sha256_bits_def be32enc_eq numeral_2_eq_2)
qed

subsection \<open>Streaming\<close>

text \<open>The context has consumed the message \<open>m\<close>.\<close>

definition sha256_rep :: "eigrp_sha256_ctx \<Rightarrow> u8 list \<Rightarrow> bool" where
  "sha256_rep ctx m \<longleftrightarrow>
     buffers SHA256_Transform fips_H0 (sha_state ctx) (sha_buf ctx) m \<and> sha_count ctx = sha256_bits (length m)"

lemma sha256_rep_init: "length (sha_buf ctx) = 64 \<Longrightarrow> sha256_rep (eigrp_sha256_init ctx) []"
  by (simp add: sha256_rep_def eigrp_sha256_init_def fips_H0_code sha256_bits_def)

lemma sha256_blocks_absorb: "sha256_blocks h src = (absorb SHA256_Transform h src, leftover src)"
proof (induction h src rule: sha256_blocks.induct)
  case (1 h src)
  show ?case
  proof (cases "64 \<le> length src")
    case True
    with 1 show ?thesis
      by (simp add: sha256_blocks.simps [of h src] absorb.simps [of _ h src] leftover_drop)
  next
    case False
    then show ?thesis by (simp add: sha256_blocks.simps [of h src] leftover_short)
  qed
qed

lemma sha256_rep_update:
  assumes "sha256_rep ctx m"
  shows "sha256_rep (eigrp_sha256_update ctx x) (m @ x)"
proof -
  let ?r = "length m mod 64"
  let ?y = "drop (64 - ?r) x" and ?b = "memcpy_at (sha_buf ctx) ?r (take (64 - ?r) x)"
  from assms have B: "buffers SHA256_Transform fips_H0 (sha_state ctx) (sha_buf ctx) m"
    and C: "sha_count ctx = sha256_bits (length m)" by (simp_all add: sha256_rep_def)
  have r: "sha256_residue ctx = ?r" by (rule sha256_residue_bits) (rule C)
  note upd = eigrp_sha256_update_def [of ctx x, unfolded Let_def r C sha256_count_add_bits]
  show ?thesis
  proof (cases "length x < 64 - ?r")
    case True
    then show ?thesis using buffers_short [OF B, of x] unfolding upd by (simp add: sha256_rep_def)
  next
    case False
    then have l: "64 \<le> ?r + length x" by simp
    have "length (sha_buf ctx) = 64" using B by (simp add: buffers_def)
    then have len: "length ?b = 64" using l by simp
    have "buffers SHA256_Transform fips_H0 (absorb SHA256_Transform (SHA256_Transform (sha_state ctx) ?b) ?y)
        (memcpy_at ?b 0 (leftover ?y)) (m @ x)"
      by (intro buffers_long [OF B refl l] memcpy_leftover len)
    then show ?thesis using False unfolding upd by (simp add: sha256_rep_def sha256_blocks_absorb)
  qed
qed

lemma absorb_reference:
  "length h = 8 \<Longrightarrow> absorb SHA256_Transform h bs = absorb fips_compress h bs \<and> length (absorb fips_compress h bs) = 8"
proof (induction "SHA256_Transform" h bs rule: absorb.induct)
  case (1 h bs)
  then show ?case
    using SHA256_Transform_reference [of h "take 64 bs"] length_SHA256_Transform [of h "take 64 bs"]
    by (auto simp: absorb.simps [of _ h bs])
qed

lemma length_fips_H0 [simp]: "length fips_H0 = 8"
  by (simp add: fips_H0_code eigrp_sha256_init_def)

lemma SHA256_PAD_prefix: "0 < n \<Longrightarrow> n \<le> 64 \<Longrightarrow> take n SHA256_PAD = 0x80 # replicate (n - 1) 0"
  by (cases n) (simp_all add: SHA256_PAD_def)

lemma pad_length:
  fixes r :: nat
  assumes "r < 64"
  defines "p \<equiv> if r < 56 then 56 - r else 120 - r"
  shows "0 < p" "p \<le> 64" "p - 1 = (119 - r) mod 64"
  using assms by (cases "r < 56", simp_all add: le_mod_geq)+

lemma sha256_rep_pad:
  assumes "sha256_rep ctx m"
  shows "sha256_rep (SHA256_Pad ctx) (fips_pad m)"
proof -
  let ?r = "length m mod 64"
  let ?p = "if ?r < 56 then 56 - ?r else 120 - ?r"
  from assms have C: "sha_count ctx = sha256_bits (length m)" by (simp add: sha256_rep_def)
  have r: "sha256_residue ctx = ?r" by (rule sha256_residue_bits) (rule C)
  have "0 < ?p" "?p \<le> 64" "?p - 1 = (119 - ?r) mod 64" using pad_length [of ?r] by (simp_all only: mod_less_divisor zero_less_numeral)
  then have "take ?p SHA256_PAD = 0x80 # replicate ((119 - ?r) mod 64) 0" by (simp only: SHA256_PAD_prefix)
  then have "fips_pad m = (m @ take ?p SHA256_PAD) @ be32enc_vect (sha256_bits (length m)) 8"
    by (simp only: fips_pad_def Let_def sha256_bits_enc append_Cons append_Nil append_assoc)
  moreover have "sha256_rep (SHA256_Pad ctx) ((m @ take ?p SHA256_PAD) @ be32enc_vect (sha256_bits (length m)) 8)"
    unfolding SHA256_Pad_def Let_def r C by (intro sha256_rep_update assms)
  ultimately show ?thesis by simp
qed

lemma be32enc_vect_32:
  assumes "length h = 8"
  shows "be32enc_vect h 32 = concat (map htonl h)"
proof -
  have "map (\<lambda>i. be32enc (h ! i)) [0..<32 div 4] = map htonl h"
    using assms by (intro nth_equalityI) (simp_all add: be32enc_eq)
  then show ?thesis by (simp only: be32enc_vect_def)
qed

lemma sha256_final_hash:
  assumes "sha256_rep ctx m"
  shows "fst (eigrp_sha256_final ctx) = sha256 m"
proof -
  have "sha_state (SHA256_Pad ctx) = absorb fips_compress fips_H0 (fips_pad m)"
    using sha256_rep_pad [OF assms] absorb_reference [of fips_H0 "fips_pad m"]
    by (simp add: sha256_rep_def buffers_def)
  then show ?thesis
    using absorb_reference [of fips_H0 "fips_pad m"]
    by (simp add: eigrp_sha256_final_def sha256_def be32enc_vect_32)
qed

lemma length_sha256 [simp]: "length (sha256 m) = 32"
  using absorb_reference [of fips_H0 "fips_pad m"]
  by (simp add: sha256_def length_concat comp_def sum_list_triv)

interpretation sha256_stream: digest_stream sha256_rep "\<lambda>_. True"
  "\<lambda>c x. Some (eigrp_sha256_update c x)" "\<lambda>c. Some (fst (eigrp_sha256_final c))" sha256
  by unfold_locales (auto simp: sha256_rep_update sha256_final_hash)

lemma feed_Some: "feed (\<lambda>c x. Some (u c x)) c xs = Some (foldl u c xs)"
  by (induction xs arbitrary: c) auto

subsection \<open>The keyed hash\<close>

lemma hmac_pad_key:
  assumes "length K \<le> 64"
  shows "hmac_pad v K = map (\<lambda>k. k XOR v) (K @ replicate (64 - length K) 0)"
proof -
  let ?f = "\<lambda>i pad. pad[i := pad ! i XOR K ! i]"
  have "length (fold ?f [0..<n] (replicate 64 v)) = 64
      \<and> (\<forall>i<64. fold ?f [0..<n] (replicate 64 v) ! i = (if i < n then K ! i XOR v else v))"
    if "n \<le> length K" for n
    using that
  proof (induction n)
    case (Suc n)
    with assms show ?case by (auto simp: nth_list_update less_Suc_eq xor.commute)
  qed simp
  from this [OF order_refl] show ?thesis
    using assms unfolding hmac_pad_def by (intro nth_equalityI) (auto simp: nth_append)
qed

definition hmac_rep :: "u8 list \<Rightarrow> eigrp_hmac_sha256_ctx \<Rightarrow> u8 list \<Rightarrow> bool" where
  "hmac_rep K ctx m \<longleftrightarrow>
     sha256_rep (hmac_ictx ctx) (map (\<lambda>k. k XOR 0x36) (hmac_key sha256 K) @ m)
     \<and> sha256_rep (hmac_octx ctx) (map (\<lambda>k. k XOR 0x5c) (hmac_key sha256 K))"

definition hmac_buffers :: "eigrp_hmac_sha256_ctx \<Rightarrow> bool" where
  "hmac_buffers ctx \<longleftrightarrow> length (sha_buf (hmac_ictx ctx)) = 64 \<and> length (sha_buf (hmac_octx ctx)) = 64"

lemma length_wiped [simp]: "length (sha_buf sha256_wiped) = 64"
  by (simp add: sha256_wiped_def)

lemma sha256_rep_first: "length (sha_buf ctx) = 64 \<Longrightarrow> sha256_rep (eigrp_sha256_update (eigrp_sha256_init ctx) x) x"
  using sha256_rep_update [OF sha256_rep_init, of ctx x] by simp

lemma hmac_rep_init:
  assumes "hmac_buffers ctx"
  shows "hmac_rep K (eigrp_hmac_sha256_init ctx K) []"
proof -
  have h: "fst (eigrp_sha256_final (eigrp_sha256_update (eigrp_sha256_init (hmac_ictx ctx)) K)) = sha256 K"
    using assms by (intro sha256_final_hash sha256_rep_first) (simp add: hmac_buffers_def)
  have "length (sha_buf (hmac_ictx ctx)) = 64" "length (sha_buf (hmac_octx ctx)) = 64"
    using assms by (simp_all add: hmac_buffers_def)
  then show ?thesis
    using h
    by (auto simp: hmac_rep_def eigrp_hmac_sha256_init_def hmac_key_def hmac_pad_key sha256_rep_first
        eigrp_sha256_final_def Let_def split: prod.splits)
qed

lemma hmac_rep_update: "hmac_rep K ctx m \<Longrightarrow> hmac_rep K (eigrp_hmac_sha256_update ctx x) (m @ x)"
  using sha256_rep_update [of "hmac_ictx ctx" "map (\<lambda>k. k XOR 0x36) (hmac_key sha256 K) @ m" x]
  by (simp add: hmac_rep_def eigrp_hmac_sha256_update_def)

lemma hmac_rep_updates: "hmac_rep K ctx m \<Longrightarrow> hmac_rep K (foldl eigrp_hmac_sha256_update ctx xs) (m @ concat xs)"
proof (induction xs arbitrary: ctx m)
  case (Cons x xs)
  then show ?case using Cons.IH [OF hmac_rep_update, of ctx m x] by simp
qed simp

lemma hmac_final_hash:
  "hmac_rep K ctx m \<Longrightarrow> fst (eigrp_hmac_sha256_final ctx) = hmac sha256 K m"
  using sha256_stream.hmac_contexts [of "hmac_ictx ctx" K m "hmac_octx ctx"]
  by (auto simp: hmac_rep_def eigrp_hmac_sha256_final_def split: prod.splits)

lemma hmac_final_buffers: "hmac_buffers (snd (eigrp_hmac_sha256_final ctx))"
  by (simp add: eigrp_hmac_sha256_final_def eigrp_sha256_final_def hmac_buffers_def)

lemma length_hmac_sha256 [simp]: "length (hmac sha256 K m) = 32"
  by (simp add: hmac_def)

subsection \<open>Key derivation\<close>

text \<open>PBKDF2 of RFC 8018 over a pseudo-random function: \<open>U\<close> is the chain of one block.\<close>

fun pbkdf2_U :: "(u8 list \<Rightarrow> u8 list) \<Rightarrow> u8 list \<Rightarrow> nat \<Rightarrow> u8 list" where
  "pbkdf2_U prf salt 0 = prf salt"
| "pbkdf2_U prf salt (Suc j) = prf (pbkdf2_U prf salt j)"

definition pbkdf2_T :: "(u8 list \<Rightarrow> u8 list) \<Rightarrow> u8 list \<Rightarrow> nat \<Rightarrow> nat \<Rightarrow> u8 list" where
  "pbkdf2_T prf salt c i =
     (let U = pbkdf2_U prf (salt @ htonl (of_nat i)) in foldl (map2 (XOR)) (U 0) (map U [1..<c]))"

definition pbkdf2 :: "(u8 list \<Rightarrow> u8 list) \<Rightarrow> u8 list \<Rightarrow> nat \<Rightarrow> nat \<Rightarrow> u8 list" where
  "pbkdf2 prf salt c dkLen = take dkLen (concat (map (pbkdf2_T prf salt c) [1..<Suc ((dkLen + 31) div 32)]))"

lemma length_pbkdf2_U [simp]: "length (pbkdf2_U (hmac sha256 K) salt j) = 32"
  by (cases j) simp_all

lemma length_foldl_xor:
  "length T = 32 \<Longrightarrow> \<forall>U\<in>set Us. length U = 32 \<Longrightarrow> length (foldl (map2 (XOR)) (T :: u8 list) Us) = 32"
  by (induction Us arbitrary: T) auto

lemma length_pbkdf2_T [simp]: "length (pbkdf2_T (hmac sha256 K) salt c i) = 32"
  by (simp add: pbkdf2_T_def length_foldl_xor)

lemma xor32: "length T = 32 \<Longrightarrow> length U = 32 \<Longrightarrow> map (\<lambda>k. T ! k XOR U ! k) [0..<32] = map2 (XOR) (T :: u8 list) U"
  by (intro nth_equalityI) simp_all

lemma pbkdf2_iterate_chain:
  "hmac_buffers hctx \<Longrightarrow> length T = 32 \<Longrightarrow>
   fst (pbkdf2_iterate P n hctx (pbkdf2_U (hmac sha256 P) salt j) T)
     = foldl (map2 (XOR)) T (map (pbkdf2_U (hmac sha256 P) salt) [Suc j..<Suc j + n])"
proof (induction n arbitrary: hctx T j)
  case (Suc n)
  let ?U = "pbkdf2_U (hmac sha256 P) salt" and ?c = "eigrp_hmac_sha256_update (eigrp_hmac_sha256_init hctx P) (pbkdf2_U (hmac sha256 P) salt j)"
  have u: "fst (eigrp_hmac_sha256_final ?c) = ?U (Suc j)"
    using hmac_final_hash [OF hmac_rep_update [OF hmac_rep_init [OF Suc.prems(1)]]] by simp
  have up: "[Suc j..<Suc j + Suc n] = Suc j # [Suc (Suc j)..<Suc (Suc j) + n]"
    using upt_conv_Cons [of "Suc j" "Suc j + Suc n"] by simp
  have "pbkdf2_iterate P (Suc n) hctx (?U j) T
      = pbkdf2_iterate P n (snd (eigrp_hmac_sha256_final ?c)) (?U (Suc j)) (map2 (XOR) T (?U (Suc j)))"
    using u Suc.prems(2) by (cases "eigrp_hmac_sha256_final ?c") (simp add: Let_def xor32)
  then show ?case
    using Suc.IH [OF hmac_final_buffers, of "map2 (XOR) T (?U (Suc j))" "?c" "Suc j"] Suc.prems(2)
    unfolding up by (simp del: upt_Suc)
qed simp

lemma pbkdf2_block_T:
  fixes Sctx P i
  defines "ctx \<equiv> eigrp_hmac_sha256_update Sctx (be32enc (of_nat (i + 1)))"
  assumes "hmac_rep P Sctx salt" "0 < c"
  shows "fst (pbkdf2_iterate P (c - 1) (snd (eigrp_hmac_sha256_final ctx))
                (fst (eigrp_hmac_sha256_final ctx)) (fst (eigrp_hmac_sha256_final ctx)))
           = pbkdf2_T (hmac sha256 P) salt c (i + 1)"
proof -
  let ?U = "pbkdf2_U (hmac sha256 P) (salt @ htonl (of_nat (i + 1)))"
  have "fst (eigrp_hmac_sha256_final ctx) = ?U 0"
    using hmac_final_hash [OF hmac_rep_update [OF assms(2)]] by (simp add: ctx_def be32enc_eq)
  then show ?thesis
    using pbkdf2_iterate_chain [OF hmac_final_buffers, of "?U 0" P "c - 1" ctx] assms(3)
    by (simp add: pbkdf2_T_def Let_def del: pbkdf2_U.simps)
qed

lemma pbkdf2_blocks_reference:
  assumes "hmac_rep P Sctx salt" "0 < c"
  shows "pbkdf2_blocks Sctx P c dkLen i
     = take (dkLen - i * 32) (concat (map (pbkdf2_T (hmac sha256 P) salt c) [i + 1..<Suc ((dkLen + 31) div 32)]))"
proof (induction "dkLen - i * 32" arbitrary: i rule: less_induct)
  case less
  let ?T = "pbkdf2_T (hmac sha256 P) salt c" and ?L = "Suc ((dkLen + 31) div 32)"
  show ?case
  proof (cases "i * 32 < dkLen")
    case True
    let ?clen = "if 32 < dkLen - i * 32 then 32 else dkLen - i * 32"
    from True have "i + 1 < ?L" by linarith
    then have up: "[i + 1..<?L] = (i + 1) # [i + 1 + 1..<?L]" using upt_conv_Cons [of "i + 1" ?L] by simp
    have IH: "pbkdf2_blocks Sctx P c dkLen (i + 1) = take (dkLen - (i + 1) * 32) (concat (map ?T [i + 1 + 1..<?L]))"
      using True by (intro less.hyps) simp
    have "take ?clen (?T (i + 1)) = take (dkLen - i * 32) (?T (i + 1))" by simp
    moreover have "pbkdf2_blocks Sctx P c dkLen i = take ?clen (?T (i + 1)) @ pbkdf2_blocks Sctx P c dkLen (i + 1)"
      using True pbkdf2_block_T [OF assms, of i] unfolding pbkdf2_blocks.simps [of Sctx P c dkLen i]
      by (simp add: Let_def split_beta)
    ultimately show ?thesis unfolding IH up by (simp add: algebra_simps)
  next
    case False
    then show ?thesis by (simp add: pbkdf2_blocks.simps)
  qed
qed

lemma pbkdf2_reference:
  assumes "c \<noteq> 0" "c \<noteq> - 1"
  shows "eigrp_pbkdf2_sha256 P salt c dkLen = Some (pbkdf2 (hmac sha256 P) salt (unat c) dkLen)"
proof -
  have "hmac_buffers \<lparr>hmac_ictx = sha256_wiped, hmac_octx = sha256_wiped\<rparr>" by (simp add: hmac_buffers_def)
  from hmac_rep_update [OF hmac_rep_init [OF this], of P salt]
  have "hmac_rep P (eigrp_hmac_sha256_update (eigrp_hmac_sha256_init
      \<lparr>hmac_ictx = sha256_wiped, hmac_octx = sha256_wiped\<rparr> P) salt) salt" by simp
  from pbkdf2_blocks_reference [OF this, of "unat c" dkLen 0] assms show ?thesis
    by (simp add: eigrp_pbkdf2_sha256_def pbkdf2_def unat_gt_0 del: upt_Suc)
qed

text \<open>
  C19: SHA-256 is computed as the standard defines it, however the caller splits the message: starting
  from any context, feeding the chunks \<open>xs\<close> one call at a time and finishing gives the FIPS 180-4
  digest of their concatenation, whose constants are taken from the roots of the first primes.  The buffered update, the rotating working variables, the
  bit counter with its carry between two words and the padding all cancel out.
\<close>

theorem sha256_streaming:
  assumes "length (sha_buf ctx) = 64"
  shows "fst (eigrp_sha256_final (foldl eigrp_sha256_update (eigrp_sha256_init ctx) xs)) = sha256 (concat xs)"
  using sha256_stream.feed_fin [OF sha256_rep_init [OF assms], of xs] by (simp add: feed_Some)

theorem sha256_streaming_witness:
  "length (sha_buf sha256_wiped) = 64
   \<and> fst (eigrp_sha256_final (foldl eigrp_sha256_update (eigrp_sha256_init sha256_wiped) [[0x61], [], [0x62, 0x63]]))
       = sha256 [0x61, 0x62, 0x63]"
  using sha256_streaming [of sha256_wiped "[[0x61], [], [0x62, 0x63]]"] by simp

text \<open>
  C26: HMAC-SHA-256 and PBKDF2 are those of FIPS 198-1 and RFC 8018.  Over keys of every length, also
  those longer than a block, and however the text is split, the keyed hash is
  \<open>H (K' xor opad, H (K' xor ipad, text))\<close>, and the derived key is the chained exclusive or of
  the iterated keyed hashes, cut to the length asked for.
\<close>

theorem hmac_pbkdf2_sha256_standard:
  assumes "hmac_buffers ctx" "c \<noteq> 0" "c \<noteq> - 1"
  shows "fst (eigrp_hmac_sha256_final (foldl eigrp_hmac_sha256_update (eigrp_hmac_sha256_init ctx K) xs))
           = hmac sha256 K (concat xs)
         \<and> eigrp_pbkdf2_sha256 K salt c dkLen = Some (pbkdf2 (hmac sha256 K) salt (unat c) dkLen)"
  using hmac_final_hash [OF hmac_rep_updates [OF hmac_rep_init [OF assms(1)]], of K xs] pbkdf2_reference [OF assms(2,3)]
  by simp

theorem hmac_pbkdf2_sha256_standard_witness:
  "fst (eigrp_hmac_sha256_final (foldl eigrp_hmac_sha256_update
          (eigrp_hmac_sha256_init \<lparr>hmac_ictx = sha256_wiped, hmac_octx = sha256_wiped\<rparr> [1, 2]) [[3], [4]]))
     = hmac sha256 [1, 2] [3, 4]
   \<and> eigrp_pbkdf2_sha256 [1, 2] [7] 5 40 = Some (pbkdf2 (hmac sha256 [1, 2]) [7] 5 40)"
  using hmac_pbkdf2_sha256_standard [of "\<lparr>hmac_ictx = sha256_wiped, hmac_octx = sha256_wiped\<rparr>" 5 "[1, 2]" "[[3], [4]]" "[7]" 40]
  by (simp add: hmac_buffers_def)
end
