(* ===== verification/Eigrp_Sine.thy ===== *)
theory Eigrp_Sine
  imports Complex_Main
begin

text \<open>
  RFC 1321 defines the constants of MD5 by the sine function: the \<open>i\<close>-th is the integer part of \<open>2^32\<close> times the absolute value of the sine
  of \<open>i\<close> radians.  This theory gives what is needed to check a table of integers against that definition.  The list \<open>sine_points\<close> holds
  cosine and sine of 0 to 64 in units of \<open>2^-64\<close>; the first point is related to the power series, each following one to its predecessor by the
  addition theorem, and the errors are added up.
\<close>

definition sine_points :: "(int \<times> int) list" where
  "sine_points =
     [
      (18446744073709551616, 0), (9966818358784711826, 15522399902203605025),
      (- 7676554190868976273, 16773576919535988477), (- 18262138219681190664, 2603204672360199838),
      (- 12057596589483886115, - 13960541945290126214), (5232643738629268816, - 17689030680778479891),
      (17712015545019640791, - 5154306185503637738), (13907041942463625904, 12119263646422417950),
      (- 2684001886383580959, 18250438372675540816), (- 16807386758798596994, 7602244225299530312),
      (- 15478137756409460997, - 10035418203271369422), (81639718133104118, - 18446563416456779437),
      (15566358012324943264, - 9898023295237565006), (16739438537923213683, 7750713796549941354),
      (2522356469630884151, 18273480368037438698), (- 14013768504397239605, 11995693361623679721),
      (- 17665699343287164598, - 5310878800492617616), (- 5075867675505433484, - 17734653485808442231),
      (12180693324572884436, - 13853269543816868766), (18238381056184206008, 2764746529134189833),
      (7527785355343363537, 16840867393481146149), (- 10103821485039340335, 15433572441900672363),
      (- 18446021448236978192, - 163277837197327995), (- 9829034360111862366, - 15610011225770430425),
      (7824721589785749380, - 16704972282625291392), (18284464595586775238, - 2441458861761182190),
      (11933555175334045451, 14066720577241750386), (- 5389009838711460998, 17642021989534236395),
      (- 17756944059737833622, 4997329745001797184), (- 13799225802584374201, - 12241884420718409035),
      (2845437019074896969, - 18225966506372621662), (16874018167801839581, - 7453179039418811135),
      (15388704831573535175, 10172026864280481139), (- 244912758155112189, 18445118179665624441),
      (- 15653358687509001487, 9759852904686880258), (- 16670178828729269009, - 7898576120993259142),
      (- 2360513433284335721, - 18295090687182249149), (14119397126656777459, - 11871183247709336917),
      (17617999083285622193, 5467035322941076397), (4918693932307209321, 17778886830204603831),
      (- 12302835736315196744, 13744911777315421322), (- 18213194966403316015, - 2926071775729258473),
      (- 7378426738832217522, - 16906838432439822389), (10240033005062945135, - 15343535804245383026),
      (18443853628434948094, 326542882031538246), (9690480284012770614, 15696399548498319111),
      (- 7972275943591257240, 16635058857730999699), (- 18305358434691681912, 2279521769670243895),
      (- 11808578800422175560, - 14171797120872089196), (5544953724904216530, - 17593631095075550596),
      (17800481367417932871, - 4839961777653358930), (13690328531853315254, 12363546077516009855),
      (- 3006649219712472677, 18200066686431147323), (- 16939327544547899312, 7303529917749313890),
      (- 15298066244637373740, - 10307838575357349112), (408166609945647658, - 18442227819313585873),
      (15739132965701403739, - 9620917856884019713), (16599613057521793996, 8045819614028792117),
      (2198485457294408806, 18315267637001744279), (- 14223919533534312626, 11745743059699521870),
      (- 17568918502197335591, - 5622763518421043610), (- 4761134823158975231, - 17821727248407810181),
      (12424014255193551714, - 13635477135314549745), (18186581923598404104, 3087167772762315393),
      (7228490043166539733, 16971484867765126108)]"

definition unit_point :: "nat \<Rightarrow> complex" where
  "unit_point k = Complex (of_int (fst (sine_points ! k)) / 2 ^ 64) (of_int (snd (sine_points ! k)) / 2 ^ 64)"

subsection \<open>The point of one radian\<close>

lemma sum_upto: "(\<Sum>m<n. f m) = (\<Sum>m\<leftarrow>[0..<n]. f m)" for f :: "nat \<Rightarrow> real"
  by (simp add: interv_sum_list_conv_sum_set_nat atLeast0LessThan)

lemma sin_one: "\<bar>sin 1 - 15522399902203605025 / 2 ^ 64\<bar> \<le> (1 / 2 ^ 64 :: real)"
proof -
  let ?s = "\<Sum>m<23. sin_coeff m * 1 ^ m :: real"
  have "\<bar>sin 1 - ?s\<bar> \<le> inverse (fact 23) * \<bar>1 :: real\<bar> ^ 23" by (rule Maclaurin_sin_bound)
  moreover have "inverse (fact 23) * \<bar>1 :: real\<bar> ^ 23 \<le> 1 / 2 ^ 70" by (simp add: fact_numeral)
  moreover have "?s = (1 - 1 / fact 3 + 1 / fact 5 - 1 / fact 7 + 1 / fact 9 - 1 / fact 11 + 1 / fact 13
      - 1 / fact 15 + 1 / fact 17 - 1 / fact 19 + 1 / fact 21 :: real)"
  proof -
    have "[0..<23] = [0, 1, 2, 3, 4, 5, 6, 7, 8, 9, 10, 11, 12, 13, 14, 15, 16, 17, 18, 19, 20, 21, 22]" by code_simp
    then show ?thesis unfolding sum_upto by (simp add: sin_coeff_def)
  qed
  then have "\<bar>?s - 15522399902203605025 / 2 ^ 64\<bar> \<le> 1 / 2 ^ 64 - 1 / 2 ^ 70" by (simp only:) (simp add: fact_numeral)
  ultimately show ?thesis by linarith
qed

lemma cos_one: "\<bar>cos 1 - 9966818358784711826 / 2 ^ 64\<bar> \<le> (1 / 2 ^ 64 :: real)"
proof -
  let ?s = "\<Sum>m<24. cos_coeff m * 1 ^ m :: real"
  obtain t where t: "cos 1 = ?s + (cos (t + 1 / 2 * real 24 * pi) / fact 24) * 1 ^ 24"
    using Maclaurin_cos_expansion [of 1 24] by blast
  have "\<bar>cos (t + 1 / 2 * real 24 * pi)\<bar> \<le> 1" by (rule abs_cos_le_one)
  then have "\<bar>cos 1 - ?s\<bar> \<le> 1 / fact 24" unfolding t by (simp add: divide_right_mono)
  moreover have "1 / fact 24 \<le> (1 / 2 ^ 70 :: real)" by (simp add: fact_numeral)
  moreover have "?s = (1 - 1 / fact 2 + 1 / fact 4 - 1 / fact 6 + 1 / fact 8 - 1 / fact 10 + 1 / fact 12
      - 1 / fact 14 + 1 / fact 16 - 1 / fact 18 + 1 / fact 20 - 1 / fact 22 :: real)"
  proof -
    have "[0..<24] = [0, 1, 2, 3, 4, 5, 6, 7, 8, 9, 10, 11, 12, 13, 14, 15, 16, 17, 18, 19, 20, 21, 22, 23]" by code_simp
    then show ?thesis unfolding sum_upto by (simp add: cos_coeff_def)
  qed
  then have "\<bar>?s - 9966818358784711826 / 2 ^ 64\<bar> \<le> 1 / 2 ^ 64 - 1 / 2 ^ 70" by (simp only:) (simp add: fact_numeral)
  ultimately show ?thesis by linarith
qed

lemma cmod_parts: "\<bar>Re z\<bar> \<le> a \<Longrightarrow> \<bar>Im z\<bar> \<le> b \<Longrightarrow> cmod z \<le> a + b"
  using cmod_le [of z] by linarith

lemma point_one: "cmod (unit_point 1 - cis 1) \<le> 2 / 2 ^ 64"
proof -
  have "\<bar>Re (unit_point 1 - cis 1)\<bar> \<le> 1 / 2 ^ 64" "\<bar>Im (unit_point 1 - cis 1)\<bar> \<le> 1 / 2 ^ 64"
    using cos_one sin_one by (simp_all add: unit_point_def sine_points_def abs_minus_commute)
  then show ?thesis using cmod_parts by fastforce
qed

subsection \<open>From one point to the next\<close>

definition point_follows :: "int \<times> int \<Rightarrow> int \<times> int \<Rightarrow> int \<times> int \<Rightarrow> bool" where
  "point_follows p1 p q = (case (p1, p, q) of ((c1, s1), (c, s), (c', s')) \<Rightarrow>
     \<bar>c' * 2 ^ 64 - (c * c1 - s * s1)\<bar> \<le> 2 ^ 65 \<and> \<bar>s' * 2 ^ 64 - (s * c1 + c * s1)\<bar> \<le> 2 ^ 65)"

lemma points_follow: "\<forall>k<64. point_follows (sine_points ! 1) (sine_points ! k) (sine_points ! Suc k)"
proof -
  have "list_all (\<lambda>k. point_follows (sine_points ! 1) (sine_points ! k) (sine_points ! Suc k)) [0..<64]" by code_simp
  then show ?thesis by (simp add: list_all_iff)
qed

lemma scaled_residue:
  fixes x y :: int
  assumes "\<bar>x * 2 ^ 64 - y\<bar> \<le> 2 ^ 65"
  shows "\<bar>of_int x / 2 ^ 64 - of_int y / 2 ^ 64 / 2 ^ 64\<bar> \<le> (2 / 2 ^ 64 :: real)"
proof -
  have "\<bar>of_int x * 2 ^ 64 - of_int y :: real\<bar> = of_int \<bar>x * 2 ^ 64 - y\<bar>" by simp
  also have "\<dots> \<le> of_int (2 ^ 65)" using assms by (simp only: of_int_le_iff)
  finally have "\<bar>of_int x * 2 ^ 64 - of_int y :: real\<bar> / 2 ^ 128 \<le> 2 ^ 65 / 2 ^ 128" by (simp add: divide_right_mono)
  moreover have "of_int x / 2 ^ 64 - of_int y / 2 ^ 64 / 2 ^ 64 = (of_int x * 2 ^ 64 - of_int y :: real) / 2 ^ 128" by (simp add: field_simps)
  then have "\<bar>of_int x / 2 ^ 64 - of_int y / 2 ^ 64 / 2 ^ 64\<bar> = \<bar>of_int x * 2 ^ 64 - of_int y :: real\<bar> / 2 ^ 128" by (simp only: abs_divide) simp
  moreover have "2 ^ 65 / 2 ^ 128 = (2 / 2 ^ 64 :: real)" by simp
  ultimately show ?thesis by (simp only:)
qed

lemma point_step:
  assumes "k < 64"
  shows "cmod (unit_point (Suc k) - unit_point k * unit_point 1) \<le> 4 / 2 ^ 64"
proof -
  obtain c1 s1 c s c' s' where p: "sine_points ! 1 = (c1, s1)" "sine_points ! k = (c, s)" "sine_points ! Suc k = (c', s')" by fastforce
  have f: "\<bar>c' * 2 ^ 64 - (c * c1 - s * s1)\<bar> \<le> 2 ^ 65" "\<bar>s' * 2 ^ 64 - (s * c1 + c * s1)\<bar> \<le> 2 ^ 65"
    using points_follow [rule_format, OF assms] unfolding p point_follows_def by simp_all
  have "Re (unit_point (Suc k) - unit_point k * unit_point 1) = of_int c' / 2 ^ 64 - of_int (c * c1 - s * s1) / 2 ^ 64 / 2 ^ 64"
    "Im (unit_point (Suc k) - unit_point k * unit_point 1) = of_int s' / 2 ^ 64 - of_int (s * c1 + c * s1) / 2 ^ 64 / 2 ^ 64"
    using p by (simp_all add: unit_point_def field_simps)
  then have "\<bar>Re (unit_point (Suc k) - unit_point k * unit_point 1)\<bar> \<le> 2 / 2 ^ 64" "\<bar>Im (unit_point (Suc k) - unit_point k * unit_point 1)\<bar> \<le> 2 / 2 ^ 64"
    using scaled_residue [OF f(1)] scaled_residue [OF f(2)] by (simp_all only:)
  then show ?thesis using cmod_parts by fastforce
qed

lemma point_error: "k \<le> 64 \<Longrightarrow> cmod (unit_point k - cis (real k)) \<le> 8 * real k / 2 ^ 64"
proof (induction k)
  case 0
  have "unit_point 0 = 1" by (simp add: unit_point_def sine_points_def complex_eq_iff)
  then show ?case by simp
next
  case (Suc k)
  let ?e = "1 / 2 ^ 64 :: real"
  have IH: "cmod (unit_point k - cis (real k)) \<le> 8 * real k * ?e" using Suc by simp
  have one: "cmod (unit_point 1) \<le> 1 + 2 * ?e"
    using norm_triangle_ineq2 [of "unit_point 1" "cis 1"] point_one by simp
  have "unit_point (Suc k) - cis (real (Suc k)) = (unit_point k - cis (real k)) * unit_point 1 + cis (real k) * (unit_point 1 - cis 1)
      + (unit_point (Suc k) - unit_point k * unit_point 1)"
    by (simp add: algebra_simps cis_mult)
  then have "cmod (unit_point (Suc k) - cis (real (Suc k))) \<le> cmod ((unit_point k - cis (real k)) * unit_point 1)
      + cmod (cis (real k) * (unit_point 1 - cis 1)) + cmod (unit_point (Suc k) - unit_point k * unit_point 1)"
    by (simp only: order_trans [OF norm_triangle_ineq add_right_mono [OF norm_triangle_ineq]])
  also have "\<dots> = cmod (unit_point k - cis (real k)) * cmod (unit_point 1) + cmod (unit_point 1 - cis 1)
      + cmod (unit_point (Suc k) - unit_point k * unit_point 1)" by (simp add: norm_mult)
  also have "\<dots> \<le> (8 * real k * ?e) * (1 + 2 * ?e) + 2 * ?e + 4 * ?e"
    using IH one point_one point_step [of k] Suc.prems by (intro add_mono mult_mono) simp_all
  also have "\<dots> \<le> 8 * real (Suc k) * ?e" using Suc.prems by (simp add: field_simps)
  finally show ?case by simp
qed

text \<open>
  The integer part: the integer \<open>n\<close> is right for \<open>k\<close> when the approximation of the sine lies between \<open>n\<close> and \<open>n + 1\<close>, with a margin for the error.
\<close>

definition sine_integer :: "nat \<Rightarrow> int \<Rightarrow> bool" where
  "sine_integer k n \<longleftrightarrow> n * 2 ^ 32 + 512 \<le> \<bar>snd (sine_points ! k)\<bar> \<and> \<bar>snd (sine_points ! k)\<bar> + 512 < (n + 1) * 2 ^ 32"

lemma sine_floor:
  assumes "k \<le> 64" and "sine_integer k n"
  shows "\<lfloor>2 ^ 32 * \<bar>sin (real k)\<bar>\<rfloor> = n"
proof -
  let ?s = "of_int (snd (sine_points ! k)) :: real"
  have "\<bar>Im (unit_point k - cis (real k))\<bar> \<le> 8 * real k / 2 ^ 64"
    using abs_Im_le_cmod point_error [OF assms(1)] by (rule order_trans)
  then have "\<bar>?s / 2 ^ 64 - sin (real k)\<bar> \<le> 512 / 2 ^ 64" using assms(1) by (simp add: unit_point_def)
  then have "\<bar>\<bar>?s\<bar> / 2 ^ 64 - \<bar>sin (real k)\<bar>\<bar> \<le> 512 / 2 ^ 64" using abs_triangle_ineq3 [of "?s / 2 ^ 64" "sin (real k)"] by simp
  then have "\<bar>\<bar>?s\<bar> - 2 ^ 64 * \<bar>sin (real k)\<bar>\<bar> \<le> 512" by (simp add: abs_le_iff field_simps)
  moreover have "of_int (n * 2 ^ 32 + 512) \<le> (of_int \<bar>snd (sine_points ! k)\<bar> :: real)"
    "of_int (\<bar>snd (sine_points ! k)\<bar> + 512) < (of_int ((n + 1) * 2 ^ 32) :: real)"
    using assms(2) unfolding sine_integer_def of_int_le_iff of_int_less_iff by simp_all
  then have "of_int n * 2 ^ 32 + 512 \<le> \<bar>?s\<bar>" "\<bar>?s\<bar> + 512 < (of_int n + 1) * 2 ^ 32" by simp_all
  ultimately have "of_int n * 2 ^ 32 \<le> 2 ^ 64 * \<bar>sin (real k)\<bar>" "2 ^ 64 * \<bar>sin (real k)\<bar> < (of_int n + 1) * 2 ^ 32" by linarith+
  then show ?thesis by (intro floor_unique) simp_all
qed

end
