(* ===== verification/Eigrp_Md5.thy ===== *)
theory Eigrp_Md5
  imports Eigrp_Hash Eigrp_Sine
begin

text \<open>
  MD5 and HMAC-MD5 (\<^verbatim>\<open>eigrp_md5.c\<close>).  The code keeps the four chaining words, the number of bits
  (64 bits wide), the fill of the buffer and the buffer; the unrolled rounds rotate the names of the
  registers.  \<open>None\<close> is a write past the buffer or a read past the input, and the theorems show that
  it does not occur.  The reference is RFC 1321 on whole messages, with indexed rounds, and stated without the code's functions, table and byte order:
  the auxiliary functions bit by bit, the constants by the sine function, words and bytes by powers of 256.
\<close>

subsection \<open>The code: the compression function\<close>

definition md5_SHIFT :: "u32 \<Rightarrow> nat \<Rightarrow> u32" where
  "md5_SHIFT X s = push_bit s X OR drop_bit (32 - s) X"

definition md5_F :: "u32 \<Rightarrow> u32 \<Rightarrow> u32 \<Rightarrow> u32" where
  "md5_F X Y Z = (X AND Y) OR (NOT X AND Z)"

definition md5_G :: "u32 \<Rightarrow> u32 \<Rightarrow> u32 \<Rightarrow> u32" where
  "md5_G X Y Z = (X AND Z) OR (Y AND NOT Z)"

definition md5_H :: "u32 \<Rightarrow> u32 \<Rightarrow> u32 \<Rightarrow> u32" where
  "md5_H X Y Z = X XOR Y XOR Z"

definition md5_I :: "u32 \<Rightarrow> u32 \<Rightarrow> u32 \<Rightarrow> u32" where
  "md5_I X Y Z = Y XOR (X OR NOT Z)"

definition md5_T :: "u32 list" where
  "md5_T =
     [
      0, 0xd76aa478, 0xe8c7b756, 0x242070db, 0xc1bdceee, 0xf57c0faf, 0x4787c62a, 0xa8304613,
      0xfd469501, 0x698098d8, 0x8b44f7af, 0xffff5bb1, 0x895cd7be, 0x6b901122, 0xfd987193, 0xa679438e,
      0x49b40821, 0xf61e2562, 0xc040b340, 0x265e5a51, 0xe9b6c7aa, 0xd62f105d, 0x2441453, 0xd8a1e681,
      0xe7d3fbc8, 0x21e1cde6, 0xc33707d6, 0xf4d50d87, 0x455a14ed, 0xa9e3e905, 0xfcefa3f8, 0x676f02d9,
      0x8d2a4c8a, 0xfffa3942, 0x8771f681, 0x6d9d6122, 0xfde5380c, 0xa4beea44, 0x4bdecfa9, 0xf6bb4b60,
      0xbebfbc70, 0x289b7ec6, 0xeaa127fa, 0xd4ef3085, 0x4881d05, 0xd9d4d039, 0xe6db99e5, 0x1fa27cf8,
      0xc4ac5665, 0xf4292244, 0x432aff97, 0xab9423a7, 0xfc93a039, 0x655b59c3, 0x8f0ccc92, 0xffeff47d,
      0x85845dd1, 0x6fa87e4f, 0xfe2ce6e0, 0xa3014314, 0x4e0811a1, 0xf7537e82, 0xbd3af235, 0x2ad7d2bb,
      0xeb86d391]"

text \<open>
  The macros \<^verbatim>\<open>ROUND1\<close> to \<^verbatim>\<open>ROUND4\<close> differ in the function alone (\<open>q\<close> is the number of the macro).
  \<open>R\<close> holds the registers \<open>A\<close>, \<open>B\<close>, \<open>C\<close> and \<open>D\<close> at the indices 0 to 3; \<open>a\<close> to \<open>d\<close> are the
  registers a call names.
\<close>

definition md5_fn :: "nat \<Rightarrow> u32 \<Rightarrow> u32 \<Rightarrow> u32 \<Rightarrow> u32" where
  "md5_fn q = (if q = 1 then md5_F else if q = 2 then md5_G else if q = 3 then md5_H else md5_I)"

definition md5_ROUND ::
    "u32 list \<Rightarrow> nat \<Rightarrow> nat \<Rightarrow> nat \<Rightarrow> nat \<Rightarrow> nat \<Rightarrow> nat \<Rightarrow> nat \<Rightarrow> nat \<Rightarrow> u32 list \<Rightarrow> u32 list" where
  "md5_ROUND X q a b c d k s i R =
     (let R = R[a := R ! a + md5_fn q (R ! b) (R ! c) (R ! d) + X ! k + md5_T ! i];
          R = R[a := md5_SHIFT (R ! a) s]
      in R[a := R ! b + R ! a])"

text \<open>The 64 calls in the order of the code: macro, four registers, word, shift, constant.\<close>

definition md5_rounds :: "(nat \<times> nat \<times> nat \<times> nat \<times> nat \<times> nat \<times> nat \<times> nat) list" where
  "md5_rounds =
     [
      (1, 0, 1, 2, 3, 0, 7, 1), (1, 3, 0, 1, 2, 1, 12, 2), (1, 2, 3, 0, 1, 2, 17, 3), (1, 1, 2, 3, 0, 3, 22, 4),
      (1, 0, 1, 2, 3, 4, 7, 5), (1, 3, 0, 1, 2, 5, 12, 6), (1, 2, 3, 0, 1, 6, 17, 7), (1, 1, 2, 3, 0, 7, 22, 8),
      (1, 0, 1, 2, 3, 8, 7, 9), (1, 3, 0, 1, 2, 9, 12, 10), (1, 2, 3, 0, 1, 10, 17, 11), (1, 1, 2, 3, 0, 11, 22, 12),
      (1, 0, 1, 2, 3, 12, 7, 13), (1, 3, 0, 1, 2, 13, 12, 14), (1, 2, 3, 0, 1, 14, 17, 15), (1, 1, 2, 3, 0, 15, 22, 16),
      (2, 0, 1, 2, 3, 1, 5, 17), (2, 3, 0, 1, 2, 6, 9, 18), (2, 2, 3, 0, 1, 11, 14, 19), (2, 1, 2, 3, 0, 0, 20, 20),
      (2, 0, 1, 2, 3, 5, 5, 21), (2, 3, 0, 1, 2, 10, 9, 22), (2, 2, 3, 0, 1, 15, 14, 23), (2, 1, 2, 3, 0, 4, 20, 24),
      (2, 0, 1, 2, 3, 9, 5, 25), (2, 3, 0, 1, 2, 14, 9, 26), (2, 2, 3, 0, 1, 3, 14, 27), (2, 1, 2, 3, 0, 8, 20, 28),
      (2, 0, 1, 2, 3, 13, 5, 29), (2, 3, 0, 1, 2, 2, 9, 30), (2, 2, 3, 0, 1, 7, 14, 31), (2, 1, 2, 3, 0, 12, 20, 32),
      (3, 0, 1, 2, 3, 5, 4, 33), (3, 3, 0, 1, 2, 8, 11, 34), (3, 2, 3, 0, 1, 11, 16, 35), (3, 1, 2, 3, 0, 14, 23, 36),
      (3, 0, 1, 2, 3, 1, 4, 37), (3, 3, 0, 1, 2, 4, 11, 38), (3, 2, 3, 0, 1, 7, 16, 39), (3, 1, 2, 3, 0, 10, 23, 40),
      (3, 0, 1, 2, 3, 13, 4, 41), (3, 3, 0, 1, 2, 0, 11, 42), (3, 2, 3, 0, 1, 3, 16, 43), (3, 1, 2, 3, 0, 6, 23, 44),
      (3, 0, 1, 2, 3, 9, 4, 45), (3, 3, 0, 1, 2, 12, 11, 46), (3, 2, 3, 0, 1, 15, 16, 47), (3, 1, 2, 3, 0, 2, 23, 48),
      (4, 0, 1, 2, 3, 0, 6, 49), (4, 3, 0, 1, 2, 7, 10, 50), (4, 2, 3, 0, 1, 14, 15, 51), (4, 1, 2, 3, 0, 5, 21, 52),
      (4, 0, 1, 2, 3, 12, 6, 53), (4, 3, 0, 1, 2, 3, 10, 54), (4, 2, 3, 0, 1, 10, 15, 55), (4, 1, 2, 3, 0, 1, 21, 56),
      (4, 0, 1, 2, 3, 8, 6, 57), (4, 3, 0, 1, 2, 15, 10, 58), (4, 2, 3, 0, 1, 6, 15, 59), (4, 1, 2, 3, 0, 13, 21, 60),
      (4, 0, 1, 2, 3, 4, 6, 61), (4, 3, 0, 1, 2, 11, 10, 62), (4, 2, 3, 0, 1, 2, 15, 63), (4, 1, 2, 3, 0, 9, 21, 64)]"

definition le32dec :: "u8 list \<Rightarrow> u32" where
  "le32dec p = ntohl [p ! 3, p ! 2, p ! 1, p ! 0]"

definition md5_words :: "u8 list \<Rightarrow> u32 list" where
  "md5_words b64 = map (\<lambda>i. le32dec (drop (4 * i) b64)) [0..<16]"

definition md5_calc :: "u32 list \<Rightarrow> u8 list \<Rightarrow> u32 list" where
  "md5_calc st b64 =
     (let X = md5_words b64;
          R = fold (\<lambda>(q, a, b, c, d, k, s, i). md5_ROUND X q a b c d k s i) md5_rounds st
      in [st ! 0 + R ! 0, st ! 1 + R ! 1, st ! 2 + R ! 2, st ! 3 + R ! 3])"

subsection \<open>The code: contexts\<close>

record eigrp_md5_ctx =
  md5_st :: "u32 list"
  md5_n :: u64
  md5_i :: u32
  md5_buf :: "u8 list"

definition eigrp_md5_paddat :: "u8 list" where
  "eigrp_md5_paddat = 0x80 # replicate 63 0"

definition eigrp_md5_init :: "eigrp_md5_ctx \<Rightarrow> eigrp_md5_ctx" where
  "eigrp_md5_init ctx =
     ctx\<lparr>md5_n := 0, md5_i := 0, md5_st := [0x67452301, 0xefcdab89, 0x98badcfe, 0x10325476],
         md5_buf := replicate 64 0\<rparr>"

text \<open>\<^verbatim>\<open>memcpy\<close> into the buffer of 64 bytes.\<close>

definition md5_memcpy :: "u8 list \<Rightarrow> nat \<Rightarrow> u8 list \<Rightarrow> u8 list option" where
  "md5_memcpy buf off x = (if off + length x \<le> 64 then Some (memcpy_at buf off x) else None)"

text \<open>
  The loop over complete blocks, whose index and limit are 32 bits wide.  It gives the chaining
  words and the index it stopped at.
\<close>

function md5_blocks :: "u32 list \<Rightarrow> u8 list \<Rightarrow> u32 \<Rightarrow> u32 \<Rightarrow> (u32 list \<times> u32) option" where
  "md5_blocks st input len i =
     (if i + 64 \<le> len
      then (if unat len < unat i + 64 then None
            else md5_blocks (md5_calc st (take 64 (drop (unat i) input))) input len (i + 64))
      else Some (st, i))"
  by pat_completeness auto

lemma md5_blocks_index:
  fixes len i :: u32
  assumes "\<not> unat len < unat i + 64"
  shows "unat (i + 64) = unat i + 64"
proof -
  have "unat len < 2 ^ 32" using unsigned_less [of len, where ?'a = nat] by simp
  with assms have "unat i + 64 < 2 ^ 32" by linarith
  then show ?thesis by (simp add: unat_word_ariths)
qed

termination md5_blocks
proof (relation "measure (\<lambda>(st, input, len, i). unat len - unat i)", goal_cases)
  case (2 st input len i)
  then show ?case using md5_blocks_index [of len i] by auto
qed simp

declare md5_blocks.simps [simp del]

definition eigrp_md5_update :: "eigrp_md5_ctx \<Rightarrow> u8 list \<Rightarrow> eigrp_md5_ctx option" where
  "eigrp_md5_update ctxt input =
     (let len = of_nat (length input) :: u32;
          ctxt = ctxt\<lparr>md5_n := md5_n ctxt + ucast (len * 8)\<rparr>;
          gap = 64 - md5_i ctxt
      in if gap \<le> len
         then do {
           buf \<leftarrow> md5_memcpy (md5_buf ctxt) (unat (md5_i ctxt)) (take (unat gap) input);
           (st, i) \<leftarrow> md5_blocks (md5_calc (md5_st ctxt) buf) input len gap;
           buf \<leftarrow> md5_memcpy buf 0 (take (unat (len - i)) (drop (unat i) input));
           Some (ctxt\<lparr>md5_st := st, md5_i := len - i, md5_buf := buf\<rparr>) }
         else do {
           buf \<leftarrow> md5_memcpy (md5_buf ctxt) (unat (md5_i ctxt)) input;
           Some (ctxt\<lparr>md5_buf := buf, md5_i := md5_i ctxt + len\<rparr>) })"

text \<open>The bytes of \<^verbatim>\<open>md5_n8\<close> and \<^verbatim>\<open>md5_st8\<close>, least significant first.\<close>

definition le32enc :: "u32 \<Rightarrow> u8 list" where
  "le32enc x = rev (htonl x)"

definition le64enc :: "u64 \<Rightarrow> u8 list" where
  "le64enc x = le32enc (ucast x) @ le32enc (ucast (drop_bit 32 x))"

definition eigrp_md5_pad :: "eigrp_md5_ctx \<Rightarrow> eigrp_md5_ctx option" where
  "eigrp_md5_pad ctxt =
     (let gap = 64 - md5_i ctxt
      in do {
        ctxt \<leftarrow>
          (if 8 < gap
           then do {
             buf \<leftarrow> md5_memcpy (md5_buf ctxt) (unat (md5_i ctxt)) (take (unat (gap - 8)) eigrp_md5_paddat);
             Some (ctxt\<lparr>md5_buf := buf\<rparr>) }
           else do {
             buf \<leftarrow> md5_memcpy (md5_buf ctxt) (unat (md5_i ctxt)) (take (unat gap) eigrp_md5_paddat);
             let st = md5_calc (md5_st ctxt) buf;
             buf \<leftarrow> md5_memcpy buf 0 (take 56 (drop (unat gap) eigrp_md5_paddat));
             Some (ctxt\<lparr>md5_buf := buf, md5_st := st\<rparr>) });
        buf \<leftarrow> md5_memcpy (md5_buf ctxt) 56 (le64enc (md5_n ctxt));
        Some (ctxt\<lparr>md5_buf := buf, md5_st := md5_calc (md5_st ctxt) buf\<rparr>) })"

definition eigrp_md5_result :: "eigrp_md5_ctx \<Rightarrow> u8 list" where
  "eigrp_md5_result ctxt = concat (map le32enc (md5_st ctxt))"

definition eigrp_md5_final :: "eigrp_md5_ctx \<Rightarrow> u8 list option" where
  "eigrp_md5_final ctxt = map_option eigrp_md5_result (eigrp_md5_pad ctxt)"

text \<open>
  \<^verbatim>\<open>eigrp_hmac_md5\<close>.  The pads are arrays of 65 bytes of which the first 64 are used; \<open>context\<close>, which
  starts uninitialised, is a parameter.
\<close>

definition md5_key_pad :: "u8 \<Rightarrow> u8 list \<Rightarrow> u8 list" where
  "md5_key_pad v key = map (\<lambda>k. k XOR v) (take 64 (key @ replicate (65 - length key) 0))"

definition eigrp_hmac_md5 :: "eigrp_md5_ctx \<Rightarrow> u8 list \<Rightarrow> u8 list \<Rightarrow> u8 list option" where
  "eigrp_hmac_md5 ctxt text key =
     do {
       key \<leftarrow> (if 64 < length key
               then do { t \<leftarrow> eigrp_md5_update (eigrp_md5_init ctxt) key; eigrp_md5_final t }
               else Some key);
       c \<leftarrow> eigrp_md5_update (eigrp_md5_init ctxt) (md5_key_pad 0x36 key);
       c \<leftarrow> eigrp_md5_update c text;
       digest \<leftarrow> eigrp_md5_final c;
       c \<leftarrow> eigrp_md5_update (eigrp_md5_init c) (md5_key_pad 0x5c key);
       c \<leftarrow> eigrp_md5_update c digest;
       eigrp_md5_final c }"

subsection \<open>RFC 1321\<close>

definition rfc_fn :: "nat \<Rightarrow> nat" where
  "rfc_fn t = Suc (t div 16)"

definition rfc_k :: "nat \<Rightarrow> nat" where
  "rfc_k t = (if t < 16 then t else if t < 32 then (5 * t + 1) mod 16
              else if t < 48 then (3 * t + 5) mod 16 else 7 * t mod 16)"

definition rfc_s :: "nat \<Rightarrow> nat" where
  "rfc_s t = [[7, 12, 17, 22], [5, 9, 14, 20], [4, 11, 16, 23], [6, 10, 15, 21]] ! (t div 16) ! (t mod 4)"

text \<open>
  The auxiliary functions act on each bit: if x then y else z; if z then x else y; the parity; and y exclusive or (x or not z).
\<close>

definition rfc_bit :: "nat \<Rightarrow> bool \<Rightarrow> bool \<Rightarrow> bool \<Rightarrow> bool" where
  "rfc_bit t x y z =
     (if t < 16 then if x then y else z
      else if t < 32 then if z then x else y
      else if t < 48 then odd (of_bool x + of_bool y + of_bool z :: nat)
      else y \<noteq> (x \<or> \<not> z))"

definition rfc_aux :: "nat \<Rightarrow> u32 \<Rightarrow> u32 \<Rightarrow> u32 \<Rightarrow> u32" where
  "rfc_aux t X Y Z = horner_sum of_bool 2 (map (\<lambda>n. rfc_bit t (bit X n) (bit Y n) (bit Z n)) [0..<32])"

text \<open>The constant of step \<open>t\<close>, counted from 0: the integer part of \<open>4294967296\<close> times the absolute value of the sine of \<open>t + 1\<close> radians.\<close>

definition rfc_T :: "nat \<Rightarrow> u32" where
  "rfc_T t = word_of_int \<lfloor>2 ^ 32 * \<bar>sin (real (Suc t))\<bar>\<rfloor>"

text \<open>Words and bytes, the least significant byte first.\<close>

definition rfc_word :: "u8 list \<Rightarrow> nat \<Rightarrow> u32" where
  "rfc_word bs i = of_nat (\<Sum>j<4. unat (bs ! (4 * i + j)) * 256 ^ j)"

definition rfc_le :: "nat \<Rightarrow> nat \<Rightarrow> u8 list" where
  "rfc_le n x = map (\<lambda>j. of_nat (x div 256 ^ j)) [0..<n]"

fun rfc_round :: "u32 list \<Rightarrow> nat \<Rightarrow> u32 list \<Rightarrow> u32 list" where
  "rfc_round X t [a, b, c, d] =
     [d, b + word_rotl (rfc_s t) (a + rfc_aux t b c d + X ! rfc_k t + rfc_T t), b, c]"
| "rfc_round X t V = V"

definition rfc_compress :: "u32 list \<Rightarrow> u8 list \<Rightarrow> u32 list" where
  "rfc_compress st block = map2 (+) st (fold (rfc_round (map (rfc_word block) [0..<16])) [0..<64] st)"

definition rfc_iv :: "u32 list" where
  "rfc_iv = map (rfc_word [0x01, 0x23, 0x45, 0x67, 0x89, 0xab, 0xcd, 0xef, 0xfe, 0xdc, 0xba, 0x98, 0x76, 0x54, 0x32, 0x10]) [0, 1, 2, 3]"

definition rfc_pad :: "u8 list \<Rightarrow> u8 list" where
  "rfc_pad m = m @ 0x80 # replicate ((119 - length m mod 64) mod 64) 0 @ rfc_le 8 (8 * length m)"

definition md5 :: "u8 list \<Rightarrow> u8 list" where
  "md5 m = concat (map (\<lambda>w. rfc_le 4 (unat w)) (absorb rfc_compress rfc_iv (rfc_pad m)))"

subsection \<open>The code's functions, table and byte order are those of the RFC\<close>

lemma rfc_aux_code:
  assumes "t < 64"
  shows "md5_fn (rfc_fn t) X Y Z = rfc_aux t X Y Z"
proof (rule bit_word_eqI)
  fix n assume "n < LENGTH(32)"
  then have n: "n < 32" by simp
  have "rfc_fn t = (if t < 16 then 1 else if t < 32 then 2 else if t < 48 then 3 else 4)" using assms by (auto simp: rfc_fn_def)
  then show "bit (md5_fn (rfc_fn t) X Y Z) n = bit (rfc_aux t X Y Z) n"
    using n by (simp add: md5_fn_def rfc_aux_def rfc_bit_def md5_F_def md5_G_def md5_H_def md5_I_def bit_simps)
qed

lemma md5_T_code:
  assumes "t < 64"
  shows "md5_T ! Suc t = rfc_T t"
proof -
  have "list_all (\<lambda>t. sine_integer (Suc t) (uint (md5_T ! Suc t))) [0..<64]" by code_simp
  then have "sine_integer (Suc t) (uint (md5_T ! Suc t))" using assms by (simp add: list_all_iff)
  then have "\<lfloor>2 ^ 32 * \<bar>sin (real (Suc t))\<bar>\<rfloor> = uint (md5_T ! Suc t)" using assms by (intro sine_floor) simp_all
  then show ?thesis by (simp add: rfc_T_def)
qed

lemma byte_nat: "(ucast (drop_bit k w) :: u8) = of_nat (drop_bit k (unat w))" for w :: u32
  by (rule bit_word_eqI) (simp add: bit_simps)

lemma rfc_le_bits: "rfc_le n x = map (\<lambda>j. of_nat (drop_bit (8 * j) x)) [0..<n]"
  by (simp add: rfc_le_def drop_bit_eq_div power_mult)

lemma le32enc_code: "le32enc w = rfc_le 4 (unat w)"
  using byte_nat [of 0 w] by (simp add: le32enc_def htonl_def rfc_le_bits byte_nat eval_nat_numeral)

lemma le64enc_code: "le64enc (of_nat x) = rfc_le 8 x"
proof -
  have low: "(ucast (drop_bit k (ucast (of_nat x :: u64) :: u32)) :: u8) = of_nat (drop_bit k x)" if "k \<le> 24" for k
    by (rule bit_word_eqI) (use that in \<open>simp add: bit_simps\<close>)
  have high: "(ucast (drop_bit k (ucast (drop_bit 32 (of_nat x :: u64)) :: u32)) :: u8) = of_nat (drop_bit (32 + k) x)" if "k \<le> 24" for k
    by (rule bit_word_eqI) (use that in \<open>simp add: bit_simps ac_simps\<close>)
  have "[0..<8] = [0, 1, 2, 3, 4, 5, 6, 7]" by code_simp
  then show ?thesis using low [of 0] high [of 0] by (simp add: le64enc_def le32enc_def htonl_def rfc_le_bits low high)
qed

lemma rfc_word_sum:
  "rfc_word bs i = of_nat (unat (bs ! (4 * i)) + 256 * (unat (bs ! (4 * i + 1)) + 256 * (unat (bs ! (4 * i + 2)) + 256 * unat (bs ! (4 * i + 3)))))"
proof -
  have "{..<4 :: nat} = {0, 1, 2, 3}" by auto
  then show ?thesis by (simp add: rfc_word_def algebra_simps)
qed

lemma rfc_le_word:
  fixes a b c d :: u8
  defines "n \<equiv> unat a + 256 * (unat b + 256 * (unat c + 256 * unat d))"
  shows "rfc_le 4 n = [a, b, c, d]" "n < 2 ^ 32"
proof -
  have l: "unat x < 256" for x :: u8 using unsigned_less [of x, where ?'a = nat] by simp
  have m: "(unat x + 256 * k) div 256 = k" for x :: u8 and k using l [of x] by simp
  have "(256 :: u8) * y = 0" for y
  proof -
    have "(256 :: u8) = 0" by code_simp
    then show ?thesis by (simp only: mult_zero_left)
  qed
  then have z: "(of_nat (unat x + 256 * k) :: u8) = x" for x k by simp
  have "[0..<4] = [0, 1, 2, 3]" by code_simp
  then have "rfc_le 4 n = [of_nat n, of_nat (n div 256), of_nat (n div 256 div 256), of_nat (n div 256 div 256 div 256)]"
    by (simp add: rfc_le_def div_mult2_eq [symmetric])
  then show "rfc_le 4 n = [a, b, c, d]" by (simp only: n_def m z of_nat_unat ucast_id)
  show "n < 2 ^ 32" using l [of a] l [of b] l [of c] l [of d] by (simp add: n_def)
qed

lemma rfc_word_code:
  assumes "4 * i + 4 \<le> length bs"
  shows "le32dec (drop (4 * i) bs) = rfc_word bs i"
proof -
  let ?a = "bs ! (4 * i)" and ?b = "bs ! (4 * i + 1)" and ?c = "bs ! (4 * i + 2)" and ?d = "bs ! (4 * i + 3)"
  let ?n = "unat ?a + 256 * (unat ?b + 256 * (unat ?c + 256 * unat ?d))"
  note w = rfc_le_word [of ?a ?b ?c ?d]
  have "unat (of_nat ?n :: u32) = ?n" unfolding unat_of_nat using w(2) by (simp only: take_bit_eq_mod mod_less len_num1 len_bit0 len_bit1) simp
  then have "le32enc (of_nat ?n) = [?a, ?b, ?c, ?d]" using w(1) unfolding le32enc_code by (simp only:)
  then have "htonl (of_nat ?n) = [?d, ?c, ?b, ?a]" unfolding le32enc_def by (simp add: rev_swap)
  then have "ntohl [?d, ?c, ?b, ?a] = of_nat ?n" using ntohl_htonl by metis
  moreover have "drop (4 * i) bs ! j = bs ! (4 * i + j)" if "j < 4" for j using assms that by (simp add: nth_drop)
  ultimately show ?thesis unfolding le32dec_def rfc_word_sum by simp
qed

lemma md5_words_code: "length bs = 64 \<Longrightarrow> md5_words bs = map (rfc_word bs) [0..<16]"
  by (simp add: md5_words_def rfc_word_code)

lemma rfc_iv_code: "rfc_iv = [0x67452301, 0xefcdab89, 0x98badcfe, 0x10325476]"
  by (simp add: rfc_iv_def rfc_word_sum)

subsection \<open>The compression function\<close>

lemma md5_rounds_map:
  "md5_rounds = map (\<lambda>t. (rfc_fn t, (64 - t) mod 4, (65 - t) mod 4, (66 - t) mod 4, (67 - t) mod 4,
                           rfc_k t, rfc_s t, Suc t)) [0..<64]"
  unfolding md5_rounds_def by code_simp

lemma md5_SHIFT_rotl:
  assumes "0 < s" "s < 32"
  shows "md5_SHIFT X s = word_rotl s X"
proof (rule bit_word_eqI)
  fix n assume "n < LENGTH(32)"
  then have n: "n < 32" by simp
  show "bit (md5_SHIFT X s) n = bit (word_rotl s X) n"
  proof (cases "s \<le> n")
    case True
    with n assms have "\<not> bit X (32 - s + n)" using bit_imp_le_length [of X "32 - s + n"] by auto
    moreover from True n have "(n + (32 - s mod 32)) mod 32 = n - s" using assms by (simp add: le_mod_geq)
    ultimately show ?thesis using True n assms by (simp add: md5_SHIFT_def bit_simps)
  next
    case False
    then have "(n + (32 - s mod 32)) mod 32 = 32 - s + n" using assms by simp
    with False n assms show ?thesis by (simp add: md5_SHIFT_def bit_simps)
  qed
qed

lemma rfc_s_range: "t < 64 \<Longrightarrow> 0 < rfc_s t \<and> rfc_s t < 32"
proof -
  assume "t < 64"
  then have "t div 16 = 0 \<or> t div 16 = 1 \<or> t div 16 = 2 \<or> t div 16 = 3"
    and "t mod 4 = 0 \<or> t mod 4 = 1 \<or> t mod 4 = 2 \<or> t mod 4 = 3" by linarith+
  then show ?thesis unfolding rfc_s_def by (elim disjE) simp_all
qed

definition md5_roles :: "nat \<Rightarrow> u32 list \<Rightarrow> u32 list" where
  "md5_roles t R = map (\<lambda>j. R ! ((64 - t + j) mod 4)) [0, 1, 2, 3]"

lemma list4: "length R = 4 \<Longrightarrow> \<exists>a b c d. R = [a, b, c, d]"
  by (auto simp: eval_nat_numeral length_Suc_conv)

lemma md5_roles_ends:
  assumes "length R = 4"
  shows "md5_roles 0 R = R" "md5_roles 64 R = R"
  using list4 [OF assms] by (auto simp: md5_roles_def)

lemma length_md5_ROUND [simp]: "length (md5_ROUND X q a b c d k s i R) = length R"
  by (simp add: md5_ROUND_def Let_def)

lemma md5_ROUND_step:
  assumes "length R = 4" "t < 64"
  shows "md5_roles (Suc t) (md5_ROUND X (rfc_fn t) ((64 - t) mod 4) ((65 - t) mod 4) ((66 - t) mod 4) ((67 - t) mod 4)
           (rfc_k t) (rfc_s t) (Suc t) R) = rfc_round X t (md5_roles t R)"
proof -
  define r where "r = (64 - t) mod 4"
  have here: "(64 + j - t) mod 4 = (r + j) mod 4" for j
    using assms(2) by (simp add: r_def mod_simps)
  have roles: "(64 - t + j) mod 4 = (r + j) mod 4" for j by (simp add: r_def mod_simps)
  have after: "(64 - Suc t + j) mod 4 = (r + (j + 3)) mod 4" for j
  proof -
    have "64 - Suc t + j + 4 = 64 - t + (j + 3)" using assms(2) by simp
    then have "(64 - Suc t + j) mod 4 = (64 - t + (j + 3)) mod 4" by (metis mod_add_self2)
    then show ?thesis by (simp add: r_def mod_simps)
  qed
  from list4 [OF assms(1)] obtain a b c d where R: "R = [a, b, c, d]" by blast
  have s: "md5_SHIFT x (rfc_s t) = word_rotl (rfc_s t) x" for x
    using rfc_s_range [OF assms(2)] by (simp add: md5_SHIFT_rotl)
  note code = rfc_aux_code [OF assms(2)] md5_T_code [OF assms(2)]
  have "r < 4" by (simp add: r_def)
  then consider "r = 0" | "r = 1" | "r = 2" | "r = 3" by linarith
  then show ?thesis
    unfolding md5_roles_def after roles here [of 0, simplified] here [of 1, simplified] here [of 2, simplified]
      here [of 3, simplified] R
    by cases (simp_all add: md5_ROUND_def Let_def s code del: nth_Cons_Suc)
qed

definition md5_step :: "u32 list \<Rightarrow> nat \<Rightarrow> u32 list \<Rightarrow> u32 list" where
  "md5_step X t = md5_ROUND X (rfc_fn t) ((64 - t) mod 4) ((65 - t) mod 4) ((66 - t) mod 4) ((67 - t) mod 4)
                    (rfc_k t) (rfc_s t) (Suc t)"

lemma length_fold_md5_step [simp]: "length (fold (md5_step X) ts R) = length R"
  by (induction ts arbitrary: R) (simp_all add: md5_step_def)

lemma fold_md5_step:
  assumes "length R = 4" "n \<le> 64"
  shows "md5_roles n (fold (md5_step X) [0..<n] R) = fold (rfc_round X) [0..<n] R"
  using assms(2)
proof (induction n)
  case 0
  then show ?case by (simp add: md5_roles_ends assms(1))
next
  case (Suc n)
  then show ?case
    using md5_ROUND_step [of "fold (md5_step X) [0..<n] R" n X, folded md5_step_def] assms(1) by simp
qed

lemma md5_calc_reference:
  assumes "length st = 4" "length b = 64"
  shows "md5_calc st b = rfc_compress st b"
proof -
  let ?R = "fold (md5_step (md5_words b)) [0..<64] st"
  have e: "(\<lambda>t. md5_ROUND X (rfc_fn t) ((64 - t) mod 4) ((65 - t) mod 4) ((66 - t) mod 4) ((67 - t) mod 4)
                    (rfc_k t) (rfc_s t) (Suc t)) = md5_step X" for X
    by (rule ext) (simp only: md5_step_def)
  have "fold (\<lambda>(q, a, r, c, d, k, s, i). md5_ROUND (md5_words b) q a r c d k s i) md5_rounds st = ?R"
    by (simp only: md5_rounds_map fold_map o_def prod.case e)
  then have c: "md5_calc st b = [st ! 0 + ?R ! 0, st ! 1 + ?R ! 1, st ! 2 + ?R ! 2, st ! 3 + ?R ! 3]"
    by (simp only: md5_calc_def Let_def)
  have R: "?R = fold (rfc_round (md5_words b)) [0..<64] st"
    using fold_md5_step [OF assms(1), of 64 "md5_words b"] md5_roles_ends(2) [of ?R] assms(1)
    by (simp only: length_fold_md5_step order_refl)
  have l: "length ?R = 4" using assms(1) by (simp only: length_fold_md5_step)
  have "map2 (+) S V = [S ! 0 + V ! 0, S ! 1 + V ! 1, S ! 2 + V ! 2, S ! 3 + V ! 3]"
    if "length S = 4" "length V = 4" for S V :: "u32 list"
    using list4 [OF that(1)] list4 [OF that(2)] by auto
  from this [OF assms(1) l] c show ?thesis unfolding rfc_compress_def md5_words_code [OF assms(2), symmetric] R [symmetric] by simp
qed

lemma length_md5_calc [simp]: "length (md5_calc st b) = 4"
  by (simp add: md5_calc_def Let_def)

subsection \<open>Streaming\<close>

definition md5_rep :: "eigrp_md5_ctx \<Rightarrow> u8 list \<Rightarrow> bool" where
  "md5_rep ctx m \<longleftrightarrow>
     buffers md5_calc rfc_iv (md5_st ctx) (md5_buf ctx) m
     \<and> md5_i ctx = of_nat (length m mod 64) \<and> md5_n ctx = of_nat (8 * length m)"

text \<open>The length of one chunk in bits fits the 32 bits in which \<^verbatim>\<open>eigrp_md5_update\<close> multiplies.\<close>

definition md5_fits :: "u8 list \<Rightarrow> bool" where
  "md5_fits x \<longleftrightarrow> length x < 2 ^ 29"

lemma md5_rep_init: "md5_rep (eigrp_md5_init ctx) []"
  by (simp add: md5_rep_def eigrp_md5_init_def rfc_iv_code)

lemma md5_blocks_absorb:
  assumes "unat len = length input" "unat i \<le> length input" "length input < 2 ^ 29"
  shows "\<exists>j. md5_blocks st input len i = Some (absorb md5_calc st (drop (unat i) input), j)
             \<and> unat j \<le> length input \<and> drop (unat j) input = leftover (drop (unat i) input)"
  using assms
proof (induction st input len i rule: md5_blocks.induct)
  case (1 st input len i)
  show ?case
  proof (cases "unat i + 64 \<le> unat len")
    case True
    then have u: "unat (i + 64) = unat i + 64" by (intro md5_blocks_index [of len i]) simp
    with True have c: "i + 64 \<le> len" by (simp add: word_le_nat_alt)
    let ?y = "drop (unat i) input"
    have d: "drop (unat (i + 64)) input = drop 64 ?y" by (simp add: u add.commute)
    have l: "64 \<le> length ?y" using True 1(2) by simp
    note lo = leftover_drop [OF l]
    with 1(1) [OF c] True 1(2,4) u d l show ?thesis
      by (simp add: md5_blocks.simps [of st input len i] c absorb.simps [of _ st ?y])
  next
    case False
    from 1 have "unat (i + 64) = unat i + 64" by (simp add: unat_word_ariths)
    with False have "\<not> i + 64 \<le> len" by (simp add: word_le_nat_alt)
    with False 1(2,3) show ?thesis
      by (simp add: md5_blocks.simps [of st input len i] leftover_short)
  qed
qed
lemma md5_memcpy_Some [simp]: "off + length x \<le> 64 \<Longrightarrow> md5_memcpy b off x = Some (memcpy_at b off x)"
  by (simp add: md5_memcpy_def)

lemma md5_rep_update:
  assumes "md5_rep ctx m" "md5_fits x"
  shows "\<exists>ctx'. eigrp_md5_update ctx x = Some ctx' \<and> md5_rep ctx' (m @ x)"
proof -
  let ?r = "length m mod 64" and ?len = "of_nat (length x) :: u32"
  let ?y = "drop (64 - ?r) x" and ?b = "memcpy_at (md5_buf ctx) ?r (take (64 - ?r) x)"
  from assms(1) have B: "buffers md5_calc rfc_iv (md5_st ctx) (md5_buf ctx) m" and I: "md5_i ctx = of_nat ?r"
    and N: "md5_n ctx = of_nat (8 * length m)" by (simp_all add: md5_rep_def)
  have x: "length x < 2 ^ 29" using assms(2) by (simp add: md5_fits_def)
  then have len: "unat ?len = length x" by (simp add: unat_of_nat)
  have "?len * 8 = of_nat (8 * length x)" by simp
  moreover have "unat (of_nat (8 * length x) :: u32) = 8 * length x" using x by (simp add: unat_of_nat del: of_nat_mult)
  ultimately have n: "md5_n ctx + ucast (?len * 8) = of_nat (8 * length (m @ x))"
    unfolding N by (metis add_mult_distrib2 length_append of_nat_add of_nat_unat)
  have r: "?r < 64" by simp
  then have i: "unat (md5_i ctx) = ?r" unfolding I by (simp add: unat_of_nat)
  have g: "64 - md5_i ctx = (of_nat (64 - ?r) :: u32)" unfolding I using r by (simp add: of_nat_diff)
  have ug: "unat (64 - md5_i ctx) = 64 - ?r" unfolding g unat_of_nat by (simp add: take_bit_eq_mod)
  note upd = eigrp_md5_update_def [of ctx x, unfolded Let_def]
  show ?thesis
  proof (cases "length x < 64 - ?r")
    case True
    then have "\<not> 64 - md5_i ctx \<le> ?len" by (simp add: word_le_nat_alt ug len)
    moreover have "(length m + length x) mod 64 = ?r + length x" using True residue_short [of m x] by simp
    ultimately show ?thesis
      using True buffers_short [OF B, of x] n i unfolding upd by (simp add: md5_rep_def I)
  next
    case False
    then have le: "64 - md5_i ctx \<le> ?len" and l: "64 \<le> ?r + length x" by (simp_all add: word_le_nat_alt ug len)
    have "length (md5_buf ctx) = 64" using B by (simp add: buffers_def)
    then have b: "length ?b = 64" using l by simp
    obtain j where blocks: "md5_blocks (md5_calc (md5_st ctx) ?b) x ?len (64 - md5_i ctx)
        = Some (absorb md5_calc (md5_calc (md5_st ctx) ?b) ?y, j)"
      and j: "unat j \<le> length x" "drop (unat j) x = leftover ?y"
      using md5_blocks_absorb [OF len, of "64 - md5_i ctx" "md5_calc (md5_st ctx) ?b"] False x by (auto simp: ug)
    have "unat (?len - j) = length x - unat j" using j len by (simp add: unat_sub_if')
    moreover have "length x - unat j = length (leftover ?y)" using j by (metis length_drop)
    ultimately have uj: "unat (?len - j) = length (leftover ?y)" by simp
    have m: "length (m @ x) mod 64 = length (leftover ?y)" by (rule residue_long [OF refl l])
    have k: "?len - j = of_nat (length (leftover ?y))" using uj by (metis of_nat_unat ucast_id)
    have c1: "md5_memcpy (md5_buf ctx) ?r (take (64 - ?r) x) = Some ?b" using r by simp
    have c2: "md5_memcpy ?b 0 (leftover ?y) = Some (memcpy_at ?b 0 (leftover ?y))" by simp
    have t: "take (unat (?len - j)) (drop (unat j) x) = leftover ?y" unfolding uj j(2) by simp
    have "eigrp_md5_update ctx x
        = Some (ctx\<lparr>md5_n := of_nat (8 * length (m @ x)), md5_st := absorb md5_calc (md5_calc (md5_st ctx) ?b) ?y,
                    md5_i := ?len - j, md5_buf := memcpy_at ?b 0 (leftover ?y)\<rparr>)"
      using le unfolding upd n
      by (simp add: i ug c1 c2 t blocks del: of_nat_mult length_append)
    moreover have "buffers md5_calc rfc_iv (absorb md5_calc (md5_calc (md5_st ctx) ?b) ?y) (memcpy_at ?b 0 (leftover ?y)) (m @ x)"
      by (intro buffers_long [OF B refl l] memcpy_leftover b)
    ultimately show ?thesis
      unfolding md5_rep_def m k by (simp del: of_nat_mult length_append)
  qed
qed
lemma length_le32enc [simp]: "length (le32enc w) = 4" and length_le64enc [simp]: "length (le64enc v) = 8"
  by (simp_all add: le32enc_def le64enc_def)

lemma paddat_prefix: "0 < n \<Longrightarrow> n \<le> 64 \<Longrightarrow> take n eigrp_md5_paddat = 0x80 # replicate (n - 1) 0"
  by (cases n) (simp_all add: eigrp_md5_paddat_def)

lemma paddat_zeros: "0 < n \<Longrightarrow> n \<le> 8 \<Longrightarrow> take 56 (drop n eigrp_md5_paddat) = replicate 56 0"
  by (cases n) (simp_all add: eigrp_md5_paddat_def)

lemma absorb_one: "length b = 64 \<Longrightarrow> absorb f h b = f h b"
  using absorb_block [of b f h "[]"] by simp

lemma memcpy_fill: "r \<le> length b \<Longrightarrow> length b = r + length x \<Longrightarrow> memcpy_at b r x = take r b @ x"
  by (simp add: memcpy_at_def)

lemma memcpy_second_block:
  assumes "length b = 64" "length l = 8"
  shows "memcpy_at (memcpy_at b 0 (replicate 56 0)) 56 l = replicate 56 0 @ l"
  using assms by (simp add: memcpy_at_def)

lemma md5_pad_absorb:
  assumes "md5_rep ctx m"
  shows "\<exists>ctx'. eigrp_md5_pad ctx = Some ctx' \<and> md5_st ctx' = absorb md5_calc rfc_iv (rfc_pad m)"
proof -
  define r where "r = length m mod 64"
  define L where "L = le64enc (md5_n ctx)"
  define h where "h = absorb md5_calc rfc_iv m"
  from assms have b: "length (md5_buf ctx) = 64" "take r (md5_buf ctx) = leftover m" and st: "md5_st ctx = h"
    and i: "md5_i ctx = of_nat r" and n: "md5_n ctx = of_nat (8 * length m)"
    by (simp_all add: md5_rep_def buffers_def r_def h_def)
  have r: "r < 64" by (simp add: r_def)
  have lm: "length (leftover m) = r" by (simp add: r_def)
  have lL: "length L = 8" by (simp add: L_def)
  from r have ui: "unat (md5_i ctx) = r" by (simp add: i unat_of_nat)
  have g: "64 - md5_i ctx = (of_nat (64 - r) :: u32)" unfolding i using r by (simp add: of_nat_diff)
  have ug: "unat (64 - md5_i ctx) = 64 - r" unfolding g unat_of_nat by (simp add: take_bit_eq_mod)
  have "absorb md5_calc rfc_iv (rfc_pad m)
      = absorb md5_calc h (leftover m @ 0x80 # replicate ((119 - r) mod 64) 0 @ L)"
    by (simp only: rfc_pad_def absorb_append [of _ _ m] h_def r_def L_def n le64enc_code)
  note spec = this
  show ?thesis
  proof (cases "r < 56")
    case True
    have gt: "8 < 64 - md5_i ctx" using True by (simp add: word_less_nat_alt ug)
    have "64 - md5_i ctx - 8 = (of_nat (56 - r) :: u32)" unfolding i using True by (simp add: of_nat_diff)
    then have "unat (64 - md5_i ctx - 8) = 56 - r" by (simp only: unat_of_nat) (simp add: take_bit_eq_mod)
    then have c1: "take (unat (64 - md5_i ctx - 8)) eigrp_md5_paddat = 0x80 # replicate (55 - r) 0"
      using True by (simp add: paddat_prefix)
    let ?b = "memcpy_at (md5_buf ctx) r (0x80 # replicate (55 - r) 0)"
    have e: "?b = (leftover m @ 0x80 # replicate (55 - r) 0) @ drop 56 (md5_buf ctx)"
      using True b by (simp add: memcpy_at_def)
    have "length (leftover m @ 0x80 # replicate (55 - r) 0) = 56" using True lm by simp
    then have "length ?b = 64" "take 56 ?b = leftover m @ 0x80 # replicate (55 - r) 0"
      using b(1) unfolding e by (simp_all del: append_assoc)
    then have blk: "memcpy_at ?b 56 L = leftover m @ 0x80 # replicate (55 - r) 0 @ L"
      using lL by (simp add: memcpy_fill)
    have "(119 - r) mod 64 = 55 - r" using True by (simp add: le_mod_geq)
    moreover have "length (leftover m @ 0x80 # replicate (55 - r) 0 @ L) = 64" using True lm lL by simp
    ultimately have "absorb md5_calc rfc_iv (rfc_pad m) = md5_calc h (memcpy_at ?b 56 L)"
      unfolding spec blk by (simp only: absorb_one)
    then show ?thesis
      using gt True lL unfolding eigrp_md5_pad_def Let_def c1 by (simp add: ui st L_def [symmetric])
  next
    case False
    have gt: "\<not> 8 < 64 - md5_i ctx" using False by (simp add: word_less_nat_alt ug)
    have c1: "take (unat (64 - md5_i ctx)) eigrp_md5_paddat = 0x80 # replicate (63 - r) 0"
      using r by (simp add: ug paddat_prefix)
    have c2: "take 56 (drop (unat (64 - md5_i ctx)) eigrp_md5_paddat) = replicate 56 0"
      using r False by (simp add: ug paddat_zeros)
    let ?b = "memcpy_at (md5_buf ctx) r (0x80 # replicate (63 - r) 0)"
    have blk1: "?b = leftover m @ 0x80 # replicate (63 - r) 0" and lb: "length ?b = 64"
      using r b lm by (simp_all add: memcpy_fill)
    have blk2: "memcpy_at (memcpy_at ?b 0 (replicate 56 0)) 56 L = replicate 56 0 @ L"
      using memcpy_second_block [OF lb lL] .
    have "(119 - r) mod 64 = (63 - r) + 56" using False r by simp
    then have "leftover m @ 0x80 # replicate ((119 - r) mod 64) 0 @ L = ?b @ (replicate 56 0 @ L)"
      unfolding blk1 by (simp only: replicate_add append_assoc append_Cons)
    moreover have "length (replicate 56 0 @ L) = 64" using lL by simp
    ultimately have "absorb md5_calc rfc_iv (rfc_pad m)
        = md5_calc (md5_calc h ?b) (memcpy_at (memcpy_at ?b 0 (replicate 56 0)) 56 L)"
      unfolding spec blk2 by (simp only: absorb_block [OF lb] absorb_one)
    then show ?thesis
      using gt r lL unfolding eigrp_md5_pad_def Let_def by (simp add: c1 c2 ui st L_def [symmetric])
  qed
qed

lemma length_rfc_iv [simp]: "length rfc_iv = 4"
  by (simp add: rfc_iv_code)

lemma absorb_rfc:
  "length h = 4 \<Longrightarrow> absorb md5_calc h bs = absorb rfc_compress h bs \<and> length (absorb rfc_compress h bs) = 4"
proof (induction "md5_calc" h bs rule: absorb.induct)
  case (1 h bs)
  then show ?case
    using md5_calc_reference [of h "take 64 bs"] length_md5_calc [of h "take 64 bs"]
    by (cases "64 \<le> length bs") (simp_all add: absorb.simps [of _ h bs])
qed

lemma md5_final_hash: "md5_rep ctx m \<Longrightarrow> eigrp_md5_final ctx = Some (md5 m)"
  using md5_pad_absorb [of ctx m] absorb_rfc [of rfc_iv "rfc_pad m"]
  by (auto simp: eigrp_md5_final_def eigrp_md5_result_def md5_def le32enc_code [abs_def])

lemma length_md5 [simp]: "length (md5 m) = 16"
  using absorb_rfc [of rfc_iv "rfc_pad m"] by (simp add: md5_def rfc_le_def length_concat comp_def sum_list_triv)

interpretation md5_stream: digest_stream md5_rep md5_fits eigrp_md5_update eigrp_md5_final md5
  by unfold_locales (auto simp: md5_rep_update md5_final_hash md5_fits_def)

lemma md5_key_pad_key:
  "length K \<le> 64 \<Longrightarrow> md5_key_pad v K = map (\<lambda>k. k XOR v) (K @ replicate (64 - length K) 0)"
  by (simp add: md5_key_pad_def)

lemma hmac_md5_reference:
  assumes "md5_fits msg" "md5_fits key"
  shows "eigrp_hmac_md5 ctx msg key = Some (hmac md5 key msg)"
proof -
  define k where "k = (if 64 < length key then md5 key else key)"
  have lk: "length k \<le> 64" by (simp add: k_def)
  then have p: "md5_key_pad v k = map (\<lambda>b. b XOR v) (hmac_key md5 key)" for v
    by (simp add: md5_key_pad_key hmac_key_def k_def Let_def)
  have fits: "md5_fits (md5_key_pad v k)" for v
    unfolding p by (rule md5_stream.fits_block) (simp add: md5_stream.length_hmac_key)
  obtain t where "eigrp_md5_update (eigrp_md5_init ctx) key = Some t" "md5_rep t key"
    using md5_rep_update [OF md5_rep_init assms(2), of ctx] by auto
  then have key: "(if 64 < length key then do { t \<leftarrow> eigrp_md5_update (eigrp_md5_init ctx) key; eigrp_md5_final t }
      else Some key) = Some k"
    by (simp add: k_def md5_final_hash)
  obtain c where c: "eigrp_md5_update (eigrp_md5_init ctx) (md5_key_pad 0x36 k) = Some c" "md5_rep c (md5_key_pad 0x36 k)"
    using md5_rep_update [OF md5_rep_init fits, of ctx] by auto
  obtain c' where c': "eigrp_md5_update c msg = Some c'" "md5_rep c' (md5_key_pad 0x36 k @ msg)"
    using md5_rep_update [OF c(2) assms(1)] by auto
  obtain d where d: "eigrp_md5_update (eigrp_md5_init c') (md5_key_pad 0x5c k) = Some d" "md5_rep d (md5_key_pad 0x5c k)"
    using md5_rep_update [OF md5_rep_init fits, of c'] by auto
  from md5_stream.hmac_contexts [of c' key msg d] c'(2) d(2)
  obtain e d' where "eigrp_md5_final c' = Some e" "eigrp_md5_update d e = Some d'"
    "eigrp_md5_final d' = Some (hmac md5 key msg)" unfolding p by blast
  then show ?thesis unfolding eigrp_hmac_md5_def key by (simp add: c c' d)
qed

text \<open>
  The multiplication \<^verbatim>\<open>len * 8\<close> of \<^verbatim>\<open>eigrp_md5_update\<close> is done in 32 bits: a chunk of \<open>2 ^ 29\<close> bytes adds
  nothing to the bit count.
\<close>

lemma md5_count_wraps:
  assumes "length x = 2 ^ 29" "eigrp_md5_update ctx x = Some ctx'"
  shows "md5_n ctx' = md5_n ctx"
proof -
  have "(of_nat (length x) :: u32) * 8 = 0" unfolding assms(1) by simp
  then show ?thesis
    using assms(2) unfolding eigrp_md5_update_def Let_def
    by (auto simp: bind_eq_Some_conv split: if_splits)
qed

text \<open>
  C27: MD5 and HMAC-MD5 are those of RFC 1321 and RFC 2104.  However a message is split into chunks of
  less than 512 MiB, the code neither writes past its buffer nor reads past its input, and the
  digest is that of the whole message, as the standard defines it: the auxiliary functions bit by bit, the constants as the integer parts of the sine
  function, the schedule and the shifts by number, words and lengths by their bytes; the keyed digest is the one the standard defines, also for a
  key longer than a block.
\<close>

theorem md5_streaming:
  assumes "\<forall>x\<in>set xs. md5_fits x" "md5_fits msg" "md5_fits key"
  shows "Option.bind (feed eigrp_md5_update (eigrp_md5_init ctx) xs) eigrp_md5_final = Some (md5 (concat xs))
         \<and> eigrp_hmac_md5 ctx msg key = Some (hmac md5 key msg)"
  using md5_stream.feed_fin [OF md5_rep_init assms(1), of ctx] hmac_md5_reference [OF assms(2,3)] by simp

text \<open>The message \<open>abc\<close> in two chunks, and the digest the test suite of RFC 1321 gives for it.\<close>

lemma md5_abc:
  "Option.bind (feed eigrp_md5_update (eigrp_md5_init \<lparr>md5_st = [], md5_n = 9, md5_i = 5, md5_buf = []\<rparr>) [[0x61], [0x62, 0x63]]) eigrp_md5_final
     = Some [0x90, 0x01, 0x50, 0x98, 0x3c, 0xd2, 0x4f, 0xb0, 0xd6, 0x96, 0x3f, 0x7d, 0x28, 0xe1, 0x7f, 0x72]"
  by code_simp

theorem md5_streaming_witness:
  "md5 [0x61, 0x62, 0x63] = [0x90, 0x01, 0x50, 0x98, 0x3c, 0xd2, 0x4f, 0xb0, 0xd6, 0x96, 0x3f, 0x7d, 0x28, 0xe1, 0x7f, 0x72]
   \<and> eigrp_hmac_md5 \<lparr>md5_st = [], md5_n = 9, md5_i = 5, md5_buf = []\<rparr> [1] [2, 3] = Some (hmac md5 [2, 3] [1])"
  using md5_streaming [of "[[0x61], [0x62, 0x63]]" "[1]" "[2, 3]" "\<lparr>md5_st = [], md5_n = 9, md5_i = 5, md5_buf = []\<rparr>"] md5_abc
  by (simp add: md5_fits_def)

end
