(* ===== verification/Eigrp_Auth.thy ===== *)
theory Eigrp_Auth
  imports Eigrp_Prefix Eigrp_Stream Eigrp_Sha256 Eigrp_Md5
begin

text \<open>
  Packet authentication (\<^verbatim>\<open>eigrp_auth.c\<close>, the authentication part of the receive path of
  \<^verbatim>\<open>eigrp_packet.c\<close> and the key lookup of \<^verbatim>\<open>eigrp_southbound.c\<close>).  A packet is its bytes; the
  authentication TLV lies right after the header of 20 bytes, so its fields have fixed offsets: type
  20, length 22, authentication type 24, digest length 26, key id 28, sequence 32, padding 36,
  digest 44.  The sender signs when it hands the packet to the host, the receiver checks framing,
  policy, sequence and digest.

  Strings are their characters without the final NUL.  The key chains of the host and
  \<^verbatim>\<open>inet_ntop\<close> are the record \<open>auth_host\<close>.  A function whose result is an \<open>option\<close> gives \<open>None\<close> for
  undefined behaviour (inside the digests, or a read outside of a received packet), which the theorems exclude.
\<close>

subsection \<open>Constants and state\<close>

definition EIGRP_HEADER_BYTES :: nat where "EIGRP_HEADER_BYTES = 20"
definition EIGRP_AUTH_MD5_TLV_SIZE :: nat where "EIGRP_AUTH_MD5_TLV_SIZE = 40"
definition EIGRP_AUTH_SHA256_TLV_SIZE :: nat where "EIGRP_AUTH_SHA256_TLV_SIZE = 56"
definition EIGRP_MD5_BASIC_COMPUTE :: nat where "EIGRP_MD5_BASIC_COMPUTE = 44"
definition PLAINTEXT_LENGTH :: nat where "PLAINTEXT_LENGTH = 81"
definition INET6_ADDRSTRLEN :: nat where "INET6_ADDRSTRLEN = 46"
definition AF_INET :: nat where "AF_INET = 2"
definition AF_INET6 :: nat where "AF_INET6 = 10"
definition EIGRP_TLV_AUTH :: u16 where "EIGRP_TLV_AUTH = 2"
definition EIGRP_AUTH_TYPE_NONE :: u16 where "EIGRP_AUTH_TYPE_NONE = 0"
definition EIGRP_AUTH_TYPE_MD5 :: u16 where "EIGRP_AUTH_TYPE_MD5 = 2"
definition EIGRP_AUTH_TYPE_SHA256 :: u16 where "EIGRP_AUTH_TYPE_SHA256 = 3"
definition EIGRP_AUTH_TYPE_MD5_LEN :: nat where "EIGRP_AUTH_TYPE_MD5_LEN = 16"
definition EIGRP_AUTH_TYPE_SHA256_LEN :: nat where "EIGRP_AUTH_TYPE_SHA256_LEN = 32"
definition EIGRP_AUTH_BASIC_HELLO_FLAG :: u8 where "EIGRP_AUTH_BASIC_HELLO_FLAG = 0x01"
definition EIGRP_AUTH_UPDATE_INIT_FLAG :: u8 where "EIGRP_AUTH_UPDATE_INIT_FLAG = 0x04"
definition EIGRP_AUTH_UPDATE_FLAG :: u8 where "EIGRP_AUTH_UPDATE_FLAG = 0x08"

lemmas auth_consts =
  EIGRP_HEADER_BYTES_def EIGRP_AUTH_MD5_TLV_SIZE_def EIGRP_AUTH_SHA256_TLV_SIZE_def EIGRP_MD5_BASIC_COMPUTE_def
  PLAINTEXT_LENGTH_def EIGRP_TLV_AUTH_def EIGRP_AUTH_TYPE_NONE_def
  EIGRP_AUTH_TYPE_MD5_def EIGRP_AUTH_TYPE_SHA256_def EIGRP_AUTH_TYPE_MD5_LEN_def EIGRP_AUTH_TYPE_SHA256_LEN_def
  EIGRP_AUTH_BASIC_HELLO_FLAG_def EIGRP_AUTH_UPDATE_INIT_FLAG_def EIGRP_AUTH_UPDATE_FLAG_def

text \<open>The part of an interface and of a neighbor that authentication uses; a neighbor keeps the last
  sequence as it came, four bytes in network order.\<close>

record auth_intf =
  auth_keychain :: "u8 list option"
  auth_password :: "u8 list option"
  auth_type :: u16
  intf_crypt_seqnum :: u32
  intf_addr_afi :: eigrp_afi
  intf_addr_bytes :: "u8 list"

record auth_nbr =
  nbr_crypt_seqnum :: "u8 list"
  nbr_src_afi :: nat
  nbr_src_ip :: "u8 list"

text \<open>
  The host: the key that a key chain currently sends with, by the name of the chain (index and, if
  configured, string), and the text form of an address.
\<close>

record auth_host =
  keychain_send_key :: "u8 list \<Rightarrow> (u32 \<times> u8 list option) option"
  inet_ntop :: "nat \<Rightarrow> u8 list \<Rightarrow> nat \<Rightarrow> u8 list option"

definition field :: "nat \<Rightarrow> nat \<Rightarrow> u8 list \<Rightarrow> u8 list" where
  "field off n bs = take n (drop off bs)"

text \<open>
  A read of \<open>n\<close> bytes of a received packet from \<open>off\<close> on: \<open>None\<close>, a fault, when they are not all in the packet.  The code reads through pointers to
  structures; \<open>access\<close> stands where such a structure is first read, and the fields taken from it lie within the bytes it names.
\<close>

definition access :: "nat \<Rightarrow> nat \<Rightarrow> u8 list \<Rightarrow> unit option" where
  "access off n bs = (if off + n \<le> length bs then Some () else None)"

lemma access_ok [simp]: "off + n \<le> length bs \<Longrightarrow> access off n bs = Some ()" "access off n bs = Some u \<longleftrightarrow> off + n \<le> length bs"
  by (simp_all add: access_def)

subsection \<open>Sequences and keys\<close>

definition eigrp_auth_sequence_newer :: "u8 list \<Rightarrow> u8 list \<Rightarrow> bool" where
  "eigrp_auth_sequence_newer received_wire stored_wire =
     (let received = ntohl received_wire; stored = ntohl stored_wire; delta = received - stored
      in if received = 0 then False
         else if stored = 0 then True
         else delta \<noteq> 0 \<and> delta < 0x80000000)"

definition eigrp_auth_sequence_next :: "auth_intf \<Rightarrow> u8 list \<times> auth_intf" where
  "eigrp_auth_sequence_next ei =
     (let n = intf_crypt_seqnum ei + 1; n = (if n = 0 then n + 1 else n)
      in (htonl n, ei\<lparr>intf_crypt_seqnum := n\<rparr>))"

definition eigrp_auth_discovery_sequence_accept :: "auth_intf \<Rightarrow> auth_nbr \<Rightarrow> u8 list \<Rightarrow> (bool \<times> auth_nbr) option" where
  "eigrp_auth_discovery_sequence_accept ei nbr header =
     (if auth_type ei = EIGRP_AUTH_TYPE_NONE then Some (True, nbr)
      else do {
        _ \<leftarrow> access 32 4 header;
        Some (if \<not> eigrp_auth_sequence_newer (field 32 4 header) (nbr_crypt_seqnum nbr) then (False, nbr)
              else (True, nbr\<lparr>nbr_crypt_seqnum := field 32 4 header\<rparr>)) })"

definition eigrp_auth_material_available :: "auth_intf \<Rightarrow> bool" where
  "eigrp_auth_material_available ei \<longleftrightarrow> auth_password ei \<noteq> None \<or> auth_keychain ei \<noteq> None"

text \<open>\<^verbatim>\<open>strlcpy\<close> into a buffer of \<open>size\<close> bytes keeps the first \<open>size - 1\<close> characters.\<close>

definition eigrp_sys_auth_key_lookup :: "auth_host \<Rightarrow> u8 list \<Rightarrow> nat \<Rightarrow> (u32 \<times> u8 list) option" where
  "eigrp_sys_auth_key_lookup H name key_string_size =
     (if name = [] \<or> key_string_size = 0 then None
      else case keychain_send_key H name of
             None \<Rightarrow> None
           | Some (index, None) \<Rightarrow> None
           | Some (index, Some str) \<Rightarrow> Some (index, take (key_string_size - 1) str))"

definition eigrp_auth_key_get :: "auth_host \<Rightarrow> auth_intf \<Rightarrow> nat \<Rightarrow> (u32 \<times> u8 list) option" where
  "eigrp_auth_key_get H ei key_size =
     (if key_size = 0 then None
      else case (auth_type ei = EIGRP_AUTH_TYPE_SHA256, auth_password ei) of
             (True, Some password) \<Rightarrow> (if key_size \<le> length password then None else Some (0, password))
           | _ \<Rightarrow> (case auth_keychain ei of
                     None \<Rightarrow> None
                   | Some name \<Rightarrow> eigrp_sys_auth_key_lookup H name key_size))"

definition eigrp_auth_sha256_source :: "auth_host \<Rightarrow> auth_intf \<Rightarrow> auth_nbr option \<Rightarrow> nat \<Rightarrow> u8 list option" where
  "eigrp_auth_sha256_source H ei nbr text_size =
     (case nbr of
        Some n \<Rightarrow> inet_ntop H (nbr_src_afi n) (nbr_src_ip n) text_size
      | None \<Rightarrow>
          if intf_addr_afi ei = EIGRP_AFI_IPV6 then inet_ntop H AF_INET6 (intf_addr_bytes ei) text_size
          else inet_ntop H AF_INET (intf_addr_bytes ei) text_size)"

subsection \<open>MD5\<close>

definition md5_zeroed :: eigrp_md5_ctx where
  "md5_zeroed = \<lparr>md5_st = replicate 4 0, md5_n = 0, md5_i = 0, md5_buf = replicate 64 0\<rparr>"

text \<open>\<open>Some None\<close> is the result \<^verbatim>\<open>false\<close>, \<open>Some (Some digest)\<close> the result \<^verbatim>\<open>true\<close>.\<close>

definition eigrp_auth_md5_compute :: "u8 list \<Rightarrow> u8 list \<Rightarrow> u8 \<Rightarrow> u8 list option option" where
  "eigrp_auth_md5_compute packet key flags =
     (let tlv_end = EIGRP_HEADER_BYTES + EIGRP_AUTH_MD5_TLV_SIZE; packet_len = length packet
      in if packet_len < tlv_end \<or> 2 ^ 32 - 1 < packet_len
            \<or> flags AND (EIGRP_AUTH_BASIC_HELLO_FLAG OR EIGRP_AUTH_UPDATE_INIT_FLAG OR EIGRP_AUTH_UPDATE_FLAG) = 0
         then Some None
         else do {
           ctx \<leftarrow> eigrp_md5_update (eigrp_md5_init md5_zeroed) (take EIGRP_MD5_BASIC_COMPUTE packet);
           ctx \<leftarrow> eigrp_md5_update ctx key;
           ctx \<leftarrow> (if length key < 16 then eigrp_md5_update ctx (replicate (16 - length key) 0) else Some ctx);
           ctx \<leftarrow> (if flags AND EIGRP_AUTH_BASIC_HELLO_FLAG = 0 \<and> tlv_end < packet_len
                   then eigrp_md5_update ctx (drop tlv_end packet) else Some ctx);
           digest \<leftarrow> eigrp_md5_final ctx;
           Some (Some digest) })"

definition eigrp_make_md5_digest :: "auth_host \<Rightarrow> auth_intf \<Rightarrow> eigrp_stream \<Rightarrow> u8 \<Rightarrow> (nat \<times> eigrp_stream) option" where
  "eigrp_make_md5_digest H ei s flags =
     (if st_endp s < EIGRP_HEADER_BYTES + EIGRP_AUTH_MD5_TLV_SIZE \<or> st_size s < st_endp s then Some (0, s)
      else case eigrp_auth_key_get H ei (PLAINTEXT_LENGTH + 1) of
             None \<Rightarrow> Some (0, s)
           | Some (key_id, key_string) \<Rightarrow> do {
               valid \<leftarrow> eigrp_auth_md5_compute (take (st_endp s) (st_data s)) key_string flags;
               case valid of
                 None \<Rightarrow> Some (0, s)
               | Some digest \<Rightarrow>
                   Some (EIGRP_AUTH_TYPE_MD5_LEN, s\<lparr>st_data := patch (EIGRP_HEADER_BYTES + 24) digest (st_data s)\<rparr>) })"

text \<open>
  The checks get the authentication TLV as a pointer, which every caller sets to the byte after the
  header.  The checksum and the digest are zeroed while the digest is computed and then restored, so
  the stream is unchanged at the end.  The result is whether the packet is accepted, and the
  neighbor.
\<close>

definition auth_tlv_matches :: "u8 list \<Rightarrow> nat \<Rightarrow> u16 \<Rightarrow> nat \<Rightarrow> bool" where
  "auth_tlv_matches bs sz ty digest_len \<longleftrightarrow>
     ntohs (field 20 2 bs) = EIGRP_TLV_AUTH \<and> unat (ntohs (field 22 2 bs)) = sz
     \<and> ntohs (field 24 2 bs) = ty \<and> unat (ntohs (field 26 2 bs)) = digest_len"

definition eigrp_check_md5_digest ::
    "auth_host \<Rightarrow> auth_intf \<Rightarrow> eigrp_stream \<Rightarrow> auth_nbr \<Rightarrow> u8 \<Rightarrow> (bool \<times> auth_nbr) option" where
  "eigrp_check_md5_digest H ei s nbr flags =
     (let bs = take (st_endp s) (st_data s); sequence = field 32 4 bs
      in if st_endp s < EIGRP_HEADER_BYTES + EIGRP_AUTH_MD5_TLV_SIZE \<or> st_size s < st_endp s then Some (False, nbr)
         else do {
           _ \<leftarrow> access EIGRP_HEADER_BYTES EIGRP_AUTH_MD5_TLV_SIZE bs;
           if \<not> auth_tlv_matches bs EIGRP_AUTH_MD5_TLV_SIZE EIGRP_AUTH_TYPE_MD5 EIGRP_AUTH_TYPE_MD5_LEN
           then Some (False, nbr)
           else if \<not> eigrp_auth_sequence_newer sequence (nbr_crypt_seqnum nbr) then Some (False, nbr)
           else case eigrp_auth_key_get H ei (PLAINTEXT_LENGTH + 1) of
                  None \<Rightarrow> Some (False, nbr)
                | Some (key_id, key_string) \<Rightarrow>
                    (let original = field 44 EIGRP_AUTH_TYPE_MD5_LEN bs;
                         zeroed = patch 44 (replicate EIGRP_AUTH_TYPE_MD5_LEN 0) (patch 2 [0, 0] bs)
                     in do {
                       valid \<leftarrow> eigrp_auth_md5_compute zeroed key_string flags;
                       if valid \<noteq> Some original then Some (False, nbr)
                       else Some (True, nbr\<lparr>nbr_crypt_seqnum := sequence\<rparr>) }) })"

subsection \<open>HMAC-SHA-256\<close>

text \<open>The key is a line feed, the password and the text form of the source address.\<close>

definition sha256_key_buffer :: "u8 list \<Rightarrow> u8 list \<Rightarrow> u8 list" where
  "sha256_key_buffer key_string source_ip = 10 # key_string @ source_ip"

definition sha256_packet_hmac :: "eigrp_hmac_sha256_ctx \<Rightarrow> u8 list \<Rightarrow> u8 list \<Rightarrow> u8 list" where
  "sha256_packet_hmac ctx key packet =
     fst (eigrp_hmac_sha256_final (eigrp_hmac_sha256_update (eigrp_hmac_sha256_init ctx key) packet))"

text \<open>\<open>created\<close> says whether the temporary copy of the TLV could be allocated; \<open>ctx\<close> is the uninitialised context.\<close>

definition eigrp_make_sha256_digest ::
    "allocator \<Rightarrow> bool \<Rightarrow> eigrp_hmac_sha256_ctx \<Rightarrow> auth_host \<Rightarrow> auth_intf \<Rightarrow> eigrp_stream \<Rightarrow> nat \<times> eigrp_stream" where
  "eigrp_make_sha256_digest A created ctx H ei s =
     (if st_endp s < EIGRP_HEADER_BYTES + EIGRP_AUTH_SHA256_TLV_SIZE then (0, s)
      else if \<not> created then (0, s)
      else
        (let backup_end = st_endp s; backup_get = st_getp s;
             s = eigrp_stream_set_getp s EIGRP_HEADER_BYTES;
             (auth_tlv, s) = eigrp_stream_get s EIGRP_AUTH_SHA256_TLV_SIZE;
             s = eigrp_stream_set_getp s backup_get
         in case (eigrp_auth_key_get H ei (PLAINTEXT_LENGTH + 1), eigrp_auth_sha256_source H ei None INET6_ADDRSTRLEN) of
              (Some (key_id, key_string), Some source_ip) \<Rightarrow>
                (let auth_tlv = patch 24 (replicate EIGRP_AUTH_TYPE_SHA256_LEN 0) auth_tlv;
                     s = eigrp_stream_set_endp A s EIGRP_HEADER_BYTES;
                     s = snd (eigrp_stream_put A s auth_tlv);
                     s = eigrp_stream_set_endp A s backup_end;
                     digest = sha256_packet_hmac ctx (sha256_key_buffer key_string source_ip) (take backup_end (st_data s));
                     auth_tlv = patch 24 digest auth_tlv;
                     s = eigrp_stream_set_endp A s EIGRP_HEADER_BYTES;
                     s = snd (eigrp_stream_put A s auth_tlv);
                     s = eigrp_stream_set_endp A s backup_end
                 in (EIGRP_AUTH_TYPE_SHA256_LEN, s))
            | _ \<Rightarrow> (0, s)))"

definition eigrp_check_sha256_digest ::
    "eigrp_hmac_sha256_ctx \<Rightarrow> auth_host \<Rightarrow> auth_intf \<Rightarrow> eigrp_stream \<Rightarrow> auth_nbr \<Rightarrow> (bool \<times> auth_nbr) option" where
  "eigrp_check_sha256_digest ctx H ei s nbr =
     (let bs = take (st_endp s) (st_data s); sequence = field 32 4 bs
      in if st_endp s < EIGRP_HEADER_BYTES + EIGRP_AUTH_SHA256_TLV_SIZE then Some (False, nbr)
         else do {
           _ \<leftarrow> access EIGRP_HEADER_BYTES EIGRP_AUTH_SHA256_TLV_SIZE bs;
           Some (if \<not> auth_tlv_matches bs EIGRP_AUTH_SHA256_TLV_SIZE EIGRP_AUTH_TYPE_SHA256 EIGRP_AUTH_TYPE_SHA256_LEN
             then (False, nbr)
             else if \<not> eigrp_auth_sequence_newer sequence (nbr_crypt_seqnum nbr) then (False, nbr)
             else case (eigrp_auth_key_get H ei (PLAINTEXT_LENGTH + 1), eigrp_auth_sha256_source H ei (Some nbr) INET6_ADDRSTRLEN) of
                    (Some (key_id, key_string), Some source_ip) \<Rightarrow>
                      (let original = field 44 EIGRP_AUTH_TYPE_SHA256_LEN bs;
                           zeroed = patch 44 (replicate EIGRP_AUTH_TYPE_SHA256_LEN 0) (patch 2 [0, 0] bs);
                           digest = sha256_packet_hmac ctx (sha256_key_buffer key_string source_ip) zeroed
                       in if original = digest then (True, nbr\<lparr>nbr_crypt_seqnum := sequence\<rparr>) else (False, nbr))
                  | _ \<Rightarrow> (False, nbr)) })"

subsection \<open>The TLV and the signature at transmission\<close>

definition auth_tlv_template :: "u16 \<Rightarrow> u16 \<Rightarrow> u16 \<Rightarrow> u32 \<Rightarrow> nat \<Rightarrow> u8 list" where
  "auth_tlv_template tlv_size ty digest_len key_id n =
     htons EIGRP_TLV_AUTH @ htons tlv_size @ htons ty @ htons digest_len @ htonl key_id @ replicate 4 0
       @ replicate 8 0 @ replicate n 0"

definition eigrp_auth_tlv_md5_encode ::
    "allocator \<Rightarrow> bool \<Rightarrow> auth_host \<Rightarrow> eigrp_stream \<Rightarrow> auth_intf \<Rightarrow> nat \<times> eigrp_stream" where
  "eigrp_auth_tlv_md5_encode A created H s ei =
     (if \<not> created then (0, s)
      else case eigrp_auth_key_get H ei (PLAINTEXT_LENGTH + 1) of
             Some (key_id, key_string) \<Rightarrow>
               (EIGRP_AUTH_MD5_TLV_SIZE,
                snd (eigrp_stream_put A s (auth_tlv_template 40 EIGRP_AUTH_TYPE_MD5 16 key_id 16)))
           | None \<Rightarrow> (0, s))"

definition eigrp_auth_tlv_sha256_encode ::
    "allocator \<Rightarrow> bool \<Rightarrow> auth_host \<Rightarrow> eigrp_stream \<Rightarrow> auth_intf \<Rightarrow> nat \<times> eigrp_stream" where
  "eigrp_auth_tlv_sha256_encode A created H s ei =
     (if \<not> created then (0, s)
      else case eigrp_auth_key_get H ei (PLAINTEXT_LENGTH + 1) of
             Some (key_id, key_string) \<Rightarrow>
               (EIGRP_AUTH_SHA256_TLV_SIZE,
                snd (eigrp_stream_put A s (auth_tlv_template 56 EIGRP_AUTH_TYPE_SHA256 32 0 32)))
           | None \<Rightarrow> (0, s))"

definition eigrp_packet_auth_flags :: "u8 list \<Rightarrow> u8" where
  "eigrp_packet_auth_flags header =
     (if header ! 1 = 5 then EIGRP_AUTH_BASIC_HELLO_FLAG
      else if header ! 1 = 1 \<and> ntohl (field 4 4 header) AND 0x01 \<noteq> 0 then EIGRP_AUTH_UPDATE_INIT_FLAG
      else EIGRP_AUTH_UPDATE_FLAG)"

text \<open>The bytes of the stream are patched in place; \<open>store\<close> writes at an offset.\<close>

definition store :: "nat \<Rightarrow> u8 list \<Rightarrow> eigrp_stream \<Rightarrow> eigrp_stream" where
  "store off bs s = s\<lparr>st_data := patch off bs (st_data s)\<rparr>"

definition checksum_store :: "eigrp_stream \<Rightarrow> eigrp_stream" where
  "checksum_store s = store 2 (htons (eigrp_checksum (take (st_endp s) (st_data s)))) s"

definition eigrp_auth_transmit_finalize ::
    "allocator \<Rightarrow> bool \<Rightarrow> eigrp_hmac_sha256_ctx \<Rightarrow> auth_host \<Rightarrow> auth_intf \<Rightarrow> eigrp_stream \<Rightarrow> nat
       \<Rightarrow> (bool \<times> auth_intf \<times> eigrp_stream) option" where
  "eigrp_auth_transmit_finalize A created ctx H ei s packet_length =
     (if packet_length < EIGRP_HEADER_BYTES \<or> st_endp s \<noteq> packet_length \<or> st_size s < packet_length
      then Some (False, ei, s)
      else if auth_type ei = EIGRP_AUTH_TYPE_NONE then Some (True, ei, checksum_store (store 2 [0, 0] s))
      else if auth_type ei \<noteq> EIGRP_AUTH_TYPE_MD5 \<and> auth_type ei \<noteq> EIGRP_AUTH_TYPE_SHA256 then Some (False, ei, s)
      else
        (let is_md5 = (auth_type ei = EIGRP_AUTH_TYPE_MD5);
             auth_size = (if is_md5 then EIGRP_AUTH_MD5_TLV_SIZE else EIGRP_AUTH_SHA256_TLV_SIZE);
             bs = take (st_endp s) (st_data s)
         in if packet_length < EIGRP_HEADER_BYTES + auth_size
               \<or> eigrp_auth_key_get H ei (PLAINTEXT_LENGTH + 1) = None
            then Some (False, ei, s)
            else if ntohs (field 20 2 bs) \<noteq> EIGRP_TLV_AUTH \<or> unat (ntohs (field 22 2 bs)) \<noteq> auth_size
                    \<or> ntohs (field 24 2 bs) \<noteq> auth_type ei
            then Some (False, ei, s)
            else
              (let (sequence, ei) = eigrp_auth_sequence_next ei;
                   s = store 32 sequence s;
                   s = store 2 [0, 0] s;
                   flags = eigrp_packet_auth_flags (st_data s)
               in if is_md5
                  then do {
                    (n, s) \<leftarrow> eigrp_make_md5_digest H ei (store 44 (replicate 16 0) s) flags;
                    if n \<noteq> EIGRP_AUTH_TYPE_MD5_LEN then Some (False, ei, s) else Some (True, ei, checksum_store s) }
                  else
                    (let (n, s) = eigrp_make_sha256_digest A created ctx H ei (store 44 (replicate 32 0) s)
                     in if n \<noteq> EIGRP_AUTH_TYPE_SHA256_LEN then Some (False, ei, s)
                        else Some (True, ei, checksum_store s)))))"

subsection \<open>The receive path (\<^verbatim>\<open>eigrp_packet.c\<close>)\<close>

text \<open>
  The walk over the TLVs, from \<open>offset\<close> on; the accumulator is the last authentication TLV seen and
  whether it was the first TLV.  \<open>Some None\<close> is the result -1; \<open>None\<close> is a read out of the packet.
\<close>

function auth_tlv_walk :: "u8 list \<Rightarrow> nat \<Rightarrow> nat option \<times> bool \<Rightarrow> (nat option \<times> bool) option option" where
  "auth_tlv_walk bs offset acc =
     (if offset < length bs
      then (if length bs - offset < 4 then Some None
            else do {
              _ \<leftarrow> access offset 4 bs;
              let tlv_type = ntohs (field offset 2 bs);
              let tlv_length = unat (ntohs (field (offset + 2) 2 bs));
              if tlv_length < 4 \<or> length bs - offset < tlv_length then Some None
              else auth_tlv_walk bs (offset + tlv_length)
                     (if tlv_type = EIGRP_TLV_AUTH then (Some offset, offset = EIGRP_HEADER_BYTES) else acc) })
      else Some (Some acc))"
  by pat_completeness auto
termination
  by (relation "measure (\<lambda>(bs, offset, acc). length bs - offset)") auto

declare auth_tlv_walk.simps [simp del]

definition eigrp_packet_auth_tlv_lookup :: "u8 list \<Rightarrow> (nat option \<times> bool) option option" where
  "eigrp_packet_auth_tlv_lookup bs =
     (if length bs < EIGRP_HEADER_BYTES then Some None else auth_tlv_walk bs EIGRP_HEADER_BYTES (None, False))"

text \<open>The reasons for which a packet is refused, as the event log records them.\<close>

datatype auth_reject =
    AUTH_TLV_FRAMING | AUTH_UNEXPECTED | AUTH_NO_KEY | AUTH_MISSING | AUTH_NOT_FIRST
  | AUTH_LENGTH | AUTH_TYPE_MISMATCH | AUTH_UNSUPPORTED | AUTH_NO_SOURCE | AUTH_NO_MEMORY | AUTH_DIGEST
  | SHORT_HEADER | VERSION | AS_MISMATCH | VRID_MISMATCH | CHECKSUM | SOURCE_OFFLINK

definition eigrp_packet_auth_tlv_validate :: "auth_intf \<Rightarrow> u8 list \<Rightarrow> nat \<Rightarrow> nat \<Rightarrow> (auth_reject + unit) option" where
  "eigrp_packet_auth_tlv_validate ei bs tlv len =
     (if len < EIGRP_AUTH_MD5_TLV_SIZE then Some (Inl AUTH_LENGTH)
      else do {
        _ \<leftarrow> access tlv EIGRP_AUTH_MD5_TLV_SIZE bs;
        let ty = ntohs (field (tlv + 4) 2 bs);
        let digest_len = unat (ntohs (field (tlv + 6) 2 bs));
        Some (if ty \<noteq> auth_type ei then Inl AUTH_TYPE_MISMATCH
              else if ty = EIGRP_AUTH_TYPE_MD5
              then (if len \<noteq> EIGRP_AUTH_MD5_TLV_SIZE \<or> digest_len \<noteq> EIGRP_AUTH_TYPE_MD5_LEN then Inl AUTH_LENGTH
                    else Inr ())
              else if ty = EIGRP_AUTH_TYPE_SHA256
              then (if len \<noteq> EIGRP_AUTH_SHA256_TLV_SIZE \<or> digest_len \<noteq> EIGRP_AUTH_TYPE_SHA256_LEN then Inl AUTH_LENGTH
                    else Inr ())
              else Inl AUTH_UNSUPPORTED) })"

definition eigrp_packet_auth_header_validate :: "auth_intf \<Rightarrow> u8 list \<Rightarrow> (auth_reject + unit) option" where
  "eigrp_packet_auth_header_validate ei bs =
     do {
       lookup \<leftarrow> eigrp_packet_auth_tlv_lookup bs;
       case lookup of
         None \<Rightarrow> Some (Inl AUTH_TLV_FRAMING)
       | Some (auth_tlv, auth_first) \<Rightarrow>
           if auth_type ei = EIGRP_AUTH_TYPE_NONE
           then Some (if auth_tlv \<noteq> None then Inl AUTH_UNEXPECTED else Inr ())
           else if \<not> eigrp_auth_material_available ei then Some (Inl AUTH_NO_KEY)
           else (case auth_tlv of
                   None \<Rightarrow> Some (Inl AUTH_MISSING)
                 | Some tlv \<Rightarrow>
                     if \<not> auth_first then Some (Inl AUTH_NOT_FIRST)
                     else do {
                       _ \<leftarrow> access tlv 4 bs;
                       eigrp_packet_auth_tlv_validate ei bs tlv (unat (ntohs (field (tlv + 2) 2 bs))) }) }"

text \<open>
  \<open>nbr\<close> is the known neighbor, if any; otherwise a temporary one stands for the \<open>source\<close> (address
  family and address), and what it learns is dropped.
\<close>

definition eigrp_packet_auth_digest_validate ::
    "allocator \<Rightarrow> eigrp_hmac_sha256_ctx \<Rightarrow> auth_host \<Rightarrow> auth_intf \<Rightarrow> auth_nbr option \<Rightarrow> (nat \<times> u8 list) option
       \<Rightarrow> u8 list \<Rightarrow> ((auth_reject + unit) \<times> auth_nbr option) option" where
  "eigrp_packet_auth_digest_validate A ctx H ei nbr source bs =
     (if auth_type ei = EIGRP_AUTH_TYPE_NONE then Some (Inr (), nbr)
      else do {
         lookup \<leftarrow> eigrp_packet_auth_tlv_lookup bs;
            if lookup = None \<or> fst (the lookup) = None \<or> \<not> snd (the lookup) then Some (Inl AUTH_TLV_FRAMING, nbr)
            else if auth_type ei \<noteq> EIGRP_AUTH_TYPE_MD5 \<and> auth_type ei \<noteq> EIGRP_AUTH_TYPE_SHA256
            then Some (Inl AUTH_UNSUPPORTED, nbr)
            else if nbr = None \<and> source = None then Some (Inl AUTH_NO_SOURCE, nbr)
            else
              (let peer = (case nbr of
                             Some n \<Rightarrow> n
                           | None \<Rightarrow> \<lparr>nbr_crypt_seqnum = [0, 0, 0, 0], nbr_src_afi = fst (the source),
                                      nbr_src_ip = snd (the source)\<rparr>)
               in case eigrp_stream_create A (length bs) of
                    None \<Rightarrow> Some (Inl AUTH_NO_MEMORY, nbr)
                  | Some s \<Rightarrow>
                      (let (n, s) = eigrp_stream_put A s bs
                       in if n \<noteq> length bs then Some (Inl AUTH_NO_MEMORY, nbr)
                          else do {
                            _ \<leftarrow> access 0 EIGRP_HEADER_BYTES bs;
                            (ok, peer) \<leftarrow>
                              (if auth_type ei = EIGRP_AUTH_TYPE_SHA256
                               then eigrp_check_sha256_digest ctx H ei s peer
                               else eigrp_check_md5_digest H ei s peer (eigrp_packet_auth_flags bs));
                            Some (if ok then Inr () else Inl AUTH_DIGEST, map_option (\<lambda>_. peer) nbr) })) })"

text \<open>\<open>on_link\<close>: the address family's answer for the source of the packet.\<close>

definition eigrp_packet_header_validate :: "u16 \<Rightarrow> u16 \<Rightarrow> auth_intf \<Rightarrow> bool \<Rightarrow> u8 list \<Rightarrow> (auth_reject + unit) option" where
  "eigrp_packet_header_validate AS vrid ei on_link bs =
     (if length bs < EIGRP_HEADER_BYTES then Some (Inl SHORT_HEADER)
      else do {
        _ \<leftarrow> access 0 EIGRP_HEADER_BYTES bs;
        if bs ! 0 \<noteq> 2 then Some (Inl VERSION)
        else if ntohs (field 18 2 bs) \<noteq> AS then Some (Inl AS_MISMATCH)
        else if ntohs (field 16 2 bs) \<noteq> vrid then Some (Inl VRID_MISMATCH)
        else if eigrp_checksum bs \<noteq> 0 then Some (Inl CHECKSUM)
        else do {
          result \<leftarrow> eigrp_packet_auth_header_validate ei bs;
          Some (case result of
                  Inl e \<Rightarrow> Inl e
                | Inr _ \<Rightarrow> (if \<not> on_link then Inl SOURCE_OFFLINK else Inr ())) } })"

subsection \<open>What is signed\<close>

text \<open>
  The reference: the bytes MD5 covers (the header and the TLV up to the digest, the key filled up to 16
  bytes, and for every packet but a HELLO the TLVs after the authentication TLV), and the digest of a
  packet whose checksum and digest are zero.
\<close>

definition md5_auth_input :: "u8 list \<Rightarrow> bool \<Rightarrow> u8 list \<Rightarrow> u8 list" where
  "md5_auth_input key hello bs =
     take 44 bs @ key @ replicate (16 - length key) 0 @ (if hello then [] else drop 60 bs)"

definition auth_digest :: "u16 \<Rightarrow> u8 list \<Rightarrow> u8 list \<Rightarrow> u8 list \<Rightarrow> u8 list" where
  "auth_digest ty key source_ip bs =
     (if ty = EIGRP_AUTH_TYPE_MD5 then md5 (md5_auth_input key (bs ! 1 = 5) bs)
      else hmac sha256 (10 # key @ source_ip) bs)"

definition digest_size :: "u16 \<Rightarrow> nat" where
  "digest_size ty = (if ty = EIGRP_AUTH_TYPE_MD5 then 16 else 32)"

definition unsigned_bytes :: "u16 \<Rightarrow> u8 list \<Rightarrow> u8 list" where
  "unsigned_bytes ty bs = patch 44 (replicate (digest_size ty) 0) (patch 2 [0, 0] bs)"

lemma flags_hello:
  "eigrp_packet_auth_flags bs AND 1 = 0 \<longleftrightarrow> bs ! 1 \<noteq> 5"
  "eigrp_packet_auth_flags bs AND 13 \<noteq> 0"
  by (simp_all add: eigrp_packet_auth_flags_def auth_consts)

lemma md5_compute_reference:
  assumes "60 \<le> length packet" "length packet \<le> 65535" "length key \<le> 81"
    and "flags AND 13 \<noteq> 0" "hello = (flags AND 1 \<noteq> 0)"
  shows "eigrp_auth_md5_compute packet key flags = Some (Some (md5 (md5_auth_input key hello packet)))"
proof -
  let ?z = "replicate (16 - length key) 0 :: u8 list" and ?r = "if hello then [] else drop 60 packet"
  have f: "md5_fits (take 44 packet)" "md5_fits key" "md5_fits ?z" "md5_fits (drop 60 packet)"
    using assms(2,3) by (simp_all add: md5_fits_def)
  obtain c1 where c1: "eigrp_md5_update (eigrp_md5_init md5_zeroed) (take 44 packet) = Some c1" "md5_rep c1 (take 44 packet)"
    using md5_rep_update [OF md5_rep_init f(1), of md5_zeroed] by auto
  obtain c2 where c2: "eigrp_md5_update c1 key = Some c2" "md5_rep c2 (take 44 packet @ key)"
    using md5_rep_update [OF c1(2) f(2)] by auto
  have "\<exists>c3. (if length key < 16 then eigrp_md5_update c2 ?z else Some c2) = Some c3
      \<and> md5_rep c3 ((take 44 packet @ key) @ ?z)"
    using md5_rep_update [OF c2(2) f(3)] c2(2) by (cases "length key < 16") auto
  then obtain c3 where c3: "(if length key < 16 then eigrp_md5_update c2 ?z else Some c2) = Some c3"
    "md5_rep c3 ((take 44 packet @ key) @ ?z)" by blast
  have "\<exists>c4. (if flags AND 1 = 0 \<and> 60 < length packet then eigrp_md5_update c3 (drop 60 packet) else Some c3) = Some c4
      \<and> md5_rep c4 (((take 44 packet @ key) @ ?z) @ ?r)"
    using md5_rep_update [OF c3(2) f(4)] c3(2) assms(5) by (cases "60 < length packet") auto
  then obtain c4 where c4: "(if flags AND 1 = 0 \<and> 60 < length packet then eigrp_md5_update c3 (drop 60 packet) else Some c3) = Some c4"
    "md5_rep c4 (((take 44 packet @ key) @ ?z) @ ?r)" by blast
  have d: "eigrp_md5_final c4 = Some (md5 (md5_auth_input key hello packet))"
    using md5_final_hash [OF c4(2)] by (simp add: md5_auth_input_def)
  have tlv_end: "(20 :: nat) + 40 = 60" by simp
  have g: "\<not> (length packet < 60 \<or> 2 ^ 32 - 1 < length packet \<or> flags AND (0x01 OR 0x04 OR 0x08) = 0)"
    using assms(1,2,4) by simp
  show ?thesis
    unfolding eigrp_auth_md5_compute_def Let_def auth_consts tlv_end
    using g c1 c2 c3(1) c4(1) d by (simp split del: if_split)
qed

lemma sha256_packet_hmac_reference:
  "hmac_buffers ctx \<Longrightarrow> sha256_packet_hmac ctx key bs = hmac sha256 key bs"
  unfolding sha256_packet_hmac_def
  using hmac_final_hash [OF hmac_rep_update [OF hmac_rep_init], of ctx key bs] by simp

subsection \<open>Bytes\<close>

lemma patch_mid: "length a = p \<Longrightarrow> length y = length x \<Longrightarrow> patch p x (a @ y @ b) = a @ x @ b"
  by (simp add: patch_def)

lemma field_mid: "length a = p \<Longrightarrow> length x = n \<Longrightarrow> field p n (a @ x @ b) = x"
  by (simp add: field_def)

lemma length_patch [simp]: "p + length x \<le> length bs \<Longrightarrow> length (patch p x bs) = length bs"
  by (simp add: patch_def)

lemma written_store:
  assumes "stream_ok s" "off + length x \<le> st_endp s"
  shows "written (store off x s) = patch off x (written s)" "stream_ok (store off x s)"
    "st_endp (store off x s) = st_endp s" "st_getp (store off x s) = st_getp s" "st_size (store off x s) = st_size s"
proof -
  note o = stream_okD [OF assms(1)]
  show "written (store off x s) = patch off x (written s)"
    using assms(2) o by (auto simp: store_def written_def patch_def take_drop min_absorb1 min_absorb2)
  show "stream_ok (store off x s)"
    using assms o by (simp add: stream_ok_def store_def)
qed (simp_all add: store_def)

subsection \<open>What the receiver accepts\<close>

lemma stream_of_bytes:
  assumes "eigrp_stream_create A (length bs) = Some s"
  shows "fst (eigrp_stream_put A s bs) = length bs"
    "take (st_endp (snd (eigrp_stream_put A s bs))) (st_data (snd (eigrp_stream_put A s bs))) = bs"
    "st_endp (snd (eigrp_stream_put A s bs)) = length bs"
    "st_endp (snd (eigrp_stream_put A s bs)) \<le> st_size (snd (eigrp_stream_put A s bs))"
proof -
  let ?e = "\<lparr>st_data = [], st_size = 0, st_getp = 0, st_endp = 0\<rparr> :: eigrp_stream"
  have "stream_ok s \<and> length bs \<le> st_size s \<and> st_endp s = 0"
  proof (cases "bs = []")
    case True
    with assms show ?thesis by (auto simp: eigrp_stream_create_def stream_ok_def)
  next
    case False
    with assms have e: "eigrp_stream_ensure A ?e (length bs) = Some s" by (simp add: eigrp_stream_create_def Let_def)
    have "stream_ok ?e" by (simp add: stream_ok_def)
    with e show ?thesis using ensure_ok [OF e] ensure_frame [OF e] by simp
  qed
  then have ok: "stream_ok s" and sz: "length bs \<le> st_size s" and z: "st_endp s = 0" by auto
  have e: "size_add (st_endp s) (length bs) = length bs" using z sz stream_okD [OF ok] by simp
  show "fst (eigrp_stream_put A s bs) = length bs"
    "take (st_endp (snd (eigrp_stream_put A s bs))) (st_data (snd (eigrp_stream_put A s bs))) = bs"
    "st_endp (snd (eigrp_stream_put A s bs)) = length bs"
    "st_endp (snd (eigrp_stream_put A s bs)) \<le> st_size (snd (eigrp_stream_put A s bs))"
    using z sz unfolding eigrp_stream_put_def e by auto
qed

subsection \<open>The framing of a packet\<close>

text \<open>
  What the walk is to compute, over the bytes of the packet as a whole: nothing when the TLVs do not tile the packet, and otherwise the last authentication
  TLV and whether it was the first TLV.  The walk computes it, and never reads out of the packet.
\<close>

function tlv_scan :: "u8 list \<Rightarrow> nat \<Rightarrow> nat option \<times> bool \<Rightarrow> (nat option \<times> bool) option" where
  "tlv_scan bs off acc =
     (if length bs \<le> off then Some acc
      else
        (let n = unat (ntohs (field (off + 2) 2 bs))
         in if off + 4 \<le> length bs \<and> 4 \<le> n \<and> off + n \<le> length bs
            then tlv_scan bs (off + n) (if ntohs (field off 2 bs) = EIGRP_TLV_AUTH then (Some off, off = EIGRP_HEADER_BYTES) else acc)
            else None))"
  by pat_completeness auto
termination
  by (relation "measure (\<lambda>(bs, offset, acc). length bs - offset)") auto

declare tlv_scan.simps [simp del]

definition auth_tlv_scan :: "u8 list \<Rightarrow> (nat option \<times> bool) option" where
  "auth_tlv_scan bs = (if length bs < EIGRP_HEADER_BYTES then None else tlv_scan bs EIGRP_HEADER_BYTES (None, False))"

text \<open>One step of the scan, and its end.\<close>

lemma tlv_scan_step:
  fixes bs off
  defines "len \<equiv> unat (ntohs (field (off + 2) 2 bs))"
  assumes "off + 4 \<le> length bs" "4 \<le> len" "off + len \<le> length bs"
  shows "tlv_scan bs off acc = tlv_scan bs (off + len)
           (if ntohs (field off 2 bs) = EIGRP_TLV_AUTH then (Some off, off = EIGRP_HEADER_BYTES) else acc)"
  using assms(2-) unfolding len_def by (subst tlv_scan.simps) (auto simp: Let_def)

lemma tlv_scan_stop:
  fixes bs off
  defines "len \<equiv> unat (ntohs (field (off + 2) 2 bs))"
  assumes "\<not> (off + 4 \<le> length bs \<and> 4 \<le> len \<and> off + len \<le> length bs)"
  shows "tlv_scan bs off acc = (if off < length bs then None else Some acc)"
  using assms(2) unfolding len_def by (subst tlv_scan.simps) (auto simp: Let_def)

lemma tlv_scan_induct:
  assumes "\<And>off acc. (\<And>len acc'. 0 < len \<Longrightarrow> off + len \<le> length bs \<Longrightarrow> P (off + len) acc') \<Longrightarrow> P off acc"
  shows "P off acc"
proof (induction "length bs - off" arbitrary: off acc rule: less_induct)
  case less
  show ?case by (rule assms) (rule less, simp)
qed

lemma walk_scan: "auth_tlv_walk bs off acc = Some (tlv_scan bs off acc)"
proof (induction off acc rule: tlv_scan_induct [of bs])
  case (1 off acc)
  then show ?case by (subst auth_tlv_walk.simps, subst tlv_scan.simps) (auto simp: Let_def)
qed

lemma lookup_scan [simp]: "eigrp_packet_auth_tlv_lookup bs = Some (auth_tlv_scan bs)"
  by (simp add: eigrp_packet_auth_tlv_lookup_def auth_tlv_scan_def walk_scan)

text \<open>The authentication TLV the scan finds lies in the packet.\<close>

definition tlv_inside :: "u8 list \<Rightarrow> nat \<Rightarrow> bool" where
  "tlv_inside bs t \<longleftrightarrow> t + 4 \<le> length bs \<and> t + unat (ntohs (field (t + 2) 2 bs)) \<le> length bs"

lemma tlv_scan_inside:
  "tlv_scan bs off acc = Some (Some t, first) \<Longrightarrow> (\<And>u. fst acc = Some u \<Longrightarrow> tlv_inside bs u) \<Longrightarrow> tlv_inside bs t"
proof (induction off acc rule: tlv_scan_induct [of bs])
  case (1 off acc)
  let ?len = "unat (ntohs (field (off + 2) 2 bs))"
  show ?case
  proof (cases "off + 4 \<le> length bs \<and> 4 \<le> ?len \<and> off + ?len \<le> length bs")
    case True
    let ?acc = "if ntohs (field off 2 bs) = EIGRP_TLV_AUTH then (Some off, off = EIGRP_HEADER_BYTES) else acc"
    have "tlv_scan bs (off + ?len) ?acc = Some (Some t, first)" using 1(2) True by (simp only: tlv_scan_step)
    moreover have "tlv_inside bs u" if "fst ?acc = Some u" for u using that 1(3) True by (auto simp: tlv_inside_def split: if_splits)
    ultimately show ?thesis using 1(1) [of ?len ?acc] True by simp
  next
    case False
    then show ?thesis using 1(2,3) by (auto simp: tlv_scan_stop [OF False] split: if_splits)
  qed
qed

lemma auth_tlv_scan_inside: "auth_tlv_scan bs = Some (Some t, first) \<Longrightarrow> tlv_inside bs t"
  by (auto simp: auth_tlv_scan_def dest: tlv_scan_inside split: if_splits)

lemma auth_tlv_scan_length: "auth_tlv_scan bs = Some r \<Longrightarrow> 20 \<le> length bs"
  by (auto simp: auth_tlv_scan_def auth_consts split: if_splits)

text \<open>No check of the header reads out of the packet.\<close>

lemma auth_header_total: "\<exists>r. eigrp_packet_auth_header_validate ei bs = Some r"
  using auth_tlv_scan_inside [of bs]
  by (cases "auth_tlv_scan bs") (auto simp: eigrp_packet_auth_header_validate_def eigrp_packet_auth_tlv_validate_def tlv_inside_def auth_consts Let_def
      split: option.splits)

lemma header_validate_total: "\<exists>r. eigrp_packet_header_validate AS vrid ei on_link bs = Some r"
  using auth_header_total [of ei bs] by (auto simp: eigrp_packet_header_validate_def)

text \<open>When the scan reports the authentication TLV as the first one, it is the one after the header.\<close>

lemma tlv_scan_first:
  "tlv_scan bs off acc = Some (t, True) \<Longrightarrow> (snd acc \<Longrightarrow> fst acc = Some 20) \<Longrightarrow> t = Some 20"
proof (induction off acc rule: tlv_scan_induct [of bs])
  case (1 off acc)
  let ?len = "unat (ntohs (field (off + 2) 2 bs))"
  show ?case
  proof (cases "off + 4 \<le> length bs \<and> 4 \<le> ?len \<and> off + ?len \<le> length bs")
    case True
    let ?acc = "if ntohs (field off 2 bs) = EIGRP_TLV_AUTH then (Some off, off = EIGRP_HEADER_BYTES) else acc"
    have "tlv_scan bs (off + ?len) ?acc = Some (t, True)" using 1(2) True by (simp only: tlv_scan_step)
    moreover have "snd ?acc \<Longrightarrow> fst ?acc = Some 20" using 1(3) by (simp add: auth_consts split: if_splits)
    ultimately show ?thesis using 1(1) [of ?len ?acc] True by simp
  next
    case False
    then show ?thesis using 1(2,3) by (auto simp: tlv_scan_stop [OF False] split: if_splits)
  qed
qed

lemma auth_tlv_lookup_first: "auth_tlv_scan bs = Some (t, True) \<Longrightarrow> t = Some 20"
  by (auto simp: auth_tlv_scan_def dest: tlv_scan_first split: if_splits)

text \<open>
  The specification of acceptance: the authentication TLV is the first and only one and has the size
  of the configured type, the sequence is newer, a key (and for HMAC the source address) is
  there, and the digest is the one of the packet with checksum and digest zero.
\<close>

definition auth_source :: "auth_host \<Rightarrow> auth_intf \<Rightarrow> auth_nbr \<Rightarrow> u8 list option" where
  "auth_source H ei nbr =
     (if auth_type ei = EIGRP_AUTH_TYPE_MD5 then Some [] else eigrp_auth_sha256_source H ei (Some nbr) INET6_ADDRSTRLEN)"

definition auth_valid :: "auth_host \<Rightarrow> auth_intf \<Rightarrow> auth_nbr \<Rightarrow> u8 list \<Rightarrow> bool" where
  "auth_valid H ei nbr bs \<longleftrightarrow>
     (let n = digest_size (auth_type ei)
      in auth_tlv_scan bs = Some (Some 20, True) \<and> 44 + n \<le> length bs
         \<and> auth_tlv_matches bs (24 + n) (auth_type ei) n
         \<and> eigrp_auth_sequence_newer (field 32 4 bs) (nbr_crypt_seqnum nbr)
         \<and> (case (eigrp_auth_key_get H ei (PLAINTEXT_LENGTH + 1), auth_source H ei nbr) of
              (Some (kid, key), Some ip) \<Rightarrow> field 44 n bs = auth_digest (auth_type ei) key ip (unsigned_bytes (auth_type ei) bs)
            | _ \<Rightarrow> False))"

lemma key_get_length: "eigrp_auth_key_get H ei (PLAINTEXT_LENGTH + 1) = Some (kid, key) \<Longrightarrow> length key \<le> 81"
  by (auto simp: eigrp_auth_key_get_def eigrp_sys_auth_key_lookup_def auth_consts split: if_splits option.splits bool.splits)

lemma unsigned_bytes_frame:
  assumes "44 + digest_size ty \<le> length bs"
  shows "length (unsigned_bytes ty bs) = length bs" "unsigned_bytes ty bs ! Suc 0 = bs ! Suc 0"
  using assms by (simp_all add: unsigned_bytes_def patch_def nth_append)

lemma check_md5_reference:
  assumes "take (st_endp s) (st_data s) = bs" "st_endp s = length bs" "st_endp s \<le> st_size s" "length bs \<le> 65535"
    and "auth_type ei = EIGRP_AUTH_TYPE_MD5" "auth_tlv_scan bs = Some (Some 20, True)"
  shows "eigrp_check_md5_digest H ei s nbr (eigrp_packet_auth_flags bs)
           = Some (if auth_valid H ei nbr bs then (True, nbr\<lparr>nbr_crypt_seqnum := field 32 4 bs\<rparr>) else (False, nbr))"
proof (cases "60 \<le> length bs")
  case True
  have u: "patch 44 (replicate 16 0) (patch 2 [0, 0] bs) = unsigned_bytes 2 bs" by (simp add: unsigned_bytes_def digest_size_def auth_consts)
  have l: "length (unsigned_bytes 2 bs) = length bs" "unsigned_bytes 2 bs ! 1 = bs ! 1"
    using True by (simp_all add: unsigned_bytes_frame digest_size_def auth_consts)
  have c: "eigrp_auth_md5_compute (unsigned_bytes 2 bs) key (eigrp_packet_auth_flags bs)
      = Some (Some (auth_digest 2 key ip (unsigned_bytes 2 bs)))" if "length key \<le> 81" for key ip
    using True l assms(4) that flags_hello [of bs]
    by (simp add: md5_compute_reference auth_digest_def auth_consts)
  show ?thesis
  proof (cases "eigrp_auth_key_get H ei (PLAINTEXT_LENGTH + 1)")
    case None
    then show ?thesis using assms by (simp add: eigrp_check_md5_digest_def auth_valid_def Let_def)
  next
    case (Some k)
    obtain kid key where k: "k = (kid, key)" by (cases k)
    note c' = c [OF key_get_length, OF Some [unfolded k], of "[]"]
    show ?thesis
      using True assms(2-) c' unfolding k eigrp_check_md5_digest_def auth_valid_def Let_def assms(1) Some [unfolded k]
      by (auto simp: auth_consts digest_size_def auth_source_def u)
  qed
next
  case False
  with assms show ?thesis
    by (simp add: eigrp_check_md5_digest_def auth_valid_def Let_def auth_consts digest_size_def)
qed

lemma check_sha256_reference:
  assumes "take (st_endp s) (st_data s) = bs" "st_endp s = length bs" "hmac_buffers ctx"
    and "auth_type ei = EIGRP_AUTH_TYPE_SHA256" "auth_tlv_scan bs = Some (Some 20, True)"
  shows "eigrp_check_sha256_digest ctx H ei s nbr
           = Some (if auth_valid H ei nbr bs then (True, nbr\<lparr>nbr_crypt_seqnum := field 32 4 bs\<rparr>) else (False, nbr))"
  using assms
  by (auto simp: eigrp_check_sha256_digest_def auth_valid_def Let_def auth_consts digest_size_def auth_source_def
      unsigned_bytes_def auth_digest_def sha256_packet_hmac_reference sha256_key_buffer_def split: option.splits)

lemma digest_validate_dispatch:
  assumes "auth_tlv_scan bs = Some (Some u, True)" "eigrp_stream_create A (length bs) = Some s"
    and "eigrp_stream_put A s bs = (length bs, t)"
    and "auth_type ei = EIGRP_AUTH_TYPE_MD5 \<or> auth_type ei = EIGRP_AUTH_TYPE_SHA256"
  shows "eigrp_packet_auth_digest_validate A ctx H ei (Some nbr) src bs
      = do { (ok, peer) \<leftarrow> (if auth_type ei = EIGRP_AUTH_TYPE_SHA256 then eigrp_check_sha256_digest ctx H ei t nbr
                             else eigrp_check_md5_digest H ei t nbr (eigrp_packet_auth_flags bs));
             Some (if ok then Inr () else Inl AUTH_DIGEST, Some peer) }"
  using assms auth_tlv_scan_length [OF assms(1)]
  by (auto simp: eigrp_packet_auth_digest_validate_def Let_def auth_consts split del: if_split)

lemma digest_validate_reference:
  assumes "eigrp_stream_create A (length bs) \<noteq> None" "hmac_buffers ctx" "length bs \<le> 65535"
    and "auth_type ei = EIGRP_AUTH_TYPE_MD5 \<or> auth_type ei = EIGRP_AUTH_TYPE_SHA256"
  shows "eigrp_packet_auth_digest_validate A ctx H ei (Some nbr) src bs
           = Some (if auth_valid H ei nbr bs then (Inr (), Some (nbr\<lparr>nbr_crypt_seqnum := field 32 4 bs\<rparr>))
                   else (Inl (if auth_tlv_scan bs = Some (Some 20, True) then AUTH_DIGEST
                              else AUTH_TLV_FRAMING), Some nbr))"
proof (cases "auth_tlv_scan bs = Some (Some 20, True)")
  case False
  have "auth_tlv_scan bs = None \<or> fst (the (auth_tlv_scan bs)) = None
      \<or> \<not> snd (the (auth_tlv_scan bs))"
  proof (rule ccontr)
    assume "\<not> ?thesis"
    then obtain t where "auth_tlv_scan bs = Some (t, True)" by auto
    with auth_tlv_lookup_first [OF this] False show False by simp
  qed
  with False assms(4) show ?thesis
    by (auto simp: eigrp_packet_auth_digest_validate_def Let_def auth_valid_def auth_consts)
next
  case True
  obtain s where s: "eigrp_stream_create A (length bs) = Some s" using assms(1) by auto
  note p = stream_of_bytes [OF s]
  obtain n t where put: "eigrp_stream_put A s bs = (n, t)" by force
  from p put have t: "n = length bs" "take (st_endp t) (st_data t) = bs" "st_endp t = length bs" "st_endp t \<le> st_size t"
    by auto
  note digest_validate_dispatch [OF True s put [unfolded t(1)] assms(4), of ctx H nbr src]
  also have "do { (ok, peer) \<leftarrow> (if auth_type ei = EIGRP_AUTH_TYPE_SHA256 then eigrp_check_sha256_digest ctx H ei t nbr
                             else eigrp_check_md5_digest H ei t nbr (eigrp_packet_auth_flags bs));
             Some (if ok then Inr () else Inl AUTH_DIGEST, Some peer) } = Some (if auth_valid H ei nbr bs then (Inr (), Some (nbr\<lparr>nbr_crypt_seqnum := field 32 4 bs\<rparr>))
      else (Inl AUTH_DIGEST, Some nbr))"
    using assms(4)
  proof
    assume "auth_type ei = EIGRP_AUTH_TYPE_MD5"
    then show ?thesis using check_md5_reference [OF t(2,3,4) assms(3) _ True, of ei H nbr] by (simp add: auth_consts)
  next
    assume "auth_type ei = EIGRP_AUTH_TYPE_SHA256"
    then show ?thesis using check_sha256_reference [OF t(2,3) assms(2) _ True, of ei H nbr] by (simp add: auth_consts)
  qed
  finally show ?thesis using True by simp
qed

end
