(* ===== verification/Eigrp_Auth_Sign.thy ===== *)
theory Eigrp_Auth_Sign
  imports Eigrp_Auth
begin

text \<open>
  The two ends of packet authentication together: what signing does to the bytes of a packet, that the
  receiver accepts what was signed with its key, and that it does not accept a packet twice.  The
  locale \<open>sequence_guard\<close> is the contract of a receiver that keeps the last sequence; the bound on
  replays is proved in it and holds for the receive path by interpretation.
\<close>

subsection \<open>Signing\<close>

lemma patch_inside: "length a = p \<Longrightarrow> q + length z \<le> length y \<Longrightarrow> patch (p + q) z (a @ y @ b) = a @ patch q z y @ b"
  by (simp add: patch_def)

lemma bytes_split3: "p + n \<le> length W \<Longrightarrow> W = take p W @ field p n W @ drop (p + n) W \<and> length (field p n W) = n"
  by (simp add: field_def min_absorb2 flip: drop_drop add.commute [of n])

lemma patch_field:
  assumes "p + n \<le> length W" "q + length z \<le> n"
  shows "patch p (patch q z (field p n W)) W = patch (p + q) z W"
proof -
  let ?a = "take p W" and ?y = "field p n W" and ?b = "drop (p + n) W"
  have W: "W = ?a @ ?y @ ?b" "length ?y = n" using bytes_split3 [OF assms(1)] by auto
  have la: "length ?a = p" using assms(1) by simp
  have "patch p (patch q z ?y) (?a @ ?y @ ?b) = ?a @ patch q z ?y @ ?b"
    using assms(2) W(2) la by (intro patch_mid) simp_all
  also have "\<dots> = patch (p + q) z (?a @ ?y @ ?b)" using assms(2) W(2) la by (simp add: patch_inside)
  finally show ?thesis using W(1) by metis
qed

lemma patch_patch: "p + length z \<le> length W \<Longrightarrow> length y = length z \<Longrightarrow> patch p z (patch p y W) = patch p z W"
  by (simp add: patch_def)

lemma make_sha256_reference:
  fixes A :: allocator
  assumes ok: "stream_ok s" and g: "st_getp s \<le> 20" and e: "76 \<le> st_endp s" and "created" and c: "hmac_buffers ctx"
    and key: "eigrp_auth_key_get H ei (PLAINTEXT_LENGTH + 1) = Some (kid, key)"
    and src: "eigrp_auth_sha256_source H ei None INET6_ADDRSTRLEN = Some ip"
  defines "Z \<equiv> patch 44 (replicate 32 0) (written s)"
  shows "\<exists>s'. eigrp_make_sha256_digest A created ctx H ei s = (32, s') \<and> stream_ok s' \<and> st_endp s' = st_endp s
           \<and> written s' = patch 44 (hmac sha256 (10 # key @ ip) Z) Z"
proof -
  let ?W = "written s"
  have lW: "length ?W = st_endp s" by (rule length_written) (rule ok)
  have get: "eigrp_stream_get (eigrp_stream_set_getp s 20) 56 = (field 20 56 ?W, s\<lparr>st_getp := 76\<rparr>)"
    using e by (auto simp: eigrp_stream_get_def eigrp_stream_set_getp_def field_def written_def Let_def take_drop min_absorb2)
  have bk: "eigrp_stream_set_getp (s\<lparr>st_getp := 76\<rparr>) (st_getp s) = s"
    using stream_okD(2) [OF ok] by (simp add: eigrp_stream_set_getp_def)
  define t where "t = patch 24 (replicate 32 0) (field 20 56 ?W)"
  have lf: "length (field 20 56 ?W) = 56" using bytes_split3 [of 20 56 ?W] e lW by simp
  have lt: "length t = 56" "t \<noteq> []" using lf by (auto simp: t_def) (simp add: patch_def)
  define s1 where "s1 = eigrp_stream_set_endp A (snd (eigrp_stream_put A (eigrp_stream_set_endp A s 20) t)) (st_endp s)"
  have s1: "written s1 = patch 20 t ?W" "stream_ok s1" "st_getp s1 = st_getp s" "st_endp s1 = st_endp s"
    unfolding s1_def using stream_patch [OF ok, of 20 t A] lt e g by auto
  have Z: "patch 20 t ?W = Z" unfolding t_def Z_def using patch_field [of 20 56 ?W 24] e lW by simp
  define D where "D = hmac sha256 (10 # key @ ip) Z"
  have lD: "length D = 32" by (simp add: D_def)
  have d: "sha256_packet_hmac ctx (sha256_key_buffer key ip) (take (st_endp s) (st_data s1)) = D"
    using s1(1,4) Z c by (simp add: sha256_packet_hmac_reference sha256_key_buffer_def D_def written_def)
  have lu: "length (patch 24 D t) = 56" "patch 24 D t \<noteq> []" using lt lD by (auto simp: patch_def)
  define s2 where "s2 = eigrp_stream_set_endp A (snd (eigrp_stream_put A (eigrp_stream_set_endp A s1 20) (patch 24 D t))) (st_endp s)"
  have s2: "written s2 = patch 20 (patch 24 D t) (written s1)" "stream_ok s2" "st_endp s2 = st_endp s"
    unfolding s2_def using stream_patch [OF s1(2), of 20 "patch 24 D t" A] lu e g s1(3,4) by auto
  have lZ: "length Z = st_endp s" unfolding Z_def using e lW by simp
  have "t = field 20 56 Z" unfolding Z [symmetric] using lt e lW by (simp add: patch_def field_def)
  then have "written s2 = patch 44 D Z"
    unfolding s2(1) s1(1) Z using patch_field [of 20 56 Z 24 D] e lZ lD by simp
  moreover have "eigrp_make_sha256_digest A created ctx H ei s = (32, s2)"
    using e \<open>created\<close> key src
    by (simp add: eigrp_make_sha256_digest_def Let_def get bk auth_consts d [unfolded s1_def] s2_def s1_def flip: t_def)
  ultimately show ?thesis using s2(2,3) unfolding D_def by blast
qed

lemma auth_packet_segments:
  assumes "44 + n \<le> length W"
  obtains op ck hd ty kid sq np dg rest where
    "W = op @ ck @ hd @ ty @ kid @ sq @ np @ dg @ rest" "length op = 2" "length ck = 2" "length hd = 16"
    "length ty = 8" "length kid = 4" "length sq = 4" "length np = 8" "length dg = n"
proof (rule that)
  let ?d = "\<lambda>k. drop k W"
  have cut: "?d a = take b (?d a) @ ?d (b + a)" for a b by (metis append_take_drop_id drop_drop)
  show "W = take 2 (?d 0) @ take 2 (?d 2) @ take 16 (?d 4) @ take 8 (?d 20) @ take 4 (?d 28) @ take 4 (?d 32)
      @ take 8 (?d 36) @ take n (?d 44) @ ?d (n + 44)"
    using cut [of 0 2] cut [of 2 2] cut [of 4 16] cut [of 20 8] cut [of 28 4] cut [of 32 4] cut [of 36 8] cut [of 44 n]
    by simp
qed (use assms in simp_all)

text \<open>
  A packet with its sequence, then the zeroed fields, the digest and the checksum filled in: what the
  receiver finds in it.
\<close>

definition signed_packet :: "u8 list \<Rightarrow> (u8 list \<Rightarrow> u8 list) \<Rightarrow> u16 \<Rightarrow> u8 list \<Rightarrow> u8 list" where
  "signed_packet sq mac ty W =
     (let Z = patch 44 (replicate (digest_size ty) 0) (patch 2 [0, 0] (patch 32 sq W));
          G = patch 44 (mac Z) Z
      in patch 2 (htons (eigrp_checksum G)) G)"

lemma signed_packet_fields:
  fixes mac :: "u8 list \<Rightarrow> u8 list" and sq ty W
  defines "F \<equiv> signed_packet sq mac ty W"
  assumes len: "44 + digest_size ty \<le> length W" "length W \<le> 65535" and sq: "length sq = 4"
    and mac: "\<And>Z. length (mac Z) = digest_size ty"
  shows "length F = length W" "drop (44 + digest_size ty) F = drop (44 + digest_size ty) W"
    "field 20 2 F = field 20 2 W" "field 22 2 F = field 22 2 W"
    "field 24 2 F = field 24 2 W" "field 26 2 F = field 26 2 W"
    "field 32 4 F = sq"
    "field 44 (digest_size ty) F = mac (unsigned_bytes ty F)"
    "unsigned_bytes ty F = patch 44 (replicate (digest_size ty) 0) (patch 2 [0, 0] (patch 32 sq W))"
    "eigrp_checksum F = 0"
proof -
  obtain op ck hd t kid s0 np dg rest where W: "W = op @ ck @ hd @ t @ kid @ s0 @ np @ dg @ rest" and
    l: "length op = 2" "length ck = 2" "length hd = 16" "length t = 8" "length kid = 4" "length s0 = 4" "length np = 8"
    "length dg = digest_size ty"
    using auth_packet_segments [OF len(1)] .
  let ?z = "replicate (digest_size ty) 0 :: u8 list"
  define zz :: "u8 list" where "zz = [0, 0]"
  have zz: "length zz = 2" by (simp add: zz_def)
  define Z where "Z = op @ zz @ hd @ t @ kid @ sq @ np @ ?z @ rest"
  define G where "G = op @ zz @ hd @ t @ kid @ sq @ np @ mac Z @ rest"
  have Z: "patch 44 ?z (patch 2 [0, 0] (patch 32 sq W)) = Z"
    unfolding W Z_def zz_def [symmetric] using l sq zz by (simp add: patch_def)
  have G: "patch 44 (mac Z) Z = G"
    unfolding Z_def G_def using l sq mac zz by (simp add: patch_def)
  have "F = patch 2 (htons (eigrp_checksum G)) G"
    unfolding F_def signed_packet_def Let_def Z G ..
  also have "\<dots> = op @ htons (eigrp_checksum G) @ hd @ t @ kid @ sq @ np @ mac Z @ rest"
    unfolding G_def using l zz by (intro patch_mid) simp_all
  finally have F: "F = op @ htons (eigrp_checksum G) @ hd @ t @ kid @ sq @ np @ mac Z @ rest" .
  have u: "unsigned_bytes ty F = Z"
    unfolding F unsigned_bytes_def Z_def zz_def [symmetric] using l sq mac zz by (simp add: patch_def)
  then show "unsigned_bytes ty F = patch 44 ?z (patch 2 [0, 0] (patch 32 sq W))" using Z by simp
  show "field 44 (digest_size ty) F = mac (unsigned_bytes ty F)"
    unfolding u unfolding F field_def using l sq mac by simp
  show "length F = length W" "drop (44 + digest_size ty) F = drop (44 + digest_size ty) W"
    "field 20 2 F = field 20 2 W" "field 22 2 F = field 22 2 W"
    "field 24 2 F = field 24 2 W" "field 26 2 F = field 26 2 W"
    "field 32 4 F = sq"
    unfolding F unfolding W field_def using l sq mac by simp_all
  have "length G = length W" unfolding G_def W using l sq mac zz by simp
  then show "eigrp_checksum F = 0"
    using len(2) l(1) unfolding F unfolding G_def zz_def by (intro checksum_self) simp_all
qed

lemma tlv_scan_cong:
  "length bs = length bs' \<Longrightarrow> drop off bs = drop off bs' \<Longrightarrow> tlv_scan bs off acc = tlv_scan bs' off acc"
proof (induction off acc rule: tlv_scan_induct [of bs])
  case (1 off acc)
  have f: "field off 2 bs = field off 2 bs'" "field (off + 2) 2 bs = field (off + 2) 2 bs'"
    using 1(3) unfolding field_def by (simp, metis add.commute drop_drop)
  let ?len = "unat (ntohs (field (off + 2) 2 bs'))"
  show ?case
  proof (cases "off + 4 \<le> length bs \<and> 4 \<le> ?len \<and> off + ?len \<le> length bs")
    case True
    have "drop (off + ?len) bs = drop (off + ?len) bs'" using 1(3) by (metis add.commute drop_drop)
    then show ?thesis
      using True 1(1) [of ?len] 1(2) f by (simp add: tlv_scan_step)
  next
    case False
    with tlv_scan_stop [of off bs acc] tlv_scan_stop [of off bs' acc] 1(2) f show ?thesis by simp
  qed
qed

lemma lookup_signed:
  assumes "44 + n \<le> length W" "length F = length W" "drop (44 + n) F = drop (44 + n) W"
    and "field 20 2 F = field 20 2 W" "field 22 2 F = field 22 2 W" "unat (ntohs (field 22 2 W)) = 24 + n"
  shows "auth_tlv_scan F = auth_tlv_scan W"
proof -
  have "tlv_scan X 20 acc = tlv_scan X (44 + n)
      (if ntohs (field 20 2 X) = EIGRP_TLV_AUTH then (Some 20, 20 = EIGRP_HEADER_BYTES) else acc)"
    if "unat (ntohs (field 22 2 X)) = 24 + n" "44 + n \<le> length X" for X acc
    using tlv_scan_step [of 20 X acc] that by (simp add: add.assoc)
  note step = this
  have "tlv_scan F 20 acc = tlv_scan W 20 acc" for acc
    using step [of F acc] step [of W acc] assms tlv_scan_cong [OF assms(2,3)] by simp
  then show ?thesis using assms(2) by (simp only: auth_tlv_scan_def EIGRP_HEADER_BYTES_def)
qed

text \<open>The digest flags depend on the first eight bytes.\<close>

lemma flags_prefix:
  assumes "take 8 a = take 8 b"
  shows "eigrp_packet_auth_flags a = eigrp_packet_auth_flags b"
proof -
  have "field 4 4 x = drop 4 (take 8 x)" for x by (simp add: field_def drop_take)
  moreover have "x ! 1 = take 8 x ! 1" for x :: "u8 list" by simp
  ultimately have "field 4 4 a = field 4 4 b" "a ! 1 = b ! 1" using assms by metis+
  then show ?thesis by (simp only: eigrp_packet_auth_flags_def)
qed

lemma take_patch: "k \<le> p \<Longrightarrow> p \<le> length W \<Longrightarrow> take k (patch p x W) = take k W"
  by (simp add: patch_def)

lemma sequence_next_frame:
  assumes "eigrp_auth_sequence_next ei = (sq, ei')"
  shows "length sq = 4" "sq = htonl (intf_crypt_seqnum ei')" "auth_type ei' = auth_type ei"
    "eigrp_auth_key_get H ei' n = eigrp_auth_key_get H ei n"
    "eigrp_auth_sha256_source H ei' nbr n = eigrp_auth_sha256_source H ei nbr n"
  using assms
  by (auto simp: eigrp_auth_sequence_next_def Let_def eigrp_auth_key_get_def eigrp_auth_sha256_source_def
      split: option.splits bool.splits)

lemma checksum_store_written:
  assumes "stream_ok s" "4 \<le> st_endp s"
  shows "stream_ok (checksum_store s)" "written (checksum_store s) = patch 2 (htons (eigrp_checksum (written s))) (written s)"
  using written_store [OF assms(1), of 2 "htons (eigrp_checksum (written s))"] assms(2)
  by (simp_all add: checksum_store_def written_def)

lemma make_md5_reference:
  assumes "stream_ok s" "60 \<le> st_endp s" "st_endp s \<le> 65535"
    and "eigrp_auth_key_get H ei (PLAINTEXT_LENGTH + 1) = Some (kid, key)"
  shows "eigrp_make_md5_digest H ei s (eigrp_packet_auth_flags (written s))
           = Some (16, store 44 (auth_digest EIGRP_AUTH_TYPE_MD5 key [] (written s)) s)"
proof -
  have l: "length (written s) = st_endp s" by (rule length_written) (rule assms(1))
  have "eigrp_auth_md5_compute (written s) key (eigrp_packet_auth_flags (written s))
      = Some (Some (auth_digest EIGRP_AUTH_TYPE_MD5 key [] (written s)))"
    using l assms(2,3) flags_hello [of "written s"] key_get_length [OF assms(4)]
    by (simp add: md5_compute_reference auth_digest_def)
  then show ?thesis
    using assms stream_okD(3) [OF assms(1)]
    by (simp add: eigrp_make_md5_digest_def auth_consts store_def flip: written_def)
qed

text \<open>The sender: the packet that leaves carries the next sequence and is signed.\<close>

lemma finalize_signs:
  fixes A :: allocator
  defines "n ty \<equiv> digest_size ty"
  assumes ok: "stream_ok s" and g: "st_getp s \<le> 20" and len: "44 + n (auth_type ei) \<le> st_endp s" "st_endp s \<le> 65535"
    and ty: "auth_type ei = EIGRP_AUTH_TYPE_MD5 \<and> ip = [] \<or> auth_type ei = EIGRP_AUTH_TYPE_SHA256
               \<and> eigrp_auth_sha256_source H ei None INET6_ADDRSTRLEN = Some ip"
    and m: "auth_tlv_matches (written s) (24 + n (auth_type ei)) (auth_type ei) (n (auth_type ei))"
    and key: "eigrp_auth_key_get H ei (PLAINTEXT_LENGTH + 1) = Some (kid, key)" and "created" and c: "hmac_buffers ctx"
    and next_sq: "eigrp_auth_sequence_next ei = (sq, ei')"
  shows "\<exists>s'. eigrp_auth_transmit_finalize A created ctx H ei s (st_endp s) = Some (True, ei', s')
           \<and> stream_ok s' \<and> written s' = signed_packet sq (auth_digest (auth_type ei) key ip) (auth_type ei) (written s)"
proof -
  let ?ty = "auth_type ei" and ?z = "replicate (n (auth_type ei)) 0 :: u8 list"
  note fr = sequence_next_frame [OF next_sq]
  define s1 where "s1 = store 2 [0, 0] (store 32 sq s)"
  define s2 where "s2 = store 44 ?z s1"
  have s1: "stream_ok s1" "st_endp s1 = st_endp s" "st_getp s1 = st_getp s" "written s1 = patch 2 [0, 0] (patch 32 sq (written s))"
    using written_store [OF ok, of 32 sq] written_store [of "store 32 sq s" 2 "[0, 0]"] fr(1) len by (auto simp: s1_def)
  have s2: "stream_ok s2" "st_endp s2 = st_endp s" "st_getp s2 = st_getp s" "written s2 = patch 44 ?z (written s1)"
    using written_store [OF s1(1), of 44 ?z] s1 len by (auto simp: s2_def n_def)
  have b: "take (st_endp s) (st_data s) = written s" by (simp add: written_def)
  have "take 8 (st_data s1) = take 8 (written s2)"
    using length_written [OF s1(1)] s1(2) len by (simp add: s2(4) take_patch) (simp add: written_def min_def)
  then have f: "eigrp_packet_auth_flags (st_data s1) = eigrp_packet_auth_flags (written s2)" by (rule flags_prefix)
  have head: "eigrp_auth_transmit_finalize A created ctx H ei s (st_endp s)
      = (if ?ty = EIGRP_AUTH_TYPE_MD5
         then do { (k, t) \<leftarrow> eigrp_make_md5_digest H ei' s2 (eigrp_packet_auth_flags (st_data s1));
                   if k \<noteq> 16 then Some (False, ei', t) else Some (True, ei', checksum_store t) }
         else (let (k, t) = eigrp_make_sha256_digest A created ctx H ei' s2
               in if k \<noteq> 32 then Some (False, ei', t) else Some (True, ei', checksum_store t)))"
    using ty len m key stream_okD [OF ok] fr(3)
    unfolding eigrp_auth_transmit_finalize_def auth_tlv_matches_def b next_sq n_def
    by (auto simp: Let_def auth_consts digest_size_def s2_def s1_def n_def)
  have lZ: "length (written s2) = st_endp s" using length_written [OF s2(1)] s2(2) by simp
  have signed: "stream_ok (checksum_store t) \<and> written (checksum_store t)
      = signed_packet sq (auth_digest ?ty key ip) ?ty (written s)"
    if "stream_ok t" "st_endp t = st_endp s" "written t = patch 44 (auth_digest ?ty key ip (written s2)) (written s2)" for t
    using checksum_store_written [OF that(1)] that(2,3) len s1(4) s2(4)
    by (simp add: signed_packet_def Let_def n_def)
  from ty show ?thesis
  proof
    assume md: "auth_type ei = EIGRP_AUTH_TYPE_MD5 \<and> ip = []"
    let ?t = "store 44 (auth_digest ?ty key ip (written s2)) s2"
    have e: "60 \<le> st_endp s" using md len by (simp add: n_def digest_size_def)
    have mk: "eigrp_make_md5_digest H ei' s2 (eigrp_packet_auth_flags (st_data s1)) = Some (16, ?t)"
      unfolding f using make_md5_reference [OF s2(1), of H ei'] e len s2(2) fr(4) key md by simp
    have "length (auth_digest ?ty key ip (written s2)) = 16" using md by (simp add: auth_digest_def)
    then have "stream_ok (checksum_store ?t) \<and> written (checksum_store ?t)
        = signed_packet sq (auth_digest ?ty key ip) ?ty (written s)"
      using written_store [OF s2(1), of 44 "auth_digest ?ty key ip (written s2)"] e s2(2) by (intro signed) auto
    then show ?thesis unfolding head using md mk by simp
  next
    assume sh: "auth_type ei = EIGRP_AUTH_TYPE_SHA256 \<and> eigrp_auth_sha256_source H ei None INET6_ADDRSTRLEN = Some ip"
    then have e: "76 \<le> st_endp s" using len by (simp add: n_def digest_size_def auth_consts)
    have z: "patch 44 (replicate 32 0) (written s2) = written s2"
      unfolding s2(4) using sh e length_written [OF s1(1)] s1(2)
      by (subst patch_patch) (simp_all add: n_def digest_size_def auth_consts)
    have "76 \<le> st_endp s2" "st_getp s2 \<le> 20" using e g s2 by simp_all
    from make_sha256_reference [OF s2(1) this(2,1) \<open>created\<close> c, of H ei' kid key ip A] fr key sh
    obtain t where t: "eigrp_make_sha256_digest A created ctx H ei' s2 = (32, t)" "stream_ok t" "st_endp t = st_endp s"
      "written t = patch 44 (hmac sha256 (10 # key @ ip) (written s2)) (written s2)"
      using s2(2) by (auto simp: z)
    then have "stream_ok (checksum_store t) \<and> written (checksum_store t)
        = signed_packet sq (auth_digest ?ty key ip) ?ty (written s)"
      using sh by (intro signed) (simp_all add: auth_digest_def auth_consts)
    then show ?thesis unfolding head using sh t(1) by (simp add: auth_consts)
  qed
qed

lemma key_get_material: "eigrp_auth_key_get H ei n = Some k \<Longrightarrow> eigrp_auth_material_available ei"
  by (auto simp: eigrp_auth_key_get_def eigrp_auth_material_available_def split: if_splits option.splits bool.splits)

lemma tlv_matches_cong:
  "field 20 2 F = field 20 2 W \<Longrightarrow> field 22 2 F = field 22 2 W \<Longrightarrow> field 24 2 F = field 24 2 W
    \<Longrightarrow> field 26 2 F = field 26 2 W \<Longrightarrow> auth_tlv_matches F = auth_tlv_matches W"
  by (simp add: auth_tlv_matches_def fun_eq_iff)

text \<open>The receiver accepts what was signed with its key.\<close>

lemma signed_valid:
  fixes W sq ty key ip
  defines "F \<equiv> signed_packet sq (auth_digest ty key ip) ty W"
  assumes len: "44 + digest_size ty \<le> length W" "length W \<le> 65535" and sq: "length sq = 4"
    and ty: "ty = EIGRP_AUTH_TYPE_MD5 \<or> ty = EIGRP_AUTH_TYPE_SHA256"
    and m: "auth_tlv_matches W (24 + digest_size ty) ty (digest_size ty)"
    and look: "auth_tlv_scan W = Some (Some 20, True)"
    and ei: "auth_type ei = ty" and key: "eigrp_auth_key_get H ei (PLAINTEXT_LENGTH + 1) = Some (kid, key)"
    and src: "auth_source H ei nbr = Some ip" and new: "eigrp_auth_sequence_newer sq (nbr_crypt_seqnum nbr)"
  shows "auth_valid H ei nbr F" "field 32 4 F = sq" "length F = length W" "eigrp_checksum F = 0"
    "eigrp_packet_auth_header_validate ei F = Some (Inr ())"
proof -
  have mac: "length (auth_digest ty key ip Z) = digest_size ty" for Z
    using ty by (auto simp: auth_digest_def digest_size_def)
  note f = signed_packet_fields [of ty W sq "auth_digest ty key ip", OF len sq mac, folded F_def]
  have mF: "auth_tlv_matches F (24 + digest_size ty) ty (digest_size ty)" using m tlv_matches_cong [OF f(3,4,5,6)] by simp
  have lF: "auth_tlv_scan F = Some (Some 20, True)"
    using lookup_signed [OF len(1) f(1,2,3,4)] m look by (simp add: auth_tlv_matches_def)
  show "field 32 4 F = sq" "length F = length W" "eigrp_checksum F = 0" using f by simp_all
  show "auth_valid H ei nbr F"
    using lF mF f(1,7,8) len(1) new key src ei by (simp add: auth_valid_def Let_def)
  show "eigrp_packet_auth_header_validate ei F = Some (Inr ())"
    using lF mF ty ei key_get_material [OF key] f(1) len
    by (auto simp: eigrp_packet_auth_header_validate_def eigrp_packet_auth_tlv_validate_def auth_tlv_matches_def
        digest_size_def auth_consts Let_def)
qed

subsection \<open>Replays\<close>

text \<open>
  A receiver that guards a stored sequence.  \<open>guard_run\<close> lets it process a list of packets and adds
  up by how much the stored sequence advanced.
\<close>

fun guard_run :: "('n \<Rightarrow> 'p \<Rightarrow> bool \<times> 'n) \<Rightarrow> ('n \<Rightarrow> u8 list) \<Rightarrow> 'n \<Rightarrow> 'p list \<Rightarrow> 'n \<times> nat" where
  "guard_run check stored n [] = (n, 0)"
| "guard_run check stored n (p # ps) =
     (let (ok, n1) = check n p; (n2, a) = guard_run check stored n1 ps
      in (n2, (if ok then unat (ntohl (stored n1) - ntohl (stored n)) else 0) + a))"

locale sequence_guard =
  fixes check :: "'n \<Rightarrow> 'p \<Rightarrow> bool \<times> 'n" and stored :: "'n \<Rightarrow> u8 list" and sequence :: "'p \<Rightarrow> u8 list"
  assumes accept: "check n p = (True, n') \<Longrightarrow> eigrp_auth_sequence_newer (sequence p) (stored n) \<and> stored n' = sequence p"
    and refuse: "check n p = (False, n') \<Longrightarrow> n' = n"
begin

lemma run_advance:
  "ntohl (stored n) \<noteq> 0 \<Longrightarrow> guard_run check stored n ps = (n2, a)
    \<Longrightarrow> ntohl (stored n2) = ntohl (stored n) + of_nat a \<and> ntohl (stored n2) \<noteq> 0"
proof (induction ps arbitrary: n a)
  case (Cons p ps)
  obtain ok n1 where c: "check n p = (ok, n1)" by force
  obtain b where r: "guard_run check stored n1 ps = (n2, b)"
    using Cons.prems(2) c by (cases "guard_run check stored n1 ps") simp
  show ?case
  proof (cases ok)
    case True
    with accept [of n p n1] c have "ntohl (stored n1) \<noteq> 0" by (auto simp: eigrp_auth_sequence_newer_def Let_def split: if_splits)
    with Cons.IH [OF _ r] Cons.prems(2) c r True show ?thesis by auto
  next
    case False
    with refuse [of n p n1] c Cons.IH [of n b] Cons.prems r show ?thesis by auto
  qed
qed simp

lemma replay_run_refused:
  assumes "check n p = (True, n1)" "guard_run check stored n1 ps = (n2, a)" "a \<le> 2 ^ 31"
  shows "check n2 p = (False, n2)"
proof -
  let ?s = "ntohl (sequence p)"
  have s1: "stored n1 = sequence p" and nz: "?s \<noteq> 0"
    using accept [OF assms(1)] by (auto simp: eigrp_auth_sequence_newer_def Let_def split: if_splits)
  then have adv: "ntohl (stored n2) = ?s + of_nat a" "ntohl (stored n2) \<noteq> 0"
    using run_advance [OF _ assms(2)] by auto
  have "\<not> (- of_nat a \<noteq> (0 :: u32) \<and> - of_nat a < (0x80000000 :: u32))"
  proof (cases "a = 0")
    case False
    have "(of_nat (2 ^ 32 - a) :: u32) = - of_nat a" using assms(3) by (simp add: of_nat_diff)
    moreover have "unat (of_nat (2 ^ 32 - a) :: u32) = 2 ^ 32 - a"
      unfolding unat_of_nat using False assms(3) by (simp add: take_bit_eq_mod)
    ultimately have "unat (- of_nat a :: u32) = 2 ^ 32 - a" by metis
    then show ?thesis using assms(3) by (auto simp: word_less_nat_alt)
  qed simp
  then have "\<not> eigrp_auth_sequence_newer (sequence p) (stored n2)"
    using adv nz by (simp add: eigrp_auth_sequence_newer_def Let_def)
  with accept [of n2 p] refuse [of n2 p] show ?thesis
    by (cases "check n2 p"; cases "fst (check n2 p)") simp_all
qed

end

lemma check_sha256_guard:
  "eigrp_check_sha256_digest ctx H ei s n = Some (True, n') \<Longrightarrow>
     eigrp_auth_sequence_newer (field 32 4 (take (st_endp s) (st_data s))) (nbr_crypt_seqnum n)
     \<and> nbr_crypt_seqnum n' = field 32 4 (take (st_endp s) (st_data s))"
  "eigrp_check_sha256_digest ctx H ei s n = Some (False, n') \<Longrightarrow> n' = n"
  by (auto simp: eigrp_check_sha256_digest_def Let_def bind_eq_Some_conv split: if_splits option.splits)

lemma check_md5_guard:
  "eigrp_check_md5_digest H ei s n flags = Some (True, n') \<Longrightarrow>
     eigrp_auth_sequence_newer (field 32 4 (take (st_endp s) (st_data s))) (nbr_crypt_seqnum n)
     \<and> nbr_crypt_seqnum n' = field 32 4 (take (st_endp s) (st_data s))"
  "eigrp_check_md5_digest H ei s n flags = Some (False, n') \<Longrightarrow> n' = n"
  by (auto simp: eigrp_check_md5_digest_def Let_def bind_eq_Some_conv split: if_splits option.splits)

text \<open>The receive step of an authenticated interface for a known neighbor: accepted or not, and the neighbor.\<close>

definition authenticated_receive ::
    "allocator \<Rightarrow> eigrp_hmac_sha256_ctx \<Rightarrow> auth_host \<Rightarrow> auth_intf \<Rightarrow> auth_nbr \<Rightarrow> u8 list \<Rightarrow> bool \<times> auth_nbr" where
  "authenticated_receive A ctx H ei nbr bs =
     (case eigrp_packet_auth_digest_validate A ctx H ei (Some nbr) None bs of
        Some (Inr _, Some n) \<Rightarrow> (auth_type ei \<noteq> EIGRP_AUTH_TYPE_NONE, n)
      | Some (Inl _, Some n) \<Rightarrow> (False, n)
      | _ \<Rightarrow> (False, nbr))"

lemma authenticated_receive_cases:
  obtains "authenticated_receive A ctx H ei n bs = (False, n)"
  | s where "take (st_endp s) (st_data s) = bs"
      "eigrp_check_sha256_digest ctx H ei s n = Some (authenticated_receive A ctx H ei n bs)"
  | s where "take (st_endp s) (st_data s) = bs"
      "eigrp_check_md5_digest H ei s n (eigrp_packet_auth_flags bs) = Some (authenticated_receive A ctx H ei n bs)"
proof (cases "eigrp_stream_create A (length bs)")
  case None
  then show thesis
    by (intro that(1)) (auto simp: authenticated_receive_def eigrp_packet_auth_digest_validate_def Let_def split: if_splits)
next
  case (Some s)
  obtain k t where put: "eigrp_stream_put A s bs = (k, t)" by force
  with stream_of_bytes [OF Some] have t: "k = length bs" "take (st_endp t) (st_data t) = bs" by auto
  let ?look = "auth_tlv_scan bs"
  show thesis
  proof (cases "auth_type ei = EIGRP_AUTH_TYPE_NONE \<or> ?look = None \<or> fst (the ?look) = None \<or> \<not> snd (the ?look)
      \<or> auth_type ei \<noteq> EIGRP_AUTH_TYPE_MD5 \<and> auth_type ei \<noteq> EIGRP_AUTH_TYPE_SHA256")
    case True
    then show thesis
      by (intro that(1)) (auto simp: authenticated_receive_def eigrp_packet_auth_digest_validate_def Let_def)
  next
    case False
    then obtain u where "?look = Some (Some u, True)" by auto
    note v = digest_validate_dispatch [OF this Some put [unfolded t(1)], of ei ctx H n None]
    show thesis
    proof (cases "auth_type ei = EIGRP_AUTH_TYPE_SHA256")
      case True
      show thesis
      proof (cases "eigrp_check_sha256_digest ctx H ei t n")
        case None
        then show thesis using False True v by (intro that(1)) (simp add: authenticated_receive_def)
      next
        case (Some r)
        then show thesis using False True v
          by (intro that(2) [OF t(2)]) (auto simp: authenticated_receive_def split: prod.splits)
      qed
    next
      case md: False
      show thesis
      proof (cases "eigrp_check_md5_digest H ei t n (eigrp_packet_auth_flags bs)")
        case None
        then show thesis using False md v by (intro that(1)) (simp add: authenticated_receive_def)
      next
        case (Some r)
        then show thesis using False md v
          by (intro that(3) [OF t(2)]) (auto simp: authenticated_receive_def split: prod.splits)
      qed
    qed
  qed
qed

lemma authenticated_receive_guard:
  "authenticated_receive A ctx H ei n bs = (True, n') \<Longrightarrow>
     eigrp_auth_sequence_newer (field 32 4 bs) (nbr_crypt_seqnum n) \<and> nbr_crypt_seqnum n' = field 32 4 bs"
  "authenticated_receive A ctx H ei n bs = (False, n') \<Longrightarrow> n' = n"
  by (rule authenticated_receive_cases [of A ctx H ei n bs]; use check_sha256_guard check_md5_guard in fastforce)+

interpretation packet_guard: sequence_guard "authenticated_receive A ctx H ei" nbr_crypt_seqnum "field 32 4"
  by unfold_locales (auto dest: authenticated_receive_guard)

text \<open>
  C16: A packet that a router signs is accepted by a peer that has the same key, for MD5 and for
  HMAC-SHA-256.  Signing succeeds, advances the cryptographic sequence and leaves a packet whose
  checksum is right; the receiver's framing and policy checks pass, the digest is accepted, and the
  neighbor remembers the sequence.  The hypotheses: the packet has the placeholder TLV of the
  configured type as its first and only authentication TLV, both ends resolve the same key, the
  receiver sees the sender's interface address as the source (HMAC only), and the next sequence is
  newer than the one the receiver holds.
\<close>

theorem auth_sign_verify:
  fixes ei :: auth_intf and s :: eigrp_stream
  defines "ty \<equiv> auth_type ei"
  assumes "stream_ok s" "st_getp s \<le> 20" "44 + digest_size ty \<le> st_endp s" "st_endp s \<le> 65535"
    and "ty = EIGRP_AUTH_TYPE_MD5 \<and> ip = [] \<or> ty = EIGRP_AUTH_TYPE_SHA256
           \<and> eigrp_auth_sha256_source H ei None INET6_ADDRSTRLEN = Some ip"
    and "auth_tlv_matches (written s) (24 + digest_size ty) ty (digest_size ty)"
    and "eigrp_packet_auth_tlv_lookup (written s) = Some (Some (Some 20, True))"
    and "eigrp_auth_key_get H ei (PLAINTEXT_LENGTH + 1) = Some (kid, key)" "created" "hmac_buffers ctx" "hmac_buffers ctx'"
    and "auth_type ej = ty" "eigrp_auth_key_get H' ej (PLAINTEXT_LENGTH + 1) = Some (kid', key)"
    and "auth_source H' ej nbr = Some ip"
    and "eigrp_auth_sequence_newer (fst (eigrp_auth_sequence_next ei)) (nbr_crypt_seqnum nbr)"
    and "eigrp_stream_create A' (st_endp s) \<noteq> None"
  shows "\<exists>ei' s'. eigrp_auth_transmit_finalize A created ctx H ei s (st_endp s) = Some (True, ei', s')
      \<and> eigrp_checksum (written s') = 0
      \<and> eigrp_packet_auth_header_validate ej (written s') = Some (Inr ())
      \<and> eigrp_packet_auth_digest_validate A' ctx' H' ej (Some nbr) src (written s')
          = Some (Inr (), Some (nbr\<lparr>nbr_crypt_seqnum := htonl (intf_crypt_seqnum ei')\<rparr>))"
proof -
  obtain sq ei' where sq: "eigrp_auth_sequence_next ei = (sq, ei')" by force
  obtain s' where s': "eigrp_auth_transmit_finalize A created ctx H ei s (st_endp s) = Some (True, ei', s')"
    "written s' = signed_packet sq (auth_digest ty key ip) ty (written s)"
    using finalize_signs [OF assms(2,3) _ assms(5) _ _ assms(9) \<open>created\<close> \<open>hmac_buffers ctx\<close> sq] assms unfolding ty_def by blast
  have l: "length (written s) = st_endp s" by (rule length_written) (rule assms(2))
  have v: "auth_valid H' ej nbr (written s')" "field 32 4 (written s') = sq" "length (written s') = st_endp s"
    "eigrp_checksum (written s') = 0" "eigrp_packet_auth_header_validate ej (written s') = Some (Inr ())"
    using signed_valid [of ty "written s" sq ej H' kid' key nbr ip, folded s'(2)] l sequence_next_frame(1) [OF sq] assms sq
    by auto
  have "eigrp_packet_auth_digest_validate A' ctx' H' ej (Some nbr) src (written s')
      = Some (Inr (), Some (nbr\<lparr>nbr_crypt_seqnum := sq\<rparr>))"
    using digest_validate_reference [of A' "written s'" ctx' ej H' nbr src] v assms by auto
  then show ?thesis using s'(1) v(4,5) sequence_next_frame(2) [OF sq] by auto
qed

definition sample_auth_host :: auth_host where
  "sample_auth_host = \<lparr>keychain_send_key = (\<lambda>_. Some (1, Some [107, 101, 121])), inet_ntop = (\<lambda>_ _ _. Some [49])\<rparr>"

definition sample_auth_intf :: auth_intf where
  "sample_auth_intf = \<lparr>auth_keychain = Some [107], auth_password = None, auth_type = EIGRP_AUTH_TYPE_MD5,
     intf_crypt_seqnum = 100, intf_addr_afi = EIGRP_AFI_IPV4, intf_addr_bytes = replicate 16 0\<rparr>"

definition sample_auth_packet :: "u8 list" where
  "sample_auth_packet = 2 # 1 # replicate 18 0 @ auth_tlv_template 40 EIGRP_AUTH_TYPE_MD5 16 1 16 @ [0, 1, 0, 4]"

definition sample_auth_stream :: eigrp_stream where
  "sample_auth_stream = \<lparr>st_data = sample_auth_packet, st_size = 64, st_getp = 0, st_endp = 64\<rparr>"

definition sample_auth_nbr :: auth_nbr where
  "sample_auth_nbr = \<lparr>nbr_crypt_seqnum = [0, 0, 0, 7], nbr_src_afi = AF_INET, nbr_src_ip = replicate 16 0\<rparr>"

lemma sample_auth:
  "stream_ok sample_auth_stream" "written sample_auth_stream = sample_auth_packet"
  "auth_tlv_matches sample_auth_packet 40 EIGRP_AUTH_TYPE_MD5 16"
  "auth_tlv_scan sample_auth_packet = Some (Some 20, True)"
  "eigrp_auth_key_get sample_auth_host sample_auth_intf (PLAINTEXT_LENGTH + 1) = Some (1, [107, 101, 121])"
  "eigrp_auth_sequence_newer (fst (eigrp_auth_sequence_next sample_auth_intf)) (nbr_crypt_seqnum sample_auth_nbr)"
       apply (simp add: stream_ok_def sample_auth_stream_def sample_auth_packet_def auth_tlv_template_def SIZE_MAX_def)
      apply (simp add: written_def sample_auth_stream_def sample_auth_packet_def auth_tlv_template_def)
     apply code_simp
    apply code_simp
   apply (simp add: eigrp_auth_key_get_def eigrp_sys_auth_key_lookup_def sample_auth_host_def sample_auth_intf_def auth_consts)
  apply code_simp
  done

theorem auth_sign_verify_witness:
  "\<exists>ei' s'. eigrp_auth_transmit_finalize zero_alloc True \<lparr>hmac_ictx = sha256_wiped, hmac_octx = sha256_wiped\<rparr>
        sample_auth_host sample_auth_intf sample_auth_stream 64 = Some (True, ei', s')
      \<and> eigrp_checksum (written s') = 0
      \<and> eigrp_packet_auth_header_validate sample_auth_intf (written s') = Some (Inr ())
      \<and> eigrp_packet_auth_digest_validate zero_alloc \<lparr>hmac_ictx = sha256_wiped, hmac_octx = sha256_wiped\<rparr>
          sample_auth_host sample_auth_intf (Some sample_auth_nbr) None (written s')
          = Some (Inr (), Some (sample_auth_nbr\<lparr>nbr_crypt_seqnum := htonl (intf_crypt_seqnum ei')\<rparr>))"
proof -
  let ?c = "\<lparr>hmac_ictx = sha256_wiped, hmac_octx = sha256_wiped\<rparr>"
  have e: "st_endp sample_auth_stream = 64" "st_getp sample_auth_stream = 0" "auth_type sample_auth_intf = EIGRP_AUTH_TYPE_MD5"
    by (simp_all add: sample_auth_stream_def sample_auth_intf_def)
  have "eigrp_stream_create zero_alloc 64 \<noteq> None"
    by (simp add: eigrp_stream_create_def eigrp_stream_ensure_def zero_alloc_def ensure_size.simps)
  then show ?thesis
    using auth_sign_verify [of sample_auth_stream sample_auth_intf "[]" sample_auth_host 1 "[107, 101, 121]" True ?c ?c
        sample_auth_intf sample_auth_host 1 sample_auth_nbr zero_alloc zero_alloc None]
    by (simp add: e sample_auth sample_auth(5) [simplified] digest_size_def auth_source_def hmac_buffers_def)
qed

text \<open>A packet signed with sequence 101, for a neighbour whose last sequence is 7.\<close>

definition sample_signed :: "u8 list" where
  "sample_signed = signed_packet (htonl 101) (auth_digest EIGRP_AUTH_TYPE_MD5 [107, 101, 121] []) EIGRP_AUTH_TYPE_MD5 sample_auth_packet"

lemma sample_signed_ok:
  "auth_valid sample_auth_host sample_auth_intf sample_auth_nbr sample_signed" "length sample_signed = 64"
  "eigrp_stream_create zero_alloc 64 \<noteq> None" "auth_type sample_auth_intf = EIGRP_AUTH_TYPE_MD5"
proof -
  have l: "length sample_auth_packet = 64" by (simp add: sample_auth_packet_def auth_tlv_template_def)
  show t: "auth_type sample_auth_intf = EIGRP_AUTH_TYPE_MD5" by (simp add: sample_auth_intf_def)
  have n: "eigrp_auth_sequence_newer (htonl 101) (nbr_crypt_seqnum sample_auth_nbr)" by code_simp
  show "auth_valid sample_auth_host sample_auth_intf sample_auth_nbr sample_signed" "length sample_signed = 64"
    using signed_valid [of EIGRP_AUTH_TYPE_MD5 sample_auth_packet "htonl 101" sample_auth_intf sample_auth_host 1
        "[107, 101, 121]" sample_auth_nbr "[]"] l t n sample_auth
    by (simp_all add: digest_size_def auth_source_def sample_signed_def)
  show "eigrp_stream_create zero_alloc 64 \<noteq> None"
    by (simp add: eigrp_stream_create_def eigrp_stream_ensure_def zero_alloc_def ensure_size.simps)
qed

text \<open>
  C17: The receiver accepts exactly the packets the specification \<open>auth_valid\<close> describes: framing right,
  one authentication TLV and that the first, the configured type and sizes, a newer sequence, and a
  digest equal to the reference digest (MD5 of RFC 1321, HMAC-SHA-256 of FIPS 198-1) of the packet
  with checksum and digest zero under the configured key.  Nothing is undefined, a refusal leaves
  the neighbor as it was, and an acceptance changes its sequence alone.
\<close>

theorem auth_accepts_exactly:
  assumes "eigrp_stream_create A (length bs) \<noteq> None" "hmac_buffers ctx" "length bs \<le> 65535"
    and "auth_type ei = EIGRP_AUTH_TYPE_MD5 \<or> auth_type ei = EIGRP_AUTH_TYPE_SHA256"
  shows "eigrp_packet_auth_digest_validate A ctx H ei (Some nbr) src bs
           = Some (if auth_valid H ei nbr bs then (Inr (), Some (nbr\<lparr>nbr_crypt_seqnum := field 32 4 bs\<rparr>))
                   else (Inl (if auth_tlv_scan bs = Some (Some 20, True) then AUTH_DIGEST
                              else AUTH_TLV_FRAMING), Some nbr))"
  using assms by (rule digest_validate_reference)

theorem auth_accepts_exactly_witness:
  "eigrp_packet_auth_digest_validate zero_alloc \<lparr>hmac_ictx = sha256_wiped, hmac_octx = sha256_wiped\<rparr>
     sample_auth_host sample_auth_intf (Some sample_auth_nbr) None sample_signed
   = Some (Inr (), Some (sample_auth_nbr\<lparr>nbr_crypt_seqnum := field 32 4 sample_signed\<rparr>))"
  using auth_accepts_exactly [of zero_alloc sample_signed "\<lparr>hmac_ictx = sha256_wiped, hmac_octx = sha256_wiped\<rparr>" sample_auth_intf
      sample_auth_host sample_auth_nbr None] sample_signed_ok
  by (simp add: hmac_buffers_def)

text \<open>Only the stored sequence of the neighbour changes, and a sequence of 0 accepts what any other accepts.\<close>

lemma newer_than_reset: "eigrp_auth_sequence_newer x y \<Longrightarrow> eigrp_auth_sequence_newer x [0, 0, 0, 0]"
  by (auto simp: eigrp_auth_sequence_newer_def Let_def ntohl_def split: if_splits)

lemma source_sequence [simp]: "eigrp_auth_sha256_source H ei (Some (n\<lparr>nbr_crypt_seqnum := q\<rparr>)) k = eigrp_auth_sha256_source H ei (Some n) k"
  by (simp add: eigrp_auth_sha256_source_def)

lemma check_reset:
  "eigrp_check_sha256_digest ctx H ei s n = Some (True, n') \<Longrightarrow>
     eigrp_check_sha256_digest ctx H ei s (n\<lparr>nbr_crypt_seqnum := [0, 0, 0, 0]\<rparr>) = Some (True, n')"
  "eigrp_check_md5_digest H ei s n flags = Some (True, n') \<Longrightarrow>
     eigrp_check_md5_digest H ei s (n\<lparr>nbr_crypt_seqnum := [0, 0, 0, 0]\<rparr>) flags = Some (True, n')"
  by (auto simp: eigrp_check_sha256_digest_def eigrp_check_md5_digest_def Let_def bind_eq_Some_conv newer_than_reset split: if_splits option.splits)

lemma receive_reset:
  assumes "authenticated_receive A ctx H ei n bs = (True, n')"
  shows "authenticated_receive A ctx H ei (n\<lparr>nbr_crypt_seqnum := [0, 0, 0, 0]\<rparr>) bs = (True, n')"
  using assms
  by (auto simp: authenticated_receive_def eigrp_packet_auth_digest_validate_def Let_def check_reset bind_eq_Some_conv
      split: if_splits option.splits sum.splits prod.splits)

lemma check_sequence_only:
  "eigrp_check_sha256_digest ctx H ei s n = Some (ok, n') \<Longrightarrow> \<exists>q. n' = n\<lparr>nbr_crypt_seqnum := q\<rparr>"
  "eigrp_check_md5_digest H ei s n flags = Some (ok, n') \<Longrightarrow> \<exists>q. n' = n\<lparr>nbr_crypt_seqnum := q\<rparr>"
proof -
  have "\<exists>q. n = n\<lparr>nbr_crypt_seqnum := q\<rparr>" by (intro exI [of _ "nbr_crypt_seqnum n"]) simp
  then show "eigrp_check_sha256_digest ctx H ei s n = Some (ok, n') \<Longrightarrow> \<exists>q. n' = n\<lparr>nbr_crypt_seqnum := q\<rparr>"
    "eigrp_check_md5_digest H ei s n flags = Some (ok, n') \<Longrightarrow> \<exists>q. n' = n\<lparr>nbr_crypt_seqnum := q\<rparr>"
    by (auto simp: eigrp_check_sha256_digest_def eigrp_check_md5_digest_def Let_def bind_eq_Some_conv split: if_splits option.splits)
qed

lemma receive_sequence_only:
  assumes "authenticated_receive A ctx H ei n bs = (ok, n')"
  shows "\<exists>q. n' = n\<lparr>nbr_crypt_seqnum := q\<rparr>"
proof (rule authenticated_receive_cases [of A ctx H ei n bs])
  assume "authenticated_receive A ctx H ei n bs = (False, n)"
  then show ?thesis using assms by (intro exI [of _ "nbr_crypt_seqnum n"]) simp
qed (use assms check_sequence_only in fastforce)+

lemma run_sequence_only:
  "guard_run (authenticated_receive A ctx H ei) nbr_crypt_seqnum n packets = (n', adv) \<Longrightarrow> \<exists>q. n' = n\<lparr>nbr_crypt_seqnum := q\<rparr>"
proof (induction packets arbitrary: n adv)
  case Nil
  then show ?case by (intro exI [of _ "nbr_crypt_seqnum n"]) simp
next
  case (Cons p ps)
  obtain ok n1 where p: "authenticated_receive A ctx H ei n p = (ok, n1)" by force
  obtain m where r: "guard_run (authenticated_receive A ctx H ei) nbr_crypt_seqnum n1 ps = (n', m)"
    using Cons.prems p by (auto simp: Let_def split: prod.splits)
  show ?case using Cons.IH [OF r] receive_sequence_only [OF p] by auto
qed

lemma down_accepts:
  assumes "authenticated_receive A ctx H ei nbr bs = (True, nbr1)"
    and "guard_run (authenticated_receive A ctx H ei) nbr_crypt_seqnum nbr1 packets = (nbr2, adv)"
  shows "authenticated_receive A ctx H ei (nbr2\<lparr>nbr_crypt_seqnum := [0, 0, 0, 0]\<rparr>) bs = (True, nbr2\<lparr>nbr_crypt_seqnum := field 32 4 bs\<rparr>)"
proof -
  obtain q r where q: "nbr1 = nbr\<lparr>nbr_crypt_seqnum := q\<rparr>" "nbr2 = nbr1\<lparr>nbr_crypt_seqnum := r\<rparr>"
    using receive_sequence_only [OF assms(1)] run_sequence_only [OF assms(2)] by blast
  moreover have "nbr_crypt_seqnum nbr1 = field 32 4 bs" using authenticated_receive_guard(1) [OF assms(1)] by simp
  ultimately show ?thesis using receive_reset [OF assms(1)] by simp
qed

text \<open>
  C18: A packet that was accepted once is not accepted again from the same neighbour while it is not taken down: whatever packets of the
  neighbour the digest check sees after it, as long as the sequences it accepts in between advance by at most half of the sequence space, the
  same bytes are refused and the neighbor is left as it is.  The protection ends when the neighbour is taken down, which resets the stored
  sequence to 0: from then on the same bytes are accepted again.
\<close>

theorem replay_refused:
  assumes "authenticated_receive A ctx H ei nbr bs = (True, nbr1)"
    and "guard_run (authenticated_receive A ctx H ei) nbr_crypt_seqnum nbr1 packets = (nbr2, adv)"
    and "adv \<le> 2 ^ 31"
  shows "authenticated_receive A ctx H ei nbr2 bs = (False, nbr2)
    \<and> authenticated_receive A ctx H ei (nbr2\<lparr>nbr_crypt_seqnum := [0, 0, 0, 0]\<rparr>) bs = (True, nbr2\<lparr>nbr_crypt_seqnum := field 32 4 bs\<rparr>)"
  using packet_guard.replay_run_refused [OF assms] down_accepts [OF assms(1,2)] by blast

theorem replay_refused_witness:
  "\<exists>nbr1. authenticated_receive zero_alloc \<lparr>hmac_ictx = sha256_wiped, hmac_octx = sha256_wiped\<rparr>
       sample_auth_host sample_auth_intf sample_auth_nbr sample_signed = (True, nbr1)
     \<and> authenticated_receive zero_alloc \<lparr>hmac_ictx = sha256_wiped, hmac_octx = sha256_wiped\<rparr>
       sample_auth_host sample_auth_intf nbr1 sample_signed = (False, nbr1)
     \<and> fst (authenticated_receive zero_alloc \<lparr>hmac_ictx = sha256_wiped, hmac_octx = sha256_wiped\<rparr>
       sample_auth_host sample_auth_intf (nbr1\<lparr>nbr_crypt_seqnum := [0, 0, 0, 0]\<rparr>) sample_signed)"
proof -
  let ?c = "\<lparr>hmac_ictx = sha256_wiped, hmac_octx = sha256_wiped\<rparr>"
  obtain nbr1 where a: "authenticated_receive zero_alloc ?c sample_auth_host sample_auth_intf sample_auth_nbr sample_signed = (True, nbr1)"
    using digest_validate_reference [of zero_alloc sample_signed ?c sample_auth_intf sample_auth_host sample_auth_nbr None] sample_signed_ok
    by (auto simp: authenticated_receive_def hmac_buffers_def auth_consts)
  with replay_refused [OF a, of "[]" nbr1 0] show ?thesis by auto
qed

end
