(* ===== verification/Eigrp_Hello.thy ===== *)
theory Eigrp_Hello
  imports Eigrp_Reliable_Wire Eigrp_Auth_Sign Eigrp_TLV1
begin

text \<open>
  The Hello packet (\<^verbatim>\<open>eigrp_hello.c\<close>, with the packet header of \<^verbatim>\<open>eigrp_packet.c\<close>): how it is encoded, and the check
  of its TLVs that a receiver does before anything else.

  A read is a \<open>peek\<close>, which gives \<open>None\<close> outside the packet; offsets and lengths inside a packet are naturals, since the C
  variables (\<^verbatim>\<open>uint16_t\<close>) are compared with the length before they are advanced.  The encoder is given what it uses of the
  interface and its instance as the record \<open>hello_env\<close>; the neighbours and the MTU are those of the transport's interface.
\<close>

subsection \<open>Constants\<close>

definition EIGRP_TLV_HDR_LEN :: nat where "EIGRP_TLV_HDR_LEN = 4"
definition EIGRP_TLV_PARAMETER :: u16 where "EIGRP_TLV_PARAMETER = 0x0001"
definition EIGRP_TLV_PARAMETER_LEN :: nat where "EIGRP_TLV_PARAMETER_LEN = 12"
definition EIGRP_TLV_SEQ :: u16 where "EIGRP_TLV_SEQ = 0x0003"
definition EIGRP_TLV_SEQ_BASE_LEN :: nat where "EIGRP_TLV_SEQ_BASE_LEN = 5"
definition EIGRP_TLV_SW_VERSION :: u16 where "EIGRP_TLV_SW_VERSION = 0x0004"
definition EIGRP_TLV_SW_VERSION_LEN :: nat where "EIGRP_TLV_SW_VERSION_LEN = 8"
definition EIGRP_TLV_NEXT_MCAST_SEQ :: u16 where "EIGRP_TLV_NEXT_MCAST_SEQ = 0x0005"
definition EIGRP_NEXT_SEQUENCE_TLV_SIZE :: nat where "EIGRP_NEXT_SEQUENCE_TLV_SIZE = 8"
definition EIGRP_TLV_PEER_TERMINATION :: u16 where "EIGRP_TLV_PEER_TERMINATION = 0x0007"
definition EIGRP_TLV_PEER_TERMINATION_LEN :: nat where "EIGRP_TLV_PEER_TERMINATION_LEN = 9"
definition EIGRP_HELLO_NORMAL :: u8 where "EIGRP_HELLO_NORMAL = 0x00"
definition EIGRP_HELLO_GRACEFUL_SHUTDOWN :: u8 where "EIGRP_HELLO_GRACEFUL_SHUTDOWN = 0x01"
definition EIGRP_HELLO_ADD_SEQUENCE :: u8 where "EIGRP_HELLO_ADD_SEQUENCE = 0x02"
definition EIGRP_HELLO_GRACEFUL_SHUTDOWN_NBR :: u8 where "EIGRP_HELLO_GRACEFUL_SHUTDOWN_NBR = 0x04"

lemmas hello_consts =
  EIGRP_TLV_HDR_LEN_def EIGRP_TLV_PARAMETER_def EIGRP_TLV_PARAMETER_LEN_def EIGRP_TLV_SEQ_def EIGRP_TLV_SEQ_BASE_LEN_def
  EIGRP_TLV_SW_VERSION_def EIGRP_TLV_SW_VERSION_LEN_def EIGRP_TLV_NEXT_MCAST_SEQ_def EIGRP_NEXT_SEQUENCE_TLV_SIZE_def
  EIGRP_TLV_PEER_TERMINATION_def EIGRP_TLV_PEER_TERMINATION_LEN_def

lemmas hello_flags =
  EIGRP_HELLO_NORMAL_def EIGRP_HELLO_GRACEFUL_SHUTDOWN_def EIGRP_HELLO_ADD_SEQUENCE_def EIGRP_HELLO_GRACEFUL_SHUTDOWN_NBR_def

text \<open>The interface and its instance, as far as a Hello shows them; \<open>he_src\<close> is the address of a neighbour.\<close>

record hello_env =
  he_vectors :: eigrp_af_vectors
  he_auth :: auth_intf
  he_host :: auth_host
  he_instance :: eigrp_instance
  he_vrid :: u16
  he_AS :: u16
  he_wait :: u16
  host_major :: u8
  host_minor :: u8
  he_src :: "nbr_id \<Rightarrow> eigrp_addr"

subsection \<open>A new packet\<close>

text \<open>\<open>calloc\<close>: whether the packet structure could be allocated.\<close>

definition eigrp_packet_create :: "bool \<Rightarrow> allocator \<Rightarrow> nat \<Rightarrow> eigrp_stream option" where
  "eigrp_packet_create calloc A sz = (if calloc then eigrp_stream_create A sz else None)"

definition packet_header :: "u8 \<Rightarrow> u16 \<Rightarrow> u16 \<Rightarrow> u32 \<Rightarrow> u32 \<Rightarrow> u32 \<Rightarrow> u8 list" where
  "packet_header ty vrid AS flags sequence ack =
     [2, ty] @ [0, 0] @ htonl flags @ htonl sequence @ htonl ack @ htons vrid @ htons AS"

text \<open>The header is written through a pointer to the start of the buffer; a buffer that is too small is a fault.\<close>

definition eigrp_packet_header_init ::
    "allocator \<Rightarrow> u8 \<Rightarrow> hello_env \<Rightarrow> eigrp_stream \<Rightarrow> u32 \<Rightarrow> u32 \<Rightarrow> u32 \<Rightarrow> eigrp_stream option" where
  "eigrp_packet_header_init A ty E s flags sequence ack =
     (let s = eigrp_stream_clear s
      in if st_size s < EIGRP_HEADER_BYTES then None
         else Some (eigrp_stream_forward_endp A
                      (store 0 (packet_header ty (he_vrid E) (he_AS E) flags sequence ack) s) EIGRP_HEADER_BYTES))"

text \<open>The authentication TLV, if there is one; \<open>created\<close>: its temporary could be allocated.\<close>

definition packet_auth_encode :: "allocator \<Rightarrow> bool \<Rightarrow> hello_env \<Rightarrow> eigrp_stream \<Rightarrow> nat \<times> eigrp_stream" where
  "packet_auth_encode A created E s =
     (let ei = he_auth E
      in if auth_type ei = EIGRP_AUTH_TYPE_MD5 \<and> eigrp_auth_material_available ei
         then eigrp_auth_tlv_md5_encode A created (he_host E) s ei
         else if auth_type ei = EIGRP_AUTH_TYPE_SHA256 \<and> eigrp_auth_material_available ei
         then eigrp_auth_tlv_sha256_encode A created (he_host E) s ei
         else (0, s))"

subsection \<open>The TLVs of a Hello\<close>

definition eigrp_hello_parameter_encode :: "allocator \<Rightarrow> hello_env \<Rightarrow> eigrp_stream \<Rightarrow> u8 \<Rightarrow> nat \<times> eigrp_stream" where
  "eigrp_hello_parameter_encode A E s flags =
     (let s = snd (eigrp_stream_putw A s EIGRP_TLV_PARAMETER);
          s = snd (eigrp_stream_putw A s (of_nat EIGRP_TLV_PARAMETER_LEN));
          k = (if flags AND EIGRP_HELLO_GRACEFUL_SHUTDOWN \<noteq> 0 then replicate 6 0xff else take 6 (k_values (he_instance E)));
          s = fold (\<lambda>b s. snd (eigrp_stream_putc A s b)) k s
      in (EIGRP_TLV_PARAMETER_LEN, snd (eigrp_stream_putw A s (he_wait E))))"

definition eigrp_sw_version_encode :: "allocator \<Rightarrow> hello_env \<Rightarrow> eigrp_stream \<Rightarrow> nat \<times> eigrp_stream" where
  "eigrp_sw_version_encode A E s =
     (let s = snd (eigrp_stream_putw A s EIGRP_TLV_SW_VERSION);
          s = snd (eigrp_stream_putw A s (of_nat EIGRP_TLV_SW_VERSION_LEN));
          s = snd (eigrp_stream_putc A s (host_major E));
          s = snd (eigrp_stream_putc A s (host_minor E));
          s = snd (eigrp_stream_putc A s (metric_version (he_instance E)))
      in (EIGRP_TLV_SW_VERSION_LEN, snd (eigrp_stream_putc A s 2)))"

text \<open>The neighbours that are still busy with earlier packets are listed as those that must not take the next multicast.\<close>

definition busy_peer :: "u32 \<Rightarrow> u64 \<Rightarrow> rtp_intf \<Rightarrow> nbr_id \<Rightarrow> bool" where
  "busy_peer sequence epoch I n \<longleftrightarrow>
     eigrp_packet_multicast_peer_eligible (nbr I n) epoch \<and> eigrp_packet_reliable_prior_count (nbr I n) sequence \<noteq> 0"

fun sequence_addresses ::
    "allocator \<Rightarrow> hello_env \<Rightarrow> (nbr_id \<Rightarrow> bool) \<Rightarrow> nbr_id list \<Rightarrow> nat \<Rightarrow> bool \<Rightarrow> eigrp_stream \<Rightarrow> nat \<times> bool \<times> eigrp_stream" where
  "sequence_addresses A E busy [] len found s = (len, found, s)"
| "sequence_addresses A E busy (n # ns) len found s =
     (if \<not> busy n then sequence_addresses A E busy ns len found s
      else
        (let s = snd (eigrp_stream_putc A s (of_nat (packet_address_bytes (he_vectors E))));
             (k, s) = packet_address_encode (he_vectors E) A s (he_src E n)
         in sequence_addresses A E busy ns (len + 1 + k) True s))"

definition eigrp_sequence_encode ::
    "allocator \<Rightarrow> hello_env \<Rightarrow> rtp_intf \<Rightarrow> eigrp_stream \<Rightarrow> u32 \<Rightarrow> u64 \<Rightarrow> nat \<times> eigrp_stream" where
  "eigrp_sequence_encode A E I s sequence epoch =
     (let backup_end = st_endp s;
          s = snd (eigrp_stream_putw A s EIGRP_TLV_SEQ);
          size_end = st_endp s;
          s = snd (eigrp_stream_putw A s 0);
          (len, found, s) = sequence_addresses A E (busy_peer sequence epoch I) (nbr_list I) EIGRP_TLV_HDR_LEN False s
      in if \<not> found then (0, eigrp_stream_set_endp A s backup_end)
         else
           (let backup_end = st_endp s;
                s = eigrp_stream_set_endp A s size_end;
                s = snd (eigrp_stream_putw A s (of_nat len))
            in (len, eigrp_stream_set_endp A s backup_end)))"

definition eigrp_next_sequence_encode :: "allocator \<Rightarrow> u32 \<Rightarrow> eigrp_stream \<Rightarrow> nat \<times> eigrp_stream" where
  "eigrp_next_sequence_encode A sequence s =
     (let s = snd (eigrp_stream_putw A s EIGRP_TLV_NEXT_MCAST_SEQ);
          s = snd (eigrp_stream_putw A s (of_nat EIGRP_NEXT_SEQUENCE_TLV_SIZE))
      in (EIGRP_NEXT_SEQUENCE_TLV_SIZE, snd (eigrp_stream_putl A s sequence)))"

definition eigrp_peer_termination_encode ::
    "allocator \<Rightarrow> hello_env \<Rightarrow> eigrp_stream \<Rightarrow> eigrp_addr option \<Rightarrow> nat \<times> eigrp_stream" where
  "eigrp_peer_termination_encode A E s nbr_addr =
     (case nbr_addr of
        None \<Rightarrow> (0, s)
      | Some a \<Rightarrow>
          (let address_length = packet_address_bytes (he_vectors E)
           in if ip_afi a = addr_family.AF_INET \<and> address_length \<noteq> 4 \<or> ip_afi a = addr_family.AF_INET6 \<and> address_length \<noteq> 16
              then (0, s)
              else
                (let len = EIGRP_TLV_HDR_LEN + 1 + address_length;
                     s = snd (eigrp_stream_putw A s EIGRP_TLV_PEER_TERMINATION);
                     s = snd (eigrp_stream_putw A s (of_nat len));
                     s = snd (eigrp_stream_putc A s (of_nat address_length));
                     (k, s) = packet_address_encode (he_vectors E) A s a
                 in if k = 0 then (0, s) else (len, s))))"

subsection \<open>The packet\<close>

definition hello_sequence_part ::
    "allocator \<Rightarrow> hello_env \<Rightarrow> rtp_intf \<Rightarrow> u8 \<Rightarrow> u32 \<Rightarrow> u64 \<Rightarrow> eigrp_stream \<Rightarrow> nat \<times> eigrp_stream" where
  "hello_sequence_part A E I flags multicast_sequence epoch s =
     (if flags AND EIGRP_HELLO_ADD_SEQUENCE \<noteq> 0
      then (let (m, s) = eigrp_sequence_encode A E I s multicast_sequence epoch;
                (n, s) = eigrp_next_sequence_encode A multicast_sequence s
            in (m + n, s))
      else (0, s))"

definition hello_termination_part :: "allocator \<Rightarrow> hello_env \<Rightarrow> u8 \<Rightarrow> eigrp_addr option \<Rightarrow> eigrp_stream \<Rightarrow> nat \<times> eigrp_stream" where
  "hello_termination_part A E flags nbr_addr s =
     (if flags AND EIGRP_HELLO_GRACEFUL_SHUTDOWN_NBR \<noteq> 0 then eigrp_peer_termination_encode A E s nbr_addr else (0, s))"

text \<open>The result is the fault of the header, or \<open>None\<close> for no packet, or the packet's length and its stream.\<close>

definition eigrp_hello_encode ::
    "bool \<Rightarrow> allocator \<Rightarrow> bool \<Rightarrow> hello_env \<Rightarrow> rtp_intf \<Rightarrow> eigrp_addr option \<Rightarrow> u32 \<Rightarrow> u8 \<Rightarrow> eigrp_addr option \<Rightarrow> u32 \<Rightarrow> u64
       \<Rightarrow> (u16 \<times> eigrp_stream) option option" where
  "eigrp_hello_encode calloc A created E I to ack flags nbr_addr multicast_sequence epoch =
     (case eigrp_packet_create calloc A (eigrp_packet_payload_limit (curr_mtu I)) of
        None \<Rightarrow> Some None
      | Some s \<Rightarrow> do {
          s \<leftarrow> eigrp_packet_header_init A EIGRP_OPC_HELLO E s 0 0 ack;
          let (auth_length, s) = packet_auth_encode A created E s;
          let (parameter_length, s) =
            eigrp_hello_parameter_encode A E s
              (if flags AND EIGRP_HELLO_GRACEFUL_SHUTDOWN \<noteq> 0 then EIGRP_HELLO_GRACEFUL_SHUTDOWN else EIGRP_HELLO_NORMAL);
          let (version_length, s) = eigrp_sw_version_encode A E s;
          let (sequence_length, s) = hello_sequence_part A E I flags multicast_sequence epoch s;
          let (termination_length, s) = hello_termination_part A E flags nbr_addr s;
          let length = EIGRP_HEADER_BYTES + auth_length + parameter_length + version_length + sequence_length + termination_length;
          Some (if to = None then None else Some (of_nat length, s)) })"

subsection \<open>Checking the TLVs\<close>

definition peek :: "nat \<Rightarrow> nat \<Rightarrow> u8 list \<Rightarrow> u8 list option" where
  "peek off n bs = (if off + n \<le> length bs then Some (field off n bs) else None)"

definition peek_u16 :: "nat \<Rightarrow> u8 list \<Rightarrow> u16 option" where
  "peek_u16 off bs = map_option ntohs (peek off 2 bs)"

definition peek_u8 :: "nat \<Rightarrow> u8 list \<Rightarrow> nat option" where
  "peek_u8 off bs = map_option (\<lambda>b. unat (hd b)) (peek off 1 bs)"

text \<open>The address list of a SEQUENCE or PEER TERMINATION TLV of \<open>len\<close> bytes, from \<open>off\<close> on.\<close>

function address_list_valid :: "nat \<Rightarrow> nat \<Rightarrow> u8 list \<Rightarrow> nat \<Rightarrow> bool option" where
  "address_list_valid expected len bs off =
     (if off < len
      then do {
        encoded \<leftarrow> peek_u8 off bs;
        if encoded \<noteq> expected \<or> len < off + 1 + encoded then Some False
        else address_list_valid expected len bs (off + 1 + encoded) }
      else Some True)"
  by pat_completeness auto
termination
  by (relation "measure (\<lambda>(expected, len, bs, off). len - off)") auto

declare address_list_valid.simps [simp del]

definition hello_tlv_valid :: "nat \<Rightarrow> u16 \<Rightarrow> nat \<Rightarrow> u8 list \<Rightarrow> bool option" where
  "hello_tlv_valid expected ty len bs =
     (if ty = EIGRP_TLV_PARAMETER
      then (if len < EIGRP_TLV_PARAMETER_LEN then Some False
            else do { hold_time \<leftarrow> peek_u16 10 bs; Some (hold_time \<noteq> 0) })
      else if ty = EIGRP_TLV_SW_VERSION then Some (EIGRP_TLV_SW_VERSION_LEN \<le> len)
      else if ty = EIGRP_TLV_NEXT_MCAST_SEQ then Some (len = EIGRP_NEXT_SEQUENCE_TLV_SIZE)
      else if ty = EIGRP_TLV_SEQ \<or> ty = EIGRP_TLV_PEER_TERMINATION
      then do {
        ok \<leftarrow> address_list_valid expected len bs EIGRP_TLV_HDR_LEN;
        Some (ok \<and> \<not> (ty = EIGRP_TLV_PEER_TERMINATION \<and> len < EIGRP_TLV_HDR_LEN + 1 + expected)) }
      else Some True)"

text \<open>\<open>bs\<close> is what remains of the packet.\<close>

function hello_tlvs_walk :: "nat \<Rightarrow> u8 list \<Rightarrow> bool \<Rightarrow> bool option" where
  "hello_tlvs_walk expected bs parameter_seen =
     (if bs = [] then Some parameter_seen
      else if length bs < EIGRP_TLV_HDR_LEN then Some False
      else do {
        ty \<leftarrow> peek_u16 0 bs;
        len \<leftarrow> map_option unat (peek_u16 2 bs);
        if len < EIGRP_TLV_HDR_LEN \<or> length bs < len then Some False
        else do {
          ok \<leftarrow> hello_tlv_valid expected ty len bs;
          if \<not> ok then Some False
          else hello_tlvs_walk expected (drop len bs) (parameter_seen \<or> ty = EIGRP_TLV_PARAMETER) } })"
  by pat_completeness auto
termination
  by (relation "measure (\<lambda>(expected, bs, seen). length bs)") (auto simp: hello_consts)

declare hello_tlvs_walk.simps [simp del]

definition eigrp_hello_tlvs_validate :: "eigrp_af_vectors \<Rightarrow> u8 list \<Rightarrow> bool option" where
  "eigrp_hello_tlvs_validate V payload = hello_tlvs_walk (packet_address_bytes V) payload False"

subsection \<open>Writing with room\<close>

text \<open>\<open>encodes s w r\<close>: an encoder that started at \<open>s\<close> appended \<open>w\<close> and reports its length.\<close>

definition roomy :: "allocator \<Rightarrow> eigrp_stream \<Rightarrow> nat \<Rightarrow> bool" where
  "roomy A s k \<longleftrightarrow> (\<forall>m. A m \<noteq> None) \<and> stream_ok s \<and> st_endp s + k \<le> SIZE_MAX div 2"

definition wrote :: "eigrp_stream \<Rightarrow> u8 list \<Rightarrow> eigrp_stream \<Rightarrow> bool" where
  "wrote s w s' \<longleftrightarrow> stream_ok s' \<and> written s' = written s @ w \<and> st_getp s' = st_getp s \<and> st_endp s' = st_endp s + length w"

definition encodes :: "eigrp_stream \<Rightarrow> u8 list \<Rightarrow> nat \<times> eigrp_stream \<Rightarrow> bool" where
  "encodes s w r \<longleftrightarrow> fst r = length w \<and> wrote s w (snd r)"

lemma roomy_mono: "roomy A s n \<Longrightarrow> m \<le> n \<Longrightarrow> roomy A s m"
  by (auto simp: roomy_def)

lemma roomy_refl: "roomy A s k \<Longrightarrow> wrote s [] s"
  by (simp add: roomy_def wrote_def)

lemma wrote_trans: "wrote s xs s' \<Longrightarrow> wrote s' ys s'' \<Longrightarrow> wrote s (xs @ ys) s''"
  by (simp add: wrote_def)

lemma roomy_put:
  assumes "roomy A s n" "wrote s xs s'" "length xs + length ys \<le> n"
  shows "wrote s (xs @ ys) (snd (eigrp_stream_put A s' ys))"
proof -
  have "can_grow A s' (0 + length ys)" "stream_ok s'" using assms by (auto simp: roomy_def can_grow_def wrote_def)
  from put_grow [OF this(2,1)] show ?thesis using assms(2) by (simp add: wrote_def)
qed

lemma roomy_wrote: "roomy A s n \<Longrightarrow> wrote s w s' \<Longrightarrow> length w + k \<le> n \<Longrightarrow> roomy A s' k"
  by (auto simp: roomy_def wrote_def)

lemma roomy_putw: "roomy A s n \<Longrightarrow> wrote s xs s' \<Longrightarrow> length xs + 2 \<le> n \<Longrightarrow> wrote s (xs @ htons w) (snd (eigrp_stream_putw A s' w))"
  by (simp add: eigrp_stream_putw_def roomy_put)

lemma roomy_putl: "roomy A s n \<Longrightarrow> wrote s xs s' \<Longrightarrow> length xs + 4 \<le> n \<Longrightarrow> wrote s (xs @ htonl w) (snd (eigrp_stream_putl A s' w))"
  by (simp add: eigrp_stream_putl_def roomy_put)

lemma roomy_putc: "roomy A s n \<Longrightarrow> wrote s xs s' \<Longrightarrow> length xs + 1 \<le> n \<Longrightarrow> wrote s (xs @ [b]) (snd (eigrp_stream_putc A s' b))"
  by (simp add: eigrp_stream_putc_def roomy_put)

lemma roomy_putcs:
  "roomy A s n \<Longrightarrow> wrote s xs s' \<Longrightarrow> length xs + length k \<le> n
   \<Longrightarrow> wrote s (xs @ k) (fold (\<lambda>b s. snd (eigrp_stream_putc A s b)) k s')"
proof (induction k arbitrary: xs s')
  case (Cons b k)
  have "wrote s (xs @ [b]) (snd (eigrp_stream_putc A s' b))" using Cons.prems by (intro roomy_putc) auto
  from Cons.IH [OF Cons.prems(1) this] Cons.prems(3) show ?case by simp
qed simp

lemma roomy_tlv_header:
  assumes r: "roomy A s n" and "4 \<le> n"
  shows "wrote s (htons ty @ htons len) (snd (eigrp_stream_putw A (snd (eigrp_stream_putw A s ty)) len))"
  using roomy_putw [OF r roomy_putw [OF r roomy_refl [OF r], of ty], of len] assms(2) by simp

subsection \<open>The wire form\<close>

definition tlv :: "u16 \<Rightarrow> u8 list \<Rightarrow> u8 list" where
  "tlv ty v = htons ty @ htons (of_nat (4 + length v)) @ v"

lemma length_tlv [simp]: "length (tlv ty v) = 4 + length v"
  by (simp add: tlv_def)

definition auth_wire :: "hello_env \<Rightarrow> u8 list" where
  "auth_wire E =
     (let ei = he_auth E
      in if \<not> eigrp_auth_material_available ei then []
         else case eigrp_auth_key_get (he_host E) ei (PLAINTEXT_LENGTH + 1) of
                None \<Rightarrow> []
              | Some (key_id, _) \<Rightarrow>
                  (if auth_type ei = EIGRP_AUTH_TYPE_MD5 then auth_tlv_template 40 EIGRP_AUTH_TYPE_MD5 16 key_id 16
                   else if auth_type ei = EIGRP_AUTH_TYPE_SHA256 then auth_tlv_template 56 EIGRP_AUTH_TYPE_SHA256 32 0 32
                   else []))"

definition parameter_wire :: "u8 list \<Rightarrow> u16 \<Rightarrow> u8 list" where
  "parameter_wire k hold = tlv EIGRP_TLV_PARAMETER (k @ htons hold)"

definition version_wire :: "hello_env \<Rightarrow> u8 list" where
  "version_wire E = tlv EIGRP_TLV_SW_VERSION [host_major E, host_minor E, metric_version (he_instance E), 2]"

definition address_wire :: "eigrp_af_vectors \<Rightarrow> eigrp_addr \<Rightarrow> u8 list" where
  "address_wire V a = of_nat (packet_address_bytes V) # take (packet_address_bytes V) (ip_bytes a)"

definition addresses_wire :: "eigrp_af_vectors \<Rightarrow> eigrp_addr list \<Rightarrow> u8 list" where
  "addresses_wire V as = concat (map (address_wire V) as)"

definition sequence_wire :: "eigrp_af_vectors \<Rightarrow> eigrp_addr list \<Rightarrow> u8 list" where
  "sequence_wire V as = (if as = [] then [] else tlv EIGRP_TLV_SEQ (addresses_wire V as))"

definition busy_addresses :: "hello_env \<Rightarrow> rtp_intf \<Rightarrow> u32 \<Rightarrow> u64 \<Rightarrow> eigrp_addr list" where
  "busy_addresses E I sequence epoch = map (he_src E) (filter (busy_peer sequence epoch I) (nbr_list I))"

definition hello_k :: "hello_env \<Rightarrow> u8 \<Rightarrow> u8 list" where
  "hello_k E flags = (if flags AND EIGRP_HELLO_GRACEFUL_SHUTDOWN \<noteq> 0 then replicate 6 0xff else take 6 (k_values (he_instance E)))"

definition hello_payload :: "hello_env \<Rightarrow> rtp_intf \<Rightarrow> u8 \<Rightarrow> eigrp_addr option \<Rightarrow> u32 \<Rightarrow> u64 \<Rightarrow> u8 list" where
  "hello_payload E I flags nbr_addr sequence epoch =
     auth_wire E @ parameter_wire (hello_k E flags) (he_wait E) @ version_wire E
     @ (if flags AND EIGRP_HELLO_ADD_SEQUENCE \<noteq> 0
        then sequence_wire (he_vectors E) (busy_addresses E I sequence epoch) @ tlv EIGRP_TLV_NEXT_MCAST_SEQ (htonl sequence) else [])
     @ (if flags AND EIGRP_HELLO_GRACEFUL_SHUTDOWN_NBR \<noteq> 0
        then (case nbr_addr of None \<Rightarrow> [] | Some a \<Rightarrow> tlv EIGRP_TLV_PEER_TERMINATION (address_wire (he_vectors E) a)) else [])"

lemma length_auth_wire: "length (auth_wire E) \<le> 56"
  by (auto simp: auth_wire_def auth_tlv_template_def Let_def split: option.splits)

subsection \<open>The encoders write the wire form\<close>

lemma appended_parameter:
  assumes "roomy A s 12" "length (k_values (he_instance E)) = 6"
  shows "encodes s (parameter_wire (hello_k E flags) (he_wait E)) (eigrp_hello_parameter_encode A E s flags)"
proof -
  have l: "length (hello_k E flags) = 6" using assms(2) by (simp add: hello_k_def)
  note r = assms(1)
  have "wrote s (((htons EIGRP_TLV_PARAMETER @ htons 12) @ hello_k E flags) @ htons (he_wait E))
      (snd (eigrp_hello_parameter_encode A E s flags))"
    unfolding eigrp_hello_parameter_encode_def hello_k_def [symmetric] Let_def snd_conv EIGRP_TLV_PARAMETER_LEN_def of_nat_numeral
    using l by (intro roomy_putw [OF r] roomy_putcs [OF r] roomy_tlv_header [OF r]) simp_all
  then show ?thesis
    using l by (simp add: encodes_def parameter_wire_def tlv_def eigrp_hello_parameter_encode_def hello_consts)
qed

lemma appended_version:
  assumes r: "roomy A s 8"
  shows "encodes s (version_wire E) (eigrp_sw_version_encode A E s)"
proof -
  have "wrote s (((((htons EIGRP_TLV_SW_VERSION @ htons 8) @ [host_major E]) @ [host_minor E]) @ [metric_version (he_instance E)]) @ [2])
      (snd (eigrp_sw_version_encode A E s))"
    unfolding eigrp_sw_version_encode_def Let_def snd_conv EIGRP_TLV_SW_VERSION_LEN_def of_nat_numeral
    by (intro roomy_putc [OF r] roomy_tlv_header [OF r]) simp_all
  then show ?thesis by (simp add: encodes_def version_wire_def tlv_def eigrp_sw_version_encode_def hello_consts)
qed

lemma appended_next_sequence:
  assumes r: "roomy A s 8"
  shows "encodes s (tlv EIGRP_TLV_NEXT_MCAST_SEQ (htonl q)) (eigrp_next_sequence_encode A q s)"
proof -
  have "wrote s ((htons EIGRP_TLV_NEXT_MCAST_SEQ @ htons 8) @ htonl q) (snd (eigrp_next_sequence_encode A q s))"
    unfolding eigrp_next_sequence_encode_def Let_def snd_conv EIGRP_NEXT_SEQUENCE_TLV_SIZE_def of_nat_numeral
    by (intro roomy_putl [OF r] roomy_tlv_header [OF r]) simp_all
  then show ?thesis by (simp add: encodes_def tlv_def eigrp_next_sequence_encode_def hello_consts)
qed

lemma appended_auth:
  assumes r: "roomy A s 56" and "created"
  shows "encodes s (auth_wire E) (packet_auth_encode A created E s)"
proof -
  have "length (auth_tlv_template 40 EIGRP_AUTH_TYPE_MD5 16 k 16) = 40" "length (auth_tlv_template 56 EIGRP_AUTH_TYPE_SHA256 32 0 32) = 56" for k
    by (simp_all add: auth_tlv_template_def)
  then show ?thesis
    using roomy_put [OF r roomy_refl [OF r]] roomy_refl [OF r] \<open>created\<close>
    by (auto simp: packet_auth_encode_def auth_wire_def Let_def encodes_def eigrp_auth_tlv_md5_encode_def eigrp_auth_tlv_sha256_encode_def
        auth_consts split: option.splits)
qed

subsection \<open>Addresses\<close>

context af_codec
begin

lemma address_wire_wrote:
  assumes r: "roomy A s n" and w: "wrote s xs s'" and l: "length xs + 17 \<le> n" and a: "ip_afi a \<in> {AF_UNSPEC, family}"
  defines "e \<equiv> packet_address_encode V A (snd (eigrp_stream_putc A s' (of_nat (packet_address_bytes V)))) a"
  shows "fst e = packet_address_bytes V" "wrote s (xs @ address_wire V a) (snd e)"
proof -
  have c: "wrote s (xs @ [of_nat (packet_address_bytes V)]) (snd (eigrp_stream_putc A s' (of_nat (packet_address_bytes V))))"
    using l by (intro roomy_putc [OF r w]) simp
  have "snd e = snd (eigrp_stream_put A (snd (eigrp_stream_putc A s' (of_nat (packet_address_bytes V)))) (take (packet_address_bytes V) (ip_bytes a)))"
    unfolding e_def using a by (auto simp: address_encode)
  then have "wrote s ((xs @ [of_nat (packet_address_bytes V)]) @ take (packet_address_bytes V) (ip_bytes a)) (snd e)"
    using roomy_put [OF r c, of "take (packet_address_bytes V) (ip_bytes a)"] l address_bytes by simp
  then show "wrote s (xs @ address_wire V a) (snd e)" by (simp add: address_wire_def)
  show "fst e = packet_address_bytes V" using a by (auto simp: e_def address_encode)
qed

lemma length_addresses_wire:
  "\<forall>a \<in> set as. addr_ok a \<Longrightarrow> length (addresses_wire V as) = (packet_address_bytes V + 1) * length as"
  using address_bytes by (induction as) (auto simp: addresses_wire_def address_wire_def addr_ok_def)

lemma sequence_addresses_wrote:
  assumes "roomy A s n" and "he_vectors E = V"
  shows "wrote s xs s' \<Longrightarrow> \<forall>m \<in> set ns. addr_ok (he_src E m) \<and> ip_afi (he_src E m) \<in> {AF_UNSPEC, family}
    \<Longrightarrow> length xs + 17 * length ns \<le> n
    \<Longrightarrow> \<exists>s''. sequence_addresses A E busy ns len found s'
          = (len + length (addresses_wire V (map (he_src E) (filter busy ns))), found \<or> filter busy ns \<noteq> [], s'')
        \<and> wrote s (xs @ addresses_wire V (map (he_src E) (filter busy ns))) s''"
proof (induction ns arbitrary: xs s' len found)
  case (Cons m ns)
  show ?case
  proof (cases "busy m")
    case True
    define e where "e = packet_address_encode V A (snd (eigrp_stream_putc A s' (of_nat (packet_address_bytes V)))) (he_src E m)"
    have e: "fst e = packet_address_bytes V" "wrote s (xs @ address_wire V (he_src E m)) (snd e)"
      unfolding e_def using address_wire_wrote [OF assms(1) Cons.prems(1)] Cons.prems(2,3) by auto
    have l: "length (address_wire V (he_src E m)) = 1 + packet_address_bytes V" "packet_address_bytes V \<le> 16"
      using Cons.prems(2) address_bytes by (auto simp: address_wire_def addr_ok_def)
    obtain s'' where s'': "sequence_addresses A E busy ns (len + 1 + packet_address_bytes V) True (snd e)
          = (len + 1 + packet_address_bytes V + length (addresses_wire V (map (he_src E) (filter busy ns))), True, s'')"
        "wrote s ((xs @ address_wire V (he_src E m)) @ addresses_wire V (map (he_src E) (filter busy ns))) s''"
      using Cons.IH [OF e(2), of "len + 1 + packet_address_bytes V" True] Cons.prems(2,3) l by auto
    have "e = (packet_address_bytes V, snd e)" using e(1) by (cases e) simp
    then have "sequence_addresses A E busy (m # ns) len found s'
        = sequence_addresses A E busy ns (len + 1 + packet_address_bytes V) True (snd e)"
      using True assms(2) by (simp add: Let_def flip: e_def) (metis (no_types, lifting) case_prod_conv)
    with s'' l(1) True show ?thesis by (simp add: addresses_wire_def)
  next
    case False
    with Cons.IH [OF Cons.prems(1), of len found] Cons.prems(2,3) show ?thesis by simp
  qed
qed (auto simp: addresses_wire_def)

lemma sequence_encode_wrote:
  assumes r: "roomy A s n" and E: "he_vectors E = V" and g: "st_getp s \<le> st_endp s"
    and a: "\<forall>m \<in> set (nbr_list I). addr_ok (he_src E m) \<and> ip_afi (he_src E m) \<in> {AF_UNSPEC, family}"
    and n: "4 + 17 * length (nbr_list I) \<le> n"
  shows "encodes s (sequence_wire V (busy_addresses E I q epoch)) (eigrp_sequence_encode A E I s q epoch)"
proof -
  let ?as = "busy_addresses E I q epoch"
  let ?s1 = "snd (eigrp_stream_putw A s EIGRP_TLV_SEQ)" and ?w = "addresses_wire V ?as"
  have s1: "wrote s (htons EIGRP_TLV_SEQ) ?s1" using roomy_putw [OF r roomy_refl [OF r]] n by simp
  have s2: "wrote s (htons EIGRP_TLV_SEQ @ htons 0) (snd (eigrp_stream_putw A ?s1 0))"
    using roomy_tlv_header [OF r] n by simp
  obtain s3 where s3: "sequence_addresses A E (busy_peer q epoch I) (nbr_list I) 4 False (snd (eigrp_stream_putw A ?s1 0))
      = (4 + length ?w, ?as \<noteq> [], s3)" "wrote s ((htons EIGRP_TLV_SEQ @ htons 0) @ ?w) s3"
    using sequence_addresses_wrote [OF r E s2 a, of "busy_peer q epoch I" 4 False] n by (auto simp: busy_addresses_def)
  have e1: "st_endp ?s1 = st_endp s + 2" using s1 by (simp add: wrote_def)
  have e3: "st_endp s3 = st_endp s + 4 + length ?w" "stream_ok s3" "st_getp s3 = st_getp s"
    "written s3 = written s @ htons EIGRP_TLV_SEQ @ htons 0 @ ?w" using s3(2) by (simp_all add: wrote_def)
  have lw: "length (written s) = st_endp s" using r by (simp add: roomy_def length_written)
  show ?thesis
  proof (cases "?as = []")
    case True
    then have "eigrp_sequence_encode A E I s q epoch = (0, s3\<lparr>st_endp := st_endp s\<rparr>)"
      using s3(1) set_endp_back [OF e3(2), of "st_endp s" A] e3 g by (simp add: eigrp_sequence_encode_def Let_def hello_consts)
    moreover have "written (s3\<lparr>st_endp := st_endp s\<rparr>) = take (st_endp s) (written s3)"
      using e3(1) by (simp add: written_def)
    ultimately show ?thesis
      using True e3 lw g by (auto simp: encodes_def sequence_wire_def wrote_def stream_ok_def)
  next
    case False
    define len where "len = (of_nat (4 + length ?w) :: u16)"
    define s4 where "s4 = eigrp_stream_set_endp A (snd (eigrp_stream_put A (eigrp_stream_set_endp A s3 (st_endp s + 2)) (htons len))) (st_endp s3)"
    have s4: "written s4 = patch (st_endp s + 2) (htons len) (written s3)" "stream_ok s4" "st_getp s4 = st_getp s3" "st_endp s4 = st_endp s3"
      unfolding s4_def using stream_patch [OF e3(2), of "st_endp s + 2" "htons len" A] e3(1,3) g by auto
    have "eigrp_sequence_encode A E I s q epoch = (4 + length ?w, s4)"
      using s3(1) False e1 by (simp add: eigrp_sequence_encode_def Let_def hello_consts s4_def len_def eigrp_stream_putw_def)
    moreover have "written s4 = written s @ htons EIGRP_TLV_SEQ @ htons len @ ?w"
      using patch_mid [of "written s @ htons EIGRP_TLV_SEQ" "st_endp s + 2" "htons 0" "htons len" ?w] lw by (simp add: s4(1) e3(4))
    ultimately show ?thesis
      using s4(2-4) e3 False by (simp add: encodes_def sequence_wire_def wrote_def tlv_def len_def)
  qed
qed

lemma termination_encode_wrote:
  assumes r: "roomy A s 21" and E: "he_vectors E = V" and a: "ip_afi a \<in> {AF_UNSPEC, family}" "addr_ok a"
    and f: "family = addr_family.AF_INET \<longrightarrow> packet_address_bytes V = 4" "family = addr_family.AF_INET6 \<longrightarrow> packet_address_bytes V = 16"
  shows "encodes s (tlv EIGRP_TLV_PEER_TERMINATION (address_wire V a)) (eigrp_peer_termination_encode A E s (Some a))"
proof -
  let ?len = "of_nat (5 + packet_address_bytes V) :: u16"
  let ?s2 = "snd (eigrp_stream_putw A (snd (eigrp_stream_putw A s EIGRP_TLV_PEER_TERMINATION)) ?len)"
  have w: "wrote s (htons EIGRP_TLV_PEER_TERMINATION @ htons ?len) ?s2" using roomy_tlv_header [OF r] by simp
  define e where "e = packet_address_encode V A (snd (eigrp_stream_putc A ?s2 (of_nat (packet_address_bytes V)))) a"
  have e: "fst e = packet_address_bytes V" "wrote s ((htons EIGRP_TLV_PEER_TERMINATION @ htons ?len) @ address_wire V a) (snd e)"
    unfolding e_def using address_wire_wrote [OF r w _ a(1)] by auto
  have "eigrp_peer_termination_encode A E s (Some a) = (5 + packet_address_bytes V, snd e)"
    using a f e(1) address_bytes E by (auto simp: eigrp_peer_termination_encode_def Let_def hello_consts e_def split: prod.splits)
  with e(2) a(2) address_bytes show ?thesis by (simp add: encodes_def tlv_def address_wire_def addr_ok_def)
qed

end

subsection \<open>The whole Hello\<close>

lemma packet_create_ok:
  assumes "eigrp_packet_create calloc A n = Some s"
  shows "stream_ok s \<and> n \<le> st_size s \<and> st_endp s = 0 \<and> st_getp s = 0"
proof -
  let ?e = "\<lparr>st_data = [], st_size = 0, st_getp = 0, st_endp = 0\<rparr> :: eigrp_stream"
  have c: "eigrp_stream_create A n = Some s" using assms by (simp add: eigrp_packet_create_def split: if_splits)
  show ?thesis
  proof (cases "n = 0")
    case True
    with c show ?thesis by (auto simp: eigrp_stream_create_def stream_ok_def)
  next
    case False
    with c have e: "eigrp_stream_ensure A ?e n = Some s" by (simp add: eigrp_stream_create_def Let_def)
    have "stream_ok ?e" by (simp add: stream_ok_def)
    with e show ?thesis using ensure_ok [OF e] ensure_frame [OF e] by simp
  qed
qed

lemma packet_create_total: "\<lbrakk>\<forall>m. A m \<noteq> None; n \<le> SIZE_MAX div 2\<rbrakk> \<Longrightarrow> \<exists>s. eigrp_packet_create True A n = Some s"
  using ensure_succeeds [of A n "\<lparr>st_data = [], st_size = 0, st_getp = 0, st_endp = 0\<rparr>"]
  by (auto simp: eigrp_packet_create_def eigrp_stream_create_def Let_def)

lemma length_packet_header [simp]: "length (packet_header ty vrid AS flags q a) = 20"
  by (simp add: packet_header_def)

lemma header_init_wrote:
  assumes "stream_ok s" and "20 \<le> st_size s"
  shows "\<exists>s'. eigrp_packet_header_init A ty E s flags q a = Some s' \<and> stream_ok s' \<and> st_endp s' = 20 \<and> st_getp s' = 0
     \<and> written s' = packet_header ty (he_vrid E) (he_AS E) flags q a"
proof -
  let ?h = "packet_header ty (he_vrid E) (he_AS E) flags q a"
  let ?s = "s\<lparr>st_data := patch 0 ?h (st_data s), st_getp := 0, st_endp := 20\<rparr>"
  note o = stream_okD [OF assms(1)]
  have "size_add 0 20 = 20" by (simp add: SIZE_MAX_def)
  then have "eigrp_packet_header_init A ty E s flags q a = Some ?s"
    using assms(2) by (simp add: eigrp_packet_header_init_def Let_def eigrp_stream_clear_def store_def auth_consts eigrp_stream_forward_endp_def)
  moreover have "stream_ok ?s \<and> written ?s = ?h"
    using o assms(2) by (simp add: stream_ok_def written_def patch_def)
  ultimately show ?thesis by simp
qed

text \<open>What the encoder relies on: six K-values, an MTU with room for the header, addresses of the family, no more neighbours than admitted.\<close>

definition hello_ready :: "addr_family \<Rightarrow> hello_env \<Rightarrow> rtp_intf \<Rightarrow> eigrp_addr option \<Rightarrow> bool" where
  "hello_ready family E I nbr_addr \<longleftrightarrow>
     length (k_values (he_instance E)) = 6 \<and> 40 \<le> curr_mtu I \<and> length (nbr_list I) \<le> 2048
     \<and> (\<forall>a \<in> he_src E ` set (nbr_list I) \<union> set_option nbr_addr. addr_ok a \<and> ip_afi a \<in> {AF_UNSPEC, family})"

lemma encodes_step:
  assumes "encodes s w r" and "roomy A s n" and "length w + k \<le> n"
  shows "roomy A (snd r) k" and "wrote t v s \<Longrightarrow> wrote t (v @ w) (snd r)" and "fst r = length w"
  using assms roomy_wrote [of A s n w "snd r" k] wrote_trans [of t v s w "snd r"] by (auto simp: encodes_def)

lemma encodes_nothing: "roomy A s n \<Longrightarrow> encodes s [] (0, s)"
  by (simp add: encodes_def roomy_refl)

lemma encodes_append:
  assumes "encodes s v r" "encodes (snd r) w q"
  shows "encodes s (v @ w) (fst r + fst q, snd q)"
  using assms wrote_trans by (auto simp: encodes_def)

lemma encodes_pair: "\<lbrakk>encodes s v (m, t); encodes t w (n, u)\<rbrakk> \<Longrightarrow> encodes s (v @ w) (m + n, u)"
  using encodes_append [of s v "(m, t)" w "(n, u)"] by simp

context af_codec
begin

lemma length_sequence_wire:
  assumes "hello_ready family E I nbr_addr"
  shows "length (sequence_wire V (busy_addresses E I q epoch)) \<le> 34820"
proof -
  have "length (busy_addresses E I q epoch) \<le> 2048" and "\<forall>b \<in> set (busy_addresses E I q epoch). addr_ok b"
    using assms by (auto simp: hello_ready_def busy_addresses_def intro: le_trans [OF length_filter_le])
  then show ?thesis
    using length_addresses_wire [of "busy_addresses E I q epoch"] address_bytes(2)
      mult_le_mono [of "packet_address_bytes V + 1" 17 "length (busy_addresses E I q epoch)" 2048]
    by (auto simp: sequence_wire_def)
qed

lemma hello_sequence_wrote:
  assumes r: "roomy A s 40000" and E: "he_vectors E = V" and y: "hello_ready family E I nbr_addr"
  shows "encodes s (if flags AND EIGRP_HELLO_ADD_SEQUENCE \<noteq> 0
        then sequence_wire V (busy_addresses E I q epoch) @ tlv EIGRP_TLV_NEXT_MCAST_SEQ (htonl q) else [])
      (hello_sequence_part A E I flags q epoch s)"
proof -
  have a: "\<forall>m \<in> set (nbr_list I). addr_ok (he_src E m) \<and> ip_afi (he_src E m) \<in> {AF_UNSPEC, family}"
    and l: "length (nbr_list I) \<le> 2048" using y by (auto simp: hello_ready_def)
  have g: "st_getp s \<le> st_endp s" using r by (simp add: roomy_def stream_ok_def)
  let ?m = "eigrp_sequence_encode A E I s q epoch"
  have m: "encodes s (sequence_wire V (busy_addresses E I q epoch)) ?m"
    using sequence_encode_wrote [OF r E g a] l by simp
  then have "roomy A (snd ?m) 8" using encodes_step(1) [OF m r, of 8] length_sequence_wire [OF y, of q epoch] by simp
  from encodes_append [OF m appended_next_sequence [OF this, of q]] show ?thesis
    using roomy_refl [OF r] by (auto simp: encodes_def hello_sequence_part_def split: prod.splits)
qed

lemma hello_termination_wrote:
  assumes r: "roomy A s 21" and E: "he_vectors E = V" and y: "hello_ready family E I nbr_addr"
    and f: "family = addr_family.AF_INET \<longrightarrow> packet_address_bytes V = 4" "family = addr_family.AF_INET6 \<longrightarrow> packet_address_bytes V = 16"
  shows "encodes s (if flags AND EIGRP_HELLO_GRACEFUL_SHUTDOWN_NBR \<noteq> 0
        then (case nbr_addr of None \<Rightarrow> [] | Some a \<Rightarrow> tlv EIGRP_TLV_PEER_TERMINATION (address_wire V a)) else [])
      (hello_termination_part A E flags nbr_addr s)"
  using encodes_nothing [OF r] termination_encode_wrote [OF r E _ _ f] y
  by (cases nbr_addr) (auto simp: hello_ready_def hello_termination_part_def eigrp_peer_termination_encode_def)

lemma hello_encode_wire:
  assumes A: "\<forall>m. A m \<noteq> None" and E: "he_vectors E = V" and y: "hello_ready family E I nbr_addr"
    and f: "family = addr_family.AF_INET \<longrightarrow> packet_address_bytes V = 4" "family = addr_family.AF_INET6 \<longrightarrow> packet_address_bytes V = 16"
  shows "\<exists>s. eigrp_hello_encode True A True E I (Some to) ack flags nbr_addr q epoch
      = Some (Some (of_nat (20 + length (hello_payload E I flags nbr_addr q epoch)), s))
    \<and> stream_ok s \<and> written s = packet_header 5 (he_vrid E) (he_AS E) 0 0 ack @ hello_payload E I flags nbr_addr q epoch"
proof -
  let ?L = "eigrp_packet_payload_limit (curr_mtu I)"
  have L: "20 \<le> ?L" "?L \<le> SIZE_MAX div 2"
    using y unsigned_less [of "curr_mtu I", where ?'a = nat]
    by (auto simp: hello_ready_def eigrp_packet_payload_limit_def word_le_nat_alt SIZE_MAX_def)
  obtain s0 where s0: "eigrp_packet_create True A ?L = Some s0" using packet_create_total [OF A L(2)] by blast
  obtain s1 where s1: "eigrp_packet_header_init A EIGRP_OPC_HELLO E s0 0 0 ack = Some s1" "stream_ok s1" "st_endp s1 = 20"
      "written s1 = packet_header 5 (he_vrid E) (he_AS E) 0 0 ack"
    using header_init_wrote [of s0 A EIGRP_OPC_HELLO E 0 0 ack] packet_create_ok [OF s0] L(1) by (auto simp: EIGRP_OPC_HELLO_def)
  have r1: "roomy A s1 50000" using A s1(2,3) by (simp add: roomy_def SIZE_MAX_def)
  let ?fl = "if flags AND EIGRP_HELLO_GRACEFUL_SHUTDOWN \<noteq> 0 then EIGRP_HELLO_GRACEFUL_SHUTDOWN else EIGRP_HELLO_NORMAL"
  have k: "hello_k E ?fl = hello_k E flags" by (simp add: hello_k_def hello_flags)
  obtain n2 s2 where e2: "packet_auth_encode A True E s1 = (n2, s2)" "encodes s1 (auth_wire E) (n2, s2)"
    using appended_auth [OF roomy_mono [OF r1, of 56], of True E] by (cases "packet_auth_encode A True E s1") auto
  have r2: "roomy A s2 49000" using encodes_step(1) [OF e2(2) r1, of 49000] length_auth_wire [of E] by simp
  obtain n3 s3 where e3: "eigrp_hello_parameter_encode A E s2 ?fl = (n3, s3)"
      "encodes s2 (parameter_wire (hello_k E flags) (he_wait E)) (n3, s3)"
    using appended_parameter [OF roomy_mono [OF r2, of 12], of E ?fl] y k
    by (cases "eigrp_hello_parameter_encode A E s2 ?fl") (auto simp: hello_ready_def)
  have "length (parameter_wire (hello_k E flags) (he_wait E)) = 12" using y by (simp add: parameter_wire_def hello_k_def hello_ready_def)
  then have r3: "roomy A s3 48000" using encodes_step(1) [OF e3(2) r2, of 48000] by simp
  obtain n4 s4 where e4: "eigrp_sw_version_encode A E s3 = (n4, s4)" "encodes s3 (version_wire E) (n4, s4)"
    using appended_version [OF roomy_mono [OF r3, of 8], of E] by (cases "eigrp_sw_version_encode A E s3") auto
  have r4: "roomy A s4 40000" using encodes_step(1) [OF e4(2) r3, of 40000] by (simp add: version_wire_def)
  obtain n5 s5 where e5: "hello_sequence_part A E I flags q epoch s4 = (n5, s5)"
    by fastforce
  note w5 = hello_sequence_wrote [OF r4 E y, of flags q epoch, unfolded e5]
  have r5: "roomy A s5 21" using encodes_step(1) [OF w5 r4, of 21] length_sequence_wire [OF y, of q epoch] by simp
  obtain n6 s6 where e6: "hello_termination_part A E flags nbr_addr s5 = (n6, s6)"
    by fastforce
  note w6 = hello_termination_wrote [OF r5 E y f, of flags, unfolded e6]
  note w = encodes_pair [OF e2(2) encodes_pair [OF e3(2) encodes_pair [OF e4(2) encodes_pair [OF w5 w6]]]]
  have "eigrp_hello_encode True A True E I (Some to) ack flags nbr_addr q epoch = Some (Some (of_nat (20 + n2 + n3 + n4 + n5 + n6), s6))"
    by (simp only: eigrp_hello_encode_def s0 option.case s1(1) bind.bind_lunit e2(1) e3(1) e4(1) e5 e6 Let_def prod.case) (simp add: auth_consts)
  moreover have "encodes s1 (hello_payload E I flags nbr_addr q epoch) (n2 + (n3 + (n4 + (n5 + n6))), s6)"
    using w by (simp only: hello_payload_def E)
  ultimately show ?thesis by (simp only: encodes_def wrote_def fst_conv snd_conv s1(4) add.assoc) blast
qed

end

subsection \<open>The check is safe and accepts every encoded Hello\<close>

lemma peek_simps:
  "off + n \<le> length bs \<Longrightarrow> peek off n bs = Some (field off n bs)"
  "off + 2 \<le> length bs \<Longrightarrow> peek_u16 off bs = Some (ntohs (field off 2 bs))"
  "off < length bs \<Longrightarrow> peek_u8 off bs = Some (unat (bs ! off))"
  by (simp_all add: peek_def peek_u16_def peek_u8_def field_def hd_drop_conv_nth)

lemma address_list_valid_total: "len \<le> length bs \<Longrightarrow> address_list_valid expected len bs off \<noteq> None"
proof (induction expected len bs off rule: address_list_valid.induct)
  case (1 expected len bs off)
  then show ?case by (subst address_list_valid.simps) (auto simp: peek_simps)
qed

lemma hello_tlv_valid_total: "4 \<le> len \<Longrightarrow> len \<le> length bs \<Longrightarrow> hello_tlv_valid expected ty len bs \<noteq> None"
  using address_list_valid_total [of len bs expected 4] by (auto simp: hello_tlv_valid_def hello_consts peek_simps)

lemma hello_tlvs_walk_total: "hello_tlvs_walk expected bs seen \<noteq> None"
proof (induction expected bs seen rule: hello_tlvs_walk.induct)
  case (1 expected bs seen)
  show ?case
  proof (cases "bs \<noteq> [] \<and> 4 \<le> length bs \<and> 4 \<le> unat (ntohs (field 2 2 bs)) \<and> unat (ntohs (field 2 2 bs)) \<le> length bs")
    case True
    then obtain ok where "hello_tlv_valid expected (ntohs (field 0 2 bs)) (unat (ntohs (field 2 2 bs))) bs = Some ok"
      using hello_tlv_valid_total by fastforce
    with True "1.IH" [of "ntohs (field 0 2 bs)" "unat (ntohs (field 2 2 bs))" ok] show ?thesis
      by (subst hello_tlvs_walk.simps) (auto simp: peek_simps hello_consts)
  next
    case False
    then show ?thesis by (subst hello_tlvs_walk.simps) (auto simp: peek_simps hello_consts not_le)
  qed
qed

text \<open>Reading the fields of a TLV that lies in front.\<close>

lemma unat_tlv_length: "length v < 65532 \<Longrightarrow> unat (of_nat (4 + length v) :: u16) = 4 + length v"
  by (simp only: unsigned_of_nat take_bit_eq_mod) simp

lemma tlv_front:
  "field 0 2 (tlv ty v @ r) = htons ty" "field 2 2 (tlv ty v @ r) = htons (of_nat (4 + length v))"
  "i + n \<le> length v \<Longrightarrow> field (4 + i) n (tlv ty v @ r) = field i n v"
  "drop (4 + length v) (tlv ty v @ r) = r"
  by (simp_all add: tlv_def field_def)

lemma hello_tlvs_walk_tlv:
  assumes "length v < 65532"
  shows "hello_tlvs_walk expected (tlv ty v @ r) seen =
     do { ok \<leftarrow> hello_tlv_valid expected ty (4 + length v) (tlv ty v @ r);
          if \<not> ok then Some False else hello_tlvs_walk expected r (seen \<or> ty = EIGRP_TLV_PARAMETER) }"
proof -
  have ne: "(tlv ty v @ r = []) = False" by (simp add: tlv_def)
  have l: "length (tlv ty v @ r) = 4 + length v + length r" by simp
  have "peek_u16 0 (tlv ty v @ r) = Some ty" "map_option unat (peek_u16 2 (tlv ty v @ r)) = Some (4 + length v)"
    using unat_tlv_length [OF assms] tlv_front(1,2) [of ty v r] by (simp_all add: peek_simps)
  then show ?thesis
    by (subst hello_tlvs_walk.simps) (simp only: ne l bind.bind_lunit tlv_front(4) hello_consts, simp)
qed

lemma auth_wire_tlv: "auth_wire E = [] \<or> (\<exists>v. auth_wire E = tlv EIGRP_TLV_AUTH v \<and> length v \<le> 52)"
proof -
  have "auth_tlv_template 40 EIGRP_AUTH_TYPE_MD5 16 k 16
      = tlv EIGRP_TLV_AUTH (htons EIGRP_AUTH_TYPE_MD5 @ htons 16 @ htonl k @ replicate 4 0 @ replicate 8 0 @ replicate 16 0)"
    "auth_tlv_template 56 EIGRP_AUTH_TYPE_SHA256 32 0 32
      = tlv EIGRP_TLV_AUTH (htons EIGRP_AUTH_TYPE_SHA256 @ htons 32 @ htonl 0 @ replicate 4 0 @ replicate 8 0 @ replicate 32 0)" for k
    by (simp_all only: auth_tlv_template_def tlv_def append.assoc) simp_all
  moreover have "auth_wire E = [] \<or> (\<exists>k. auth_wire E = auth_tlv_template 40 EIGRP_AUTH_TYPE_MD5 16 k 16)
      \<or> auth_wire E = auth_tlv_template 56 EIGRP_AUTH_TYPE_SHA256 32 0 32"
    by (auto simp: auth_wire_def Let_def split: option.splits)
  ultimately show ?thesis by fastforce
qed

lemma hello_walk_simple:
  assumes "length v < 65532"
  shows "ty \<notin> {EIGRP_TLV_PARAMETER, EIGRP_TLV_SW_VERSION, EIGRP_TLV_NEXT_MCAST_SEQ, EIGRP_TLV_SEQ, EIGRP_TLV_PEER_TERMINATION}
      \<Longrightarrow> hello_tlvs_walk expected (tlv ty v @ r) seen = hello_tlvs_walk expected r seen"
    and "\<lbrakk>ty = EIGRP_TLV_PARAMETER; v = k @ htons hold; length k = 6; hold \<noteq> 0\<rbrakk>
      \<Longrightarrow> hello_tlvs_walk expected (tlv ty v @ r) seen = hello_tlvs_walk expected r True"
    and "\<lbrakk>ty = EIGRP_TLV_SW_VERSION; 4 \<le> length v\<rbrakk> \<Longrightarrow> hello_tlvs_walk expected (tlv ty v @ r) seen = hello_tlvs_walk expected r seen"
    and "\<lbrakk>ty = EIGRP_TLV_NEXT_MCAST_SEQ; length v = 4\<rbrakk>
      \<Longrightarrow> hello_tlvs_walk expected (tlv ty v @ r) seen = hello_tlvs_walk expected r seen"
  using tlv_front(3) [of 6 2 v ty r] field_mid [of k 6 "htons hold" 2 "[]"]
  unfolding hello_tlvs_walk_tlv [OF assms] by (simp_all add: hello_tlv_valid_def hello_consts peek_simps)

context af_codec
begin

lemma address_list_wire:
  assumes "\<forall>a \<in> set as. addr_ok a" and "length pre = off" and "bs = pre @ addresses_wire V as @ r"
    and "len = off + length (addresses_wire V as)"
  shows "address_list_valid (packet_address_bytes V) len bs off = Some True"
  using assms
proof (induction as arbitrary: pre off)
  case Nil
  then show ?case by (subst address_list_valid.simps) (simp add: addresses_wire_def)
next
  case (Cons a as)
  let ?n = "packet_address_bytes V"
  have l: "length (address_wire V a) = ?n + 1" and n: "unat (of_nat ?n :: u8) = ?n"
    using Cons.prems(1) address_bytes by (simp_all add: address_wire_def addr_ok_def unsigned_of_nat take_bit_eq_mod)
  have "bs ! off = of_nat ?n" using Cons.prems(2,3) by (simp add: addresses_wire_def address_wire_def nth_append)
  moreover have "off < length bs" "off < len" "off + 1 + ?n \<le> len"
    using Cons.prems(2-4) l by (auto simp: addresses_wire_def)
  moreover have "address_list_valid ?n len bs (off + 1 + ?n) = Some True"
    using Cons.prems l by (intro Cons.IH [of "pre @ address_wire V a"]) (auto simp: addresses_wire_def)
  ultimately show ?case using n by (subst address_list_valid.simps) (simp add: peek_simps not_less)
qed

lemma hello_walk_addresses:
  assumes "\<forall>a \<in> set as. addr_ok a" and "length (addresses_wire V as) < 65532" and "as \<noteq> []"
    and "ty = EIGRP_TLV_SEQ \<or> ty = EIGRP_TLV_PEER_TERMINATION"
  shows "hello_tlvs_walk (packet_address_bytes V) (tlv ty (addresses_wire V as) @ r) seen = hello_tlvs_walk (packet_address_bytes V) r seen"
proof -
  have "address_list_valid (packet_address_bytes V) (4 + length (addresses_wire V as)) (tlv ty (addresses_wire V as) @ r) 4 = Some True"
    using assms(1) by (intro address_list_wire [of as "htons ty @ htons (of_nat (4 + length (addresses_wire V as)))" 4 _ r]) (simp_all add: tlv_def)
  moreover have "packet_address_bytes V + 1 \<le> length (addresses_wire V as)"
    using length_addresses_wire [OF assms(1)] assms(3) by (cases as) auto
  ultimately show ?thesis
    using assms(4) by (auto simp: hello_tlvs_walk_tlv [OF assms(2)] hello_tlv_valid_def hello_consts)
qed

lemma hello_walk_auth: "hello_tlvs_walk expected (auth_wire E @ r) seen = hello_tlvs_walk expected r seen"
  using auth_wire_tlv [of E] hello_walk_simple(1) [of _ EIGRP_TLV_AUTH expected r seen]
  by (auto simp: hello_consts EIGRP_TLV_AUTH_def)

lemma hello_walk_front:
  assumes "length (k_values (he_instance E)) = 6" and "he_wait E \<noteq> 0"
  shows "hello_tlvs_walk expected (auth_wire E @ parameter_wire (hello_k E flags) (he_wait E) @ version_wire E @ r) seen
     = hello_tlvs_walk expected r True"
  using assms by (simp add: hello_walk_auth parameter_wire_def version_wire_def hello_k_def hello_walk_simple(2,3))

lemma hello_walk_next: "hello_tlvs_walk expected (tlv EIGRP_TLV_NEXT_MCAST_SEQ (htonl q) @ r) seen = hello_tlvs_walk expected r seen"
  by (rule hello_walk_simple(4)) simp_all

lemma hello_payload_valid:
  assumes E: "he_vectors E = V" and y: "hello_ready family E I nbr_addr" and h: "he_wait E \<noteq> 0"
  shows "hello_tlvs_walk (packet_address_bytes V) (hello_payload E I flags nbr_addr q epoch) False = Some True"
proof -
  let ?n = "packet_address_bytes V" and ?as = "busy_addresses E I q epoch"
  let ?t = "if flags AND EIGRP_HELLO_GRACEFUL_SHUTDOWN_NBR \<noteq> 0
    then (case nbr_addr of None \<Rightarrow> [] | Some a \<Rightarrow> tlv EIGRP_TLV_PEER_TERMINATION (address_wire V a)) else []"
  have e: "hello_tlvs_walk ?n [] True = Some True" by (subst hello_tlvs_walk.simps) simp
  have t: "hello_tlvs_walk ?n ?t True = Some True"
  proof (cases "flags AND EIGRP_HELLO_GRACEFUL_SHUTDOWN_NBR \<noteq> 0 \<and> nbr_addr \<noteq> None")
    case True
    then obtain a where a: "nbr_addr = Some a" "addr_ok a" using y by (auto simp: hello_ready_def)
    have w: "addresses_wire V [a] = address_wire V a" by (simp add: addresses_wire_def)
    have "length (address_wire V a) < 65532" using a(2) address_bytes by (simp add: address_wire_def addr_ok_def)
    then show ?thesis using True a e hello_walk_addresses [of "[a]" EIGRP_TLV_PEER_TERMINATION "[]" True] by (simp add: w)
  qed (auto simp: e)
  have as: "\<forall>a \<in> set ?as. addr_ok a" using y by (auto simp: hello_ready_def busy_addresses_def)
  have "length (addresses_wire V ?as) < 65532" if "?as \<noteq> []"
    using length_sequence_wire [OF y, of q epoch] that by (simp add: sequence_wire_def)
  then have s: "hello_tlvs_walk ?n (sequence_wire V ?as @ r) True = hello_tlvs_walk ?n r True" for r
    using as hello_walk_addresses [of ?as EIGRP_TLV_SEQ r True] by (auto simp: sequence_wire_def)
  have k: "length (k_values (he_instance E)) = 6" using y by (simp add: hello_ready_def)
  show ?thesis
    unfolding hello_payload_def hello_walk_front [OF k h] E
    using t by (cases "flags AND EIGRP_HELLO_ADD_SEQUENCE = 0") (simp_all add: s hello_walk_next split del: if_split)
qed

lemma length_hello_payload:
  assumes E: "he_vectors E = V" and y: "hello_ready family E I nbr_addr"
  shows "length (hello_payload E I flags nbr_addr q epoch) \<le> 34940"
    and "length (hello_payload E I EIGRP_HELLO_ADD_SEQUENCE nbr_addr q epoch)
      \<le> 32 + length (auth_wire E) + (packet_address_bytes V + 1) * length (filter (busy_peer q epoch I) (nbr_list I))"
proof -
  have k: "length (k_values (he_instance E)) = 6" and a: "\<And>a. nbr_addr = Some a \<Longrightarrow> length (address_wire V a) \<le> 17"
    using y address_bytes by (auto simp: hello_ready_def address_wire_def)
  have as: "\<forall>a \<in> set (busy_addresses E I q epoch). addr_ok a" using y by (auto simp: hello_ready_def busy_addresses_def)
  show "length (hello_payload E I flags nbr_addr q epoch) \<le> 34940"
    using length_sequence_wire [OF y, of q epoch] length_auth_wire [of E] a k
    by (cases nbr_addr) (auto simp: hello_payload_def parameter_wire_def version_wire_def hello_k_def E)
  show "length (hello_payload E I EIGRP_HELLO_ADD_SEQUENCE nbr_addr q epoch)
      \<le> 32 + length (auth_wire E) + (packet_address_bytes V + 1) * length (filter (busy_peer q epoch I) (nbr_list I))"
    using length_addresses_wire [OF as] k
    by (simp add: hello_payload_def parameter_wire_def version_wire_def hello_k_def E sequence_wire_def hello_flags busy_addresses_def)
qed

end

text \<open>The size \<^verbatim>\<open>eigrp_hello_sequence_fits\<close> reserves for the authentication TLV.\<close>

definition hello_auth_size :: "hello_env \<Rightarrow> nat" where
  "hello_auth_size E =
     (if eigrp_auth_material_available (he_auth E)
      then (if auth_type (he_auth E) = EIGRP_AUTH_TYPE_MD5 then EIGRP_AUTH_MD5_TLV_SIZE
            else if auth_type (he_auth E) = EIGRP_AUTH_TYPE_SHA256 then EIGRP_AUTH_SHA256_TLV_SIZE else 0)
      else 0)"

lemma length_auth_wire_size: "length (auth_wire E) \<le> hello_auth_size E"
  by (auto simp: auth_wire_def hello_auth_size_def auth_tlv_template_def auth_consts Let_def split: option.splits)

context af_codec
begin

lemma hello_valid_family:
  assumes f: "family = addr_family.AF_INET \<longrightarrow> packet_address_bytes V = 4" "family = addr_family.AF_INET6 \<longrightarrow> packet_address_bytes V = 16"
    and E: "he_vectors E = V" and y: "hello_ready family E I nbr_addr" and A: "\<forall>m. A m \<noteq> None" and h: "he_wait E \<noteq> 0"
  shows "\<exists>len s. eigrp_hello_encode True A True E I (Some to) ack flags nbr_addr q epoch = Some (Some (len, s))
     \<and> stream_ok s \<and> unat len = st_endp s \<and> eigrp_hello_tlvs_validate V (drop 20 (written s)) = Some True
     \<and> (flags = EIGRP_HELLO_ADD_SEQUENCE \<and> intf_address_bytes I = packet_address_bytes V \<and> auth_tlv_size I = hello_auth_size E
        \<and> eigrp_hello_sequence_fits q epoch I \<longrightarrow> unat len \<le> eigrp_packet_payload_limit (curr_mtu I))"
proof -
  obtain s where s: "eigrp_hello_encode True A True E I (Some to) ack flags nbr_addr q epoch
      = Some (Some (of_nat (20 + length (hello_payload E I flags nbr_addr q epoch)), s))" "stream_ok s"
      "written s = packet_header 5 (he_vrid E) (he_AS E) 0 0 ack @ hello_payload E I flags nbr_addr q epoch"
    using hello_encode_wire [OF A E y f] by blast
  let ?n = "length (hello_payload E I flags nbr_addr q epoch)"
  have u: "unat (of_nat (20 + ?n) :: u16) = 20 + ?n"
    using length_hello_payload(1) [OF E y, of flags q epoch] by (simp only: unsigned_of_nat take_bit_eq_mod) simp
  have e: "st_endp s = 20 + ?n" using s(3) length_written [OF s(2)] by simp
  have "eigrp_hello_tlvs_validate V (drop 20 (written s)) = Some True"
    using hello_payload_valid [OF E y h] by (simp add: eigrp_hello_tlvs_validate_def s(3))
  moreover have "20 + ?n \<le> eigrp_packet_payload_limit (curr_mtu I)"
    if "flags = EIGRP_HELLO_ADD_SEQUENCE" "intf_address_bytes I = packet_address_bytes V" "auth_tlv_size I = hello_auth_size E"
      "eigrp_hello_sequence_fits q epoch I"
    using that length_hello_payload(2) [OF E y, of q epoch] length_auth_wire_size [of E]
    by (simp add: eigrp_hello_sequence_fits_def busy_peer_def [abs_def] Let_def)
  ultimately show ?thesis using s u e by auto
qed

end

lemma families_cases:
  assumes "(V, family) \<in> families"
  obtains "V = eigrp_ipv4_init" "family = addr_family.AF_INET" | "V = eigrp_ipv6_init" "family = addr_family.AF_INET6"
  using assms by (auto simp: families_def)

lemma family_bytes: "packet_address_bytes eigrp_ipv4_init = 4" "packet_address_bytes eigrp_ipv6_init = 16"
  by (simp_all add: eigrp_ipv4_init_def eigrp_ipv6_init_def)

text \<open>
  C15: Every Hello a router builds is a valid Hello for its peers.  For IPv4 and IPv6, with and without authentication, whatever the
  flags: the packet is built without a write out of its buffer, its length is the number of bytes written, and the check that every
  receiver does first accepts its TLVs, if the hold time is not 0.  A SEQUENCE Hello for which \<^verbatim>\<open>eigrp_hello_sequence_fits\<close>
  found room does not exceed the payload of the interface.
\<close>

theorem hello_encode_valid:
  assumes "(V, family) \<in> families" and "he_vectors E = V" and "hello_ready family E I nbr_addr" and "\<forall>m. A m \<noteq> None" and "he_wait E \<noteq> 0"
  shows "\<exists>len s. eigrp_hello_encode True A True E I (Some to) ack flags nbr_addr q epoch = Some (Some (len, s))
     \<and> stream_ok s \<and> unat len = st_endp s \<and> eigrp_hello_tlvs_validate V (drop 20 (written s)) = Some True
     \<and> (flags = EIGRP_HELLO_ADD_SEQUENCE \<and> intf_address_bytes I = packet_address_bytes V \<and> auth_tlv_size I = hello_auth_size E
        \<and> eigrp_hello_sequence_fits q epoch I \<longrightarrow> unat len \<le> eigrp_packet_payload_limit (curr_mtu I))"
  using assms(1)
proof (cases rule: families_cases)
  case 1
  then show ?thesis using ipv4.hello_valid_family [OF _ _ _ _ assms(4,5)] assms(2,3) by (simp add: family_bytes)
next
  case 2
  then show ?thesis using ipv6.hello_valid_family [OF _ _ _ _ assms(4,5)] assms(2,3) by (simp add: family_bytes)
qed

definition sample_hello_env :: hello_env where
  "sample_hello_env = \<lparr>he_vectors = eigrp_ipv4_init, he_auth = sample_auth_intf, he_host = sample_auth_host,
     he_instance = \<lparr>k_values = [1, 0, 1, 0, 0, 0], variance = 1, traffic_share_balanced = True, max_paths = 4, max_hops = 100, metric_version = 2\<rparr>,
     he_vrid = 0, he_AS = 1, he_wait = 15, host_major = 10, host_minor = 1, he_src = (\<lambda>_. zero_addr)\<rparr>"

lemma sample_hello_ready: "hello_ready addr_family.AF_INET sample_hello_env rtp_blank None"
  by (simp add: hello_ready_def sample_hello_env_def rtp_blank_def)

theorem hello_encode_valid_witness:
  "\<exists>len s. eigrp_hello_encode True zero_alloc True sample_hello_env rtp_blank (Some zero_addr) 0 EIGRP_HELLO_NORMAL None 0 0 = Some (Some (len, s))
     \<and> stream_ok s \<and> unat len = st_endp s \<and> eigrp_hello_tlvs_validate eigrp_ipv4_init (drop 20 (written s)) = Some True"
proof -
  have "he_vectors sample_hello_env = eigrp_ipv4_init" "he_wait sample_hello_env \<noteq> 0" by (simp_all add: sample_hello_env_def)
  moreover have "(eigrp_ipv4_init, addr_family.AF_INET) \<in> families" by (simp add: families_def)
  ultimately show ?thesis
    using hello_encode_valid [OF _ _ sample_hello_ready, of eigrp_ipv4_init zero_alloc zero_addr 0 EIGRP_HELLO_NORMAL 0 0] by force
qed

end
