(* ===== verification/Eigrp_Adjacency.thy ===== *)
theory Eigrp_Adjacency
  imports Eigrp_Hello
begin

text \<open>
  Discovery and maintenance of adjacencies: the Hello receiver and the senders of \<^verbatim>\<open>eigrp_hello.c\<close>, and what they use of
  \<^verbatim>\<open>eigrp_neighbor.c\<close> (admission, creation and lookup of neighbours, the choice of the codec, the hold timer, static neighbours) and
  of \<^verbatim>\<open>eigrp_update.c\<close> (the INIT packet).

  The state is the transport's interface with the addresses, releases and generations of its neighbours and the instance's
  counters.  A neighbour is identified by the address of its object; \<open>hx_nbr\<close> is the address \<^verbatim>\<open>calloc\<close> returns for a new one.  What the
  allocations and the clock give during one call is the record \<open>hello_world\<close>.  The authentication sequence \<open>crypt_seqnum\<close> of a
  neighbour, which C keeps in network order, is its value.
\<close>

subsection \<open>State and inputs\<close>

record hello_state =
  hs_intf :: rtp_intf
  hs_src :: "nbr_id \<Rightarrow> eigrp_addr"
  hs_release :: "nbr_id \<Rightarrow> u8 list"
  hs_gen :: "nbr_id \<Rightarrow> u64"
  hs_cleanup :: "nbr_id \<Rightarrow> bool"
  hs_sequence :: u32
  hs_next_generation :: u64
  af_suspended :: bool

record hello_world =
  hx_now :: u64
  hx_nbr :: "nbr_id option"
  hx_queue :: bool
  hx_list :: bool
  hx_packet :: bool
  hx_stream :: allocator
  hx_tlv :: bool
  hx_copy :: bool
  hx_timer :: bool

definition on_intf :: "(rtp_intf \<Rightarrow> rtp_intf) \<Rightarrow> hello_state \<Rightarrow> hello_state" where
  "on_intf f S = S\<lparr>hs_intf := f (hs_intf S)\<rparr>"

text \<open>The environment of the encoder: the neighbours' addresses are those of the state.\<close>

definition hello_env_of :: "hello_env \<Rightarrow> hello_state \<Rightarrow> hello_env" where
  "hello_env_of E S = E\<lparr>he_src := hs_src S\<rparr>"

subsection \<open>Static neighbours\<close>

record eigrp_nbr_config =
  nc_address :: eigrp_address
  nc_interface :: string

record af_neighbors =
  afn_afi :: eigrp_afi
  afn_neighbors :: "eigrp_nbr_config list"

definition eigrp_nbr_address_match :: "eigrp_address \<Rightarrow> eigrp_address \<Rightarrow> bool" where
  "eigrp_nbr_address_match a b \<longleftrightarrow> addr_afi a = addr_afi b
     \<and> (let len = (if addr_afi a = EIGRP_AFI_IPV4 then 4 else 16) in take len (addr_bytes a) = take len (addr_bytes b))"

text \<open>\<open>Inl\<close> is the result code of a command that is refused.\<close>

datatype static_error = STATIC_NOT_FOUND | STATIC_INVALID_ARGUMENT | STATIC_INTERNAL_FAILURE

definition static_is :: "eigrp_address \<Rightarrow> string \<Rightarrow> eigrp_nbr_config \<Rightarrow> bool" where
  "static_is address name c \<longleftrightarrow> eigrp_nbr_address_match (nc_address c) address \<and> nc_interface c = name"

fun static_unlink :: "(eigrp_nbr_config \<Rightarrow> bool) \<Rightarrow> eigrp_nbr_config list \<Rightarrow> eigrp_nbr_config list option" where
  "static_unlink P [] = None"
| "static_unlink P (c # cs) = (if P c then Some cs else map_option ((#) c) (static_unlink P cs))"

definition eigrp_nbr_static_delete :: "eigrp_address option \<Rightarrow> string option \<Rightarrow> af_neighbors option \<Rightarrow> static_error + af_neighbors" where
  "eigrp_nbr_static_delete address name af =
     (case (address, name) of
        (Some a, Some name) \<Rightarrow>
          (case af of
             None \<Rightarrow> Inl STATIC_NOT_FOUND
           | Some af \<Rightarrow> (case static_unlink (static_is a name) (afn_neighbors af) of
                           None \<Rightarrow> Inl STATIC_NOT_FOUND
                         | Some cs \<Rightarrow> Inr (af\<lparr>afn_neighbors := cs\<rparr>)))
      | _ \<Rightarrow> Inl STATIC_INVALID_ARGUMENT)"

text \<open>\<open>af\<close>: the configuration of the instance's address family, if it has one.\<close>

fun static_scan :: "nat \<Rightarrow> u8 list \<Rightarrow> string \<Rightarrow> bool \<Rightarrow> eigrp_nbr_config list \<Rightarrow> bool" where
  "static_scan n src name has_static [] = (\<not> has_static)"
| "static_scan n src name has_static (c # cs) =
     (if nc_interface c \<noteq> name then static_scan n src name has_static cs
      else if take n (addr_bytes (nc_address c)) = take n src then True
      else static_scan n src name True cs)"

definition eigrp_nbr_static_source_allowed :: "af_neighbors option \<Rightarrow> eigrp_af_vectors \<Rightarrow> string \<Rightarrow> eigrp_addr \<Rightarrow> bool" where
  "eigrp_nbr_static_source_allowed af V name src =
     (case af of
        None \<Rightarrow> True
      | Some af \<Rightarrow>
          if afn_afi af = EIGRP_AFI_IPV4 \<and> ip_afi src \<noteq> addr_family.AF_INET
             \<or> afn_afi af = EIGRP_AFI_IPV6 \<and> ip_afi src \<noteq> addr_family.AF_INET6 then False
          else static_scan (packet_address_bytes V) (ip_bytes src) name False (afn_neighbors af))"

subsection \<open>Neighbours\<close>

definition EIGRP_NEIGHBOR_MAX_PER_INTERFACE :: nat where "EIGRP_NEIGHBOR_MAX_PER_INTERFACE = 2048"
definition EIGRP_NEIGHBOR_MAX_PER_INSTANCE :: nat where "EIGRP_NEIGHBOR_MAX_PER_INSTANCE = 8192"

text \<open>The counts are those of the instance's interfaces, in order; \<open>before\<close> and \<open>after\<close> are the other interfaces.\<close>

fun admit_total :: "nat list \<Rightarrow> nat \<Rightarrow> bool" where
  "admit_total [] t = True"
| "admit_total (c # cs) t = (if EIGRP_NEIGHBOR_MAX_PER_INSTANCE - t \<le> c then False else admit_total cs (t + c))"

definition eigrp_nbr_admit_locked :: "nat list \<times> nat list \<Rightarrow> nat \<Rightarrow> bool" where
  "eigrp_nbr_admit_locked others own \<longleftrightarrow>
     \<not> EIGRP_NEIGHBOR_MAX_PER_INTERFACE \<le> own \<and> admit_total (fst others @ own # snd others) 0"

definition eigrp_nbr_lookup :: "eigrp_addr \<Rightarrow> hello_state \<Rightarrow> nbr_id option" where
  "eigrp_nbr_lookup src S = find (\<lambda>n. src = hs_src S n) (nbr_list (hs_intf S))"

definition eigrp_nbr_is_eligible :: "hello_state \<Rightarrow> nbr_id \<Rightarrow> bool" where
  "eigrp_nbr_is_eligible S n \<longleftrightarrow> \<not> adj_limited (nbr (hs_intf S) n) \<and> \<not> hs_cleanup S n \<and> \<not> af_suspended S"

text \<open>The zeroed object with the values of \<^verbatim>\<open>eigrp_nbr_init\<close>.\<close>

definition eigrp_nbr_init :: rtp_nbr where
  "eigrp_nbr_init = \<lparr>adj_state = EIGRP_NEIGHBOR_DOWN, adj_limited = False, multicast_epoch = 0, srtt_valid = False, srtt_msec = 0,
     rttvar_msec = 0, rto_msec = 0, retrans_queue = [], own_init_sequence = 0, last_recv_sequence = 0, nbr_retransmissions = 0,
     up_since_msec = 0, cr_mode = False, cr_sequence = 0, v_holddown = 15, t_holddown = False, crypt_seqnum = 0, peer_tlv_version = 0,
     nbr_K = [1, 0, 1, 0, 0, 0]\<rparr>"

definition generation_next :: "u64 \<Rightarrow> u64" where
  "generation_next g = (if g + 1 = 0 then g + 2 else g + 1)"

definition eigrp_nbr_create :: "hello_world \<Rightarrow> nat list \<times> nat list \<Rightarrow> eigrp_addr \<Rightarrow> hello_state \<Rightarrow> nbr_id option \<times> hello_state" where
  "eigrp_nbr_create X others src S =
     (if ip_afi src \<noteq> addr_family.AF_INET \<and> ip_afi src \<noteq> addr_family.AF_INET6 then (None, S)
      else if \<not> eigrp_nbr_admit_locked others (length (nbr_list (hs_intf S))) then (None, S)
      else case hx_nbr X of
             None \<Rightarrow> (None, S)
           | Some n \<Rightarrow>
               (let S = on_intf (\<lambda>I. eigrp_nbr_state_update (hx_now X) n EIGRP_NEIGHBOR_DOWN (nbr_change n (\<lambda>_. eigrp_nbr_init) I)) S
                in if \<not> hx_queue X then (None, S)
                   else if \<not> eigrp_nbr_admit_locked others (length (nbr_list (hs_intf S))) \<or> \<not> hx_list X then (None, S)
                   else
                     (let S = on_intf (\<lambda>I. I\<lparr>nbr_list := nbr_list I @ [n]\<rparr>) S;
                          g = generation_next (hs_next_generation S)
                      in (Some n, S\<lparr>hs_src := (hs_src S)(n := src), hs_release := (hs_release S)(n := [0, 0, 0, 0]),
                                     hs_cleanup := (hs_cleanup S)(n := False),
                                     hs_next_generation := g, hs_gen := (hs_gen S)(n := g)\<rparr>))))"

definition eigrp_nbr_codec_select :: "nbr_id \<Rightarrow> u8 \<Rightarrow> rtp_intf \<Rightarrow> rtp_intf" where
  "eigrp_nbr_codec_select n version I =
     (if version = 1 \<or> version = 2 then nbr_change n (\<lambda>nb. nb\<lparr>peer_tlv_version := version\<rparr>) I else I)"

text \<open>After a change of the metric version the codecs of the neighbours of every interface are chosen again; UP neighbours move between the encoders' counts.\<close>

definition codec_update_nbr :: "eigrp_instance \<Rightarrow> nbr_id \<Rightarrow> hello_state \<Rightarrow> hello_state" where
  "codec_update_nbr e n S =
     (let major = hs_release S n ! 2; nb = nbr (hs_intf S) n; selected = eigrp_metric_version_select (Some e) major
      in if major = 0 \<or> selected = peer_tlv_version nb then S
         else on_intf (\<lambda>I.
                (let I = (if adj_state nb = EIGRP_NEIGHBOR_UP then eigrp_intf_encoder_peer_remove (peer_tlv_version nb) I else I);
                     I = eigrp_nbr_codec_select n selected I
                 in if adj_state nb = EIGRP_NEIGHBOR_UP then eigrp_intf_encoder_peer_add (peer_tlv_version (nbr I n)) I else I)) S)"

text \<open>For one interface.\<close>

definition eigrp_nbr_codec_update :: "eigrp_instance \<Rightarrow> hello_state \<Rightarrow> hello_state" where
  "eigrp_nbr_codec_update e S = fold (codec_update_nbr e) (nbr_list (hs_intf S)) S"

definition eigrp_nbr_holddown_update :: "hello_world \<Rightarrow> nbr_id \<Rightarrow> hello_state \<Rightarrow> hello_state" where
  "eigrp_nbr_holddown_update X n S =
     (let run = hx_timer X \<and> eigrp_nbr_is_eligible S n \<and> adj_state (nbr (hs_intf S) n) \<noteq> EIGRP_NEIGHBOR_DOWN
      in on_intf (nbr_change n (\<lambda>nb. nb\<lparr>t_holddown := run\<rparr>)) S)"

text \<open>The hold timer fires: its owner is cleared before the callback runs; a timer that was started again makes the expiry stale.\<close>

definition eigrp_nbr_holddown_expired :: "hello_world \<Rightarrow> nbr_id \<Rightarrow> hello_state \<Rightarrow> hello_state" where
  "eigrp_nbr_holddown_expired X n S =
     (if n \<notin> set (nbr_list (hs_intf S)) \<or> t_holddown (nbr (hs_intf S) n) then S
      else on_intf (\<lambda>I. eigrp_nbr_delete (hx_now X) n
             (eigrp_nbr_state_update (hx_now X) n EIGRP_NEIGHBOR_DOWN (I\<lparr>nbr_list := remove1 n (nbr_list I)\<rparr>))) S)"

subsection \<open>Sending\<close>

definition hello_packet_to :: "bool \<Rightarrow> u16 \<Rightarrow> rtp_packet" where
  "hello_packet_to multicast len = (hello_packet len)\<lparr>pk_multicast := multicast\<rparr>"

definition eigrp_packet_goodbye_send :: "u64 \<Rightarrow> bool \<Rightarrow> rtp_packet \<Rightarrow> rtp_intf \<Rightarrow> rtp_intf" where
  "eigrp_packet_goodbye_send now sent p I =
     (if EIGRP_HEADER_LEN \<le> pk_length p \<and> pk_opcode p = EIGRP_OPC_HELLO \<and> sequence_number p = 0
      then eigrp_packet_wire_send now sent p I else I)"

text \<open>The address of the group: \<^verbatim>\<open>224.0.0.10\<close> or \<^verbatim>\<open>ff02::a\<close>.\<close>

definition hello_group :: "eigrp_af_vectors \<Rightarrow> eigrp_addr" where
  "hello_group V =
     (if af_afi V = EIGRP_AFI_IPV6 then \<lparr>ip_afi = addr_family.AF_INET6, ip_bytes = [0xff, 2] @ replicate 13 0 @ [0xa]\<rparr>
      else \<lparr>ip_afi = addr_family.AF_INET, ip_bytes = [224, 0, 0, 10] @ replicate 12 0\<rparr>)"

text \<open>\<open>sent\<close>: what the host says to a goodbye, which is sent at once.\<close>

definition eigrp_hello_send ::
    "hello_world \<Rightarrow> bool \<Rightarrow> hello_env \<Rightarrow> u8 \<Rightarrow> eigrp_addr option \<Rightarrow> hello_state \<Rightarrow> hello_state option" where
  "eigrp_hello_send X sent E flags nbr_addr S = do {
     p \<leftarrow> eigrp_hello_encode (hx_packet X) (hx_stream X) (hx_tlv X) (hello_env_of E S) (hs_intf S) (Some (hello_group (he_vectors E)))
           0 flags nbr_addr 0 0;
     Some (case p of
             None \<Rightarrow> S
           | Some (len, _) \<Rightarrow>
               if flags AND EIGRP_HELLO_GRACEFUL_SHUTDOWN \<noteq> 0
               then on_intf (eigrp_packet_goodbye_send (hx_now X) sent (hello_packet_to True len)) S
               else on_intf (eigrp_packet_output_enqueue (hello_packet_to True len)) S) }"

definition eigrp_hello_send_unicast :: "hello_world \<Rightarrow> hello_env \<Rightarrow> eigrp_addr \<Rightarrow> hello_state \<Rightarrow> hello_state option" where
  "eigrp_hello_send_unicast X E dst S =
     (if ip_afi dst \<noteq> addr_family.AF_INET \<and> ip_afi dst \<noteq> addr_family.AF_INET6 then Some S
      else do {
        p \<leftarrow> eigrp_hello_encode (hx_packet X) (hx_stream X) (hx_tlv X) (hello_env_of E S) (hs_intf S) (Some dst) 0 EIGRP_HELLO_NORMAL None 0 0;
        Some (case p of None \<Rightarrow> S | Some (len, _) \<Rightarrow> on_intf (eigrp_packet_output_enqueue (hello_packet_to False len)) S) })"

definition eigrp_hello_send_ack_sequence :: "hello_world \<Rightarrow> hello_env \<Rightarrow> nbr_id \<Rightarrow> u32 \<Rightarrow> hello_state \<Rightarrow> hello_state option" where
  "eigrp_hello_send_ack_sequence X E n sequence S = do {
     p \<leftarrow> eigrp_hello_encode (hx_packet X) (hx_stream X) (hx_tlv X) (hello_env_of E S) (hs_intf S) (Some (hs_src S n)) sequence
           EIGRP_HELLO_NORMAL (Some (hs_src S n)) 0 0;
     Some (case p of None \<Rightarrow> S | Some (len, _) \<Rightarrow> on_intf (eigrp_packet_output_enqueue (hello_packet_to False len)) S) }"

definition eigrp_hello_send_ack_packet :: "hello_world \<Rightarrow> hello_env \<Rightarrow> nbr_id \<Rightarrow> hello_state \<Rightarrow> hello_state option" where
  "eigrp_hello_send_ack_packet X E n S = eigrp_hello_send_ack_sequence X E n (last_recv_sequence (nbr (hs_intf S) n)) S"

text \<open>Hellos to the static neighbours of an interface; whether there are any.\<close>

definition static_destination :: "eigrp_afi \<Rightarrow> eigrp_nbr_config \<Rightarrow> eigrp_addr" where
  "static_destination afi c =
     (if afi = EIGRP_AFI_IPV6 then \<lparr>ip_afi = addr_family.AF_INET6, ip_bytes = take 16 (addr_bytes (nc_address c))\<rparr>
      else \<lparr>ip_afi = addr_family.AF_INET, ip_bytes = take 4 (addr_bytes (nc_address c)) @ replicate 12 0\<rparr>)"

fun static_hellos ::
    "hello_world \<Rightarrow> hello_env \<Rightarrow> eigrp_afi \<Rightarrow> string \<Rightarrow> eigrp_nbr_config list \<Rightarrow> bool \<Rightarrow> hello_state \<Rightarrow> (bool \<times> hello_state) option" where
  "static_hellos X E afi name [] configured S = Some (configured, S)"
| "static_hellos X E afi name (c # cs) configured S =
     (if nc_interface c \<noteq> name then static_hellos X E afi name cs configured S
      else do { S \<leftarrow> eigrp_hello_send_unicast X E (static_destination afi c) S; static_hellos X E afi name cs True S })"

definition eigrp_nbr_static_hello_send ::
    "hello_world \<Rightarrow> hello_env \<Rightarrow> af_neighbors option \<Rightarrow> string \<Rightarrow> hello_state \<Rightarrow> (bool \<times> hello_state) option" where
  "eigrp_nbr_static_hello_send X E af name S =
     (case af of None \<Rightarrow> Some (False, S) | Some af \<Rightarrow> static_hellos X E (afn_afi af) name (afn_neighbors af) False S)"

text \<open>A new static neighbour; \<open>runtime\<close> is the interface of that name, if the address family runs on it, which sends its static Hellos at once.\<close>

definition eigrp_nbr_static_create ::
    "hello_world \<Rightarrow> hello_env \<Rightarrow> bool \<Rightarrow> bool \<Rightarrow> eigrp_address option \<Rightarrow> string option \<Rightarrow> af_neighbors option \<Rightarrow> hello_state option
       \<Rightarrow> (static_error + af_neighbors \<times> hello_state option) option" where
  "eigrp_nbr_static_create X E calloc dup address name af runtime =
     (case af of
        None \<Rightarrow> Some (Inl STATIC_NOT_FOUND)
      | Some af \<Rightarrow>
          (case (address, name) of
             (Some a, Some name) \<Rightarrow>
               (if addr_afi a \<noteq> afn_afi af \<or> name = [] then Some (Inl STATIC_INVALID_ARGUMENT)
                else if \<exists>c \<in> set (afn_neighbors af). static_is a name c then Some (Inr (af, runtime))
                else if \<not> calloc \<or> \<not> dup then Some (Inl STATIC_INTERNAL_FAILURE)
                else
                  (let af = af\<lparr>afn_neighbors := \<lparr>nc_address = a, nc_interface = name\<rparr> # afn_neighbors af\<rparr>
                   in case runtime of
                        None \<Rightarrow> Some (Inr (af, None))
                      | Some S \<Rightarrow> map_option (\<lambda>(_, S). Inr (af, Some S)) (eigrp_nbr_static_hello_send X E (Some af) name S)))
           | _ \<Rightarrow> Some (Inl STATIC_INVALID_ARGUMENT)))"

text \<open>The Hello timer fires; it is started again for \<open>v_hello\<close> seconds.\<close>

definition eigrp_hello_timer ::
    "hello_world \<Rightarrow> hello_env \<Rightarrow> af_neighbors option \<Rightarrow> string \<Rightarrow> bool \<Rightarrow> u32 \<Rightarrow> hello_state \<Rightarrow> (u32 \<times> hello_state) option" where
  "eigrp_hello_timer X E af name passive v_hello S =
     (if \<not> passive \<and> \<not> af_suspended S
      then do {
        (configured, S) \<leftarrow> eigrp_nbr_static_hello_send X E af name S;
        S \<leftarrow> (if configured then Some S else eigrp_hello_send X True E EIGRP_HELLO_NORMAL None S);
        Some (v_hello * 1000, S) }
      else Some (v_hello * 1000, S))"

subsection \<open>The INIT packet\<close>

definition init_packet :: "nbr_id \<Rightarrow> u32 \<Rightarrow> u16 \<Rightarrow> rtp_packet" where
  "init_packet n sequence len = \<lparr>pk_opcode = 1, pk_flags = 1, pk_length = len, pk_multicast = False, pk_nbr = Some n,
     sequence_number = sequence, retrans_counter = 0, retransmission = False, retry_queued = False, multicast_exception = False,
     pk_epoch = 0, sent_msec = 0, t_retrans_timer = None\<rparr>"

text \<open>The sequence number is taken before the packet is allocated.\<close>

definition eigrp_update_neighbor_packet_create ::
    "hello_world \<Rightarrow> hello_env \<Rightarrow> nbr_id \<Rightarrow> u32 \<Rightarrow> hello_state \<Rightarrow> (rtp_packet option \<times> hello_state) option" where
  "eigrp_update_neighbor_packet_create X E n flags S =
     (let (sequence, counter) = eigrp_packet_sequence_reserve (hs_sequence S); S = S\<lparr>hs_sequence := counter\<rparr>
      in case eigrp_packet_create (hx_packet X) (hx_stream X) (eigrp_packet_payload_limit (curr_mtu (hs_intf S))) of
           None \<Rightarrow> Some (None, S)
         | Some s \<Rightarrow> do {
             s \<leftarrow> eigrp_packet_header_init (hx_stream X) 1 E s flags sequence (last_recv_sequence (nbr (hs_intf S) n));
             let (_, s) = packet_auth_encode (hx_stream X) (hx_tlv X) E s;
             Some (Some ((init_packet n sequence (of_nat (st_endp s)))\<lparr>pk_flags := flags\<rparr>), S) })"

definition eigrp_update_send_init_packet :: "hello_world \<Rightarrow> hello_env \<Rightarrow> nbr_id \<Rightarrow> hello_state \<Rightarrow> hello_state option" where
  "eigrp_update_send_init_packet X E n S = do {
     (p, S) \<leftarrow> eigrp_update_neighbor_packet_create X E n 1 S;
     Some (case p of None \<Rightarrow> S | Some p \<Rightarrow> on_intf (rtp_send_init (hx_copy X) n p) S) }"

subsection \<open>Receiving\<close>

definition eigrp_hello_k_match :: "eigrp_instance \<Rightarrow> rtp_nbr \<Rightarrow> bool" where
  "eigrp_hello_k_match e nb \<longleftrightarrow> take 5 (k_values e) = take 5 (nbr_K nb)"

definition eigrp_hello_goodbye :: "u8 list \<Rightarrow> bool" where
  "eigrp_hello_goodbye k \<longleftrightarrow> take 5 k = replicate 5 0xff"

text \<open>\<open>False\<close>: the neighbour is gone.\<close>

definition eigrp_hello_parameter_decode ::
    "hello_world \<Rightarrow> hello_env \<Rightarrow> nbr_id \<Rightarrow> u8 list \<Rightarrow> hello_state \<Rightarrow> (bool \<times> hello_state) option" where
  "eigrp_hello_parameter_decode X E n bs S = do {
     k \<leftarrow> peek 4 6 bs;
     hold_time \<leftarrow> peek_u16 10 bs;
     let S = on_intf (nbr_change n (\<lambda>nb. nb\<lparr>nbr_K := k, v_holddown := hold_time\<rparr>)) S;
     let down = on_intf (eigrp_nbr_state_update (hx_now X) n EIGRP_NEIGHBOR_DOWN) S;
     if eigrp_hello_goodbye k then Some (False, on_intf (eigrp_nbr_delete (hx_now X) n) down)
     else if \<not> eigrp_hello_k_match (he_instance E) (nbr (hs_intf S) n)
     then Some (True, if adj_state (nbr (hs_intf S) n) \<noteq> EIGRP_NEIGHBOR_DOWN then down else S)
     else if adj_state (nbr (hs_intf S) n) = EIGRP_NEIGHBOR_DOWN
     then do {
       S \<leftarrow> eigrp_hello_send X True E EIGRP_HELLO_NORMAL (Some (hs_src S n)) S;
       S \<leftarrow> eigrp_update_send_init_packet X E n S;
       Some (True, on_intf (eigrp_nbr_state_update (hx_now X) n EIGRP_NEIGHBOR_PENDING) S) }
     else Some (True, S) }"

definition eigrp_sw_version_decode :: "hello_env \<Rightarrow> nbr_id \<Rightarrow> u8 list \<Rightarrow> hello_state \<Rightarrow> hello_state option" where
  "eigrp_sw_version_decode E n bs S = do {
     version \<leftarrow> peek 4 4 bs;
     let S = S\<lparr>hs_release := (hs_release S)(n := version)\<rparr>;
     Some (on_intf (eigrp_nbr_codec_select n (eigrp_metric_version_select (Some (he_instance E)) (version ! 2))) S) }"

text \<open>\<open>me\<close> is the interface's own address.\<close>

function eigrp_peer_termination_contains :: "nat \<Rightarrow> u8 list \<Rightarrow> nat \<Rightarrow> u8 list \<Rightarrow> nat \<Rightarrow> bool option" where
  "eigrp_peer_termination_contains address_length me len bs off =
     (if off < len
      then do {
        encoded \<leftarrow> peek_u8 off bs;
        if encoded = 0 \<or> len < off + 1 + encoded then Some False
        else do {
          here \<leftarrow> (if encoded = address_length then map_option (\<lambda>a. a = me) (peek (off + 1) address_length bs) else Some False);
          if here then Some True else eigrp_peer_termination_contains address_length me len bs (off + 1 + encoded) } }
      else Some False)"
  by pat_completeness auto
termination
  by (relation "measure (\<lambda>(a, me, len, bs, off). len - off)") auto

declare eigrp_peer_termination_contains.simps [simp del]

function sequence_lists :: "nat \<Rightarrow> u8 list \<Rightarrow> nat \<Rightarrow> u8 list \<Rightarrow> nat \<Rightarrow> bool \<Rightarrow> bool option" where
  "sequence_lists expected me len bs off listed =
     (if off < len
      then do {
        address_length \<leftarrow> peek_u8 off bs;
        if address_length = 0 \<or> len < off + 1 + address_length then Some listed
        else do {
          here \<leftarrow> (if address_length = expected then map_option (\<lambda>a. a = me) (peek (off + 1) expected bs) else Some False);
          sequence_lists expected me len bs (off + 1 + address_length) (listed \<or> here) } }
      else Some listed)"
  by pat_completeness auto
termination
  by (relation "measure (\<lambda>(e, me, len, bs, off, listed). len - off)") auto

declare sequence_lists.simps [simp del]

definition eigrp_peer_termination_decode ::
    "hello_world \<Rightarrow> nat \<Rightarrow> u8 list \<Rightarrow> nbr_id \<Rightarrow> nat \<Rightarrow> u8 list \<Rightarrow> hello_state \<Rightarrow> hello_state option" where
  "eigrp_peer_termination_decode X address_length me n len bs S = do {
     here \<leftarrow> eigrp_peer_termination_contains address_length me len bs EIGRP_TLV_HDR_LEN;
     Some (if here
           then on_intf (\<lambda>I. eigrp_nbr_delete (hx_now X) n (eigrp_nbr_state_update (hx_now X) n EIGRP_NEIGHBOR_DOWN I)) S
           else S) }"

record hello_seen =
  parameter_seen :: bool
  sequence_seen :: bool
  sequence_listed :: bool
  next_multicast_sequence :: u32

text \<open>One TLV.  No \<open>hello_seen\<close> in the result: the receiver returns.\<close>

definition hello_tlv ::
    "hello_world \<Rightarrow> hello_env \<Rightarrow> u8 list \<Rightarrow> nbr_id \<Rightarrow> u16 \<Rightarrow> nat \<Rightarrow> u8 list \<Rightarrow> hello_seen \<Rightarrow> hello_state \<Rightarrow> (hello_seen option \<times> hello_state) option" where
  "hello_tlv X E me n ty len bs seen S =
     (let address_length = packet_address_bytes (he_vectors E)
      in if ty = EIGRP_TLV_PARAMETER
         then (if len < EIGRP_TLV_PARAMETER_LEN then Some (None, S)
               else do {
                 (alive, S) \<leftarrow> eigrp_hello_parameter_decode X E n bs S;
                 Some (if alive then Some (seen\<lparr>parameter_seen := True\<rparr>) else None, S) })
         else if ty = EIGRP_TLV_SEQ
         then do {
           listed \<leftarrow> (if EIGRP_TLV_SEQ_BASE_LEN \<le> len then sequence_lists address_length me len bs EIGRP_TLV_HDR_LEN False else Some False);
           Some (Some (seen\<lparr>sequence_seen := True, sequence_listed := listed\<rparr>), S) }
         else if ty = EIGRP_TLV_SW_VERSION
         then (if len < EIGRP_TLV_SW_VERSION_LEN then Some (None, S)
               else do { S \<leftarrow> eigrp_sw_version_decode E n bs S; Some (Some seen, S) })
         else if ty = EIGRP_TLV_NEXT_MCAST_SEQ
         then (if len = EIGRP_NEXT_SEQUENCE_TLV_SIZE
               then do { q \<leftarrow> peek 4 4 bs; Some (Some (seen\<lparr>next_multicast_sequence := ntohl q\<rparr>), S) }
               else Some (Some seen, S))
         else if ty = EIGRP_TLV_PEER_TERMINATION
         then (if len < EIGRP_TLV_PEER_TERMINATION_LEN then Some (None, S)
               else do { S \<leftarrow> eigrp_peer_termination_decode X address_length me n len bs S; Some (None, S) })
         else Some (Some seen, S))"

function hello_tlvs ::
    "hello_world \<Rightarrow> hello_env \<Rightarrow> u8 list \<Rightarrow> nbr_id \<Rightarrow> u8 list \<Rightarrow> hello_seen \<Rightarrow> hello_state \<Rightarrow> (hello_seen option \<times> hello_state) option" where
  "hello_tlvs X E me n bs seen S = do {
     ty \<leftarrow> peek_u16 0 bs;
     len \<leftarrow> map_option unat (peek_u16 2 bs);
     if len < EIGRP_TLV_HDR_LEN \<or> length bs < len then Some (None, S)
     else do {
       (result, S) \<leftarrow> hello_tlv X E me n ty len bs seen S;
       case result of
         None \<Rightarrow> Some (None, S)
       | Some seen \<Rightarrow> (if len < length bs then hello_tlvs X E me n (drop len bs) seen S else Some (Some seen, S)) } }"
  by pat_completeness auto
termination
  by (relation "measure (\<lambda>(X, E, me, n, bs, seen, S). length bs)") (auto simp: hello_consts)

declare hello_tlvs.simps [simp del]

definition hello_nbr :: "hello_world \<Rightarrow> nat list \<times> nat list \<Rightarrow> eigrp_addr \<Rightarrow> hello_state \<Rightarrow> nbr_id option \<times> bool \<times> hello_state" where
  "hello_nbr X others src S =
     (case eigrp_nbr_lookup src S of
        Some n \<Rightarrow> (Some n, False, S)
      | None \<Rightarrow> (let (n, S) = eigrp_nbr_create X others src S in (n, True, S)))"

text \<open>What the receiver learns from the SEQUENCE TLVs, and the first start of the hold timer.\<close>

definition hello_finish :: "hello_world \<Rightarrow> nbr_id \<Rightarrow> bool \<Rightarrow> u32 \<Rightarrow> hello_seen \<Rightarrow> hello_state \<Rightarrow> hello_state" where
  "hello_finish X n new_nbr ack seen S =
     (if \<not> parameter_seen seen then (if new_nbr then on_intf (eigrp_nbr_delete (hx_now X) n) S else S)
      else
        (let cr = \<not> sequence_listed seen \<and> next_multicast_sequence seen \<noteq> 0;
             S = (if sequence_seen seen
                  then on_intf (nbr_change n (\<lambda>nb. nb\<lparr>cr_mode := cr, cr_sequence := (if cr then next_multicast_sequence seen else 0)\<rparr>)) S
                  else S)
         in if new_nbr \<and> ack = 0 then eigrp_nbr_holddown_update X n S else S))"

definition eigrp_hello_receive ::
    "hello_world \<Rightarrow> nat list \<times> nat list \<Rightarrow> af_neighbors option \<Rightarrow> hello_env \<Rightarrow> string \<Rightarrow> u8 list \<Rightarrow> eigrp_addr \<Rightarrow> u8 list \<Rightarrow> hello_state
       \<Rightarrow> hello_state option" where
  "eigrp_hello_receive X others af E name me src packet S =
     (if length packet < EIGRP_HEADER_BYTES then Some S
      else do {
        valid \<leftarrow> eigrp_hello_tlvs_validate (he_vectors E) (drop EIGRP_HEADER_BYTES packet);
        if \<not> valid then Some S
        else if \<not> eigrp_nbr_static_source_allowed af (he_vectors E) name src then Some S
        else
          (case hello_nbr X others src S of
             (None, _, S) \<Rightarrow> Some S
           | (Some n, new_nbr, S) \<Rightarrow> do {
               S \<leftarrow> (if new_nbr \<and> auth_type (he_auth E) \<noteq> EIGRP_AUTH_TYPE_NONE
                     then do { q \<leftarrow> peek 32 4 packet; Some (on_intf (nbr_change n (\<lambda>nb. nb\<lparr>crypt_seqnum := ntohl q\<rparr>)) S) }
                     else Some S);
               (result, S) \<leftarrow> hello_tlvs X E me n (drop EIGRP_HEADER_BYTES packet)
                                \<lparr>parameter_seen = False, sequence_seen = False, sequence_listed = False, next_multicast_sequence = 0\<rparr> S;
               Some (case result of
                       None \<Rightarrow> S
                     | Some seen \<Rightarrow> hello_finish X n new_nbr (ntohl (field 12 4 packet)) seen S) }) })"

subsection \<open>Sequence numbers to spare\<close>

text \<open>The numbers in use lie in a window that ends before the counter \<open>c\<close>, and \<open>d\<close> more fit into half of the number space.\<close>

definition numbers_ahead :: "nat \<Rightarrow> u32 set \<Rightarrow> u32 \<Rightarrow> bool" where
  "numbers_ahead d N c \<longleftrightarrow> (\<exists>b. unat (c - b) + d < 2 ^ 31 \<and> (\<forall>s \<in> N. unat (s - b) < unat (c - b)))"

lemma numbers_ahead_mono: "\<lbrakk>numbers_ahead d N c; M \<subseteq> N; e \<le> d\<rbrakk> \<Longrightarrow> numbers_ahead e M c"
  unfolding numbers_ahead_def by (meson add_le_cancel_left le_less_trans subset_eq)

lemma unat_shift:
  fixes x :: u32
  assumes "unat x + j < 2 ^ 31"
  shows "unat (x + of_nat j) = unat x + j"
proof -
  have "unat (of_nat j :: u32) = j" using assms by (simp add: unsigned_of_nat take_bit_eq_mod)
  then show ?thesis using assms by (simp add: unat_word_ariths)
qed

lemma reserve_ahead:
  assumes "numbers_ahead (d + 2) N c" and "eigrp_packet_sequence_reserve c = (q, c')"
  shows "q \<noteq> 0" "q \<notin> N" "seq_window (insert q N)" "numbers_ahead d (insert q N) c'"
proof -
  obtain b where b: "unat (c - b) + d + 2 < 2 ^ 31" "\<And>s. s \<in> N \<Longrightarrow> unat (s - b) < unat (c - b)"
    using assms(1) by (auto simp: numbers_ahead_def add.assoc)
  have s: "unat (c + of_nat j - b) = unat (c - b) + j" if "j \<le> 2" for j
    using unat_shift [of "c - b" j] b(1) that by (simp add: algebra_simps)
  obtain i j where ij: "q = c + of_nat i" "c' = c + of_nat j" "i < j" "j \<le> 2"
  proof (cases "c = 0 \<or> c + 1 = 0")
    case True
    then show ?thesis using assms(2) that [of 1 2] that [of 0 2]
      by (auto simp: eigrp_packet_sequence_reserve_def Let_def split: if_splits) (metis add.commute add.right_neutral add_left_imp_eq one_add_one add.assoc)
  next
    case False
    then show ?thesis using assms(2) that [of 0 1] by (auto simp: eigrp_packet_sequence_reserve_def Let_def)
  qed
  have q: "unat (q - b) = unat (c - b) + i" and c': "unat (c' - b) = unat (c - b) + j" using s ij by simp_all
  show "q \<noteq> 0" using assms(2) by (auto simp: eigrp_packet_sequence_reserve_def Let_def split: if_splits)
  show "q \<notin> N" using b(2) [of q] q by auto
  have "unat (s - b) < 2 ^ 31" if "s \<in> insert q N" for s using that b q ij by (auto dest!: b(2))
  then show "seq_window (insert q N)" unfolding seq_window_def by (intro exI [of _ b]) (simp add: word_less_nat_alt)
  have "unat (s - b) < unat (c' - b)" if "s \<in> insert q N" for s using that b(2) q c' ij by fastforce
  moreover have "unat (c' - b) + d < 2 ^ 31" using b(1) c' ij by simp
  ultimately show "numbers_ahead d (insert q N) c'" unfolding numbers_ahead_def by blast
qed

subsection \<open>What the steps of the receiver do to the transport\<close>

text \<open>A change of a neighbour that reliable delivery does not see.\<close>

definition unseen :: "(rtp_nbr \<Rightarrow> rtp_nbr) \<Rightarrow> bool" where
  "unseen f \<longleftrightarrow> (\<forall>nb. retrans_queue (f nb) = retrans_queue nb \<and> adj_state (f nb) = adj_state nb \<and> multicast_epoch (f nb) = multicast_epoch nb
     \<and> own_init_sequence (f nb) = own_init_sequence nb)"

lemma unseen_same: "unseen f \<Longrightarrow> same_rtp I (nbr_change n f I)"
  by (auto simp: unseen_def same_rtp_def same_nbr_def queue_def eigrp_packet_multicast_peer_eligible_def)

lemma unseen_ok: "unseen f \<Longrightarrow> rtp_ok I \<Longrightarrow> rtp_ok (nbr_change n f I)"
  using same_rtp_work [OF unseen_same] same_flags [OF unseen_same] by (simp add: rtp_ok_work)

lemma unseen_outstanding: "unseen f \<Longrightarrow> outstanding (nbr_change n f I) = outstanding I"
  using same_nbrD(1) [of _ I "nbr_change n f I"] unseen_same [of f I n] by (simp add: outstanding_def same_rtp_def)

lemma mtu_simps [simp]:
  "curr_mtu (nbr_change n f I) = curr_mtu I" "curr_mtu (rtp_call c I) = curr_mtu I"
  "curr_mtu (eigrp_packet_output_enqueue p I) = curr_mtu I" "curr_mtu (eigrp_packet_multicast_resume I) = curr_mtu I"
  "curr_mtu (eigrp_intf_encoder_peer_remove v I) = curr_mtu I" "curr_mtu (eigrp_intf_encoder_peer_add v I) = curr_mtu I"
  by (auto simp: nbr_change_def rtp_call_def eigrp_packet_output_enqueue_def eigrp_packet_multicast_resume_def write_queue_add_def Let_def
      eigrp_intf_encoder_peer_remove_def eigrp_intf_encoder_peer_add_def eigrp_intf_encoder_select_def split: option.splits)

lemma state_update_mtu [simp]: "curr_mtu (eigrp_nbr_state_update now n st I) = curr_mtu I"
  by (simp add: eigrp_nbr_state_update_def state_enter_def Let_def)

lemma delete_mtu [simp]: "curr_mtu (eigrp_nbr_delete now n I) = curr_mtu I"
  by (simp add: eigrp_nbr_delete_def eigrp_nbr_down_def eigrp_packet_neighbor_output_clear_def eigrp_packet_neighbor_output_drop_def Let_def)

lemma send_reliably_mtu [simp]: "curr_mtu (eigrp_packet_send_reliably alloc n I) = curr_mtu I"
  by (auto simp: eigrp_packet_send_reliably_def eigrp_packet_allocation_retry_def head_update_def split: option.splits)

lemma send_init_mtu [simp]: "curr_mtu (rtp_send_init alloc n p I) = curr_mtu I"
  by (simp add: rtp_send_init_def eigrp_update_neighbor_packet_queue_def Let_def)

lemma state_down_list [simp]:
  "nbr_list (eigrp_nbr_state_update now n EIGRP_NEIGHBOR_DOWN I) = nbr_list I"
  "obuf (eigrp_nbr_state_update now n EIGRP_NEIGHBOR_DOWN I) = obuf I"
  "multicast_pending (eigrp_nbr_state_update now n EIGRP_NEIGHBOR_DOWN I) = multicast_pending I"
  by (simp_all add: state_down reset_def)

lemma state_down_outstanding: "outstanding (eigrp_nbr_state_update now n EIGRP_NEIGHBOR_DOWN I) \<subseteq> outstanding I"
  by (auto simp: outstanding_def queue_def state_down reset_def split: if_splits)

lemma delete_list [simp]: "nbr_list (eigrp_nbr_delete now n I) = remove1 n (nbr_list I)"
  by (simp add: eigrp_nbr_delete_def eigrp_nbr_down_def eigrp_packet_neighbor_output_clear_def)

lemma delete_outstanding: "outstanding (eigrp_nbr_delete now n I) \<subseteq> outstanding I"
proof -
  let ?J = "eigrp_packet_neighbor_output_clear n (I\<lparr>nbr_list := remove1 n (nbr_list I)\<rparr>)"
  have "outstanding ?J \<subseteq> outstanding I"
    by (auto simp: outstanding_def queue_def eigrp_packet_neighbor_output_clear_def dest: set_mp [OF set_remove1_subset])
  moreover have "outstanding (rtp_call a J) = outstanding J" for a J by (simp add: outstanding_def queue_def)
  ultimately show ?thesis
    unfolding eigrp_nbr_delete_def eigrp_nbr_down_def using state_down_outstanding by blast
qed

lemma pending_state_simps:
  "nbr_list (eigrp_nbr_state_update now n EIGRP_NEIGHBOR_PENDING I) = nbr_list I"
  "outstanding (eigrp_nbr_state_update now n EIGRP_NEIGHBOR_PENDING I) = outstanding I"
  by (simp_all add: eigrp_nbr_state_update_def Let_def outstanding_def queue_def)

lemma output_outstanding: "sequence_number p = 0 \<Longrightarrow> outstanding (eigrp_packet_output_enqueue p I) = outstanding I"
  by (auto simp: outstanding_def queue_def eigrp_packet_output_enqueue_def eigrp_packet_enqueue_def)

lemma send_init_simps:
  assumes "n \<in> set (nbr_list I)"
  shows "nbr_list (rtp_send_init True n p I) = nbr_list I"
    and "outstanding (rtp_send_init True n p I) \<subseteq> insert (sequence_number p) (outstanding I)"
    and "adj_state (nbr (rtp_send_init True n p I) n) = adj_state (nbr I n)"
proof -
  let ?J = "enqueued n p (own_init_set n (sequence_number p) I)"
  have r: "nbr_list (eigrp_packet_send_reliably True n J) = nbr_list J" "outstanding (eigrp_packet_send_reliably True n J) \<subseteq> outstanding J"
    "nbr (eigrp_packet_send_reliably True n J) = nbr J" if "n \<in> set (nbr_list J)" for J
    using that queue_outstanding [of n J]
    by (auto simp: eigrp_packet_send_reliably_def eigrp_packet_dup_def outstanding_Un eigrp_packet_output_enqueue_def eigrp_packet_enqueue_def
        rtp_head_queue unicast_copy_def queue_def split: option.splits list.splits)
  have e: "rtp_send_init True n p I = (if queue n (own_init_set n (sequence_number p) I) = [] then eigrp_packet_send_reliably True n ?J else ?J)"
    by (simp add: rtp_send_init_def nbr_packet_queue own_init_set_def [symmetric])
  have J: "nbr_list ?J = nbr_list I" "outstanding ?J = insert (sequence_number p) (outstanding I)" "adj_state (nbr ?J n) = adj_state (nbr I n)"
    using assms by (simp_all add: enqueued_outstanding) (simp_all add: enqueued_def own_init_set_def)
  show "nbr_list (rtp_send_init True n p I) = nbr_list I"
    "outstanding (rtp_send_init True n p I) \<subseteq> insert (sequence_number p) (outstanding I)"
    "adj_state (nbr (rtp_send_init True n p I) n) = adj_state (nbr I n)"
    unfolding e using r [of ?J] J assms by auto
qed

subsection \<open>The invariant of discovery\<close>

text \<open>
  Reliable delivery is in order, \<open>d\<close> sequence numbers are to spare, the interface has no more neighbours than admitted and no two of
  them with one address, and its MTU leaves room for the header.
\<close>

definition adjacency_ok :: "nat \<Rightarrow> hello_state \<Rightarrow> bool" where
  "adjacency_ok d S \<longleftrightarrow> rtp_ok (hs_intf S) \<and> numbers_ahead d (outstanding (hs_intf S)) (hs_sequence S)
     \<and> length (nbr_list (hs_intf S)) \<le> EIGRP_NEIGHBOR_MAX_PER_INTERFACE \<and> distinct (map (hs_src S) (nbr_list (hs_intf S)))
     \<and> 40 \<le> curr_mtu (hs_intf S)"

lemma on_intf_simps [simp]:
  "hs_intf (on_intf f S) = f (hs_intf S)" "hs_src (on_intf f S) = hs_src S" "hs_sequence (on_intf f S) = hs_sequence S"
  "hs_release (on_intf f S) = hs_release S" "af_suspended (on_intf f S) = af_suspended S" "hs_cleanup (on_intf f S) = hs_cleanup S"
  "hs_gen (on_intf f S) = hs_gen S" "hs_next_generation (on_intf f S) = hs_next_generation S"
  by (simp_all add: on_intf_def)

lemma adjacency_intf:
  assumes "adjacency_ok d S" and "rtp_ok (f (hs_intf S))" and "outstanding (f (hs_intf S)) \<subseteq> outstanding (hs_intf S)"
    and "nbr_list (f (hs_intf S)) = nbr_list (hs_intf S) \<or> nbr_list (f (hs_intf S)) = remove1 n (nbr_list (hs_intf S))"
    and "curr_mtu (f (hs_intf S)) = curr_mtu (hs_intf S)"
  shows "adjacency_ok d (on_intf f S)"
proof -
  have "length (remove1 n (nbr_list (hs_intf S))) \<le> length (nbr_list (hs_intf S))" by (simp add: length_remove1)
  moreover have "distinct (map g xs) \<Longrightarrow> distinct (map g (remove1 n xs))" for g :: "nbr_id \<Rightarrow> eigrp_addr" and xs
    by (auto simp: distinct_map distinct_remove1 intro: inj_on_subset)
  ultimately show ?thesis
    using assms numbers_ahead_mono [OF _ assms(3) order.refl] by (auto simp: adjacency_ok_def)
qed

lemma adjacency_mono: "adjacency_ok d S \<Longrightarrow> e \<le> d \<Longrightarrow> adjacency_ok e S"
  using numbers_ahead_mono [OF _ subset_refl] by (auto simp: adjacency_ok_def)

lemma adjacency_unseen: "adjacency_ok d S \<Longrightarrow> unseen f \<Longrightarrow> adjacency_ok d (on_intf (nbr_change n f) S)"
  by (rule adjacency_intf) (auto simp: unseen_ok unseen_outstanding adjacency_ok_def)

lemma adjacency_down: "adjacency_ok d S \<Longrightarrow> adjacency_ok d (on_intf (eigrp_nbr_state_update now n EIGRP_NEIGHBOR_DOWN) S)"
  by (rule adjacency_intf) (auto simp: adjacency_ok_def down_ok dest: subsetD [OF state_down_outstanding])

lemma adjacency_delete: "adjacency_ok d S \<Longrightarrow> adjacency_ok d (on_intf (eigrp_nbr_delete now n) S)"
  by (rule adjacency_intf [where n = n]) (auto simp: adjacency_ok_def delete_ok dest: subsetD [OF delete_outstanding])

lemma adjacency_output: "adjacency_ok d S \<Longrightarrow> sequence_number p = 0 \<Longrightarrow> adjacency_ok d (on_intf (eigrp_packet_output_enqueue p) S)"
  by (rule adjacency_intf) (auto simp: adjacency_ok_def hello_ok output_outstanding)

lemma adjacency_pending:
  "adjacency_ok d S \<Longrightarrow> adj_state (nbr (hs_intf S) n) = EIGRP_NEIGHBOR_DOWN
   \<Longrightarrow> adjacency_ok d (on_intf (eigrp_nbr_state_update now n EIGRP_NEIGHBOR_PENDING) S)"
  by (rule adjacency_intf) (auto simp: adjacency_ok_def pending_ok_step pending_state_simps)

subsection \<open>No fault\<close>

lemma payload_limit_header: "40 \<le> curr_mtu I \<Longrightarrow> 20 \<le> eigrp_packet_payload_limit (curr_mtu I)"
  by (simp add: eigrp_packet_payload_limit_def word_le_nat_alt)

lemma header_after_create:
  assumes "eigrp_packet_create calloc A (eigrp_packet_payload_limit (curr_mtu I)) = Some s" and "40 \<le> curr_mtu I"
  shows "\<exists>s'. eigrp_packet_header_init A ty E s flags q a = Some s' \<and> stream_ok s' \<and> st_endp s' = 20"
  using header_init_wrote [of s A ty E flags q a] packet_create_ok [OF assms(1)] payload_limit_header [OF assms(2)] by auto

lemma hello_encode_no_fault:
  assumes "40 \<le> curr_mtu I"
  shows "eigrp_hello_encode calloc A created E I to ack flags nbr_addr q epoch \<noteq> None"
proof (cases "eigrp_packet_create calloc A (eigrp_packet_payload_limit (curr_mtu I))")
  case (Some s)
  then obtain s' where "eigrp_packet_header_init A EIGRP_OPC_HELLO E s 0 0 ack = Some s'" using header_after_create [OF _ assms] by blast
  with Some show ?thesis by (simp add: eigrp_hello_encode_def split: prod.splits)
qed (simp add: eigrp_hello_encode_def)

lemma hello_send_ok:
  assumes ok: "adjacency_ok d S"
  shows "\<exists>S'. eigrp_hello_send X sent E EIGRP_HELLO_NORMAL a S = Some S' \<and> adjacency_ok d S' \<and> hs_sequence S' = hs_sequence S
     \<and> hs_src S' = hs_src S \<and> nbr_list (hs_intf S') = nbr_list (hs_intf S) \<and> nbr (hs_intf S') = nbr (hs_intf S)"
proof -
  let ?e = "eigrp_hello_encode (hx_packet X) (hx_stream X) (hx_tlv X) (hello_env_of E S) (hs_intf S) (Some (hello_group (he_vectors E))) 0
      EIGRP_HELLO_NORMAL a 0 0"
  have "?e \<noteq> None" using ok by (intro hello_encode_no_fault) (simp add: adjacency_ok_def)
  then obtain p where p: "?e = Some p" by blast
  show ?thesis
  proof (cases p)
    case (Some ls)
    moreover have "sequence_number (hello_packet_to True (fst ls)) = 0" by (simp add: hello_packet_to_def hello_packet_def)
    ultimately show ?thesis
      using p adjacency_output [OF ok, of "hello_packet_to True (fst ls)"]
      by (auto simp: eigrp_hello_send_def hello_flags split: prod.splits)
  qed (use ok p in \<open>simp add: eigrp_hello_send_def\<close>)
qed

lemma auth_encode_end:
  assumes "st_endp s = 20" and "stream_ok s"
  shows "20 \<le> st_endp (snd (packet_auth_encode A created E s)) \<and> st_endp (snd (packet_auth_encode A created E s)) \<le> 76"
proof -
  have p: "20 \<le> st_endp (snd (eigrp_stream_put A s bs)) \<and> st_endp (snd (eigrp_stream_put A s bs)) \<le> 76" if "length bs \<le> 56" for bs
    using put_cases [OF assms(2), of bs A] assms that length_written [OF assms(2)] by (auto simp: SIZE_MAX_def dest!: length_written)
  have "length (auth_tlv_template sz ty l k n) = 24 + n" for sz ty l k n by (simp add: auth_tlv_template_def)
  then show ?thesis
    using assms(1) by (auto simp: packet_auth_encode_def Let_def eigrp_auth_tlv_md5_encode_def eigrp_auth_tlv_sha256_encode_def p
        split: option.splits)
qed

lemma send_init_ok:
  assumes ok: "adjacency_ok (d + 2) S" and n: "n \<in> set (nbr_list (hs_intf S))" and X: "hx_copy X"
  shows "\<exists>S'. eigrp_update_send_init_packet X E n S = Some S' \<and> adjacency_ok d S' \<and> hs_src S' = hs_src S
     \<and> nbr_list (hs_intf S') = nbr_list (hs_intf S) \<and> adj_state (nbr (hs_intf S') n) = adj_state (nbr (hs_intf S) n)"
proof -
  obtain q c where q: "eigrp_packet_sequence_reserve (hs_sequence S) = (q, c)" by fastforce
  note a = reserve_ahead [OF _ q, of d "outstanding (hs_intf S)"]
  have m: "40 \<le> curr_mtu (hs_intf S)" and r: "rtp_ok (hs_intf S)" and N: "numbers_ahead (d + 2) (outstanding (hs_intf S)) (hs_sequence S)"
    using ok by (simp_all add: adjacency_ok_def)
  have S: "adjacency_ok d (S\<lparr>hs_sequence := c\<rparr>)"
    using ok numbers_ahead_mono [OF a(4) [OF N] subset_insertI order.refl] by (simp add: adjacency_ok_def)
  show ?thesis
  proof (cases "eigrp_packet_create (hx_packet X) (hx_stream X) (eigrp_packet_payload_limit (curr_mtu (hs_intf S)))")
    case None
    then show ?thesis using S by (simp add: eigrp_update_send_init_packet_def eigrp_update_neighbor_packet_create_def q)
  next
    case (Some s)
    obtain s1 where s1: "eigrp_packet_header_init (hx_stream X) 1 E s 1 q (last_recv_sequence (nbr (hs_intf S) n)) = Some s1"
        "stream_ok s1" "st_endp s1 = 20" using header_after_create [OF Some m] by blast
    let ?p = "init_packet n q (of_nat (st_endp (snd (packet_auth_encode (hx_stream X) (hx_tlv X) E s1))))"
    have "unat (pk_length ?p) = st_endp (snd (packet_auth_encode (hx_stream X) (hx_tlv X) E s1))"
      using auth_encode_end [OF s1(3,2), of "hx_stream X" "hx_tlv X" E] by (simp add: init_packet_def unsigned_of_nat take_bit_eq_mod)
    then have p: "new_packet (hs_intf S) ?p"
      using a(1-3) [OF N] auth_encode_end [OF s1(3,2), of "hx_stream X" "hx_tlv X" E]
      by (simp add: new_packet_def clean_def EIGRP_HEADER_LEN_def EIGRP_OPC_HELLO_def word_le_nat_alt) (simp add: init_packet_def)
    have e: "eigrp_update_send_init_packet X E n S = Some (on_intf (rtp_send_init True n ?p) (S\<lparr>hs_sequence := c\<rparr>))"
      using X by (simp add: eigrp_update_send_init_packet_def eigrp_update_neighbor_packet_create_def q Some s1(1) init_packet_def split: prod.splits)
    have "outstanding (rtp_send_init True n ?p (hs_intf S)) \<subseteq> insert q (outstanding (hs_intf S))"
      using send_init_simps(2) [OF n, of ?p] by (simp add: init_packet_def)
    then have "adjacency_ok d (on_intf (rtp_send_init True n ?p) (S\<lparr>hs_sequence := c\<rparr>))"
      using ok init_ok [OF r n p] send_init_simps(1) [OF n, of ?p] numbers_ahead_mono [OF a(4) [OF N] _ order.refl]
      by (simp add: adjacency_ok_def)
    with e send_init_simps [OF n, of ?p] show ?thesis by simp
  qed
qed

subsection \<open>The receiver is total and keeps the invariant\<close>

lemma parameter_decode_ok:
  assumes ok: "adjacency_ok (d + 2) S" and n: "n \<in> set (nbr_list (hs_intf S))" and X: "hx_copy X" and l: "12 \<le> length bs"
  shows "\<exists>alive S'. eigrp_hello_parameter_decode X E n bs S = Some (alive, S') \<and> adjacency_ok d S' \<and> hs_src S' = hs_src S
     \<and> (alive \<longrightarrow> nbr_list (hs_intf S') = nbr_list (hs_intf S))"
proof -
  define k where "k = field 4 6 bs"
  define T where "T = on_intf (nbr_change n (\<lambda>nb. nb\<lparr>nbr_K := k, v_holddown := ntohs (field 10 2 bs)\<rparr>)) S"
  have T: "adjacency_ok (d + 2) T" unfolding T_def by (rule adjacency_unseen [OF ok]) (simp add: unseen_def)
  have T': "adjacency_ok d T" by (rule adjacency_mono [OF T]) simp
  have f: "nbr_list (hs_intf T) = nbr_list (hs_intf S)" "hs_src T = hs_src S" by (simp_all add: T_def)
  have pk: "peek 4 6 bs = Some k" "peek_u16 10 bs = Some (ntohs (field 10 2 bs))" using l by (simp_all add: peek_simps k_def)
  have e: "eigrp_hello_parameter_decode X E n bs S =
      (let down = on_intf (eigrp_nbr_state_update (hx_now X) n EIGRP_NEIGHBOR_DOWN) T
       in if eigrp_hello_goodbye k then Some (False, on_intf (eigrp_nbr_delete (hx_now X) n) down)
          else if \<not> eigrp_hello_k_match (he_instance E) (nbr (hs_intf T) n)
          then Some (True, if adj_state (nbr (hs_intf T) n) \<noteq> EIGRP_NEIGHBOR_DOWN then down else T)
          else if adj_state (nbr (hs_intf T) n) = EIGRP_NEIGHBOR_DOWN
          then do {
            S \<leftarrow> eigrp_hello_send X True E EIGRP_HELLO_NORMAL (Some (hs_src T n)) T;
            S \<leftarrow> eigrp_update_send_init_packet X E n S;
            Some (True, on_intf (eigrp_nbr_state_update (hx_now X) n EIGRP_NEIGHBOR_PENDING) S) }
          else Some (True, T))"
    using l by (simp only: eigrp_hello_parameter_decode_def pk bind.bind_lunit Let_def T_def [symmetric])
  show ?thesis
  proof (cases "\<not> eigrp_hello_goodbye k \<and> eigrp_hello_k_match (he_instance E) (nbr (hs_intf T) n) \<and> adj_state (nbr (hs_intf T) n) = EIGRP_NEIGHBOR_DOWN")
    case True
    obtain U where U: "eigrp_hello_send X True E EIGRP_HELLO_NORMAL (Some (hs_src T n)) T = Some U" "adjacency_ok (d + 2) U"
        "hs_src U = hs_src T" "nbr_list (hs_intf U) = nbr_list (hs_intf T)" "nbr (hs_intf U) = nbr (hs_intf T)"
      using hello_send_ok [OF T] by blast
    obtain W where W: "eigrp_update_send_init_packet X E n U = Some W" "adjacency_ok d W" "hs_src W = hs_src U"
        "nbr_list (hs_intf W) = nbr_list (hs_intf U)" "adj_state (nbr (hs_intf W) n) = adj_state (nbr (hs_intf U) n)"
      using send_init_ok [OF U(2) _ X] n U(4) f(1) by metis
    have "adjacency_ok d (on_intf (eigrp_nbr_state_update (hx_now X) n EIGRP_NEIGHBOR_PENDING) W)"
      using True U(5) W(5) by (intro adjacency_pending [OF W(2)]) simp
    then show ?thesis using e True U W f by (auto simp: pending_state_simps)
  next
    case False
    then show ?thesis
      using e T' f adjacency_down [OF T'] adjacency_delete [OF adjacency_down [OF T']] by (auto simp: Let_def)
  qed
qed

lemma version_decode_ok:
  assumes "adjacency_ok d S" and "8 \<le> length bs"
  shows "\<exists>S'. eigrp_sw_version_decode E n bs S = Some S' \<and> adjacency_ok d S' \<and> hs_src S' = hs_src S
     \<and> nbr_list (hs_intf S') = nbr_list (hs_intf S)"
proof -
  let ?v = "field 4 4 bs"
  have e: "eigrp_sw_version_decode E n bs S
      = Some (on_intf (eigrp_nbr_codec_select n (eigrp_metric_version_select (Some (he_instance E)) (?v ! 2)))
               (S\<lparr>hs_release := (hs_release S)(n := ?v)\<rparr>))"
    using assms(2) by (simp add: eigrp_sw_version_decode_def peek_simps)
  have r: "adjacency_ok d (S\<lparr>hs_release := (hs_release S)(n := ?v)\<rparr>)" using assms(1) by (simp add: adjacency_ok_def)
  have "adjacency_ok d (on_intf (eigrp_nbr_codec_select n v) (S\<lparr>hs_release := (hs_release S)(n := ?v)\<rparr>))" for v
    using r adjacency_unseen [OF r, of "\<lambda>nb. nb\<lparr>peer_tlv_version := v\<rparr>" n] unfolding eigrp_nbr_codec_select_def
    by (simp add: unseen_def on_intf_def)
  with e show ?thesis by (auto simp: eigrp_nbr_codec_select_def)
qed

lemma sequence_lists_total: "len \<le> length bs \<Longrightarrow> sequence_lists expected me len bs off listed \<noteq> None"
proof (induction expected me len bs off listed rule: sequence_lists.induct)
  case (1 expected me len bs off listed)
  then show ?case by (subst sequence_lists.simps) (auto simp: peek_simps not_less)
qed

lemma termination_contains_total: "len \<le> length bs \<Longrightarrow> eigrp_peer_termination_contains expected me len bs off \<noteq> None"
proof (induction expected me len bs off rule: eigrp_peer_termination_contains.induct)
  case (1 expected me len bs off)
  then show ?case by (subst eigrp_peer_termination_contains.simps) (auto simp: peek_simps not_less)
qed

lemma hello_tlv_ok:
  assumes ok: "adjacency_ok (d + 2) S" and n: "n \<in> set (nbr_list (hs_intf S))" and X: "hx_copy X" and l: "4 \<le> len" "len \<le> length bs"
  shows "\<exists>r S'. hello_tlv X E me n ty len bs seen S = Some (r, S') \<and> adjacency_ok d S' \<and> hs_src S' = hs_src S
     \<and> (r \<noteq> None \<longrightarrow> nbr_list (hs_intf S') = nbr_list (hs_intf S))
     \<and> (ty = EIGRP_TLV_PARAMETER \<longrightarrow> (\<forall>x. r = Some x \<longrightarrow> parameter_seen x))
     \<and> (\<forall>x. r = Some x \<longrightarrow> parameter_seen seen \<longrightarrow> parameter_seen x)"
proof -
  have ok': "adjacency_ok d S" by (rule adjacency_mono [OF ok]) simp
  consider "ty = EIGRP_TLV_PARAMETER" "12 \<le> len" | "ty = EIGRP_TLV_SW_VERSION" "8 \<le> len" | "ty = EIGRP_TLV_PEER_TERMINATION" "9 \<le> len"
    | "ty = EIGRP_TLV_SEQ" | "ty = EIGRP_TLV_NEXT_MCAST_SEQ"
    | "\<not> (ty = EIGRP_TLV_PARAMETER \<and> 12 \<le> len)" "\<not> (ty = EIGRP_TLV_SW_VERSION \<and> 8 \<le> len)" "\<not> (ty = EIGRP_TLV_PEER_TERMINATION \<and> 9 \<le> len)"
      "ty \<noteq> EIGRP_TLV_SEQ" "ty \<noteq> EIGRP_TLV_NEXT_MCAST_SEQ"
    by blast
  then show ?thesis
  proof cases
    case 1
    then have "12 \<le> length bs" using l by simp
    from parameter_decode_ok [OF ok n X this, of E] 1 show ?thesis by (fastforce simp: hello_tlv_def hello_consts)
  next
    case 2
    then have "8 \<le> length bs" using l by simp
    from version_decode_ok [OF ok' this, of E n] 2 show ?thesis by (fastforce simp: hello_tlv_def hello_consts)
  next
    case 3
    obtain here where h: "eigrp_peer_termination_contains (packet_address_bytes (he_vectors E)) me len bs 4 = Some here"
      using termination_contains_total [OF l(2)] by blast
    let ?f = "\<lambda>I. eigrp_nbr_delete (hx_now X) n (eigrp_nbr_state_update (hx_now X) n EIGRP_NEIGHBOR_DOWN I)"
    have "on_intf ?f S = on_intf (eigrp_nbr_delete (hx_now X) n) (on_intf (eigrp_nbr_state_update (hx_now X) n EIGRP_NEIGHBOR_DOWN) S)"
      by (simp add: on_intf_def)
    then have "adjacency_ok d (on_intf ?f S)" using adjacency_delete [OF adjacency_down [OF ok']] by (simp only:)
    then show ?thesis using 3 h ok' by (simp add: hello_tlv_def hello_consts eigrp_peer_termination_decode_def)
  next
    case 4
    then show ?thesis using ok' sequence_lists_total [OF l(2), of "packet_address_bytes (he_vectors E)" me 4 False]
      by (auto simp: hello_tlv_def hello_consts)
  next
    case 5
    then show ?thesis using ok' l by (auto simp: hello_tlv_def hello_consts peek_simps)
  next
    case 6
    then have "hello_tlv X E me n ty len bs seen S \<in> {Some (None, S), Some (Some seen, S)}"
      and "ty = EIGRP_TLV_PARAMETER \<Longrightarrow> hello_tlv X E me n ty len bs seen S = Some (None, S)"
      by (auto simp: hello_tlv_def Let_def hello_consts)
    then show ?thesis using ok' by (cases "ty = EIGRP_TLV_PARAMETER") auto
  qed
qed

text \<open>The walk of the check goes over the same TLVs as the receiver.\<close>

lemma walk_front:
  assumes "hello_tlvs_walk expected bs seen = Some True" and "bs \<noteq> []"
  defines "len \<equiv> unat (ntohs (field 2 2 bs))"
  shows "4 \<le> length bs" "4 \<le> len" "len \<le> length bs"
    "hello_tlvs_walk expected (drop len bs) (seen \<or> ntohs (field 0 2 bs) = EIGRP_TLV_PARAMETER) = Some True"
proof -
  have l: "4 \<le> length bs" using assms(1,2) by (subst (asm) hello_tlvs_walk.simps) (auto simp: hello_consts not_less split: if_splits)
  then have p: "peek_u16 0 bs = Some (ntohs (field 0 2 bs))" "map_option unat (peek_u16 2 bs) = Some len" by (simp_all add: peek_simps len_def)
  show "4 \<le> length bs" by (rule l)
  show "4 \<le> len" "len \<le> length bs" "hello_tlvs_walk expected (drop len bs) (seen \<or> ntohs (field 0 2 bs) = EIGRP_TLV_PARAMETER) = Some True"
    using assms(1,2) l by (subst (asm) hello_tlvs_walk.simps; simp add: p hello_consts bind_eq_Some_conv split: if_splits)+
qed

lemma walk_nil: "hello_tlvs_walk expected [] seen = Some seen"
  by (subst hello_tlvs_walk.simps) simp

lemma hello_tlvs_ok:
  assumes "hello_tlvs_walk expected bs s0 = Some True" and "bs \<noteq> []" and "adjacency_ok (d + length bs) S"
    and "n \<in> set (nbr_list (hs_intf S))" and "hx_copy X" and "s0 \<longrightarrow> parameter_seen seen"
  shows "\<exists>r S'. hello_tlvs X E me n bs seen S = Some (r, S') \<and> adjacency_ok d S' \<and> hs_src S' = hs_src S
     \<and> (r \<noteq> None \<longrightarrow> nbr_list (hs_intf S') = nbr_list (hs_intf S)) \<and> (\<forall>x. r = Some x \<longrightarrow> parameter_seen x)"
  using assms
proof (induction bs arbitrary: s0 seen S rule: length_induct)
  case (1 bs)
  let ?ty = "ntohs (field 0 2 bs)" and ?len = "unat (ntohs (field 2 2 bs))"
  note w = walk_front [OF "1.prems"(1,2)]
  have ok: "adjacency_ok (d + length (drop ?len bs) + 2) S"
    by (rule adjacency_mono [OF "1.prems"(3)]) (use w in simp)
  obtain r S' where t: "hello_tlv X E me n ?ty ?len bs seen S = Some (r, S')" "adjacency_ok (d + length (drop ?len bs)) S'" "hs_src S' = hs_src S"
      "r \<noteq> None \<Longrightarrow> nbr_list (hs_intf S') = nbr_list (hs_intf S)"
      "\<And>x. ?ty = EIGRP_TLV_PARAMETER \<or> parameter_seen seen \<Longrightarrow> r = Some x \<Longrightarrow> parameter_seen x"
    using hello_tlv_ok [OF ok "1.prems"(4,5) w(2,3), of E me ?ty seen] by blast
  have e: "hello_tlvs X E me n bs seen S =
      (case r of None \<Rightarrow> Some (None, S') | Some x \<Rightarrow> (if ?len < length bs then hello_tlvs X E me n (drop ?len bs) x S' else Some (Some x, S')))"
    using w t(1) by (subst hello_tlvs.simps) (simp add: peek_simps hello_consts)
  have a: "adjacency_ok d S'" by (rule adjacency_mono [OF t(2)]) simp
  show ?case
  proof (cases r)
    case None
    then show ?thesis using e t(3) a by simp
  next
    case (Some x)
    have x: "parameter_seen x" if "s0 \<or> ?ty = EIGRP_TLV_PARAMETER" using that t(5) Some "1.prems"(6) by blast
    show ?thesis
    proof (cases "?len < length bs")
      case True
      have "length (drop ?len bs) < length bs" "drop ?len bs \<noteq> []" using w(2) True by auto
      then obtain r2 S2 where "hello_tlvs X E me n (drop ?len bs) x S' = Some (r2, S2)" "adjacency_ok d S2" "hs_src S2 = hs_src S'"
          "r2 \<noteq> None \<longrightarrow> nbr_list (hs_intf S2) = nbr_list (hs_intf S')" "\<forall>x. r2 = Some x \<longrightarrow> parameter_seen x"
        using "1.IH" [rule_format, OF _ w(4) _ t(2) _ "1.prems"(5) x] t(4) Some "1.prems"(4) by auto
      then show ?thesis using e Some True t(3,4) by simp
    next
      case False
      then have "parameter_seen x" using w(3,4) x by (simp add: walk_nil)
      then show ?thesis using e Some False t(3,4) a by simp
    qed
  qed
qed

subsection \<open>A new neighbour\<close>

lemma state_down_nbr:
  "nbr (eigrp_nbr_state_update now n EIGRP_NEIGHBOR_DOWN I) =
     (nbr I)(n := (nbr_reset (nbr (state_enter now n EIGRP_NEIGHBOR_DOWN I) n))\<lparr>crypt_seqnum := 0\<rparr>)"
  by (rule ext) (simp add: state_down reset_def)

lemma nbr_reset_twice:
  "adj_state nb = EIGRP_NEIGHBOR_DOWN
   \<Longrightarrow> nbr_reset ((nbr_reset nb)\<lparr>crypt_seqnum := 0, adj_state := EIGRP_NEIGHBOR_DOWN\<rparr>) = (nbr_reset nb)\<lparr>crypt_seqnum := 0\<rparr>"
  by (simp add: nbr_reset_def eigrp_nbr_rtt_clear_def)

lemma admit_room: "eigrp_nbr_admit_locked others own \<Longrightarrow> Suc own \<le> EIGRP_NEIGHBOR_MAX_PER_INTERFACE"
  by (simp add: eigrp_nbr_admit_locked_def)

lemma lookup_found: "eigrp_nbr_lookup src S = Some n \<Longrightarrow> n \<in> set (nbr_list (hs_intf S)) \<and> hs_src S n = src"
  by (auto simp: eigrp_nbr_lookup_def dest: find_Some_set)

lemma lookup_missing: "eigrp_nbr_lookup src S = None \<Longrightarrow> src \<notin> hs_src S ` set (nbr_list (hs_intf S))"
  by (auto simp: eigrp_nbr_lookup_def find_None_set)

lemma create_admitted:
  assumes ok: "adjacency_ok d S" and X: "hx_nbr X = Some n" "n \<notin> set (nbr_list (hs_intf S))" and new: "eigrp_nbr_lookup src S = None"
    and a: "eigrp_nbr_admit_locked others (length (nbr_list (hs_intf S)))"
  defines "J \<equiv> eigrp_nbr_state_update (hx_now X) n EIGRP_NEIGHBOR_DOWN (nbr_change n (\<lambda>_. eigrp_nbr_init) (hs_intf S))"
  shows "adjacency_ok d (S\<lparr>hs_intf := J\<rparr>)" and "nbr_list J = nbr_list (hs_intf S)"
    and "adjacency_ok d (S\<lparr>hs_intf := J\<lparr>nbr_list := nbr_list (hs_intf S) @ [n]\<rparr>, hs_src := (hs_src S)(n := src), hs_release := rl,
           hs_cleanup := cl, hs_next_generation := g, hs_gen := gs\<rparr>)"
proof -
  let ?K = "J\<lparr>nbr_list := nbr_list (hs_intf S) @ [n]\<rparr>"
  have w: "work_ok (hs_intf S)" "sane (hs_intf S)" "distinct (nbr_list (hs_intf S))"
    using ok flags_sane by (auto simp: adjacency_ok_def rtp_ok_work work_ok_def base_ok_def)
  have J: "rtp_ok J" unfolding J_def using w by (intro nbr_reset_ok [OF w(1)]) (auto simp: sane_def)
  show l: "nbr_list J = nbr_list (hs_intf S)" by (simp add: J_def)
  have m: "curr_mtu J = curr_mtu (hs_intf S)" by (simp add: J_def)
  have o: "outstanding J \<subseteq> outstanding (hs_intf S)"
    using X(2) by (auto simp: J_def outstanding_def queue_def state_down reset_def split: if_splits)
  then show "adjacency_ok d (S\<lparr>hs_intf := J\<rparr>)"
    using ok J l m numbers_ahead_mono [OF _ o order.refl] by (simp add: adjacency_ok_def)
  have "nbr_reset ((nbr J n)\<lparr>adj_state := EIGRP_NEIGHBOR_DOWN\<rparr>) = nbr J n"
    using nbr_reset_twice [of "nbr (state_enter (hx_now X) n EIGRP_NEIGHBOR_DOWN (nbr_change n (\<lambda>_. eigrp_nbr_init) (hs_intf S))) n"]
    by (simp add: J_def state_down_nbr)
  then have "nbr_publish n (nbr J n) J = ?K" by (simp add: nbr_publish_def l)
  then have K: "rtp_ok ?K" using publish_ok [OF J, of n "nbr J n"] X(2) l by simp
  have "outstanding ?K \<subseteq> outstanding J \<union> sequence_number ` set (queue n J)"
    by (auto simp: outstanding_def queue_def l)
  also have "queue n J = []" by (simp add: J_def queue_def state_down_nbr)
  finally have K2: "outstanding ?K \<subseteq> outstanding (hs_intf S)" using o by auto
  have d: "distinct (map ((hs_src S)(n := src)) (nbr_list (hs_intf S) @ [n]))"
    using ok X(2) lookup_missing [OF new] by (auto simp: adjacency_ok_def distinct_map inj_on_def image_iff)
  show "adjacency_ok d (S\<lparr>hs_intf := ?K, hs_src := (hs_src S)(n := src), hs_release := rl, hs_cleanup := cl, hs_next_generation := g, hs_gen := gs\<rparr>)"
    using ok K admit_room [OF a] d m numbers_ahead_mono [OF _ K2 order.refl] by (simp add: adjacency_ok_def)
qed

lemma nbr_create_ok:
  assumes ok: "adjacency_ok d S" and f: "\<And>n. hx_nbr X = Some n \<Longrightarrow> n \<notin> set (nbr_list (hs_intf S))" and new: "eigrp_nbr_lookup src S = None"
    and c: "eigrp_nbr_create X others src S = (r, S')"
  shows "adjacency_ok d S'" and "r = Some m \<Longrightarrow> m \<in> set (nbr_list (hs_intf S')) \<and> hs_src S' m = src"
proof -
  have "adjacency_ok d S' \<and> (r = Some m \<longrightarrow> m \<in> set (nbr_list (hs_intf S')) \<and> hs_src S' m = src)"
  proof (cases "hx_nbr X = None \<or> \<not> eigrp_nbr_admit_locked others (length (nbr_list (hs_intf S)))")
    case True
    then show ?thesis using c ok by (auto simp: eigrp_nbr_create_def split: if_splits)
  next
    case False
    then obtain n where n: "hx_nbr X = Some n" by auto
    note a = create_admitted [OF ok n f [OF n] new, of others]
    from c False n ok a show ?thesis by (auto simp: eigrp_nbr_create_def Let_def on_intf_def split: if_splits)
  qed
  then show "adjacency_ok d S'" "r = Some m \<Longrightarrow> m \<in> set (nbr_list (hs_intf S')) \<and> hs_src S' m = src" by auto
qed

subsection \<open>Every packet\<close>

lemma finish_ok: "adjacency_ok d S \<Longrightarrow> adjacency_ok d (hello_finish X n new_nbr ack seen S)"
proof -
  assume ok: "adjacency_ok d S"
  have h: "adjacency_ok d (eigrp_nbr_holddown_update X n T)" if "adjacency_ok d T" for T
    unfolding eigrp_nbr_holddown_update_def Let_def using that by (rule adjacency_unseen) (simp add: unseen_def)
  have c: "adjacency_ok d (on_intf (nbr_change n (\<lambda>nb. nb\<lparr>cr_mode := a, cr_sequence := b\<rparr>)) S)" for a b
    using ok by (rule adjacency_unseen) (simp add: unseen_def)
  show ?thesis using ok h c adjacency_delete [OF ok] by (simp add: hello_finish_def Let_def)
qed

lemma hello_receive_ok:
  assumes ok: "adjacency_ok (d + length packet) S" and X: "hx_copy X" and f: "\<And>n. hx_nbr X = Some n \<Longrightarrow> n \<notin> set (nbr_list (hs_intf S))"
    and a: "auth_type (he_auth E) = EIGRP_AUTH_TYPE_NONE \<or> 36 \<le> length packet"
  shows "\<exists>S'. eigrp_hello_receive X others af E name me src packet S = Some S' \<and> adjacency_ok d S'"
proof -
  obtain v where v: "eigrp_hello_tlvs_validate (he_vectors E) (drop 20 packet) = Some v"
    using hello_tlvs_walk_total by (fastforce simp: eigrp_hello_tlvs_validate_def)
  have ok': "adjacency_ok d S" by (rule adjacency_mono [OF ok]) simp
  show ?thesis
  proof (cases "20 \<le> length packet \<and> v \<and> eigrp_nbr_static_source_allowed af (he_vectors E) name src")
    case False
    then show ?thesis using v ok' by (auto simp: eigrp_hello_receive_def auth_consts not_less)
  next
    case True
    obtain r new T where T: "hello_nbr X others src S = (r, new, T)" by (metis prod_cases3)
    have aT: "adjacency_ok (d + length packet) T" and nT: "\<And>n. r = Some n \<Longrightarrow> n \<in> set (nbr_list (hs_intf T))"
      using T ok nbr_create_ok [OF ok f] lookup_found [of src S] by (auto simp: hello_nbr_def split: option.splits prod.splits)
    show ?thesis
    proof (cases r)
      case None
      then show ?thesis using True T v adjacency_mono [OF aT] by (simp add: eigrp_hello_receive_def auth_consts)
    next
      case (Some n)
      let ?seen = "\<lparr>parameter_seen = False, sequence_seen = False, sequence_listed = False, next_multicast_sequence = 0\<rparr>"
      define U where "U = (if new \<and> auth_type (he_auth E) \<noteq> EIGRP_AUTH_TYPE_NONE
          then on_intf (nbr_change n (\<lambda>nb. nb\<lparr>crypt_seqnum := ntohl (field 32 4 packet)\<rparr>)) T else T)"
      have U: "adjacency_ok (d + length packet) U" "n \<in> set (nbr_list (hs_intf U))"
        using aT adjacency_unseen [OF aT] nT Some by (auto simp: U_def unseen_def)
      have w: "hello_tlvs_walk (packet_address_bytes (he_vectors E)) (drop 20 packet) False = Some True" "drop 20 packet \<noteq> []"
        using v True by (auto simp: eigrp_hello_tlvs_validate_def walk_nil)
      obtain q S' where q: "hello_tlvs X E me n (drop 20 packet) ?seen U = Some (q, S')" "adjacency_ok d S'"
        using hello_tlvs_ok [OF w adjacency_mono [OF U(1)] U(2) X, of d ?seen E me] by auto
      have "eigrp_hello_receive X others af E name me src packet S
          = Some (case q of None \<Rightarrow> S' | Some seen \<Rightarrow> hello_finish X n new (ntohl (field 12 4 packet)) seen S')"
        using True T Some v a q(1) by (auto simp: eigrp_hello_receive_def auth_consts U_def peek_simps)
      then show ?thesis using q(2) finish_ok by (auto split: option.splits)
    qed
  qed
qed

end
