(* ===== verification/Eigrp_Discovery.thy ===== *)
theory Eigrp_Discovery
  imports Eigrp_Adjacency
begin

text \<open>
  Two routers meet: what the Hello receiver of one does with a Hello that the encoder of the other has built.  The receiver's walk
  over the TLVs is computed on their wire form; for an unknown sender it ends with an adjacency that is being established, and for a
  known one with the conditional-receive mode the SEQUENCE TLVs ask for.
\<close>

subsection \<open>Safety\<close>

text \<open>
  The Hello receiver is safe against every packet.  For any bytes from any source, it reads nothing outside of the packet and
  always returns, and it keeps the invariant of discovery: reliable delivery in order (no lost wake-up, sequence numbers in one
  window), at most \<^verbatim>\<open>EIGRP_NEIGHBOR_MAX_PER_INTERFACE\<close> neighbours, no two with the same address.  The hypotheses: the packet is long
  enough for the authentication TLV where the packet-level check has required one, a new neighbour object is none of the existing
  ones, a copy of the INIT packet can be allocated, and the window has room for the INIT packets.
\<close>

theorem hello_receive_safe:
  assumes "adjacency_ok (d + length packet) S" and "hx_copy X" and "\<And>n. hx_nbr X = Some n \<Longrightarrow> n \<notin> set (nbr_list (hs_intf S))"
    and "auth_type (he_auth E) = EIGRP_AUTH_TYPE_NONE \<or> 36 \<le> length packet"
  shows "\<exists>S'. eigrp_hello_receive X others af E name me src packet S = Some S' \<and> adjacency_ok d S'"
  by (rule hello_receive_ok [OF assms])

subsection \<open>The receiver on the wire form\<close>

lemma hello_tlvs_tlv:
  assumes "length v < 65532"
  shows "hello_tlvs X E me n (tlv ty v @ r) seen S =
     do { (result, S) \<leftarrow> hello_tlv X E me n ty (4 + length v) (tlv ty v @ r) seen S;
          case result of
            None \<Rightarrow> Some (None, S)
          | Some seen \<Rightarrow> (if r \<noteq> [] then hello_tlvs X E me n r seen S else Some (Some seen, S)) }"
proof -
  have l: "length (tlv ty v @ r) = 4 + length v + length r" by simp
  have p: "peek_u16 0 (tlv ty v @ r) = Some ty" "map_option unat (peek_u16 2 (tlv ty v @ r)) = Some (4 + length v)"
    using unat_tlv_length [OF assms] tlv_front(1,2) [of ty v r] by (simp_all add: peek_simps)
  have g: "(4 + length v < 4 + length v + length r) = (r \<noteq> [])" "(4 + length v < 4) = False" "(4 + length v + length r < 4 + length v) = False"
    by simp_all
  show ?thesis
    by (subst hello_tlvs.simps)
       (simp only: p bind.bind_lunit l hello_consts g simp_thms if_False tlv_front(4))
qed

lemma hello_tlvs_skip:
  assumes "ty \<notin> {EIGRP_TLV_PARAMETER, EIGRP_TLV_SEQ, EIGRP_TLV_SW_VERSION, EIGRP_TLV_NEXT_MCAST_SEQ, EIGRP_TLV_PEER_TERMINATION}"
    and "length v < 65532" and "r \<noteq> []"
  shows "hello_tlvs X E me n (tlv ty v @ r) seen S = hello_tlvs X E me n r seen S"
  using assms by (simp add: hello_tlvs_tlv hello_tlv_def)

lemma hello_tlvs_auth: "r \<noteq> [] \<Longrightarrow> hello_tlvs X E me n (auth_wire Ep @ r) seen S = hello_tlvs X E me n r seen S"
  using auth_wire_tlv [of Ep] hello_tlvs_skip [of EIGRP_TLV_AUTH _ r] by (auto simp: hello_consts EIGRP_TLV_AUTH_def)

text \<open>What a Hello with matching K values does to a neighbour whose adjacency exists: the values of its parameters, and its codec.\<close>

definition heard :: "hello_env \<Rightarrow> hello_env \<Rightarrow> nbr_id \<Rightarrow> hello_state \<Rightarrow> hello_state" where
  "heard E Ep n S =
     (let S = on_intf (nbr_change n (\<lambda>nb. nb\<lparr>nbr_K := take 6 (k_values (he_instance Ep)), v_holddown := he_wait Ep\<rparr>)) S;
          S = S\<lparr>hs_release := (hs_release S)(n := [host_major Ep, host_minor Ep, metric_version (he_instance Ep), 2])\<rparr>
      in on_intf (eigrp_nbr_codec_select n (eigrp_metric_version_select (Some (he_instance E)) (metric_version (he_instance Ep)))) S)"

text \<open>K values that are those of the receiver and not the goodbye.\<close>

definition k_compatible :: "hello_env \<Rightarrow> hello_env \<Rightarrow> bool" where
  "k_compatible E Ep \<longleftrightarrow> length (k_values (he_instance Ep)) = 6 \<and> take 5 (k_values (he_instance E)) = take 5 (k_values (he_instance Ep))
     \<and> take 5 (k_values (he_instance Ep)) \<noteq> replicate 5 0xff"

lemma parameter_fields:
  assumes "length k = 6"
  shows "peek 4 6 (parameter_wire k hold @ r) = Some k" "peek_u16 10 (parameter_wire k hold @ r) = Some hold"
  using assms tlv_front(3) [of 0 6 "k @ htons hold" EIGRP_TLV_PARAMETER r] tlv_front(3) [of 6 2 "k @ htons hold" EIGRP_TLV_PARAMETER r]
    field_mid [of k 6 "htons hold" 2 "[]"] field_mid [of "[]" 0 k 6 "htons hold"]
  by (simp_all add: parameter_wire_def peek_simps)

lemma hello_k_normal: "hello_k E EIGRP_HELLO_NORMAL = take 6 (k_values (he_instance E))"
  "hello_k E EIGRP_HELLO_ADD_SEQUENCE = take 6 (k_values (he_instance E))"
  by (simp_all add: hello_k_def hello_flags)

lemma hello_tlvs_version:
  "hello_tlvs X E me n (version_wire Ep @ r) seen S =
     (let S' = on_intf (eigrp_nbr_codec_select n (eigrp_metric_version_select (Some (he_instance E)) (metric_version (he_instance Ep))))
                 (S\<lparr>hs_release := (hs_release S)(n := [host_major Ep, host_minor Ep, metric_version (he_instance Ep), 2])\<rparr>)
      in if r \<noteq> [] then hello_tlvs X E me n r seen S' else Some (Some seen, S'))"
proof -
  let ?v = "[host_major Ep, host_minor Ep, metric_version (he_instance Ep), 2]"
  have p: "peek 4 4 (tlv EIGRP_TLV_SW_VERSION ?v @ r) = Some ?v" for r
    using tlv_front(3) [of 0 4 ?v EIGRP_TLV_SW_VERSION r] by (simp add: peek_simps) (simp add: field_def)
  show ?thesis
    using p [of r] p [of "[]"] unfolding version_wire_def by (simp add: hello_tlvs_tlv hello_tlv_def eigrp_sw_version_decode_def Let_def) (simp add: hello_consts)
qed

lemma hello_tlvs_parameter:
  assumes "length k = 6" and "r \<noteq> []"
  shows "hello_tlvs X E me n (parameter_wire k hold @ r) seen S = do {
     (alive, S) \<leftarrow> eigrp_hello_parameter_decode X E n (parameter_wire k hold @ r) S;
     if alive then hello_tlvs X E me n r (seen\<lparr>parameter_seen := True\<rparr>) S else Some (None, S) }"
  using assms unfolding parameter_wire_def
  by (cases "eigrp_hello_parameter_decode X E n (tlv EIGRP_TLV_PARAMETER (k @ htons hold) @ r) S")
     (auto simp: hello_tlvs_tlv hello_tlv_def EIGRP_TLV_PARAMETER_LEN_def)

lemma parameter_known:
  assumes k: "k_compatible E Ep" and n: "adj_state (nbr (hs_intf S) n) \<noteq> EIGRP_NEIGHBOR_DOWN"
  shows "eigrp_hello_parameter_decode X E n (parameter_wire (take 6 (k_values (he_instance Ep))) (he_wait Ep) @ r) S
     = Some (True, on_intf (nbr_change n (\<lambda>nb. nb\<lparr>nbr_K := take 6 (k_values (he_instance Ep)), v_holddown := he_wait Ep\<rparr>)) S)"
proof -
  have l: "length (take 6 (k_values (he_instance Ep))) = 6" using k by (simp add: k_compatible_def)
  show ?thesis
    unfolding eigrp_hello_parameter_decode_def parameter_fields [OF l] bind.bind_lunit Let_def
    using k n by (simp add: eigrp_hello_goodbye_def eigrp_hello_k_match_def k_compatible_def)
qed

lemma hello_front_known:
  assumes k: "k_compatible E Ep" and n: "adj_state (nbr (hs_intf S) n) \<noteq> EIGRP_NEIGHBOR_DOWN" and r: "r \<noteq> []"
  shows "hello_tlvs X E me n (auth_wire Ep @ parameter_wire (take 6 (k_values (he_instance Ep))) (he_wait Ep) @ version_wire Ep @ r) seen S
     = hello_tlvs X E me n r (seen\<lparr>parameter_seen := True\<rparr>) (heard E Ep n S)"
proof -
  have l: "length (take 6 (k_values (he_instance Ep))) = 6" using k by (simp add: k_compatible_def)
  have v: "version_wire Ep \<noteq> []" "parameter_wire kk hold \<noteq> []" for kk hold by (simp_all add: version_wire_def parameter_wire_def tlv_def)
  show ?thesis
    using r v by (simp add: hello_tlvs_auth hello_tlvs_parameter [OF l] parameter_known [OF k n] hello_tlvs_version heard_def Let_def)
qed

subsection \<open>Conditional receive\<close>

lemma hello_tlvs_next:
  "hello_tlvs X E me n (tlv EIGRP_TLV_NEXT_MCAST_SEQ (htonl q)) seen S = Some (Some (seen\<lparr>next_multicast_sequence := q\<rparr>), S)"
proof -
  have "peek 4 4 (tlv EIGRP_TLV_NEXT_MCAST_SEQ (htonl q)) = Some (htonl q)"
    using tlv_front(3) [of 0 4 "htonl q" EIGRP_TLV_NEXT_MCAST_SEQ "[]"] by (simp add: peek_simps) (simp add: field_def)
  then show ?thesis using hello_tlvs_tlv [of "htonl q" X E me n EIGRP_TLV_NEXT_MCAST_SEQ "[]" seen S]
    by (simp add: hello_tlv_def) (simp add: hello_consts)
qed

context af_codec
begin

lemma sequence_lists_wire:
  assumes "\<forall>a \<in> set as. addr_ok a" and "length pre = off" and "bs = pre @ addresses_wire V as @ r"
    and "len = off + length (addresses_wire V as)"
  shows "sequence_lists (packet_address_bytes V) me len bs off listed
     = Some (listed \<or> me \<in> (\<lambda>a. take (packet_address_bytes V) (ip_bytes a)) ` set as)"
  using assms
proof (induction as arbitrary: pre off listed)
  case Nil
  then show ?case by (subst sequence_lists.simps) (simp add: addresses_wire_def)
next
  case (Cons a as)
  let ?n = "packet_address_bytes V"
  have l: "length (address_wire V a) = ?n + 1" and n: "unat (of_nat ?n :: u8) = ?n" and l': "length (take ?n (ip_bytes a)) = ?n"
    using Cons.prems(1) address_bytes by (simp_all add: address_wire_def addr_ok_def unsigned_of_nat take_bit_eq_mod)
  have "bs ! off = of_nat ?n" using Cons.prems(2,3) by (simp add: addresses_wire_def address_wire_def nth_append)
  moreover have "off < length bs" "off < len" "off + 1 + ?n \<le> len" "off + 1 + ?n \<le> length bs"
    using Cons.prems(2-4) l by (auto simp: addresses_wire_def)
  moreover have "field (off + 1) ?n bs = take ?n (ip_bytes a)"
    using field_mid [of "pre @ [of_nat ?n]" "off + 1" "take ?n (ip_bytes a)" ?n "addresses_wire V as @ r"] l' Cons.prems(2,3)
    by (simp add: addresses_wire_def address_wire_def)
  moreover have "sequence_lists ?n me len bs (off + 1 + ?n) x = Some (x \<or> me \<in> (\<lambda>a. take ?n (ip_bytes a)) ` set as)" for x
    using Cons.prems l by (intro Cons.IH [of "pre @ address_wire V a"]) (auto simp: addresses_wire_def)
  moreover have "0 < ?n" using address_bytes by simp
  ultimately show ?case using n by (subst sequence_lists.simps) (auto simp: peek_simps not_less)
qed

lemma hello_tlvs_sequence:
  assumes as: "\<forall>a \<in> set as. addr_ok a" and l: "length (addresses_wire V as) < 65532" and "as \<noteq> []" and r: "r \<noteq> []" and E: "he_vectors E = V"
  shows "hello_tlvs X E me n (sequence_wire V as @ r) seen S
     = hello_tlvs X E me n r (seen\<lparr>sequence_seen := True,
         sequence_listed := me \<in> (\<lambda>a. take (packet_address_bytes V) (ip_bytes a)) ` set as\<rparr>) S"
proof -
  have "sequence_lists (packet_address_bytes V) me (4 + length (addresses_wire V as)) (tlv EIGRP_TLV_SEQ (addresses_wire V as) @ r) 4 False
      = Some (False \<or> me \<in> (\<lambda>a. take (packet_address_bytes V) (ip_bytes a)) ` set as)"
    by (rule sequence_lists_wire [of _ "htons EIGRP_TLV_SEQ @ htons (of_nat (4 + length (addresses_wire V as)))" _ _ r])
       (use as in \<open>simp_all add: tlv_def\<close>)
  moreover have "1 \<le> length (addresses_wire V as)" using length_addresses_wire [OF as] assms(3) by (cases as) auto
  ultimately show ?thesis
    using assms(3) r unfolding sequence_wire_def by (simp add: hello_tlvs_tlv [OF l] hello_tlv_def E hello_consts)
qed

end

text \<open>The neighbour after a SEQUENCE Hello: its conditional-receive mode, and the multicast it waits for.\<close>

definition cr_after :: "bool \<Rightarrow> u32 \<Rightarrow> rtp_nbr \<Rightarrow> rtp_nbr" where
  "cr_after listed q nb = (let cr = \<not> listed \<and> q \<noteq> 0 in nb\<lparr>cr_mode := cr, cr_sequence := (if cr then q else 0)\<rparr>)"

lemma receive_known:
  assumes "eigrp_hello_tlvs_validate (he_vectors E) payload = Some True" and "length h = 20"
    and "eigrp_nbr_static_source_allowed af (he_vectors E) name src" and "eigrp_nbr_lookup src S = Some n"
    and "hello_tlvs X E me n payload \<lparr>parameter_seen = False, sequence_seen = False, sequence_listed = False, next_multicast_sequence = 0\<rparr> S
      = Some (Some seen, S')"
  shows "eigrp_hello_receive X others af E name me src (h @ payload) S
     = Some (hello_finish X n False (ntohl (field 12 4 (h @ payload))) seen S')"
  using assms by (simp add: eigrp_hello_receive_def auth_consts hello_nbr_def)

context af_codec
begin

lemma sequence_hello_family:
  assumes f: "family = addr_family.AF_INET \<longrightarrow> packet_address_bytes V = 4" "family = addr_family.AF_INET6 \<longrightarrow> packet_address_bytes V = 16"
    and E: "he_vectors E = V" "he_vectors Ep = V" and y: "hello_ready family Ep I None" and A: "\<forall>m. A m \<noteq> None" and h: "he_wait Ep \<noteq> 0"
    and e: "eigrp_hello_encode True A True Ep I (Some to) ack EIGRP_HELLO_ADD_SEQUENCE None q epoch = Some (Some (len, s))"
    and src: "eigrp_nbr_static_source_allowed af V name src" "eigrp_nbr_lookup src S = Some n"
    and n: "adj_state (nbr (hs_intf S) n) \<noteq> EIGRP_NEIGHBOR_DOWN" and k: "k_compatible E Ep"
  shows "eigrp_hello_receive X others af E name me src (written s) S
     = Some (if busy_addresses Ep I q epoch = [] then heard E Ep n S
             else on_intf (nbr_change n (cr_after
                    (me \<in> (\<lambda>a. take (packet_address_bytes V) (ip_bytes a)) ` set (busy_addresses Ep I q epoch)) q)) (heard E Ep n S))"
proof -
  let ?as = "busy_addresses Ep I q epoch" and ?p = "hello_payload Ep I EIGRP_HELLO_ADD_SEQUENCE None q epoch"
  let ?next = "tlv EIGRP_TLV_NEXT_MCAST_SEQ (htonl q)"
  let ?seen = "\<lparr>parameter_seen = False, sequence_seen = False, sequence_listed = False, next_multicast_sequence = 0\<rparr>"
  obtain s' where "eigrp_hello_encode True A True Ep I (Some to) ack EIGRP_HELLO_ADD_SEQUENCE None q epoch
      = Some (Some (of_nat (20 + length ?p), s'))" "written s' = packet_header 5 (he_vrid Ep) (he_AS Ep) 0 0 ack @ ?p"
    using hello_encode_wire [OF A E(2) y f] by blast
  then have w: "written s = packet_header 5 (he_vrid Ep) (he_AS Ep) 0 0 ack @ ?p" using e by simp
  have p: "?p = auth_wire Ep @ parameter_wire (take 6 (k_values (he_instance Ep))) (he_wait Ep) @ version_wire Ep @ sequence_wire V ?as @ ?next"
    by (simp add: hello_payload_def hello_flags E) (simp add: hello_k_def hello_flags)
  have ne: "sequence_wire V ?as @ ?next \<noteq> []" "?next \<noteq> []" by (simp_all add: tlv_def)
  have as: "\<forall>a \<in> set ?as. addr_ok a" using y by (auto simp: hello_ready_def busy_addresses_def)
  have l: "length (addresses_wire V ?as) < 65532" if "?as \<noteq> []"
    using length_sequence_wire [OF y, of q epoch] that by (simp add: sequence_wire_def)
  have t: "hello_tlvs X E me n ?p ?seen S =
      Some (Some (if ?as = [] then ?seen\<lparr>parameter_seen := True, next_multicast_sequence := q\<rparr>
        else ?seen\<lparr>parameter_seen := True, sequence_seen := True,
          sequence_listed := me \<in> (\<lambda>a. take (packet_address_bytes V) (ip_bytes a)) ` set ?as, next_multicast_sequence := q\<rparr>), heard E Ep n S)"
    unfolding p hello_front_known [OF k n ne(1)]
    by (cases "?as = []") (simp_all add: hello_tlvs_sequence [OF as l _ ne(2) E(1)] hello_tlvs_next sequence_wire_def [of V "[]"])
  have v: "eigrp_hello_tlvs_validate (he_vectors E) ?p = Some True"
    using hello_payload_valid [OF E(2) y h] by (simp add: eigrp_hello_tlvs_validate_def E)
  show ?thesis
    unfolding w using receive_known [OF v length_packet_header _ src(2) t] src(1)
    by (auto simp: E hello_finish_def cr_after_def [abs_def] Let_def)
qed

end

subsection \<open>A new adjacency\<close>

text \<open>Every allocation of the call succeeds, and \<open>n\<close> is the new neighbour object.\<close>

definition all_allocated :: "hello_world \<Rightarrow> nbr_id \<Rightarrow> bool" where
  "all_allocated X n \<longleftrightarrow> hx_nbr X = Some n \<and> hx_queue X \<and> hx_list X \<and> hx_packet X \<and> (\<forall>m. hx_stream X m \<noteq> None) \<and> hx_tlv X \<and> hx_copy X \<and> hx_timer X"

lemma create_done:
  assumes "all_allocated X n" and "n \<notin> set (nbr_list (hs_intf S))" and "ip_afi src = addr_family.AF_INET \<or> ip_afi src = addr_family.AF_INET6"
    and "eigrp_nbr_admit_locked others (length (nbr_list (hs_intf S)))"
  shows "\<exists>T. eigrp_nbr_create X others src S = (Some n, T) \<and> nbr_list (hs_intf T) = nbr_list (hs_intf S) @ [n] \<and> hs_src T n = src
     \<and> adj_state (nbr (hs_intf T) n) = EIGRP_NEIGHBOR_DOWN \<and> retrans_queue (nbr (hs_intf T) n) = [] \<and> \<not> adj_limited (nbr (hs_intf T) n)
     \<and> \<not> hs_cleanup T n \<and> af_suspended T = af_suspended S \<and> curr_mtu (hs_intf T) = curr_mtu (hs_intf S)"
  using assms
  by (auto simp: all_allocated_def eigrp_nbr_create_def Let_def state_down_nbr nbr_reset_def eigrp_nbr_rtt_clear_def state_enter_def
      eigrp_nbr_init_def)

lemma send_init_nbr:
  "nbr (rtp_send_init True n p I) n = (nbr I n)\<lparr>own_init_sequence := sequence_number p, retrans_queue := retrans_queue (nbr I n) @ [p]\<rparr>"
proof -
  have "nbr (eigrp_packet_send_reliably True n J) = nbr J" for J
    by (auto simp: eigrp_packet_send_reliably_def eigrp_packet_dup_def eigrp_packet_output_enqueue_def split: option.splits)
  then show ?thesis by (simp add: rtp_send_init_def eigrp_update_neighbor_packet_queue_def Let_def eigrp_packet_enqueue_def)
qed

lemma reserve_nonzero: "eigrp_packet_sequence_reserve c = (q, c') \<Longrightarrow> q \<noteq> 0"
  by (auto simp: eigrp_packet_sequence_reserve_def Let_def split: if_splits)

lemma update_send_init_done:
  assumes "all_allocated X m" and m: "40 \<le> curr_mtu (hs_intf S)"
  shows "\<exists>q c len. q \<noteq> 0 \<and> eigrp_update_send_init_packet X E n S = Some (on_intf (rtp_send_init True n (init_packet n q len)) (S\<lparr>hs_sequence := c\<rparr>))"
proof -
  have X: "hx_packet X" "\<forall>k. hx_stream X k \<noteq> None" "hx_copy X" using assms(1) by (auto simp: all_allocated_def)
  obtain q c where q: "eigrp_packet_sequence_reserve (hs_sequence S) = (q, c)" by fastforce
  have "eigrp_packet_payload_limit (curr_mtu (hs_intf S)) \<le> SIZE_MAX div 2"
    using unsigned_less [of "curr_mtu (hs_intf S)", where ?'a = nat] by (auto simp: eigrp_packet_payload_limit_def SIZE_MAX_def)
  then obtain s where s: "eigrp_packet_create True (hx_stream X) (eigrp_packet_payload_limit (curr_mtu (hs_intf S))) = Some s"
    using packet_create_total X(2) by blast
  obtain s1 where "eigrp_packet_header_init (hx_stream X) 1 E s 1 q (last_recv_sequence (nbr (hs_intf S) n)) = Some s1"
    using header_after_create [OF s m] by blast
  with q s X show ?thesis
    using reserve_nonzero [OF q]
    by (auto simp: eigrp_update_send_init_packet_def eigrp_update_neighbor_packet_create_def init_packet_def split: prod.splits)
qed

text \<open>The adjacency of \<open>n\<close> is being established: the INIT packet is the head of its queue, and the parameters are the peer's.\<close>

definition adjacency_started :: "hello_env \<Rightarrow> hello_env \<Rightarrow> nbr_id \<Rightarrow> eigrp_addr \<Rightarrow> hello_state \<Rightarrow> bool" where
  "adjacency_started E Ep n src S \<longleftrightarrow>
     n \<in> set (nbr_list (hs_intf S)) \<and> hs_src S n = src
     \<and> (let nb = nbr (hs_intf S) n
        in adj_state nb = EIGRP_NEIGHBOR_PENDING \<and> v_holddown nb = he_wait Ep
           \<and> peer_tlv_version nb = eigrp_metric_version_select (Some (he_instance E)) (metric_version (he_instance Ep))
           \<and> t_holddown nb = (\<not> af_suspended S)
           \<and> (\<exists>p. retrans_queue nb = [p] \<and> pk_flags p = 1 \<and> pk_nbr p = Some n \<and> sequence_number p \<noteq> 0
                  \<and> own_init_sequence nb = sequence_number p))"

lemma parameter_new:
  assumes k: "k_compatible E Ep" and X: "all_allocated X m" and ok: "adjacency_ok 0 S"
    and n: "adj_state (nbr (hs_intf S) n) = EIGRP_NEIGHBOR_DOWN" "\<not> adj_limited (nbr (hs_intf S) n)" "retrans_queue (nbr (hs_intf S) n) = []"
  shows "\<exists>W. eigrp_hello_parameter_decode X E n (parameter_wire (take 6 (k_values (he_instance Ep))) (he_wait Ep) @ r) S = Some (True, W)
     \<and> nbr_list (hs_intf W) = nbr_list (hs_intf S) \<and> hs_src W = hs_src S \<and> hs_cleanup W = hs_cleanup S \<and> af_suspended W = af_suspended S
     \<and> (\<exists>q len. q \<noteq> 0 \<and> nbr (hs_intf W) n = (nbr (hs_intf S) n)\<lparr>nbr_K := take 6 (k_values (he_instance Ep)), v_holddown := he_wait Ep,
          own_init_sequence := q, retrans_queue := [init_packet n q len], adj_state := EIGRP_NEIGHBOR_PENDING\<rparr>)"
proof -
  let ?k = "take 6 (k_values (he_instance Ep))"
  have l: "length ?k = 6" using k by (simp add: k_compatible_def)
  define T where "T = on_intf (nbr_change n (\<lambda>nb. nb\<lparr>nbr_K := ?k, v_holddown := he_wait Ep\<rparr>)) S"
  have T: "adjacency_ok 0 T" unfolding T_def by (rule adjacency_unseen [OF ok]) (simp add: unseen_def)
  obtain U where U: "eigrp_hello_send X True E EIGRP_HELLO_NORMAL (Some (hs_src T n)) T = Some U" "adjacency_ok 0 U"
      "hs_src U = hs_src T" "nbr_list (hs_intf U) = nbr_list (hs_intf T)" "nbr (hs_intf U) = nbr (hs_intf T)"
    using hello_send_ok [OF T] by blast
  have "hs_cleanup U = hs_cleanup T \<and> af_suspended U = af_suspended T"
    using U(1) by (auto simp: eigrp_hello_send_def hello_flags bind_eq_Some_conv split: option.splits)
  moreover have "40 \<le> curr_mtu (hs_intf U)" using U(2) by (simp add: adjacency_ok_def)
  then obtain q c len where W: "q \<noteq> 0" "eigrp_update_send_init_packet X E n U
      = Some (on_intf (rtp_send_init True n (init_packet n q len)) (U\<lparr>hs_sequence := c\<rparr>))"
    using update_send_init_done [OF X] by blast
  moreover have "eigrp_hello_parameter_decode X E n (parameter_wire ?k (he_wait Ep) @ r) S
      = Some (True, on_intf (eigrp_nbr_state_update (hx_now X) n EIGRP_NEIGHBOR_PENDING)
          (on_intf (rtp_send_init True n (init_packet n q len)) (U\<lparr>hs_sequence := c\<rparr>)))"
    unfolding eigrp_hello_parameter_decode_def parameter_fields [OF l] bind.bind_lunit Let_def T_def [symmetric]
    using k n U(1) W(2) by (simp add: eigrp_hello_goodbye_def eigrp_hello_k_match_def k_compatible_def T_def)
  moreover have "nbr (eigrp_nbr_state_update (hx_now X) n EIGRP_NEIGHBOR_PENDING (rtp_send_init True n p J)) n
      = (nbr J n)\<lparr>own_init_sequence := sequence_number p, retrans_queue := retrans_queue (nbr J n) @ [p], adj_state := EIGRP_NEIGHBOR_PENDING\<rparr>"
    if "\<not> adj_limited (nbr J n)" "adj_state (nbr J n) \<noteq> EIGRP_NEIGHBOR_UP" for p J
    using that by (simp add: eigrp_nbr_state_update_def state_enter_def send_init_nbr Let_def)
  moreover have "nbr_list (rtp_send_init True n p J) = nbr_list J" for p J
    by (auto simp: rtp_send_init_def eigrp_update_neighbor_packet_queue_def Let_def eigrp_packet_send_reliably_def eigrp_packet_dup_def
        eigrp_packet_output_enqueue_def split: option.splits)
  ultimately show ?thesis
    using U n by (auto simp: pending_state_simps T_def init_packet_def)
qed

lemma codec_select_simps [simp]:
  "nbr_list (eigrp_nbr_codec_select n v I) = nbr_list I"
  "v = 1 \<or> v = 2 \<Longrightarrow> nbr (eigrp_nbr_codec_select n v I) n = (nbr I n)\<lparr>peer_tlv_version := v\<rparr>"
  by (auto simp: eigrp_nbr_codec_select_def)

lemma version_selected: "eigrp_metric_version_select e v = 1 \<or> eigrp_metric_version_select e v = 2"
  by (simp add: eigrp_metric_version_select_def EIGRP_TLV_64B_VERSION_def EIGRP_TLV_32B_VERSION_def)

lemma validate_normal:
  assumes "length (k_values (he_instance Ep)) = 6" and "he_wait Ep \<noteq> 0"
  shows "eigrp_hello_tlvs_validate V (auth_wire Ep @ parameter_wire (take 6 (k_values (he_instance Ep))) (he_wait Ep) @ version_wire Ep) = Some True"
proof -
  have "hello_tlvs_walk e (auth_wire Ep @ parameter_wire (hello_k Ep EIGRP_HELLO_NORMAL) (he_wait Ep) @ version_wire Ep @ []) False
      = hello_tlvs_walk e [] True" for e by (rule ipv4.hello_walk_front [OF assms])
  then show ?thesis by (simp add: eigrp_hello_tlvs_validate_def hello_k_normal walk_nil)
qed

lemma receive_new:
  assumes X: "all_allocated X n" and n: "n \<notin> set (nbr_list (hs_intf S))" and fam: "ip_afi src = addr_family.AF_INET \<or> ip_afi src = addr_family.AF_INET6"
    and adm: "eigrp_nbr_admit_locked others (length (nbr_list (hs_intf S)))" and look: "eigrp_nbr_lookup src S = None"
    and al: "eigrp_nbr_static_source_allowed af (he_vectors E) name src" and k: "k_compatible E Ep" and h: "he_wait Ep \<noteq> 0" and ok: "adjacency_ok 0 S"
  shows "\<exists>S'. eigrp_hello_receive X others af E name me src
       (packet_header 5 vrid AS 0 0 0 @ auth_wire Ep @ parameter_wire (take 6 (k_values (he_instance Ep))) (he_wait Ep) @ version_wire Ep) S = Some S'
     \<and> adjacency_started E Ep n src S' \<and> nbr_list (hs_intf S') = nbr_list (hs_intf S) @ [n] \<and> af_suspended S' = af_suspended S"
proof -
  let ?pw = "parameter_wire (take 6 (k_values (he_instance Ep))) (he_wait Ep)" and ?vw = "version_wire Ep"
  let ?packet = "packet_header 5 vrid AS 0 0 0 @ auth_wire Ep @ ?pw @ ?vw"
  let ?seen = "\<lparr>parameter_seen = False, sequence_seen = False, sequence_listed = False, next_multicast_sequence = 0\<rparr>"
  have l: "length (take 6 (k_values (he_instance Ep))) = 6" and l': "length (k_values (he_instance Ep)) = 6" using k by (simp_all add: k_compatible_def)
  obtain T where T: "eigrp_nbr_create X others src S = (Some n, T)" "nbr_list (hs_intf T) = nbr_list (hs_intf S) @ [n]" "hs_src T n = src"
      "adj_state (nbr (hs_intf T) n) = EIGRP_NEIGHBOR_DOWN" "retrans_queue (nbr (hs_intf T) n) = []" "\<not> adj_limited (nbr (hs_intf T) n)"
      "\<not> hs_cleanup T n" "af_suspended T = af_suspended S"
    using create_done [OF X n fam adm] by blast
  have okT: "adjacency_ok 0 T" using nbr_create_ok(1) [OF ok _ look T(1)] X n by (simp add: all_allocated_def)
  define U where "U = (if auth_type (he_auth E) \<noteq> EIGRP_AUTH_TYPE_NONE
      then on_intf (nbr_change n (\<lambda>nb. nb\<lparr>crypt_seqnum := ntohl (field 32 4 ?packet)\<rparr>)) T else T)"
  have okU: "adjacency_ok 0 U" using okT adjacency_unseen [OF okT] by (simp add: U_def unseen_def)
  have U: "adj_state (nbr (hs_intf U) n) = EIGRP_NEIGHBOR_DOWN" "\<not> adj_limited (nbr (hs_intf U) n)" "retrans_queue (nbr (hs_intf U) n) = []"
    "nbr_list (hs_intf U) = nbr_list (hs_intf S) @ [n]" "hs_src U = hs_src T" "hs_cleanup U = hs_cleanup T" "af_suspended U = af_suspended S"
    using T by (auto simp: U_def)
  obtain W q len where W: "eigrp_hello_parameter_decode X E n (?pw @ ?vw) U = Some (True, W)"
      "nbr_list (hs_intf W) = nbr_list (hs_intf S) @ [n]" "hs_src W = hs_src T" "hs_cleanup W = hs_cleanup T" "af_suspended W = af_suspended S" "q \<noteq> 0"
      "nbr (hs_intf W) n = (nbr (hs_intf U) n)\<lparr>nbr_K := take 6 (k_values (he_instance Ep)), v_holddown := he_wait Ep,
          own_init_sequence := q, retrans_queue := [init_packet n q len], adj_state := EIGRP_NEIGHBOR_PENDING\<rparr>"
    using parameter_new [OF k X okU U(1-3), of ?vw] U(4-7) by (metis (no_types, lifting))
  define Z where "Z = on_intf (eigrp_nbr_codec_select n (eigrp_metric_version_select (Some (he_instance E)) (metric_version (he_instance Ep))))
      (W\<lparr>hs_release := (hs_release W)(n := [host_major Ep, host_minor Ep, metric_version (he_instance Ep), 2])\<rparr>)"
  have ne: "?vw \<noteq> []" "?pw @ ?vw \<noteq> []" by (simp_all add: version_wire_def parameter_wire_def tlv_def)
  have t: "hello_tlvs X E me n (auth_wire Ep @ ?pw @ ?vw) ?seen U = Some (Some (?seen\<lparr>parameter_seen := True\<rparr>), Z)"
    using hello_tlvs_version [of X E me n Ep "[]"] by (simp add: hello_tlvs_auth ne hello_tlvs_parameter [OF l ne(1)] W(1) Z_def Let_def)
  have z: "ntohl (field 12 4 ?packet) = 0"
    using field_mid [of "[2, 5] @ [0, 0] @ htonl 0 @ htonl 0" 12 "htonl 0" 4 "htons vrid @ htons AS @ auth_wire Ep @ ?pw @ ?vw"]
    by (simp add: packet_header_def)
  have "36 \<le> length ?packet" using l by (simp add: parameter_wire_def version_wire_def)
  then have p: "peek 32 4 ?packet = Some (field 32 4 ?packet)" by (intro peek_simps) simp
  have "eigrp_hello_receive X others af E name me src ?packet S = Some (eigrp_nbr_holddown_update X n Z)"
    using al look T(1) validate_normal [OF l' h, of "he_vectors E"] p t z
    by (simp add: eigrp_hello_receive_def auth_consts hello_nbr_def U_def hello_finish_def split: if_splits)
  moreover have "adjacency_started E Ep n src (eigrp_nbr_holddown_update X n Z)"
    using W T U(2) version_selected X
    by (simp add: adjacency_started_def eigrp_nbr_holddown_update_def Let_def Z_def eigrp_nbr_is_eligible_def init_packet_def
        all_allocated_def)
  ultimately show ?thesis using W by (simp add: eigrp_nbr_holddown_update_def Let_def Z_def)
qed

context af_codec
begin

lemma normal_hello_family:
  assumes f: "family = addr_family.AF_INET \<longrightarrow> packet_address_bytes V = 4" "family = addr_family.AF_INET6 \<longrightarrow> packet_address_bytes V = 16"
    and E: "he_vectors Ep = V" and y: "hello_ready family Ep I None" and A: "\<forall>m. A m \<noteq> None"
    and e: "eigrp_hello_encode True A True Ep I (Some to) ack EIGRP_HELLO_NORMAL nbr_addr q epoch = Some (Some (len, s))"
  shows "written s = packet_header 5 (he_vrid Ep) (he_AS Ep) 0 0 ack @ auth_wire Ep
     @ parameter_wire (take 6 (k_values (he_instance Ep))) (he_wait Ep) @ version_wire Ep"
proof -
  have "hello_termination_part A Ep EIGRP_HELLO_NORMAL nbr_addr = hello_termination_part A Ep EIGRP_HELLO_NORMAL None"
    by (rule ext) (simp add: hello_termination_part_def hello_flags)
  then have "eigrp_hello_encode True A True Ep I (Some to) ack EIGRP_HELLO_NORMAL None q epoch = Some (Some (len, s))"
    using e by (simp only: eigrp_hello_encode_def)
  then show ?thesis
    using hello_encode_wire [OF A E y f, of to ack EIGRP_HELLO_NORMAL q epoch] by (auto simp: hello_payload_def hello_flags hello_k_def)
qed

end

subsection \<open>Two routers\<close>

text \<open>
  C13: Routers with the same K values find each other.  Let \<open>s\<close> be the discovery Hello a router built, for IPv4 or IPv6, with or
  without authentication.  If it reaches a router with the same K1 to K5 that does not know the sender, the source is not barred
  by static neighbours, the limits on neighbours leave room and memory is available, then the receiver ends with a new neighbour of
  that address in the PENDING state whose hold time is the one advertised, whose codec is the highest version both support, whose hold
  timer runs (unless the address family is suspended), and with one INIT packet in its retransmission queue.
\<close>

theorem hello_starts_adjacency:
  assumes "(V, family) \<in> families" and "he_vectors E = V" and "he_vectors Ep = V" and "hello_ready family Ep I None" and "\<forall>m. A m \<noteq> None"
    and "he_wait Ep \<noteq> 0" and "k_compatible E Ep"
    and "eigrp_hello_encode True A True Ep I (Some to) 0 EIGRP_HELLO_NORMAL nbr_addr q epoch = Some (Some (len, s))"
    and "all_allocated X n" and "n \<notin> set (nbr_list (hs_intf S))" and "ip_afi src = family" and "eigrp_nbr_lookup src S = None"
    and "eigrp_nbr_static_source_allowed af V name src" and "eigrp_nbr_admit_locked others (length (nbr_list (hs_intf S)))" and "adjacency_ok 0 S"
  shows "\<exists>S'. eigrp_hello_receive X others af E name me src (written s) S = Some S'
     \<and> adjacency_started E Ep n src S' \<and> nbr_list (hs_intf S') = nbr_list (hs_intf S) @ [n] \<and> af_suspended S' = af_suspended S"
proof -
  have w: "written s = packet_header 5 (he_vrid Ep) (he_AS Ep) 0 0 0 @ auth_wire Ep
      @ parameter_wire (take 6 (k_values (he_instance Ep))) (he_wait Ep) @ version_wire Ep"
    using assms(1)
  proof (cases rule: families_cases)
    case 1
    then show ?thesis using ipv4.normal_hello_family [OF _ _ _ _ assms(5,8)] assms(3,4) by (simp add: family_bytes)
  next
    case 2
    then show ?thesis using ipv6.normal_hello_family [OF _ _ _ _ assms(5,8)] assms(3,4) by (simp add: family_bytes)
  qed
  have "ip_afi src = addr_family.AF_INET \<or> ip_afi src = addr_family.AF_INET6" using assms(1,11) by (auto simp: families_def)
  then show ?thesis unfolding w using assms(2,13) by (intro receive_new) (use assms in simp_all)
qed

text \<open>
  C14: A SEQUENCE Hello puts exactly the right neighbours into conditional-receive mode.  When the sender's Hello for the multicast \<open>q\<close>
  reaches a neighbour whose adjacency exists, the neighbour is in conditional-receive mode for \<open>q\<close> afterwards if and only if its own
  address is not among the busy neighbours the sender listed (those that still have earlier packets outstanding); a Hello that lists
  nobody leaves the mode alone.  Apart from that only what the Hello advertises changes.
\<close>

theorem sequence_hello_conditional_receive:
  assumes "(V, family) \<in> families" and "he_vectors E = V" and "he_vectors Ep = V" and "hello_ready family Ep I None" and "\<forall>m. A m \<noteq> None"
    and "he_wait Ep \<noteq> 0" and "k_compatible E Ep"
    and "eigrp_hello_encode True A True Ep I (Some to) ack EIGRP_HELLO_ADD_SEQUENCE None q epoch = Some (Some (len, s))"
    and "eigrp_nbr_static_source_allowed af V name src" and "eigrp_nbr_lookup src S = Some n"
    and "adj_state (nbr (hs_intf S) n) \<noteq> EIGRP_NEIGHBOR_DOWN"
  shows "eigrp_hello_receive X others af E name me src (written s) S
     = Some (if busy_addresses Ep I q epoch = [] then heard E Ep n S
             else on_intf (nbr_change n (cr_after
                    (me \<in> (\<lambda>a. take (packet_address_bytes V) (ip_bytes a)) ` set (busy_addresses Ep I q epoch)) q)) (heard E Ep n S))"
  using assms(1)
proof (cases rule: families_cases)
  case 1
  then show ?thesis using ipv4.sequence_hello_family [OF _ _ _ _ _ assms(5,6,8)] assms by (simp add: family_bytes)
next
  case 2
  then show ?thesis using ipv6.sequence_hello_family [OF _ _ _ _ _ assms(5,6,8)] assms by (simp add: family_bytes)
qed

subsection \<open>Examples\<close>

definition sample_hello_state :: "rtp_intf \<Rightarrow> hello_state" where
  "sample_hello_state I = \<lparr>hs_intf = I, hs_src = (\<lambda>_. zero_addr), hs_release = (\<lambda>_. [0, 0, 0, 0]), hs_gen = (\<lambda>_. 0), hs_cleanup = (\<lambda>_. False),
     hs_sequence = 1, hs_next_generation = 0, af_suspended = False\<rparr>"

definition sample_world :: hello_world where
  "sample_world = \<lparr>hx_now = 1000, hx_nbr = Some 1, hx_queue = True, hx_list = True, hx_packet = True, hx_stream = zero_alloc, hx_tlv = True,
     hx_copy = True, hx_timer = True\<rparr>"

definition sample_source :: eigrp_addr where
  "sample_source = \<lparr>ip_afi = addr_family.AF_INET, ip_bytes = [10, 0, 0, 2] @ replicate 12 0\<rparr>"

lemma blank_adjacency: "d < 2 ^ 31 \<Longrightarrow> adjacency_ok d (sample_hello_state rtp_blank)"
proof -
  assume d: "d < 2 ^ 31"
  have "rtp_ok rtp_blank" by (rule reachable_ok, rule rtp_reachable.start) (simp add: rtp_initial_def rtp_blank_def)
  moreover have "outstanding rtp_blank = {}" by (simp add: outstanding_def rtp_blank_def)
  moreover have "numbers_ahead d {} 1" unfolding numbers_ahead_def using d by (intro exI [of _ 1]) simp
  ultimately show ?thesis by (simp add: adjacency_ok_def sample_hello_state_def rtp_blank_def [THEN arg_cong, of nbr_list]
      rtp_blank_def [THEN arg_cong, of curr_mtu])
qed

theorem hello_receive_safe_witness:
  "\<exists>S'. eigrp_hello_receive sample_world ([], []) None sample_hello_env ''eth0'' [10, 0, 0, 1] sample_source (replicate 40 7) (sample_hello_state rtp_blank)
     = Some S' \<and> adjacency_ok 0 S'"
proof (rule hello_receive_safe)
  show "adjacency_ok (0 + length (replicate 40 (7 :: u8))) (sample_hello_state rtp_blank)" by (rule blank_adjacency) simp
qed (simp_all add: sample_world_def sample_hello_state_def rtp_blank_def)

lemma sample_zero_alloc: "\<forall>m. zero_alloc m \<noteq> None"
  by (simp add: zero_alloc_def)

lemma sample_compatible: "k_compatible sample_hello_env sample_hello_env"
proof -
  have "hd (take 5 (k_values (he_instance sample_hello_env))) \<noteq> hd (replicate 5 0xff)" by (simp add: sample_hello_env_def)
  then have "take 5 (k_values (he_instance sample_hello_env)) \<noteq> replicate 5 0xff" by metis
  then show ?thesis by (simp add: k_compatible_def) (simp add: sample_hello_env_def)
qed

lemma sample_family: "(eigrp_ipv4_init, addr_family.AF_INET) \<in> families" "he_vectors sample_hello_env = eigrp_ipv4_init" "he_wait sample_hello_env \<noteq> 0"
  by (simp_all add: families_def sample_hello_env_def)

theorem hello_starts_adjacency_witness:
  "\<exists>len s S'. eigrp_hello_encode True zero_alloc True sample_hello_env rtp_blank (Some zero_addr) 0 EIGRP_HELLO_NORMAL None 0 0 = Some (Some (len, s))
     \<and> eigrp_hello_receive sample_world ([], []) None sample_hello_env ''eth0'' [10, 0, 0, 1] sample_source (written s) (sample_hello_state rtp_blank)
       = Some S' \<and> adj_state (nbr (hs_intf S') 1) = EIGRP_NEIGHBOR_PENDING \<and> t_holddown (nbr (hs_intf S') 1)"
proof -
  let ?S = "sample_hello_state rtp_blank"
  obtain len s where e: "eigrp_hello_encode True zero_alloc True sample_hello_env rtp_blank (Some zero_addr) 0 EIGRP_HELLO_NORMAL None 0 0
      = Some (Some (len, s))"
    using ipv4.hello_encode_wire [OF sample_zero_alloc sample_family(2) sample_hello_ready, of zero_addr 0 EIGRP_HELLO_NORMAL 0 0]
    by (auto simp: family_bytes)
  have x: "all_allocated sample_world 1" "(1 :: nbr_id) \<notin> set (nbr_list (hs_intf ?S))" "ip_afi sample_source = addr_family.AF_INET"
    "eigrp_nbr_lookup sample_source ?S = None" "eigrp_nbr_static_source_allowed None eigrp_ipv4_init ''eth0'' sample_source"
    "eigrp_nbr_admit_locked ([], []) (length (nbr_list (hs_intf ?S)))" "\<not> af_suspended ?S"
    using sample_zero_alloc by (simp_all add: all_allocated_def sample_world_def sample_hello_state_def rtp_blank_def sample_source_def eigrp_nbr_lookup_def
        eigrp_nbr_static_source_allowed_def eigrp_nbr_admit_locked_def EIGRP_NEIGHBOR_MAX_PER_INTERFACE_def EIGRP_NEIGHBOR_MAX_PER_INSTANCE_def)
  have "adjacency_ok 0 ?S" by (rule blank_adjacency) simp
  from hello_starts_adjacency [OF sample_family(1,2,2) sample_hello_ready sample_zero_alloc sample_family(3) sample_compatible e x(1-6) this] x(7) e
  show ?thesis by (fastforce simp: adjacency_started_def Let_def)
qed

definition sample_busy_intf :: rtp_intf where
  "sample_busy_intf = rtp_blank\<lparr>nbr_list := [1], nbr := (\<lambda>_. sample_nbr\<lparr>retrans_queue := [update_packet]\<rparr>)\<rparr>"

theorem sequence_hello_conditional_receive_witness:
  "\<exists>len s S'. eigrp_hello_encode True zero_alloc True sample_hello_env sample_busy_intf (Some zero_addr) 0 EIGRP_HELLO_ADD_SEQUENCE None 8 1
       = Some (Some (len, s))
     \<and> eigrp_hello_receive sample_world ([], []) None sample_hello_env ''eth0'' [10, 0, 0, 1] zero_addr (written s) (sample_hello_state sample_busy_intf)
       = Some S' \<and> cr_mode (nbr (hs_intf S') 1) \<and> cr_sequence (nbr (hs_intf S') 1) = 8"
proof -
  let ?S = "sample_hello_state sample_busy_intf"
  have y: "hello_ready addr_family.AF_INET sample_hello_env sample_busy_intf None"
    by (simp add: hello_ready_def sample_hello_env_def sample_busy_intf_def rtp_blank_def zero_addr_def addr_ok_def)
  obtain len s where e: "eigrp_hello_encode True zero_alloc True sample_hello_env sample_busy_intf (Some zero_addr) 0 EIGRP_HELLO_ADD_SEQUENCE None 8 1
      = Some (Some (len, s))"
    using ipv4.hello_encode_wire [OF sample_zero_alloc sample_family(2) y, of zero_addr 0 EIGRP_HELLO_ADD_SEQUENCE 8 1]
    by (auto simp: family_bytes)
  have x: "eigrp_nbr_static_source_allowed None eigrp_ipv4_init ''eth0'' zero_addr" "eigrp_nbr_lookup zero_addr ?S = Some 1"
    "adj_state (nbr (hs_intf ?S) 1) \<noteq> EIGRP_NEIGHBOR_DOWN"
    by (simp_all add: eigrp_nbr_static_source_allowed_def eigrp_nbr_lookup_def sample_hello_state_def sample_busy_intf_def sample_nbr_def)
  have b: "busy_addresses sample_hello_env sample_busy_intf 8 1 = [zero_addr]"
    by (simp add: busy_addresses_def busy_peer_def sample_hello_env_def sample_busy_intf_def eigrp_packet_multicast_peer_eligible_def sample_nbr_def
        eigrp_packet_reliable_prior_count_def update_packet_def hello_packet_def eigrp_packet_sequence_before_def)
  have "take (packet_address_bytes eigrp_ipv4_init) (ip_bytes zero_addr) \<noteq> [10, 0, 0, 1]" by (simp add: family_bytes zero_addr_def numeral_eq_Suc)
  with sequence_hello_conditional_receive [OF sample_family(1,2,2) y sample_zero_alloc sample_family(3) sample_compatible e x,
      of sample_world "([], [])" "[10, 0, 0, 1]"] b e
  show ?thesis by (fastforce simp: cr_after_def)
qed

subsection \<open>What a Hello does not do\<close>

lemma resume_calls: "Topology_down n \<in> set (rtp_calls (eigrp_packet_multicast_resume I)) \<longleftrightarrow> Topology_down n \<in> set (rtp_calls I)"
  by (auto simp: eigrp_packet_multicast_resume_def write_queue_add_def rtp_call_def Let_def split: option.splits)

lemma resume_encoder:
  "tlv2_peer_count (eigrp_packet_multicast_resume I) = tlv2_peer_count I" "intf_encoder (eigrp_packet_multicast_resume I) = intf_encoder I"
  by (auto simp: eigrp_packet_multicast_resume_def write_queue_add_def rtp_call_def Let_def split: option.splits)

lemma state_down_calls:
  "Topology_down n \<in> set (rtp_calls (eigrp_nbr_state_update now m EIGRP_NEIGHBOR_DOWN I)) \<longleftrightarrow> Topology_down n \<in> set (rtp_calls I)"
proof -
  have "rtp_calls (nbr_change m f J) = rtp_calls J" "rtp_calls (eigrp_intf_encoder_peer_remove v J) = rtp_calls J" for f v J
    by (simp_all add: nbr_change_def eigrp_intf_encoder_peer_remove_def eigrp_intf_encoder_select_def)
  then show ?thesis by (simp add: eigrp_nbr_state_update_def state_enter_def resume_calls Let_def) (simp add: rtp_call_def)
qed

text \<open>
  A Hello whose K values do not match takes an UP neighbour DOWN, but the topology table is not told: no \<^verbatim>\<open>eigrp_topology_neighbor_down\<close>
  is called, as it is when a neighbour is deleted.  The hold timer is cancelled as well, so that no expiry makes up for it.
\<close>

lemma k_mismatch_keeps_routes:
  assumes "12 \<le> length bs" and "\<not> eigrp_hello_goodbye (field 4 6 bs)" and "take 5 (k_values (he_instance E)) \<noteq> take 5 (field 4 6 bs)"
    and "n \<in> set (nbr_list (hs_intf S))" and "adj_state (nbr (hs_intf S) n) = EIGRP_NEIGHBOR_UP"
  shows "\<exists>S'. eigrp_hello_parameter_decode X E n bs S = Some (True, S') \<and> n \<in> set (nbr_list (hs_intf S'))
     \<and> adj_state (nbr (hs_intf S') n) = EIGRP_NEIGHBOR_DOWN \<and> \<not> t_holddown (nbr (hs_intf S') n)
     \<and> (Topology_down n \<in> set (rtp_calls (hs_intf S')) \<longrightarrow> Topology_down n \<in> set (rtp_calls (hs_intf S)))"
  using assms
  by (auto simp: eigrp_hello_parameter_decode_def peek_simps eigrp_hello_k_match_def state_down_nbr state_down_calls)
     (simp_all add: nbr_reset_def eigrp_nbr_rtt_clear_def state_enter_def Let_def nbr_change_def)

text \<open>
  A Hello that advertises another version changes the codec of an UP neighbour without moving the neighbour between the counts of
  the interface's encoders.  When the neighbour leaves UP, the count of its new version is decremented: the one of the old version
  stays for good, and with it the choice of encoder.
\<close>

lemma version_change_leaks_count:
  assumes "8 \<le> length bs" and "adj_state (nbr (hs_intf S) n) = EIGRP_NEIGHBOR_UP" and "peer_tlv_version (nbr (hs_intf S) n) = 2"
    and "tlv2_peer_count (hs_intf S) = 1" and "tlv1_peer_count (hs_intf S) = 0"
    and "eigrp_metric_version_select (Some (he_instance E)) (field 4 4 bs ! 2) = 1"
  shows "\<exists>S'. eigrp_sw_version_decode E n bs S = Some S' \<and> peer_tlv_version (nbr (hs_intf S') n) = 1
     \<and> tlv2_peer_count (eigrp_nbr_state_update now n EIGRP_NEIGHBOR_DOWN (hs_intf S')) = 1
     \<and> intf_encoder (eigrp_nbr_state_update now n EIGRP_NEIGHBOR_DOWN (hs_intf S')) = Encoder_tlv2"
  using assms by (simp add: eigrp_sw_version_decode_def peek_simps eigrp_nbr_state_update_def state_enter_def Let_def rtp_call_def resume_encoder
      eigrp_intf_encoder_peer_remove_def eigrp_intf_encoder_select_def nbr_change_def eigrp_nbr_codec_select_def)

end
