(* ===== verification/Eigrp_Ingress.thy ===== *)
theory Eigrp_Ingress
  imports Eigrp_Topology Eigrp_Discovery
begin

text \<open>
  The way of a received packet through the two threads of an instance (\<^verbatim>\<open>eigrp_packet.c\<close>).  The receive thread of the process
  checks a packet, authenticates it, refreshes the hold timer of its sender and puts it into the input queue
  (\<^verbatim>\<open>eigrp_packet_ingress_authenticate\<close>, \<^verbatim>\<open>eigrp_packet_input_enqueue\<close>); the thread of the address family takes it out, consumes
  acknowledgements and the conditional-receive state, and hands it to the handler of its opcode (\<^verbatim>\<open>eigrp_packet_input_process\<close>).
  What happens between the two, the deletion and new creation of the sender included, is an interleaving of steps.

  The model is that of the packets of one interface.  The handlers of UPDATE, QUERY, REPLY and the SIA packets are modelled in
  their own theories; here the handler that runs is the result, and the prefix-limit cleanup after it belongs to it.  A neighbour
  is \<^verbatim>\<open>published\<close> exactly while it is in the list of its interface, since both change under the same lock.  Event log, debug
  output and statistics are left out.
\<close>

subsection \<open>The packet handed over\<close>

definition EIGRP_AF_PACKET_INPUT_QUEUE_MAX :: nat where "EIGRP_AF_PACKET_INPUT_QUEUE_MAX = 1024"
definition EIGRP_AF_PACKET_DISCOVERY_QUEUE_MAX :: nat where "EIGRP_AF_PACKET_DISCOVERY_QUEUE_MAX = 256"

text \<open>\<open>in_stream\<close> are the bytes present, up to \<^verbatim>\<open>endp\<close>.\<close>

record packet_input =
  in_ifindex :: u32
  in_source :: eigrp_addr
  in_meta :: eigrp_packet_rx_meta
  in_stream :: "u8 list"
  ingress_authenticated :: bool
  ingress_discovery :: bool
  ingress_neighbor_generation :: u64

definition eigrp_packet_input_bounds_validate :: "nat \<Rightarrow> nat \<Rightarrow> nat \<Rightarrow> (nat \<times> nat) option" where
  "eigrp_packet_input_bounds_validate endp header_length declared =
     (if endp < header_length then None
      else if declared < EIGRP_HEADER_BYTES \<or> endp - header_length < declared \<or> 65535 < declared then None
      else Some (header_length, declared))"

text \<open>The bytes of the packet: \<open>Some None\<close> when the bounds are refused, \<open>None\<close> when accepted bounds lie outside of the bytes present.\<close>

definition input_packet :: "packet_input \<Rightarrow> u8 list option option" where
  "input_packet i =
     (case eigrp_packet_input_bounds_validate (length (in_stream i)) (unat (network_header_length (in_meta i))) (unat (eigrp_length (in_meta i))) of
        None \<Rightarrow> Some None
      | Some (offset, len) \<Rightarrow> do { _ \<leftarrow> access offset len (in_stream i); Some (Some (field offset len (in_stream i))) })"

text \<open>The fields of the header; a function of the receive path reads them after an \<open>access\<close> to the bytes of the header.\<close>

definition header_opcode :: "u8 list \<Rightarrow> u8" where "header_opcode bs = bs ! 1"
definition header_flags :: "u8 list \<Rightarrow> u32" where "header_flags bs = ntohl (field 4 4 bs)"
definition header_sequence :: "u8 list \<Rightarrow> u32" where "header_sequence bs = ntohl (field 8 4 bs)"
definition header_ack :: "u8 list \<Rightarrow> u32" where "header_ack bs = ntohl (field 12 4 bs)"

text \<open>The interface and its instance.\<close>

record rx_config =
  rc_ifindex :: u32
  rc_env :: hello_env
  rc_intf :: eigrp_intf
  rc_passive :: bool
  rc_af :: "af_neighbors option"
  rc_name :: string
  rc_me :: "u8 list"
  rc_others :: "nat list \<times> nat list"

definition rx_here :: "rx_config \<Rightarrow> packet_input \<Rightarrow> bool" where
  "rx_here C i \<longleftrightarrow> in_ifindex i \<noteq> 0 \<and> in_ifindex i = rc_ifindex C"

definition rx_header_check :: "rx_config \<Rightarrow> eigrp_addr \<Rightarrow> u8 list \<Rightarrow> bool option" where
  "rx_header_check C src bs =
     map_option (\<lambda>result. result = Inr ())
       (eigrp_packet_header_validate (he_AS (rc_env C)) (he_vrid (rc_env C)) (he_auth (rc_env C))
          (packet_source_on_link (he_vectors (rc_env C)) (rc_intf C) src) bs)"

text \<open>The check passes.\<close>

definition rx_header_valid :: "rx_config \<Rightarrow> eigrp_addr \<Rightarrow> u8 list \<Rightarrow> bool" where
  "rx_header_valid C src bs \<longleftrightarrow> rx_header_check C src bs = Some True"

subsection \<open>The receive thread\<close>

definition addr_afi_number :: "addr_family \<Rightarrow> nat" where
  "addr_afi_number f = (case f of AF_UNSPEC \<Rightarrow> 0 | addr_family.AF_INET \<Rightarrow> 2 | addr_family.AF_INET6 \<Rightarrow> 10)"

text \<open>A neighbour as the authentication code sees it.\<close>

definition auth_peer :: "hello_state \<Rightarrow> nbr_id \<Rightarrow> auth_nbr" where
  "auth_peer S n = \<lparr>nbr_crypt_seqnum = htonl (crypt_seqnum (nbr (hs_intf S) n)), nbr_src_afi = addr_afi_number (ip_afi (hs_src S n)),
     nbr_src_ip = ip_bytes (hs_src S n)\<rparr>"

definition auth_peer_store :: "nbr_id \<Rightarrow> auth_nbr option \<Rightarrow> hello_state \<Rightarrow> hello_state" where
  "auth_peer_store n peer S =
     (case peer of None \<Rightarrow> S | Some p \<Rightarrow> on_intf (nbr_change n (\<lambda>nb. nb\<lparr>crypt_seqnum := ntohl (nbr_crypt_seqnum p)\<rparr>)) S)"

definition ingress_opcode :: "u8 \<Rightarrow> bool" where
  "ingress_opcode opcode \<longleftrightarrow> opcode = EIGRP_OPC_HELLO \<or> opcode = EIGRP_OPC_UPDATE \<or> opcode = EIGRP_OPC_QUERY \<or> opcode = EIGRP_OPC_REPLY
     \<or> opcode = EIGRP_OPC_SIAQUERY \<or> opcode = EIGRP_OPC_SIAREPLY"

text \<open>A Hello without an acknowledgement has to be well formed and from an allowed source.\<close>

definition ingress_hello_valid :: "rx_config \<Rightarrow> eigrp_addr \<Rightarrow> u8 list \<Rightarrow> bool option" where
  "ingress_hello_valid C src bs =
     (if header_opcode bs = EIGRP_OPC_HELLO \<and> header_ack bs = 0
      then do {
        valid \<leftarrow> eigrp_hello_tlvs_validate (he_vectors (rc_env C)) (drop EIGRP_HEADER_BYTES bs);
        Some (valid \<and> eigrp_nbr_static_source_allowed (rc_af C) (he_vectors (rc_env C)) (rc_name C) src) }
      else Some True)"

text \<open>The known sender has to be eligible; an unknown one may send a discovery Hello, if there is room for it.\<close>

definition ingress_sender_admitted :: "rx_config \<Rightarrow> u8 list \<Rightarrow> nbr_id option \<Rightarrow> hello_state \<Rightarrow> bool" where
  "ingress_sender_admitted C bs sender S =
     (case sender of
        Some n \<Rightarrow> eigrp_nbr_is_eligible S n
      | None \<Rightarrow> header_opcode bs = EIGRP_OPC_HELLO \<and> header_ack bs = 0
                \<and> eigrp_nbr_admit_locked (rc_others C) (length (nbr_list (hs_intf S))))"

text \<open>Whether the packet is accepted, the marked packet, and the state.\<close>

definition eigrp_packet_ingress_authenticate ::
    "allocator \<Rightarrow> eigrp_hmac_sha256_ctx \<Rightarrow> hello_world \<Rightarrow> rx_config \<Rightarrow> packet_input \<Rightarrow> hello_state \<Rightarrow> (bool \<times> packet_input \<times> hello_state) option" where
  "eigrp_packet_ingress_authenticate A ctx X C i S =
     do {
       packet \<leftarrow> input_packet i;
       case packet of
         None \<Rightarrow> Some (False, i, S)
       | Some bs \<Rightarrow>
           if \<not> rx_here C i \<or> rc_passive C then Some (False, i, S)
           else do {
             header \<leftarrow> rx_header_check C (in_source i) bs;
             if \<not> header then Some (False, i, S)
             else do {
               _ \<leftarrow> access 0 EIGRP_HEADER_BYTES bs;
               if \<not> ingress_opcode (header_opcode bs) then Some (False, i, S)
               else do {
                 valid \<leftarrow> ingress_hello_valid C (in_source i) bs;
                 let sender = eigrp_nbr_lookup (in_source i) S;
                 if \<not> valid \<or> \<not> ingress_sender_admitted C bs sender S then Some (False, i, S)
                 else do {
                   (result, peer) \<leftarrow> eigrp_packet_auth_digest_validate A ctx (he_host (rc_env C)) (he_auth (rc_env C))
                                       (map_option (auth_peer S) sender) (Some (addr_afi_number (ip_afi (in_source i)), ip_bytes (in_source i))) bs;
                   let S = (case sender of Some n \<Rightarrow> auth_peer_store n peer S | None \<Rightarrow> S);
                   Some (case result of
                           Inl _ \<Rightarrow> (False, i, S)
                         | Inr _ \<Rightarrow>
                             (True,
                              i\<lparr>ingress_authenticated := True,
                                ingress_neighbor_generation := (case sender of Some n \<Rightarrow> hs_gen S n | None \<Rightarrow> 0),
                                ingress_discovery := (case sender of Some n \<Rightarrow> adj_state (nbr (hs_intf S) n) \<noteq> EIGRP_NEIGHBOR_UP | None \<Rightarrow> True)\<rparr>,
                              case sender of Some n \<Rightarrow> eigrp_nbr_holddown_update X n S | None \<Rightarrow> S)) } } } } }"

subsection \<open>The input queue\<close>

text \<open>\<open>rx_pending\<close> is the packet that the receive thread has authenticated and not yet put into the queue.\<close>

record rx_state =
  rx_hello :: hello_state
  packet_queue :: "packet_input list"
  packet_count :: nat
  packet_discovery_count :: nat
  packet_drop_count :: u64
  rx_shutdown :: bool
  rx_thread_running :: bool
  rx_pending :: "packet_input option"

definition eigrp_packet_input_enqueue :: "packet_input \<Rightarrow> rx_state \<Rightarrow> bool \<times> rx_state" where
  "eigrp_packet_input_enqueue i R =
     (if rx_shutdown R \<or> \<not> rx_thread_running R \<or> EIGRP_AF_PACKET_INPUT_QUEUE_MAX \<le> packet_count R
         \<or> ingress_discovery i \<and> EIGRP_AF_PACKET_DISCOVERY_QUEUE_MAX \<le> packet_discovery_count R
      then (False, if \<not> rx_shutdown R \<and> rx_thread_running R then R\<lparr>packet_drop_count := packet_drop_count R + 1\<rparr> else R)
      else (True, R\<lparr>packet_queue := packet_queue R @ [i], packet_count := packet_count R + 1,
                    packet_discovery_count := (if ingress_discovery i then packet_discovery_count R + 1 else packet_discovery_count R)\<rparr>))"

definition eigrp_packet_input_dequeue_locked :: "rx_state \<Rightarrow> packet_input option \<times> rx_state" where
  "eigrp_packet_input_dequeue_locked R =
     (case packet_queue R of
        [] \<Rightarrow> (None, R)
      | i # q \<Rightarrow>
          (Some i, R\<lparr>packet_queue := q, packet_count := packet_count R - 1,
                     packet_discovery_count := (if ingress_discovery i then packet_discovery_count R - 1 else packet_discovery_count R)\<rparr>))"

definition eigrp_packet_input_queue_clear :: "rx_state \<Rightarrow> rx_state" where
  "eigrp_packet_input_queue_clear R = R\<lparr>packet_queue := [], packet_count := 0, packet_discovery_count := 0\<rparr>"

subsection \<open>The thread of the address family\<close>

text \<open>What is left to do after the common part: nothing, joining the group again, or the handler of an opcode for a neighbour.\<close>

datatype packet_action = Packet_done | Multicast_join | Packet_handler u8 nbr_id

text \<open>A unicast that was missed as a conditional multicast ends the mode; a conditional multicast is taken only in it.\<close>

definition cr_unicast :: "bool \<Rightarrow> u32 \<Rightarrow> nbr_id \<Rightarrow> hello_state \<Rightarrow> hello_state" where
  "cr_unicast multicast sequence n S =
     (if \<not> multicast \<and> cr_mode (nbr (hs_intf S) n) \<and> cr_sequence (nbr (hs_intf S) n) = sequence
      then on_intf (nbr_change n (\<lambda>nb. nb\<lparr>cr_mode := False, cr_sequence := 0\<rparr>)) S else S)"

definition cr_multicast :: "bool \<Rightarrow> u8 list \<Rightarrow> nbr_id \<Rightarrow> hello_state \<Rightarrow> hello_state option" where
  "cr_multicast multicast bs n S =
     (if multicast \<and> header_flags bs AND EIGRP_CR_FLAG \<noteq> 0
      then (if \<not> cr_mode (nbr (hs_intf S) n)
               \<or> cr_sequence (nbr (hs_intf S) n) \<noteq> 0 \<and> cr_sequence (nbr (hs_intf S) n) \<noteq> header_sequence bs
            then None
            else Some (on_intf (nbr_change n (\<lambda>nb. nb\<lparr>cr_mode := False, cr_sequence := 0\<rparr>)) S))
      else Some S)"

definition packet_acknowledge :: "hello_world \<Rightarrow> nbr_id \<Rightarrow> u8 list \<Rightarrow> hello_state \<Rightarrow> hello_state" where
  "packet_acknowledge X n bs = on_intf (eigrp_packet_ack (hx_now X) (hx_copy X) n (header_ack bs) (header_sequence bs))"

text \<open>A Hello that was authenticated before its sender was known still has to bring a new sequence.\<close>

definition hello_fresh :: "rx_config \<Rightarrow> packet_input \<Rightarrow> u8 list \<Rightarrow> nbr_id option \<Rightarrow> hello_state \<Rightarrow> (bool \<times> hello_state) option" where
  "hello_fresh C i bs sender S =
     (case sender of
        Some n \<Rightarrow>
          if ingress_neighbor_generation i = 0
          then do {
            (fresh, peer) \<leftarrow> eigrp_auth_discovery_sequence_accept (he_auth (rc_env C)) (auth_peer S n) bs;
            Some (fresh, auth_peer_store n (Some peer) S) }
          else Some (True, S)
      | None \<Rightarrow> Some (True, S))"

definition input_hello :: "hello_world \<Rightarrow> rx_config \<Rightarrow> packet_input \<Rightarrow> u8 list \<Rightarrow> nbr_id option \<Rightarrow> hello_state \<Rightarrow> hello_state option" where
  "input_hello X C i bs sender S =
     do {
       (fresh, S) \<leftarrow> hello_fresh C i bs sender S;
       if \<not> fresh then Some S
       else if header_ack bs \<noteq> 0 then Some (case sender of Some n \<Rightarrow> packet_acknowledge X n bs S | None \<Rightarrow> S)
       else eigrp_hello_receive X (rc_others C) (rc_af C) (rc_env C) (rc_name C) (rc_me C) (in_source i) bs S }"

definition input_other :: "hello_world \<Rightarrow> packet_input \<Rightarrow> u8 list \<Rightarrow> nbr_id \<Rightarrow> hello_state \<Rightarrow> packet_action \<times> hello_state" where
  "input_other X i bs n S =
     (let multicast = destination_multicast (in_meta i); opcode = header_opcode bs; S = cr_unicast multicast (header_sequence bs) n S
      in case cr_multicast multicast bs n S of
           None \<Rightarrow> (Packet_done, S)
         | Some S \<Rightarrow>
             (let S = (if header_ack bs \<noteq> 0 then packet_acknowledge X n bs S else S)
              in if opcode = EIGRP_OPC_UPDATE then (Packet_handler opcode n, S)
                 else if opcode = EIGRP_OPC_QUERY \<or> opcode = EIGRP_OPC_REPLY \<or> opcode = EIGRP_OPC_SIAQUERY \<or> opcode = EIGRP_OPC_SIAREPLY
                 then (if adj_state (nbr (hs_intf S) n) \<noteq> EIGRP_NEIGHBOR_UP then (Packet_done, S) else (Packet_handler opcode n, S))
                 else (Packet_done, S)))"

definition eigrp_packet_input_process ::
    "hello_world \<Rightarrow> rx_config \<Rightarrow> packet_input \<Rightarrow> hello_state \<Rightarrow> (packet_action \<times> hello_state) option" where
  "eigrp_packet_input_process X C i S =
     (if \<not> rx_here C i then Some (Packet_done, S)
      else do {
        packet \<leftarrow> input_packet i;
        case packet of
          None \<Rightarrow> Some (Packet_done, S)
        | Some bs \<Rightarrow>
            if rc_passive C then Some (if destination_multicast (in_meta i) then Multicast_join else Packet_done, S)
            else do {
              header \<leftarrow> rx_header_check C (in_source i) bs;
              if \<not> header then Some (Packet_done, S)
              else do {
                _ \<leftarrow> access 0 EIGRP_HEADER_BYTES bs;
                let sender = eigrp_nbr_lookup (in_source i) S;
                if af_suspended S \<and> header_opcode bs = EIGRP_OPC_HELLO then Some (Packet_done, S)
                else if (case sender of Some n \<Rightarrow> \<not> eigrp_nbr_is_eligible S n | None \<Rightarrow> False) \<or> \<not> ingress_authenticated i
                   \<or> ingress_neighbor_generation i \<noteq> 0
                     \<and> (case sender of Some n \<Rightarrow> hs_gen S n \<noteq> ingress_neighbor_generation i | None \<Rightarrow> True)
                then Some (Packet_done, S)
                else if header_opcode bs = EIGRP_OPC_HELLO
                then map_option (Pair Packet_done) (input_hello X C i bs sender S)
                else Some (case sender of None \<Rightarrow> (Packet_done, S) | Some n \<Rightarrow> input_other X i bs n S) } } })"

subsection \<open>No read leaves the packet\<close>

text \<open>The bytes handed over, the bounds having been checked.\<close>

definition input_bytes :: "packet_input \<Rightarrow> u8 list option" where
  "input_bytes i = the (input_packet i)"

lemma input_packet_bytes [simp]: "input_packet i = Some (input_bytes i)"
  by (auto simp: input_bytes_def input_packet_def eigrp_packet_input_bounds_validate_def)

lemma input_bytes_cut:
  "input_bytes i = map_option (\<lambda>(offset, len). field offset len (in_stream i))
     (eigrp_packet_input_bounds_validate (length (in_stream i)) (unat (network_header_length (in_meta i))) (unat (eigrp_length (in_meta i))))"
  unfolding input_bytes_def input_packet_def by (auto simp: eigrp_packet_input_bounds_validate_def)

lemma header_valid_result:
  "rx_header_valid C src bs \<longleftrightarrow> eigrp_packet_header_validate (he_AS (rc_env C)) (he_vrid (rc_env C)) (he_auth (rc_env C))
     (packet_source_on_link (he_vectors (rc_env C)) (rc_intf C) src) bs = Some (Inr ())"
  by (auto simp: rx_header_valid_def rx_header_check_def)

lemma rx_header_check_valid [simp]: "rx_header_check C src bs = Some (rx_header_valid C src bs)"
  using header_validate_total [of "he_AS (rc_env C)" "he_vrid (rc_env C)" "he_auth (rc_env C)"
      "packet_source_on_link (he_vectors (rc_env C)) (rc_intf C) src" bs]
  by (auto simp: header_valid_result rx_header_check_def)

lemma header_valid_length:
  assumes "rx_header_valid C src bs"
  shows "20 \<le> length bs" "auth_type (he_auth (rc_env C)) = EIGRP_AUTH_TYPE_NONE \<or> 36 \<le> length bs"
proof -
  show l: "20 \<le> length bs" using assms by (auto simp: header_valid_result eigrp_packet_header_validate_def auth_consts split: if_splits)
  have a: "eigrp_packet_auth_header_validate (he_auth (rc_env C)) bs = Some (Inr ())"
  proof -
    obtain r where r: "eigrp_packet_auth_header_validate (he_auth (rc_env C)) bs = Some r" using auth_header_total by blast
    then show ?thesis using assms by (cases r) (auto simp: header_valid_result eigrp_packet_header_validate_def split: if_splits)
  qed
  show "auth_type (he_auth (rc_env C)) = EIGRP_AUTH_TYPE_NONE \<or> 36 \<le> length bs"
  proof (cases "auth_type (he_auth (rc_env C)) = EIGRP_AUTH_TYPE_NONE")
    case False
    then obtain v where v: "auth_tlv_scan bs = Some (Some v, True)" "40 \<le> unat (ntohs (field (v + 2) 2 bs))"
      using a by (auto simp: eigrp_packet_auth_header_validate_def eigrp_packet_auth_tlv_validate_def auth_consts not_less bind_eq_Some_conv
          split: option.splits if_splits prod.splits)
    then show ?thesis using auth_tlv_scan_inside [OF v(1)] by (simp add: tlv_inside_def)
  qed simp
qed

lemma ingress_unfold:
  "eigrp_packet_ingress_authenticate A ctx X C i S =
     (case input_bytes i of
        None \<Rightarrow> Some (False, i, S)
      | Some bs \<Rightarrow>
          if \<not> rx_here C i \<or> rc_passive C \<or> \<not> rx_header_valid C (in_source i) bs \<or> \<not> ingress_opcode (header_opcode bs)
          then Some (False, i, S)
          else do {
            valid \<leftarrow> ingress_hello_valid C (in_source i) bs;
            let sender = eigrp_nbr_lookup (in_source i) S;
            if \<not> valid \<or> \<not> ingress_sender_admitted C bs sender S then Some (False, i, S)
            else do {
              (result, peer) \<leftarrow> eigrp_packet_auth_digest_validate A ctx (he_host (rc_env C)) (he_auth (rc_env C))
                                  (map_option (auth_peer S) sender) (Some (addr_afi_number (ip_afi (in_source i)), ip_bytes (in_source i))) bs;
              let S = (case sender of Some n \<Rightarrow> auth_peer_store n peer S | None \<Rightarrow> S);
              Some (case result of
                      Inl _ \<Rightarrow> (False, i, S)
                    | Inr _ \<Rightarrow>
                        (True,
                         i\<lparr>ingress_authenticated := True,
                           ingress_neighbor_generation := (case sender of Some n \<Rightarrow> hs_gen S n | None \<Rightarrow> 0),
                           ingress_discovery := (case sender of Some n \<Rightarrow> adj_state (nbr (hs_intf S) n) \<noteq> EIGRP_NEIGHBOR_UP | None \<Rightarrow> True)\<rparr>,
                         case sender of Some n \<Rightarrow> eigrp_nbr_holddown_update X n S | None \<Rightarrow> S)) } })"
  using header_valid_length(1) [of C "in_source i"]
  by (auto simp: eigrp_packet_ingress_authenticate_def auth_consts Let_def split: option.split)

lemma process_unfold:
  "eigrp_packet_input_process X C i S =
     (if \<not> rx_here C i then Some (Packet_done, S)
      else case input_bytes i of
        None \<Rightarrow> Some (Packet_done, S)
      | Some bs \<Rightarrow>
          if rc_passive C then Some (if destination_multicast (in_meta i) then Multicast_join else Packet_done, S)
          else if \<not> rx_header_valid C (in_source i) bs then Some (Packet_done, S)
          else if af_suspended S \<and> header_opcode bs = EIGRP_OPC_HELLO then Some (Packet_done, S)
          else
            (let sender = eigrp_nbr_lookup (in_source i) S
             in if (case sender of Some n \<Rightarrow> \<not> eigrp_nbr_is_eligible S n | None \<Rightarrow> False) \<or> \<not> ingress_authenticated i
                   \<or> ingress_neighbor_generation i \<noteq> 0
                     \<and> (case sender of Some n \<Rightarrow> hs_gen S n \<noteq> ingress_neighbor_generation i | None \<Rightarrow> True)
                then Some (Packet_done, S)
                else if header_opcode bs = EIGRP_OPC_HELLO
                then map_option (Pair Packet_done) (input_hello X C i bs sender S)
                else Some (case sender of None \<Rightarrow> (Packet_done, S) | Some n \<Rightarrow> input_other X i bs n S)))"
  using header_valid_length(1) [of C "in_source i"]
  by (auto simp: eigrp_packet_input_process_def auth_consts Let_def split: option.split)

lemma fresh_total: "rx_header_valid C src bs \<Longrightarrow> \<exists>fresh T. hello_fresh C i bs sender S = Some (fresh, T)"
  using header_valid_length(2) [of C src bs]
  by (auto simp: hello_fresh_def eigrp_auth_discovery_sequence_accept_def split: option.splits)

lemma fresh_effect: "hello_fresh C i bs sender S = Some (fresh, T) \<Longrightarrow> T = S \<or> (\<exists>n peer. T = auth_peer_store n peer S)"
  by (auto simp: hello_fresh_def bind_eq_Some_conv split: option.splits if_splits)

subsection \<open>The steps a Hello is made of\<close>

text \<open>Whatever a Hello does to the state after its sender is known is a sequence of these changes of that neighbour.\<close>

inductive nbr_prim :: "nbr_id \<Rightarrow> hello_state \<Rightarrow> hello_state \<Rightarrow> bool" for n where
  change: "unseen f \<Longrightarrow> nbr_prim n S (on_intf (nbr_change n f) S)"
| down: "nbr_prim n S (on_intf (eigrp_nbr_state_update now n EIGRP_NEIGHBOR_DOWN) S)"
| pending: "nbr_prim n S (on_intf (eigrp_nbr_state_update now n EIGRP_NEIGHBOR_PENDING) S)"
| delete: "nbr_prim n S (on_intf (eigrp_nbr_delete now n) S)"
| hello_output: "nbr_prim n S (on_intf (eigrp_packet_output_enqueue p) S)"
| init: "nbr_prim n S (on_intf (rtp_send_init alloc n p) S)"
| release: "nbr_prim n S (S\<lparr>hs_release := r\<rparr>)"
| sequence: "nbr_prim n S (S\<lparr>hs_sequence := c\<rparr>)"

abbreviation nbr_prims :: "nbr_id \<Rightarrow> hello_state \<Rightarrow> hello_state \<Rightarrow> bool" where
  "nbr_prims n \<equiv> (nbr_prim n)\<^sup>*\<^sup>*"

lemma prim_step:
  "unseen f \<Longrightarrow> nbr_prims n S (on_intf (nbr_change n f) S)"
  "nbr_prims n S (on_intf (eigrp_nbr_state_update now n EIGRP_NEIGHBOR_DOWN) S)"
  "nbr_prims n S (on_intf (eigrp_nbr_state_update now n EIGRP_NEIGHBOR_PENDING) S)"
  "nbr_prims n S (on_intf (eigrp_nbr_delete now n) S)"
  "nbr_prims n S (on_intf (eigrp_packet_output_enqueue p) S)"
  "nbr_prims n S (on_intf (rtp_send_init alloc n p) S)"
  "nbr_prims n S (S\<lparr>hs_release := r\<rparr>)"
  "nbr_prims n S (S\<lparr>hs_sequence := c\<rparr>)"
  by (blast intro: nbr_prim.intros)+

lemma hello_send_prims: "eigrp_hello_send X sent E EIGRP_HELLO_NORMAL a S = Some S' \<Longrightarrow> nbr_prims n S S'"
  by (auto simp: eigrp_hello_send_def hello_flags bind_eq_Some_conv intro: prim_step split: option.splits prod.splits)

lemma send_init_prims:
  assumes "eigrp_update_send_init_packet X E n S = Some S'"
  shows "nbr_prims n S S'"
proof -
  obtain p T where t: "eigrp_update_neighbor_packet_create X E n 1 S = Some (p, T)"
      "S' = (case p of None \<Rightarrow> T | Some p \<Rightarrow> on_intf (rtp_send_init (hx_copy X) n p) T)"
    using assms by (auto simp: eigrp_update_send_init_packet_def bind_eq_Some_conv)
  have "\<exists>c. T = S\<lparr>hs_sequence := c\<rparr>"
    using t(1) by (auto simp: eigrp_update_neighbor_packet_create_def bind_eq_Some_conv Let_def case_prod_beta split: option.splits)
  then have "nbr_prims n S T" by (auto intro: prim_step)
  with t(2) show ?thesis by (auto intro: rtranclp_trans [OF _ prim_step(6)] split: option.splits)
qed

lemma parameter_prims:
  assumes "eigrp_hello_parameter_decode X E n bs S = Some (alive, S')"
  shows "nbr_prims n S S'"
proof -
  obtain k h where k: "peek 4 6 bs = Some k" "peek_u16 10 bs = Some h" using assms by (auto simp: eigrp_hello_parameter_decode_def bind_eq_Some_conv)
  define T where "T = on_intf (nbr_change n (\<lambda>nb. nb\<lparr>nbr_K := k, v_holddown := h\<rparr>)) S"
  have T: "nbr_prims n S T" unfolding T_def by (rule prim_step) (simp add: unseen_def)
  let ?down = "on_intf (eigrp_nbr_state_update (hx_now X) n EIGRP_NEIGHBOR_DOWN) T"
  have d: "nbr_prims n S ?down" by (rule rtranclp_trans [OF T prim_step(2)])
  consider "S' = on_intf (eigrp_nbr_delete (hx_now X) n) ?down" | "S' = ?down" | "S' = T"
    | U W where "eigrp_hello_send X True E EIGRP_HELLO_NORMAL (Some (hs_src T n)) T = Some U" "eigrp_update_send_init_packet X E n U = Some W"
        "S' = on_intf (eigrp_nbr_state_update (hx_now X) n EIGRP_NEIGHBOR_PENDING) W"
    using assms unfolding eigrp_hello_parameter_decode_def k bind.bind_lunit Let_def T_def [symmetric]
    by (auto simp: bind_eq_Some_conv split: if_splits)
  then show ?thesis
  proof cases
    case 1
    then show ?thesis using rtranclp_trans [OF d prim_step(4)] by simp
  next
    case 4
    show ?thesis unfolding 4(3) using T hello_send_prims [OF 4(1)] send_init_prims [OF 4(2)] prim_step(3) [of n W] by (meson rtranclp_trans)
  qed (use d T in simp_all)
qed

lemma version_prims: "eigrp_sw_version_decode E n bs S = Some S' \<Longrightarrow> nbr_prims n S S'"
proof -
  assume a: "eigrp_sw_version_decode E n bs S = Some S'"
  obtain v r where S': "S' = on_intf (eigrp_nbr_codec_select n v) (S\<lparr>hs_release := r\<rparr>)"
    using a by (auto simp: eigrp_sw_version_decode_def bind_eq_Some_conv Let_def)
  have "nbr_prims n T (on_intf (eigrp_nbr_codec_select n v) T)" for T
  proof (cases "v = 1 \<or> v = 2")
    case True
    then have "on_intf (eigrp_nbr_codec_select n v) T = on_intf (nbr_change n (\<lambda>nb. nb\<lparr>peer_tlv_version := v\<rparr>)) T"
      by (simp add: eigrp_nbr_codec_select_def on_intf_def)
    then show ?thesis by (auto intro!: prim_step simp: unseen_def)
  qed (simp add: eigrp_nbr_codec_select_def on_intf_def)
  then show ?thesis unfolding S' by (rule rtranclp_trans [OF prim_step(7)])
qed

lemma termination_prims: "eigrp_peer_termination_decode X l me n len bs S = Some S' \<Longrightarrow> nbr_prims n S S'"
proof -
  assume a: "eigrp_peer_termination_decode X l me n len bs S = Some S'"
  have "nbr_prims n S (on_intf (eigrp_nbr_delete (hx_now X) n) (on_intf (eigrp_nbr_state_update (hx_now X) n EIGRP_NEIGHBOR_DOWN) S))"
    by (rule rtranclp_trans [OF prim_step(2) prim_step(4)])
  with a show ?thesis by (auto simp: eigrp_peer_termination_decode_def bind_eq_Some_conv on_intf_def split: if_splits)
qed

lemma hello_tlv_prims: "hello_tlv X E me n ty len bs seen S = Some (r, S') \<Longrightarrow> nbr_prims n S S'"
  by (auto simp: hello_tlv_def Let_def bind_eq_Some_conv intro: parameter_prims version_prims termination_prims split: if_splits)

lemma hello_tlvs_prims: "hello_tlvs X E me n bs seen S = Some (r, S') \<Longrightarrow> nbr_prims n S S'"
proof (induction X E me n bs seen S arbitrary: r S' rule: hello_tlvs.induct)
  case (1 X E me n bs seen S)
  from "1.prems" show ?case
    by (subst (asm) hello_tlvs.simps)
       (auto simp: bind_eq_Some_conv split: if_splits option.splits
         dest!: hello_tlv_prims "1.IH" intro: rtranclp_trans)
qed

lemma hello_finish_prims: "nbr_prims n S (hello_finish X n new_nbr ack seen S)"
proof -
  have h: "nbr_prims n T (eigrp_nbr_holddown_update X n T)" for T
    unfolding eigrp_nbr_holddown_update_def Let_def by (rule prim_step) (simp add: unseen_def)
  have c: "nbr_prims n S (on_intf (nbr_change n (\<lambda>nb. nb\<lparr>cr_mode := a, cr_sequence := b\<rparr>)) S)" for a b
    by (rule prim_step) (simp add: unseen_def)
  show ?thesis using h c rtranclp_trans [OF c h] by (auto simp: hello_finish_def Let_def intro: prim_step)
qed

text \<open>The receiver: the sender is known or created, then only it changes.\<close>

lemma hello_receive_prims:
  assumes "eigrp_hello_receive X others af E name me src packet S = Some S'"
  shows "S' = S \<or> (\<exists>r new T. hello_nbr X others src S = (r, new, T) \<and> (case r of None \<Rightarrow> S' = T | Some n \<Rightarrow> nbr_prims n T S'))"
proof (cases "hello_nbr X others src S")
  case (fields r new T)
  have c: "nbr_prims n T (on_intf (nbr_change n (\<lambda>nb. nb\<lparr>crypt_seqnum := q\<rparr>)) T)" for n q by (rule prim_step) (simp add: unseen_def)
  have t: "nbr_prims n T U \<Longrightarrow> hello_tlvs X E me n bs seen U = Some (q, W) \<Longrightarrow> nbr_prims n T W" for n U bs seen q W
    using hello_tlvs_prims by (meson rtranclp_trans)
  show ?thesis
  proof (cases "S' = S \<or> r = None")
    case True
    then show ?thesis using assms fields by (auto simp: eigrp_hello_receive_def bind_eq_Some_conv split: if_splits)
  next
    case False
    then obtain n where n: "r = Some n" by auto
    obtain U W q x where u: "nbr_prims n T U" "hello_tlvs X E me n (drop 20 packet) x U = Some (q, W)"
        "S' = (case q of None \<Rightarrow> W | Some seen \<Rightarrow> hello_finish X n new (ntohl (field 12 4 packet)) seen W)"
      using assms False fields n c
      by (auto simp: eigrp_hello_receive_def bind_eq_Some_conv auth_consts split: if_splits; blast)
    have "nbr_prims n W S'" using hello_finish_prims u(3) by (simp split: option.splits)
    with t [OF u(1,2)] have "nbr_prims n T S'" by (rule rtranclp_trans)
    then show ?thesis using fields n by auto
  qed
qed

subsection \<open>What brings an adjacency up\<close>

definition no_new_up :: "hello_state \<Rightarrow> hello_state \<Rightarrow> bool" where
  "no_new_up S S' \<longleftrightarrow> (\<forall>m. adj_state (nbr (hs_intf S') m) = EIGRP_NEIGHBOR_UP \<longrightarrow> adj_state (nbr (hs_intf S) m) = EIGRP_NEIGHBOR_UP)"

lemma no_new_up_refl [simp]: "no_new_up S S"
  by (simp add: no_new_up_def)

lemma no_new_up_trans: "no_new_up S T \<Longrightarrow> no_new_up T U \<Longrightarrow> no_new_up S U"
  by (simp add: no_new_up_def)

lemma adj_simps [simp]:
  "adj_state (nbr (eigrp_nbr_state_update now n EIGRP_NEIGHBOR_DOWN I) m) = (if m = n then EIGRP_NEIGHBOR_DOWN else adj_state (nbr I m))"
  "adj_state (nbr (eigrp_packet_send_reliably alloc n I) m) = adj_state (nbr I m)"
  "adj_state (nbr (rtp_send_init alloc n p I) m) = adj_state (nbr I m)"
  "nbr (eigrp_packet_neighbor_retry_cancel n q I) = nbr I" "nbr (eigrp_packet_neighbor_output_clear n I) = nbr I"
proof -
  show d: "adj_state (nbr (eigrp_nbr_state_update now n EIGRP_NEIGHBOR_DOWN I) m) = (if m = n then EIGRP_NEIGHBOR_DOWN else adj_state (nbr I m))" for I
    by (simp add: state_down_nbr nbr_reset_def eigrp_nbr_rtt_clear_def state_enter_def Let_def)
  show r: "adj_state (nbr (eigrp_packet_send_reliably alloc n I) m) = adj_state (nbr I m)" for I
    by (auto simp: eigrp_packet_send_reliably_def eigrp_packet_output_enqueue_def eigrp_packet_allocation_retry_def head_update_def split: option.splits)
  show "adj_state (nbr (rtp_send_init alloc n p I) m) = adj_state (nbr I m)"
    by (auto simp: rtp_send_init_def eigrp_update_neighbor_packet_queue_def Let_def r)
  show "nbr (eigrp_packet_neighbor_retry_cancel n q I) = nbr I" "nbr (eigrp_packet_neighbor_output_clear n I) = nbr I"
    by (simp_all add: eigrp_packet_neighbor_retry_cancel_def eigrp_packet_neighbor_output_clear_def eigrp_packet_neighbor_output_drop_def Let_def)
qed

lemma adj_pending: "adj_state (nbr (eigrp_nbr_state_update now n EIGRP_NEIGHBOR_PENDING I) m) = EIGRP_NEIGHBOR_UP
   \<Longrightarrow> adj_state (nbr I m) = EIGRP_NEIGHBOR_UP"
  by (auto simp: eigrp_nbr_state_update_def state_enter_def Let_def split: if_splits)

lemma adj_delete: "adj_state (nbr (eigrp_nbr_delete now n I) m) = (if m = n then EIGRP_NEIGHBOR_DOWN else adj_state (nbr I m))"
  by (simp add: eigrp_nbr_delete_def eigrp_nbr_down_def)

lemma prim_no_up: "nbr_prim n S S' \<Longrightarrow> no_new_up S S'"
  by (induction rule: nbr_prim.induct)
     (auto simp: no_new_up_def adj_delete unseen_def eigrp_packet_output_enqueue_def split: if_splits dest: adj_pending)

lemma prims_no_up: "nbr_prims n S S' \<Longrightarrow> no_new_up S S'"
  by (induction rule: rtranclp_induct) (auto intro: no_new_up_trans prim_no_up)

lemma create_no_up: "eigrp_nbr_create X others src S = (r, T) \<Longrightarrow> no_new_up S T"
  by (auto simp: eigrp_nbr_create_def Let_def no_new_up_def on_intf_def split: if_splits option.splits)

lemma hello_receive_no_up:
  assumes "eigrp_hello_receive X others af E name me src packet S = Some S'"
  shows "no_new_up S S'"
proof -
  have "no_new_up S T" if "hello_nbr X others src S = (r, new, T)" for r new T
    using that create_no_up by (auto simp: hello_nbr_def split: option.splits prod.splits)
  then show ?thesis
    using hello_receive_prims [OF assms] prims_no_up no_new_up_trans by (fastforce split: option.splits)
qed

lemma ack_up:
  assumes "adj_state (nbr (eigrp_packet_ack now alloc n a s I) m) = EIGRP_NEIGHBOR_UP" and "adj_state (nbr I m) \<noteq> EIGRP_NEIGHBOR_UP"
  shows "m = n \<and> adj_state (nbr I n) = EIGRP_NEIGHBOR_PENDING \<and> a = own_init_sequence (nbr I n)
     \<and> (\<exists>p. rtp_head n I = Some p \<and> sequence_number p = a)"
proof (cases "rtp_head n I")
  case None
  then show ?thesis using assms by (simp add: eigrp_packet_ack_def)
next
  case (Some p)
  have u: "adj_state (nbr (eigrp_nbr_state_update now n EIGRP_NEIGHBOR_UP J) m) = EIGRP_NEIGHBOR_UP \<Longrightarrow> m \<noteq> n
      \<Longrightarrow> adj_state (nbr J m) = EIGRP_NEIGHBOR_UP" for J
    by (auto simp: eigrp_nbr_state_update_def state_enter_def Let_def split: if_splits)
  have f: "adj_state (eigrp_nbr_srtt_update now p nb) = adj_state nb" "own_init_sequence (eigrp_nbr_srtt_update now p nb) = own_init_sequence nb" for nb
    by (simp_all add: eigrp_nbr_srtt_update_def eigrp_nbr_rtt_sample_def Let_def)
  define J where "J = eigrp_packet_multicast_resume (nbr_change n (\<lambda>nb. nb\<lparr>retrans_queue := snd (eigrp_packet_dequeue (retrans_queue nb))\<rparr>)
      ((if retry_queued p then eigrp_packet_neighbor_retry_cancel n a else id) (nbr_change n (eigrp_nbr_srtt_update now p) I)))"
  have J: "adj_state (nbr J k) = adj_state (nbr I k)" "own_init_sequence (nbr J k) = own_init_sequence (nbr I k)" for k
    by (simp_all add: J_def f)
  have e: "eigrp_packet_ack now alloc n a s I = (if a \<noteq> sequence_number p then I
      else if adj_state (nbr J n) = EIGRP_NEIGHBOR_PENDING \<and> a = own_init_sequence (nbr J n)
      then rtp_call (Update_send_EOT n) (nbr_change n (\<lambda>nb. nb\<lparr>own_init_sequence := 0, last_recv_sequence := s\<rparr>)
             (eigrp_nbr_state_update now n EIGRP_NEIGHBOR_UP J))
      else rtp_call (Sync_continue n) (eigrp_packet_send_reliably alloc n J))"
    unfolding J_def by (simp add: eigrp_packet_ack_def Some Let_def)
  have "adj_state (nbr (rtp_call c K) m) = adj_state (nbr K m)" for c K by simp
  then show ?thesis using assms J u [of J] Some unfolding e by (auto split: if_splits)
qed

lemma auth_store_adj [simp]:
  "adj_state (nbr (hs_intf (auth_peer_store n peer S)) m) = adj_state (nbr (hs_intf S) m)"
  "own_init_sequence (nbr (hs_intf (auth_peer_store n peer S)) m) = own_init_sequence (nbr (hs_intf S) m)"
  "rtp_head m (hs_intf (auth_peer_store n peer S)) = rtp_head m (hs_intf S)"
  by (auto simp: auth_peer_store_def rtp_head_def split: option.splits)

lemma cr_adj:
  "adj_state (nbr (hs_intf (cr_unicast b q n S)) m) = adj_state (nbr (hs_intf S) m)"
  "own_init_sequence (nbr (hs_intf (cr_unicast b q n S)) m) = own_init_sequence (nbr (hs_intf S) m)"
  "rtp_head m (hs_intf (cr_unicast b q n S)) = rtp_head m (hs_intf S)"
  "cr_multicast b bs n S = Some T \<Longrightarrow> adj_state (nbr (hs_intf T) m) = adj_state (nbr (hs_intf S) m)
     \<and> own_init_sequence (nbr (hs_intf T) m) = own_init_sequence (nbr (hs_intf S) m) \<and> rtp_head m (hs_intf T) = rtp_head m (hs_intf S)"
  by (auto simp: cr_unicast_def cr_multicast_def rtp_head_def split: if_splits)

definition acknowledges_init :: "u8 list \<Rightarrow> nbr_id \<Rightarrow> hello_state \<Rightarrow> bool" where
  "acknowledges_init bs m S \<longleftrightarrow> header_ack bs \<noteq> 0 \<and> adj_state (nbr (hs_intf S) m) = EIGRP_NEIGHBOR_PENDING
     \<and> header_ack bs = own_init_sequence (nbr (hs_intf S) m)
     \<and> (\<exists>p. rtp_head m (hs_intf S) = Some p \<and> sequence_number p = header_ack bs)"

lemma acknowledge_up:
  assumes "adj_state (nbr (hs_intf (packet_acknowledge X n bs S)) m) = EIGRP_NEIGHBOR_UP" and "adj_state (nbr (hs_intf S) m) \<noteq> EIGRP_NEIGHBOR_UP"
    and "header_ack bs \<noteq> 0"
  shows "m = n \<and> acknowledges_init bs n S"
  using ack_up [of "hx_now X" "hx_copy X" n "header_ack bs" "header_sequence bs" "hs_intf S" m] assms
  by (auto simp: packet_acknowledge_def acknowledges_init_def)

lemma input_hello_up:
  assumes "input_hello X C i bs sender S = Some S'" and "adj_state (nbr (hs_intf S') m) = EIGRP_NEIGHBOR_UP"
    and "adj_state (nbr (hs_intf S) m) \<noteq> EIGRP_NEIGHBOR_UP"
  shows "sender = Some m \<and> acknowledges_init bs m S"
proof -
  obtain fresh T where T: "hello_fresh C i bs sender S = Some (fresh, T)" using assms(1) by (auto simp: input_hello_def bind_eq_Some_conv)
  then have t: "adj_state (nbr (hs_intf T) k) = adj_state (nbr (hs_intf S) k)" "acknowledges_init bs k T = acknowledges_init bs k S" for k
    using fresh_effect [OF T] by (auto simp: acknowledges_init_def)
  have e: "input_hello X C i bs sender S = (if \<not> fresh then Some T
      else if header_ack bs \<noteq> 0 then Some (case sender of Some n \<Rightarrow> packet_acknowledge X n bs T | None \<Rightarrow> T)
      else eigrp_hello_receive X (rc_others C) (rc_af C) (rc_env C) (rc_name C) (rc_me C) (in_source i) bs T)"
    unfolding input_hello_def T by simp
  show ?thesis
    using assms t acknowledge_up [of X _ bs T m] hello_receive_no_up [of X "rc_others C" "rc_af C" "rc_env C" "rc_name C" "rc_me C" "in_source i" bs T S']
    unfolding e by (auto simp: no_new_up_def split: if_splits option.splits)
qed

lemma input_other_up:
  assumes "input_other X i bs n S = (a, S')"
  shows "adj_state (nbr (hs_intf S') m) = EIGRP_NEIGHBOR_UP \<Longrightarrow> adj_state (nbr (hs_intf S) m) \<noteq> EIGRP_NEIGHBOR_UP \<Longrightarrow> m = n \<and> acknowledges_init bs n S"
    and "a = Packet_handler opcode k \<Longrightarrow> k = n \<and> opcode = header_opcode bs
      \<and> (opcode = EIGRP_OPC_UPDATE \<or> adj_state (nbr (hs_intf S') n) = EIGRP_NEIGHBOR_UP)"
proof -
  let ?T = "cr_unicast (destination_multicast (in_meta i)) (header_sequence bs) n S"
  show "m = n \<and> acknowledges_init bs n S"
    if up: "adj_state (nbr (hs_intf S') m) = EIGRP_NEIGHBOR_UP" "adj_state (nbr (hs_intf S) m) \<noteq> EIGRP_NEIGHBOR_UP"
  proof (cases "cr_multicast (destination_multicast (in_meta i)) bs n ?T")
    case None
    then show ?thesis using assms up by (auto simp: input_other_def Let_def cr_adj)
  next
    case (Some U)
    then have "S' = (if header_ack bs \<noteq> 0 then packet_acknowledge X n bs U else U)"
      using assms by (simp add: input_other_def Let_def split: if_splits)
    moreover have "adj_state (nbr (hs_intf U) k) = adj_state (nbr (hs_intf S) k)" "acknowledges_init bs k U = acknowledges_init bs k S" for k
      using cr_adj(4) [OF Some, of k] by (simp_all add: cr_adj acknowledges_init_def)
    ultimately show ?thesis using up acknowledge_up [of X n bs U m] by (simp split: if_splits)
  qed
  show "k = n \<and> opcode = header_opcode bs \<and> (opcode = EIGRP_OPC_UPDATE \<or> adj_state (nbr (hs_intf S') n) = EIGRP_NEIGHBOR_UP)"
    if "a = Packet_handler opcode k"
    using assms that by (auto simp: input_other_def Let_def split: option.splits if_splits)
qed

text \<open>
  C10: Only two-way communication brings an adjacency up, and only an adjacency gets its packets handled.  Whatever packet the thread
  of the address family takes from its queue: (1) a neighbour that is UP afterwards and was not before is the sender of that packet,
  the packet passed the checks of header and checksum and was authenticated at ingress, the neighbour was PENDING, and the packet
  acknowledges the INIT packet that is the head of the neighbour's queue; (2) the handler of an opcode runs only for the known sender,
  in the incarnation (generation) the packet was authenticated for (0 when it had no known sender then), while it is not suspended, and, unless the packet is an UPDATE,
  while its adjacency is UP.
\<close>

theorem adjacency_gate:
  assumes "eigrp_packet_input_process X C i S = Some (a, S')"
  shows "(\<forall>m. adj_state (nbr (hs_intf S') m) = EIGRP_NEIGHBOR_UP \<and> adj_state (nbr (hs_intf S) m) \<noteq> EIGRP_NEIGHBOR_UP \<longrightarrow>
      (\<exists>bs. input_packet i = Some (Some bs) \<and> rx_header_valid C (in_source i) bs \<and> ingress_authenticated i
        \<and> eigrp_nbr_lookup (in_source i) S = Some m \<and> acknowledges_init bs m S))
    \<and> (\<forall>opcode n. a = Packet_handler opcode n \<longrightarrow>
      (\<exists>bs. input_packet i = Some (Some bs) \<and> rx_header_valid C (in_source i) bs \<and> ingress_authenticated i
        \<and> eigrp_nbr_lookup (in_source i) S = Some n \<and> eigrp_nbr_is_eligible S n \<and> ingress_neighbor_generation i \<in> {0, hs_gen S n}
        \<and> opcode = header_opcode bs \<and> (opcode = EIGRP_OPC_UPDATE \<or> adj_state (nbr (hs_intf S') n) = EIGRP_NEIGHBOR_UP)))"
proof (intro conjI allI impI)
  show "\<exists>bs. input_packet i = Some (Some bs) \<and> rx_header_valid C (in_source i) bs \<and> ingress_authenticated i
      \<and> eigrp_nbr_lookup (in_source i) S = Some m \<and> acknowledges_init bs m S"
    if "adj_state (nbr (hs_intf S') m) = EIGRP_NEIGHBOR_UP \<and> adj_state (nbr (hs_intf S) m) \<noteq> EIGRP_NEIGHBOR_UP" for m
    using assms that input_hello_up [of X C i _ _ S S'] input_other_up(1) [of X i _ _ S a S']
    by (fastforce simp: process_unfold Let_def split: if_splits option.splits)
  show "\<exists>bs. input_packet i = Some (Some bs) \<and> rx_header_valid C (in_source i) bs \<and> ingress_authenticated i
      \<and> eigrp_nbr_lookup (in_source i) S = Some n \<and> eigrp_nbr_is_eligible S n \<and> ingress_neighbor_generation i \<in> {0, hs_gen S n}
      \<and> opcode = header_opcode bs \<and> (opcode = EIGRP_OPC_UPDATE \<or> adj_state (nbr (hs_intf S') n) = EIGRP_NEIGHBOR_UP)"
    if "a = Packet_handler opcode n" for opcode n
    using assms that input_other_up(2) [of X i _ _ S a S' opcode n]
    by (fastforce simp: process_unfold Let_def split: if_splits option.splits)
qed

subsection \<open>Safety\<close>

lemma send_reliably_frame:
  assumes "n \<in> set (nbr_list J)"
  shows "nbr_list (eigrp_packet_send_reliably True n J) = nbr_list J" "outstanding (eigrp_packet_send_reliably True n J) \<subseteq> outstanding J"
  using assms queue_outstanding [of n J]
  by (auto simp: eigrp_packet_send_reliably_def eigrp_packet_dup_def outstanding_Un eigrp_packet_output_enqueue_def eigrp_packet_enqueue_def
      rtp_head_queue unicast_copy_def queue_def split: option.splits list.splits)

lemma state_up_frame:
  "nbr_list (eigrp_nbr_state_update now n EIGRP_NEIGHBOR_UP I) = nbr_list I"
  "outstanding (eigrp_nbr_state_update now n EIGRP_NEIGHBOR_UP I) = outstanding I"
proof -
  have f: "nbr_list (eigrp_intf_encoder_peer_add v J) = nbr_list J" "obuf (eigrp_intf_encoder_peer_add v J) = obuf J"
    "multicast_pending (eigrp_intf_encoder_peer_add v J) = multicast_pending J" "nbr (eigrp_intf_encoder_peer_add v J) = nbr J" for v J
    by (simp_all add: eigrp_intf_encoder_peer_add_def eigrp_intf_encoder_select_def)
  show "nbr_list (eigrp_nbr_state_update now n EIGRP_NEIGHBOR_UP I) = nbr_list I"
    by (simp add: eigrp_nbr_state_update_def state_enter_def Let_def f)
  have q: "queue m (eigrp_nbr_state_update now n EIGRP_NEIGHBOR_UP I) = queue m I" for m
    by (auto simp: eigrp_nbr_state_update_def state_enter_def Let_def queue_def f)
  have "obuf (eigrp_nbr_state_update now n EIGRP_NEIGHBOR_UP I) = obuf I"
    "multicast_pending (eigrp_nbr_state_update now n EIGRP_NEIGHBOR_UP I) = multicast_pending I"
    by (simp_all add: eigrp_nbr_state_update_def state_enter_def Let_def f)
  with q show "outstanding (eigrp_nbr_state_update now n EIGRP_NEIGHBOR_UP I) = outstanding I"
    by (simp add: outstanding_def \<open>nbr_list (eigrp_nbr_state_update now n EIGRP_NEIGHBOR_UP I) = nbr_list I\<close>)
qed

lemma ack_frame:
  assumes n: "n \<in> set (nbr_list I)"
  shows "nbr_list (eigrp_packet_ack now True n a s I) = nbr_list I" "outstanding (eigrp_packet_ack now True n a s I) \<subseteq> outstanding I"
    "curr_mtu (eigrp_packet_ack now True n a s I) = curr_mtu I"
proof -
  have "nbr_list (eigrp_packet_ack now True n a s I) = nbr_list I \<and> outstanding (eigrp_packet_ack now True n a s I) \<subseteq> outstanding I
      \<and> curr_mtu (eigrp_packet_ack now True n a s I) = curr_mtu I"
  proof (cases "queue n I")
    case Nil
    then show ?thesis by (simp add: eigrp_packet_ack_def rtp_head_queue)
  next
    case (Cons p q)
    let ?L = "eigrp_packet_multicast_resume (acked now n a p I)"
    have q: "queue m ?L = queue m (acked now n a p I)" for m by (simp add: queue_def)
    have "set (queue m (acked now n a p I)) \<subseteq> set (queue m I)" for m
    proof (cases "m = n")
      case True
      then show ?thesis using acked_simps(8) [where n = n and I = I] Cons by auto
    qed (simp add: queue_def)
    then have o: "outstanding ?L \<subseteq> outstanding I"
      using acked_obuf(1) [of now n a p I] unfolding outstanding_def by (auto simp: q)
    have l: "nbr_list ?L = nbr_list I" by simp
    have m: "curr_mtu ?L = curr_mtu I" by (simp add: acked_def Let_def eigrp_packet_neighbor_retry_cancel_def eigrp_packet_neighbor_output_drop_def)
    have c: "outstanding (rtp_call x J) = outstanding J" "outstanding (nbr_change n (\<lambda>nb. nb\<lparr>own_init_sequence := 0, last_recv_sequence := s\<rparr>) J)
        = outstanding J" for x J
    proof -
      have "queue m (nbr_change n (\<lambda>nb. nb\<lparr>own_init_sequence := 0, last_recv_sequence := s\<rparr>) J) = queue m J" for m by (simp add: queue_def)
      then show "outstanding (nbr_change n (\<lambda>nb. nb\<lparr>own_init_sequence := 0, last_recv_sequence := s\<rparr>) J) = outstanding J"
        by (simp add: outstanding_def)
    qed (simp add: outstanding_def queue_def)
    show ?thesis
      unfolding ack_unfold [OF Cons] Let_def
      using o l m n send_reliably_frame [of n ?L] by (auto simp: c state_up_frame)
  qed
  then show "nbr_list (eigrp_packet_ack now True n a s I) = nbr_list I" "outstanding (eigrp_packet_ack now True n a s I) \<subseteq> outstanding I"
    "curr_mtu (eigrp_packet_ack now True n a s I) = curr_mtu I" by auto
qed

lemma acknowledge_ok:
  assumes "adjacency_ok d S" and "n \<in> set (nbr_list (hs_intf S))" and "hx_copy X" and "intf_epoch (hs_intf S) + 1 \<noteq> 0"
  shows "adjacency_ok d (packet_acknowledge X n bs S)"
  unfolding packet_acknowledge_def using assms ack_frame [OF assms(2)]
  by (intro adjacency_intf [OF assms(1)]) (auto simp: adjacency_ok_def ack_ok)

lemma auth_store_ok: "adjacency_ok d S \<Longrightarrow> adjacency_ok d (auth_peer_store n peer S)"
  by (cases peer) (auto simp: auth_peer_store_def unseen_def intro: adjacency_unseen)

lemma auth_store_list [simp]:
  "nbr_list (hs_intf (auth_peer_store n peer S)) = nbr_list (hs_intf S)" "intf_epoch (hs_intf (auth_peer_store n peer S)) = intf_epoch (hs_intf S)"
  "hs_src (auth_peer_store n peer S) = hs_src S" "hs_gen (auth_peer_store n peer S) = hs_gen S"
  "hs_next_generation (auth_peer_store n peer S) = hs_next_generation S"
  by (auto simp: auth_peer_store_def nbr_change_def split: option.splits)

lemma cr_ok:
  assumes "adjacency_ok d S"
  shows "adjacency_ok d (cr_unicast b q n S)" and "cr_multicast b bs n S = Some T \<Longrightarrow> adjacency_ok d T"
proof -
  have "adjacency_ok d (on_intf (nbr_change n (\<lambda>nb. nb\<lparr>cr_mode := False, cr_sequence := 0\<rparr>)) S)"
    by (rule adjacency_unseen [OF assms]) (simp add: unseen_def)
  then show "adjacency_ok d (cr_unicast b q n S)" "cr_multicast b bs n S = Some T \<Longrightarrow> adjacency_ok d T"
    using assms by (auto simp: cr_unicast_def cr_multicast_def split: if_splits)
qed

lemma cr_list:
  "nbr_list (hs_intf (cr_unicast b q n S)) = nbr_list (hs_intf S)" "intf_epoch (hs_intf (cr_unicast b q n S)) = intf_epoch (hs_intf S)"
  "cr_multicast b bs n S = Some T \<Longrightarrow> nbr_list (hs_intf T) = nbr_list (hs_intf S) \<and> intf_epoch (hs_intf T) = intf_epoch (hs_intf S)"
  by (auto simp: cr_unicast_def cr_multicast_def nbr_change_def split: if_splits)

lemma input_hello_ok:
  assumes ok: "adjacency_ok (d + length bs) S" and X: "hx_copy X" and f: "\<And>n. hx_nbr X = Some n \<Longrightarrow> n \<notin> set (nbr_list (hs_intf S))"
    and h: "rx_header_valid C (in_source i) bs" and e: "intf_epoch (hs_intf S) + 1 \<noteq> 0" and s: "\<And>n. sender = Some n \<Longrightarrow> n \<in> set (nbr_list (hs_intf S))"
  shows "\<exists>S'. input_hello X C i bs sender S = Some S' \<and> adjacency_ok d S'"
proof -
  obtain fresh T where T: "hello_fresh C i bs sender S = Some (fresh, T)" using fresh_total [OF h] by blast
  then have t: "adjacency_ok (d + length bs) T" "nbr_list (hs_intf T) = nbr_list (hs_intf S)" "intf_epoch (hs_intf T) = intf_epoch (hs_intf S)"
    using fresh_effect [OF T] ok auth_store_ok by auto
  have i: "input_hello X C i bs sender S = (if \<not> fresh then Some T
      else if header_ack bs \<noteq> 0 then Some (case sender of Some n \<Rightarrow> packet_acknowledge X n bs T | None \<Rightarrow> T)
      else eigrp_hello_receive X (rc_others C) (rc_af C) (rc_env C) (rc_name C) (rc_me C) (in_source i) bs T)"
    unfolding input_hello_def T by simp
  have t': "adjacency_ok d T" by (rule adjacency_mono [OF t(1)]) simp
  have "adjacency_ok d (packet_acknowledge X n bs T)" if "sender = Some n" for n
    using acknowledge_ok [OF t' _ X] s [OF that] t(2,3) e by simp
  moreover have "\<exists>S'. eigrp_hello_receive X (rc_others C) (rc_af C) (rc_env C) (rc_name C) (rc_me C) (in_source i) bs T = Some S' \<and> adjacency_ok d S'"
    using t(2) f header_valid_length(2) [OF h] by (intro hello_receive_ok [OF t(1) X]) auto
  ultimately show ?thesis unfolding i using t' by (auto split: option.splits)
qed

lemma input_other_ok:
  assumes ok: "adjacency_ok d S" and X: "hx_copy X" and e: "intf_epoch (hs_intf S) + 1 \<noteq> 0" and n: "n \<in> set (nbr_list (hs_intf S))"
    and r: "input_other X i bs n S = (a, S')"
  shows "adjacency_ok d S'"
proof -
  let ?T = "cr_unicast (destination_multicast (in_meta i)) (header_sequence bs) n S"
  show ?thesis
  proof (cases "cr_multicast (destination_multicast (in_meta i)) bs n ?T")
    case None
    then have "S' = ?T" using r by (auto simp: input_other_def Let_def)
    then show ?thesis using cr_ok(1) [OF ok] by simp
  next
    case (Some U)
    then have "S' = (if header_ack bs \<noteq> 0 then packet_acknowledge X n bs U else U)"
      using r by (simp add: input_other_def Let_def split: if_splits)
    then show ?thesis
      using cr_ok(2) [OF cr_ok(1) [OF ok] Some] acknowledge_ok [of d U n X bs] X cr_list(3) [OF Some] n e by (simp add: cr_list)
  qed
qed

lemma input_packet_length: "input_bytes i = Some bs \<Longrightarrow> length bs \<le> length (in_stream i) \<and> length bs \<le> 65535"
  by (auto simp: input_bytes_cut eigrp_packet_input_bounds_validate_def field_def split: if_splits)

lemma input_process_ok:
  assumes ok: "adjacency_ok (d + length (in_stream i)) S" and X: "hx_copy X" and f: "\<And>n. hx_nbr X = Some n \<Longrightarrow> n \<notin> set (nbr_list (hs_intf S))"
    and e: "intf_epoch (hs_intf S) + 1 \<noteq> 0"
  shows "\<exists>a S'. eigrp_packet_input_process X C i S = Some (a, S') \<and> adjacency_ok d S'"
proof -
  have ok': "adjacency_ok d S" by (rule adjacency_mono [OF ok]) simp
  show ?thesis
  proof (cases "\<exists>bs. input_bytes i = Some bs \<and> rx_header_valid C (in_source i) bs")
    case False
    then show ?thesis using ok' by (auto simp: process_unfold split: option.splits)
  next
    case True
    then obtain bs where b: "input_bytes i = Some bs" "rx_header_valid C (in_source i) bs" by blast
    let ?s = "eigrp_nbr_lookup (in_source i) S"
    have s: "\<And>n. ?s = Some n \<Longrightarrow> n \<in> set (nbr_list (hs_intf S))" using lookup_found by blast
    have o: "adjacency_ok (d + length bs) S" by (rule adjacency_mono [OF ok]) (use input_packet_length [OF b(1)] in simp)
    obtain H where H: "input_hello X C i bs ?s S = Some H" "adjacency_ok d H"
      using input_hello_ok [OF o X f b(2) e s, of ?s] by auto
    have O: "adjacency_ok d S'" if "?s = Some n" "input_other X i bs n S = (a, S')" for n a S'
      using input_other_ok [OF ok' X e s [OF that(1)] that(2)] .
    define q where "q = (case ?s of Some n \<Rightarrow> \<not> eigrp_nbr_is_eligible S n | None \<Rightarrow> False)"
    define g where "g = (case ?s of Some n \<Rightarrow> hs_gen S n \<noteq> ingress_neighbor_generation i | None \<Rightarrow> True)"
    show ?thesis
      using b H O ok' unfolding process_unfold Let_def q_def [symmetric] g_def [symmetric]
      by (cases ?s; cases "input_other X i bs (the ?s) S") simp_all
  qed
qed

lemma digest_total:
  assumes "length bs \<le> 65535"
  shows "eigrp_packet_auth_digest_validate A ctx H ei peer src bs \<noteq> None"
proof (cases "\<exists>t. auth_tlv_scan bs = Some (Some t, True)")
  case False
  then have "auth_tlv_scan bs = None \<or> fst (the (auth_tlv_scan bs)) = None
      \<or> \<not> snd (the (auth_tlv_scan bs))"
    by (cases "auth_tlv_scan bs") auto
  then show ?thesis by (auto simp: eigrp_packet_auth_digest_validate_def Let_def)
next
  case True
  then have l: "auth_tlv_scan bs = Some (Some 20, True)" using auth_tlv_lookup_first by blast
  show ?thesis
  proof (cases "auth_type ei = EIGRP_AUTH_TYPE_MD5")
    case True
    show ?thesis
    proof (cases "eigrp_stream_create A (length bs)")
      case (Some s)
      obtain n t where put: "eigrp_stream_put A s bs = (n, t)" by force
      with stream_of_bytes [OF Some] have t: "n = length bs" "take (st_endp t) (st_data t) = bs" "st_endp t = length bs" "st_endp t \<le> st_size t"
        by auto
      note check_md5_reference [OF t(2,3,4) assms True l]
      then show ?thesis using l Some put t(1) True auth_tlv_scan_length [OF l] by (simp add: eigrp_packet_auth_digest_validate_def Let_def auth_consts)
    qed (use l in \<open>simp add: eigrp_packet_auth_digest_validate_def Let_def\<close>)
  next
    case False
    show ?thesis
    proof (cases "eigrp_stream_create A (length bs)")
      case (Some s)
      obtain n t where put: "eigrp_stream_put A s bs = (n, t)" by force
      with stream_of_bytes [OF Some] have t: "n = length bs" "take (st_endp t) (st_data t) = bs" "st_endp t = length bs" by auto
      define F where "F p = the (eigrp_check_sha256_digest ctx H ei t p)" for p
      have "eigrp_check_sha256_digest ctx H ei t p = Some (F p)" for p using t by (auto simp: F_def eigrp_check_sha256_digest_def Let_def auth_consts)
      then show ?thesis using l Some put t(1) False auth_tlv_scan_length [OF l]
        by (auto simp: eigrp_packet_auth_digest_validate_def Let_def auth_consts split: option.split prod.split)
    qed (use l in \<open>simp add: eigrp_packet_auth_digest_validate_def Let_def\<close>)
  qed
qed

lemma ingress_ok:
  assumes "adjacency_ok d S"
  shows "\<exists>accepted i' S'. eigrp_packet_ingress_authenticate A ctx X C i S = Some (accepted, i', S') \<and> adjacency_ok d S'"
proof (cases "\<exists>bs. input_bytes i = Some bs \<and> \<not> (\<not> rx_here C i \<or> rc_passive C \<or> \<not> rx_header_valid C (in_source i) bs \<or> \<not> ingress_opcode (header_opcode bs))")
  case False
  then show ?thesis using assms by (auto simp: ingress_unfold split: option.splits)
next
  case True
  then obtain bs where b: "input_bytes i = Some bs"
      "(\<not> rx_here C i \<or> rc_passive C \<or> \<not> rx_header_valid C (in_source i) bs \<or> \<not> ingress_opcode (header_opcode bs)) = False" by blast
  have "ingress_hello_valid C (in_source i) bs \<noteq> None"
    using hello_tlvs_walk_total [of "packet_address_bytes (he_vectors (rc_env C))" "drop 20 bs" False]
    by (auto simp: ingress_hello_valid_def eigrp_hello_tlvs_validate_def auth_consts)
  then obtain v where v: "ingress_hello_valid C (in_source i) bs = Some v" by blast
  let ?s = "eigrp_nbr_lookup (in_source i) S"
  obtain r peer where p: "eigrp_packet_auth_digest_validate A ctx (he_host (rc_env C)) (he_auth (rc_env C)) (map_option (auth_peer S) ?s)
      (Some (addr_afi_number (ip_afi (in_source i)), ip_bytes (in_source i))) bs = Some (r, peer)"
    using digest_total input_packet_length [OF b(1)] by (metis not_None_eq surj_pair)
  have h: "adjacency_ok d (eigrp_nbr_holddown_update X n T)" if "adjacency_ok d T" for n T
    unfolding eigrp_nbr_holddown_update_def Let_def by (rule adjacency_unseen [OF that]) (simp add: unseen_def)
  have o: "adjacency_ok d (case ?s of Some n \<Rightarrow> auth_peer_store n peer S | None \<Rightarrow> S)"
    using assms auth_store_ok by (simp split: option.splits)
  show ?thesis
    using assms h o unfolding ingress_unfold b(1) option.case b(2) if_False v bind.bind_lunit p Let_def prod.case
    by (auto split: sum.splits option.splits)
qed

text \<open>
  C11: The receive path is safe against every packet.  Whatever bytes and metadata the host hands over, neither thread faults, where a fault is
  any read outside of the bytes present: the cut of the packet out of the buffer by its header length and declared length, the header, the walk over the TLVs, the
  authentication TLV and its sequence, and the TLVs of a Hello.  Both return, and the invariant of discovery and reliable delivery is kept, from the checks of
  the receive thread to the acknowledgement and the Hello processing of the address family.  The hypotheses: a new neighbour object is
  none of the existing ones, a packet copy can be allocated, the multicast epoch does not wrap, and the window of
  sequence numbers has room for the INIT packets.
\<close>

theorem receive_path_safe:
  assumes "adjacency_ok (d + length (in_stream i)) S" and "hx_copy X" and "\<And>n. hx_nbr X = Some n \<Longrightarrow> n \<notin> set (nbr_list (hs_intf S))"
    and "intf_epoch (hs_intf S) + 1 \<noteq> 0"
  shows "(\<exists>accepted i' S'. eigrp_packet_ingress_authenticate A ctx X C i S = Some (accepted, i', S') \<and> adjacency_ok (d + length (in_stream i)) S')
    \<and> (\<exists>a S'. eigrp_packet_input_process X C i S = Some (a, S') \<and> adjacency_ok d S')"
  using ingress_ok [OF assms(1)] input_process_ok [OF assms] by blast

subsection \<open>The two threads\<close>

text \<open>
  What the generations tell: a neighbour that is there later was there before, with the same generation, or was created in between and
  has a generation above all earlier ones.
\<close>

definition evolves :: "hello_state \<Rightarrow> hello_state \<Rightarrow> bool" where
  "evolves S S' \<longleftrightarrow> hs_next_generation S \<le> hs_next_generation S'
     \<and> (\<forall>m \<in> set (nbr_list (hs_intf S')). m \<in> set (nbr_list (hs_intf S)) \<and> hs_gen S' m = hs_gen S m
          \<or> hs_next_generation S < hs_gen S' m \<and> hs_gen S' m \<le> hs_next_generation S')"

lemma evolves_trans:
  assumes "evolves S T" and "evolves T U"
  shows "evolves S U"
proof -
  have n: "hs_next_generation S \<le> hs_next_generation T" "hs_next_generation T \<le> hs_next_generation U"
    using assms by (simp_all add: evolves_def)
  have "m \<in> set (nbr_list (hs_intf S)) \<and> hs_gen U m = hs_gen S m \<or> hs_next_generation S < hs_gen U m \<and> hs_gen U m \<le> hs_next_generation U"
    if "m \<in> set (nbr_list (hs_intf U))" for m
  proof (cases "m \<in> set (nbr_list (hs_intf T)) \<and> hs_gen U m = hs_gen T m")
    case True
    then show ?thesis using assms(1) order.trans [OF _ n(2), of "hs_gen T m"] by (auto simp: evolves_def)
  next
    case False
    then show ?thesis using assms(2) that order.strict_trans1 [OF n(1), of "hs_gen U m"] by (auto simp: evolves_def)
  qed
  then show ?thesis using order.trans [OF n] by (simp add: evolves_def)
qed

text \<open>Whatever else the instance does, new neighbours are only created by Hellos; those of other interfaces raise the counter.\<close>

definition peers_kept :: "hello_state \<Rightarrow> hello_state \<Rightarrow> bool" where
  "peers_kept S S' \<longleftrightarrow> set (nbr_list (hs_intf S')) \<subseteq> set (nbr_list (hs_intf S)) \<and> hs_gen S' = hs_gen S
     \<and> hs_next_generation S \<le> hs_next_generation S'"

lemma kept_evolves: "peers_kept S S' \<Longrightarrow> evolves S S'"
  by (auto simp: peers_kept_def evolves_def)

lemma kept_refl [simp]: "peers_kept S S"
  by (simp add: peers_kept_def)

lemma kept_trans: "peers_kept S T \<Longrightarrow> peers_kept T U \<Longrightarrow> peers_kept S U"
  by (auto simp: peers_kept_def)

lemma send_init_list: "nbr_list (rtp_send_init alloc n p I) = nbr_list I"
  by (auto simp: rtp_send_init_def eigrp_update_neighbor_packet_queue_def Let_def eigrp_packet_send_reliably_def eigrp_packet_output_enqueue_def
      eigrp_packet_allocation_retry_def head_update_def split: option.splits)

lemma prim_kept: "nbr_prim n S S' \<Longrightarrow> peers_kept S S'"
  by (induction rule: nbr_prim.induct)
     (auto simp: peers_kept_def pending_state_simps send_init_list eigrp_packet_output_enqueue_def dest: set_mp [OF set_remove1_subset])

lemma prims_kept: "nbr_prims n S S' \<Longrightarrow> peers_kept S S'"
  by (induction rule: rtranclp_induct) (auto intro: kept_trans prim_kept)

lemma ack_list: "nbr_list (eigrp_packet_ack now alloc n a s I) = nbr_list I"
proof -
  have f: "nbr_list (eigrp_intf_encoder_peer_add v J) = nbr_list J" for v J
    by (simp add: eigrp_intf_encoder_peer_add_def eigrp_intf_encoder_select_def)
  have u: "nbr_list (eigrp_nbr_state_update now n EIGRP_NEIGHBOR_UP J) = nbr_list J" for J by (rule state_up_frame)
  have r: "nbr_list (eigrp_packet_send_reliably alloc n J) = nbr_list J" for J
    by (auto simp: eigrp_packet_send_reliably_def eigrp_packet_output_enqueue_def eigrp_packet_allocation_retry_def head_update_def split: option.splits)
  have c: "nbr_list (eigrp_packet_neighbor_retry_cancel n q J) = nbr_list J" for q J
    by (simp add: eigrp_packet_neighbor_retry_cancel_def eigrp_packet_neighbor_output_drop_def Let_def)
  show ?thesis by (simp add: eigrp_packet_ack_def Let_def u r c split: option.splits)
qed

lemma create_evolves:
  assumes "eigrp_nbr_create X others src S = (r, T)" and "hs_next_generation S + 1 \<noteq> 0"
  shows "evolves S T"
proof -
  have g: "generation_next (hs_next_generation S) = hs_next_generation S + 1" "hs_next_generation S < hs_next_generation S + 1"
    using assms(2) unatSuc [of "hs_next_generation S"] by (simp_all add: generation_next_def word_less_nat_alt add.commute)
  show ?thesis
    using assms g by (auto simp: eigrp_nbr_create_def Let_def evolves_def split: if_splits option.splits)
qed

lemma hello_receive_evolves:
  assumes "eigrp_hello_receive X others af E name me src packet S = Some S'" and "hs_next_generation S + 1 \<noteq> 0"
  shows "evolves S S'"
proof -
  have "evolves S T" if "hello_nbr X others src S = (r, new, T)" for r new T
    using that create_evolves [OF _ assms(2)] kept_evolves [OF kept_refl] by (auto simp: hello_nbr_def split: option.splits prod.splits)
  then show ?thesis
    using hello_receive_prims [OF assms(1)] kept_evolves [OF prims_kept] kept_evolves [OF kept_refl] evolves_trans
    by (fastforce split: option.splits)
qed

lemma acknowledge_kept: "peers_kept S (packet_acknowledge X n bs S)"
  by (simp add: peers_kept_def packet_acknowledge_def ack_list)

lemma store_kept: "peers_kept S (auth_peer_store n peer S)"
  by (simp add: peers_kept_def)

lemma cr_kept: "peers_kept S (cr_unicast b q n S)" "cr_multicast b bs n S = Some T \<Longrightarrow> peers_kept S T"
  by (auto simp: peers_kept_def cr_unicast_def cr_multicast_def split: if_splits)

lemma input_hello_evolves:
  assumes "input_hello X C i bs sender S = Some S'" and "hs_next_generation S + 1 \<noteq> 0"
  shows "evolves S S'"
proof -
  obtain fresh T where T: "hello_fresh C i bs sender S = Some (fresh, T)" using assms(1) by (auto simp: input_hello_def bind_eq_Some_conv)
  then have t: "evolves S T" "hs_next_generation T = hs_next_generation S"
    using fresh_effect [OF T] kept_evolves [OF kept_refl] kept_evolves [OF store_kept] by auto
  have i: "input_hello X C i bs sender S = (if \<not> fresh then Some T
      else if header_ack bs \<noteq> 0 then Some (case sender of Some n \<Rightarrow> packet_acknowledge X n bs T | None \<Rightarrow> T)
      else eigrp_hello_receive X (rc_others C) (rc_af C) (rc_env C) (rc_name C) (rc_me C) (in_source i) bs T)"
    unfolding input_hello_def T by simp
  show ?thesis
    using assms t evolves_trans [OF t(1) kept_evolves [OF acknowledge_kept]] evolves_trans [OF t(1) hello_receive_evolves]
    unfolding i by (auto split: if_splits option.splits)
qed

lemma input_other_evolves:
  assumes "input_other X i bs n S = (a, S')"
  shows "evolves S S'"
proof -
  let ?T = "cr_unicast (destination_multicast (in_meta i)) (header_sequence bs) n S"
  have "peers_kept S S'"
  proof (cases "cr_multicast (destination_multicast (in_meta i)) bs n ?T")
    case None
    then show ?thesis using assms cr_kept(1) by (auto simp: input_other_def Let_def)
  next
    case (Some U)
    then have "S' = (if header_ack bs \<noteq> 0 then packet_acknowledge X n bs U else U)"
      using assms by (simp add: input_other_def Let_def split: if_splits)
    then show ?thesis using kept_trans [OF cr_kept(1) cr_kept(2) [OF Some]] acknowledge_kept kept_trans by auto
  qed
  then show ?thesis by (rule kept_evolves)
qed

lemma process_evolves:
  assumes "eigrp_packet_input_process X C i S = Some (a, S')" and "hs_next_generation S + 1 \<noteq> 0"
  shows "evolves S S'"
  using assms input_hello_evolves [of X C i _ _ S S'] input_other_evolves [of X i _ _ S a S'] kept_evolves [OF kept_refl, of S]
  by (auto simp: process_unfold Let_def split: if_splits option.splits)

lemma ingress_result:
  assumes "eigrp_packet_ingress_authenticate A ctx X C i S = Some (accepted, i', S')"
  shows "peers_kept S S'"
    and "accepted \<Longrightarrow> ingress_authenticated i' \<and> (ingress_neighbor_generation i' = 0 \<or> ingress_neighbor_generation i' \<in> hs_gen S ` set (nbr_list (hs_intf S)))"
proof -
  have u: "\<forall>x. a \<noteq> Inl x \<Longrightarrow> a \<noteq> Inr () \<Longrightarrow> False" for a :: "auth_reject + unit" by (cases a) auto
  have h: "peers_kept T (eigrp_nbr_holddown_update X n T)" for n T by (simp add: peers_kept_def eigrp_nbr_holddown_update_def Let_def)
  have "peers_kept S S' \<and> (accepted \<longrightarrow> ingress_authenticated i'
      \<and> (ingress_neighbor_generation i' = 0 \<or> ingress_neighbor_generation i' \<in> hs_gen S ` set (nbr_list (hs_intf S))))"
  proof (cases "eigrp_nbr_lookup (in_source i) S")
    case None
    with assms show ?thesis
      by (auto simp: ingress_unfold Let_def bind_eq_Some_conv split: option.split_asm if_split_asm sum.split_asm dest: u)
  next
    case (Some n)
    then have "n \<in> set (nbr_list (hs_intf S))" using lookup_found by blast
    with assms Some h store_kept kept_trans [OF store_kept h] show ?thesis
      by (auto simp: ingress_unfold Let_def bind_eq_Some_conv split: option.split_asm if_split_asm sum.split_asm dest: u)
  qed
  then show "peers_kept S S'" "accepted \<Longrightarrow> ingress_authenticated i'
      \<and> (ingress_neighbor_generation i' = 0 \<or> ingress_neighbor_generation i' \<in> hs_gen S ` set (nbr_list (hs_intf S)))" by auto
qed

text \<open>
  The steps of the two threads, in any order: the receive thread authenticates a packet, under the lock of the neighbours, and enqueues it, under the
  lock of the queue, and anything may happen between the two; the thread of the address family takes a packet out and processes it.  The rest of the instance (the opcode handlers, timers, DUAL, the writer, the other
  interfaces) is one step that creates no neighbour here.
\<close>

inductive rx_step :: "rx_config \<Rightarrow> rx_state \<Rightarrow> rx_state \<Rightarrow> bool" for C where
  accept: "rx_pending R = None \<Longrightarrow> eigrp_packet_ingress_authenticate A ctx X C i (rx_hello R) = Some (True, i', S')
    \<Longrightarrow> rx_step C R (R\<lparr>rx_hello := S', rx_pending := Some i'\<rparr>)"
| refuse: "rx_pending R = None \<Longrightarrow> eigrp_packet_ingress_authenticate A ctx X C i (rx_hello R) = Some (False, i', S')
    \<Longrightarrow> rx_step C R (R\<lparr>rx_hello := S'\<rparr>)"
| enqueue: "rx_pending R = Some i \<Longrightarrow> rx_step C R (snd (eigrp_packet_input_enqueue i (R\<lparr>rx_pending := None\<rparr>)))"
| process: "\<lbrakk>eigrp_packet_input_dequeue_locked R = (Some i, Q); eigrp_packet_input_process X C i (rx_hello Q) = Some (a, S');
     hs_next_generation (rx_hello Q) + 1 \<noteq> 0\<rbrakk> \<Longrightarrow> rx_step C R (Q\<lparr>rx_hello := S'\<rparr>)"
| others: "peers_kept (rx_hello R) S' \<Longrightarrow> rx_step C R (R\<lparr>rx_hello := S'\<rparr>)"
| clear: "rx_step C R (eigrp_packet_input_queue_clear R)"
| thread: "rx_step C R (R\<lparr>rx_shutdown := b, rx_thread_running := c\<rparr>)"

definition rx_initial :: "rx_state \<Rightarrow> bool" where
  "rx_initial R \<longleftrightarrow> nbr_list (hs_intf (rx_hello R)) = [] \<and> packet_queue R = [] \<and> packet_count R = 0 \<and> packet_discovery_count R = 0
     \<and> rx_pending R = None"

definition rx_reachable :: "rx_config \<Rightarrow> rx_state \<Rightarrow> bool" where
  "rx_reachable C R \<longleftrightarrow> (\<exists>R0. rx_initial R0 \<and> (rx_step C)\<^sup>*\<^sup>* R0 R)"

text \<open>The packets between authentication and processing.\<close>

definition rx_packets :: "rx_state \<Rightarrow> packet_input set" where
  "rx_packets R = set (packet_queue R) \<union> set_option (rx_pending R)"

definition rx_ok :: "rx_state \<Rightarrow> bool" where
  "rx_ok R \<longleftrightarrow> packet_count R = length (packet_queue R) \<and> packet_discovery_count R = length (filter ingress_discovery (packet_queue R))
     \<and> packet_count R \<le> EIGRP_AF_PACKET_INPUT_QUEUE_MAX \<and> packet_discovery_count R \<le> EIGRP_AF_PACKET_DISCOVERY_QUEUE_MAX
     \<and> (\<forall>i \<in> rx_packets R. ingress_authenticated i \<and> ingress_neighbor_generation i \<le> hs_next_generation (rx_hello R))
     \<and> (\<forall>n \<in> set (nbr_list (hs_intf (rx_hello R))). hs_gen (rx_hello R) n \<le> hs_next_generation (rx_hello R))"

lemma evolves_gens:
  assumes "evolves S S'" and "\<forall>n \<in> set (nbr_list (hs_intf S)). hs_gen S n \<le> hs_next_generation S"
  shows "\<forall>n \<in> set (nbr_list (hs_intf S')). hs_gen S' n \<le> hs_next_generation S'" and "g \<le> hs_next_generation S \<Longrightarrow> g \<le> hs_next_generation S'"
proof -
  have n: "hs_next_generation S \<le> hs_next_generation S'" using assms(1) by (simp add: evolves_def)
  show "g \<le> hs_next_generation S \<Longrightarrow> g \<le> hs_next_generation S'" using n by (rule order.trans [rotated])
  show "\<forall>n \<in> set (nbr_list (hs_intf S')). hs_gen S' n \<le> hs_next_generation S'"
    using assms n order.trans [OF _ n] by (fastforce simp: evolves_def)
qed

lemma rx_ok_hello:
  assumes "rx_ok R" and "evolves (rx_hello R) S'"
  shows "rx_ok (R\<lparr>rx_hello := S'\<rparr>)"
  using assms evolves_gens [OF assms(2)] by (auto simp: rx_ok_def rx_packets_def)

lemma step_ok: "rx_step C R R' \<Longrightarrow> rx_ok R \<Longrightarrow> rx_ok R' \<and> evolves (rx_hello R) (rx_hello R')"
proof (induction rule: rx_step.induct)
  case (accept R A ctx X i i' S')
  note r = ingress_result [OF accept(2)]
  have o: "rx_ok (R\<lparr>rx_hello := S'\<rparr>)" by (rule rx_ok_hello [OF accept(3) kept_evolves [OF r(1)]])
  have "ingress_neighbor_generation i' \<le> hs_next_generation (rx_hello R)" using r(2) accept(3) by (auto simp: rx_ok_def)
  moreover have "hs_next_generation (rx_hello R) \<le> hs_next_generation S'" using r(1) by (simp add: peers_kept_def)
  ultimately have "ingress_authenticated i'" "ingress_neighbor_generation i' \<le> hs_next_generation S'" using r(2) order.trans by auto
  then show ?case using o kept_evolves [OF r(1)] by (auto simp: rx_ok_def rx_packets_def)
next
  case (refuse R A ctx X i i' S')
  then show ?case using rx_ok_hello kept_evolves [OF ingress_result(1)] by auto
next
  case (enqueue R i)
  then show ?case using kept_evolves [OF kept_refl] by (auto simp: eigrp_packet_input_enqueue_def rx_ok_def rx_packets_def not_le)
next
  case (process R i Q X a S')
  then have q: "rx_hello Q = rx_hello R" "rx_ok Q"
    by (cases "ingress_discovery i"; auto simp: eigrp_packet_input_dequeue_locked_def rx_ok_def rx_packets_def split: list.splits)+
  then show ?case using rx_ok_hello [OF q(2)] process_evolves [OF process(2,3)] by auto
next
  case (others R S')
  then show ?case using rx_ok_hello kept_evolves by auto
next
  case (clear R)
  then show ?case using kept_evolves [OF kept_refl] by (auto simp: eigrp_packet_input_queue_clear_def rx_ok_def rx_packets_def)
next
  case (thread R b c)
  then show ?case using kept_evolves [OF kept_refl] by (auto simp: rx_ok_def rx_packets_def)
qed

lemma run_ok: "(rx_step C)\<^sup>*\<^sup>* R R' \<Longrightarrow> rx_ok R \<Longrightarrow> rx_ok R' \<and> evolves (rx_hello R) (rx_hello R')"
proof (induction rule: rtranclp_induct)
  case base
  then show ?case using kept_evolves [OF kept_refl] by simp
next
  case (step T U)
  then show ?case using step_ok [OF step(2)] evolves_trans by blast
qed

lemma initial_rx_ok: "rx_initial R \<Longrightarrow> rx_ok R"
  by (simp add: rx_initial_def rx_ok_def rx_packets_def)

lemma reachable_rx_ok: "rx_reachable C R \<Longrightarrow> rx_ok R"
  using run_ok initial_rx_ok unfolding rx_reachable_def by blast

text \<open>
  The digest check that a packet has to pass, in the state in which it is checked: its bytes have a valid header, and the check of its digest, against its
  known sender or, for an unknown one, its source address, accepts them.
\<close>

definition digest_passed :: "rx_config \<Rightarrow> packet_input \<Rightarrow> hello_state \<Rightarrow> bool" where
  "digest_passed C i S \<longleftrightarrow>
     (\<exists>bs A ctx peer. input_packet i = Some (Some bs) \<and> rx_header_valid C (in_source i) bs
        \<and> eigrp_packet_auth_digest_validate A ctx (he_host (rc_env C)) (he_auth (rc_env C)) (map_option (auth_peer S) (eigrp_nbr_lookup (in_source i) S))
            (Some (addr_afi_number (ip_afi (in_source i)), ip_bytes (in_source i))) bs = Some (Inr (), peer))"

lemma input_bytes_marked:
  "input_bytes (i\<lparr>ingress_authenticated := a, ingress_neighbor_generation := g, ingress_discovery := d\<rparr>) = input_bytes i"
  by (simp add: input_bytes_cut)

lemma ingress_digest:
  assumes "eigrp_packet_ingress_authenticate A ctx X C i S = Some (True, i', S')"
  shows "digest_passed C i' S"
proof -
  obtain bs where bs: "input_bytes i = Some bs" "rx_header_valid C (in_source i) bs"
    using assms by (auto simp: ingress_unfold split: option.splits if_splits)
  have u: "\<forall>x. a \<noteq> Inl x \<Longrightarrow> a \<noteq> Inr () \<Longrightarrow> False" for a :: "auth_reject + unit" by (cases a) auto
  obtain peer where p: "eigrp_packet_auth_digest_validate A ctx (he_host (rc_env C)) (he_auth (rc_env C))
      (map_option (auth_peer S) (eigrp_nbr_lookup (in_source i) S)) (Some (addr_afi_number (ip_afi (in_source i)), ip_bytes (in_source i))) bs
      = Some (Inr (), peer)" "\<exists>g d. i' = i\<lparr>ingress_authenticated := True, ingress_neighbor_generation := g, ingress_discovery := d\<rparr>"
    using assms bs by (auto simp: ingress_unfold Let_def bind_eq_Some_conv split: if_split_asm sum.split_asm dest: u)
  then obtain g d where i': "i' = i\<lparr>ingress_authenticated := True, ingress_neighbor_generation := g, ingress_discovery := d\<rparr>" by blast
  show ?thesis unfolding digest_passed_def i' using bs p(1)
    by (intro exI [of _ bs] exI [of _ A] exI [of _ ctx] exI [of _ peer]) (simp add: input_bytes_marked)
qed

lemma step_packets: "rx_step C R R' \<Longrightarrow> i \<in> rx_packets R' \<Longrightarrow> i \<in> rx_packets R \<or> digest_passed C i (rx_hello R)"
  by (induction rule: rx_step.induct)
     (auto simp: rx_packets_def eigrp_packet_input_enqueue_def eigrp_packet_input_dequeue_locked_def eigrp_packet_input_queue_clear_def
       dest: ingress_digest split: if_splits list.splits)

lemma run_packets:
  assumes "(rx_step C)\<^sup>*\<^sup>* R0 R" and "rx_packets R0 = {}" and "i \<in> rx_packets R"
  shows "\<exists>R1. (rx_step C)\<^sup>*\<^sup>* R0 R1 \<and> (rx_step C)\<^sup>*\<^sup>* R1 R \<and> digest_passed C i (rx_hello R1)"
  using assms(1,3)
proof (induction rule: rtranclp_induct)
  case base
  then show ?case using assms(2) by simp
next
  case (step T U)
  show ?case
  proof (cases "i \<in> rx_packets T")
    case True
    then show ?thesis using step.IH step.hyps(2) by (meson rtranclp.rtrancl_into_rtrancl)
  next
    case False
    then show ?thesis using step_packets [OF step.hyps(2) step.prems] step.hyps by blast
  qed
qed

text \<open>
  C39: The input queue is bounded and holds only what was authenticated.  However the two threads interleave: the counters of the
  queue are exact, at most 1024 packets wait, at most 256 of them from unknown or not yet established neighbours, so that a flood of
  discovery Hellos leaves room for the packets of the neighbours; and every waiting packet was accepted, in an earlier state of the run, by the checks of
  its header and of its digest for the sender it had in that state.
\<close>

theorem input_queue_bounded:
  assumes "rx_reachable C R"
  shows "packet_count R = length (packet_queue R) \<and> packet_count R \<le> 1024
    \<and> packet_discovery_count R = length (filter ingress_discovery (packet_queue R)) \<and> packet_discovery_count R \<le> 256
    \<and> (\<forall>i \<in> set (packet_queue R). \<exists>R1. rx_reachable C R1 \<and> (rx_step C)\<^sup>*\<^sup>* R1 R \<and> digest_passed C i (rx_hello R1))"
proof -
  obtain R0 where R0: "rx_initial R0" "(rx_step C)\<^sup>*\<^sup>* R0 R" using assms by (auto simp: rx_reachable_def)
  then have "rx_packets R0 = {}" by (simp add: rx_initial_def rx_packets_def)
  then have "\<exists>R1. rx_reachable C R1 \<and> (rx_step C)\<^sup>*\<^sup>* R1 R \<and> digest_passed C i (rx_hello R1)" if "i \<in> set (packet_queue R)" for i
    using run_packets [OF R0(2), of i] R0(1) that unfolding rx_reachable_def rx_packets_def by blast
  then show ?thesis using reachable_rx_ok [OF assms]
    by (simp add: rx_ok_def EIGRP_AF_PACKET_INPUT_QUEUE_MAX_def EIGRP_AF_PACKET_DISCOVERY_QUEUE_MAX_def)
qed

text \<open>
  C12: A packet is not processed for another incarnation of its sender.  A packet waits in the queue, or is about to be put there, authenticated for a neighbour; if
  that neighbour is deleted and created again, under the same address, before the address family gets to the packet (by any sequence
  of steps of the two threads in which the 64-bit generation counter does not wrap), the packet is dropped and changes nothing.
\<close>

theorem stale_packet_dropped:
  assumes "rx_reachable C R" and "i \<in> rx_packets R" and "ingress_neighbor_generation i \<noteq> 0" and "(rx_step C)\<^sup>*\<^sup>* R R'"
    and "eigrp_nbr_lookup (in_source i) (rx_hello R') = Some m"
    and "\<not> (m \<in> set (nbr_list (hs_intf (rx_hello R))) \<and> hs_gen (rx_hello R') m = hs_gen (rx_hello R) m)"
  shows "\<exists>a. eigrp_packet_input_process X C i (rx_hello R') = Some (a, rx_hello R') \<and> (\<forall>opcode n. a \<noteq> Packet_handler opcode n)"
proof -
  have ok: "rx_ok R" using assms(1) by (rule reachable_rx_ok)
  have "m \<in> set (nbr_list (hs_intf (rx_hello R')))" using lookup_found [OF assms(5)] by simp
  then have "hs_next_generation (rx_hello R) < hs_gen (rx_hello R') m"
    using run_ok [OF assms(4) ok] assms(6) by (auto simp: evolves_def)
  moreover have "ingress_neighbor_generation i \<le> hs_next_generation (rx_hello R)" using ok assms(2) by (simp add: rx_ok_def)
  ultimately have "hs_gen (rx_hello R') m \<noteq> ingress_neighbor_generation i" by auto
  then show ?thesis
    using assms(3,5) by (auto simp: process_unfold Let_def split: option.splits)
qed

subsection \<open>Examples\<close>

definition ack_intf :: rtp_intf where
  "ack_intf = rtp_blank\<lparr>nbr_list := [1], nbr := (\<lambda>_. eigrp_nbr_init\<lparr>adj_state := EIGRP_NEIGHBOR_PENDING, own_init_sequence := 9,
     retrans_queue := [init_packet 1 9 20]\<rparr>)\<rparr>"

definition ack_state :: hello_state where
  "ack_state = (sample_hello_state ack_intf)\<lparr>hs_src := (\<lambda>_. sample_source), hs_gen := (\<lambda>_. 1), hs_next_generation := 1\<rparr>"

definition ack_config :: rx_config where
  "ack_config = \<lparr>rc_ifindex = 3, rc_env = sample_hello_env\<lparr>he_auth := (he_auth sample_hello_env)\<lparr>auth_type := 0\<rparr>\<rparr>,
     rc_intf = sample_intf\<lparr>intf_address := \<lparr>pfx_address = \<lparr>addr_afi = EIGRP_AFI_IPV4, addr_bytes = [10, 0, 0, 1] @ replicate 12 0\<rparr>, pfx_length = 24\<rparr>\<rparr>,
     rc_passive = False, rc_af = None, rc_name = ''eth0'', rc_me = [10, 0, 0, 1], rc_others = ([], [])\<rparr>"

definition ack_input :: packet_input where
  "ack_input = \<lparr>in_ifindex = 3, in_source = sample_source,
     in_meta = \<lparr>ingress_vrf_id = 0, network_header_length = 0, eigrp_length = 20, destination_multicast = False\<rparr>,
     in_stream = [2, 5, 0xfd, 0xf0] @ replicate 8 0 @ [0, 0, 0, 9] @ [0, 0] @ [0, 1],
     ingress_authenticated = True, ingress_discovery = True, ingress_neighbor_generation = 1\<rparr>"

lemma ack_bytes: "input_bytes ack_input = Some (in_stream ack_input)"
  by (simp add: input_bytes_cut ack_input_def eigrp_packet_input_bounds_validate_def auth_consts field_def)

lemma ack_checksum: "eigrp_checksum (in_stream ack_input) = 0"
  by (simp add: ack_input_def) code_simp

lemma ack_on_link: "packet_source_on_link eigrp_ipv4_init (rc_intf ack_config) sample_source"
  by code_simp

lemma ack_fields:
  "header_opcode (in_stream ack_input) = EIGRP_OPC_HELLO" "header_ack (in_stream ack_input) = 9" "header_sequence (in_stream ack_input) = 0"
  "length (in_stream ack_input) = 20"
  by code_simp+

lemma config_simps:
  "he_AS (rc_env ack_config) = 1" "he_vrid (rc_env ack_config) = 0" "auth_type (he_auth (rc_env ack_config)) = 0"
  "he_vectors (rc_env ack_config) = eigrp_ipv4_init" "rc_af ack_config = None" "rc_others ack_config = ([], [])" "\<not> rc_passive ack_config"
  "he_instance (rc_env ack_config) = he_instance sample_hello_env"
  by (simp_all add: ack_config_def sample_hello_env_def)

lemma ack_header: "rx_header_valid ack_config sample_source (in_stream ack_input)"
proof -
  have f: "in_stream ack_input ! 0 = 2" "ntohs (field 18 2 (in_stream ack_input)) = 1" "ntohs (field 16 2 (in_stream ack_input)) = 0" by code_simp+
  have "eigrp_packet_auth_header_validate (he_auth (rc_env ack_config)) (in_stream ack_input) = Some (Inr ())"
    by (simp add: eigrp_packet_auth_header_validate_def auth_tlv_scan_def ack_fields auth_consts tlv_scan.simps config_simps)
  then show ?thesis
    using ack_on_link f by (simp add: header_valid_result config_simps eigrp_packet_header_validate_def ack_fields auth_consts ack_checksum)
qed

lemma ack_state_simps:
  "nbr_list (hs_intf ack_state) = [1]" "hs_src ack_state = (\<lambda>_. sample_source)" "hs_gen ack_state = (\<lambda>_. 1)" "\<not> af_suspended ack_state"
  "eigrp_nbr_is_eligible ack_state 1" "eigrp_nbr_lookup sample_source ack_state = Some 1"
  by (simp_all add: ack_state_def sample_hello_state_def ack_intf_def eigrp_nbr_is_eligible_def eigrp_nbr_init_def eigrp_nbr_lookup_def)

lemma ack_processed: "eigrp_packet_input_process sample_world ack_config ack_input ack_state
   = Some (Packet_done, packet_acknowledge sample_world 1 (in_stream ack_input) ack_state)"
proof -
  have i: "in_source ack_input = sample_source" "ingress_authenticated ack_input" "ingress_neighbor_generation ack_input = 1" "rx_here ack_config ack_input"
    "\<not> rc_passive ack_config" by (simp_all add: ack_input_def rx_here_def ack_config_def)
  show ?thesis
    using ack_header by (simp add: process_unfold ack_bytes i ack_state_simps ack_state_simps(5) [unfolded One_nat_def] ack_fields input_hello_def hello_fresh_def Let_def)
qed

lemma ack_brings_up: "adj_state (nbr (hs_intf (packet_acknowledge sample_world 1 (in_stream ack_input) ack_state)) 1) = EIGRP_NEIGHBOR_UP"
proof -
  have "rtp_head 1 (hs_intf ack_state) = Some (init_packet 1 9 20)"
    by (simp add: ack_state_def sample_hello_state_def ack_intf_def rtp_head_def eigrp_packet_queue_next_def)
  moreover have "adj_state (nbr (hs_intf ack_state) 1) = EIGRP_NEIGHBOR_PENDING" "own_init_sequence (nbr (hs_intf ack_state) 1) = 9"
    "\<not> adj_limited (nbr (hs_intf ack_state) 1)"
    by (simp_all add: ack_state_def sample_hello_state_def ack_intf_def eigrp_nbr_init_def)
  ultimately show ?thesis
    by (simp add: packet_acknowledge_def eigrp_packet_ack_def ack_fields Let_def init_packet_def eigrp_nbr_srtt_update_def eigrp_nbr_state_update_def
        state_enter_def eigrp_nbr_rtt_sample_def)
qed

theorem adjacency_gate_witness:
  "\<exists>bs. input_packet ack_input = Some (Some bs) \<and> rx_header_valid ack_config sample_source bs \<and> acknowledges_init bs 1 ack_state"
proof -
  have "adj_state (nbr (hs_intf ack_state) 1) \<noteq> EIGRP_NEIGHBOR_UP" by (simp add: ack_state_def sample_hello_state_def ack_intf_def)
  then show ?thesis
    using adjacency_gate [OF ack_processed, THEN conjunct1, rule_format, of 1] ack_brings_up by (auto simp: ack_input_def)
qed

theorem receive_path_safe_witness:
  "\<exists>a S'. eigrp_packet_input_process sample_world ack_config ack_input (sample_hello_state rtp_blank) = Some (a, S') \<and> adjacency_ok 0 S'"
proof -
  have "adjacency_ok (0 + length (in_stream ack_input)) (sample_hello_state rtp_blank)" by (rule blank_adjacency) (simp add: ack_fields)
  then show ?thesis
    using receive_path_safe [of 0 ack_input "sample_hello_state rtp_blank" sample_world] by (simp add: sample_world_def sample_hello_state_def rtp_blank_def)
qed

text \<open>A neighbour with a packet in the queue, and the same address again in a later incarnation.\<close>

definition sample_rx_state :: "hello_state \<Rightarrow> rx_state" where
  "sample_rx_state S = \<lparr>rx_hello = S, packet_queue = [], packet_count = 0, packet_discovery_count = 0, packet_drop_count = 0,
     rx_shutdown = False, rx_thread_running = True, rx_pending = None\<rparr>"

definition probe_input :: packet_input where
  "probe_input = \<lparr>in_ifindex = 3, in_source = sample_source,
     in_meta = \<lparr>ingress_vrf_id = 0, network_header_length = 0, eigrp_length = 32, destination_multicast = True\<rparr>,
     in_stream = [2, 5, 0xfa, 0xdd] @ replicate 12 0 @ [0, 0] @ [0, 1] @ [0, 1, 0, 12, 2, 0, 1, 0, 0, 0, 0, 15],
     ingress_authenticated = False, ingress_discovery = False, ingress_neighbor_generation = 0\<rparr>"

abbreviation probe_queued :: "u64 \<Rightarrow> bool \<Rightarrow> packet_input" where
  "probe_queued g discovery \<equiv> probe_input\<lparr>ingress_authenticated := True, ingress_discovery := discovery, ingress_neighbor_generation := g\<rparr>"

lemma probe_bytes: "input_bytes (probe_queued g d) = Some (in_stream probe_input)" "input_bytes probe_input = Some (in_stream probe_input)"
  by (simp_all add: input_bytes_cut probe_input_def eigrp_packet_input_bounds_validate_def auth_consts field_def)

lemma probe_checksum: "eigrp_checksum (in_stream probe_input) = 0"
  by (simp add: probe_input_def) code_simp

lemma probe_fields:
  "header_opcode (in_stream probe_input) = EIGRP_OPC_HELLO" "header_ack (in_stream probe_input) = 0"
  "length (in_stream probe_input) = 32"
  "drop 20 (in_stream probe_input) = [0, 1, 0, 12, 2, 0, 1, 0, 0, 0, 0, 15]"
  by code_simp+

lemma probe_simps: "in_source probe_input = sample_source" "rx_here ack_config probe_input" "rx_here ack_config (probe_queued g d)"
  by (simp_all add: probe_input_def rx_here_def ack_config_def)

lemma probe_header: "rx_header_valid ack_config sample_source (in_stream probe_input)"
proof -
  have f: "in_stream probe_input ! 0 = 2" "ntohs (field 18 2 (in_stream probe_input)) = 1" "ntohs (field 16 2 (in_stream probe_input)) = 0" by code_simp+
  have "map_option fst (auth_tlv_scan (in_stream probe_input)) = Some None" by code_simp
  then obtain q where w: "auth_tlv_scan (in_stream probe_input) = Some (None, q)" by fastforce
  have "eigrp_packet_auth_header_validate (he_auth (rc_env ack_config)) (in_stream probe_input) = Some (Inr ())"
    by (simp add: eigrp_packet_auth_header_validate_def w auth_consts config_simps)
  then show ?thesis
    using ack_on_link f by (simp add: header_valid_result config_simps eigrp_packet_header_validate_def probe_fields auth_consts probe_checksum)
qed

lemma probe_valid: "eigrp_hello_tlvs_validate eigrp_ipv4_init [0, 1, 0, 12, 2, 0, 1, 0, 0, 0, 0, 15] = Some True"
  by code_simp

lemma one_admitted: "eigrp_nbr_admit_locked ([], []) 0"
  by (simp add: eigrp_nbr_admit_locked_def EIGRP_NEIGHBOR_MAX_PER_INTERFACE_def EIGRP_NEIGHBOR_MAX_PER_INSTANCE_def)

lemma probe_unknown:
  assumes "nbr_list (hs_intf S) = []"
  shows "eigrp_packet_ingress_authenticate A ctx X ack_config probe_input S = Some (True, probe_queued 0 True, S)"
  using assms probe_header probe_valid one_admitted
  by (simp add: ingress_unfold probe_bytes probe_simps config_simps probe_fields ingress_opcode_def ingress_hello_valid_def
      ingress_sender_admitted_def eigrp_nbr_lookup_def eigrp_nbr_static_source_allowed_def eigrp_packet_auth_digest_validate_def auth_consts Let_def)

lemma probe_known:
  assumes "nbr_list (hs_intf S) = [1]" "hs_src S 1 = sample_source" "eigrp_nbr_is_eligible S 1"
  shows "\<exists>S'. eigrp_packet_ingress_authenticate A ctx X ack_config probe_input S
      = Some (True, probe_queued (hs_gen S 1) (adj_state (nbr (hs_intf S) 1) \<noteq> EIGRP_NEIGHBOR_UP), S')
    \<and> nbr_list (hs_intf S') = [1] \<and> hs_gen S' = hs_gen S \<and> hs_next_generation S' = hs_next_generation S \<and> \<not> af_suspended S'"
proof -
  have l: "eigrp_nbr_lookup sample_source S = Some 1" using assms by (simp add: eigrp_nbr_lookup_def)
  have e: "eigrp_nbr_is_eligible S (Suc 0)" "\<not> af_suspended S" using assms(3) by (simp_all add: eigrp_nbr_is_eligible_def)
  show ?thesis
    using assms probe_header probe_valid e l
    by (simp add: ingress_unfold probe_bytes probe_simps config_simps probe_fields ingress_opcode_def ingress_hello_valid_def
        ingress_sender_admitted_def eigrp_nbr_static_source_allowed_def eigrp_packet_auth_digest_validate_def auth_consts Let_def
        auth_peer_store_def eigrp_nbr_holddown_update_def)
qed

lemma probe_parameter:
  assumes "adj_state (nbr (hs_intf S) n) = EIGRP_NEIGHBOR_DOWN"
  shows "eigrp_hello_parameter_decode X (rc_env ack_config) n [0, 1, 0, 12, 2, 0, 1, 0, 0, 0, 0, 15] S
    = Some (True, on_intf (nbr_change n (\<lambda>nb. nb\<lparr>nbr_K := [2, 0, 1, 0, 0, 0], v_holddown := 15\<rparr>)) S)"
proof -
  have p: "peek 4 6 [0, 1, 0, 12, 2, 0, 1, 0, 0, 0, 0, 15] = Some [2, 0, 1, 0, 0, 0]" "peek_u16 10 [0, 1, 0, 12, 2, 0, 1, 0, 0, 0, 0, 15] = Some 15"
    by code_simp+
  have g: "\<not> eigrp_hello_goodbye [2, 0, 1, 0, 0, 0]" by code_simp
  show ?thesis
    using assms g by (simp add: eigrp_hello_parameter_decode_def p Let_def eigrp_hello_k_match_def config_simps) (simp add: sample_hello_env_def)
qed

lemma probe_tlvs:
  assumes "adj_state (nbr (hs_intf S) n) = EIGRP_NEIGHBOR_DOWN"
  shows "hello_tlvs X (rc_env ack_config) me n [0, 1, 0, 12, 2, 0, 1, 0, 0, 0, 0, 15] seen S
    = Some (Some (seen\<lparr>parameter_seen := True\<rparr>), on_intf (nbr_change n (\<lambda>nb. nb\<lparr>nbr_K := [2, 0, 1, 0, 0, 0], v_holddown := 15\<rparr>)) S)"
proof -
  have p: "peek_u16 0 [0, 1, 0, 12, 2, 0, 1, 0, 0, 0, 0, 15] = Some 1" "peek_u16 2 [0, 1, 0, 12, 2, 0, 1, 0, 0, 0, 0, 15] = Some 12" by code_simp+
  show ?thesis
    using probe_parameter [OF assms] by (subst hello_tlvs.simps) (simp add: p hello_tlv_def hello_consts Let_def)
qed

lemma probe_creates:
  assumes "nbr_list (hs_intf S) = []" and "\<not> af_suspended S" and "hs_next_generation S + 1 \<noteq> 0"
  shows "\<exists>S'. eigrp_packet_input_process sample_world ack_config (probe_queued 0 d) S = Some (Packet_done, S') \<and> nbr_list (hs_intf S') = [1]
    \<and> hs_src S' 1 = sample_source \<and> hs_gen S' 1 = hs_next_generation S + 1 \<and> hs_next_generation S' = hs_next_generation S + 1 \<and> eigrp_nbr_is_eligible S' 1"
proof -
  define T where "T = snd (eigrp_nbr_create sample_world ([], []) sample_source S)"
  have c: "eigrp_nbr_create sample_world ([], []) sample_source S = (Some 1, T)"
    using assms one_admitted unfolding T_def by (simp add: eigrp_nbr_create_def sample_world_def sample_source_def Let_def pending_state_simps)
  have t: "nbr_list (hs_intf T) = [1]" "hs_src T 1 = sample_source" "hs_gen T 1 = hs_next_generation S + 1"
      "hs_next_generation T = hs_next_generation S + 1" "\<not> hs_cleanup T 1" "\<not> af_suspended T"
      "adj_state (nbr (hs_intf T) 1) = EIGRP_NEIGHBOR_DOWN" "\<not> adj_limited (nbr (hs_intf T) 1)"
    using assms one_admitted unfolding T_def
    by (simp_all add: eigrp_nbr_create_def sample_world_def sample_source_def Let_def pending_state_simps generation_next_def state_down_nbr nbr_reset_def
        eigrp_nbr_rtt_clear_def state_enter_def eigrp_nbr_init_def)
  have l: "eigrp_nbr_lookup sample_source S = None" using assms(1) by (simp add: eigrp_nbr_lookup_def)
  note tlvs = probe_tlvs [OF t(7)]
  show ?thesis
    using probe_header probe_valid assms l t
    by (simp add: process_unfold probe_bytes probe_simps config_simps probe_fields Let_def input_hello_def hello_fresh_def eigrp_hello_receive_def
        auth_consts eigrp_nbr_static_source_allowed_def hello_nbr_def c [unfolded One_nat_def] tlvs [unfolded One_nat_def] hello_finish_def
        eigrp_nbr_holddown_update_def eigrp_nbr_is_eligible_def)
qed


lemma accept_step:
  assumes "eigrp_packet_ingress_authenticate A ctx X C i (rx_hello R) = Some (True, i', S')" and "rx_pending R = None"
    and "\<not> rx_shutdown R" "rx_thread_running R" "packet_count R < 10" "packet_discovery_count R < 10"
  shows "(rx_step C)\<^sup>*\<^sup>* R (R\<lparr>rx_hello := S', packet_queue := packet_queue R @ [i'], packet_count := packet_count R + 1,
     packet_discovery_count := (if ingress_discovery i' then packet_discovery_count R + 1 else packet_discovery_count R)\<rparr>)"
proof -
  let ?P = "R\<lparr>rx_hello := S', rx_pending := Some i'\<rparr>"
  have "snd (eigrp_packet_input_enqueue i' (?P\<lparr>rx_pending := None\<rparr>)) = R\<lparr>rx_hello := S', packet_queue := packet_queue R @ [i'], packet_count := packet_count R + 1,
     packet_discovery_count := (if ingress_discovery i' then packet_discovery_count R + 1 else packet_discovery_count R)\<rparr>"
    using assms(2-6) by (simp add: eigrp_packet_input_enqueue_def EIGRP_AF_PACKET_INPUT_QUEUE_MAX_def EIGRP_AF_PACKET_DISCOVERY_QUEUE_MAX_def)
  then have "rx_step C ?P (R\<lparr>rx_hello := S', packet_queue := packet_queue R @ [i'], packet_count := packet_count R + 1,
     packet_discovery_count := (if ingress_discovery i' then packet_discovery_count R + 1 else packet_discovery_count R)\<rparr>)"
    using rx_step.enqueue [of ?P i' C] by simp
  with rx_step.accept [OF assms(2,1)] show ?thesis by (meson converse_rtranclp_into_rtranclp rtranclp.rtrancl_refl)
qed

lemma process_step:
  assumes "packet_queue R = i # q" and "eigrp_packet_input_process X C i (rx_hello R) = Some (a, S')" and "hs_next_generation (rx_hello R) + 1 \<noteq> 0"
  shows "\<exists>R'. rx_step C R R' \<and> rx_hello R' = S' \<and> packet_queue R' = q \<and> packet_count R' = packet_count R - 1
    \<and> packet_discovery_count R' \<le> packet_discovery_count R \<and> rx_shutdown R' = rx_shutdown R \<and> rx_thread_running R' = rx_thread_running R
    \<and> rx_pending R' = rx_pending R"
proof -
  obtain Q where Q: "eigrp_packet_input_dequeue_locked R = (Some i, Q)" "rx_hello Q = rx_hello R" "packet_queue Q = q" "packet_count Q = packet_count R - 1"
      "packet_discovery_count Q \<le> packet_discovery_count R" "rx_shutdown Q = rx_shutdown R" "rx_thread_running Q = rx_thread_running R" "rx_pending Q = rx_pending R"
    using assms(1) by (simp add: eigrp_packet_input_dequeue_locked_def)
  have "rx_step C R (Q\<lparr>rx_hello := S'\<rparr>)" by (rule rx_step.process [OF Q(1)]) (use assms Q(2) in simp_all)
  then show ?thesis using Q by (intro exI [of _ "Q\<lparr>rx_hello := S'\<rparr>"]) simp
qed

text \<open>Two discovery Hellos wait, the first creates the neighbour, a third packet is accepted for it; the neighbour is deleted, the second creates it again.\<close>

lemma probe_waits:
  "\<exists>R d. rx_reachable ack_config R \<and> packet_queue R = [probe_queued 0 True, probe_queued 1 d] \<and> hs_gen (rx_hello R) 1 = 1
     \<and> nbr_list (hs_intf (rx_hello R)) = [1] \<and> hs_next_generation (rx_hello R) = 1 \<and> \<not> af_suspended (rx_hello R)"
proof -
  define S0 where "S0 = sample_hello_state rtp_blank"
  have s0: "nbr_list (hs_intf S0) = []" "\<not> af_suspended S0" "hs_next_generation S0 = 0" by (simp_all add: S0_def sample_hello_state_def rtp_blank_def)
  define R0 where "R0 = sample_rx_state S0"
  define R2 where "R2 = R0\<lparr>packet_queue := [probe_queued 0 True, probe_queued 0 True], packet_count := 2, packet_discovery_count := 2\<rparr>"
  note r = sample_rx_state_def
  have a: "(rx_step ack_config)\<^sup>*\<^sup>* R0 (R0\<lparr>packet_queue := [probe_queued 0 True], packet_count := 1, packet_discovery_count := 1\<rparr>)"
    using accept_step [OF probe_unknown, of R0] s0 by (simp add: R0_def r)
  have b: "(rx_step ack_config)\<^sup>*\<^sup>* (R0\<lparr>packet_queue := [probe_queued 0 True], packet_count := 1, packet_discovery_count := 1\<rparr>) R2"
    using accept_step [OF probe_unknown, of "R0\<lparr>packet_queue := [probe_queued 0 True], packet_count := 1, packet_discovery_count := 1\<rparr>"] s0
    by (simp add: R0_def R2_def r numeral_2_eq_2)
  obtain S1 where S1: "eigrp_packet_input_process sample_world ack_config (probe_queued 0 True) S0 = Some (Packet_done, S1)" "nbr_list (hs_intf S1) = [1]"
      "hs_src S1 1 = sample_source" "hs_gen S1 1 = 1" "hs_next_generation S1 = 1" "eigrp_nbr_is_eligible S1 1"
    using probe_creates [OF s0(1,2)] s0(3) by fastforce
  obtain R3 where R3: "rx_step ack_config R2 R3" "rx_hello R3 = S1" "packet_queue R3 = [probe_queued 0 True]" "packet_count R3 = 1"
      "packet_discovery_count R3 \<le> 2" "\<not> rx_shutdown R3" "rx_thread_running R3" "rx_pending R3 = None"
    using process_step [of R2 "probe_queued 0 True" "[probe_queued 0 True]" sample_world ack_config Packet_done S1] S1(1) s0
    by (auto simp: R2_def R0_def r)
  define d where "d \<longleftrightarrow> adj_state (nbr (hs_intf S1) 1) \<noteq> EIGRP_NEIGHBOR_UP"
  obtain S2 where S2: "eigrp_packet_ingress_authenticate undefined undefined sample_world ack_config probe_input S1 = Some (True, probe_queued 1 d, S2)"
      "nbr_list (hs_intf S2) = [1]" "hs_gen S2 1 = 1" "hs_next_generation S2 = 1" "\<not> af_suspended S2"
    using probe_known [OF S1(2,3,6), of undefined undefined sample_world] S1(4,5) unfolding d_def by auto
  obtain R4 where R4: "(rx_step ack_config)\<^sup>*\<^sup>* R3 R4" "rx_hello R4 = S2" "packet_queue R4 = [probe_queued 0 True, probe_queued 1 d]"
    using accept_step [of undefined undefined sample_world ack_config probe_input R3 "probe_queued 1 d" S2] S2(1) R3 by fastforce
  have "(rx_step ack_config)\<^sup>*\<^sup>* R0 R4" using a b R3(1) R4(1) by (meson r_into_rtranclp rtranclp_trans)
  moreover have "rx_initial R0" by (simp add: rx_initial_def R0_def r s0)
  ultimately have "rx_reachable ack_config R4" unfolding rx_reachable_def by blast
  then show ?thesis using R4 S2 by (intro exI [of _ R4] exI [of _ d]) simp
qed

lemma stale_run:
  "\<exists>R R' d. rx_reachable ack_config R \<and> probe_queued 1 d \<in> set (packet_queue R) \<and> (rx_step ack_config)\<^sup>*\<^sup>* R R'
     \<and> eigrp_nbr_lookup sample_source (rx_hello R') = Some 1 \<and> hs_gen (rx_hello R) 1 = 1 \<and> hs_gen (rx_hello R') 1 = 2"
proof -
  obtain R d where R: "rx_reachable ack_config R" "packet_queue R = [probe_queued 0 True, probe_queued 1 d]" "hs_gen (rx_hello R) 1 = 1"
      "hs_next_generation (rx_hello R) = 1" "\<not> af_suspended (rx_hello R)"
    using probe_waits by blast
  define S where "S = on_intf (\<lambda>I. I\<lparr>nbr_list := []\<rparr>) (rx_hello R)"
  have s: "nbr_list (hs_intf S) = []" "\<not> af_suspended S" "hs_next_generation S = 1" using R by (simp_all add: S_def)
  have o: "rx_step ack_config R (R\<lparr>rx_hello := S\<rparr>)" by (rule rx_step.others) (simp add: peers_kept_def S_def)
  obtain S' where S': "eigrp_packet_input_process sample_world ack_config (probe_queued 0 True) S = Some (Packet_done, S')" "nbr_list (hs_intf S') = [1]"
      "hs_src S' 1 = sample_source" "hs_gen S' 1 = 2"
    using probe_creates [OF s(1,2)] s(3) by fastforce
  obtain R' where R': "rx_step ack_config (R\<lparr>rx_hello := S\<rparr>) R'" "rx_hello R' = S'"
    using process_step [of "R\<lparr>rx_hello := S\<rparr>" "probe_queued 0 True" "[probe_queued 1 d]" sample_world ack_config Packet_done S'] S'(1) s R(2) by auto
  have "(rx_step ack_config)\<^sup>*\<^sup>* R R'" using o R'(1) by (meson converse_rtranclp_into_rtranclp rtranclp.rtrancl_refl)
  moreover have "eigrp_nbr_lookup sample_source S' = Some 1" using S' by (simp add: eigrp_nbr_lookup_def)
  ultimately show ?thesis using R R' S' by (intro exI [of _ R] exI [of _ R'] exI [of _ d]) simp
qed

theorem stale_packet_dropped_witness:
  "\<exists>R R' i. rx_reachable ack_config R \<and> i \<in> set (packet_queue R) \<and> (rx_step ack_config)\<^sup>*\<^sup>* R R'
     \<and> (\<exists>a. eigrp_packet_input_process sample_world ack_config i (rx_hello R') = Some (a, rx_hello R') \<and> (\<forall>opcode n. a \<noteq> Packet_handler opcode n))"
proof -
  obtain R R' d where s: "rx_reachable ack_config R" "probe_queued 1 d \<in> set (packet_queue R)" "(rx_step ack_config)\<^sup>*\<^sup>* R R'"
      "eigrp_nbr_lookup sample_source (rx_hello R') = Some 1" "hs_gen (rx_hello R) 1 = 1" "hs_gen (rx_hello R') 1 = 2" using stale_run by blast
  have "\<exists>a. eigrp_packet_input_process sample_world ack_config (probe_queued 1 d) (rx_hello R') = Some (a, rx_hello R') \<and> (\<forall>opcode n. a \<noteq> Packet_handler opcode n)"
    by (rule stale_packet_dropped [OF s(1) _ _ s(3), of _ 1]) (use s in \<open>simp_all add: probe_simps rx_packets_def\<close>)
  then show ?thesis using s(1,2,3) by blast
qed

theorem input_queue_bounded_witness:
  "\<exists>R. rx_reachable ack_config R \<and> packet_count R = 2 \<and> length (packet_queue R) = 2
     \<and> (\<forall>i \<in> set (packet_queue R). \<exists>R1. rx_reachable ack_config R1 \<and> (rx_step ack_config)\<^sup>*\<^sup>* R1 R \<and> digest_passed ack_config i (rx_hello R1))"
proof -
  obtain R d where R: "rx_reachable ack_config R" "packet_queue R = [probe_queued 0 True, probe_queued 1 d]" using probe_waits by blast
  have "length (packet_queue R) = 2" using R(2) by simp
  then show ?thesis using R(1) input_queue_bounded [OF R(1)] by (intro exI [of _ R]) metis
qed

end
