(* ===== verification/Eigrp_Auth_Config.thy ===== *)
theory Eigrp_Auth_Config
  imports Eigrp_Auth_Sign
begin

text \<open>
  The authentication commands of an interface (\<^verbatim>\<open>eigrp_auth_mode_update\<close>, \<^verbatim>\<open>eigrp_auth_keychain_update\<close>
  and the message handler that runs them on the thread of the instance).
\<close>

subsection \<open>Configuration\<close>

text \<open>
  The retained configuration of an interface and the running interface, either of which may be
  absent.  The two booleans of the operations say whether the copies for the configuration and for
  the running interface could be allocated.
\<close>

datatype eigrp_authentication_mode =
  EIGRP_AUTHENTICATION_NONE | EIGRP_AUTHENTICATION_MD5 | EIGRP_AUTHENTICATION_HMAC_SHA256

record auth_config =
  cfg_mode :: eigrp_authentication_mode
  cfg_mode_configured :: bool
  cfg_encryption_type :: u8
  cfg_password :: "u8 list option"
  cfg_keychain :: "u8 list option"

record auth_context =
  context_config :: "auth_config option"
  context_runtime :: "auth_intf option"

record eigrp_auth_hmac_config =
  hmac_encryption_type :: u8
  hmac_password :: "u8 list option"

definition auth_hmac_acceptable :: "eigrp_auth_hmac_config option \<Rightarrow> bool" where
  "auth_hmac_acceptable hm =
     (case hm of
        None \<Rightarrow> False
      | Some h \<Rightarrow> (case hmac_password h of
                    None \<Rightarrow> False
                  | Some p \<Rightarrow> p \<noteq> [] \<and> length p \<le> 32 \<and> (hmac_encryption_type h = 0 \<or> hmac_encryption_type h = 7)))"

definition auth_mode_reset :: "auth_context \<Rightarrow> auth_context" where
  "auth_mode_reset cx =
     cx\<lparr>context_config := map_option (\<lambda>c. c\<lparr>cfg_mode := EIGRP_AUTHENTICATION_NONE, cfg_mode_configured := False,
                                                 cfg_encryption_type := 0, cfg_password := None\<rparr>) (context_config cx),
             context_runtime := map_option (\<lambda>r. r\<lparr>auth_type := EIGRP_AUTH_TYPE_NONE, auth_password := None\<rparr>)
                                  (context_runtime cx)\<rparr>"

definition eigrp_auth_mode_update ::
    "bool \<Rightarrow> bool \<Rightarrow> eigrp_operation \<Rightarrow> auth_context \<Rightarrow> eigrp_authentication_mode \<Rightarrow> eigrp_auth_hmac_config option
       \<Rightarrow> eigrp_result \<times> auth_context" where
  "eigrp_auth_mode_update config_copied runtime_copied operation cx mode hm =
     (if context_config cx = None \<and> context_runtime cx = None then (EIGRP_RESULT_NOT_FOUND, cx)
      else if operation = EIGRP_RESET then (EIGRP_RESULT_SUCCESS, auth_mode_reset cx)
      else if mode = EIGRP_AUTHENTICATION_NONE then (EIGRP_RESULT_INVALID_ARGUMENT, cx)
      else
        (let sha = (mode = EIGRP_AUTHENTICATION_HMAC_SHA256); configured = (context_config cx \<noteq> None);
             enc = (case hm of Some h \<Rightarrow> hmac_encryption_type h | None \<Rightarrow> 0);
             password = Option.bind hm hmac_password;
             runtime_copy = (sha \<and> configured \<and> context_runtime cx \<noteq> None \<and> enc = 0)
         in if sha \<and> configured \<and> \<not> auth_hmac_acceptable hm then (EIGRP_RESULT_INVALID_ARGUMENT, cx)
            else if sha \<and> configured \<and> \<not> config_copied then (EIGRP_RESULT_INTERNAL_FAILURE, cx)
            else if runtime_copy \<and> \<not> runtime_copied then (EIGRP_RESULT_INTERNAL_FAILURE, cx)
            else if \<not> sha \<and> hm \<noteq> None then (EIGRP_RESULT_INVALID_ARGUMENT, cx)
            else
              (let cx =
                     cx\<lparr>context_config :=
                       map_option (\<lambda>c. c\<lparr>cfg_mode := mode, cfg_mode_configured := True,
                                         cfg_password := (if sha then password else None),
                                         cfg_encryption_type := (if sha then enc else 0)\<rparr>) (context_config cx)\<rparr>
               in if context_runtime cx \<noteq> None \<and> sha \<and> configured \<and> hm \<noteq> None \<and> enc = 7
                  then (EIGRP_RESULT_UNSUPPORTED, cx)
                  else (EIGRP_RESULT_SUCCESS,
                        cx\<lparr>context_runtime :=
                          map_option (\<lambda>r. r\<lparr>auth_password := (if runtime_copy then password else None),
                                            auth_type := (if sha then EIGRP_AUTH_TYPE_SHA256 else EIGRP_AUTH_TYPE_MD5)\<rparr>)
                            (context_runtime cx)\<rparr>))))"

definition eigrp_auth_keychain_update ::
    "bool \<Rightarrow> bool \<Rightarrow> eigrp_operation \<Rightarrow> auth_context \<Rightarrow> u8 list option \<Rightarrow> eigrp_result \<times> auth_context" where
  "eigrp_auth_keychain_update config_copied runtime_copied operation cx keychain =
     (if operation = EIGRP_RESET
      then (if context_config cx = None \<and> context_runtime cx = None then (EIGRP_RESULT_NOT_FOUND, cx)
            else (EIGRP_RESULT_SUCCESS,
                  cx\<lparr>context_config := map_option (\<lambda>c. c\<lparr>cfg_keychain := None\<rparr>) (context_config cx),
                          context_runtime := map_option (\<lambda>r. r\<lparr>auth_keychain := None\<rparr>) (context_runtime cx)\<rparr>))
      else if keychain = None \<or> keychain = Some [] then (EIGRP_RESULT_INVALID_ARGUMENT, cx)
      else if context_config cx = None \<and> context_runtime cx = None then (EIGRP_RESULT_NOT_FOUND, cx)
      else if context_config cx \<noteq> None \<and> \<not> config_copied then (EIGRP_RESULT_INTERNAL_FAILURE, cx)
      else if context_runtime cx \<noteq> None \<and> \<not> runtime_copied then (EIGRP_RESULT_INTERNAL_FAILURE, cx)
      else (EIGRP_RESULT_SUCCESS,
            cx\<lparr>context_config := map_option (\<lambda>c. c\<lparr>cfg_keychain := keychain\<rparr>) (context_config cx),
                    context_runtime := map_option (\<lambda>r. r\<lparr>auth_keychain := keychain\<rparr>) (context_runtime cx)\<rparr>))"

text \<open>The messages the instance thread processes.\<close>

datatype eigrp_auth_message_args =
    EIGRP_AUTH_MESSAGE_MODE eigrp_operation eigrp_authentication_mode "eigrp_auth_hmac_config option"
  | EIGRP_AUTH_MESSAGE_KEYCHAIN eigrp_operation "u8 list option"

fun eigrp_auth_message_process :: "bool \<Rightarrow> bool \<Rightarrow> auth_context \<Rightarrow> eigrp_auth_message_args \<Rightarrow> eigrp_result \<times> auth_context" where
  "eigrp_auth_message_process cc rc cx (EIGRP_AUTH_MESSAGE_MODE op mode hm)
     = eigrp_auth_mode_update cc rc op cx mode hm"
| "eigrp_auth_message_process cc rc cx (EIGRP_AUTH_MESSAGE_KEYCHAIN op keychain)
     = eigrp_auth_keychain_update cc rc op cx keychain"

text \<open>A configured interface: whatever messages arrive and whichever allocations fail.\<close>

inductive auth_configured :: "auth_context \<Rightarrow> eigrp_auth_message_args list \<Rightarrow> auth_context \<Rightarrow> bool" for start where
  fresh: "auth_configured start [] start"
| message: "auth_configured start ms cx \<Longrightarrow>
    auth_configured start (ms @ [m]) (snd (eigrp_auth_message_process cc rc cx m))"

inductive_cases auth_configured_NilE: "auth_configured start [] cx"

text \<open>What one message does to the password of the running interface.\<close>

lemma mode_update_password:
  assumes "context_runtime (snd (eigrp_auth_mode_update cc rc op cx mode hm)) = Some r"
  obtains "context_runtime cx = Some r"
  | "auth_password r = None"
  | h p where "op = EIGRP_SET" "mode = EIGRP_AUTHENTICATION_HMAC_SHA256" "hm = Some h" "hmac_encryption_type h = 0"
      "hmac_password h = Some p" "auth_password r = Some p" "p \<noteq> []" "length p \<le> 32"
  using assms
  by (cases op) (auto simp: eigrp_auth_mode_update_def auth_mode_reset_def auth_hmac_acceptable_def Let_def
      split: if_splits option.splits)

lemma keychain_update_password:
  "context_runtime (snd (eigrp_auth_keychain_update cc rc op cx keychain)) = Some r \<Longrightarrow>
     \<exists>r0. context_runtime cx = Some r0 \<and> auth_password r0 = auth_password r"
  by (auto simp: eigrp_auth_keychain_update_def split: if_splits)

definition plain_password_given :: "eigrp_auth_message_args list \<Rightarrow> u8 list \<Rightarrow> bool" where
  "plain_password_given ms p \<longleftrightarrow>
     (\<exists>h. EIGRP_AUTH_MESSAGE_MODE EIGRP_SET EIGRP_AUTHENTICATION_HMAC_SHA256 (Some h) \<in> set ms
          \<and> hmac_encryption_type h = 0 \<and> hmac_password h = Some p)"

lemma plain_password_more: "plain_password_given ms p \<Longrightarrow> plain_password_given (ms @ [m]) p"
  by (auto simp: plain_password_given_def)

lemma auth_failure_atomic:
  assumes "eigrp_auth_message_process cc rc cx m = (result, cx')"
    and "result \<noteq> EIGRP_RESULT_SUCCESS" "result \<noteq> EIGRP_RESULT_UNSUPPORTED"
  shows "cx' = cx"
  using assms
  by (cases m) (auto simp: eigrp_auth_mode_update_def eigrp_auth_keychain_update_def Let_def split: if_splits)

text \<open>
  The key material of a running interface is only ever a plain password.  After any sequence of
  authentication commands, whatever allocations fail, the password the interface signs with was
  given in a command as an unencrypted HMAC password, is not empty and fits the key buffer of the
  signing code; in particular the text of an encrypted (type 7) password never becomes a key.  A
  command that is refused leaves both the configuration and the interface as they were.
\<close>

theorem auth_key_is_plain_password:
  assumes "auth_configured start ms cx" "\<forall>r. context_runtime start = Some r \<longrightarrow> auth_password r = None"
    and "context_runtime cx = Some r" "auth_password r = Some p"
  shows "plain_password_given ms p \<and> p \<noteq> [] \<and> length p \<le> 32
         \<and> (auth_type r = EIGRP_AUTH_TYPE_SHA256 \<longrightarrow> eigrp_auth_key_get H r (PLAINTEXT_LENGTH + 1) = Some (0, p))
         \<and> (\<forall>cc rc m. fst (eigrp_auth_message_process cc rc cx m) \<notin> {EIGRP_RESULT_SUCCESS, EIGRP_RESULT_UNSUPPORTED}
              \<longrightarrow> snd (eigrp_auth_message_process cc rc cx m) = cx)"
proof -
  have "plain_password_given ms p \<and> p \<noteq> [] \<and> length p \<le> 32"
    using assms(1,3,4)
  proof (induction arbitrary: r)
    case fresh
    with assms(2) show ?case by simp
  next
    case (message ms cx m cc rc)
    show ?case
    proof (cases m)
      case (EIGRP_AUTH_MESSAGE_MODE op mode hm)
      from message.prems(1) have "context_runtime (snd (eigrp_auth_mode_update cc rc op cx mode hm)) = Some r"
        by (simp add: EIGRP_AUTH_MESSAGE_MODE)
      then show ?thesis
      proof (cases rule: mode_update_password)
        case 1
        then show ?thesis using message.IH message.prems(2) plain_password_more by blast
      next
        case (3 h q)
        then show ?thesis using message.prems(2) by (auto simp: EIGRP_AUTH_MESSAGE_MODE plain_password_given_def)
      qed (use message.prems(2) in simp)
    next
      case (EIGRP_AUTH_MESSAGE_KEYCHAIN op keychain)
      with message.prems(1) keychain_update_password [of cc rc op cx keychain r]
      obtain r0 where "context_runtime cx = Some r0" "auth_password r0 = auth_password r" by auto
      then show ?thesis using message.IH message.prems(2) plain_password_more by metis
    qed
  qed
  moreover from this have "auth_type r = EIGRP_AUTH_TYPE_SHA256 \<longrightarrow> eigrp_auth_key_get H r (PLAINTEXT_LENGTH + 1) = Some (0, p)"
    using assms(4) by (simp add: eigrp_auth_key_get_def auth_consts)
  moreover have "snd (eigrp_auth_message_process cc rc cx m) = cx"
    if "fst (eigrp_auth_message_process cc rc cx m) \<notin> {EIGRP_RESULT_SUCCESS, EIGRP_RESULT_UNSUPPORTED}" for cc rc m
    using auth_failure_atomic [of cc rc cx m] that by (cases "eigrp_auth_message_process cc rc cx m") auto
  ultimately show ?thesis by blast
qed

definition sample_auth_context :: auth_context where
  "sample_auth_context =
     \<lparr>context_config = Some \<lparr>cfg_mode = EIGRP_AUTHENTICATION_NONE, cfg_mode_configured = False, cfg_encryption_type = 0,
                             cfg_password = None, cfg_keychain = None\<rparr>,
      context_runtime = Some sample_auth_intf\<rparr>"

theorem auth_key_is_plain_password_witness:
  "plain_password_given [EIGRP_AUTH_MESSAGE_MODE EIGRP_SET EIGRP_AUTHENTICATION_HMAC_SHA256
      (Some \<lparr>hmac_encryption_type = 0, hmac_password = Some [107]\<rparr>)] [107]"
proof -
  let ?m = "EIGRP_AUTH_MESSAGE_MODE EIGRP_SET EIGRP_AUTHENTICATION_HMAC_SHA256
      (Some \<lparr>hmac_encryption_type = 0, hmac_password = Some [107]\<rparr>)"
  let ?c = "snd (eigrp_auth_message_process True True sample_auth_context ?m)"
  have a: "auth_configured sample_auth_context [?m] ?c"
    using auth_configured.message [OF auth_configured.fresh, of sample_auth_context ?m True True] by simp
  have s: "\<forall>r. context_runtime sample_auth_context = Some r \<longrightarrow> auth_password r = None"
    by (simp add: sample_auth_context_def sample_auth_intf_def)
  have "context_runtime ?c = Some (sample_auth_intf\<lparr>auth_password := Some [107], auth_type := EIGRP_AUTH_TYPE_SHA256\<rparr>)"
    by (simp add: eigrp_auth_mode_update_def sample_auth_context_def auth_hmac_acceptable_def Let_def)
  from auth_key_is_plain_password [OF a s this, of "[107]"] show ?thesis by simp
qed

text \<open>
  With a type 7 password the retained configuration changes while the running interface keeps the
  authentication it had, none at all if there was none.
\<close>

lemma auth_type7_keeps_runtime:
  assumes "context_config cx = Some c" "p \<noteq> []" "length p \<le> 32" "context_runtime cx = Some r"
  shows "eigrp_auth_mode_update True rc EIGRP_SET cx EIGRP_AUTHENTICATION_HMAC_SHA256
           (Some \<lparr>hmac_encryption_type = 7, hmac_password = Some p\<rparr>)
         = (EIGRP_RESULT_UNSUPPORTED,
            cx\<lparr>context_config := Some (c\<lparr>cfg_mode := EIGRP_AUTHENTICATION_HMAC_SHA256, cfg_mode_configured := True,
                      cfg_password := Some p, cfg_encryption_type := 7\<rparr>)\<rparr>)"
  using assms by (simp add: eigrp_auth_mode_update_def auth_hmac_acceptable_def Let_def)

end
