(* ===== verification/Spec2Isabelle.thy ===== *)
theory Spec2Isabelle
  imports Eigrp_Table Eigrp_Update Eigrp_Pfxlimits Eigrp_Ingress Eigrp_Auth_Config
begin

text \<open>
  The portable EIGRP core under \<^verbatim>\<open>src/eigrp/code\<close>: an EIGRP router process without the host it runs on.

  \<^bold>\<open>The program.\<close>  Packets arrive through the address family vectors (\<^verbatim>\<open>eigrp_ipv4.c\<close>, \<^verbatim>\<open>eigrp_ipv6.c\<close>) in a byte
  stream (\<^verbatim>\<open>eigrp_stream.c\<close>).  Route TLVs are decoded by the classic or the wide-metric codec (\<^verbatim>\<open>eigrp_tlv1.c\<close>,
  \<^verbatim>\<open>eigrp_tlv2.c\<close>) into route descriptors.  Destinations live in a hash table keyed by prefix (\<^verbatim>\<open>eigrp_table.c\<close>); each
  has an internal and an external queue of routes ordered by distance (\<^verbatim>\<open>eigrp_list.c\<close>, \<^verbatim>\<open>eigrp_topology.c\<close>).  Every
  received route, neighbour loss or timer is an input of the DUAL state machine of its destination (\<^verbatim>\<open>eigrp_fsm.c\<close>),
  which computes distances (\<^verbatim>\<open>eigrp_metric.c\<close>), selects successors, tells the host RIB, and hands QUERY, REPLY and
  UPDATE work to the packetizer (\<^verbatim>\<open>eigrp_packetizer.c\<close>).  Packets leave through the reliable transport (\<^verbatim>\<open>eigrp_packet.c\<close>):
  one queue of unacknowledged packets per neighbour, one output queue per interface, a paced writer.  Neighbours are found and kept
  by Hellos (\<^verbatim>\<open>eigrp_hello.c\<close>, \<^verbatim>\<open>eigrp_neighbor.c\<close>); packets may be authenticated (\<^verbatim>\<open>eigrp_auth.c\<close>).

  \<^bold>\<open>The library.\<close>
  \<^item> \<open>Eigrp_Prelude\<close>: word types, bytes and big-endian values, lemmas on lists and options.
  \<^item> \<open>Eigrp_Stream\<close> (\<^verbatim>\<open>eigrp_stream.c\<close>): the stream record and every operation; safety of all operations and the
    write/read round trip.
  \<^item> \<open>Eigrp_Prefix\<close> (\<^verbatim>\<open>eigrp_prefix.c\<close>, \<^verbatim>\<open>eigrp_checksum.c\<close>): normalisation, matching, the Internet checksum.
  \<^item> \<open>Eigrp_AF\<close> (\<^verbatim>\<open>eigrp_ipv4.c\<close>, \<^verbatim>\<open>eigrp_ipv6.c\<close>): the address family vectors; prefix codec round trips, receive guards.
  \<^item> \<open>Eigrp_Metric\<close> (\<^verbatim>\<open>eigrp_metric.c\<close>): scaling, the composite metric at its machine widths against the formula over the
    naturals, the total metric over a link, configuration messages.
  \<^item> \<open>Eigrp_Route\<close>, \<open>Eigrp_TLV1\<close>, \<open>Eigrp_TLV2\<close>: route descriptors and the two codecs; round trips, and safety and progress
    of the decoders on arbitrary bytes.
  \<^item> \<open>Eigrp_Index\<close>, \<open>Eigrp_Table\<close>, \<open>Eigrp_List\<close> (\<^verbatim>\<open>eigrp_table.c\<close>, \<^verbatim>\<open>eigrp_list.c\<close>): hash buckets, the prefix table as an
    interpretation of the locale \<open>prefix_map\<close>, the indexed list and the locale \<open>list_order\<close> of ordered insertion.
  \<^item> \<open>Eigrp_Topology\<close> (\<^verbatim>\<open>eigrp_topology.c\<close>): destinations, the two route queues, distances, flags, RIB installation, metric
    changes, retirement; and the frame lemmas (\<open>alike\<close>, \<open>same_but_queues\<close>, \<open>same_but_counts\<close>) the later theories use.
  \<^item> \<open>Eigrp_Paths\<close>: the theorems of path selection, the order of the queues, the flags and the RIB.
  \<^item> \<open>Eigrp_FSM\<close> (\<^verbatim>\<open>eigrp_fsm.c\<close>): classification of events, the transition table, one definition per event function,
    reply status and the stuck-in-active timer.
  \<^item> \<open>Eigrp_Dual\<close>: what every event function leaves behind, that it does not fault, and the moves of one event.
  \<^item> \<open>Eigrp_Machine\<close>: the machine as a transition system (\<open>dual_reach\<close>), its invariant, and the guarantees on diffusing
    computations, over runs of events (\<open>dual_run\<close>): who is owed a reply gets it, unless another QUERY takes its place.
  \<^item> \<open>Eigrp_Frame\<close>: what an event leaves alone (the host, the identity of destination and routes).
  \<^item> \<open>Eigrp_Receive\<close> (\<^verbatim>\<open>eigrp_query.c\<close>, \<^verbatim>\<open>eigrp_reply.c\<close>, \<^verbatim>\<open>eigrp_siaquery.c\<close>, \<^verbatim>\<open>eigrp_siareply.c\<close>): the receivers, over the locale
    \<open>route_decoder\<close> that both codecs interpret; they are total on any bytes and keep the topology table in order.
  \<^item> \<open>Eigrp_Loss\<close> (\<^verbatim>\<open>eigrp_topology_neighbor_down\<close>): the loss of a neighbour leaves no trace of it in any computation.
  \<^item> \<open>Eigrp_Update\<close> (\<^verbatim>\<open>eigrp_update.c\<close>): the UPDATE receiver with the INIT handshake and graceful restart, over the locale
    \<open>update_decoder\<close>; it is total on any series of packets, except after one that starts a graceful restart, whose list it keeps and frees.
  \<^item> \<open>Eigrp_Timer\<close> (\<^verbatim>\<open>eigrp_timer.c\<close>): the timer queue as an implementation of a map from slots to deadlines.
  \<^item> \<open>Eigrp_Pfxlimits\<close> (\<^verbatim>\<open>eigrp_pfxlimits.c\<close>): suspension of an address family by its prefix limit, with its timers; the invariant
    that a suspension is complete and ends.
  \<^item> \<open>Eigrp_Pacing\<close> (\<^verbatim>\<open>eigrp_packet.c\<close>): the transmit budget of an interface against a token bucket over the naturals, over series of
    requests that are granted or deferred and of Hellos.
  \<^item> \<open>Eigrp_Sequence\<close>, \<open>Eigrp_Transport\<close> (\<^verbatim>\<open>eigrp_packet.c\<close>, \<^verbatim>\<open>eigrp_neighbor.c\<close>): sequence numbers, the round-trip estimator, the
    queues, acknowledgement, retransmission, admission of multicasts, adjacency state and the writer.
  \<^item> \<open>Eigrp_Reliable\<close>, \<open>Eigrp_Reliable_Nbr\<close>, \<open>Eigrp_Reliable_Wire\<close>: the transport of one interface as a step relation
    (\<open>rtp_step\<close>), its invariant, and that it never stalls unless a send or an allocation fails.
  \<^item> \<open>Eigrp_Hello\<close> (\<^verbatim>\<open>eigrp_hello.c\<close>): the packet header, the encoder of Hellos and the check of their TLVs; every encoded Hello
    passes the check.
  \<^item> \<open>Eigrp_Adjacency\<close> (\<^verbatim>\<open>eigrp_hello.c\<close>, \<^verbatim>\<open>eigrp_neighbor.c\<close>): sending of Hellos, the Hello receiver, creation and lookup of
    neighbours, the hold timer, static neighbours and the INIT packet; the invariant \<open>adjacency_ok\<close> and that the receiver keeps it.
  \<^item> \<open>Eigrp_Discovery\<close>: encoder and receiver together: routers that agree on the K values become neighbours, and a SEQUENCE Hello puts
    the right ones into conditional receive.
  \<^item> \<open>Eigrp_Ingress\<close> (\<^verbatim>\<open>eigrp_packet.c\<close>): the way of a received packet through the receive thread, the bounded input queue and the
    thread of the address family, up to the handler of its opcode, and their interleavings (\<open>rx_step\<close>): no packet makes a thread read out of
    it or harms the state, what waits in the queue was authenticated, only an acknowledged INIT brings an adjacency up, and a packet of an
    earlier incarnation of its sender is dropped.
  \<^item> \<open>Eigrp_Hash\<close>: cutting a message into blocks, the locale \<open>digest_stream\<close> of a streaming digest and HMAC over it.
  \<^item> \<open>Eigrp_Sine\<close>: the sines of 1 to 64 to 64 bits, with their error, for the constants of MD5.
  \<^item> \<open>Eigrp_Sha256\<close> (\<^verbatim>\<open>eigrp_sha256.c\<close>), \<open>Eigrp_Md5\<close> (\<^verbatim>\<open>eigrp_md5.c\<close>): the code beside the standards, which are stated without the code's
    functions and tables (roots of primes, sines); both interpret
    \<open>digest_stream\<close>, so the digest of a message does not depend on how the caller cuts it.
  \<^item> \<open>Eigrp_Auth\<close> (\<^verbatim>\<open>eigrp_auth.c\<close>, \<^verbatim>\<open>eigrp_packet.c\<close>): keys, the authentication TLVs, signing of a packet, and the checks of
    header, framing, sequence and digest on receive, in which a read outside of the packet is a fault.
  \<^item> \<open>Eigrp_Auth_Sign\<close>: a signed packet is accepted, the receiver accepts exactly the packets the specification describes, and
    (locale \<open>sequence_guard\<close>) refuses a replay until the neighbour is taken down.
  \<^item> \<open>Eigrp_Auth_Config\<close> (\<^verbatim>\<open>eigrp_auth.c\<close>): the configuration commands of authentication and what becomes the key.

  \<^bold>\<open>Correspondence.\<close>  A C struct is a record, an enum a datatype, an integer a word of its width (arithmetic wraps as in C).
  A C function is one definition of the same name; a loop that has its own meaning is a definition of its own.  Functions
  that modify objects return the modified records.  Undefined behaviour (a NULL dereference, a division by
  zero, a read outside of a received packet) is \<open>None\<close>, so a theorem that a function returns \<open>Some\<close> says it does not fault.  Pointers are identities: a route is
  identified by \<open>rid\<close>, a neighbour by \<open>nbr_id\<close>, an interface by \<open>intf_id\<close>; the model keeps the copy of a route in a message
  equal to the stored one, as the shared pointer does.  Allocation failure is an input (\<open>alloc_ok\<close>, per site), as are the
  host's RIB verdict, the outbound filter, the router ID and the admission of a received prefix under the limits, which the
  receivers take as a verdict; the limits themselves, with what reaching one does, are in Eigrp_Pfxlimits.  The
  retransmission timer of a neighbour is always granted.  A guard against an enum value that no enumerator has, as the test
  of the operation in \<open>eigrp_timer_active_time_update\<close>, has no counterpart in a datatype.

  \<^bold>\<open>Termination.\<close>  All definitions are total.  Loops over lists are structural; the growth loop of the stream, the
  TLV loops and the resort loop of a route queue have measures (free space, bytes left, inversions).  The loops of the receivers
  carry the number of bytes left as fuel, which every round of the C loop lowers.

  \<^bold>\<open>Not modelled.\<close>  Sockets and threads; the event log, debug output and statistics, which change no routing state; the packing
  of TLVs into packets and the initial table exchange;
  configuration of interfaces, filters, summaries and redistribution; the FRR and Unix adapters.
\<close>

end
